(* ===== verification/Duell_Prelude.thy ===== *)
theory Duell_Prelude
  imports Main "HOL-Library.Product_Lexorder" "HOL-Library.Multiset"
begin

text \<open>
  Shared ground of the development: JavaScript idioms the sources use everywhere
  (\<open>indexOf\<close>, the remainder operator, the loop that remembers the best index, the
  \<open>{ok, state}\<close> / \<open>{ok, err}\<close> answers), runs of a fallible step function, and the
  generic lemmas on lists that the component theories share.
\<close>

section \<open>Answers, runs\<close>

text \<open>
  \<open>fail(e)\<close> and \<open>ok(s)\<close> of the rule engines: an answer is an error string or the next
  state. An uncaught exception of the source is the error \<open>''TypeError''\<close>.
\<close>

type_synonym 'a answer = "string + 'a"

abbreviation fail :: "string \<Rightarrow> 'a answer" where "fail e \<equiv> Inl e"
abbreviation okay :: "'a \<Rightarrow> 'a answer" where "okay s \<equiv> Inr s"

fun run :: "('s \<Rightarrow> 'a \<Rightarrow> 's answer) \<Rightarrow> 's \<Rightarrow> 'a list \<Rightarrow> 's answer" where
  "run f s [] = Inr s"
| "run f s (a # as) = (case f s a of Inl e \<Rightarrow> Inl e | Inr s' \<Rightarrow> run f s' as)"

section \<open>JavaScript idioms\<close>

text \<open>The remainder of the language takes the sign of the dividend.\<close>

definition js_rem :: "int \<Rightarrow> int \<Rightarrow> int" where
  "js_rem a b = sgn a * (\<bar>a\<bar> mod \<bar>b\<bar>)"

text \<open>\<open>Array.prototype.indexOf\<close>: the first index, or -1.\<close>

fun indexOf :: "'a list \<Rightarrow> 'a \<Rightarrow> int" where
  "indexOf [] x = -1"
| "indexOf (y # ys) x =
     (if y = x then 0 else let i = indexOf ys x in if i < 0 then -1 else i + 1)"

text \<open>
  \<open>var best = 0; for (i = 1; ...) if (better(xs[i], xs[best])) best = i\<close>: the index the
  loop ends with, from index \<open>i\<close> on with \<open>best\<close> so far.
\<close>

fun best_loop :: "('a \<Rightarrow> 'a \<Rightarrow> bool) \<Rightarrow> 'a list \<Rightarrow> nat \<Rightarrow> 'a \<Rightarrow> nat \<Rightarrow> nat" where
  "best_loop better [] i bx b = b"
| "best_loop better (y # ys) i bx b =
     (if better y bx then best_loop better ys (Suc i) y i else best_loop better ys (Suc i) bx b)"

fun best_at :: "('a \<Rightarrow> 'a \<Rightarrow> bool) \<Rightarrow> 'a list \<Rightarrow> nat" where
  "best_at better [] = 0"
| "best_at better (x # xs) = best_loop better xs 1 x 0"

named_theorems answer_splits

lemmas [answer_splits] = sum.splits option.splits if_splits

subsection \<open>Lemmas: answers and runs\<close>

lemma run_append:
  "run f s (as @ bs) = (case run f s as of Inl e \<Rightarrow> Inl e | Inr s' \<Rightarrow> run f s' bs)"
  by (induction as arbitrary: s) (auto split: sum.splits)

lemma run_invariant:
  assumes step: "\<And>s a s'. I s \<Longrightarrow> f s a = Inr s' \<Longrightarrow> I s'"
  shows "I s \<Longrightarrow> run f s as = Inr s' \<Longrightarrow> I s'"
  by (induction as arbitrary: s) (auto split: sum.splits intro: step)

lemma run_measure:
  fixes m :: "'s \<Rightarrow> nat"
  assumes step: "\<And>s a s'. I s \<Longrightarrow> f s a = Inr s' \<Longrightarrow> I s'"
    and dec: "\<And>s a s'. I s \<Longrightarrow> f s a = Inr s' \<Longrightarrow> m s' < m s"
  shows "I s \<Longrightarrow> run f s as = Inr s' \<Longrightarrow> length as + m s' \<le> m s"
proof (induction as arbitrary: s)
  case Nil
  then show ?case by simp
next
  case (Cons a as)
  from Cons.prems(2) obtain s1 where s1: "f s a = Inr s1" "run f s1 as = Inr s'"
    by (auto split: sum.splits)
  have "length as + m s' \<le> m s1" using Cons.IH s1(2) step [OF Cons.prems(1) s1(1)] by blast
  then show ?case using dec [OF Cons.prems(1) s1(1)] by simp
qed

subsection \<open>Lemmas: the remainder, indexOf\<close>

lemma js_rem_nonneg: "0 \<le> a \<Longrightarrow> 0 < b \<Longrightarrow> js_rem a b = a mod b"
  by (cases "a = 0") (simp_all add: js_rem_def sgn_if)

lemma js_rem_neg: "a < 0 \<Longrightarrow> 0 < b \<Longrightarrow> js_rem a b = - ((- a) mod b)"
  by (simp add: js_rem_def sgn_if)

lemma js_rem_normalise: "0 < b \<Longrightarrow> js_rem (js_rem a b + b) b = a mod b"
proof -
  assume b: "0 < b"
  show ?thesis
  proof (cases "0 \<le> a")
    case True
    then show ?thesis using b by (simp add: js_rem_nonneg)
  next
    case False
    have "0 \<le> b - (- a) mod b" using b by (simp add: less_imp_le)
    moreover have "(b - (- a) mod b) mod b = a mod b"
      by (metis add.inverse_inverse minus_mod_self1 mod_minus_eq)
    ultimately show ?thesis using b False by (simp add: js_rem_neg js_rem_nonneg)
  qed
qed

lemma indexOf_ge: "-1 \<le> indexOf xs x"
  by (induction xs) (auto simp: Let_def)

lemma indexOf_neg_iff: "indexOf xs x < 0 \<longleftrightarrow> x \<notin> set xs"
  by (induction xs) (auto simp: Let_def)

lemma indexOf_nonneg_iff: "0 \<le> indexOf xs x \<longleftrightarrow> x \<in> set xs"
  using indexOf_neg_iff [of xs x] by linarith

lemma indexOf_less: "indexOf xs x < int (length xs) \<or> xs = []"
  by (induction xs) (auto simp: Let_def)

lemma indexOf_nth: "x \<in> set xs \<Longrightarrow> xs ! nat (indexOf xs x) = x"
proof (induction xs)
  case (Cons y ys)
  show ?case
  proof (cases "y = x")
    case False
    with Cons.prems have "x \<in> set ys" by auto
    with indexOf_nonneg_iff have "0 \<le> indexOf ys x" by metis
    with False Cons \<open>x \<in> set ys\<close> show ?thesis by (simp add: Let_def nat_add_distrib)
  qed simp
qed simp

lemma indexOf_inj:
  "x \<in> set xs \<Longrightarrow> y \<in> set xs \<Longrightarrow> indexOf xs x = indexOf xs y \<Longrightarrow> x = y"
  by (metis indexOf_nth)

lemma indexOf_bound: "x \<in> set xs \<Longrightarrow> 0 \<le> indexOf xs x \<and> indexOf xs x < int (length xs)"
  using indexOf_less [of xs x] indexOf_nonneg_iff [of xs x] by auto

subsection \<open>Lemmas: the best index\<close>

text \<open>
  With a comparison of keys the loop ends at a maximum, and at the first one.
\<close>

lemma best_loop_cases:
  "best_loop better ys i bx b = b \<or>
   (i \<le> best_loop better ys i bx b \<and> best_loop better ys i bx b < i + length ys)"
  by (induction better ys i bx b rule: best_loop.induct) auto

lemma best_at_less: "xs \<noteq> [] \<Longrightarrow> best_at better xs < length xs"
proof -
  assume "xs \<noteq> []"
  then obtain x ys where "xs = x # ys" by (cases xs) auto
  then show ?thesis using best_loop_cases [of better ys 1 x 0] by auto
qed

lemma best_loop_max:
  fixes k :: "'a \<Rightarrow> int"
  assumes "length pre = i" "b < i" "pre ! b = bx"
    and "\<forall>j < i. k (pre ! j) \<le> k bx" "\<forall>j < b. k (pre ! j) < k bx"
  shows "let r = best_loop (\<lambda>y z. k y > k z) ys i bx b; all = pre @ ys in
     r < length all \<and> (\<forall>j < length all. k (all ! j) \<le> k (all ! r)) \<and>
     (\<forall>j < r. k (all ! j) < k (all ! r))"
  using assms
proof (induction ys arbitrary: pre i bx b)
  case Nil
  then show ?case by (auto simp: Let_def)
next
  case (Cons y ys)
  show ?case
  proof (cases "k y > k bx")
    case True
    have *: "\<forall>j < Suc i. k ((pre @ [y]) ! j) \<le> k y" "\<forall>j < i. k ((pre @ [y]) ! j) < k y"
      "(pre @ [y]) ! i = y"
      using Cons.prems True by (fastforce simp: nth_append less_Suc_eq)+
    show ?thesis
      using Cons.IH [of "pre @ [y]" "Suc i" i y] Cons.prems True *
      by (simp add: Let_def)
  next
    case False
    have *: "\<forall>j < Suc i. k ((pre @ [y]) ! j) \<le> k bx" "\<forall>j < b. k ((pre @ [y]) ! j) < k bx"
      "(pre @ [y]) ! b = bx"
      using Cons.prems False by (auto simp: nth_append less_Suc_eq)
    show ?thesis
      using Cons.IH [of "pre @ [y]" "Suc i" b bx] Cons.prems False *
      by (simp add: Let_def)
  qed
qed

lemma best_at_max:
  fixes k :: "'a \<Rightarrow> int"
  assumes "xs \<noteq> []"
  defines "r \<equiv> best_at (\<lambda>y z. k y > k z) xs"
  shows "r < length xs" and "\<forall>j < length xs. k (xs ! j) \<le> k (xs ! r)"
    and "\<forall>j < r. k (xs ! j) < k (xs ! r)"
proof -
  obtain x ys where xs: "xs = x # ys" using assms(1) by (cases xs) auto
  have "let r = best_loop (\<lambda>y z. k y > k z) ys 1 x 0; all = [x] @ ys in
     r < length all \<and> (\<forall>j < length all. k (all ! j) \<le> k (all ! r)) \<and>
     (\<forall>j < r. k (all ! j) < k (all ! r))"
    by (rule best_loop_max) auto
  then show "r < length xs" and "\<forall>j < length xs. k (xs ! j) \<le> k (xs ! r)"
    and "\<forall>j < r. k (xs ! j) < k (xs ! r)"
    unfolding r_def xs by (simp_all add: Let_def)
qed

text \<open>
  With a rule \<open>t\<close> for ties the loop still ends at a maximum: at the last one where \<open>t\<close> holds, at
  the first one otherwise.
\<close>

lemma best_loop_tie:
  fixes k :: "'a \<Rightarrow> int"
  assumes "length pre = i" "b < i" "pre ! b = bx"
    and "\<forall>j < i. k (pre ! j) \<le> k bx" "\<not> t bx \<longrightarrow> (\<forall>j < b. k (pre ! j) < k bx)"
    and "t bx \<longrightarrow> (\<forall>j < i. b < j \<longrightarrow> k (pre ! j) < k bx)"
    and tie: "\<And>x y. x \<in> set (pre @ ys) \<Longrightarrow> y \<in> set (pre @ ys) \<Longrightarrow> k x = k y \<Longrightarrow> t x = t y"
  shows "let r = best_loop (\<lambda>y z. k y > k z \<or> k y = k z \<and> t y) ys i bx b; all = pre @ ys in
     r < length all \<and> (\<forall>j < length all. k (all ! j) \<le> k (all ! r)) \<and>
     (\<not> t (all ! r) \<longrightarrow> (\<forall>j < r. k (all ! j) < k (all ! r))) \<and>
     (t (all ! r) \<longrightarrow> (\<forall>j < length all. r < j \<longrightarrow> k (all ! j) < k (all ! r)))"
  using assms
proof (induction ys arbitrary: pre i bx b)
  case Nil
  then show ?case by (auto simp: Let_def)
next
  case (Cons y ys)
  have bxy: "bx \<in> set (pre @ y # ys)" "y \<in> set (pre @ y # ys)" using Cons.prems(1-3) by auto
  have ties: "\<And>x z. x \<in> set ((pre @ [y]) @ ys) \<Longrightarrow> z \<in> set ((pre @ [y]) @ ys) \<Longrightarrow> k x = k z \<Longrightarrow> t x = t z"
    unfolding append.assoc append_Cons append_Nil by (rule Cons.prems(7))
  show ?case
  proof (cases "k y > k bx \<or> k y = k bx \<and> t y")
    case True
    have *: "\<forall>j < Suc i. k ((pre @ [y]) ! j) \<le> k y" "(pre @ [y]) ! i = y"
      using Cons.prems(1,4) True by (fastforce simp: nth_append less_Suc_eq)+
    have **: "\<not> t y \<longrightarrow> (\<forall>j < i. k ((pre @ [y]) ! j) < k y)"
      using Cons.prems(1,4) True by (fastforce simp: nth_append)
    have l: "length (pre @ [y]) = Suc i" "i < Suc i" "t y \<longrightarrow> (\<forall>j < Suc i. i < j \<longrightarrow> k ((pre @ [y]) ! j) < k y)"
      using Cons.prems(1) by simp_all
    note ih = Cons.IH [OF l(1,2) *(2,1) ** l(3) ties]
    have "best_loop (\<lambda>y z. k y > k z \<or> k y = k z \<and> t y) (y # ys) i bx b
        = best_loop (\<lambda>y z. k y > k z \<or> k y = k z \<and> t y) ys (Suc i) y i" using True by simp
    then show ?thesis using ih unfolding append.assoc append_Cons append_Nil by (simp only:)
  next
    case False
    have *: "\<forall>j < Suc i. k ((pre @ [y]) ! j) \<le> k bx" "(pre @ [y]) ! b = bx"
      "\<not> t bx \<longrightarrow> (\<forall>j < b. k ((pre @ [y]) ! j) < k bx)"
      using Cons.prems(1-5) False by (auto simp: nth_append less_Suc_eq)
    have **: "t bx \<longrightarrow> (\<forall>j < Suc i. b < j \<longrightarrow> k ((pre @ [y]) ! j) < k bx)"
      using Cons.prems(1,6) False Cons.prems(7) [OF bxy(2,1)] by (auto simp: nth_append less_Suc_eq not_less order_le_less)
    have l: "length (pre @ [y]) = Suc i" "b < Suc i" using Cons.prems(1,2) by simp_all
    note ih = Cons.IH [OF l *(2,1,3) ** ties]
    have "best_loop (\<lambda>y z. k y > k z \<or> k y = k z \<and> t y) (y # ys) i bx b
        = best_loop (\<lambda>y z. k y > k z \<or> k y = k z \<and> t y) ys (Suc i) bx b" using False by auto
    then show ?thesis using ih unfolding append.assoc append_Cons append_Nil by (simp only:)
  qed
qed

lemma best_at_tie:
  fixes k :: "'a \<Rightarrow> int"
  assumes "xs \<noteq> []" and tie: "\<And>x y. x \<in> set xs \<Longrightarrow> y \<in> set xs \<Longrightarrow> k x = k y \<Longrightarrow> t x = t y"
  defines "r \<equiv> best_at (\<lambda>y z. k y > k z \<or> k y = k z \<and> t y) xs"
  shows "r < length xs" and "\<forall>j < length xs. k (xs ! j) \<le> k (xs ! r)"
    and "\<not> t (xs ! r) \<longrightarrow> (\<forall>j < r. k (xs ! j) < k (xs ! r))"
    and "t (xs ! r) \<longrightarrow> (\<forall>j < length xs. r < j \<longrightarrow> k (xs ! j) < k (xs ! r))"
proof -
  obtain x ys where xs: "xs = x # ys" using assms(1) by (cases xs) auto
  have "let r = best_loop (\<lambda>y z. k y > k z \<or> k y = k z \<and> t y) ys 1 x 0; all = [x] @ ys in
     r < length all \<and> (\<forall>j < length all. k (all ! j) \<le> k (all ! r)) \<and>
     (\<not> t (all ! r) \<longrightarrow> (\<forall>j < r. k (all ! j) < k (all ! r))) \<and>
     (t (all ! r) \<longrightarrow> (\<forall>j < length all. r < j \<longrightarrow> k (all ! j) < k (all ! r)))"
  proof (rule best_loop_tie)
    fix u v assume "u \<in> set ([x] @ ys)" "v \<in> set ([x] @ ys)" "k u = k v"
    then show "t u = t v" using tie [of u v] xs by simp
  qed simp_all
  then have "r < length xs \<and> (\<forall>j < length xs. k (xs ! j) \<le> k (xs ! r))
      \<and> (\<not> t (xs ! r) \<longrightarrow> (\<forall>j < r. k (xs ! j) < k (xs ! r)))
      \<and> (t (xs ! r) \<longrightarrow> (\<forall>j < length xs. r < j \<longrightarrow> k (xs ! j) < k (xs ! r)))"
    unfolding r_def xs Let_def append_Cons append_Nil best_at.simps .
  then show "r < length xs" and "\<forall>j < length xs. k (xs ! j) \<le> k (xs ! r)"
    and "\<not> t (xs ! r) \<longrightarrow> (\<forall>j < r. k (xs ! j) < k (xs ! r))"
    and "t (xs ! r) \<longrightarrow> (\<forall>j < length xs. r < j \<longrightarrow> k (xs ! j) < k (xs ! r))"
    by blast+
qed

subsection \<open>Lemmas: filters, sorting\<close>

lemma hd_sort_key_in: "xs \<noteq> [] \<Longrightarrow> hd (sort_key f xs) \<in> set xs"
  by (metis hd_in_set length_0_conv length_sort set_sort)

lemma filter_neq_Nil_iff: "filter P xs \<noteq> [] \<longleftrightarrow> (\<exists>x \<in> set xs. P x)"
  by (auto simp: filter_empty_conv)

lemma sum_list_mset_cong: "mset xs = mset ys \<Longrightarrow> sum_list (map f xs) = (sum_list (map f ys) :: int)"
  by (metis mset_map sum_mset_sum_list)

end
