(* ===== verification/Cards.thy ===== *)
theory Cards
  imports Duell_Prelude
begin

text \<open>
  The playing cards the three rule engines \<open>skat.js\<close>, \<open>doko.js\<close> and \<open>bauernskat.js\<close>
  share. The sources write a card as a two-letter string, suit then rank (\<open>"CQ"\<close>), and read
  \<open>c[0]\<close> and \<open>c[1]\<close>; here it is a pair of the two. The order on cards is the order of
  those strings (the engines' automatic players break ties by the card's name), so suits
  come as C < D < H < S and ranks as 7 < 8 < 9 < A < J < K < Q < T, the order of the
  characters.
\<close>

datatype suit = SuitC | SuitS | SuitH | SuitD
datatype rank = RankA | RankT | RankK | RankQ | RankJ | Rank9 | Rank8 | Rank7
datatype card = Card (suit: suit) (rank: rank)

text \<open>One card on the table: who played it.\<close>

datatype play = Play (pseat: int) (pcard: card)

text \<open>The character codes of the two letters of a card's name.\<close>

fun suit_char :: "suit \<Rightarrow> nat" where
  "suit_char SuitC = 67" | "suit_char SuitD = 68" | "suit_char SuitH = 72" | "suit_char SuitS = 83"

fun rank_char :: "rank \<Rightarrow> nat" where
  "rank_char Rank7 = 55" | "rank_char Rank8 = 56" | "rank_char Rank9 = 57" | "rank_char RankA = 65"
| "rank_char RankJ = 74" | "rank_char RankK = 75" | "rank_char RankQ = 81" | "rank_char RankT = 84"

fun name_key :: "card \<Rightarrow> nat \<times> nat" where
  "name_key (Card s r) = (suit_char s, rank_char r)"

lemma suit_char_inj [simp]: "suit_char x = suit_char y \<longleftrightarrow> x = y"
  by (cases x; cases y) simp_all

lemma rank_char_inj [simp]: "rank_char x = rank_char y \<longleftrightarrow> x = y"
  by (cases x; cases y) simp_all

lemma name_key_inj [simp]: "name_key x = name_key y \<longleftrightarrow> x = y"
  by (cases x; cases y) simp_all

instantiation card :: linorder
begin

definition less_eq_card :: "card \<Rightarrow> card \<Rightarrow> bool" where
  "less_eq_card x y \<longleftrightarrow> name_key x \<le> name_key y"

definition less_card :: "card \<Rightarrow> card \<Rightarrow> bool" where
  "less_card x y \<longleftrightarrow> name_key x < name_key y"

instance
proof
  fix x y z :: card
  show "x < y \<longleftrightarrow> x \<le> y \<and> \<not> y \<le> x"
    by (simp add: less_eq_card_def less_card_def less_le_not_le)
  show "x \<le> x" by (simp add: less_eq_card_def)
  show "x \<le> z" if "x \<le> y" "y \<le> z" using that unfolding less_eq_card_def by (rule order_trans)
  show "x = y" if "x \<le> y" "y \<le> x" using that by (simp add: less_eq_card_def flip: name_key_inj)
  show "x \<le> y \<or> y \<le> x" unfolding less_eq_card_def by (rule linear)
qed

end

text \<open>What a card follows: trump (the sources' letter \<open>"T"\<close>) or its own suit.\<close>

datatype led = Trump | Plain suit

text \<open>The tricks of the engines: \<open>{lead, cards}\<close>, once complete with \<open>winner\<close>.\<close>

record trick =
  lead :: int
  cards :: "play list"

record won_trick = trick +
  winner :: int

text \<open>The card points (eyes) both card tables agree on.\<close>

fun EYES :: "rank \<Rightarrow> int" where
  "EYES RankA = 11" | "EYES RankT = 10" | "EYES RankK = 4" | "EYES RankQ = 3" | "EYES RankJ = 2"
| "EYES Rank9 = 0" | "EYES Rank8 = 0" | "EYES Rank7 = 0"

lemma EYES_nonneg [simp]: "0 \<le> EYES r"
  by (cases r) simp_all

lemma EYES_le [simp]: "EYES r \<le> 11"
  by (cases r) simp_all

definition all_suits :: "suit list" where
  "all_suits = [SuitC, SuitS, SuitH, SuitD]"

lemma set_all_suits [simp]: "s \<in> set all_suits"
  by (cases s) (simp_all add: all_suits_def)

end
