(* ===== verification/Skat.thy ===== *)
theory Skat
  imports Cards
begin

text \<open>
  The Skat rules of \<open>skat.js\<close>: bidding, contracts, tricks, scoring, the audit of a
  finished hand and the automatic player. The public state is a record, an action of the
  network a record whose optional fields are absent or unusable in the way the source tests
  for (a \<open>seat\<close> that is no number, a \<open>card\<close> that is no card), and \<open>apply\<close> an
  answer. The source throws a \<open>TypeError\<close> when it reads a field of \<open>null\<close>; the model
  returns that as an error, and the invariant shows that no reachable state gives it.
  Identifiers of the source that are Isabelle keywords carry a suffix
  (\<open>apply_action\<close> for \<open>apply\<close>, \<open>is_done\<close> for \<open>done\<close>, \<open>next_seat\<close> for the field
  \<open>next\<close>).
\<close>

section \<open>Constants\<close>

definition SEATS :: int where "SEATS = 3"
definition HAND :: nat where "HAND = 10"

definition SUITS :: "suit list" where "SUITS = [SuitC, SuitS, SuitH, SuitD]"

definition RANKS :: "rank list" where
  "RANKS = [RankA, RankT, RankK, RankQ, RankJ, Rank9, Rank8, Rank7]"

definition DECK :: "card list" where
  "DECK = concat (map (\<lambda>s. map (Card s) RANKS) SUITS)"

text \<open>A game: one of the suits, grand (\<open>"G"\<close>) or null (\<open>"N"\<close>).\<close>

datatype game = GSuit suit | Grand | GNull

fun BASE :: "game \<Rightarrow> int" where
  "BASE (GSuit SuitD) = 9" | "BASE (GSuit SuitH) = 10" | "BASE (GSuit SuitS) = 11"
| "BASE (GSuit SuitC) = 12" | "BASE Grand = 24" | "BASE GNull = 0"

definition RULES :: "string list" where "RULES = [''ramsch'', ''kontra'']"

definition house_rules :: "string list option \<Rightarrow> string list" where
  "house_rules r = filter (\<lambda>k. k \<in> set (case r of None \<Rightarrow> [] | Some l \<Rightarrow> l)) RULES"

definition JACKS :: "card list" where
  "JACKS = map (\<lambda>s. Card s RankJ) [SuitC, SuitS, SuitH, SuitD]"

definition PLAIN :: "rank list" where
  "PLAIN = [RankA, RankT, RankK, RankQ, Rank9, Rank8, Rank7]"

definition NULLRANK :: "rank list" where
  "NULLRANK = [RankA, RankK, RankQ, RankJ, RankT, Rank9, Rank8, Rank7]"

text \<open>The keys of the object \<open>v\<close> of the source, sorted and without duplicates.\<close>

definition BIDS :: "int list" where
  "BIDS = sort (remdups
     (concat (map (\<lambda>g. map (\<lambda>m. BASE (GSuit g) * m) [2..18]) [SuitD, SuitH, SuitS, SuitC])
      @ map (\<lambda>m. BASE Grand * m) [2..11] @ [23, 35, 46, 59]))"

section \<open>State\<close>

datatype ask = AskBid | AskAnswer | AskNone
datatype stage = Mh | Rh | Fh
datatype phase = PBid | PSkat | PPush | PDeclare | PShow | PPlay | PDone

record bidding =
  b_v :: int
  b_bidder :: int
  b_holder :: int
  b_ask :: ask
  b_stage :: stage
  b_passed :: "int list"
  b_last :: "int option"

record contract =
  c_game :: game
  c_hand :: bool
  c_schneider :: bool
  c_schwarz :: bool
  c_ouvert :: bool
  c_ramsch :: bool

record state =
  rules :: "string list"
  kontra :: nat
  dealer :: int
  phase :: phase
  bid :: bidding
  declarer :: int
  pickedUp :: bool
  pushed :: bool
  contract :: "contract option"
  opened :: "card list option"
  trick :: "Cards.trick option"
  tricks :: "won_trick list"
  next_seat :: int
  passedOut :: bool

datatype act_type = TBid | THold | TPass | TPickup | TPush | TDeclare | TShow | TPlay | TKontra | TRe | TOther

record action =
  a_t :: act_type
  a_seat :: "int option"
  a_v :: "int option"
  a_game :: "game option"
  a_hand :: bool
  a_schneider :: bool
  a_schwarz :: bool
  a_ouvert :: bool
  a_card :: "card option"
  a_cards :: "card option list option"

definition mk_act :: "act_type \<Rightarrow> int \<Rightarrow> action" where
  "mk_act ty s = \<lparr>a_t = ty, a_seat = Some s, a_v = None, a_game = None, a_hand = False,
     a_schneider = False, a_schwarz = False, a_ouvert = False, a_card = None, a_cards = None\<rparr>"

definition has :: "state \<Rightarrow> string \<Rightarrow> bool" where
  "has s k \<longleftrightarrow> k \<in> set (rules s)"

section \<open>Seats, cards, the start\<close>

definition forehand :: "int \<Rightarrow> int" where "forehand d = (d + 1) mod 3"
definition middlehand :: "int \<Rightarrow> int" where "middlehand d = (d + 2) mod 3"
definition rearhand :: "int \<Rightarrow> int" where "rearhand d = d"

definition eyes :: "card list \<Rightarrow> int" where
  "eyes cs = sum_list (map (\<lambda>c. EYES (rank c)) cs)"

definition isCard :: "card option \<Rightarrow> bool" where
  "isCard c \<longleftrightarrow> (case c of None \<Rightarrow> False | Some x \<Rightarrow> x \<in> set DECK)"

definition layout :: "nat list list \<times> nat list" where
  "layout = (map (\<lambda>s. map (\<lambda>i. s * HAND + i) [0..<HAND]) [0..<nat SEATS], [30, 31])"

definition start :: "int option \<Rightarrow> string list option \<Rightarrow> state" where
  "start d r =
     (let dl = (case d of Some x \<Rightarrow> js_rem (js_rem x 3 + 3) 3 | None \<Rightarrow> 0) in
      \<lparr>rules = house_rules r, kontra = 0, dealer = dl, phase = PBid,
       bid = \<lparr>b_v = 0, b_bidder = middlehand dl, b_holder = forehand dl, b_ask = AskBid,
              b_stage = Mh, b_passed = [], b_last = None\<rparr>,
       declarer = -1, pickedUp = False, pushed = False, contract = None, opened = None,
       trick = None, tricks = [], next_seat = -1, passedOut = False\<rparr>)"

section \<open>Cards in a contract\<close>

definition trumpOrder :: "game \<Rightarrow> card list" where
  "trumpOrder g = (case g of GNull \<Rightarrow> [] | Grand \<Rightarrow> JACKS | GSuit s \<Rightarrow> JACKS @ map (Card s) PLAIN)"

definition isTrump :: "game \<Rightarrow> card \<Rightarrow> bool" where
  "isTrump g c \<longleftrightarrow> g \<noteq> GNull \<and> (rank c = RankJ \<or> (g \<noteq> Grand \<and> GSuit (suit c) = g))"

definition suitOf :: "game \<Rightarrow> card \<Rightarrow> led" where
  "suitOf g c = (if isTrump g c then Trump else Plain (suit c))"

definition power :: "game \<Rightarrow> card \<Rightarrow> led \<Rightarrow> int" where
  "power g c l =
     (if isTrump g c then 100 - indexOf (trumpOrder g) c
      else if Plain (suit c) \<noteq> l then -1
      else 50 - indexOf (if g = GNull then NULLRANK else PLAIN) (rank c))"

text \<open>
  The source reads \<open>cards[0]\<close>: it is called with a card on the table only (a full trick in
  \<open>play\<close>, after the guard in \<open>explain\<close>).
\<close>

definition bestIndex :: "game \<Rightarrow> play list \<Rightarrow> nat" where
  "bestIndex g cs =
     (let l = suitOf g (pcard (hd cs))
      in best_at (\<lambda>x y. power g (pcard x) l > power g (pcard y) l) cs)"

definition trickWinner :: "game \<Rightarrow> play list \<Rightarrow> int" where
  "trickWinner g cs = pseat (cs ! bestIndex g cs)"

datatype how = HLead | HFollow | HTrump | HOff

record explanation =
  x_led :: led
  x_win :: nat
  x_seat :: int
  x_card :: card
  x_trumped :: bool
  x_plays :: "(int \<times> card \<times> how) list"
  x_order :: "card list"

definition explain :: "game \<Rightarrow> play list \<Rightarrow> explanation option" where
  "explain g cs =
     (if cs = [] then None
      else let l = suitOf g (pcard (hd cs)); i = bestIndex g cs; w = pcard (cs ! i) in
        Some \<lparr>x_led = l, x_win = i, x_seat = pseat (cs ! i), x_card = w,
          x_trumped = (l \<noteq> Trump \<and> isTrump g w),
          x_plays = map (\<lambda>(k, x). (pseat x, pcard x,
             if k = 0 then HLead else if suitOf g (pcard x) = l then HFollow
             else if isTrump g (pcard x) then HTrump else HOff)) (enumerate 0 cs),
          x_order = trumpOrder g\<rparr>)"

definition all_tricks :: "state \<Rightarrow> play list list" where
  "all_tricks s = map cards (tricks s) @ (case trick s of None \<Rightarrow> [] | Some t \<Rightarrow> [cards t])"

definition playedBy :: "state \<Rightarrow> int \<Rightarrow> nat" where
  "playedBy s seat = sum_list (map (\<lambda>cs. length (filter (\<lambda>x. pseat x = seat) cs)) (all_tricks s))"

definition kontraOk :: "state \<Rightarrow> int \<Rightarrow> act_type \<Rightarrow> bool" where
  "kontraOk s seat t =
     (if \<not> has s ''kontra'' \<or> phase s \<noteq> PPlay then False
      else case contract s of None \<Rightarrow> False | Some c \<Rightarrow>
        if c_ramsch c then False
        else if t = TKontra then kontra s = 0 \<and> seat \<noteq> declarer s \<and> playedBy s seat = 0
        else t = TRe \<and> kontra s = 1 \<and> seat = declarer s \<and> playedBy s seat \<le> 1)"

definition kontraLate :: "state \<Rightarrow> action option \<Rightarrow> bool" where
  "kontraLate s a = (case a of None \<Rightarrow> False | Some x \<Rightarrow>
     a_t x = TKontra \<and> has s ''kontra'' \<and> phase s = PPlay \<and>
     (case contract s of None \<Rightarrow> False | Some c \<Rightarrow> \<not> c_ramsch c) \<and>
     1 \<le> kontra s \<and> a_seat x \<noteq> Some (declarer s))"

definition mayPlay :: "game \<Rightarrow> card list \<Rightarrow> card \<Rightarrow> play list \<Rightarrow> bool" where
  "mayPlay g h c t =
     (if c \<notin> set h then False
      else case t of [] \<Rightarrow> True | x # _ \<Rightarrow>
        let l = suitOf g (pcard x) in
        if suitOf g c = l then True else \<not> list_ex (\<lambda>d. suitOf g d = l) h)"

text \<open>
  \<open>tops\<close>: how many of the highest trumps the cards hold without a gap, or lack without a
  gap. \<open>order[0]\<close> of an empty order is \<open>undefined\<close>, which no card equals.
\<close>

fun tops_run :: "bool \<Rightarrow> card list \<Rightarrow> card list \<Rightarrow> nat" where
  "tops_run w cs [] = 0"
| "tops_run w cs (x # xs) = (if (x \<in> set cs) = w then Suc (tops_run w cs xs) else 0)"

definition tops :: "game \<Rightarrow> card list \<Rightarrow> bool \<times> nat" where
  "tops g cs =
     (let order = trumpOrder g; w = (case order of [] \<Rightarrow> False | x # _ \<Rightarrow> x \<in> set cs)
      in (w, tops_run w cs order))"

definition nullValue :: "bool \<Rightarrow> bool \<Rightarrow> int" where
  "nullValue hand ouvert = (if ouvert then (if hand then 59 else 46) else (if hand then 35 else 23))"

section \<open>Whose move, what may be done\<close>

definition bidSeat :: "state \<Rightarrow> int \<Rightarrow> bool" where
  "bidSeat s seat \<longleftrightarrow>
     seat = (if b_ask (bid s) = AskBid then b_bidder (bid s) else b_holder (bid s))"

definition turn :: "state \<Rightarrow> int" where
  "turn s = (case phase s of
       PBid \<Rightarrow> (if b_ask (bid s) = AskBid then b_bidder (bid s) else b_holder (bid s))
     | PSkat \<Rightarrow> declarer s | PPush \<Rightarrow> declarer s | PDeclare \<Rightarrow> declarer s | PShow \<Rightarrow> declarer s
     | PPlay \<Rightarrow> next_seat s
     | PDone \<Rightarrow> -1)"

definition is_done :: "state \<Rightarrow> bool" where
  "is_done s \<longleftrightarrow> phase s = PDone"

text \<open>\<open>declareOptions\<close>: (game, hand, schneider, schwarz, ouvert).\<close>

definition declareOptions :: "state \<Rightarrow> (game \<times> bool \<times> bool \<times> bool \<times> bool) list" where
  "declareOptions s =
     (let h = (\<not> pickedUp s) in
      concat (map (\<lambda>g. [(g, h, False, False, False)] @
          (if h then [(g, True, True, False, False), (g, True, True, True, False), (g, True, True, True, True)]
           else []))
        [GSuit SuitC, GSuit SuitS, GSuit SuitH, GSuit SuitD, Grand])
      @ concat (map (\<lambda>ov. if nullValue h ov \<ge> b_v (bid s) then [(GNull, h, False, False, ov)] else [])
        [False, True]))"

definition declare_act :: "int \<Rightarrow> game \<times> bool \<times> bool \<times> bool \<times> bool \<Rightarrow> action" where
  "declare_act seat o1 = (case o1 of (g, h, sn, sw, ov) \<Rightarrow>
     (mk_act TDeclare seat)\<lparr>a_game := Some g, a_hand := h, a_schneider := sn, a_schwarz := sw, a_ouvert := ov\<rparr>)"

text \<open>In the phase of play there is a contract and a trick (the invariant); the source reads both.\<close>

definition game_of :: "state \<Rightarrow> game" where
  "game_of s = c_game (the (contract s))"

definition trick_cards :: "state \<Rightarrow> play list" where
  "trick_cards s = (case trick s of None \<Rightarrow> [] | Some t \<Rightarrow> cards t)"

definition actions :: "state \<Rightarrow> int \<Rightarrow> card list \<Rightarrow> action list" where
  "actions s seat h =
     (let b = bid s in
      if phase s = PBid \<and> bidSeat s seat then
        (if b_ask b = AskBid
         then map (\<lambda>v. (mk_act TBid seat)\<lparr>a_v := Some v\<rparr>)
                (filter (\<lambda>v. v > b_v b \<and> (b_stage b \<noteq> Fh \<or> v = 18)) BIDS)
         else [mk_act THold seat])
        @ [mk_act TPass seat]
      else if phase s = PSkat \<and> seat = declarer s then
        mk_act TPickup seat # map (declare_act seat) (declareOptions s)
      else if phase s = PPush \<and> seat = declarer s then [mk_act TPush seat]
      else if phase s = PDeclare \<and> seat = declarer s then map (declare_act seat) (declareOptions s)
      else if phase s = PShow \<and> seat = declarer s then [(mk_act TShow seat)\<lparr>a_cards := Some (map Some h)\<rparr>]
      else if phase s = PPlay then
        (if seat = next_seat s
         then map (\<lambda>c. (mk_act TPlay seat)\<lparr>a_card := Some c\<rparr>)
                (filter (\<lambda>c. mayPlay (game_of s) h c (trick_cards s)) h)
         else [])
        @ map (\<lambda>t. mk_act t seat) (filter (\<lambda>t. kontraOk s seat t) [TKontra, TRe])
      else [])"

section \<open>Applying an action\<close>

definition toDeclarer :: "state \<Rightarrow> int \<Rightarrow> state" where
  "toDeclarer s seat =
     s\<lparr>declarer := seat, phase := PSkat,
       bid := (bid s)\<lparr>b_ask := AskNone, b_v := (if b_v (bid s) = 0 then 18 else b_v (bid s))\<rparr>\<rparr>"

definition lead_off :: "state \<Rightarrow> state" where
  "lead_off s = s\<lparr>next_seat := forehand (dealer s), trick := Some \<lparr>lead = forehand (dealer s), cards = []\<rparr>\<rparr>"

definition applyBid :: "state \<Rightarrow> int \<Rightarrow> action \<Rightarrow> state answer" where
  "applyBid s seat a =
     (let b = bid s; d = dealer s in
      if \<not> bidSeat s seat then fail ''turn''
      else if a_t a = TBid then
        (if b_ask b \<noteq> AskBid then fail ''phase''
         else case a_v a of None \<Rightarrow> fail ''value'' | Some v \<Rightarrow>
           if v \<notin> set BIDS \<or> v \<le> b_v b then fail ''value''
           else if b_stage b = Fh then
             (if v \<noteq> 18 then fail ''value'' else okay (toDeclarer (s\<lparr>bid := b\<lparr>b_v := 18\<rparr>\<rparr>) seat))
           else okay (s\<lparr>bid := b\<lparr>b_v := v, b_last := Some seat, b_ask := AskAnswer\<rparr>\<rparr>))
      else if a_t a = THold then
        (if b_ask b \<noteq> AskAnswer then fail ''phase'' else okay (s\<lparr>bid := b\<lparr>b_ask := AskBid\<rparr>\<rparr>))
      else if a_t a \<noteq> TPass then fail ''action''
      else
        let b1 = b\<lparr>b_passed := b_passed b @ [seat]\<rparr>; s1 = s\<lparr>bid := b1\<rparr> in
        if b_stage b = Fh then
          let s2 = s\<lparr>bid := b1\<lparr>b_ask := AskNone\<rparr>\<rparr> in
          if \<not> has s ''ramsch'' then okay (s2\<lparr>phase := PDone, passedOut := True\<rparr>)
          else okay (lead_off (s2\<lparr>phase := PPlay,
                 contract := Some \<lparr>c_game = Grand, c_hand = True, c_schneider = False,
                   c_schwarz = False, c_ouvert = False, c_ramsch = True\<rparr>\<rparr>))
        else
          let survivor = (if seat = b_bidder b then b_holder b else b_bidder b) in
          if b_stage b = Mh then
            okay (s\<lparr>bid := b1\<lparr>b_stage := Rh, b_bidder := rearhand d, b_holder := survivor, b_ask := AskBid\<rparr>\<rparr>)
          else if b_v b = 0 then
            okay (s\<lparr>bid := b1\<lparr>b_stage := Fh, b_bidder := forehand d, b_holder := -1, b_ask := AskBid\<rparr>\<rparr>)
          else okay (toDeclarer s1 survivor))"

definition checkContract :: "state \<Rightarrow> action \<Rightarrow> string option" where
  "checkContract s a =
     (let hand = a_hand a; sn = a_schneider a; sw = a_schwarz a; ov = a_ouvert a in
      case a_game a of None \<Rightarrow> Some ''game'' | Some g \<Rightarrow>
      if hand = pickedUp s then Some ''hand''
      else if g = GNull then
        (if sn \<or> sw then Some ''null''
         else if nullValue hand ov < b_v (bid s) then Some ''overbid'' else None)
      else if (sn \<or> sw \<or> ov) \<and> \<not> hand then Some ''hand''
      else if sw \<and> \<not> sn then Some ''schwarz''
      else if ov \<and> \<not> sw then Some ''ouvert''
      else None)"

definition played :: "state \<Rightarrow> card list" where
  "played s = map pcard (concat (all_tricks s))"

text \<open>\<open>play\<close>: one card on the table; the caller has checked that it is the seat's turn.\<close>

definition play_card :: "state \<Rightarrow> int \<Rightarrow> action \<Rightarrow> state answer" where
  "play_card s seat a =
     (case contract s of None \<Rightarrow> fail ''TypeError'' | Some ct \<Rightarrow>
      let g = c_game ct in
      if \<not> isCard (a_card a) then fail ''card''
      else let c = the (a_card a) in
      if c \<in> set (played s) then fail ''twice''
      else if (case opened s of None \<Rightarrow> False | Some op \<Rightarrow>
                 let left = filter (\<lambda>x. x \<notin> set (played s)) op in
                 if seat = declarer s then \<not> mayPlay g left c (trick_cards s) else c \<in> set left)
        then fail ''open''
      else case trick s of None \<Rightarrow> fail ''TypeError'' | Some tr \<Rightarrow>
        let cs = cards tr @ [Play seat c] in
        if int (length cs) < SEATS
        then okay (s\<lparr>trick := Some (tr\<lparr>cards := cs\<rparr>), next_seat := (seat + 1) mod 3\<rparr>)
        else
          let w = trickWinner g cs;
              ts = tricks s @ [\<lparr>lead = lead tr, cards = cs, winner = w\<rparr>] in
          if length ts = HAND \<or> (g = GNull \<and> w = declarer s)
          then okay (s\<lparr>tricks := ts, phase := PDone, trick := None, next_seat := -1\<rparr>)
          else okay (s\<lparr>tricks := ts, trick := Some \<lparr>lead = w, cards = []\<rparr>, next_seat := w\<rparr>))"

definition apply_declare :: "state \<Rightarrow> action \<Rightarrow> state answer" where
  "apply_declare s a =
     (case checkContract s a of Some e \<Rightarrow> fail e | None \<Rightarrow>
      let g = the (a_game a);
          c = \<lparr>c_game = g, c_hand = a_hand a, c_schneider = (g \<noteq> GNull \<and> a_schneider a),
               c_schwarz = (g \<noteq> GNull \<and> a_schwarz a), c_ouvert = a_ouvert a, c_ramsch = False\<rparr>
      in okay (lead_off (s\<lparr>contract := Some c, phase := (if c_ouvert c then PShow else PPlay)\<rparr>)))"

definition apply_show :: "state \<Rightarrow> action \<Rightarrow> state answer" where
  "apply_show s a =
     (case a_cards a of None \<Rightarrow> fail ''cards'' | Some cs \<Rightarrow>
        if length cs \<noteq> HAND \<or> \<not> list_all isCard cs \<or> card (set cs) \<noteq> HAND then fail ''cards''
        else okay (s\<lparr>opened := Some (map the cs), phase := PPlay\<rparr>))"

definition apply_action :: "state \<Rightarrow> action \<Rightarrow> state answer" where
  "apply_action s a =
     (case a_seat a of None \<Rightarrow> fail ''action'' | Some seat \<Rightarrow>
      if phase s = PDone then fail ''done''
      else if phase s = PBid then applyBid s seat a
      else if a_t a = TKontra \<or> a_t a = TRe then
        (if \<not> kontraOk s seat (a_t a) then fail ''kontra'' else okay (s\<lparr>kontra := kontra s + 1\<rparr>))
      else if seat \<noteq> turn s then fail ''turn''
      else if phase s = PSkat \<and> a_t a = TPickup then okay (s\<lparr>pickedUp := True, phase := PPush\<rparr>)
      else if phase s = PPush \<and> a_t a = TPush then okay (s\<lparr>pushed := True, phase := PDeclare\<rparr>)
      else if (phase s = PSkat \<or> phase s = PDeclare) \<and> a_t a = TDeclare then apply_declare s a
      else if phase s = PShow \<and> a_t a = TShow then apply_show s a
      else if phase s = PPlay \<and> a_t a = TPlay then play_card s seat a
      else fail ''action'')"

section \<open>Scoring\<close>

text \<open>What the reveal brings: the hands dealt, the skat, the two cards pushed.\<close>

record full =
  f_hands :: "card list list"
  f_skat :: "card list"
  f_pushed :: "card list"

record game_result =
  r_won :: bool
  r_declarer :: int
  r_game :: game
  r_value :: int
  r_overbid :: bool
  r_points :: "int list"
  r_list :: "int list"
  r_eyes :: "int \<times> int"
  r_tricks :: nat
  r_lines :: "(string \<times> int) list"

record ramsch_result =
  m_durchmarsch :: int
  m_losers :: "nat list"
  m_points :: "int list"
  m_list :: "int list"
  m_seatEyes :: "int list"
  m_tricks :: "nat list"

datatype outcome = PassedOut "int list" "int list" | Played game_result | Ramsch ramsch_result

definition trick_eyes :: "won_trick \<Rightarrow> int" where
  "trick_eyes t = eyes (map pcard (cards t))"

definition ramschResult :: "state \<Rightarrow> full \<Rightarrow> ramsch_result" where
  "ramschResult s full =
     (let won = (\<lambda>i. filter (\<lambda>t. winner t = i) (tricks s));
          e0 = map (\<lambda>i. sum_list (map trick_eyes (won i))) [0, 1, 2];
          n = map (\<lambda>i. length (won i)) [0, 1, 2];
          e = (if tricks s = [] then e0
               else map (\<lambda>i. e0 ! i + (if winner (last (tricks s)) = int i then eyes (f_skat full) else 0)) [0..<3]);
          march = indexOf n HAND;
          top = Max (set e);
          losers = (if 0 \<le> march then [] else filter (\<lambda>i. e ! i = top) [0..<3]);
          points = (if 0 \<le> march then map (\<lambda>i. if int i = march then 120 else 0) [0..<3]
                    else map (\<lambda>i. if e ! i = top then - (e ! i) else 0) [0..<3])
      in \<lparr>m_durchmarsch = march, m_losers = losers, m_points = points, m_list = points,
          m_seatEyes = e, m_tricks = n\<rparr>)"

text \<open>The card points of the soloist: the tricks won and what lies in the skat at the end.\<close>

definition declarer_tricks :: "state \<Rightarrow> won_trick list" where
  "declarer_tricks s = filter (\<lambda>t. winner t = declarer s) (tricks s)"

definition declarer_eyes :: "state \<Rightarrow> full \<Rightarrow> int" where
  "declarer_eyes s full =
     eyes (concat (map (\<lambda>t. map pcard (cards t)) (declarer_tricks s)))
     + eyes (if pickedUp s then f_pushed full else f_skat full)"

text \<open>Value, won, base and lines before overbidding and doubling.\<close>

definition null_score :: "state \<Rightarrow> contract \<Rightarrow> int \<times> bool \<times> int \<times> (string \<times> int) list" where
  "null_score s c =
     (let v = nullValue (c_hand c) (c_ouvert c) in
      (v, declarer_tricks s = [], v,
       [(if c_ouvert c then (if c_hand c then ''nullOuvertHand'' else ''nullOuvert'')
         else (if c_hand c then ''nullHand'' else ''null''), v)]))"

definition game_score :: "state \<Rightarrow> full \<Rightarrow> contract \<Rightarrow> card list \<Rightarrow> int \<times> bool \<times> int \<times> (string \<times> int) list" where
  "game_score s full c own =
     (let de = declarer_eyes s full; n = length (declarer_tricks s);
          base = BASE (c_game c); (w, k) = tops (c_game c) (own @ f_skat full);
          failed = (c_schneider c \<and> de < 90 \<or> c_schwarz c \<and> n < HAND);
          schneider = (de \<ge> 90 \<or> c_schneider c \<or> \<not> failed \<and> de \<le> 30);
          schwarz = (n = HAND \<or> c_schwarz c \<or> \<not> failed \<and> n = 0);
          m = int k + 1 + of_bool (c_hand c) + of_bool schneider + of_bool (c_schneider c)
              + of_bool schwarz + of_bool (c_schwarz c) + of_bool (c_ouvert c);
          lines = [(if w then ''with'' else ''without'', int k), (''game'', 1)]
              @ (if c_hand c then [(''hand'', 1)] else [])
              @ (if schneider then [(''schneider'', 1)] else [])
              @ (if c_schneider c then [(''schneiderSaid'', 1)] else [])
              @ (if schwarz then [(''schwarz'', 1)] else [])
              @ (if c_schwarz c then [(''schwarzSaid'', 1)] else [])
              @ (if c_ouvert c then [(''ouvert'', 1)] else []) @ [(''base'', base)]
      in (base * m, \<not> failed \<and> de \<ge> 61, base, lines))"

text \<open>\<open>result\<close>; \<open>None\<close> where the source throws (no contract, no hand for the declarer).\<close>

definition result :: "state \<Rightarrow> full \<Rightarrow> outcome option" where
  "result s full =
     (if passedOut s then Some (PassedOut [0, 0, 0] [0, 0, 0])
      else case contract s of None \<Rightarrow> None | Some c \<Rightarrow>
      if c_ramsch c then Some (Ramsch (ramschResult s full))
      else
        let d = declarer s; de = declarer_eyes s full in
        if c_game c \<noteq> GNull \<and> \<not> (0 \<le> d \<and> nat d < length (f_hands full)) then None
        else
        let (value0, won0, base, lines0) =
              (if c_game c = GNull then null_score s c else game_score s full c (f_hands full ! nat d));
            overbid = (value0 < b_v (bid s));
            value1 = (if overbid then ((b_v (bid s) + base - 1) div base) * base else value0);
            won = (won0 \<and> \<not> overbid);
            lines1 = lines0 @ (if overbid then [(''overbid'', value1)] else []);
            dbl = (if kontra s = 0 then 1 else 2 ^ kontra s);
            value = value1 * dbl;
            lines = lines1 @ (if dbl > 1 then [(if kontra s > 1 then ''re'' else ''kontra'', dbl)] else []);
            points = map (\<lambda>i. if int i = d then (if won then value else - 2 * value) else 0) [0..<3];
            lst = map (\<lambda>i. if int i = d then points ! i + (if won then 50 else -50)
                          else if won then 0 else 40) [0..<3]
        in Some (Played \<lparr>r_won = won, r_declarer = d, r_game = c_game c, r_value = value,
             r_overbid = overbid, r_points = points, r_list = lst, r_eyes = (de, 120 - de),
             r_tricks = length (declarer_tricks s), r_lines = lines\<rparr>))"

section \<open>The audit\<close>

text \<open>
  One card of a trick against the hands still held; \<open>None\<close> where the source throws (a seat
  without a hand). The trick's earlier cards are \<open>pre\<close>.
\<close>

definition audit_card ::
    "game \<Rightarrow> card list list \<times> (int \<times> string) list \<Rightarrow> play list \<Rightarrow> play
     \<Rightarrow> (card list list \<times> (int \<times> string) list) option" where
  "audit_card g st pre x = (case st of (hands, out) \<Rightarrow>
     if \<not> (0 \<le> pseat x \<and> nat (pseat x) < length hands) then None
     else let h = hands ! nat (pseat x) in
       if pcard x \<notin> set h then Some (hands, out @ [(pseat x, ''notInHand'')])
       else Some (hands[nat (pseat x) := remove1 (pcard x) h],
             out @ (if mayPlay g h (pcard x) pre then [] else [(pseat x, ''follow'')])))"

fun audit_trick ::
    "game \<Rightarrow> card list list \<times> (int \<times> string) list \<Rightarrow> play list \<Rightarrow> play list
     \<Rightarrow> (card list list \<times> (int \<times> string) list) option" where
  "audit_trick g st pre [] = Some st"
| "audit_trick g st pre (x # xs) =
     (case audit_card g st pre x of None \<Rightarrow> None | Some st' \<Rightarrow> audit_trick g st' (pre @ [x]) xs)"

fun audit_tricks ::
    "game \<Rightarrow> card list list \<times> (int \<times> string) list \<Rightarrow> play list list
     \<Rightarrow> (card list list \<times> (int \<times> string) list) option" where
  "audit_tricks g st [] = Some st"
| "audit_tricks g st (t # ts) =
     (case audit_trick g st [] t of None \<Rightarrow> None | Some st' \<Rightarrow> audit_tricks g st' ts)"

definition audit_deck :: "full \<Rightarrow> bool" where
  "audit_deck full \<longleftrightarrow>
     (let all = concat (f_hands full) @ f_skat full in
      length all = 32 \<and> card (set all) = 32 \<and> list_all (\<lambda>c. isCard (Some c)) all)"

definition audit_pushed :: "state \<Rightarrow> full \<Rightarrow> card list list \<Rightarrow> (card list list \<times> (int \<times> string) list) option" where
  "audit_pushed s full hands =
     (let d = declarer s; push = f_pushed full in
      if pickedUp s then
        (if \<not> (0 \<le> d \<and> nat d < length hands) then None
         else let twelve = hands ! nat d @ f_skat full in
           Some (hands[nat d := filter (\<lambda>c. c \<notin> set push) twelve],
             if length push \<noteq> 2 \<or> card (set push) \<noteq> 2 \<or> \<not> list_all (\<lambda>c. c \<in> set twelve) push
             then [(d, ''pushed'')] else []))
      else Some (hands, if push \<noteq> [] then [(d, ''hand'')] else []))"

definition audit :: "state \<Rightarrow> full \<Rightarrow> (int \<times> string) list option" where
  "audit s full =
     (if passedOut s then Some []
      else case contract s of None \<Rightarrow> Some [] | Some ct \<Rightarrow>
        let out0 = (if audit_deck full then [] else [(-1, ''deck'')]) in
        case audit_pushed s full (f_hands full) of None \<Rightarrow> None | Some (hands, out1) \<Rightarrow>
        case (case opened s of None \<Rightarrow> Some [] | Some op \<Rightarrow>
               (if \<not> (0 \<le> declarer s \<and> nat (declarer s) < length hands) then None
                else Some (if sort (hands ! nat (declarer s)) \<noteq> sort op then [(declarer s, ''open'')] else [])))
        of None \<Rightarrow> None | Some out2 \<Rightarrow>
        case audit_tricks (c_game ct) (hands, out0 @ out1 @ out2)
               (map cards (tricks s) @ (case trick s of None \<Rightarrow> []
                  | Some t \<Rightarrow> if cards t = [] then [] else [cards t]))
        of None \<Rightarrow> None | Some (_, out) \<Rightarrow> Some out)"

section \<open>The automatic player\<close>

definition longest :: "card list \<Rightarrow> suit" where
  "longest h =
     snd (foldl (\<lambda>(most, best) g. let n = int (length (filter (isTrump (GSuit g)) h)) in
                  if n > most then (n, g) else (most, best)) (-1, SuitC) [SuitC, SuitS, SuitH, SuitD])"

definition push_key :: "card \<Rightarrow> int \<times> int \<times> card" where
  "push_key c = (if rank c = RankJ then 1 else 0, EYES (rank c), c)"

definition play_key :: "game \<Rightarrow> led option \<Rightarrow> card \<Rightarrow> int \<times> int \<times> card" where
  "play_key g l c = (power g c (case l of None \<Rightarrow> suitOf g c | Some x \<Rightarrow> x), EYES (rank c), c)"

definition auto_declare :: "state \<Rightarrow> int \<Rightarrow> card list \<Rightarrow> action" where
  "auto_declare s seat h = declare_act seat (GSuit (longest h), \<not> pickedUp s, False, False, False)"

definition auto_play :: "state \<Rightarrow> int \<Rightarrow> card list \<Rightarrow> action option" where
  "auto_play s seat h =
     (let g = game_of s; ok = filter (\<lambda>c. mayPlay g h c (trick_cards s)) h;
          l = (case trick_cards s of [] \<Rightarrow> None | x # _ \<Rightarrow> Some (suitOf g (pcard x)))
      in case sort_key (play_key g l) ok of [] \<Rightarrow> None
         | c # _ \<Rightarrow> Some ((mk_act TPlay seat)\<lparr>a_card := Some c\<rparr>))"

definition auto_move :: "state \<Rightarrow> int \<Rightarrow> card list \<Rightarrow> action option" where
  "auto_move s seat h =
     (if turn s \<noteq> seat then None
      else case phase s of
        PBid \<Rightarrow> Some (mk_act TPass seat)
      | PSkat \<Rightarrow> (let a = auto_declare s seat h in if checkContract s a = None then Some a else None)
      | PDeclare \<Rightarrow> (let a = auto_declare s seat h in if checkContract s a = None then Some a else None)
      | PPush \<Rightarrow> Some ((mk_act TPush seat)\<lparr>a_cards := Some (map Some (take 2 (sort_key push_key h)))\<rparr>)
      | PShow \<Rightarrow> Some ((mk_act TShow seat)\<lparr>a_cards := Some (map Some h)\<rparr>)
      | PPlay \<Rightarrow> auto_play s seat h
      | PDone \<Rightarrow> None)"

end
