(* ===== verification/Rules_Interface.thy ===== *)
theory Rules_Interface
  imports Duell_Prelude
begin

text \<open>
  The interface \<open>table.js\<close> has to a rule engine: a public state, a step that accepts or
  refuses an action, the seat to move, the end of the hand, the automatic move of a seat that
  has been handed over. The laws are what the table relies on: an accepted action keeps the
  invariant, every accepted action uses up some of a finite budget, nothing is accepted once
  the hand is over. What follows from them is proved once here and used for each engine:
  hands are finite, and playing the automatic moves of handed-over seats
  (\<open>settle\<close> in \<open>table.js\<close>) ends.
\<close>

section \<open>A rule engine\<close>

text \<open>States reachable from a start by accepted actions.\<close>

inductive reachable :: "('s \<Rightarrow> bool) \<Rightarrow> ('s \<Rightarrow> 'a \<Rightarrow> 's answer) \<Rightarrow> 's \<Rightarrow> bool"
  for init :: "'s \<Rightarrow> bool" and f :: "'s \<Rightarrow> 'a \<Rightarrow> 's answer" where
  reach_init: "init s \<Longrightarrow> reachable init f s"
| reach_step: "reachable init f s \<Longrightarrow> f s a = Inr s' \<Longrightarrow> reachable init f s'"

lemma run_reachable: "reachable init f s \<Longrightarrow> run f s as = Inr s' \<Longrightarrow> reachable init f s'"
  by (rule run_invariant [of "reachable init f"]) (auto intro: reach_step)

locale rule_engine =
  fixes init :: "'s \<Rightarrow> bool"
    and step :: "'s \<Rightarrow> 'a \<Rightarrow> 's answer"
    and over :: "'s \<Rightarrow> bool"
    and inv :: "'s \<Rightarrow> bool"
    and budget :: "'s \<Rightarrow> nat"
    and bound :: nat
  assumes inv_init: "init s \<Longrightarrow> inv s"
    and inv_step: "inv s \<Longrightarrow> step s a = Inr s' \<Longrightarrow> inv s'"
    and budget_init: "init s \<Longrightarrow> budget s \<le> bound"
    and budget_step: "inv s \<Longrightarrow> step s a = Inr s' \<Longrightarrow> budget s' < budget s"
    and over_stuck: "over s \<Longrightarrow> step s a \<noteq> Inr s'"
begin

lemma reachable_inv: "reachable init step s \<Longrightarrow> inv s"
  by (induction rule: reachable.induct) (auto intro: inv_init inv_step)

lemma reachable_budget: "reachable init step s \<Longrightarrow> budget s \<le> bound"
proof (induction rule: reachable.induct)
  case (reach_step s a s')
  then show ?case using budget_step [OF reachable_inv [OF reach_step.hyps(1)]] by fastforce
qed (rule budget_init)

lemma run_inv: "inv s \<Longrightarrow> run step s as = Inr s' \<Longrightarrow> inv s'"
  by (rule run_invariant [of inv]) (auto intro: inv_step)

lemma run_budget: "inv s \<Longrightarrow> run step s as = Inr s' \<Longrightarrow> length as + budget s' \<le> budget s"
  by (rule run_measure [of inv step budget]) (auto intro: inv_step budget_step)

lemma run_length: "init s \<Longrightarrow> run step s as = Inr s' \<Longrightarrow> length as \<le> bound"
  using run_budget [of s as s'] inv_init [of s] budget_init [of s] by simp

lemma over_run: "over s \<Longrightarrow> run step s as = Inr s' \<Longrightarrow> as = [] \<and> s' = s"
  using over_stuck by (cases as) (auto split: sum.splits)

end

section \<open>Playing automatic moves to the end\<close>

text \<open>
  The loop of \<open>settle\<close> in \<open>table.js\<close> for a hand in which every seat is played by the
  rules' automatic player: \<open>while (!R.done(state)) { a = R.auto(...); if (!a) break;
  r = R.apply(state, a); if (!r.ok) break; state = r.state }\<close>. \<open>hold\<close> is what the loop
  knows of the cards (the hands of all seats), updated by the move made. The first component
  says whether the loop left because the hand is over.
\<close>

fun settle ::
    "('s \<Rightarrow> 'a \<Rightarrow> 's answer) \<Rightarrow> ('s \<Rightarrow> bool) \<Rightarrow> ('s \<Rightarrow> 'h \<Rightarrow> 'a option) \<Rightarrow> ('h \<Rightarrow> 'a \<Rightarrow> 'h)
     \<Rightarrow> nat \<Rightarrow> 's \<Rightarrow> 'h \<Rightarrow> bool \<times> 's \<times> 'h" where
  "settle f ov au upd 0 s h = (ov s, s, h)"
| "settle f ov au upd (Suc n) s h =
     (if ov s then (True, s, h)
      else case au s h of None \<Rightarrow> (False, s, h)
         | Some a \<Rightarrow> (case f s a of Inl e \<Rightarrow> (False, s, h)
             | Inr s' \<Rightarrow> settle f ov au upd n s' (upd h a)))"

locale auto_engine = rule_engine init step over inv budget bound
  for init :: "'s \<Rightarrow> bool" and step :: "'s \<Rightarrow> 'a \<Rightarrow> 's answer" and over inv budget bound +
  fixes auto_of :: "'s \<Rightarrow> 'h \<Rightarrow> 'a option"
    and upd :: "'h \<Rightarrow> 'a \<Rightarrow> 'h"
    and fits :: "'s \<Rightarrow> 'h \<Rightarrow> bool"
  assumes auto_legal: "inv s \<Longrightarrow> \<not> over s \<Longrightarrow> fits s h \<Longrightarrow>
      \<exists>a s'. auto_of s h = Some a \<and> step s a = Inr s' \<and> fits s' (upd h a)"
begin

lemma settle_over:
  "inv s \<Longrightarrow> fits s h \<Longrightarrow> budget s \<le> n \<Longrightarrow>
   \<exists>s' h'. settle step over auto_of upd n s h = (True, s', h') \<and> over s' \<and> inv s' \<and> fits s' h'"
proof (induction n arbitrary: s h)
  case 0
  have "over s"
  proof (rule ccontr)
    assume "\<not> over s"
    with auto_legal 0 obtain a s' where "step s a = Inr s'" by blast
    with budget_step 0 show False by fastforce
  qed
  with 0 show ?case by auto
next
  case (Suc n)
  show ?case
  proof (cases "over s")
    case True
    with Suc.prems show ?thesis by auto
  next
    case False
    with auto_legal Suc.prems obtain a s' where a: "auto_of s h = Some a" "step s a = Inr s'" "fits s' (upd h a)"
      by blast
    have "budget s' \<le> n" using budget_step [OF Suc.prems(1) a(2)] Suc.prems(3) by simp
    with Suc.IH inv_step [OF Suc.prems(1) a(2)] a(3) obtain s2 h2 where
      "settle step over auto_of upd n s' (upd h a) = (True, s2, h2) \<and> over s2 \<and> inv s2 \<and> fits s2 h2"
      by blast
    with a False show ?thesis by simp
  qed
qed

end

end
