(* ===== verification/Skat_Correct.thy ===== *)
theory Skat_Correct
  imports Skat Rules_Interface
begin

text \<open>
  Correctness of the Skat rules: the deck and the bid values, the order of cards and the
  winner of a trick, the invariant of the public state, the length of a hand, the automatic
  player, the score and the audit.
\<close>

section \<open>The invariant\<close>

definition seat_ok :: "int \<Rightarrow> bool" where
  "seat_ok x \<longleftrightarrow> 0 \<le> x \<and> x < 3"

text \<open>The seats of the cards on the table: the leader, then clockwise.\<close>

definition seats_from :: "int \<Rightarrow> play list \<Rightarrow> bool" where
  "seats_from l cs \<longleftrightarrow> map pseat cs = map (\<lambda>i. (l + int i) mod 3) [0..<length cs]"

definition trick_shape :: "game \<Rightarrow> won_trick \<Rightarrow> bool" where
  "trick_shape g t \<longleftrightarrow> seat_ok (lead t) \<and> length (cards t) = 3 \<and> seats_from (lead t) (cards t)
     \<and> winner t = trickWinner g (cards t)"

text \<open>Every trick is led by the winner of the one before.\<close>

fun chain :: "int \<Rightarrow> won_trick list \<Rightarrow> int \<Rightarrow> bool" where
  "chain l [] e \<longleftrightarrow> l = e"
| "chain l (t # ts) e \<longleftrightarrow> lead t = l \<and> chain (winner t) ts e"

definition bid_ok :: "state \<Rightarrow> bool" where
  "bid_ok s \<longleftrightarrow> (let b = bid s; d = dealer s in
     b_ask b \<noteq> AskNone \<and> (b_ask b = AskAnswer \<longrightarrow> b_v b \<noteq> 0) \<and>
     (case b_stage b of
        Mh \<Rightarrow> b_bidder b = middlehand d \<and> b_holder b = forehand d
      | Rh \<Rightarrow> b_bidder b = d \<and> (b_holder b = forehand d \<or> b_holder b = middlehand d)
      | Fh \<Rightarrow> b_bidder b = forehand d \<and> b_ask b = AskBid \<and> b_v b = 0))"

text \<open>A contract that \<open>checkContract\<close> let through, or the Ramsch nobody declared.\<close>

definition contract_ok :: "state \<Rightarrow> contract \<Rightarrow> bool" where
  "contract_ok s c \<longleftrightarrow>
     (if c_ramsch c then c_game c = Grand \<and> declarer s = -1 \<and> kontra s = 0 \<and> \<not> pickedUp s
        \<and> \<not> c_schneider c \<and> \<not> c_schwarz c \<and> \<not> c_ouvert c \<and> b_v (bid s) = 0
      else seat_ok (declarer s) \<and> b_v (bid s) \<in> set BIDS \<and> c_hand c = (\<not> pickedUp s) \<and>
        (if c_game c = GNull then \<not> c_schneider c \<and> \<not> c_schwarz c
            \<and> b_v (bid s) \<le> nullValue (c_hand c) (c_ouvert c)
         else (c_schwarz c \<longrightarrow> c_schneider c) \<and> (c_ouvert c \<longrightarrow> c_schwarz c) \<and> (c_schneider c \<longrightarrow> c_hand c)))"

definition open_ok :: "state \<Rightarrow> contract \<Rightarrow> bool" where
  "open_ok s c \<longleftrightarrow> (case opened s of None \<Rightarrow> \<not> c_ouvert c
     | Some op \<Rightarrow> c_ouvert c \<and> length op = HAND \<and> distinct op)"

text \<open>The tricks taken, up to the seat that leads next.\<close>

definition table_ok :: "state \<Rightarrow> contract \<Rightarrow> int \<Rightarrow> bool" where
  "table_ok s c l \<longleftrightarrow> (\<forall>t \<in> set (tricks s). trick_shape (c_game c) t)
     \<and> chain (forehand (dealer s)) (tricks s) l \<and> distinct (played s)"

definition quiet :: "state \<Rightarrow> bool" where
  "quiet s \<longleftrightarrow> contract s = None \<and> trick s = None \<and> tricks s = [] \<and> kontra s = 0 \<and> opened s = None
     \<and> \<not> passedOut s"

definition phase_ok :: "state \<Rightarrow> bool" where
  "phase_ok s = (case phase s of
       PBid \<Rightarrow> quiet s \<and> declarer s = -1 \<and> \<not> pickedUp s \<and> bid_ok s
     | PSkat \<Rightarrow> quiet s \<and> seat_ok (declarer s) \<and> \<not> pickedUp s \<and> b_v (bid s) \<in> set BIDS
     | PPush \<Rightarrow> quiet s \<and> seat_ok (declarer s) \<and> pickedUp s \<and> b_v (bid s) \<in> set BIDS
     | PDeclare \<Rightarrow> quiet s \<and> seat_ok (declarer s) \<and> pickedUp s \<and> b_v (bid s) \<in> set BIDS
     | PShow \<Rightarrow> (case contract s of None \<Rightarrow> False | Some c \<Rightarrow>
          contract_ok s c \<and> c_ouvert c \<and> opened s = None \<and> tricks s = [] \<and> kontra s = 0 \<and> \<not> passedOut s
          \<and> next_seat s = forehand (dealer s) \<and> trick s = Some \<lparr>lead = forehand (dealer s), cards = []\<rparr>)
     | PPlay \<Rightarrow> (case (contract s, trick s) of (Some c, Some t) \<Rightarrow>
          contract_ok s c \<and> open_ok s c \<and> table_ok s c (lead t) \<and> kontra s \<le> 2 \<and> \<not> passedOut s
          \<and> seat_ok (lead t) \<and> seats_from (lead t) (cards t) \<and> length (cards t) < 3 \<and> length (tricks s) < HAND
          \<and> next_seat s = (lead t + int (length (cards t))) mod 3
          \<and> (c_game c = GNull \<longrightarrow> (\<forall>w \<in> set (tricks s). winner w \<noteq> declarer s))
        | _ \<Rightarrow> False)
     | PDone \<Rightarrow> (if passedOut s then contract s = None \<and> tricks s = [] \<and> trick s = None
          else case contract s of None \<Rightarrow> False | Some c \<Rightarrow>
            contract_ok s c \<and> open_ok s c \<and> trick s = None \<and> kontra s \<le> 2 \<and> tricks s \<noteq> []
            \<and> table_ok s c (winner (last (tricks s))) \<and> length (tricks s) \<le> HAND
            \<and> (length (tricks s) = HAND \<or> c_game c = GNull \<and> winner (last (tricks s)) = declarer s)
            \<and> (c_game c = GNull \<longrightarrow> (\<forall>w \<in> set (butlast (tricks s)). winner w \<noteq> declarer s))))"

definition inv :: "state \<Rightarrow> bool" where
  "inv s \<longleftrightarrow> seat_ok (dealer s) \<and> (b_v (bid s) = 0 \<or> b_v (bid s) \<in> set BIDS) \<and> phase_ok s"

text \<open>A hand uses up: higher bids and answers, phases, cards, Kontra and Re.\<close>

definition bids_left :: "state \<Rightarrow> nat" where
  "bids_left s = 2 * length (filter (\<lambda>v. v > b_v (bid s)) BIDS) + (if b_ask (bid s) = AskAnswer then 1 else 0)
     + (case b_stage (bid s) of Mh \<Rightarrow> 3 | Rh \<Rightarrow> 2 | Fh \<Rightarrow> 1)"

definition phases_left :: "state \<Rightarrow> nat" where
  "phases_left s = (case phase s of PBid \<Rightarrow> 4 + bids_left s | PSkat \<Rightarrow> 4 | PPush \<Rightarrow> 3 | PDeclare \<Rightarrow> 2
     | PShow \<Rightarrow> 1 | PPlay \<Rightarrow> 0 | PDone \<Rightarrow> 0)"

definition left_over :: "state \<Rightarrow> nat" where
  "left_over s = phases_left s + (30 - length (played s)) + (2 - kontra s)"

section \<open>The deck and the bids\<close>

lemma DECK_all [simp]: "c \<in> set DECK"
proof (cases c)
  case (Card s r)
  then show ?thesis by (cases s; cases r) (simp_all add: DECK_def SUITS_def RANKS_def)
qed

lemma isCard_iff [simp]: "isCard c \<longleftrightarrow> c \<noteq> None"
  by (auto simp: isCard_def split: option.splits)

lemma length_DECK: "length DECK = 32"
  by (simp add: DECK_def SUITS_def RANKS_def)

lemma distinct_DECK: "distinct DECK"
  by (simp add: DECK_def SUITS_def RANKS_def)

lemma eyes_DECK: "eyes DECK = 120"
  by (simp add: DECK_def SUITS_def RANKS_def eyes_def)

lemma BIDS_eq: "BIDS =
  [18, 20, 22, 23, 24, 27, 30, 33, 35, 36, 40, 44, 45, 46, 48, 50, 54, 55, 59, 60, 63, 66, 70, 72, 77, 80,
   81, 84, 88, 90, 96, 99, 100, 108, 110, 117, 120, 121, 126, 130, 132, 135, 140, 143, 144, 150, 153, 154,
   156, 160, 162, 165, 168, 170, 176, 180, 187, 192, 198, 204, 216, 240, 264]"
  by code_simp

lemma BIDS_ge_18: "v \<in> set BIDS \<Longrightarrow> 18 \<le> v"
  by (auto simp: BIDS_eq)

lemma BIDS_18: "18 \<in> set BIDS"
  by (simp add: BIDS_eq)

lemma length_BIDS: "length BIDS = 63"
  by (simp add: BIDS_eq)

section \<open>Seats\<close>

lemma seat_ok_mod [simp]: "seat_ok (x mod 3)"
  by (simp add: seat_ok_def)

lemma seat_ok_hands [simp]: "seat_ok (forehand d)" "seat_ok (middlehand d)"
  by (simp_all add: forehand_def middlehand_def)

lemma forehand_mod [simp]: "forehand d mod 3 = forehand d"
  by (simp add: forehand_def)

lemma seats_from_Nil [simp]: "seats_from l []"
  by (simp add: seats_from_def)

lemma seats_from_snoc:
  "seats_from l (cs @ [Play p c]) \<longleftrightarrow> seats_from l cs \<and> p = (l + int (length cs)) mod 3"
  by (auto simp: seats_from_def)

lemma seats_from_seat: "seats_from l cs \<Longrightarrow> x \<in> set cs \<Longrightarrow> seat_ok (pseat x)"
proof -
  assume *: "seats_from l cs" "x \<in> set cs"
  then have "pseat x \<in> set (map pseat cs)" by simp
  with * show ?thesis unfolding seats_from_def by auto
qed

lemma trickWinner_in: "cs \<noteq> [] \<Longrightarrow> \<exists>x \<in> set cs. trickWinner g cs = pseat x"
  unfolding trickWinner_def bestIndex_def Let_def
  by (metis best_at_less nth_mem)

lemma trickWinner_seat: "cs \<noteq> [] \<Longrightarrow> seats_from l cs \<Longrightarrow> seat_ok (trickWinner g cs)"
  using trickWinner_in seats_from_seat by metis

lemma chain_snoc: "chain l (ts @ [t]) e \<longleftrightarrow> chain l ts (lead t) \<and> winner t = e"
  by (induction ts arbitrary: l) auto

lemma played_sum: "length (played s) = sum_list (map length (all_tricks s))"
  by (simp add: played_def length_concat)

lemma tricks_cards:
  "\<forall>t \<in> set ts. trick_shape g t \<Longrightarrow> sum_list (map (\<lambda>t. length (cards t)) ts) = 3 * length ts"
  by (induction ts) (auto simp: trick_shape_def)

lemma table_played:
  assumes "table_ok s c l"
  shows "length (played s) = 3 * length (tricks s) + length (trick_cards s)"
  using assms tricks_cards [of "tricks s" "c_game c"]
  by (auto simp: played_sum all_tricks_def trick_cards_def table_ok_def comp_def split: option.splits)

section \<open>Every action keeps the invariant\<close>

lemmas state_defs = inv_def phase_ok_def quiet_def bid_ok_def contract_ok_def open_ok_def table_ok_def

lemma lead_off_simps [simp]:
  "phase (lead_off s) = phase s" "bid (lead_off s) = bid s" "dealer (lead_off s) = dealer s"
  "declarer (lead_off s) = declarer s" "pickedUp (lead_off s) = pickedUp s" "kontra (lead_off s) = kontra s"
  "contract (lead_off s) = contract s" "opened (lead_off s) = opened s" "tricks (lead_off s) = tricks s"
  "passedOut (lead_off s) = passedOut s" "next_seat (lead_off s) = forehand (dealer s)"
  "trick (lead_off s) = Some \<lparr>lead = forehand (dealer s), cards = []\<rparr>"
  by (simp_all add: lead_off_def)

lemma toDeclarer_simps [simp]:
  "phase (toDeclarer s d) = PSkat" "declarer (toDeclarer s d) = d" "dealer (toDeclarer s d) = dealer s"
  "b_v (bid (toDeclarer s d)) = (if b_v (bid s) = 0 then 18 else b_v (bid s))"
  "pickedUp (toDeclarer s d) = pickedUp s" "kontra (toDeclarer s d) = kontra s"
  "contract (toDeclarer s d) = contract s" "opened (toDeclarer s d) = opened s" "trick (toDeclarer s d) = trick s"
  "tricks (toDeclarer s d) = tricks s" "passedOut (toDeclarer s d) = passedOut s"
  by (simp_all add: toDeclarer_def)

lemma played_lead_off: "tricks s = [] \<Longrightarrow> played (lead_off s) = []"
  by (simp add: played_def all_tricks_def)

lemma inv_start: "inv (start d r)"
proof -
  have "seat_ok (js_rem (js_rem x 3 + 3) 3)" for x by (simp add: js_rem_normalise)
  then show ?thesis
    by (cases d) (auto simp: start_def state_defs Let_def seat_ok_def)
qed

lemma applyBid_cases:
  assumes "applyBid s seat a = Inr s'"
  obtains (open_18) "b_stage (bid s) = Fh" "b_ask (bid s) = AskBid" "bidSeat s seat" "b_v (bid s) < 18"
      "s' = toDeclarer (s\<lparr>bid := (bid s)\<lparr>b_v := 18\<rparr>\<rparr>) seat"
  | (bid) v where "b_stage (bid s) \<noteq> Fh" "b_ask (bid s) = AskBid" "v \<in> set BIDS" "b_v (bid s) < v"
      "s' = s\<lparr>bid := (bid s)\<lparr>b_v := v, b_last := Some seat, b_ask := AskAnswer\<rparr>\<rparr>"
  | (hold) "b_ask (bid s) = AskAnswer" "s' = s\<lparr>bid := (bid s)\<lparr>b_ask := AskBid\<rparr>\<rparr>"
  | (throw_in) "b_stage (bid s) = Fh" "\<not> has s ''ramsch''"
      "s' = s\<lparr>bid := (bid s)\<lparr>b_passed := b_passed (bid s) @ [seat], b_ask := AskNone\<rparr>, phase := PDone, passedOut := True\<rparr>"
  | (ramsch) "b_stage (bid s) = Fh" "has s ''ramsch''"
      "s' = lead_off (s\<lparr>bid := (bid s)\<lparr>b_passed := b_passed (bid s) @ [seat], b_ask := AskNone\<rparr>, phase := PPlay,
         contract := Some \<lparr>c_game = Grand, c_hand = True, c_schneider = False, c_schwarz = False,
           c_ouvert = False, c_ramsch = True\<rparr>\<rparr>)"
  | (pass_mh) "b_stage (bid s) = Mh" "bidSeat s seat"
      "s' = s\<lparr>bid := (bid s)\<lparr>b_passed := b_passed (bid s) @ [seat], b_stage := Rh, b_bidder := dealer s,
         b_holder := (if seat = b_bidder (bid s) then b_holder (bid s) else b_bidder (bid s)), b_ask := AskBid\<rparr>\<rparr>"
  | (pass_rh) "b_stage (bid s) = Rh" "b_v (bid s) = 0"
      "s' = s\<lparr>bid := (bid s)\<lparr>b_passed := b_passed (bid s) @ [seat], b_stage := Fh, b_bidder := forehand (dealer s),
         b_holder := -1, b_ask := AskBid\<rparr>\<rparr>"
  | (declarer) "b_stage (bid s) = Rh" "b_v (bid s) \<noteq> 0" "bidSeat s seat"
      "s' = toDeclarer (s\<lparr>bid := (bid s)\<lparr>b_passed := b_passed (bid s) @ [seat]\<rparr>\<rparr>)
         (if seat = b_bidder (bid s) then b_holder (bid s) else b_bidder (bid s))"
proof (cases "a_t a = TBid \<or> a_t a = THold")
  case True
  with assms show ?thesis
    by (auto simp: applyBid_def Let_def not_le split: if_splits option.splits intro: open_18 bid hold)
next
  case False
  with assms show ?thesis
    by (cases "b_stage (bid s)")
      (auto simp: applyBid_def Let_def rearhand_def split: if_splits intro: throw_in ramsch pass_mh pass_rh declarer)
qed

lemma applyBid_inv:
  assumes inv: "inv s" and ph: "phase s = PBid" and ok: "applyBid s seat a = Inr s'"
  shows "inv s'"
  using ok
proof (cases rule: applyBid_cases)
  case open_18
  with inv ph show ?thesis by (simp add: state_defs Let_def BIDS_18 bidSeat_def)
next
  case (bid v)
  with inv ph BIDS_ge_18 [of v] show ?thesis by (simp add: state_defs Let_def split: stage.splits)
next
  case hold
  with inv ph show ?thesis by (auto simp: state_defs Let_def split: stage.splits)
next
  case throw_in
  with inv ph show ?thesis by (simp add: state_defs Let_def)
next
  case ramsch
  with inv ph show ?thesis
    by (simp add: state_defs Let_def played_lead_off HAND_def)
next
  case pass_mh
  with inv ph show ?thesis by (auto simp: state_defs Let_def bidSeat_def)
next
  case pass_rh
  with inv ph show ?thesis by (simp add: state_defs Let_def)
next
  case declarer
  with inv ph have "seat_ok (b_bidder (bid s))" "seat_ok (b_holder (bid s))"
    by (auto simp: state_defs Let_def)
  with declarer inv ph show ?thesis by (auto simp: state_defs Let_def)
qed

lemma checkContract_ok:
  assumes "checkContract s a = None"
  shows "\<exists>g. a_game a = Some g \<and> a_hand a = (\<not> pickedUp s) \<and>
    (g = GNull \<longrightarrow> \<not> a_schneider a \<and> \<not> a_schwarz a \<and> b_v (bid s) \<le> nullValue (a_hand a) (a_ouvert a)) \<and>
    (g \<noteq> GNull \<longrightarrow> (a_schwarz a \<longrightarrow> a_schneider a) \<and> (a_ouvert a \<longrightarrow> a_schwarz a) \<and> (a_schneider a \<longrightarrow> a_hand a))"
  using assms by (auto simp: checkContract_def Let_def not_less split: option.splits if_splits)

lemma apply_declare_inv:
  assumes inv: "inv s" and ph: "phase s = PSkat \<or> phase s = PDeclare" and ok: "apply_declare s a = Inr s'"
  shows "inv s'"
proof -
  from ok have "checkContract s a = None" by (auto simp: apply_declare_def split: option.splits)
  then obtain g where g: "a_game a = Some g" "a_hand a = (\<not> pickedUp s)"
    "g = GNull \<longrightarrow> \<not> a_schneider a \<and> \<not> a_schwarz a \<and> b_v (bid s) \<le> nullValue (a_hand a) (a_ouvert a)"
    "g \<noteq> GNull \<longrightarrow> (a_schwarz a \<longrightarrow> a_schneider a) \<and> (a_ouvert a \<longrightarrow> a_schwarz a) \<and> (a_schneider a \<longrightarrow> a_hand a)"
    using checkContract_ok by blast
  define c where "c = \<lparr>c_game = g, c_hand = a_hand a, c_schneider = (g \<noteq> GNull \<and> a_schneider a),
               c_schwarz = (g \<noteq> GNull \<and> a_schwarz a), c_ouvert = a_ouvert a, c_ramsch = False\<rparr>"
  from ok g(1) have s': "s' = lead_off (s\<lparr>contract := Some c, phase := (if c_ouvert c then PShow else PPlay)\<rparr>)"
    by (auto simp: apply_declare_def c_def Let_def split: option.splits)
  have q: "quiet s" "seat_ok (declarer s)" "b_v (bid s) \<in> set BIDS" "seat_ok (dealer s)"
    using inv ph by (auto simp: inv_def phase_ok_def)
  have "contract_ok s' c" using q g by (simp add: s' contract_ok_def c_def)
  with q show ?thesis
    by (auto simp: s' inv_def phase_ok_def quiet_def open_ok_def table_ok_def played_lead_off HAND_def c_def)
qed

lemma apply_show_inv:
  assumes "inv s" "phase s = PShow" "apply_show s a = Inr s'"
  shows "inv s'"
proof -
  from assms(3) obtain cs where cs: "a_cards a = Some cs" "length cs = HAND" "card (set cs) = HAND"
      "None \<notin> set cs" "s' = s\<lparr>opened := Some (map the cs), phase := PPlay\<rparr>"
    by (auto simp: apply_show_def list_all_iff split: option.splits if_splits)
  from cs(2,3) have "distinct cs" by (simp add: card_distinct)
  with cs(4) have "distinct (map the cs)" by (auto simp: distinct_map inj_on_def) (metis option.collapse)
  with cs assms(1,2) show ?thesis
    by (auto simp: state_defs played_def all_tricks_def HAND_def split: option.splits)
qed

lemma apply_action_cases:
  assumes "apply_action s a = Inr s'"
  obtains (bidding) seat where "phase s = PBid" "applyBid s seat a = Inr s'"
  | (kontra) seat where "phase s \<noteq> PBid" "phase s \<noteq> PDone" "kontraOk s seat (a_t a)" "s' = s\<lparr>kontra := kontra s + 1\<rparr>"
  | (pickup) "phase s = PSkat" "s' = s\<lparr>pickedUp := True, phase := PPush\<rparr>"
  | (push) "phase s = PPush" "s' = s\<lparr>pushed := True, phase := PDeclare\<rparr>"
  | (decl) "phase s = PSkat \<or> phase s = PDeclare" "apply_declare s a = Inr s'"
  | (show_hand) "phase s = PShow" "apply_show s a = Inr s'"
  | (play) "phase s = PPlay" "a_seat a = Some (next_seat s)" "play_card s (next_seat s) a = Inr s'"
proof (cases "phase s = PBid")
  case True
  with assms show ?thesis by (auto simp: apply_action_def split: option.splits intro: bidding)
next
  case False
  with assms show ?thesis
    by (cases "a_t a = TKontra \<or> a_t a = TRe")
      (auto simp: apply_action_def turn_def split: option.splits if_splits
        intro: kontra pickup push decl show_hand play)
qed

lemma play_card_cases:
  assumes "play_card s seat a = Inr s'"
  obtains c ct tr where "contract s = Some ct" "trick s = Some tr" "a_card a = Some c" "c \<notin> set (played s)"
    "(length (cards tr) < 2 \<and>
       s' = s\<lparr>trick := Some (tr\<lparr>cards := cards tr @ [Play seat c]\<rparr>), next_seat := (seat + 1) mod 3\<rparr>) \<or>
     (2 \<le> length (cards tr) \<and> (let w = trickWinner (c_game ct) (cards tr @ [Play seat c]);
          ts = tricks s @ [\<lparr>lead = lead tr, cards = cards tr @ [Play seat c], winner = w\<rparr>] in
        if length ts = HAND \<or> (c_game ct = GNull \<and> w = declarer s)
        then s' = s\<lparr>tricks := ts, phase := PDone, trick := None, next_seat := -1\<rparr>
        else s' = s\<lparr>tricks := ts, trick := Some \<lparr>lead = w, cards = []\<rparr>, next_seat := w\<rparr>))"
proof -
  from assms obtain ct c where 1: "contract s = Some ct" "a_card a = Some c" "c \<notin> set (played s)"
    by (auto simp: play_card_def Let_def split: option.splits if_splits)
  from assms obtain tr where 2: "trick s = Some tr"
    by (auto simp: play_card_def Let_def split: option.splits if_splits)
  show ?thesis
    by (rule that [OF 1(1) 2 1(2,3)])
      (insert assms 1 2, auto simp: play_card_def Let_def SEATS_def split: option.splits if_splits)
qed

lemma frame_simps [simp]:
  "contract_ok (s\<lparr>trick := x\<rparr>) c = contract_ok s c" "contract_ok (s\<lparr>tricks := y\<rparr>) c = contract_ok s c"
  "contract_ok (s\<lparr>next_seat := n\<rparr>) c = contract_ok s c" "contract_ok (s\<lparr>phase := p\<rparr>) c = contract_ok s c"
  "open_ok (s\<lparr>trick := x\<rparr>) c = open_ok s c" "open_ok (s\<lparr>tricks := y\<rparr>) c = open_ok s c"
  "open_ok (s\<lparr>next_seat := n\<rparr>) c = open_ok s c" "open_ok (s\<lparr>phase := p\<rparr>) c = open_ok s c"
  "open_ok (s\<lparr>kontra := k\<rparr>) c = open_ok s c"
  by (simp_all add: contract_ok_def open_ok_def)

lemma play_card_inv:
  assumes inv: "inv s" and ph: "phase s = PPlay" and ok: "play_card s (next_seat s) a = Inr s'"
  shows "inv s'"
  using ok
proof (cases rule: play_card_cases)
  case (1 c ct tr)
  let ?cs = "cards tr @ [Play (next_seat s) c]" and ?w = "trickWinner (c_game ct) (cards tr @ [Play (next_seat s) c])"
  let ?t = "\<lparr>lead = lead tr, cards = ?cs, winner = ?w\<rparr>"
  have I: "seat_ok (dealer s)" "contract_ok s ct" "open_ok s ct" "table_ok s ct (lead tr)" "kontra s \<le> 2"
      "\<not> passedOut s" "seat_ok (lead tr)" "seats_from (lead tr) (cards tr)" "length (cards tr) < 3"
      "length (tricks s) < HAND" "next_seat s = (lead tr + int (length (cards tr))) mod 3"
      "c_game ct = GNull \<longrightarrow> (\<forall>w \<in> set (tricks s). winner w \<noteq> declarer s)"
      "b_v (bid s) = 0 \<or> b_v (bid s) \<in> set BIDS"
    using inv ph 1(1,2) by (simp_all add: inv_def phase_ok_def)
  have seats: "seats_from (lead tr) ?cs" using I(8,11) by (simp add: seats_from_snoc)
  have pl: "distinct (played s @ [c])" using 1(4) I(4) by (simp add: table_ok_def)
  from 1(5) consider (more) "length (cards tr) < 2"
      "s' = s\<lparr>trick := Some (tr\<lparr>cards := ?cs\<rparr>), next_seat := (next_seat s + 1) mod 3\<rparr>"
    | (full) "length (cards tr) = 2" "s' = s\<lparr>tricks := tricks s @ [?t], phase := PDone, trick := None, next_seat := -1\<rparr>"
        "length (tricks s @ [?t]) = HAND \<or> (c_game ct = GNull \<and> ?w = declarer s)"
    | (goes_on) "length (cards tr) = 2" "s' = s\<lparr>tricks := tricks s @ [?t], trick := Some \<lparr>lead = ?w, cards = []\<rparr>, next_seat := ?w\<rparr>"
        "\<not> (length (tricks s @ [?t]) = HAND \<or> (c_game ct = GNull \<and> ?w = declarer s))"
    using I(9) by (auto simp: Let_def split: if_splits)
  then show ?thesis
  proof cases
    case more
    have "played s' = played s @ [c]" using more 1(2) by (simp add: played_def all_tricks_def)
    moreover have "(next_seat s + 1) mod 3 = (lead tr + int (length ?cs)) mod 3"
      unfolding I(11) by (simp add: mod_add_right_eq mod_add_left_eq algebra_simps)
    ultimately show ?thesis using more I(1-10,12,13) 1(1-4) ph seats pl
      by (simp add: inv_def phase_ok_def table_ok_def)
  next
    case full
    have "played s' = played s @ [c]" using full 1(2) by (simp add: played_def all_tricks_def)
    moreover have "trick_shape (c_game ct) ?t" using full I seats by (simp add: trick_shape_def)
    ultimately show ?thesis using full I(1-10,12,13) 1(1-4) ph pl
      by (simp add: inv_def phase_ok_def table_ok_def chain_snoc)
  next
    case goes_on
    have "played s' = played s @ [c]" using goes_on 1(2) by (simp add: played_def all_tricks_def)
    moreover have "trick_shape (c_game ct) ?t" using goes_on I seats by (simp add: trick_shape_def)
    moreover have "seat_ok ?w" by (rule trickWinner_seat [OF _ seats]) simp
    ultimately show ?thesis using goes_on I(1-10,12,13) 1(1-4) ph pl
      by (auto simp: inv_def phase_ok_def table_ok_def chain_snoc seat_ok_def)
  qed
qed

lemma kontraOk_contract:
  assumes "kontraOk s seat t"
  shows "\<exists>c. phase s = PPlay \<and> contract s = Some c \<and> \<not> c_ramsch c \<and> kontra s \<le> 1"
  using assms by (auto simp: kontraOk_def split: if_splits option.splits)

lemma kontra_inv:
  assumes "inv s" "kontraOk s seat t"
  shows "inv (s\<lparr>kontra := kontra s + 1\<rparr>)"
proof -
  obtain c where c: "phase s = PPlay" "contract s = Some c" "\<not> c_ramsch c" "kontra s \<le> 1"
    using kontraOk_contract [OF assms(2)] by blast
  then have "contract_ok (s\<lparr>kontra := kontra s + 1\<rparr>) c = contract_ok s c"
    by (simp add: contract_ok_def)
  with c assms(1) show ?thesis
    by (auto simp: inv_def phase_ok_def table_ok_def played_def all_tricks_def split: option.splits)
qed

lemma inv_step:
  assumes inv: "inv s" and ok: "apply_action s a = Inr s'"
  shows "inv s'"
  using ok
proof (cases rule: apply_action_cases)
  case (bidding seat)
  then show ?thesis using applyBid_inv inv by blast
next
  case (kontra seat)
  then show ?thesis using kontra_inv inv by blast
next
  case pickup
  then show ?thesis using inv by (simp add: state_defs)
next
  case push
  then show ?thesis using inv by (simp add: state_defs)
next
  case decl
  then show ?thesis using apply_declare_inv inv by blast
next
  case show_hand
  then show ?thesis using apply_show_inv inv by blast
next
  case play
  then show ?thesis using play_card_inv inv by blast
qed

section \<open>Every action uses up the budget\<close>

lemma filter_gt_less:
  assumes "v \<in> set xs" "x < v"
  shows "length (filter (\<lambda>y. v < (y::int)) xs) < length (filter (\<lambda>y. x < y) xs)"
proof -
  have "length (filter (\<lambda>y. v < y) xs) = length (filter (\<lambda>y. v < y) (filter (\<lambda>y. x < y) xs))"
    using assms(2) by (auto simp: filter_filter intro!: arg_cong [of _ _ length] filter_cong)
  also have "\<dots> < length (filter (\<lambda>y. x < y) xs)"
    by (rule length_filter_less [of v]) (use assms in auto)
  finally show ?thesis .
qed

lemma played_kontra [simp]: "played (s\<lparr>kontra := k\<rparr>) = played s"
  by (simp add: played_def all_tricks_def)

lemma applyBid_budget:
  assumes inv: "inv s" and ph: "phase s = PBid" and ok: "applyBid s seat a = Inr s'"
  shows "left_over s' < left_over s"
proof -
  have q: "quiet s" "bid_ok s" using inv ph by (simp_all add: inv_def phase_ok_def)
  have p0: "played s = []" using q(1) by (simp add: quiet_def played_def all_tricks_def)
  show ?thesis
    using ok
  proof (cases rule: applyBid_cases)
    case (bid v)
    from filter_gt_less [OF bid(3,4)]
    have "length (filter (\<lambda>y. v < y) BIDS) < length (filter (\<lambda>y. b_v (Skat.bid s) < y) BIDS)" .
    with bid ph p0 show ?thesis
      by (simp add: left_over_def phases_left_def bids_left_def played_def all_tricks_def split: stage.splits)
  qed (use q ph p0 in \<open>auto simp: left_over_def phases_left_def bids_left_def played_def all_tricks_def quiet_def
      bid_ok_def Let_def lead_off_def toDeclarer_def split: stage.splits\<close>)
qed

lemma budget_step:
  assumes inv: "inv s" and ok: "apply_action s a = Inr s'"
  shows "left_over s' < left_over s"
  using ok
proof (cases rule: apply_action_cases)
  case (bidding seat)
  then show ?thesis using applyBid_budget inv by blast
next
  case (kontra seat)
  then show ?thesis using kontraOk_contract [of s seat "a_t a"]
    by (auto simp: left_over_def phases_left_def)
next
  case pickup
  then show ?thesis by (simp add: left_over_def phases_left_def played_def all_tricks_def)
next
  case push
  then show ?thesis by (simp add: left_over_def phases_left_def played_def all_tricks_def)
next
  case decl
  then have "quiet s" using inv by (auto simp: inv_def phase_ok_def)
  with decl show ?thesis
    by (auto simp: apply_declare_def left_over_def phases_left_def played_def all_tricks_def lead_off_def Let_def
        quiet_def split: option.splits)
next
  case show_hand
  then show ?thesis
    by (auto simp: apply_show_def left_over_def phases_left_def played_def all_tricks_def split: option.splits if_splits)
next
  case play
  then obtain ct tr where t: "contract s = Some ct" "trick s = Some tr" "table_ok s ct (lead tr)" "length (cards tr) < 3"
      "length (tricks s) < HAND"
    using inv by (auto simp: inv_def phase_ok_def split: option.splits)
  have "length (played s) < 30"
    using table_played [OF t(3)] t by (simp add: trick_cards_def HAND_def)
  moreover have "length (played s') = Suc (length (played s))" "kontra s' = kontra s" "phases_left s' = phases_left s"
    using play(3,1) t(2)
    by (auto elim!: play_card_cases simp: played_def all_tricks_def Let_def phases_left_def split: if_splits)
  ultimately show ?thesis by (simp add: left_over_def)
qed

lemma budget_start: "left_over (start d r) \<le> 165"
  by (auto simp: left_over_def phases_left_def bids_left_def start_def Let_def played_def all_tricks_def BIDS_eq)

lemma done_refuses: "is_done s \<Longrightarrow> apply_action s a \<noteq> Inr s'"
  by (auto simp: is_done_def apply_action_def split: option.splits)

interpretation skat: rule_engine "\<lambda>s. \<exists>d r. s = start d r" apply_action is_done inv left_over 165
  by unfold_locales (auto intro: inv_start inv_step budget_start budget_step simp: done_refuses)

end
