(* ===== verification/Skat_Play.thy ===== *)
theory Skat_Play
  imports Skat_Correct
begin

text \<open>
  Skat with the cards in sight: who wins a trick, what the hands of the three seats are
  while a hand is played, that the moves \<open>actions\<close> offers and the automatic move are
  accepted, and that an honest hand passes the audit.
\<close>

section \<open>Who wins a trick\<close>

lemma trumpOrder_set: "c \<in> set (trumpOrder g) \<longleftrightarrow> isTrump g c"
proof (cases g)
  case (GSuit s)
  then show ?thesis
    by (cases c; cases "rank c"; cases "suit c")
      (auto simp: trumpOrder_def isTrump_def JACKS_def PLAIN_def)
next
  case Grand
  then show ?thesis
    by (cases c; cases "suit c") (auto simp: trumpOrder_def isTrump_def JACKS_def)
qed (auto simp: trumpOrder_def isTrump_def)

lemma length_trumpOrder: "length (trumpOrder g) \<le> 11"
  by (cases g) (simp_all add: trumpOrder_def JACKS_def PLAIN_def)

lemma power_trump_bound: "isTrump g c \<Longrightarrow> 89 \<le> power g c l"
  using indexOf_bound [of c "trumpOrder g"] length_trumpOrder [of g]
  by (simp add: power_def trumpOrder_set)

lemma indexOf_rank_bound: "indexOf NULLRANK r < 8" "indexOf PLAIN r < 7"
  by (cases r; simp add: NULLRANK_def PLAIN_def)+

lemma power_plain_bound:
  "\<not> isTrump g c \<Longrightarrow> power g c l \<le> 51"
  "\<not> isTrump g c \<Longrightarrow> Plain (suit c) = l \<Longrightarrow> 42 < power g c l"
  using indexOf_ge [of NULLRANK "rank c"] indexOf_ge [of PLAIN "rank c"] indexOf_rank_bound [of "rank c"]
  by (auto simp: power_def)

definition plain_order :: "game \<Rightarrow> rank list" where
  "plain_order g = (if g = GNull then NULLRANK else PLAIN)"

definition beats_all :: "game \<Rightarrow> card \<Rightarrow> card list \<Rightarrow> bool" where
  "beats_all g w cs \<longleftrightarrow>
     (if list_ex (isTrump g) cs
      then isTrump g w \<and> list_all (\<lambda>c. isTrump g c \<longrightarrow> indexOf (trumpOrder g) w \<le> indexOf (trumpOrder g) c) cs
      else suit w = suit (hd cs) \<and>
        list_all (\<lambda>c. suit c = suit (hd cs) \<longrightarrow>
          indexOf (plain_order g) (rank w) \<le> indexOf (plain_order g) (rank c)) cs)"

text \<open>
  The seat \<open>trickWinner\<close> names played a card of the trick that no other beats: the
  highest trump if there is a trump in the trick, and otherwise the highest card of the suit
  led, in the order of ranks of the game.
\<close>

theorem trick_winner_beats:
  assumes "cs \<noteq> []"
  shows "\<exists>x \<in> set cs. trickWinner g cs = pseat x \<and> beats_all g (pcard x) (map pcard cs)"
proof -
  let ?l = "suitOf g (pcard (hd cs))" and ?i = "bestIndex g cs"
  let ?k = "\<lambda>x. power g (pcard x) ?l" and ?w = "cs ! bestIndex g cs"
  have i: "?i < length cs" and "\<forall>j < length cs. ?k (cs ! j) \<le> ?k ?w"
    using best_at_max [OF assms, of ?k] by (simp_all add: bestIndex_def Let_def)
  then have mx: "\<forall>x \<in> set cs. ?k x \<le> ?k ?w" by (metis in_set_conv_nth)
  have hd: "hd cs \<in> set cs" using assms by simp
  have "beats_all g (pcard ?w) (map pcard cs)"
  proof (cases "\<exists>x \<in> set cs. isTrump g (pcard x)")
    case True
    then obtain x where x: "x \<in> set cs" "isTrump g (pcard x)" by blast
    have w: "isTrump g (pcard ?w)"
      using mx x power_trump_bound [OF x(2), of ?l] power_plain_bound(1) [of g "pcard ?w" ?l] by force
    then have "\<forall>y \<in> set cs. isTrump g (pcard y) \<longrightarrow> indexOf (trumpOrder g) (pcard ?w) \<le> indexOf (trumpOrder g) (pcard y)"
      using mx by (fastforce simp: power_def)
    with True w show ?thesis by (simp add: beats_all_def list_ex_iff list_all_iff)
  next
    case False
    then have nt: "\<not> isTrump g (pcard y)" if "y \<in> set cs" for y using that by blast
    have l: "?l = Plain (suit (pcard (hd cs)))" using nt [OF hd] by (simp add: suitOf_def)
    have w: "?w \<in> set cs" using i by simp
    have "Plain (suit (pcard ?w)) = ?l"
    proof (rule ccontr)
      assume "Plain (suit (pcard ?w)) \<noteq> ?l"
      then have "?k ?w = -1" using nt [OF w] by (simp add: power_def)
      with mx hd power_plain_bound(2) [OF nt [OF hd] l [symmetric]] show False by fastforce
    qed
    then have s: "suit (pcard ?w) = suit (pcard (hd cs))" using l by simp
    have "\<forall>y \<in> set cs. suit (pcard y) = suit (pcard (hd cs)) \<longrightarrow>
        indexOf (plain_order g) (rank (pcard ?w)) \<le> indexOf (plain_order g) (rank (pcard y))"
      using mx nt w s l by (fastforce simp: power_def plain_order_def)
    with False s assms show ?thesis by (simp add: beats_all_def list_ex_iff list_all_iff hd_map)
  qed
  moreover have "trickWinner g cs = pseat ?w" by (simp add: trickWinner_def)
  ultimately show ?thesis using i nth_mem by blast
qed

theorem trick_winner_beats_witness:
  "\<exists>x \<in> set [Play 0 (Card SuitS RankA), Play 1 (Card SuitS Rank7), Play 2 (Card SuitD RankJ)].
     trickWinner Grand [Play 0 (Card SuitS RankA), Play 1 (Card SuitS Rank7), Play 2 (Card SuitD RankJ)] = pseat x
     \<and> beats_all Grand (pcard x) (map pcard [Play 0 (Card SuitS RankA), Play 1 (Card SuitS Rank7), Play 2 (Card SuitD RankJ)])"
  by (rule trick_winner_beats) simp

section \<open>The hands\<close>

text \<open>The hands of the three seats, and what an action takes out of them.\<close>

type_synonym hands = "int \<Rightarrow> card list"

definition take_out :: "hands \<Rightarrow> action \<Rightarrow> hands" where
  "take_out h a = (case a_seat a of None \<Rightarrow> h | Some p \<Rightarrow>
     (case a_t a of
        TPlay \<Rightarrow> h(p := remove1 (the (a_card a)) (h p))
      | TPush \<Rightarrow> h(p := filter (\<lambda>c. Some c \<notin> set (case a_cards a of None \<Rightarrow> [] | Some l \<Rightarrow> l)) (h p))
      | _ \<Rightarrow> h))"

definition hand_size :: "state \<Rightarrow> int \<Rightarrow> nat" where
  "hand_size s p = (if phase s = PPush \<and> p = declarer s then 12 else HAND - playedBy s p)"

definition fits :: "state \<Rightarrow> hands \<Rightarrow> bool" where
  "fits s h \<longleftrightarrow>
     (\<forall>p \<in> {0, 1, 2}. distinct (h p) \<and> length (h p) = hand_size s p \<and> set (h p) \<inter> set (played s) = {}) \<and>
     (\<forall>p \<in> {0, 1, 2}. \<forall>q \<in> {0, 1, 2}. p \<noteq> q \<longrightarrow> set (h p) \<inter> set (h q) = {}) \<and>
     (case opened s of None \<Rightarrow> True | Some op \<Rightarrow> set (h (declarer s)) = set op - set (played s))"

lemma seat_ok_iff: "seat_ok p \<longleftrightarrow> p \<in> {0, 1, 2}"
  by (auto simp: seat_ok_def)

lemma playedBy_alt: "playedBy s p = length (filter (\<lambda>x. pseat x = p) (concat (all_tricks s)))"
  by (simp add: playedBy_def filter_concat length_concat comp_def)

lemma playedBy_full_trick:
  assumes "seat_ok l" "length cs = 3" "seats_from l cs" "seat_ok p"
  shows "length (filter (\<lambda>x. pseat x = p) cs) = 1"
proof -
  obtain a b c where cs: "cs = [a, b, c]" using assms(2) by (auto simp: length_Suc_conv numeral_3_eq_3)
  have "pseat a = l mod 3" "pseat b = (l + 1) mod 3" "pseat c = (l + 2) mod 3"
    using assms(3) by (auto simp: cs seats_from_def)
  moreover have "l = 0 \<or> l = 1 \<or> l = 2" "p = 0 \<or> p = 1 \<or> p = 2" using assms by (auto simp: seat_ok_iff)
  ultimately show ?thesis unfolding cs by (elim disjE) simp_all
qed

lemma playedBy_tricks:
  assumes "\<forall>t \<in> set ts. trick_shape g t" "seat_ok p"
  shows "sum_list (map (\<lambda>t. length (filter (\<lambda>x. pseat x = p) (cards t))) ts) = length ts"
  using assms by (induction ts) (auto simp: trick_shape_def playedBy_full_trick)

lemma playedBy_play:
  assumes "table_ok s c l" "trick s = Some t" "seat_ok p"
  shows "playedBy s p = length (tricks s) + length (filter (\<lambda>x. pseat x = p) (cards t))"
  using assms playedBy_tricks [of "tricks s" "c_game c" p]
  by (simp add: playedBy_def all_tricks_def table_ok_def comp_def)

text \<open>The seat to play has not yet played in the trick on the table.\<close>

lemma next_not_yet:
  assumes "seat_ok l" "seats_from l cs" "length cs < 3"
  shows "filter (\<lambda>x. pseat x = (l + int (length cs)) mod 3) cs = []"
proof -
  have l: "l = 0 \<or> l = 1 \<or> l = 2" using assms(1) by (auto simp: seat_ok_iff)
  have "length cs = 0 \<or> length cs = 1 \<or> length cs = 2" using assms(3) by linarith
  then show ?thesis
  proof (elim disjE)
    assume "length cs = 0"
    then show ?thesis by simp
  next
    assume "length cs = 1"
    then obtain a where cs: "cs = [a]" by (auto simp: length_Suc_conv)
    with assms(2) have "pseat a = l mod 3" by (simp add: seats_from_def)
    with l show ?thesis by (auto simp: cs)
  next
    assume "length cs = 2"
    then obtain a b where cs: "cs = [a, b]" by (auto simp: length_Suc_conv numeral_2_eq_2)
    with assms(2) have "pseat a = l mod 3" "pseat b = (l + 1) mod 3" by (auto simp: seats_from_def)
    with l show ?thesis by (auto simp: cs)
  qed
qed

lemma play_phase:
  assumes "inv s" "phase s = PPlay"
  obtains c t where "contract s = Some c" "trick s = Some t" "table_ok s c (lead t)" "contract_ok s c" "open_ok s c"
    "seat_ok (next_seat s)" "length (tricks s) < HAND" "playedBy s (next_seat s) = length (tricks s)"
    "length (cards t) < 3" "seat_ok (lead t)" "seats_from (lead t) (cards t)"
    "next_seat s = (lead t + int (length (cards t))) mod 3"
proof -
  from assms obtain c t where I: "contract s = Some c" "trick s = Some t" "table_ok s c (lead t)" "contract_ok s c"
     "open_ok s c" "seat_ok (lead t)" "seats_from (lead t) (cards t)" "length (cards t) < 3" "length (tricks s) < HAND"
     "next_seat s = (lead t + int (length (cards t))) mod 3"
    by (auto simp: inv_def phase_ok_def split: option.splits)
  have n: "seat_ok (next_seat s)" using I(10) by simp
  have "playedBy s (next_seat s) = length (tricks s)"
    using playedBy_play [OF I(3,2) n] next_not_yet [OF I(6-8)] I(10) by simp
  with I n that show ?thesis by blast
qed

section \<open>Moves from a hand\<close>

text \<open>Playing a card of the hand that may be played is accepted, and the hands still fit.\<close>

lemma mayPlay_set: "set h = set h' \<Longrightarrow> mayPlay g h c t = mayPlay g h' c t"
  by (simp add: mayPlay_def list_ex_iff Let_def split: list.splits)

lemma mayPlay_in: "mayPlay g h c t \<Longrightarrow> c \<in> set h"
  by (simp add: mayPlay_def split: if_splits)

lemma mayPlay_exists:
  assumes "h \<noteq> []"
  shows "\<exists>c \<in> set h. mayPlay g h c t"
proof (cases t)
  case Nil
  with assms show ?thesis by (cases h) (auto simp: mayPlay_def)
next
  case (Cons x xs)
  then show ?thesis using assms
    by (cases "\<exists>d \<in> set h. suitOf g d = suitOf g (pcard x)") (auto simp: mayPlay_def list_ex_iff Let_def neq_Nil_conv)
qed

definition play_act :: "int \<Rightarrow> card \<Rightarrow> action" where
  "play_act p c = (mk_act TPlay p)\<lparr>a_card := Some c\<rparr>"

lemma play_act_simps [simp]:
  "a_t (play_act p c) = TPlay" "a_seat (play_act p c) = Some p" "a_card (play_act p c) = Some c"
  by (simp_all add: play_act_def mk_act_def)

lemma play_accepted:
  assumes inv: "inv s" and ph: "phase s = PPlay" and fits: "fits s h"
    and c: "mayPlay (game_of s) (h (next_seat s)) c (trick_cards s)"
  shows "\<exists>s'. apply_action s (play_act (next_seat s) c) = Inr s'"
proof -
  obtain ct t where I: "contract s = Some ct" "trick s = Some t" "contract_ok s ct" "open_ok s ct" "seat_ok (next_seat s)"
    using play_phase [OF inv ph] by metis
  let ?n = "next_seat s"
  have ch: "c \<in> set (h ?n)" using c by (rule mayPlay_in)
  have np: "c \<notin> set (played s)" using fits ch I(5) by (auto simp: fits_def seat_ok_iff)
  have op: "\<not> (case opened s of None \<Rightarrow> False | Some op \<Rightarrow>
                 let left = filter (\<lambda>x. x \<notin> set (played s)) op in
                 if ?n = declarer s then \<not> mayPlay (c_game ct) left c (trick_cards s) else c \<in> set left)"
  proof (cases "opened s")
    case (Some op)
    have d: "seat_ok (declarer s)"
      using I(3,4) Some by (auto simp: contract_ok_def open_ok_def split: if_splits)
    have left: "set (filter (\<lambda>x. x \<notin> set (played s)) op) = set (h (declarer s))"
      using fits Some by (auto simp: fits_def)
    have "mayPlay (c_game ct) (filter (\<lambda>x. x \<notin> set (played s)) op) c (trick_cards s)" if "?n = declarer s"
      using c I(1) mayPlay_set [OF left] that by (simp add: game_of_def)
    moreover have "c \<notin> set (h (declarer s))" if "?n \<noteq> declarer s"
      using fits that d I(5) ch unfolding fits_def seat_ok_iff by blast
    ultimately show ?thesis using Some left by (auto simp: Let_def)
  qed simp
  show ?thesis
    using I(1,2) np op ph
    by (simp add: apply_action_def turn_def play_card_def Let_def split: if_splits)
qed

lemma play_card_effect:
  assumes "play_card s p a = Inr s'" "a_card a = Some c" "phase s = PPlay"
  shows "concat (all_tricks s') = concat (all_tricks s) @ [Play p c]" and "opened s' = opened s"
    and "declarer s' = declarer s" and "contract s' = contract s" and "pickedUp s' = pickedUp s"
    and "phase s' = PPlay \<or> phase s' = PDone" and "passedOut s' = passedOut s"
proof -
  from assms(1) show "concat (all_tricks s') = concat (all_tricks s) @ [Play p c]"
  proof (cases rule: play_card_cases)
    case (1 c' ct tr)
    then show ?thesis using assms(2) by (auto simp: all_tricks_def Let_def split: if_splits)
  qed
  from assms(1) have "opened s' = opened s \<and> declarer s' = declarer s \<and> contract s' = contract s
      \<and> pickedUp s' = pickedUp s \<and> (phase s' = PPlay \<or> phase s' = PDone) \<and> passedOut s' = passedOut s"
  proof (cases rule: play_card_cases)
    case (1 c' ct tr)
    then show ?thesis using assms(3) by (auto simp: Let_def split: if_splits)
  qed
  then show "opened s' = opened s" and "declarer s' = declarer s" and "contract s' = contract s"
    and "pickedUp s' = pickedUp s" and "phase s' = PPlay \<or> phase s' = PDone" and "passedOut s' = passedOut s"
    by blast+
qed

lemma apply_play:
  "phase s = PPlay \<Longrightarrow> apply_action s (play_act p c) = (if p = next_seat s then play_card s p (play_act p c) else fail ''turn'')"
  by (simp add: apply_action_def turn_def)

lemma play_fits:
  assumes inv: "inv s" and ph: "phase s = PPlay" and fits: "fits s h"
    and c: "c \<in> set (h (next_seat s))" and ok: "apply_action s (play_act (next_seat s) c) = Inr s'"
  shows "fits s' (take_out h (play_act (next_seat s) c))"
proof -
  obtain ct where I: "contract s = Some ct" "seat_ok (next_seat s)" "contract_ok s ct" "open_ok s ct"
    using play_phase [OF inv ph] by metis
  let ?n = "next_seat s"
  have pc: "play_card s ?n (play_act ?n c) = Inr s'" using ok ph by (simp add: apply_play)
  note eff = play_card_effect [OF pc _ ph, of c, simplified]
  have pb: "playedBy s' p = playedBy s p + (if p = ?n then 1 else 0)" for p
    by (simp add: playedBy_alt eff(1))
  have sp: "set (played s') = insert c (set (played s))" by (auto simp: played_def eff(1))
  have n: "?n \<in> {0,1,2}" using I(2) by (simp add: seat_ok_iff)
  have d: "declarer s \<in> {0,1,2}" if "opened s \<noteq> None"
    using I that by (auto simp: contract_ok_def open_ok_def seat_ok_iff split: if_splits)
  have H: "length (h p) = HAND - playedBy s p" "distinct (h p)" "set (h p) \<inter> set (played s) = {}" if "p \<in> {0,1,2}" for p
    using fits ph that by (auto simp: fits_def hand_size_def)
  have D: "set (h p) \<inter> set (h q) = {}" if "p \<in> {0,1,2}" "q \<in> {0,1,2}" "p \<noteq> q" for p q
    using fits that by (auto simp: fits_def)
  have O: "set (h (declarer s)) = set op - set (played s)" if "opened s = Some op" for op
    using fits that by (auto simp: fits_def)
  let ?h = "h(?n := remove1 c (h ?n))"
  have r: "set (remove1 c (h ?n)) = set (h ?n) - {c}" using H(2) [OF n] by simp
  have cq: "c \<notin> set (h q)" if "q \<in> {0,1,2}" "q \<noteq> ?n" for q using D [OF n that(1)] that(2) c by blast
  have "\<forall>p \<in> {0,1,2}. distinct (?h p) \<and> length (?h p) = hand_size s' p \<and> set (?h p) \<inter> set (played s') = {}"
  proof
    fix p :: int assume p: "p \<in> {0,1,2}"
    have "hand_size s' p = HAND - playedBy s' p" using eff(6) by (auto simp: hand_size_def)
    then show "distinct (?h p) \<and> length (?h p) = hand_size s' p \<and> set (?h p) \<inter> set (played s') = {}"
      using H [OF p] cq [OF p] r pb [of p] c by (auto simp: sp length_remove1)
  qed
  moreover have "\<forall>p \<in> {0,1,2}. \<forall>q \<in> {0,1,2}. p \<noteq> q \<longrightarrow> set (?h p) \<inter> set (?h q) = {}"
  proof (intro ballI impI)
    fix p q :: int assume "p \<in> {0,1,2}" "q \<in> {0,1,2}" "p \<noteq> q"
    moreover have "set (?h x) \<subseteq> set (h x)" for x by (simp add: set_remove1_subset)
    ultimately show "set (?h p) \<inter> set (?h q) = {}" using D [of p q] by blast
  qed
  moreover have "case opened s' of None \<Rightarrow> True | Some op \<Rightarrow> set (?h (declarer s')) = set op - set (played s')"
    using O r cq d by (auto simp: eff(2,3) sp split: option.splits)
  moreover have "take_out h (play_act ?n c) = ?h" by (simp add: take_out_def)
  ultimately show ?thesis by (simp add: fits_def)
qed

section \<open>The automatic player, and the moves offered\<close>

lemma mk_act_simps [simp]:
  "a_t (mk_act ty p) = ty" "a_seat (mk_act ty p) = Some p" "a_v (mk_act ty p) = None" "a_game (mk_act ty p) = None"
  "a_card (mk_act ty p) = None" "a_cards (mk_act ty p) = None"
  by (simp_all add: mk_act_def)

lemma declare_act_simps [simp]:
  "a_t (declare_act p x) = TDeclare" "a_seat (declare_act p x) = Some p"
  by (auto simp: declare_act_def split: prod.splits)

lemma auto_declare_ok: "checkContract s (auto_declare s p h) = None"
  by (simp add: auto_declare_def declare_act_def checkContract_def Let_def mk_act_def)

text \<open>Outside the play phase a seat keeps its cards, apart from the two it pushes.\<close>

lemma hand_size_quiet:
  "quiet s \<Longrightarrow> hand_size s p = (if phase s = PPush \<and> p = declarer s then 12 else HAND)"
  by (simp add: hand_size_def quiet_def playedBy_def all_tricks_def)

lemma inv_quiet: "inv s \<Longrightarrow> phase s \<in> {PBid, PSkat, PPush, PDeclare} \<Longrightarrow> quiet s"
  by (auto simp: inv_def phase_ok_def)

lemma applyBid_fits:
  assumes inv: "inv s" and ph: "phase s = PBid" and fits: "fits s h" and ok: "applyBid s p a = Inr s'"
  shows "fits s' h"
proof -
  have q: "quiet s" using inv ph inv_quiet by blast
  have f: "played s' = [] \<and> opened s' = None \<and> phase s' \<noteq> PPush \<and> all_tricks s' \<in> {[], [[]]}"
    using ok
    by (cases rule: applyBid_cases) (use q ph in \<open>auto simp: quiet_def played_def all_tricks_def toDeclarer_def lead_off_def\<close>)
  then have "hand_size s' x = HAND" for x by (auto simp: hand_size_def playedBy_def)
  moreover have "hand_size s x = HAND" for x using hand_size_quiet [OF q] ph by simp
  ultimately show "fits s' h" using fits f q by (auto simp: fits_def quiet_def played_def all_tricks_def)
qed

lemma pass_accepted:
  assumes inv: "inv s" and ph: "phase s = PBid" and fits: "fits s h"
  shows "\<exists>s'. apply_action s (mk_act TPass (turn s)) = Inr s' \<and> fits s' h"
proof -
  have b: "bidSeat s (turn s)" using ph by (simp add: bidSeat_def turn_def)
  obtain s' where s': "applyBid s (turn s) (mk_act TPass (turn s)) = Inr s'"
    using b by (cases "applyBid s (turn s) (mk_act TPass (turn s))") (auto simp: applyBid_def Let_def split: if_splits)
  then show ?thesis using applyBid_fits [OF inv ph fits s'] ph by (simp add: apply_action_def)
qed

lemma apply_declare_fits:
  assumes inv: "inv s" and ph: "phase s = PSkat \<or> phase s = PDeclare" and fits: "fits s h"
    and ok: "apply_declare s a = Inr s'"
  shows "fits s' h"
proof -
  have q: "quiet s" using inv ph inv_quiet by blast
  have f: "played s' = [] \<and> opened s' = None \<and> phase s' \<noteq> PPush \<and> all_tricks s' = [[]]"
    using q ok
    by (auto simp: apply_declare_def Let_def quiet_def played_def all_tricks_def lead_off_def split: if_splits option.splits)
  then have "hand_size s' p = HAND" for p by (simp add: hand_size_def playedBy_def)
  moreover have "hand_size s p = HAND" for p using hand_size_quiet [OF q] ph by auto
  ultimately show "fits s' h" using fits f q by (auto simp: fits_def quiet_def played_def all_tricks_def)
qed

lemma declare_accepted:
  assumes inv: "inv s" and ph: "phase s \<in> {PSkat, PDeclare}" and fits: "fits s h"
    and a: "a_t a = TDeclare" "a_seat a = Some (declarer s)" "checkContract s a = None"
  shows "\<exists>s'. apply_action s a = Inr s' \<and> fits s' h"
proof -
  obtain s' where s': "apply_declare s a = Inr s'" using a(3) by (simp add: apply_declare_def Let_def)
  moreover have "apply_action s a = Inr s'" using s' ph a by (auto simp: apply_action_def turn_def)
  ultimately show ?thesis using apply_declare_fits [OF inv _ fits s'] ph by blast
qed

lemma show_accepted:
  assumes inv: "inv s" and ph: "phase s = PShow" and fits: "fits s h"
  shows "\<exists>s'. apply_action s ((mk_act TShow (declarer s))\<lparr>a_cards := Some (map Some (h (declarer s)))\<rparr>) = Inr s' \<and> fits s' h"
proof -
  let ?d = "declarer s"
  obtain c where I: "contract s = Some c" "c_ouvert c" "contract_ok s c" "tricks s = []" "opened s = None"
      "trick s = Some \<lparr>lead = forehand (dealer s), cards = []\<rparr>"
    using inv ph by (auto simp: inv_def phase_ok_def split: option.splits)
  have d: "?d \<in> {0,1,2}" using I by (auto simp: contract_ok_def seat_ok_iff split: if_splits)
  have hs: "hand_size s p = HAND" for p using I ph by (simp add: hand_size_def playedBy_def all_tricks_def)
  have H: "length (h ?d) = HAND" "distinct (h ?d)" using fits d hs by (auto simp: fits_def)
  then have "card (set (map Some (h ?d))) = HAND"
    by (simp add: distinct_card card_image)
  then have ok: "apply_action s ((mk_act TShow ?d)\<lparr>a_cards := Some (map Some (h ?d))\<rparr>)
      = Inr (s\<lparr>opened := Some (h ?d), phase := PPlay\<rparr>)"
    using H ph by (simp add: apply_action_def turn_def apply_show_def list_all_iff comp_def)
  have "fits (s\<lparr>opened := Some (h ?d), phase := PPlay\<rparr>) h"
    using fits I hs ph by (auto simp: fits_def hand_size_def playedBy_def all_tricks_def played_def)
  with ok show ?thesis by blast
qed

lemma push_accepted:
  assumes inv: "inv s" and ph: "phase s = PPush" and fits: "fits s h"
    and cs: "cs = [x, y]" "x \<noteq> y" "x \<in> set (h (declarer s))" "y \<in> set (h (declarer s))"
  shows "let a = (mk_act TPush (declarer s))\<lparr>a_cards := Some (map Some cs)\<rparr> in
     \<exists>s'. apply_action s a = Inr s' \<and> fits s' (take_out h a)"
proof -
  let ?d = "declarer s" and ?s' = "s\<lparr>pushed := True, phase := PDeclare\<rparr>"
  have q: "quiet s" using inv ph inv_quiet by blast
  have d: "?d \<in> {0,1,2}" using inv ph by (auto simp: inv_def phase_ok_def seat_ok_iff)
  have H: "length (h ?d) = 12" "distinct (h ?d)" using fits d hand_size_quiet [OF q] ph by (auto simp: fits_def)
  let ?h = "filter (\<lambda>c. Some c \<notin> set (map Some cs)) (h ?d)"
  have "length (filter (\<lambda>c. Some c \<in> set (map Some cs)) (h ?d)) = card (set (filter (\<lambda>c. Some c \<in> set (map Some cs)) (h ?d)))"
    using distinct_filter [OF H(2)] distinct_card by metis
  also have "set (filter (\<lambda>c. Some c \<in> set (map Some cs)) (h ?d)) = {x, y}" using cs by auto
  finally have "length ?h = 10"
    using sum_length_filter_compl [of "\<lambda>c. Some c \<in> set (map Some cs)" "h ?d"] H(1) cs(2) by simp
  moreover have "quiet ?s'" using q by (simp add: quiet_def)
  ultimately have "fits ?s' (h(?d := ?h))"
    using fits q hand_size_quiet [OF q] ph H(2)
    by (auto simp: fits_def hand_size_quiet quiet_def played_def all_tricks_def HAND_def)
  then show ?thesis using ph by (simp add: Let_def apply_action_def turn_def take_out_def)
qed

definition auto_of :: "state \<Rightarrow> hands \<Rightarrow> action option" where
  "auto_of s h = auto_move s (turn s) (h (turn s))"

lemma auto_legal:
  assumes inv: "inv s" and nd: "\<not> is_done s" and fits: "fits s h"
  shows "\<exists>a s'. auto_of s h = Some a \<and> apply_action s a = Inr s' \<and> fits s' (take_out h a)"
proof (cases "phase s")
  case PBid
  then show ?thesis using pass_accepted [OF inv PBid fits]
    by (auto simp: auto_of_def auto_move_def take_out_def)
next
  case PSkat
  then show ?thesis using declare_accepted [OF inv _ fits, of "auto_declare s (declarer s) (h (declarer s))"] auto_declare_ok
    by (auto simp: auto_of_def auto_move_def turn_def take_out_def auto_declare_def)
next
  case PDeclare
  then show ?thesis using declare_accepted [OF inv _ fits, of "auto_declare s (declarer s) (h (declarer s))"] auto_declare_ok
    by (auto simp: auto_of_def auto_move_def turn_def take_out_def auto_declare_def)
next
  case PShow
  then show ?thesis using show_accepted [OF inv PShow fits]
    by (auto simp: auto_of_def auto_move_def turn_def take_out_def)
next
  case PPush
  let ?d = "declarer s" and ?l = "sort_key push_key (h (declarer s))"
  have q: "quiet s" using inv PPush inv_quiet by blast
  have d: "?d \<in> {0,1,2}" using inv PPush by (auto simp: inv_def phase_ok_def seat_ok_iff)
  have H: "length (h ?d) = 12" "distinct (h ?d)" using fits d hand_size_quiet [OF q] PPush by (auto simp: fits_def)
  then have len: "length ?l = Suc (Suc 10)" and dist: "distinct ?l" by simp_all
  from len obtain x y r where l: "?l = x # y # r" by (metis length_Suc_conv)
  have "set (x # y # r) = set (h ?d)" using l by (metis set_sort)
  moreover have "distinct (x # y # r)" using l dist by simp
  ultimately have "x \<noteq> y" "x \<in> set (h ?d)" "y \<in> set (h ?d)" by auto
  from push_accepted [OF inv PPush fits refl this] l PPush show ?thesis
    by (auto simp: auto_of_def auto_move_def turn_def Let_def)
next
  case PPlay
  obtain ct t where I: "seat_ok (next_seat s)" "length (tricks s) < HAND" "playedBy s (next_seat s) = length (tricks s)"
    using play_phase [OF inv PPlay] by metis
  let ?n = "next_seat s"
  have "length (h ?n) = HAND - length (tricks s)" using fits I PPlay by (auto simp: fits_def hand_size_def seat_ok_iff)
  then have "h ?n \<noteq> []" using I(2) by auto
  then have ne: "filter (\<lambda>c. mayPlay (game_of s) (h ?n) c (trick_cards s)) (h ?n) \<noteq> []"
    using mayPlay_exists [of "h ?n"] by (simp add: filter_neq_Nil_iff)
  define l where "l = (case trick_cards s of [] \<Rightarrow> None | x # _ \<Rightarrow> Some (suitOf (game_of s) (pcard x)))"
  define ys where "ys = sort_key (play_key (game_of s) l) (filter (\<lambda>c. mayPlay (game_of s) (h ?n) c (trick_cards s)) (h ?n))"
  have "ys \<noteq> []" using ne unfolding ys_def by (metis length_0_conv length_sort)
  then obtain c r where c: "ys = c # r" by (cases ys) auto
  then have "c \<in> set ys" by simp
  then have mp: "mayPlay (game_of s) (h ?n) c (trick_cards s)" unfolding ys_def by simp
  obtain s' where s': "apply_action s (play_act ?n c) = Inr s'" using play_accepted [OF inv PPlay fits mp] by blast
  have "auto_of s h = Some (play_act ?n c)"
    using PPlay c by (simp add: auto_of_def auto_move_def turn_def auto_play_def Let_def play_act_def
        flip: l_def ys_def)
  with s' play_fits [OF inv PPlay fits mayPlay_in [OF mp] s'] show ?thesis by blast
next
  case PDone
  with nd show ?thesis by (simp add: is_done_def)
qed

interpretation skat_auto: auto_engine "\<lambda>s. \<exists>d r. s = start d r" apply_action is_done inv left_over 165
    auto_of take_out fits
  by unfold_locales (rule auto_legal)

lemma declareOptions_shape:
  assumes "(g, hn, sn, sw, ov) \<in> set (declareOptions s)"
  shows "hn = (\<not> pickedUp s) \<and> (g = GNull \<longrightarrow> \<not> sn \<and> \<not> sw \<and> b_v (bid s) \<le> nullValue hn ov)
    \<and> (g \<noteq> GNull \<longrightarrow> (sn \<or> sw \<or> ov \<longrightarrow> hn) \<and> (sw \<longrightarrow> sn) \<and> (ov \<longrightarrow> sw))"
  using assms by (cases "pickedUp s") (simp add: declareOptions_def, elim disjE, simp_all split: if_splits)+

lemma declareOptions_ok:
  assumes "x \<in> set (declareOptions s)"
  shows "checkContract s (declare_act p x) = None"
proof -
  obtain g hn sn sw ov where x: "x = (g, hn, sn, sw, ov)" by (cases x)
  show ?thesis using declareOptions_shape [OF assms [unfolded x]]
    by (auto simp: x declare_act_def checkContract_def mk_act_def)
qed

text \<open>
  Every move that \<open>actions\<close> offers a seat from its hand is accepted by \<open>apply\<close>: bids,
  holding and passing, picking up and pushing, every contract of \<open>declareOptions\<close>, laying the
  hand open, each card it may play, Kontra and Re.
\<close>

theorem actions_accepted:
  assumes inv: "inv s" and fits: "fits s h" and a: "a \<in> set (actions s p (h p))"
  shows "\<exists>s'. apply_action s a = Inr s'"
proof (cases "phase s")
  case PBid
  with a show ?thesis
    by (cases "b_ask (bid s)")
      (use inv PBid in \<open>auto simp: actions_def apply_action_def applyBid_def Let_def inv_def phase_ok_def bid_ok_def
        split: if_splits\<close>)
next
  case PSkat
  then consider "a = mk_act TPickup p" "p = declarer s" | x where "x \<in> set (declareOptions s)" "a = declare_act p x" "p = declarer s"
    using a by (auto simp: actions_def Let_def split: if_splits)
  then show ?thesis
  proof cases
    case 1
    with PSkat show ?thesis by (simp add: apply_action_def turn_def)
  next
    case 2
    with PSkat declare_accepted [OF inv _ fits, of a] declareOptions_ok show ?thesis by auto
  qed
next
  case PDeclare
  then obtain x where "x \<in> set (declareOptions s)" "a = declare_act p x" "p = declarer s"
    using a by (auto simp: actions_def Let_def split: if_splits)
  with PDeclare declare_accepted [OF inv _ fits, of a] declareOptions_ok show ?thesis by auto
next
  case PPush
  with a show ?thesis by (auto simp: actions_def Let_def apply_action_def turn_def split: if_splits)
next
  case PShow
  with a show_accepted [OF inv PShow fits] show ?thesis by (auto simp: actions_def Let_def split: if_splits)
next
  case PPlay
  then consider c where "a = play_act p c" "p = next_seat s" "mayPlay (game_of s) (h p) c (trick_cards s)"
    | t where "a = mk_act t p" "t = TKontra \<or> t = TRe" "kontraOk s p t"
    using a by (auto simp: actions_def Let_def play_act_def split: if_splits)
  then show ?thesis
  proof cases
    case 1
    then show ?thesis using play_accepted [OF inv PPlay fits] by blast
  next
    case 2
    with PPlay show ?thesis by (auto simp: apply_action_def)
  qed
next
  case PDone
  with a show ?thesis by (simp add: actions_def Let_def)
qed

end
