(* ===== verification/Skat_Audit.thy ===== *)
theory Skat_Audit
  imports Skat_Play
begin

text \<open>
  Honest Skat hands: the three seats hold the cards dealt, make the moves \<open>actions\<close> offers,
  the declarer takes the skat in and pushes two of his twelve cards. The audit of
  \<open>skat.js\<close> has nothing to say against such a hand, at any point of it, and at the end the
  card points of the two sides are the 120 of the deck.
\<close>

section \<open>Honest hands\<close>

definition deal_ok :: "hands \<Rightarrow> card list \<Rightarrow> bool" where
  "deal_ok h0 sk \<longleftrightarrow> mset (h0 0 @ h0 1 @ h0 2 @ sk) = mset DECK \<and>
     length (h0 0) = HAND \<and> length (h0 1) = HAND \<and> length (h0 2) = HAND"

inductive honest :: "hands \<Rightarrow> card list \<Rightarrow> state \<Rightarrow> hands \<Rightarrow> card list \<Rightarrow> bool"
  for h0 :: hands and sk :: "card list" where
  deal: "honest h0 sk (start d r) h0 []"
| move: "honest h0 sk s h ps \<Longrightarrow> a \<in> set (actions s p (h p)) \<Longrightarrow> a_t a \<notin> {TPickup, TPush} \<Longrightarrow>
     apply_action s a = Inr s' \<Longrightarrow> honest h0 sk s' (take_out h a) ps"
| pickup: "honest h0 sk s h ps \<Longrightarrow> phase s = PSkat \<Longrightarrow>
     apply_action s (mk_act TPickup (declarer s)) = Inr s' \<Longrightarrow>
     honest h0 sk s' (h(declarer s := h (declarer s) @ sk)) ps"
| push: "honest h0 sk s h ps \<Longrightarrow> phase s = PPush \<Longrightarrow> x \<noteq> y \<Longrightarrow>
     x \<in> set (h (declarer s)) \<Longrightarrow> y \<in> set (h (declarer s)) \<Longrightarrow>
     a = (mk_act TPush (declarer s))\<lparr>a_cards := Some [Some x, Some y]\<rparr> \<Longrightarrow>
     apply_action s a = Inr s' \<Longrightarrow> honest h0 sk s' (take_out h a) [x, y]"

text \<open>The reveal of an honest hand.\<close>

definition reveal_of :: "hands \<Rightarrow> card list \<Rightarrow> card list \<Rightarrow> full" where
  "reveal_of h0 sk ps = \<lparr>f_hands = map h0 [0, 1, 2], f_skat = sk, f_pushed = ps\<rparr>"

section \<open>What the audit sees\<close>

lemma audit_trick_snoc:
  "audit_trick g st pre (xs @ [x]) =
     (case audit_trick g st pre xs of None \<Rightarrow> None | Some st' \<Rightarrow> audit_card g st' (pre @ xs) x)"
  by (induction xs arbitrary: st pre) (auto split: option.splits)

lemma audit_tricks_append:
  "audit_tricks g st (ts @ us) =
     (case audit_tricks g st ts of None \<Rightarrow> None | Some st' \<Rightarrow> audit_tricks g st' us)"
  by (induction ts arbitrary: st) (auto split: option.splits)

lemma audit_tricks_snoc_card:
  "audit_tricks g st (ts @ [t]) = Some st' \<Longrightarrow>
   audit_tricks g st (ts @ [t @ [x]]) = audit_card g st' t x"
  by (auto simp: audit_tricks_append audit_trick_snoc split: option.splits)

text \<open>The hands the tricks are played from: after the two cards are pushed.\<close>

definition playing :: "hands \<Rightarrow> card list \<Rightarrow> state \<Rightarrow> card list \<Rightarrow> hands" where
  "playing h0 sk s ps = (if pickedUp s
     then h0(declarer s := filter (\<lambda>c. c \<notin> set ps) (h0 (declarer s) @ sk)) else h0)"

definition push_ok :: "hands \<Rightarrow> card list \<Rightarrow> state \<Rightarrow> card list \<Rightarrow> bool" where
  "push_ok h0 sk s ps \<longleftrightarrow> (if pickedUp s
     then \<exists>x y. ps = [x, y] \<and> x \<noteq> y \<and> x \<in> set (h0 (declarer s) @ sk) \<and> y \<in> set (h0 (declarer s) @ sk)
     else ps = [])"

definition honest_inv :: "hands \<Rightarrow> card list \<Rightarrow> state \<Rightarrow> hands \<Rightarrow> card list \<Rightarrow> bool" where
  "honest_inv h0 sk s h ps \<longleftrightarrow> inv s \<and> fits s h \<and>
     (if phase s = PPush then ps = [] \<and> h = h0(declarer s := h0 (declarer s) @ sk)
      else push_ok h0 sk s ps \<and>
        (case contract s of None \<Rightarrow> h = playing h0 sk s ps
         | Some c \<Rightarrow> audit_tricks (c_game c) (map (playing h0 sk s ps) [0, 1, 2], []) (all_tricks s)
              = Some (map h [0, 1, 2], [])
            \<and> (case opened s of None \<Rightarrow> True
               | Some op \<Rightarrow> sort op = sort (playing h0 sk s ps (declarer s)))))"

lemma deal_distinct:
  assumes "deal_ok h0 sk"
  shows "distinct (h0 0 @ h0 1 @ h0 2 @ sk)" "length sk = 2"
proof -
  from assms have m: "mset (h0 0 @ h0 1 @ h0 2 @ sk) = mset DECK" by (simp add: deal_ok_def)
  then show "distinct (h0 0 @ h0 1 @ h0 2 @ sk)" by (metis distinct_DECK mset_eq_imp_distinct_iff)
  from m have "length (h0 0 @ h0 1 @ h0 2 @ sk) = 32" by (metis length_DECK mset_eq_length)
  with assms show "length sk = 2" by (simp add: deal_ok_def HAND_def)
qed

lemma audit_deck_ok: "deal_ok h0 sk \<Longrightarrow> audit_deck (reveal_of h0 sk ps)"
proof -
  assume d: "deal_ok h0 sk"
  have "length (h0 0 @ h0 1 @ h0 2 @ sk) = 32" using d deal_distinct [OF d] by (simp add: deal_ok_def HAND_def)
  moreover have "card (set (h0 0 @ h0 1 @ h0 2 @ sk)) = 32"
    using deal_distinct(1) [OF d] calculation distinct_card by metis
  ultimately show ?thesis by (simp add: audit_deck_def reveal_of_def Let_def list_all_iff)
qed

lemma fits_deal: "deal_ok h0 sk \<Longrightarrow> fits (start d r) h0"
  using deal_distinct(1) [of h0 sk]
  by (auto simp: fits_def deal_ok_def start_def Let_def hand_size_def playedBy_def all_tricks_def played_def)

section \<open>Every honest move keeps it so\<close>

lemma start_simps [simp]:
  "phase (start d r) = PBid" "contract (start d r) = None" "pickedUp (start d r) = False"
  by (simp_all add: start_def Let_def)

lemma honest_start: "deal_ok h0 sk \<Longrightarrow> honest_inv h0 sk (start d r) h0 []"
  by (simp add: honest_inv_def inv_start fits_deal push_ok_def playing_def)

lemma honest_pickup:
  assumes d: "deal_ok h0 sk" and J: "honest_inv h0 sk s h ps" and ph: "phase s = PSkat"
    and ok: "apply_action s (mk_act TPickup (declarer s)) = Inr s'"
  shows "honest_inv h0 sk s' (h(declarer s := h (declarer s) @ sk)) ps"
proof -
  let ?d = "declarer s"
  from ok ph have s': "s' = s\<lparr>pickedUp := True, phase := PPush\<rparr>" by (simp add: apply_action_def turn_def)
  have I: "inv s" "fits s h" "quiet s" "\<not> pickedUp s" "?d \<in> {0,1,2}"
    using J ph by (auto simp: honest_inv_def inv_def phase_ok_def seat_ok_iff)
  have h: "h = h0" "ps = []" using J ph I(3,4) by (auto simp: honest_inv_def push_ok_def playing_def quiet_def)
  have q': "quiet s'" using I(3) by (simp add: s' quiet_def)
  have "fits s' (h0(?d := h0 ?d @ sk))"
    using I(2,5) deal_distinct [OF d] hand_size_quiet [OF I(3)] hand_size_quiet [OF q'] ph I(3) q'
    unfolding h fits_def
    by (auto simp: s' HAND_def quiet_def played_def all_tricks_def)
  moreover have "inv s'" using inv_step I(1) ok by blast
  ultimately show ?thesis using h by (simp add: honest_inv_def s')
qed

lemma honest_push:
  assumes J: "honest_inv h0 sk s h ps" and ph: "phase s = PPush"
    and xy: "x \<noteq> y" "x \<in> set (h (declarer s))" "y \<in> set (h (declarer s))"
    and a: "a = (mk_act TPush (declarer s))\<lparr>a_cards := Some [Some x, Some y]\<rparr>"
    and ok: "apply_action s a = Inr s'"
  shows "honest_inv h0 sk s' (take_out h a) [x, y]"
proof -
  let ?d = "declarer s"
  have I: "inv s" "fits s h" "quiet s" "pickedUp s" and h: "h = h0(?d := h0 ?d @ sk)"
    using J ph by (auto simp: honest_inv_def inv_def phase_ok_def)
  from ok ph a have s': "s' = s\<lparr>pushed := True, phase := PDeclare\<rparr>" by (simp add: apply_action_def turn_def)
  have "fits s' (take_out h a)"
    using push_accepted [OF I(1) ph I(2) refl xy] ok a by (auto simp: Let_def)
  moreover have "inv s'" using inv_step I(1) ok by blast
  moreover have "take_out h a = playing h0 sk s' [x, y]"
    using I(4) by (simp add: take_out_def a playing_def s' h)
  moreover have "push_ok h0 sk s' [x, y]" using xy h I(4) by (simp add: push_ok_def s')
  ultimately show ?thesis using I(3) by (simp add: honest_inv_def s' quiet_def)
qed

lemma honest_bidding:
  assumes J: "honest_inv h0 sk s h ps" and ph: "phase s = PBid" and fits: "fits s' h"
    and ok: "applyBid s p a = Inr s'"
  shows "honest_inv h0 sk s' h ps"
proof -
  have I: "inv s" "quiet s" "\<not> pickedUp s" "h = h0" "ps = []"
    using J ph by (auto simp: honest_inv_def inv_def phase_ok_def quiet_def push_ok_def playing_def)
  have "inv s'" using applyBid_inv I(1) ph ok by blast
  moreover have "\<not> pickedUp s' \<and> phase s' \<noteq> PPush \<and> opened s' = None \<and>
      (contract s' = None \<or> all_tricks s' = [[]])"
    using ok
    by (cases rule: applyBid_cases) (use I(2,3) ph in \<open>auto simp: quiet_def all_tricks_def toDeclarer_def lead_off_def\<close>)
  ultimately show ?thesis using fits I(4,5)
    by (auto simp: honest_inv_def push_ok_def playing_def split: option.splits)
qed

lemma honest_declare:
  assumes J: "honest_inv h0 sk s h ps" and ph: "phase s = PSkat \<or> phase s = PDeclare" and fits: "fits s' h"
    and ok: "apply_declare s a = Inr s'"
  shows "honest_inv h0 sk s' h ps"
proof -
  have I: "inv s" "quiet s" using J ph by (auto simp: honest_inv_def inv_def phase_ok_def)
  have h: "h = playing h0 sk s ps" "push_ok h0 sk s ps"
    using J ph I(2) by (auto simp: honest_inv_def quiet_def)
  have "inv s'" using apply_declare_inv I(1) ph ok by blast
  moreover have f: "pickedUp s' = pickedUp s \<and> declarer s' = declarer s \<and> phase s' \<noteq> PPush \<and> opened s' = None
      \<and> all_tricks s' = [[]]"
    using ok I(2) by (auto simp: apply_declare_def Let_def quiet_def all_tricks_def lead_off_def split: option.splits if_splits)
  moreover have "playing h0 sk s' ps = playing h0 sk s ps" "push_ok h0 sk s' ps = push_ok h0 sk s ps"
    using f by (simp_all add: playing_def push_ok_def)
  ultimately show ?thesis using fits h by (simp add: honest_inv_def split: option.splits)
qed

lemma honest_show:
  assumes J: "honest_inv h0 sk s h ps" and ph: "phase s = PShow" and fits: "fits s' h"
    and a: "a = (mk_act TShow (declarer s))\<lparr>a_cards := Some (map Some (h (declarer s)))\<rparr>"
    and ok: "apply_action s a = Inr s'"
  shows "honest_inv h0 sk s' h ps"
proof -
  let ?d = "declarer s"
  obtain c where I: "inv s" "contract s = Some c" "contract_ok s c" "c_ouvert c" "all_tricks s = [[]]"
    using J ph by (auto simp: honest_inv_def inv_def phase_ok_def all_tricks_def split: option.splits)
  have d: "?d \<in> {0,1,2}" using I(3,4) by (auto simp: contract_ok_def seat_ok_iff split: if_splits)
  have h: "map (playing h0 sk s ps) [0, 1, 2] = map h [0, 1, 2]" "push_ok h0 sk s ps"
    using J ph I by (auto simp: honest_inv_def)
  have s': "s' = s\<lparr>opened := Some (h ?d), phase := PPlay\<rparr>"
    using ok ph a by (auto simp: apply_action_def turn_def apply_show_def comp_def split: if_splits)
  have "playing h0 sk s' ps = playing h0 sk s ps" "push_ok h0 sk s' ps = push_ok h0 sk s ps" "all_tricks s' = [[]]"
    using I(5) by (simp_all add: s' playing_def push_ok_def all_tricks_def)
  moreover have "inv s'" using inv_step I(1) ok by blast
  moreover have "h ?d = playing h0 sk s ps ?d" using h(1) d by auto
  ultimately show ?thesis using fits h I(2) by (simp add: honest_inv_def) (simp add: s')
qed

lemma honest_kontra:
  assumes J: "honest_inv h0 sk s h ps" and k: "kontraOk s p t"
  shows "honest_inv h0 sk (s\<lparr>kontra := kontra s + 1\<rparr>) h ps"
proof -
  define s' where "s' = s\<lparr>kontra := kontra s + 1\<rparr>"
  have same: "phase s' = phase s" "contract s' = contract s" "opened s' = opened s" "declarer s' = declarer s"
    "playing h0 sk s' ps = playing h0 sk s ps" "push_ok h0 sk s' ps = push_ok h0 sk s ps"
    "all_tricks s' = all_tricks s" "played s' = played s" "hand_size s' = hand_size s"
    by (simp_all add: s'_def push_ok_def playing_def all_tricks_def hand_size_def playedBy_def fun_eq_iff)
  have "inv s'" unfolding s'_def using kontra_inv J k by (auto simp: honest_inv_def)
  then show ?thesis
    using J unfolding honest_inv_def fits_def s'_def [symmetric] same by simp
qed

lemma map_upd3: "p \<in> {0, 1, 2::int} \<Longrightarrow> map (h(p := v)) [0, 1, 2] = (map h [0, 1, 2])[nat p := v]"
  by auto

lemma nth_map3: "p \<in> {0, 1, 2::int} \<Longrightarrow> map h [0, 1, 2] ! nat p = h p \<and> nat p < 3"
  by auto

lemma all_tricks_play:
  assumes "play_card s p a = Inr s'" "a_card a = Some c" "trick s = Some t"
  shows "all_tricks s = map cards (tricks s) @ [cards t]"
    and "all_tricks s' = map cards (tricks s) @ [cards t @ [Play p c]]
       \<or> all_tricks s' = map cards (tricks s) @ [cards t @ [Play p c]] @ [[]]"
proof -
  show "all_tricks s = map cards (tricks s) @ [cards t]" using assms(3) by (simp add: all_tricks_def)
  from assms(1) show "all_tricks s' = map cards (tricks s) @ [cards t @ [Play p c]]
       \<or> all_tricks s' = map cards (tricks s) @ [cards t @ [Play p c]] @ [[]]"
  proof (cases rule: play_card_cases)
    case (1 c' ct tr)
    then show ?thesis using assms(2,3) by (auto simp: all_tricks_def Let_def split: if_splits)
  qed
qed

lemma honest_play:
  assumes J: "honest_inv h0 sk s h ps" and ph: "phase s = PPlay"
    and c: "mayPlay (game_of s) (h (next_seat s)) c (trick_cards s)"
    and ok: "apply_action s (play_act (next_seat s) c) = Inr s'"
  shows "honest_inv h0 sk s' (take_out h (play_act (next_seat s) c)) ps"
proof -
  let ?n = "next_seat s" and ?h = "take_out h (play_act (next_seat s) c)" and ?P = "playing h0 sk s ps"
  have inv: "inv s" and fits: "fits s h" using J by (auto simp: honest_inv_def)
  obtain ct t where I: "contract s = Some ct" "trick s = Some t" "seat_ok ?n"
    using play_phase [OF inv ph] by metis
  have n: "?n \<in> {0,1,2}" using I(3) by (simp add: seat_ok_iff)
  have pc: "play_card s ?n (play_act ?n c) = Inr s'" using ok ph by (simp add: apply_play)
  note eff = play_card_effect [OF pc _ ph, of c, simplified]
  have A: "audit_tricks (c_game ct) (map ?P [0, 1, 2], []) (map cards (tricks s) @ [cards t]) = Some (map h [0, 1, 2], [])"
    using J ph I all_tricks_play(1) [OF pc _ I(2)] by (auto simp: honest_inv_def)
  have mp: "mayPlay (c_game ct) (h ?n) c (cards t)" using c I by (simp add: game_of_def trick_cards_def)
  have hh: "?h = h(?n := remove1 c (h ?n))" by (simp add: take_out_def)
  have "audit_tricks (c_game ct) (map ?P [0, 1, 2], []) (map cards (tricks s) @ [cards t @ [Play ?n c]])
      = audit_card (c_game ct) (map h [0, 1, 2], []) (cards t) (Play ?n c)"
    by (rule audit_tricks_snoc_card [OF A])
  also have "\<dots> = Some (map ?h [0, 1, 2], [])"
    using mp mayPlay_in [OF mp] n nth_map3 [OF n, of h] map_upd3 [OF n, of h]
    by (auto simp: audit_card_def hh)
  finally have "audit_tricks (c_game ct) (map ?P [0, 1, 2], []) (map cards (tricks s) @ [cards t @ [Play ?n c]])
      = Some (map ?h [0, 1, 2], [])" .
  then have "audit_tricks (c_game ct) (map ?P [0, 1, 2], []) (all_tricks s') = Some (map ?h [0, 1, 2], [])"
    using all_tricks_play(2) [OF pc _ I(2), of c]
    by (auto simp: audit_tricks_append split: option.splits)
  moreover have "playing h0 sk s' ps = ?P" "push_ok h0 sk s' ps = push_ok h0 sk s ps"
    using eff by (simp_all add: playing_def push_ok_def)
  moreover have "inv s'" "fits s' ?h"
    using inv_step inv ok play_fits [OF inv ph fits mayPlay_in [OF c] ok] by blast+
  moreover have "phase s' \<noteq> PPush" using eff(6) by auto
  ultimately show ?thesis
    using J ph I eff(2-5) by (auto simp: honest_inv_def split: option.splits)
qed

lemma honest_move:
  assumes J: "honest_inv h0 sk s h ps" and a: "a \<in> set (actions s p (h p))" "a_t a \<notin> {TPickup, TPush}"
    and ok: "apply_action s a = Inr s'"
  shows "honest_inv h0 sk s' (take_out h a) ps"
proof -
  have inv: "inv s" and fits: "fits s h" using J by (auto simp: honest_inv_def)
  show ?thesis
  proof (cases "phase s")
    case PBid
    then have "applyBid s p a = Inr s'" "take_out h a = h"
      using a ok by (auto simp: apply_action_def actions_def take_out_def Let_def split: if_splits)
    then show ?thesis using honest_bidding J PBid applyBid_fits inv fits by metis
  next
    case PSkat
    then obtain x where x: "a = declare_act p x" "p = declarer s"
      using a by (auto simp: actions_def Let_def split: if_splits)
    with ok PSkat have "apply_declare s a = Inr s'" "take_out h a = h"
      by (auto simp: apply_action_def turn_def take_out_def split: if_splits)
    then show ?thesis using honest_declare J PSkat apply_declare_fits inv fits by metis
  next
    case PDeclare
    then obtain x where x: "a = declare_act p x" "p = declarer s"
      using a by (auto simp: actions_def Let_def split: if_splits)
    with ok PDeclare have "apply_declare s a = Inr s'" "take_out h a = h"
      by (auto simp: apply_action_def turn_def take_out_def split: if_splits)
    then show ?thesis using honest_declare J PDeclare apply_declare_fits inv fits by metis
  next
    case PPush
    with a show ?thesis by (auto simp: actions_def Let_def split: if_splits)
  next
    case PShow
    then have x: "a = (mk_act TShow (declarer s))\<lparr>a_cards := Some (map Some (h (declarer s)))\<rparr>"
      using a by (auto simp: actions_def Let_def split: if_splits)
    moreover have "fits s' h" using show_accepted [OF inv PShow fits] ok x by auto
    moreover have "take_out h a = h" by (simp add: x take_out_def)
    ultimately show ?thesis using honest_show J PShow ok by metis
  next
    case PPlay
    then consider c where "a = play_act p c" "p = next_seat s" "mayPlay (game_of s) (h p) c (trick_cards s)"
      | t where "a = mk_act t p" "t = TKontra \<or> t = TRe" "kontraOk s p t"
      using a by (auto simp: actions_def Let_def play_act_def split: if_splits)
    then show ?thesis
    proof cases
      case 1
      then show ?thesis using honest_play J PPlay ok by blast
    next
      case 2
      then have "s' = s\<lparr>kontra := kontra s + 1\<rparr>" "take_out h a = h"
        using ok PPlay by (auto simp: apply_action_def take_out_def)
      then show ?thesis using honest_kontra [OF J 2(3)] by simp
    qed
  next
    case PDone
    with a show ?thesis by (simp add: actions_def Let_def)
  qed
qed

lemma contract_phase:
  assumes "inv s" "contract s = Some c"
  shows "contract_ok s c" "opened s \<noteq> None \<longrightarrow> c_ouvert c" "\<not> passedOut s" "phase s \<in> {PShow, PPlay, PDone}"
proof -
  have P: "phase_ok s" using assms(1) by (simp add: inv_def)
  have "contract_ok s c \<and> (opened s \<noteq> None \<longrightarrow> c_ouvert c) \<and> \<not> passedOut s \<and> phase s \<in> {PShow, PPlay, PDone}"
  proof (cases "phase s")
    case PPlay
    then show ?thesis using P assms(2)
      by (cases "trick s"; cases "opened s") (simp_all add: phase_ok_def open_ok_def)
  next
    case PDone
    then show ?thesis using P assms(2)
      by (cases "opened s"; cases "passedOut s") (simp_all add: phase_ok_def open_ok_def)
  qed (use P assms(2) in \<open>simp_all add: phase_ok_def quiet_def\<close>)
  then show "contract_ok s c" "opened s \<noteq> None \<longrightarrow> c_ouvert c" "\<not> passedOut s" "phase s \<in> {PShow, PPlay, PDone}"
    by blast+
qed

lemma honest_invariant:
  assumes "deal_ok h0 sk"
  shows "honest h0 sk s h ps \<Longrightarrow> honest_inv h0 sk s h ps"
proof (induction rule: honest.induct)
  case (deal d r)
  show ?case by (rule honest_start [OF assms])
next
  case (move s h ps a p s')
  then show ?case using honest_move by blast
next
  case (pickup s h ps s')
  then show ?case using honest_pickup [OF assms] by blast
next
  case (push s h ps x y a s')
  then show ?case using honest_push by blast
qed

text \<open>
  C21: a hand in which every seat holds the cards dealt and only makes moves \<open>actions\<close> offers
  it from the hand it holds passes the audit: at every point of the hand \<open>audit\<close> returns,
  and its list of complaints is empty.
\<close>

theorem honest_passes_audit:
  assumes deal: "deal_ok h0 sk" and hon: "honest h0 sk s h ps"
  shows "audit s (reveal_of h0 sk ps) = Some []"
proof (cases "contract s")
  case None
  then show ?thesis by (simp add: audit_def)
next
  case (Some ct)
  have J: "honest_inv h0 sk s h ps" by (rule honest_invariant [OF deal hon])
  then have I: "inv s" by (simp add: honest_inv_def)
  note ph = contract_phase(4) [OF I Some]
  let ?P = "playing h0 sk s ps"
  from ph have np: "phase s \<noteq> PPush" by auto
  have P: "push_ok h0 sk s ps" and
    A: "audit_tricks (c_game ct) (map ?P [0, 1, 2], []) (all_tricks s) = Some (map h [0, 1, 2], [])" and
    O: "case opened s of None \<Rightarrow> True | Some op \<Rightarrow> sort op = sort (?P (declarer s))"
    using J unfolding honest_inv_def Some option.case if_not_P [OF np] by blast+
  have d: "declarer s \<in> {0,1,2}" if "pickedUp s \<or> opened s \<noteq> None"
    using contract_phase [OF I Some] that by (auto simp: contract_ok_def seat_ok_iff split: if_splits)
  have pu: "audit_pushed s (reveal_of h0 sk ps) (f_hands (reveal_of h0 sk ps)) = Some (map ?P [0, 1, 2], [])"
    if "\<not> passedOut s"
  proof (cases "pickedUp s")
    case True
    with P obtain x y where xy: "ps = [x, y]" "x \<noteq> y" "x \<in> set (h0 (declarer s) @ sk)" "y \<in> set (h0 (declarer s) @ sk)"
      by (auto simp: push_ok_def)
    have dd: "declarer s \<in> {0, 1, 2}" using d [OF disjI1] True by simp
    have "card (set ps) = 2" "length ps = 2" "list_all (\<lambda>c. c \<in> set (h0 (declarer s) @ sk)) ps"
      using xy by simp_all
    then show ?thesis
      using True dd nth_map3 [OF dd, of h0] map_upd3 [OF dd, of h0]
      by (auto simp: audit_pushed_def reveal_of_def playing_def Let_def)
  next
    case False
    then show ?thesis using P by (simp add: audit_pushed_def reveal_of_def push_ok_def playing_def)
  qed
  have "audit_tricks (c_game ct) (map ?P [0, 1, 2], [])
      (map cards (tricks s) @ (case trick s of None \<Rightarrow> [] | Some t \<Rightarrow> if cards t = [] then [] else [cards t]))
      = Some (map h [0, 1, 2], [])"
    using A by (auto simp: all_tricks_def audit_tricks_append split: option.splits)
  note tr = this
  have de: "map ?P [0, 1, 2] ! nat (declarer s) = ?P (declarer s) \<and> 0 \<le> declarer s \<and> nat (declarer s) < 3"
    if "\<not> passedOut s" "opened s \<noteq> None"
    using d [OF disjI2] that(2) nth_map3 [of "declarer s" ?P] by auto
  show ?thesis
  proof (cases "passedOut s")
    case True
    then show ?thesis by (simp add: audit_def)
  next
    case False
    note facts = Some False audit_deck_ok [OF deal] pu [OF False]
    show ?thesis
    proof (cases "opened s")
      case None
      then show ?thesis unfolding audit_def by (simp only: facts Let_def option.case prod.case if_False if_True append.simps tr)
    next
      case (Some op)
      then have "length (map ?P [0, 1, 2]) = 3" "0 \<le> declarer s \<and> nat (declarer s) < 3"
        "map ?P [0, 1, 2] ! nat (declarer s) = ?P (declarer s)" "sort (?P (declarer s)) = sort op"
        using de [OF False] O by auto
      then show ?thesis unfolding audit_def
        by (simp only: facts Some Let_def option.case prod.case if_False if_True append.simps tr simp_thms)
    qed
  qed
qed

end
