(* ===== verification/Skat_Score.thy ===== *)
theory Skat_Score
  imports Skat_Audit
begin

text \<open>
  What \<open>result\<close> of \<open>skat.js\<close> makes of a hand: the value is one a bid can name, it covers the
  bid, the soloist gets it or loses twice of it, and in an honest hand the card points of the
  two sides are those of the deck.
\<close>

section \<open>The value of a game\<close>

lemma tops_run_le: "tops_run w cs xs \<le> length xs"
  by (induction xs) auto

lemma tops_bounds:
  assumes "g \<noteq> GNull"
  shows "1 \<le> snd (tops g cs)" "snd (tops g cs) \<le> (if g = Grand then 4 else 11)"
proof -
  obtain x xs where x: "trumpOrder g = x # xs" "length (x # xs) \<le> (if g = Grand then 4 else 11)"
    using assms by (cases g) (auto simp: trumpOrder_def JACKS_def PLAIN_def)
  show "1 \<le> snd (tops g cs)" using x by (simp add: tops_def Let_def)
  show "snd (tops g cs) \<le> (if g = Grand then 4 else 11)"
    using x(2) tops_run_le [of "x \<in> set cs" cs "x # xs"] by (simp add: tops_def Let_def x(1))
qed

lemma set_BIDS: "set BIDS = (\<lambda>m. BASE (GSuit SuitD) * m) ` {2..18} \<union> ((\<lambda>m. BASE (GSuit SuitH) * m) ` {2..18}
    \<union> ((\<lambda>m. BASE (GSuit SuitS) * m) ` {2..18} \<union> ((\<lambda>m. BASE (GSuit SuitC) * m) ` {2..18}
    \<union> ((\<lambda>m. BASE Grand * m) ` {2..11} \<union> {23, 35, 46, 59}))))"
  by (simp only: BIDS_def set_sort set_remdups set_append set_concat list.map list.set set_map set_upto
      UN_insert UN_empty Un_empty_right Un_assoc)

lemma BIDS_suit:
  assumes "2 \<le> m" "m \<le> 18"
  shows "BASE (GSuit s) * m \<in> set BIDS"
proof -
  have "BASE (GSuit s) * m \<in> (\<lambda>m. BASE (GSuit s) * m) ` {2..18}" using assms by (intro imageI) simp
  then show ?thesis unfolding set_BIDS by (cases s) (simp_all only: Un_iff simp_thms)
qed

lemma BIDS_grand:
  assumes "2 \<le> m" "m \<le> 11"
  shows "BASE Grand * m \<in> set BIDS"
proof -
  have "BASE Grand * m \<in> (\<lambda>m. BASE Grand * m) ` {2..11}" using assms by (intro imageI) simp
  then show ?thesis unfolding set_BIDS by (simp only: Un_iff simp_thms)
qed

lemma BIDS_null: "nullValue h ov \<in> set BIDS"
  unfolding set_BIDS by (simp add: nullValue_def)

lemma BASE_pos: "g \<noteq> GNull \<Longrightarrow> 0 < BASE g"
  by (cases g rule: BASE.cases) auto

lemma game_score_parts:
  "\<exists>p1 p2 p3 p4 p5 p6. fst (game_score s full c own) = BASE (c_game c) *
     (int (snd (tops (c_game c) (own @ f_skat full))) + 1 + of_bool p1 + of_bool p2 + of_bool p3 + of_bool p4
      + of_bool p5 + of_bool p6)"
  "fst (snd (snd (game_score s full c own))) = BASE (c_game c)"
  unfolding game_score_def Let_def case_prod_beta fst_conv snd_conv by (intro exI, rule refl) (rule refl)

lemma game_score_value:
  assumes "c_game c \<noteq> GNull" "game_score s full c own = (v, w, b, l)"
  obtains m where "v = b * m" "b = BASE (c_game c)" "2 \<le> m" "m \<le> (if c_game c = Grand then 11 else 18)"
proof -
  have bo: "of_bool p \<le> (1::int)" "0 \<le> (of_bool p :: int)" for p by auto
  let ?k = "int (snd (tops (c_game c) (own @ f_skat full)))"
  have "1 \<le> ?k" "?k \<le> (if c_game c = Grand then 4 else 11)"
    using tops_bounds [OF assms(1), of "own @ f_skat full"] by (auto split: if_splits)
  moreover obtain p1 p2 p3 p4 p5 p6 where
    "v = b * (?k + 1 + of_bool p1 + of_bool p2 + of_bool p3 + of_bool p4 + of_bool p5 + of_bool p6)"
    "b = BASE (c_game c)" using game_score_parts [of s full c own] unfolding assms(2) fst_conv snd_conv by blast
  moreover define m where "m = ?k + 1 + of_bool p1 + of_bool p2 + of_bool p3 + of_bool p4 + of_bool p5 + of_bool p6"
  have "?k + 1 \<le> m" "m \<le> ?k + 7"
    using bo [of p1] bo [of p2] bo [of p3] bo [of p4] bo [of p5] bo [of p6] unfolding m_def by linarith+
  ultimately show ?thesis by (intro that [of m]) (auto simp: m_def [symmetric] split: if_splits)
qed

section \<open>The result\<close>

text \<open>What \<open>result\<close> computes, with the value before overbidding and doubling.\<close>

lemma result_played:
  assumes "result s full = Some (Played r)"
  obtains c v w b l where "contract s = Some c" "\<not> c_ramsch c"
    "(if c_game c = GNull then null_score s c else game_score s full c (f_hands full ! nat (declarer s))) = (v, w, b, l)"
    "r_overbid r = (v < b_v (bid s))"
    "r_won r = (w \<and> \<not> r_overbid r)"
    "r_value r = (if r_overbid r then (b_v (bid s) + b - 1) div b * b else v) * 2 ^ kontra s"
    "r_points r = map (\<lambda>i. if int i = declarer s then (if r_won r then r_value r else - 2 * r_value r) else 0) [0..<3]"
    "r_eyes r = (declarer_eyes s full, 120 - declarer_eyes s full)" "r_game r = c_game c"
proof -
  obtain c where c: "contract s = Some c" "\<not> c_ramsch c" "\<not> passedOut s"
    using assms by (auto simp: result_def split: if_splits option.splits)
  obtain v w b l where v: "(if c_game c = GNull then null_score s c
      else game_score s full c (f_hands full ! nat (declarer s))) = (v, w, b, l)"
    by (metis prod.exhaust)
  have dbl: "(if kontra s = 0 then 1 else 2 ^ kontra s) = (2::int) ^ kontra s" by simp
  have "r_overbid r = (v < b_v (bid s)) \<and> r_won r = (w \<and> \<not> r_overbid r)
    \<and> r_value r = (if r_overbid r then (b_v (bid s) + b - 1) div b * b else v) * 2 ^ kontra s
    \<and> r_points r = map (\<lambda>i. if int i = declarer s then (if r_won r then r_value r else - 2 * r_value r) else 0) [0..<3]
    \<and> r_eyes r = (declarer_eyes s full, 120 - declarer_eyes s full) \<and> r_game r = c_game c"
  proof (cases "c_game c \<noteq> GNull \<and> \<not> (0 \<le> declarer s \<and> nat (declarer s) < length (f_hands full))")
    case True
    then show ?thesis using assms c by (simp add: result_def)
  next
    case False
    show ?thesis using assms
      unfolding result_def if_not_P [OF c(3)] c(1) option.case if_not_P [OF c(2)] Let_def if_not_P [OF False]
        v prod.case dbl option.inject outcome.inject
      by (elim ssubst [OF sym]) (simp only: game_result.select_convs simp_thms)
  qed
  then show ?thesis using c v by (intro that [of c v w b l]) simp_all
qed

lemma kontra_le:
  assumes "inv s" "contract s = Some c"
  shows "kontra s \<le> 2"
proof -
  have P: "phase_ok s" using assms by (simp add: inv_def)
  show ?thesis
    by (cases "phase s"; cases "trick s")
      (use P assms(2) in \<open>simp_all add: phase_ok_def quiet_def split: if_splits\<close>)
qed

lemma ceil_covers: "0 < b \<Longrightarrow> (x::int) \<le> (x + b - 1) div b * b"
proof -
  assume b: "0 < b"
  have "x + b - 1 = (x + b - 1) div b * b + (x + b - 1) mod b" by simp
  moreover have "(x + b - 1) mod b < b" using b by simp
  ultimately show ?thesis by linarith
qed

abbreviation skat_reachable :: "state \<Rightarrow> bool" where
  "skat_reachable s \<equiv> reachable (\<lambda>s. \<exists>d r. s = start d r) apply_action s"

text \<open>
  A game that is not overbid and not doubled is worth one of
  the values of \<open>BIDS\<close>: the list of valid bids names every value a game can reach.
\<close>

theorem value_is_a_bid:
  assumes res: "result s full = Some (Played r)" and plain: "\<not> r_overbid r" "kontra s = 0"
  shows "r_value r \<in> set BIDS"
proof -
  from res obtain c v w b l where c: "contract s = Some c"
    and v: "(if c_game c = GNull then null_score s c else game_score s full c (f_hands full ! nat (declarer s))) = (v, w, b, l)"
    and r: "r_value r = v"
    using plain by (elim result_played) simp
  show ?thesis
  proof (cases "c_game c")
    case GNull
    with v r have "r_value r = nullValue (c_hand c) (c_ouvert c)" by (simp add: null_score_def Let_def)
    then show ?thesis using BIDS_null by simp
  next
    case Grand
    with v have g: "game_score s full c (f_hands full ! nat (declarer s)) = (v, w, b, l)" by simp
    obtain m where "v = b * m" "b = BASE Grand" "2 \<le> m" "m \<le> 11"
      by (rule game_score_value [OF _ g]) (simp_all add: Grand)
    then show ?thesis using BIDS_grand r by (simp only:)
  next
    case (GSuit x)
    with v have g: "game_score s full c (f_hands full ! nat (declarer s)) = (v, w, b, l)" by simp
    have "c_game c \<noteq> GNull" "\<not> c_game c = Grand" using GSuit by simp_all
    from game_score_value [OF this(1) g] this(2) obtain m where
      "v = b * m" "b = BASE (GSuit x)" "2 \<le> m" "m \<le> 18" unfolding GSuit by (metis (full_types))
    then show ?thesis using BIDS_suit r by (simp only:)
  qed
qed

text \<open>
  The score of a played hand. The value covers the bid, doubled once for Kontra and once for
  Re; the soloist is credited with it when the game is won and debited with twice of it when it is
  lost, the other seats get nothing; an overbid game is lost, and a null is never overbid.
\<close>

theorem score_of_soloist:
  assumes reach: "skat_reachable s" and res: "result s full = Some (Played r)"
  shows "b_v (bid s) * 2 ^ kontra s \<le> r_value r \<and> 18 \<le> b_v (bid s) \<and> kontra s \<le> 2
    \<and> r_points r ! nat (declarer s) = (if r_won r then r_value r else - 2 * r_value r)
    \<and> (\<forall>i < 3. int i \<noteq> declarer s \<longrightarrow> r_points r ! i = 0)
    \<and> (r_overbid r \<longrightarrow> \<not> r_won r \<and> r_game r \<noteq> GNull)"
proof -
  have I: "inv s" using reach by (rule skat.reachable_inv)
  from res obtain c v w b l where c: "contract s = Some c" "\<not> c_ramsch c"
    and v: "(if c_game c = GNull then null_score s c else game_score s full c (f_hands full ! nat (declarer s))) = (v, w, b, l)"
    and r: "r_overbid r = (v < b_v (bid s))" "r_won r = (w \<and> \<not> r_overbid r)"
      "r_value r = (if r_overbid r then (b_v (bid s) + b - 1) div b * b else v) * 2 ^ kontra s"
      "r_points r = map (\<lambda>i. if int i = declarer s then (if r_won r then r_value r else - 2 * r_value r) else 0) [0..<3]"
      "r_game r = c_game c"
    by (rule result_played)
  have ok: "contract_ok s c" by (rule contract_phase [OF I c(1)])
  then have d: "seat_ok (declarer s)" and bids: "b_v (bid s) \<in> set BIDS"
    and null: "c_game c = GNull \<longrightarrow> b_v (bid s) \<le> nullValue (c_hand c) (c_ouvert c)"
    using c(2) by (auto simp: contract_ok_def)
  have k: "kontra s \<le> 2" by (rule kontra_le [OF I c(1)])
  have nv: "\<not> v < b_v (bid s)" if "c_game c = GNull" using that v null by (auto simp: null_score_def Let_def)
  have b: "0 < b" if "c_game c \<noteq> GNull"
  proof -
    have "game_score s full c (f_hands full ! nat (declarer s)) = (v, w, b, l)" using v that by simp
    from game_score_value [OF that this] show ?thesis using BASE_pos [OF that] by blast
  qed
  have cover: "b_v (bid s) \<le> (if r_overbid r then (b_v (bid s) + b - 1) div b * b else v)"
    using r(1) nv ceil_covers [OF b, of "b_v (bid s)"] by (cases "c_game c = GNull") auto
  show ?thesis
  proof (intro conjI)
    show "b_v (bid s) * 2 ^ kontra s \<le> r_value r" unfolding r(3) using cover by (simp add: mult_right_mono)
    show "18 \<le> b_v (bid s)" by (rule BIDS_ge_18 [OF bids])
    show "kontra s \<le> 2" by (rule k)
    show "r_points r ! nat (declarer s) = (if r_won r then r_value r else - 2 * r_value r)"
      using d by (auto simp: r(4) seat_ok_iff)
    show "\<forall>i < 3. int i \<noteq> declarer s \<longrightarrow> r_points r ! i = 0" by (simp add: r(4))
    show "r_overbid r \<longrightarrow> \<not> r_won r \<and> r_game r \<noteq> GNull" using r(1,2,5) nv by auto
  qed
qed

section \<open>The card points of the two sides\<close>

lemma mset_concat_update:
  assumes "i < length hs" "c \<in> set (hs ! i)"
  shows "mset (concat hs) = add_mset c (mset (concat (hs[i := remove1 c (hs ! i)])))"
  using assms
proof (induction hs arbitrary: i)
  case (Cons h hs)
  then show ?case by (cases i) (auto simp: insert_DiffM)
qed simp

lemma audit_card_mset:
  assumes "audit_card g (hs, out) pre x = Some (hs', [])"
  shows "out = [] \<and> mset (concat hs) = add_mset (pcard x) (mset (concat hs'))"
  using assms mset_concat_update [of "nat (pseat x)" hs "pcard x"]
  by (auto simp: audit_card_def Let_def split: if_splits)

lemma audit_trick_mset:
  "audit_trick g (hs, out) pre xs = Some (hs', []) \<Longrightarrow>
   out = [] \<and> mset (concat hs) = mset (map pcard xs) + mset (concat hs')"
proof (induction xs arbitrary: hs out pre)
  case (Cons x xs)
  then obtain h1 o1 where 1: "audit_card g (hs, out) pre x = Some (h1, o1)"
    "audit_trick g (h1, o1) (pre @ [x]) xs = Some (hs', [])" by (auto split: option.splits)
  then have "o1 = [] \<and> mset (concat h1) = mset (map pcard xs) + mset (concat hs')" using Cons.IH by blast
  with audit_card_mset 1(1) show ?case by fastforce
qed simp

lemma audit_tricks_mset:
  "audit_tricks g (hs, out) ts = Some (hs', []) \<Longrightarrow>
   out = [] \<and> mset (concat hs) = mset (map pcard (concat ts)) + mset (concat hs')"
proof (induction ts arbitrary: hs out)
  case (Cons t ts)
  then obtain h1 o1 where 1: "audit_trick g (hs, out) [] t = Some (h1, o1)"
    "audit_tricks g (h1, o1) ts = Some (hs', [])" by (auto split: option.splits)
  then have "o1 = [] \<and> mset (concat h1) = mset (map pcard (concat ts)) + mset (concat hs')" using Cons.IH by blast
  with audit_trick_mset 1(1) show ?case by fastforce
qed simp

text \<open>The cards of an honest hand: played, still held, and down in the skat.\<close>

lemma honest_cards:
  assumes deal: "deal_ok h0 sk" and hon: "honest h0 sk s h ps" and c: "contract s = Some c"
  shows "mset (played s) + mset (h 0 @ h 1 @ h 2) + mset (if pickedUp s then ps else sk) = mset DECK"
proof -
  have J: "honest_inv h0 sk s h ps" by (rule honest_invariant [OF deal hon])
  then have I: "inv s" by (simp add: honest_inv_def)
  have np: "phase s \<noteq> PPush" using contract_phase(4) [OF I c] by auto
  let ?P = "playing h0 sk s ps"
  have P: "push_ok h0 sk s ps" and
    A: "audit_tricks (c_game c) (map ?P [0, 1, 2], []) (all_tricks s) = Some (map h [0, 1, 2], [])"
    using J unfolding honest_inv_def c option.case if_not_P [OF np] by blast+
  have 1: "mset (?P 0 @ ?P 1 @ ?P 2) = mset (played s) + mset (h 0 @ h 1 @ h 2)"
    using audit_tricks_mset [OF A] by (simp add: played_def)
  have 2: "mset (?P 0 @ ?P 1 @ ?P 2) + mset (if pickedUp s then ps else sk) = mset DECK"
  proof (cases "pickedUp s")
    case False
    then show ?thesis using deal by (simp add: playing_def deal_ok_def ac_simps)
  next
    case True
    let ?d = "declarer s"
    have d: "?d \<in> {0, 1, 2}"
      using contract_phase(1) [OF I c] True by (auto simp: contract_ok_def seat_ok_iff split: if_splits)
    obtain x y where xy: "ps = [x, y]" "x \<noteq> y" "set ps \<subseteq> set (h0 ?d @ sk)" using P True by (auto simp: push_ok_def)
    have "distinct (h0 ?d @ sk)" using deal_distinct(1) [OF deal] d by auto
    then have "mset (filter (\<lambda>c. c \<in> set ps) (h0 ?d @ sk)) = mset ps"
      using xy by (intro set_eq_iff_mset_eq_distinct [THEN iffD1]) (auto simp del: filter_append)
    moreover define Q where "Q = filter (\<lambda>c. c \<notin> set ps) (h0 ?d @ sk)"
    ultimately have q: "mset Q + mset ps = mset (h0 ?d) + mset sk"
      by (metis add.commute mset_append mset_filter multiset_partition)
    have "?P = h0(?d := Q)" using True by (simp add: playing_def Q_def)
    moreover have "mset (h0 0) + mset (h0 1) + mset (h0 2) + mset sk = mset DECK"
      using deal by (simp add: deal_ok_def ac_simps)
    ultimately show ?thesis
      using d True q by (auto simp: add.assoc) (metis add.assoc add.commute)+
  qed
  show ?thesis using 1 2 by simp
qed

lemma eyes_append [simp]: "eyes (xs @ ys) = eyes xs + eyes ys"
  by (simp add: eyes_def)

lemma eyes_mset: "mset xs = mset ys \<Longrightarrow> eyes xs = eyes ys"
  unfolding eyes_def by (rule sum_list_mset_cong)

lemma eyes_nonneg: "0 \<le> eyes xs"
  unfolding eyes_def by (rule sum_list_nonneg) auto

lemma eyes_concat: "eyes (concat (map (\<lambda>t. map pcard (cards t)) ts)) = sum_list (map trick_eyes ts)"
  by (induction ts) (simp_all add: eyes_def trick_eyes_def)

lemma sum_list_partition:
  "sum_list (map f (filter P xs)) + sum_list (map f (filter (\<lambda>x. \<not> P x) xs)) = (sum_list (map f xs) :: int)"
  by (induction xs) auto

text \<open>A finished hand that is no null has ten tricks, and every card is on the table.\<close>

lemma done_ten_tricks:
  assumes "inv s" "is_done s" "contract s = Some c" "c_game c \<noteq> GNull"
  shows "length (tricks s) = HAND" "trick s = None" "\<forall>t \<in> set (tricks s). trick_shape (c_game c) t"
    "tricks s \<noteq> []"
proof -
  have P: "phase_ok s" "phase s = PDone" using assms(1,2) by (simp_all add: inv_def is_done_def)
  show "length (tricks s) = HAND" "trick s = None" "\<forall>t \<in> set (tricks s). trick_shape (c_game c) t" "tricks s \<noteq> []"
    using P assms(3,4) by (cases "passedOut s"; simp add: phase_ok_def table_ok_def)+
qed

lemma done_hands_empty:
  assumes deal: "deal_ok h0 sk" and hon: "honest h0 sk s h ps" and "is_done s"
    and c: "contract s = Some c" "c_game c \<noteq> GNull"
  shows "mset (played s) + mset (if pickedUp s then ps else sk) = mset DECK"
proof -
  have J: "inv s" "fits s h" using honest_invariant [OF deal hon] by (simp_all add: honest_inv_def)
  note D = done_ten_tricks [OF J(1) assms(3) c]
  have "playedBy s p = HAND" if "p \<in> {0, 1, 2}" for p
    using playedBy_tricks [OF D(3)] that D(1,2) by (simp add: seat_ok_iff playedBy_def all_tricks_def comp_def)
  moreover have "length (h p) = hand_size s p" if "p \<in> {0, 1, 2}" for p
    using J(2) that unfolding fits_def by blast
  ultimately have "h p = []" if "p \<in> {0, 1, 2}" for p
    using that assms(3) by (auto simp: hand_size_def is_done_def HAND_def)
  then show ?thesis using honest_cards [OF deal hon c(1)] by simp
qed

lemma eyes_played: "trick s = None \<Longrightarrow> eyes (played s) = sum_list (map trick_eyes (tricks s))"
  by (simp add: played_def all_tricks_def map_concat comp_def flip: eyes_concat)

text \<open>
  In an honest hand that is no null the card points \<open>result\<close> writes down for the defenders
  (120 less the soloist's) are the card points of the tricks the defenders took.
\<close>

theorem defenders_eyes:
  assumes deal: "deal_ok h0 sk" and hon: "honest h0 sk s h ps" and fin: "is_done s"
    and res: "result s (reveal_of h0 sk ps) = Some (Played r)" and game: "r_game r \<noteq> GNull"
  shows "snd (r_eyes r) = sum_list (map trick_eyes (filter (\<lambda>t. winner t \<noteq> declarer s) (tricks s)))"
proof -
  let ?f = "reveal_of h0 sk ps"
  obtain c where c: "contract s = Some c" "c_game c \<noteq> GNull"
    and e: "r_eyes r = (declarer_eyes s ?f, 120 - declarer_eyes s ?f)"
    using result_played [OF res] game by metis
  have I: "inv s" using honest_invariant [OF deal hon] by (simp add: honest_inv_def)
  have "eyes (played s) + eyes (if pickedUp s then ps else sk) = 120"
    using eyes_mset [of "played s @ (if pickedUp s then ps else sk)" DECK]
      done_hands_empty [OF deal hon fin c] eyes_DECK by simp
  then have "sum_list (map trick_eyes (tricks s)) + eyes (if pickedUp s then ps else sk) = 120"
    using eyes_played done_ten_tricks(2) [OF I fin c] by simp
  moreover have "declarer_eyes s ?f = sum_list (map trick_eyes (declarer_tricks s)) + eyes (if pickedUp s then ps else sk)"
    by (simp add: declarer_eyes_def eyes_concat reveal_of_def)
  ultimately show ?thesis
    using sum_list_partition [of trick_eyes "\<lambda>t. winner t = declarer s" "tricks s"]
    by (simp add: e declarer_tricks_def)
qed

lemma sum_by_winner:
  assumes "\<forall>t \<in> set ts. winner t \<in> {0, 1, 2}"
  shows "sum_list (map f (filter (\<lambda>t. winner t = 0) ts)) + sum_list (map f (filter (\<lambda>t. winner t = 1) ts))
     + sum_list (map f (filter (\<lambda>t. winner t = 2) ts)) = (sum_list (map f ts) :: int)"
  using assms by (induction ts) auto

lemma ramsch_eyes:
  assumes "\<forall>t \<in> set (tricks s). winner t \<in> {0, 1, 2}" "tricks s \<noteq> []"
  shows "sum_list (m_seatEyes (ramschResult s full)) = sum_list (map trick_eyes (tricks s)) + eyes (f_skat full)"
proof -
  have "winner (last (tricks s)) \<in> {0, 1, 2}" using assms by simp
  moreover have u: "[0..<3] = [0, 1, 2]" by (simp add: upt_rec)
  ultimately show ?thesis
    using assms(2) sum_by_winner [OF assms(1), of trick_eyes]
    by (auto simp: ramschResult_def Let_def u)
qed

text \<open>
  In an honest Ramsch that is played to the end the card points \<open>result\<close> counts for the
  three seats, the skat with the last trick, are the 120 of the deck.
\<close>

theorem ramsch_counts_the_deck:
  assumes deal: "deal_ok h0 sk" and hon: "honest h0 sk s h ps" and fin: "is_done s"
    and res: "result s (reveal_of h0 sk ps) = Some (Ramsch m)"
  shows "sum_list (m_seatEyes m) = 120"
proof -
  obtain c where c: "contract s = Some c" "c_ramsch c" and m: "m = ramschResult s (reveal_of h0 sk ps)"
    using res by (auto simp: result_def Let_def split: if_splits option.splits prod.splits)
  have I: "inv s" using honest_invariant [OF deal hon] by (simp add: honest_inv_def)
  have k: "c_game c \<noteq> GNull" "\<not> pickedUp s"
    using contract_phase(1) [OF I c(1)] c(2) by (simp_all add: contract_ok_def)
  note D = done_ten_tricks [OF I fin c(1) k(1)]
  have "winner t \<in> {0, 1, 2}" if "t \<in> set (tricks s)" for t
  proof -
    have t: "trick_shape (c_game c) t" using D(3) that by blast
    then have "cards t \<noteq> []" by (auto simp: trick_shape_def)
    then show ?thesis using trickWinner_seat t by (auto simp: trick_shape_def seat_ok_iff)
  qed
  then have "sum_list (m_seatEyes m) = eyes (played s) + eyes sk"
    using ramsch_eyes [OF _ D(4)] by (simp add: m eyes_played [OF D(2)] reveal_of_def)
  moreover have "eyes (played s @ sk) = eyes DECK"
    using done_hands_empty [OF deal hon fin c(1) k(1)] k(2) by (intro eyes_mset) simp
  ultimately show ?thesis by (simp add: eyes_DECK)
qed

section \<open>What every reachable state has\<close>

lemma checkContract_type: "checkContract s a \<noteq> Some ''TypeError''"
  by (simp add: checkContract_def Let_def split: option.split)

lemma apply_declare_type: "apply_declare s a \<noteq> Inl ''TypeError''"
  using checkContract_type [of s a] by (auto simp: apply_declare_def Let_def split: option.split)

lemma apply_show_type: "apply_show s a \<noteq> Inl ''TypeError''"
  by (simp add: apply_show_def split: option.split)

lemma applyBid_type: "applyBid s p a \<noteq> Inl ''TypeError''"
  by (simp add: applyBid_def Let_def split: option.split)

lemma play_card_type:
  assumes "inv s" "phase s = PPlay"
  shows "play_card s p a \<noteq> Inl ''TypeError''"
proof -
  obtain c t where ct: "contract s = Some c" "trick s = Some t" using play_phase [OF assms] by metis
  show ?thesis unfolding play_card_def ct option.case Let_def by simp
qed

lemma type_error_impossible: "inv s \<Longrightarrow> apply_action s a \<noteq> Inl ''TypeError''"
  using play_card_type [of s] by (cases "a_seat a")
    (simp_all add: apply_action_def apply_declare_type apply_show_type applyBid_type)

text \<open>
  C1: every state the rules can reach, by accepted actions from the start of a hand, satisfies the
  invariant: seats between 0 and 2, a bid of \<open>BIDS\<close>, a contract \<open>checkContract\<close> allows, tricks of
  three cards from the leader clockwise, each led by the winner of the one before, no card twice,
  a null without a trick of the soloist before the last, and an end after ten tricks or the
  soloist's first trick in a null.
\<close>

theorem skat_invariant: "skat_reachable s \<Longrightarrow> inv s"
  by (rule skat.reachable_inv)

text \<open>
  No action, however malformed, makes \<open>apply\<close> read a field of \<open>null\<close> in a state the rules
  can reach.
\<close>

theorem skat_never_throws: "skat_reachable s \<Longrightarrow> apply_action s a \<noteq> Inl ''TypeError''"
  by (rule type_error_impossible [OF skat.reachable_inv])

text \<open>A hand is over after at most 165 accepted actions.\<close>

theorem skat_hand_is_finite: "run apply_action (start d r) as = Inr s \<Longrightarrow> length as \<le> 165"
  by (rule skat.run_length) blast

text \<open>
  C30: from any reachable state, with the cards of the three seats, handing every seat to the
  automatic player brings the hand to its end: the loop of the table does not stop before.
\<close>

theorem skat_settles:
  assumes "skat_reachable s" "fits s h"
  shows "\<exists>s' h'. settle apply_action is_done auto_of take_out 165 s h = (True, s', h') \<and> is_done s'"
  using skat_auto.settle_over [OF skat.reachable_inv [OF assms(1)] assms(2) skat.reachable_budget [OF assms(1)]]
  by blast

end
