(* ===== verification/Skat_Samples.thy ===== *)
theory Skat_Samples
  imports Skat_Score
begin

text \<open>
  Two Skat hands played to the end, a Ramsch and a spade hand, and the theorems about the rules
  applied to them.
\<close>

section \<open>A hand played\<close>

text \<open>Honest moves in a row, from the cards of the seats.\<close>

fun play_along :: "state \<Rightarrow> hands \<Rightarrow> action list \<Rightarrow> (state \<times> hands) option" where
  "play_along s h [] = Some (s, h)"
| "play_along s h (a # as) =
     (case a_seat a of None \<Rightarrow> None | Some p \<Rightarrow>
        if a \<in> set (actions s p (h p)) \<and> a_t a \<noteq> TPickup \<and> a_t a \<noteq> TPush
        then (case apply_action s a of Inl e \<Rightarrow> None | Inr s' \<Rightarrow> play_along s' (take_out h a) as)
        else None)"

lemma play_along_honest:
  "honest h0 sk s h ps \<Longrightarrow> play_along s h as = Some (s', h') \<Longrightarrow> honest h0 sk s' h' ps"
proof (induction as arbitrary: s h)
  case (Cons a as)
  then obtain p s1 where "a \<in> set (actions s p (h p))" "a_t a \<notin> {TPickup, TPush}" "apply_action s a = Inr s1"
    "play_along s1 (take_out h a) as = Some (s', h')"
    by (auto split: option.splits sum.splits if_splits)
  then show ?case using Cons.IH honest.move [OF Cons.prems(1)] by blast
qed simp

definition sample_deal :: "hands" where
  "sample_deal p = take 10 (drop (10 * nat p) DECK)"

definition sample_skat :: "card list" where
  "sample_skat = drop 30 DECK"

text \<open>The seats play their first legal card in turn, \<open>n\<close> cards in all.\<close>

fun play_out :: "nat \<Rightarrow> state \<Rightarrow> hands \<Rightarrow> state \<times> hands" where
  "play_out 0 s h = (s, h)"
| "play_out (Suc n) s h =
     (case filter (\<lambda>a. a_t a = TPlay) (actions s (turn s) (h (turn s))) of [] \<Rightarrow> (s, h)
      | a # _ \<Rightarrow> (case apply_action s a of Inl e \<Rightarrow> (s, h) | Inr s' \<Rightarrow> play_out n s' (take_out h a)))"

lemma play_out_honest:
  "honest h0 sk s h ps \<Longrightarrow> honest h0 sk (fst (play_out n s h)) (snd (play_out n s h)) ps"
proof (induction n arbitrary: s h)
  case (Suc n)
  show ?case
  proof (cases "filter (\<lambda>a. a_t a = TPlay) (actions s (turn s) (h (turn s)))")
    case Nil
    then show ?thesis using Suc.prems by simp
  next
    case (Cons a as)
    then have a: "a \<in> set (actions s (turn s) (h (turn s)))" "a_t a \<notin> {TPickup, TPush}"
      by (auto dest: filter_eq_ConsD)
    show ?thesis
    proof (cases "apply_action s a")
      case (Inr s')
      then show ?thesis using Suc.IH [OF honest.move [OF Suc.prems a Inr]] Cons by simp
    qed (use Suc.prems Cons in simp)
  qed
qed simp

definition sample_start :: state where
  "sample_start = start (Some 0) (Some [''ramsch'', ''kontra''])"

definition sample_hand :: "action list \<Rightarrow> nat \<Rightarrow> state \<times> hands" where
  "sample_hand as n = (case play_along sample_start sample_deal as
     of Some (s, h) \<Rightarrow> play_out n s h | None \<Rightarrow> (sample_start, sample_deal))"

text \<open>Three passes; middlehand bids 18 and plays a spade hand, a defender says Kontra.\<close>

definition three_passes :: "action list" where
  "three_passes = map (mk_act TPass) [2, 0, 1]"

definition spade_hand :: "action list" where
  "spade_hand = [(mk_act TBid 2)\<lparr>a_v := Some 18\<rparr>, mk_act TPass 1, mk_act TPass 0,
     declare_act 2 (GSuit SuitS, True, False, False, False)]"

lemma sample_deal_ok: "deal_ok sample_deal sample_skat"
proof -
  have "mset (sample_deal 0 @ sample_deal 1 @ sample_deal 2 @ sample_skat) = mset DECK"
    by (simp add: sample_deal_def sample_skat_def DECK_def SUITS_def RANKS_def)
  moreover have "length (sample_deal 0) = HAND" "length (sample_deal 1) = HAND" "length (sample_deal 2) = HAND"
    by code_simp+
  ultimately show ?thesis by (simp add: deal_ok_def)
qed

lemma sample_honest:
  "honest sample_deal sample_skat (fst (sample_hand as n)) (snd (sample_hand as n)) []"
proof -
  have h: "honest sample_deal sample_skat sample_start sample_deal []"
    unfolding sample_start_def by (rule honest.deal)
  show ?thesis
    using h play_out_honest [OF play_along_honest [OF h]] by (auto simp: sample_hand_def split: option.splits)
qed

lemma honest_reachable: "honest h0 sk s h ps \<Longrightarrow> skat_reachable s"
  by (induction rule: honest.induct) (auto intro: reachable.intros)

lemmas sample_reachable = honest_reachable [OF sample_honest]
lemmas sample_inv = honest_invariant [OF sample_deal_ok sample_honest, unfolded honest_inv_def]

theorem skat_invariant_witness: "inv (fst (sample_hand spade_hand 30))"
  by (rule skat_invariant [OF sample_reachable])

theorem skat_never_throws_witness:
  "apply_action (fst (sample_hand spade_hand 7)) (mk_act TPlay 5) \<noteq> Inl ''TypeError''"
  by (rule skat_never_throws [OF sample_reachable])

theorem skat_hand_is_finite_witness: "length three_passes \<le> 165"
proof -
  have "\<exists>s. run apply_action (start (Some 0) None) three_passes = Inr s" by (rule exI) code_simp
  then show ?thesis using skat_hand_is_finite by blast
qed

theorem skat_settles_witness:
  "\<exists>s' h'. settle apply_action is_done auto_of take_out 165 (fst (sample_hand spade_hand 7)) (snd (sample_hand spade_hand 7))
     = (True, s', h') \<and> is_done s'"
  by (rule skat_settles [OF sample_reachable]) (use sample_inv in blast)

theorem honest_passes_audit_witness:
  "audit (fst (sample_hand spade_hand 30)) (reveal_of sample_deal sample_skat []) = Some []"
  by (rule honest_passes_audit [OF sample_deal_ok sample_honest])

theorem actions_accepted_witness:
  "\<exists>s'. apply_action (fst (sample_hand spade_hand 0)) (mk_act TKontra 0) = Inr s'"
proof (rule actions_accepted)
  show "inv (fst (sample_hand spade_hand 0))" "fits (fst (sample_hand spade_hand 0)) (snd (sample_hand spade_hand 0))"
    using sample_inv by blast+
  show "mk_act TKontra 0 \<in> set (actions (fst (sample_hand spade_hand 0)) 0 (snd (sample_hand spade_hand 0) 0))"
    by code_simp
qed

theorem ramsch_counts_the_deck_witness:
  "sum_list (m_seatEyes (ramschResult (fst (sample_hand three_passes 30)) (reveal_of sample_deal sample_skat []))) = 120"
proof (rule ramsch_counts_the_deck [OF sample_deal_ok sample_honest])
  show "is_done (fst (sample_hand three_passes 30))" by code_simp
  show "result (fst (sample_hand three_passes 30)) (reveal_of sample_deal sample_skat [])
     = Some (Ramsch (ramschResult (fst (sample_hand three_passes 30)) (reveal_of sample_deal sample_skat [])))"
    by code_simp
qed

definition sample_result :: game_result where
  "sample_result = (case result (fst (sample_hand spade_hand 30)) (reveal_of sample_deal sample_skat []) of
     Some (Played r) \<Rightarrow> r | _ \<Rightarrow> \<lparr>r_won = False, r_declarer = 0, r_game = GNull, r_value = 0, r_overbid = False,
       r_points = [], r_list = [], r_eyes = (0, 0), r_tricks = 0, r_lines = []\<rparr>)"

lemma sample_played: "result (fst (sample_hand spade_hand 30)) (reveal_of sample_deal sample_skat []) = Some (Played sample_result)"
  by code_simp

theorem defenders_eyes_witness:
  "snd (r_eyes sample_result) = sum_list (map trick_eyes
     (filter (\<lambda>t. winner t \<noteq> declarer (fst (sample_hand spade_hand 30))) (tricks (fst (sample_hand spade_hand 30)))))"
  by (rule defenders_eyes [OF sample_deal_ok sample_honest _ sample_played]) code_simp+

theorem value_is_a_bid_witness: "r_value sample_result \<in> set BIDS"
  by (rule value_is_a_bid [OF sample_played]) code_simp+

theorem score_of_soloist_witness:
  "r_points sample_result ! nat (declarer (fst (sample_hand spade_hand 30)))
     = (if r_won sample_result then r_value sample_result else - 2 * r_value sample_result)"
  using score_of_soloist [OF sample_reachable sample_played] by blast

end
