(* ===== verification/Bauernskat.thy ===== *)
theory Bauernskat
  imports Skat
begin

text \<open>
  Skat for two, \<open>bauernskat.js\<close>: sixteen cards each in eight stacks, the top one open. The
  names of the source carry the suffix \<open>_bs\<close>, because the module shares most of them with
  \<open>skat.js\<close>, whose trump order, trick winner, tops and eyes it calls. A position \<open>i\<close> of an
  action is a number or unusable (\<open>None\<close>).
\<close>

section \<open>Constants and state\<close>

definition SEATS_bs :: nat where "SEATS_bs = 2"
definition STACKS :: nat where "STACKS = 8"
definition TRICKS_bs :: nat where "TRICKS_bs = 16"
definition NULLV :: int where "NULLV = 23"

definition RULES_bs :: "string list" where "RULES_bs = [''null'', ''kontra'']"

definition GAMES :: "game list" where
  "GAMES = [GSuit SuitC, GSuit SuitS, GSuit SuitH, GSuit SuitD, Grand]"

definition rules_of_bs :: "string list option \<Rightarrow> string list" where
  "rules_of_bs r = filter (\<lambda>k. k \<in> set (case r of None \<Rightarrow> [] | Some l \<Rightarrow> l)) RULES_bs"

datatype phase_bs = BDeal | BDeclare | BPlay | BDone

record stack =
  top :: "card option"
  under :: bool

record state_bs =
  rules_bs :: "string list"
  kontra_bs :: nat
  dealer_bs :: int
  phase_of :: phase_bs
  declarer_bs :: int
  contract_bs :: "game option"
  stacks :: "stack list list"
  flip :: "(int \<times> int) list"
  trick_bs :: "Cards.trick option"
  tricks_bs :: "won_trick list"
  next_bs :: int

datatype act_bs = ATurn | AKontra | ARe | ADeclare | APlay | AOther

record action_bs =
  t_bs :: act_bs
  seat_bs :: "int option"
  game_bs :: "game option"
  card_bs :: "card option"
  i_bs :: "int option"

definition has_bs :: "state_bs \<Rightarrow> string \<Rightarrow> bool" where
  "has_bs s k \<longleftrightarrow> k \<in> set (rules_bs s)"

definition forehand_bs :: "int \<Rightarrow> int" where
  "forehand_bs d = (d + 1) mod 2"

definition layout_bs :: "nat list list \<times> (nat \<times> nat) list list" where
  "layout_bs = (map (\<lambda>s. []) [0..<SEATS_bs],
     map (\<lambda>s. map (\<lambda>j. (s * 16 + j, s * 16 + STACKS + j)) [0..<STACKS]) [0..<SEATS_bs])"

definition start_bs :: "int option \<Rightarrow> string list option \<Rightarrow> state_bs" where
  "start_bs d r =
     (let dl = (case d of Some x \<Rightarrow> js_rem (js_rem x 2 + 2) 2 | None \<Rightarrow> 0) in
      \<lparr>rules_bs = rules_of_bs r, kontra_bs = 0, dealer_bs = dl, phase_of = BDeal,
       declarer_bs = forehand_bs dl, contract_bs = None,
       stacks = replicate SEATS_bs (replicate STACKS \<lparr>top = None, under = True\<rparr>), flip = [],
       trick_bs = None, tricks_bs = [], next_bs = -1\<rparr>)"

section \<open>Cards in a contract\<close>

definition power_bs :: "game \<Rightarrow> card \<Rightarrow> led \<Rightarrow> int" where
  "power_bs g c l =
     (if isTrump g c then 100 - indexOf (trumpOrder g) c
      else if Plain (suit c) \<noteq> l then -1
      else 50 - indexOf (if g = GNull then NULLRANK else PLAIN) (rank c))"

definition mayPlay_bs :: "game \<Rightarrow> card list \<Rightarrow> card \<Rightarrow> play list \<Rightarrow> bool" where
  "mayPlay_bs g avail c t =
     (if c \<notin> set avail then False
      else case t of [] \<Rightarrow> True | x # _ \<Rightarrow>
        let l = suitOf g (pcard x) in suitOf g c = l \<or> \<not> list_ex (\<lambda>d. suitOf g d = l) avail)"

definition row_tops :: "stack list \<Rightarrow> card list" where
  "row_tops row = List.map_filter top row"

definition tops_bs :: "state_bs \<Rightarrow> int \<Rightarrow> card list" where
  "tops_bs s seat = row_tops (stacks s ! nat seat)"

definition all_tricks_bs :: "state_bs \<Rightarrow> play list list" where
  "all_tricks_bs s = map cards (tricks_bs s) @ (case trick_bs s of None \<Rightarrow> [] | Some t \<Rightarrow> [cards t])"

definition played_bs :: "state_bs \<Rightarrow> card list" where
  "played_bs s = map pcard (concat (all_tricks_bs s))"

definition playedBy_bs :: "state_bs \<Rightarrow> int \<Rightarrow> nat" where
  "playedBy_bs s seat =
     sum_list (map (\<lambda>cs. length (filter (\<lambda>x. pseat x = seat) cs)) (all_tricks_bs s))"

definition visible :: "state_bs \<Rightarrow> card list" where
  "visible s = tops_bs s 0 @ tops_bs s 1"

section \<open>Whose move, what may be done\<close>

definition turn_bs :: "state_bs \<Rightarrow> int" where
  "turn_bs s = (case phase_of s of BDeclare \<Rightarrow> declarer_bs s | BPlay \<Rightarrow> next_bs s | _ \<Rightarrow> -1)"

definition done_bs :: "state_bs \<Rightarrow> bool" where
  "done_bs s \<longleftrightarrow> phase_of s = BDone"

definition places :: "(stack \<Rightarrow> bool) \<Rightarrow> stack list list \<Rightarrow> (int \<times> int) list" where
  "places P st = concat (map (\<lambda>(seat, row). map (\<lambda>(i, x). (int seat, int i))
     (filter (\<lambda>(i, x). P x) (enumerate 0 row))) (enumerate 0 st))"

datatype kind = Up | Down

definition reveals :: "state_bs \<Rightarrow> (int \<times> int \<times> kind) list" where
  "reveals s = (case phase_of s of
       BDeal \<Rightarrow> map (\<lambda>(z, i). (z, i, Up)) (places (\<lambda>x. top x = None) (stacks s))
     | BPlay \<Rightarrow> map (\<lambda>(z, i). (z, i, Down)) (flip s)
     | _ \<Rightarrow> [])"

definition kontraOk_bs :: "state_bs \<Rightarrow> int \<Rightarrow> act_bs \<Rightarrow> bool" where
  "kontraOk_bs s seat t =
     (if \<not> has_bs s ''kontra'' \<or> phase_of s \<noteq> BPlay \<or> contract_bs s = None then False
      else if t = AKontra then kontra_bs s = 0 \<and> seat \<noteq> declarer_bs s \<and> playedBy_bs s seat = 0
      else t = ARe \<and> kontra_bs s = 1 \<and> seat = declarer_bs s \<and> playedBy_bs s seat \<le> 1)"

definition games :: "state_bs \<Rightarrow> game list" where
  "games s = GAMES @ (if has_bs s ''null'' then [GNull] else [])"

definition mk_bs :: "act_bs \<Rightarrow> int \<Rightarrow> action_bs" where
  "mk_bs t seat = \<lparr>t_bs = t, seat_bs = Some seat, game_bs = None, card_bs = None, i_bs = None\<rparr>"

definition declare_bs :: "int \<Rightarrow> game \<Rightarrow> action_bs" where
  "declare_bs seat g = (mk_bs ADeclare seat)\<lparr>game_bs := Some g\<rparr>"

definition place_bs :: "int \<Rightarrow> card \<Rightarrow> action_bs" where
  "place_bs seat c = (mk_bs APlay seat)\<lparr>card_bs := Some c\<rparr>"

definition game_at :: "state_bs \<Rightarrow> game" where
  "game_at s = the (contract_bs s)"

definition on_table :: "state_bs \<Rightarrow> play list" where
  "on_table s = (case trick_bs s of None \<Rightarrow> [] | Some t \<Rightarrow> cards t)"

definition actions_bs :: "state_bs \<Rightarrow> int \<Rightarrow> action_bs list" where
  "actions_bs s seat =
     (if phase_of s = BDeclare \<and> seat = declarer_bs s then map (declare_bs seat) (games s)
      else if phase_of s = BPlay then
        (if seat = next_bs s \<and> flip s = []
         then map (place_bs seat) (filter (\<lambda>c. mayPlay_bs (game_at s) (tops_bs s seat) c (on_table s)) (tops_bs s seat))
         else [])
        @ map (\<lambda>t. mk_bs t seat) (filter (\<lambda>t. kontraOk_bs s seat t) [AKontra, ARe])
      else [])"

section \<open>Applying an action\<close>

definition stack_at :: "state_bs \<Rightarrow> int \<Rightarrow> int \<Rightarrow> stack option" where
  "stack_at s z i =
     (if 0 \<le> z \<and> nat z < length (stacks s) \<and> 0 \<le> i \<and> nat i < length (stacks s ! nat z)
      then Some (stacks s ! nat z ! nat i) else None)"

definition put_stack :: "state_bs \<Rightarrow> int \<Rightarrow> int \<Rightarrow> stack \<Rightarrow> state_bs" where
  "put_stack s z i x = s\<lparr>stacks := (stacks s)[nat z := (stacks s ! nat z)[nat i := x]]\<rparr>"

text \<open>The last index at which \<open>P\<close> holds, as the source's \<open>forEach\<close> leaves it.\<close>

fun last_index :: "('a \<Rightarrow> bool) \<Rightarrow> 'a list \<Rightarrow> nat option" where
  "last_index P [] = None"
| "last_index P (x # xs) = (case last_index P xs of Some k \<Rightarrow> Some (Suc k) | None \<Rightarrow> if P x then Some 0 else None)"

definition turnUp :: "state_bs \<Rightarrow> int \<Rightarrow> action_bs \<Rightarrow> state_bs answer" where
  "turnUp s seat a =
     (case (case i_bs a of None \<Rightarrow> None | Some i \<Rightarrow> map_option (Pair i) (stack_at s seat i)) of
        None \<Rightarrow> fail ''turn''
      | Some (i, x) \<Rightarrow>
        (case card_bs a of None \<Rightarrow> fail ''turn'' | Some c \<Rightarrow>
         if \<not> isCard (Some c) \<or> c \<in> set (visible s) \<or> c \<in> set (played_bs s) then fail ''turn''
         else if phase_of s = BDeal then
           (if top x \<noteq> None then fail ''turn''
            else let s1 = put_stack s seat i (x\<lparr>top := Some c\<rparr>) in
              if list_all (list_all (\<lambda>y. top y \<noteq> None)) (stacks s1) then okay (s1\<lparr>phase_of := BDeclare\<rparr>)
              else okay s1)
         else case last_index (\<lambda>f. f = (seat, i)) (flip s) of None \<Rightarrow> fail ''turn'' | Some k \<Rightarrow>
           if phase_of s \<noteq> BPlay then fail ''turn''
           else okay ((put_stack s seat i (x\<lparr>top := Some c, under := False\<rparr>))
             \<lparr>flip := take k (flip s) @ drop (Suc k) (flip s)\<rparr>)))"

definition play_bs :: "state_bs \<Rightarrow> int \<Rightarrow> action_bs \<Rightarrow> state_bs answer" where
  "play_bs s seat a =
     (case contract_bs s of None \<Rightarrow> fail ''TypeError'' | Some g \<Rightarrow>
      if flip s \<noteq> [] then fail ''flip''
      else case card_bs a of None \<Rightarrow> fail ''card'' | Some c \<Rightarrow>
      if \<not> isCard (Some c) \<or> c \<in> set (played_bs s) then fail ''card''
      else if \<not> (0 \<le> seat \<and> nat seat < length (stacks s)) then fail ''TypeError''
      else case last_index (\<lambda>x. top x = Some c) (stacks s ! nat seat) of None \<Rightarrow> fail ''card'' | Some si \<Rightarrow>
      if \<not> mayPlay_bs g (tops_bs s seat) c (on_table s) then fail ''follow''
      else case trick_bs s of None \<Rightarrow> fail ''TypeError'' | Some tr \<Rightarrow>
        let s1 = put_stack s seat (int si) ((stacks s ! nat seat ! si)\<lparr>top := None\<rparr>);
            cs = cards tr @ [Play seat c] in
        if length cs < SEATS_bs
        then okay (s1\<lparr>trick_bs := Some (tr\<lparr>cards := cs\<rparr>), next_bs := 1 - seat\<rparr>)
        else
          let w = trickWinner g cs; ts = tricks_bs s @ [\<lparr>lead = lead tr, cards = cs, winner = w\<rparr>] in
          if length ts = TRICKS_bs \<or> (g = GNull \<and> w = declarer_bs s)
          then okay (s1\<lparr>tricks_bs := ts, phase_of := BDone, trick_bs := None, next_bs := -1\<rparr>)
          else okay (s1\<lparr>tricks_bs := ts,
                 flip := flip s @ places (\<lambda>x. top x = None \<and> under x) (stacks s1),
                 trick_bs := Some \<lparr>lead = w, cards = []\<rparr>, next_bs := w\<rparr>))"

definition apply_bs :: "state_bs \<Rightarrow> action_bs \<Rightarrow> state_bs answer" where
  "apply_bs s a =
     (case seat_bs a of None \<Rightarrow> fail ''action'' | Some seat \<Rightarrow>
      if \<not> (0 \<le> seat \<and> seat < int SEATS_bs) then fail ''action''
      else if phase_of s = BDone then fail ''done''
      else if t_bs a = ATurn then turnUp s seat a
      else if t_bs a = AKontra \<or> t_bs a = ARe then
        (if \<not> kontraOk_bs s seat (t_bs a) then fail ''kontra'' else okay (s\<lparr>kontra_bs := kontra_bs s + 1\<rparr>))
      else if seat \<noteq> turn_bs s then fail ''turn''
      else if phase_of s = BDeclare \<and> t_bs a = ADeclare then
        (case game_bs a of None \<Rightarrow> fail ''game'' | Some g \<Rightarrow>
         if g \<notin> set (games s) then fail ''game''
         else okay (s\<lparr>contract_bs := Some g, phase_of := BPlay, next_bs := declarer_bs s,
                trick_bs := Some \<lparr>lead = declarer_bs s, cards = []\<rparr>\<rparr>))
      else if phase_of s = BPlay \<and> t_bs a = APlay then play_bs s seat a
      else fail ''action'')"

section \<open>Scoring\<close>

text \<open>The reveal: the (empty) hands, if they are sent, and the pairs (up, down) of the stacks.\<close>

record full_bs =
  fhands :: "card list list option"
  fstacks :: "(card \<times> card) list list"

definition cardsOf :: "full_bs \<Rightarrow> nat \<Rightarrow> card list option" where
  "cardsOf full seat =
     (if seat < length (fstacks full) \<and> (case fhands full of None \<Rightarrow> True | Some h \<Rightarrow> seat < length h)
      then Some ((case fhands full of None \<Rightarrow> [] | Some h \<Rightarrow> h ! seat)
             @ concat (map (\<lambda>(u, d). [u, d]) (fstacks full ! seat)))
      else None)"

record result_bs =
  won_bs :: bool
  who_bs :: int
  played_game :: game
  value_bs :: int
  points_bs :: "int list"
  eyes_bs :: "int \<times> int"
  count_bs :: nat
  lines_bs :: "(string \<times> int) list"

definition mine_bs :: "state_bs \<Rightarrow> won_trick list" where
  "mine_bs s = filter (\<lambda>t. winner t = declarer_bs s) (tricks_bs s)"

definition soloist_eyes :: "state_bs \<Rightarrow> int" where
  "soloist_eyes s = eyes (concat (map (\<lambda>t. map pcard (cards t)) (mine_bs s)))"

definition score_bs :: "state_bs \<Rightarrow> game \<Rightarrow> card list \<Rightarrow> int \<times> bool \<times> (string \<times> int) list" where
  "score_bs s g own =
     (if g = GNull then (NULLV, mine_bs s = [], [(''null'', NULLV)])
      else let (w, k) = tops g own; de = soloist_eyes s; n = length (mine_bs s);
               sn = (de \<ge> 90 \<or> de \<le> 30); sw = (n = TRICKS_bs \<or> n = 0);
               m = int k + 1 + of_bool sn + of_bool sw in
        (BASE g * m, de \<ge> 61,
         [(if w then ''with'' else ''without'', int k), (''game'', 1)]
         @ (if sn then [(''schneider'', 1)] else []) @ (if sw then [(''schwarz'', 1)] else [])
         @ [(''base'', BASE g)]))"

text \<open>\<open>result\<close>; \<open>None\<close> where the source throws (no contract, no cards for the declarer).\<close>

definition result_of_bs :: "state_bs \<Rightarrow> full_bs \<Rightarrow> result_bs option" where
  "result_of_bs s full =
     (case contract_bs s of None \<Rightarrow> None | Some g \<Rightarrow>
      let d = declarer_bs s in
      case (if g = GNull then Some [] else if d < 0 then None else cardsOf full (nat d)) of
        None \<Rightarrow> None
      | Some own \<Rightarrow>
        let (v0, won, lines0) = score_bs s g own;
            dbl = 2 ^ kontra_bs s;
            value = (if kontra_bs s = 0 then v0 else v0 * dbl);
            lines = lines0 @ (if kontra_bs s = 0 then []
                      else [(if kontra_bs s > 1 then ''re'' else ''kontra'', dbl)]);
            de = soloist_eyes s
        in Some \<lparr>won_bs = won, who_bs = d, played_game = g, value_bs = value,
             points_bs = map (\<lambda>i. if int i = d then (if won then value else - 2 * value) else 0) [0..<2],
             eyes_bs = (de, 120 - de), count_bs = length (mine_bs s), lines_bs = lines\<rparr>)"

section \<open>The audit\<close>

text \<open>A stack of the replay: its top, whether the lower card still lies there, the lower card.\<close>

record pile = stack +
  down :: card

definition replay_card ::
    "game \<Rightarrow> pile list list \<times> (int \<times> string) list \<Rightarrow> play list \<Rightarrow> play
     \<Rightarrow> (pile list list \<times> (int \<times> string) list) option" where
  "replay_card g st pre y = (case st of (ps, out) \<Rightarrow>
     if \<not> (0 \<le> pseat y \<and> nat (pseat y) < length ps) then None
     else let row = ps ! nat (pseat y); avail = List.map_filter top row in
       if pcard y \<notin> set avail then Some (ps, out @ [(pseat y, ''notInHand'')])
       else Some (ps[nat (pseat y) := map (\<lambda>r. if top r = Some (pcard y) then r\<lparr>top := None\<rparr> else r) row],
              out @ (if mayPlay_bs g avail (pcard y) pre then [] else [(pseat y, ''follow'')])))"

fun replay_trick ::
    "game \<Rightarrow> pile list list \<times> (int \<times> string) list \<Rightarrow> play list \<Rightarrow> play list
     \<Rightarrow> (pile list list \<times> (int \<times> string) list) option" where
  "replay_trick g st pre [] = Some st"
| "replay_trick g st pre (y # ys) =
     (case replay_card g st pre y of None \<Rightarrow> None | Some st' \<Rightarrow> replay_trick g st' (pre @ [y]) ys)"

definition turn_piles :: "pile list list \<Rightarrow> pile list list" where
  "turn_piles = map (map (\<lambda>r. if top r = None \<and> under r then r\<lparr>top := Some (down r), under := False\<rparr> else r))"

fun replay ::
    "game \<Rightarrow> pile list list \<times> (int \<times> string) list \<Rightarrow> play list list
     \<Rightarrow> (pile list list \<times> (int \<times> string) list) option" where
  "replay g st [] = Some st"
| "replay g st (t # ts) =
     (case replay_trick g st [] t of None \<Rightarrow> None | Some (ps, out) \<Rightarrow>
        replay g (if length t = SEATS_bs then turn_piles ps else ps, out) ts)"

definition open_card :: "state_bs \<Rightarrow> full_bs \<Rightarrow> nat \<Rightarrow> nat \<Rightarrow> (int \<times> string) list" where
  "open_card s full z i =
     (let x = stacks s ! z ! i; (u, d) = fstacks full ! z ! i in
      if top x \<noteq> None \<and> top x \<noteq> Some (if under x then u else d) then [(int z, ''stack'')] else [])"

definition audit_bs :: "state_bs \<Rightarrow> full_bs \<Rightarrow> (int \<times> string) list option" where
  "audit_bs s full =
     (case contract_bs s of None \<Rightarrow> Some [] | Some g \<Rightarrow>
      case (cardsOf full 0, cardsOf full 1) of (Some c0, Some c1) \<Rightarrow>
        (let all = c0 @ c1 in
         if length all \<noteq> 32 \<or> card (set all) \<noteq> 32 \<or> \<not> list_all (\<lambda>c. isCard (Some c)) all
         then Some [(-1, ''deck'')]
         else if \<not> (\<forall>z < SEATS_bs. STACKS \<le> length (fstacks full ! z) \<and> z < length (stacks s) \<and> STACKS \<le> length (stacks s ! z))
         then None
         else
           let out0 = concat (map (\<lambda>z. concat (map (open_card s full z) [0..<STACKS])) [0..<SEATS_bs]);
               ps = map (map (\<lambda>(u, d). \<lparr>top = Some u, under = True, down = d\<rparr>)) (fstacks full) in
           map_option snd (replay g (ps, out0)
             (map cards (tricks_bs s) @ (case trick_bs s of None \<Rightarrow> []
                | Some t \<Rightarrow> if cards t = [] then [] else [cards t]))))
      | _ \<Rightarrow> None)"

section \<open>The automatic player\<close>

definition play_key_bs :: "game \<Rightarrow> led option \<Rightarrow> card \<Rightarrow> int \<times> int \<times> card" where
  "play_key_bs g l c = (power_bs g c (case l of None \<Rightarrow> suitOf g c | Some x \<Rightarrow> x), EYES (rank c), c)"

definition auto_bs :: "state_bs \<Rightarrow> int \<Rightarrow> action_bs option" where
  "auto_bs s seat =
     (if turn_bs s \<noteq> seat then None
      else if phase_of s = BDeclare then
        (let mine = tops_bs s seat in
         Some (declare_bs seat (if length (filter (\<lambda>c. rank c = RankJ) mine) \<ge> 3 then Grand
           else GSuit (snd (foldl (\<lambda>(most, g) x. let n = int (length (filter (isTrump (GSuit x)) mine)) in
                              if n > most then (n, x) else (most, g)) (-1, SuitC) [SuitC, SuitS, SuitH, SuitD])))))
      else if phase_of s \<noteq> BPlay \<or> flip s \<noteq> [] then None
      else
        let g = game_at s; avail = tops_bs s seat;
            ok = filter (\<lambda>c. mayPlay_bs g avail c (on_table s)) avail;
            l = (case on_table s of [] \<Rightarrow> None | x # _ \<Rightarrow> Some (suitOf g (pcard x)))
        in case sort_key (play_key_bs g l) ok of [] \<Rightarrow> None | c # _ \<Rightarrow> Some (place_bs seat c))"

end
