(* ===== verification/Bauernskat_Correct.thy ===== *)
theory Bauernskat_Correct
  imports Bauernskat Rules_Interface Skat_Play
begin

text \<open>
  What every state of a Bauernskat hand has: two rows of eight stacks, no card twice, the
  stacks to be turned up after a trick exactly those whose top card went, and as many cards left
  as are not yet played. From it: every seat to move has a card it may play, and every hand ends
  after at most 68 actions.
\<close>

section \<open>Rows of stacks\<close>

lemma row_tops_Nil [simp]: "row_tops [] = []"
  by (simp add: row_tops_def map_filter_def)

lemma row_tops_Cons [simp]: "row_tops (x # xs) = (case top x of None \<Rightarrow> row_tops xs | Some c \<Rightarrow> c # row_tops xs)"
  by (simp add: row_tops_def map_filter_def split: option.split)

lemma row_tops_show:
  "i < length row \<Longrightarrow> top (row ! i) = None \<Longrightarrow> top x = Some c \<Longrightarrow>
   mset (row_tops (row[i := x])) = add_mset c (mset (row_tops row))"
  by (induction row arbitrary: i) (auto simp: less_Suc_eq_0_disj split: option.splits)

lemma row_tops_take:
  "i < length row \<Longrightarrow> top (row ! i) = Some c \<Longrightarrow> top x = None \<Longrightarrow>
   mset (row_tops row) = add_mset c (mset (row_tops (row[i := x])))"
  by (induction row arbitrary: i) (auto simp: less_Suc_eq_0_disj split: option.splits)

lemma row_tops_set: "c \<in> set (row_tops row) \<longleftrightarrow> (\<exists>x \<in> set row. top x = Some c)"
  by (induction row) (auto split: option.splits)

lemma last_index_Some:
  "last_index P xs = Some k \<Longrightarrow> k < length xs \<and> P (xs ! k)"
  by (induction xs arbitrary: k) (auto split: option.splits if_splits)

lemma last_index_None: "last_index P xs = None \<longleftrightarrow> \<not> (\<exists>x \<in> set xs. P x)"
  by (induction xs) (auto split: option.splits)

lemma last_index_unique:
  assumes "k < length xs" "P (xs ! k)" "\<And>j. j < length xs \<Longrightarrow> P (xs ! j) \<Longrightarrow> j = k"
  shows "last_index P xs = Some k"
proof (cases "last_index P xs")
  case None
  then show ?thesis using assms(1,2) nth_mem unfolding last_index_None by blast
next
  case (Some j)
  then show ?thesis using assms(3) [of j] last_index_Some [OF Some] by simp
qed

text \<open>The open places of the two rows.\<close>

lemma places_iff:
  "(z, i) \<in> set (places P st) \<longleftrightarrow>
     0 \<le> z \<and> nat z < length st \<and> 0 \<le> i \<and> nat i < length (st ! nat z) \<and> P (st ! nat z ! nat i)"
proof
  assume "(z, i) \<in> set (places P st)"
  then obtain a row b x where ab: "z = int a" "i = int b" "(a, row) \<in> set (enumerate 0 st)"
    "(b, x) \<in> set (enumerate 0 row)" "P x"
    unfolding places_def by auto
  then show "0 \<le> z \<and> nat z < length st \<and> 0 \<le> i \<and> nat i < length (st ! nat z) \<and> P (st ! nat z ! nat i)"
    by (auto simp: in_set_enumerate_eq)
next
  assume *: "0 \<le> z \<and> nat z < length st \<and> 0 \<le> i \<and> nat i < length (st ! nat z) \<and> P (st ! nat z ! nat i)"
  then have "(nat z, st ! nat z) \<in> set (enumerate 0 st)"
    "(nat i, st ! nat z ! nat i) \<in> set (enumerate 0 (st ! nat z))"
    by (auto simp: in_set_enumerate_eq)
  moreover from this * have "(z, i) \<in> set (map (\<lambda>(i, x). (int (nat z), int i))
      (filter (\<lambda>(i, x). P x) (enumerate 0 (st ! nat z))))"
    unfolding set_map set_filter by (intro image_eqI [of _ _ "(nat i, st ! nat z ! nat i)"]) simp_all
  ultimately show "(z, i) \<in> set (places P st)"
    unfolding places_def set_concat set_map by (intro UN_I [OF imageI]) auto
qed

lemma places_distinct: "distinct (places P st)"
proof -
  have row: "distinct (map (\<lambda>(i, x). (int z, int i)) (filter (\<lambda>(i, x). P x) (enumerate k r)))" for z k :: nat and r
  proof (induction r arbitrary: k)
    case (Cons x r)
    have "(int z, int k) \<notin> (\<lambda>(i, x). (int z, int i)) ` (set (enumerate (Suc k) r) \<inter> {(i, x). P x})"
      by (auto simp: in_set_enumerate_eq)
    with Cons show ?case by auto
  qed simp
  have "distinct (concat (map (\<lambda>(seat, row). map (\<lambda>(i, x). (int seat, int i))
     (filter (\<lambda>(i, x). P x) (enumerate 0 row))) (enumerate k st)))" for k
  proof (induction st arbitrary: k)
    case (Cons r st)
    show ?case using Cons row [of k 0 r] by (fastforce simp: in_set_enumerate_eq)
  qed simp
  then show ?thesis by (simp add: places_def)
qed

section \<open>The invariant\<close>

definition seat_two :: "int \<Rightarrow> bool" where
  "seat_two z \<longleftrightarrow> z = 0 \<or> z = 1"

definition gone :: "stack \<Rightarrow> bool" where
  "gone x \<longleftrightarrow> top x = None \<and> under x"

definition left_in :: "stack \<Rightarrow> nat" where
  "left_in x = of_bool (top x \<noteq> None) + of_bool (under x)"

definition rows_ok :: "state_bs \<Rightarrow> bool" where
  "rows_ok s \<longleftrightarrow> length (stacks s) = 2 \<and> (\<forall>row \<in> set (stacks s). length row = 8)"

definition shape_bs :: "game \<Rightarrow> won_trick \<Rightarrow> bool" where
  "shape_bs g t \<longleftrightarrow> (\<exists>c d. cards t = [Play (lead t) c, Play (1 - lead t) d])
     \<and> seat_two (lead t) \<and> winner t = trickWinner g (cards t)"

definition before_play :: "state_bs \<Rightarrow> bool" where
  "before_play s \<longleftrightarrow> contract_bs s = None \<and> tricks_bs s = [] \<and> trick_bs s = None \<and> flip s = [] \<and> kontra_bs s = 0
     \<and> (\<forall>row \<in> set (stacks s). \<forall>x \<in> set row. under x)"

definition play_ok :: "state_bs \<Rightarrow> game \<Rightarrow> Cards.trick \<Rightarrow> bool" where
  "play_ok s g t \<longleftrightarrow> seat_two (lead t) \<and> length (tricks_bs s) < 16 \<and> kontra_bs s \<le> 2 \<and> distinct (flip s)
     \<and> (cards t = [] \<and> next_bs s = lead t \<and> set (flip s) = set (places gone (stacks s))
        \<or> (\<exists>c. cards t = [Play (lead t) c]) \<and> next_bs s = 1 - lead t \<and> flip s = []
          \<and> list_all (\<lambda>x. \<not> gone x) (stacks s ! nat (1 - lead t)))"

definition table_bs :: "state_bs \<Rightarrow> game \<Rightarrow> int \<Rightarrow> bool" where
  "table_bs s g l \<longleftrightarrow> (\<forall>t \<in> set (tricks_bs s). shape_bs g t) \<and> chain (declarer_bs s) (tricks_bs s) l
     \<and> (\<forall>z \<in> {0, 1}. sum_list (map left_in (stacks s ! nat z)) + playedBy_bs s z = 16)"

definition phase_ok_bs :: "state_bs \<Rightarrow> bool" where
  "phase_ok_bs s = (case phase_of s of
       BDeal \<Rightarrow> before_play s \<and> \<not> list_all (list_all (\<lambda>x. top x \<noteq> None)) (stacks s)
     | BDeclare \<Rightarrow> before_play s \<and> list_all (list_all (\<lambda>x. top x \<noteq> None)) (stacks s)
     | BPlay \<Rightarrow> (case (contract_bs s, trick_bs s) of (Some g, Some t) \<Rightarrow>
          g \<in> set (games s) \<and> play_ok s g t \<and> table_bs s g (lead t)
          \<and> (g = GNull \<longrightarrow> (\<forall>w \<in> set (tricks_bs s). winner w \<noteq> declarer_bs s)) | _ \<Rightarrow> False)
     | BDone \<Rightarrow> (case contract_bs s of None \<Rightarrow> False | Some g \<Rightarrow>
          trick_bs s = None \<and> tricks_bs s \<noteq> [] \<and> table_bs s g (winner (last (tricks_bs s))) \<and> kontra_bs s \<le> 2
          \<and> g \<in> set (games s) \<and> length (tricks_bs s) \<le> 16
          \<and> (length (tricks_bs s) = 16 \<or> g = GNull \<and> winner (last (tricks_bs s)) = declarer_bs s)))"

definition inv_bs :: "state_bs \<Rightarrow> bool" where
  "inv_bs s \<longleftrightarrow> rows_ok s \<and> seat_two (dealer_bs s) \<and> declarer_bs s = 1 - dealer_bs s
     \<and> distinct (visible s @ played_bs s) \<and> phase_ok_bs s"

text \<open>What is left to do with a stack, in actions.\<close>

definition work :: "phase_bs \<Rightarrow> stack \<Rightarrow> nat" where
  "work ph x = (if top x = None then (if under x then (if ph = BDeal then 4 else 2) else 0)
     else if under x then 3 else 1)"

definition left_bs :: "state_bs \<Rightarrow> nat" where
  "left_bs s = sum_list (map (\<lambda>row. sum_list (map (work (phase_of s)) row)) (stacks s))
     + (case phase_of s of BDeal \<Rightarrow> 2 | BDeclare \<Rightarrow> 1 | _ \<Rightarrow> 0) + (2 - kontra_bs s)"

section \<open>The branches of \<open>apply\<close>\<close>

lemma apply_bs_cases:
  assumes "apply_bs s a = Inr s'"
  obtains
    (deal) z i x c where "phase_of s = BDeal" "seat_two z" "stack_at s z i = Some x" "top x = None"
      "c \<notin> set (visible s @ played_bs s)" "t_bs a = ATurn" "seat_bs a = Some z" "i_bs a = Some i" "card_bs a = Some c"
      "s' = (let s1 = put_stack s z i (x\<lparr>top := Some c\<rparr>) in
         if list_all (list_all (\<lambda>y. top y \<noteq> None)) (stacks s1) then s1\<lparr>phase_of := BDeclare\<rparr> else s1)"
  | (turned) z i x c k where "phase_of s = BPlay" "seat_two z" "stack_at s z i = Some x"
      "last_index (\<lambda>f. f = (z, i)) (flip s) = Some k"
      "c \<notin> set (visible s @ played_bs s)" "t_bs a = ATurn" "seat_bs a = Some z" "i_bs a = Some i" "card_bs a = Some c"
      "s' = (put_stack s z i (x\<lparr>top := Some c, under := False\<rparr>))\<lparr>flip := take k (flip s) @ drop (Suc k) (flip s)\<rparr>"
  | (kontra) seat t where "kontraOk_bs s seat t" "seat_bs a = Some seat" "t_bs a = t" "s' = s\<lparr>kontra_bs := kontra_bs s + 1\<rparr>"
  | (declared) g where "phase_of s = BDeclare" "g \<in> set (games s)" "seat_bs a = Some (declarer_bs s)" "t_bs a = ADeclare"
      "s' = s\<lparr>contract_bs := Some g, phase_of := BPlay, next_bs := declarer_bs s,
         trick_bs := Some \<lparr>lead = declarer_bs s, cards = []\<rparr>\<rparr>"
  | (play) "phase_of s = BPlay" "seat_two (next_bs s)" "seat_bs a = Some (next_bs s)" "t_bs a = APlay"
      "play_bs s (next_bs s) a = Inr s'"
proof -
  obtain seat where seat: "seat_bs a = Some seat" "seat_two seat" "phase_of s \<noteq> BDone"
    using assms by (cases "seat_bs a") (force simp: apply_bs_def SEATS_bs_def seat_two_def split: if_splits)+
  have bd: "0 \<le> seat \<and> seat < int SEATS_bs" using seat(2) by (auto simp: seat_two_def SEATS_bs_def)
  consider (T) "t_bs a = ATurn" | (K) "t_bs a = AKontra \<or> t_bs a = ARe" | (D) "t_bs a = ADeclare" | (P) "t_bs a = APlay"
    using assms seat bd by (cases "t_bs a") (auto simp: apply_bs_def split: if_splits)
  then show thesis
  proof cases
    case T
    then have tu: "turnUp s seat a = Inr s'" using assms seat bd by (simp add: apply_bs_def)
    then obtain i x c where ixc: "i_bs a = Some i" "stack_at s seat i = Some x" "card_bs a = Some c"
      "c \<notin> set (visible s @ played_bs s)"
      by (auto simp: turnUp_def split: option.splits if_splits)
    show ?thesis
    proof (cases "phase_of s = BDeal")
      case True
      then show ?thesis using tu ixc T seat
        by (intro deal [of seat i x c]) (auto simp: turnUp_def Let_def split: if_splits)
    next
      case False
      then show ?thesis using tu ixc T seat
        by (auto simp: turnUp_def split: option.splits if_splits intro!: turned [of seat i x])
    qed
  next
    case K
    then show ?thesis using assms seat bd by (intro kontra [of seat "t_bs a"]) (auto simp: apply_bs_def split: if_splits)
  next
    case D
    then show ?thesis using assms seat bd
      by (auto simp: apply_bs_def turn_bs_def split: option.splits if_splits phase_bs.splits intro!: declared)
  next
    case P
    then show ?thesis using assms seat bd
      by (intro play) (auto simp: apply_bs_def turn_bs_def split: if_splits phase_bs.splits)
  qed
qed

lemma play_bs_cases:
  assumes "play_bs s p a = Inr s'"
  obtains g c k tr s1 where "contract_bs s = Some g" "trick_bs s = Some tr" "flip s = []" "card_bs a = Some c"
    "last_index (\<lambda>x. top x = Some c) (stacks s ! nat p) = Some k" "mayPlay_bs g (tops_bs s p) c (on_table s)"
    "s1 = put_stack s p (int k) ((stacks s ! nat p ! k)\<lparr>top := None\<rparr>)"
    "s' = (let cs = cards tr @ [Play p c]; w = trickWinner g cs;
              ts = tricks_bs s @ [\<lparr>lead = lead tr, cards = cs, winner = w\<rparr>] in
       if length cs < 2 then s1\<lparr>trick_bs := Some (tr\<lparr>cards := cs\<rparr>), next_bs := 1 - p\<rparr>
       else if length ts = 16 \<or> (g = GNull \<and> w = declarer_bs s)
       then s1\<lparr>tricks_bs := ts, phase_of := BDone, trick_bs := None, next_bs := -1\<rparr>
       else s1\<lparr>tricks_bs := ts, flip := places gone (stacks s1), trick_bs := Some \<lparr>lead = w, cards = []\<rparr>, next_bs := w\<rparr>)"
proof -
  obtain g where g: "contract_bs s = Some g" using assms by (auto simp: play_bs_def split: option.splits)
  have f: "flip s = []" using assms g by (auto simp: play_bs_def split: if_splits)
  obtain c where c: "card_bs a = Some c" "c \<notin> set (played_bs s)" "0 \<le> p \<and> nat p < length (stacks s)"
    using assms g f by (auto simp: play_bs_def split: option.splits if_splits)
  obtain k where k: "last_index (\<lambda>x. top x = Some c) (stacks s ! nat p) = Some k"
    and m: "mayPlay_bs g (tops_bs s p) c (on_table s)"
    using assms g f c by (auto simp: play_bs_def split: option.splits if_splits)
  obtain tr where tr: "trick_bs s = Some tr" using assms g f c k m by (auto simp: play_bs_def split: option.splits)
  have gg: "(\<lambda>x. top x = None \<and> under x) = gone" by (simp add: gone_def fun_eq_iff)
  show thesis
    by (rule that [OF g tr f c(1) k m refl])
      (use assms in \<open>auto simp: play_bs_def g f c k m tr Let_def SEATS_bs_def TRICKS_bs_def gg split: if_splits\<close>)
qed

section \<open>One stack changed\<close>

lemma put_stack_frame [simp]:
  "rules_bs (put_stack s z i x) = rules_bs s" "kontra_bs (put_stack s z i x) = kontra_bs s"
  "dealer_bs (put_stack s z i x) = dealer_bs s" "phase_of (put_stack s z i x) = phase_of s"
  "declarer_bs (put_stack s z i x) = declarer_bs s" "contract_bs (put_stack s z i x) = contract_bs s"
  "flip (put_stack s z i x) = flip s" "trick_bs (put_stack s z i x) = trick_bs s"
  "tricks_bs (put_stack s z i x) = tricks_bs s" "next_bs (put_stack s z i x) = next_bs s"
  by (simp_all add: put_stack_def)

lemma frame_bs [simp]:
  "played_bs (put_stack s z i x) = played_bs s" "playedBy_bs (put_stack s z i x) = playedBy_bs s"
  "games (put_stack s z i x) = games s"
  "visible (s\<lparr>phase_of := ph\<rparr>) = visible s" "played_bs (s\<lparr>phase_of := ph\<rparr>) = played_bs s"
  "visible (s\<lparr>flip := fl\<rparr>) = visible s" "played_bs (s\<lparr>flip := fl\<rparr>) = played_bs s"
  by (simp_all add: played_bs_def playedBy_bs_def all_tricks_bs_def games_def has_bs_def visible_def tops_bs_def
      fun_eq_iff)

lemma rows_two:
  assumes "rows_ok s"
  obtains r0 r1 where "stacks s = [r0, r1]" "length r0 = 8" "length r1 = 8"
  using assms by (auto simp: rows_ok_def length_Suc_conv numeral_2_eq_2)

lemma row_length: "rows_ok s \<Longrightarrow> seat_two z \<Longrightarrow> nat z < length (stacks s) \<and> length (stacks s ! nat z) = 8"
  by (auto simp: rows_ok_def seat_two_def)

lemma seat_two_iff: "seat_two z \<longleftrightarrow> 0 \<le> z \<and> nat z < 2"
  by (auto simp: seat_two_def)

lemma stack_at_iff:
  assumes "rows_ok s"
  shows "stack_at s z i = Some x \<longleftrightarrow> seat_two z \<and> 0 \<le> i \<and> i < 8 \<and> x = stacks s ! nat z ! nat i"
proof (cases "seat_two z")
  case True
  then have "0 \<le> z" "nat z < length (stacks s)" "length (stacks s ! nat z) = 8"
    using row_length [OF assms True] by (auto simp: seat_two_def)
  then show ?thesis using True by (auto simp: stack_at_def)
next
  case False
  then show ?thesis using assms by (auto simp: stack_at_def seat_two_iff rows_ok_def)
qed

lemma rows_put:
  assumes "rows_ok s"
  shows "rows_ok (put_stack s z i x)"
proof (cases "nat z < length (stacks s)")
  case True
  then have "length ((stacks s ! nat z)[nat i := x]) = 8" using assms by (simp add: rows_ok_def)
  then show ?thesis
    using assms set_update_subset_insert [of "stacks s" "nat z" "(stacks s ! nat z)[nat i := x]"]
    unfolding rows_ok_def put_stack_def by auto
next
  case False
  then show ?thesis using assms by (simp add: put_stack_def list_update_beyond)
qed

lemma stack_mem: "stack_at s z i = Some x \<Longrightarrow> \<exists>row \<in> set (stacks s). x \<in> set row"
  unfolding stack_at_def by (metis nth_mem option.distinct(1) option.inject)

lemma stacks_put:
  "rows_ok s \<Longrightarrow> seat_two z \<Longrightarrow> stacks (put_stack s z i x) ! nat z = (stacks s ! nat z)[nat i := x]"
  "rows_ok s \<Longrightarrow> seat_two z \<Longrightarrow> stacks (put_stack s z i x) ! nat (1 - z) = stacks s ! nat (1 - z)"
  by (auto simp: put_stack_def seat_two_def rows_ok_def)

lemma visible_put:
  assumes "rows_ok s" "stack_at s z i = Some y"
  shows "top y = None \<Longrightarrow> top x = Some c \<Longrightarrow> mset (visible (put_stack s z i x)) = add_mset c (mset (visible s))"
    and "top y = Some c \<Longrightarrow> top x = None \<Longrightarrow> mset (visible s) = add_mset c (mset (visible (put_stack s z i x)))"
proof -
  obtain r0 r1 where r: "stacks s = [r0, r1]" "length r0 = 8" "length r1 = 8" by (rule rows_two [OF assms(1)])
  have z: "seat_two z" "0 \<le> i" "i < 8" "y = stacks s ! nat z ! nat i" using assms stack_at_iff by blast+
  show "top y = None \<Longrightarrow> top x = Some c \<Longrightarrow> mset (visible (put_stack s z i x)) = add_mset c (mset (visible s))"
    using z r row_tops_show [of "nat i" r0 x c] row_tops_show [of "nat i" r1 x c]
    by (auto simp: visible_def tops_bs_def put_stack_def seat_two_def)
  show "top y = Some c \<Longrightarrow> top x = None \<Longrightarrow> mset (visible s) = add_mset c (mset (visible (put_stack s z i x)))"
    using z r row_tops_take [of "nat i" r0 c x] row_tops_take [of "nat i" r1 c x]
    by (auto simp: visible_def tops_bs_def put_stack_def seat_two_def)
qed

lemma sum_map_update:
  "i < length xs \<Longrightarrow> sum_list (map f (xs[i := x])) + f (xs ! i) = sum_list (map f xs) + (f x :: nat)"
  by (induction xs arbitrary: i) (auto simp: less_Suc_eq_0_disj)

lemma sum_rows_put:
  assumes "rows_ok s" "stack_at s z i = Some y"
  shows "sum_list (map (\<lambda>row. sum_list (map f row)) (stacks (put_stack s z i x))) + f y
     = sum_list (map (\<lambda>row. sum_list (map f row)) (stacks s)) + (f x :: nat)"
proof -
  obtain r0 r1 where r: "stacks s = [r0, r1]" "length r0 = 8" "length r1 = 8" by (rule rows_two [OF assms(1)])
  have z: "seat_two z" "0 \<le> i" "i < 8" "y = stacks s ! nat z ! nat i" using assms stack_at_iff by blast+
  show ?thesis
    using z r sum_map_update [of "nat i" r0 f x] sum_map_update [of "nat i" r1 f x]
    by (auto simp: put_stack_def seat_two_def)
qed

lemma places_gone:
  assumes "rows_ok s"
  shows "(z, i) \<in> set (places gone (stacks s)) \<longleftrightarrow> (\<exists>x. stack_at s z i = Some x \<and> gone x)"
  by (auto simp: places_iff stack_at_def)

lemma stack_at_put:
  assumes "rows_ok s" "stack_at s z i = Some y"
  shows "stack_at (put_stack s z i x) z' i' = (if (z', i') = (z, i) then Some x else stack_at s z' i')"
proof -
  have z: "seat_two z" "0 \<le> i" "i < 8" using assms stack_at_iff by blast+
  have z0: "0 \<le> z" "nat z < length (stacks s)" "nat i < length (stacks s ! nat z)"
    using z row_length [OF assms(1) z(1)] by (auto simp: seat_two_def)
  show ?thesis
  proof (cases "z' = z")
    case True
    then show ?thesis using z z0
      by (cases "0 \<le> i'") (simp_all add: stack_at_def put_stack_def nth_list_update eq_nat_nat_iff)
  next
    case False
    then show ?thesis using z0(1)
      by (cases "0 \<le> z'") (simp_all add: stack_at_def put_stack_def nth_list_update eq_nat_nat_iff)
  qed
qed

lemma places_put:
  assumes "rows_ok s" "stack_at s z i = Some y"
  shows "set (places gone (stacks (put_stack s z i x))) =
    (if gone x then insert (z, i) (set (places gone (stacks s))) else set (places gone (stacks s)) - {(z, i)})"
proof (rule set_eqI)
  fix w :: "int \<times> int"
  obtain a b where w: "w = (a, b)" by (cases w)
  show "w \<in> set (places gone (stacks (put_stack s z i x))) \<longleftrightarrow>
    w \<in> (if gone x then insert (z, i) (set (places gone (stacks s))) else set (places gone (stacks s)) - {(z, i)})"
    unfolding w places_gone [OF rows_put [OF assms(1)]] stack_at_put [OF assms] using places_gone [OF assms(1), of a b]
    by auto
qed

section \<open>Every action keeps the invariant\<close>

lemma inv_start_bs: "inv_bs (start_bs d r)"
proof -
  have "row_tops (replicate n \<lparr>top = None, under = True\<rparr>) = []" for n by (induction n) auto
  then have "visible (start_bs d r) = []"
    by (simp add: visible_def tops_bs_def start_bs_def Let_def SEATS_bs_def numeral_2_eq_2)
  moreover have "forehand_bs x = 1 - x" if "seat_two x" for x using that by (auto simp: seat_two_def forehand_bs_def)
  moreover have "seat_two (x mod 2)" for x by (auto simp: seat_two_def)
  ultimately show ?thesis
    by (auto simp: inv_bs_def rows_ok_def phase_ok_bs_def before_play_def played_bs_def all_tricks_bs_def start_bs_def
        Let_def SEATS_bs_def STACKS_def js_rem_normalise seat_two_def forehand_bs_def list_all_iff split: option.splits)
qed

lemma distinct_show:
  assumes "distinct (xs @ ys)" "c \<notin> set (xs @ ys)" "mset xs' = add_mset c (mset xs)"
  shows "distinct (xs' @ ys)"
proof -
  have "mset (xs' @ ys) = mset (c # xs @ ys)" using assms(3) by simp
  then show ?thesis using assms(1,2) by (metis distinct.simps(2) mset_eq_imp_distinct_iff)
qed

lemma distinct_move:
  assumes "distinct (xs @ ys)" "mset xs = add_mset c (mset xs')" "mset ys' = add_mset c (mset ys)"
  shows "distinct (xs' @ ys')"
proof -
  have "mset (xs' @ ys') = mset (xs @ ys)" using assms(2,3) by simp
  then show ?thesis using assms(1) by (metis mset_eq_imp_distinct_iff)
qed

lemma set_put_under:
  assumes "\<forall>row \<in> set (stacks s). \<forall>y \<in> set row. under y" "under x"
  shows "\<forall>row \<in> set (stacks (put_stack s z i x)). \<forall>y \<in> set row. under y"
proof (cases "nat z < length (stacks s)")
  case True
  then have "\<forall>y \<in> set (stacks s ! nat z). under y" using assms(1) nth_mem by blast
  then have "\<forall>y \<in> set ((stacks s ! nat z)[nat i := x]). under y"
    using assms(2) set_update_subset_insert [of "stacks s ! nat z" "nat i" x] by blast
  then show ?thesis
    using assms(1) set_update_subset_insert [of "stacks s" "nat z"] unfolding put_stack_def by auto
qed (use assms in \<open>simp add: put_stack_def list_update_beyond\<close>)

lemma inv_deal:
  assumes I: "inv_bs s" and ph: "phase_of s = BDeal" and x: "stack_at s z i = Some x" "top x = None"
    and c: "c \<notin> set (visible s @ played_bs s)"
    and s': "s' = (let s1 = put_stack s z i (x\<lparr>top := Some c\<rparr>) in
         if list_all (list_all (\<lambda>y. top y \<noteq> None)) (stacks s1) then s1\<lparr>phase_of := BDeclare\<rparr> else s1)"
  shows "inv_bs s'"
proof -
  let ?s1 = "put_stack s z i (x\<lparr>top := Some c\<rparr>)"
  have R: "rows_ok s" and B: "before_play s" and D: "distinct (visible s @ played_bs s)"
    and rest: "seat_two (dealer_bs s)" "declarer_bs s = 1 - dealer_bs s"
    using I ph by (auto simp: inv_bs_def phase_ok_bs_def)
  have "under x" using B stack_mem [OF x(1)] unfolding before_play_def by blast
  then have b: "before_play ?s1" using B set_put_under [of s "x\<lparr>top := Some c\<rparr>" z i] by (auto simp: before_play_def)
  have d: "distinct (visible ?s1 @ played_bs ?s1)"
    using distinct_show [OF D c visible_put(1) [OF R x, of "x\<lparr>top := Some c\<rparr>" c]] by simp
  have "rows_ok ?s1" by (rule rows_put [OF R])
  then show ?thesis using b d rest ph unfolding s'
    by (auto simp: inv_bs_def phase_ok_bs_def Let_def rows_ok_def before_play_def)
qed

lemma set_remove_at:
  assumes "distinct xs" "k < length xs" "xs ! k = a"
  shows "set (take k xs @ drop (Suc k) xs) = set xs - {a}" "distinct (take k xs @ drop (Suc k) xs)"
proof -
  have xs: "xs = take k xs @ a # drop (Suc k) xs" using assms(2,3) id_take_nth_drop by blast
  then have "distinct (take k xs @ a # drop (Suc k) xs)" using assms(1) by simp
  then show "set (take k xs @ drop (Suc k) xs) = set xs - {a}" "distinct (take k xs @ drop (Suc k) xs)"
    by (subst xs, auto)
qed

lemma left_sum_put:
  assumes "rows_ok s" "stack_at s z i = Some y" "z' \<in> {0, 1}"
  shows "sum_list (map left_in (stacks (put_stack s z i x) ! nat z')) + (if z' = z then left_in y else 0)
    = sum_list (map left_in (stacks s ! nat z')) + (if z' = z then left_in x else 0)"
proof -
  have z: "seat_two z" "0 \<le> i" "i < 8" "y = stacks s ! nat z ! nat i" using assms(1,2) stack_at_iff by blast+
  show ?thesis
  proof (cases "z' = z")
    case True
    then show ?thesis
      using z stacks_put(1) [OF assms(1) z(1), of i x] row_length [OF assms(1) z(1)]
        sum_map_update [of "nat i" "stacks s ! nat z" left_in x] by simp
  next
    case False
    then have "z' = 1 - z" using z(1) assms(3) by (auto simp: seat_two_def)
    then show ?thesis using stacks_put(2) [OF assms(1) z(1), of i x] False by simp
  qed
qed

lemma inv_turned:
  assumes I: "inv_bs s" and ph: "phase_of s = BPlay" and x: "stack_at s z i = Some x"
    and k: "last_index (\<lambda>f. f = (z, i)) (flip s) = Some k" and c: "c \<notin> set (visible s @ played_bs s)"
    and s': "s' = (put_stack s z i (x\<lparr>top := Some c, under := False\<rparr>))\<lparr>flip := take k (flip s) @ drop (Suc k) (flip s)\<rparr>"
  shows "inv_bs s'"
proof -
  let ?x = "x\<lparr>top := Some c, under := False\<rparr>" let ?s1 = "put_stack s z i ?x"
  obtain g t where R: "rows_ok s" and D: "distinct (visible s @ played_bs s)" and ct: "contract_bs s = Some g" "trick_bs s = Some t"
    and rest: "seat_two (dealer_bs s)" "declarer_bs s = 1 - dealer_bs s" "g \<in> set (games s)"
      "g = GNull \<longrightarrow> (\<forall>w \<in> set (tricks_bs s). winner w \<noteq> declarer_bs s)"
    and P: "play_ok s g t" and T: "table_bs s g (lead t)"
    using I ph by (auto simp: inv_bs_def phase_ok_bs_def split: option.splits)
  have kf: "k < length (flip s)" "flip s ! k = (z, i)" using last_index_Some [OF k] by auto
  then have mem: "(z, i) \<in> set (flip s)" by (metis nth_mem)
  then have fl: "cards t = []" "next_bs s = lead t" "set (flip s) = set (places gone (stacks s))" "distinct (flip s)"
    using P by (auto simp: play_ok_def)
  have gx: "gone x" using mem x unfolding fl(3) places_gone [OF R] by simp
  have "set (flip s') = set (places gone (stacks s'))" "distinct (flip s')"
    using set_remove_at [OF fl(4) kf] places_put [OF R x, of ?x] fl(3) by (simp_all add: s' gone_def)
  then have "play_ok s' g t" using P fl(1,2) by (simp add: play_ok_def s')
  moreover have "table_bs s' g (lead t)"
  proof -
    have "left_in ?x = left_in x" using gx by (simp add: left_in_def gone_def)
    then have "sum_list (map left_in (stacks s' ! nat z')) = sum_list (map left_in (stacks s ! nat z'))"
      if "z' \<in> {0, 1}" for z' using left_sum_put [OF R x that, of ?x] by (simp add: s' split: if_splits)
    moreover have "playedBy_bs s' = playedBy_bs s" by (simp add: s' playedBy_bs_def all_tricks_bs_def fun_eq_iff)
    ultimately show ?thesis using T by (simp add: table_bs_def) (simp add: s')
  qed
  moreover have "distinct (visible s' @ played_bs s')"
    using distinct_show [OF D c visible_put(1) [OF R x, of ?x c]] gx by (simp add: s' gone_def)
  moreover have "rows_ok s'" using rows_put [OF R, of z i ?x] by (simp add: rows_ok_def s')
  ultimately show ?thesis using ph rest ct
    by (simp add: inv_bs_def phase_ok_bs_def) (simp add: s' games_def has_bs_def)
qed

lemma inv_kontra:
  assumes I: "inv_bs s" and k: "kontraOk_bs s p t"
  shows "inv_bs (s\<lparr>kontra_bs := kontra_bs s + 1\<rparr>)"
proof -
  define s' where "s' = s\<lparr>kontra_bs := kontra_bs s + 1\<rparr>"
  obtain g tr where ph: "phase_of s = BPlay" "contract_bs s = Some g" "trick_bs s = Some tr" "kontra_bs s \<le> 1"
    using I k by (auto simp: kontraOk_bs_def inv_bs_def phase_ok_bs_def split: if_splits option.splits)
  have same: "rows_ok s' = rows_ok s" "visible s' = visible s" "played_bs s' = played_bs s" "games s' = games s"
    "table_bs s' = table_bs s" "stacks s' = stacks s" "flip s' = flip s" "next_bs s' = next_bs s" "tricks_bs s' = tricks_bs s"
    "dealer_bs s' = dealer_bs s" "declarer_bs s' = declarer_bs s" "phase_of s' = phase_of s" "contract_bs s' = contract_bs s"
    "trick_bs s' = trick_bs s" "kontra_bs s' \<le> 2"
    using ph(4) by (simp_all add: s'_def rows_ok_def visible_def tops_bs_def played_bs_def all_tricks_bs_def games_def has_bs_def
        table_bs_def playedBy_bs_def fun_eq_iff)
  show ?thesis
    unfolding s'_def [symmetric]
    using I ph(1) same by (auto simp: inv_bs_def phase_ok_bs_def play_ok_def ph(2,3))
qed

lemma inv_declared:
  assumes I: "inv_bs s" and ph: "phase_of s = BDeclare" and g: "g \<in> set (games s)"
    and s': "s' = s\<lparr>contract_bs := Some g, phase_of := BPlay, next_bs := declarer_bs s,
         trick_bs := Some \<lparr>lead = declarer_bs s, cards = []\<rparr>\<rparr>"
  shows "inv_bs s'"
proof -
  have B: "before_play s" and R: "rows_ok s" and A: "list_all (list_all (\<lambda>x. top x \<noteq> None)) (stacks s)"
    and rest: "distinct (visible s @ played_bs s)" "seat_two (dealer_bs s)" "declarer_bs s = 1 - dealer_bs s"
    using I ph by (auto simp: inv_bs_def phase_ok_bs_def)
  have R': "rows_ok s'" using R by (simp add: rows_ok_def s')
  have "\<not> gone x" if "stack_at s' z i = Some x" for z i x
    using stack_mem [OF that] A by (auto simp: gone_def list_all_iff s')
  then have "places gone (stacks s') = []"
    using places_gone [OF R'] by (metis last_in_set surj_pair)
  moreover have "sum_list (map left_in row) = 16" if "row \<in> set (stacks s)" for row
  proof -
    have "left_in x = 2" if "x \<in> set row" for x
      using that \<open>row \<in> set (stacks s)\<close> A B by (auto simp: left_in_def list_all_iff before_play_def)
    then have "map left_in row = replicate 8 2"
      using that R by (auto simp: list_eq_iff_nth_eq rows_ok_def)
    then show ?thesis by (simp add: sum_list_replicate)
  qed
  then have "\<forall>z \<in> {0, 1}. sum_list (map left_in (stacks s' ! nat z)) = 16"
    using R by (auto simp: s' rows_ok_def)
  moreover have "playedBy_bs s' z = 0" for z using B by (simp add: playedBy_bs_def all_tricks_bs_def s' before_play_def)
  moreover have "visible s' = visible s" "played_bs s' = played_bs s" "games s' = games s"
    using B by (simp_all add: s' visible_def tops_bs_def played_bs_def all_tricks_bs_def before_play_def games_def has_bs_def)
  moreover have "tricks_bs s' = []" "flip s' = []" "kontra_bs s' = 0" "declarer_bs s' = declarer_bs s" "dealer_bs s' = dealer_bs s"
    "phase_of s' = BPlay" "contract_bs s' = Some g" "trick_bs s' = Some \<lparr>lead = declarer_bs s, cards = []\<rparr>" "next_bs s' = declarer_bs s"
    using B by (simp_all add: s' before_play_def)
  moreover have "seat_two (declarer_bs s)" using rest(2,3) by (auto simp: seat_two_def)
  ultimately show ?thesis using R' rest g by (simp add: inv_bs_def phase_ok_bs_def table_bs_def play_ok_def)
qed

text \<open>A card played: one top gone, one card more on the table.\<close>

lemma play_effect:
  assumes "trick_bs s = Some tr"
    and "s' = (let cs = cards tr @ [Play p c]; w = trickWinner g cs;
              ts = tricks_bs s @ [\<lparr>lead = lead tr, cards = cs, winner = w\<rparr>] in
       if length cs < 2 then (put_stack s p k y)\<lparr>trick_bs := Some (tr\<lparr>cards := cs\<rparr>), next_bs := 1 - p\<rparr>
       else if length ts = 16 \<or> (g = GNull \<and> w = declarer_bs s)
       then (put_stack s p k y)\<lparr>tricks_bs := ts, phase_of := BDone, trick_bs := None, next_bs := -1\<rparr>
       else (put_stack s p k y)\<lparr>tricks_bs := ts, flip := places gone (stacks (put_stack s p k y)),
         trick_bs := Some \<lparr>lead = w, cards = []\<rparr>, next_bs := w\<rparr>)"
  shows "played_bs s' = played_bs s @ [c]" "playedBy_bs s' z = playedBy_bs s z + of_bool (z = p)"
    "stacks s' = stacks (put_stack s p k y)" "visible s' = visible (put_stack s p k y)" "games s' = games s"
    "dealer_bs s' = dealer_bs s" "declarer_bs s' = declarer_bs s" "contract_bs s' = contract_bs s" "kontra_bs s' = kontra_bs s"
    "rows_ok s' = rows_ok (put_stack s p k y)" "phase_of s' = phase_of s \<or> phase_of s' = BDone"
  using assms
  by (auto simp: Let_def played_bs_def playedBy_bs_def all_tricks_bs_def visible_def tops_bs_def games_def has_bs_def rows_ok_def)

lemma played_stack:
  assumes "rows_ok s" "seat_two p" "last_index (\<lambda>x. top x = Some c) (stacks s ! nat p) = Some k"
  shows "stack_at s p (int k) = Some (stacks s ! nat p ! k)" "top (stacks s ! nat p ! k) = Some c"
proof -
  have "k < 8" "top (stacks s ! nat p ! k) = Some c"
    using last_index_Some [OF assms(3)] row_length [OF assms(1,2)] by auto
  then show "stack_at s p (int k) = Some (stacks s ! nat p ! k)" "top (stacks s ! nat p ! k) = Some c"
    using stack_at_iff [OF assms(1)] assms(2) by simp_all
qed

lemma winner_two:
  "seat_two l \<Longrightarrow> cs = [Play l c, Play (1 - l) d] \<Longrightarrow> seat_two (trickWinner g cs)"
  using trickWinner_in [of cs g] by (auto simp: seat_two_def)

lemma table_play:
  assumes R: "rows_ok s" and T: "table_bs s g l" and y: "stack_at s p k = Some y" "top y = Some c"
    and e: "stacks s' = stacks (put_stack s p k (y\<lparr>top := None\<rparr>))" "\<And>z. playedBy_bs s' z = playedBy_bs s z + of_bool (z = p)"
  shows "\<forall>z \<in> {0, 1}. sum_list (map left_in (stacks s' ! nat z)) + playedBy_bs s' z = 16"
proof
  fix z :: int assume z: "z \<in> {0, 1}"
  have "left_in y = left_in (y\<lparr>top := None\<rparr>) + 1" using y(2) by (simp add: left_in_def)
  moreover have "sum_list (map left_in (stacks s ! nat z)) + playedBy_bs s z = 16" using T z unfolding table_bs_def by blast
  ultimately show "sum_list (map left_in (stacks s' ! nat z)) + playedBy_bs s' z = 16"
    using left_sum_put [OF R y(1) z, of "y\<lparr>top := None\<rparr>"] e(1) e(2) [of z] by (simp split: if_splits)
qed

lemma inv_play:
  assumes I: "inv_bs s" and ph: "phase_of s = BPlay" and ok: "play_bs s (next_bs s) a = Inr s'"
  shows "inv_bs s'"
proof -
  let ?p = "next_bs s"
  from ok obtain g c k tr s1 where gt: "contract_bs s = Some g" "trick_bs s = Some tr" "flip s = []"
    and k: "last_index (\<lambda>x. top x = Some c) (stacks s ! nat ?p) = Some k"
    and s1: "s1 = put_stack s ?p (int k) ((stacks s ! nat ?p ! k)\<lparr>top := None\<rparr>)"
    and s': "s' = (let cs = cards tr @ [Play ?p c]; w = trickWinner g cs;
              ts = tricks_bs s @ [\<lparr>lead = lead tr, cards = cs, winner = w\<rparr>] in
       if length cs < 2 then s1\<lparr>trick_bs := Some (tr\<lparr>cards := cs\<rparr>), next_bs := 1 - ?p\<rparr>
       else if length ts = 16 \<or> (g = GNull \<and> w = declarer_bs s)
       then s1\<lparr>tricks_bs := ts, phase_of := BDone, trick_bs := None, next_bs := -1\<rparr>
       else s1\<lparr>tricks_bs := ts, flip := places gone (stacks s1), trick_bs := Some \<lparr>lead = w, cards = []\<rparr>, next_bs := w\<rparr>)"
    by (rule play_bs_cases)
  have R: "rows_ok s" and D: "distinct (visible s @ played_bs s)" and P: "play_ok s g tr" and T: "table_bs s g (lead tr)"
    and rest: "seat_two (dealer_bs s)" "declarer_bs s = 1 - dealer_bs s" "g \<in> set (games s)"
      "g = GNull \<longrightarrow> (\<forall>w \<in> set (tricks_bs s). winner w \<noteq> declarer_bs s)"
    using I ph gt by (auto simp: inv_bs_def phase_ok_bs_def)
  have p: "seat_two ?p" and l: "seat_two (lead tr)" using P by (auto simp: play_ok_def seat_two_def)
  note y = played_stack [OF R p k]
  note e = play_effect [OF gt(2) s' [unfolded s1]]
  note sums = table_play [OF R T y e(3) e(2)]
  have R': "rows_ok s'" unfolding e(10) by (rule rows_put [OF R])
  have D': "distinct (visible s' @ played_bs s')"
    unfolding e(1) e(4) by (rule distinct_move [OF D visible_put(2) [OF R y]]) simp_all
  have frame: "inv_bs s' = phase_ok_bs s'" using R' D' rest e(6,7) by (simp add: inv_bs_def)
  show ?thesis
  proof (cases "cards tr")
    case Nil
    then have s'': "s' = s1\<lparr>trick_bs := Some (tr\<lparr>cards := [Play ?p c]\<rparr>), next_bs := 1 - ?p\<rparr>" and lead: "?p = lead tr"
      using s' P by (auto simp: Let_def play_ok_def)
    have "places gone (stacks s) = []" using P Nil gt(3) by (simp add: play_ok_def)
    then have "\<not> gone x" if "x \<in> set (stacks s ! nat (1 - lead tr))" for x
    proof -
      have q: "seat_two (1 - lead tr)" using l by (auto simp: seat_two_def)
      from that obtain j where "j < 8" "x = stacks s ! nat (1 - lead tr) ! j"
        using row_length [OF R q] by (auto simp: in_set_conv_nth)
      then have "stack_at s (1 - lead tr) (int j) = Some x" using stack_at_iff [OF R] q by simp
      then show ?thesis using places_gone [OF R, of "1 - lead tr" "int j"] \<open>places gone (stacks s) = []\<close> by auto
    qed
    then have "list_all (\<lambda>x. \<not> gone x) (stacks s' ! nat (1 - lead tr))"
      using stacks_put(2) [OF R p, of "int k" "(stacks s ! nat ?p ! k)\<lparr>top := None\<rparr>"] e(3) lead by (simp add: list_all_iff)
    then have "play_ok s' g (tr\<lparr>cards := [Play ?p c]\<rparr>)"
      using P lead gt(3) by (simp add: play_ok_def) (simp add: s'' s1)
    moreover have "table_bs s' g (lead tr)" using T sums by (simp add: table_bs_def) (simp add: s'' s1)
    ultimately show ?thesis unfolding frame
      using rest ph e(5) gt by (simp add: phase_ok_bs_def) (simp add: s'' s1)
  next
    case (Cons b bs)
    then obtain b where b: "cards tr = [Play (lead tr) b]" "?p = 1 - lead tr" using P by (auto simp: play_ok_def)
    let ?cs = "[Play (lead tr) b, Play ?p c]" let ?w = "trickWinner g ?cs"
    let ?t = "\<lparr>lead = lead tr, cards = ?cs, winner = ?w\<rparr>"
    have w: "seat_two ?w" using winner_two [OF l, of ?cs b c g] b(2) by simp
    have shp: "shape_bs g ?t" using l b by (simp add: shape_bs_def)
    have "tricks_bs s' = tricks_bs s @ [?t]" using s' b by (simp add: Let_def)
    then have T': "table_bs s' g ?w"
      using T shp sums e(7) by (auto simp: table_bs_def chain_snoc)
    show ?thesis
    proof (cases "length (tricks_bs s) = 15 \<or> (g = GNull \<and> ?w = declarer_bs s)")
      case True
      then have s'': "s' = s1\<lparr>tricks_bs := tricks_bs s @ [?t], phase_of := BDone, trick_bs := None, next_bs := -1\<rparr>"
        using s' b by (auto simp: Let_def)
      have "kontra_bs s \<le> 2" "length (tricks_bs s) < 16" using P by (auto simp: play_ok_def)
      then show ?thesis unfolding frame
        using True T' rest(3) gt e(5) by (auto simp: phase_ok_bs_def s'' s1)
    next
      case False
      then have s'': "s' = s1\<lparr>tricks_bs := tricks_bs s @ [?t], flip := places gone (stacks s1),
          trick_bs := Some \<lparr>lead = ?w, cards = []\<rparr>, next_bs := ?w\<rparr>"
        using s' b by (auto simp: Let_def)
      have "play_ok s' g \<lparr>lead = ?w, cards = []\<rparr>"
        using P w False places_distinct by (auto simp: play_ok_def s'' s1)
      then show ?thesis unfolding frame
        using False T' rest ph gt e(5) by (auto simp: phase_ok_bs_def s'' s1)
    qed
  qed
qed

lemma inv_step_bs: "inv_bs s \<Longrightarrow> apply_bs s a = Inr s' \<Longrightarrow> inv_bs s'"
  by (erule apply_bs_cases) (blast intro: inv_deal inv_turned inv_declared inv_play inv_kontra | simp add: inv_kontra)+

section \<open>Every hand ends\<close>

lemma budget_kontra_bs:
  assumes I: "inv_bs s" and k: "kontraOk_bs s p t"
  shows "left_bs (s\<lparr>kontra_bs := kontra_bs s + 1\<rparr>) < left_bs s"
  using k by (auto simp: left_bs_def kontraOk_bs_def split: if_splits)

lemma work_le: "ph \<noteq> BDeal \<Longrightarrow> work ph x \<le> work ph' x"
  by (simp add: work_def)

lemma sum_rows_mono:
  "(\<And>x. f x \<le> g x) \<Longrightarrow> sum_list (map (\<lambda>row. sum_list (map f row)) st) \<le> sum_list (map (\<lambda>row. sum_list (map g row)) st :: nat list)"
  by (intro sum_list_mono) auto

lemma budget_play_bs:
  assumes I: "inv_bs s" and ph: "phase_of s = BPlay" and ok: "play_bs s (next_bs s) a = Inr s'"
  shows "left_bs s' < left_bs s"
proof -
  let ?p = "next_bs s"
  from ok obtain g c k tr s1 where gt: "contract_bs s = Some g" "trick_bs s = Some tr"
    and k: "last_index (\<lambda>x. top x = Some c) (stacks s ! nat ?p) = Some k"
    and s1: "s1 = put_stack s ?p (int k) ((stacks s ! nat ?p ! k)\<lparr>top := None\<rparr>)"
    and s': "s' = (let cs = cards tr @ [Play ?p c]; w = trickWinner g cs;
              ts = tricks_bs s @ [\<lparr>lead = lead tr, cards = cs, winner = w\<rparr>] in
       if length cs < 2 then s1\<lparr>trick_bs := Some (tr\<lparr>cards := cs\<rparr>), next_bs := 1 - ?p\<rparr>
       else if length ts = 16 \<or> (g = GNull \<and> w = declarer_bs s)
       then s1\<lparr>tricks_bs := ts, phase_of := BDone, trick_bs := None, next_bs := -1\<rparr>
       else s1\<lparr>tricks_bs := ts, flip := places gone (stacks s1), trick_bs := Some \<lparr>lead = w, cards = []\<rparr>, next_bs := w\<rparr>)"
    by (rule play_bs_cases)
  have R: "rows_ok s" and p: "seat_two ?p"
    using I ph gt by (auto simp: inv_bs_def phase_ok_bs_def play_ok_def seat_two_def)
  note y = played_stack [OF R p k]
  note e = play_effect [OF gt(2) s' [unfolded s1]]
  let ?y = "stacks s ! nat ?p ! k"
  have same: "work (phase_of s') = work BPlay" using e(11) ph by (auto simp: work_def fun_eq_iff)
  have "work BPlay (?y\<lparr>top := None\<rparr>) < work BPlay ?y" using y(2) by (simp add: work_def)
  then have "sum_list (map (\<lambda>row. sum_list (map (work (phase_of s')) row)) (stacks s'))
      < sum_list (map (\<lambda>row. sum_list (map (work BPlay) row)) (stacks s))"
    using sum_rows_put [OF R y(1), of "work BPlay" "?y\<lparr>top := None\<rparr>"] unfolding same e(3) by simp
  then show ?thesis using e(9,11) ph by (auto simp: left_bs_def)
qed

lemma budget_step_bs:
  assumes I: "inv_bs s" and ok: "apply_bs s a = Inr s'"
  shows "left_bs s' < left_bs s"
  using ok
proof (cases rule: apply_bs_cases)
  case (deal z i x c)
  have R: "rows_ok s" using I by (simp add: inv_bs_def)
  let ?x = "x\<lparr>top := Some c\<rparr>" let ?s1 = "put_stack s z i ?x"
  have "\<forall>row \<in> set (stacks s). \<forall>y \<in> set row. under y"
    using I deal(1) by (simp add: inv_bs_def phase_ok_bs_def before_play_def)
  then have "work BDeal ?x < work BDeal x" using deal(4) stack_mem [OF deal(3)] by (auto simp: work_def)
  then have "sum_list (map (\<lambda>row. sum_list (map (work BDeal) row)) (stacks ?s1))
      < sum_list (map (\<lambda>row. sum_list (map (work BDeal) row)) (stacks s))"
    using sum_rows_put [OF R deal(3), of "work BDeal" ?x] by simp
  then have less: "left_bs ?s1 < left_bs s" using deal(1) by (simp add: left_bs_def)
  moreover have "left_bs (?s1\<lparr>phase_of := BDeclare\<rparr>) \<le> left_bs ?s1"
    using sum_rows_mono [of "work BDeclare" "work BDeal" "stacks ?s1"] work_le [of BDeclare _ BDeal] deal(1)
    by (simp add: left_bs_def)
  ultimately show ?thesis using deal(10) by (simp add: Let_def split: if_splits)
next
  case (turned z i x c k)
  obtain g t where R: "rows_ok s" and P: "play_ok s g t"
    using I turned(1) by (auto simp: inv_bs_def phase_ok_bs_def split: option.splits)
  have "(z, i) \<in> set (flip s)" using last_index_Some [OF turned(4)] by (metis nth_mem)
  then have "gone x" using P turned(3) places_gone [OF R, of z i] by (auto simp: play_ok_def)
  then have "work BPlay (x\<lparr>top := Some c, under := False\<rparr>) < work BPlay x" by (simp add: work_def gone_def)
  then show ?thesis
    using turned(1,10) sum_rows_put [OF R turned(3), of "work BPlay" "x\<lparr>top := Some c, under := False\<rparr>"]
    by (simp add: left_bs_def)
next
  case (kontra seat t)
  then show ?thesis using budget_kontra_bs [OF I] by simp
next
  case (declared g)
  have "work BPlay = work BDeclare" by (simp add: work_def fun_eq_iff)
  then show ?thesis using declared by (simp add: left_bs_def)
next
  case play
  then show ?thesis using budget_play_bs [OF I] by simp
qed

lemma budget_start_bs: "left_bs (start_bs d r) \<le> 68"
  by (simp add: left_bs_def start_bs_def Let_def SEATS_bs_def STACKS_def work_def numeral_2_eq_2 sum_list_replicate)

lemma done_refuses_bs: "done_bs s \<Longrightarrow> apply_bs s a \<noteq> Inr s'"
  by (simp add: done_bs_def apply_bs_def split: option.splits)

interpretation bauernskat: rule_engine "\<lambda>s. \<exists>d r. s = start_bs d r" apply_bs done_bs inv_bs left_bs 68
  by unfold_locales (auto intro: inv_start_bs inv_step_bs budget_step_bs budget_start_bs simp: done_refuses_bs)

end
