(* ===== verification/Bauernskat_Audit.thy ===== *)
theory Bauernskat_Audit
  imports Bauernskat_Correct
begin

text \<open>
  Bauernskat hands in which the cards turned up are the cards dealt. Every card a seat may play
  lies open, so the rules check everything as it is played: the audit of such a hand finds
  nothing, whatever the seats try; and the automatic player, with the cards turned up as they
  become due, always brings the hand to its end.
\<close>

section \<open>The deal\<close>

definition deal_ok_bs :: "full_bs \<Rightarrow> bool" where
  "deal_ok_bs f \<longleftrightarrow> length (fstacks f) = 2 \<and> (\<forall>row \<in> set (fstacks f). length row = 8)
     \<and> (fhands f = None \<or> fhands f = Some [[], []])
     \<and> distinct (map fst (concat (fstacks f)) @ map snd (concat (fstacks f)))"

definition dealt :: "full_bs \<Rightarrow> int \<Rightarrow> int \<Rightarrow> card \<times> card" where
  "dealt f z i = fstacks f ! nat z ! nat i"

inductive honest_bs :: "full_bs \<Rightarrow> state_bs \<Rightarrow> bool" for f :: full_bs where
  deal_start: "honest_bs f (start_bs d r)"
| deal_step: "honest_bs f s \<Longrightarrow> apply_bs s a = Inr s' \<Longrightarrow>
    (\<And>z i. t_bs a = ATurn \<Longrightarrow> seat_bs a = Some z \<Longrightarrow> i_bs a = Some i \<Longrightarrow>
       card_bs a = Some (if phase_of s = BDeal then fst (dealt f z i) else snd (dealt f z i))) \<Longrightarrow> honest_bs f s'"

lemma honest_reachable_bs: "honest_bs f s \<Longrightarrow> reachable (\<lambda>s. \<exists>d r. s = start_bs d r) apply_bs s"
  by (induction rule: honest_bs.induct) (auto intro: reachable.intros)

lemma deal_rows:
  assumes "deal_ok_bs f"
  obtains f0 f1 where "fstacks f = [f0, f1]" "length f0 = 8" "length f1 = 8"
    "distinct (map fst (f0 @ f1) @ map snd (f0 @ f1))"
proof -
  obtain f0 f1 where f: "fstacks f = [f0, f1]"
    using assms by (auto simp: deal_ok_bs_def length_Suc_conv numeral_2_eq_2)
  moreover have "concat (fstacks f) = f0 @ f1" using f by simp
  moreover have "distinct (map fst (concat (fstacks f)) @ map snd (concat (fstacks f)))"
    using assms unfolding deal_ok_bs_def by blast
  ultimately show thesis using assms that [of f0 f1] by (auto simp: deal_ok_bs_def simp del: distinct_append)
qed

text \<open>Different places hold different cards.\<close>

lemma dealt_index:
  assumes "fstacks f = [f0, f1]" "length f0 = 8" "length f1 = 8" "seat_two z" "0 \<le> i" "i < 8"
  shows "dealt f z i = (f0 @ f1) ! (8 * nat z + nat i)" "8 * nat z + nat i < length (f0 @ f1)"
  using assms by (auto simp: dealt_def seat_two_def nth_append)

lemma dealt_inj:
  assumes d: "deal_ok_bs f" and a: "seat_two z" "0 \<le> i" "i < 8" and b: "seat_two z'" "0 \<le> i'" "i' < 8"
  shows "fst (dealt f z i) = fst (dealt f z' i') \<Longrightarrow> z = z' \<and> i = i'"
    and "snd (dealt f z i) = snd (dealt f z' i') \<Longrightarrow> z = z' \<and> i = i'"
    and "fst (dealt f z i) \<noteq> snd (dealt f z' i')"
proof -
  obtain f0 f1 where f: "fstacks f = [f0, f1]" "length f0 = 8" "length f1 = 8"
    and ds: "distinct (map fst (f0 @ f1) @ map snd (f0 @ f1))" by (rule deal_rows [OF d])
  let ?k = "8 * nat z + nat i" and ?k' = "8 * nat z' + nat i'"
  note k = dealt_index [OF f a] and k' = dealt_index [OF f b]
  have eq: "z = z' \<and> i = i'" if "?k = ?k'" using that a b by (auto simp: seat_two_def)
  have d1: "distinct (map fst (f0 @ f1))" "distinct (map snd (f0 @ f1))"
    "set (map fst (f0 @ f1)) \<inter> set (map snd (f0 @ f1)) = {}"
    using ds unfolding distinct_append by blast+
  show "z = z' \<and> i = i'" if "fst (dealt f z i) = fst (dealt f z' i')"
    using that k k' d1(1) eq by (metis length_map nth_eq_iff_index_eq nth_map)
  show "z = z' \<and> i = i'" if "snd (dealt f z i) = snd (dealt f z' i')"
    using that k k' d1(2) eq by (metis length_map nth_eq_iff_index_eq nth_map)
  have "fst (dealt f z i) \<in> set (map fst (f0 @ f1))" "snd (dealt f z' i') \<in> set (map snd (f0 @ f1))"
    using k k' by (metis image_eqI nth_mem set_map)+
  then show "fst (dealt f z i) \<noteq> snd (dealt f z' i')" using d1(3) by (metis IntI empty_iff)
qed

section \<open>Only dealt cards are seen\<close>

definition shown :: "full_bs \<Rightarrow> state_bs \<Rightarrow> card set" where
  "shown f s = {c. \<exists>z i x. stack_at s z i = Some x \<and>
     (c = fst (dealt f z i) \<and> \<not> (phase_of s = BDeal \<and> top x = None) \<or> c = snd (dealt f z i) \<and> \<not> under x)}"

definition tops_ok :: "full_bs \<Rightarrow> state_bs \<Rightarrow> bool" where
  "tops_ok f s \<longleftrightarrow> (\<forall>z i x c. stack_at s z i = Some x \<longrightarrow> top x = Some c \<longrightarrow>
     c = (if under x then fst (dealt f z i) else snd (dealt f z i)))"

definition cards_ok :: "full_bs \<Rightarrow> state_bs \<Rightarrow> bool" where
  "cards_ok f s \<longleftrightarrow> tops_ok f s \<and> set (visible s @ played_bs s) \<subseteq> shown f s"

lemma shown_frame: "stacks s' = stacks s \<Longrightarrow> phase_of s \<noteq> BDeal \<Longrightarrow> phase_of s' \<noteq> BDeal \<Longrightarrow>
    shown f s' = shown f s \<and> tops_ok f s' = tops_ok f s"
  by (simp add: shown_def tops_ok_def stack_at_def)

lemma tops_ok_put:
  assumes "rows_ok s" "stack_at s z i = Some y" "tops_ok f s"
    and "\<And>c. top x = Some c \<Longrightarrow> c = (if under x then fst (dealt f z i) else snd (dealt f z i))"
  shows "tops_ok f (put_stack s z i x)"
  using assms(3,4) unfolding tops_ok_def stack_at_put [OF assms(1,2)] by (auto split: if_splits)

lemma shown_put:
  assumes "rows_ok s" "stack_at s z i = Some y"
    and "under x \<longrightarrow> under y" "phase_of s = BDeal \<longrightarrow> top y \<noteq> None \<longrightarrow> top x \<noteq> None"
  shows "shown f s \<subseteq> shown f (put_stack s z i x)"
proof
  fix c assume "c \<in> shown f s"
  then obtain z' i' w where w: "stack_at s z' i' = Some w"
    "c = fst (dealt f z' i') \<and> \<not> (phase_of s = BDeal \<and> top w = None) \<or> c = snd (dealt f z' i') \<and> \<not> under w"
    unfolding shown_def by blast
  define w' where "w' = (if (z', i') = (z, i) then x else w)"
  have "stack_at (put_stack s z i x) z' i' = Some w'"
    using w(1) stack_at_put [OF assms(1,2), of x z' i'] by (simp add: w'_def)
  moreover have "c = fst (dealt f z' i') \<and> \<not> (phase_of s = BDeal \<and> top w' = None) \<or> c = snd (dealt f z' i') \<and> \<not> under w'"
    using w assms(2-4) by (auto simp: w'_def split: if_splits)
  ultimately show "c \<in> shown f (put_stack s z i x)" unfolding shown_def by auto
qed

lemma shown_phase: "ph \<noteq> BDeal \<Longrightarrow> shown f s \<subseteq> shown f (s\<lparr>phase_of := ph\<rparr>)"
  unfolding shown_def by (auto simp: stack_at_def)

lemma top_shown:
  assumes "rows_ok s" "stack_at s z i = Some x" "phase_of s = BDeal \<longrightarrow> top x \<noteq> None"
  shows "fst (dealt f z i) \<in> shown f s" "\<not> under x \<Longrightarrow> snd (dealt f z i) \<in> shown f s"
proof -
  show "fst (dealt f z i) \<in> shown f s"
    unfolding shown_def using assms(2,3) by (intro CollectI exI [of _ z] exI [of _ i] exI [of _ x]) auto
  show "snd (dealt f z i) \<in> shown f s" if "\<not> under x"
    unfolding shown_def using assms(2) that by (intro CollectI exI [of _ z] exI [of _ i] exI [of _ x]) auto
qed

lemma cards_step:
  assumes I: "inv_bs s" and C: "cards_ok f s" and ok: "apply_bs s a = Inr s'"
    and h: "\<And>z i. t_bs a = ATurn \<Longrightarrow> seat_bs a = Some z \<Longrightarrow> i_bs a = Some i \<Longrightarrow>
       card_bs a = Some (if phase_of s = BDeal then fst (dealt f z i) else snd (dealt f z i))"
  shows "cards_ok f s'"
proof -
  have R: "rows_ok s" and T: "tops_ok f s" and S: "set (visible s) \<union> set (played_bs s) \<subseteq> shown f s"
    using I C by (auto simp: inv_bs_def cards_ok_def)
  from ok show ?thesis
  proof (cases rule: apply_bs_cases)
    case (deal z i x c)
    let ?x = "x\<lparr>top := Some c\<rparr>" let ?s1 = "put_stack s z i ?x"
    have c: "c = fst (dealt f z i)" using h [of z i] deal by simp
    have u: "under x" using I deal(1) stack_mem [OF deal(3)] by (auto simp: inv_bs_def phase_ok_bs_def before_play_def)
    have t: "tops_ok f ?s1" by (rule tops_ok_put [OF R deal(3) T]) (use c u in auto)
    have "shown f s \<subseteq> shown f ?s1" by (rule shown_put [OF R deal(3)]) simp_all
    moreover have "c \<in> shown f ?s1"
      using top_shown(1) [OF rows_put [OF R], of z i ?x z i ?x f] c by (simp add: stack_at_put [OF R deal(3)])
    moreover have "set (visible ?s1) = insert c (set (visible s))"
      using visible_put(1) [OF R deal(3,4), of ?x c] by (metis set_mset_add_mset_insert set_mset_mset stack.select_convs(1) stack.surjective stack.update_convs(1))
    ultimately have "set (visible ?s1) \<union> set (played_bs ?s1) \<subseteq> shown f ?s1" using S by auto
    then show ?thesis using t deal(10) shown_phase [of BDeclare f ?s1]
      by (auto simp: cards_ok_def Let_def tops_ok_def stack_at_def split: if_splits)
  next
    case (turned z i x c k)
    let ?x = "x\<lparr>top := Some c, under := False\<rparr>" let ?s1 = "put_stack s z i ?x"
    have c: "c = snd (dealt f z i)" using h [of z i] turned by simp
    obtain g t where P: "play_ok s g t" using I turned(1) by (auto simp: inv_bs_def phase_ok_bs_def split: option.splits)
    have "(z, i) \<in> set (flip s)" using last_index_Some [OF turned(4)] by (metis nth_mem)
    then have g: "top x = None" using P turned(3) places_gone [OF R, of z i] by (auto simp: play_ok_def gone_def)
    have t: "tops_ok f ?s1" by (rule tops_ok_put [OF R turned(3) T]) (use c in auto)
    have "shown f s \<subseteq> shown f ?s1" by (rule shown_put [OF R turned(3)]) simp_all
    moreover have "c \<in> shown f ?s1"
      using top_shown(2) [OF rows_put [OF R], of z i ?x z i ?x f] c by (simp add: stack_at_put [OF R turned(3)])
    moreover have "set (visible ?s1) = insert c (set (visible s))"
      using visible_put(1) [OF R turned(3) g, of ?x c] by (metis set_mset_add_mset_insert set_mset_mset stack.select_convs(1) stack.surjective stack.update_convs(1,2))
    ultimately have "set (visible ?s1) \<union> set (played_bs ?s1) \<subseteq> shown f ?s1" using S by auto
    moreover have "shown f s' = shown f ?s1 \<and> tops_ok f s' = tops_ok f ?s1"
      using turned by (intro shown_frame) simp_all
    ultimately show ?thesis using t turned(10) by (simp add: cards_ok_def)
  next
    case (kontra seat t)
    then have "phase_of s = BPlay" by (auto simp: kontraOk_bs_def split: if_splits)
    then have "shown f s' = shown f s \<and> tops_ok f s' = tops_ok f s" using kontra by (intro shown_frame) simp_all
    then show ?thesis using C kontra(4)
      by (simp add: cards_ok_def visible_def tops_bs_def played_bs_def all_tricks_bs_def)
  next
    case (declared g)
    then have "shown f s' = shown f s \<and> tops_ok f s' = tops_ok f s" by (intro shown_frame) simp_all
    moreover have "tricks_bs s = []" "trick_bs s = None"
      using I declared(1) by (auto simp: inv_bs_def phase_ok_bs_def before_play_def)
    ultimately show ?thesis using C declared(5)
      by (simp add: cards_ok_def visible_def tops_bs_def played_bs_def all_tricks_bs_def)
  next
    case play
    let ?p = "next_bs s"
    from play(5) obtain g c k tr s1 where gt: "contract_bs s = Some g" "trick_bs s = Some tr"
      and k: "last_index (\<lambda>x. top x = Some c) (stacks s ! nat ?p) = Some k"
      and s1: "s1 = put_stack s ?p (int k) ((stacks s ! nat ?p ! k)\<lparr>top := None\<rparr>)"
      and s': "s' = (let cs = cards tr @ [Play ?p c]; w = trickWinner g cs;
              ts = tricks_bs s @ [\<lparr>lead = lead tr, cards = cs, winner = w\<rparr>] in
       if length cs < 2 then s1\<lparr>trick_bs := Some (tr\<lparr>cards := cs\<rparr>), next_bs := 1 - ?p\<rparr>
       else if length ts = 16 \<or> (g = GNull \<and> w = declarer_bs s)
       then s1\<lparr>tricks_bs := ts, phase_of := BDone, trick_bs := None, next_bs := -1\<rparr>
       else s1\<lparr>tricks_bs := ts, flip := places gone (stacks s1), trick_bs := Some \<lparr>lead = w, cards = []\<rparr>, next_bs := w\<rparr>)"
      by (rule play_bs_cases)
    note y = played_stack [OF R play(2) k]
    note e = play_effect [OF gt(2) s' [unfolded s1]]
    have "shown f s \<subseteq> shown f s1" unfolding s1 by (rule shown_put [OF R y(1)]) (simp_all add: play(1))
    moreover have "tops_ok f s1" unfolding s1 by (rule tops_ok_put [OF R y(1) T]) simp
    moreover have "shown f s' = shown f s1 \<and> tops_ok f s' = tops_ok f s1"
      using e(3,11) play(1) by (intro shown_frame) (auto simp: s1)
    moreover have "set (visible s) = insert c (set (visible s1))"
      unfolding s1 using visible_put(2) [OF R y, of "(stacks s ! nat ?p ! k)\<lparr>top := None\<rparr>"]
      by (metis set_mset_add_mset_insert set_mset_mset stack.select_convs(1) stack.surjective stack.update_convs(1))
    ultimately show ?thesis using S e(1,4) by (auto simp: cards_ok_def s1)
  qed
qed

section \<open>The replay of the audit follows the hand\<close>

text \<open>
  The pile of the replay that stands for a stack: after a full trick (\<open>full\<close>) the replay has
  already turned up what the table still has to turn up.
\<close>

definition pile_of :: "bool \<Rightarrow> stack \<Rightarrow> card \<times> card \<Rightarrow> pile" where
  "pile_of b x p = (if b \<and> gone x then \<lparr>top = Some (snd p), under = False, down = snd p\<rparr>
     else \<lparr>top = top x, under = under x, down = snd p\<rparr>)"

definition piles :: "full_bs \<Rightarrow> state_bs \<Rightarrow> bool \<Rightarrow> pile list list" where
  "piles f s b = map2 (\<lambda>row frow. map2 (pile_of b) row frow) (stacks s) (fstacks f)"

definition new_piles :: "full_bs \<Rightarrow> pile list list" where
  "new_piles f = map (map (\<lambda>(u, d). \<lparr>top = Some u, under = True, down = d\<rparr>)) (fstacks f)"

definition seen_tricks :: "state_bs \<Rightarrow> play list list" where
  "seen_tricks s = map cards (tricks_bs s) @ (if on_table s = [] then [] else [on_table s])"

definition replay_ok :: "full_bs \<Rightarrow> state_bs \<Rightarrow> bool" where
  "replay_ok f s \<longleftrightarrow> (case contract_bs s of None \<Rightarrow> True | Some g \<Rightarrow>
     replay g (new_piles f, []) (seen_tricks s) = Some (piles f s (on_table s = []), []))"

lemma replay_append:
  "replay g st (ts @ us) = (case replay g st ts of None \<Rightarrow> None | Some st' \<Rightarrow> replay g st' us)"
  by (induction ts arbitrary: st) (auto split: option.splits)

lemma replay_trick_snoc:
  "replay_trick g st pre (xs @ [x]) =
     (case replay_trick g st pre xs of None \<Rightarrow> None | Some st' \<Rightarrow> replay_card g st' (pre @ xs) x)"
  by (induction xs arbitrary: st pre) (auto split: option.splits)

lemma pile_tops: "length row = length frow \<Longrightarrow> List.map_filter top (map2 (pile_of False) row frow) = row_tops row"
  by (induction row frow rule: list_induct2) (auto simp: map_filter_def pile_of_def split: option.splits)

lemma row_tops_other:
  assumes "distinct (row_tops row)" "k < length row" "top (row ! k) = Some c" "j < length row" "top (row ! j) = Some c"
  shows "j = k"
proof (rule ccontr)
  assume "j \<noteq> k"
  let ?r = "row[k := (row ! k)\<lparr>top := None\<rparr>]"
  have "mset (row_tops row) = add_mset c (mset (row_tops ?r))" using row_tops_take [OF assms(2,3)] by simp
  then have "c \<notin> set (row_tops ?r)" using assms(1) by (metis distinct.simps(2) mset.simps(2) mset_eq_imp_distinct_iff)
  moreover have "?r ! j \<in> set ?r" by (rule nth_mem) (simp add: assms(4))
  moreover have "top (?r ! j) = Some c" using assms(5) \<open>j \<noteq> k\<close> by simp
  ultimately show False unfolding row_tops_set by blast
qed

lemma pile_row_play:
  assumes "distinct (row_tops row)" "k < length row" "top (row ! k) = Some c" "length row = length frow"
  shows "map (\<lambda>r. if top r = Some c then r\<lparr>top := None\<rparr> else r) (map2 (pile_of False) row frow)
     = map2 (pile_of False) (row[k := (row ! k)\<lparr>top := None\<rparr>]) frow"
proof (rule nth_equalityI)
  fix j assume "j < length (map (\<lambda>r. if top r = Some c then r\<lparr>top := None\<rparr> else r) (map2 (pile_of False) row frow))"
  then have j: "j < length row" using assms(4) by simp
  show "map (\<lambda>r. if top r = Some c then r\<lparr>top := None\<rparr> else r) (map2 (pile_of False) row frow) ! j
     = map2 (pile_of False) (row[k := (row ! k)\<lparr>top := None\<rparr>]) frow ! j"
  proof (cases "j = k")
    case True
    then show ?thesis using j assms(3,4) by (simp add: pile_of_def)
  next
    case False
    then have "top (row ! j) \<noteq> Some c" using row_tops_other [OF assms(1-3) j] by blast
    then show ?thesis using False j assms(4) by (simp add: pile_of_def)
  qed
qed (use assms in simp)

lemma piles_no_gone:
  assumes "rows_ok s" "deal_ok_bs f" "places gone (stacks s) = []"
  shows "piles f s True = piles f s False"
proof -
  obtain r0 r1 where r: "stacks s = [r0, r1]" "length r0 = 8" "length r1 = 8" by (rule rows_two [OF assms(1)])
  have "\<not> gone x" if x: "x \<in> set r0 \<union> set r1" for x
  proof
    assume "gone x"
    obtain z j where "x = stacks s ! nat z ! j" "seat_two z" "j < 8"
    proof (cases "x \<in> set r0")
      case True
      then obtain j where "j < 8" "x = r0 ! j" using r(2) by (auto simp: in_set_conv_nth)
      then show thesis using that [of 0 j] r(1) by (simp add: seat_two_def)
    next
      case False
      then obtain j where "j < 8" "x = r1 ! j" using r(3) x by (auto simp: in_set_conv_nth)
      then show thesis using that [of 1 j] r(1) by (simp add: seat_two_def)
    qed
    then have "stack_at s z (int j) = Some x" using stack_at_iff [OF assms(1)] by simp
    then show False using places_gone [OF assms(1), of z "int j"] assms(3) \<open>gone x\<close> by auto
  qed
  then have "map2 (pile_of True) row frow = map2 (pile_of False) row frow" if "set row \<subseteq> set r0 \<union> set r1" for row frow
    using that by (intro map_cong refl) (auto simp: pile_of_def dest!: set_zip_leftD)
  note eq = this
  obtain f0 f1 where f: "fstacks f = [f0, f1]" by (rule deal_rows [OF assms(2)])
  show ?thesis
    unfolding piles_def r(1) f zip_Cons_Cons list.map prod.case using eq [of r0 f0] eq [of r1 f1] by simp
qed

text \<open>One card of the replay.\<close>

lemma replay_play:
  assumes R: "rows_ok s" and d: "deal_ok_bs f" and D: "distinct (visible s)" and p: "seat_two p"
    and k: "last_index (\<lambda>x. top x = Some c) (stacks s ! nat p) = Some k"
    and m: "mayPlay_bs g (tops_bs s p) c pre"
  shows "replay_card g (piles f s False, []) pre (Play p c)
     = Some (piles f (put_stack s p (int k) ((stacks s ! nat p ! k)\<lparr>top := None\<rparr>)) False, [])"
proof -
  obtain r0 r1 where r: "stacks s = [r0, r1]" "length r0 = 8" "length r1 = 8" by (rule rows_two [OF R])
  obtain f0 f1 where f: "fstacks f = [f0, f1]" "length f0 = 8" "length f1 = 8" by (rule deal_rows [OF d])
  have dr: "distinct (row_tops r0)" "distinct (row_tops r1)" using D r by (auto simp: visible_def tops_bs_def)
  have kk: "k < length (stacks s ! nat p)" "top (stacks s ! nat p ! k) = Some c" using last_index_Some [OF k] by auto
  have c: "c \<in> set (tops_bs s p)" using m by (simp add: mayPlay_bs_def split: if_splits)
  from p consider "p = 0" | "p = 1" by (auto simp: seat_two_def)
  then show ?thesis
  proof cases
    case 1
    then show ?thesis
      using r f m c kk pile_tops [of r0 f0] pile_row_play [OF dr(1), of k c f0]
      by (simp add: replay_card_def piles_def put_stack_def tops_bs_def Let_def)
  next
    case 2
    then show ?thesis
      using r f m c kk pile_tops [of r1 f1] pile_row_play [OF dr(2), of k c f1]
      by (simp add: replay_card_def piles_def put_stack_def tops_bs_def Let_def)
  qed
qed

lemma turn_piles_piles: "turn_piles (piles f s False) = piles f s True"
  by (simp add: turn_piles_def piles_def pile_of_def gone_def split_beta)

lemma piles_frame: "stacks s' = stacks s \<Longrightarrow> piles f s' b = piles f s b"
  by (simp add: piles_def)

lemma piles_start:
  assumes "rows_ok s" "deal_ok_bs f" "tops_ok f s" "list_all (list_all (\<lambda>x. top x \<noteq> None)) (stacks s)"
    and "\<forall>row \<in> set (stacks s). \<forall>x \<in> set row. under x"
  shows "piles f s b = new_piles f"
proof -
  obtain r0 r1 where r: "stacks s = [r0, r1]" "length r0 = 8" "length r1 = 8" by (rule rows_two [OF assms(1)])
  obtain f0 f1 where f: "fstacks f = [f0, f1]" "length f0 = 8" "length f1 = 8" by (rule deal_rows [OF assms(2)])
  have x: "pile_of b (stacks s ! nat z ! j) (fstacks f ! nat z ! j)
      = (case fstacks f ! nat z ! j of (u, d) \<Rightarrow> \<lparr>top = Some u, under = True, down = d\<rparr>)" if z: "seat_two z" "j < 8" for z j
  proof -
    let ?x = "stacks s ! nat z ! j"
    have at: "stack_at s z (int j) = Some ?x" using stack_at_iff [OF assms(1)] z by simp
    have tu: "top ?x \<noteq> None" "under ?x" using stack_mem [OF at] assms(4,5) by (auto simp: list_all_iff)
    then have "top ?x = Some (fst (dealt f z (int j)))" using assms(3) at unfolding tops_ok_def by fastforce
    then show ?thesis using tu by (simp add: pile_of_def gone_def dealt_def split_beta)
  qed
  have "map2 (pile_of b) r0 f0 = map (\<lambda>(u, d). \<lparr>top = Some u, under = True, down = d\<rparr>) f0"
    using x [of 0] r f by (intro nth_equalityI) (simp_all add: seat_two_def)
  moreover have "map2 (pile_of b) r1 f1 = map (\<lambda>(u, d). \<lparr>top = Some u, under = True, down = d\<rparr>) f1"
    using x [of 1] r f by (intro nth_equalityI) (simp_all add: seat_two_def)
  ultimately show ?thesis by (simp add: piles_def new_piles_def r(1) f(1))
qed

lemma piles_turned:
  assumes R: "rows_ok s" and d: "deal_ok_bs f" and x: "stack_at s z i = Some x" "gone x"
  shows "piles f (put_stack s z i (x\<lparr>top := Some (snd (dealt f z i)), under := False\<rparr>)) True = piles f s True"
proof -
  obtain r0 r1 where r: "stacks s = [r0, r1]" "length r0 = 8" "length r1 = 8" by (rule rows_two [OF R])
  obtain f0 f1 where f: "fstacks f = [f0, f1]" "length f0 = 8" "length f1 = 8" by (rule deal_rows [OF d])
  have z: "seat_two z" "0 \<le> i" "i < 8" "x = stacks s ! nat z ! nat i" using x(1) stack_at_iff [OF R] by blast+
  have row: "map2 (pile_of True) (r[k := (r ! k)\<lparr>top := Some (snd (fr ! k)), under := False\<rparr>]) fr = map2 (pile_of True) r fr"
    if "length r = length fr" "k < length r" "gone (r ! k)" for r :: "stack list" and fr k
    using that by (intro nth_equalityI) (auto simp: nth_list_update pile_of_def gone_def)
  from z(1) consider "z = 0" | "z = 1" by (auto simp: seat_two_def)
  then show ?thesis
  proof cases
    case 1
    then show ?thesis using r f z x(2) row [of r0 f0 "nat i"] by (simp add: piles_def put_stack_def dealt_def)
  next
    case 2
    then show ?thesis using r f z x(2) row [of r1 f1 "nat i"] by (simp add: piles_def put_stack_def dealt_def)
  qed
qed

lemma replay_ok_play:
  assumes I: "inv_bs s" and d: "deal_ok_bs f" and W: "replay_ok f s" and ph: "phase_of s = BPlay"
    and ok: "play_bs s (next_bs s) a = Inr s'"
  shows "replay_ok f s'"
proof -
  let ?p = "next_bs s"
  from ok obtain g c k tr s1 where gt: "contract_bs s = Some g" "trick_bs s = Some tr" "flip s = []"
    and k: "last_index (\<lambda>x. top x = Some c) (stacks s ! nat ?p) = Some k"
    and m: "mayPlay_bs g (tops_bs s ?p) c (on_table s)"
    and s1: "s1 = put_stack s ?p (int k) ((stacks s ! nat ?p ! k)\<lparr>top := None\<rparr>)"
    and s': "s' = (let cs = cards tr @ [Play ?p c]; w = trickWinner g cs;
              ts = tricks_bs s @ [\<lparr>lead = lead tr, cards = cs, winner = w\<rparr>] in
       if length cs < 2 then s1\<lparr>trick_bs := Some (tr\<lparr>cards := cs\<rparr>), next_bs := 1 - ?p\<rparr>
       else if length ts = 16 \<or> (g = GNull \<and> w = declarer_bs s)
       then s1\<lparr>tricks_bs := ts, phase_of := BDone, trick_bs := None, next_bs := -1\<rparr>
       else s1\<lparr>tricks_bs := ts, flip := places gone (stacks s1), trick_bs := Some \<lparr>lead = w, cards = []\<rparr>, next_bs := w\<rparr>)"
    by (rule play_bs_cases)
  have R: "rows_ok s" and D: "distinct (visible s)" and P: "play_ok s g tr"
    using I ph gt by (auto simp: inv_bs_def phase_ok_bs_def)
  have p: "seat_two ?p" using P by (auto simp: play_ok_def seat_two_def)
  note e = play_effect [OF gt(2) s' [unfolded s1]]
  have tab: "on_table s = cards tr" using gt by (simp add: on_table_def)
  note card = replay_play [OF R d D p k m, folded s1]
  have pf: "piles f s' b = piles f s1 b" for b using e(3) by (intro piles_frame) (simp add: s1)
  show ?thesis
  proof (cases "cards tr")
    case Nil
    then have "places gone (stacks s) = []" using P gt(3) by (simp add: play_ok_def)
    then have "piles f s True = piles f s False" by (rule piles_no_gone [OF R d])
    then have "replay g (new_piles f, []) (map cards (tricks_bs s)) = Some (piles f s False, [])"
      using W Nil by (simp add: replay_ok_def gt(1) seen_tricks_def tab)
    moreover have "contract_bs s' = Some g" "seen_tricks s' = map cards (tricks_bs s) @ [[Play ?p c]]" "on_table s' = [Play ?p c]"
      using s' Nil gt by (simp_all add: Let_def s1 seen_tricks_def on_table_def)
    ultimately show ?thesis
      using card Nil by (simp add: replay_ok_def replay_append tab pf SEATS_bs_def)
  next
    case (Cons b bs)
    then obtain b where b: "cards tr = [b]" using P by (auto simp: play_ok_def)
    obtain st where st: "replay g (new_piles f, []) (map cards (tricks_bs s)) = Some st"
        "replay g st [[b]] = Some (piles f s False, [])"
      using W b by (auto simp: replay_ok_def gt(1) seen_tricks_def tab replay_append split: option.splits)
    then have tb: "replay_trick g st [] [b] = Some (piles f s False, [])"
      by (auto simp: SEATS_bs_def split: option.splits)
    then have "replay_trick g st [] ([b] @ [Play ?p c]) = Some (piles f s1 False, [])"
      unfolding replay_trick_snoc using card b tab by simp
    then have "replay g st [[b, Play ?p c]] = Some (piles f s1 True, [])"
      by (simp add: SEATS_bs_def turn_piles_piles)
    moreover have "contract_bs s' = Some g" "seen_tricks s' = map cards (tricks_bs s) @ [[b, Play ?p c]]" "on_table s' = []"
      using s' b gt by (simp_all add: Let_def s1 seen_tricks_def on_table_def)
    ultimately show ?thesis
      using st(1) by (simp add: replay_ok_def replay_append pf)
  qed
qed

lemma replay_step:
  assumes I: "inv_bs s" and d: "deal_ok_bs f" and C: "cards_ok f s" and W: "replay_ok f s" and ok: "apply_bs s a = Inr s'"
    and h: "\<And>z i. t_bs a = ATurn \<Longrightarrow> seat_bs a = Some z \<Longrightarrow> i_bs a = Some i \<Longrightarrow>
       card_bs a = Some (if phase_of s = BDeal then fst (dealt f z i) else snd (dealt f z i))"
  shows "replay_ok f s'"
proof -
  have R: "rows_ok s" and T: "tops_ok f s" using I C by (auto simp: inv_bs_def cards_ok_def)
  from ok show ?thesis
  proof (cases rule: apply_bs_cases)
    case (deal z i x c)
    then have "contract_bs s' = None" using I by (auto simp: inv_bs_def phase_ok_bs_def before_play_def Let_def)
    then show ?thesis by (simp add: replay_ok_def)
  next
    case (turned z i x c k)
    obtain g t where gt: "contract_bs s = Some g" "trick_bs s = Some t" "play_ok s g t"
      using I turned(1) by (auto simp: inv_bs_def phase_ok_bs_def split: option.splits)
    have mem: "(z, i) \<in> set (flip s)" using last_index_Some [OF turned(4)] by (metis nth_mem)
    then have gx: "gone x" and tab: "on_table s = []"
      using gt turned(3) places_gone [OF R, of z i] by (auto simp: play_ok_def on_table_def)
    have "c = snd (dealt f z i)" using h [of z i] turned by simp
    then have "piles f s' True = piles f s True"
      using piles_turned [OF R d turned(3) gx] turned(10) by (simp add: piles_def)
    moreover have "seen_tricks s' = seen_tricks s" "on_table s' = []" "contract_bs s' = Some g"
      using tab gt by (simp_all add: turned(10) seen_tricks_def on_table_def)
    ultimately show ?thesis using W gt tab by (simp add: replay_ok_def)
  next
    case (kontra seat t)
    then have "seen_tricks s' = seen_tricks s" "on_table s' = on_table s" "contract_bs s' = contract_bs s" "piles f s' = piles f s"
      by (simp_all add: seen_tricks_def on_table_def piles_def fun_eq_iff)
    then show ?thesis using W by (cases "contract_bs s") (simp_all add: replay_ok_def)
  next
    case (declared g)
    have B: "before_play s" "list_all (list_all (\<lambda>x. top x \<noteq> None)) (stacks s)"
      using I declared(1) by (auto simp: inv_bs_def phase_ok_bs_def)
    then have "piles f s' True = new_piles f"
      using piles_start [OF R d T] piles_frame [of s' s] by (simp add: declared(5) before_play_def)
    then show ?thesis using B by (simp add: replay_ok_def declared(5) seen_tricks_def on_table_def before_play_def)
  next
    case play
    then show ?thesis using replay_ok_play [OF I d W] by blast
  qed
qed

lemma honest_invariant_bs:
  assumes d: "deal_ok_bs f"
  shows "honest_bs f s \<Longrightarrow> inv_bs s \<and> cards_ok f s \<and> replay_ok f s"
proof (induction rule: honest_bs.induct)
  case (deal_start dl r)
  have "visible (start_bs dl r) @ played_bs (start_bs dl r) = []"
    by (simp add: visible_def tops_bs_def start_bs_def Let_def SEATS_bs_def STACKS_def numeral_2_eq_2 numeral_eq_Suc
        played_bs_def all_tricks_bs_def)
  moreover have "tops_ok f (start_bs dl r)"
    by (auto simp: tops_ok_def stack_at_def start_bs_def Let_def SEATS_bs_def STACKS_def nth_append split: if_splits)
  ultimately show ?case
    using inv_start_bs by (simp add: cards_ok_def replay_ok_def) (simp add: start_bs_def Let_def)
next
  case (deal_step s a s')
  then show ?case using inv_step_bs cards_step replay_step [OF _ d] by blast
qed

section \<open>The audit finds nothing\<close>

lemma mset_pairs: "mset (concat (map (\<lambda>(u, d). [u, d]) row)) = mset (map fst row @ map snd row)"
  by (induction row) auto

lemma deal_cards:
  assumes "deal_ok_bs f"
  obtains c0 c1 where "cardsOf f 0 = Some c0" "cardsOf f 1 = Some c1" "length (c0 @ c1) = 32" "distinct (c0 @ c1)"
proof -
  obtain f0 f1 where f: "fstacks f = [f0, f1]" "length f0 = 8" "length f1 = 8"
    and ds: "distinct (map fst (f0 @ f1) @ map snd (f0 @ f1))" by (rule deal_rows [OF assms])
  let ?c = "\<lambda>row :: (card \<times> card) list. concat (map (\<lambda>(u, d). [u, d]) row)"
  have "mset (?c f0 @ ?c f1) = mset (map fst (f0 @ f1) @ map snd (f0 @ f1))"
    unfolding mset_append mset_pairs by simp
  then have "distinct (?c f0 @ ?c f1) = distinct (map fst (f0 @ f1) @ map snd (f0 @ f1))"
    "length (?c f0 @ ?c f1) = length (map fst (f0 @ f1) @ map snd (f0 @ f1))"
    by (rule mset_eq_imp_distinct_iff, rule mset_eq_length)
  then have "distinct (?c f0 @ ?c f1)" "length (?c f0 @ ?c f1) = 32" using ds f(2,3) by (simp_all del: distinct_append)
  moreover have "cardsOf f 0 = Some (?c f0)" "cardsOf f 1 = Some (?c f1)"
    using assms f(1) by (auto simp: cardsOf_def deal_ok_bs_def)
  ultimately show thesis using that by blast
qed

text \<open>
  A Bauernskat hand in which the cards turned up are the cards dealt passes the audit at every
  point, with nothing to complain of: since every card that may be played lies open, \<open>apply\<close>
  itself refuses whatever the audit would object to.
\<close>

theorem bauernskat_audit_clean:
  assumes deal: "deal_ok_bs f" and hon: "honest_bs f s"
  shows "audit_bs s f = Some []"
proof (cases "contract_bs s")
  case None
  then show ?thesis by (simp add: audit_bs_def)
next
  case (Some g)
  have I: "inv_bs s" and C: "tops_ok f s" and W: "replay_ok f s"
    using honest_invariant_bs [OF deal hon] by (auto simp: cards_ok_def)
  have R: "rows_ok s" using I by (simp add: inv_bs_def)
  obtain c0 c1 where c: "cardsOf f 0 = Some c0" "cardsOf f 1 = Some c1" "length (c0 @ c1) = 32" "distinct (c0 @ c1)"
    by (rule deal_cards [OF deal])
  have deck: "\<not> (length (c0 @ c1) \<noteq> 32 \<or> card (set (c0 @ c1)) \<noteq> 32 \<or> \<not> list_all (\<lambda>c. isCard (Some c)) (c0 @ c1))"
    using c(3,4) distinct_card [OF c(4)] by (simp add: list_all_iff)
  have rows: "\<forall>z < SEATS_bs. STACKS \<le> length (fstacks f ! z) \<and> z < length (stacks s) \<and> STACKS \<le> length (stacks s ! z)"
    using R deal by (simp add: SEATS_bs_def STACKS_def rows_ok_def deal_ok_bs_def)
  have op: "open_card s f z i = []" if "z < 2" "i < 8" for z i
  proof -
    have "seat_two (int z)" using that(1) by (auto simp: seat_two_def)
    then have "stack_at s (int z) (int i) = Some (stacks s ! z ! i)" using stack_at_iff [OF R] that by simp
    note at = this
    have "top (stacks s ! z ! i) = Some c \<Longrightarrow>
        c = (if under (stacks s ! z ! i) then fst (fstacks f ! z ! i) else snd (fstacks f ! z ! i))" for c
      using C [unfolded tops_ok_def, rule_format, OF at] by (simp add: dealt_def)
    then show ?thesis by (cases "top (stacks s ! z ! i)") (auto simp: open_card_def Let_def split_beta)
  qed
  have rep: "map_option snd (replay g (new_piles f, []) (seen_tricks s)) = Some []"
    using W Some by (simp add: replay_ok_def)
  have opn: "concat (map (\<lambda>z. concat (map (open_card s f z) [0..<STACKS])) [0..<SEATS_bs]) = []"
    by (auto simp: SEATS_bs_def STACKS_def op)
  have seen: "map cards (tricks_bs s) @ (case trick_bs s of None \<Rightarrow> [] | Some t \<Rightarrow> if cards t = [] then [] else [cards t]) = seen_tricks s"
    by (simp add: seen_tricks_def on_table_def split: option.split)
  show ?thesis
    unfolding audit_bs_def Some c(1,2) option.case prod.case Let_def if_not_P [OF deck] opn seen
    unfolding new_piles_def [symmetric] rep using rows by simp
qed

section \<open>The hand goes on\<close>

lemma mayPlay_same: "mayPlay_bs g h c t = mayPlay g h c t"
  by (auto simp: mayPlay_bs_def mayPlay_def Let_def split: list.split)

lemma sum_list_pos: "sum_list (map f xs) \<noteq> (0::nat) \<Longrightarrow> \<exists>x \<in> set xs. f x \<noteq> 0"
  by (induction xs) auto

lemma two_by_trick:
  assumes "\<forall>t \<in> set ts. shape_bs g t" "seat_two p"
  shows "sum_list (map (\<lambda>t. length (filter (\<lambda>x. pseat x = p) (cards t))) ts) = length ts"
  using assms by (induction ts) (auto simp: shape_bs_def seat_two_def)

lemma next_has_card:
  assumes I: "inv_bs s" and ph: "phase_of s = BPlay" and fl: "flip s = []"
  shows "seat_two (next_bs s)" "tops_bs s (next_bs s) \<noteq> []"
proof -
  obtain g t where R: "rows_ok s" and gt: "contract_bs s = Some g" "trick_bs s = Some t" "play_ok s g t" "table_bs s g (lead t)"
    using I ph by (auto simp: inv_bs_def phase_ok_bs_def split: option.splits)
  let ?p = "next_bs s"
  show p: "seat_two ?p" using gt(3) by (auto simp: play_ok_def seat_two_def)
  have "playedBy_bs s ?p = length (tricks_bs s) + length (filter (\<lambda>x. pseat x = ?p) (cards t))"
    using two_by_trick [of "tricks_bs s" g ?p] gt p by (simp add: playedBy_bs_def all_tricks_bs_def table_bs_def comp_def)
  also have "filter (\<lambda>x. pseat x = ?p) (cards t) = []" using gt(3) by (auto simp: play_ok_def seat_two_def)
  finally have "playedBy_bs s ?p < 16" using gt(3) by (simp add: play_ok_def)
  moreover have "sum_list (map left_in (stacks s ! nat ?p)) + playedBy_bs s ?p = 16"
    using gt(4) p by (auto simp: table_bs_def seat_two_def)
  ultimately have "sum_list (map left_in (stacks s ! nat ?p)) \<noteq> 0" by linarith
  then obtain x where x: "x \<in> set (stacks s ! nat ?p)" "left_in x \<noteq> 0"
    using sum_list_pos by blast
  have "\<not> gone x"
  proof -
    obtain j where "j < 8" "x = stacks s ! nat ?p ! j" using x(1) row_length [OF R p] by (auto simp: in_set_conv_nth)
    then have "stack_at s ?p (int j) = Some x" using stack_at_iff [OF R] p by simp
    then show ?thesis using gt(3) fl x(1) places_gone [OF R, of ?p "int j"] by (auto simp: play_ok_def list_all_iff)
  qed
  then obtain c where "top x = Some c" using x(2) by (auto simp: gone_def left_in_def)
  then have "c \<in> set (tops_bs s ?p)" using x(1) unfolding tops_bs_def row_tops_set by blast
  then show "tops_bs s ?p \<noteq> []" by auto
qed

text \<open>The cards due are turned up as dealt, otherwise the automatic player moves.\<close>

definition turn_act :: "full_bs \<Rightarrow> int \<times> int \<times> kind \<Rightarrow> action_bs" where
  "turn_act f r = (case r of (z, i, k) \<Rightarrow> (mk_bs ATurn z)\<lparr>i_bs := Some i,
     card_bs := Some (case k of Up \<Rightarrow> fst (dealt f z i) | Down \<Rightarrow> snd (dealt f z i))\<rparr>)"

definition auto_table :: "state_bs \<Rightarrow> full_bs \<Rightarrow> action_bs option" where
  "auto_table s f = (case reveals s of r # _ \<Rightarrow> Some (turn_act f r) | [] \<Rightarrow> auto_bs s (turn_bs s))"

definition fits_bs :: "state_bs \<Rightarrow> full_bs \<Rightarrow> bool" where
  "fits_bs s f \<longleftrightarrow> deal_ok_bs f \<and> cards_ok f s"

lemma act_simps [simp]:
  "t_bs (mk_bs t p) = t" "seat_bs (mk_bs t p) = Some p" "t_bs (declare_bs p g) = ADeclare" "seat_bs (declare_bs p g) = Some p"
  "game_bs (declare_bs p g) = Some g" "t_bs (place_bs p c) = APlay" "seat_bs (place_bs p c) = Some p" "card_bs (place_bs p c) = Some c"
  by (simp_all add: mk_bs_def declare_bs_def place_bs_def)

lemma fresh_up:
  assumes d: "deal_ok_bs f" and R: "rows_ok s" and x: "stack_at s z i = Some x" "phase_of s = BDeal" "top x = None"
  shows "fst (dealt f z i) \<notin> shown f s"
proof
  have z: "seat_two z" "0 \<le> i" "i < 8" using x(1) stack_at_iff [OF R] by blast+
  assume "fst (dealt f z i) \<in> shown f s"
  then obtain z' i' x' where s: "stack_at s z' i' = Some x'"
    "fst (dealt f z i) = fst (dealt f z' i') \<and> \<not> (phase_of s = BDeal \<and> top x' = None)
     \<or> fst (dealt f z i) = snd (dealt f z' i') \<and> \<not> under x'" unfolding shown_def by blast
  have z': "seat_two z'" "0 \<le> i'" "i' < 8" using s(1) stack_at_iff [OF R] by blast+
  show False using s x dealt_inj [OF d z z'] by auto
qed

lemma fresh_down:
  assumes d: "deal_ok_bs f" and R: "rows_ok s" and x: "stack_at s z i = Some x" "under x"
  shows "snd (dealt f z i) \<notin> shown f s"
proof
  have z: "seat_two z" "0 \<le> i" "i < 8" using x(1) stack_at_iff [OF R] by blast+
  assume "snd (dealt f z i) \<in> shown f s"
  then obtain z' i' x' where s: "stack_at s z' i' = Some x'"
    "snd (dealt f z i) = fst (dealt f z' i') \<or> snd (dealt f z i) = snd (dealt f z' i') \<and> \<not> under x'"
    unfolding shown_def by blast
  have z': "seat_two z'" "0 \<le> i'" "i' < 8" using s(1) stack_at_iff [OF R] by blast+
  show False using s x dealt_inj(2) [OF d z z'] dealt_inj(3) [OF d z' z] by auto
qed

lemma turn_accepted:
  assumes I: "inv_bs s" and F: "fits_bs s f" and r: "r \<in> set (reveals s)"
  shows "\<exists>s'. apply_bs s (turn_act f r) = Inr s'"
proof -
  have R: "rows_ok s" and d: "deal_ok_bs f" and S: "set (visible s) \<union> set (played_bs s) \<subseteq> shown f s"
    using I F by (auto simp: inv_bs_def fits_bs_def cards_ok_def)
  consider (up) z i x where "phase_of s = BDeal" "r = (z, i, Up)" "stack_at s z i = Some x" "top x = None"
    | (down) z i x where "phase_of s = BPlay" "r = (z, i, Down)" "(z, i) \<in> set (flip s)" "stack_at s z i = Some x" "under x"
  proof (cases "phase_of s")
    case BDeal
    then obtain z i where "r = (z, i, Up)" "(z, i) \<in> set (places (\<lambda>x. top x = None) (stacks s))"
      using r by (auto simp: reveals_def)
    then show thesis using BDeal up [of z i "stacks s ! nat z ! nat i"] by (auto simp: places_iff stack_at_def)
  next
    case BPlay
    then obtain z i where zi: "r = (z, i, Down)" "(z, i) \<in> set (flip s)" using r by (auto simp: reveals_def)
    obtain g t where P: "play_ok s g t" using I BPlay by (auto simp: inv_bs_def phase_ok_bs_def split: option.splits)
    then have "(z, i) \<in> set (places gone (stacks s))" using zi(2) by (auto simp: play_ok_def)
    then show thesis using down [OF BPlay zi] unfolding places_gone [OF R] by (auto simp: gone_def)
  qed (use r in \<open>simp_all add: reveals_def\<close>)
  then show ?thesis
  proof cases
    case up
    have "seat_two z" using up(3) stack_at_iff [OF R] by blast
    moreover have "fst (dealt f z i) \<notin> shown f s" by (rule fresh_up [OF d R up(3,1,4)])
    ultimately show ?thesis using up S
      by (auto simp: apply_bs_def turn_act_def turnUp_def SEATS_bs_def seat_two_def Let_def)
  next
    case down
    have "seat_two z" using down(4) stack_at_iff [OF R] by blast
    moreover have "snd (dealt f z i) \<notin> shown f s" by (rule fresh_down [OF d R down(4,5)])
    moreover obtain k where "last_index (\<lambda>f. f = (z, i)) (flip s) = Some k"
      using last_index_None [of "\<lambda>f. f = (z, i)" "flip s"] down(3) by (cases "last_index (\<lambda>f. f = (z, i)) (flip s)") auto
    ultimately show ?thesis using down S
      by (auto simp: apply_bs_def turn_act_def turnUp_def SEATS_bs_def seat_two_def Let_def)
  qed
qed

lemma card_accepted:
  assumes I: "inv_bs s" and ph: "phase_of s = BPlay" and fl: "flip s = []"
    and c: "mayPlay_bs (game_at s) (tops_bs s (next_bs s)) c (on_table s)"
  shows "\<exists>s'. apply_bs s (place_bs (next_bs s) c) = Inr s'"
proof -
  let ?p = "next_bs s"
  obtain g t where R: "rows_ok s" and D: "distinct (visible s @ played_bs s)" and gt: "contract_bs s = Some g" "trick_bs s = Some t"
    using I ph by (auto simp: inv_bs_def phase_ok_bs_def split: option.splits)
  have p: "seat_two ?p" by (rule next_has_card [OF I ph fl])
  have ct: "c \<in> set (tops_bs s ?p)" using c by (simp add: mayPlay_bs_def split: if_splits)
  then have "c \<in> set (visible s)" using p by (auto simp: visible_def seat_two_def)
  then have "c \<notin> set (played_bs s)" using D by auto
  moreover obtain k where "last_index (\<lambda>x. top x = Some c) (stacks s ! nat ?p) = Some k"
    using ct last_index_None [of "\<lambda>x. top x = Some c" "stacks s ! nat ?p"]
    by (cases "last_index (\<lambda>x. top x = Some c) (stacks s ! nat ?p)") (auto simp: tops_bs_def row_tops_set)
  moreover have "0 \<le> ?p" "nat ?p < length (stacks s)" "?p < 2" using p row_length [OF R p] by (auto simp: seat_two_def)
  ultimately show ?thesis
    using gt fl c ph by (simp add: apply_bs_def turn_bs_def play_bs_def SEATS_bs_def game_at_def Let_def)
qed

lemma auto_table_legal:
  assumes I: "inv_bs s" and nd: "\<not> done_bs s" and F: "fits_bs s f"
  shows "\<exists>a s'. auto_table s f = Some a \<and> apply_bs s a = Inr s' \<and> fits_bs s' f"
proof -
  have keep: "fits_bs s' f" if "apply_bs s a = Inr s'" "t_bs a \<noteq> ATurn \<or> (\<exists>r \<in> set (reveals s). a = turn_act f r)" for a s'
  proof -
    have "card_bs a = Some (if phase_of s = BDeal then fst (dealt f z i) else snd (dealt f z i))"
      if "t_bs a = ATurn" "seat_bs a = Some z" "i_bs a = Some i" for z i
      using that \<open>t_bs a \<noteq> ATurn \<or> _\<close>
      by (cases "phase_of s") (auto simp: reveals_def turn_act_def split: prod.splits)
    then show ?thesis using cards_step [OF I _ that(1)] F by (simp add: fits_bs_def)
  qed
  show ?thesis
  proof (cases "reveals s")
    case (Cons r rs)
    then obtain s' where "apply_bs s (turn_act f r) = Inr s'" using turn_accepted [OF I F, of r] by auto
    then show ?thesis using keep Cons by (auto simp: auto_table_def)
  next
    case Nil
    show ?thesis
    proof (cases "phase_of s")
      case BDeal
      then have "\<not> list_all (list_all (\<lambda>x. top x \<noteq> None)) (stacks s)" using I by (simp add: inv_bs_def phase_ok_bs_def)
      then obtain z i where "z < length (stacks s)" "i < length (stacks s ! z)" "top (stacks s ! z ! i) = None"
        by (auto simp: list_all_length)
      then have "(int z, int i) \<in> set (places (\<lambda>x. top x = None) (stacks s))" by (simp add: places_iff)
      then show ?thesis using Nil BDeal by (auto simp: reveals_def)
    next
      case BDeclare
      then obtain g where g: "auto_table s f = Some (declare_bs (declarer_bs s) g)" "g \<in> set GAMES"
        using Nil by (auto simp: auto_table_def auto_bs_def turn_bs_def Let_def GAMES_def intro: suit.exhaust)
      have "seat_two (declarer_bs s)" using I by (auto simp: inv_bs_def seat_two_def)
      then obtain s' where "apply_bs s (declare_bs (declarer_bs s) g) = Inr s'"
        using g(2) BDeclare by (auto simp: apply_bs_def turn_bs_def games_def SEATS_bs_def seat_two_def)
      then show ?thesis using g(1) keep by auto
    next
      case BPlay
      then have fl: "flip s = []" using Nil by (simp add: reveals_def)
      let ?p = "next_bs s" let ?ok = "\<lambda>c. mayPlay_bs (game_at s) (tops_bs s ?p) c (on_table s)"
      have ne: "filter ?ok (tops_bs s ?p) \<noteq> []"
        using mayPlay_exists [OF next_has_card(2) [OF I BPlay fl]] unfolding filter_neq_Nil_iff mayPlay_same by blast
      define ks where "ks = sort_key (play_key_bs (game_at s) (case on_table s of [] \<Rightarrow> None | x # _ \<Rightarrow> Some (suitOf (game_at s) (pcard x))))
        (filter ?ok (tops_bs s ?p))"
      have "ks \<noteq> []" using ne unfolding ks_def by (metis length_0_conv length_sort)
      then obtain c cs where c: "ks = c # cs" by (cases ks) auto
      then have "?ok c" unfolding ks_def by (metis (mono_tags, lifting) filter_set list.set_intros(1) mem_Collect_eq set_filter set_sort)
      then obtain s' where "apply_bs s (place_bs ?p c) = Inr s'" using card_accepted [OF I BPlay fl] by blast
      moreover have "auto_table s f = Some (place_bs ?p c)"
        using Nil BPlay fl c by (simp add: auto_table_def auto_bs_def turn_bs_def Let_def flip: ks_def)
      ultimately show ?thesis using keep by auto
    next
      case BDone
      then show ?thesis using nd by (simp add: done_bs_def)
    qed
  qed
qed

interpretation bauernskat_auto: auto_engine "\<lambda>s. \<exists>d r. s = start_bs d r" apply_bs done_bs inv_bs left_bs 68
  auto_table "\<lambda>f a. f" fits_bs
  by unfold_locales (rule auto_table_legal)

text \<open>
  With any deal, from the start of a Bauernskat hand, turning up the cards that are due and
  letting the automatic player move ends the hand: no seat is ever without a legal card, and
  everything it does is accepted.
\<close>

theorem bauernskat_settles:
  assumes "deal_ok_bs f"
  shows "\<exists>s'. settle apply_bs done_bs auto_table (\<lambda>f a. f) 68 (start_bs d r) f = (True, s', f) \<and> done_bs s'"
proof -
  have "fits_bs (start_bs d r) f"
    using honest_invariant_bs [OF assms deal_start] assms by (simp add: fits_bs_def)
  then obtain s' h where "settle apply_bs done_bs auto_table (\<lambda>f a. f) 68 (start_bs d r) f = (True, s', h)" "done_bs s'"
    using bauernskat_auto.settle_over [OF inv_start_bs _ budget_start_bs] by blast
  moreover have "snd (snd (settle apply_bs done_bs auto_table (\<lambda>f a. f) n s f)) = f" for n s
    by (induction n arbitrary: s) (auto split: option.splits sum.splits)
  ultimately show ?thesis by (metis snd_conv)
qed

text \<open>
  The invariant of a Bauernskat hand: every state the rules can reach has two rows of eight
  stacks, no card twice among the open and the played ones, tricks of two cards led by the winner of
  the one before, and for each seat the cards left in its stacks and the cards it played are
  sixteen; the stacks to be turned are exactly those whose top card went in a finished trick.
\<close>

theorem bauernskat_invariant:
  "reachable (\<lambda>s. \<exists>d r. s = start_bs d r) apply_bs s \<Longrightarrow> inv_bs s"
  by (rule bauernskat.reachable_inv)

section \<open>A hand played\<close>

fun table_run :: "nat \<Rightarrow> state_bs \<Rightarrow> full_bs \<Rightarrow> state_bs" where
  "table_run 0 s f = s"
| "table_run (Suc n) s f = (case auto_table s f of None \<Rightarrow> s | Some a \<Rightarrow>
     (case apply_bs s a of Inl e \<Rightarrow> s | Inr s' \<Rightarrow> table_run n s' f))"

lemma auto_table_honest:
  assumes "auto_table s f = Some a" "t_bs a = ATurn" "seat_bs a = Some z" "i_bs a = Some i"
  shows "card_bs a = Some (if phase_of s = BDeal then fst (dealt f z i) else snd (dealt f z i))"
proof (cases "reveals s")
  case Nil
  then show ?thesis using assms
    by (auto simp: auto_table_def auto_bs_def Let_def split: if_splits list.splits)
next
  case (Cons r rs)
  then have a: "a = turn_act f r" using assms(1) by (simp add: auto_table_def)
  have "r \<in> set (reveals s)" using Cons by simp
  then show ?thesis using assms(2-4) a
    by (cases "phase_of s") (auto simp: reveals_def turn_act_def split: prod.splits)
qed

lemma table_run_honest: "honest_bs f s \<Longrightarrow> honest_bs f (table_run n s f)"
proof (induction n arbitrary: s)
  case (Suc n)
  have "honest_bs f s'" if "auto_table s f = Some a" "apply_bs s a = Inr s'" for a s'
    by (rule deal_step [OF Suc.prems that(2)]) (rule auto_table_honest [OF that(1)])
  then show ?case using Suc by (auto split: option.splits sum.splits)
qed simp

definition sample_full :: full_bs where
  "sample_full = \<lparr>fhands = None, fstacks = map (\<lambda>z. map (\<lambda>j. (DECK ! (16 * z + j), DECK ! (16 * z + 8 + j))) [0..<8]) [0, 1]\<rparr>"

lemma sample_full_ok: "deal_ok_bs sample_full"
  by code_simp

definition sample_bs :: "nat \<Rightarrow> state_bs" where
  "sample_bs n = table_run n (start_bs (Some 1) None) sample_full"

lemma sample_honest_bs: "honest_bs sample_full (sample_bs n)"
  unfolding sample_bs_def by (rule table_run_honest [OF deal_start])

theorem bauernskat_audit_clean_witness:
  "tricks_bs (sample_bs 40) \<noteq> [] \<and> audit_bs (sample_bs 40) sample_full = Some []"
proof
  show "tricks_bs (sample_bs 40) \<noteq> []" by code_simp
  show "audit_bs (sample_bs 40) sample_full = Some []"
    by (rule bauernskat_audit_clean [OF sample_full_ok sample_honest_bs])
qed

theorem bauernskat_settles_witness:
  "\<exists>s'. settle apply_bs done_bs auto_table (\<lambda>f a. f) 68 (start_bs None None) sample_full = (True, s', sample_full) \<and> done_bs s'"
  by (rule bauernskat_settles [OF sample_full_ok])

theorem bauernskat_invariant_witness: "inv_bs (sample_bs 40)"
  by (rule bauernskat_invariant [OF honest_reachable_bs [OF sample_honest_bs]])

end
