(* ===== verification/Doko.thy ===== *)
theory Doko
  imports Cards
begin

text \<open>
  The Doppelkopf rules of \<open>doko.js\<close>: the reservation round, solos and the marriage, calls,
  tricks with two of every card, parties, points, the audit and the automatic player. Names
  shared with the other engines carry the suffix \<open>_dk\<close>. The seat after a seat is computed with
  the remainder of the source, so the model says what a dealer below zero does.
\<close>

section \<open>Constants\<close>

definition SEATS_dk :: int where "SEATS_dk = 4"
definition HAND_dk :: nat where "HAND_dk = 12"

definition DECK_dk :: "card list" where
  "DECK_dk = concat (map (\<lambda>s. concat (map (\<lambda>r. [Card s r, Card s r])
     [RankA, RankT, RankK, RankQ, RankJ, Rank9])) [SuitC, SuitS, SuitH, SuitD])"

text \<open>Kinds of game; the seven solos are \<open>SOLOS\<close>.\<close>

datatype kind_dk = Normal | Hochzeit | Damen | Buben | Fleischlos | Kreuz | Pik | Herz | Karo

definition SOLOS :: "kind_dk list" where
  "SOLOS = [Damen, Buben, Fleischlos, Kreuz, Pik, Herz, Karo]"

fun SOLO_SUIT :: "kind_dk \<Rightarrow> suit option" where
  "SOLO_SUIT Kreuz = Some SuitC" | "SOLO_SUIT Pik = Some SuitS" | "SOLO_SUIT Herz = Some SuitH"
| "SOLO_SUIT Karo = Some SuitD" | "SOLO_SUIT _ = None"

datatype party = Re | Kontra
datatype call = CRe | CKontra | C90 | C60 | C30 | CSchwarz | COther

definition CALLS :: "call list" where "CALLS = [CRe, C90, C60, C30, CSchwarz]"
definition NEED :: "int list" where "NEED = [11, 10, 9, 8, 7]"

definition QUEENS_dk :: "card list" where
  "QUEENS_dk = map (\<lambda>s. Card s RankQ) [SuitC, SuitS, SuitH, SuitD]"

definition JACKS_dk :: "card list" where
  "JACKS_dk = map (\<lambda>s. Card s RankJ) [SuitC, SuitS, SuitH, SuitD]"

definition CQ :: card where "CQ = Card SuitC RankQ"
definition HT :: card where "HT = Card SuitH RankT"

definition RULES_dk :: "string list" where "RULES_dk = [''dulle'', ''nosp'']"

definition rules_of_dk :: "string list option \<Rightarrow> string list" where
  "rules_of_dk r = filter (\<lambda>k. k \<in> set (case r of None \<Rightarrow> [] | Some l \<Rightarrow> l)) RULES_dk"

definition eyes_dk :: "card \<Rightarrow> int" where "eyes_dk c = EYES (rank c)"

definition next_dk :: "int \<Rightarrow> int \<Rightarrow> int" where
  "next_dk seat n = js_rem (seat + n) SEATS_dk"

section \<open>Cards in a game\<close>

definition trumps :: "kind_dk \<Rightarrow> card list" where
  "trumps k = (case k of Damen \<Rightarrow> QUEENS_dk | Buben \<Rightarrow> JACKS_dk | Fleischlos \<Rightarrow> []
     | _ \<Rightarrow> let s = (case SOLO_SUIT k of None \<Rightarrow> SuitD | Some x \<Rightarrow> x) in
         [HT] @ QUEENS_dk @ JACKS_dk
         @ filter (\<lambda>c. c \<noteq> HT) (map (Card s) [RankA, RankT, RankK, Rank9]))"

definition plainOrder :: "kind_dk \<Rightarrow> rank list" where
  "plainOrder k = (case k of Damen \<Rightarrow> [RankA, RankT, RankK, RankJ, Rank9]
     | Buben \<Rightarrow> [RankA, RankT, RankK, RankQ, Rank9]
     | Fleischlos \<Rightarrow> [RankA, RankT, RankK, RankQ, RankJ, Rank9]
     | _ \<Rightarrow> [RankA, RankT, RankK, Rank9])"

definition isTrump_dk :: "kind_dk \<Rightarrow> card \<Rightarrow> bool" where
  "isTrump_dk k c \<longleftrightarrow> indexOf (trumps k) c \<ge> 0"

definition follows :: "kind_dk \<Rightarrow> card \<Rightarrow> led" where
  "follows k c = (if isTrump_dk k c then Trump else Plain (suit c))"

definition power_dk :: "kind_dk \<Rightarrow> card \<Rightarrow> led \<Rightarrow> int" where
  "power_dk k c l =
     (let i = indexOf (trumps k) c in
      if i \<ge> 0 then 1000 - i
      else if Plain (suit c) \<noteq> l then -1
      else 100 - indexOf (plainOrder k) (rank c))"

definition dulle_on :: "kind_dk \<Rightarrow> string list \<Rightarrow> bool" where
  "dulle_on k rs \<longleftrightarrow> ''dulle'' \<in> set (rules_of_dk (Some rs)) \<and> isTrump_dk k HT"

definition bestIndex_dk :: "kind_dk \<Rightarrow> play list \<Rightarrow> string list \<Rightarrow> nat" where
  "bestIndex_dk k cs rs =
     (let l = follows k (pcard (hd cs)); d = dulle_on k rs in
      best_at (\<lambda>x y. power_dk k (pcard x) l > power_dk k (pcard y) l
         \<or> (power_dk k (pcard x) l = power_dk k (pcard y) l \<and> d \<and> pcard x = HT)) cs)"

definition trickWinner_dk :: "kind_dk \<Rightarrow> play list \<Rightarrow> string list \<Rightarrow> int" where
  "trickWinner_dk k cs rs = pseat (cs ! bestIndex_dk k cs rs)"

datatype why_dk = WHigh | WFirst | WDulle | WTrump
datatype how_dk = PLead | PFollow | PTrump | POff

record explanation_dk =
  e_led :: led
  e_win :: nat
  e_seat :: int
  e_card :: card
  e_why :: why_dk
  e_plays :: "(int \<times> card \<times> how_dk) list"
  e_order :: "card list"

definition explain_dk :: "kind_dk \<Rightarrow> play list \<Rightarrow> string list \<Rightarrow> explanation_dk option" where
  "explain_dk k cs rs =
     (if cs = [] then None
      else let l = follows k (pcard (hd cs)); i = bestIndex_dk k cs rs; w = pcard (cs ! i);
             twin = list_ex (\<lambda>(j, x). j \<noteq> i \<and> pcard x = w) (enumerate 0 cs);
             y = (if twin then (if indexOf (map pcard cs) w = int i then WFirst else WDulle)
                  else if l \<noteq> Trump \<and> isTrump_dk k w then WTrump else WHigh) in
        Some \<lparr>e_led = l, e_win = i, e_seat = pseat (cs ! i), e_card = w, e_why = y,
          e_plays = map (\<lambda>(j, x). (pseat x, pcard x,
             if j = 0 then PLead else if follows k (pcard x) = l then PFollow
             else if isTrump_dk k (pcard x) then PTrump else POff)) (enumerate 0 cs),
          e_order = trumps k\<rparr>)"

definition legalCards :: "kind_dk \<Rightarrow> play list \<Rightarrow> card list \<Rightarrow> card list" where
  "legalCards k t h =
     (case t of [] \<Rightarrow> h | x # _ \<Rightarrow>
        let same = filter (\<lambda>c. follows k c = follows k (pcard x)) h in if same \<noteq> [] then same else h)"

section \<open>State\<close>

datatype phase_dk = DVorbehalt | DAbfrage | DPlay | DDone
datatype val_dk = VGesund | VVorbehalt | VKind kind_dk | VOther

record trick_dk = won_trick +
  t_eyes :: int

record call_dk =
  k_seat :: int
  k_p :: party
  k_a :: call
  k_n :: nat

record state_dk =
  rules_dk :: "string list"
  dealer_dk :: int
  phase_dk_of :: phase_dk
  ask_dk :: int
  say :: "val_dk option list"
  queue :: "int list"
  wedding :: int
  kind_dk_of :: kind_dk
  soloist :: int
  partner :: int
  clar :: nat
  trick_dk_of :: "Cards.trick"
  tricks_dk :: "trick_dk list"
  played_dk :: "nat list"
  level :: "party \<Rightarrow> int"
  claim :: "party option list"
  calls :: "call_dk list"

text \<open>\<open>o.dealer | 0\<close>: the signed 32-bit integer.\<close>

definition int32 :: "int \<Rightarrow> int" where
  "int32 x = (x + 2 ^ 31) mod 2 ^ 32 - 2 ^ 31"

definition start_dk :: "int option \<Rightarrow> string list option \<Rightarrow> state_dk" where
  "start_dk d r =
     (let dl = js_rem (case d of None \<Rightarrow> 0 | Some x \<Rightarrow> int32 x) SEATS_dk in
      \<lparr>rules_dk = rules_of_dk r, dealer_dk = dl, phase_dk_of = DVorbehalt, ask_dk = next_dk dl 1,
       say = [None, None, None, None], queue = [], wedding = -1, kind_dk_of = Normal, soloist = -1,
       partner = -1, clar = 0, trick_dk_of = \<lparr>lead = next_dk dl 1, cards = []\<rparr>, tricks_dk = [],
       played_dk = [0, 0, 0, 0], level = (\<lambda>_. -1), claim = [None, None, None, None], calls = []\<rparr>)"

definition has_dk :: "state_dk \<Rightarrow> string \<Rightarrow> bool" where
  "has_dk s k \<longleftrightarrow> k \<in> set (rules_dk s)"

definition turn_dk :: "state_dk \<Rightarrow> int" where
  "turn_dk s = (case phase_dk_of s of DVorbehalt \<Rightarrow> ask_dk s | DAbfrage \<Rightarrow> ask_dk s
     | DPlay \<Rightarrow> next_dk (lead (trick_dk_of s)) (int (length (cards (trick_dk_of s)))) | DDone \<Rightarrow> -1)"

definition done_dk :: "state_dk \<Rightarrow> bool" where
  "done_dk s \<longleftrightarrow> phase_dk_of s = DDone"

definition begin_dk :: "state_dk \<Rightarrow> kind_dk \<Rightarrow> int \<Rightarrow> state_dk" where
  "begin_dk s k so = s\<lparr>phase_dk_of := DPlay, kind_dk_of := k, soloist := so,
     trick_dk_of := \<lparr>lead = next_dk (dealer_dk s) 1, cards = []\<rparr>\<rparr>"

section \<open>Parties and calls\<close>

definition knownParty :: "state_dk \<Rightarrow> nat \<Rightarrow> party option" where
  "knownParty s seat =
     (if kind_dk_of s = Normal then claim s ! seat
      else if kind_dk_of s = Hochzeit \<and> partner s < 0 then (if int seat = soloist s then Some Re else None)
      else if kind_dk_of s = Hochzeit then Some (if int seat = soloist s \<or> int seat = partner s then Re else Kontra)
      else Some (if int seat = soloist s then Re else Kontra))"

definition all_plays :: "state_dk \<Rightarrow> play list" where
  "all_plays s = concat (map cards (tricks_dk s) @ [cards (trick_dk_of s)])"

definition ownParty :: "state_dk \<Rightarrow> nat \<Rightarrow> card list \<Rightarrow> party option" where
  "ownParty s seat h =
     (case knownParty s seat of Some p \<Rightarrow> Some p | None \<Rightarrow>
      if kind_dk_of s = Hochzeit then None
      else let had = length (filter (\<lambda>c. c = CQ) h)
             + length (filter (\<lambda>x. pseat x = int seat \<and> pcard x = CQ) (all_plays s)) in
        Some (if had \<noteq> 0 then Re else Kontra))"

fun opp :: "party \<Rightarrow> party" where
  "opp Re = Kontra" | "opp Kontra = Re"

definition callOk :: "state_dk \<Rightarrow> nat \<Rightarrow> party \<Rightarrow> int \<Rightarrow> bool" where
  "callOk s seat p lvl =
     (if phase_dk_of s \<noteq> DPlay \<or> lvl < 0 \<or> lvl > 4 then False
      else if kind_dk_of s = Hochzeit \<and> partner s < 0 then False
      else if lvl \<le> level s p then False
      else let held = int HAND_dk - int (played_dk s ! seat);
               shift = (if clar s > 1 then int (clar s) - 1 else 0);
               need0 = NEED ! nat lvl - shift;
               need = (if lvl = 0 \<and> level s (opp p) \<ge> 0
                       then min need0 (NEED ! nat (level s (opp p)) - shift - 1) else need0)
           in held \<ge> need)"

datatype act_dk = DkVorbehalt | DkPlay | DkCall | DkOther

record action_dk =
  t_dk :: act_dk
  seat_dk :: "int option"
  v_dk :: val_dk
  card_dk :: "card option"
  p_dk :: "party option"
  a_dk :: call

definition mk_dk :: "act_dk \<Rightarrow> nat \<Rightarrow> action_dk" where
  "mk_dk t seat = \<lparr>t_dk = t, seat_dk = Some (int seat), v_dk = VOther, card_dk = None, p_dk = None, a_dk = COther\<rparr>"

definition say_act :: "nat \<Rightarrow> val_dk \<Rightarrow> action_dk" where
  "say_act seat v = (mk_dk DkVorbehalt seat)\<lparr>v_dk := v\<rparr>"

definition play_dk_act :: "nat \<Rightarrow> card \<Rightarrow> action_dk" where
  "play_dk_act seat c = (mk_dk DkPlay seat)\<lparr>card_dk := Some c\<rparr>"

definition party_call :: "party \<Rightarrow> call" where
  "party_call p = (case p of Re \<Rightarrow> CRe | Kontra \<Rightarrow> CKontra)"

definition call_act :: "nat \<Rightarrow> party \<Rightarrow> call \<Rightarrow> action_dk" where
  "call_act seat p a = (mk_dk DkCall seat)\<lparr>p_dk := Some p, a_dk := a\<rparr>"

definition actions_dk :: "state_dk \<Rightarrow> nat \<Rightarrow> card list \<Rightarrow> action_dk list" where
  "actions_dk s seat h =
     (if phase_dk_of s = DVorbehalt \<and> ask_dk s = int seat then [say_act seat VGesund, say_act seat VVorbehalt]
      else if phase_dk_of s = DAbfrage \<and> ask_dk s = int seat then
        map (\<lambda>k. say_act seat (VKind k)) SOLOS
        @ (if length (filter (\<lambda>c. c = CQ) h) = 2 then [say_act seat (VKind Hochzeit)] else [])
      else if phase_dk_of s \<noteq> DPlay then []
      else
        (if turn_dk s = int seat
         then map (play_dk_act seat) (rev (remdups (rev (legalCards (kind_dk_of s) (cards (trick_dk_of s)) h)))) else [])
        @ (case ownParty s seat h of None \<Rightarrow> [] | Some p \<Rightarrow>
             let lvl = level s p + 1 in
             if lvl \<le> 4 \<and> callOk s seat p lvl
             then [call_act seat p (if lvl = 0 then party_call p else CALLS ! nat lvl)] else []))"

section \<open>Applying an action\<close>

definition say_dk :: "state_dk \<Rightarrow> nat \<Rightarrow> val_dk \<Rightarrow> state_dk answer" where
  "say_dk s seat v =
     (if (phase_dk_of s \<noteq> DVorbehalt \<and> phase_dk_of s \<noteq> DAbfrage) \<or> ask_dk s \<noteq> int seat then fail ''turn''
      else if phase_dk_of s = DVorbehalt then
        (if v \<noteq> VGesund \<and> v \<noteq> VVorbehalt then fail ''value''
         else let s1 = s\<lparr>say := (say s)[seat := Some v],
                         queue := queue s @ (if v = VVorbehalt then [int seat] else [])\<rparr> in
           if int seat \<noteq> dealer_dk s then okay (s1\<lparr>ask_dk := next_dk (int seat) 1\<rparr>)
           else if queue s1 = [] then okay (begin_dk s1 Normal (-1))
           else okay (s1\<lparr>phase_dk_of := DAbfrage, ask_dk := hd (queue s1)\<rparr>))
      else case v of
        VKind k \<Rightarrow>
          if k \<in> set SOLOS then okay (begin_dk (s\<lparr>say := (say s)[seat := Some v]\<rparr>) k (int seat))
          else if k \<noteq> Hochzeit then fail ''value''
          else let s1 = s\<lparr>say := (say s)[seat := Some v],
                          wedding := (if wedding s < 0 then int seat else wedding s)\<rparr>;
                   i = indexOf (queue s) (int seat) in
            if i + 1 < int (length (queue s)) then okay (s1\<lparr>ask_dk := queue s ! nat (i + 1)\<rparr>)
            else okay (begin_dk s1 Hochzeit (wedding s1))
      | _ \<Rightarrow> fail ''value'')"

definition card_count :: "state_dk \<Rightarrow> card \<Rightarrow> nat" where
  "card_count s c = length (filter (\<lambda>x. pcard x = c) (all_plays s))"

definition clarify :: "state_dk \<Rightarrow> int \<Rightarrow> nat \<Rightarrow> state_dk" where
  "clarify s w n =
     (if kind_dk_of s = Hochzeit \<and> partner s < 0 then
        (if w \<noteq> soloist s then s\<lparr>partner := w, clar := n\<rparr>
         else if n = 3 then s\<lparr>kind_dk_of := Karo, clar := 3, wedding := soloist s\<rparr> else s)
      else s)"

definition put_card :: "state_dk \<Rightarrow> nat \<Rightarrow> card option \<Rightarrow> state_dk answer" where
  "put_card s seat co =
     (if phase_dk_of s \<noteq> DPlay then fail ''phase''
      else if turn_dk s \<noteq> int seat then fail ''turn''
      else case co of None \<Rightarrow> fail ''card'' | Some c \<Rightarrow>
      if c \<notin> set DECK_dk then fail ''card''
      else if card_count s c \<ge> 2 then fail ''card''
      else
        let cs = cards (trick_dk_of s) @ [Play (int seat) c];
            s1 = s\<lparr>played_dk := (played_dk s)[seat := played_dk s ! seat + 1]\<rparr> in
        if int (length cs) < SEATS_dk then okay (s1\<lparr>trick_dk_of := (trick_dk_of s)\<lparr>cards := cs\<rparr>\<rparr>)
        else
          let w = trickWinner_dk (kind_dk_of s) cs (rules_dk s);
              t = \<lparr>lead = lead (trick_dk_of s), cards = cs, winner = w, t_eyes = sum_list (map (eyes_dk \<circ> pcard) cs)\<rparr>;
              n = length (tricks_dk s) + 1;
              s2 = (clarify (s1\<lparr>tricks_dk := tricks_dk s @ [t]\<rparr>) w n)\<lparr>trick_dk_of := \<lparr>lead = w, cards = []\<rparr>\<rparr> in
          okay (if n = HAND_dk then s2\<lparr>phase_dk_of := DDone\<rparr> else s2))"

definition call_dk_level :: "party \<Rightarrow> call \<Rightarrow> int" where
  "call_dk_level p a = (if a = party_call p then 0 else indexOf CALLS a)"

definition make_call :: "state_dk \<Rightarrow> nat \<Rightarrow> party option \<Rightarrow> call \<Rightarrow> state_dk answer" where
  "make_call s seat po a =
     (case po of None \<Rightarrow> fail ''format'' | Some p \<Rightarrow>
      let lvl = call_dk_level p a in
      if lvl < 1 \<and> a \<noteq> party_call p then fail ''format''
      else if knownParty s seat \<noteq> None \<and> knownParty s seat \<noteq> Some p then fail ''party''
      else if \<not> callOk s seat p lvl then fail ''late''
      else okay (s\<lparr>level := (level s)(p := lvl), claim := (claim s)[seat := Some p],
                   calls := calls s @ [\<lparr>k_seat = int seat, k_p = p, k_a = a, k_n = played_dk s ! seat\<rparr>]\<rparr>))"

definition apply_dk :: "state_dk \<Rightarrow> action_dk \<Rightarrow> state_dk answer" where
  "apply_dk s a =
     (case seat_dk a of None \<Rightarrow> fail ''format'' | Some z \<Rightarrow>
      if \<not> (0 \<le> z \<and> z < SEATS_dk) then fail ''format''
      else let seat = nat z in
        case t_dk a of DkVorbehalt \<Rightarrow> say_dk s seat (v_dk a)
        | DkPlay \<Rightarrow> put_card s seat (card_dk a)
        | DkCall \<Rightarrow> make_call s seat (p_dk a) (a_dk a)
        | DkOther \<Rightarrow> fail ''type'')"

section \<open>Parties, winner, points\<close>

record parties_dk =
  re_seats :: "int list"
  is_solo :: bool
  silent :: bool

definition queens :: "card list \<Rightarrow> nat" where
  "queens h = length (filter (\<lambda>c. c = CQ) h)"

definition parties :: "state_dk \<Rightarrow> card list list \<Rightarrow> parties_dk" where
  "parties s hands =
     (if kind_dk_of s = Normal then
        (let both = map queens hands; si = indexOf both 2 in
         if si \<ge> 0 then \<lparr>re_seats = [si], is_solo = True, silent = True\<rparr>
         else \<lparr>re_seats = map (\<lambda>(i, n). int i) (filter (\<lambda>(i, n). n \<noteq> 0) (enumerate 0 both)),
               is_solo = False, silent = False\<rparr>)
      else if kind_dk_of s = Hochzeit then \<lparr>re_seats = [soloist s, partner s], is_solo = False, silent = False\<rparr>
      else \<lparr>re_seats = [soloist s], is_solo = True, silent = False\<rparr>)"

definition side :: "int list \<Rightarrow> int \<Rightarrow> party" where
  "side re z = (if z \<in> set re then Re else Kontra)"

definition side_eyes :: "state_dk \<Rightarrow> int list \<Rightarrow> party \<Rightarrow> int" where
  "side_eyes s re p = sum_list (map t_eyes (filter (\<lambda>t. side re (winner t) = p) (tricks_dk s)))"

definition side_tricks :: "state_dk \<Rightarrow> int list \<Rightarrow> party \<Rightarrow> nat" where
  "side_tricks s re p = length (filter (\<lambda>t. side re (winner t) = p) (tricks_dk s))"

datatype target_dk = TricksT nat | EyesT int

text \<open>\<open>target\<close>, from the levels of the two parties; \<open>only\<close>: a call no party answered.\<close>

definition only_dk :: "(party \<Rightarrow> int) \<Rightarrow> party \<Rightarrow> bool" where
  "only_dk L p \<longleftrightarrow> L p \<ge> 0 \<and> L (opp p) < 0"

definition target :: "(party \<Rightarrow> int) \<Rightarrow> party \<Rightarrow> target_dk" where
  "target L p =
     (if L p \<ge> 1 then (if L p = 4 then TricksT HAND_dk else EyesT ([0, 151, 181, 211] ! nat (L p)))
      else let o1 = L (opp p) in
        if o1 \<ge> 1 then (if o1 = 4 then TricksT 1 else EyesT ([0, 90, 60, 30] ! nat o1))
        else if p = Re then EyesT (if only_dk L Kontra then 120 else 121)
        else EyesT (if only_dk L Kontra then 121 else 120))"

definition met :: "(party \<Rightarrow> int) \<Rightarrow> (party \<Rightarrow> int) \<Rightarrow> (party \<Rightarrow> nat) \<Rightarrow> party \<Rightarrow> bool" where
  "met L e tr p = (case target L p of TricksT n \<Rightarrow> tr p \<ge> n | EyesT n \<Rightarrow> e p \<ge> n)"

definition winner_dk :: "(party \<Rightarrow> int) \<Rightarrow> (party \<Rightarrow> int) \<Rightarrow> (party \<Rightarrow> nat) \<Rightarrow> party option" where
  "winner_dk L e tr = (if met L e tr Re then Some Re else if met L e tr Kontra then Some Kontra else None)"

text \<open>A line of the score: its key, its value, the party. \<open>add\<close> leaves out the zeros.\<close>

type_synonym line_dk = "string \<times> int \<times> party"

definition add_dk :: "party \<Rightarrow> string \<Rightarrow> bool \<Rightarrow> int \<Rightarrow> line_dk list" where
  "add_dk p k b v = (if b then [(k, v, p)] else [])"

definition call_names :: "string list" where
  "call_names = [''re'', ''k90'', ''k60'', ''k30'', ''schwarz'']"

definition party_lines ::
    "(party \<Rightarrow> int) \<Rightarrow> (party \<Rightarrow> int) \<Rightarrow> (party \<Rightarrow> nat) \<Rightarrow> party option \<Rightarrow> party \<Rightarrow> line_dk list" where
  "party_lines L e tr w p =
     (let o1 = opp p; ol = L o1 in
      add_dk p ''gewonnen'' (w = Some p) 1
      @ (if w = Some p \<or> w = None then
           add_dk p ''unter90'' (e o1 < 90) 1 @ add_dk p ''unter60'' (e o1 < 60) 1
           @ add_dk p ''unter30'' (e o1 < 30) 1 @ add_dk p ''schwarz'' (tr o1 = 0) 1 else [])
      @ (if w = Some p then
           add_dk p ''re'' (L Re \<ge> 0) 2 @ add_dk p ''kontra'' (L Kontra \<ge> 0) 2
           @ concat (map (\<lambda>q. map (\<lambda>l. (''abgesagt_'' @ call_names ! nat l, 1, p)) [1..L q]) [Re, Kontra]) else [])
      @ add_dk p ''gegen_k90'' (ol \<ge> 1 \<and> e p \<ge> 120) 1 @ add_dk p ''gegen_k60'' (ol \<ge> 2 \<and> e p \<ge> 90) 1
      @ add_dk p ''gegen_k30'' (ol \<ge> 3 \<and> e p \<ge> 60) 1 @ add_dk p ''gegen_schwarz'' (ol \<ge> 4 \<and> e p \<ge> 30) 1)"

definition trick_lines :: "int list \<Rightarrow> nat \<Rightarrow> trick_dk \<Rightarrow> line_dk list" where
  "trick_lines re i t =
     (let w = side re (winner t) in
      add_dk w ''doppelkopf'' (t_eyes t \<ge> 40) 1
      @ concat (map (\<lambda>x. add_dk w ''fuchs'' (pcard x = Card SuitD RankA \<and> side re (pseat x) \<noteq> w) 1) (cards t))
      @ add_dk w ''karlchen'' (i = HAND_dk - 1 \<and>
          (case filter (\<lambda>x. pseat x = winner t) (cards t) of [] \<Rightarrow> False | x # _ \<Rightarrow> pcard x = Card SuitC RankJ)) 1)"

definition special_lines :: "state_dk \<Rightarrow> parties_dk \<Rightarrow> party option \<Rightarrow> line_dk list" where
  "special_lines s P w =
     (if \<not> is_solo P \<and> kind_dk_of s \<noteq> Karo then
        add_dk Kontra ''gegen_die_alten'' (w = Some Kontra) 1
        @ (if has_dk s ''nosp'' then []
           else concat (map (\<lambda>(i, t). trick_lines (re_seats P) i t) (enumerate 0 (tricks_dk s))))
      else [])"

record result_dk =
  winner_of :: "party option"
  why_of :: "kind_dk \<times> bool"
  solo_of :: bool
  re_of :: "int list"
  value_of :: int
  points_of :: "int list"
  eyes_of :: "party \<Rightarrow> int"
  tricks_of :: "party \<Rightarrow> nat"
  lines_of :: "line_dk list"

definition side_points :: "line_dk list \<Rightarrow> party \<Rightarrow> int" where
  "side_points ls p = sum_list (map (\<lambda>(k, v, q). if q = p then v else 0) ls)"

definition result_of_dk :: "state_dk \<Rightarrow> card list list \<Rightarrow> result_dk" where
  "result_of_dk s hands =
     (let P = parties s hands; e = side_eyes s (re_seats P); tr = side_tricks s (re_seats P); L = level s;
          w = winner_dk L e tr;
          lines = party_lines L e tr w Re @ party_lines L e tr w Kontra @ special_lines s P w;
          v = side_points lines Re - side_points lines Kontra;
          points = map (\<lambda>seat. if is_solo P then (if seat = hd (re_seats P) then 3 * v else - v)
                     else if side (re_seats P) seat = Re then v else - v) [0, 1, 2, 3]
      in \<lparr>winner_of = w, why_of = (kind_dk_of s, silent P), solo_of = is_solo P, re_of = re_seats P, value_of = \<bar>v\<bar>, points_of = points,
          eyes_of = e, tricks_of = tr, lines_of = lines\<rparr>)"

section \<open>The audit\<close>

definition audit_card_dk ::
    "kind_dk \<Rightarrow> card list list \<times> card option \<times> (int \<times> string) list \<Rightarrow> play
     \<Rightarrow> (card list list \<times> card option \<times> (int \<times> string) list) option" where
  "audit_card_dk k st x = (case st of (left, ld, out) \<Rightarrow>
     if \<not> (0 \<le> pseat x \<and> nat (pseat x) < length left) then None
     else let h = left ! nat (pseat x) in
       if pcard x \<notin> set h then Some (left, ld, out @ [(pseat x, ''karte'')])
       else Some (left[nat (pseat x) := remove1 (pcard x) h],
         (case ld of None \<Rightarrow> Some (pcard x) | Some c \<Rightarrow> Some c),
         out @ (case ld of None \<Rightarrow> [] | Some c \<Rightarrow>
           if follows k (pcard x) \<noteq> follows k c \<and> list_ex (\<lambda>d. follows k d = follows k c) h
           then [(pseat x, ''bedienen'')] else [])))"

fun audit_trick_dk ::
    "kind_dk \<Rightarrow> card list list \<times> card option \<times> (int \<times> string) list \<Rightarrow> play list
     \<Rightarrow> (card list list \<times> card option \<times> (int \<times> string) list) option" where
  "audit_trick_dk k st [] = Some st"
| "audit_trick_dk k st (x # xs) = (case audit_card_dk k st x of None \<Rightarrow> None | Some st' \<Rightarrow> audit_trick_dk k st' xs)"

fun audit_tricks_dk ::
    "kind_dk \<Rightarrow> card list list \<times> (int \<times> string) list \<Rightarrow> play list list
     \<Rightarrow> (card list list \<times> (int \<times> string) list) option" where
  "audit_tricks_dk k st [] = Some st"
| "audit_tricks_dk k st (t # ts) = (case st of (left, out) \<Rightarrow>
     case audit_trick_dk k (left, None, out) t of None \<Rightarrow> None
     | Some (left', _, out') \<Rightarrow> audit_tricks_dk k (left', out') ts)"

definition audit_dk :: "state_dk \<Rightarrow> card list list \<Rightarrow> (int \<times> string) list option" where
  "audit_dk s hands =
     (let P = parties s hands;
          out0 = map (\<lambda>(i, h). (int i, ''blatt'')) (filter (\<lambda>(i, h). length h \<noteq> HAND_dk) (enumerate 0 hands));
          out1 = (if sort (concat hands) \<noteq> sort DECK_dk then [(-1, ''deck'')] else []) in
      case audit_tricks_dk (kind_dk_of s) (hands, out0 @ out1)
             (map cards (tricks_dk s) @ (if cards (trick_dk_of s) = [] then [] else [cards (trick_dk_of s)]))
      of None \<Rightarrow> None
      | Some (_, out) \<Rightarrow>
        if \<exists>(i, v) \<in> set (enumerate 0 (say s)). v = Some (VKind Hochzeit) \<and> length hands \<le> i then None
        else Some (out
          @ map (\<lambda>(i, v). (int i, ''hochzeit''))
              (filter (\<lambda>(i, v). v = Some (VKind Hochzeit) \<and> queens (hands ! i) \<noteq> 2) (enumerate 0 (say s)))
          @ map (\<lambda>c. (k_seat c, ''ansage'')) (filter (\<lambda>c. k_p c \<noteq> side (re_seats P) (k_seat c)) (calls s))))"

section \<open>The automatic player\<close>

definition weak_key :: "kind_dk \<Rightarrow> led option \<Rightarrow> card \<Rightarrow> int \<times> int \<times> card" where
  "weak_key k l c = (power_dk k c (case l of None \<Rightarrow> follows k c | Some x \<Rightarrow> x), eyes_dk c, c)"

definition weakest :: "kind_dk \<Rightarrow> card list \<Rightarrow> play list \<Rightarrow> card" where
  "weakest k cs t =
     hd (sort_key (weak_key k (case t of [] \<Rightarrow> None | x # _ \<Rightarrow> Some (follows k (pcard x)))) cs)"

definition most_trumps :: "card list \<Rightarrow> kind_dk" where
  "most_trumps h = snd (foldl (\<lambda>(most, b) v. let n = int (length (filter (isTrump_dk v) h)) in
     if n > most then (n, v) else (most, b)) (-1, Normal) SOLOS)"

definition auto_dk :: "state_dk \<Rightarrow> nat \<Rightarrow> card list \<Rightarrow> action_dk option" where
  "auto_dk s seat h =
     (if turn_dk s \<noteq> int seat then None
      else let acts = actions_dk s seat h in
      if phase_dk_of s = DVorbehalt then Some (hd acts)
      else if phase_dk_of s = DAbfrage then
        (case filter (\<lambda>a. v_dk a = VKind Hochzeit) acts of a # _ \<Rightarrow> Some a
         | [] \<Rightarrow> Some (say_act seat (VKind (most_trumps h))))
      else let cs = map (\<lambda>a. the (card_dk a)) (filter (\<lambda>a. t_dk a = DkPlay) acts) in
        if cs \<noteq> [] then Some (play_dk_act seat (weakest (kind_dk_of s) cs (cards (trick_dk_of s)))) else None)"

definition layout_dk :: "nat list list" where
  "layout_dk = map (\<lambda>s. map (\<lambda>i. s * HAND_dk + i) [0..<HAND_dk]) [0..<nat SEATS_dk]"

end
