(* ===== verification/Doko_Correct.thy ===== *)
theory Doko_Correct
  imports Doko Rules_Interface
begin

text \<open>
  What every state of a Doppelkopf hand has, that every action keeps it so, who wins a trick, and
  that a hand ends after at most 66 actions.
\<close>

section \<open>Who wins a trick\<close>

lemma isTrump_set: "isTrump_dk k c \<longleftrightarrow> c \<in> set (trumps k)"
  by (simp add: isTrump_dk_def indexOf_nonneg_iff)

lemma trumps_le: "length (trumps k) \<le> 13"
  by (cases k) (simp_all add: trumps_def QUEENS_dk_def JACKS_dk_def HT_def Let_def)

lemma power_trump: "isTrump_dk k c \<Longrightarrow> power_dk k c l = 1000 - indexOf (trumps k) c \<and> 987 \<le> power_dk k c l"
  using indexOf_bound [of c "trumps k"] trumps_le [of k] unfolding isTrump_set [symmetric]
  by (simp add: power_dk_def Let_def isTrump_dk_def)

lemma plainOrder_le: "indexOf (plainOrder k) r \<le> 5"
  by (cases k; cases r) (simp_all add: plainOrder_def)

lemma power_plain: "\<not> isTrump_dk k c \<Longrightarrow> power_dk k c l =
    (if Plain (suit c) = l then 100 - indexOf (plainOrder k) (rank c) else -1)"
  by (simp add: power_dk_def isTrump_dk_def Let_def)

lemma power_plain_bounds: "\<not> isTrump_dk k c \<Longrightarrow> power_dk k c l \<le> 101"
  using indexOf_ge [of "plainOrder k" "rank c"] by (simp add: power_plain)

text \<open>A card with the power of a trump Heart Ten is a Heart Ten.\<close>

lemma power_HT:
  assumes "isTrump_dk k HT" "power_dk k c l = power_dk k HT l"
  shows "c = HT"
proof -
  have "987 \<le> power_dk k c l" using power_trump [OF assms(1), of l] assms(2) by simp
  then have t: "isTrump_dk k c" using power_plain_bounds [of k c l] by fastforce
  then show ?thesis
    using assms power_trump [of k c l] power_trump [of k HT l] indexOf_inj [of c "trumps k" HT]
    by (simp add: isTrump_set)
qed

text \<open>What it takes to win a trick: the strongest card by the order of the game.\<close>

definition outranks :: "kind_dk \<Rightarrow> card \<Rightarrow> card \<Rightarrow> card \<Rightarrow> bool" where
  "outranks k l c d \<longleftrightarrow>
     (if isTrump_dk k c then (isTrump_dk k d \<longrightarrow> indexOf (trumps k) c \<le> indexOf (trumps k) d)
      else follows k c = follows k l \<and> \<not> isTrump_dk k d
        \<and> (suit d = suit c \<longrightarrow> indexOf (plainOrder k) (rank c) \<le> indexOf (plainOrder k) (rank d)))"

text \<open>
  C14: the winner of a Doppelkopf trick. Some card \<open>i\<close> of the trick wins it: no card of the trick
  outranks it, and among equal cards it is the first one, except for the trump Heart Ten under the
  house rule \<open>dulle\<close>, of which the last one wins.
\<close>

theorem doko_trick_winner:
  assumes ne: "cs \<noteq> []"
  shows "\<exists>i < length cs. trickWinner_dk k cs rs = pseat (cs ! i)
    \<and> (\<forall>j < length cs. outranks k (pcard (hd cs)) (pcard (cs ! i)) (pcard (cs ! j)))
    \<and> (if dulle_on k rs \<and> pcard (cs ! i) = HT then \<forall>j < length cs. i < j \<longrightarrow> pcard (cs ! j) \<noteq> pcard (cs ! i)
       else \<forall>j < i. pcard (cs ! j) \<noteq> pcard (cs ! i))"
proof -
  define l where "l = follows k (pcard (hd cs))"
  define p where "p x = power_dk k (pcard x) l" for x
  define t where "t x = (dulle_on k rs \<and> pcard x = HT)" for x
  define i where "i = bestIndex_dk k cs rs"
  have i_eq: "i = best_at (\<lambda>y z. p y > p z \<or> p y = p z \<and> t y) cs"
    by (simp add: i_def bestIndex_dk_def p_def t_def l_def Let_def)
  have one: "t y" if "p y = p x" "t x" for x y
  proof -
    have ht: "isTrump_dk k HT" "pcard x = HT" using that(2) by (simp_all add: t_def dulle_on_def)
    have "power_dk k (pcard y) l = power_dk k HT l" using that(1) ht(2) by (simp add: p_def)
    with ht(1) have "pcard y = HT" by (rule power_HT)
    then show ?thesis using that(2) by (simp add: t_def)
  qed
  have tie: "t x = t y" if "p x = p y" for x y using one [OF that] one [OF that [symmetric]] by blast
  note b = best_at_tie [of cs p t, OF ne tie, folded i_eq]
  let ?c = "pcard (cs ! i)"
  have p0: "\<not> isTrump_dk k (pcard (hd cs)) \<longrightarrow> 95 \<le> p (hd cs)"
    using plainOrder_le [of k "rank (pcard (hd cs))"] by (simp add: p_def l_def power_plain follows_def)
  have hd: "p (hd cs) \<le> p (cs ! i)" 
    using b(2) [rule_format, of 0] ne by (simp add: hd_conv_nth)
  have led: "isTrump_dk k ?c \<or> follows k ?c = l"
  proof (cases "isTrump_dk k (pcard (hd cs))")
    case True
    then have "987 \<le> p (cs ! i)" using hd power_trump [OF True, of l] by (simp add: p_def)
    then show ?thesis using power_plain_bounds [of k ?c l] by (force simp: p_def)
  next
    case False
    then show ?thesis using hd p0 power_plain [of k ?c l] by (auto simp: p_def l_def follows_def split: if_splits)
  qed
  have "outranks k (pcard (hd cs)) ?c (pcard (cs ! j))" if "j < length cs" for j
  proof (cases "isTrump_dk k ?c")
    case True
    then show ?thesis
      using b(2) that power_trump [OF True, of l] power_trump [of k "pcard (cs ! j)" l]
      by (auto simp: outranks_def p_def)
  next
    case False
    then have "p (cs ! i) \<le> 101" using power_plain_bounds by (simp add: p_def)
    then have nt: "\<not> isTrump_dk k (pcard (cs ! j))"
      using b(2) that power_trump [of k "pcard (cs ! j)" l] by (force simp: p_def)
    moreover have "indexOf (plainOrder k) (rank ?c) \<le> indexOf (plainOrder k) (rank (pcard (cs ! j)))"
      if "suit (pcard (cs ! j)) = suit ?c"
    proof -
      have "p (cs ! j) \<le> p (cs ! i)" using b(2) \<open>j < length cs\<close> by blast
      moreover have "Plain (suit ?c) = l" using led False by (simp add: follows_def)
      ultimately show ?thesis using that nt False by (simp add: p_def power_plain)
    qed
    ultimately show ?thesis using False led by (simp add: outranks_def l_def)
  qed
  moreover have "trickWinner_dk k cs rs = pseat (cs ! i)" by (simp add: trickWinner_dk_def i_def)
  moreover have "if dulle_on k rs \<and> ?c = HT then \<forall>j < length cs. i < j \<longrightarrow> pcard (cs ! j) \<noteq> ?c
       else \<forall>j < i. pcard (cs ! j) \<noteq> ?c"
    using b(3,4) by (auto simp: t_def p_def)
  ultimately show ?thesis using b(1) by blast
qed

theorem doko_trick_winner_witness:
  "trickWinner_dk Normal [Play 0 HT, Play 1 CQ, Play 2 HT, Play 3 (Card SuitD RankA)] [''dulle''] = 2 \<and>
   (\<exists>i < length [Play 0 HT, Play 1 CQ, Play 2 HT, Play 3 (Card SuitD RankA)].
      trickWinner_dk Normal [Play 0 HT, Play 1 CQ, Play 2 HT, Play 3 (Card SuitD RankA)] [''dulle'']
        = pseat ([Play 0 HT, Play 1 CQ, Play 2 HT, Play 3 (Card SuitD RankA)] ! i))"
proof
  show "trickWinner_dk Normal [Play 0 HT, Play 1 CQ, Play 2 HT, Play 3 (Card SuitD RankA)] [''dulle''] = 2"
    by code_simp
  show "\<exists>i < length [Play 0 HT, Play 1 CQ, Play 2 HT, Play 3 (Card SuitD RankA)].
      trickWinner_dk Normal [Play 0 HT, Play 1 CQ, Play 2 HT, Play 3 (Card SuitD RankA)] [''dulle'']
        = pseat ([Play 0 HT, Play 1 CQ, Play 2 HT, Play 3 (Card SuitD RankA)] ! i)"
    using doko_trick_winner [of "[Play 0 HT, Play 1 CQ, Play 2 HT, Play 3 (Card SuitD RankA)]" Normal "[''dulle'']"] by blast
qed

section \<open>The invariant\<close>

definition seat4 :: "int \<Rightarrow> bool" where
  "seat4 z \<longleftrightarrow> 0 \<le> z \<and> z < 4"

definition seats_dk :: "int \<Rightarrow> play list \<Rightarrow> bool" where
  "seats_dk l cs \<longleftrightarrow> map pseat cs = map (\<lambda>i. (l + int i) mod 4) [0..<length cs]"

definition shape_dk :: "kind_dk \<Rightarrow> string list \<Rightarrow> trick_dk \<Rightarrow> bool" where
  "shape_dk k rs t \<longleftrightarrow> seat4 (lead t) \<and> length (cards t) = 4 \<and> seats_dk (lead t) (cards t)
     \<and> winner t = trickWinner_dk k (cards t) rs \<and> t_eyes t = sum_list (map (eyes_dk \<circ> pcard) (cards t))"

fun chain_dk :: "int \<Rightarrow> trick_dk list \<Rightarrow> int \<Rightarrow> bool" where
  "chain_dk l [] e \<longleftrightarrow> l = e"
| "chain_dk l (t # ts) e \<longleftrightarrow> lead t = l \<and> chain_dk (winner t) ts e"

definition by_seat :: "state_dk \<Rightarrow> int \<Rightarrow> nat" where
  "by_seat s z = length (filter (\<lambda>x. pseat x = z) (all_plays s))"

definition table_dk :: "state_dk \<Rightarrow> bool" where
  "table_dk s \<longleftrightarrow> (\<forall>t \<in> set (tricks_dk s). shape_dk (kind_dk_of s) (rules_dk s) t)
     \<and> chain_dk ((dealer_dk s + 1) mod 4) (tricks_dk s) (lead (trick_dk_of s))
     \<and> (\<forall>c. card_count s c \<le> 2) \<and> (\<forall>x \<in> set (all_plays s). pcard x \<in> set DECK_dk)
     \<and> played_dk s = map (by_seat s) [0, 1, 2, 3]"

text \<open>The marriage: no partner yet while the soloist took every trick, at most two of them.\<close>

definition kind_ok :: "state_dk \<Rightarrow> bool" where
  "kind_ok s \<longleftrightarrow> (case kind_dk_of s of
       Normal \<Rightarrow> soloist s = -1
     | Hochzeit \<Rightarrow> seat4 (soloist s) \<and>
         (partner s = -1 \<and> length (tricks_dk s) < 3 \<and> (\<forall>t \<in> set (tricks_dk s). winner t = soloist s)
          \<or> seat4 (partner s) \<and> partner s \<noteq> soloist s)
     | _ \<Rightarrow> seat4 (soloist s))"

definition levels_ok :: "state_dk \<Rightarrow> bool" where
  "levels_ok s \<longleftrightarrow> (\<forall>p. -1 \<le> level s p \<and> level s p \<le> 4) \<and> length (claim s) = 4"

definition quiet_dk :: "state_dk \<Rightarrow> bool" where
  "quiet_dk s \<longleftrightarrow> tricks_dk s = [] \<and> cards (trick_dk_of s) = [] \<and> played_dk s = [0, 0, 0, 0] \<and> calls s = []
     \<and> level s = (\<lambda>_. -1) \<and> claim s = [None, None, None, None] \<and> kind_dk_of s = Normal \<and> soloist s = -1
     \<and> partner s = -1 \<and> clar s = 0"

definition phase_ok_dk :: "state_dk \<Rightarrow> bool" where
  "phase_ok_dk s = (case phase_dk_of s of
       DVorbehalt \<Rightarrow> quiet_dk s \<and> seat4 (ask_dk s) \<and> wedding s = -1 \<and> distinct (queue s)
         \<and> (\<forall>z \<in> set (queue s). seat4 z \<and> (dealer_dk s - ask_dk s) mod 4 < (dealer_dk s - z) mod 4)
     | DAbfrage \<Rightarrow> quiet_dk s \<and> ask_dk s \<in> set (queue s) \<and> distinct (queue s) \<and> (\<forall>z \<in> set (queue s). seat4 z)
         \<and> (wedding s = -1 \<or> wedding s \<in> set (queue s))
     | DPlay \<Rightarrow> kind_ok s \<and> table_dk s \<and> seat4 (lead (trick_dk_of s))
         \<and> seats_dk (lead (trick_dk_of s)) (cards (trick_dk_of s)) \<and> length (cards (trick_dk_of s)) < 4
         \<and> length (tricks_dk s) < 12
     | DDone \<Rightarrow> kind_ok s \<and> table_dk s \<and> cards (trick_dk_of s) = [] \<and> length (tricks_dk s) = 12)"

definition inv_dk :: "state_dk \<Rightarrow> bool" where
  "inv_dk s \<longleftrightarrow> seat4 (dealer_dk s) \<and> length (say s) = 4 \<and> levels_ok s \<and> phase_ok_dk s"

definition left_dk :: "state_dk \<Rightarrow> nat" where
  "left_dk s = (case phase_dk_of s of DVorbehalt \<Rightarrow> nat ((dealer_dk s - ask_dk s) mod 4) + 5
       | DAbfrage \<Rightarrow> nat (4 - indexOf (queue s) (ask_dk s)) | _ \<Rightarrow> 0)
     + (48 - length (all_plays s)) + nat (4 - level s Re) + nat (4 - level s Kontra)"

definition init_dk :: "state_dk \<Rightarrow> bool" where
  "init_dk s \<longleftrightarrow> (\<exists>d r. s = start_dk d r \<and> (case d of None \<Rightarrow> True | Some x \<Rightarrow> 0 \<le> int32 x))"

section \<open>Branches\<close>

lemma next_dk_mod: "0 \<le> z + n \<Longrightarrow> next_dk z n = (z + n) mod 4"
  by (simp add: next_dk_def SEATS_dk_def js_rem_nonneg)

lemma seat4_mod [simp]: "seat4 (x mod 4)"
  by (simp add: seat4_def)

lemma apply_dk_cases:
  assumes "apply_dk s a = Inr s'"
  obtains (say) z where "z < 4" "seat_dk a = Some (int z)" "t_dk a = DkVorbehalt" "say_dk s z (v_dk a) = Inr s'"
  | (put) z where "z < 4" "seat_dk a = Some (int z)" "t_dk a = DkPlay" "put_card s z (card_dk a) = Inr s'"
  | (call) z where "z < 4" "seat_dk a = Some (int z)" "t_dk a = DkCall" "make_call s z (p_dk a) (a_dk a) = Inr s'"
proof -
  obtain x where x: "seat_dk a = Some x" "0 \<le> x" "x < 4"
    using assms by (auto simp: apply_dk_def SEATS_dk_def split: option.splits if_splits)
  then obtain z where z: "x = int z" "z < 4" using zero_le_imp_eq_int by force
  show thesis
    using assms x z that by (cases "t_dk a") (auto simp: apply_dk_def SEATS_dk_def)
qed

lemma say_dk_cases:
  assumes "say_dk s z v = Inr s'"
  obtains
    (more) "phase_dk_of s = DVorbehalt" "ask_dk s = int z" "int z \<noteq> dealer_dk s"
      "s' = s\<lparr>say := (say s)[z := Some v], queue := queue s @ (if v = VVorbehalt then [int z] else []), ask_dk := next_dk (int z) 1\<rparr>"
  | (normal) "phase_dk_of s = DVorbehalt" "ask_dk s = int z" "int z = dealer_dk s" "queue s = []" "v = VGesund"
      "s' = begin_dk (s\<lparr>say := (say s)[z := Some v], queue := []\<rparr>) Normal (-1)"
  | (asked) q qs where "phase_dk_of s = DVorbehalt" "ask_dk s = int z" "int z = dealer_dk s"
      "queue s @ (if v = VVorbehalt then [int z] else []) = q # qs"
      "s' = s\<lparr>say := (say s)[z := Some v], queue := q # qs, phase_dk_of := DAbfrage, ask_dk := q\<rparr>"
  | (solo) k where "phase_dk_of s = DAbfrage" "ask_dk s = int z" "v = VKind k" "k \<in> set SOLOS"
      "s' = begin_dk (s\<lparr>say := (say s)[z := Some v]\<rparr>) k (int z)"
  | (wed) "phase_dk_of s = DAbfrage" "ask_dk s = int z" "v = VKind Hochzeit" "indexOf (queue s) (int z) + 1 < int (length (queue s))"
      "s' = s\<lparr>say := (say s)[z := Some v], wedding := (if wedding s < 0 then int z else wedding s),
         ask_dk := queue s ! nat (indexOf (queue s) (int z) + 1)\<rparr>"
  | (married) "phase_dk_of s = DAbfrage" "ask_dk s = int z" "v = VKind Hochzeit"
      "s' = begin_dk (s\<lparr>say := (say s)[z := Some v], wedding := (if wedding s < 0 then int z else wedding s)\<rparr>) Hochzeit
         (if wedding s < 0 then int z else wedding s)"
proof (cases "phase_dk_of s")
  case DVorbehalt
  then have b: "ask_dk s = int z" "v = VGesund \<or> v = VVorbehalt" using assms by (auto simp: say_dk_def split: if_splits)
  show thesis
  proof (cases "int z = dealer_dk s")
    case False
    then show ?thesis using assms DVorbehalt b by (intro more) (auto simp: say_dk_def Let_def)
  next
    case True
    show ?thesis
    proof (cases "queue s @ (if v = VVorbehalt then [int z] else [])")
      case Nil
      then show ?thesis using assms DVorbehalt b True by (intro normal) (auto simp: say_dk_def Let_def split: if_splits)
    next
      case (Cons q qs)
      then show ?thesis using assms DVorbehalt b True by (intro asked [of q qs]) (auto simp: say_dk_def Let_def)
    qed
  qed
next
  case DAbfrage
  then have b: "ask_dk s = int z" using assms by (auto simp: say_dk_def split: if_splits)
  obtain k where k: "v = VKind k" using assms DAbfrage b by (cases v) (auto simp: say_dk_def)
  show thesis
  proof (cases "k \<in> set SOLOS")
    case True
    then show ?thesis using assms DAbfrage b k by (intro solo [of k]) (auto simp: say_dk_def)
  next
    case False
    then have h: "k = Hochzeit" using assms DAbfrage b k by (auto simp: say_dk_def split: if_splits)
    then have "Hochzeit \<notin> set SOLOS" using False by simp
    then show ?thesis using assms DAbfrage b k h wed married
      by (cases "indexOf (queue s) (int z) + 1 < int (length (queue s))") (auto simp: say_dk_def Let_def)
  qed
qed (use assms in \<open>auto simp: say_dk_def\<close>)

lemma put_card_cases:
  assumes "put_card s z co = Inr s'"
  obtains c cs s1 where "phase_dk_of s = DPlay" "turn_dk s = int z" "co = Some c" "c \<in> set DECK_dk" "card_count s c < 2"
    "cs = cards (trick_dk_of s) @ [Play (int z) c]" "s1 = s\<lparr>played_dk := (played_dk s)[z := played_dk s ! z + 1]\<rparr>"
    "s' = (if length cs < 4 then s1\<lparr>trick_dk_of := (trick_dk_of s)\<lparr>cards := cs\<rparr>\<rparr>
       else let w = trickWinner_dk (kind_dk_of s) cs (rules_dk s);
              t = \<lparr>lead = lead (trick_dk_of s), cards = cs, winner = w, t_eyes = sum_list (map (eyes_dk \<circ> pcard) cs)\<rparr>;
              n = length (tricks_dk s) + 1;
              s2 = (clarify (s1\<lparr>tricks_dk := tricks_dk s @ [t]\<rparr>) w n)\<lparr>trick_dk_of := \<lparr>lead = w, cards = []\<rparr>\<rparr> in
            if n = 12 then s2\<lparr>phase_dk_of := DDone\<rparr> else s2)"
proof -
  obtain c where c: "phase_dk_of s = DPlay" "turn_dk s = int z" "co = Some c" "c \<in> set DECK_dk" "card_count s c < 2"
    using assms by (auto simp: put_card_def not_le split: option.splits if_splits)
  show thesis
    by (rule that [OF c refl refl])
      (use assms c in \<open>auto simp: put_card_def Let_def SEATS_dk_def HAND_dk_def split: if_splits\<close>)
qed

section \<open>Every action keeps the invariant\<close>

lemma seat4_iff: "seat4 z \<longleftrightarrow> z = 0 \<or> z = 1 \<or> z = 2 \<or> z = 3"
  by (auto simp: seat4_def)

lemma ask_next:
  "seat4 d \<Longrightarrow> seat4 z \<Longrightarrow> d \<noteq> z \<Longrightarrow> (d - (z + 1) mod 4) mod 4 + 1 = (d - z) mod 4"
  by (auto simp: seat4_iff)

lemma quiet_table:
  assumes "quiet_dk s" "seat4 (dealer_dk s)"
  shows "table_dk (begin_dk s k so)" "all_plays (begin_dk s k so) = []"
    "lead (trick_dk_of (begin_dk s k so)) = (dealer_dk s + 1) mod 4" "cards (trick_dk_of (begin_dk s k so)) = []"
  using assms by (auto simp: quiet_dk_def table_dk_def begin_dk_def all_plays_def card_count_def by_seat_def fun_eq_iff
      next_dk_mod seat4_def)

lemma inv_init_dk: "init_dk s \<Longrightarrow> inv_dk s"
  by (auto simp: init_dk_def start_dk_def Let_def inv_dk_def phase_ok_dk_def quiet_dk_def levels_ok_def SEATS_dk_def
      js_rem_nonneg next_dk_mod seat4_def split: option.splits)

lemma begin_frame [simp]:
  "phase_dk_of (begin_dk s k so) = DPlay" "dealer_dk (begin_dk s k so) = dealer_dk s" "kind_dk_of (begin_dk s k so) = k"
  "soloist (begin_dk s k so) = so" "partner (begin_dk s k so) = partner s" "say (begin_dk s k so) = say s"
  "level (begin_dk s k so) = level s" "claim (begin_dk s k so) = claim s" "tricks_dk (begin_dk s k so) = tricks_dk s"
  "calls (begin_dk s k so) = calls s" "clar (begin_dk s k so) = clar s" "played_dk (begin_dk s k so) = played_dk s"
  "rules_dk (begin_dk s k so) = rules_dk s" "wedding (begin_dk s k so) = wedding s"
  by (simp_all add: begin_dk_def)

lemma begin_inv:
  assumes "quiet_dk s" "seat4 (dealer_dk s)" "length (say s) = 4" "k = Normal \<and> so = -1 \<or> k \<noteq> Normal \<and> seat4 so"
  shows "inv_dk (begin_dk s k so)"
proof -
  have "kind_ok (begin_dk s k so)" using assms(1,4) by (cases k) (auto simp: kind_ok_def quiet_dk_def)
  then show ?thesis
    using assms quiet_table [OF assms(1,2), of k so]
    by (auto simp: inv_dk_def phase_ok_dk_def levels_ok_def quiet_dk_def seats_dk_def)
qed

lemma inv_say:
  assumes I: "inv_dk s" and z: "z < 4" and ok: "say_dk s z v = Inr s'"
  shows "inv_dk s'"
proof -
  have z4: "seat4 (int z)" using z by (simp add: seat4_def)
  from ok show ?thesis
  proof (cases rule: say_dk_cases)
    case more
    have d: "seat4 (dealer_dk s)" and P: "quiet_dk s" "wedding s = -1" "distinct (queue s)" "length (say s) = 4" "levels_ok s"
      and q: "\<forall>y \<in> set (queue s). seat4 y \<and> (dealer_dk s - int z) mod 4 < (dealer_dk s - y) mod 4"
      using I more(1,2) by (auto simp: inv_dk_def phase_ok_dk_def)
    have n: "next_dk (int z) 1 = (int z + 1) mod 4" by (simp add: next_dk_mod)
    have step: "(dealer_dk s - (int z + 1) mod 4) mod 4 < (dealer_dk s - int z) mod 4"
      using ask_next [OF d z4] more(3) by simp
    have "int z \<notin> set (queue s)" using q by auto
    then have "distinct (queue s')" using P(3) more(4) by auto
    moreover have "\<forall>y \<in> set (queue s'). seat4 y \<and> (dealer_dk s - (int z + 1) mod 4) mod 4 < (dealer_dk s - y) mod 4"
      using q step z4 more(4) by (auto simp del: mod_diff_right_eq intro: less_trans)
    moreover have "phase_dk_of s' = DVorbehalt" "quiet_dk s'" "ask_dk s' = (int z + 1) mod 4" "dealer_dk s' = dealer_dk s"
      "wedding s' = -1" "length (say s') = 4" "levels_ok s'"
      using more(1) P by (simp_all add: more(4) quiet_dk_def n levels_ok_def)
    ultimately show ?thesis using d by (simp add: inv_dk_def phase_ok_dk_def del: mod_diff_right_eq)
  next
    case normal
    then show ?thesis unfolding normal(6)
      by (intro begin_inv) (use I in \<open>auto simp: inv_dk_def phase_ok_dk_def quiet_dk_def\<close>)
  next
    case (asked q qs)
    have P: "quiet_dk s" "wedding s = -1" "distinct (queue s)" "length (say s) = 4" "levels_ok s" "seat4 (dealer_dk s)"
      and q: "\<forall>y \<in> set (queue s). seat4 y \<and> (dealer_dk s - int z) mod 4 < (dealer_dk s - y) mod 4"
      using I asked(1,2) by (auto simp: inv_dk_def phase_ok_dk_def)
    have "int z \<notin> set (queue s)" using q by auto
    then have "distinct (queue s @ (if v = VVorbehalt then [int z] else []))" using P(3) by auto
    moreover have "\<forall>y \<in> set (queue s @ (if v = VVorbehalt then [int z] else [])). seat4 y" using q z4 by auto
    ultimately have "distinct (q # qs)" "\<forall>y \<in> set (q # qs). seat4 y" unfolding asked(4) .
    then show ?thesis using P by (simp add: asked(5) inv_dk_def phase_ok_dk_def quiet_dk_def levels_ok_def)
  next
    case (solo k)
    then have "k \<noteq> Normal" by (auto simp: SOLOS_def)
    then show ?thesis unfolding solo(5)
      by (intro begin_inv) (use I solo(1) z4 in \<open>auto simp: inv_dk_def phase_ok_dk_def quiet_dk_def\<close>)
  next
    case wed
    let ?i = "indexOf (queue s) (int z)"
    have P: "quiet_dk s" "ask_dk s \<in> set (queue s)" "distinct (queue s)" "\<forall>y \<in> set (queue s). seat4 y"
      "wedding s = -1 \<or> wedding s \<in> set (queue s)" "length (say s) = 4" "levels_ok s" "seat4 (dealer_dk s)"
      using I wed(1) by (auto simp: inv_dk_def phase_ok_dk_def)
    have "queue s ! nat (?i + 1) \<in> set (queue s)"
      using wed(2,4) P(2) indexOf_bound [of "int z" "queue s"] by (intro nth_mem) auto
    then show ?thesis using P wed(1,2)
      by (auto simp: wed(5) inv_dk_def phase_ok_dk_def quiet_dk_def levels_ok_def)
  next
    case married
    have "wedding s = -1 \<or> seat4 (wedding s)" using I married(1) by (auto simp: inv_dk_def phase_ok_dk_def)
    then have "seat4 (if wedding s < 0 then int z else wedding s)" using z4 by (auto simp: seat4_def)
    then show ?thesis unfolding married(4)
      by (intro begin_inv) (use I married(1) in \<open>auto simp: inv_dk_def phase_ok_dk_def quiet_dk_def\<close>)
  qed
qed

text \<open>A marriage that turns into a diamond solo keeps its trumps.\<close>

lemma karo_same:
  "trumps Karo = trumps Hochzeit" "plainOrder Karo = plainOrder Hochzeit"
  "follows Karo = follows Hochzeit" "isTrump_dk Karo = isTrump_dk Hochzeit" "trickWinner_dk Karo = trickWinner_dk Hochzeit"
proof -
  show t: "trumps Karo = trumps Hochzeit" by (simp add: trumps_def)
  show p: "plainOrder Karo = plainOrder Hochzeit" by (simp add: plainOrder_def)
  have i: "isTrump_dk Karo = isTrump_dk Hochzeit" by (simp add: isTrump_dk_def t fun_eq_iff)
  have f: "follows Karo = follows Hochzeit" by (simp add: follows_def i fun_eq_iff)
  have w: "power_dk Karo = power_dk Hochzeit" by (simp add: power_dk_def t p fun_eq_iff Let_def)
  show "follows Karo = follows Hochzeit" "isTrump_dk Karo = isTrump_dk Hochzeit" by (fact f, fact i)
  show "trickWinner_dk Karo = trickWinner_dk Hochzeit"
    by (simp add: trickWinner_dk_def bestIndex_dk_def dulle_on_def i f w fun_eq_iff)
qed

lemma clarify_frame [simp]:
  "tricks_dk (clarify s w n) = tricks_dk s" "trick_dk_of (clarify s w n) = trick_dk_of s" "dealer_dk (clarify s w n) = dealer_dk s"
  "played_dk (clarify s w n) = played_dk s" "rules_dk (clarify s w n) = rules_dk s" "level (clarify s w n) = level s"
  "claim (clarify s w n) = claim s" "say (clarify s w n) = say s" "phase_dk_of (clarify s w n) = phase_dk_of s"
  "calls (clarify s w n) = calls s" "soloist (clarify s w n) = soloist s"
  by (simp_all add: clarify_def)

lemma clarify_kind:
  "kind_dk_of (clarify s w n) = kind_dk_of s \<or> kind_dk_of s = Hochzeit \<and> kind_dk_of (clarify s w n) = Karo"
  by (simp add: clarify_def)

lemma clarify_winner: "trickWinner_dk (kind_dk_of (clarify s w n)) = trickWinner_dk (kind_dk_of s)"
  using clarify_kind [of s w n] karo_same(5) by auto

lemma shape_clarify: "shape_dk (kind_dk_of (clarify s w n)) = shape_dk (kind_dk_of s)"
  by (simp add: shape_dk_def clarify_winner fun_eq_iff)

text \<open>What a card put on the table changes.\<close>

lemma put_effect:
  assumes "cs = cards (trick_dk_of s) @ [Play (int z) c]" "s1 = s\<lparr>played_dk := (played_dk s)[z := played_dk s ! z + 1]\<rparr>"
    and "s' = (if length cs < 4 then s1\<lparr>trick_dk_of := (trick_dk_of s)\<lparr>cards := cs\<rparr>\<rparr>
       else let w = trickWinner_dk (kind_dk_of s) cs (rules_dk s);
              t = \<lparr>lead = lead (trick_dk_of s), cards = cs, winner = w, t_eyes = sum_list (map (eyes_dk \<circ> pcard) cs)\<rparr>;
              n = length (tricks_dk s) + 1;
              s2 = (clarify (s1\<lparr>tricks_dk := tricks_dk s @ [t]\<rparr>) w n)\<lparr>trick_dk_of := \<lparr>lead = w, cards = []\<rparr>\<rparr> in
            if n = 12 then s2\<lparr>phase_dk_of := DDone\<rparr> else s2)"
  shows "all_plays s' = all_plays s @ [Play (int z) c]" "played_dk s' = (played_dk s)[z := played_dk s ! z + 1]"
    "dealer_dk s' = dealer_dk s" "say s' = say s" "level s' = level s" "claim s' = claim s" "rules_dk s' = rules_dk s"
    "calls s' = calls s" "soloist s' = soloist s" "phase_dk_of s' = phase_dk_of s \<or> phase_dk_of s' = DDone"
    "kind_dk_of s' = kind_dk_of s \<or> kind_dk_of s = Hochzeit \<and> kind_dk_of s' = Karo"
proof -
  show "kind_dk_of s' = kind_dk_of s \<or> kind_dk_of s = Hochzeit \<and> kind_dk_of s' = Karo"
    using assms by (simp add: Let_def clarify_def)
qed (use assms in \<open>auto simp: all_plays_def Let_def\<close>)

lemma table_counts:
  assumes T: "table_dk s" and z: "z < 4" and c: "c \<in> set DECK_dk" "card_count s c < 2"
    and e: "all_plays s' = all_plays s @ [Play (int z) c]" "played_dk s' = (played_dk s)[z := played_dk s ! z + 1]"
  shows "(\<forall>d. card_count s' d \<le> 2) \<and> (\<forall>x \<in> set (all_plays s'). pcard x \<in> set DECK_dk)
     \<and> played_dk s' = map (by_seat s') [0, 1, 2, 3]"
proof -
  have "card_count s' d = card_count s d + of_bool (d = c)" for d by (simp add: card_count_def e(1))
  then have "card_count s' d \<le> 2" for d using T c(2) by (auto simp: table_dk_def)
  moreover have "\<forall>x \<in> set (all_plays s'). pcard x \<in> set DECK_dk" using T c(1) e(1) by (auto simp: table_dk_def)
  moreover have "by_seat s' y = by_seat s y + of_bool (y = int z)" for y by (simp add: by_seat_def e(1))
  then have "played_dk s' = map (by_seat s') [0, 1, 2, 3]"
    using T z e(2) by (auto simp: table_dk_def less_Suc_eq numeral_eq_Suc)
  ultimately show ?thesis by blast
qed

lemma seats_dk_snoc:
  "seats_dk l (cs @ [x]) \<longleftrightarrow> seats_dk l cs \<and> pseat x = (l + int (length cs)) mod 4"
  by (simp add: seats_dk_def)

lemma seats_dk_seat: "seats_dk l cs \<Longrightarrow> x \<in> set cs \<Longrightarrow> seat4 (pseat x)"
proof -
  assume "seats_dk l cs" "x \<in> set cs"
  then have "pseat x \<in> set (map (\<lambda>i. (l + int i) mod 4) [0..<length cs])" unfolding seats_dk_def by (metis image_eqI set_map)
  then show ?thesis by auto
qed

lemma winner_in_dk: "cs \<noteq> [] \<Longrightarrow> \<exists>x \<in> set cs. trickWinner_dk k cs rs = pseat x"
  unfolding trickWinner_dk_def bestIndex_dk_def Let_def using best_at_less nth_mem by blast

lemma chain_dk_snoc: "chain_dk l (ts @ [t]) e \<longleftrightarrow> chain_dk l ts (lead t) \<and> winner t = e"
  by (induction ts arbitrary: l) auto

lemma kind_ok_cong:
  assumes "kind_dk_of s' = kind_dk_of s" "soloist s' = soloist s" "partner s' = partner s" "tricks_dk s' = tricks_dk s"
  shows "kind_ok s' = kind_ok s"
  unfolding kind_ok_def assms ..

lemma inv_put:
  assumes I: "inv_dk s" and z: "z < 4" and ok: "put_card s z co = Inr s'"
  shows "inv_dk s'"
proof -
  from ok obtain c cs s1 where c: "phase_dk_of s = DPlay" "turn_dk s = int z" "c \<in> set DECK_dk" "card_count s c < 2"
    and cs: "cs = cards (trick_dk_of s) @ [Play (int z) c]" and s1: "s1 = s\<lparr>played_dk := (played_dk s)[z := played_dk s ! z + 1]\<rparr>"
    and s': "s' = (if length cs < 4 then s1\<lparr>trick_dk_of := (trick_dk_of s)\<lparr>cards := cs\<rparr>\<rparr>
       else let w = trickWinner_dk (kind_dk_of s) cs (rules_dk s);
              t = \<lparr>lead = lead (trick_dk_of s), cards = cs, winner = w, t_eyes = sum_list (map (eyes_dk \<circ> pcard) cs)\<rparr>;
              n = length (tricks_dk s) + 1;
              s2 = (clarify (s1\<lparr>tricks_dk := tricks_dk s @ [t]\<rparr>) w n)\<lparr>trick_dk_of := \<lparr>lead = w, cards = []\<rparr>\<rparr> in
            if n = 12 then s2\<lparr>phase_dk_of := DDone\<rparr> else s2)"
    by (rule put_card_cases)
  note e = put_effect [OF cs s1 s']
  have P: "kind_ok s" "table_dk s" "seat4 (lead (trick_dk_of s))" "seats_dk (lead (trick_dk_of s)) (cards (trick_dk_of s))"
    "length (cards (trick_dk_of s)) < 4" "length (tricks_dk s) < 12" and G: "seat4 (dealer_dk s)" "length (say s) = 4" "levels_ok s"
    using I c(1) by (auto simp: inv_dk_def phase_ok_dk_def)
  note counts = table_counts [OF P(2) z c(3,4) e(1,2)]
  have "int z = (lead (trick_dk_of s) + int (length (cards (trick_dk_of s)))) mod 4"
    using c(1,2) P(3) by (simp add: turn_dk_def next_dk_mod seat4_def)
  then have seats: "seats_dk (lead (trick_dk_of s)) cs" using P(4) by (simp add: cs seats_dk_snoc)
  have frame: "inv_dk s' = phase_ok_dk s'" using G e(3-6) by (simp add: inv_dk_def levels_ok_def)
  show ?thesis
  proof (cases "length cs < 4")
    case True
    then have s'': "s' = s1\<lparr>trick_dk_of := (trick_dk_of s)\<lparr>cards := cs\<rparr>\<rparr>" using s' by simp
    have "table_dk s'" using P(2) counts by (simp add: table_dk_def) (simp add: s'' s1)
    moreover have "kind_ok s' = kind_ok s" by (rule kind_ok_cong) (simp_all add: s'' s1)
    ultimately show ?thesis unfolding frame using P seats True c(1) by (simp add: phase_ok_dk_def) (simp add: s'' s1)
  next
    case False
    let ?w = "trickWinner_dk (kind_dk_of s) cs (rules_dk s)"
    let ?t = "\<lparr>lead = lead (trick_dk_of s), cards = cs, winner = ?w, t_eyes = sum_list (map (eyes_dk \<circ> pcard) cs)\<rparr>"
    let ?n = "length (tricks_dk s) + 1" let ?s0 = "s1\<lparr>tricks_dk := tricks_dk s @ [?t]\<rparr>"
    let ?s2 = "(clarify ?s0 ?w ?n)\<lparr>trick_dk_of := \<lparr>lead = ?w, cards = []\<rparr>\<rparr>"
    have s'': "s' = (if ?n = 12 then ?s2\<lparr>phase_dk_of := DDone\<rparr> else ?s2)" using s' False by (simp add: Let_def)
    have len: "length cs = 4" using False P(5) by (simp add: cs)
    have w: "seat4 ?w"
      using winner_in_dk [of cs "kind_dk_of s" "rules_dk s"] seats_dk_seat [OF seats] len by fastforce
    have shp: "shape_dk (kind_dk_of s) (rules_dk s) ?t" using P(3) len seats by (simp add: shape_dk_def)
    have k: "kind_dk_of s' = kind_dk_of (clarify ?s0 ?w ?n)" and tr: "tricks_dk s' = tricks_dk s @ [?t]"
      and ld: "trick_dk_of s' = \<lparr>lead = ?w, cards = []\<rparr>" by (simp_all add: s'')
    have "shape_dk (kind_dk_of s') = shape_dk (kind_dk_of s)" unfolding k shape_clarify by (simp add: s1)
    then have T': "table_dk s'" using P(2) shp counts e(3,7) tr ld by (auto simp: table_dk_def chain_dk_snoc)
    have "kind_ok (clarify ?s0 ?w ?n)"
      using P(1) w by (auto simp: kind_ok_def clarify_def s1 split: kind_dk.splits)
    moreover have "kind_ok s' = kind_ok (clarify ?s0 ?w ?n)" by (rule kind_ok_cong) (simp_all add: s'')
    ultimately have K': "kind_ok s'" by simp
    show ?thesis unfolding frame using P(6) T' K' w c(1) tr ld
      by (auto simp: phase_ok_dk_def seats_dk_def s'' s1)
  qed
qed

lemma call_level: "call_dk_level p a \<le> 4"
  by (cases a) (simp_all add: call_dk_level_def CALLS_def)

lemma make_call_cases:
  assumes "make_call s z po a = Inr s'"
  obtains p where "po = Some p" "callOk s z p (call_dk_level p a)" "knownParty s z = None \<or> knownParty s z = Some p"
    "s' = s\<lparr>level := (level s)(p := call_dk_level p a), claim := (claim s)[z := Some p],
       calls := calls s @ [\<lparr>k_seat = int z, k_p = p, k_a = a, k_n = played_dk s ! z\<rparr>]\<rparr>"
  using assms by (auto simp: make_call_def Let_def split: option.splits if_splits)

lemma callOk_facts: "callOk s z p l \<Longrightarrow> phase_dk_of s = DPlay \<and> level s p < l \<and> 0 \<le> l \<and> l \<le> 4"
  by (auto simp: callOk_def split: if_splits)

lemma inv_call:
  assumes I: "inv_dk s" and ok: "make_call s z po a = Inr s'"
  shows "inv_dk s'"
proof -
  from ok obtain p where p: "callOk s z p (call_dk_level p a)"
    and s': "s' = s\<lparr>level := (level s)(p := call_dk_level p a), claim := (claim s)[z := Some p],
       calls := calls s @ [\<lparr>k_seat = int z, k_p = p, k_a = a, k_n = played_dk s ! z\<rparr>]\<rparr>" by (rule make_call_cases)
  have "kind_ok s' = kind_ok s" by (rule kind_ok_cong) (simp_all add: s')
  moreover have "all_plays s' = all_plays s" by (simp add: all_plays_def s')
  then have "table_dk s' = table_dk s" by (simp add: table_dk_def card_count_def by_seat_def) (simp add: s')
  moreover have "levels_ok s'" using I callOk_facts [OF p] by (auto simp: inv_dk_def levels_ok_def s')
  moreover have "phase_dk_of s = DPlay" using callOk_facts [OF p] by simp
  ultimately show ?thesis using I by (simp add: inv_dk_def phase_ok_dk_def) (simp add: s')
qed

lemma inv_step_dk:
  assumes "inv_dk s" "apply_dk s a = Inr s'"
  shows "inv_dk s'"
  using assms(2) by (cases rule: apply_dk_cases) (use assms(1) inv_say inv_put inv_call in blast)+

section \<open>Every hand ends\<close>

lemma plays_le:
  assumes "inv_dk s" "phase_dk_of s = DPlay"
  shows "length (all_plays s) < 48"
proof -
  have "\<forall>t \<in> set (tricks_dk s). length (cards t) = 4" "length (tricks_dk s) < 12" "length (cards (trick_dk_of s)) < 4"
    using assms by (auto simp: inv_dk_def phase_ok_dk_def table_dk_def shape_dk_def)
  moreover have "sum_list (map (\<lambda>t. length (cards t)) ts) = 4 * length ts"
    if "\<forall>t \<in> set ts. length (cards t) = 4" for ts :: "trick_dk list" using that by (induction ts) auto
  ultimately show ?thesis by (simp add: all_plays_def length_concat comp_def)
qed

lemma queue_le:
  assumes "distinct qs" "\<forall>z \<in> set qs. seat4 z"
  shows "length qs \<le> 4"
proof -
  have "set qs \<subseteq> {0, 1, 2, 3}" using assms(2) by (auto simp: seat4_iff)
  then have "card (set qs) \<le> card {0, 1, 2, 3 :: int}" by (rule card_mono [rotated]) simp
  then show ?thesis using distinct_card [OF assms(1)] by simp
qed

lemma indexOf_nth_distinct:
  "distinct xs \<Longrightarrow> i < length xs \<Longrightarrow> indexOf xs (xs ! i) = int i"
  by (induction xs arbitrary: i) (auto simp: Let_def less_Suc_eq_0_disj)

lemma budget_step_dk:
  assumes I: "inv_dk s" and ok: "apply_dk s a = Inr s'"
  shows "left_dk s' < left_dk s"
  using ok
proof (cases rule: apply_dk_cases)
  case (say z)
  have pl: "all_plays s = []" if "quiet_dk s" using that by (simp add: quiet_dk_def all_plays_def)
  have z4: "seat4 (int z)" using say(1) by (simp add: seat4_def)
  from say(4) show ?thesis
  proof (cases rule: say_dk_cases)
    case more
    have d: "seat4 (dealer_dk s)" using I by (simp add: inv_dk_def)
    have "(dealer_dk s - (int z + 1) mod 4) mod 4 + 1 = (dealer_dk s - int z) mod 4" using ask_next [OF d z4] more(3) by simp
    then have "nat ((dealer_dk s - (int z + 1) mod 4) mod 4) < nat ((dealer_dk s - int z) mod 4)"
      using pos_mod_sign [of 4 "dealer_dk s - (int z + 1) mod 4"] by linarith
    moreover have "all_plays s' = all_plays s" by (simp add: more(4) all_plays_def)
    ultimately show ?thesis using more(1,2) by (simp add: left_dk_def more(4) next_dk_mod del: mod_diff_right_eq)
  next
    case normal
    have "all_plays s' = []" by (simp add: normal(6) all_plays_def begin_dk_def)
       (use I normal(1) in \<open>auto simp: inv_dk_def phase_ok_dk_def quiet_dk_def\<close>)
    moreover have "quiet_dk s" using I normal(1) by (auto simp: inv_dk_def phase_ok_dk_def)
    ultimately show ?thesis using normal(1) pl by (simp add: left_dk_def) (simp add: normal(6))
  next
    case (asked q qs)
    have "all_plays s' = all_plays s" by (simp add: asked(5) all_plays_def)
    then show ?thesis using asked(1) by (simp add: left_dk_def) (simp add: asked(5))
  next
    case (solo k)
    have q: "quiet_dk s" "int z \<in> set (queue s)" "length (queue s) \<le> 4"
      using I solo(1,2) queue_le by (auto simp: inv_dk_def phase_ok_dk_def)
    then have "all_plays s' = []" by (simp add: solo(5) all_plays_def begin_dk_def quiet_dk_def)
    then show ?thesis using solo(1,2) pl [OF q(1)] indexOf_bound [OF q(2)] q(3) by (simp add: left_dk_def) (simp add: solo(5))
  next
    case wed
    let ?i = "indexOf (queue s) (int z)"
    have q: "quiet_dk s" "int z \<in> set (queue s)" "distinct (queue s)" "length (queue s) \<le> 4"
      using I wed(1,2) queue_le by (auto simp: inv_dk_def phase_ok_dk_def)
    have b: "0 \<le> ?i" using indexOf_bound [OF q(2)] by simp
    have "indexOf (queue s) (queue s ! nat (?i + 1)) = ?i + 1"
      using indexOf_nth_distinct [OF q(3), of "nat (?i + 1)"] wed(4) b by simp
    moreover have "all_plays s' = all_plays s" by (simp add: wed(5) all_plays_def)
    ultimately show ?thesis using wed(1,2,4) b q(4) by (simp add: left_dk_def) (simp add: wed(5))
  next
    case married
    have q: "quiet_dk s" "int z \<in> set (queue s)" "length (queue s) \<le> 4"
      using I married(1,2) queue_le by (auto simp: inv_dk_def phase_ok_dk_def)
    then have "all_plays s' = []" by (simp add: married(4) all_plays_def begin_dk_def quiet_dk_def)
    then show ?thesis using married(1,2) pl [OF q(1)] indexOf_bound [OF q(2)] q(3) by (simp add: left_dk_def) (simp add: married(4))
  qed
next
  case (put z)
  from put(4) obtain c cs s1 where c: "phase_dk_of s = DPlay"
    and cs: "cs = cards (trick_dk_of s) @ [Play (int z) c]" and s1: "s1 = s\<lparr>played_dk := (played_dk s)[z := played_dk s ! z + 1]\<rparr>"
    and s': "s' = (if length cs < 4 then s1\<lparr>trick_dk_of := (trick_dk_of s)\<lparr>cards := cs\<rparr>\<rparr>
       else let w = trickWinner_dk (kind_dk_of s) cs (rules_dk s);
              t = \<lparr>lead = lead (trick_dk_of s), cards = cs, winner = w, t_eyes = sum_list (map (eyes_dk \<circ> pcard) cs)\<rparr>;
              n = length (tricks_dk s) + 1;
              s2 = (clarify (s1\<lparr>tricks_dk := tricks_dk s @ [t]\<rparr>) w n)\<lparr>trick_dk_of := \<lparr>lead = w, cards = []\<rparr>\<rparr> in
            if n = 12 then s2\<lparr>phase_dk_of := DDone\<rparr> else s2)"
    by (rule put_card_cases)
  note e = put_effect [OF cs s1 s']
  show ?thesis using plays_le [OF I c] c e(1,5,10) by (auto simp: left_dk_def)
next
  case (call z)
  from call(4) obtain p where p: "callOk s z p (call_dk_level p (a_dk a))"
    and s': "s' = s\<lparr>level := (level s)(p := call_dk_level p (a_dk a)), claim := (claim s)[z := Some p],
       calls := calls s @ [\<lparr>k_seat = int z, k_p = p, k_a = a_dk a, k_n = played_dk s ! z\<rparr>]\<rparr>" by (rule make_call_cases)
  have "all_plays s' = all_plays s" by (simp add: all_plays_def s')
  then show ?thesis using callOk_facts [OF p] by (cases p) (simp_all add: left_dk_def s')
qed

lemma budget_init_dk: "init_dk s \<Longrightarrow> left_dk s \<le> 66"
proof -
  assume "init_dk s"
  then obtain d r where s: "s = start_dk d r" by (auto simp: init_dk_def)
  have "(dealer_dk s - ask_dk s) mod 4 < 4" by simp
  then have "nat ((dealer_dk s - ask_dk s) mod 4) \<le> 3" by linarith
  then show ?thesis by (simp add: left_dk_def s all_plays_def start_dk_def Let_def)
qed

lemma done_stuck_dk: "done_dk s \<Longrightarrow> apply_dk s a \<noteq> Inr s'"
  by (auto simp: done_dk_def dest: callOk_facts elim!: apply_dk_cases say_dk_cases put_card_cases make_call_cases)

interpretation doko: rule_engine init_dk apply_dk done_dk inv_dk left_dk 66
  by unfold_locales (auto intro: inv_init_dk inv_step_dk budget_step_dk budget_init_dk simp: done_stuck_dk)

section \<open>The automatic player\<close>

type_synonym hands_dk = "nat \<Rightarrow> card list"

definition take_out_dk :: "hands_dk \<Rightarrow> action_dk \<Rightarrow> hands_dk" where
  "take_out_dk h a = (case (seat_dk a, card_dk a) of
     (Some z, Some c) \<Rightarrow> if t_dk a = DkPlay then h(nat z := remove1 c (h (nat z))) else h | _ \<Rightarrow> h)"

definition fits_dk :: "state_dk \<Rightarrow> hands_dk \<Rightarrow> bool" where
  "fits_dk s h \<longleftrightarrow> mset (concat (map h [0, 1, 2, 3])) + mset (map pcard (all_plays s)) = mset DECK_dk
     \<and> (\<forall>z < 4. length (h z) + by_seat s (int z) = 12)"

definition auto_of_dk :: "state_dk \<Rightarrow> hands_dk \<Rightarrow> action_dk option" where
  "auto_of_dk s h = auto_dk s (nat (turn_dk s)) (h (nat (turn_dk s)))"

lemma act_dk_simps [simp]:
  "t_dk (say_act z v) = DkVorbehalt" "seat_dk (say_act z v) = Some (int z)" "v_dk (say_act z v) = v" "card_dk (say_act z v) = None"
  "t_dk (play_dk_act z c) = DkPlay" "seat_dk (play_dk_act z c) = Some (int z)" "card_dk (play_dk_act z c) = Some c"
  "v_dk (play_dk_act z c) = VOther"
  "t_dk (call_act z p a) = DkCall" "seat_dk (call_act z p a) = Some (int z)" "p_dk (call_act z p a) = Some p" "a_dk (call_act z p a) = a"
  "card_dk (call_act z p a) = None" "v_dk (call_act z p a) = VOther"
  by (simp_all add: say_act_def play_dk_act_def call_act_def mk_dk_def)

lemma take_out_simps [simp]:
  "take_out_dk h (say_act z v) = h" "take_out_dk h (call_act z p a) = h"
  "take_out_dk h (play_dk_act z c) = h(z := remove1 c (h z))"
  by (simp_all add: take_out_dk_def)

lemma fits_plays: "all_plays s' = all_plays s \<Longrightarrow> fits_dk s' h = fits_dk s h"
  by (simp add: fits_dk_def by_seat_def)

lemma mset_four:
  "mset (concat (map h [0, 1, 2, 3 :: nat])) = mset (h 0) + mset (h 1) + mset (h 2) + mset (h 3)"
  by (simp add: ac_simps)

lemma remove_four:
  fixes h :: hands_dk
  assumes "z < 4" "c \<in> set (h z)"
  shows "mset (concat (map h [0, 1, 2, 3])) = add_mset c (mset (concat (map (h(z := remove1 c (h z))) [0, 1, 2, 3])))"
proof -
  have "mset (h z) = add_mset c (mset (remove1 c (h z)))" using assms(2) by (simp add: insert_DiffM)
  moreover have "z = 0 \<or> z = 1 \<or> z = 2 \<or> z = 3" using assms(1) by auto
  ultimately show ?thesis by auto
qed

lemma count_DECK_dk: "count (mset DECK_dk) c = (if c \<in> set DECK_dk then 2 else 0)"
  by (cases c; cases "suit c"; cases "rank c") (simp_all add: DECK_dk_def)

text \<open>A card in hand can be put on the table.\<close>

lemma hand_card_ok:
  assumes F: "fits_dk s h" and z: "z < 4" and c: "c \<in> set (h z)"
  shows "c \<in> set DECK_dk" "card_count s c < 2"
proof -
  have eq: "mset DECK_dk = add_mset c (mset (concat (map (h(z := remove1 c (h z))) [0, 1, 2, 3]))) + mset (map pcard (all_plays s))"
    using F remove_four [OF z, of c h] c by (simp add: fits_dk_def)
  then have "c \<in># mset DECK_dk" by simp
  then show "c \<in> set DECK_dk" by simp
  then have "2 = count (mset DECK_dk) c" by (simp add: count_DECK_dk)
  also have "\<dots> \<ge> 1 + count (mset (map pcard (all_plays s))) c" unfolding eq by simp
  finally have "count (mset (map pcard (all_plays s))) c < 2" by simp
  moreover have "count (mset (map pcard xs)) c = length (filter (\<lambda>x. pcard x = c) xs)" for xs by (induction xs) auto
  ultimately show "card_count s c < 2" by (simp add: card_count_def)
qed

lemma put_accepted:
  assumes I: "inv_dk s" and F: "fits_dk s h" and ph: "phase_dk_of s = DPlay" and z: "z < 4" "turn_dk s = int z"
    and c: "c \<in> set (h z)"
  shows "\<exists>s'. apply_dk s (play_dk_act z c) = Inr s' \<and> fits_dk s' (h(z := remove1 c (h z)))"
proof -
  note ok = hand_card_ok [OF F z(1) c]
  obtain s' where s': "put_card s z (Some c) = Inr s'"
    using ph z(2) ok
    by (cases "int (length (cards (trick_dk_of s) @ [Play (int z) c])) < SEATS_dk") (auto simp: put_card_def Let_def)
  have app: "apply_dk s (play_dk_act z c) = Inr s'" using s' z(1) by (simp add: apply_dk_def SEATS_dk_def)
  have pl: "all_plays s' = all_plays s @ [Play (int z) c]"
  proof -
    from s' obtain c' cs s1 where "Some c = Some c'" "cs = cards (trick_dk_of s) @ [Play (int z) c']"
      "s1 = s\<lparr>played_dk := (played_dk s)[z := played_dk s ! z + 1]\<rparr>"
      "s' = (if length cs < 4 then s1\<lparr>trick_dk_of := (trick_dk_of s)\<lparr>cards := cs\<rparr>\<rparr>
       else let w = trickWinner_dk (kind_dk_of s) cs (rules_dk s);
              t = \<lparr>lead = lead (trick_dk_of s), cards = cs, winner = w, t_eyes = sum_list (map (eyes_dk \<circ> pcard) cs)\<rparr>;
              n = length (tricks_dk s) + 1;
              s2 = (clarify (s1\<lparr>tricks_dk := tricks_dk s @ [t]\<rparr>) w n)\<lparr>trick_dk_of := \<lparr>lead = w, cards = []\<rparr>\<rparr> in
            if n = 12 then s2\<lparr>phase_dk_of := DDone\<rparr> else s2)" by (rule put_card_cases)
    then show ?thesis using put_effect(1) by blast
  qed
  have "fits_dk s' (h(z := remove1 c (h z)))"
  proof -
    have "length (remove1 c (h z)) + 1 = length (h z)" using c length_pos_if_in_set [OF c] by (simp add: length_remove1)
    then show ?thesis
      using F remove_four [of z c h, OF z(1) c] pl by (auto simp: fits_dk_def by_seat_def simp del: concat.simps list.map)
  qed
  with app show ?thesis by blast
qed

lemma seats_filter:
  assumes "seat4 l" "seats_dk l cs" "length cs < 4"
  shows "filter (\<lambda>x. pseat x = (l + int (length cs)) mod 4) cs = []"
proof -
  have "pseat x \<noteq> (l + int (length cs)) mod 4" if "x \<in> set cs" for x
  proof -
    from that obtain j where j: "j < length cs" "x = cs ! j" by (auto simp: in_set_conv_nth)
    have "map pseat cs ! j = (l + int j) mod 4" using assms(2) j(1) by (simp add: seats_dk_def)
    then have px: "pseat x = (l + int j) mod 4" using j by simp
    have "(l + int j) mod 4 \<noteq> (l + int (length cs)) mod 4"
    proof
      assume "(l + int j) mod 4 = (l + int (length cs)) mod 4"
      then have "(4::int) dvd (l + int (length cs)) - (l + int j)" by (metis dvd_diff_commute mod_eq_dvd_iff)
      then have "(4::int) dvd int (length cs - j)" using j(1) by (simp add: of_nat_diff)
      then have "4 dvd length cs - j" by (simp add: int_dvd_int_iff [symmetric])
      then show False using j(1) assms(3) by (auto dest: dvd_imp_le)
    qed
    then show ?thesis using px by simp
  qed
  then show ?thesis by (simp add: filter_empty_conv)
qed

lemma full_trick_seat:
  assumes "seat4 l" "seats_dk l cs" "length cs = 4" "seat4 z"
  shows "length (filter (\<lambda>x. pseat x = z) cs) = 1"
proof -
  obtain a b c d where cs: "cs = [a, b, c, d]" using assms(3) by (auto simp: length_Suc_conv numeral_eq_Suc)
  have "pseat a = l mod 4" "pseat b = (l + 1) mod 4" "pseat c = (l + 2) mod 4" "pseat d = (l + 3) mod 4"
    using assms(2) by (auto simp: cs seats_dk_def)
  then show ?thesis using assms(1,4) unfolding cs seat4_iff by (elim disjE) simp_all
qed

lemma tricks_by_seat:
  assumes "\<forall>t \<in> set ts. shape_dk k rs t" "seat4 z"
  shows "sum_list (map (\<lambda>t. length (filter (\<lambda>x. pseat x = z) (cards t))) ts) = length ts"
  using assms by (induction ts) (auto simp: shape_dk_def full_trick_seat)

lemma turn_has_card:
  assumes I: "inv_dk s" and F: "fits_dk s h" and ph: "phase_dk_of s = DPlay"
  shows "seat4 (turn_dk s)" "h (nat (turn_dk s)) \<noteq> []"
proof -
  let ?l = "lead (trick_dk_of s)" and ?cs = "cards (trick_dk_of s)"
  have P: "table_dk s" "seat4 ?l" "seats_dk ?l ?cs" "length ?cs < 4" "length (tricks_dk s) < 12"
    using I ph by (auto simp: inv_dk_def phase_ok_dk_def)
  have t: "turn_dk s = (?l + int (length ?cs)) mod 4" using ph P(2) by (simp add: turn_dk_def next_dk_mod seat4_def)
  then show s4: "seat4 (turn_dk s)" by simp
  have "by_seat s (turn_dk s) = length (tricks_dk s) + length (filter (\<lambda>x. pseat x = turn_dk s) ?cs)"
    using tricks_by_seat [of "tricks_dk s" "kind_dk_of s" "rules_dk s" "turn_dk s"] P(1) s4
    by (simp add: by_seat_def all_plays_def table_dk_def filter_concat length_concat comp_def)
  then have "by_seat s (turn_dk s) < 12" using seats_filter [OF P(2-4)] P(5) t by simp
  moreover have "length (h (nat (turn_dk s))) + by_seat s (turn_dk s) = 12"
    using conjunct2 [OF F [unfolded fits_dk_def], rule_format, of "nat (turn_dk s)"] s4 by (auto simp: seat4_def)
  ultimately show "h (nat (turn_dk s)) \<noteq> []" by auto
qed

lemma legal_subset: "set (legalCards k t h) \<subseteq> set h"
  by (auto simp: legalCards_def Let_def split: list.splits)

lemma legal_nonempty: "h \<noteq> [] \<Longrightarrow> legalCards k t h \<noteq> []"
  by (simp add: legalCards_def Let_def split: list.splits)

lemma weakest_in: "cs \<noteq> [] \<Longrightarrow> weakest k cs t \<in> set cs"
  unfolding weakest_def by (rule hd_sort_key_in)

lemma foldl_pick:
  fixes f :: "'a \<Rightarrow> int"
  shows "snd acc \<in> S \<Longrightarrow> set xs \<subseteq> S \<Longrightarrow>
    snd (foldl (\<lambda>(most, b) v. let n = f v in if n > most then (n, v) else (most, b)) acc xs) \<in> S"
  by (induction xs arbitrary: acc) (auto simp: Let_def split: prod.splits)

lemma most_trumps_solo: "most_trumps h \<in> set SOLOS"
proof -
  have S: "SOLOS = Damen # tl SOLOS" by (simp add: SOLOS_def)
  have "snd (foldl (\<lambda>(most, b) v. let n = int (length (filter (isTrump_dk v) h)) in
     if n > most then (n, v) else (most, b)) (int (length (filter (isTrump_dk Damen) h)), Damen) (tl SOLOS)) \<in> set SOLOS"
    by (rule foldl_pick) (auto simp: SOLOS_def)
  then show ?thesis unfolding most_trumps_def by (subst S) simp
qed

lemma say_plays:
  assumes "inv_dk s" "say_dk s z v = Inr s'"
  shows "all_plays s' = all_plays s"
  using assms(2)
proof (cases rule: say_dk_cases)
  case normal
  then show ?thesis using assms(1) by (auto simp: all_plays_def begin_dk_def inv_dk_def phase_ok_dk_def quiet_dk_def)
next
  case solo
  then show ?thesis using assms(1) by (auto simp: all_plays_def begin_dk_def inv_dk_def phase_ok_dk_def quiet_dk_def)
next
  case married
  then show ?thesis using assms(1) by (auto simp: all_plays_def begin_dk_def inv_dk_def phase_ok_dk_def quiet_dk_def)
qed (simp_all add: all_plays_def)

lemma auto_legal_dk:
  assumes I: "inv_dk s" and nd: "\<not> done_dk s" and F: "fits_dk s h"
  shows "\<exists>a s'. auto_of_dk s h = Some a \<and> apply_dk s a = Inr s' \<and> fits_dk s' (take_out_dk h a)"
proof -
  let ?z = "nat (turn_dk s)"
  have said: "\<exists>s'. apply_dk s (say_act ?z v) = Inr s' \<and> fits_dk s' h"
    if "seat4 (turn_dk s)" "\<exists>s'. say_dk s ?z v = Inr s'" for v
  proof -
    from that(2) obtain s' where s': "say_dk s ?z v = Inr s'" by blast
    then have "apply_dk s (say_act ?z v) = Inr s'" using that(1) by (simp add: apply_dk_def SEATS_dk_def seat4_def)
    then show ?thesis using fits_plays [OF say_plays [OF I s']] F by blast
  qed
  show ?thesis
  proof (cases "phase_dk_of s")
    case DVorbehalt
    then have z: "seat4 (turn_dk s)" "ask_dk s = int ?z" using I by (auto simp: inv_dk_def phase_ok_dk_def turn_dk_def seat4_def)
    then have "auto_of_dk s h = Some (say_act ?z VGesund)"
      using DVorbehalt by (simp add: auto_of_dk_def auto_dk_def actions_dk_def seat4_def Let_def)
    moreover have "\<exists>s'. say_dk s ?z VGesund = Inr s'"
      using DVorbehalt z(2) by (cases "int ?z = dealer_dk s"; cases "queue s") (auto simp: say_dk_def Let_def)
    ultimately show ?thesis using said [OF z(1)] by fastforce
  next
    case DAbfrage
    then have z: "seat4 (turn_dk s)" "ask_dk s = int ?z" using I by (auto simp: inv_dk_def phase_ok_dk_def turn_dk_def seat4_def)
    obtain k where k: "auto_of_dk s h = Some (say_act ?z (VKind k))" "k \<in> set SOLOS \<or> k = Hochzeit"
    proof (cases "filter (\<lambda>a. v_dk a = VKind Hochzeit) (actions_dk s ?z (h ?z))")
      case Nil
      then show thesis using that [of "most_trumps (h ?z)"] most_trumps_solo DAbfrage z
        by (simp add: auto_of_dk_def auto_dk_def Let_def seat4_def)
    next
      case (Cons a as)
      then have "a \<in> set (actions_dk s ?z (h ?z))" "v_dk a = VKind Hochzeit" by (auto dest: filter_eq_ConsD)
      then have "a = say_act ?z (VKind Hochzeit)"
        using DAbfrage z by (auto simp: actions_dk_def SOLOS_def split: if_splits)
      then show thesis using that [of Hochzeit] Cons DAbfrage z by (simp add: auto_of_dk_def auto_dk_def Let_def seat4_def)
    qed
    have "\<exists>s'. say_dk s ?z (VKind k) = Inr s'"
      using DAbfrage z(2) k(2) by (cases "indexOf (queue s) (int ?z) + 1 < int (length (queue s))") (auto simp: say_dk_def Let_def)
    then show ?thesis using said [OF z(1)] k(1) by fastforce
  next
    case DPlay
    note tc = turn_has_card [OF I F DPlay]
    obtain n where n: "turn_dk s = int n" "n < 4" using tc(1) zero_le_imp_eq_int unfolding seat4_def by force
    let ?l = "rev (remdups (rev (legalCards (kind_dk_of s) (cards (trick_dk_of s)) (h n))))"
    let ?cs = "map (\<lambda>a. the (card_dk a)) (filter (\<lambda>a. t_dk a = DkPlay) (actions_dk s n (h n)))"
    have nil: "filter (\<lambda>a. t_dk a = DkPlay) (case p of None \<Rightarrow> [] | Some p \<Rightarrow> let lvl = level s p + 1 in
             if lvl \<le> 4 \<and> callOk s n p lvl
             then [call_act n p (if lvl = 0 then party_call p else CALLS ! nat lvl)] else []) = []" for p
      by (simp add: Let_def split: option.splits)
    have cl: "?cs = ?l" using DPlay n(1) nil by (simp add: actions_dk_def filter_map comp_def)
    have ne: "?l \<noteq> []" using legal_nonempty [OF tc(2)] n(1) by simp
    let ?c = "weakest (kind_dk_of s) ?l (cards (trick_dk_of s))"
    have "?c \<in> set ?l" by (rule weakest_in [OF ne])
    then have c: "?c \<in> set (h n)" using legal_subset by auto
    have "auto_of_dk s h = Some (play_dk_act n ?c)"
      unfolding auto_of_dk_def auto_dk_def Let_def n(1) nat_int cl using ne DPlay by simp
    then show ?thesis using put_accepted [OF I F DPlay n(2,1) c] by simp
  next
    case DDone
    then show ?thesis using nd by (simp add: done_dk_def)
  qed
qed

interpretation doko_auto: auto_engine init_dk apply_dk done_dk inv_dk left_dk 66 auto_of_dk take_out_dk fits_dk
  by unfold_locales (rule auto_legal_dk)

end
