(* ===== verification/Doko_Audit.thy ===== *)
theory Doko_Audit
  imports Doko_Correct
begin

text \<open>
  Honest Doppelkopf hands, in which every seat makes only moves \<open>actions\<close> offers it from the
  cards it holds, pass the audit: cards, following suit, marriages and calls.
\<close>

section \<open>Honest hands\<close>

definition deal_ok_dk :: "hands_dk \<Rightarrow> bool" where
  "deal_ok_dk h0 \<longleftrightarrow> mset (concat (map h0 [0, 1, 2, 3])) = mset DECK_dk \<and> (\<forall>z < 4. length (h0 z) = 12)"

inductive honest_dk :: "hands_dk \<Rightarrow> state_dk \<Rightarrow> hands_dk \<Rightarrow> bool" for h0 :: hands_dk where
  dealt_dk: "init_dk s \<Longrightarrow> honest_dk h0 s h0"
| moved_dk: "honest_dk h0 s h \<Longrightarrow> z < 4 \<Longrightarrow> a \<in> set (actions_dk s z (h z)) \<Longrightarrow> apply_dk s a = Inr s' \<Longrightarrow>
    honest_dk h0 s' (take_out_dk h a)"

definition four :: "hands_dk \<Rightarrow> card list list" where
  "four h = map h [0, 1, 2, 3]"

section \<open>The invariant of an honest hand\<close>

definition held :: "hands_dk \<Rightarrow> state_dk \<Rightarrow> hands_dk \<Rightarrow> bool" where
  "held h0 s h \<longleftrightarrow> (\<forall>z < 4. mset (h0 z) =
     mset (h z) + mset (map pcard (filter (\<lambda>x. pseat x = int z) (all_plays s))))"

definition replay_dk :: "hands_dk \<Rightarrow> state_dk \<Rightarrow> hands_dk \<Rightarrow> bool" where
  "replay_dk h0 s h \<longleftrightarrow> (\<exists>L. audit_tricks_dk (kind_dk_of s) (four h0, []) (map cards (tricks_dk s)) = Some (L, [])
     \<and> audit_trick_dk (kind_dk_of s) (L, None, []) (cards (trick_dk_of s))
       = Some (four h, (case cards (trick_dk_of s) of [] \<Rightarrow> None | x # _ \<Rightarrow> Some (pcard x)), []))"

definition said_ok :: "hands_dk \<Rightarrow> state_dk \<Rightarrow> bool" where
  "said_ok h0 s \<longleftrightarrow> (\<forall>i < 4. say s ! i = Some (VKind Hochzeit) \<longrightarrow> queens (h0 i) = 2)"

abbreviation true_side :: "hands_dk \<Rightarrow> state_dk \<Rightarrow> int \<Rightarrow> party" where
  "true_side h0 s z \<equiv> side (re_seats (parties s (four h0))) z"

definition called_ok :: "hands_dk \<Rightarrow> state_dk \<Rightarrow> bool" where
  "called_ok h0 s \<longleftrightarrow> (\<forall>c \<in> set (calls s). k_p c = true_side h0 s (k_seat c))
     \<and> (calls s \<noteq> [] \<longrightarrow> phase_dk_of s \<in> {DPlay, DDone} \<and> \<not> (kind_dk_of s = Hochzeit \<and> partner s < 0))
     \<and> (\<forall>z < 4. \<forall>p. claim s ! z = Some p \<longrightarrow> calls s \<noteq> [] \<and> p = true_side h0 s (int z))"

definition honest_inv_dk :: "hands_dk \<Rightarrow> state_dk \<Rightarrow> hands_dk \<Rightarrow> bool" where
  "honest_inv_dk h0 s h \<longleftrightarrow> inv_dk s \<and> held h0 s h \<and> replay_dk h0 s h \<and> said_ok h0 s \<and> called_ok h0 s"

lemma audit_trick_dk_snoc:
  "audit_trick_dk k st (xs @ [x]) = (case audit_trick_dk k st xs of None \<Rightarrow> None | Some st' \<Rightarrow> audit_card_dk k st' x)"
  by (induction xs arbitrary: st) (auto split: option.splits)

lemma audit_tricks_dk_append:
  "audit_tricks_dk k st (ts @ us) = (case audit_tricks_dk k st ts of None \<Rightarrow> None | Some st' \<Rightarrow> audit_tricks_dk k st' us)"
  by (induction ts arbitrary: st) (auto split: option.splits prod.splits)

lemma four_upd: "z < 4 \<Longrightarrow> four (h(z := v)) = (four h)[z := v]"
  by (auto simp: four_def less_Suc_eq numeral_eq_Suc)

lemma four_nth: "z < 4 \<Longrightarrow> four h ! z = h z \<and> length (four h) = 4"
  by (auto simp: four_def less_Suc_eq numeral_eq_Suc)

lemma audit_karo:
  "audit_trick_dk Karo = audit_trick_dk Hochzeit" "audit_tricks_dk Karo = audit_tricks_dk Hochzeit"
proof -
  have c: "audit_card_dk Karo = audit_card_dk Hochzeit" by (intro ext) (simp only: audit_card_dk_def karo_same(3))
  have t: "audit_trick_dk Karo st xs = audit_trick_dk Hochzeit st xs" for st xs
    by (induction xs arbitrary: st) (auto simp: c split: option.splits)
  have "audit_tricks_dk Karo st ts = audit_tricks_dk Hochzeit st ts" for st ts
    by (induction ts arbitrary: st) (auto simp: t split: option.splits)
  then show "audit_trick_dk Karo = audit_trick_dk Hochzeit" "audit_tricks_dk Karo = audit_tricks_dk Hochzeit"
    using t by (auto simp: fun_eq_iff)
qed

text \<open>A legal card passes the audit.\<close>

lemma audit_legal:
  assumes z: "z < 4" and c: "c \<in> set (legalCards k t (h z))"
  shows "audit_card_dk k (four h, (case t of [] \<Rightarrow> None | x # _ \<Rightarrow> Some (pcard x)), []) (Play (int z) c)
    = Some (four (h(z := remove1 c (h z))), Some (case t of [] \<Rightarrow> c | x # _ \<Rightarrow> pcard x), [])"
proof -
  have ch: "c \<in> set (h z)" using c legal_subset by blast
  have "\<not> (follows k c \<noteq> follows k (pcard x) \<and> list_ex (\<lambda>d. follows k d = follows k (pcard x)) (h z))" if "t = x # xs" for x xs
    using c that by (auto simp: legalCards_def Let_def list_ex_iff filter_empty_conv split: if_splits)
  then show ?thesis
    using ch z four_nth [OF z, of h] by (cases t) (auto simp: audit_card_dk_def four_upd Let_def)
qed

section \<open>Parties\<close>

lemma queens_count: "queens l = count (mset l) CQ"
  unfolding queens_def by (induction l) auto

lemma deal_queens: "deal_ok_dk h0 \<Longrightarrow> queens (h0 0) + queens (h0 1) + queens (h0 2) + queens (h0 3) = 2"
proof -
  assume "deal_ok_dk h0"
  then have "mset (h0 0) + mset (h0 1) + mset (h0 2) + mset (h0 3) = mset DECK_dk"
    unfolding deal_ok_dk_def mset_four by blast
  then have "count (mset (h0 0) + mset (h0 1) + mset (h0 2) + mset (h0 3)) CQ = count (mset DECK_dk) CQ" by simp
  also have "\<dots> = 2" by (simp add: DECK_dk_def CQ_def)
  finally show ?thesis by (simp add: queens_count)
qed

text \<open>In a normal game the seats that were dealt a Club Queen are the Re party.\<close>

lemma normal_side:
  assumes d: "deal_ok_dk h0" and k: "kind_dk_of s = Normal" and z: "z < 4"
  shows "true_side h0 s (int z) = (if queens (h0 z) \<noteq> 0 then Re else Kontra)"
proof -
  have z': "z = 0 \<or> z = 1 \<or> z = 2 \<or> z = 3" using z by auto
  have "int z \<in> set (re_seats (parties s (four h0))) \<longleftrightarrow> queens (h0 z) \<noteq> 0"
    using deal_queens [OF d] z' k by (auto simp: parties_def four_def Let_def)
  then show ?thesis by (simp add: side_def)
qed

lemma own_true:
  assumes d: "deal_ok_dk h0" and H: "held h0 s h" and C: "called_ok h0 s" and z: "z < 4"
    and p: "ownParty s z (h z) = Some p" and m: "\<not> (kind_dk_of s = Hochzeit \<and> partner s < 0)"
  shows "p = true_side h0 s (int z)"
proof (cases "kind_dk_of s = Normal")
  case True
  show ?thesis
  proof (cases "claim s ! z")
    case (Some q)
    then show ?thesis using C z p True by (auto simp: called_ok_def ownParty_def knownParty_def)
  next
    case None
    have "mset (h0 z) = mset (h z) + mset (map pcard (filter (\<lambda>x. pseat x = int z) (all_plays s)))"
      using H z by (simp add: held_def)
    moreover have "length (filter (\<lambda>x. pseat x = int z \<and> pcard x = CQ) xs)
        = count (mset (map pcard (filter (\<lambda>x. pseat x = int z) xs))) CQ" for xs by (induction xs) auto
    ultimately have "queens (h0 z) = length (filter (\<lambda>c. c = CQ) (h z))
        + length (filter (\<lambda>x. pseat x = int z \<and> pcard x = CQ) (all_plays s))"
      by (simp add: queens_count flip: queens_def)
    then show ?thesis
      using p None True normal_side [OF d True z] by (auto simp: ownParty_def knownParty_def Let_def split: if_splits)
  qed
next
  case False
  then show ?thesis using p m
    by (cases "kind_dk_of s") (auto simp: ownParty_def knownParty_def parties_def side_def)
qed

section \<open>Every honest move keeps it so\<close>

lemma parties_cong:
  "kind_dk_of s' = kind_dk_of s \<Longrightarrow> soloist s' = soloist s \<Longrightarrow> partner s' = partner s \<Longrightarrow> parties s' hs = parties s hs"
  by (simp add: parties_def)

lemma honest_say:
  assumes J: "honest_inv_dk h0 s h" and z: "z < 4" and ok: "say_dk s z v = Inr s'"
    and wed: "v = VKind Hochzeit \<Longrightarrow> queens (h z) = 2"
  shows "honest_inv_dk h0 s' h"
proof -
  have I: "inv_dk s" "held h0 s h" "replay_dk h0 s h" "said_ok h0 s" "length (say s) = 4"
    using J by (auto simp: honest_inv_dk_def inv_dk_def)
  have I': "inv_dk s'" by (rule inv_say [OF I(1) z ok])
  have pl: "all_plays s' = all_plays s" by (rule say_plays [OF I(1) ok])
  have q: "quiet_dk s" using ok I(1) by (cases rule: say_dk_cases) (auto simp: inv_dk_def phase_ok_dk_def)
  have f: "say s' = (say s)[z := Some v]" "tricks_dk s' = []" "cards (trick_dk_of s') = []" "calls s' = []"
      "claim s' = [None, None, None, None]"
    using ok q by (cases rule: say_dk_cases, auto simp: quiet_dk_def begin_dk_def)+
  have "held h0 s' h" using I(2) pl by (simp add: held_def)
  moreover have "four h = four h0" using I(3) q by (simp add: replay_dk_def quiet_dk_def)
  then have "replay_dk h0 s' h" using f by (simp add: replay_dk_def)
  moreover have "all_plays s = []" using q by (simp add: quiet_dk_def all_plays_def)
  then have "mset (h0 z) = mset (h z)" using I(2) z by (simp add: held_def)
  then have "said_ok h0 s'" using I(4,5) f(1) z wed by (auto simp: said_ok_def nth_list_update queens_count)
  moreover have "called_ok h0 s'" using f(4,5) by (auto simp: called_ok_def less_Suc_eq numeral_eq_Suc)
  ultimately show ?thesis using I' by (simp add: honest_inv_dk_def)
qed

lemma honest_put:
  assumes J: "honest_inv_dk h0 s h" and z: "z < 4" and ok: "put_card s z (Some c) = Inr s'"
    and c: "c \<in> set (legalCards (kind_dk_of s) (cards (trick_dk_of s)) (h z))"
  shows "honest_inv_dk h0 s' (h(z := remove1 c (h z)))"
proof -
  let ?h = "h(z := remove1 c (h z))" and ?k = "kind_dk_of s" and ?tc = "cards (trick_dk_of s)"
  have I: "inv_dk s" "held h0 s h" "said_ok h0 s" "called_ok h0 s" using J by (auto simp: honest_inv_dk_def)
  from ok obtain c' cs s1 where c': "Some c = Some c'"
    and cs: "cs = ?tc @ [Play (int z) c']" and s1: "s1 = s\<lparr>played_dk := (played_dk s)[z := played_dk s ! z + 1]\<rparr>"
    and s': "s' = (if length cs < 4 then s1\<lparr>trick_dk_of := (trick_dk_of s)\<lparr>cards := cs\<rparr>\<rparr>
       else let w = trickWinner_dk ?k cs (rules_dk s);
              t = \<lparr>lead = lead (trick_dk_of s), cards = cs, winner = w, t_eyes = sum_list (map (eyes_dk \<circ> pcard) cs)\<rparr>;
              n = length (tricks_dk s) + 1;
              s2 = (clarify (s1\<lparr>tricks_dk := tricks_dk s @ [t]\<rparr>) w n)\<lparr>trick_dk_of := \<lparr>lead = w, cards = []\<rparr>\<rparr> in
            if n = 12 then s2\<lparr>phase_dk_of := DDone\<rparr> else s2)"
    and ph: "phase_dk_of s = DPlay"
    by (rule put_card_cases)
  note e = put_effect [OF cs s1 s'] and [simp] = c' [simplified, symmetric]
  have I': "inv_dk s'" by (rule inv_put [OF I(1) z ok])
  have ch: "c \<in> set (h z)" using c legal_subset by blast
  have "held h0 s' ?h"
    using I(2) e(1) ch unfolding held_def by (auto simp: insert_DiffM)
  moreover have "replay_dk h0 s' ?h"
  proof -
    obtain L where L: "audit_tricks_dk ?k (four h0, []) (map cards (tricks_dk s)) = Some (L, [])"
      "audit_trick_dk ?k (L, None, []) ?tc = Some (four h, (case ?tc of [] \<Rightarrow> None | x # _ \<Rightarrow> Some (pcard x)), [])"
      using J by (auto simp: honest_inv_dk_def replay_dk_def)
    have tr: "audit_trick_dk ?k (L, None, []) cs = Some (four ?h, Some (case ?tc of [] \<Rightarrow> c | x # _ \<Rightarrow> pcard x), [])"
      unfolding cs audit_trick_dk_snoc L(2) using audit_legal [where h = h, OF z c] by simp
    have k: "audit_tricks_dk (kind_dk_of s') = audit_tricks_dk ?k" "audit_trick_dk (kind_dk_of s') = audit_trick_dk ?k"
      using e(11) audit_karo by auto
    show ?thesis
    proof (cases "length cs < 4")
      case True
      then have "tricks_dk s' = tricks_dk s" "cards (trick_dk_of s') = cs" using s' by (simp_all add: s1)
      then show ?thesis unfolding replay_dk_def k using L(1) tr by (auto simp: cs split: list.splits)
    next
      case False
      then have "map cards (tricks_dk s') = map cards (tricks_dk s) @ [cs]" "cards (trick_dk_of s') = []"
        using s' by (simp_all add: Let_def)
      then show ?thesis unfolding replay_dk_def k using L(1) tr by (simp add: audit_tricks_dk_append)
    qed
  qed
  moreover have "said_ok h0 s'" using I(3) e(4) by (simp add: said_ok_def)
  moreover have "called_ok h0 s'"
  proof (cases "calls s = []")
    case True
    then show ?thesis using I(4) e(6,8) by (simp add: called_ok_def)
  next
    case False
    then have m: "\<not> (kind_dk_of s = Hochzeit \<and> partner s < 0)" using I(4) by (simp add: called_ok_def)
    then have "clarify (s1\<lparr>tricks_dk := ts\<rparr>) w n = s1\<lparr>tricks_dk := ts\<rparr>" for ts w n by (auto simp: clarify_def s1)
    then have same: "kind_dk_of s' = kind_dk_of s" "partner s' = partner s" using s' by (simp_all add: s1 Let_def)
    then have "parties s' hs = parties s hs" for hs using e(9) by (intro parties_cong)
    then show ?thesis using I(4) m same e(6,8,10) ph by (auto simp: called_ok_def)
  qed
  ultimately show ?thesis using I' by (simp add: honest_inv_dk_def)
qed

lemma honest_call:
  assumes d: "deal_ok_dk h0" and J: "honest_inv_dk h0 s h" and z: "z < 4" and own: "ownParty s z (h z) = Some p"
    and ok: "make_call s z (Some p) a = Inr s'"
  shows "honest_inv_dk h0 s' h"
proof -
  have I: "inv_dk s" "held h0 s h" "replay_dk h0 s h" "said_ok h0 s" "called_ok h0 s" using J by (auto simp: honest_inv_dk_def)
  from ok obtain p' where p: "Some p = Some p'" "callOk s z p' (call_dk_level p' a)"
    and s': "s' = s\<lparr>level := (level s)(p' := call_dk_level p' a), claim := (claim s)[z := Some p'],
       calls := calls s @ [\<lparr>k_seat = int z, k_p = p', k_a = a, k_n = played_dk s ! z\<rparr>]\<rparr>" by (rule make_call_cases)
  have m: "\<not> (kind_dk_of s = Hochzeit \<and> partner s < 0)" "phase_dk_of s = DPlay" using p(2) by (auto simp: callOk_def split: if_splits)
  have t: "p' = true_side h0 s (int z)" using own_true [OF d I(2,5) z own m(1)] p(1) by simp
  have par: "parties s' hs = parties s hs" for hs by (rule parties_cong) (simp_all add: s')
  have len: "length (claim s) = 4" using I(1) by (simp add: inv_dk_def levels_ok_def)
  have "called_ok h0 s'"
    using I(5) m t len z unfolding called_ok_def par by (auto simp: s' nth_list_update)
  moreover have "inv_dk s'" by (rule inv_call [OF I(1) ok])
  moreover have "all_plays s' = all_plays s" by (simp add: s' all_plays_def)
  then have "held h0 s' h" using I(2) by (simp add: held_def)
  moreover have "replay_dk h0 s' h" "said_ok h0 s'" using I(3,4) by (simp_all add: replay_dk_def said_ok_def s')
  ultimately show ?thesis by (simp add: honest_inv_dk_def)
qed

lemma honest_move_dk:
  assumes d: "deal_ok_dk h0" and J: "honest_inv_dk h0 s h" and z: "z < 4" and a: "a \<in> set (actions_dk s z (h z))"
    and ok: "apply_dk s a = Inr s'"
  shows "honest_inv_dk h0 s' (take_out_dk h a)"
proof -
  consider (say) v where "a = say_act z v" "v = VKind Hochzeit \<longrightarrow> queens (h z) = 2"
    | (put) c where "a = play_dk_act z c" "c \<in> set (legalCards (kind_dk_of s) (cards (trick_dk_of s)) (h z))"
    | (call) p l where "a = call_act z p l" "ownParty s z (h z) = Some p"
    using a by (auto simp: actions_dk_def SOLOS_def queens_def Let_def split: if_splits option.splits)
  then show ?thesis
  proof cases
    case say
    then have "say_dk s z v = Inr s'" using ok z by (simp add: apply_dk_def SEATS_dk_def)
    then show ?thesis using honest_say [OF J z] say by simp
  next
    case put
    then have "put_card s z (Some c) = Inr s'" using ok z by (simp add: apply_dk_def SEATS_dk_def)
    then show ?thesis using honest_put [OF J z _ put(2)] put(1) by simp
  next
    case call
    then have "make_call s z (Some p) l = Inr s'" using ok z by (simp add: apply_dk_def SEATS_dk_def)
    then show ?thesis using honest_call [OF d J z call(2)] call(1) by simp
  qed
qed

lemma honest_init_dk:
  assumes "init_dk s"
  shows "honest_inv_dk h0 s h0"
proof -
  have I: "inv_dk s" by (rule inv_init_dk [OF assms])
  obtain d r where s: "s = start_dk d r" using assms by (auto simp: init_dk_def)
  have f: "tricks_dk s = []" "cards (trick_dk_of s) = []" "calls s = []" "claim s = [None, None, None, None]"
    "say s = [None, None, None, None]" by (simp_all add: s start_dk_def Let_def)
  then show ?thesis using I
    by (auto simp: honest_inv_dk_def held_def replay_dk_def said_ok_def called_ok_def all_plays_def less_Suc_eq numeral_eq_Suc)
qed

lemma honest_invariant_dk:
  assumes "deal_ok_dk h0"
  shows "honest_dk h0 s h \<Longrightarrow> honest_inv_dk h0 s h"
  by (induction rule: honest_dk.induct) (use honest_init_dk honest_move_dk [OF assms] in blast)+

text \<open>
  A Doppelkopf hand in which every seat only makes moves \<open>actions\<close> offers it from the cards it
  holds passes the audit at every point: the cards were dealt, suit was followed, whoever announced
  a marriage held both Club Queens, and every call was made by a member of the party it was made for.
\<close>

theorem doko_honest_passes_audit:
  assumes deal: "deal_ok_dk h0" and hon: "honest_dk h0 s h"
  shows "audit_dk s (four h0) = Some []"
proof -
  have J: "honest_inv_dk h0 s h" by (rule honest_invariant_dk [OF deal hon])
  obtain L where L: "audit_tricks_dk (kind_dk_of s) (four h0, []) (map cards (tricks_dk s)) = Some (L, [])"
      "audit_trick_dk (kind_dk_of s) (L, None, []) (cards (trick_dk_of s))
       = Some (four h, (case cards (trick_dk_of s) of [] \<Rightarrow> None | x # _ \<Rightarrow> Some (pcard x)), [])"
    using J by (auto simp: honest_inv_dk_def replay_dk_def)
  have S: "said_ok h0 s" "called_ok h0 s" "length (say s) = 4" using J by (auto simp: honest_inv_dk_def inv_dk_def)
  have tricks: "\<exists>L'. audit_tricks_dk (kind_dk_of s) (four h0, [])
      (map cards (tricks_dk s) @ (if cards (trick_dk_of s) = [] then [] else [cards (trick_dk_of s)])) = Some (L', [])"
    using L by (auto simp: audit_tricks_dk_append)
  have b: "filter (\<lambda>(i, h). length h \<noteq> HAND_dk) (enumerate 0 (four h0)) = []"
    using deal by (simp add: four_def deal_ok_dk_def HAND_dk_def)
  have "mset (concat (four h0)) = mset DECK_dk" using deal by (simp add: deal_ok_dk_def four_def)
  then have dk: "sort (concat (four h0)) = sort DECK_dk" by (metis mset_sort properties_for_sort sorted_sort)
  have sy: "filter (\<lambda>(i, v). v = Some (VKind Hochzeit) \<and> queens (four h0 ! i) \<noteq> 2) (enumerate 0 (say s)) = []"
    using S(1,3) four_nth by (auto simp: filter_empty_conv in_set_enumerate_eq said_ok_def)
  have ln: "\<not> (\<exists>(i, v) \<in> set (enumerate 0 (say s)). v = Some (VKind Hochzeit) \<and> length (four h0) \<le> i)"
    using S(3) by (auto simp: in_set_enumerate_eq four_def)
  have cl: "filter (\<lambda>c. k_p c \<noteq> true_side h0 s (k_seat c)) (calls s) = []"
    using S(2) by (auto simp: filter_empty_conv called_ok_def)
  from tricks show ?thesis unfolding audit_dk_def Let_def b dk sy cl if_not_P [OF ln] by auto
qed

end
