(* ===== verification/Doko_Score.thy ===== *)
theory Doko_Score
  imports Doko_Audit
begin

text \<open>
  The end of a Doppelkopf hand: the points of the four seats add up to nothing, the two parties
  share the 240 card points, they never both reach what they need, and only when both have
  announced 90 or less may neither. Then what holds at every point of a hand: offered moves are
  accepted, and the automatic player finishes it.
\<close>

section \<open>Card points\<close>

lemma party_cases: "(p :: party) = Re \<or> p = Kontra"
  by (cases p) simp_all

lemma mset_by_seat:
  assumes "\<forall>x \<in> set xs. seat4 (pseat x)"
  shows "mset (map pcard (filter (\<lambda>x. pseat x = 0) xs)) + mset (map pcard (filter (\<lambda>x. pseat x = 1) xs))
     + mset (map pcard (filter (\<lambda>x. pseat x = 2) xs)) + mset (map pcard (filter (\<lambda>x. pseat x = 3) xs)) = mset (map pcard xs)"
  using assms by (induction xs) (auto simp: seat4_iff)

lemma done_facts:
  assumes "inv_dk s" "done_dk s"
  shows "kind_ok s" "table_dk s" "length (tricks_dk s) = 12" "all_plays s = concat (map cards (tricks_dk s))"
  using assms by (auto simp: inv_dk_def done_dk_def phase_ok_dk_def all_plays_def)

lemma done_plays:
  assumes deal: "deal_ok_dk h0" and hon: "honest_dk h0 s h" and fin: "done_dk s"
  shows "mset (map pcard (all_plays s)) = mset DECK_dk"
proof -
  have I: "inv_dk s" and H: "held h0 s h" using honest_invariant_dk [OF deal hon] by (auto simp: honest_inv_dk_def)
  note D = done_facts [OF I fin]
  have shp: "\<forall>t \<in> set (tricks_dk s). shape_dk (kind_dk_of s) (rules_dk s) t" using D(2) by (simp add: table_dk_def)
  have bs: "by_seat s z = 12" if "seat4 z" for z
    using tricks_by_seat [OF shp that] D(3,4) by (simp add: by_seat_def filter_concat length_concat comp_def)
  have eq: "mset (h0 z) = mset (map pcard (filter (\<lambda>x. pseat x = int z) (all_plays s)))" if z: "z < 4" for z
  proof -
    have m: "mset (h0 z) = mset (h z) + mset (map pcard (filter (\<lambda>x. pseat x = int z) (all_plays s)))"
      using H z by (simp add: held_def)
    have "mset (h0 z) = mset (h z @ map pcard (filter (\<lambda>x. pseat x = int z) (all_plays s)))" using m by simp
    then have "length (h0 z) = length (h z @ map pcard (filter (\<lambda>x. pseat x = int z) (all_plays s)))" by (rule mset_eq_length)
    moreover have "length (h0 z) = 12" using deal z by (simp add: deal_ok_dk_def)
    moreover have "seat4 (int z)" using z by (simp add: seat4_def)
    ultimately have "length (h z) = 0" using bs [of "int z"] by (simp add: by_seat_def)
    then show ?thesis using m by simp
  qed
  have seats: "\<forall>x \<in> set (all_plays s). seat4 (pseat x)"
    using shp D(4) seats_dk_seat by (fastforce simp: shape_dk_def)
  have "mset DECK_dk = mset (h0 0) + mset (h0 1) + mset (h0 2) + mset (h0 3)"
    using deal unfolding deal_ok_dk_def mset_four by simp
  also have "\<dots> = mset (map pcard (all_plays s))"
    using mset_by_seat [OF seats] eq [of 0] eq [of 1] eq [of 2] eq [of 3] by simp
  finally show ?thesis by simp
qed

lemma sides_split:
  "sum_list (map t_eyes (filter (\<lambda>t. side re (winner t) = Re) ts))
   + sum_list (map t_eyes (filter (\<lambda>t. side re (winner t) = Kontra) ts)) = sum_list (map t_eyes ts)"
  "length (filter (\<lambda>t. side re (winner t) = Re) ts) + length (filter (\<lambda>t. side re (winner t) = Kontra) ts) = length ts"
  by (induction ts) (auto, (metis party.exhaust)+)

lemma done_eyes:
  assumes deal: "deal_ok_dk h0" and hon: "honest_dk h0 s h" and fin: "done_dk s"
  shows "side_eyes s re Re + side_eyes s re Kontra = 240" "side_tricks s re Re + side_tricks s re Kontra = 12"
proof -
  have I: "inv_dk s" using honest_invariant_dk [OF deal hon] by (auto simp: honest_inv_dk_def)
  note D = done_facts [OF I fin]
  show "side_tricks s re Re + side_tricks s re Kontra = 12" 
    using sides_split(2) [of re "tricks_dk s"] D(3) by (simp add: side_tricks_def)
  have eq: "sum_list (map t_eyes ts) = sum_list (map (eyes_dk \<circ> pcard) (concat (map cards ts)))"
    if "\<forall>t \<in> set ts. shape_dk k rs t" for ts k rs using that by (induction ts) (auto simp: shape_dk_def)
  have "sum_list (map t_eyes (tricks_dk s)) = sum_list (map eyes_dk (map pcard (all_plays s)))"
    using eq [of "tricks_dk s" "kind_dk_of s" "rules_dk s"] D(2) unfolding D(4) table_dk_def by simp
  also have "\<dots> = sum_list (map eyes_dk DECK_dk)" by (rule sum_list_mset_cong [OF done_plays [OF assms]])
  also have "\<dots> = 240" by (simp add: DECK_dk_def eyes_dk_def)
  finally show "side_eyes s re Re + side_eyes s re Kontra = 240"
    using sides_split(1) [of re "tricks_dk s"] by (simp add: side_eyes_def)
qed

lemma no_tricks_no_eyes: "side_tricks s re p = 0 \<Longrightarrow> side_eyes s re p = 0"
  by (simp add: side_tricks_def side_eyes_def)

section \<open>At most one winner\<close>

lemma target_excl:
  assumes e: "e Re + e Kontra = (240::int)" and tr: "tr Re + tr Kontra = (12::nat)"
    and z: "\<And>p. tr p = 0 \<Longrightarrow> e p = 0" and L: "\<And>p. -1 \<le> L p \<and> L p \<le> (4::int)"
  shows "\<not> (met L e tr Re \<and> met L e tr Kontra)"
    and "\<not> met L e tr Re \<Longrightarrow> \<not> met L e tr Kontra \<Longrightarrow> 1 \<le> L Re \<and> 1 \<le> L Kontra"
proof -
  have l: "x = -1 \<or> x = 0 \<or> x = 1 \<or> x = 2 \<or> x = 3 \<or> x = 4" if "-1 \<le> x" "x \<le> 4" for x :: int using that by auto
  have R: "L Re = -1 \<or> L Re = 0 \<or> L Re = 1 \<or> L Re = 2 \<or> L Re = 3 \<or> L Re = 4" using l L by blast
  have K: "L Kontra = -1 \<or> L Kontra = 0 \<or> L Kontra = 1 \<or> L Kontra = 2 \<or> L Kontra = 3 \<or> L Kontra = 4" using l L by blast
  show "\<not> (met L e tr Re \<and> met L e tr Kontra)"
    using R K e tr z [of Re] z [of Kontra]
    by (elim disjE) (auto simp: met_def target_def only_dk_def Let_def HAND_dk_def)
  show "1 \<le> L Re \<and> 1 \<le> L Kontra" if "\<not> met L e tr Re" "\<not> met L e tr Kontra"
    using that R K e tr z [of Re] z [of Kontra]
    by (elim disjE) (auto simp: met_def target_def only_dk_def Let_def HAND_dk_def)
qed

text \<open>
  At the end of an honest Doppelkopf hand not both parties reach what they need to win, and
  there is no winner only if both parties had announced that the other would stay below 90 (or
  less), and neither kept its word.
\<close>

theorem doko_one_winner:
  assumes deal: "deal_ok_dk h0" and hon: "honest_dk h0 s h" and fin: "done_dk s"
    and r: "r = result_of_dk s (four h0)"
  shows "\<not> (met (level s) (eyes_of r) (tricks_of r) Re \<and> met (level s) (eyes_of r) (tricks_of r) Kontra)
    \<and> (winner_of r = None \<longrightarrow> 1 \<le> level s Re \<and> 1 \<le> level s Kontra)"
proof -
  let ?re = "re_seats (parties s (four h0))"
  have I: "inv_dk s" using honest_invariant_dk [OF deal hon] by (auto simp: honest_inv_dk_def)
  then have L: "\<And>p. -1 \<le> level s p \<and> level s p \<le> 4" by (simp add: inv_dk_def levels_ok_def)
  note E = done_eyes [OF deal hon fin, of ?re]
  have f: "eyes_of r = side_eyes s ?re" "tricks_of r = side_tricks s ?re"
    "winner_of r = winner_dk (level s) (side_eyes s ?re) (side_tricks s ?re)"
    by (simp_all add: r result_of_dk_def Let_def)
  note X = target_excl [where L = "level s", OF E no_tricks_no_eyes L]
  show ?thesis using X unfolding f winner_dk_def by auto
qed

lemma normal_parties:
  assumes "queens (h0 0) + queens (h0 1) + queens (h0 2) + queens (h0 3) = 2" "kind_dk_of s = Normal"
  shows "is_solo (parties s (four h0)) \<and> seat4 (hd (re_seats (parties s (four h0))))
      \<or> \<not> is_solo (parties s (four h0))
        \<and> (\<exists>x y. x < y \<and> seat4 x \<and> seat4 y \<and> set (re_seats (parties s (four h0))) = {x, y})"
proof (cases "2 \<in> set (map queens (four h0))")
  case True
  then have "0 \<le> indexOf (map queens (four h0)) 2 \<and> indexOf (map queens (four h0)) 2 < 4"
    using indexOf_bound [OF True] by (simp add: four_def)
  then show ?thesis using assms(2) by (simp add: parties_def Let_def seat4_def)
next
  case False
  then have n: "indexOf (map queens (four h0)) 2 < 0" by (simp add: indexOf_neg_iff)
  have "queens (h0 i) \<noteq> 2" if "i < 4" for i using False that by (auto simp: four_def less_Suc_eq numeral_eq_Suc)
  then have "queens (h0 0) \<noteq> 2" "queens (h0 1) \<noteq> 2" "queens (h0 2) \<noteq> 2" "queens (h0 3) \<noteq> 2" by simp_all
  then have "queens (h0 0) \<le> 1" "queens (h0 1) \<le> 1" "queens (h0 2) \<le> 1" "queens (h0 3) \<le> 1" using assms(1) by linarith+
  then have c: "queens (h0 0) = 0 \<or> queens (h0 0) = 1" "queens (h0 1) = 0 \<or> queens (h0 1) = 1"
    "queens (h0 2) = 0 \<or> queens (h0 2) = 1" "queens (h0 3) = 0 \<or> queens (h0 3) = 1" by linarith+
  have two: "\<exists>x y. x < y \<and> seat4 x \<and> seat4 y \<and> {a, b} = {x, y}" if "a < b" "seat4 a" "seat4 b" for a b using that by blast
  have ns: "\<not> is_solo (parties s (four h0))" and re: "set (re_seats (parties s (four h0))) =
      set (map (\<lambda>(i, n). int i) (filter (\<lambda>(i, n). n \<noteq> 0) (enumerate 0 (map queens (four h0)))))"
    using assms(2) n by (simp_all add: parties_def Let_def)
  show ?thesis
    unfolding re using c assms(1) ns by (elim disjE) (simp_all add: four_def, (rule two; simp add: seat4_def)+)
qed

text \<open>
  The points of an honest Doppelkopf hand add up to zero over the four seats, whatever the
  kind of game: normal, silent marriage, announced marriage, solo.
\<close>

theorem doko_points_zero_sum:
  assumes deal: "deal_ok_dk h0" and hon: "honest_dk h0 s h" and fin: "done_dk s"
  shows "sum_list (points_of (result_of_dk s (four h0))) = 0"
proof -
  let ?P = "parties s (four h0)"
  have I: "inv_dk s" using honest_invariant_dk [OF deal hon] by (auto simp: honest_inv_dk_def)
  note D = done_facts [OF I fin]
  have shape: "is_solo ?P \<and> seat4 (hd (re_seats ?P))
      \<or> \<not> is_solo ?P \<and> (\<exists>x y. x < y \<and> seat4 x \<and> seat4 y \<and> set (re_seats ?P) = {x, y})"
  proof (cases "kind_dk_of s")
    case Normal
    have q: "queens (h0 0) + queens (h0 1) + queens (h0 2) + queens (h0 3) = 2" by (rule deal_queens [OF deal])
    show ?thesis using q Normal by (rule normal_parties)
  next
    case Hochzeit
    then have "seat4 (soloist s)" "seat4 (partner s)" "partner s \<noteq> soloist s" using D(1,3) by (auto simp: kind_ok_def)
    then show ?thesis using Hochzeit
      by (intro disjI2 conjI exI [of _ "min (soloist s) (partner s)"] exI [of _ "max (soloist s) (partner s)"])
        (auto simp: parties_def min_def max_def)
  qed (use D(1) in \<open>auto simp: kind_ok_def parties_def\<close>)
  obtain v where "points_of (result_of_dk s (four h0)) = map (\<lambda>seat. if is_solo ?P then (if seat = hd (re_seats ?P) then 3 * v else - v)
      else if side (re_seats ?P) seat = Re then v else - v) [0, 1, 2, 3]"
    unfolding result_of_dk_def Let_def by simp
  note pts = this
  from shape show ?thesis
  proof
    assume solo: "is_solo ?P \<and> seat4 (hd (re_seats ?P))"
    then show ?thesis unfolding pts seat4_iff by (elim conjE disjE) simp_all
  next
    assume "\<not> is_solo ?P \<and> (\<exists>x y. x < y \<and> seat4 x \<and> seat4 y \<and> set (re_seats ?P) = {x, y})"
    then obtain x y where xy: "\<not> is_solo ?P" "x < y" "seat4 x" "seat4 y" "set (re_seats ?P) = {x, y}" by blast
    have "side (re_seats ?P) z = Re \<longleftrightarrow> z = x \<or> z = y" for z using xy(5) by (simp add: side_def)
    then show ?thesis using xy(1-4) unfolding pts seat4_iff by (elim disjE) simp_all
  qed
qed

section \<open>At every point of a hand\<close>

lemma plays_seats:
  assumes "inv_dk s"
  shows "\<forall>x \<in> set (all_plays s). seat4 (pseat x)"
proof (cases "phase_dk_of s \<in> {DVorbehalt, DAbfrage}")
  case True
  then show ?thesis using assms by (auto simp: inv_dk_def phase_ok_dk_def quiet_dk_def all_plays_def)
next
  case False
  then have "table_dk s" "\<forall>x \<in> set (cards (trick_dk_of s)). seat4 (pseat x)"
    using assms seats_dk_seat by (cases "phase_dk_of s"; force simp: inv_dk_def phase_ok_dk_def)+
  moreover have "seat4 (pseat x)" if "t \<in> set (tricks_dk s)" "x \<in> set (cards t)" for t x
    using calculation(1) that seats_dk_seat by (fastforce simp: table_dk_def shape_dk_def)
  ultimately show ?thesis by (auto simp: all_plays_def)
qed

lemma honest_fits:
  assumes deal: "deal_ok_dk h0" and hon: "honest_dk h0 s h"
  shows "inv_dk s" "fits_dk s h"
proof -
  have I: "inv_dk s" and H: "held h0 s h" using honest_invariant_dk [OF deal hon] by (auto simp: honest_inv_dk_def)
  show "inv_dk s" by (rule I)
  have m: "mset (h0 z) = mset (h z) + mset (map pcard (filter (\<lambda>x. pseat x = int z) (all_plays s)))" if "z < 4" for z
    using H that by (simp add: held_def)
  have "mset (h0 0) + mset (h0 1) + mset (h0 2) + mset (h0 3) = mset DECK_dk"
    using deal unfolding deal_ok_dk_def mset_four by simp
  moreover have "\<forall>x \<in> set (all_plays s). seat4 (pseat x)"
    by (rule plays_seats [OF I])
  ultimately have "mset (h 0) + mset (h 1) + mset (h 2) + mset (h 3) + mset (map pcard (all_plays s)) = mset DECK_dk"
    using mset_by_seat [of "all_plays s"] m [of 0] m [of 1] m [of 2] m [of 3] by (simp add: ac_simps)
  moreover have "length (h z) + by_seat s (int z) = 12" if "z < 4" for z
  proof -
    have "mset (h0 z) = mset (h z @ map pcard (filter (\<lambda>x. pseat x = int z) (all_plays s)))" using m [OF that] by simp
    then have "length (h0 z) = length (h z @ map pcard (filter (\<lambda>x. pseat x = int z) (all_plays s)))" by (rule mset_eq_length)
    then show ?thesis using deal that by (simp add: deal_ok_dk_def by_seat_def)
  qed
  ultimately show "fits_dk s h" unfolding fits_dk_def mset_four by blast
qed

lemma actions_dk_offered:
  assumes "a \<in> set (actions_dk s z (h z))"
  obtains (res) v where "phase_dk_of s = DVorbehalt" "ask_dk s = int z" "a = say_act z v" "v = VGesund \<or> v = VVorbehalt"
    | (kind) k where "phase_dk_of s = DAbfrage" "ask_dk s = int z" "a = say_act z (VKind k)" "k \<in> set SOLOS \<or> k = Hochzeit"
    | (card) c where "phase_dk_of s = DPlay" "turn_dk s = int z" "a = play_dk_act z c" "c \<in> set (h z)"
    | (call) p l where "ownParty s z (h z) = Some p" "l = level s p + 1" "l \<le> 4" "callOk s z p l"
        "a = call_act z p (if l = 0 then party_call p else CALLS ! nat l)"
proof (cases "phase_dk_of s")
  case DVorbehalt
  then show thesis using assms res by (auto simp: actions_dk_def split: if_splits)
next
  case DAbfrage
  then show thesis using assms kind by (auto simp: actions_dk_def split: if_splits)
next
  case DPlay
  show thesis
  proof (cases "turn_dk s = int z \<and> a \<in> play_dk_act z ` set (legalCards (kind_dk_of s) (cards (trick_dk_of s)) (h z))")
    case True
    then obtain c where c: "a = play_dk_act z c" "c \<in> set (legalCards (kind_dk_of s) (cards (trick_dk_of s)) (h z))" by blast
    have "c \<in> set (h z)" using c(2) legal_subset by blast
    then show thesis using card DPlay True c(1) by blast
  next
    case False
    let ?lv = "\<lambda>p. level s p + 1"
    from False DPlay assms obtain p where "ownParty s z (h z) = Some p" "?lv p \<le> 4" "callOk s z p (?lv p)"
      "a = call_act z p (if ?lv p = 0 then party_call p else CALLS ! nat (?lv p))"
      by (cases "ownParty s z (h z)") (auto simp: actions_dk_def Let_def split: if_splits)
    then show thesis using call by blast
  qed
next
  case DDone
  then show thesis using assms by (simp add: actions_dk_def)
qed

text \<open>
  Every move \<open>actions\<close> offers a Doppelkopf seat from the cards it holds is accepted by \<open>apply\<close>:
  reservations, solos and the marriage, every legal card, and the next call of its party.
\<close>

theorem doko_actions_accepted:
  assumes deal: "deal_ok_dk h0" and hon: "honest_dk h0 s h" and z: "z < 4" and a: "a \<in> set (actions_dk s z (h z))"
  shows "\<exists>s'. apply_dk s a = Inr s'"
proof -
  note F = honest_fits [OF deal hon]
  from a show ?thesis
  proof (cases rule: actions_dk_offered)
    case (res v)
    then have "\<exists>s'. say_dk s z v = Inr s'"
      by (cases "int z = dealer_dk s"; cases "queue s") (auto simp: say_dk_def Let_def)
    then show ?thesis using res(3) z by (simp add: apply_dk_def SEATS_dk_def)
  next
    case (kind k)
    then have "\<exists>s'. say_dk s z (VKind k) = Inr s'"
      by (cases "indexOf (queue s) (int z) + 1 < int (length (queue s))") (auto simp: say_dk_def Let_def)
    then show ?thesis using kind(3) z by (simp add: apply_dk_def SEATS_dk_def)
  next
    case (card c)
    then show ?thesis using put_accepted [OF F card(1) z card(2,4)] by blast
  next
    case (call p l)
    have l: "l = 0 \<or> l = 1 \<or> l = 2 \<or> l = 3 \<or> l = 4" using call(3) callOk_facts [OF call(4)] by auto
    then have lv: "call_dk_level p (if l = 0 then party_call p else CALLS ! nat l) = l"
      by (cases p) (elim disjE; simp add: call_dk_level_def CALLS_def party_call_def)+
    have "knownParty s z = None \<or> knownParty s z = Some p"
      using call(1) by (auto simp: ownParty_def split: option.splits)
    then have "\<exists>s'. make_call s z (Some p) (if l = 0 then party_call p else CALLS ! nat l) = Inr s'"
      using call(4) l unfolding make_call_def option.case Let_def lv by auto
    then show ?thesis using call(5) z by (simp add: apply_dk_def SEATS_dk_def)
  qed
qed

text \<open>
  With any deal and any non-negative dealer, handing all seats of a Doppelkopf hand to the
  automatic player, at any point of an honest hand, brings it to its end.
\<close>

theorem doko_settles:
  assumes deal: "deal_ok_dk h0" and hon: "honest_dk h0 s h"
  shows "\<exists>s' h'. settle apply_dk done_dk auto_of_dk take_out_dk 66 s h = (True, s', h') \<and> done_dk s'"
proof -
  note F = honest_fits [OF deal hon]
  have "reachable init_dk apply_dk s" using hon by (induction rule: honest_dk.induct) (auto intro: reachable.intros)
  then have "left_dk s \<le> 66" by (rule doko.reachable_budget)
  then show ?thesis using doko_auto.settle_over [OF F] by blast
qed

text \<open>
  A negative dealer is not normalised, as it is in the Skat engines: with dealer -1 the round of
  reservations never comes back to the dealer, and the hand never starts.
\<close>

theorem doko_negative_dealer:
  assumes "run apply_dk (start_dk (Some (-1)) r) as = Inr s"
  shows "phase_dk_of s = DVorbehalt"
proof -
  let ?J = "\<lambda>s. phase_dk_of s = DVorbehalt \<and> dealer_dk s = -1"
  have "?J (start_dk (Some (-1)) r)"
    by (simp add: start_dk_def Let_def int32_def js_rem_neg SEATS_dk_def)
  moreover have "?J s'" if "?J t" "apply_dk t a = Inr s'" for t a s'
    using that(2)
  proof (cases rule: apply_dk_cases)
    case (say z)
    from say(4) that(1) show ?thesis by (cases rule: say_dk_cases) auto
  next
    case (put z)
    from put(4) that(1) show ?thesis by (auto elim: put_card_cases)
  next
    case (call z)
    from call(4) that(1) show ?thesis by (auto elim!: make_call_cases dest: callOk_facts)
  qed
  ultimately show ?thesis using run_invariant [of ?J apply_dk] assms by blast
qed

end
