(* ===== verification/Doko_Samples.thy ===== *)
theory Doko_Samples
  imports Doko_Score
begin

text \<open>
  A Doppelkopf hand played to its end by seats that make the first move offered to them, and the
  theorems about the rules applied to it.
\<close>

fun play_first :: "nat \<Rightarrow> state_dk \<Rightarrow> hands_dk \<Rightarrow> state_dk \<times> hands_dk" where
  "play_first 0 s h = (s, h)"
| "play_first (Suc n) s h =
     (if \<not> (0 \<le> turn_dk s \<and> turn_dk s < 4) then (s, h)
      else case actions_dk s (nat (turn_dk s)) (h (nat (turn_dk s))) of [] \<Rightarrow> (s, h)
        | a # _ \<Rightarrow> (case apply_dk s a of Inl e \<Rightarrow> (s, h) | Inr s' \<Rightarrow> play_first n s' (take_out_dk h a)))"

lemma play_first_honest:
  "honest_dk h0 s h \<Longrightarrow> honest_dk h0 (fst (play_first n s h)) (snd (play_first n s h))"
proof (induction n arbitrary: s h)
  case (Suc n)
  show ?case
  proof (cases "0 \<le> turn_dk s \<and> turn_dk s < 4")
    case True
    then have z: "nat (turn_dk s) < 4" by linarith
    show ?thesis
    proof (cases "actions_dk s (nat (turn_dk s)) (h (nat (turn_dk s)))")
      case (Cons a as)
      then have a: "a \<in> set (actions_dk s (nat (turn_dk s)) (h (nat (turn_dk s))))" by simp
      show ?thesis
      proof (cases "apply_dk s a")
        case (Inr s')
        then show ?thesis using Suc.IH [OF moved_dk [OF Suc.prems z a Inr]] Cons True by simp
      qed (use Suc.prems Cons True in simp)
    qed (use Suc.prems True in simp)
  qed (use Suc.prems in auto)
qed simp

definition deal_dk :: hands_dk where
  "deal_dk z = map (\<lambda>i. DECK_dk ! (4 * i + z)) [0, 1, 2, 3, 4, 5, 6, 7, 8, 9, 10, 11]"

definition hand_dk :: "nat \<Rightarrow> state_dk \<times> hands_dk" where
  "hand_dk n = play_first n (start_dk (Some 3) None) deal_dk"

lemma hand_dk_honest: "honest_dk deal_dk (fst (hand_dk n)) (snd (hand_dk n))"
  unfolding hand_dk_def by (intro play_first_honest dealt_dk) (auto simp: init_dk_def int32_def)

lemma deal_dk_ok: "deal_ok_dk deal_dk"
proof -
  have "mset (concat (map deal_dk [0, 1, 2, 3])) = mset DECK_dk"
    by (simp add: deal_dk_def DECK_dk_def)
  moreover have "length (deal_dk 0) = 12" "length (deal_dk 1) = 12" "length (deal_dk 2) = 12" "length (deal_dk 3) = 12"
    by code_simp+
  ultimately show ?thesis by (auto simp: deal_ok_dk_def less_Suc_eq numeral_eq_Suc)
qed

lemma hand_dk_done: "done_dk (fst (hand_dk 52))" by code_simp

theorem doko_honest_passes_audit_witness: "audit_dk (fst (hand_dk 20)) (four deal_dk) = Some []"
  by (rule doko_honest_passes_audit [OF deal_dk_ok hand_dk_honest])

theorem doko_one_winner_witness:
  "\<not> (met (level (fst (hand_dk 52))) (eyes_of (result_of_dk (fst (hand_dk 52)) (four deal_dk)))
        (tricks_of (result_of_dk (fst (hand_dk 52)) (four deal_dk))) Re
      \<and> met (level (fst (hand_dk 52))) (eyes_of (result_of_dk (fst (hand_dk 52)) (four deal_dk)))
        (tricks_of (result_of_dk (fst (hand_dk 52)) (four deal_dk))) Kontra)"
  using doko_one_winner [OF deal_dk_ok hand_dk_honest hand_dk_done refl] by (rule conjunct1)

theorem doko_points_zero_sum_witness:
  "sum_list (points_of (result_of_dk (fst (hand_dk 52)) (four deal_dk))) = 0"
  by (rule doko_points_zero_sum [OF deal_dk_ok hand_dk_honest hand_dk_done])

theorem doko_actions_accepted_witness:
  "\<exists>s'. apply_dk (fst (hand_dk 4)) (hd (actions_dk (fst (hand_dk 4)) 0 (snd (hand_dk 4) 0))) = Inr s'"
proof -
  have "actions_dk (fst (hand_dk 4)) 0 (snd (hand_dk 4) 0) \<noteq> []" by code_simp
  then show ?thesis
    using doko_actions_accepted [OF deal_dk_ok hand_dk_honest, of 0] by (simp add: hd_in_set)
qed

theorem doko_settles_witness:
  "\<exists>s' h'. settle apply_dk done_dk auto_of_dk take_out_dk 66 (fst (hand_dk 20)) (snd (hand_dk 20)) = (True, s', h')
     \<and> done_dk s'"
  by (rule doko_settles [OF deal_dk_ok hand_dk_honest])

definition stuck_says :: "action_dk list" where
  "stuck_says = [say_act 0 VGesund, say_act 1 VGesund, say_act 2 VGesund, say_act 3 VGesund, say_act 0 VGesund]"

theorem doko_negative_dealer_witness:
  "\<exists>s. run apply_dk (start_dk (Some (-1)) None) stuck_says = Inr s \<and> phase_dk_of s = DVorbehalt"
proof -
  have "\<not> isl (run apply_dk (start_dk (Some (-1)) None) stuck_says)" by code_simp
  then obtain s where s: "run apply_dk (start_dk (Some (-1)) None) stuck_says = Inr s"
    by (cases "run apply_dk (start_dk (Some (-1)) None) stuck_says") auto
  then show ?thesis using doko_negative_dealer [OF s] by blast
qed

end
