(* ===== verification/Json.thy ===== *)
theory Json
  imports Complex_Main "HOL-Library.Code_Target_Nat" Duell_Prelude
begin

text \<open>
  The values of the JavaScript modules that take data from outside: what \<open>JSON.parse\<close> and
  the structured channels deliver. A string is the sequence of its UTF-16 code units; a number is an
  exact rational or one of the values that are none; an object is the list of its own properties.
  \<open>JUndef\<close> is the value of a missing property.
\<close>

type_synonym jstring = "nat list"

definition js :: "string \<Rightarrow> jstring" where
  "js = map of_char"

datatype jnum = Rat rat | NaN | Infty bool

datatype json = JUndef | JNull | JBool bool | JNum jnum | JStr jstring | JArr "json list"
  | JObj "(jstring \<times> json) list"

abbreviation JInt :: "int \<Rightarrow> json" where
  "JInt n \<equiv> JNum (Rat (of_int n))"

text \<open>A property read: \<open>m.k\<close> of an object; the keys read here are no properties of the other types.\<close>

fun field :: "json \<Rightarrow> string \<Rightarrow> json" where
  "field (JObj kvs) k = (case map_of kvs (js k) of None \<Rightarrow> JUndef | Some v \<Rightarrow> v)"
| "field _ k = JUndef"

definition jobj :: "(string \<times> json) list \<Rightarrow> json" where
  "jobj kvs = JObj (map (\<lambda>(k, v). (js k, v)) kvs)"

fun truthy :: "json \<Rightarrow> bool" where
  "truthy JUndef = False" | "truthy JNull = False" | "truthy (JBool b) = b"
| "truthy (JNum (Rat r)) = (r \<noteq> 0)" | "truthy (JNum NaN) = False" | "truthy (JNum (Infty b)) = True"
| "truthy (JStr s) = (s \<noteq> [])" | "truthy (JArr xs) = True" | "truthy (JObj kvs) = True"

text \<open>\<open>typeof v === 'string'\<close>, \<open>Number.isInteger(v)\<close>, with the value.\<close>

fun as_string :: "json \<Rightarrow> jstring option" where
  "as_string (JStr s) = Some s" | "as_string _ = None"

fun as_integer :: "json \<Rightarrow> int option" where
  "as_integer (JNum (Rat r)) = (if of_int \<lfloor>r\<rfloor> = r then Some \<lfloor>r\<rfloor> else None)"
| "as_integer _ = None"

text \<open>\<open>new TextEncoder().encode(s).length\<close>: a pair of surrogates takes four bytes, a lone one three.\<close>

definition high_surrogate :: "nat \<Rightarrow> bool" where
  "high_surrogate c \<longleftrightarrow> 0xD800 \<le> c \<and> c < 0xDC00"

definition low_surrogate :: "nat \<Rightarrow> bool" where
  "low_surrogate c \<longleftrightarrow> 0xDC00 \<le> c \<and> c < 0xE000"

fun utf8_length :: "jstring \<Rightarrow> nat" where
  "utf8_length [] = 0"
| "utf8_length [c] = (if c < 0x80 then 1 else if c < 0x800 then 2 else 3)"
| "utf8_length (c # d # cs) =
     (if high_surrogate c \<and> low_surrogate d then 4 + utf8_length cs
      else (if c < 0x80 then 1 else if c < 0x800 then 2 else 3) + utf8_length (d # cs))"

text \<open>\<open>String(n)\<close> of a whole number.\<close>

fun digits :: "nat \<Rightarrow> jstring" where
  "digits n = (if n < 10 then [48 + n] else digits (n div 10) @ [48 + n mod 10])"

declare digits.simps [simp del]

definition decimal :: "int \<Rightarrow> jstring" where
  "decimal n = (if n < 0 then 45 # digits (nat (- n)) else digits (nat n))"

lemma js_Nil [simp]: "js [] = []" by (simp add: js_def)
lemma js_Cons [simp]: "js (c # s) = of_char c # js s" by (simp add: js_def)

lemma js_inj [simp]: "js s = js t \<longleftrightarrow> s = t"
proof -
  have "inj (of_char :: char \<Rightarrow> nat)" by (rule inj_of_char)
  then show ?thesis unfolding js_def by (simp add: inj_map_eq_map)
qed

lemma field_jobj [simp]: "field (jobj kvs) k = (case map_of kvs k of None \<Rightarrow> JUndef | Some v \<Rightarrow> v)"
proof -
  have "map_of (map (\<lambda>(k, v). (js k, v)) kvs) (js k) = map_of kvs k"
    by (induction kvs) auto
  then show ?thesis by (simp add: jobj_def)
qed

lemma truthy_jobj [simp]: "truthy (jobj kvs)" by (simp add: jobj_def)

lemma as_string_iff [simp]: "as_string v = Some s \<longleftrightarrow> v = JStr s"
  by (cases v) auto

lemma as_integer_int [simp]: "as_integer (JInt n) = Some n" by simp

text \<open>The encoding never shortens a string and at most triples it.\<close>

lemma utf8_length_ge: "length s \<le> utf8_length s"
  by (induction s rule: utf8_length.induct) auto

lemma utf8_length_le: "utf8_length s \<le> 3 * length s"
  by (induction s rule: utf8_length.induct) (auto simp: high_surrogate_def)

lemma utf8_length_ascii: "\<forall>c \<in> set s. c < 0x80 \<Longrightarrow> utf8_length s = length s"
  by (induction s rule: utf8_length.induct) (auto simp: high_surrogate_def)

lemma digits_numeric: "c \<in> set (digits n) \<Longrightarrow> 48 \<le> c \<and> c \<le> 57"
proof (induction n rule: digits.induct)
  case (1 n)
  then show ?case
    by (cases "n < 10") (subst (asm) digits.simps; force)+
qed

lemma digits_inj: "digits m = digits n \<Longrightarrow> m = n"
proof (induction m arbitrary: n rule: digits.induct)
  case (1 m)
  have len: "length (digits k) = 1 \<longleftrightarrow> k < 10" for k
    by (subst digits.simps) (auto simp: digits.simps [of "k div 10"])
  show ?case
  proof (cases "m < 10")
    case True
    then have "n < 10" using 1(2) len [of m] len [of n] by simp
    with True 1(2) show ?thesis by (simp add: digits.simps [of m] digits.simps [of n])
  next
    case False
    then have "\<not> n < 10" using 1(2) len [of m] len [of n] by simp
    with False 1(2) have "digits (m div 10) = digits (n div 10)" "m mod 10 = n mod 10"
      by (simp_all add: digits.simps [of m] digits.simps [of n])
    with 1(1) [OF False] show ?thesis by (metis div_mult_mod_eq)
  qed
qed

end
