(* ===== verification/Call_Protocol.thy ===== *)
theory Call_Protocol
  imports Json
begin

text \<open>
  The signalling messages of a call, \<open>protocol.js\<close>: what the channel delivers is a value
  \<open>parseMessage\<close> either rejects or turns into one of ten messages; what a session sends is the
  object \<open>CallSession.send\<close> builds. The mapping of a text to lower case is the parameter
  \<open>lower\<close>; the random bytes of an identifier and the HMAC of the credentials are arguments.
\<close>

section \<open>Messages\<close>

definition PROTOCOL_VERSION :: int where "PROTOCOL_VERSION = 1"
definition MAX_SDP_BYTES :: nat where "MAX_SDP_BYTES = 32768"
definition MAX_CANDIDATE_BYTES :: nat where "MAX_CANDIDATE_BYTES = 2048"

datatype reason = Hangup | MediaDenied | NoAnswer | ConnectionLost | Cancelled
  | Declined | IsBusy | RemoteHangup

fun reason_name :: "reason \<Rightarrow> string" where
  "reason_name Hangup = ''hangup''" | "reason_name MediaDenied = ''media-denied''"
| "reason_name NoAnswer = ''no-answer''" | "reason_name ConnectionLost = ''connection-lost''"
| "reason_name Cancelled = ''cancelled''" | "reason_name Declined = ''declined''"
| "reason_name IsBusy = ''busy''" | "reason_name RemoteHangup = ''remote-hangup''"

definition REASONS :: "reason list" where
  "REASONS = [Hangup, MediaDenied, NoAnswer, ConnectionLost, Cancelled]"

record ice_server =
  urls :: "jstring list"
  username :: "jstring option"
  credential :: "jstring option"

record candidate =
  cand :: jstring
  sdpMid :: "jstring option"
  sdpMLineIndex :: "int option"
  usernameFragment :: "jstring option"

text \<open>A message with the servers of an offer as \<open>'s\<close>: parsed, or as the application gave them.\<close>

datatype 's message = MInvite bool | MRinging | MAccept bool | MDecline | MBusy
  | MOffer nat jstring 's | MAnswer nat jstring 's | MIce nat candidate | MRestart nat | MBye reason

type_synonym parsed = "ice_server list option message"

definition call_id_char :: "nat \<Rightarrow> bool" where
  "call_id_char c \<longleftrightarrow> 65 \<le> c \<and> c \<le> 90 \<or> 97 \<le> c \<and> c \<le> 122 \<or> 48 \<le> c \<and> c \<le> 57 \<or> c = 95 \<or> c = 45"

definition CALL_ID :: "jstring \<Rightarrow> bool" where
  "CALL_ID s \<longleftrightarrow> 8 \<le> length s \<and> length s \<le> 64 \<and> list_all call_id_char s"

section \<open>Servers\<close>

fun js_prefix :: "string \<Rightarrow> jstring \<Rightarrow> bool" where
  "js_prefix p s = (take (length p) s = js p)"

text \<open>\<open>[].concat(v)\<close>.\<close>

fun concat_one :: "json \<Rightarrow> json list" where
  "concat_one (JArr xs) = xs" | "concat_one v = [v]"

definition ice_url :: "json \<Rightarrow> bool" where
  "ice_url u = (case as_string u of None \<Rightarrow> False
     | Some s \<Rightarrow> length s < 256 \<and> (js_prefix ''stun:'' s \<or> js_prefix ''turn:'' s \<or> js_prefix ''turns:'' s))"

fun opt_string :: "json \<Rightarrow> jstring option option" where
  "opt_string JUndef = Some None" | "opt_string (JStr s) = Some (Some s)" | "opt_string _ = None"

definition parse_server :: "json \<Rightarrow> ice_server option" where
  "parse_server s =
     (let us = concat_one (field s ''urls'') in
      if us = [] \<or> length us > 4 \<or> \<not> list_all ice_url us then None
      else case (opt_string (field s ''username''), opt_string (field s ''credential'')) of
        (Some n, Some c) \<Rightarrow> Some \<lparr>urls = map (the \<circ> as_string) us, username = n, credential = c\<rparr>
      | _ \<Rightarrow> None)"

fun parse_servers :: "json list \<Rightarrow> ice_server list option" where
  "parse_servers [] = Some []"
| "parse_servers (s # ss) = (case parse_server s of None \<Rightarrow> None
     | Some x \<Rightarrow> map_option (Cons x) (parse_servers ss))"

fun parseIceServers :: "json \<Rightarrow> ice_server list option" where
  "parseIceServers (JArr ss) = (if length ss > 4 then None else parse_servers ss)"
| "parseIceServers _ = None"

text \<open>\<open>url.replace(/^[a-z]+:/, '').split(/[:?]/)[0].toLowerCase()\<close>.\<close>

definition small_letter :: "nat \<Rightarrow> bool" where
  "small_letter c \<longleftrightarrow> 97 \<le> c \<and> c \<le> 122"

definition strip_scheme :: "jstring \<Rightarrow> jstring" where
  "strip_scheme u = (let l = takeWhile small_letter u; r = dropWhile small_letter u in
     if l \<noteq> [] \<and> r \<noteq> [] \<and> hd r = 58 then tl r else u)"

definition iceUrlHost :: "(jstring \<Rightarrow> jstring) \<Rightarrow> jstring \<Rightarrow> jstring" where
  "iceUrlHost lower u = lower (takeWhile (\<lambda>c. c \<noteq> 58 \<and> c \<noteq> 63) (strip_scheme u))"

section \<open>Parsing\<close>

definition parse_epoch :: "json \<Rightarrow> nat option" where
  "parse_epoch m = (case as_integer (field m ''epoch'') of None \<Rightarrow> None
     | Some e \<Rightarrow> if e < 0 then None else Some (nat e))"

definition parse_sdp :: "json \<Rightarrow> (nat \<times> jstring \<times> ice_server list option) option" where
  "parse_sdp m = (case parse_epoch m of None \<Rightarrow> None | Some e \<Rightarrow>
     (case as_string (field m ''sdp'') of None \<Rightarrow> None | Some s \<Rightarrow>
        if s = [] \<or> utf8_length s > MAX_SDP_BYTES then None
        else Some (e, s, parseIceServers (field m ''iceServers''))))"

definition parse_candidate :: "json \<Rightarrow> candidate option" where
  "parse_candidate c = (if \<not> truthy c then None else
     case as_string (field c ''candidate'') of None \<Rightarrow> None | Some s \<Rightarrow>
       if utf8_length s > MAX_CANDIDATE_BYTES then None
       else Some \<lparr>cand = s, sdpMid = as_string (field c ''sdpMid''),
         sdpMLineIndex = as_integer (field c ''sdpMLineIndex''),
         usernameFragment = as_string (field c ''usernameFragment'')\<rparr>)"

definition parse_reason :: "json \<Rightarrow> reason" where
  "parse_reason v = (case find (\<lambda>r. v = JStr (js (reason_name r))) REASONS of Some r \<Rightarrow> r | None \<Rightarrow> Hangup)"

text \<open>The part of \<open>parseMessage\<close> after the checks of version, type and identifier.\<close>

definition parse_body :: "string \<Rightarrow> json \<Rightarrow> parsed option" where
  "parse_body t m =
     (if t = ''call.invite'' then Some (MInvite (field m ''video'' = JBool True))
      else if t = ''call.accept'' then Some (MAccept (field m ''video'' = JBool True))
      else if t = ''call.offer'' then map_option (\<lambda>(e, s, i). MOffer e s i) (parse_sdp m)
      else if t = ''call.answer'' then map_option (\<lambda>(e, s, i). MAnswer e s i) (parse_sdp m)
      else if t = ''call.ice'' then
        (case parse_epoch m of None \<Rightarrow> None
         | Some e \<Rightarrow> map_option (MIce e) (parse_candidate (field m ''candidate'')))
      else if t = ''call.restart'' then map_option MRestart (parse_epoch m)
      else if t = ''call.bye'' then Some (MBye (parse_reason (field m ''reason'')))
      else if t = ''call.ringing'' then Some MRinging
      else if t = ''call.decline'' then Some MDecline
      else Some MBusy)"

definition TYPES :: "string list" where
  "TYPES = [''call.invite'', ''call.ringing'', ''call.accept'', ''call.decline'', ''call.busy'',
     ''call.offer'', ''call.answer'', ''call.ice'', ''call.restart'', ''call.bye'']"

definition parseMessage :: "json \<Rightarrow> (jstring \<times> parsed) option" where
  "parseMessage m =
     (case m of JObj kvs \<Rightarrow>
        (if field m ''v'' \<noteq> JInt PROTOCOL_VERSION then None
         else case find (\<lambda>t. field m ''type'' = JStr (js t)) TYPES of None \<Rightarrow> None | Some t \<Rightarrow>
           (case as_string (field m ''callId'') of None \<Rightarrow> None | Some i \<Rightarrow>
              if CALL_ID i then map_option (Pair i) (parse_body t m) else None))
      | _ \<Rightarrow> None)"

section \<open>Sending\<close>

fun opt_json :: "('a \<Rightarrow> json) \<Rightarrow> 'a option \<Rightarrow> json" where
  "opt_json f None = JNull" | "opt_json f (Some x) = f x"

definition candidate_json :: "candidate \<Rightarrow> json" where
  "candidate_json c = jobj [(''candidate'', JStr (cand c)), (''sdpMid'', opt_json JStr (sdpMid c)),
     (''sdpMLineIndex'', opt_json JInt (sdpMLineIndex c)), (''usernameFragment'', opt_json JStr (usernameFragment c))]"

fun msg_fields :: "json message \<Rightarrow> (string \<times> json) list" where
  "msg_fields (MInvite v) = [(''type'', JStr (js ''call.invite'')), (''video'', JBool v)]"
| "msg_fields MRinging = [(''type'', JStr (js ''call.ringing''))]"
| "msg_fields (MAccept v) = [(''type'', JStr (js ''call.accept'')), (''video'', JBool v)]"
| "msg_fields MDecline = [(''type'', JStr (js ''call.decline''))]"
| "msg_fields MBusy = [(''type'', JStr (js ''call.busy''))]"
| "msg_fields (MOffer e s i) = [(''type'', JStr (js ''call.offer'')), (''epoch'', JInt (int e)), (''sdp'', JStr s), (''iceServers'', i)]"
| "msg_fields (MAnswer e s i) = [(''type'', JStr (js ''call.answer'')), (''epoch'', JInt (int e)), (''sdp'', JStr s), (''iceServers'', i)]"
| "msg_fields (MIce e c) = [(''type'', JStr (js ''call.ice'')), (''epoch'', JInt (int e)), (''candidate'', candidate_json c)]"
| "msg_fields (MRestart e) = [(''type'', JStr (js ''call.restart'')), (''epoch'', JInt (int e))]"
| "msg_fields (MBye r) = [(''type'', JStr (js ''call.bye'')), (''reason'', JStr (js (reason_name r)))]"

text \<open>\<open>\{ v: PROTOCOL_VERSION, callId: this.callId, ...m \}\<close>.\<close>

definition wire :: "jstring \<Rightarrow> json message \<Rightarrow> json" where
  "wire i m = jobj ([(''v'', JInt PROTOCOL_VERSION), (''callId'', JStr i)] @ msg_fields m)"

text \<open>What a message has to satisfy for the other side to take it as it is.\<close>

fun sendable :: "'s message \<Rightarrow> bool" where
  "sendable (MOffer e s i) = (s \<noteq> [] \<and> utf8_length s \<le> MAX_SDP_BYTES)"
| "sendable (MAnswer e s i) = (s \<noteq> [] \<and> utf8_length s \<le> MAX_SDP_BYTES)"
| "sendable (MIce e c) = (utf8_length (cand c) \<le> MAX_CANDIDATE_BYTES)"
| "sendable (MBye r) = (r \<in> set REASONS)"
| "sendable _ = True"

section \<open>Identifiers and credentials\<close>

definition hex_digit :: "nat \<Rightarrow> nat" where
  "hex_digit d = (if d < 10 then 48 + d else 87 + d)"

text \<open>\<open>x.toString(16).padStart(2, '0')\<close> for a byte; \<open>newCallId\<close> over its sixteen bytes.\<close>

definition hex_byte :: "nat \<Rightarrow> jstring" where
  "hex_byte b = [hex_digit (b div 16), hex_digit (b mod 16)]"

definition newCallId :: "nat list \<Rightarrow> jstring" where
  "newCallId bs = concat (map hex_byte bs)"

text \<open>
  \<open>mintTurnCredential\<close> of the server, for whole seconds: \<open>hmac\<close> is the keyed digest in base64,
  the first error is of a missing secret, then of the subject, then of the lifetime.
\<close>

definition pseudonym :: "jstring \<Rightarrow> bool" where
  "pseudonym s \<longleftrightarrow> 1 \<le> length s \<and> length s \<le> 64 \<and> list_all call_id_char s"

definition mintTurnCredential ::
    "(jstring \<Rightarrow> jstring \<Rightarrow> jstring) \<Rightarrow> jstring \<Rightarrow> jstring \<Rightarrow> int \<Rightarrow> int \<Rightarrow> (jstring \<times> jstring) answer" where
  "mintTurnCredential hmac secret subject ttl now =
     (if secret = [] then fail ''secret fehlt''
      else if \<not> pseudonym subject then fail ''subject muss ein Pseudonym sein''
      else if \<not> (ttl > 0 \<and> ttl \<le> 3600) then fail ''ttlSeconds ausserhalb 1..3600''
      else let u = decimal (now div 1000 + ttl) @ [58] @ subject in okay (u, hmac secret u))"

section \<open>Lemmas\<close>

lemma opt_json_string [simp]: "as_string (opt_json JStr x) = x"
  by (cases x) auto

lemma opt_json_integer [simp]: "as_integer (opt_json JInt x) = x"
  by (cases x) auto

lemma parse_candidate_json:
  "utf8_length (cand c) \<le> MAX_CANDIDATE_BYTES \<Longrightarrow> parse_candidate (candidate_json c) = Some c"
  by (simp add: parse_candidate_def candidate_json_def)

lemma parse_reason_name: "r \<in> set REASONS \<Longrightarrow> parse_reason (JStr (js (reason_name r))) = r"
  by (auto simp: parse_reason_def REASONS_def)

lemma field_wire [simp]:
  "field (wire i m) k = (if k = ''v'' then JInt PROTOCOL_VERSION else if k = ''callId'' then JStr i
     else case map_of (msg_fields m) k of None \<Rightarrow> JUndef | Some v \<Rightarrow> v)"
  by (simp add: wire_def)

lemma wire_is_object: "\<exists>kvs. wire i m = JObj kvs"
  by (simp add: wire_def jobj_def)

fun type_name :: "'s message \<Rightarrow> string" where
  "type_name (MInvite v) = ''call.invite''" | "type_name MRinging = ''call.ringing''"
| "type_name (MAccept v) = ''call.accept''" | "type_name MDecline = ''call.decline''"
| "type_name MBusy = ''call.busy''" | "type_name (MOffer e s i) = ''call.offer''"
| "type_name (MAnswer e s i) = ''call.answer''" | "type_name (MIce e c) = ''call.ice''"
| "type_name (MRestart e) = ''call.restart''" | "type_name (MBye r) = ''call.bye''"

lemma find_type: "find (\<lambda>t. field (wire i m) ''type'' = JStr (js t)) TYPES = Some (type_name m)"
  by (cases m) (simp_all add: TYPES_def)

lemma parse_body_wire:
  "sendable m \<Longrightarrow> parse_body (type_name m) (wire i m) = Some (map_message parseIceServers m)"
  by (cases m) (simp_all add: parse_body_def parse_epoch_def parse_sdp_def parse_candidate_json parse_reason_name)

lemma parseMessage_object:
  "m = JObj kvs \<Longrightarrow> parseMessage m =
     (if field m ''v'' \<noteq> JInt PROTOCOL_VERSION then None
      else case find (\<lambda>t. field m ''type'' = JStr (js t)) TYPES of None \<Rightarrow> None | Some t \<Rightarrow>
        (case as_string (field m ''callId'') of None \<Rightarrow> None | Some i \<Rightarrow>
           if CALL_ID i then map_option (Pair i) (parse_body t m) else None))"
  by (simp only: parseMessage_def json.case)

text \<open>
  C18: what a session sends the other side reads as it was meant: the object built for a message is
  parsed into the same call and the same message, with its servers checked, whenever the session
  description and the candidate keep within their size.
\<close>

theorem parse_of_sent:
  assumes "CALL_ID i" and "sendable m"
  shows "parseMessage (wire i m) = Some (i, map_message parseIceServers m)"
proof -
  obtain kvs where "wire i m = JObj kvs" using wire_is_object by blast
  note P = parseMessage_object [OF this, unfolded find_type]
  show ?thesis using parse_body_wire [OF assms(2)] assms(1) by (simp add: P)
qed

theorem parse_of_sent_witness:
  "parseMessage (wire (js ''abcdefgh'') (MOffer 3 (js ''v=0'') JUndef))
     = Some (js ''abcdefgh'', MOffer 3 (js ''v=0'') None)"
proof -
  have "CALL_ID (js ''abcdefgh'')" by code_simp
  moreover have "sendable (MOffer 3 (js ''v=0'') JUndef)"
    by (simp add: high_surrogate_def low_surrogate_def MAX_SDP_BYTES_def)
  ultimately have "parseMessage (wire (js ''abcdefgh'') (MOffer 3 (js ''v=0'') JUndef))
    = Some (js ''abcdefgh'', map_message parseIceServers (MOffer 3 (js ''v=0'') JUndef))"
    by (rule parse_of_sent)
  then show ?thesis by (simp only: message.map parseIceServers.simps)
qed

text \<open>What may come out of the parser.\<close>

definition server_ok :: "ice_server \<Rightarrow> bool" where
  "server_ok s \<longleftrightarrow> urls s \<noteq> [] \<and> length (urls s) \<le> 4 \<and> list_all (\<lambda>u. ice_url (JStr u)) (urls s)"

fun message_ok :: "parsed \<Rightarrow> bool" where
  "message_ok (MOffer e s (Some l)) = (sendable (MOffer e s l) \<and> length l \<le> 4 \<and> list_all server_ok l)"
| "message_ok (MAnswer e s (Some l)) = (sendable (MAnswer e s l) \<and> length l \<le> 4 \<and> list_all server_ok l)"
| "message_ok m = sendable m"

lemma ice_url_string: "ice_url u \<Longrightarrow> JStr (the (as_string u)) = u"
  by (cases u) (auto simp: ice_url_def)

lemma parse_server_ok: "parse_server v = Some s \<Longrightarrow> server_ok s"
  by (auto simp: parse_server_def Let_def server_ok_def list_all_iff ice_url_string
      simp del: js_prefix.simps split: if_splits option.splits)

lemma parse_servers_ok: "parse_servers vs = Some l \<Longrightarrow> length l = length vs \<and> list_all server_ok l"
  by (induction vs arbitrary: l) (auto split: option.splits dest: parse_server_ok)

lemma parseIceServers_ok: "parseIceServers v = Some l \<Longrightarrow> length l \<le> 4 \<and> list_all server_ok l"
  by (cases v) (auto split: if_splits dest: parse_servers_ok)

lemma parse_reason_in: "parse_reason v \<in> set REASONS"
  unfolding parse_reason_def
  by (cases "find (\<lambda>r. v = JStr (js (reason_name r))) REASONS") (auto simp: REASONS_def split: if_splits)

lemma parse_sdp_ok:
  "parse_sdp m = Some (e, s, i) \<Longrightarrow> s \<noteq> [] \<and> utf8_length s \<le> MAX_SDP_BYTES
    \<and> (\<forall>l. i = Some l \<longrightarrow> length l \<le> 4 \<and> list_all server_ok l)"
  by (auto simp: parse_sdp_def split: option.splits if_splits dest: parseIceServers_ok)

lemma parse_candidate_ok: "parse_candidate v = Some c \<Longrightarrow> utf8_length (cand c) \<le> MAX_CANDIDATE_BYTES"
  by (auto simp: parse_candidate_def split: option.splits if_splits)

lemma parse_body_ok:
  assumes "parse_body t m = Some b"
  shows "message_ok b"
proof (cases b)
  case (MOffer e s i)
  then have "parse_sdp m = Some (e, s, i)" using assms by (auto simp: parse_body_def split: if_splits option.splits)
  then show ?thesis using parse_sdp_ok MOffer by (cases i) auto
next
  case (MAnswer e s i)
  then have "parse_sdp m = Some (e, s, i)" using assms by (auto simp: parse_body_def split: if_splits option.splits)
  then show ?thesis using parse_sdp_ok MAnswer by (cases i) auto
next
  case (MIce e c)
  then have "parse_candidate (field m ''candidate'') = Some c"
    using assms by (auto simp: parse_body_def split: if_splits option.splits)
  then show ?thesis using parse_candidate_ok MIce by simp
next
  case (MBye r)
  then show ?thesis using assms parse_reason_in by (auto simp: parse_body_def split: if_splits option.splits)
qed simp_all

text \<open>
  Whatever value arrives, what \<open>parseMessage\<close> lets through is well formed: an identifier of 8 to
  64 harmless characters, a description and a candidate within their size, a reason of the list, at
  most four servers of one to four short STUN or TURN addresses.
\<close>

theorem parsed_is_well_formed:
  assumes "parseMessage v = Some (i, m)"
  shows "CALL_ID i \<and> message_ok m"
  using assms parse_body_ok unfolding parseMessage_def
  by (auto split: json.splits if_splits option.splits)

theorem parsed_is_well_formed_witness:
  "CALL_ID (js ''abcdefgh'') \<and> message_ok (MBye NoAnswer)"
proof (rule parsed_is_well_formed)
  show "parseMessage (wire (js ''abcdefgh'') (MBye NoAnswer)) = Some (js ''abcdefgh'', MBye NoAnswer)" by code_simp
qed

lemma hex_digit_char: "d < 16 \<Longrightarrow> call_id_char (hex_digit d)"
  by (auto simp: hex_digit_def call_id_char_def)

lemma newCallId_char: "\<forall>b \<in> set bs. b < 256 \<Longrightarrow> list_all call_id_char (newCallId bs)"
proof (induction bs)
  case (Cons b bs)
  have "b div 16 < 16" "b mod 16 < 16" using Cons.prems by auto
  then show ?case using Cons by (simp add: newCallId_def hex_byte_def hex_digit_char)
qed (simp add: newCallId_def)

lemma newCallId_length: "length (newCallId bs) = 2 * length bs"
  by (induction bs) (simp_all add: newCallId_def hex_byte_def)

lemma newCallId_valid: "length bs = 16 \<Longrightarrow> \<forall>b \<in> set bs. b < 256 \<Longrightarrow> CALL_ID (newCallId bs)"
  by (simp add: CALL_ID_def newCallId_length newCallId_char)

lemma decimal_no_colon: "58 \<notin> set (decimal n)"
  using digits_numeric [of 58 "nat n"] digits_numeric [of 58 "nat (- n)"] by (auto simp: decimal_def)

text \<open>A credential names the pseudonym behind its first colon and expires within the hour.\<close>

lemma credential_expiry:
  assumes "mintTurnCredential hmac secret subject ttl now = Inr (u, c)"
  shows "\<exists>x. now div 1000 < x \<and> x \<le> now div 1000 + 3600 \<and> takeWhile (\<lambda>d. d \<noteq> 58) u = decimal x
    \<and> dropWhile (\<lambda>d. d \<noteq> 58) u = 58 # subject \<and> c = hmac secret u"
proof -
  have u: "u = decimal (now div 1000 + ttl) @ [58] @ subject" "c = hmac secret u" "0 < ttl" "ttl \<le> 3600"
    using assms by (auto simp: mintTurnCredential_def Let_def split: if_splits)
  have n: "\<forall>d \<in> set (decimal (now div 1000 + ttl)). d \<noteq> 58" using decimal_no_colon by blast
  have "takeWhile (\<lambda>d. d \<noteq> 58) u = decimal (now div 1000 + ttl)" "dropWhile (\<lambda>d. d \<noteq> 58) u = 58 # subject"
    using n by (simp_all add: u(1) takeWhile_append dropWhile_append)
  then show ?thesis using u(2-4) by (intro exI [of _ "now div 1000 + ttl"]) simp
qed

end
