(* ===== verification/CallCore.thy ===== *)
theory CallCore
  imports Call_Protocol
begin

text \<open>
  A call session, the class \<open>CallSession\<close> of \<open>call-core.js\<close>. A method becomes a function on
  the record of the object's fields; what it makes happen outside (a message sent, the microphone
  opened, a peer connection configured) is put on \<open>trace\<close>, newest first. The asynchronous jobs
  run one after the other, as \<open>enqueue\<close> chains them; a job that awaits is the continuation
  \<open>running\<close>, one constructor per \<open>await\<close>, and everything else may happen before it is resumed.
  A timer fires at any time while it is set. The clock is an argument.

  The browser's peer connection is the record \<open>peer\<close>: its two states and which descriptions are
  set. What its asynchronous methods answer is part of the event that resumes a continuation, and
  so is whether a synchronous call on it succeeds.
\<close>

section \<open>State\<close>

datatype state = IDLE | CALLING | RINGING_OUT | RINGING_IN | CONNECTING | CONNECTED | RECONNECTING | ENDED
datatype role = Caller | Callee

record timing =
  signalRetryMs :: int
  iceFetchTimeoutMs :: int
  minEpochGapMs :: int
  ringTimeoutMs :: int
  connectTimeoutMs :: int
  disconnectGraceMs :: int
  reconnectWindowMs :: int
  restartBackoffMs :: "int list"
  statsIntervalMs :: int
  mediaStallMs :: int

definition DEFAULT_TIMING :: timing where
  "DEFAULT_TIMING = \<lparr>signalRetryMs = 3000, iceFetchTimeoutMs = 5000, minEpochGapMs = 15000, ringTimeoutMs = 45000,
     connectTimeoutMs = 12000, disconnectGraceMs = 1500, reconnectWindowMs = 60000,
     restartBackoffMs = [0, 4000, 8000, 15000], statsIntervalMs = 1000, mediaStallMs = 4000\<rparr>"

text \<open>The peer connection.\<close>

datatype conn_state = CNew | CConnecting | CConnected | CDisconnected | CFailed | CClosed
datatype sig_state = Stable | HaveLocalOffer | HaveRemoteOffer
datatype sdp_type = TOffer_sdp | TAnswer_sdp

record peer =
  connectionState :: conn_state
  signalingState :: sig_state
  currentLocal :: "(sdp_type \<times> jstring) option"
  pendingLocal :: "(sdp_type \<times> jstring) option"
  remoteDescription :: bool

definition localDescription :: "peer \<Rightarrow> (sdp_type \<times> jstring) option" where
  "localDescription p = (case pendingLocal p of None \<Rightarrow> currentLocal p | Some d \<Rightarrow> Some d)"

text \<open>The local stream: whether there is a video track, and whether the audio track is enabled.\<close>

record stream =
  has_video :: bool
  audio_enabled :: bool

datatype policy = Relay | All

text \<open>What is awaited (the continuations) and what is queued (the jobs).\<close>

datatype side = Accepting | Offering
datatype offerer = FirstOffer | RestartOffer

datatype job = JAccept | JAccepted | JOffer nat jstring "ice_server list option" | JAnswer nat jstring
  | JIce nat candidate | JRestart

datatype cont = KMedia side | KServers side | KPrepared side
  | KRollback offerer bool | KPeer offerer bool | KCreate offerer "json" | KSetLocal offerer json | KOffered offerer
  | KOfferServers nat jstring | KOfferRemote nat | KOfferCreate nat | KOfferLocal nat
  | KAnswerRemote | KFlush "(nat \<times> candidate) list" "nat option" | KCandidate | KRestartServers

datatype timer_name = TInvite | TRing | TConnect | TOffer | TStats | TGrace | TWindow | TRestart
datatype callback = CInvite | CRing bool | CConnect | COffer nat json | CStats | CGrace | CWindow | CAsk | CRestart | CRetry

record timer =
  calls_back :: callback
  interval :: bool
  delay :: int
  armed :: bool

text \<open>What a session does to the world around it.\<close>

record snapshot =
  s_state :: state
  s_reason :: "reason option"
  s_error :: "string option"
  s_muted :: bool
  s_turn :: "bool option"
  s_video :: bool

datatype out = Send "json message" | Changed snapshot | Over reason
  | GetUserMedia bool | StopTracks | NewPeer policy "json list" | Configure policy "json list" | ClosePeer
  | AddCandidate candidate

record session =
  callId :: jstring
  role_of :: role
  video :: bool
  forceRelay :: bool
  relayOnly :: bool
  hasPeerServers :: bool
  allowedRelayHosts :: "jstring list"
  lowerCase :: "jstring \<Rightarrow> jstring"
  timing_of :: timing
  state_of :: state
  endReason :: "reason option"
  error_of :: "string option"
  pc :: "peer option"
  localStream :: "stream option"
  epoch :: nat
  answeredEpoch :: int
  pendingCandidates :: "(nat \<times> candidate) list"
  timers :: "timer_name \<Rightarrow> timer option"
  queue_of :: "job list"
  running :: "cont option"
  muted :: bool
  restartAttempt :: nat
  reconnectStartedAt :: "int option"
  lastPackets :: int
  lastPacketsAt :: int
  reconnects :: nat
  turnAvailable :: "bool option"
  lastOfferAt :: int
  epochAtLoss :: nat
  samples :: nat
  trace :: "out list"

record options =
  o_timing :: timing
  o_forceRelay :: bool
  o_peerServers :: bool
  o_allowed :: "jstring list"
  o_lower :: "jstring \<Rightarrow> jstring"

definition new_session :: "options \<Rightarrow> jstring \<Rightarrow> role \<Rightarrow> bool \<Rightarrow> session" where
  "new_session opt i r v = \<lparr>callId = i, role_of = r, video = v, forceRelay = o_forceRelay opt,
     relayOnly = o_forceRelay opt, hasPeerServers = o_peerServers opt,
     allowedRelayHosts = map (o_lower opt) (o_allowed opt), lowerCase = o_lower opt, timing_of = o_timing opt,
     state_of = IDLE, endReason = None, error_of = None, pc = None, localStream = None, epoch = 0,
     answeredEpoch = -1, pendingCandidates = [], timers = (\<lambda>_. None), queue_of = [], running = None,
     muted = False, restartAttempt = 0, reconnectStartedAt = None, lastPackets = 0, lastPacketsAt = 0,
     reconnects = 0, turnAvailable = None, lastOfferAt = 0, epochAtLoss = 0, samples = 0, trace = []\<rparr>"

section \<open>Helpers of the class\<close>

definition put :: "out \<Rightarrow> session \<Rightarrow> session" where
  "put e s = s\<lparr>trace := e # trace s\<rparr>"

abbreviation send :: "json message \<Rightarrow> session \<Rightarrow> session" where
  "send m \<equiv> put (Send m)"

definition isOver :: "session \<Rightarrow> bool" where
  "isOver s \<longleftrightarrow> state_of s = ENDED"

definition emit :: "session \<Rightarrow> session" where
  "emit s = put (Changed \<lparr>s_state = state_of s, s_reason = endReason s, s_error = error_of s, s_muted = muted s,
     s_turn = turnAvailable s, s_video = video s\<rparr>) s"

definition setState :: "state \<Rightarrow> session \<Rightarrow> session" where
  "setState x s = (if state_of s = x then s else emit (s\<lparr>state_of := x\<rparr>))"

definition clear :: "timer_name \<Rightarrow> session \<Rightarrow> session" where
  "clear n s = s\<lparr>timers := (timers s)(n := None)\<rparr>"

definition after :: "timer_name \<Rightarrow> int \<Rightarrow> callback \<Rightarrow> session \<Rightarrow> session" where
  "after n ms c s = s\<lparr>timers := (timers s)(n \<mapsto> \<lparr>calls_back = c, interval = False, delay = ms, armed = True\<rparr>)\<rparr>"

definition every :: "timer_name \<Rightarrow> int \<Rightarrow> callback \<Rightarrow> session \<Rightarrow> session" where
  "every n ms c s = s\<lparr>timers := (timers s)(n \<mapsto> \<lparr>calls_back = c, interval = True, delay = ms, armed = True\<rparr>)\<rparr>"

definition enqueue :: "job \<Rightarrow> session \<Rightarrow> session" where
  "enqueue j s = s\<lparr>queue_of := queue_of s @ [j]\<rparr>"

definition stopLocalMedia :: "session \<Rightarrow> session" where
  "stopLocalMedia s = (case localStream s of None \<Rightarrow> s | Some _ \<Rightarrow> (put StopTracks s)\<lparr>localStream := None\<rparr>)"

definition closePeer :: "session \<Rightarrow> session" where
  "closePeer s = (case pc s of None \<Rightarrow> s | Some _ \<Rightarrow> (put ClosePeer s)\<lparr>pc := None\<rparr>)"

definition finish :: "reason \<Rightarrow> bool \<Rightarrow> session \<Rightarrow> session" where
  "finish r notifyPeer s =
     (if isOver s then s
      else let s = s\<lparr>endReason := Some r\<rparr>;
               s = (if notifyPeer then send (MBye r) s else s);
               s = s\<lparr>timers := (\<lambda>_. None)\<rparr>;
               s = closePeer (stopLocalMedia s)
           in put (Over r) (setState ENDED s))"

definition pcPolicy :: "session \<Rightarrow> policy" where
  "pcPolicy s = (if relayOnly s then Relay else All)"

section \<open>The user's side\<close>

definition dial :: "session \<Rightarrow> session" where
  "dial s =
     (let s = setState CALLING (s\<lparr>role_of := Caller\<rparr>);
          s = send (MInvite (video s)) s;
          s = every TInvite (signalRetryMs (timing_of s)) CInvite s
      in after TRing (ringTimeoutMs (timing_of s)) (CRing True) s)"

definition accept :: "session \<Rightarrow> session" where
  "accept s = (if state_of s \<noteq> RINGING_IN then s else enqueue JAccept (setState CONNECTING (clear TRing s)))"

definition decline :: "session \<Rightarrow> session" where
  "decline s = (if state_of s \<noteq> RINGING_IN then s else finish Declined False (send MDecline s))"

definition hangup :: "session \<Rightarrow> session" where
  "hangup s =
     (if isOver s then s
      else finish (if state_of s = CALLING \<or> state_of s = RINGING_OUT then Cancelled else Hangup) True s)"

definition setMuted :: "bool \<Rightarrow> session \<Rightarrow> session" where
  "setMuted m s = (let s = s\<lparr>muted := m\<rparr> in
     emit (s\<lparr>localStream := map_option (\<lambda>st. st\<lparr>audio_enabled := \<not> m\<rparr>) (localStream s)\<rparr>))"

section \<open>Losing and regaining the link\<close>

definition backoff :: "session \<Rightarrow> int" where
  "backoff s = (let b = restartBackoffMs (timing_of s) in b ! min (restartAttempt s) (length b - 1))"

definition scheduleRestart :: "session \<Rightarrow> session" where
  "scheduleRestart s = after TRestart (backoff s) CRestart s"

definition onLinkLost :: "int \<Rightarrow> bool \<Rightarrow> session \<Rightarrow> session" where
  "onLinkLost now immediate s =
     (if isOver s \<or> pc s = None then s
      else let s = (if state_of s = RECONNECTING then s
             else let s = setState RECONNECTING (clear TConnect s);
                      s = s\<lparr>reconnectStartedAt := Some now, epochAtLoss := epoch s\<rparr>
                  in after TWindow (reconnectWindowMs (timing_of s)) CWindow s)
      in if timers s TRestart \<noteq> None then s
         else if role_of s = Callee then
           (if answeredEpoch s > int (epochAtLoss s) then s
            else every TRestart (signalRetryMs (timing_of s)) CAsk (send (MRestart (epoch s)) s))
         else if immediate then scheduleRestart s else s)"

definition networkChanged :: "int \<Rightarrow> session \<Rightarrow> session" where
  "networkChanged now s =
     (if state_of s = CONNECTED \<or> state_of s = RECONNECTING then onLinkLost now True (s\<lparr>lastOfferAt := 0\<rparr>) else s)"

definition markConnected :: "int \<Rightarrow> session \<Rightarrow> session" where
  "markConnected now s =
     (let s = clear TOffer (clear TWindow (clear TRestart s))
      in setState CONNECTED (s\<lparr>restartAttempt := 0, reconnectStartedAt := None, lastPacketsAt := now\<rparr>))"

definition renegotiated :: "session \<Rightarrow> bool" where
  "renegotiated s = (case pc s of None \<Rightarrow> False | Some p \<Rightarrow>
     connectionState p = CConnected \<and> epochAtLoss s < epoch s \<and> signalingState p = Stable
     \<and> (role_of s = Caller \<or> answeredEpoch s = int (epoch s)))"

definition onPcState :: "int \<Rightarrow> session \<Rightarrow> session" where
  "onPcState now s = (case pc s of None \<Rightarrow> s | Some p \<Rightarrow>
     (case connectionState p of
        CConnected \<Rightarrow> (let s = clear TGrace (clear TConnect s) in
          if state_of s = CONNECTING then markConnected now s else s)
      | CFailed \<Rightarrow> onLinkLost now True s
      | CDisconnected \<Rightarrow> after TGrace (disconnectGraceMs (timing_of s)) CGrace s
      | _ \<Rightarrow> s))"

section \<open>The jobs, from one await to the next\<close>

text \<open>
  The answer an await is resumed with: nothing of interest, a stream, servers with whether one of
  them is a relay (\<open>/^turns?:/\<close>), a description, or a failure with the name of the error. A
  job that ends or throws leaves \<open>running\<close> empty.
\<close>

datatype answer_of = Fine | Stream | Servers "json list" bool | Sdp jstring | Failed string

abbreviation await :: "cont \<Rightarrow> session \<Rightarrow> session" where
  "await k s \<equiv> s\<lparr>running := Some k\<rparr>"

abbreviation leave :: "session \<Rightarrow> session" where
  "leave s \<equiv> s\<lparr>running := None\<rparr>"

text \<open>\<open>prepareConnection\<close>.\<close>

definition got_media :: "side \<Rightarrow> answer_of \<Rightarrow> session \<Rightarrow> session" where
  "got_media k r s =
     (case r of Failed e \<Rightarrow> await (KPrepared k)
         (finish MediaDenied True (s\<lparr>error_of := Some (if e = [] then ''media-error'' else e)\<rparr>))
      | _ \<Rightarrow> let s = s\<lparr>localStream := Some \<lparr>has_video = video s, audio_enabled = True\<rparr>\<rparr> in
          if isOver s then await (KPrepared k) (stopLocalMedia s) else await (KServers k) s)"

definition fetched :: "answer_of \<Rightarrow> session \<Rightarrow> json list \<times> session" where
  "fetched r s = (case r of Servers ss relay \<Rightarrow> (ss, s\<lparr>turnAvailable := Some relay\<rparr>)
     | _ \<Rightarrow> ([], s\<lparr>turnAvailable := Some False\<rparr>))"

definition new_peer :: peer where
  "new_peer = \<lparr>connectionState = CNew, signalingState = Stable, currentLocal = None, pendingLocal = None,
     remoteDescription = False\<rparr>"

definition got_servers :: "side \<Rightarrow> bool \<Rightarrow> answer_of \<Rightarrow> session \<Rightarrow> session" where
  "got_servers k ok r s =
     (let (ss, s) = fetched r s in
      if isOver s then await (KPrepared k) s
      else if \<not> ok then leave s
      else let s = (put (NewPeer (pcPolicy s) ss) s)\<lparr>pc := Some new_peer\<rparr>
           in await (KPrepared k) (every TStats (statsIntervalMs (timing_of s)) CStats s))"

text \<open>\<open>sendOffer\<close>.\<close>

definition ask_peer_servers :: "offerer \<Rightarrow> bool \<Rightarrow> int \<Rightarrow> session \<Rightarrow> session" where
  "ask_peer_servers w iceRestart now s =
     await (KPeer w iceRestart) (s\<lparr>epoch := (if iceRestart then epoch s + 1 else epoch s), lastOfferAt := now,
       pendingCandidates := []\<rparr>)"

definition sendOffer :: "offerer \<Rightarrow> bool \<Rightarrow> int \<Rightarrow> session \<Rightarrow> session" where
  "sendOffer w iceRestart now s =
     (case pc s of None \<Rightarrow> await (KOffered w) s
      | Some p \<Rightarrow>
          if isOver s then await (KOffered w) s
          else if signalingState p = HaveLocalOffer then await (KRollback w iceRestart) s
          else ask_peer_servers w iceRestart now s)"

definition rolled_back :: "offerer \<Rightarrow> bool \<Rightarrow> answer_of \<Rightarrow> int \<Rightarrow> session \<Rightarrow> session" where
  "rolled_back w iceRestart r now s =
     (case r of Failed e \<Rightarrow> leave s
      | _ \<Rightarrow> ask_peer_servers w iceRestart now
          (s\<lparr>pc := map_option (\<lambda>p. p\<lparr>signalingState := Stable, pendingLocal := None\<rparr>) (pc s)\<rparr>))"

definition got_peer_servers :: "offerer \<Rightarrow> answer_of \<Rightarrow> session \<Rightarrow> session" where
  "got_peer_servers w r s =
     (if isOver s \<or> pc s = None then await (KOffered w) s
      else await (KCreate w (case r of Servers ss _ \<Rightarrow> if hasPeerServers s then JArr ss else JUndef | _ \<Rightarrow> JUndef)) s)"

definition send_offer_now :: "nat \<Rightarrow> json \<Rightarrow> session \<Rightarrow> session" where
  "send_offer_now e ss s =
     (case pc s of None \<Rightarrow> s | Some p \<Rightarrow>
        (case localDescription p of
           Some (TOffer_sdp, d) \<Rightarrow> if epoch s = e then send (MOffer e d ss) s else s
         | _ \<Rightarrow> s))"

definition offer_set :: "offerer \<Rightarrow> json \<Rightarrow> answer_of \<Rightarrow> session \<Rightarrow> session" where
  "offer_set w ss r s =
     (case r of
        Sdp d \<Rightarrow>
          let s = s\<lparr>pc := map_option (\<lambda>p. p\<lparr>signalingState := HaveLocalOffer, pendingLocal := Some (TOffer_sdp, d)\<rparr>) (pc s)\<rparr>;
              s = send_offer_now (epoch s) ss s
          in await (KOffered w) (every TOffer (signalRetryMs (timing_of s)) (COffer (epoch s) ss) s)
      | _ \<Rightarrow> leave s)"

text \<open>After \<open>sendOffer\<close> the job of \<open>onAccepted\<close> sets the timer of the first connection.\<close>

definition offered :: "offerer \<Rightarrow> session \<Rightarrow> session" where
  "offered w s = (case w of
     FirstOffer \<Rightarrow> leave (after TConnect (connectTimeoutMs (timing_of s)) CConnect s)
   | RestartOffer \<Rightarrow> leave s)"

definition prepared :: "side \<Rightarrow> int \<Rightarrow> session \<Rightarrow> session" where
  "prepared k now s =
     (if isOver s then leave s
      else case k of
        Accepting \<Rightarrow> leave (after TConnect (connectTimeoutMs (timing_of s)) CConnect (send (MAccept (video s)) s))
      | Offering \<Rightarrow> sendOffer FirstOffer False now s)"

text \<open>\<open>onIce\<close> and \<open>flushCandidates\<close>: whether the peer connection takes the candidate or not.\<close>

definition take_candidate :: "nat \<Rightarrow> candidate \<Rightarrow> session \<Rightarrow> session" where
  "take_candidate e c s =
     (case pc s of
        None \<Rightarrow> if e > epoch s then s\<lparr>pendingCandidates := pendingCandidates s @ [(e, c)]\<rparr> else s
      | Some p \<Rightarrow>
          if e \<noteq> epoch s then
            (if e > epoch s then s\<lparr>pendingCandidates := pendingCandidates s @ [(e, c)]\<rparr> else s)
          else if \<not> remoteDescription p then s\<lparr>pendingCandidates := pendingCandidates s @ [(e, c)]\<rparr>
          else put (AddCandidate c) s)"

definition flushCandidates :: "nat option \<Rightarrow> session \<Rightarrow> session" where
  "flushCandidates k s = await (KFlush (pendingCandidates s) k) (s\<lparr>pendingCandidates := []\<rparr>)"

text \<open>\<open>onOffer\<close>.\<close>

definition allowedPeerServers :: "session \<Rightarrow> ice_server list option \<Rightarrow> ice_server list" where
  "allowedPeerServers s l = filter (\<lambda>x. list_all (\<lambda>u. iceUrlHost (lowerCase s) u \<in> set (allowedRelayHosts s)) (urls x))
     (case l of None \<Rightarrow> [] | Some l \<Rightarrow> l)"

definition server_json :: "ice_server \<Rightarrow> json" where
  "server_json x = jobj [(''urls'', JArr (map JStr (urls x))),
     (''username'', (case username x of None \<Rightarrow> JUndef | Some u \<Rightarrow> JStr u)),
     (''credential'', (case credential x of None \<Rightarrow> JUndef | Some c \<Rightarrow> JStr c))]"

definition configure :: "json list \<Rightarrow> session \<Rightarrow> session" where
  "configure ss s = put (Configure (pcPolicy s) ss) s"

definition set_remote_offer :: "nat \<Rightarrow> session \<Rightarrow> session" where
  "set_remote_offer e s = await (KOfferRemote e) (s\<lparr>epoch := e\<rparr>)"

definition local_sdp :: "session \<Rightarrow> jstring option" where
  "local_sdp s = (case pc s of None \<Rightarrow> None | Some p \<Rightarrow> map_option snd (localDescription p))"

definition onOffer :: "bool \<Rightarrow> nat \<Rightarrow> jstring \<Rightarrow> ice_server list option \<Rightarrow> session \<Rightarrow> session" where
  "onOffer ok e d l s =
     (if role_of s \<noteq> Callee \<or> pc s = None \<or> int e < answeredEpoch s then leave s
      else if int e = answeredEpoch s then
        (case local_sdp s of None \<Rightarrow> leave s | Some a \<Rightarrow> leave (send (MAnswer e a JUndef) s))
      else let given = allowedPeerServers s l in
        if given \<noteq> [] then
          (let s = s\<lparr>turnAvailable := Some True\<rparr> in
           if ok then set_remote_offer e (configure (map server_json given) s) else leave s)
        else if e > 0 then await (KOfferServers e d) s
        else set_remote_offer e s)"

definition offer_servers :: "bool \<Rightarrow> nat \<Rightarrow> answer_of \<Rightarrow> session \<Rightarrow> session" where
  "offer_servers ok e r s =
     (let (ss, s) = fetched r s in
      if pc s = None \<or> \<not> ok then leave s
      else let s = configure ss s in if isOver s then leave s else set_remote_offer e s)"

definition remote_set :: "nat \<Rightarrow> answer_of \<Rightarrow> session \<Rightarrow> session" where
  "remote_set e r s =
     (case r of Failed x \<Rightarrow> leave s
      | _ \<Rightarrow> flushCandidates (Some e)
          (s\<lparr>pc := map_option (\<lambda>p. p\<lparr>signalingState := HaveRemoteOffer, remoteDescription := True\<rparr>) (pc s)\<rparr>))"

definition flushed :: "nat option \<Rightarrow> session \<Rightarrow> session" where
  "flushed k s = (case k of None \<Rightarrow> leave s
     | Some e \<Rightarrow> if pc s = None then leave s else await (KOfferCreate e) s)"

definition answer_set :: "nat \<Rightarrow> answer_of \<Rightarrow> session \<Rightarrow> session" where
  "answer_set e r s =
     (case r of
        Sdp d \<Rightarrow>
          let s = s\<lparr>pc := map_option (\<lambda>p. p\<lparr>signalingState := Stable, pendingLocal := None, currentLocal := Some (TAnswer_sdp, d)\<rparr>) (pc s)\<rparr>;
              s = clear TRestart (s\<lparr>answeredEpoch := int e\<rparr>)
          in (case local_sdp s of None \<Rightarrow> leave s | Some a \<Rightarrow> leave (send (MAnswer e a JUndef) s))
      | _ \<Rightarrow> leave s)"

text \<open>\<open>onAnswer\<close> and \<open>restartIce\<close>.\<close>

definition onAnswer :: "nat \<Rightarrow> session \<Rightarrow> session" where
  "onAnswer e s =
     (case pc s of None \<Rightarrow> leave s
      | Some p \<Rightarrow> if role_of s \<noteq> Caller \<or> e \<noteq> epoch s \<or> signalingState p \<noteq> HaveLocalOffer then leave s
          else await KAnswerRemote (clear TOffer s))"

definition answer_taken :: "answer_of \<Rightarrow> session \<Rightarrow> session" where
  "answer_taken r s =
     (case r of Failed x \<Rightarrow> leave s
      | _ \<Rightarrow> flushCandidates None (s\<lparr>pc := map_option (\<lambda>p. p\<lparr>signalingState := Stable, remoteDescription := True,
             currentLocal := pendingLocal p, pendingLocal := None\<rparr>) (pc s)\<rparr>))"

definition restartIce :: "int \<Rightarrow> session \<Rightarrow> session" where
  "restartIce now s =
     (case pc s of None \<Rightarrow> leave s
      | Some p \<Rightarrow>
          if isOver s then leave s
          else if signalingState p = HaveLocalOffer \<and> now - lastOfferAt s < minEpochGapMs (timing_of s) then leave s
          else await KRestartServers (if restartAttempt s \<ge> 2 then s\<lparr>relayOnly := True\<rparr> else s))"

definition restart_servers :: "bool \<Rightarrow> answer_of \<Rightarrow> int \<Rightarrow> session \<Rightarrow> session" where
  "restart_servers ok r now s =
     (let (ss, s) = fetched r s in
      if pc s = None \<or> \<not> ok then leave s
      else let s = configure ss s in if isOver s then leave s else sendOffer RestartOffer True now s)"

section \<open>Starting and resuming\<close>

definition start_job :: "bool \<Rightarrow> int \<Rightarrow> job \<Rightarrow> session \<Rightarrow> session" where
  "start_job ok now j s =
     (case j of
        JAccept \<Rightarrow> await (KMedia Accepting) (put (GetUserMedia (video s)) s)
      | JAccepted \<Rightarrow> await (KMedia Offering) (put (GetUserMedia (video s)) s)
      | JOffer e d l \<Rightarrow> onOffer ok e d l s
      | JAnswer e d \<Rightarrow> onAnswer e s
      | JIce e c \<Rightarrow> await KCandidate (take_candidate e c s)
      | JRestart \<Rightarrow> restartIce now s)"

definition resume :: "bool \<Rightarrow> int \<Rightarrow> cont \<Rightarrow> answer_of \<Rightarrow> session \<Rightarrow> session" where
  "resume ok now k r s =
     (case k of
        KMedia w \<Rightarrow> got_media w r s
      | KServers w \<Rightarrow> got_servers w ok r s
      | KPrepared w \<Rightarrow> prepared w now s
      | KRollback w i \<Rightarrow> rolled_back w i r now s
      | KPeer w i \<Rightarrow> got_peer_servers w r s
      | KCreate w ss \<Rightarrow> (case r of Failed x \<Rightarrow> leave s | _ \<Rightarrow> await (KSetLocal w ss) s)
      | KSetLocal w ss \<Rightarrow> offer_set w ss r s
      | KOffered w \<Rightarrow> offered w s
      | KOfferServers e d \<Rightarrow> offer_servers ok e r s
      | KOfferRemote e \<Rightarrow> remote_set e r s
      | KOfferCreate e \<Rightarrow> (case r of Failed x \<Rightarrow> leave s | _ \<Rightarrow> await (KOfferLocal e) s)
      | KOfferLocal e \<Rightarrow> answer_set e r s
      | KAnswerRemote \<Rightarrow> answer_taken r s
      | KFlush cs e \<Rightarrow> (case cs of [] \<Rightarrow> flushed e s
          | (n, c) # cs \<Rightarrow> await (KFlush cs e) (take_candidate n c s))
      | KCandidate \<Rightarrow> leave s
      | KRestartServers \<Rightarrow> restart_servers ok r now s)"

section \<open>Messages and timers\<close>

definition onAccepted :: "bool \<Rightarrow> session \<Rightarrow> session" where
  "onAccepted v s =
     (if role_of s \<noteq> Caller \<or> (state_of s \<noteq> CALLING \<and> state_of s \<noteq> RINGING_OUT) then s
      else let s = clear TRing (clear TInvite s);
               s = setState CONNECTING (s\<lparr>video := video s \<and> v\<rparr>)
           in enqueue JAccepted s)"

definition receive_msg :: "int \<Rightarrow> parsed \<Rightarrow> session \<Rightarrow> session" where
  "receive_msg now m s =
     (case m of
        MRinging \<Rightarrow> if state_of s = CALLING then setState RINGING_OUT (clear TInvite s) else s
      | MAccept v \<Rightarrow> onAccepted v s
      | MDecline \<Rightarrow> finish Declined False s
      | MBusy \<Rightarrow> finish IsBusy False s
      | MBye r \<Rightarrow> finish (if r = Hangup then RemoteHangup else r) False s
      | MOffer e d l \<Rightarrow> enqueue (JOffer e d l) s
      | MAnswer e d l \<Rightarrow> enqueue (JAnswer e d) s
      | MIce e c \<Rightarrow> enqueue (JIce e c) s
      | MRestart e \<Rightarrow> if role_of s = Caller \<and> e \<ge> epoch s then onLinkLost now True s else s
      | MInvite v \<Rightarrow> s)"

definition receive :: "int \<Rightarrow> json \<Rightarrow> session \<Rightarrow> session" where
  "receive now raw s =
     (case parseMessage raw of None \<Rightarrow> s
      | Some (i, m) \<Rightarrow> if i \<noteq> callId s \<or> isOver s then s else receive_msg now m s)"

text \<open>What \<open>sample\<close> adds up from the entries of \<open>getStats\<close>; a missing number counts as 0.\<close>

datatype stat_type = InboundRtp | OutboundRtp | Transport | OtherStat

record stat =
  st_id :: jstring
  st_type :: stat_type
  bytesReceived :: "int option"
  packetsReceived :: "int option"
  packetsLost :: "int option"
  framesDecoded :: "int option"
  totalAudioEnergy :: "rat option"
  bytesSent :: "int option"
  selectedCandidatePairId :: "jstring option"
  localCandidateId :: "jstring option"
  remoteCandidateId :: "jstring option"
  candidateType :: "jstring option"
  protocol_of :: "jstring option"
  relayProtocol :: "jstring option"
  address :: "jstring option"
  currentRoundTripTime :: "rat option"

record pair_info =
  p_local :: "jstring option"
  p_remote :: "jstring option"
  p_protocol :: "jstring option"
  p_relayProtocol :: "jstring option"
  p_localIp :: "jstring option"
  rttMs :: "int option"

record sample_of =
  sum_bytesSent :: int
  sum_bytesReceived :: int
  sum_packetsReceived :: int
  sum_packetsLost :: int
  sum_framesDecoded :: int
  audioEnergy :: rat
  pair_of :: "pair_info option"

fun or_zero :: "'a::zero option \<Rightarrow> 'a" where
  "or_zero None = 0" | "or_zero (Some x) = x"

definition by_id :: "stat list \<Rightarrow> jstring option \<Rightarrow> stat option" where
  "by_id rs i = (case i of None \<Rightarrow> None | Some i \<Rightarrow> find (\<lambda>r. st_id r = i) (rev rs))"

definition selected :: "stat list \<Rightarrow> stat option" where
  "selected rs = (case rev (filter (\<lambda>r. st_type r = Transport \<and> selectedCandidatePairId r \<noteq> None
       \<and> selectedCandidatePairId r \<noteq> Some []) rs) of
     [] \<Rightarrow> None | r # _ \<Rightarrow> by_id rs (selectedCandidatePairId r))"

definition pair_of_stats :: "stat list \<Rightarrow> stat \<Rightarrow> pair_info" where
  "pair_of_stats rs p =
     (let l = by_id rs (localCandidateId p); r = by_id rs (remoteCandidateId p);
          opt = (\<lambda>f x. case x of None \<Rightarrow> None | Some y \<Rightarrow> f y)
      in \<lparr>p_local = opt candidateType l, p_remote = opt candidateType r, p_protocol = opt protocol_of l,
          p_relayProtocol = opt relayProtocol l, p_localIp = opt address l,
          rttMs = map_option (\<lambda>t. \<lfloor>t * 1000 + 1 / 2\<rfloor>) (currentRoundTripTime p)\<rparr>)"

definition sample :: "stat list \<Rightarrow> sample_of" where
  "sample rs =
     (let inb = filter (\<lambda>r. st_type r = InboundRtp) rs; outb = filter (\<lambda>r. st_type r = OutboundRtp) rs in
      \<lparr>sum_bytesSent = sum_list (map (or_zero \<circ> bytesSent) outb),
       sum_bytesReceived = sum_list (map (or_zero \<circ> bytesReceived) inb),
       sum_packetsReceived = sum_list (map (or_zero \<circ> packetsReceived) inb),
       sum_packetsLost = sum_list (map (or_zero \<circ> packetsLost) inb),
       sum_framesDecoded = sum_list (map (or_zero \<circ> framesDecoded) inb),
       audioEnergy = sum_list (map (or_zero \<circ> totalAudioEnergy) inb),
       pair_of = map_option (pair_of_stats rs) (selected rs)\<rparr>)"

definition watchMedia :: "session \<Rightarrow> session" where
  "watchMedia s = (if pc s = None \<or> isOver s then s else s\<lparr>samples := samples s + 1\<rparr>)"

definition sampled :: "int \<Rightarrow> stat list \<Rightarrow> session \<Rightarrow> session" where
  "sampled now rs s =
     (if samples s = 0 then s
      else let n = sum_packetsReceived (sample rs); moved = (n > lastPackets s);
               s = s\<lparr>samples := samples s - 1, lastPackets := n\<rparr>
      in if moved then
           (let s = s\<lparr>lastPacketsAt := now\<rparr> in
            if state_of s = RECONNECTING \<and> renegotiated s then markConnected now (s\<lparr>reconnects := reconnects s + 1\<rparr>) else s)
         else if state_of s = CONNECTED \<and> now - lastPacketsAt s > mediaStallMs (timing_of s) then onLinkLost now True s
         else s)"

definition call_back :: "int \<Rightarrow> callback \<Rightarrow> session \<Rightarrow> session" where
  "call_back now c s =
     (case c of
        CInvite \<Rightarrow> send (MInvite (video s)) s
      | CRing n \<Rightarrow> finish NoAnswer n s
      | CConnect \<Rightarrow> onLinkLost now True s
      | COffer e ss \<Rightarrow> send_offer_now e ss s
      | CStats \<Rightarrow> watchMedia s
      | CGrace \<Rightarrow> onLinkLost now True s
      | CWindow \<Rightarrow> finish ConnectionLost True s
      | CAsk \<Rightarrow> send (MRestart (epoch s)) s
      | CRestart \<Rightarrow>
          let s = clear TRestart s; s = s\<lparr>restartAttempt := restartAttempt s + 1\<rparr>; s = enqueue JRestart s
          in after TRestart (max (signalRetryMs (timing_of s) * 2) (backoff s)) CRetry s
      | CRetry \<Rightarrow> scheduleRestart (clear TRestart s))"

definition fire :: "int \<Rightarrow> timer_name \<Rightarrow> session \<Rightarrow> session" where
  "fire now n s =
     (case timers s n of None \<Rightarrow> s
      | Some t \<Rightarrow> if \<not> armed t then s
          else call_back now (calls_back t)
            (if interval t then s else s\<lparr>timers := (timers s)(n \<mapsto> t\<lparr>armed := False\<rparr>)\<rparr>))"

section \<open>Events\<close>

datatype event = Accept | Decline | Hang_up | Mute bool | Network_changed | Receive json | Fire timer_name
  | Start bool | Resume bool answer_of | Sampled "stat list"
  | Connection conn_state | Gathered candidate jstring

definition gathered :: "candidate \<Rightarrow> jstring \<Rightarrow> session \<Rightarrow> session" where
  "gathered c d s =
     (case pc s of None \<Rightarrow> s
      | Some p \<Rightarrow>
          let p' = (case pendingLocal p of
               Some (t, _) \<Rightarrow> p\<lparr>pendingLocal := Some (t, d)\<rparr>
             | None \<Rightarrow> p\<lparr>currentLocal := map_option (\<lambda>(t, _). (t, d)) (currentLocal p)\<rparr>)
          in send (MIce (epoch s) c) (s\<lparr>pc := Some p'\<rparr>))"

definition connection :: "int \<Rightarrow> conn_state \<Rightarrow> session \<Rightarrow> session" where
  "connection now c s = (case pc s of None \<Rightarrow> s
     | Some p \<Rightarrow> onPcState now (s\<lparr>pc := Some (p\<lparr>connectionState := c\<rparr>)\<rparr>))"

definition step :: "int \<Rightarrow> event \<Rightarrow> session \<Rightarrow> session" where
  "step now e s =
     (case e of
        Accept \<Rightarrow> accept s
      | Decline \<Rightarrow> decline s
      | Hang_up \<Rightarrow> hangup s
      | Mute m \<Rightarrow> setMuted m s
      | Network_changed \<Rightarrow> networkChanged now s
      | Receive raw \<Rightarrow> receive now raw s
      | Fire n \<Rightarrow> fire now n s
      | Start ok \<Rightarrow> (case (running s, queue_of s) of
          (None, j # rest) \<Rightarrow> start_job ok now j (s\<lparr>queue_of := rest\<rparr>) | _ \<Rightarrow> s)
      | Resume ok r \<Rightarrow> (case running s of None \<Rightarrow> s | Some k \<Rightarrow> resume ok now k r s)
      | Sampled rs \<Rightarrow> sampled now rs s
      | Connection c \<Rightarrow> connection now c s
      | Gathered c d \<Rightarrow> gathered c d s)"

fun steps :: "(int \<times> event) list \<Rightarrow> session \<Rightarrow> session" where
  "steps [] s = s"
| "steps ((now, e) # es) s = steps es (step now e s)"

text \<open>The text of a state, \<open>stateLabel\<close>; 8230 is the ellipsis.\<close>

definition ended_label :: "reason option \<Rightarrow> string" where
  "ended_label r = (case r of
       Some Declined \<Rightarrow> ''Abgelehnt'' | Some IsBusy \<Rightarrow> ''Besetzt'' | Some NoAnswer \<Rightarrow> ''Keine Antwort''
     | Some Cancelled \<Rightarrow> ''Abgebrochen'' | Some MediaDenied \<Rightarrow> ''Kein Zugriff auf das Mikrofon''
     | Some ConnectionLost \<Rightarrow> ''Verbindung verloren'' | Some RemoteHangup \<Rightarrow> ''Aufgelegt''
     | Some Hangup \<Rightarrow> ''Aufgelegt'' | None \<Rightarrow> ''Beendet'')"

definition stateLabel :: "state \<Rightarrow> reason option \<Rightarrow> jstring" where
  "stateLabel x r = (case x of
       ENDED \<Rightarrow> js (ended_label r)
     | IDLE \<Rightarrow> []
     | CALLING \<Rightarrow> js ''Verbinde '' @ [8230]
     | RINGING_OUT \<Rightarrow> js ''Es klingelt '' @ [8230]
     | RINGING_IN \<Rightarrow> js ''Eingehender Anruf''
     | CONNECTING \<Rightarrow> js ''Verbindung wird aufgebaut '' @ [8230]
     | CONNECTED \<Rightarrow> js ''Verbunden''
     | RECONNECTING \<Rightarrow> js ''Verbindung wird wiederhergestellt '' @ [8230])"

end
