(* ===== verification/Call_Correct.thy ===== *)
theory Call_Correct
  imports CallCore
begin

text \<open>
  The invariant of a call session and what follows from it: what may still happen after the end,
  who sends what, when the microphone opens, and that every phase but the set-up has a deadline.
\<close>

section \<open>The invariant\<close>

definition ring_in :: "options \<Rightarrow> jstring \<Rightarrow> bool \<Rightarrow> session" where
  "ring_in opt i v = (let s = setState RINGING_IN (new_session opt i Callee v)
     in after TRing (ringTimeoutMs (timing_of s)) (CRing False) s)"

definition ring_out :: "options \<Rightarrow> jstring \<Rightarrow> bool \<Rightarrow> session" where
  "ring_out opt i v = dial (new_session opt i Caller v)"

inductive call_reachable :: "session \<Rightarrow> bool" where
  dialled: "call_reachable (ring_out opt i v)"
| rung: "call_reachable (ring_in opt i v)"
| stepped: "call_reachable s \<Longrightarrow> call_reachable (step now e s)"

fun timer_ok :: "role \<Rightarrow> timer_name \<Rightarrow> callback \<Rightarrow> bool" where
  "timer_ok r TInvite c \<longleftrightarrow> c = CInvite \<and> r = Caller"
| "timer_ok r TRing c \<longleftrightarrow> (case c of CRing b \<Rightarrow> True | _ \<Rightarrow> False)"
| "timer_ok r TConnect c \<longleftrightarrow> c = CConnect"
| "timer_ok r TOffer c \<longleftrightarrow> r = Caller \<and> (case c of COffer e ss \<Rightarrow> True | _ \<Rightarrow> False)"
| "timer_ok r TStats c \<longleftrightarrow> c = CStats"
| "timer_ok r TGrace c \<longleftrightarrow> c = CGrace"
| "timer_ok r TWindow c \<longleftrightarrow> c = CWindow"
| "timer_ok r TRestart c \<longleftrightarrow> (if r = Callee then c = CAsk else c = CRestart \<or> c = CRetry)"

definition timers_ok :: "role \<Rightarrow> (timer_name \<Rightarrow> timer option) \<Rightarrow> bool" where
  "timers_ok r T \<longleftrightarrow> (\<forall>n t. T n = Some t \<longrightarrow> timer_ok r n (calls_back t))"

definition timers_in :: "(timer_name \<Rightarrow> timer option) \<Rightarrow> timer_name set \<Rightarrow> bool" where
  "timers_in T N \<longleftrightarrow> (\<forall>n. T n \<noteq> None \<longrightarrow> n \<in> N)"

definition set_timer :: "(timer_name \<Rightarrow> timer option) \<Rightarrow> timer_name \<Rightarrow> callback \<Rightarrow> bool" where
  "set_timer T n c \<longleftrightarrow> (\<exists>t. T n = Some t \<and> armed t \<and> calls_back t = c)"

fun side_role :: "side \<Rightarrow> role" where
  "side_role Accepting = Callee" | "side_role Offering = Caller"

fun cont_ok :: "role \<Rightarrow> cont \<Rightarrow> bool" where
  "cont_ok r (KMedia k) \<longleftrightarrow> r = side_role k"
| "cont_ok r (KServers k) \<longleftrightarrow> r = side_role k"
| "cont_ok r (KPrepared k) \<longleftrightarrow> r = side_role k"
| "cont_ok r (KOfferServers e d) \<longleftrightarrow> r = Callee"
| "cont_ok r (KOfferRemote e) \<longleftrightarrow> r = Callee"
| "cont_ok r (KOfferCreate e) \<longleftrightarrow> r = Callee"
| "cont_ok r (KOfferLocal e) \<longleftrightarrow> r = Callee"
| "cont_ok r (KFlush cs k) \<longleftrightarrow> (k = None \<longleftrightarrow> r = Caller)"
| "cont_ok r KCandidate \<longleftrightarrow> True"
| "cont_ok r k \<longleftrightarrow> r = Caller"

fun job_ok :: "role \<Rightarrow> job \<Rightarrow> bool" where
  "job_ok r JAccept \<longleftrightarrow> r = Callee" | "job_ok r JAccepted \<longleftrightarrow> r = Caller" | "job_ok r JRestart \<longleftrightarrow> r = Caller"
| "job_ok r j \<longleftrightarrow> True"

definition jobs_ok :: "role \<Rightarrow> cont option \<Rightarrow> job list \<Rightarrow> bool" where
  "jobs_ok r k q \<longleftrightarrow> (case k of None \<Rightarrow> True | Some k \<Rightarrow> cont_ok r k) \<and> list_all (job_ok r) q"

text \<open>Preparations of the connection that are queued or under way: at most one, before there is a connection.\<close>

fun preparing :: "cont \<Rightarrow> bool" where
  "preparing (KMedia k) = True" | "preparing (KServers k) = True" | "preparing _ = False"

definition preps :: "cont option \<Rightarrow> job list \<Rightarrow> nat" where
  "preps k q = length (filter (\<lambda>j. j = JAccept \<or> j = JAccepted) q)
     + (case k of None \<Rightarrow> 0 | Some k \<Rightarrow> if preparing k then 1 else 0)"

text \<open>Before the call is taken there is nothing to release, and only invitations and the ringing are timed.\<close>

definition quiet :: "session \<Rightarrow> bool" where
  "quiet s \<longleftrightarrow> pc s = None \<and> localStream s = None \<and> preps (running s) (queue_of s) = 0
     \<and> JRestart \<notin> set (queue_of s) \<and> (running s = None \<or> running s = Some KCandidate)
     \<and> timers_in (timers s) {TInvite, TRing}"

definition phase_ok :: "session \<Rightarrow> bool" where
  "phase_ok s \<longleftrightarrow> (case state_of s of
       IDLE \<Rightarrow> False
     | CALLING \<Rightarrow> role_of s = Caller \<and> quiet s \<and> set_timer (timers s) TRing (CRing True)
     | RINGING_OUT \<Rightarrow> role_of s = Caller \<and> quiet s \<and> set_timer (timers s) TRing (CRing True)
     | RINGING_IN \<Rightarrow> role_of s = Callee \<and> quiet s \<and> set_timer (timers s) TRing (CRing False)
     | CONNECTING \<Rightarrow> True
     | CONNECTED \<Rightarrow> pc s \<noteq> None
     | RECONNECTING \<Rightarrow> pc s \<noteq> None \<and> set_timer (timers s) TWindow CWindow
     | ENDED \<Rightarrow> pc s = None \<and> localStream s = None \<and> endReason s \<noteq> None \<and> timers_in (timers s) {TConnect, TOffer})"

definition call_inv :: "session \<Rightarrow> bool" where
  "call_inv s \<longleftrightarrow> timers_ok (role_of s) (timers s) \<and> jobs_ok (role_of s) (running s) (queue_of s) \<and> phase_ok s
     \<and> preps (running s) (queue_of s) \<le> 1 \<and> (preps (running s) (queue_of s) = 1 \<longrightarrow> pc s = None)
     \<and> (pc s \<noteq> None \<longrightarrow> localStream s \<noteq> None)
     \<and> (\<forall>k. running s = Some (KServers k) \<longrightarrow> state_of s \<noteq> ENDED \<longrightarrow> localStream s \<noteq> None)"

text \<open>The helpers of the class as plain updates of the record.\<close>

named_theorems updates

lemmas [updates] = put_def emit_def clear_def after_def every_def enqueue_def isOver_def

lemma setState_update [updates]:
  "setState x s = s\<lparr>state_of := x, trace := (if state_of s = x then trace s else trace (emit (s\<lparr>state_of := x\<rparr>)))\<rparr>"
  by (simp add: setState_def updates)

lemma stopLocalMedia_update [updates]:
  "stopLocalMedia s = s\<lparr>localStream := None, trace := (if localStream s = None then trace s else StopTracks # trace s)\<rparr>"
  by (cases "localStream s") (simp_all add: stopLocalMedia_def updates)

lemma closePeer_update [updates]:
  "closePeer s = s\<lparr>pc := None, trace := (if pc s = None then trace s else ClosePeer # trace s)\<rparr>"
  by (cases "pc s") (simp_all add: closePeer_def updates)

lemma emit_fields [simp]:
  "state_of (emit s) = state_of s" "pc (emit s) = pc s" "localStream (emit s) = localStream s"
  "endReason (emit s) = endReason s" "timers (emit s) = timers s" "role_of (emit s) = role_of s"
  "running (emit s) = running s" "queue_of (emit s) = queue_of s"
  by (simp_all add: emit_def put_def)

lemma finish_over [simp]: "state_of s = ENDED \<Longrightarrow> finish r n s = s"
  by (simp add: finish_def isOver_def)

lemma finish_fields [simp]:
  "state_of (finish r n s) = ENDED"
  "state_of s \<noteq> ENDED \<Longrightarrow> pc (finish r n s) = None"
  "state_of s \<noteq> ENDED \<Longrightarrow> localStream (finish r n s) = None"
  "state_of s \<noteq> ENDED \<Longrightarrow> endReason (finish r n s) = Some r"
  "state_of s \<noteq> ENDED \<Longrightarrow> timers (finish r n s) = (\<lambda>_. None)"
  "role_of (finish r n s) = role_of s" "running (finish r n s) = running s" "queue_of (finish r n s) = queue_of s"
  by (simp_all add: finish_def isOver_def put_def setState_update stopLocalMedia_update closePeer_update Let_def)

text \<open>Timers.\<close>

lemma timers_ok_simps [simp]:
  "timers_ok r (\<lambda>_. None)"
  "timers_ok r T \<Longrightarrow> timers_ok r (T(n := None))"
  "timers_ok r T \<Longrightarrow> timer_ok r n (calls_back t) \<Longrightarrow> timers_ok r (T(n \<mapsto> t))"
  by (auto simp: timers_ok_def)

lemma timers_in_simps [simp]:
  "timers_in (\<lambda>_. None) N"
  "timers_in T N \<Longrightarrow> timers_in (T(n := None)) N"
  "timers_in T N \<Longrightarrow> n \<in> N \<Longrightarrow> timers_in (T(n \<mapsto> t)) N"
  by (auto simp: timers_in_def)

lemma set_timer_simps [simp]:
  "set_timer (T(m \<mapsto> t)) n c \<longleftrightarrow> (if m = n then armed t \<and> calls_back t = c else set_timer T n c)"
  "set_timer (T(m := None)) n c \<longleftrightarrow> m \<noteq> n \<and> set_timer T n c"
  by (auto simp: set_timer_def)

lemma timers_okD: "timers_ok r T \<Longrightarrow> T n = Some t \<Longrightarrow> timer_ok r n (calls_back t)"
  by (auto simp: timers_ok_def)

lemma timers_inD: "timers_in T N \<Longrightarrow> T n = Some t \<Longrightarrow> n \<in> N"
  by (auto simp: timers_in_def)

section \<open>The operations keep the invariant\<close>

lemmas inv_defs = call_inv_def phase_ok_def quiet_def

lemma inv_ring_in: "call_inv (ring_in opt i v)"
  by (simp add: inv_defs ring_in_def new_session_def updates Let_def jobs_ok_def preps_def)

lemma inv_ring_out: "call_inv (ring_out opt i v)"
  by (simp add: inv_defs ring_out_def dial_def new_session_def updates Let_def jobs_ok_def preps_def)

lemma inv_finish:
  assumes "call_inv s"
  shows "call_inv (finish r n s)"
proof (cases "state_of s = ENDED")
  case False
  then show ?thesis using assms by (simp add: inv_defs)
qed (use assms in simp)

lemma inv_onLinkLost:
  assumes "call_inv s"
  shows "call_inv (onLinkLost now b s)"
proof (cases "state_of s")
  case CONNECTING
  then show ?thesis using assms by (auto simp: inv_defs onLinkLost_def updates Let_def scheduleRestart_def)
next
  case CONNECTED
  then show ?thesis using assms by (auto simp: inv_defs onLinkLost_def updates Let_def scheduleRestart_def)
next
  case RECONNECTING
  then show ?thesis using assms by (auto simp: inv_defs onLinkLost_def updates Let_def scheduleRestart_def)
qed (use assms in \<open>auto simp: inv_defs onLinkLost_def updates\<close>)

lemmas op_defs = markConnected_def scheduleRestart_def ask_peer_servers_def send_offer_now_def
  flushCandidates_def configure_def set_remote_offer_def

lemmas job_simps = jobs_ok_def preps_def

lemma inv_accept: "call_inv s \<Longrightarrow> call_inv (accept s)"
  by (auto simp: inv_defs accept_def updates job_simps)

lemma inv_decline: "call_inv s \<Longrightarrow> call_inv (decline s)"
  unfolding decline_def by (auto intro!: inv_finish simp: inv_defs put_def)

lemma inv_hangup: "call_inv s \<Longrightarrow> call_inv (hangup s)"
  by (simp add: hangup_def inv_finish)

lemma inv_setMuted: "call_inv s \<Longrightarrow> call_inv (setMuted m s)"
  by (cases "state_of s") (auto simp: inv_defs setMuted_def updates Let_def)

lemma inv_markConnected: "call_inv s \<Longrightarrow> pc s \<noteq> None \<Longrightarrow> state_of s \<noteq> ENDED \<Longrightarrow> call_inv (markConnected now s)"
  by (auto simp: inv_defs markConnected_def updates Let_def)

lemma inv_onPcState:
  assumes "call_inv s"
  shows "call_inv (onPcState now s)"
proof (cases "pc s")
  case (Some p)
  have l: "call_inv (clear TGrace (clear TConnect s))"
    using assms by (cases "state_of s") (auto simp: inv_defs updates)
  have g: "call_inv (after TGrace d CGrace s)" for d
    using assms Some by (cases "state_of s") (auto simp: inv_defs updates)
  have "call_inv (markConnected now (clear TGrace (clear TConnect s)))" if "state_of s = CONNECTING"
    by (rule inv_markConnected [OF l]) (use Some that in \<open>simp_all add: clear_def\<close>)
  then show ?thesis using Some assms l g inv_onLinkLost
    by (cases "connectionState p") (auto simp: onPcState_def Let_def clear_def)
qed (use assms in \<open>simp add: onPcState_def\<close>)

text \<open>Most fields do not matter for the invariant.\<close>

lemma inv_others [simp]:
  "call_inv (s\<lparr>trace := t\<rparr>) = call_inv s" "call_inv (s\<lparr>epoch := n\<rparr>) = call_inv s"
  "call_inv (s\<lparr>answeredEpoch := i\<rparr>) = call_inv s" "call_inv (s\<lparr>pendingCandidates := cs\<rparr>) = call_inv s"
  "call_inv (s\<lparr>turnAvailable := a\<rparr>) = call_inv s" "call_inv (s\<lparr>lastOfferAt := x\<rparr>) = call_inv s"
  "call_inv (s\<lparr>relayOnly := b\<rparr>) = call_inv s" "call_inv (s\<lparr>error_of := e\<rparr>) = call_inv s"
  "call_inv (s\<lparr>video := v\<rparr>) = call_inv s" "call_inv (s\<lparr>restartAttempt := n\<rparr>) = call_inv s"
  "call_inv (s\<lparr>reconnects := n\<rparr>) = call_inv s" "call_inv (s\<lparr>samples := n\<rparr>) = call_inv s"
  "call_inv (s\<lparr>lastPackets := x\<rparr>) = call_inv s" "call_inv (s\<lparr>lastPacketsAt := x\<rparr>) = call_inv s"
  "call_inv (put o1 s) = call_inv s"
  by (simp_all add: inv_defs put_def cong: state.case_cong)

lemma inv_peer [simp]: "pc s = Some p \<Longrightarrow> call_inv (s\<lparr>pc := Some q\<rparr>) = call_inv s"
  by (cases "state_of s") (simp_all add: inv_defs)

lemma inv_map_peer [simp]: "call_inv (s\<lparr>pc := map_option f (pc s)\<rparr>) = call_inv s"
  by (cases "pc s"; cases "state_of s") (simp_all add: inv_defs)

lemma inv_networkChanged: "call_inv s \<Longrightarrow> call_inv (networkChanged now s)"
  by (simp add: networkChanged_def inv_onLinkLost)

definition taken :: "session \<Rightarrow> bool" where
  "taken s \<longleftrightarrow> state_of s \<in> {CONNECTING, CONNECTED, RECONNECTING, ENDED}"

lemma taken_running: "call_inv s \<Longrightarrow> running s = Some k \<Longrightarrow> k \<noteq> KCandidate \<Longrightarrow> taken s"
  by (cases "state_of s") (simp_all add: inv_defs taken_def)

lemma taken_peer: "call_inv s \<Longrightarrow> pc s = Some p \<Longrightarrow> taken s"
  by (cases "state_of s") (simp_all add: inv_defs taken_def)

lemma inv_leave [intro]: "call_inv s \<Longrightarrow> call_inv (leave s)"
  by (cases "state_of s"; cases "running s") (auto simp: inv_defs job_simps)

lemma inv_await:
  "call_inv s \<Longrightarrow> taken s \<Longrightarrow> cont_ok (role_of s) k \<Longrightarrow> \<not> preparing k \<Longrightarrow> call_inv (await k s)"
  by (cases "state_of s"; cases "running s") (auto simp: inv_defs job_simps taken_def)

lemma inv_await_prep:
  "call_inv s \<Longrightarrow> running s = Some (KMedia k) \<Longrightarrow> localStream s \<noteq> None \<Longrightarrow> call_inv (await (KServers k) s)"
  by (cases "state_of s") (auto simp: inv_defs job_simps)

lemma inv_timer:
  "call_inv s \<Longrightarrow> taken s \<Longrightarrow> n = TConnect \<or> n = TOffer \<or> state_of s \<noteq> ENDED \<Longrightarrow> n \<noteq> TWindow
    \<Longrightarrow> timer_ok (role_of s) n (calls_back t) \<Longrightarrow> call_inv (s\<lparr>timers := (timers s)(n \<mapsto> t)\<rparr>)"
  by (cases "state_of s") (auto simp: inv_defs taken_def)

lemma inv_cleared: "call_inv s \<Longrightarrow> n \<noteq> TWindow \<Longrightarrow> n \<noteq> TRing \<Longrightarrow> call_inv (s\<lparr>timers := (timers s)(n := None)\<rparr>)"
  by (cases "state_of s") (auto simp: inv_defs)

lemma running_role: "call_inv s \<Longrightarrow> running s = Some k \<Longrightarrow> cont_ok (role_of s) k"
  by (simp add: call_inv_def jobs_ok_def)

text \<open>The continuations.\<close>

lemma inv_got_media:
  assumes I: "call_inv s" and k: "running s = Some (KMedia k)"
  shows "call_inv (got_media k r s)"
proof -
  note R = running_role [OF I k] and T = taken_running [OF I k]
  let ?s = "s\<lparr>localStream := Some \<lparr>has_video = video s, audio_enabled = True\<rparr>\<rparr>"
  have over: "call_inv (await (KPrepared k) (stopLocalMedia ?s))" if "state_of s = ENDED"
  proof -
    have "call_inv (stopLocalMedia ?s)" using I that by (simp add: inv_defs updates)
    then show ?thesis using T R by (intro inv_await) (simp_all add: updates taken_def)
  qed
  have live: "call_inv (await (KServers k) ?s)" if "state_of s \<noteq> ENDED"
  proof (rule inv_await_prep)
    show "call_inv ?s" using I T that by (cases "state_of s") (auto simp: inv_defs taken_def)
  qed (use k in simp_all)
  have "call_inv (await (KPrepared k) (finish MediaDenied True (s\<lparr>error_of := e\<rparr>)))" for e
    using I R by (intro inv_await inv_finish) (simp_all add: taken_def)
  then show ?thesis using over live by (auto simp: got_media_def Let_def isOver_def split: answer_of.splits)
qed

lemma fetched_inv: "fetched r s = (ss, s') \<Longrightarrow> \<exists>a. s' = s\<lparr>turnAvailable := a\<rparr>"
  by (auto simp: fetched_def split: answer_of.splits)

lemma inv_got_servers:
  assumes I: "call_inv s" and k: "running s = Some (KServers k)"
  shows "call_inv (got_servers k ok r s)"
proof -
  note R = running_role [OF I k] and T = taken_running [OF I k]
  obtain ss s' where f: "fetched r s = (ss, s')" by fastforce
  then obtain a where s': "s' = s\<lparr>turnAvailable := a\<rparr>" using fetched_inv by blast
  let ?s = "(put (NewPeer (pcPolicy s') ss) s')\<lparr>pc := Some new_peer\<rparr>"
  have "call_inv (await (KPrepared k) (every TStats (statsIntervalMs (timing_of ?s)) CStats ?s))" if "state_of s \<noteq> ENDED"
    using I k R T that by (cases "state_of s") (auto simp: s' inv_defs job_simps updates taken_def)
  moreover have "call_inv (await (KPrepared k) s')" using I T R by (intro inv_await) (simp_all add: s' taken_def)
  moreover have "call_inv (leave s')" using I by (intro inv_leave) (simp add: s')
  ultimately show ?thesis by (simp add: got_servers_def f Let_def isOver_def s')
qed

lemma taken_others [simp]:
  "taken (s\<lparr>epoch := n\<rparr>) = taken s" "taken (s\<lparr>pendingCandidates := cs\<rparr>) = taken s" "taken (s\<lparr>pc := p\<rparr>) = taken s"
  "taken (s\<lparr>lastOfferAt := x\<rparr>) = taken s" "taken (s\<lparr>turnAvailable := a\<rparr>) = taken s" "taken (put o1 s) = taken s"
  "taken (s\<lparr>relayOnly := b\<rparr>) = taken s" "taken (s\<lparr>timers := T\<rparr>) = taken s" "taken (s\<lparr>answeredEpoch := i\<rparr>) = taken s"
  by (simp_all add: taken_def put_def)

lemma role_put [simp]: "role_of (put o1 s) = role_of s" "pc (put o1 s) = pc s" "running (put o1 s) = running s"
    "state_of (put o1 s) = state_of s" "epoch (put o1 s) = epoch s" "queue_of (put o1 s) = queue_of s"
  by (simp_all add: put_def)

lemma inv_ask_peer_servers:
  "call_inv s \<Longrightarrow> taken s \<Longrightarrow> role_of s = Caller \<Longrightarrow> call_inv (ask_peer_servers w i now s)"
  unfolding ask_peer_servers_def by (intro inv_await) simp_all

lemma inv_sendOffer:
  "call_inv s \<Longrightarrow> taken s \<Longrightarrow> role_of s = Caller \<Longrightarrow> call_inv (sendOffer w i now s)"
  unfolding sendOffer_def by (auto split: option.split intro: inv_await inv_ask_peer_servers)

lemma inv_rolled_back:
  "call_inv s \<Longrightarrow> taken s \<Longrightarrow> role_of s = Caller \<Longrightarrow> call_inv (rolled_back w i r now s)"
  unfolding rolled_back_def by (auto split: answer_of.split intro!: inv_ask_peer_servers)

lemma inv_got_peer_servers:
  "call_inv s \<Longrightarrow> taken s \<Longrightarrow> role_of s = Caller \<Longrightarrow> call_inv (got_peer_servers w r s)"
  unfolding got_peer_servers_def by (auto intro!: inv_await)

lemma send_offer_put: "send_offer_now e ss s = s \<or> (\<exists>d. send_offer_now e ss s = send (MOffer e d ss) s \<and> epoch s = e)"
  by (auto simp: send_offer_now_def split: option.splits prod.splits sdp_type.splits)

lemma inv_send_offer_now: "call_inv s \<Longrightarrow> call_inv (send_offer_now e ss s)"
  using send_offer_put [of e ss s] by auto

lemma inv_offer_set:
  assumes "call_inv s" "taken s" "role_of s = Caller"
  shows "call_inv (offer_set w ss r s)"
proof (cases r)
  case (Sdp d)
  let ?s = "s\<lparr>pc := map_option (\<lambda>p. p\<lparr>signalingState := HaveLocalOffer, pendingLocal := Some (TOffer_sdp, d)\<rparr>) (pc s)\<rparr>"
  have t: "taken (send_offer_now (epoch s) ss ?s)" "role_of (send_offer_now (epoch s) ss ?s) = Caller"
    using send_offer_put [of "epoch s" ss ?s] assms by auto
  have "call_inv (send_offer_now (epoch s) ss ?s)" using assms(1) by (intro inv_send_offer_now) simp
  then show ?thesis using t
    by (auto simp: Sdp offer_set_def Let_def every_def intro!: inv_await inv_timer)
qed (use assms in \<open>auto simp: offer_set_def\<close>)

lemma inv_offered: "call_inv s \<Longrightarrow> taken s \<Longrightarrow> call_inv (offered w s)"
  by (auto simp: offered_def after_def split: offerer.split intro!: inv_leave inv_timer)

lemma inv_prepared: "call_inv s \<Longrightarrow> taken s \<Longrightarrow> role_of s = side_role k \<Longrightarrow> call_inv (prepared k now s)"
  by (auto simp: prepared_def after_def split: side.split intro!: inv_leave inv_timer inv_sendOffer)

lemma inv_take_candidate: "call_inv s \<Longrightarrow> call_inv (take_candidate e c s)"
  by (auto simp: take_candidate_def split: option.split)

lemma take_candidate_same [simp]:
  "role_of (take_candidate e c s) = role_of s" "taken (take_candidate e c s) = taken s"
  "state_of (take_candidate e c s) = state_of s" "pc (take_candidate e c s) = pc s"
  "running (take_candidate e c s) = running s" "queue_of (take_candidate e c s) = queue_of s"
  by (auto simp: take_candidate_def split: option.split)

lemma inv_set_remote_offer: "call_inv s \<Longrightarrow> taken s \<Longrightarrow> role_of s = Callee \<Longrightarrow> call_inv (set_remote_offer e s)"
  unfolding set_remote_offer_def by (auto intro!: inv_await)

lemma inv_onOffer:
  assumes "call_inv s"
  shows "call_inv (onOffer ok e d l s)"
proof (cases "role_of s = Callee \<and> pc s \<noteq> None")
  case True
  then have "taken s" using taken_peer [OF assms] by blast
  then show ?thesis using True assms
    by (auto simp: onOffer_def Let_def configure_def split: option.split intro!: inv_await inv_set_remote_offer inv_leave)
qed (use assms in \<open>auto simp: onOffer_def\<close>)

lemma inv_offer_servers:
  assumes "call_inv s" "taken s" "role_of s = Callee"
  shows "call_inv (offer_servers ok e r s)"
proof -
  obtain ss s' where f: "fetched r s = (ss, s')" by fastforce
  then obtain a where s': "s' = s\<lparr>turnAvailable := a\<rparr>" using fetched_inv by blast
  show ?thesis using assms
    by (auto simp: offer_servers_def f s' Let_def configure_def intro!: inv_leave inv_set_remote_offer)
qed

lemma inv_flushCandidates:
  "call_inv s \<Longrightarrow> taken s \<Longrightarrow> (k = None \<longleftrightarrow> role_of s = Caller) \<Longrightarrow> call_inv (flushCandidates k s)"
  unfolding flushCandidates_def by (auto intro!: inv_await)

lemma inv_remote_set: "call_inv s \<Longrightarrow> taken s \<Longrightarrow> role_of s = Callee \<Longrightarrow> call_inv (remote_set e r s)"
  unfolding remote_set_def by (auto split: answer_of.split intro!: inv_flushCandidates)

lemma inv_flushed: "call_inv s \<Longrightarrow> taken s \<Longrightarrow> (k = None \<longleftrightarrow> role_of s = Caller) \<Longrightarrow> call_inv (flushed k s)"
  unfolding flushed_def by (cases "role_of s") (auto split: option.split intro!: inv_await)

lemma inv_answer_set:
  assumes "call_inv s"
  shows "call_inv (answer_set e r s)"
proof (cases r)
  case (Sdp d)
  let ?f = "\<lambda>p. p\<lparr>signalingState := Stable, pendingLocal := None, currentLocal := Some (TAnswer_sdp, d)\<rparr>"
  have "call_inv (clear TRestart (s\<lparr>pc := map_option ?f (pc s), answeredEpoch := int e\<rparr>))"
    unfolding clear_def using assms by (intro inv_cleared) simp_all
  then show ?thesis by (auto simp: Sdp answer_set_def Let_def split: option.split intro!: inv_leave)
qed (use assms in \<open>auto simp: answer_set_def\<close>)

lemma inv_onAnswer:
  assumes "call_inv s"
  shows "call_inv (onAnswer e s)"
proof (cases "pc s")
  case (Some p)
  then have "taken s" using taken_peer [OF assms] by blast
  then show ?thesis using assms Some
    by (auto simp: onAnswer_def clear_def intro!: inv_await inv_cleared)
qed (use assms in \<open>auto simp: onAnswer_def\<close>)

lemma inv_answer_taken: "call_inv s \<Longrightarrow> taken s \<Longrightarrow> role_of s = Caller \<Longrightarrow> call_inv (answer_taken r s)"
  unfolding answer_taken_def by (auto split: answer_of.split intro!: inv_flushCandidates)

lemma inv_restartIce:
  assumes "call_inv s" "role_of s = Caller"
  shows "call_inv (restartIce now s)"
proof (cases "pc s")
  case (Some p)
  then have "taken s" using taken_peer [OF assms(1)] by blast
  then show ?thesis using assms Some by (auto simp: restartIce_def intro!: inv_await)
qed (use assms in \<open>auto simp: restartIce_def\<close>)

lemma inv_restart_servers:
  assumes "call_inv s" "taken s" "role_of s = Caller"
  shows "call_inv (restart_servers ok r now s)"
proof -
  obtain ss s' where f: "fetched r s = (ss, s')" by fastforce
  then obtain a where s': "s' = s\<lparr>turnAvailable := a\<rparr>" using fetched_inv by blast
  show ?thesis using assms
    by (auto simp: restart_servers_def f s' Let_def configure_def intro!: inv_leave inv_sendOffer)
qed

lemma inv_resume:
  assumes I: "call_inv s" and k: "running s = Some k"
  shows "call_inv (resume ok now k r s)"
proof (cases "k = KCandidate")
  case False
  note R = running_role [OF I k] and T = taken_running [OF I k False]
  show ?thesis
    using I k R T inv_got_media [of s _ r] inv_got_servers [of s _ ok r] inv_prepared [OF I T]
      inv_rolled_back [OF I T] inv_got_peer_servers [OF I T] inv_offer_set [OF I T] inv_offered [OF I T]
      inv_offer_servers [OF I T] inv_remote_set [OF I T] inv_answer_set [OF I] inv_answer_taken [OF I T]
      inv_flushed [OF I T] inv_restart_servers [OF I T]
    by (cases k) (auto simp: resume_def split: answer_of.split list.split intro!: inv_leave inv_await inv_take_candidate)
qed (use I in \<open>auto simp: resume_def\<close>)

lemma inv_dequeue:
  "call_inv s \<Longrightarrow> running s = None \<Longrightarrow> queue_of s = j # q \<Longrightarrow> j \<noteq> JAccept \<Longrightarrow> j \<noteq> JAccepted \<Longrightarrow>
    call_inv (s\<lparr>queue_of := q\<rparr>)"
  by (cases "state_of s") (auto simp: inv_defs job_simps)

lemma dequeue_taken:
  "call_inv s \<Longrightarrow> queue_of s = j # q \<Longrightarrow> j = JAccept \<or> j = JAccepted \<or> j = JRestart \<Longrightarrow> taken s"
  by (cases "state_of s") (auto simp: inv_defs job_simps taken_def)

lemma inv_start_prep:
  assumes "call_inv s" "running s = None" "queue_of s = j # q" "j = JAccept \<and> k = Accepting \<or> j = JAccepted \<and> k = Offering"
  shows "call_inv (await (KMedia k) (put e (s\<lparr>queue_of := q\<rparr>)))"
  using assms by (cases "state_of s") (auto simp: inv_defs job_simps put_def)

lemma inv_candidate_wait: "call_inv s \<Longrightarrow> running s = None \<Longrightarrow> call_inv (await KCandidate s)"
  by (cases "state_of s") (auto simp: inv_defs job_simps)

lemma call_inv_start:
  assumes I: "call_inv s" and k: "running s = None" "queue_of s = j # q"
  shows "call_inv (start_job ok now j (s\<lparr>queue_of := q\<rparr>))"
proof (cases "j = JAccept \<or> j = JAccepted")
  case True
  then show ?thesis using inv_start_prep [OF I k] by (auto simp: start_job_def)
next
  case False
  then have D: "call_inv (s\<lparr>queue_of := q\<rparr>)" using inv_dequeue [OF I k] by blast
  have r: "role_of s = Caller" if "j = JRestart" using I k that by (simp add: call_inv_def jobs_ok_def)
  have c: "call_inv (await KCandidate (take_candidate e c (s\<lparr>queue_of := q\<rparr>)))" for e c
    by (rule inv_candidate_wait) (use D k in \<open>simp_all add: inv_take_candidate\<close>)
  show ?thesis using False D r c inv_onOffer [OF D] inv_onAnswer [OF D] inv_restartIce [OF D]
    by (cases j) (auto simp: start_job_def)
qed

lemma inv_enqueue:
  "call_inv s \<Longrightarrow> job_ok (role_of s) j \<Longrightarrow> j \<noteq> JAccept \<Longrightarrow> j \<noteq> JAccepted \<Longrightarrow> j \<noteq> JRestart \<or> taken s \<Longrightarrow> call_inv (enqueue j s)"
  by (cases "state_of s") (auto simp: inv_defs job_simps enqueue_def taken_def)

lemma inv_onAccepted: "call_inv s \<Longrightarrow> call_inv (onAccepted v s)"
  by (auto simp: inv_defs onAccepted_def updates Let_def job_simps)

lemma inv_receive: "call_inv s \<Longrightarrow> call_inv (receive now raw s)"
proof -
  assume I: "call_inv s"
  have ringing: "call_inv (setState RINGING_OUT (clear TInvite s))" if "state_of s = CALLING"
    using I that by (auto simp: inv_defs updates)
  have "call_inv (receive_msg now m s)" for m
    using I ringing inv_onAccepted [OF I] inv_finish [OF I] inv_onLinkLost [OF I] inv_enqueue [OF I]
    by (cases m) (auto simp: receive_msg_def)
  then show ?thesis using I by (auto simp: receive_def split: option.split)
qed

lemma inv_watchMedia: "call_inv s \<Longrightarrow> call_inv (watchMedia s)"
  by (simp add: watchMedia_def)

lemma renegotiated_peer: "renegotiated s \<Longrightarrow> pc s \<noteq> None"
  by (auto simp: renegotiated_def split: option.splits)

lemma inv_sampled: "call_inv s \<Longrightarrow> call_inv (sampled now rs s)"
  by (auto simp: sampled_def Let_def intro!: inv_markConnected inv_onLinkLost dest: renegotiated_peer)

lemma inv_disarm:
  assumes I: "call_inv s" and t: "timers s n = Some t" and n: "n \<noteq> TWindow" "n \<noteq> TRing" and x: "calls_back x = calls_back t"
  shows "call_inv (s\<lparr>timers := (timers s)(n \<mapsto> x)\<rparr>)"
proof -
  have ok: "timers_ok (role_of s) ((timers s)(n \<mapsto> x))" using I t x by (auto simp: call_inv_def timers_ok_def)
  have "timers_in (timers s) N \<longrightarrow> timers_in ((timers s)(n \<mapsto> x)) N" for N using t by (auto simp: timers_in_def)
  from this [of "{TInvite, TRing}"] this [of "{TConnect, TOffer}"]
  show ?thesis using I ok n by (cases "state_of s") (auto simp: inv_defs)
qed

lemma restart_taken: "call_inv s \<Longrightarrow> timers s TRestart = Some t \<Longrightarrow> taken s \<and> state_of s \<noteq> ENDED"
  by (cases "state_of s") (auto simp: inv_defs taken_def dest: timers_inD)

lemma inv_restart_timer:
  assumes I: "call_inv s" and t: "timers s TRestart = Some t" "calls_back t = c" "c = CRestart \<or> c = CRetry"
  shows "call_inv (call_back now c (s\<lparr>timers := (timers s)(TRestart \<mapsto> x)\<rparr>))"
proof -
  have T: "taken s" "state_of s \<noteq> ENDED" using restart_taken [OF I t(1)] by auto
  have C: "role_of s = Caller"
  proof (cases "role_of s")
    case Callee
    have "timer_ok (role_of s) TRestart (calls_back t)" using I t(1) by (auto simp: call_inv_def dest: timers_okD)
    then show ?thesis using Callee t(2,3) by auto
  qed
  have A: "call_inv (s\<lparr>timers := (timers s)(TRestart \<mapsto> y)\<rparr>)" if "calls_back y = CRestart" for y
    using I T C that by (intro inv_timer) simp_all
  have B: "call_inv (s\<lparr>restartAttempt := m, queue_of := queue_of s @ [JRestart], timers := (timers s)(TRestart \<mapsto> y)\<rparr>)"
    if "calls_back y = CRetry" for m y
  proof -
    let ?q = "enqueue JRestart (s\<lparr>restartAttempt := m\<rparr>)"
    have "call_inv ?q" using I T C by (intro inv_enqueue) (simp_all add: taken_def)
    then have "call_inv (?q\<lparr>timers := (timers ?q)(TRestart \<mapsto> y)\<rparr>)"
      using T C that by (intro inv_timer) (simp_all add: enqueue_def taken_def)
    then show ?thesis by (simp add: enqueue_def)
  qed
  from t(3) show ?thesis
  proof
    assume c: "c = CRestart"
    show ?thesis using B by (simp add: c call_back_def clear_def after_def enqueue_def Let_def)
  next
    assume c: "c = CRetry"
    show ?thesis using A by (simp add: c call_back_def scheduleRestart_def clear_def after_def)
  qed
qed

lemma inv_fire:
  assumes I: "call_inv s"
  shows "call_inv (fire now n s)"
proof (cases "timers s n")
  case (Some t)
  let ?s = "if interval t then s else s\<lparr>timers := (timers s)(n \<mapsto> t\<lparr>armed := False\<rparr>)\<rparr>"
  have ok: "timer_ok (role_of s) n (calls_back t)" using I Some by (auto simp: call_inv_def dest: timers_okD)
  have fin: "call_inv (finish r b ?s)" if "state_of s \<noteq> ENDED" for r b
    using inv_finish [OF I, of r b] that by (simp add: inv_defs)
  have I': "call_inv ?s" if "n \<noteq> TWindow" "n \<noteq> TRing" using inv_disarm [OF I Some that] I by simp
  have over: "state_of s \<noteq> ENDED" if "n \<noteq> TConnect" "n \<noteq> TOffer"
    using I Some that by (auto simp: inv_defs dest: timers_inD)
  have "call_inv (call_back now (calls_back t) ?s)"
  proof (cases n)
    case TRestart
    have "call_inv (call_back now (calls_back t) ?s)" if "calls_back t = CRestart \<or> calls_back t = CRetry"
    proof (cases "interval t")
      case True
      have "s\<lparr>timers := (timers s)(TRestart \<mapsto> t)\<rparr> = s" using Some TRestart by (simp add: fun_upd_idem)
      then show ?thesis using inv_restart_timer [OF I _ refl that, of now t] Some TRestart True by simp
    next
      case False
      then show ?thesis using inv_restart_timer [OF I _ refl that] Some TRestart by simp
    qed
    moreover have "call_inv (call_back now CAsk ?s)" using I' TRestart by (simp add: call_back_def)
    ultimately show ?thesis using ok TRestart by (cases "role_of s") auto
  qed (use ok I' fin over inv_onLinkLost [OF I'] inv_send_offer_now [OF I'] inv_watchMedia [OF I'] in
      \<open>auto simp: call_back_def split: callback.splits\<close>)
  then show ?thesis using Some I by (simp add: fire_def)
qed (use I in \<open>simp add: fire_def\<close>)

lemma inv_gathered: "call_inv s \<Longrightarrow> call_inv (gathered c d s)"
  by (auto simp: gathered_def Let_def split: option.split)

lemma inv_connection: "call_inv s \<Longrightarrow> call_inv (connection now c s)"
  by (auto simp: connection_def split: option.split intro!: inv_onPcState)

lemma call_inv_step:
  assumes "call_inv s"
  shows "call_inv (step now e s)"
proof (cases e)
  case (Start ok)
  then show ?thesis using assms call_inv_start [OF assms] by (auto simp: step_def split: option.split list.split)
next
  case (Resume ok r)
  then show ?thesis using assms inv_resume [OF assms] by (auto simp: step_def split: option.split)
qed (use assms in \<open>simp_all add: step_def inv_accept inv_decline inv_hangup inv_setMuted inv_networkChanged
    inv_receive inv_fire inv_sampled inv_connection inv_gathered\<close>)

lemma call_reachable_inv: "call_reachable s \<Longrightarrow> call_inv s"
  by (induction rule: call_reachable.induct) (simp_all add: inv_ring_in inv_ring_out call_inv_step)

end
