(* ===== verification/Call_Safety.thy ===== *)
theory Call_Safety
  imports Call_Correct
begin

text \<open>
  What a session guarantees: nothing leaves it after its end, it ends once and releases what it
  opened, the microphone waits for the acceptance, and each phase before or without media has a
  deadline.
\<close>

section \<open>After the end\<close>

text \<open>What reaches the other side, the application or the network.\<close>

fun loud :: "out \<Rightarrow> bool" where
  "loud (Changed x) = False" | "loud (GetUserMedia v) = False" | "loud StopTracks = False" | "loud _ = True"

definition ended :: "session \<Rightarrow> bool" where
  "ended s \<longleftrightarrow> state_of s = ENDED \<and> pc s = None"

definition still :: "session \<Rightarrow> session \<Rightarrow> bool" where
  "still s s' \<longleftrightarrow> state_of s' = ENDED \<and> filter loud (trace s') = filter loud (trace s)"

lemmas still_defs = still_def ended_def isOver_def updates

lemma still_user:
  assumes "ended s"
  shows "still s (accept s)" "still s (decline s)" "still s (hangup s)" "still s (setMuted m s)"
    "still s (networkChanged now s)" "still s (onLinkLost now b s)" "still s (connection now c s)" "still s (gathered x d s)"
  using assms by (simp_all add: still_defs accept_def decline_def hangup_def setMuted_def networkChanged_def
    onLinkLost_def connection_def gathered_def Let_def)

lemma still_take_candidate: "ended s \<Longrightarrow> still s (take_candidate e c s)"
  by (simp add: still_defs take_candidate_def)

lemma still_receive: "ended s \<Longrightarrow> still s (receive now raw s)"
  by (simp add: still_defs receive_def split: option.split)

lemma still_fetched: "fetched r s = (ss, s') \<Longrightarrow> state_of s' = state_of s \<and> pc s' = pc s \<and> trace s' = trace s"
  by (auto dest: fetched_inv)

lemma still_prepare:
  assumes "ended s"
  shows "still s (got_media k r s)" "still s (got_servers k ok r s)" "still s (prepared k now s)"
    "still s (offered w s)"
proof -
  obtain ss s' where f: "fetched r s = (ss, s')" by fastforce
  show "still s (got_servers k ok r s)"
    using assms still_fetched [OF f] by (simp add: still_defs got_servers_def f)
qed (use assms in \<open>auto simp: still_defs got_media_def prepared_def offered_def Let_def split: answer_of.split offerer.split\<close>)

lemma still_offer:
  assumes "ended s"
  shows "still s (rolled_back w i r now s)" "still s (got_peer_servers w r s)" "still s (offer_set w ss r s)"
    "still s (restart_servers ok r now s)" "still s (restartIce now s)" "still s (send_offer_now e ss s)"
proof -
  obtain ss s' where f: "fetched r s = (ss, s')" by fastforce
  show "still s (restart_servers ok r now s)"
    using assms still_fetched [OF f] by (simp add: still_defs restart_servers_def f)
qed (use assms in \<open>auto simp: still_defs rolled_back_def ask_peer_servers_def got_peer_servers_def offer_set_def
    send_offer_now_def restartIce_def Let_def split: answer_of.split\<close>)

lemma still_answer:
  assumes "ended s"
  shows "still s (onOffer ok e d l s)" "still s (offer_servers ok e r s)" "still s (remote_set e r s)"
    "still s (flushed k s)" "still s (answer_set e r s)" "still s (onAnswer e s)" "still s (answer_taken r s)"
proof -
  obtain ss s' where f: "fetched r s = (ss, s')" by fastforce
  show "still s (offer_servers ok e r s)"
    using assms still_fetched [OF f] by (simp add: still_defs offer_servers_def f)
qed (use assms in \<open>auto simp: still_defs onOffer_def remote_set_def flushCandidates_def flushed_def answer_set_def
    local_sdp_def onAnswer_def answer_taken_def Let_def split: answer_of.split option.split\<close>)

lemma still_fields:
  "still s (s'\<lparr>running := k\<rparr>) = still s s'" "still s (s'\<lparr>queue_of := q\<rparr>) = still s s'"
  "still (s\<lparr>queue_of := q\<rparr>) s' = still s s'" "ended (s\<lparr>queue_of := q\<rparr>) = ended s" "ended s \<Longrightarrow> still s s"
  "ended (s\<lparr>timers := T\<rparr>) = ended s" "still (s\<lparr>timers := T\<rparr>) s' = still s s'"
  by (simp_all add: still_defs)

lemma still_resume: "ended s \<Longrightarrow> still s (resume ok now k r s)"
  by (cases k) (auto simp: resume_def still_prepare still_offer still_answer still_take_candidate still_fields
      split: answer_of.split list.split)

lemma still_start:
  assumes "ended s"
  shows "still s (start_job ok now j (s\<lparr>queue_of := q\<rparr>))"
proof -
  have "ended (s\<lparr>queue_of := q\<rparr>)" using assms by (simp add: still_fields)
  from still_answer [OF this] still_offer [OF this] still_take_candidate [OF this]
  show ?thesis using assms
    by (cases j) (simp_all add: start_job_def still_fields, simp_all add: still_defs)
qed

lemma still_fire:
  assumes I: "call_inv s" and e: "ended s"
  shows "still s (fire now n s)"
proof (cases "timers s n")
  case (Some t)
  have "n = TConnect \<or> n = TOffer" using I e Some by (auto simp: inv_defs ended_def dest: timers_inD)
  moreover have "timer_ok (role_of s) n (calls_back t)" using I Some by (auto simp: call_inv_def dest: timers_okD)
  ultimately have "calls_back t = CConnect \<or> (\<exists>e ss. calls_back t = COffer e ss)"
    by (auto split: callback.splits)
  then show ?thesis
    using e still_user(6) [of "s\<lparr>timers := T\<rparr>" for T] still_offer(6) [of "s\<lparr>timers := T\<rparr>" for T]
      still_user(6) [OF e] still_offer(6) [OF e]
    by (auto simp: fire_def Some call_back_def still_fields)
qed (use e in \<open>simp add: fire_def still_fields\<close>)

lemma still_sampled: "ended s \<Longrightarrow> still s (sampled now rs s)"
  by (auto simp: still_defs sampled_def Let_def)

lemma still_step:
  assumes "call_inv s" "ended s"
  shows "still s (step now e s)"
  using assms by (cases e) (auto simp: step_def still_user still_receive still_fire still_sampled still_fields
      still_start still_resume split: option.split list.split)

text \<open>
  C15: an ended call stays ended and silent: whatever happens afterwards - a late message, a timer, a
  promise that settles, the user - no message is sent, nothing is reported as ended again and no
  connection is opened or configured; the microphone and the connection are released.
\<close>

theorem silent_after_the_end:
  assumes "call_reachable s" and "state_of s = ENDED"
  shows "state_of (step now e s) = ENDED \<and> filter loud (trace (step now e s)) = filter loud (trace s)
    \<and> localStream (step now e s) = None \<and> pc (step now e s) = None"
proof -
  have I: "call_inv s" by (rule call_reachable_inv [OF assms(1)])
  then have "ended s" using assms(2) by (simp add: ended_def inv_defs)
  from still_step [OF I this, of now e] have "still s (step now e s)" .
  moreover have "call_inv (step now e s)" by (rule call_inv_step [OF I])
  ultimately show ?thesis by (simp add: still_def inv_defs)
qed

section \<open>Deadlines\<close>

definition deadline :: "state \<Rightarrow> timer_name option" where
  "deadline x = (if x \<in> {CALLING, RINGING_OUT, RINGING_IN} then Some TRing
     else if x = RECONNECTING then Some TWindow else None)"

text \<open>
  C34: a call that rings or reconnects has a deadline: the timer of the ringing, or of the
  reconnection window, is set, and when it fires the call is over.
\<close>

theorem deadline_ends_the_call:
  assumes "call_reachable s" and "deadline (state_of s) = Some n"
  shows "\<exists>t. timers s n = Some t \<and> armed t \<and> state_of (fire now n s) = ENDED"
proof -
  have I: "call_inv s" by (rule call_reachable_inv [OF assms(1)])
  then have "\<exists>b. n = TRing \<and> set_timer (timers s) TRing (CRing b) \<or> n = TWindow \<and> set_timer (timers s) TWindow CWindow"
    using assms(2) by (cases "state_of s") (auto simp: deadline_def inv_defs)
  then show ?thesis by (auto simp: set_timer_def fire_def call_back_def)
qed

section \<open>The microphone\<close>

text \<open>A session nobody has accepted yet, or that ended before.\<close>

definition untouched :: "session \<Rightarrow> bool" where
  "untouched s \<longleftrightarrow> state_of s \<in> {CALLING, RINGING_OUT, RINGING_IN, ENDED} \<and> pc s = None \<and> localStream s = None
     \<and> preps (running s) (queue_of s) = 0 \<and> JRestart \<notin> set (queue_of s)
     \<and> (running s = None \<or> running s = Some KCandidate) \<and> timers_in (timers s) {TInvite, TRing}
     \<and> timers_ok (role_of s) (timers s) \<and> (\<forall>v. GetUserMedia v \<notin> set (trace s))"

text \<open>The two events that take a call: the user's tap, or the acceptance of the called side.\<close>

definition takes_call :: "session \<Rightarrow> event \<Rightarrow> bool" where
  "takes_call s e \<longleftrightarrow> e = Accept \<or> (\<exists>raw v. e = Receive raw \<and> parseMessage raw = Some (callId s, MAccept v))"

lemma finish_no_media: "GetUserMedia v \<in> set (trace (finish r n s)) \<Longrightarrow> GetUserMedia v \<in> set (trace s)"
  by (auto simp: finish_def isOver_def put_def setState_update stopLocalMedia_update closePeer_update emit_def Let_def
      split: if_splits)

lemma untouched_finish: "untouched s \<Longrightarrow> untouched (finish r n s)"
  by (cases "state_of s = ENDED") (auto simp: untouched_def dest: finish_no_media)

lemma untouched_put [simp]:
  "untouched (send m s) = untouched s" "untouched (put (Changed x) s) = untouched s"
  by (auto simp: untouched_def put_def)

lemma untouched_job:
  "untouched s \<Longrightarrow> queue_of s = j # q \<Longrightarrow> running s = None \<Longrightarrow> untouched (start_job ok now j (s\<lparr>queue_of := q\<rparr>))"
  by (cases j) (auto simp: untouched_def start_job_def preps_def onOffer_def onAnswer_def take_candidate_def)

lemma untouched_receive:
  assumes "untouched s" "\<not> takes_call s (Receive raw)"
  shows "untouched (receive now raw s)"
proof (cases "parseMessage raw")
  case (Some x)
  obtain i m where x: "x = (i, m)" by (cases x)
  have "untouched (receive_msg now m s)" if "i = callId s"
    using assms Some x that untouched_finish [OF assms(1)]
    by (cases m) (auto simp: receive_msg_def takes_call_def onLinkLost_def isOver_def, auto simp: untouched_def updates preps_def)
  then show ?thesis using assms(1) Some x by (simp add: receive_def)
qed (use assms in \<open>simp add: receive_def\<close>)

lemma untouched_fire:
  assumes "untouched s"
  shows "untouched (fire now n s)"
proof (cases "timers s n")
  case (Some t)
  let ?s = "if interval t then s else s\<lparr>timers := (timers s)(n \<mapsto> t\<lparr>armed := False\<rparr>)\<rparr>"
  have n: "n = TInvite \<or> n = TRing" using assms Some by (auto simp: untouched_def dest: timers_inD)
  have ok: "timer_ok (role_of s) n (calls_back t)" using assms Some by (auto simp: untouched_def dest: timers_okD)
  have "timers_ok (role_of s) ((timers s)(n \<mapsto> t\<lparr>armed := False\<rparr>))"
    "timers_in ((timers s)(n \<mapsto> t\<lparr>armed := False\<rparr>)) {TInvite, TRing}"
    using assms ok n by (auto simp: untouched_def)
  then have "untouched ?s" using assms by (simp add: untouched_def)
  from this untouched_finish [OF this] show ?thesis
    using assms n ok by (auto simp: fire_def Some call_back_def split: callback.splits)
qed (use assms in \<open>simp add: fire_def\<close>)

lemma untouched_step:
  assumes "untouched s" "\<not> takes_call s e"
  shows "untouched (step now e s)"
proof (cases e)
  case Accept
  then show ?thesis using assms(2) by (simp add: takes_call_def)
next
  case Decline
  then show ?thesis using untouched_finish [of "send MDecline s"] assms(1) by (simp add: step_def decline_def)
next
  case Hang_up
  then show ?thesis using untouched_finish [OF assms(1)] assms(1) by (simp add: step_def hangup_def)
next
  case (Mute m)
  then show ?thesis using assms(1) by (auto simp: step_def setMuted_def untouched_def emit_def put_def Let_def)
next
  case Network_changed
  then show ?thesis using assms(1) by (auto simp: step_def networkChanged_def untouched_def)
next
  case (Receive raw)
  then show ?thesis using untouched_receive [OF assms(1)] assms(2) by (simp add: step_def)
next
  case (Fire n)
  then show ?thesis using untouched_fire [OF assms(1)] by (simp add: step_def)
next
  case (Start ok)
  then show ?thesis using untouched_job [OF assms(1)] assms(1) by (auto simp: step_def split: option.split list.split)
next
  case (Resume ok r)
  then show ?thesis using assms(1) by (auto simp: step_def resume_def untouched_def preps_def split: option.split)
next
  case (Sampled rs)
  then show ?thesis using assms(1) by (auto simp: step_def sampled_def untouched_def Let_def)
next
  case (Connection c)
  then show ?thesis using assms(1) by (simp add: step_def connection_def untouched_def)
next
  case (Gathered c d)
  then show ?thesis using assms(1) by (simp add: step_def gathered_def untouched_def)
qed

text \<open>A session keeps its identifier and its role.\<close>

definition same_call :: "session \<Rightarrow> session \<Rightarrow> bool" where
  "same_call s s' \<longleftrightarrow> callId s' = callId s \<and> role_of s' = role_of s"

lemma same_put [simp]: "same_call s (put x s') = same_call s s'" "same_call s s"
  by (simp_all add: same_call_def put_def)

lemma same_fields [simp]:
  "callId (put x s) = callId s" "callId (emit s) = callId s" "callId (setState y s) = callId s"
  "role_of (setState y s) = role_of s" "callId (finish r n s) = callId s"
  by (simp_all add: put_def emit_def setState_update finish_def stopLocalMedia_update closePeer_update Let_def)

lemma same_link:
  "same_call s (onLinkLost now b s)" "same_call s (markConnected now s)"
  by (simp_all add: same_call_def onLinkLost_def markConnected_def scheduleRestart_def after_def every_def clear_def Let_def)

lemma same_offer:
  "same_call s (ask_peer_servers w i now s)" "same_call s (send_offer_now e ss s)"
  using send_offer_put [of e ss s]
  by (auto simp: ask_peer_servers_def same_call_def)

lemma same_jobs:
  "same_call s (got_media k r s)" "same_call s (rolled_back w i r now s)" "same_call s (got_peer_servers w r s)"
  "same_call s (sendOffer w i now s)" "same_call s (offered w s)" "same_call s (take_candidate e c s)"
  "same_call s (onOffer ok e d l s)" "same_call s (remote_set e r s)" "same_call s (flushed k' s)" "same_call s (onAnswer e s)"
  "same_call s (answer_taken r s)" "same_call s (restartIce now s)" "same_call s (answer_set e r s)"
  by (auto simp: same_call_def got_media_def rolled_back_def ask_peer_servers_def got_peer_servers_def sendOffer_def
      offered_def take_candidate_def onOffer_def remote_set_def flushCandidates_def flushed_def onAnswer_def answer_taken_def
      restartIce_def answer_set_def configure_def set_remote_offer_def stopLocalMedia_update clear_def after_def Let_def
      split: answer_of.split option.split offerer.split)

lemma same_offer_set: "same_call s (offer_set w ss r s)"
proof (cases r)
  case (Sdp d)
  let ?s = "s\<lparr>pc := map_option (\<lambda>p. p\<lparr>signalingState := HaveLocalOffer, pendingLocal := Some (TOffer_sdp, d)\<rparr>) (pc s)\<rparr>"
  have "same_call ?s (send_offer_now (epoch s) ss ?s)" by (rule same_offer)
  then show ?thesis by (simp add: Sdp offer_set_def every_def same_call_def Let_def)
qed (simp_all add: offer_set_def same_call_def)

lemma same_servers:
  "same_call s (got_servers k ok r s)" "same_call s (offer_servers ok e r s)" "same_call s (restart_servers ok r now s)"
  "same_call s (prepared k now s)"
proof -
  obtain ss s' where f: "fetched r s = (ss, s')" by fastforce
  then obtain a where s': "s' = s\<lparr>turnAvailable := a\<rparr>" using fetched_inv by blast
  show "same_call s (got_servers k ok r s)" "same_call s (offer_servers ok e r s)"
    by (simp_all add: got_servers_def offer_servers_def f s' same_call_def configure_def set_remote_offer_def every_def Let_def)
  show "same_call s (restart_servers ok r now s)"
    using same_jobs(4) [of "configure ss s'" RestartOffer True now]
    by (simp add: restart_servers_def f s' same_call_def configure_def Let_def)
  show "same_call s (prepared k now s)"
    using same_jobs(4) [of s FirstOffer False now]
    by (simp add: prepared_def same_call_def after_def split: side.split)
qed

lemma same_resume: "same_call s (resume ok now k r s)"
  using same_jobs same_servers same_offer_set
  by (cases k) (auto simp: resume_def same_call_def split: answer_of.split list.split)

lemma same_start: "same_call s (start_job ok now j (s\<lparr>queue_of := q\<rparr>))"
  using same_jobs [of "s\<lparr>queue_of := q\<rparr>"] by (cases j) (auto simp: start_job_def same_call_def)

lemma same_receive: "same_call s (receive now raw s)"
proof -
  have "same_call s (receive_msg now m s)" for m
    using same_link(1) [of s now True]
    by (cases m) (auto simp: receive_msg_def onAccepted_def same_call_def enqueue_def clear_def Let_def)
  then show ?thesis by (auto simp: receive_def split: option.split)
qed

lemma same_fire: "same_call s (fire now n s)"
proof -
  have "same_call s (call_back now c (s\<lparr>timers := T\<rparr>))" for c T
    using same_link(1) [of "s\<lparr>timers := T\<rparr>" now True] same_offer(2) [of "s\<lparr>timers := T\<rparr>"]
    by (cases c) (auto simp: call_back_def same_call_def watchMedia_def scheduleRestart_def enqueue_def after_def clear_def Let_def)
  from this [of _ "timers s"] this show ?thesis by (auto simp: fire_def split: option.split)
qed

lemma same_sampled: "same_call s (sampled now rs s)"
  using same_link by (auto simp: sampled_def same_call_def Let_def)

lemma same_connection: "same_call s (connection now c s)"
  using same_link by (auto simp: connection_def onPcState_def same_call_def after_def clear_def Let_def
      split: option.split conn_state.split)

lemma same_step: "same_call s (step now e s)"
proof (cases e)
  case (Start ok)
  then show ?thesis using same_start by (auto simp: step_def split: option.split list.split)
next
  case (Resume ok r)
  then show ?thesis using same_resume by (auto simp: step_def split: option.split)
qed (use same_receive same_fire same_sampled same_connection same_link(1) in
    \<open>auto simp: step_def same_call_def accept_def decline_def hangup_def setMuted_def networkChanged_def gathered_def
      enqueue_def clear_def Let_def split: option.split\<close>)

lemma callId_step [simp]: "callId (step now e s) = callId s" "role_of (step now e s) = role_of s"
  using same_step [of s now e] by (simp_all add: same_call_def)

lemma untouched_steps:
  "untouched s \<Longrightarrow> \<forall>x \<in> set es. \<not> takes_call s (snd x) \<Longrightarrow> untouched (steps es s)"
proof (induction es arbitrary: s)
  case (Cons x es)
  obtain now e where x: "x = (now, e)" by (cases x)
  have "untouched (step now e s)" using untouched_step Cons.prems x by simp
  moreover have "takes_call (step now e s) = takes_call s" by (simp add: takes_call_def fun_eq_iff)
  ultimately show ?case using Cons x by simp
qed simp

lemma untouched_ring_out: "untouched (ring_out opt i v)"
  using inv_ring_out [of opt i v]
  by (auto simp: untouched_def inv_defs ring_out_def dial_def new_session_def updates Let_def preps_def)

lemma untouched_ring_in: "untouched (ring_in opt i v)"
  using inv_ring_in [of opt i v]
  by (auto simp: untouched_def inv_defs ring_in_def new_session_def updates Let_def preps_def)


end
