(* ===== verification/Call_Exchange.thy ===== *)
theory Call_Exchange
  imports Call_Safety
begin

text \<open>
  What the two sides of a call exchange: which side sends which message, the epochs of the offers
  and of the answers, and how often a call is accepted and ended.
\<close>

section \<open>Who sends what\<close>

fun sent_by :: "'s message \<Rightarrow> role option" where
  "sent_by (MInvite v) = Some Caller" | "sent_by (MOffer e d ss) = Some Caller"
| "sent_by (MAccept v) = Some Callee" | "sent_by MDecline = Some Callee"
| "sent_by (MAnswer e d ss) = Some Callee" | "sent_by (MRestart e) = Some Callee"
| "sent_by m = None"

text \<open>The epochs of the offers and answers sent, newest first.\<close>

fun offer_epoch :: "out \<Rightarrow> nat option" where
  "offer_epoch (Send (MOffer e d ss)) = Some e" | "offer_epoch _ = None"

fun answer_epoch :: "out \<Rightarrow> nat option" where
  "answer_epoch (Send (MAnswer e d ss)) = Some e" | "answer_epoch _ = None"

definition offers :: "out list \<Rightarrow> nat list" where
  "offers = List.map_filter offer_epoch"

definition answers :: "out list \<Rightarrow> nat list" where
  "answers = List.map_filter answer_epoch"

lemma offers_simps [simp]:
  "offers [] = []" "offers (e # t) = (case offer_epoch e of None \<Rightarrow> offers t | Some n \<Rightarrow> n # offers t)"
  by (auto simp: offers_def List.map_filter_simps split: option.split)

lemma answers_simps [simp]:
  "answers [] = []" "answers (e # t) = (case answer_epoch e of None \<Rightarrow> answers t | Some n \<Rightarrow> n # answers t)"
  by (auto simp: answers_def List.map_filter_simps split: option.split)

text \<open>The epoch an answer under way is for.\<close>

fun answering :: "cont \<Rightarrow> nat option" where
  "answering (KOfferServers e d) = Some e" | "answering (KOfferRemote e) = Some e"
| "answering (KFlush cs k) = k" | "answering (KOfferCreate e) = Some e" | "answering (KOfferLocal e) = Some e"
| "answering _ = None"

definition falling :: "nat list \<Rightarrow> nat \<Rightarrow> bool" where
  "falling es n \<longleftrightarrow> sorted_wrt (\<ge>) (n # es)"

text \<open>
  The offers rise up to the current epoch, the answers up to the answered one, an answer under way
  is for a later epoch, and each message was sent by the side it belongs to.
\<close>

definition epochs_ok :: "session \<Rightarrow> bool" where
  "epochs_ok s \<longleftrightarrow> (role_of s = Caller \<longrightarrow> falling (offers (trace s)) (epoch s))
     \<and> sorted_wrt (\<ge>) (answers (trace s)) \<and> (\<forall>n \<in> set (answers (trace s)). int n \<le> answeredEpoch s)
     \<and> (\<forall>k n. running s = Some k \<longrightarrow> answering k = Some n \<longrightarrow> answeredEpoch s < int n)
     \<and> (\<forall>m r. Send m \<in> set (trace s) \<longrightarrow> sent_by m = Some r \<longrightarrow> r = role_of s)"

lemma epochs_put [simp]:
  "epochs_ok (put (Changed x) s) = epochs_ok s" "epochs_ok (put (Over r) s) = epochs_ok s"
  "epochs_ok (put (GetUserMedia v) s) = epochs_ok s" "epochs_ok (put StopTracks s) = epochs_ok s"
  "epochs_ok (put (NewPeer p ss) s) = epochs_ok s" "epochs_ok (put (Configure p ss) s) = epochs_ok s"
  "epochs_ok (put ClosePeer s) = epochs_ok s" "epochs_ok (put (AddCandidate c) s) = epochs_ok s"
  by (simp_all add: epochs_ok_def put_def)

lemma epochs_fields [simp]:
  "epochs_ok (s\<lparr>timers := T\<rparr>) = epochs_ok s" "epochs_ok (s\<lparr>state_of := x\<rparr>) = epochs_ok s"
  "epochs_ok (s\<lparr>pc := p\<rparr>) = epochs_ok s" "epochs_ok (s\<lparr>localStream := l\<rparr>) = epochs_ok s"
  "epochs_ok (s\<lparr>endReason := r\<rparr>) = epochs_ok s" "epochs_ok (s\<lparr>error_of := e\<rparr>) = epochs_ok s"
  "epochs_ok (s\<lparr>pendingCandidates := cs\<rparr>) = epochs_ok s" "epochs_ok (s\<lparr>turnAvailable := a\<rparr>) = epochs_ok s"
  "epochs_ok (s\<lparr>relayOnly := b\<rparr>) = epochs_ok s" "epochs_ok (s\<lparr>queue_of := q\<rparr>) = epochs_ok s"
  "epochs_ok (s\<lparr>video := v\<rparr>) = epochs_ok s" "epochs_ok (s\<lparr>muted := b\<rparr>) = epochs_ok s"
  "epochs_ok (s\<lparr>lastOfferAt := i\<rparr>) = epochs_ok s" "epochs_ok (s\<lparr>restartAttempt := n\<rparr>) = epochs_ok s"
  "epochs_ok (s\<lparr>reconnectStartedAt := o1\<rparr>) = epochs_ok s" "epochs_ok (s\<lparr>epochAtLoss := n\<rparr>) = epochs_ok s"
  "epochs_ok (s\<lparr>lastPackets := i\<rparr>) = epochs_ok s" "epochs_ok (s\<lparr>lastPacketsAt := i\<rparr>) = epochs_ok s"
  "epochs_ok (s\<lparr>samples := n\<rparr>) = epochs_ok s" "epochs_ok (s\<lparr>reconnects := n\<rparr>) = epochs_ok s"
  by (simp_all add: epochs_ok_def)

lemma epochs_send:
  "epochs_ok s \<Longrightarrow> offer_epoch (Send m) = None \<Longrightarrow> answer_epoch (Send m) = None \<Longrightarrow>
    sent_by m = None \<or> sent_by m = Some (role_of s) \<Longrightarrow> epochs_ok (send m s)"
  by (auto simp: epochs_ok_def put_def)

lemma epochs_wait: "epochs_ok s \<Longrightarrow> answering k = None \<Longrightarrow> epochs_ok (await k s)"
  by (auto simp: epochs_ok_def)

lemma epochs_leave [intro]: "epochs_ok s \<Longrightarrow> epochs_ok (leave s)"
  by (auto simp: epochs_ok_def)

lemma epochs_helpers [simp]:
  "epochs_ok (emit s) = epochs_ok s" "epochs_ok (setState x s) = epochs_ok s" "epochs_ok (clear n s) = epochs_ok s"
  "epochs_ok (after n d c s) = epochs_ok s" "epochs_ok (every n d c s) = epochs_ok s" "epochs_ok (enqueue j s) = epochs_ok s"
  "epochs_ok (stopLocalMedia s) = epochs_ok s" "epochs_ok (closePeer s) = epochs_ok s"
  by (auto simp: emit_def setState_def clear_def after_def every_def enqueue_def stopLocalMedia_def closePeer_def
      split: option.split)

lemma epochs_finish: "epochs_ok s \<Longrightarrow> epochs_ok (finish r n s)"
  by (auto simp: finish_def Let_def intro!: epochs_send)

lemma role_helpers [simp]:
  "role_of (clear n s) = role_of s" "role_of (after n d c s) = role_of s" "role_of (every n d c s) = role_of s"
  "epoch (clear n s) = epoch s" "running (clear n s) = running s"
  by (simp_all add: clear_def after_def every_def)

lemma epochs_onLinkLost: "epochs_ok s \<Longrightarrow> epochs_ok (onLinkLost now b s)"
  by (cases "role_of s") (auto simp: onLinkLost_def scheduleRestart_def Let_def intro!: epochs_send)

lemma epochs_markConnected: "epochs_ok s \<Longrightarrow> epochs_ok (markConnected now s)"
  by (simp add: markConnected_def Let_def)

lemma epochs_prepare:
  assumes "epochs_ok s"
  shows "epochs_ok (got_media k r s)" "epochs_ok (got_servers k ok r s)" "epochs_ok (offered w s)"
proof -
  obtain ss s' where f: "fetched r s = (ss, s')" by fastforce
  then obtain a where s': "s' = s\<lparr>turnAvailable := a\<rparr>" using fetched_inv by blast
  show "epochs_ok (got_servers k ok r s)" using assms
    by (auto simp: got_servers_def f s' Let_def intro!: epochs_wait)
qed (use assms in \<open>auto simp: got_media_def offered_def Let_def split: answer_of.split offerer.split
      intro!: epochs_wait epochs_finish\<close>)

lemma falling_more: "falling es n \<Longrightarrow> n \<le> m \<Longrightarrow> falling es m"
  by (auto simp: falling_def)

lemma epochs_offer:
  assumes "epochs_ok s"
  shows "epochs_ok (ask_peer_servers w i now s)" "epochs_ok (sendOffer w i now s)" "epochs_ok (rolled_back w i r now s)"
    "epochs_ok (got_peer_servers w r s)"
proof -
  have ask: "epochs_ok (ask_peer_servers w i now s)" if "epochs_ok s" for s
  proof -
    have "epochs_ok (s\<lparr>epoch := (if i then epoch s + 1 else epoch s)\<rparr>)"
      using that falling_more [of "offers (trace s)" "epoch s" "Suc (epoch s)"] by (auto simp: epochs_ok_def)
    then show ?thesis unfolding ask_peer_servers_def by (intro epochs_wait) simp_all
  qed
  then show "epochs_ok (ask_peer_servers w i now s)" using assms by blast
  show "epochs_ok (sendOffer w i now s)"
    unfolding sendOffer_def by (auto split: option.split intro: epochs_wait ask assms)
  have "epochs_ok (ask_peer_servers w i now (s\<lparr>pc := p\<rparr>))" for p by (rule ask) (use assms in simp)
  then show "epochs_ok (rolled_back w i r now s)"
    unfolding rolled_back_def by (cases r) (auto intro: epochs_leave assms)
  show "epochs_ok (got_peer_servers w r s)"
    unfolding got_peer_servers_def by (auto intro: epochs_wait assms)
qed

lemma epochs_send_offer_now: "epochs_ok s \<Longrightarrow> role_of s = Caller \<Longrightarrow> epochs_ok (send_offer_now e ss s)"
  using send_offer_put [of e ss s] by (auto simp: epochs_ok_def put_def falling_def)

lemma epochs_prepared: "epochs_ok s \<Longrightarrow> role_of s = side_role k \<Longrightarrow> epochs_ok (prepared k now s)"
  by (cases k) (auto simp: prepared_def intro!: epochs_send epochs_offer epochs_leave)

lemma epochs_offer_set:
  assumes "epochs_ok s" "role_of s = Caller"
  shows "epochs_ok (offer_set w ss r s)"
proof (cases r)
  case (Sdp d)
  let ?s = "s\<lparr>pc := map_option (\<lambda>p. p\<lparr>signalingState := HaveLocalOffer, pendingLocal := Some (TOffer_sdp, d)\<rparr>) (pc s)\<rparr>"
  have "epochs_ok (send_offer_now (epoch s) ss ?s)" using assms by (intro epochs_send_offer_now) simp_all
  then show ?thesis by (auto simp: Sdp offer_set_def Let_def intro!: epochs_wait)
qed (use assms in \<open>auto simp: offer_set_def\<close>)

lemma epochs_take_candidate: "epochs_ok s \<Longrightarrow> epochs_ok (take_candidate e c s)"
  by (auto simp: take_candidate_def split: option.split)

lemma epochs_epoch: "epochs_ok s \<Longrightarrow> role_of s = Callee \<Longrightarrow> epochs_ok (s\<lparr>epoch := e\<rparr>)"
  by (simp add: epochs_ok_def)

lemma epochs_set_remote_offer:
  "epochs_ok s \<Longrightarrow> role_of s = Callee \<Longrightarrow> answeredEpoch s < int e \<Longrightarrow> epochs_ok (set_remote_offer e s)"
  by (simp add: set_remote_offer_def epochs_ok_def)

lemma answers_sent: "epochs_ok s \<Longrightarrow> role_of s = Callee \<Longrightarrow> answeredEpoch s = int e \<Longrightarrow> epochs_ok (leave (send (MAnswer e a i) s))"
  by (auto simp: epochs_ok_def put_def)

lemma put_answered [simp]: "answeredEpoch (put x s) = answeredEpoch s"
  by (simp add: put_def)

lemma epochs_onOffer: "epochs_ok s \<Longrightarrow> epochs_ok (onOffer ok e d l s)"
proof -
  assume E: "epochs_ok s"
  show ?thesis
  proof (cases "role_of s = Callee \<and> answeredEpoch s < int e")
    case True
    have "epochs_ok (await (KOfferServers e d) s)" using E True by (simp add: epochs_ok_def)
    moreover have "epochs_ok (set_remote_offer e (configure ss (s\<lparr>turnAvailable := a\<rparr>)))" for ss a
      using E True by (intro epochs_set_remote_offer) (simp_all add: configure_def)
    ultimately show ?thesis using E True epochs_set_remote_offer [OF E] epochs_leave [OF E]
      by (auto simp: onOffer_def Let_def)
  next
    case False
    then show ?thesis using E answers_sent [OF E] by (auto simp: onOffer_def split: option.split)
  qed
qed

lemma epochs_offer_servers:
  assumes "epochs_ok s" "role_of s = Callee" "answeredEpoch s < int e"
  shows "epochs_ok (offer_servers ok e r s)"
proof -
  obtain ss s' where f: "fetched r s = (ss, s')" by fastforce
  then obtain a where s': "s' = s\<lparr>turnAvailable := a\<rparr>" using fetched_inv by blast
  show ?thesis using assms
    by (auto simp: offer_servers_def f s' Let_def configure_def intro!: epochs_set_remote_offer)
qed

lemma epochs_going:
  "epochs_ok s \<Longrightarrow> answeredEpoch s < int e \<Longrightarrow> answering k = Some e \<Longrightarrow> epochs_ok (await k s)"
  by (auto simp: epochs_ok_def)

lemma epochs_remote_set: "epochs_ok s \<Longrightarrow> answeredEpoch s < int e \<Longrightarrow> epochs_ok (remote_set e r s)"
  by (auto simp: remote_set_def flushCandidates_def split: answer_of.split intro!: epochs_going)

lemma epochs_answer_set:
  assumes E: "epochs_ok s" and r: "role_of s = Callee" and e: "answeredEpoch s < int e"
  shows "epochs_ok (answer_set e x s)"
proof (cases x)
  case (Sdp d)
  let ?p = "map_option (\<lambda>p. p\<lparr>signalingState := Stable, pendingLocal := None, currentLocal := Some (TAnswer_sdp, d)\<rparr>) (pc s)"
  let ?s = "clear TRestart (s\<lparr>pc := ?p, answeredEpoch := int e\<rparr>)"
  have s: "offers (trace ?s) = offers (trace s)" "trace ?s = trace s" "role_of ?s = role_of s" "answeredEpoch ?s = int e"
    "epoch ?s = epoch s" by (simp_all add: clear_def)
  have "epochs_ok (leave ?s)" "epochs_ok (leave (send (MAnswer e a JUndef) ?s))" for a
    using E r e unfolding epochs_ok_def by (force simp: s put_def)+
  then show ?thesis by (auto simp: Sdp answer_set_def Let_def split: option.split)
qed (use E in \<open>auto simp: answer_set_def\<close>)

lemma epochs_onAnswer: "epochs_ok s \<Longrightarrow> epochs_ok (onAnswer e s)"
  by (auto simp: onAnswer_def split: option.split intro!: epochs_wait)

lemma epochs_answer_taken: "epochs_ok s \<Longrightarrow> epochs_ok (answer_taken r s)"
  by (auto simp: answer_taken_def flushCandidates_def split: answer_of.split intro!: epochs_wait)

lemma epochs_restart:
  assumes "epochs_ok s"
  shows "epochs_ok (restartIce now s)" "epochs_ok (restart_servers ok r now s)"
proof -
  obtain ss s' where f: "fetched r s = (ss, s')" by fastforce
  then obtain a where s': "s' = s\<lparr>turnAvailable := a\<rparr>" using fetched_inv by blast
  show "epochs_ok (restart_servers ok r now s)" using assms
    by (auto simp: restart_servers_def f s' Let_def configure_def intro!: epochs_offer)
qed (use assms in \<open>auto simp: restartIce_def split: option.split intro!: epochs_wait\<close>)

lemma epochs_resume:
  assumes I: "call_inv s" and E: "epochs_ok s" and k: "running s = Some k"
  shows "epochs_ok (resume ok now k r s)"
proof -
  note R = running_role [OF I k]
  have a: "answeredEpoch s < int n" if "answering k = Some n" for n
    using E k that by (simp add: epochs_ok_def)
  have f: "epochs_ok (await (KFlush cs x) (take_candidate n c s))" if "k = KFlush cs' x" for cs cs' x n c
  proof (cases x)
    case (Some e)
    then have "answeredEpoch (take_candidate n c s) < int e"
      using a that by (simp add: take_candidate_def put_def split: option.split)
    then show ?thesis using E Some by (intro epochs_going [of _ e] epochs_take_candidate) simp_all
  qed (use E in \<open>auto intro!: epochs_wait epochs_take_candidate\<close>)
  show ?thesis
  proof (cases k)
    case (KFlush cs x)
    have "epochs_ok (flushed x s)" using E a KFlush
      by (auto simp: flushed_def split: option.split intro!: epochs_going)
    then show ?thesis using f KFlush by (auto simp: resume_def split: list.split)
  next
    case (KOfferCreate e)
    then show ?thesis using epochs_going [OF E a] E by (auto simp: resume_def split: answer_of.split)
  qed (use E R a in \<open>auto simp: resume_def epochs_prepare epochs_offer epochs_prepared epochs_offer_set epochs_offer_servers
      epochs_remote_set epochs_answer_set epochs_answer_taken epochs_restart split: answer_of.split
      intro!: epochs_wait epochs_going\<close>)
qed

lemma epochs_start: "epochs_ok s \<Longrightarrow> epochs_ok (start_job ok now j (s\<lparr>queue_of := q\<rparr>))"
  by (cases j) (auto simp: start_job_def epochs_onOffer epochs_onAnswer epochs_restart epochs_take_candidate intro!: epochs_wait)

lemma epochs_receive: "epochs_ok s \<Longrightarrow> epochs_ok (receive now raw s)"
proof -
  assume E: "epochs_ok s"
  have "epochs_ok (receive_msg now m s)" for m
    using E by (cases m) (auto simp: receive_msg_def onAccepted_def epochs_finish epochs_onLinkLost Let_def)
  then show ?thesis using E by (auto simp: receive_def split: option.split)
qed

lemma fire_state:
  obtains T where "fire now n s = s"
  | t T where "timers s n = Some t" "fire now n s = call_back now (calls_back t) (s\<lparr>timers := T\<rparr>)"
proof (cases "timers s n")
  case None
  then show thesis using that(1) by (simp add: fire_def)
next
  case (Some t)
  have "s = s\<lparr>timers := timers s\<rparr>" by simp
  then show thesis using that(1) that(2) [OF Some, of "timers s"] that(2) [OF Some, of "(timers s)(n \<mapsto> t\<lparr>armed := False\<rparr>)"]
    by (cases "armed t"; cases "interval t") (simp_all add: fire_def Some)
qed

lemma epochs_fire:
  assumes I: "call_inv s" and E: "epochs_ok s"
  shows "epochs_ok (fire now n s)"
proof (cases rule: fire_state [of now n s])
  case (2 t T)
  have "timer_ok (role_of s) n (calls_back t)" using I 2(1) by (auto simp: call_inv_def dest: timers_okD)
  then have "calls_back t = CInvite \<or> (\<exists>e ss. calls_back t = COffer e ss) \<Longrightarrow> role_of s = Caller"
    "calls_back t = CAsk \<Longrightarrow> role_of s = Callee"
    by (cases n; auto split: callback.splits if_splits)+
  then have "epochs_ok (call_back now (calls_back t) (s\<lparr>timers := T\<rparr>))"
    using E by (cases "calls_back t")
      (auto simp: call_back_def epochs_finish epochs_onLinkLost epochs_send_offer_now watchMedia_def scheduleRestart_def Let_def
        intro!: epochs_send)
  then show ?thesis using 2 by simp
qed (use E in simp)

lemma epochs_step:
  assumes I: "call_inv s" and E: "epochs_ok s"
  shows "epochs_ok (step now e s)"
proof (cases e)
  case (Start ok)
  then show ?thesis using E epochs_start [OF E] by (auto simp: step_def split: option.split list.split)
next
  case (Resume ok r)
  then show ?thesis using E epochs_resume [OF I E] by (auto simp: step_def split: option.split)
next
  case Decline
  have "role_of s = Callee" if "state_of s = RINGING_IN" using I that by (simp add: inv_defs)
  then show ?thesis using Decline E by (auto simp: step_def decline_def intro!: epochs_finish epochs_send)
next
  case (Fire n)
  then show ?thesis using epochs_fire [OF I E] by (simp add: step_def)
next
  case (Gathered c d)
  then show ?thesis using E by (auto simp: step_def gathered_def Let_def split: option.split intro!: epochs_send)
qed (use E epochs_markConnected in \<open>auto simp: step_def accept_def hangup_def setMuted_def networkChanged_def epochs_receive sampled_def
    connection_def onPcState_def epochs_finish epochs_onLinkLost Let_def split: option.split conn_state.split\<close>)

lemma epochs_ring: "epochs_ok (ring_in opt i v)" "epochs_ok (ring_out opt i v)"
  by (auto simp: epochs_ok_def ring_in_def ring_out_def dial_def new_session_def updates falling_def Let_def)

lemma reachable_epochs: "call_reachable s \<Longrightarrow> epochs_ok s"
  by (induction rule: call_reachable.induct) (auto simp: epochs_ring intro: epochs_step call_reachable_inv)

text \<open>
  C16: there can be no collision of offers: in every reachable session only the caller has sent
  offers and only the called side answers; the epochs of the offers never fall, none is beyond the
  session's epoch, and the epochs of the answers never fall either.
\<close>

theorem only_the_caller_offers:
  assumes "call_reachable s"
  shows "(offers (trace s) \<noteq> [] \<longrightarrow> role_of s = Caller) \<and> (answers (trace s) \<noteq> [] \<longrightarrow> role_of s = Callee)
    \<and> sorted_wrt (\<ge>) (offers (trace s)) \<and> (\<forall>n \<in> set (offers (trace s)). n \<le> epoch s)
    \<and> sorted_wrt (\<ge>) (answers (trace s))"
proof -
  have E: "epochs_ok s" by (rule reachable_epochs [OF assms])
  have "\<exists>m. Send m \<in> set t \<and> sent_by m = Some Caller" if "offers t \<noteq> []" for t
    using that by (induction t) (fastforce elim!: offer_epoch.elims split: option.splits)+
  moreover have "\<exists>m. Send m \<in> set t \<and> sent_by m = Some Callee" if "answers t \<noteq> []" for t
    using that by (induction t) (fastforce elim!: answer_epoch.elims split: option.splits)+
  ultimately have r: "offers (trace s) \<noteq> [] \<longrightarrow> role_of s = Caller" "answers (trace s) \<noteq> [] \<longrightarrow> role_of s = Callee"
    using E unfolding epochs_ok_def by metis+
  have "sorted_wrt (\<ge>) (offers (trace s)) \<and> (\<forall>n \<in> set (offers (trace s)). n \<le> epoch s)"
    using E r(1) by (cases "offers (trace s) = []") (auto simp: epochs_ok_def falling_def)
  then show ?thesis using E r by (simp add: epochs_ok_def)
qed

end
