(* ===== verification/Call_Endpoint.thy ===== *)
theory Call_Endpoint
  imports Call_Exchange
begin

text \<open>
  The endpoint of a channel, the class \<open>CallEndpoint\<close>: at most one call that is not over, calls
  that are over remembered by their identifiers (the last 64), and the answer busy to an
  invitation during a call. The sessions that ended are kept in \<open>past\<close>: their promises and timers
  may still settle.
\<close>

record endpoint =
  options_of :: options
  call :: "session option"
  past :: "session list"
  ended_ids :: "jstring list"
  replies :: "(jstring \<times> json message) list"
  listening :: bool

definition new_endpoint :: "options \<Rightarrow> endpoint" where
  "new_endpoint opt = \<lparr>options_of = opt, call = None, past = [], ended_ids = [], replies = [], listening = True\<rparr>"

text \<open>\<open>onEnded\<close>: a set that keeps the order of insertion and drops its oldest element beyond 64.\<close>

definition remember :: "jstring \<Rightarrow> endpoint \<Rightarrow> endpoint" where
  "remember i ep =
     (let l = (if i \<in> set (ended_ids ep) then ended_ids ep else ended_ids ep @ [i])
      in ep\<lparr>ended_ids := (if length l > 64 then tl l else l)\<rparr>)"

text \<open>The current session after an operation on it, with the callback of its end.\<close>

definition with_call :: "(session \<Rightarrow> session) \<Rightarrow> endpoint \<Rightarrow> endpoint" where
  "with_call f ep =
     (case call ep of None \<Rightarrow> ep
      | Some s \<Rightarrow> let s' = f s; ep' = ep\<lparr>call := Some s'\<rparr> in
          if \<not> isOver s \<and> isOver s' then remember (callId s') ep' else ep')"

definition active :: "endpoint \<Rightarrow> session option" where
  "active ep = (case call ep of None \<Rightarrow> None | Some s \<Rightarrow> if isOver s then None else Some s)"

definition replace_call :: "session \<Rightarrow> endpoint \<Rightarrow> endpoint" where
  "replace_call s ep = ep\<lparr>call := Some s, past := (case call ep of None \<Rightarrow> past ep | Some o1 \<Rightarrow> o1 # past ep)\<rparr>"

definition reply :: "jstring \<Rightarrow> json message \<Rightarrow> endpoint \<Rightarrow> endpoint" where
  "reply i m ep = ep\<lparr>replies := (i, m) # replies ep\<rparr>"

definition dial_out :: "jstring \<Rightarrow> bool \<Rightarrow> endpoint \<Rightarrow> endpoint" where
  "dial_out i v ep = (if active ep \<noteq> None then ep
     else replace_call (dial (new_session (options_of ep) i Caller v)) ep)"

definition onInvite :: "jstring \<Rightarrow> bool \<Rightarrow> endpoint \<Rightarrow> endpoint" where
  "onInvite i v ep =
     (if map_option callId (call ep) = Some i then
        (if active ep \<noteq> None then reply i MRinging ep else ep)
      else if i \<in> set (ended_ids ep) then ep
      else if active ep \<noteq> None then reply i MBusy ep
      else let s = setState RINGING_IN (new_session (options_of ep) i Callee v)
           in reply i MRinging (replace_call (after TRing (ringTimeoutMs (timing_of s)) (CRing False) s) ep))"

definition handle :: "int \<Rightarrow> json \<Rightarrow> endpoint \<Rightarrow> endpoint" where
  "handle now raw ep =
     (case parseMessage raw of None \<Rightarrow> ep
      | Some (i, m) \<Rightarrow>
          (case m of MInvite v \<Rightarrow> onInvite i v ep
           | _ \<Rightarrow> if map_option callId (call ep) = Some i then with_call (receive now raw) ep else ep))"

definition close :: "endpoint \<Rightarrow> endpoint" where
  "close ep = (if active ep \<noteq> None then with_call hangup ep else ep)\<lparr>listening := False\<rparr>"

text \<open>What happens to an endpoint: the identifier of a dialled call is drawn by \<open>newCallId\<close>.\<close>

datatype ep_event = Dial "nat list" bool | Arrive json | Current event | Former nat event | Close

definition ep_step :: "int \<Rightarrow> ep_event \<Rightarrow> endpoint \<Rightarrow> endpoint" where
  "ep_step now e ep =
     (case e of
        Dial bs v \<Rightarrow> dial_out (newCallId bs) v ep
      | Arrive raw \<Rightarrow> if listening ep then handle now raw ep else ep
      | Current e \<Rightarrow> with_call (step now e) ep
      | Former n e \<Rightarrow> if n < length (past ep) then ep\<lparr>past := (past ep)[n := step now e (past ep ! n)]\<rparr> else ep
      | Close \<Rightarrow> close ep)"

inductive ep_reachable :: "endpoint \<Rightarrow> bool" where
  fresh: "ep_reachable (new_endpoint opt)"
| ep_stepped: "ep_reachable ep \<Longrightarrow> ep_reachable (ep_step now e ep)"

section \<open>One call at a time\<close>

definition ep_inv :: "endpoint \<Rightarrow> bool" where
  "ep_inv ep \<longleftrightarrow> (\<forall>s. call ep = Some s \<longrightarrow> call_reachable s)
     \<and> (\<forall>s \<in> set (past ep). call_reachable s \<and> state_of s = ENDED)
     \<and> length (ended_ids ep) \<le> 64 \<and> distinct (ended_ids ep)
     \<and> (\<forall>s. call ep = Some s \<longrightarrow> isOver s \<longrightarrow> callId s \<in> set (ended_ids ep))"

lemma remember_fields [simp]:
  "call (remember i ep) = call ep" "past (remember i ep) = past ep" "listening (remember i ep) = listening ep"
  "options_of (remember i ep) = options_of ep" "replies (remember i ep) = replies ep"
  by (simp_all add: remember_def Let_def)

lemma remember_ids:
  assumes "length (ended_ids ep) \<le> 64" "distinct (ended_ids ep)"
  shows "length (ended_ids (remember i ep)) \<le> 64 \<and> distinct (ended_ids (remember i ep)) \<and> i \<in> set (ended_ids (remember i ep))"
proof (cases "i \<in> set (ended_ids ep)")
  case True
  then show ?thesis using assms by (simp add: remember_def)
next
  case False
  then show ?thesis using assms
    by (cases "ended_ids ep") (auto simp: remember_def Let_def)
qed

lemma step_reachable: "call_reachable s \<Longrightarrow> call_reachable (step now e s)"
  by (rule call_reachable.stepped)

lemma receive_reachable: "call_reachable s \<Longrightarrow> call_reachable (receive now raw s)"
  using call_reachable.stepped [of s now "Receive raw"] by (simp add: step_def)

lemma hangup_reachable: "call_reachable s \<Longrightarrow> call_reachable (hangup s)"
  using call_reachable.stepped [of s now Hang_up for now] by (simp add: step_def)

lemma over_stays: "call_reachable s \<Longrightarrow> isOver s \<Longrightarrow> isOver (step now e s)"
  using still_step [OF call_reachable_inv, of s now e] call_reachable_inv [of s] by (simp add: isOver_def still_def ended_def inv_defs)

lemma ep_inv_with_call:
  assumes I: "ep_inv ep" and r: "\<And>s. call_reachable s \<Longrightarrow> call_reachable (f s)"
    and o1: "\<And>s. call_reachable s \<Longrightarrow> isOver s \<Longrightarrow> isOver (f s)" and i: "\<And>s. callId (f s) = callId s"
  shows "ep_inv (with_call f ep)"
proof (cases "call ep")
  case (Some s)
  have s: "call_reachable s" "isOver s \<Longrightarrow> callId s \<in> set (ended_ids ep)" using I Some by (simp_all add: ep_inv_def)
  let ?e = "ep\<lparr>call := Some (f s)\<rparr>"
  have "length (ended_ids ?e) \<le> 64" "distinct (ended_ids ?e)" using I by (simp_all add: ep_inv_def)
  then have R: "length (ended_ids (remember (callId (f s)) ?e)) \<le> 64 \<and> distinct (ended_ids (remember (callId (f s)) ?e))
      \<and> callId (f s) \<in> set (ended_ids (remember (callId (f s)) ?e))" by (rule remember_ids)
  have "ep_inv (remember (callId (f s)) ?e)"
    using I R r [OF s(1)] by (simp add: ep_inv_def)
  moreover have "ep_inv ?e" if "isOver s \<or> \<not> isOver (f s)"
    using I that s r [OF s(1)] i [of s] by (auto simp: ep_inv_def)
  ultimately show ?thesis by (auto simp: with_call_def Some Let_def)
qed (use I in \<open>simp add: with_call_def\<close>)

lemma ep_inv_replace:
  assumes "ep_inv ep" "active ep = None" "call_reachable s" "\<not> isOver s"
  shows "ep_inv (replace_call s ep)"
  using assms by (auto simp: ep_inv_def replace_call_def active_def isOver_def split: option.splits if_splits)

lemma ep_inv_reply [simp]: "ep_inv (reply i m ep) = ep_inv ep"
  by (simp add: ep_inv_def reply_def)

lemma not_over_start: "\<not> isOver (ring_in opt i v)" "\<not> isOver (ring_out opt i v)"
  using inv_ring_in [of opt i v] inv_ring_out [of opt i v]
  by (auto simp: isOver_def ring_in_def ring_out_def dial_def new_session_def updates Let_def)

lemma ep_inv_onInvite:
  assumes "ep_inv ep"
  shows "ep_inv (onInvite i v ep)"
proof -
  have "ep_inv (replace_call (ring_in (options_of ep) i v) ep)" if "active ep = None"
    using assms that not_over_start by (intro ep_inv_replace call_reachable.rung)
  then show ?thesis using assms by (simp add: onInvite_def ring_in_def Let_def)
qed

lemma ep_inv_handle:
  assumes "ep_inv ep"
  shows "ep_inv (handle now raw ep)"
proof -
  have o1: "isOver (receive now raw s)" if "call_reachable s" "isOver s" for s
    using over_stays [OF that, of now "Receive raw"] by (simp add: step_def)
  have i: "callId (receive now raw s) = callId s" for s
    using callId_step(1) [of now "Receive raw" s] by (simp add: step_def)
  have w: "ep_inv (with_call (receive now raw) ep)"
    by (rule ep_inv_with_call [OF assms]) (use receive_reachable o1 i in auto)
  show ?thesis using assms w ep_inv_onInvite [OF assms]
    by (auto simp: handle_def split: option.split message.split)
qed

lemma ep_inv_close:
  assumes "ep_inv ep"
  shows "ep_inv (close ep)"
proof -
  have o1: "isOver (hangup s)" if "isOver s" for s using that by (simp add: hangup_def)
  have i: "callId (hangup s) = callId s" for s using callId_step(1) [of now Hang_up s for now] by (simp add: step_def)
  have "ep_inv (with_call hangup ep)"
    by (rule ep_inv_with_call [OF assms]) (use hangup_reachable o1 i in auto)
  moreover have "ep_inv (ep\<lparr>listening := False\<rparr>)" if "ep_inv ep" for ep using that by (simp add: ep_inv_def)
  ultimately show ?thesis using assms by (simp add: close_def)
qed

lemma ep_inv_former:
  assumes "ep_inv ep" "n < length (past ep)"
  shows "ep_inv (ep\<lparr>past := (past ep)[n := step now e (past ep ! n)]\<rparr>)"
proof -
  have "past ep ! n \<in> set (past ep)" using assms(2) by simp
  then have "call_reachable (past ep ! n)" "isOver (past ep ! n)" using assms(1) by (auto simp: ep_inv_def isOver_def)
  then have "call_reachable (step now e (past ep ! n))" "state_of (step now e (past ep ! n)) = ENDED"
    using step_reachable over_stays by (auto simp: isOver_def)
  then show ?thesis using assms by (auto simp: ep_inv_def dest!: set_update_subset_insert [THEN subsetD])
qed

lemma ep_inv_step:
  assumes I: "ep_inv ep"
  shows "ep_inv (ep_step now e ep)"
proof (cases e)
  case (Dial bs v)
  have "ep_inv (replace_call (ring_out (options_of ep) (newCallId bs) v) ep)" if "active ep = None"
    using I that not_over_start by (intro ep_inv_replace call_reachable.dialled)
  then show ?thesis using I Dial by (simp add: ep_step_def dial_out_def ring_out_def)
next
  case (Current x)
  have "ep_inv (with_call (step now x) ep)"
    by (rule ep_inv_with_call [OF I]) (use step_reachable over_stays in auto)
  then show ?thesis using Current by (simp add: ep_step_def)
qed (use I ep_inv_handle [OF I] ep_inv_close [OF I] ep_inv_former [OF I] in \<open>simp_all add: ep_step_def\<close>)

lemma ep_reachable_inv: "ep_reachable ep \<Longrightarrow> ep_inv ep"
proof (induction rule: ep_reachable.induct)
  case (fresh opt)
  then show ?case by (simp add: ep_inv_def new_endpoint_def)
qed (rule ep_inv_step)

text \<open>
  C20: an endpoint holds at most one call: every session it ever had but the current one is over and
  holds neither microphone nor connection, the last 64 ended calls are remembered, each once, and
  the current call is among them as soon as it is over.
\<close>

theorem one_call_at_a_time:
  assumes "ep_reachable ep"
  shows "(\<forall>s \<in> set (past ep). state_of s = ENDED \<and> localStream s = None \<and> pc s = None)
    \<and> length (ended_ids ep) \<le> 64 \<and> distinct (ended_ids ep)
    \<and> (\<forall>s. call ep = Some s \<longrightarrow> active ep = None \<longrightarrow> callId s \<in> set (ended_ids ep))"
proof -
  have I: "ep_inv ep" by (rule ep_reachable_inv [OF assms])
  have e: "localStream s = None \<and> pc s = None" if "call_reachable s" "state_of s = ENDED" for s
    using call_reachable_inv [OF that(1)] that(2) by (simp add: inv_defs)
  from I have "\<forall>s \<in> set (past ep). state_of s = ENDED \<and> localStream s = None \<and> pc s = None"
    using e by (simp add: ep_inv_def)
  then show ?thesis using I by (auto simp: ep_inv_def active_def split: if_splits)
qed

text \<open>
  An invitation never disturbs a call. During a call it only draws an answer: ringing for the call
  itself, busy for another one, nothing for a call that is over and remembered; with no call under way a
  remembered call does not ring again, and any other one does, in a new session that has opened nothing.
\<close>

theorem invitation_response:
  assumes "parseMessage raw = Some (i, MInvite v)"
  shows "handle now raw ep =
    (if active ep \<noteq> None then
       (if map_option callId (call ep) = Some i then reply i MRinging ep
        else if i \<in> set (ended_ids ep) then ep else reply i MBusy ep)
     else if map_option callId (call ep) = Some i \<or> i \<in> set (ended_ids ep) then ep
     else reply i MRinging (replace_call (ring_in (options_of ep) i v) ep))"
  using assms by (auto simp: handle_def onInvite_def ring_in_def active_def Let_def split: option.splits)

end
