(* ===== verification/Call_Samples.thy ===== *)
theory Call_Samples
  imports Call_Endpoint
begin

text \<open>
  Calls played through: the theorems about sessions and endpoints at concrete runs, and four runs in
  which a session does not do what its comments and tests expect.
\<close>

section \<open>Runs\<close>

definition sample_options :: options where
  "sample_options = \<lparr>o_timing = DEFAULT_TIMING, o_forceRelay = False, o_peerServers = False, o_allowed = [], o_lower = id\<rparr>"

definition sample_id :: jstring where "sample_id = js ''abcdefgh''"

definition caller :: session where "caller = ring_out sample_options sample_id False"
definition callee :: session where "callee = ring_in sample_options sample_id False"

lemma steps_reachable: "call_reachable s \<Longrightarrow> call_reachable (steps es s)"
proof (induction es arbitrary: s)
  case (Cons x es)
  then show ?case by (cases x) (simp add: call_reachable.stepped)
qed simp

lemma caller_reachable: "call_reachable (steps es caller)"
  unfolding caller_def by (intro steps_reachable call_reachable.dialled)

lemma callee_reachable: "call_reachable (steps es callee)"
  unfolding callee_def by (intro steps_reachable call_reachable.rung)

text \<open>The caller up to the wait for the servers of the other side, and up to its offer; the called side up to its answer.\<close>

definition to_servers :: "(int \<times> event) list" where
  "to_servers = [(1, Receive (wire sample_id MRinging)), (2, Receive (wire sample_id (MAccept False))), (3, Start True),
     (4, Resume True Stream), (5, Resume True (Servers [] True)), (6, Resume True Fine)]"

definition to_offer :: "(int \<times> event) list" where
  "to_offer = to_servers @ [(7, Resume True Fine), (8, Resume True (Sdp (js ''v=0''))), (9, Resume True (Sdp (js ''v=0''))),
     (10, Resume True Fine)]"

definition to_answer :: "(int \<times> event) list" where
  "to_answer = [(1, Accept), (2, Start True), (3, Resume True Stream), (4, Resume True (Servers [] True)), (5, Resume True Fine),
     (6, Receive (wire sample_id (MOffer 0 (js ''v=0'') JUndef))), (7, Start True), (8, Resume True Fine), (9, Resume True Fine),
     (10, Resume True (Sdp (js ''v=1''))), (11, Resume True (Sdp (js ''v=1'')))]"

section \<open>Witnesses\<close>

theorem silent_after_the_end_witness:
  "state_of (step 9 (Fire TConnect) (steps (to_offer @ [(9, Hang_up)]) caller)) = ENDED"
proof -
  have "state_of (steps (to_offer @ [(9, Hang_up)]) caller) = ENDED" by code_simp
  from silent_after_the_end [OF caller_reachable this, of 9 "Fire TConnect"] show ?thesis by (rule conjunct1)
qed

theorem deadline_ends_the_call_witness: "state_of (fire 9 TRing caller) = ENDED"
proof -
  have "deadline (state_of (steps [] caller)) = Some TRing" by code_simp
  from deadline_ends_the_call [OF caller_reachable this, of 9] show ?thesis by auto
qed


theorem only_the_caller_offers_witness:
  "answers (trace (steps to_answer callee)) = [0] \<and> role_of (steps to_answer callee) = Callee"
proof -
  have a: "answers (trace (steps to_answer callee)) = [0]" by code_simp
  then show ?thesis using only_the_caller_offers [OF callee_reachable, of to_answer] by simp
qed

definition sample_endpoint :: endpoint where
  "sample_endpoint = ep_step 1 (Arrive (wire sample_id (MInvite False))) (new_endpoint sample_options)"

theorem one_call_at_a_time_witness: "length (ended_ids sample_endpoint) \<le> 64"
proof -
  have "ep_reachable sample_endpoint" unfolding sample_endpoint_def by (intro ep_stepped fresh)
  then show ?thesis using one_call_at_a_time by blast
qed

theorem invitation_response_witness:
  "active (handle 2 (wire (js ''hgfedcba'') (MInvite True)) sample_endpoint) \<noteq> None
    \<and> replies (handle 2 (wire (js ''hgfedcba'') (MInvite True)) sample_endpoint)
      = (js ''hgfedcba'', MBusy) # replies sample_endpoint"
proof -
  have p: "parseMessage (wire (js ''hgfedcba'') (MInvite True)) = Some (js ''hgfedcba'', MInvite True)" by code_simp
  have a: "\<not> Option.is_none (active sample_endpoint) \<and> map_option callId (call sample_endpoint) \<noteq> Some (js ''hgfedcba'')
    \<and> js ''hgfedcba'' \<notin> set (ended_ids sample_endpoint)" by code_simp
  then have h: "handle 2 (wire (js ''hgfedcba'') (MInvite True)) sample_endpoint = reply (js ''hgfedcba'') MBusy sample_endpoint"
    by (auto simp: invitation_response [OF p] Option.is_none_def simp del: js_Cons)
  show ?thesis unfolding h using a by (simp add: reply_def active_def Option.is_none_def)
qed

section \<open>Runs that go wrong\<close>

text \<open>
  Hanging up while the offer waits for the servers of the other side leaves a timer of the
  ended call armed: the job goes on after the end and sets the timer of the first connection.
\<close>

theorem hangup_leaves_a_timer:
  assumes "running s = Some (KPeer FirstOffer b)" and "state_of s \<noteq> ENDED"
  shows "\<exists>t. timers (steps [(t1, Hang_up), (t2, Resume True r), (t3, Resume True q)] s) TConnect = Some t \<and> armed t
    \<and> state_of (steps [(t1, Hang_up), (t2, Resume True r), (t3, Resume True q)] s) = ENDED"
  using assms by (simp add: step_def hangup_def isOver_def resume_def got_peer_servers_def offered_def after_def)

theorem hangup_leaves_a_timer_witness:
  "\<exists>t. timers (steps [(7, Hang_up), (8, Resume True Fine), (9, Resume True Fine)] (steps to_servers caller)) TConnect = Some t
    \<and> armed t"
proof -
  have "running (steps to_servers caller) = Some (KPeer FirstOffer False) \<and> state_of (steps to_servers caller) \<noteq> ENDED"
    by code_simp
  then show ?thesis using hangup_leaves_a_timer [of "steps to_servers caller" False 7 8 Fine 9 Fine] by blast
qed

text \<open>
  A session muted before its microphone opens reports that it is muted and transmits sound: the
  tracks that arrive are enabled and nobody looks at the flag.
\<close>

theorem muted_too_early_is_not_muted:
  assumes "running s = Some (KMedia k)" and "state_of s \<noteq> ENDED"
  shows "muted (steps [(t1, Mute True), (t2, Resume True Stream)] s)
    \<and> map_option audio_enabled (localStream (steps [(t1, Mute True), (t2, Resume True Stream)] s)) = Some True"
  using assms by (simp add: step_def setMuted_def emit_def put_def resume_def got_media_def isOver_def Let_def)

theorem muted_too_early_is_not_muted_witness:
  "muted (steps [(3, Mute True), (4, Resume True Stream)] (steps (take 2 to_answer) callee))
    \<and> map_option audio_enabled (localStream (steps [(3, Mute True), (4, Resume True Stream)] (steps (take 2 to_answer) callee)))
      = Some True"
proof (rule muted_too_early_is_not_muted)
  show "running (steps (take 2 to_answer) callee) = Some (KMedia Accepting)" by code_simp
  show "state_of (steps (take 2 to_answer) callee) \<noteq> ENDED" by code_simp
qed

definition slow_connect :: "(int \<times> event) list" where
  "slow_connect = to_offer @ [(12011, Fire TConnect), (20000, Fire TRestart), (30000, Start True), (30001, Resume True (Servers [] True)),
     (30002, Resume True Fine), (30003, Resume True Fine), (30004, Resume True (Sdp (js ''v=2''))), (30005, Resume True (Sdp (js ''v=2'')))]"

text \<open>
  The first restart after a first connection that took too long still offers every route, not
  only the relay.
\<close>

theorem slow_connect_restarts_on_all_routes:
  "state_of (steps slow_connect caller) = RECONNECTING \<and> Configure All [] \<in> set (trace (steps slow_connect caller))
    \<and> \<not> relayOnly (steps slow_connect caller) \<and> offers (trace (steps slow_connect caller)) = [1, 0]"
  by code_simp

definition accepted_alone :: "(int \<times> event) list" where
  "accepted_alone = take 5 to_answer @ [(12005, Fire TConnect), (15005, Fire TRestart), (18005, Fire TRestart)]"

definition caller_waits :: "(int \<times> event) list" where
  "caller_waits = [(1, Receive (wire sample_id MRinging)), (12006, Receive (wire sample_id (MRestart 0))),
     (15006, Receive (wire sample_id (MRestart 0))), (18006, Receive (wire sample_id (MRestart 0)))]"

definition sent :: "out list \<Rightarrow> json message list" where
  "sent t = List.map_filter (\<lambda>e. case e of Send m \<Rightarrow> Some m | _ \<Rightarrow> None) t"

text \<open>
  A lost acceptance is not repaired: the called side accepts, the message is lost, and all it
  sends from then on are requests to restart, which the caller, who has no connection yet, ignores until
  its ringing times out.
\<close>

theorem lost_acceptance_is_not_repeated:
  "sent (trace (steps accepted_alone callee)) = [MRestart 0, MRestart 0, MRestart 0, MAccept False]
    \<and> state_of (steps caller_waits caller) = RINGING_OUT \<and> timers (steps caller_waits caller) TInvite = None
    \<and> endReason (steps (caller_waits @ [(45000, Fire TRing)]) caller) = Some NoAnswer"
  by (intro conjI) (code_simp, code_simp, code_simp, code_simp)

end
