(* ===== verification/RpsLive.thy ===== *)
theory RpsLive
  imports Call_Protocol
begin

text \<open>
  Rock, paper, scissors between two phones, \<open>rpslive.js\<close>: every round is a commitment and a
  reveal. SHA-256 of a text, in hex, is the parameter \<open>sha\<close>; the salt of a round is an argument
  of \<open>pick\<close>. \<open>queue\<close> runs the calls one after the other, so each is one step.
\<close>

section \<open>The rules\<close>

definition WIN :: nat where "WIN = 5"
definition HANDS :: nat where "HANDS = 3"

definition isHand :: "json \<Rightarrow> nat option" where
  "isHand h = (if h = JInt 0 then Some 0 else if h = JInt 1 then Some 1 else if h = JInt 2 then Some 2 else None)"

definition lower_hex :: "nat \<Rightarrow> bool" where
  "lower_hex c \<longleftrightarrow> 48 \<le> c \<and> c \<le> 57 \<or> 97 \<le> c \<and> c \<le> 102"

definition HEX64 :: "jstring \<Rightarrow> bool" where "HEX64 s \<longleftrightarrow> length s = 64 \<and> list_all lower_hex s"
definition HEX32 :: "jstring \<Rightarrow> bool" where "HEX32 s \<longleftrightarrow> length s = 32 \<and> list_all lower_hex s"

definition seal :: "(jstring \<Rightarrow> jstring) \<Rightarrow> jstring \<Rightarrow> jstring \<Rightarrow> nat \<Rightarrow> nat \<Rightarrow> jstring \<Rightarrow> jstring" where
  "seal sha channel game n h s =
     sha (js ''rps-live-v1'' @ [124] @ channel @ [124] @ game @ [124] @ digits n @ [124] @ digits h @ [124] @ s)"

definition outcome :: "nat \<Rightarrow> nat \<Rightarrow> int" where
  "outcome x y = (if x = y then 0 else if (x + 2) mod HANDS = y then 1 else -1)"

definition over :: "nat \<times> nat \<Rightarrow> bool" where
  "over p \<longleftrightarrow> fst p \<ge> WIN \<or> snd p \<ge> WIN"

section \<open>One phone\<close>

record own_hand =
  hand :: nat
  salt :: jstring
  own_seal :: jstring

record match =
  channel :: jstring
  game :: jstring
  round :: nat
  score :: "nat \<times> nat"
  mine :: "own_hand option"
  theirs :: "jstring option"
  revealed :: bool
  finished :: bool
  cheat :: bool

definition new_match :: "jstring \<Rightarrow> jstring \<Rightarrow> match" where
  "new_match c g = \<lparr>channel = c, game = g, round = 0, score = (0, 0), mine = None, theirs = None,
     revealed = False, finished = False, cheat = False\<rparr>"

definition commit_msg :: "nat \<Rightarrow> jstring \<Rightarrow> json" where
  "commit_msg n h = jobj [(''t'', JStr (js ''c'')), (''n'', JInt (int n)), (''h'', JStr h)]"

definition reveal_msg :: "nat \<Rightarrow> nat \<Rightarrow> jstring \<Rightarrow> json" where
  "reveal_msg n h s = jobj [(''t'', JStr (js ''r'')), (''n'', JInt (int n)), (''h'', JInt (int h)), (''s'', JStr s)]"

text \<open>\<open>reveal\<close>: what is added to the messages sent.\<close>

definition reveal :: "match \<Rightarrow> match \<times> json list" where
  "reveal st = (case (mine st, theirs st) of
     (Some m, Some t) \<Rightarrow> if revealed st then (st, [])
        else (st\<lparr>revealed := True\<rparr>, [reveal_msg (round st) (hand m) (salt m)])
   | _ \<Rightarrow> (st, []))"

definition pick :: "(jstring \<Rightarrow> jstring) \<Rightarrow> nat \<Rightarrow> jstring \<Rightarrow> match \<Rightarrow> match \<times> json list" where
  "pick sha h s st =
     (if finished st \<or> mine st \<noteq> None \<or> h > 2 then (st, [])
      else let c = seal sha (channel st) (game st) (round st) h s;
               (st', out) = reveal (st\<lparr>mine := Some \<lparr>hand = h, salt = s, own_seal = c\<rparr>\<rparr>)
           in (st', commit_msg (round st) c # out))"

record round_result =
  x_hand :: nat
  y_hand :: nat
  r_outcome :: int
  r_round :: nat
  r_score :: "nat \<times> nat"
  r_over :: bool

definition add_outcome :: "int \<Rightarrow> nat \<times> nat \<Rightarrow> nat \<times> nat" where
  "add_outcome out p = (if out > 0 then (fst p + 1, snd p) else if out < 0 then (fst p, snd p + 1) else p)"

definition result :: "nat \<Rightarrow> match \<Rightarrow> match \<times> round_result option" where
  "result y st = (case mine st of None \<Rightarrow> (st, None) | Some m \<Rightarrow>
     let d = outcome (hand m) y; p = add_outcome d (score st)
     in (st\<lparr>score := p, round := round st + 1, mine := None, theirs := None, revealed := False, finished := over p\<rparr>,
         Some \<lparr>x_hand = hand m, y_hand = y, r_outcome = d, r_round = round st, r_score = p, r_over = over p\<rparr>))"

text \<open>What a call of \<open>receive\<close> reports beside the messages it sends.\<close>

datatype report = Plain | TheyPicked | Cheated | Counted round_result

definition receive :: "(jstring \<Rightarrow> jstring) \<Rightarrow> json \<Rightarrow> match \<Rightarrow> match \<times> json list \<times> report" where
  "receive sha m st =
     (if finished st \<or> \<not> truthy m \<or> field m ''n'' \<noteq> JInt (int (round st)) then (st, [], Plain)
      else if field m ''t'' = JStr (js ''c'') then
        (case as_string (field m ''h'') of
           None \<Rightarrow> (st, [], Plain)
         | Some h \<Rightarrow> if theirs st \<noteq> None \<or> \<not> HEX64 h then (st, [], Plain)
             else let (st', out) = reveal (st\<lparr>theirs := Some h\<rparr>) in (st', out, TheyPicked))
      else if field m ''t'' = JStr (js ''r'') then
        (if theirs st = None \<or> \<not> revealed st then (st, [], Plain)
         else case (isHand (field m ''h''), as_string (field m ''s'')) of
           (Some h, Some s) \<Rightarrow>
             if HEX32 s \<and> Some (seal sha (channel st) (game st) (round st) h s) = theirs st then
               (let (st', r) = result h st in (st', [], case r of Some r \<Rightarrow> Counted r | None \<Rightarrow> Plain))
             else (st\<lparr>finished := True, cheat := True\<rparr>, [], Cheated)
         | _ \<Rightarrow> (st\<lparr>finished := True, cheat := True\<rparr>, [], Cheated))
      else (st, [], Plain))"

end
