(* ===== verification/RpsLive_Correct.thy ===== *)
theory RpsLive_Correct
  imports RpsLive
begin

text \<open>
  What the commit and reveal protocol of \<open>rpslive.js\<close> gives: against any other side, a hand
  counts only when its seal came before the own hand was shown; between two phones that follow the
  protocol nobody is ever taken for a cheat and both keep the same score.
\<close>

section \<open>Against any other side\<close>

datatype event = Sent json | Got json | Round_counted round_result

definition counted :: "report \<Rightarrow> event list" where
  "counted rep = (case rep of Counted r \<Rightarrow> [Round_counted r] | _ \<Rightarrow> [])"

text \<open>All a phone can see: its own picks and any messages at all.\<close>

inductive history :: "(jstring \<Rightarrow> jstring) \<Rightarrow> jstring \<Rightarrow> jstring \<Rightarrow> event list \<Rightarrow> match \<Rightarrow> bool" for sha c g where
  start: "history sha c g [] (new_match c g)"
| picks: "history sha c g es st \<Longrightarrow> pick sha h s st = (st', out) \<Longrightarrow> history sha c g (es @ map Sent out) st'"
| receives: "history sha c g es st \<Longrightarrow> receive sha m st = (st', out, rep) \<Longrightarrow>
    history sha c g (es @ Got m # map Sent out @ counted rep) st'"

definition commitment :: "json \<Rightarrow> nat \<Rightarrow> jstring \<Rightarrow> bool" where
  "commitment m n t \<longleftrightarrow> field m ''t'' = JStr (js ''c'') \<and> field m ''n'' = JInt (int n) \<and> field m ''h'' = JStr t"

definition shown_after :: "event list \<Rightarrow> nat \<Rightarrow> jstring \<Rightarrow> nat \<Rightarrow> jstring \<Rightarrow> bool" where
  "shown_after es n t h s \<longleftrightarrow> (\<exists>m es1 es2 es3. es = es1 @ Got m # es2 @ Sent (reveal_msg n h s) # es3 \<and> commitment m n t)"

lemma shown_after_append: "shown_after es n t h s \<Longrightarrow> shown_after (es @ fs) n t h s"
  unfolding shown_after_def by (metis append.assoc append_Cons)

lemma shown_after_last:
  assumes "Got m \<in> set es" "commitment m n t"
  shows "shown_after (es @ Sent (reveal_msg n h s) # fs) n t h s"
proof -
  obtain es1 es2 where "es = es1 @ Got m # es2" using assms(1) by (meson split_list)
  then show ?thesis unfolding shown_after_def using assms(2)
    by (intro exI [of _ m] exI [of _ es1] exI [of _ es2] exI [of _ fs]) simp
qed

lemma isHand_Some: "isHand v = Some h \<longleftrightarrow> v = JInt (int h) \<and> h < 3"
  by (auto simp: isHand_def split: if_splits)

text \<open>What one message can do.\<close>

lemma receive_cases:
  assumes "receive sha m st = (st', out, rep)"
  obtains (ignore) "st' = st" "out = []" "rep = Plain"
  | (bad) "st' = st\<lparr>finished := True, cheat := True\<rparr>" "out = []" "rep = Cheated"
  | (seal) t where "commitment m (round st) t" "theirs st = None" "HEX64 t" "\<not> finished st"
      "reveal (st\<lparr>theirs := Some t\<rparr>) = (st', out)" "rep = TheyPicked"
  | (count) h s rr where "revealed st" "h < 3" "theirs st = Some (seal sha (channel st) (game st) (round st) h s)"
      "\<not> finished st" "m \<noteq> JUndef" "result h st = (st', rr)" "out = []"
      "rep = (case rr of Some r \<Rightarrow> Counted r | None \<Rightarrow> Plain)"
proof -
  consider "finished st \<or> \<not> truthy m \<or> field m ''n'' \<noteq> JInt (int (round st))"
    | "\<not> finished st" "truthy m" "field m ''n'' = JInt (int (round st))" "field m ''t'' = JStr (js ''c'')"
    | "\<not> finished st" "truthy m" "field m ''n'' = JInt (int (round st))" "field m ''t'' = JStr (js ''r'')"
    | "\<not> finished st" "truthy m" "field m ''n'' = JInt (int (round st))" "field m ''t'' \<noteq> JStr (js ''c'')" "field m ''t'' \<noteq> JStr (js ''r'')"
    by blast
  then show thesis
  proof cases
    case 1
    with assms show thesis by (intro ignore) (auto simp: receive_def)
  next
    case 2
    show thesis
    proof (cases "as_string (field m ''h'')")
      case None
      with 2 assms show thesis by (intro ignore) (auto simp: receive_def)
    next
      case (Some t)
      show thesis
      proof (cases "theirs st \<noteq> None \<or> \<not> HEX64 t")
        case True
        with Some 2 assms show thesis by (intro ignore) (auto simp: receive_def)
      next
        case False
        with Some 2 assms show thesis
          by (intro seal [of t]) (auto simp: receive_def commitment_def split: prod.splits)
      qed
    qed
  next
    case 3
    have m: "m \<noteq> JUndef" using 3 by auto
    show thesis
    proof (cases "theirs st = None \<or> \<not> revealed st")
      case True
      with 3 assms show thesis by (intro ignore) (auto simp: receive_def)
    next
      case False
      then obtain t where t: "theirs st = Some t" "revealed st" by auto
      show thesis
      proof (cases "isHand (field m ''h'')")
        case None
        with t 3 assms show thesis by (intro bad) (auto simp: receive_def)
      next
        case (Some h)
        note h = this
        show thesis
        proof (cases "as_string (field m ''s'')")
          case None
          with h t 3 assms show thesis by (intro bad) (auto simp: receive_def)
        next
          case (Some s)
          show thesis
          proof (cases "HEX32 s \<and> seal sha (channel st) (game st) (round st) h s = t")
            case True
            moreover from h have "h < 3" by (simp add: isHand_Some)
            moreover obtain st1 rr where r: "result h st = (st1, rr)" by fastforce
            ultimately show thesis
              using Some h t 3 m assms by (intro count [of h s rr]) (auto simp: receive_def)
          next
            case False
            with Some h t 3 assms show thesis by (intro bad) (auto simp: receive_def)
          qed
        qed
      qed
    qed
  next
    case 4
    with assms show thesis by (intro ignore) (auto simp: receive_def)
  qed
qed

definition sealed :: "(jstring \<Rightarrow> jstring) \<Rightarrow> jstring \<Rightarrow> jstring \<Rightarrow> event list \<Rightarrow> match \<Rightarrow> bool" where
  "sealed sha c g es st \<longleftrightarrow> channel st = c \<and> game st = g \<and>
     (\<forall>t. theirs st = Some t \<longrightarrow> (\<exists>m. Got m \<in> set es \<and> commitment m (round st) t)) \<and>
     (revealed st \<longrightarrow> (\<exists>t m. theirs st = Some t \<and> mine st = Some m \<and>
        shown_after es (round st) t (hand m) (salt m)))"

definition fair_count :: "(jstring \<Rightarrow> jstring) \<Rightarrow> jstring \<Rightarrow> jstring \<Rightarrow> event list \<Rightarrow> round_result \<Rightarrow> bool" where
  "fair_count sha c g es r \<longleftrightarrow> (\<exists>s sx. y_hand r < 3 \<and> r_outcome r = outcome (x_hand r) (y_hand r) \<and>
     shown_after es (r_round r) (seal sha c g (r_round r) (y_hand r) s) (x_hand r) sx)"

lemma fair_count_append: "fair_count sha c g es r \<Longrightarrow> fair_count sha c g (es @ fs) r"
  unfolding fair_count_def by (blast intro: shown_after_append)

lemma sealed_pick:
  assumes "sealed sha c g es st" "pick sha h s st = (st', out)"
  shows "sealed sha c g (es @ map Sent out) st'"
proof (cases "finished st \<or> mine st \<noteq> None \<or> h > 2")
  case True
  with assms show ?thesis by (auto simp: pick_def)
next
  case False
  show ?thesis
  proof (cases "theirs st")
    case None
    with False assms show ?thesis by (auto simp: pick_def reveal_def sealed_def Let_def)
  next
    case (Some t)
    with assms(1) obtain m where "Got m \<in> set es" "commitment m (round st) t" by (auto simp: sealed_def)
    with Some False assms shown_after_last [of m "es @ [Sent (commit_msg (round st) (seal sha (channel st) (game st) (round st) h s))]" "round st" t h s "[]"]
    show ?thesis by (auto simp: pick_def reveal_def sealed_def Let_def split: if_splits)
  qed
qed

lemma sealed_receive:
  assumes "sealed sha c g es st" "receive sha m st = (st', out, rep)"
  shows "sealed sha c g (es @ Got m # map Sent out @ counted rep) st'"
    and "rep = Counted r \<Longrightarrow> fair_count sha c g (es @ [Got m]) r"
proof -
  have same: "sealed sha c g (es @ fs) st" for fs
    using assms(1) unfolding sealed_def by (auto intro: shown_after_append)
  show "sealed sha c g (es @ Got m # map Sent out @ counted rep) st'"
    using assms(2)
  proof (cases rule: receive_cases)
    case ignore then show ?thesis using same by simp
  next
    case bad then show ?thesis using same [of "Got m # counted Cheated"] by (auto simp: sealed_def)
  next
    case (seal t)
    have g: "Got m \<in> set (es @ [Got m])" by simp
    show ?thesis
      using seal same [of "[]"] shown_after_last [OF g seal(1), of _ _ "[]"]
      by (auto simp: reveal_def sealed_def counted_def split: option.splits if_splits)
  next
    case (count h s rr) then show ?thesis using same [of "[]"]
      by (auto simp: result_def sealed_def Let_def split: option.splits)
  qed
  show "fair_count sha c g (es @ [Got m]) r" if "rep = Counted r"
    using assms(2)
  proof (cases rule: receive_cases)
    case (count h s rr)
    from same [of "[Got m]"] count obtain o' where o: "mine st = Some o'" "channel st = c" "game st = g"
      "shown_after (es @ [Got m]) (round st) (seal sha c g (round st) h s) (hand o') (salt o')"
      by (auto simp: sealed_def)
    with count that show ?thesis unfolding fair_count_def
      by (intro exI [of _ s] exI [of _ "salt o'"]) (auto simp: result_def Let_def)
  qed (use that in auto)
qed

lemma history_sealed: "history sha c g es st \<Longrightarrow> sealed sha c g es st"
proof (induction rule: history.induct)
  case start then show ?case by (simp add: sealed_def new_match_def)
qed (auto intro: sealed_pick sealed_receive(1))

lemma history_fair:
  "history sha c g es st \<Longrightarrow> Round_counted r \<in> set es \<Longrightarrow> fair_count sha c g es r"
proof (induction rule: history.induct)
  case start then show ?case by simp
next
  case (picks es st h s st' out)
  then show ?case by (auto intro: fair_count_append)
next
  case (receives es st m st' out rep)
  show ?case
  proof (cases "Round_counted r \<in> set es")
    case True
    with receives.IH show ?thesis by (auto intro: fair_count_append)
  next
    case False
    with receives.prems have "rep = Counted r"
      by (auto simp: counted_def split: report.splits)
    from sealed_receive(2) [OF history_sealed [OF receives.hyps(1)] receives.hyps(2) this]
    show ?thesis using fair_count_append by fastforce
  qed
qed

text \<open>Two ways to open one seal are two texts with the same hash.\<close>

definition sealed_text :: "jstring \<Rightarrow> jstring \<Rightarrow> nat \<Rightarrow> nat \<Rightarrow> jstring \<Rightarrow> jstring" where
  "sealed_text c g n h s =
     js ''rps-live-v1'' @ [124] @ c @ [124] @ g @ [124] @ digits n @ [124] @ digits h @ [124] @ s"

lemma two_openings_are_a_collision:
  assumes "h < 3" "h' < 3" "seal sha c g n h s = seal sha c g n h' s'" "(h, s) \<noteq> (h', s')"
  shows "sealed_text c g n h s \<noteq> sealed_text c g n h' s'"
    and "sha (sealed_text c g n h s) = sha (sealed_text c g n h' s')"
  using assms by (auto simp: sealed_text_def seal_def digits.simps [of h] digits.simps [of h'])

section \<open>Two phones that follow the protocol\<close>

text \<open>Each channel delivers in order what was sent on it.\<close>

inductive phones :: "(jstring \<Rightarrow> jstring) \<Rightarrow> jstring \<Rightarrow> jstring \<Rightarrow> match \<Rightarrow> json list \<Rightarrow> match \<Rightarrow> json list \<Rightarrow> bool"
  for sha c g where
  both_new: "phones sha c g (new_match c g) [] (new_match c g) []"
| pick_a: "phones sha c g A ab B ba \<Longrightarrow> HEX32 s \<Longrightarrow> pick sha h s A = (A', out) \<Longrightarrow> phones sha c g A' (ab @ out) B ba"
| pick_b: "phones sha c g A ab B ba \<Longrightarrow> HEX32 s \<Longrightarrow> pick sha h s B = (B', out) \<Longrightarrow> phones sha c g A ab B' (ba @ out)"
| to_b: "phones sha c g A (m # ab) B ba \<Longrightarrow> receive sha m B = (B', out, rep) \<Longrightarrow> phones sha c g A ab B' (ba @ out)"
| to_a: "phones sha c g A ab B (m # ba) \<Longrightarrow> receive sha m A = (A', out, rep) \<Longrightarrow> phones sha c g A' (ab @ out) B ba"

definition swapped :: "nat \<times> nat \<Rightarrow> nat \<times> nat" where "swapped p = (snd p, fst p)"

definition own_ok :: "(jstring \<Rightarrow> jstring) \<Rightarrow> match \<Rightarrow> bool" where
  "own_ok sha A \<longleftrightarrow> (\<forall>m. mine A = Some m \<longrightarrow> hand m < 3 \<and> HEX32 (salt m) \<and> \<not> finished A \<and>
     own_seal m = seal sha (channel A) (game A) (round A) (hand m) (salt m))"

definition on_the_way :: "match \<Rightarrow> json list" where
  "on_the_way A = (case mine A of Some m \<Rightarrow> if revealed A then [reveal_msg (round A) (hand m) (salt m)] else [] | None \<Rightarrow> [])"

definition sends :: "match \<Rightarrow> match \<Rightarrow> json list \<Rightarrow> bool" where
  "sends A B ab \<longleftrightarrow> revealed A = (mine A \<noteq> None \<and> theirs A \<noteq> None) \<and>
     (case mine A of None \<Rightarrow> theirs B = None \<and> ab = []
      | Some m \<Rightarrow> theirs B = None \<and> ab = commit_msg (round A) (own_seal m) # on_the_way A
          \<or> theirs B = Some (own_seal m) \<and> ab = on_the_way A)"

definition alike :: "match \<Rightarrow> match \<Rightarrow> bool" where
  "alike A B \<longleftrightarrow> channel A = channel B \<and> game A = game B \<and> \<not> cheat A \<and> \<not> cheat B \<and>
     finished A = over (score A) \<and> finished B = over (score B)"

definition even :: "(jstring \<Rightarrow> jstring) \<Rightarrow> match \<Rightarrow> json list \<Rightarrow> match \<Rightarrow> json list \<Rightarrow> bool" where
  "even sha A ab B ba \<longleftrightarrow> alike A B \<and> own_ok sha A \<and> own_ok sha B \<and> round A = round B \<and>
     score A = swapped (score B) \<and> sends A B ab \<and> sends B A ba"

definition ahead_by :: "(jstring \<Rightarrow> jstring) \<Rightarrow> nat \<Rightarrow> jstring \<Rightarrow> own_hand \<Rightarrow> match \<Rightarrow> json list \<Rightarrow> match \<Rightarrow> json list \<Rightarrow> bool" where
  "ahead_by sha h s m A ab B ba \<longleftrightarrow> alike A B \<and> own_ok sha A \<and> own_ok sha B \<and> round A = Suc (round B) \<and>
     ba = [] \<and> theirs A = None \<and> \<not> revealed A \<and> revealed B \<and>
     mine B = Some m \<and> h < 3 \<and> HEX32 s \<and>
     theirs B = Some (seal sha (channel B) (game B) (round B) h s) \<and>
     score A = add_outcome (outcome h (hand m)) (swapped (score B)) \<and>
     ab = reveal_msg (round B) h s # (case mine A of None \<Rightarrow> [] | Some m \<Rightarrow> [commit_msg (round A) (own_seal m)])"

definition ahead :: "(jstring \<Rightarrow> jstring) \<Rightarrow> match \<Rightarrow> json list \<Rightarrow> match \<Rightarrow> json list \<Rightarrow> bool" where
  "ahead sha A ab B ba \<longleftrightarrow> (\<exists>h s m. ahead_by sha h s m A ab B ba)"

definition honest :: "(jstring \<Rightarrow> jstring) \<Rightarrow> match \<Rightarrow> json list \<Rightarrow> match \<Rightarrow> json list \<Rightarrow> bool" where
  "honest sha A ab B ba \<longleftrightarrow> even sha A ab B ba \<or> ahead sha A ab B ba \<or> ahead sha B ba A ab"

lemma honest_sym: "honest sha A ab B ba \<Longrightarrow> honest sha B ba A ab"
  unfolding honest_def even_def alike_def swapped_def by auto

lemma over_swapped [simp]: "over (swapped p) = over p" by (auto simp: over_def swapped_def)

lemma swapped_swapped [simp]: "swapped (swapped p) = p" by (simp add: swapped_def)

lemma outcome_swap:
  assumes "h < 3" "k < 3" shows "outcome h k = - outcome k h"
proof -
  have "h \<in> {0, 1, 2}" "k \<in> {0, 1, 2}" using assms by auto
  then show ?thesis by (auto simp: outcome_def HANDS_def)
qed

lemma add_outcome_swapped: "add_outcome (- d) (swapped p) = swapped (add_outcome d p)"
  by (auto simp: add_outcome_def swapped_def)

lemma receive_commit:
  assumes "HEX64 t" "\<not> finished st" "theirs st = None"
  shows "receive sha (commit_msg (round st) t) st =
    (let (st', out) = reveal (st\<lparr>theirs := Some t\<rparr>) in (st', out, TheyPicked))"
  using assms by (simp add: receive_def commit_msg_def)

lemma receive_reveal:
  assumes "theirs st = Some (seal sha (channel st) (game st) (round st) h s)" "\<not> finished st" "revealed st" "h < 3" "HEX32 s"
  shows "receive sha (reveal_msg (round st) h s) st =
    (let (st', r) = result h st in (st', [], case r of Some r \<Rightarrow> Counted r | None \<Rightarrow> Plain))"
proof -
  have "isHand (JInt (int h)) = Some h" using assms(4) by (simp only: isHand_Some)
  with assms show ?thesis by (simp add: receive_def reveal_msg_def)
qed

lemma honest_pick:
  assumes "honest sha A ab B ba" "HEX32 s" "pick sha h s A = (A', out)"
  shows "honest sha A' (ab @ out) B ba"
proof (cases "finished A \<or> mine A \<noteq> None \<or> h > 2")
  case True
  with assms show ?thesis by (auto simp: pick_def)
next
  case False
  from assms(1) consider "even sha A ab B ba" | "ahead sha A ab B ba" | "ahead sha B ba A ab"
    by (auto simp: honest_def)
  then show ?thesis
  proof cases
    case 1
    with False assms(2,3) have "even sha A' (ab @ out) B ba"
      by (auto simp: even_def alike_def own_ok_def sends_def on_the_way_def pick_def reveal_def Let_def
        split: option.splits if_splits)
    then show ?thesis by (simp add: honest_def)
  next
    case 2
    then obtain h' s' m where "ahead_by sha h' s' m A ab B ba" by (auto simp: ahead_def)
    with False assms(2,3) have "ahead_by sha h' s' m A' (ab @ out) B ba"
      by (auto simp: ahead_by_def alike_def own_ok_def pick_def reveal_def Let_def split: option.splits if_splits)
    then show ?thesis by (auto simp: honest_def ahead_def)
  next
    case 3
    with False show ?thesis by (auto simp: ahead_def ahead_by_def)
  qed
qed

lemma honest_receive:
  assumes sha: "\<And>x. HEX64 (sha x)" and inv: "honest sha A (m # ab) B ba" and rec: "receive sha m B = (B', out, rep)"
  shows "honest sha A ab B' (ba @ out)" and "rep \<noteq> Cheated"
proof -
  have hex: "HEX64 (seal sha c g n h s)" for c g n h s by (simp add: seal_def sha)
  from inv consider "even sha A (m # ab) B ba" | h s o' where "ahead_by sha h s o' A (m # ab) B ba"
    | h s o' where "ahead_by sha h s o' B ba A (m # ab)"
    by (auto simp: honest_def ahead_def)
  then have "honest sha A ab B' (ba @ out) \<and> rep \<noteq> Cheated"
  proof cases
    case 1
    then obtain o' where o': "mine A = Some o'" by (auto simp: even_def sends_def split: option.splits)
    then have live: "\<not> finished A" "hand o' < 3" "HEX32 (salt o')"
      "own_seal o' = seal sha (channel B) (game B) (round B) (hand o') (salt o')" "\<not> finished B"
      using 1 by (auto simp: even_def own_ok_def alike_def)
    show ?thesis
    proof (cases "theirs B")
      case None
      then have m: "m = commit_msg (round B) (own_seal o')" "ab = on_the_way A"
        using 1 o' by (auto simp: even_def sends_def)
      have t: "HEX64 (own_seal o')" using live hex by simp
      have rv: "reveal (B\<lparr>theirs := Some (own_seal o')\<rparr>) = (B', out)" "rep = TheyPicked"
        using receive_commit [OF t live(5) None, of sha] rec m by (auto split: prod.splits)
      have "even sha A ab B' (ba @ out)"
        using 1 o' m(2) None rv(1) unfolding even_def alike_def own_ok_def sends_def on_the_way_def reveal_def
        by (auto split: option.splits if_splits)
      moreover have "rep \<noteq> Cheated" using rv by simp
      ultimately show ?thesis by (simp add: honest_def)
    next
      case (Some t)
      then have m: "m = reveal_msg (round B) (hand o') (salt o')" "ab = []" "t = own_seal o'" "revealed A"
        using 1 o' by (auto simp: even_def sends_def on_the_way_def split: if_splits)
      from m(4) have "theirs A \<noteq> None" using 1 by (simp add: even_def sends_def)
      then obtain o'' where B: "mine B = Some o''" "theirs A = Some (own_seal o'')" "ba = on_the_way B"
        using 1 by (auto simp: even_def sends_def split: option.splits)
      then have B2: "revealed B" "ba = [reveal_msg (round B) (hand o'') (salt o'')]"
        using 1 Some by (simp_all add: even_def sends_def on_the_way_def)
      have k: "hand o'' < 3" "HEX32 (salt o'')"
        "own_seal o'' = seal sha (channel B) (game B) (round B) (hand o'') (salt o'')"
        using 1 B by (auto simp: even_def own_ok_def)
      have th: "theirs B = Some (seal sha (channel B) (game B) (round B) (hand o') (salt o'))"
        using Some m live by simp
      have r: "B' = fst (result (hand o') B)" "out = []" "rep \<noteq> Cheated"
        using receive_reveal [OF th live(5) B2(1) live(2,3)] m(1) rec by (auto split: option.splits prod.splits)
      have sc: "score B = swapped (score A)" using 1 by (simp add: even_def swapped_def)
      have d: "outcome (hand o'') (hand o') = - outcome (hand o') (hand o'')" by (rule outcome_swap [OF k(1) live(2)])
      have al: "alike A B" "round A = round B" "own_ok sha A" using 1 by (auto simp: even_def)
      have "ahead_by sha (hand o'') (salt o'') o' B' (ba @ out) A ab"
        using al o' m(2,4) B B2 k r sc live by (simp add: ahead_by_def alike_def own_ok_def result_def Let_def)
      moreover note r(3)
      ultimately show ?thesis by (auto simp: honest_def ahead_def)
    qed
  next
    case 2
    then have m: "m = reveal_msg (round B) h s" by (simp add: ahead_by_def)
    have B: "\<not> finished B" using 2 by (auto simp: ahead_by_def own_ok_def)
    have r: "B' = fst (result h B)" "out = []" "rep \<noteq> Cheated"
      using receive_reveal [of B sha h s] m rec 2 B by (auto simp: ahead_by_def split: option.splits prod.splits)
    have "hand o' < 3" using 2 by (auto simp: ahead_by_def own_ok_def)
    then have sc: "score A = swapped (add_outcome (outcome (hand o') h) (score B))"
      using 2 outcome_swap [of h "hand o'"] by (simp add: ahead_by_def add_outcome_swapped)
    have al: "alike A B" "own_ok sha A" "round A = Suc (round B)" "mine B = Some o'"
      using 2 by (simp_all add: ahead_by_def)
    have parts: "ba = []" "theirs A = None" "\<not> revealed A" "out = []"
      "ab = (case mine A of None \<Rightarrow> [] | Some m \<Rightarrow> [commit_msg (round A) (own_seal m)])"
      using 2 r by (simp_all add: ahead_by_def)
    have B': "B' = B\<lparr>score := swapped (score A), round := round A, mine := None, theirs := None,
        revealed := False, finished := over (score A)\<rparr>"
      using r(1) al sc by (simp add: result_def Let_def)
    have "even sha A ab B' (ba @ out)"
      using B' al parts by (auto simp: even_def alike_def sends_def on_the_way_def own_ok_def split: option.splits)
    with r show ?thesis by (simp add: honest_def)
  next
    case 3
    then show ?thesis by (simp add: ahead_by_def)
  qed
  then show "honest sha A ab B' (ba @ out)" and "rep \<noteq> Cheated" by auto
qed

lemma phones_honest:
  assumes sha: "\<And>x. HEX64 (sha x)" and "phones sha c g A ab B ba"
  shows "honest sha A ab B ba"
  using assms(2)
proof (induction rule: phones.induct)
  case both_new
  have "even sha (new_match c g) [] (new_match c g) []"
    by (simp add: even_def alike_def own_ok_def sends_def new_match_def swapped_def over_def WIN_def)
  then show ?case by (simp add: honest_def)
qed (auto intro: honest_pick honest_receive [OF sha] honest_sym honest_pick [OF honest_sym, THEN honest_sym]
  honest_receive(1) [OF sha honest_sym, THEN honest_sym])

section \<open>The properties\<close>

text \<open>
  C19: whatever the other side sends, a round counts a hand only if its seal had arrived before the own
  hand was shown: the log holds a commitment for the round, later the own reveal, and the hand counted
  opens exactly that commitment.
\<close>
theorem rps_hand_sealed_first:
  assumes "history sha c g es st" and "Round_counted r \<in> set es"
  shows "\<exists>m es1 es2 es3 s sx. es = es1 @ Got m # es2 @ Sent (reveal_msg (r_round r) (x_hand r) sx) # es3 \<and>
    commitment m (r_round r) (seal sha c g (r_round r) (y_hand r) s) \<and>
    y_hand r < 3 \<and> r_outcome r = outcome (x_hand r) (y_hand r)"
  using history_fair [OF assms] unfolding fair_count_def shown_after_def by blast

text \<open>
  C3: two phones that follow the protocol over channels that keep the order never take each other for a
  cheat, and whenever nothing is on the way both are in the same round with mirrored scores, agree
  whether the game is over, and not both have picked.
\<close>
theorem rps_honest_phones_agree:
  assumes "\<And>x. HEX64 (sha x)" and "phones sha c g A ab B ba"
  shows "\<not> cheat A \<and> \<not> cheat B \<and> (ab = [] \<and> ba = [] \<longrightarrow> round A = round B \<and> score A = (snd (score B), fst (score B)) \<and>
    finished A = finished B \<and> (mine A = None \<or> mine B = None))"
proof -
  have "honest sha A ab B ba" by (rule phones_honest [OF assms])
  then show ?thesis
    by (auto simp: honest_def even_def ahead_def ahead_by_def alike_def sends_def on_the_way_def swapped_def over_def
      split: option.splits if_splits)
qed

section \<open>Examples\<close>

definition zeros :: "jstring \<Rightarrow> jstring" where "zeros x = replicate 64 48"
definition salt0 :: jstring where "salt0 = replicate 32 48"
definition table :: jstring where "table = js ''lobby''"
definition left_1 :: match where "left_1 = fst (pick zeros 0 salt0 (new_match table (js ''rps'')))"
definition right_1 :: match where "right_1 = fst (pick zeros 1 salt0 (new_match table (js ''rps'')))"
definition left_2 :: match where "left_2 = fst (receive zeros (commit_msg 0 (zeros [])) left_1)"
definition right_2 :: match where "right_2 = fst (receive zeros (commit_msg 0 (zeros [])) right_1)"
definition left_3 :: match where "left_3 = fst (receive zeros (reveal_msg 0 1 salt0) left_2)"
definition right_3 :: match where "right_3 = fst (receive zeros (reveal_msg 0 0 salt0) right_2)"
definition first_round :: round_result where
  "first_round = \<lparr>x_hand = 0, y_hand = 1, r_outcome = -1, r_round = 0, r_score = (0, 1), r_over = False\<rparr>"

lemma samples:
  "pick zeros 0 salt0 (new_match table (js ''rps'')) = (left_1, [commit_msg 0 (zeros [])])"
  "pick zeros 1 salt0 (new_match table (js ''rps'')) = (right_1, [commit_msg 0 (zeros [])])"
  "receive zeros (commit_msg 0 (zeros [])) left_1 = (left_2, [reveal_msg 0 0 salt0], TheyPicked)"
  "receive zeros (commit_msg 0 (zeros [])) right_1 = (right_2, [reveal_msg 0 1 salt0], TheyPicked)"
  "receive zeros (reveal_msg 0 1 salt0) left_2 = (left_3, [], Counted first_round)"
  "receive zeros (reveal_msg 0 0 salt0) right_2 =
     (right_3, [], Counted \<lparr>x_hand = 1, y_hand = 0, r_outcome = 1, r_round = 0, r_score = (1, 0), r_over = False\<rparr>)"
  "HEX32 salt0"
  by code_simp+

lemma sample_history:
  "history zeros table (js ''rps'')
     [Sent (commit_msg 0 (zeros [])), Got (commit_msg 0 (zeros [])), Sent (reveal_msg 0 0 salt0),
      Got (reveal_msg 0 1 salt0), Round_counted first_round] left_3"
proof -
  have "history zeros table (js ''rps'') [Sent (commit_msg 0 (zeros []))] left_1"
    using history.picks [OF history.start samples(1)] by simp
  from history.receives [OF this samples(3)]
  have "history zeros table (js ''rps'')
     [Sent (commit_msg 0 (zeros [])), Got (commit_msg 0 (zeros [])), Sent (reveal_msg 0 0 salt0)] left_2"
    by (simp add: counted_def)
  from history.receives [OF this samples(5)] show ?thesis by (simp add: counted_def)
qed

lemma rps_hand_sealed_first_witness:
  "\<exists>m es1 es2 es3 s sx.
     [Sent (commit_msg 0 (zeros [])), Got (commit_msg 0 (zeros [])), Sent (reveal_msg 0 0 salt0),
      Got (reveal_msg 0 1 salt0), Round_counted first_round] =
       es1 @ Got m # es2 @ Sent (reveal_msg (r_round first_round) (x_hand first_round) sx) # es3 \<and>
     commitment m (r_round first_round) (seal zeros table (js ''rps'') (r_round first_round) (y_hand first_round) s) \<and>
     y_hand first_round < 3 \<and> r_outcome first_round = outcome (x_hand first_round) (y_hand first_round)"
  by (rule rps_hand_sealed_first [OF sample_history]) simp

lemma sample_phones: "phones zeros table (js ''rps'') left_3 [] right_3 []"
proof -
  have "phones zeros table (js ''rps'') left_1 [commit_msg 0 (zeros [])] (new_match table (js ''rps'')) []"
    using phones.pick_a [OF phones.both_new samples(7,1)] by simp
  from phones.pick_b [OF this samples(7,2)]
  have "phones zeros table (js ''rps'') left_1 [commit_msg 0 (zeros [])] right_1 [commit_msg 0 (zeros [])]" by simp
  from phones.to_b [OF this samples(4)]
  have "phones zeros table (js ''rps'') left_1 [] right_2 [commit_msg 0 (zeros []), reveal_msg 0 1 salt0]" by simp
  from phones.to_a [OF this samples(3)]
  have "phones zeros table (js ''rps'') left_2 [reveal_msg 0 0 salt0] right_2 [reveal_msg 0 1 salt0]" by simp
  from phones.to_b [OF this samples(6)]
  have "phones zeros table (js ''rps'') left_2 [] right_3 [reveal_msg 0 1 salt0]" by simp
  from phones.to_a [OF this samples(5)] show ?thesis by simp
qed

lemma rps_honest_phones_agree_witness:
  "\<not> cheat left_3 \<and> score left_3 = (0, 1) \<and> score right_3 = (1, 0)"
proof -
  have sha: "HEX64 (zeros x)" for x by (simp add: HEX64_def zeros_def lower_hex_def list_all_iff)
  have "score right_3 = (1, 0)" by code_simp
  with rps_honest_phones_agree [OF sha sample_phones] show ?thesis by auto
qed

end
