(* ===== verification/Text_Filter.thy ===== *)
theory Text_Filter
  imports Json
begin

text \<open>
  What every text from outside passes: the word filter of \<open>core.js\<close> (\<open>foldText\<close>, \<open>isClean\<close>) and
  \<open>clean\<close> and \<open>fold\<close> of \<open>quest.js\<close>. The case and normal form tables of Unicode and the two large
  regular expressions for sentences are the parameters of the record \<open>unicode\<close>, the two lists of words too.
\<close>

record unicode =
  lowercase :: "jstring \<Rightarrow> jstring"
  unmarked :: "jstring \<Rightarrow> jstring"        \<comment> \<open>NFD without the combining marks\<close>
  compatible :: "jstring \<Rightarrow> jstring"      \<comment> \<open>NFKD, letters and digits only\<close>
  hurtful :: "jstring \<Rightarrow> bool"
  contact :: "jstring \<Rightarrow> bool"
  stems :: "jstring list"
  words :: "jstring list"

section \<open>Code points and white space\<close>

text \<open>\<open>Array.from(s)\<close>: one string per code point.\<close>

fun code_points :: "jstring \<Rightarrow> jstring list" where
  "code_points [] = []"
| "code_points [c] = [[c]]"
| "code_points (c # d # cs) =
     (if high_surrogate c \<and> low_surrogate d then [c, d] # code_points cs else [c] # code_points (d # cs))"

definition white :: "nat \<Rightarrow> bool" where
  "white c \<longleftrightarrow> 9 \<le> c \<and> c \<le> 13 \<or> c = 32 \<or> c = 160 \<or> c = 0x1680 \<or> 0x2000 \<le> c \<and> c \<le> 0x200A \<or>
     c = 0x2028 \<or> c = 0x2029 \<or> c = 0x202F \<or> c = 0x205F \<or> c = 0x3000 \<or> c = 0xFEFF"

lemma dropWhile_shorter [termination_simp]: "length (dropWhile P xs) < Suc (length xs)"
  using length_dropWhile_le [of P xs] by simp

text \<open>\<open>s.replace(/\s+/g, " ")\<close>.\<close>

fun squeeze_white :: "jstring \<Rightarrow> jstring" where
  "squeeze_white [] = []"
| "squeeze_white (c # cs) =
     (if white c then 32 # squeeze_white (dropWhile white cs) else c # squeeze_white cs)"

definition trim :: "jstring \<Rightarrow> jstring" where
  "trim s = rev (dropWhile white (rev (dropWhile white s)))"

definition markup :: "nat \<Rightarrow> bool" where
  "markup c \<longleftrightarrow> c \<le> 31 \<or> c = 127 \<or> c = 60 \<or> c = 62"

section \<open>The word filter\<close>

definition leet :: "nat \<Rightarrow> nat" where
  "leet c = (if c = 48 then 111 else if c = 49 then 105 else if c = 51 then 101 else if c = 52 then 97
     else if c = 53 then 115 else if c = 55 then 116 else if c = 64 then 97 else if c = 36 then 115
     else if c = 33 then 105 else if c = 43 then 116 else c)"

text \<open>\<open>s.replace(/(.)\1+/g, "$1")\<close> on letters.\<close>

fun once_each :: "jstring \<Rightarrow> jstring" where
  "once_each [] = []"
| "once_each (c # cs) = c # once_each (dropWhile (\<lambda>d. d = c) cs)"

definition letter :: "nat \<Rightarrow> bool" where "letter c \<longleftrightarrow> 97 \<le> c \<and> c \<le> 122"

fun occurs :: "jstring \<Rightarrow> jstring \<Rightarrow> bool" where
  "occurs p [] \<longleftrightarrow> p = []"
| "occurs p (c # cs) \<longleftrightarrow> take (length p) (c # cs) = p \<or> occurs p cs"

text \<open>\<open>v.split(/[^a-z]+/)\<close>, without the empty pieces.\<close>

fun tokens :: "jstring \<Rightarrow> jstring list" where
  "tokens [] = []"
| "tokens (c # cs) = (if letter c then (c # takeWhile letter cs) # tokens (dropWhile letter cs) else tokens cs)"

definition sharp_s :: "jstring \<Rightarrow> jstring" where
  "sharp_s s = concat (map (\<lambda>c. if c = 0xDF then [115, 115] else [c]) s)"

definition foldText :: "unicode \<Rightarrow> jstring \<Rightarrow> jstring" where
  "foldText u s = sharp_s (unmarked u (lowercase u s))"

definition variant_clean :: "unicode \<Rightarrow> jstring \<Rightarrow> bool" where
  "variant_clean u v \<longleftrightarrow>
     (let joined = filter letter v; squeezed = once_each joined
      in (\<forall>stem \<in> set (stems u). \<not> occurs stem joined \<and> \<not> occurs (once_each stem) squeezed) \<and>
         (\<forall>t \<in> set (tokens v). t \<notin> set (words u)))"

definition isClean :: "unicode \<Rightarrow> jstring \<Rightarrow> bool" where
  "isClean u s \<longleftrightarrow> \<not> hurtful u (squeeze_white (lowercase u s)) \<and>
     (let base = foldText u s in variant_clean u base \<and> variant_clean u (map leet base))"

section \<open>\<open>clean\<close> and \<open>fold\<close>\<close>

definition clean :: "unicode \<Rightarrow> jstring \<Rightarrow> nat \<Rightarrow> jstring" where
  "clean u s mx =
     (let t = trim (concat (take mx (code_points (trim (squeeze_white (map (\<lambda>c. if markup c then 32 else c) s))))))
      in if t \<noteq> [] \<and> isClean u t \<and> \<not> contact u t then t else [])"

definition fold_char :: "nat \<Rightarrow> jstring" where
  "fold_char c = (if c = 0xDF then [115, 115] else if c = 0xE4 then [97] else if c = 0xF6 then [111]
     else if c = 0xFC then [117] else [c])"

definition fold_text :: "unicode \<Rightarrow> jstring \<Rightarrow> jstring" where
  "fold_text u s = compatible u (concat (map fold_char (lowercase u s)))"

section \<open>A cleaned text is accepted as it is\<close>

lemma code_points_concat [simp]: "concat (code_points s) = s"
  by (induction s rule: code_points.induct) auto

lemma code_points_take: "code_points (concat (take n (code_points s))) = take n (code_points s)"
proof (induction s arbitrary: n rule: code_points.induct)
  case (2 c) then show ?case by (cases n) auto
next
  case (3 c d cs)
  show ?case
  proof (cases n)
    case (Suc k)
    show ?thesis
    proof (cases "high_surrogate c \<and> low_surrogate d")
      case True then show ?thesis using 3(1) [OF True, of k] Suc by simp
    next
      case False
      have step: "code_points (c # t) = [c] # code_points t" if "t = [] \<or> hd t = d" for t
        using that False by (cases t) auto
      have "hd (concat (take k (code_points (d # cs)))) = d \<or> concat (take k (code_points (d # cs))) = []"
      proof (cases k)
        case (Suc j)
        have "\<exists>r rs. code_points (d # cs) = (d # r) # rs" by (cases cs) auto
        with Suc show ?thesis by auto
      qed simp
      with False 3(2) [OF False, of k] Suc step show ?thesis by auto
    qed
  qed simp
qed simp

lemma code_points_nonempty: "x \<in> set (code_points s) \<Longrightarrow> x \<noteq> []"
  by (induction s rule: code_points.induct) (auto split: if_splits)

lemma trim_idem [simp]: "trim (trim s) = trim s"
proof -
  have dd: "dropWhile white (rev (dropWhile white (rev t))) = rev (dropWhile white (rev t))"
    if "dropWhile white t = t" for t
  proof (cases t)
    case (Cons c cs)
    with that have c: "\<not> white c" by (metis dropWhile.simps(2) dropWhile_eq_self_iff hd_dropWhile list.distinct(1) list.sel(1))
    obtain us where "rev t = us @ [c]" using Cons by auto
    then have "dropWhile white (rev t) = dropWhile white us @ [c] \<or> dropWhile white (rev t) = [c]"
      using c by (simp add: dropWhile_append)
    then show ?thesis using c by auto
  qed simp
  show ?thesis unfolding trim_def by (simp add: dd)
qed

lemma trim_append: "\<exists>p q. s = p @ trim s @ q"
proof -
  have 1: "s = takeWhile white s @ dropWhile white s" by simp
  let ?t = "rev (dropWhile white s)"
  have "dropWhile white s = rev (dropWhile white ?t) @ rev (takeWhile white ?t)"
    by (metis rev_append rev_rev_ident takeWhile_dropWhile_id)
  with 1 show ?thesis unfolding trim_def by metis
qed

definition tidy :: "jstring \<Rightarrow> bool" where
  "tidy s \<longleftrightarrow> (\<forall>c \<in> set s. \<not> markup c \<and> (white c \<longrightarrow> c = 32)) \<and> (\<forall>i. Suc i < length s \<longrightarrow> \<not> (white (s ! i) \<and> white (s ! Suc i)))"

lemma tidy_infix: assumes "tidy (p @ s @ q)" shows "tidy s"
proof -
  have "\<not> (white (s ! i) \<and> white (s ! Suc i))" if "Suc i < length s" for i
  proof -
    have "Suc (length p + i) < length (p @ s @ q)" using that by simp
    then have "\<not> (white ((p @ s @ q) ! (length p + i)) \<and> white ((p @ s @ q) ! Suc (length p + i)))"
      using assms unfolding tidy_def by blast
    with that show ?thesis by (simp add: nth_append)
  qed
  with assms show ?thesis unfolding tidy_def by auto
qed

lemma tidy_Cons: "tidy (c # s) \<longleftrightarrow> \<not> markup c \<and> (white c \<longrightarrow> c = 32 \<and> (s = [] \<or> \<not> white (hd s))) \<and> tidy s"
proof
  assume t: "tidy (c # s)"
  have "white c \<Longrightarrow> s \<noteq> [] \<Longrightarrow> \<not> white (hd s)"
  proof -
    assume "white c" "s \<noteq> []"
    moreover from this t have "\<not> (white ((c # s) ! 0) \<and> white ((c # s) ! Suc 0))"
      unfolding tidy_def by (metis length_Cons length_greater_0_conv not_less_eq)
    ultimately show ?thesis by (simp add: hd_conv_nth)
  qed
  with t tidy_infix [of "[c]" s "[]"] show "\<not> markup c \<and> (white c \<longrightarrow> c = 32 \<and> (s = [] \<or> \<not> white (hd s))) \<and> tidy s"
    by (simp add: tidy_def) blast
next
  assume a: "\<not> markup c \<and> (white c \<longrightarrow> c = 32 \<and> (s = [] \<or> \<not> white (hd s))) \<and> tidy s"
  have "\<not> (white ((c # s) ! i) \<and> white ((c # s) ! Suc i))" if "Suc i < length (c # s)" for i
  proof (cases i)
    case 0
    with that a show ?thesis by (cases s) auto
  next
    case (Suc j)
    with that a show ?thesis unfolding tidy_def by simp
  qed
  moreover have "\<forall>x \<in> set (c # s). \<not> markup x \<and> (white x \<longrightarrow> x = 32)" using a by (auto simp: tidy_def)
  ultimately show "tidy (c # s)" unfolding tidy_def by blast
qed

lemma squeeze_tidy: "tidy s \<Longrightarrow> squeeze_white s = s"
proof (induction s rule: squeeze_white.induct)
  case (2 c cs)
  show ?case
  proof (cases "white c")
    case True
    with 2(3) have "c = 32" "cs = [] \<or> \<not> white (hd cs)" "tidy cs" by (auto simp: tidy_Cons)
    moreover from this have "dropWhile white cs = cs" by (cases cs) auto
    ultimately show ?thesis using 2(1) [OF True] True by simp
  next
    case False
    with 2 show ?thesis by (simp add: tidy_Cons)
  qed
qed simp

lemma hd_squeeze: "s \<noteq> [] \<Longrightarrow> white (hd (squeeze_white s)) = white (hd s)"
  by (cases s) (auto simp: white_def)

lemma squeeze_is_tidy: "\<forall>c \<in> set s. \<not> markup c \<Longrightarrow> tidy (squeeze_white s)"
proof (induction s rule: squeeze_white.induct)
  case 1 show ?case by (simp add: tidy_def)
next
  case (2 c cs)
  show ?case
  proof (cases "white c")
    case True
    let ?r = "dropWhile white cs"
    have t: "tidy (squeeze_white ?r)" using 2(1) [OF True] 2(3) by (auto dest: set_dropWhileD)
    have "squeeze_white ?r = [] \<or> \<not> white (hd (squeeze_white ?r))"
    proof (cases "?r = []")
      case False
      then have "\<not> white (hd ?r)" by (rule hd_dropWhile)
      with hd_squeeze [OF False] show ?thesis by simp
    qed (metis squeeze_white.simps(1))
    with t True show ?thesis by (simp add: tidy_Cons markup_def)
  next
    case False
    with 2 show ?thesis by (simp add: tidy_Cons)
  qed
qed

lemma code_points_Cons_le: "length (code_points cs) \<le> length (code_points (c # cs))"
proof (cases cs)
  case (Cons d r)
  show ?thesis
  proof (cases "high_surrogate c \<and> low_surrogate d")
    case True
    then have "\<not> high_surrogate d" by (simp add: high_surrogate_def low_surrogate_def)
    then have "length (code_points (d # r)) = Suc (length (code_points r))" by (cases r) auto
    with True Cons show ?thesis by simp
  qed (auto simp: Cons)
qed simp

lemma code_points_infix_le: "length (code_points s) \<le> length (code_points (p @ s @ q))"
proof -
  have pre: "length (code_points s) \<le> length (code_points (p @ s))" for p s :: jstring
  proof (induction p)
    case (Cons c p)
    then show ?case using code_points_Cons_le [of "p @ s" c] by simp
  qed simp
  have "length (code_points s) \<le> length (code_points (s @ q))" for q
  proof (induction s rule: code_points.induct)
    case (2 c)
    then show ?case by (cases q) auto
  qed auto
  with pre [of "s @ q" p] show ?thesis by (metis le_trans)
qed

lemma clean_idem: "clean u (clean u s mx) mx = clean u s mx"
proof (cases "clean u s mx = []")
  case True
  then show ?thesis by (simp add: clean_def trim_def)
next
  case False
  define body where "body = trim (squeeze_white (map (\<lambda>c. if markup c then 32 else c) s))"
  define t where "t = trim (concat (take mx (code_points body)))"
  have t: "clean u s mx = t" "t \<noteq> []" "isClean u t" "\<not> contact u t"
    using False by (auto simp: clean_def body_def t_def Let_def split: if_splits)
  have "tidy (squeeze_white (map (\<lambda>c. if markup c then 32 else c) s))"
    by (rule squeeze_is_tidy) (auto simp: markup_def)
  then have "tidy body" unfolding body_def by (metis tidy_infix trim_append)
  moreover have "body = concat (take mx (code_points body)) @ concat (drop mx (code_points body))"
    by (metis append_take_drop_id code_points_concat concat_append)
  ultimately have cut: "tidy (concat (take mx (code_points body)))" by (metis append_Nil tidy_infix)
  then have td: "tidy t" unfolding t_def by (metis tidy_infix trim_append)
  have m: "map (\<lambda>c. if markup c then 32 else c) t = t"
    by (rule map_idI) (use td in \<open>auto simp: tidy_def\<close>)
  have tt: "trim t = t" by (simp add: t_def)
  obtain p q where pq: "concat (take mx (code_points body)) = p @ t @ q" using trim_append unfolding t_def by blast
  have "length (code_points t) \<le> length (code_points (concat (take mx (code_points body))))"
    unfolding pq by (rule code_points_infix_le)
  then have "length (code_points t) \<le> mx" by (simp add: code_points_take)
  then have "concat (take mx (code_points t)) = t" by simp
  with t m tt td show ?thesis by (simp add: clean_def squeeze_tidy Let_def)
qed

end
