(* ===== verification/Json_Text.thy ===== *)
theory Json_Text
  imports Json
begin

text \<open>
  \<open>JSON.stringify\<close> for the values the links carry: arrays, strings and whole numbers. Control characters, quotes,
  backslashes and lone surrogates are escaped, so the text is always well-formed UTF-16.
\<close>

definition hex_digit :: "nat \<Rightarrow> nat" where
  "hex_digit d = (if d < 10 then 48 + d else 87 + d)"

definition hex4 :: "nat \<Rightarrow> jstring" where
  "hex4 c = [92, 117, hex_digit (c div 4096 mod 16), hex_digit (c div 256 mod 16), hex_digit (c div 16 mod 16), hex_digit (c mod 16)]"

definition surrogate :: "nat \<Rightarrow> bool" where
  "surrogate c \<longleftrightarrow> 0xD800 \<le> c \<and> c < 0xE000"

definition escape :: "nat \<Rightarrow> jstring" where
  "escape c = (if c = 34 then [92, 34] else if c = 92 then [92, 92] else if c = 8 then [92, 98] else if c = 9 then [92, 116]
     else if c = 10 then [92, 110] else if c = 12 then [92, 102] else if c = 13 then [92, 114]
     else if c < 32 \<or> surrogate c then hex4 c else [c])"

fun escape_all :: "jstring \<Rightarrow> jstring" where
  "escape_all [] = []"
| "escape_all [c] = escape c"
| "escape_all (c # d # cs) =
     (if high_surrogate c \<and> low_surrogate d then c # d # escape_all cs else escape c @ escape_all (d # cs))"

definition quote :: "jstring \<Rightarrow> jstring" where
  "quote s = 34 # escape_all s @ [34]"

fun comma_list :: "jstring list \<Rightarrow> jstring" where
  "comma_list [] = []"
| "comma_list [x] = x"
| "comma_list (x # y # xs) = x @ 44 # comma_list (y # xs)"

definition array_text :: "jstring list \<Rightarrow> jstring" where
  "array_text xs = 91 # comma_list xs @ [93]"

definition whole_text :: "int \<Rightarrow> jstring" where
  "whole_text n = (if n < 0 then 45 # digits (nat (- n)) else digits (nat n))"

text \<open>What the links never carry (fractions, objects) is left as \<open>null\<close>.\<close>

fun stringify :: "json \<Rightarrow> jstring" where
  "stringify (JStr s) = quote s"
| "stringify (JArr xs) = array_text (map stringify xs)"
| "stringify (JBool b) = (if b then js ''true'' else js ''false'')"
| "stringify (JNum (Rat r)) = (if of_int \<lfloor>r\<rfloor> = r then whole_text \<lfloor>r\<rfloor> else js ''null'')"
| "stringify _ = js ''null''"

section \<open>The length in bytes\<close>

lemma utf8_length_append_ascii:
  "c < 0x80 \<Longrightarrow> utf8_length (s @ c # t) = utf8_length s + 1 + utf8_length t"
proof (induction s rule: utf8_length.induct)
  case 1
  then show ?case by (cases t) (auto simp: high_surrogate_def)
next
  case (2 d)
  then show ?case by (cases t) (auto simp: high_surrogate_def low_surrogate_def)
qed auto

lemma utf8_length_Cons_ascii: "c < 0x80 \<Longrightarrow> utf8_length (c # t) = 1 + utf8_length t"
  using utf8_length_append_ascii [of c "[]" t] by simp

lemma comma_list_bytes:
  "utf8_length (comma_list xs) = sum_list (map utf8_length xs) + (length xs - 1)"
  by (induction xs rule: comma_list.induct) (simp_all add: utf8_length_append_ascii)

lemma array_bytes: "utf8_length (array_text xs) = sum_list (map utf8_length xs) + (length xs - 1) + 2"
proof -
  have "utf8_length (comma_list xs @ [93]) = utf8_length (comma_list xs) + 1"
    using utf8_length_append_ascii [of 93 "comma_list xs" "[]"] by simp
  then show ?thesis by (simp add: array_text_def utf8_length_Cons_ascii comma_list_bytes)
qed

lemma digits_length: "n < 10 ^ k \<Longrightarrow> 0 < k \<Longrightarrow> length (digits n) \<le> k"
proof (induction n arbitrary: k rule: digits.induct)
  case (1 n)
  show ?case
  proof (cases "n < 10")
    case False
    then obtain j where k: "k = Suc j" "0 < j" using 1(2,3) by (cases k; cases "k - 1") auto
    then have "n div 10 < 10 ^ j" using 1(2) by (simp add: div_less_iff_less_mult)
    with 1(1) [OF False this k(2)] k False show ?thesis by (simp add: digits.simps [of n])
  qed (use 1 in \<open>simp add: digits.simps [of n]\<close>)
qed

lemma digits_bytes: "utf8_length (digits n) = length (digits n)"
proof (rule utf8_length_ascii)
  show "\<forall>c \<in> set (digits n). c < 0x80" using digits_numeric by fastforce
qed

lemma whole_bytes: "0 \<le> n \<Longrightarrow> n < 10 ^ k \<Longrightarrow> 0 < k \<Longrightarrow> utf8_length (whole_text n) \<le> k"
  using digits_length [of "nat n" k] by (simp add: whole_text_def digits_bytes nat_less_iff)

end
