(* ===== verification/Shop.thy ===== *)
theory Shop
  imports "HOL-Library.Finite_Map" "HOL-Library.List_Lexorder" "HOL-Library.Product_Lexorder" Text_Filter Json_Text
begin

text \<open>
  The list of a group that travels in a link, \<open>turns.js\<close>: the shopping list, the wish list and the tasks of a
  meeting. \<open>shopOk\<close> says which lists a link may hold, \<open>shopOpen\<close> and \<open>shopClose\<close> go to maps by folded name and
  back, \<open>shopMerge\<close> joins two lists, \<open>shopApply\<close> puts one person's changes on top. A mark is \<open>version * 3 + s\<close>.
  A text that folds to a property every object inherits (\<open>constructor\<close>) is outside the model.
\<close>

section \<open>Data\<close>

record config =
  max_items :: nat
  max_text :: nat
  max_people :: nat
  min_qty :: nat
  max_qty :: nat
  max_ver :: nat
  max_t :: nat
  max_bytes :: nat

definition SHOP :: config where
  "SHOP = \<lparr>max_items = 20, max_text = 24, max_people = 8, min_qty = 1, max_qty = 99, max_ver = 999, max_t = 999, max_bytes = 560\<rparr>"

definition WISH :: config where
  "WISH = \<lparr>max_items = 10, max_text = 32, max_people = 10, min_qty = 1, max_qty = 1, max_ver = 999, max_t = 999, max_bytes = 600\<rparr>"

definition TODO :: config where
  "TODO = \<lparr>max_items = 12, max_text = 48, max_people = 8, min_qty = 0, max_qty = 99999, max_ver = 999, max_t = 999, max_bytes = 540\<rparr>"

definition FACES :: nat where "FACES = 12"

record item =
  itext :: jstring
  itime :: nat
  iqty :: nat
  imarks :: "(nat \<times> nat) list"

type_synonym person = "jstring \<times> nat"
type_synonym shop = "person list \<times> item list"

definition shop_json :: "shop \<Rightarrow> json" where
  "shop_json v = JArr
     [JArr (map (\<lambda>(n, f). JArr [JStr n, JInt (int f)]) (fst v)),
      JArr (map (\<lambda>i. JArr [JStr (itext i), JInt (int (itime i)), JInt (int (iqty i)),
        JArr (map (\<lambda>(p, x). JArr [JInt (int p), JInt (int x)]) (imarks i))]) (snd v))]"

definition shopBytes :: "shop \<Rightarrow> nat" where
  "shopBytes v = utf8_length (stringify (shop_json v))"

section \<open>Which lists a link may hold\<close>

definition nameOk :: "unicode \<Rightarrow> jstring \<Rightarrow> bool" where
  "nameOk u v \<longleftrightarrow> fold_text u v \<noteq> [] \<and> clean u v 12 = v \<and> utf8_length v \<le> 24"

definition item_ok :: "unicode \<Rightarrow> config \<Rightarrow> nat \<Rightarrow> item \<Rightarrow> bool" where
  "item_ok u S people i \<longleftrightarrow> clean u (itext i) (max_text S) = itext i \<and> fold_text u (itext i) \<noteq> [] \<and>
     itime i \<le> max_t S \<and> min_qty S \<le> iqty i \<and> iqty i \<le> max_qty S \<and>
     list_all (\<lambda>(p, x). p < people \<and> 1 \<le> x \<and> x \<le> max_ver S * 3 + 2) (imarks i) \<and> distinct (map fst (imarks i))"

definition shopOk :: "unicode \<Rightarrow> config \<Rightarrow> shop \<Rightarrow> bool" where
  "shopOk u S v \<longleftrightarrow> length (fst v) \<le> max_people S \<and> snd v \<noteq> [] \<and> length (snd v) \<le> max_items S \<and> shopBytes v \<le> max_bytes S \<and>
     list_all (\<lambda>(n, f). nameOk u n \<and> f < FACES) (fst v) \<and> list_all (item_ok u S (length (fst v))) (snd v) \<and>
     distinct (map (\<lambda>p. fold_text u (fst p)) (fst v)) \<and> distinct (map (\<lambda>i. fold_text u (itext i)) (snd v))"

section \<open>Open and close\<close>

record entry =
  etext :: jstring
  etime :: nat
  qty :: nat
  marks :: "(jstring, nat) fmap"

record opened =
  people :: "(jstring, person) fmap"
  items :: "(jstring, entry) fmap"

definition empty_list :: opened where "empty_list = \<lparr>people = fmempty, items = fmempty\<rparr>"

definition add_mark :: "jstring \<times> nat \<Rightarrow> (jstring, nat) fmap \<Rightarrow> (jstring, nat) fmap" where
  "add_mark m ms = fmupd (fst m) (case fmlookup ms (fst m) of None \<Rightarrow> snd m | Some x \<Rightarrow> max x (snd m)) ms"

definition add_item :: "unicode \<Rightarrow> person list \<Rightarrow> item \<Rightarrow> (jstring, entry) fmap \<Rightarrow> (jstring, entry) fmap" where
  "add_item u ps i m =
     (let k = fold_text u (itext i);
          x = (case fmlookup m k of
                 None \<Rightarrow> \<lparr>etext = itext i, etime = itime i, qty = iqty i, marks = fmempty\<rparr>
               | Some x \<Rightarrow> x\<lparr>etext := (if itext i < etext x then itext i else etext x), etime := min (etime x) (itime i), qty := max (qty x) (iqty i)\<rparr>);
          ms = map (\<lambda>(p, v). (fold_text u (fst (ps ! p)), v)) (imarks i)
      in fmupd k (x\<lparr>marks := fold add_mark ms (marks x)\<rparr>) m)"

definition add_person :: "unicode \<Rightarrow> person \<Rightarrow> (jstring, person) fmap \<Rightarrow> (jstring, person) fmap" where
  "add_person u p m =
     (let k = fold_text u (fst p) in
      fmupd k (case fmlookup m k of None \<Rightarrow> p
               | Some x \<Rightarrow> (if fst p < fst x then fst p else fst x, min (snd x) (snd p))) m)"

definition shopOpen :: "unicode \<Rightarrow> shop \<Rightarrow> opened \<Rightarrow> opened" where
  "shopOpen u v o' = \<lparr>people = fold (add_person u) (fst v) (people o'), items = fold (add_item u (fst v)) (snd v) (items o')\<rparr>"

definition mark_of :: "entry \<Rightarrow> jstring \<Rightarrow> nat" where
  "mark_of x pk = (case fmlookup (marks x) pk of None \<Rightarrow> 0 | Some v \<Rightarrow> v)"

definition item_keys :: "opened \<Rightarrow> jstring list" where
  "item_keys o' = sort_key (\<lambda>k. (etime (the (fmlookup (items o') k)), k)) (sorted_list_of_fset (fmdom (items o')))"

definition used_people :: "config \<Rightarrow> opened \<Rightarrow> jstring list \<Rightarrow> jstring list" where
  "used_people S o' ks = take (max_people S)
     (filter (\<lambda>pk. list_ex (\<lambda>k. mark_of (the (fmlookup (items o') k)) pk > 0) ks) (sorted_list_of_fset (fmdom (people o'))))"

definition close_item :: "opened \<Rightarrow> jstring list \<Rightarrow> jstring \<Rightarrow> item" where
  "close_item o' used k = (let x = the (fmlookup (items o') k) in
     \<lparr>itext = etext x, itime = etime x, iqty = qty x,
      imarks = filter (\<lambda>m. snd m > 0) (map (\<lambda>i. (i, mark_of x (used ! i))) [0..<length used])\<rparr>)"

definition close_with :: "config \<Rightarrow> opened \<Rightarrow> jstring list \<Rightarrow> shop" where
  "close_with S o' ks = (let used = used_people S o' ks in
     (map (\<lambda>pk. the (fmlookup (people o') pk)) used, map (close_item o' used) ks))"

text \<open>The loop of \<open>shopClose\<close>: the last item goes until the list fits or one is left.\<close>

fun close_fit :: "config \<Rightarrow> opened \<Rightarrow> nat \<Rightarrow> jstring list \<Rightarrow> shop" where
  "close_fit S o' 0 ks = close_with S o' ks"
| "close_fit S o' (Suc n) ks = (let v = close_with S o' ks in
     if shopBytes v \<le> max_bytes S \<or> length ks \<le> 1 then v else close_fit S o' n (butlast ks))"

definition shopClose :: "config \<Rightarrow> opened \<Rightarrow> shop" where
  "shopClose S o' = (let ks = take (max_items S) (item_keys o') in close_fit S o' (length ks) ks)"

definition shopMerge :: "unicode \<Rightarrow> config \<Rightarrow> shop \<Rightarrow> shop \<Rightarrow> shop" where
  "shopMerge u S a b = shopClose S (shopOpen u b (shopOpen u a empty_list))"

section \<open>One person's changes\<close>

definition shopMark :: "unicode \<Rightarrow> shop \<Rightarrow> jstring \<Rightarrow> jstring \<Rightarrow> nat" where
  "shopMark u v name key =
     (case filter (\<lambda>i. fold_text u (fst (fst v ! i)) = fold_text u name) [0..<length (fst v)] of
        [] \<Rightarrow> 0
      | is \<Rightarrow> (case filter (\<lambda>x. fold_text u (itext x) = key) (snd v) of
          [] \<Rightarrow> 0
        | x # xs \<Rightarrow> (case filter (\<lambda>m. fst m = last is) (imarks x) of [] \<Rightarrow> 0 | m # ms \<Rightarrow> snd m)))"

record edit =
  ename :: jstring
  eface :: nat
  adds :: "(jstring \<times> nat) list"
  emarks :: "(jstring \<times> int) list"

definition add_new :: "unicode \<Rightarrow> config \<Rightarrow> jstring \<times> nat \<Rightarrow> nat \<times> opened \<Rightarrow> nat \<times> opened" where
  "add_new u S a s = (fst s + 1,
     shopOpen u ([], [\<lparr>itext = fst a, itime = min (max_t S) (fst s), iqty = snd a, imarks = []\<rparr>]) (snd s))"

definition set_mark :: "config \<Rightarrow> jstring \<Rightarrow> jstring \<Rightarrow> nat \<Rightarrow> opened \<Rightarrow> opened" where
  "set_mark S pk k x o' = (case fmlookup (items o') k of None \<Rightarrow> o'
     | Some e \<Rightarrow> o'\<lparr>items := fmupd k (e\<lparr>marks := fmupd pk x (marks e)\<rparr>) (items o')\<rparr>)"

definition put_mark :: "unicode \<Rightarrow> config \<Rightarrow> shop option \<Rightarrow> jstring \<Rightarrow> jstring \<times> int \<Rightarrow> opened \<Rightarrow> opened" where
  "put_mark u S base name m o' =
     (let k = fst m; s = snd m;
          had = (case base of None \<Rightarrow> 0 | Some b \<Rightarrow> shopMark u b name k)
      in if fmlookup (items o') k = None \<or> s < 0 \<or> s > 2 \<or> (if had > 0 then int (had mod 3) = s else s = 0) then o'
         else set_mark S (fold_text u name) k (min (max_ver S) (had div 3 + 1) * 3 + nat s) o')"

definition open_base :: "unicode \<Rightarrow> shop option \<Rightarrow> opened" where
  "open_base u base = (case base of None \<Rightarrow> empty_list | Some b \<Rightarrow> shopOpen u b empty_list)"

definition next_t :: "opened \<Rightarrow> nat" where
  "next_t o' = fold (\<lambda>k m. max m (etime (the (fmlookup (items o') k)) + 1)) (sorted_list_of_fset (fmdom (items o'))) 0"

definition shopApply :: "unicode \<Rightarrow> config \<Rightarrow> shop option \<Rightarrow> edit \<Rightarrow> shop" where
  "shopApply u S base e =
     (let o0 = open_base u base;
          o1 = snd (fold (add_new u S) (adds e) (next_t o0, o0));
          pk = fold_text u (ename e)
      in if nameOk u (ename e) then
           let o2 = (if fmlookup (people o1) pk = None
                     then o1\<lparr>people := fmupd pk (ename e, if eface e < FACES then eface e else 0) (people o1)\<rparr> else o1)
           in shopClose S (fold (put_mark u S base (ename e)) (emarks e) o2)
         else shopClose S o1)"

section \<open>Rows\<close>

record row =
  rkey :: jstring
  rtext :: jstring
  rqty :: nat
  bought :: "person list"
  bring :: "person list"

definition who_marked :: "shop \<Rightarrow> item \<Rightarrow> nat \<Rightarrow> person list" where
  "who_marked v i s = map (\<lambda>m. fst v ! fst m) (filter (\<lambda>m. snd m mod 3 = s) (imarks i))"

definition shopRows :: "unicode \<Rightarrow> shop \<Rightarrow> row list" where
  "shopRows u v = map (\<lambda>i. \<lparr>rkey = fold_text u (itext i), rtext = itext i, rqty = iqty i,
     bought = who_marked v i 2, bring = who_marked v i 1\<rparr>) (snd v)"

definition shopDone :: "unicode \<Rightarrow> shop \<Rightarrow> bool" where
  "shopDone u v \<longleftrightarrow> snd v \<noteq> [] \<and> list_all (\<lambda>r. bought r \<noteq> []) (shopRows u v)"

definition wishBare :: "shop \<Rightarrow> shop" where
  "wishBare v = ([], map (\<lambda>i. i\<lparr>iqty := 1, imarks := []\<rparr>) (snd v))"

end
