(* ===== verification/Shop_Merge.thy ===== *)
theory Shop_Merge
  imports Shop
begin

text \<open>
  Why replies may come in any order and any number of times: opening a list joins it into what is there, and the join is
  associative, commutative and idempotent. The laws are stated once for any join and shown for the parts of a list.
\<close>

section \<open>Joins\<close>

locale join_law =
  fixes join :: "'a \<Rightarrow> 'a \<Rightarrow> 'a"
  assumes assoc: "join (join x y) z = join x (join y z)"
    and comm: "join x y = join y x"
    and idem: "join x x = x"
begin

lemma left_comm: "join x (join y z) = join y (join x z)" by (metis assoc comm)
lemma left_idem: "join x (join x y) = join x y" by (metis assoc idem)
lemmas ac = assoc comm left_comm left_idem idem

end

locale join_from = join_law +
  fixes bottom :: 'a
  assumes unit: "join bottom x = x"
begin

lemma unit_right: "join x bottom = x" by (simp add: comm [of x] unit)

lemma fold_join: "fold (\<lambda>i m. join m (g i)) xs m = join m (fold (\<lambda>i m. join m (g i)) xs bottom)"
proof (induction xs arbitrary: m)
  case (Cons x xs)
  show ?case
    unfolding fold_Cons comp_apply
    by (subst Cons [of "join m (g x)"], subst Cons [of "join bottom (g x)"]) (simp add: ac unit)
qed (simp add: unit_right)

lemma fold_join_member: "x \<in> set xs \<Longrightarrow> join (fold (\<lambda>i m. join m (g i)) xs m) (g x) = fold (\<lambda>i m. join m (g i)) xs m"
proof (induction xs arbitrary: m)
  case (Cons y xs)
  show ?case
  proof (cases "x \<in> set xs")
    case False
    with Cons.prems have "x = y" by simp
    then show ?thesis by (simp add: fold_join [of g xs "join m (g y)"]) (metis assoc comm idem)
  qed (simp add: Cons.IH)
qed simp

lemma fold_join_absorb: "set xs \<subseteq> set ys \<Longrightarrow> join (fold (\<lambda>i m. join m (g i)) ys m) (fold (\<lambda>i m. join m (g i)) xs bottom) = fold (\<lambda>i m. join m (g i)) ys m"
proof (induction xs)
  case (Cons x xs)
  then have "join (fold (\<lambda>i m. join m (g i)) ys m) (g x) = fold (\<lambda>i m. join m (g i)) ys m" by (simp add: fold_join_member)
  with Cons show ?case by (simp add: unit fold_join [of g xs "g x"]) (metis assoc)
qed (simp add: unit_right)

text \<open>Order and repetition do not matter.\<close>

lemma fold_join_set:
  assumes "set xs = set ys"
  shows "fold (\<lambda>i m. join m (g i)) xs m = fold (\<lambda>i m. join m (g i)) ys m"
proof -
  let ?f = "\<lambda>xs m. fold (\<lambda>i m. join m (g i)) xs m"
  have "?f xs bottom = join (?f xs bottom) (?f ys bottom)" using fold_join_absorb [of ys xs g bottom] assms by simp
  also have "\<dots> = ?f ys bottom" using fold_join_absorb [of xs ys g bottom] assms by (simp add: comm)
  finally show ?thesis by (metis fold_join)
qed

end

section \<open>Joins of maps\<close>

definition opt_join :: "('a \<Rightarrow> 'a \<Rightarrow> 'a) \<Rightarrow> 'a option \<Rightarrow> 'a option \<Rightarrow> 'a option" where
  "opt_join f a b = (case a of None \<Rightarrow> b | Some x \<Rightarrow> (case b of None \<Rightarrow> a | Some y \<Rightarrow> Some (f x y)))"

definition map_join :: "('a \<Rightarrow> 'a \<Rightarrow> 'a) \<Rightarrow> ('k, 'a) fmap \<Rightarrow> ('k, 'a) fmap \<Rightarrow> ('k, 'a) fmap" where
  "map_join f m n = fmadd (fmadd m n) (fmmap_keys (\<lambda>k x. f x (the (fmlookup n k))) (fmrestrict_fset (fmdom n) m))"

lemma map_join_lookup [simp]: "fmlookup (map_join f m n) k = opt_join f (fmlookup m k) (fmlookup n k)"
  by (auto simp: map_join_def opt_join_def fmdom_notI fmdomI split: option.splits)

lemma join_law_map: "join_law f \<Longrightarrow> join_from (map_join f) fmempty"
  by unfold_locales
    (auto simp: opt_join_def join_law.assoc join_law.idem intro!: fmap_ext split: option.splits intro: join_law.comm)

definition entry_join :: "entry \<Rightarrow> entry \<Rightarrow> entry" where
  "entry_join x y = \<lparr>etext = min (etext x) (etext y), etime = min (etime x) (etime y), qty = max (qty x) (qty y),
     marks = map_join max (marks x) (marks y)\<rparr>"

definition person_join :: "person \<Rightarrow> person \<Rightarrow> person" where
  "person_join p q = (min (fst p) (fst q), min (snd p) (snd q))"

definition list_join :: "opened \<Rightarrow> opened \<Rightarrow> opened" where
  "list_join a b = \<lparr>people = map_join person_join (people a) (people b), items = map_join entry_join (items a) (items b)\<rparr>"

interpretation mark: join_law "max :: nat \<Rightarrow> nat \<Rightarrow> nat"
  by unfold_locales auto

interpretation marks: join_from "map_join (max :: nat \<Rightarrow> nat \<Rightarrow> nat)" fmempty
  by (rule join_law_map) (rule mark.join_law_axioms)

interpretation entry: join_law entry_join
  by unfold_locales (simp_all add: entry_join_def ac_simps marks.ac)

interpretation person: join_law person_join
  by unfold_locales (simp_all add: person_join_def ac_simps)

interpretation entries: join_from "map_join entry_join" fmempty
  by (rule join_law_map) (rule entry.join_law_axioms)

interpretation persons: join_from "map_join person_join" fmempty
  by (rule join_law_map) (rule person.join_law_axioms)

interpretation lists: join_from list_join empty_list
  by unfold_locales
    (auto simp: list_join_def empty_list_def entries.assoc persons.assoc entries.idem persons.idem entries.unit persons.unit
      intro: entries.comm persons.comm)

section \<open>Opening is joining\<close>

lemma if_less_min: "(if a < b then a else b) = min a (b :: 'a :: linorder)" by (auto simp: min_def)

definition one_mark :: "jstring \<times> nat \<Rightarrow> (jstring, nat) fmap" where
  "one_mark m = fmupd (fst m) (snd m) fmempty"

lemma add_mark_join: "add_mark m ms = map_join max ms (one_mark m)"
  by (intro fmap_ext) (auto simp: add_mark_def one_mark_def opt_join_def split: option.splits)

definition entry_of :: "unicode \<Rightarrow> person list \<Rightarrow> item \<Rightarrow> entry" where
  "entry_of u ps i = \<lparr>etext = itext i, etime = itime i, qty = iqty i,
     marks = fold add_mark (map (\<lambda>(p, v). (fold_text u (fst (ps ! p)), v)) (imarks i)) fmempty\<rparr>"

lemma fold_add_mark: "fold add_mark ms m = map_join max m (fold add_mark ms fmempty)"
proof -
  have eq: "add_mark = (\<lambda>x m. map_join max m (one_mark x))" by (simp add: fun_eq_iff add_mark_join)
  show ?thesis unfolding eq by (rule marks.fold_join)
qed

definition one_item :: "unicode \<Rightarrow> person list \<Rightarrow> item \<Rightarrow> (jstring, entry) fmap" where
  "one_item u ps i = fmupd (fold_text u (itext i)) (entry_of u ps i) fmempty"

lemma add_item_join: "add_item u ps i m = map_join entry_join m (one_item u ps i)"
proof (intro fmap_ext)
  fix k
  let ?k = "fold_text u (itext i)" and ?ms = "map (\<lambda>(p, v). (fold_text u (fst (ps ! p)), v)) (imarks i)"
  show "fmlookup (add_item u ps i m) k = fmlookup (map_join entry_join m (one_item u ps i)) k"
  proof (cases "fmlookup m ?k")
    case None
    then show ?thesis by (auto simp: add_item_def one_item_def opt_join_def Let_def entry_of_def split: option.splits)
  next
    case (Some x)
    with fold_add_mark [of ?ms "marks x"] show ?thesis
      by (cases "k = ?k"; cases x)
        (simp_all add: add_item_def one_item_def opt_join_def Let_def entry_of_def entry_join_def if_less_min min.commute split: option.splits)
  qed
qed

definition one_person :: "unicode \<Rightarrow> person \<Rightarrow> (jstring, person) fmap" where
  "one_person u p = fmupd (fold_text u (fst p)) p fmempty"

lemma add_person_join: "add_person u p m = map_join person_join m (one_person u p)"
  by (intro fmap_ext)
    (auto simp: add_person_def one_person_def opt_join_def person_join_def Let_def if_less_min min.commute split: option.splits)

text \<open>The part a list adds.\<close>

definition part :: "unicode \<Rightarrow> shop \<Rightarrow> opened" where
  "part u v = shopOpen u v empty_list"

lemma shopOpen_join: "shopOpen u v o' = list_join o' (part u v)"
proof -
  have ei: "add_item u (fst v) = (\<lambda>i m. map_join entry_join m (one_item u (fst v) i))"
    by (simp add: fun_eq_iff add_item_join)
  have ep: "add_person u = (\<lambda>p m. map_join person_join m (one_person u p))"
    by (simp add: fun_eq_iff add_person_join)
  have "items (shopOpen u v o') = map_join entry_join (items o') (items (part u v))"
    unfolding part_def shopOpen_def empty_list_def opened.simps ei by (rule entries.fold_join)
  moreover have "people (shopOpen u v o') = map_join person_join (people o') (people (part u v))"
    unfolding part_def shopOpen_def empty_list_def opened.simps ep by (rule persons.fold_join)
  ultimately show ?thesis by (simp add: list_join_def)
qed

lemma shopMerge_join: "shopMerge u S a b = shopClose S (list_join (part u a) (part u b))"
  by (simp add: shopMerge_def shopOpen_join lists.unit)

section \<open>Closing loses nothing that fits\<close>

definition canonical :: "unicode \<Rightarrow> opened \<Rightarrow> bool" where
  "canonical u o' \<longleftrightarrow>
     (\<forall>k p. fmlookup (people o') k = Some p \<longrightarrow> fold_text u (fst p) = k \<and>
        (\<exists>i x. fmlookup (items o') i = Some x \<and> fmlookup (marks x) k \<noteq> None)) \<and>
     (\<forall>k x. fmlookup (items o') k = Some x \<longrightarrow> fold_text u (etext x) = k \<and>
        (\<forall>pk v. fmlookup (marks x) pk = Some v \<longrightarrow> 0 < v \<and> fmlookup (people o') pk \<noteq> None))"

definition uncut :: "config \<Rightarrow> opened \<Rightarrow> bool" where
  "uncut S o' \<longleftrightarrow> length (item_keys o') \<le> max_items S \<and> length (sorted_list_of_fset (fmdom (people o'))) \<le> max_people S \<and>
     shopBytes (close_with S o' (item_keys o')) \<le> max_bytes S"

lemma shopClose_uncut: "uncut S o' \<Longrightarrow> shopClose S o' = close_with S o' (item_keys o')"
  by (cases "item_keys o'") (simp_all add: shopClose_def uncut_def Let_def)

lemma item_keys_set: "set (item_keys o') = fset (fmdom (items o'))" "distinct (item_keys o')"
  by (simp_all add: item_keys_def sorted_list_of_fset.rep_eq)

lemma used_people_all:
  assumes "canonical u o'" "uncut S o'"
  shows "used_people S o' (item_keys o') = sorted_list_of_fset (fmdom (people o'))"
proof -
  have "list_ex (\<lambda>k. mark_of (the (fmlookup (items o') k)) pk > 0) (item_keys o')" if "pk \<in> fset (fmdom (people o'))" for pk
  proof -
    from that obtain p where "fmlookup (people o') pk = Some p" by (metis fmdom_notI option.exhaust)
    with assms(1) obtain i x where i: "fmlookup (items o') i = Some x" "fmlookup (marks x) pk \<noteq> None"
      unfolding canonical_def by blast
    then obtain v where "fmlookup (marks x) pk = Some v" by auto
    with assms(1) i have "mark_of x pk > 0" unfolding canonical_def mark_of_def by fastforce
    with i show ?thesis unfolding list_ex_iff by (intro bexI [of _ i]) (auto simp: item_keys_set intro: fmdomI)
  qed
  then show ?thesis using assms(2) by (simp add: used_people_def uncut_def filter_id_conv)
qed

lemma fold_singletons:
  assumes "join_law f" "distinct (map key xs)"
  shows "fmlookup (fold (\<lambda>x m. map_join f m (fmupd (key x) (g x) fmempty)) xs fmempty) k = map_of (map (\<lambda>x. (key x, g x)) xs) k"
  using assms(2)
proof (induction xs)
  case (Cons x xs)
  note law = join_law_map [OF assms(1)]
  have "map_of (map (\<lambda>x. (key x, g x)) xs) (key x) = None"
    using Cons.prems by (simp add: map_of_eq_None_iff image_image)
  with Cons show ?case
    by (simp add: join_from.unit [OF law] join_from.fold_join [OF law, of _ xs "fmupd (key x) (g x) fmempty"]) (auto simp: opt_join_def split: option.splits)
qed simp

lemma map_of_keys: "distinct xs \<Longrightarrow> map_of (map (\<lambda>x. (x, g x)) xs) k = (if k \<in> set xs then Some (g k) else None)"
  by (induction xs) auto

lemma marks_of_close:
  assumes "distinct us" "\<And>pk. fmlookup ms pk \<noteq> None \<Longrightarrow> pk \<in> set us" "\<And>pk v. fmlookup ms pk = Some v \<Longrightarrow> 0 < v"
    and "\<And>j. j < length us \<Longrightarrow> fold_text u (fst (ps ! j)) = us ! j"
  shows "fold add_mark (map (\<lambda>(p, v). (fold_text u (fst (ps ! p)), v))
     (filter (\<lambda>m. snd m > 0) (map (\<lambda>j. (j, case fmlookup ms (us ! j) of None \<Rightarrow> 0 | Some v \<Rightarrow> v)) [0..<length us]))) fmempty = ms"
    (is "fold add_mark ?l fmempty = ms")
proof (rule fmap_ext)
  fix pk
  let ?val = "\<lambda>pk. case fmlookup ms pk of None \<Rightarrow> 0 | Some v \<Rightarrow> v"
  have "?l = map (\<lambda>j. (us ! j, ?val (us ! j))) (filter (\<lambda>j. ?val (us ! j) > 0) [0..<length us])"
    by (auto simp: filter_map comp_def assms(4) intro!: map_cong)
  also have "\<dots> = map (\<lambda>pk. (pk, ?val pk)) (filter (\<lambda>pk. ?val pk > 0) (map (\<lambda>j. us ! j) [0..<length us]))"
    by (simp add: filter_map comp_def)
  finally have l: "?l = map (\<lambda>pk. (pk, ?val pk)) (filter (\<lambda>pk. ?val pk > 0) us)" by (simp add: map_nth)
  have eq: "add_mark = (\<lambda>m ms. map_join max ms (fmupd (fst m) (snd m) fmempty))"
    by (simp add: fun_eq_iff add_mark_join one_mark_def)
  have d: "distinct (map fst ?l)" unfolding l by (simp add: assms(1) comp_def)
  have "fmlookup (fold add_mark ?l fmempty) pk = map_of (map (\<lambda>m. (fst m, snd m)) ?l) pk"
    unfolding eq by (rule fold_singletons [OF mark.join_law_axioms d])
  also have "\<dots> = map_of (map (\<lambda>pk. (pk, ?val pk)) (filter (\<lambda>pk. ?val pk > 0) us)) pk"
    unfolding l by (simp add: comp_def)
  also have "\<dots> = fmlookup ms pk"
    using assms(1-3) by (subst map_of_keys) (fastforce split: option.splits)+
  finally show "fmlookup (fold add_mark ?l fmempty) pk = fmlookup ms pk" .
qed

lemma part_close_with:
  assumes "canonical u o'" and used: "used_people S o' ks = sorted_list_of_fset (fmdom (people o'))"
    and ks: "set ks = fset (fmdom (items o'))" "distinct ks"
  shows "part u (close_with S o' ks) = o'"
proof -
  define us where "us = sorted_list_of_fset (fmdom (people o'))"
  have us: "set us = fset (fmdom (people o'))" "distinct us" by (simp_all add: us_def sorted_list_of_fset.rep_eq)
  define ps where "ps = map (\<lambda>pk. the (fmlookup (people o') pk)) us"
  have name: "fold_text u (fst (the (fmlookup (people o') pk))) = pk" if "pk \<in> set us" for pk
    using that assms(1) us(1) unfolding canonical_def by (fastforce simp: fmlookup_dom_iff)
  have keyt: "fold_text u (etext (the (fmlookup (items o') k))) = k" if "k \<in> set ks" for k
    using that assms(1) ks(1) unfolding canonical_def by (fastforce simp: fmlookup_dom_iff)
  have v: "close_with S o' ks = (ps, map (close_item o' us) ks)"
    by (simp add: close_with_def used us_def ps_def Let_def)
  have people: "fmlookup (people (part u (close_with S o' ks))) k = fmlookup (people o') k" for k
  proof -
    have ep: "add_person u = (\<lambda>p m. map_join person_join m (fmupd (fold_text u (fst p)) p fmempty))"
      by (simp add: fun_eq_iff add_person_join one_person_def)
    have "map (\<lambda>p. fold_text u (fst p)) ps = us" unfolding ps_def using name by (simp add: map_idI)
    then have d: "distinct (map (\<lambda>p. fold_text u (fst p)) ps)" using us by simp
    have "fmlookup (people (part u (close_with S o' ks))) k = map_of (map (\<lambda>p. (fold_text u (fst p), p)) ps) k"
      unfolding part_def shopOpen_def empty_list_def opened.simps v fst_conv ep
      by (rule fold_singletons [OF person.join_law_axioms d])
    also have "map (\<lambda>p. (fold_text u (fst p), p)) ps = map (\<lambda>pk. (pk, the (fmlookup (people o') pk))) us"
      unfolding ps_def using name by simp
    finally show ?thesis
      by (cases "fmlookup (people o') k") (simp_all add: map_of_keys [OF us(2)] us(1) fmlookup_dom_iff)
  qed
  have entry: "entry_of u ps (close_item o' us k) = the (fmlookup (items o') k)" if "k \<in> set ks" for k
  proof -
    have "k |\<in>| fmdom (items o')" using that ks(1) by simp
    then obtain x where x: "fmlookup (items o') k = Some x" by (auto simp: fmlookup_dom_iff)
    have j: "fold_text u (fst (ps ! j)) = us ! j" if "j < length us" for j
      using that name by (simp add: ps_def)
    have m: "\<And>pk. fmlookup (marks x) pk \<noteq> None \<Longrightarrow> pk \<in> set us" "\<And>pk v. fmlookup (marks x) pk = Some v \<Longrightarrow> 0 < v"
      using assms(1) x us(1) unfolding canonical_def by (auto simp: fmlookup_dom_iff)
    from marks_of_close [OF us(2) m j] show ?thesis
      by (cases x) (simp add: entry_of_def close_item_def x mark_of_def)
  qed
  have items: "fmlookup (items (part u (close_with S o' ks))) k = fmlookup (items o') k" for k
  proof -
    have ei: "add_item u ps = (\<lambda>i m. map_join entry_join m (fmupd (fold_text u (itext i)) (entry_of u ps i) fmempty))"
      by (simp add: fun_eq_iff add_item_join one_item_def)
    have t: "fold_text u (itext (close_item o' us k)) = k" if "k \<in> set ks" for k
      using keyt [OF that] by (simp add: close_item_def Let_def)
    then have "map (\<lambda>i. fold_text u (itext i)) (map (close_item o' us) ks) = ks" by (simp add: map_idI)
    then have d: "distinct (map (\<lambda>i. fold_text u (itext i)) (map (close_item o' us) ks))" using ks by simp
    have "fmlookup (items (part u (close_with S o' ks))) k =
        map_of (map (\<lambda>i. (fold_text u (itext i), entry_of u ps i)) (map (close_item o' us) ks)) k"
      unfolding part_def shopOpen_def empty_list_def opened.simps v fst_conv snd_conv ei
      by (rule fold_singletons [OF entry.join_law_axioms d])
    also have "map (\<lambda>i. (fold_text u (itext i), entry_of u ps i)) (map (close_item o' us) ks) =
        map (\<lambda>k. (k, the (fmlookup (items o') k))) ks"
      using t entry by simp
    finally show ?thesis
      by (cases "fmlookup (items o') k") (simp_all add: map_of_keys [OF ks(2)] ks(1) fmlookup_dom_iff)
  qed
  have "people (part u (close_with S o' ks)) = people o'" by (rule fmap_ext) (rule people)
  moreover have "items (part u (close_with S o' ks)) = items o'" by (rule fmap_ext) (rule items)
  ultimately show ?thesis by simp
qed

lemma part_close: "canonical u o' \<Longrightarrow> uncut S o' \<Longrightarrow> part u (shopClose S o') = o'"
  by (simp add: shopClose_uncut part_close_with used_people_all item_keys_set)

lemma min_keeps: "fold_text u x = k \<Longrightarrow> fold_text u y = k \<Longrightarrow> fold_text u (min x y) = k"
  by (simp add: min_def)

lemma canonical_join:
  assumes a: "canonical u a" and b: "canonical u b" shows "canonical u (list_join a b)"
proof -
  have mark_a: "\<exists>x. fmlookup (items (list_join a b)) i = Some x \<and> fmlookup (marks x) k \<noteq> None"
    if "fmlookup (items a) i = Some x" "fmlookup (marks x) k \<noteq> None" for i x k
    using that by (auto simp: list_join_def opt_join_def entry_join_def split: option.splits)
  have mark_b: "\<exists>x. fmlookup (items (list_join a b)) i = Some x \<and> fmlookup (marks x) k \<noteq> None"
    if "fmlookup (items b) i = Some x" "fmlookup (marks x) k \<noteq> None" for i x k
    using that by (auto simp: list_join_def opt_join_def entry_join_def split: option.splits)
  have P: "fold_text u (fst p) = k \<and> (\<exists>i x. fmlookup (items (list_join a b)) i = Some x \<and> fmlookup (marks x) k \<noteq> None)"
    if p: "fmlookup (people (list_join a b)) k = Some p" for k p
  proof -
    have "fmlookup (people a) k \<noteq> None \<or> fmlookup (people b) k \<noteq> None"
      using p by (auto simp: list_join_def opt_join_def split: option.splits)
    then have "\<exists>i x. fmlookup (items (list_join a b)) i = Some x \<and> fmlookup (marks x) k \<noteq> None"
    proof
      assume "fmlookup (people a) k \<noteq> None"
      then obtain i x where "fmlookup (items a) i = Some x" "fmlookup (marks x) k \<noteq> None"
        using a unfolding canonical_def by blast
      then show ?thesis using mark_a by blast
    next
      assume "fmlookup (people b) k \<noteq> None"
      then obtain i x where "fmlookup (items b) i = Some x" "fmlookup (marks x) k \<noteq> None"
        using b unfolding canonical_def by blast
      then show ?thesis using mark_b by blast
    qed
    moreover have "fold_text u (fst p) = k"
    proof -
      have n: "\<And>q. fmlookup (people a) k = Some q \<Longrightarrow> fold_text u (fst q) = k"
        "\<And>q. fmlookup (people b) k = Some q \<Longrightarrow> fold_text u (fst q) = k"
        using a b unfolding canonical_def by blast+
      have "opt_join person_join (fmlookup (people a) k) (fmlookup (people b) k) = Some p"
        using p by (simp add: list_join_def)
      with n show ?thesis
        by (auto simp: opt_join_def person_join_def min_keeps split: option.splits simp del: split_paired_All)
    qed
    ultimately show ?thesis by blast
  qed
  have I: "fold_text u (etext x) = k \<and> (\<forall>pk v. fmlookup (marks x) pk = Some v \<longrightarrow> 0 < v \<and> fmlookup (people (list_join a b)) pk \<noteq> None)"
    if x: "fmlookup (items (list_join a b)) k = Some x" for k x
  proof -
    have dom: "fmlookup (people (list_join a b)) pk \<noteq> None" if "fmlookup (people a) pk \<noteq> None \<or> fmlookup (people b) pk \<noteq> None" for pk
      using that by (auto simp: list_join_def opt_join_def split: option.splits)
    from x consider (a) "fmlookup (items a) k = Some x" | (b) "fmlookup (items b) k = Some x"
      | (ab) y z where "fmlookup (items a) k = Some y" "fmlookup (items b) k = Some z" "x = entry_join y z"
      by (auto simp: list_join_def opt_join_def split: option.splits)
    then show ?thesis
    proof cases
      case a' : a
      with a dom show ?thesis unfolding canonical_def by blast
    next
      case b' : b
      with b dom show ?thesis unfolding canonical_def by blast
    next
      case ab
      have y: "fold_text u (etext y) = k" "\<And>pk v. fmlookup (marks y) pk = Some v \<Longrightarrow> 0 < v \<and> fmlookup (people a) pk \<noteq> None"
        using a ab(1) unfolding canonical_def by blast+
      have z: "fold_text u (etext z) = k" "\<And>pk v. fmlookup (marks z) pk = Some v \<Longrightarrow> 0 < v \<and> fmlookup (people b) pk \<noteq> None"
        using b ab(2) unfolding canonical_def by blast+
      have "0 < v \<and> fmlookup (people (list_join a b)) pk \<noteq> None" if v: "fmlookup (marks x) pk = Some v" for pk v
      proof -
        consider "fmlookup (marks y) pk = Some v" | "fmlookup (marks z) pk = Some v"
          using v by (auto simp: ab(3) entry_join_def opt_join_def max_def split: option.splits if_splits)
        then show ?thesis using y(2) z(2) dom by cases blast+
      qed
      moreover have "fold_text u (etext x) = k" using y(1) z(1) by (simp add: ab(3) entry_join_def min_keeps)
      ultimately show ?thesis by blast
    qed
  qed
  show ?thesis unfolding canonical_def using P I by blast
qed

section \<open>Merging replies\<close>

text \<open>All that a list and some replies hold together.\<close>

definition together :: "unicode \<Rightarrow> shop \<Rightarrow> shop list \<Rightarrow> opened" where
  "together u v rs = fold (\<lambda>r o'. list_join o' (part u r)) rs (part u v)"

definition merge_all :: "unicode \<Rightarrow> config \<Rightarrow> shop \<Rightarrow> shop list \<Rightarrow> shop" where
  "merge_all u S v rs = fold (\<lambda>r l. shopMerge u S l r) rs v"

lemma together_canonical: "canonical u (part u v) \<Longrightarrow> \<forall>r \<in> set rs. canonical u (part u r) \<Longrightarrow> canonical u (together u v rs)"
  unfolding together_def by (induction rs rule: rev_induct) (auto intro: canonical_join)

lemma merge_all_together:
  assumes "canonical u (part u v)" "\<forall>r \<in> set rs. canonical u (part u r)"
    and "\<And>ps. set ps \<subseteq> set rs \<Longrightarrow> uncut S (together u v ps)"
  shows "rs \<noteq> [] \<Longrightarrow> merge_all u S v rs = shopClose S (together u v rs)"
  using assms(2,3)
proof (induction rs rule: rev_induct)
  case (snoc r rs)
  show ?case
  proof (cases "rs = []")
    case True
    then show ?thesis by (simp add: merge_all_def together_def shopMerge_join)
  next
    case False
    have can: "canonical u (together u v rs)" by (rule together_canonical) (use assms(1) snoc.prems in auto)
    have unc: "uncut S (together u v rs)" by (rule snoc.prems(3)) auto
    have "merge_all u S v rs = shopClose S (together u v rs)"
      by (rule snoc.IH) (use False snoc.prems in auto)
    then have "merge_all u S v (rs @ [r]) = shopClose S (list_join (part u (shopClose S (together u v rs))) (part u r))"
      by (simp add: merge_all_def shopMerge_join)
    also have "part u (shopClose S (together u v rs)) = together u v rs" by (rule part_close [OF can unc])
    finally show ?thesis by (simp add: together_def)
  qed
qed simp


end
