(* ===== verification/Shop_Ok.thy ===== *)
theory Shop_Ok
  imports Shop_Merge
begin

text \<open>
  What the list functions of \<open>turns.js\<close> make from lists that a link may hold is again such a list, and one person's
  change wins against what that person saw.
\<close>

section \<open>Well-formed opened lists\<close>

definition sound_entry :: "unicode \<Rightarrow> config \<Rightarrow> entry \<Rightarrow> bool" where
  "sound_entry u S x \<longleftrightarrow> clean u (etext x) (max_text S) = etext x \<and> fold_text u (etext x) \<noteq> [] \<and> etime x \<le> max_t S \<and>
     min_qty S \<le> qty x \<and> qty x \<le> max_qty S \<and> (\<forall>pk v. fmlookup (marks x) pk = Some v \<longrightarrow> 1 \<le> v \<and> v \<le> max_ver S * 3 + 2)"

definition sound_list :: "unicode \<Rightarrow> config \<Rightarrow> opened \<Rightarrow> bool" where
  "sound_list u S o' \<longleftrightarrow>
     (\<forall>k p. fmlookup (people o') k = Some p \<longrightarrow> fold_text u (fst p) = k \<and> nameOk u (fst p) \<and> snd p < FACES) \<and>
     (\<forall>k x. fmlookup (items o') k = Some x \<longrightarrow> fold_text u (etext x) = k \<and> sound_entry u S x)"

lemma sound_empty: "sound_list u S empty_list" by (simp add: sound_list_def empty_list_def)

lemma sound_entry_join: "sound_entry u S x \<Longrightarrow> sound_entry u S y \<Longrightarrow> sound_entry u S (entry_join x y)"
  unfolding sound_entry_def
  by (auto simp: entry_join_def min_def max_def opt_join_def split: option.splits if_splits)

lemma sound_join:
  assumes "sound_list u S a" "sound_list u S b" shows "sound_list u S (list_join a b)"
proof -
  have "fold_text u (fst p) = k \<and> nameOk u (fst p) \<and> snd p < FACES" if p: "fmlookup (people (list_join a b)) k = Some p" for k p
  proof -
    have n: "\<And>q. fmlookup (people a) k = Some q \<Longrightarrow> fold_text u (fst q) = k \<and> nameOk u (fst q) \<and> snd q < FACES"
      "\<And>q. fmlookup (people b) k = Some q \<Longrightarrow> fold_text u (fst q) = k \<and> nameOk u (fst q) \<and> snd q < FACES"
      using assms unfolding sound_list_def by blast+
    have "opt_join person_join (fmlookup (people a) k) (fmlookup (people b) k) = Some p"
      using p by (simp add: list_join_def)
    with n show ?thesis
      by (auto simp: opt_join_def person_join_def min_def split: option.splits simp del: split_paired_All)
  qed
  moreover have "fold_text u (etext x) = k \<and> sound_entry u S x" if x: "fmlookup (items (list_join a b)) k = Some x" for k x
  proof -
    have n: "\<And>q. fmlookup (items a) k = Some q \<Longrightarrow> fold_text u (etext q) = k \<and> sound_entry u S q"
      "\<And>q. fmlookup (items b) k = Some q \<Longrightarrow> fold_text u (etext q) = k \<and> sound_entry u S q"
      using assms unfolding sound_list_def by blast+
    have "opt_join entry_join (fmlookup (items a) k) (fmlookup (items b) k) = Some x"
      using x by (simp add: list_join_def)
    with n show ?thesis
      by (auto simp: opt_join_def sound_entry_join split: option.splits) (simp add: entry_join_def min_keeps)
  qed
  ultimately show ?thesis unfolding sound_list_def by blast
qed

lemma sound_fold_join:
  assumes "\<And>x. x \<in> set xs \<Longrightarrow> sound_list u S (g x)" "sound_list u S m"
  shows "sound_list u S (fold (\<lambda>x m. list_join m (g x)) xs m)"
  using assms by (induction xs arbitrary: m) (auto intro: sound_join)

text \<open>A list is the join of its items and people.\<close>

definition item_part :: "unicode \<Rightarrow> person list \<Rightarrow> item \<Rightarrow> opened" where
  "item_part u ps i = \<lparr>people = fmempty, items = one_item u ps i\<rparr>"

definition person_part :: "unicode \<Rightarrow> person \<Rightarrow> opened" where
  "person_part u p = \<lparr>people = one_person u p, items = fmempty\<rparr>"

lemma fold_item_part:
  "fold (\<lambda>i m. list_join m (item_part u ps i)) xs m = m\<lparr>items := fold (add_item u ps) xs (items m)\<rparr>"
  by (induction xs arbitrary: m) (simp_all add: add_item_join list_join_def item_part_def persons.unit_right)

lemma fold_person_part:
  "fold (\<lambda>p m. list_join m (person_part u p)) ps m = m\<lparr>people := fold (add_person u) ps (people m)\<rparr>"
  by (induction ps arbitrary: m) (simp_all add: add_person_join list_join_def person_part_def entries.unit_right)

lemma part_parts:
  "part u v = fold (\<lambda>p m. list_join m (person_part u p)) (fst v) (fold (\<lambda>i m. list_join m (item_part u (fst v) i)) (snd v) empty_list)"
  by (simp add: fold_item_part fold_person_part part_def shopOpen_def empty_list_def)

lemma fold_add_mark_range:
  "fmlookup (fold add_mark ms m) pk = Some v \<Longrightarrow> (\<exists>k. (k, v) \<in> set ms) \<or> fmlookup m pk = Some v"
proof (induction ms arbitrary: m)
  case (Cons x ms)
  from Cons.IH [of "add_mark x m"] Cons.prems show ?case
    by (cases x) (auto simp: add_mark_def max_def split: if_splits option.splits)
qed simp

lemma sound_part:
  assumes "shopOk u S v" shows "sound_list u S (part u v)"
proof -
  have "sound_list u S (item_part u (fst v) i)" if "i \<in> set (snd v)" for i
  proof -
    have ok: "item_ok u S (length (fst v)) i" using assms that by (auto simp: shopOk_def list_all_iff)
    have "1 \<le> x \<and> x \<le> max_ver S * 3 + 2" if "fmlookup (marks (entry_of u (fst v) i)) pk = Some x" for pk x
      using fold_add_mark_range [OF that [unfolded entry_of_def, simplified]] ok
      by (auto simp: item_ok_def list_all_iff)
    with ok show ?thesis
      by (auto simp: sound_list_def item_part_def one_item_def sound_entry_def item_ok_def entry_of_def)
  qed
  moreover have "sound_list u S (person_part u p)" if "p \<in> set (fst v)" for p
    using assms that by (cases p) (auto simp: shopOk_def list_all_iff sound_list_def person_part_def one_person_def)
  ultimately show ?thesis unfolding part_parts by (intro sound_fold_join sound_empty) auto
qed

section \<open>Closing a well-formed list\<close>

lemma used_people_set: "set (used_people S o' ks) \<subseteq> fset (fmdom (people o'))" "distinct (used_people S o' ks)"
  "length (used_people S o' ks) \<le> max_people S"
  by (auto simp: used_people_def sorted_list_of_fset.rep_eq dest: in_set_takeD)

lemma close_with_ok:
  assumes o': "sound_list u S o'" and ks: "set ks \<subseteq> fset (fmdom (items o'))" "distinct ks" "ks \<noteq> []" "length ks \<le> max_items S"
    and bytes: "shopBytes (close_with S o' ks) \<le> max_bytes S"
  shows "shopOk u S (close_with S o' ks)"
proof -
  define us where "us = used_people S o' ks"
  have us: "set us \<subseteq> fset (fmdom (people o'))" "distinct us" "length us \<le> max_people S"
    unfolding us_def by (rule used_people_set)+
  have v: "close_with S o' ks = (map (\<lambda>pk. the (fmlookup (people o') pk)) us, map (close_item o' us) ks)"
    by (simp add: close_with_def us_def Let_def)
  have P: "fold_text u (fst (the (fmlookup (people o') pk))) = pk \<and> nameOk u (fst (the (fmlookup (people o') pk))) \<and>
      snd (the (fmlookup (people o') pk)) < FACES" if "pk \<in> set us" for pk
  proof -
    have "pk |\<in>| fmdom (people o')" using that us(1) by auto
    then obtain p where "fmlookup (people o') pk = Some p" by (auto simp: fmlookup_dom_iff)
    with o' show ?thesis unfolding sound_list_def by (cases p) auto
  qed
  have I: "fold_text u (itext (close_item o' us k)) = k \<and> item_ok u S (length us) (close_item o' us k)" if "k \<in> set ks" for k
  proof -
    have "k |\<in>| fmdom (items o')" using that ks(1) by auto
    then obtain x where x: "fmlookup (items o') k = Some x" by (auto simp: fmlookup_dom_iff)
    with o' have "fold_text u (etext x) = k" "sound_entry u S x" unfolding sound_list_def by auto
    with x show ?thesis
      by (auto simp: close_item_def Let_def item_ok_def sound_entry_def list_all_iff mark_of_def distinct_map
          inj_on_def filter_map comp_def split: option.splits)
  qed
  have "map (\<lambda>p. fold_text u (fst p)) (fst (close_with S o' ks)) = us" using P by (simp add: v map_idI)
  moreover have "map (\<lambda>i. fold_text u (itext i)) (snd (close_with S o' ks)) = ks" using I by (simp add: v map_idI)
  moreover have "list_all (\<lambda>(n, f). nameOk u n \<and> f < FACES) (fst (close_with S o' ks))"
    using P by (fastforce simp: v list_all_iff)
  moreover have "list_all (item_ok u S (length us)) (snd (close_with S o' ks))" using I by (simp add: v list_all_iff)
  ultimately show ?thesis using us ks bytes unfolding shopOk_def by (simp add: v)
qed

text \<open>The loop of \<open>shopClose\<close> leaves a first part of the keys; only a single item may be too large.\<close>

lemma close_fit_prefix:
  "length ks \<le> n \<Longrightarrow> ks \<noteq> [] \<Longrightarrow> \<exists>m. 0 < m \<and> close_fit S o' n ks = close_with S o' (take m ks) \<and>
     (shopBytes (close_fit S o' n ks) \<le> max_bytes S \<or> length (take m ks) = 1)"
proof (induction n arbitrary: ks)
  case (Suc n)
  let ?v = "close_with S o' ks"
  show ?case
  proof (cases "shopBytes ?v \<le> max_bytes S \<or> length ks \<le> 1")
    case True
    then have "close_fit S o' (Suc n) ks = ?v" by (simp add: Let_def)
    moreover have "length ks \<le> 1 \<Longrightarrow> length ks = 1" using Suc.prems(2) by (cases ks) auto
    ultimately show ?thesis using True Suc.prems by (intro exI [of _ "length ks"]) auto
  next
    case False
    then have "close_fit S o' (Suc n) ks = close_fit S o' n (butlast ks)" by (simp add: Let_def)
    moreover have "length (butlast ks) \<le> n" "butlast ks \<noteq> []" using Suc.prems False by (cases ks rule: rev_cases; auto)+
    from Suc.IH [OF this] obtain m where "0 < m" "close_fit S o' n (butlast ks) = close_with S o' (take m (butlast ks))"
      "shopBytes (close_fit S o' n (butlast ks)) \<le> max_bytes S \<or> length (take m (butlast ks)) = 1" by blast
    moreover have "take m (butlast ks) = take (min m (length ks - 1)) ks"
      by (simp add: butlast_conv_take take_take)
    moreover have "0 < length ks - 1" using False by auto
    ultimately show ?thesis by (intro exI [of _ "min m (length ks - 1)"]) auto
  qed
qed simp

lemma shopClose_ok:
  assumes "sound_list u S o'" "fmlookup (items o') k0 \<noteq> None" "0 < max_items S"
  shows "shopBytes (shopClose S o') \<le> max_bytes S \<or> length (snd (shopClose S o')) = 1"
    and "shopBytes (shopClose S o') \<le> max_bytes S \<Longrightarrow> shopOk u S (shopClose S o')"
proof -
  let ?ks = "take (max_items S) (item_keys o')"
  have ne: "item_keys o' \<noteq> []"
  proof -
    have "k0 |\<in>| fmdom (items o')" using assms(2) by (auto simp: fmlookup_dom_iff)
    then have "k0 \<in> set (item_keys o')" by (simp add: item_keys_set)
    then show ?thesis by auto
  qed
  then have "?ks \<noteq> []" using assms(3) by simp
  from close_fit_prefix [OF order_refl this, of S o'] obtain m where m: "0 < m"
    "shopClose S o' = close_with S o' (take m ?ks)" "shopBytes (shopClose S o') \<le> max_bytes S \<or> length (take m ?ks) = 1"
    by (auto simp: shopClose_def Let_def)
  then show "shopBytes (shopClose S o') \<le> max_bytes S \<or> length (snd (shopClose S o')) = 1"
    by (auto simp: close_with_def Let_def)
  have sub: "set (take m ?ks) \<subseteq> fset (fmdom (items o'))" "distinct (take m ?ks)"
    using item_keys_set [of o'] by (auto dest!: in_set_takeD)
  have "take m ?ks \<noteq> []" "length (take m ?ks) \<le> max_items S" using m(1) ne assms(3) by auto
  with close_with_ok [OF assms(1) sub] m(2) show "shopBytes (shopClose S o') \<le> max_bytes S \<Longrightarrow> shopOk u S (shopClose S o')"
    by simp
qed

text \<open>
  Merging two lists that a link may hold gives a list that a link may hold; only a list of a single item can be
  too large. Names, texts, marks, caps and distinctness are kept by any merge.
\<close>
theorem merge_is_acceptable:
  assumes "shopOk u S a" and "shopOk u S b" and "0 < max_items S"
  shows "(shopBytes (shopMerge u S a b) \<le> max_bytes S \<or> length (snd (shopMerge u S a b)) = 1) \<and>
    (shopBytes (shopMerge u S a b) \<le> max_bytes S \<longrightarrow> shopOk u S (shopMerge u S a b))"
proof -
  let ?o = "list_join (part u a) (part u b)"
  have sound: "sound_list u S ?o" by (intro sound_join sound_part assms)
  have "snd a \<noteq> []" using assms(1) by (simp add: shopOk_def)
  then obtain i rest where i: "snd a = i # rest" by (cases "snd a") auto
  have "fmlookup (items (part u a)) (fold_text u (itext i)) \<noteq> None"
  proof -
    have ei: "add_item u ps = (\<lambda>i m. map_join entry_join m (one_item u ps i))" for ps
      by (simp add: fun_eq_iff add_item_join)
    have "map_join entry_join (items (part u a)) (one_item u (fst a) i) = items (part u a)"
      unfolding part_def shopOpen_def empty_list_def opened.simps ei by (rule entries.fold_join_member) (simp add: i)
    then have "fmlookup (items (part u a)) k = opt_join entry_join (fmlookup (items (part u a)) k) (fmlookup (one_item u (fst a) i) k)" for k
      by (metis map_join_lookup)
    from this [of "fold_text u (itext i)"] show ?thesis by (auto simp: one_item_def opt_join_def split: option.splits)
  qed
  then have "fmlookup (items ?o) (fold_text u (itext i)) \<noteq> None"
    by (auto simp: list_join_def opt_join_def split: option.splits)
  from shopClose_ok [OF sound this assms(3)] show ?thesis by (auto simp: shopMerge_join)
qed

section \<open>A change wins against what its author saw\<close>

text \<open>
  A person's change of a mark lies above the mark they saw and has the state they chose, so it survives every
  merge with the list they started from; no other mark, item or person changes.
\<close>
theorem own_change_wins:
  assumes "fmlookup (items o') k = Some x" and "0 \<le> s" and "s \<le> 2"
    and "if 0 < shopMark u b name k then int (shopMark u b name k mod 3) \<noteq> s else s \<noteq> 0"
    and "shopMark u b name k div 3 < max_ver S"
  shows "\<exists>n y. fmlookup (items (put_mark u S (Some b) name (k, s) o')) k = Some y \<and>
    fmlookup (marks y) (fold_text u name) = Some n \<and> int (n mod 3) = s \<and> shopMark u b name k < n \<and>
    (\<forall>pk. pk \<noteq> fold_text u name \<longrightarrow> fmlookup (marks y) pk = fmlookup (marks x) pk) \<and>
    etext y = etext x \<and> etime y = etime x \<and> qty y = qty x \<and>
    (\<forall>j. j \<noteq> k \<longrightarrow> fmlookup (items (put_mark u S (Some b) name (k, s) o')) j = fmlookup (items o') j) \<and>
    people (put_mark u S (Some b) name (k, s) o') = people o'"
proof -
  define had where "had = shopMark u b name k"
  define n where "n = (had div 3 + 1) * 3 + nat s"
  have "nat s < 3" using assms(3) by linarith
  then have "n mod 3 = nat s" by (simp only: n_def mod_mult_self3 mod_less)
  moreover have "had < n" by (simp add: n_def)
  moreover have "put_mark u S (Some b) name (k, s) o' = set_mark S (fold_text u name) k n o'"
  proof -
    have "min (max_ver S) (had div 3 + 1) = had div 3 + 1" using assms(5) by (simp add: had_def)
    then show ?thesis using assms(1-4) by (auto simp: put_mark_def Let_def n_def had_def split: if_splits)
  qed
  ultimately show ?thesis
    using assms(1,2) by (auto simp: set_mark_def had_def)
qed

section \<open>Examples\<close>

definition plain :: unicode where
  "plain = \<lparr>lowercase = \<lambda>s. s, unmarked = \<lambda>s. s, compatible = \<lambda>s. s, hurtful = \<lambda>s. False, contact = \<lambda>s. False,
     stems = [], words = []\<rparr>"

definition milk :: shop where
  "milk = ([(js ''ann'', 3)], [\<lparr>itext = js ''milk'', itime = 0, iqty = 2, imarks = [(0, 4)]\<rparr>])"

lemma fold_plain [simp]: "\<forall>c \<in> set s. c < 128 \<Longrightarrow> fold_text plain s = s"
proof -
  assume "\<forall>c \<in> set s. c < 128"
  then have "concat (map fold_char s) = s" by (induction s) (auto simp: fold_char_def)
  then show ?thesis by (simp add: fold_text_def plain_def)
qed

lemma part_milk:
  "part plain milk = \<lparr>people = fmupd (js ''ann'') (js ''ann'', 3) fmempty,
     items = fmupd (js ''milk'') \<lparr>etext = js ''milk'', etime = 0, qty = 2, marks = fmupd (js ''ann'') 4 fmempty\<rparr> fmempty\<rparr>"
  by (simp add: part_def shopOpen_def milk_def add_item_def add_person_def add_mark_def empty_list_def Let_def)

lemma milk_canonical: "canonical plain (part plain milk)"
  by (auto simp: canonical_def part_milk)

lemma milk_keys: "item_keys (part plain milk) = [js ''milk'']"
  by (simp add: item_keys_def part_milk sorted_list_of_fset.rep_eq)

lemma milk_closed: "close_with SHOP (part plain milk) [js ''milk''] = milk"
  by (simp add: close_with_def used_people_def close_item_def part_milk sorted_list_of_fset.rep_eq mark_of_def SHOP_def)
    (simp add: milk_def)

lemma milk_bytes: "shopBytes milk = 36" by code_simp

lemma milk_ok: "shopOk plain SHOP milk" by code_simp

lemma milk_together: "set ps \<subseteq> {milk} \<Longrightarrow> together plain milk ps = part plain milk"
  unfolding together_def by (induction ps) (auto simp: lists.idem)

lemma milk_uncut: "set ps \<subseteq> {milk} \<Longrightarrow> uncut SHOP (together plain milk ps)"
  unfolding milk_together uncut_def milk_keys milk_closed milk_bytes
  by (simp add: part_milk sorted_list_of_fset.rep_eq SHOP_def)


lemma milk_merged: "shopMerge plain SHOP milk milk = milk"
proof -
  have "shopMerge plain SHOP milk milk = shopClose SHOP (part plain milk)"
    by (simp add: shopMerge_def part_def [symmetric] shopOpen_join [of plain milk "part plain milk"] lists.idem)
  also have "\<dots> = milk"
  proof -
    have "max_bytes SHOP = 560" "max_items SHOP = 20" by (simp_all add: SHOP_def)
    then show ?thesis using milk_closed by (simp add: shopClose_def milk_keys milk_bytes)
  qed
  finally show ?thesis .
qed

lemma merge_is_acceptable_witness: "shopOk plain SHOP (shopMerge plain SHOP milk milk)"
proof (rule mp)
  show "shopBytes (shopMerge plain SHOP milk milk) \<le> max_bytes SHOP \<longrightarrow> shopOk plain SHOP (shopMerge plain SHOP milk milk)"
    by (rule merge_is_acceptable [OF milk_ok milk_ok, THEN conjunct2]) (simp add: SHOP_def)
  show "shopBytes (shopMerge plain SHOP milk milk) \<le> max_bytes SHOP" unfolding milk_merged milk_bytes by (simp add: SHOP_def)
qed

lemma own_change_wins_witness:
  "\<exists>n y. fmlookup (items (put_mark plain SHOP (Some milk) (js ''ann'') (js ''milk'', 2) (part plain milk))) (js ''milk'') = Some y \<and>
    fmlookup (marks y) (js ''ann'') = Some n \<and> int (n mod 3) = 2 \<and> 4 < n"
proof -
  have had: "shopMark plain milk (js ''ann'') (js ''milk'') = 4" by code_simp
  have x: "fmlookup (items (part plain milk)) (js ''milk'') =
      Some \<lparr>etext = js ''milk'', etime = 0, qty = 2, marks = fmupd (js ''ann'') 4 fmempty\<rparr>"
    by (simp add: part_milk)
  have f: "fold_text plain (js ''ann'') = js ''ann''" by simp
  have c: "if 0 < shopMark plain milk (js ''ann'') (js ''milk'') then int (shopMark plain milk (js ''ann'') (js ''milk'') mod 3) \<noteq> 2
      else (2 :: int) \<noteq> 0" unfolding had by simp
  have v: "shopMark plain milk (js ''ann'') (js ''milk'') div 3 < max_ver SHOP" unfolding had by (simp add: SHOP_def)
  have s: "(0 :: int) \<le> 2" "(2 :: int) \<le> 2" by simp_all
  from own_change_wins [OF x s c v] show ?thesis unfolding had f by blast
qed

end
