(* ===== verification/Rand.thy ===== *)
theory Rand
  imports "HOL-Library.Word" "HOL-Library.Multiset" Json
begin

text \<open>
  The seeded dice of \<open>core.js\<close> and what the games draw with them: \<open>hash32\<close> (FNV-1a), the
  generator \<open>mulberry32\<close>, the shuffles of \<open>turns.js\<close> and \<open>quizpack.js\<close> and the closed
  circle of the gift draw. All 32-bit arithmetic wraps, as \<open>Math.imul\<close> and the bit operators do.
\<close>

unbundle bit_operations_syntax

section \<open>Hash and generator\<close>

definition fnv_step :: "nat \<Rightarrow> 32 word \<Rightarrow> 32 word" where
  "fnv_step c h = (h XOR word_of_nat c) * 0x01000193"

definition hash32 :: "jstring \<Rightarrow> 32 word" where
  "hash32 s = fold fnv_step s 0x811c9dc5"

text \<open>
  One call of the generator: the new state and the 32 bits it draws. The value of the call is these
  bits divided by \<open>2^32\<close>, which is exact in a double; \<open>Math.floor(r() * n)\<close> is exact too for
  \<open>n\<close> up to \<open>2^21\<close>.
\<close>

definition mulberry32 :: "32 word \<Rightarrow> 32 word \<times> 32 word" where
  "mulberry32 a =
     (let a = a + 0x6D2B79F5;
          t = (a XOR drop_bit 15 a) * (a OR 1);
          t = t XOR (t + (t XOR drop_bit 7 t) * (t OR 61))
      in (a, t XOR drop_bit 14 t))"

definition below :: "32 word \<Rightarrow> nat \<Rightarrow> nat" where
  "below bits n = (unat bits * n) div 2 ^ 32"

definition draw :: "nat \<Rightarrow> 32 word \<Rightarrow> nat \<times> 32 word" where
  "draw n a = (let (a', bits) = mulberry32 a in (below bits n, a'))"

section \<open>Shuffles\<close>

definition swap :: "nat \<Rightarrow> nat \<Rightarrow> 'a list \<Rightarrow> 'a list" where
  "swap i j xs = xs[i := xs ! j, j := xs ! i]"

text \<open>The loop \<open>for (i = n - 1; i > 0; i--)\<close>, the partner drawn below \<open>i + e\<close>.\<close>

fun shuffle_from :: "nat \<Rightarrow> nat \<Rightarrow> 'a list \<Rightarrow> 32 word \<Rightarrow> 'a list" where
  "shuffle_from e 0 xs a = xs"
| "shuffle_from e (Suc i) xs a = (let (j, a') = draw (Suc i + e) a in shuffle_from e i (swap (Suc i) j xs) a')"

definition seed_text :: "string \<Rightarrow> 32 word \<Rightarrow> jstring \<Rightarrow> jstring" where
  "seed_text part seed tag = js part @ digits (unat seed) @ js ''|'' @ tag"

definition mix :: "32 word \<Rightarrow> jstring \<Rightarrow> nat \<Rightarrow> nat list" where
  "mix seed tag n = shuffle_from 1 (n - 1) [0..<n] (hash32 (seed_text ''turn|'' seed tag))"

text \<open>\<open>drawn\<close>: the partner is drawn below \<open>i\<close>; then everyone gives to the next in the row.\<close>

definition draw_order :: "32 word \<Rightarrow> nat \<Rightarrow> nat list" where
  "draw_order seed n = shuffle_from 0 (n - 1) [0..<n] (hash32 (js ''wichtel|'' @ digits (unat seed)))"

fun index_of :: "'a \<Rightarrow> 'a list \<Rightarrow> nat" where
  "index_of x [] = 0"
| "index_of x (y # ys) = (if x = y then 0 else Suc (index_of x ys))"

definition drawn :: "32 word \<Rightarrow> nat \<Rightarrow> nat list" where
  "drawn seed n = (let a = draw_order seed n in map (\<lambda>v. a ! ((index_of v a + 1) mod n)) [0..<n])"

lemma below_less: "0 < n \<Longrightarrow> below bits n < n"
proof -
  assume n: "0 < n"
  have "unat bits < 2 ^ 32" using unsigned_less [of bits] by simp
  with n have "unat bits * n < n * 2 ^ 32" by (simp add: mult.commute)
  then show ?thesis unfolding below_def by (rule less_mult_imp_div_less)
qed

lemma draw_less: "0 < n \<Longrightarrow> draw n a = (j, a') \<Longrightarrow> j < n"
  by (auto simp: draw_def below_less split: prod.splits)

lemma swap_length [simp]: "length (swap i j xs) = length xs" by (simp add: swap_def)

lemma swap_mset: "i < length xs \<Longrightarrow> j < length xs \<Longrightarrow> mset (swap i j xs) = mset xs"
  unfolding swap_def by (simp add: mset_swap)

lemma shuffle_mset: "i < length xs \<Longrightarrow> e \<le> 1 \<Longrightarrow> mset (shuffle_from e i xs a) = mset xs"
proof (induction e i xs a rule: shuffle_from.induct)
  case (2 e i xs a)
  obtain j a' where d: "draw (Suc i + e) a = (j, a')" by fastforce
  have "j < Suc i + e" by (rule draw_less [OF _ d]) simp
  with 2 d show ?case by (simp add: swap_mset)
qed simp

lemma shuffle_length [simp]: "length (shuffle_from e i xs a) = length xs"
  by (induction e i xs a rule: shuffle_from.induct) (simp_all split: prod.splits)

lemma mix_mset: "mset (mix seed tag n) = mset [0..<n]"
  by (cases n) (simp_all add: mix_def shuffle_mset)

lemma mix_set [simp]: "set (mix seed tag n) = {..<n}"
  using arg_cong [OF mix_mset [of seed tag n], of set_mset] by (simp add: atLeast0LessThan)

lemma mix_length [simp]: "length (mix seed tag n) = n" by (simp add: mix_def)

lemma mix_distinct [simp]: "distinct (mix seed tag n)"
  using mix_mset [of seed tag n] by (metis distinct_upt mset_eq_imp_distinct_iff)

lemma mix_nth_less: "i < n \<Longrightarrow> mix seed tag n ! i < n"
  using nth_mem [of i "mix seed tag n"] by (simp del: nth_mem)

section \<open>The closed circle\<close>

lemma draw_order_set: "set (draw_order seed n) = {..<n}" "distinct (draw_order seed n)" "length (draw_order seed n) = n"
proof -
  have m: "mset (draw_order seed n) = mset [0..<n]"
    by (cases n) (simp_all add: draw_order_def shuffle_mset)
  from arg_cong [OF m, of set_mset] show "set (draw_order seed n) = {..<n}" by (simp add: atLeast0LessThan)
  from m show "distinct (draw_order seed n)" by (metis distinct_upt mset_eq_imp_distinct_iff)
  show "length (draw_order seed n) = n" by (simp add: draw_order_def)
qed

lemma index_of_less: "x \<in> set xs \<Longrightarrow> index_of x xs < length xs" by (induction xs) auto
lemma index_of_nth: "x \<in> set xs \<Longrightarrow> xs ! index_of x xs = x" by (induction xs) auto
lemma nth_index_of: "distinct xs \<Longrightarrow> i < length xs \<Longrightarrow> index_of (xs ! i) xs = i"
  by (induction xs arbitrary: i) (auto simp: nth_Cons split: nat.splits)

lemma drawn_at: "i < n \<Longrightarrow> drawn seed n ! (draw_order seed n ! i) = draw_order seed n ! ((i + 1) mod n)"
proof -
  assume i: "i < n"
  have "draw_order seed n ! i < n"
    using i draw_order_set [of seed n] by (metis lessThan_iff nth_mem)
  with i show ?thesis
    using draw_order_set [of seed n] by (simp add: drawn_def Let_def nth_index_of)
qed

text \<open>Going round from any player reaches everybody before it comes back.\<close>

lemma drawn_round: "k < n \<Longrightarrow> ((\<lambda>v. drawn seed n ! v) ^^ m) (draw_order seed n ! k) = draw_order seed n ! ((k + m) mod n)"
proof (induction m)
  case (Suc m)
  have "(k + m) mod n < n" using Suc.prems by simp
  then have "drawn seed n ! (draw_order seed n ! ((k + m) mod n)) = draw_order seed n ! (((k + m) mod n + 1) mod n)"
    by (rule drawn_at)
  with Suc show ?case by (simp add: mod_simps)
qed simp

lemma drawn_never_self: "2 \<le> n \<Longrightarrow> v < n \<Longrightarrow> drawn seed n ! v \<noteq> v"
proof -
  assume n: "2 \<le> n" "v < n"
  then obtain i where i: "i < n" "draw_order seed n ! i = v"
    using draw_order_set [of seed n] by (metis in_set_conv_nth lessThan_iff)
  have "(i + 1) mod n \<noteq> i" "(i + 1) mod n < n" using n(1) i(1) by (auto simp: mod_if)
  with i n drawn_at [OF i(1), of seed] show ?thesis
    using draw_order_set [of seed n] by (metis nth_eq_iff_index_eq)
qed

end
