(* ===== verification/Steine.thy ===== *)
theory Steine
  imports Rand
begin

text \<open>
  The block game of \<open>turns.js\<close> (\<open>blockAt\<close>, \<open>fits\<close>, \<open>drop\<close>, \<open>replay\<close>, \<open>canMove\<close>): both sides get the
  same stream of blocks from the seed, and the receiver replays the cells instead of trusting a score.
\<close>

definition SIZE :: nat where "SIZE = 8"
definition MAX_BLOCKS :: nat where "MAX_BLOCKS = 40"

definition BLOCKS :: "(nat \<times> nat) list list" where
  "BLOCKS = [[(0, 0)], [(0, 0), (1, 0)], [(0, 0), (0, 1)], [(0, 0), (1, 0), (2, 0)], [(0, 0), (0, 1), (0, 2)],
     [(0, 0), (1, 0), (0, 1), (1, 1)], [(0, 0), (1, 0), (0, 1)], [(0, 0), (0, 1), (1, 1)],
     [(0, 0), (1, 0), (2, 0), (3, 0)], [(0, 0), (0, 1), (0, 2), (0, 3)], [(0, 0), (1, 0), (2, 0), (1, 1)]]"

fun draw_nth :: "nat \<Rightarrow> nat \<Rightarrow> 32 word \<Rightarrow> nat" where
  "draw_nth 0 n a = fst (draw n a)"
| "draw_nth (Suc i) n a = draw_nth i n (snd (draw n a))"

definition blockAt :: "32 word \<Rightarrow> nat \<Rightarrow> (nat \<times> nat) list" where
  "blockAt seed i = BLOCKS ! draw_nth i (length BLOCKS) (hash32 (js ''steine|'' @ digits (unat seed)))"

type_synonym grid = "bool list"

definition fits :: "grid \<Rightarrow> (nat \<times> nat) list \<Rightarrow> nat \<Rightarrow> bool" where
  "fits grid block p = (let x = p mod SIZE; y = p div SIZE in
     list_all (\<lambda>(bx, by). x + bx < SIZE \<and> y + by < SIZE \<and> \<not> grid ! ((y + by) * SIZE + (x + bx))) block)"

record stones =
  cells :: grid
  score :: nat
  lines :: nat
  used :: nat

definition put_block :: "(nat \<times> nat) list \<Rightarrow> nat \<Rightarrow> grid \<Rightarrow> grid" where
  "put_block block p g = (let x = p mod SIZE; y = p div SIZE in
     fold (\<lambda>(bx, by) g. g[(y + by) * SIZE + x + bx := True]) block g)"

definition full_row :: "grid \<Rightarrow> nat \<Rightarrow> bool" where
  "full_row g i = list_all (\<lambda>j. g ! (i * SIZE + j)) [0..<SIZE]"

definition full_col :: "grid \<Rightarrow> nat \<Rightarrow> bool" where
  "full_col g i = list_all (\<lambda>j. g ! (j * SIZE + i)) [0..<SIZE]"

definition clear_row :: "nat \<Rightarrow> grid \<Rightarrow> grid" where
  "clear_row r g = fold (\<lambda>j g. g[r * SIZE + j := False]) [0..<SIZE] g"

definition clear_col :: "nat \<Rightarrow> grid \<Rightarrow> grid" where
  "clear_col c g = fold (\<lambda>j g. g[j * SIZE + c := False]) [0..<SIZE] g"

definition drop_block :: "stones \<Rightarrow> (nat \<times> nat) list \<Rightarrow> nat \<Rightarrow> stones" where
  "drop_block st block p =
     (let g = put_block block p (cells st);
          rows = filter (full_row g) [0..<SIZE];
          cols = filter (full_col g) [0..<SIZE];
          n = length rows + length cols
      in \<lparr>cells = fold clear_col cols (fold clear_row rows g), score = score st + length block + n * n * 10,
          lines = n, used = used st + 1\<rparr>)"

definition empty_stones :: stones where
  "empty_stones = \<lparr>cells = replicate (SIZE * SIZE) False, score = 0, lines = 0, used = 0\<rparr>"

fun replay_from :: "32 word \<Rightarrow> stones \<Rightarrow> nat list \<Rightarrow> stones option" where
  "replay_from seed st [] = Some st"
| "replay_from seed st (c # cs) =
     (let b = blockAt seed (used st) in if fits (cells st) b c then replay_from seed (drop_block st b c) cs else None)"

definition replay :: "32 word \<Rightarrow> nat list \<Rightarrow> stones option" where
  "replay seed cs = replay_from seed empty_stones cs"

definition canMove :: "32 word \<Rightarrow> stones \<Rightarrow> bool" where
  "canMove seed st = list_ex (fits (cells st) (blockAt seed (used st))) [0..<SIZE * SIZE]"

section \<open>What a drop does\<close>

lemma draw_nth_less: "0 < n \<Longrightarrow> draw_nth i n a < n"
  by (induction i n a rule: draw_nth.induct) (simp_all add: draw_def below_less split: prod.splits)

lemma blockAt_in: "blockAt seed i \<in> set BLOCKS"
  unfolding blockAt_def by (intro nth_mem draw_nth_less) (simp add: BLOCKS_def)

text \<open>A fold of single-cell updates: the cells touched are those of the list.\<close>

lemma fold_update_nth:
  "i < length g \<Longrightarrow> fold (\<lambda>x g. g[f x := b]) xs g ! i = (if i \<in> f ` set xs then b else g ! i)"
  by (induction xs arbitrary: g) (auto simp: nth_list_update)

lemma fold_update_length [simp]: "length (fold (\<lambda>x g. g[f x := b]) xs g) = length g"
  by (induction xs arbitrary: g) auto

definition spot :: "nat \<Rightarrow> nat \<times> nat \<Rightarrow> nat" where
  "spot p c = (p div SIZE + snd c) * SIZE + p mod SIZE + fst c"

lemma put_block_fold: "put_block block p g = fold (\<lambda>c g. g[spot p c := True]) block g"
proof -
  have "(\<lambda>(bx, by) g. g[(p div SIZE + by) * SIZE + p mod SIZE + bx := True]) = (\<lambda>c g. g[spot p c := True])"
    by (auto simp: spot_def fun_eq_iff)
  then show ?thesis by (simp add: put_block_def Let_def)
qed

lemma put_block_nth: "i < length g \<Longrightarrow> put_block block p g ! i = (i \<in> spot p ` set block \<or> g ! i)"
  by (auto simp: put_block_fold fold_update_nth)

lemma put_block_length [simp]: "length (put_block block p g) = length g"
  by (simp add: put_block_fold)

lemma clear_row_length [simp]: "length (clear_row r g) = length g" by (simp add: clear_row_def)
lemma clear_col_length [simp]: "length (clear_col r g) = length g" by (simp add: clear_col_def)

lemma clear_row_nth: "i < length g \<Longrightarrow> clear_row r g ! i = (g ! i \<and> i div SIZE \<noteq> r)"
proof -
  have "(i \<in> (\<lambda>j. r * SIZE + j) ` set [0..<SIZE]) = (i div SIZE = r)"
  proof
    assume "i div SIZE = r"
    then have "i = r * SIZE + i mod SIZE" "i mod SIZE < SIZE" by (auto simp: SIZE_def)
    then show "i \<in> (\<lambda>j. r * SIZE + j) ` set [0..<SIZE]" by (metis atLeast_upt image_eqI lessThan_iff)
  qed (auto simp: SIZE_def)
  then show "i < length g \<Longrightarrow> ?thesis" by (simp add: clear_row_def fold_update_nth)
qed

lemma clear_col_nth: "length g = SIZE * SIZE \<Longrightarrow> c < SIZE \<Longrightarrow> i < length g \<Longrightarrow> clear_col c g ! i = (g ! i \<and> i mod SIZE \<noteq> c)"
proof -
  assume a: "length g = SIZE * SIZE" "c < SIZE" "i < length g"
  have "(i \<in> (\<lambda>j. j * SIZE + c) ` set [0..<SIZE]) = (i mod SIZE = c)"
  proof
    assume "i mod SIZE = c"
    then have "i = i div SIZE * SIZE + c" "i div SIZE < SIZE" using a by (auto simp: SIZE_def)
    then show "i \<in> (\<lambda>j. j * SIZE + c) ` set [0..<SIZE]" by (metis atLeast_upt image_eqI lessThan_iff)
  qed (use a in \<open>auto simp: SIZE_def\<close>)
  with a show ?thesis by (simp add: clear_col_def fold_update_nth)
qed

lemma clear_rows_length [simp]: "length (fold clear_row rs g) = length g" by (induction rs arbitrary: g) auto
lemma clear_cols_length [simp]: "length (fold clear_col rs g) = length g" by (induction rs arbitrary: g) auto

lemma clear_rows_nth: "i < length g \<Longrightarrow> fold clear_row rs g ! i = (g ! i \<and> i div SIZE \<notin> set rs)"
  by (induction rs arbitrary: g) (auto simp: clear_row_nth)

lemma clear_cols_nth:
  "length g = SIZE * SIZE \<Longrightarrow> \<forall>c \<in> set cs. c < SIZE \<Longrightarrow> i < length g \<Longrightarrow> fold clear_col cs g ! i = (g ! i \<and> i mod SIZE \<notin> set cs)"
  by (induction cs arbitrary: g) (auto simp: clear_col_nth)

lemma full_row_iff: "full_row g r \<longleftrightarrow> (\<forall>j < SIZE. g ! (r * SIZE + j))"
  by (auto simp: full_row_def list_all_iff)

lemma full_col_iff: "full_col g c \<longleftrightarrow> (\<forall>j < SIZE. g ! (j * SIZE + c))"
  by (auto simp: full_col_def list_all_iff)

lemma drop_cells:
  assumes "length (cells st) = SIZE * SIZE" "i < SIZE * SIZE"
  shows "cells (drop_block st b p) ! i =
    (let g = put_block b p (cells st) in g ! i \<and> \<not> full_row g (i div SIZE) \<and> \<not> full_col g (i mod SIZE))"
proof -
  have "i div SIZE < SIZE" "i mod SIZE < SIZE" using assms(2) by (auto simp: SIZE_def)
  with assms show ?thesis
    by (simp add: drop_block_def Let_def clear_cols_nth clear_rows_nth)
qed

lemma drop_length: "length (cells st) = SIZE * SIZE \<Longrightarrow> length (cells (drop_block st b p)) = SIZE * SIZE"
  by (simp add: drop_block_def Let_def)

lemma cell_less: "r < SIZE \<Longrightarrow> j < SIZE \<Longrightarrow> r * SIZE + j < SIZE * SIZE"
  by (auto simp: SIZE_def)

lemma no_line_left:
  assumes "length (cells st) = SIZE * SIZE" "r < SIZE"
  shows "\<not> full_row (cells (drop_block st b p)) r" "\<not> full_col (cells (drop_block st b p)) r"
proof -
  let ?g = "put_block b p (cells st)"
  have div: "(i * SIZE + j) div SIZE = i" "(i * SIZE + j) mod SIZE = j" if "j < SIZE" for i j
    using that by (auto simp: SIZE_def)
  show "\<not> full_row (cells (drop_block st b p)) r"
  proof
    assume f: "full_row (cells (drop_block st b p)) r"
    then have "?g ! (r * SIZE + j) \<and> \<not> full_row ?g r" if "j < SIZE" for j
      using that assms drop_cells [OF assms(1) cell_less [OF assms(2) that], of b p]
      by (simp add: full_row_iff div Let_def)
    moreover have "0 < SIZE" by (simp add: SIZE_def)
    ultimately show False unfolding full_row_iff by blast
  qed
  show "\<not> full_col (cells (drop_block st b p)) r"
  proof
    assume f: "full_col (cells (drop_block st b p)) r"
    then have "?g ! (j * SIZE + r) \<and> \<not> full_col ?g r" if "j < SIZE" for j
      using that assms drop_cells [OF assms(1) cell_less [OF that assms(2)], of b p]
      by (simp add: full_col_iff div Let_def)
    moreover have "0 < SIZE" by (simp add: SIZE_def)
    ultimately show False unfolding full_col_iff by blast
  qed
qed

section \<open>Replays\<close>

lemma replay_from_append:
  "replay_from seed st (xs @ ys) = (case replay_from seed st xs of None \<Rightarrow> None | Some st' \<Rightarrow> replay_from seed st' ys)"
  by (induction xs arbitrary: st) (auto simp: Let_def)

text \<open>What every replay keeps: the field is whole, no line is full, the count of blocks and the score agree with the moves.\<close>

definition sound_stones :: "stones \<Rightarrow> bool" where
  "sound_stones st \<longleftrightarrow> length (cells st) = SIZE * SIZE \<and>
     (\<forall>r < SIZE. \<not> full_row (cells st) r \<and> \<not> full_col (cells st) r) \<and> used st \<le> score st \<and> score st \<le> 2564 * used st"

lemma empty_sound: "sound_stones empty_stones"
  by (auto simp: sound_stones_def empty_stones_def full_row_iff full_col_iff SIZE_def)

lemma drop_sound: "sound_stones st \<Longrightarrow> b \<in> set BLOCKS \<Longrightarrow> sound_stones (drop_block st b p)"
proof -
  assume st: "sound_stones st" and b: "b \<in> set BLOCKS"
  let ?g = "put_block b p (cells st)"
  let ?n = "length (filter (full_row ?g) [0..<SIZE]) + length (filter (full_col ?g) [0..<SIZE])"
  have n: "?n \<le> 16"
    using length_filter_le [of "full_row ?g" "[0..<SIZE]"] length_filter_le [of "full_col ?g" "[0..<SIZE]"] by (simp add: SIZE_def)
  then have nn: "?n * ?n \<le> 16 * 16" by (rule mult_le_mono) (rule n)
  have l: "1 \<le> length b" "length b \<le> 4" using b by (auto simp: BLOCKS_def)
  have "used (drop_block st b p) = Suc (used st)" "score (drop_block st b p) = score st + length b + ?n * ?n * 10"
    by (simp_all add: drop_block_def Let_def)
  with st nn l show ?thesis
    unfolding sound_stones_def by (auto simp: drop_length no_line_left)
qed

lemma replay_sound: "replay_from seed st cs = Some st' \<Longrightarrow> sound_stones st \<Longrightarrow> sound_stones st' \<and> used st' = used st + length cs"
proof (induction cs arbitrary: st)
  case (Cons c cs)
  let ?d = "drop_block st (blockAt seed (used st)) c"
  from Cons.prems have "replay_from seed ?d cs = Some st'" by (simp add: Let_def split: if_splits)
  moreover have "sound_stones ?d" using Cons.prems(2) blockAt_in by (rule drop_sound)
  moreover have "used ?d = Suc (used st)" by (simp add: drop_block_def Let_def)
  ultimately show ?case using Cons.IH [of ?d] by simp
qed simp

end
