(* ===== verification/Turns.thy ===== *)
theory Turns
  imports Shop Steine
begin

text \<open>
  Games by link, \<open>turns.js\<close>: a link holds a document with all moves made so far, sealed. This theory has the
  prompts with their check (\<open>okAnswer\<close>), the seal, and the steps on a document (\<open>checked\<close>, \<open>moves\<close>, \<open>state\<close>, \<open>play\<close>,
  \<open>close\<close>, \<open>fresh\<close>, \<open>gate\<close>) for any table of games; the games are in \<open>Turn_Games\<close>. What \<open>JSON.parse\<close> makes of the
  unsealed bytes is the parameter \<open>parse\<close>.
\<close>

section \<open>Documents, prompts, games\<close>

record doc =
  dg :: string
  seed :: "32 word"
  dq :: jstring
  df :: string
  dw :: "jstring option"
  o_day :: "int option"

type_synonym answers = "json list"
type_synonym moves = "answers list"

datatype widget =
    Shown string
  | Hunt nat | Drop nat | Freeze nat | Voices nat | Explain nat
  | Own_check "json \<Rightarrow> moves \<Rightarrow> bool"
  | Group_list config
  | Opts nat nat
  | Whose | Inner | Blind | Nim | React | Door
  | Grid nat | Probe nat "doc \<Rightarrow> moves \<Rightarrow> nat list"
  | Blocks nat
  | Slide int "doc \<Rightarrow> int"
  | Money "json \<Rightarrow> answers \<Rightarrow> bool"
  | Text nat bool "jstring \<Rightarrow> doc \<Rightarrow> moves \<Rightarrow> bool"
  | Loose nat nat "nat option"
  | Listing nat nat bool
  | Ideas | Day
  | Pick nat "doc \<Rightarrow> moves \<Rightarrow> answers \<Rightarrow> nat"
  | Rank "doc \<Rightarrow> moves \<Rightarrow> answers \<Rightarrow> nat"
  | Alloc nat nat "doc \<Rightarrow> moves \<Rightarrow> answers \<Rightarrow> nat"
  | Never

record prompt =
  widget :: widget
  bytes :: "nat option"
  check :: "(json \<Rightarrow> doc \<Rightarrow> moves \<Rightarrow> answers \<Rightarrow> bool) option"

definition ask :: "widget \<Rightarrow> prompt" where
  "ask wd = \<lparr>widget = wd, bytes = None, check = None\<rparr>"

definition ask_bytes :: "nat \<Rightarrow> widget \<Rightarrow> prompt" where
  "ask_bytes n wd = \<lparr>widget = wd, bytes = Some n, check = None\<rparr>"

record game =
  turns :: "prompt list list"
  ends :: "doc \<Rightarrow> moves \<Rightarrow> bool"
  legacy :: "nat \<Rightarrow> json \<Rightarrow> json"
  store :: "nat \<Rightarrow> answers \<Rightarrow> json"
  snap :: "nat option"
  gateFrom :: bool
  gate :: "doc \<Rightarrow> moves \<Rightarrow> int"
  closing :: "int option"
  wish :: bool

definition plain_game :: "prompt list list \<Rightarrow> game" where
  "plain_game ts = \<lparr>turns = ts, ends = \<lambda>_ _. False, legacy = \<lambda>_ v. v, store = \<lambda>_. JArr, snap = None, gateFrom = False,
     gate = \<lambda>_ _. 0, closing = None, wish = False\<rparr>"

section \<open>Reading answers\<close>

fun as_array :: "json \<Rightarrow> json list option" where
  "as_array (JArr xs) = Some xs" | "as_array _ = None"

definition as_nat :: "json \<Rightarrow> nat option" where
  "as_nat v = (case as_integer v of Some n \<Rightarrow> if 0 \<le> n then Some (nat n) else None | None \<Rightarrow> None)"

fun all_some :: "'a option list \<Rightarrow> 'a list option" where
  "all_some [] = Some []"
| "all_some (x # xs) = (case x of None \<Rightarrow> None | Some y \<Rightarrow> map_option (Cons y) (all_some xs))"

definition nats :: "json \<Rightarrow> nat list option" where
  "nats v = Option.bind (as_array v) (\<lambda>xs. all_some (map as_nat xs))"

definition texts :: "json \<Rightarrow> jstring list option" where
  "texts v = Option.bind (as_array v) (\<lambda>xs. all_some (map as_string xs))"

definition int_in :: "json \<Rightarrow> int \<Rightarrow> int \<Rightarrow> bool" where
  "int_in v a b = (case as_integer v of Some n \<Rightarrow> a \<le> n \<and> n \<le> b | None \<Rightarrow> False)"

text \<open>An array of \<open>n\<close> different numbers below \<open>m\<close>.\<close>

definition chosen :: "json \<Rightarrow> nat \<Rightarrow> nat \<Rightarrow> bool" where
  "chosen v n m = (case nats v of Some xs \<Rightarrow> length xs = n \<and> distinct xs \<and> list_all (\<lambda>x. x < m) xs | None \<Rightarrow> False)"

definition clean_as_is :: "unicode \<Rightarrow> nat \<Rightarrow> jstring \<Rightarrow> bool" where
  "clean_as_is u n s \<longleftrightarrow> clean u s n \<noteq> [] \<and> clean u s n = s"

fun pair_of :: "json \<Rightarrow> (json \<times> json) option" where
  "pair_of (JArr [a, b]) = Some (a, b)" | "pair_of _ = None"

definition person_of :: "json \<Rightarrow> person option" where
  "person_of v = (case pair_of v of Some (a, b) \<Rightarrow>
     (case (as_string a, as_nat b) of (Some n, Some k) \<Rightarrow> Some (n, k) | _ \<Rightarrow> None) | None \<Rightarrow> None)"

definition mark_pair :: "json \<Rightarrow> (nat \<times> nat) option" where
  "mark_pair v = (case pair_of v of Some (a, b) \<Rightarrow>
     (case (as_nat a, as_nat b) of (Some n, Some k) \<Rightarrow> Some (n, k) | _ \<Rightarrow> None) | None \<Rightarrow> None)"

definition item_from :: "json \<Rightarrow> item option" where
  "item_from v = (case as_array v of
     Some [a, b, c, d] \<Rightarrow> (case (as_string a, as_nat b, as_nat c, Option.bind (as_array d) (\<lambda>ms. all_some (map mark_pair ms))) of
         (Some s, Some n, Some k, Some ms) \<Rightarrow> Some \<lparr>itext = s, itime = n, iqty = k, imarks = ms\<rparr> | _ \<Rightarrow> None)
   | _ \<Rightarrow> None)"

definition shop_from :: "json \<Rightarrow> shop option" where
  "shop_from v = (case pair_of v of Some (a, b) \<Rightarrow>
     (case (Option.bind (as_array a) (\<lambda>ps. all_some (map person_of ps)), Option.bind (as_array b) (\<lambda>is. all_some (map item_from is))) of
        (Some ps, Some is) \<Rightarrow> Some (ps, is) | _ \<Rightarrow> None) | None \<Rightarrow> None)"

section \<open>\<open>okAnswer\<close>\<close>

definition ok_list :: "unicode \<Rightarrow> nat \<Rightarrow> nat \<Rightarrow> bool \<Rightarrow> json \<Rightarrow> bool" where
  "ok_list u n mx same v = (case texts v of None \<Rightarrow> False | Some ss \<Rightarrow>
     length ss = n \<and> list_all (clean_as_is u mx) ss \<and> (same \<or> distinct (map (fold_text u) ss)))"

definition ok_loose :: "unicode \<Rightarrow> nat \<Rightarrow> nat \<Rightarrow> nat option \<Rightarrow> json \<Rightarrow> bool" where
  "ok_loose u n mx least v = (case texts v of None \<Rightarrow> False | Some ss \<Rightarrow> let given = filter (\<lambda>s. s \<noteq> []) ss in
     length ss = n \<and> (case least of None \<Rightarrow> True | Some k \<Rightarrow> k \<le> length given \<and> distinct (map (fold_text u) given)) \<and>
     list_all (\<lambda>s. s = [] \<or> clean u s mx = s) ss)"

definition ok_ideas :: "unicode \<Rightarrow> json \<Rightarrow> bool" where
  "ok_ideas u v = (case pair_of v of None \<Rightarrow> False | Some (a, b) \<Rightarrow> (case texts a of None \<Rightarrow> False | Some ss \<Rightarrow>
     1 \<le> length ss \<and> length ss \<le> 5 \<and> distinct (map (fold_text u) ss) \<and> list_all (clean_as_is u 40) ss \<and>
     int_in b 0 (int (length ss) - 1)))"

definition ok_door :: "json \<Rightarrow> bool" where
  "ok_door v = (case as_array v of
     Some [a, b, c] \<Rightarrow> int_in a 0 10 \<and> int_in c 0 999 \<and> (case as_integer c of Some n \<Rightarrow> int_in b 0 n | None \<Rightarrow> False)
   | _ \<Rightarrow> False)"

definition ok_alloc :: "nat \<Rightarrow> nat \<Rightarrow> nat \<Rightarrow> json \<Rightarrow> bool" where
  "ok_alloc most step n v = (case nats v of None \<Rightarrow> False | Some xs \<Rightarrow>
     length xs = n \<and> list_all (\<lambda>x. x \<le> most \<and> x mod step = 0) xs \<and> sum_list xs \<le> most)"

definition no_white :: "jstring \<Rightarrow> bool" where "no_white s = (\<not> list_ex white s)"

fun ok_widget :: "unicode \<Rightarrow> widget \<Rightarrow> json \<Rightarrow> doc \<Rightarrow> moves \<Rightarrow> answers \<Rightarrow> bool" where
  "ok_widget u (Shown _) v d m now = (v = JInt 0)"
| "ok_widget u (Hunt k) v d m now = int_in v 1 (int k)"
| "ok_widget u (Drop k) v d m now = int_in v 0 (int k)"
| "ok_widget u (Freeze k) v d m now = int_in v 0 (int k)"
| "ok_widget u (Voices k) v d m now = int_in v 0 (int k)"
| "ok_widget u (Explain k) v d m now = int_in v 0 (int k)"
| "ok_widget u (Own_check p) v d m now = p v m"
| "ok_widget u (Group_list S) v d m now = (case shop_from v of Some l \<Rightarrow> shopOk u S l | None \<Rightarrow> False)"
| "ok_widget u (Opts n k) v d m now = chosen v n k"
| "ok_widget u Whose v d m now = int_in v 0 2"
| "ok_widget u Inner v d m now = (case as_array v of Some xs \<Rightarrow> length xs = 5 \<and> list_all (\<lambda>x. int_in x (-20000) 20000) xs | None \<Rightarrow> False)"
| "ok_widget u Blind v d m now = int_in v 2000 30000"
| "ok_widget u Nim v d m now = (v = JInt 0 \<or> v = JInt 1)"
| "ok_widget u React v d m now = int_in v 0 60000"
| "ok_widget u Door v d m now = ok_door v"
| "ok_widget u (Grid n) v d m now = chosen v n 25"
| "ok_widget u (Probe n before) v d m now = (case nats v of Some xs \<Rightarrow> 1 \<le> length xs \<and> length xs \<le> n \<and>
     distinct (xs @ before d m) \<and> list_all (\<lambda>x. x \<le> 24) xs | None \<Rightarrow> False)"
| "ok_widget u (Blocks k) v d m now = (case nats v of Some xs \<Rightarrow> length xs \<le> k \<and> list_all (\<lambda>x. x \<le> 63) xs \<and>
     replay (seed d) xs \<noteq> None | None \<Rightarrow> False)"
| "ok_widget u (Slide lo hi) v d m now = int_in v lo (hi d)"
| "ok_widget u (Money p) v d m now = (as_integer v \<noteq> None \<and> p v now)"
| "ok_widget u (Text n one bad) v d m now = (case as_string v of Some s \<Rightarrow> clean_as_is u n s \<and> (one \<longrightarrow> no_white s) \<and> \<not> bad s d m | None \<Rightarrow> False)"
| "ok_widget u (Loose n mx least) v d m now = ok_loose u n mx least v"
| "ok_widget u (Listing n mx same) v d m now = ok_list u n mx same v"
| "ok_widget u Ideas v d m now = ok_ideas u v"
| "ok_widget u Day v d m now = int_in v 20000 30000"
| "ok_widget u (Pick n from) v d m now = chosen v n (from d m now)"
| "ok_widget u (Rank from) v d m now = chosen v (from d m now) (from d m now)"
| "ok_widget u (Alloc most step from) v d m now = ok_alloc most step (from d m now) v"
| "ok_widget u Never v d m now = False"

definition too_long :: "prompt \<Rightarrow> json \<Rightarrow> bool" where
  "too_long p v = (case (bytes p, texts v) of (Some n, Some ss) \<Rightarrow> n < utf8_length (concat ss) | _ \<Rightarrow> False)"

definition okAnswer :: "unicode \<Rightarrow> prompt \<Rightarrow> json \<Rightarrow> doc \<Rightarrow> moves \<Rightarrow> answers \<Rightarrow> bool" where
  "okAnswer u p v d m now =
     (if too_long p v then False else case check p of Some c \<Rightarrow> c v d m now | None \<Rightarrow> ok_widget u (widget p) v d m now)"

section \<open>The seal\<close>

fun stream :: "nat \<Rightarrow> 32 word \<Rightarrow> nat list" where
  "stream 0 a = []"
| "stream (Suc n) a = (let (b, a') = draw 256 a in b # stream n a')"

definition seal_stream :: "32 word \<Rightarrow> nat \<Rightarrow> nat list" where
  "seal_stream sd n = stream n (hash32 (js ''seal|'' @ digits (unat sd)))"

definition xor_bytes :: "nat list \<Rightarrow> nat list \<Rightarrow> nat list" where
  "xor_bytes bs ks = map2 (\<lambda>b k. b XOR k) bs ks"

text \<open>\<open>btoa\<close> and \<open>atob\<close> in the alphabet of links, without padding.\<close>

definition b64_char :: "nat \<Rightarrow> nat" where
  "b64_char v = (if v < 26 then 65 + v else if v < 52 then 71 + v else if v < 62 then v - 4 else if v = 62 then 45 else 95)"

definition b64_val :: "nat \<Rightarrow> nat option" where
  "b64_val c = (if 65 \<le> c \<and> c \<le> 90 then Some (c - 65) else if 97 \<le> c \<and> c \<le> 122 then Some (c - 71)
     else if 48 \<le> c \<and> c \<le> 57 then Some (c + 4) else if c = 45 then Some 62 else if c = 95 then Some 63 else None)"

fun b64_groups :: "nat list \<Rightarrow> nat list" where
  "b64_groups (a # b # c # bs) = (a div 4) # (a mod 4 * 16 + b div 16) # (b mod 16 * 4 + c div 64) # (c mod 64) # b64_groups bs"
| "b64_groups [a, b] = [a div 4, a mod 4 * 16 + b div 16, b mod 16 * 4]"
| "b64_groups [a] = [a div 4, a mod 4 * 16]"
| "b64_groups [] = []"

fun b64_bytes :: "nat list \<Rightarrow> nat list option" where
  "b64_bytes (p # r # s # t # vs) = map_option (\<lambda>bs. (p * 4 + r div 16) # (r mod 16 * 16 + s div 4) # (s mod 4 * 64 + t) # bs) (b64_bytes vs)"
| "b64_bytes [p, r, s] = Some [p * 4 + r div 16, r mod 16 * 16 + s div 4]"
| "b64_bytes [p, r] = Some [p * 4 + r div 16]"
| "b64_bytes [p] = None"
| "b64_bytes [] = Some []"

definition to_b64 :: "nat list \<Rightarrow> jstring" where
  "to_b64 bs = map b64_char (b64_groups bs)"

definition from_b64 :: "jstring \<Rightarrow> nat list option" where
  "from_b64 s = Option.bind (all_some (map b64_val s)) b64_bytes"

text \<open>\<open>TextEncoder\<close>.\<close>

fun utf8 :: "jstring \<Rightarrow> nat list" where
  "utf8 [] = []"
| "utf8 [c] = (if c < 0x80 then [c] else if c < 0x800 then [192 + c div 64, 128 + c mod 64]
     else if surrogate c then [239, 191, 189] else [224 + c div 4096, 128 + c div 64 mod 64, 128 + c mod 64])"
| "utf8 (c # d # cs) =
     (if high_surrogate c \<and> low_surrogate d then
        (let p = 0x10000 + (c - 0xD800) * 1024 + (d - 0xDC00)
         in [240 + p div 262144, 128 + p div 4096 mod 64, 128 + p div 64 mod 64, 128 + p mod 64] @ utf8 cs)
      else (if c < 0x80 then [c] else if c < 0x800 then [192 + c div 64, 128 + c mod 64]
        else if surrogate c then [239, 191, 189] else [224 + c div 4096, 128 + c div 64 mod 64, 128 + c mod 64]) @ utf8 (d # cs))"

definition blob_ok :: "jstring \<Rightarrow> bool" where
  "blob_ok s \<longleftrightarrow> length s \<le> 900 \<and> list_all (\<lambda>c. b64_val c \<noteq> None) s"

definition seal :: "json list \<Rightarrow> 32 word \<Rightarrow> jstring" where
  "seal ms sd = (let b = utf8 (stringify (JArr ms)) in to_b64 (xor_bytes b (seal_stream sd (length b))))"

definition unseal :: "(nat list \<Rightarrow> json option) \<Rightarrow> jstring \<Rightarrow> 32 word \<Rightarrow> json list" where
  "unseal parse blob sd =
     (if blob = [] \<or> \<not> blob_ok blob then []
      else case from_b64 blob of None \<Rightarrow> []
      | Some bin \<Rightarrow> (case parse (xor_bytes bin (seal_stream sd (length bin))) of
          Some (JArr ms) \<Rightarrow> ms | _ \<Rightarrow> []))"

section \<open>Steps on a document\<close>

text \<open>The answers of one turn, each checked with those before it.\<close>

definition ok_turn :: "unicode \<Rightarrow> prompt list \<Rightarrow> answers \<Rightarrow> doc \<Rightarrow> moves \<Rightarrow> bool" where
  "ok_turn u want got d m \<longleftrightarrow> length got = length want \<and>
     list_all (\<lambda>i. okAnswer u (want ! i) (got ! i) d m (take i got)) [0..<length want]"

fun checked_from :: "unicode \<Rightarrow> game \<Rightarrow> doc \<Rightarrow> moves \<Rightarrow> json list \<Rightarrow> moves" where
  "checked_from u G d out [] = out"
| "checked_from u G d out (r # raw) =
     (if length out \<ge> length (turns G) \<or> ends G d out then out
      else case as_array (legacy G (length out) r) of
          None \<Rightarrow> out
        | Some got \<Rightarrow> if ok_turn u (turns G ! length out) got d out then checked_from u G d (out @ [got]) raw else out)"

definition checked :: "unicode \<Rightarrow> game \<Rightarrow> doc \<Rightarrow> json list \<Rightarrow> moves" where
  "checked u G d raw = checked_from u G d [] raw"

definition moves :: "unicode \<Rightarrow> (nat list \<Rightarrow> json option) \<Rightarrow> game \<Rightarrow> doc \<Rightarrow> moves" where
  "moves u parse G d = checked u G d (unseal parse (dq d) (seed d))"

definition is_over :: "game \<Rightarrow> doc \<Rightarrow> moves \<Rightarrow> bool" where
  "is_over G d m \<longleftrightarrow> length m \<ge> length (turns G) \<or> ends G d m"

record view =
  v_moves :: moves
  v_turn :: nat
  v_total :: nat
  v_who :: nat
  v_over :: bool
  v_prompts :: "prompt list"

definition state :: "unicode \<Rightarrow> (nat list \<Rightarrow> json option) \<Rightarrow> game \<Rightarrow> doc \<Rightarrow> view" where
  "state u parse G d = (let m = moves u parse G d; ov = is_over G d m in
     \<lparr>v_moves = m, v_turn = length m, v_total = length (turns G), v_who = length m mod 2, v_over = ov,
      v_prompts = (if ov then [] else turns G ! length m)\<rparr>)"

definition play :: "unicode \<Rightarrow> (nat list \<Rightarrow> json option) \<Rightarrow> game \<Rightarrow> doc \<Rightarrow> answers \<Rightarrow> int \<Rightarrow> doc option" where
  "play u parse G d answers today =
     (let st = state u parse G d in
      if v_over st \<or> \<not> ok_turn u (v_prompts st) answers d (v_moves st) then None
      else
        let out = (case snap G of Some k \<Rightarrow> take k (v_moves st) | None \<Rightarrow> v_moves st) @ [answers];
            d1 = (if wish G then d\<lparr>o_day := None\<rparr> else d);
            d2 = d1\<lparr>dq := seal (map (\<lambda>t. store G t (out ! t)) [0..<length out]) (seed d)\<rparr>
        in Some (if gateFrom G \<and> v_turn st = 0
                 then d2\<lparr>o_day := map_option (\<lambda>n. today + n) (as_integer (answers ! 1))\<rparr> else d2))"

definition gate_left :: "unicode \<Rightarrow> (nat list \<Rightarrow> json option) \<Rightarrow> game \<Rightarrow> doc \<Rightarrow> int \<Rightarrow> int" where
  "gate_left u parse G d today = (let due = gate G d (moves u parse G d); left = (if due \<noteq> 0 then due - today else 0)
     in if left > 0 then left else 0)"

definition close_game :: "unicode \<Rightarrow> (nat list \<Rightarrow> json option) \<Rightarrow> game \<Rightarrow> doc \<Rightarrow> doc option" where
  "close_game u parse G d = (let st = state u parse G d in
     case closing G of None \<Rightarrow> None
     | Some c \<Rightarrow> if v_over st \<or> v_turn st = 0 then None else Some (d\<lparr>o_day := Some c\<rparr>))"

definition fresh :: "doc \<Rightarrow> 32 word \<Rightarrow> doc" where
  "fresh d sd = d\<lparr>seed := sd, dq := [], o_day := None\<rparr>"

end
