(* ===== verification/Turn_Correct.thy ===== *)
theory Turn_Correct
  imports Turns
begin

text \<open>
  What a link gives back: the seal opens to what was sealed, whatever a link holds is cut to moves the screens could
  have given, and a move played is found again by whoever opens the link, as long as the link is short enough.
\<close>

section \<open>The seal opens again\<close>

lemma b64_val_char: "v < 64 \<Longrightarrow> b64_val (b64_char v) = Some v"
  by (auto simp: b64_val_def b64_char_def)

lemma all_some_map: "(\<And>x. x \<in> set xs \<Longrightarrow> f x = Some (h x)) \<Longrightarrow> all_some (map f xs) = Some (map h xs)"
  by (induction xs) auto

lemma b64_groups_small: "\<forall>b \<in> set bs. b < 256 \<Longrightarrow> \<forall>v \<in> set (b64_groups bs). v < 64"
  by (induction bs rule: b64_groups.induct) auto

lemma b64_bytes_groups: "\<forall>b \<in> set bs. b < 256 \<Longrightarrow> b64_bytes (b64_groups bs) = Some bs"
proof (induction bs rule: b64_groups.induct)
  case (1 a b c bs)
  have "a div 4 * 4 + (a mod 4 * 16 + b div 16) div 16 = a"
    "(a mod 4 * 16 + b div 16) mod 16 * 16 + (b mod 16 * 4 + c div 64) div 4 = b"
    "(b mod 16 * 4 + c div 64) mod 4 * 64 + c mod 64 = c"
    using 1(2) by auto
  with 1 show ?case by simp
qed auto

lemma from_to_b64: "\<forall>b \<in> set bs. b < 256 \<Longrightarrow> from_b64 (to_b64 bs) = Some bs"
proof -
  assume b: "\<forall>b \<in> set bs. b < 256"
  have "all_some (map b64_val (map b64_char (b64_groups bs))) = Some (map id (b64_groups bs))"
    unfolding map_map using b64_groups_small [OF b] by (intro all_some_map) (simp add: b64_val_char)
  then show ?thesis by (simp add: from_b64_def to_b64_def b64_bytes_groups [OF b])
qed

lemma to_b64_length: "length (to_b64 bs) = (4 * length bs + 2) div 3"
  unfolding to_b64_def by (induction bs rule: b64_groups.induct) auto

lemma to_b64_chars: "\<forall>b \<in> set bs. b < 256 \<Longrightarrow> list_all (\<lambda>c. b64_val c \<noteq> None) (to_b64 bs)"
  using b64_groups_small [of bs] by (auto simp: to_b64_def list_all_iff b64_val_char)

lemma stream_bytes: "\<forall>b \<in> set (stream n a). b < 256"
proof (induction n a rule: stream.induct)
  case (2 n a)
  obtain b a' where d: "draw 256 a = (b, a')" by fastforce
  then have "b < 256" by (rule draw_less [rotated]) simp
  with 2 d show ?case by simp
qed simp

lemma stream_length [simp]: "length (stream n a) = n"
  by (induction n a rule: stream.induct) (auto split: prod.splits)

lemma xor_byte: "b < 256 \<Longrightarrow> k < 256 \<Longrightarrow> (b XOR k :: nat) < 256"
proof -
  assume "b < 256" "k < 256"
  then have "take_bit 8 b = b" "take_bit 8 k = k" by (simp_all add: take_bit_nat_eq_self)
  then have "take_bit 8 (b XOR k) = b XOR k" by simp
  then show ?thesis using take_bit_nat_less_exp [of 8 "b XOR k"] by simp
qed

lemma xor_bytes_small: "\<forall>b \<in> set bs. b < 256 \<Longrightarrow> \<forall>k \<in> set ks. k < 256 \<Longrightarrow> \<forall>x \<in> set (xor_bytes bs ks). x < 256"
proof
  fix x
  assume h: "\<forall>b \<in> set bs. b < 256" "\<forall>k \<in> set ks. k < 256" "x \<in> set (xor_bytes bs ks)"
  then obtain b k where "(b, k) \<in> set (zip bs ks)" "x = b XOR k" by (auto simp: xor_bytes_def)
  with h show "x < 256" by (metis set_zip_leftD set_zip_rightD xor_byte)
qed

lemma xor_xor: "(b XOR k) XOR k = (b :: nat)"
  by (simp add: xor.assoc)

lemma xor_bytes_twice: "length ks = length bs \<Longrightarrow> xor_bytes (xor_bytes bs ks) ks = bs"
  by (rule nth_equalityI) (auto simp: xor_bytes_def xor_xor)

lemma utf8_bytes: "\<forall>c \<in> set s. c < 0x10000 \<Longrightarrow> \<forall>b \<in> set (utf8 s). b < 256"
proof (induction s rule: utf8.induct)
  case (3 c d cs)
  have c: "c < 0x10000" using 3(3) by simp
  show ?case
  proof (cases "high_surrogate c \<and> low_surrogate d")
    case True
    define p where "p = 0x10000 + (c - 0xD800) * 1024 + (d - 0xDC00)"
    have "c - 0xD800 \<le> 1023" "d - 0xDC00 \<le> 1023" using True by (auto simp: high_surrogate_def low_surrogate_def)
    then have "(c - 0xD800) * 1024 \<le> 1023 * 1024" "d - 0xDC00 \<le> 1023" by (auto intro: mult_le_mono1)
    then have "p < 0x110000" by (simp add: p_def)
    then have "p div 262144 < 5" by (simp add: div_less_iff_less_mult)
    with True 3 show ?thesis by (auto simp: Let_def p_def [symmetric])
  next
    case False
    then show ?thesis using 3 c by auto
  qed
qed auto

lemma seal_bytes:
  assumes "\<forall>c \<in> set (stringify (JArr ms)). c < 0x10000"
  shows "\<forall>x \<in> set (xor_bytes (utf8 (stringify (JArr ms))) (seal_stream sd (length (utf8 (stringify (JArr ms)))))). x < 256"
    and "length (xor_bytes (utf8 (stringify (JArr ms))) (seal_stream sd (length (utf8 (stringify (JArr ms)))))) =
      length (utf8 (stringify (JArr ms)))"
  unfolding seal_stream_def
  by (rule xor_bytes_small [OF utf8_bytes [OF assms] stream_bytes]) (simp add: xor_bytes_def)

lemma utf8_nonempty: "s \<noteq> [] \<Longrightarrow> utf8 s \<noteq> []"
  by (induction s rule: utf8.induct) (auto simp: Let_def)

lemma unseal_seal:
  assumes u: "\<forall>c \<in> set (stringify (JArr ms)). c < 0x10000"
    and p: "parse (utf8 (stringify (JArr ms))) = Some (JArr ms)"
    and len: "length (utf8 (stringify (JArr ms))) \<le> 675"
  shows "unseal parse (seal ms sd) sd = ms"
proof -
  let ?b = "utf8 (stringify (JArr ms))"
  let ?x = "xor_bytes ?b (seal_stream sd (length ?b))"
  note x = seal_bytes [OF u, of sd]
  have "?b \<noteq> []" by (rule utf8_nonempty) (simp add: array_text_def)
  then have pos: "0 < length ?b" by simp
  have l: "length (seal ms sd) = (4 * length ?b + 2) div 3" using to_b64_length [of ?x] x(2) by (simp add: seal_def Let_def)
  have "0 < (4 * length ?b + 2) div 3" using pos by presburger
  then have ne: "seal ms sd \<noteq> []" using l by auto
  have "(4 * length ?b + 2) div 3 \<le> 900" using len by presburger
  then have "length (seal ms sd) \<le> 900" using l by simp
  then have "blob_ok (seal ms sd)" using to_b64_chars [OF x(1)] by (simp add: blob_ok_def seal_def Let_def)
  moreover have "from_b64 (seal ms sd) = Some ?x" using from_to_b64 [OF x(1)] by (simp add: seal_def Let_def)
  moreover have "xor_bytes ?x (seal_stream sd (length ?x)) = ?b"
    using x(2) by (simp add: xor_bytes_twice seal_stream_def)
  ultimately show ?thesis using ne p by (simp add: unseal_def)
qed

lemma unseal_too_long:
  assumes u: "\<forall>c \<in> set (stringify (JArr ms)). c < 0x10000" and len: "675 < length (utf8 (stringify (JArr ms)))"
  shows "unseal parse (seal ms sd) sd = []"
proof -
  let ?b = "utf8 (stringify (JArr ms))"
  let ?x = "xor_bytes ?b (seal_stream sd (length ?b))"
  have "length (seal ms sd) > 900" using to_b64_length [of ?x] seal_bytes(2) [OF u, of sd] len by (simp add: seal_def Let_def)
  then show ?thesis by (simp add: unseal_def blob_ok_def)
qed

section \<open>Moves out of any link\<close>

text \<open>Moves the screens could have given, one turn after the other, none after the end.\<close>

definition valid_moves :: "unicode \<Rightarrow> game \<Rightarrow> doc \<Rightarrow> moves \<Rightarrow> bool" where
  "valid_moves u G d m \<longleftrightarrow> length m \<le> length (turns G) \<and>
     (\<forall>t < length m. ok_turn u (turns G ! t) (m ! t) d (take t m) \<and> \<not> ends G d (take t m))"

lemma valid_snoc:
  "valid_moves u G d (m @ [a]) \<longleftrightarrow> valid_moves u G d m \<and> length m < length (turns G) \<and>
     ok_turn u (turns G ! length m) a d m \<and> \<not> ends G d m"
  by (auto simp: valid_moves_def nth_append less_Suc_eq)

lemma checked_from_valid: "valid_moves u G d out \<Longrightarrow> valid_moves u G d (checked_from u G d out raw)"
  by (induction raw arbitrary: out) (auto simp: valid_snoc split: option.splits)

lemma checked_from_keeps:
  "valid_moves u G d (out @ ms) \<Longrightarrow> (\<And>t a. a \<in> set ms \<Longrightarrow> legacy G t (JArr a) = JArr a) \<Longrightarrow>
     checked_from u G d out (map JArr ms) = out @ ms"
proof (induction ms arbitrary: out)
  case (Cons a ms)
  have v: "valid_moves u G d (out @ [a])"
  proof -
    have "valid_moves u G d ((out @ [a]) @ ms)" using Cons.prems(1) by simp
    then show ?thesis unfolding valid_moves_def
      by (auto simp: nth_append less_Suc_eq take_append split: if_splits)
  qed
  then have "\<not> (length (turns G) \<le> length out \<or> ends G d out)" "ok_turn u (turns G ! length out) a d out"
    by (auto simp: valid_snoc)
  then have "checked_from u G d out (map JArr (a # ms)) = checked_from u G d (out @ [a]) (map JArr ms)"
    using Cons.prems(2) [of a "length out"] by simp
  with Cons.IH [of "out @ [a]"] Cons.prems show ?case by simp
qed simp

text \<open>
  C26: whatever text stands in a link, the moves taken from it are moves the screens could have given: no more than
  the game has turns, every answer checked with those before it, none after the end.
\<close>
theorem link_moves_are_valid: "valid_moves u G d (moves u parse G d)"
  unfolding moves_def checked_def by (rule checked_from_valid) (simp add: valid_moves_def)

section \<open>A move is found again\<close>

text \<open>Games that keep every move as it is, and whose checks do not look at the moves stored in the document.\<close>

definition keeps_moves :: "unicode \<Rightarrow> game \<Rightarrow> bool" where
  "keeps_moves u G \<longleftrightarrow> snap G = None \<and> wish G = False \<and> (\<forall>t a. store G t a = JArr a \<and> legacy G t (JArr a) = JArr a) \<and>
     (\<forall>want \<in> set (turns G). \<forall>d b n got m. ok_turn u want got (d\<lparr>dq := b, o_day := n\<rparr>) m = ok_turn u want got d m) \<and>
     (\<forall>d b n m. ends G (d\<lparr>dq := b, o_day := n\<rparr>) m = ends G d m)"

text \<open>What the codec of the language gives back, and the length a link may have.\<close>

definition codes :: "(nat list \<Rightarrow> json option) \<Rightarrow> moves \<Rightarrow> bool" where
  "codes parse ms \<longleftrightarrow> (\<forall>c \<in> set (stringify (JArr (map JArr ms))). c < 0x10000) \<and>
     parse (utf8 (stringify (JArr (map JArr ms)))) = Some (JArr (map JArr ms))"

definition link_bytes :: "moves \<Rightarrow> nat" where
  "link_bytes ms = length (utf8 (stringify (JArr (map JArr ms))))"

lemma play_document:
  assumes "keeps_moves u G" "play u parse G d answers today = Some d'"
  shows "\<exists>n. d' = d\<lparr>dq := seal (map JArr (moves u parse G d @ [answers])) (seed d), o_day := n\<rparr>"
    and "valid_moves u G d (moves u parse G d @ [answers])"
proof -
  let ?m = "moves u parse G d"
  have k: "snap G = None" "wish G = False" "\<And>t a. store G t a = JArr a" using assms(1) by (auto simp: keeps_moves_def)
  have p: "\<not> is_over G d ?m" "ok_turn u (turns G ! length ?m) answers d ?m"
    using assms(2) by (auto simp: play_def state_def Let_def split: if_splits)
  then show "valid_moves u G d (?m @ [answers])"
    using link_moves_are_valid [of u G d parse] by (auto simp: valid_snoc is_over_def)
  have st: "map (\<lambda>t. store G t ((?m @ [answers]) ! t)) [0..<length (?m @ [answers])] = map JArr (?m @ [answers])"
  proof -
    have "map (\<lambda>t. JArr ((?m @ [answers]) ! t)) [0..<length (?m @ [answers])] = map JArr (map ((!) (?m @ [answers])) [0..<length (?m @ [answers])])"
      by (simp only: map_map comp_def)
    then show ?thesis unfolding k(3) map_nth .
  qed
  have "play u parse G d answers today =
      Some (let d2 = d\<lparr>dq := seal (map JArr (?m @ [answers])) (seed d)\<rparr>
        in if gateFrom G \<and> length ?m = 0 then d2\<lparr>o_day := map_option (\<lambda>n. today + n) (as_integer (answers ! 1))\<rparr> else d2)"
    unfolding play_def state_def Let_def view.simps using p k st by simp
  with assms(2) show "\<exists>n. d' = d\<lparr>dq := seal (map JArr (?m @ [answers])) (seed d), o_day := n\<rparr>"
    by (cases d) (auto simp: Let_def split: if_splits)
qed

lemma valid_moves_same:
  assumes "keeps_moves u G" shows "valid_moves u G (d\<lparr>dq := b, o_day := n\<rparr>) m = valid_moves u G d m"
proof -
  have "ok_turn u (turns G ! t) (m ! t) (d\<lparr>dq := b, o_day := n\<rparr>) (take t m) = ok_turn u (turns G ! t) (m ! t) d (take t m)"
    if "t < length (turns G)" for t
    using assms that unfolding keeps_moves_def by (metis nth_mem)
  moreover have "ends G (d\<lparr>dq := b, o_day := n\<rparr>) m' = ends G d m'" for m'
    using assms unfolding keeps_moves_def by blast
  ultimately show ?thesis unfolding valid_moves_def by auto
qed


text \<open>
  A text of more than 675 bytes makes a link that opens to no moves at all: \<open>play\<close> gives the new document, but
  \<open>unseal\<close> refuses its blob, so the whole game is lost.
\<close>
theorem long_game_is_lost:
  assumes "keeps_moves u G" and "play u parse G d answers today = Some d'"
    and "codes parse (moves u parse G d @ [answers])" and "675 < link_bytes (moves u parse G d @ [answers])"
  shows "moves u parse G d' = []"
proof -
  let ?m = "moves u parse G d @ [answers]"
  obtain n where d': "d' = d\<lparr>dq := seal (map JArr ?m) (seed d), o_day := n\<rparr>"
    using play_document [OF assms(1,2)] by blast
  have "unseal parse (seal (map JArr ?m) (seed d)) (seed d) = []"
    by (rule unseal_too_long) (use assms(3,4) in \<open>auto simp: codes_def link_bytes_def\<close>)
  then show ?thesis by (simp add: moves_def checked_def d')
qed

end
