(* ===== verification/Turn_Texts.thy ===== *)
theory Turn_Texts
  imports Turn_Correct "HOL-Library.Monad_Syntax"
begin

text \<open>
  What the games of \<open>turns.js\<close> share: the text tables of a language, \<open>fmt\<close>, the draws from the data lists, and the
  reading of answers. A read past the end of an answer is \<open>None\<close> where the code would get \<open>undefined\<close>.
\<close>

section \<open>Texts\<close>

text \<open>
  The texts of one language: \<open>T(lang)\<close>, the lists of \<open>turn.json\<close> in their column, and the tables whose entries are
  several texts. The numbers of entries are those of \<open>turn.json\<close>.
\<close>

record lang =
  X :: "string \<Rightarrow> jstring"
  pairs :: "string \<Rightarrow> jstring list"
  sides :: "string \<Rightarrow> jstring list list"

definition data_size :: "string \<Rightarrow> nat" where
  "data_size k = (case map_of [(''words'', 100), (''smuggle'', 36), (''praise'', 24), (''items'', 12), (''fates'', 16),
     (''either'', 24), (''tasks'', 4), (''vows'', 12), (''forfeit'', 1), (''jobs'', 12), (''who'', 8), (''what'', 8), (''why'', 8),
     (''vouchers'', 12), (''prizes'', 6), (''awards'', 6), (''fights'', 8), (''verdicts'', 5), (''lifts'', 6), (''fates2'', 10),
     (''coined'', 24), (''moments'', 24), (''buyers'', 12), (''starts'', 6), (''statues'', 12), (''figures'', 18),
     (''past'', 5), (''doorFill'', 5), (''postStarts'', 3), (''doorRules'', 10), (''stories'', 3)] k of Some n \<Rightarrow> n | None \<Rightarrow> 0)"

text \<open>The tables whose entries are several texts: how many entries, and how many texts in each.\<close>

definition side_size :: "string \<Rightarrow> nat \<times> nat" where
  "side_size k = (case map_of [(''envs'', 1, 3), (''tiers'', 6, 8), (''sets'', 2, 7), (''rule'', 4, 8), (''polite'', 3, 6),
     (''apologies'', 3, 4), (''either'', 24, 2), (''rap'', 4, 6)] k of Some p \<Rightarrow> p | None \<Rightarrow> (0, 0))"

definition data_ok :: "lang \<Rightarrow> bool" where
  "data_ok L \<longleftrightarrow> (\<forall>k. length (pairs L k) = data_size k \<and> length (sides L k) = fst (side_size k) \<and>
     list_all (\<lambda>l. length l = snd (side_size k)) (sides L k))"

record outcome =
  headline :: jstring
  body :: "jstring list"

definition word_char :: "nat \<Rightarrow> bool" where
  "word_char c \<longleftrightarrow> 48 \<le> c \<and> c \<le> 57 \<or> 65 \<le> c \<and> c \<le> 90 \<or> c = 95 \<or> 97 \<le> c \<and> c \<le> 122"

text \<open>\<open>s.replace(/\{(\w+)\}/g, \<dots>)\<close>.\<close>

function (sequential) fmt :: "jstring \<Rightarrow> (string \<times> jstring) list \<Rightarrow> jstring" where
  "fmt [] kvs = []"
| "fmt (c # cs) kvs =
     (let k = takeWhile word_char cs; r = dropWhile word_char cs in
      if c = 123 \<and> k \<noteq> [] \<and> r \<noteq> [] \<and> hd r = 125
      then (case map_of (map (\<lambda>(n, v). (js n, v)) kvs) k of Some v \<Rightarrow> v | None \<Rightarrow> js ''undefined'') @ fmt (tl r) kvs
      else c # fmt cs kvs)"
  by pat_completeness auto
termination
proof (relation "measure (\<lambda>(s, kvs). length s)", simp, goal_cases)
  case (1 c cs kvs k r)
  have "length (dropWhile word_char cs) \<le> length cs" by (rule length_dropWhile_le)
  with 1 show ?case by simp
next
  case (2 c cs kvs k r)
  then show ?case by simp
qed

definition num_text :: "int \<Rightarrow> jstring" where "num_text n = whole_text n"

definition join_with :: "string \<Rightarrow> jstring list \<Rightarrow> jstring" where
  "join_with sep xs = (case xs of [] \<Rightarrow> [] | y # ys \<Rightarrow> y @ concat (map (\<lambda>s. js sep @ s) ys))"

section \<open>Draws from the data\<close>

definition mixed :: "doc \<Rightarrow> string \<Rightarrow> nat \<Rightarrow> nat list" where
  "mixed d tag n = mix (seed d) (js tag) n"

definition mixed_at :: "doc \<Rightarrow> string \<Rightarrow> nat \<Rightarrow> nat \<Rightarrow> nat list" where
  "mixed_at d tag k n = mix (seed d) (js tag @ digits k) n"

definition pick_pairs :: "lang \<Rightarrow> string \<Rightarrow> nat list \<Rightarrow> jstring list" where
  "pick_pairs L k is = map (\<lambda>i. pairs L k ! i) is"

definition board :: "lang \<Rightarrow> doc \<Rightarrow> jstring list" where
  "board L d = pick_pairs L ''words'' (take 9 (mixed d ''wort'' 100))"

definition smuggle :: "doc \<Rightarrow> nat list" where "smuggle d = take 12 (mixed d ''schmuggel'' 36)"

definition smugglePick :: "doc \<Rightarrow> bool \<Rightarrow> nat list" where
  "smugglePick d second = (if second then take 3 (drop 3 (smuggle d)) else take 3 (smuggle d))"

definition smuggleSpot :: "doc \<Rightarrow> bool \<Rightarrow> nat list" where
  "smuggleSpot d second = (let s = smuggle d; ord = mixed d ''board'' 12; mine = smugglePick d second
     in filter (\<lambda>at'. s ! (ord ! at') \<in> set mine) [0..<12])"

definition lots :: "lang \<Rightarrow> doc \<Rightarrow> jstring list" where
  "lots L d = pick_pairs L ''items'' (take 5 (mixed d ''items'' 12))"

definition worth :: "doc \<Rightarrow> nat \<Rightarrow> nat list" where
  "worth d who = map (\<lambda>i. (i + 1) * 10) (mixed_at d ''wert'' who 5)"

definition hits :: "nat list \<Rightarrow> nat list \<Rightarrow> nat list" where
  "hits a b = filter (\<lambda>x. x \<in> set b) a"

text \<open>\<open>places\<close>: where each number stands in an order.\<close>

definition places :: "nat list \<Rightarrow> nat list" where
  "places ord = map (\<lambda>v. index_of v ord) [0..<length ord]"

definition things :: "lang \<Rightarrow> doc \<Rightarrow> jstring" where
  "things L d = (case dw d of Some s \<Rightarrow> s | None \<Rightarrow> X L ''things'')"

section \<open>Reading answers\<close>

definition get :: "'a list \<Rightarrow> nat \<Rightarrow> 'a option" where
  "get xs i = (if i < length xs then Some (xs ! i) else None)"

definition answer :: "moves \<Rightarrow> nat \<Rightarrow> nat \<Rightarrow> json option" where
  "answer m t i = do { a \<leftarrow> get m t; get a i }"

definition number :: "moves \<Rightarrow> nat \<Rightarrow> nat \<Rightarrow> int option" where
  "number m t i = do { v \<leftarrow> answer m t i; as_integer v }"

definition picks :: "moves \<Rightarrow> nat \<Rightarrow> nat \<Rightarrow> nat list option" where
  "picks m t i = do { v \<leftarrow> answer m t i; nats v }"

definition choice :: "moves \<Rightarrow> nat \<Rightarrow> nat \<Rightarrow> nat option" where
  "choice m t i = do { xs \<leftarrow> picks m t i; get xs 0 }"

definition line :: "moves \<Rightarrow> nat \<Rightarrow> nat \<Rightarrow> jstring option" where
  "line m t i = do { v \<leftarrow> answer m t i; as_string v }"

definition listed :: "moves \<Rightarrow> nat \<Rightarrow> nat \<Rightarrow> jstring list option" where
  "listed m t i = do { v \<leftarrow> answer m t i; texts v }"

text \<open>The single picks of the answers \<open>i\<close> to \<open>j - 1\<close> of a turn.\<close>

definition choices :: "moves \<Rightarrow> nat \<Rightarrow> nat \<Rightarrow> nat \<Rightarrow> nat list option" where
  "choices m t i j = all_some (map (choice m t) [i..<j])"

definition len_of :: "json option \<Rightarrow> nat" where
  "len_of v = (case Option.bind v as_array of Some xs \<Rightarrow> length xs | None \<Rightarrow> 0)"

definition size_of :: "string \<Rightarrow> doc \<Rightarrow> moves \<Rightarrow> answers \<Rightarrow> nat" where
  "size_of k d m now = data_size k"

definition const_of :: "nat \<Rightarrow> doc \<Rightarrow> moves \<Rightarrow> answers \<Rightarrow> nat" where
  "const_of n d m now = n"

definition never_bad :: "jstring \<Rightarrow> doc \<Rightarrow> moves \<Rightarrow> bool" where "never_bad s d m = False"

definition slide :: "int \<Rightarrow> int \<Rightarrow> prompt" where
  "slide lo hi = ask (Slide lo (\<lambda>_. hi))"

lemma get_Some [simp]: "i < length xs \<Longrightarrow> get xs i = Some (xs ! i)" by (simp add: get_def)
lemma get_Cons_0 [simp]: "get (x # xs) 0 = Some x" by (simp add: get_def)
lemma get_Cons_Suc [simp]: "get (x # xs) (Suc i) = get xs i" by (simp add: get_def)
lemma get_Nil [simp]: "get [] i = None" by (simp add: get_def)
lemma get_numeral [simp]: "get (x # xs) (numeral k) = get xs (pred_numeral k)"
  by (simp add: numeral_eq_Suc)

lemma mixed_length [simp]: "length (mixed d tag n) = n" "length (mixed_at d tag k n) = n"
  by (simp_all add: mixed_def mixed_at_def)

lemma mixed_less: "i < n \<Longrightarrow> mixed d tag n ! i < n" "i < n \<Longrightarrow> mixed_at d tag k n ! i < n"
  by (simp_all add: mixed_def mixed_at_def mix_nth_less)

section \<open>Shapes of checked turns\<close>

text \<open>A turn with one, two, \<open>\<dots>\<close> prompts.\<close>

fun ok_from :: "unicode \<Rightarrow> prompt list \<Rightarrow> answers \<Rightarrow> doc \<Rightarrow> moves \<Rightarrow> answers \<Rightarrow> bool" where
  "ok_from u [] got d m done \<longleftrightarrow> got = []"
| "ok_from u (p # ps) got d m done \<longleftrightarrow> (case got of [] \<Rightarrow> False
     | v # vs \<Rightarrow> okAnswer u p v d m done \<and> ok_from u ps vs d m (done @ [v]))"

lemma ok_from_nth:
  "ok_from u ps got d m pre \<longleftrightarrow> length got = length ps \<and>
     (\<forall>i < length ps. okAnswer u (ps ! i) (got ! i) d m (pre @ take i got))"
proof (induction ps arbitrary: got pre)
  case (Cons p ps)
  show ?case
  proof (cases got)
    case (Cons v vs)
    then show ?thesis using Cons.IH [of vs "pre @ [v]"] by (auto simp: less_Suc_eq_0_disj)
  qed simp
qed simp

lemma ok_turn_from: "ok_turn u ps got d m = ok_from u ps got d m []"
  by (auto simp: ok_turn_def ok_from_nth list_all_iff)

lemma ok_from_Cons: "ok_from u (p # ps) got d m pre \<longleftrightarrow>
    (\<exists>v vs. got = v # vs \<and> okAnswer u p v d m pre \<and> ok_from u ps vs d m (pre @ [v]))"
  by (cases got) auto

text \<open>What an accepted answer looks like.\<close>

named_theorems shapes

lemma okAnswer_ask [shapes]: "okAnswer u (ask wd) v d m now = ok_widget u wd v d m now"
  by (simp add: okAnswer_def ask_def too_long_def)

lemma okAnswer_bytes: "okAnswer u (ask_bytes n wd) v d m now \<Longrightarrow> ok_widget u wd v d m now"
  by (simp add: okAnswer_def ask_bytes_def split: if_splits)

lemma int_in_shape [shapes]: "int_in v a b \<longleftrightarrow> (\<exists>n. as_integer v = Some n \<and> a \<le> n \<and> n \<le> b)"
  by (auto simp: int_in_def split: option.splits)

lemma chosen_shape [shapes]:
  "chosen v n k \<longleftrightarrow> (\<exists>xs. nats v = Some xs \<and> length xs = n \<and> distinct xs \<and> (\<forall>x \<in> set xs. x < k))"
  by (auto simp: chosen_def list_all_iff split: option.splits)

lemma ok_list_shape [shapes]:
  "ok_list u n mx same v \<longleftrightarrow> (\<exists>ss. texts v = Some ss \<and> length ss = n \<and> (\<forall>s \<in> set ss. clean_as_is u mx s) \<and> (same \<or> distinct (map (fold_text u) ss)))"
  by (auto simp: ok_list_def list_all_iff split: option.splits)

lemma ok_alloc_shape [shapes]:
  "ok_alloc most step n v \<longleftrightarrow> (\<exists>xs. nats v = Some xs \<and> length xs = n \<and> (\<forall>x \<in> set xs. x \<le> most \<and> x mod step = 0) \<and> sum_list xs \<le> most)"
  by (auto simp: ok_alloc_def list_all_iff split: option.splits)

lemma all_some_length: "all_some xs = Some ys \<Longrightarrow> length ys = length xs"
  by (induction xs arbitrary: ys) (auto split: option.splits)

lemma texts_array: "texts v = Some ss \<Longrightarrow> \<exists>xs. as_array v = Some xs \<and> length xs = length ss"
  by (auto simp: texts_def bind_eq_Some_conv dest: all_some_length)

lemma len_of_texts: "texts v = Some ss \<Longrightarrow> len_of (Some v) = length ss"
  using texts_array [of v ss] by (auto simp: len_of_def)

lemma len_of_nats: "nats v = Some ss \<Longrightarrow> len_of (Some v) = length ss"
  by (auto simp: nats_def len_of_def bind_eq_Some_conv dest: all_some_length)

text \<open>The turns of a finished game.\<close>

lemma valid_turn: "valid_moves u G d m \<Longrightarrow> t < length m \<Longrightarrow> ok_from u (turns G ! t) (m ! t) d (take t m) []"
  by (simp add: valid_moves_def ok_turn_from)

lemma finished_1:
  assumes "valid_moves u G d m" "turns G = [t0]" "length m = 1"
  shows "\<exists>a. m = [a] \<and> ok_from u t0 a d [] []"
  using assms by (cases m) (auto simp: valid_moves_def ok_turn_from)

lemma finished_2:
  assumes "valid_moves u G d m" "turns G = [t0, t1]" "length m = 2"
  shows "\<exists>a b. m = [a, b] \<and> ok_from u t0 a d [] [] \<and> ok_from u t1 b d [a] []"
proof -
  obtain a b where m: "m = [a, b]" using assms(3) by (auto simp: numeral_eq_Suc length_Suc_conv)
  then show ?thesis
    using valid_turn [OF assms(1), of 0] valid_turn [OF assms(1), of 1] assms(2) by simp
qed

lemma finished_3:
  assumes "valid_moves u G d m" "turns G = [t0, t1, t2]" "length m = 3"
  shows "\<exists>a b c. m = [a, b, c] \<and> ok_from u t0 a d [] [] \<and> ok_from u t1 b d [a] [] \<and> ok_from u t2 c d [a, b] []"
proof -
  obtain a b c where m: "m = [a, b, c]" using assms(3) by (auto simp: numeral_eq_Suc length_Suc_conv)
  then show ?thesis
    using valid_turn [OF assms(1), of 0] valid_turn [OF assms(1), of 1] valid_turn [OF assms(1), of 2] assms(2)
    by (simp add: numeral_2_eq_2)
qed

text \<open>A result is shown when every read it makes finds something.\<close>

definition shown :: "outcome option \<Rightarrow> bool" where "shown r \<longleftrightarrow> r \<noteq> None"

lemma shown_Some [simp]: "shown (Some r)" by (simp add: shown_def)

lemma shown_get [simp]: "shown (get xs i \<bind> f) \<longleftrightarrow> i < length xs \<and> shown (f (xs ! i))"
  by (simp add: get_def shown_def)

lemma shown_all [simp]: "\<forall>x \<in> set xs. x \<noteq> None \<Longrightarrow> shown (all_some xs \<bind> f) \<longleftrightarrow> shown (f (map the xs))"
proof -
  have "\<forall>x \<in> set xs. x \<noteq> None \<Longrightarrow> all_some xs = Some (map the xs)" by (induction xs) auto
  then show "\<forall>x \<in> set xs. x \<noteq> None \<Longrightarrow> ?thesis" by simp
qed

lemma get_None [simp]: "get xs i = None \<longleftrightarrow> \<not> i < length xs" by (simp add: get_def)

lemma all_some_gets: "\<forall>i \<in> set is. i < length xs \<Longrightarrow> all_some (map (get xs) is) = Some (map ((!) xs) is)"
  by (induction "is") auto

lemma data_sizes [simp]:
  "data_size ''words'' = 100" "data_size ''smuggle'' = 36" "data_size ''praise'' = 24" "data_size ''items'' = 12" "data_size ''fates'' = 16"
    "data_size ''either'' = 24" "data_size ''tasks'' = 4" "data_size ''vows'' = 12" "data_size ''forfeit'' = 1" "data_size ''jobs'' = 12"
    "data_size ''who'' = 8" "data_size ''what'' = 8" "data_size ''why'' = 8" "data_size ''vouchers'' = 12" "data_size ''prizes'' = 6"
    "data_size ''awards'' = 6" "data_size ''fights'' = 8" "data_size ''verdicts'' = 5" "data_size ''lifts'' = 6" "data_size ''fates2'' = 10"
    "data_size ''coined'' = 24" "data_size ''moments'' = 24" "data_size ''buyers'' = 12" "data_size ''starts'' = 6" "data_size ''statues'' = 12"
    "data_size ''figures'' = 18" "data_size ''past'' = 5" "data_size ''doorFill'' = 5" "data_size ''postStarts'' = 3" "data_size ''doorRules'' = 10" "data_size ''stories'' = 3"
  by (simp_all add: data_size_def)

lemma data_length [simp]: "data_ok L \<Longrightarrow> length (pairs L k) = data_size k" by (simp add: data_ok_def)

lemma some_shape [shapes]: "(case x of None \<Rightarrow> False | Some s \<Rightarrow> P s) \<longleftrightarrow> (\<exists>s. x = Some s \<and> P s)"
  by (cases x) auto

lemma side_length [simp]: "data_ok L \<Longrightarrow> length (sides L k) = fst (side_size k)"
  "data_ok L \<Longrightarrow> i < fst (side_size k) \<Longrightarrow> length (sides L k ! i) = snd (side_size k)"
  by (simp_all add: data_ok_def list_all_length)

lemma side_sizes [simp]: "side_size ''envs'' = (1, 3)" "side_size ''tiers'' = (6, 8)" "side_size ''sets'' = (2, 7)"
  "side_size ''rule'' = (4, 8)" "side_size ''polite'' = (3, 6)" "side_size ''apologies'' = (3, 4)" "side_size ''either'' = (24, 2)"
  "side_size ''rap'' = (4, 6)"
  by (simp_all add: side_size_def)

declare ok_from.simps(2) [simp del]

lemmas reading = ok_from_Cons shapes slide_def number_def answer_def picks_def choice_def line_def listed_def
  const_of_def size_of_def Let_def length_Suc_conv

lemma plain_turns [simp]: "turns (plain_game ts) = ts" by (simp add: plain_game_def)

lemma answered:
  assumes "valid_moves u G d m" "t < length m" "i < length (turns G ! t)"
  shows "\<exists>v. answer m t i = Some v \<and> okAnswer u (turns G ! t ! i) v d (take t m) (take i (m ! t))"
  using valid_turn [OF assms(1,2)] assms(2,3) by (auto simp: ok_from_nth answer_def)

lemma choice_read:
  assumes "valid_moves u G d m" "t < length m" "i < length (turns G ! t)" "turns G ! t ! i = ask (Pick (Suc 0) f)"
  shows "\<exists>x. choice m t i = Some x \<and> x < f d (take t m) (take i (m ! t))"
  using answered [OF assms(1,2,3)] by (auto simp: assms(4) shapes choice_def picks_def length_Suc_conv)

lemma all_some_reads: "\<forall>x \<in> set xs. \<exists>y. f x = Some y \<and> P x y \<Longrightarrow> \<exists>ys. all_some (map f xs) = Some ys \<and> list_all2 P xs ys"
  by (induction xs) auto

lemma choices_read:
  assumes "valid_moves u G d m" "t < length m" "j \<le> length (turns G ! t)"
    and "\<forall>k \<in> {i..<j}. turns G ! t ! k = ask (Pick (Suc 0) (f k))"
  shows "\<exists>xs. choices m t i j = Some xs \<and> list_all2 (\<lambda>k x. x < f k d (take t m) (take k (m ! t))) [i..<j] xs"
proof -
  have "\<forall>k \<in> set [i..<j]. \<exists>x. choice m t k = Some x \<and> x < f k d (take t m) (take k (m ! t))"
    using choice_read [OF assms(1,2)] assms(3,4) by auto
  then show ?thesis unfolding choices_def by (rule all_some_reads)
qed

end
