(* ===== verification/Turn_Games.thy ===== *)
theory Turn_Games
  imports Turn_Texts
begin

text \<open>
  Games of \<open>turns.js\<close>, first part: the turns of each card and what its result shows, in the order of the file. A
  result that reads an answer that is not there is \<open>None\<close>.
\<close>

section \<open>deal\<close>

definition dealLine :: "lang \<Rightarrow> doc \<Rightarrow> int \<Rightarrow> int \<Rightarrow> bool \<Rightarrow> jstring" where
  "dealLine L d offer floor' second = fmt (if offer \<ge> floor' then X L ''deal_ok'' else X L ''deal_no'')
     [(''w'', things L d), (''o'', num_text (10 - offer)), (''f'', num_text offer), (''m'', num_text floor'),
      (''who'', if second then X L ''second'' else X L ''first'')]"

definition deal :: game where
  "deal = plain_game [[slide 0 10], [slide 0 10, slide 0 10], [slide 0 10]]"

definition splitLine :: "int \<Rightarrow> int \<Rightarrow> (int \<times> int) option" where
  "splitLine x fl = (if x \<ge> fl then Some (10 - x, x) else None)"

definition deal_result :: "lang \<Rightarrow> doc \<Rightarrow> moves \<Rightarrow> outcome option" where
  "deal_result L d m = do { a \<leftarrow> number m 0 0; b \<leftarrow> number m 1 0; c \<leftarrow> number m 1 1; e \<leftarrow> number m 2 0;
     Some \<lparr>headline = (if splitLine a b \<noteq> None \<and> splitLine c e \<noteq> None then X L ''deal_both'' else X L ''deal_broke''),
       body = [dealLine L d a b False, dealLine L d c e True]\<rparr> }"

section \<open>einig\<close>

definition einig :: game where
  "einig = plain_game [[ask (Listing 5 16 False), ask (Rank (\<lambda>d m now. len_of (get now 0)))],
     [ask (Rank (\<lambda>d m now. len_of (answer m 0 0)))]]"

definition einig_score :: "nat list \<Rightarrow> nat list \<Rightarrow> nat list \<Rightarrow> nat \<Rightarrow> nat" where
  "einig_score pa pb tie i = max (pa ! i) (pb ! i) * 100 + (pa ! i + pb ! i) * 10 + index_of i tie"

text \<open>The loops for the smallest score and for the largest difference.\<close>

definition first_min :: "(nat \<Rightarrow> nat) \<Rightarrow> nat \<Rightarrow> nat" where
  "first_min sc n = fold (\<lambda>i b. if sc i < sc b then i else b) [1..<n] 0"

definition gap :: "nat \<Rightarrow> nat \<Rightarrow> nat" where "gap a b = (a - b) + (b - a)"

definition first_max :: "(nat \<Rightarrow> nat) \<Rightarrow> nat \<Rightarrow> nat" where
  "first_max sc n = fold (\<lambda>i b. if sc i > sc b then i else b) [1..<n] 0"

definition einig_best :: "doc \<Rightarrow> nat list \<Rightarrow> nat list \<Rightarrow> nat" where
  "einig_best d ra rb = first_min (einig_score (places ra) (places rb) (mixed d ''einig'' 5)) (length ra)"

definition einig_result :: "lang \<Rightarrow> doc \<Rightarrow> moves \<Rightarrow> outcome option" where
  "einig_result L d m = do { opts \<leftarrow> listed m 0 0; ra \<leftarrow> picks m 0 1; rb \<leftarrow> picks m 1 0;
     best \<leftarrow> get opts (einig_best d ra rb);
     let far = (\<lambda>i. gap (places ra ! i) (places rb ! i)); let fight = first_max far (length opts);
     hot \<leftarrow> get opts fight;
     Some \<lparr>headline = fmt (X L ''einig_win'') [(''o'', best)],
       body = (if far fight > 0 then [fmt (X L ''einig_fight'') [(''o'', hot)]] else [X L ''einig_same''])\<rparr> }"

section \<open>wort\<close>

definition wort :: "unicode \<Rightarrow> lang \<Rightarrow> game" where
  "wort u de = plain_game
     [[ask (Pick 3 (const_of 9)), ask (Text 14 True (\<lambda>s d m. list_ex (\<lambda>x. fold_text u x = fold_text u s) (board de d)))],
      [ask (Pick 3 (const_of 9))]]"

definition wort_key :: "nat \<Rightarrow> string" where
  "wort_key n = (if n = 0 then ''wort_0'' else if n = 1 then ''wort_1'' else if n = 2 then ''wort_2'' else ''wort_3'')"

definition wort_result :: "lang \<Rightarrow> doc \<Rightarrow> moves \<Rightarrow> outcome option" where
  "wort_result L d m = do { mine \<leftarrow> picks m 0 0; clue \<leftarrow> line m 0 1; theirs \<leftarrow> picks m 1 0;
     let n = length (hits mine theirs);
     ws \<leftarrow> all_some (map (get (board L d)) mine);
     Some \<lparr>headline = fmt (X L (wort_key n)) [(''n'', digits n)],
       body = [fmt (X L ''wort_was'') [(''c'', clue), (''w'', join_with '', '' ws)]]\<rparr> }"

section \<open>schmuggel\<close>

definition schmuggel :: game where
  "schmuggel = plain_game [[ask (Shown ''show'')], [ask (Shown ''show''), ask (Pick 3 (const_of 12))], [ask (Pick 3 (const_of 12))]]"

definition schmuggel_result :: "lang \<Rightarrow> doc \<Rightarrow> moves \<Rightarrow> outcome option" where
  "schmuggel_result L d m = do { x \<leftarrow> picks m 1 1; y \<leftarrow> picks m 2 0;
     let b = length (hits x (smuggleSpot d False)); let a = length (hits y (smuggleSpot d True));
     Some \<lparr>headline = (if a = b then X L ''smug_tie'' else X L ''smug_win''),
       body = [fmt (X L ''smug_score'') [(''w'', X L ''first''), (''n'', digits b)],
               fmt (X L ''smug_score'') [(''w'', X L ''second''), (''n'', digits a)]]\<rparr> }"

section \<open>lob\<close>

definition lob :: game where
  "lob = plain_game [[ask (Pick 3 (size_of ''praise'')), ask (Pick 3 (size_of ''praise''))],
     [ask (Pick 3 (size_of ''praise'')), ask (Pick 3 (size_of ''praise''))]]"

definition praise_names :: "lang \<Rightarrow> nat list \<Rightarrow> jstring option" where
  "praise_names L is = map_option (join_with '', '') (all_some (map (get (pairs L ''praise'')) is))"

definition lob_result :: "lang \<Rightarrow> doc \<Rightarrow> moves \<Rightarrow> outcome option" where
  "lob_result L d m = do { am \<leftarrow> picks m 0 0; ay \<leftarrow> picks m 0 1; bm \<leftarrow> picks m 1 0; by' \<leftarrow> picks m 1 1;
     let a = hits am by'; let b = hits bm ay; let sa = filter (\<lambda>i. i \<notin> set a) by'; let sb = filter (\<lambda>i. i \<notin> set b) ay;
     nab \<leftarrow> praise_names L (a @ b); nsa \<leftarrow> praise_names L sa; nsb \<leftarrow> praise_names L sb;
     Some \<lparr>headline = X L ''lob_head'',
       body = (if length a + length b > 0 then [fmt (X L ''lob_same'') [(''w'', nab)]] else []) @
         (if sa \<noteq> [] then [fmt (X L ''lob_sees'') [(''n'', X L ''first''), (''w'', nsa)]] else []) @
         (if sb \<noteq> [] then [fmt (X L ''lob_sees'') [(''n'', X L ''second''), (''w'', nsb)]] else [])\<rparr> }"

section \<open>auktion\<close>

definition auktion :: game where
  "auktion = plain_game [[ask (Alloc 100 10 (const_of 5))], [ask (Alloc 100 10 (const_of 5))]]"

definition higher :: "nat \<Rightarrow> nat \<Rightarrow> bool option" where
  "higher a b = (if a = b then None else Some (a < b))"

text \<open>What one side wins with its bids: its worth of every lot it bids more for.\<close>

definition won_worth :: "nat list \<Rightarrow> nat list \<Rightarrow> nat list \<Rightarrow> nat" where
  "won_worth mine theirs ws = sum_list (map2 (\<lambda>w (a, b). if a > b then w else 0) ws (zip mine theirs))"

definition auktion_result :: "lang \<Rightarrow> doc \<Rightarrow> moves \<Rightarrow> outcome option" where
  "auktion_result L d m = do { x \<leftarrow> picks m 0 0; y \<leftarrow> picks m 1 0;
     let sa = won_worth x y (worth d 0); let sb = won_worth y x (worth d 1);
     Some \<lparr>headline = fmt (if sa = sb then X L ''auk_tie'' else X L ''auk_win'')
         [(''w'', if sa > sb then X L ''first'' else X L ''second''), (''a'', digits sa), (''b'', digits sb)],
       body = map2 (\<lambda>lot (a, b). lot @ js '': '' @ (case higher a b of None \<Rightarrow> X L ''auk_none''
         | Some False \<Rightarrow> X L ''first'' | Some True \<Rightarrow> X L ''second'')) (lots L d) (zip x y)\<rparr> }"

section \<open>kapsel\<close>

definition kapsel :: game where
  "kapsel = (plain_game [[ask (Pick 1 (size_of ''fates'')), slide 1 30], [ask (Pick 1 (const_of 2))]])
     \<lparr>gateFrom := True, gate := \<lambda>d m. if length m = 1 then (case o_day d of Some n \<Rightarrow> n | None \<Rightarrow> 0) else 0\<rparr>"

definition kapsel_result :: "lang \<Rightarrow> doc \<Rightarrow> moves \<Rightarrow> outcome option" where
  "kapsel_result L d m = do { y \<leftarrow> choice m 1 0; x \<leftarrow> choice m 0 0; s \<leftarrow> get (pairs L ''fates'') x;
     Some \<lparr>headline = (if y = 0 then X L ''kap_right'' else X L ''kap_wrong''), body = [s]\<rparr> }"

section \<open>kennst\<close>

definition ask_sizes :: "nat list" where "ask_sizes = [4, 4, 4, 4, 4, 4, 4, 4, 4, 4, 4, 4]"

definition fives :: "prompt list" where
  "fives = map (\<lambda>i. ask (Pick 1 (\<lambda>d m now. ask_sizes ! (mixed d ''frag'' 12 ! i)))) [0..<5]"

definition score_same :: "nat list \<Rightarrow> nat list \<Rightarrow> nat" where
  "score_same a b = length (filter (\<lambda>(x, y). x = y) (zip a b))"

definition kennst :: game where
  "kennst = plain_game [fives, fives @ fives, fives]"

definition kennst_result :: "lang \<Rightarrow> doc \<Rightarrow> moves \<Rightarrow> outcome option" where
  "kennst_result L d m = do { s0 \<leftarrow> choices m 0 0 5; g1 \<leftarrow> choices m 1 0 5; s1 \<leftarrow> choices m 1 5 10; g2 \<leftarrow> choices m 2 0 5;
     let a = score_same s0 g1; let b = score_same s1 g2; let h = fmt (X L ''ken_head'') [(''a'', digits a), (''b'', digits b)];
     Some \<lparr>headline = (if a + b \<ge> 7 then X L ''ken_top'' else h), body = [h]\<rparr> }"

section \<open>snack\<close>

definition snack :: game where
  "snack = plain_game [replicate 10 (ask (Pick 1 (const_of 2))), replicate 10 (ask (Pick 1 (const_of 2)))]"

definition eithers :: "doc \<Rightarrow> nat list" where "eithers d = take 10 (mixed d ''either'' 24)"

definition snack_result :: "lang \<Rightarrow> doc \<Rightarrow> moves \<Rightarrow> outcome option" where
  "snack_result L d m = do { a \<leftarrow> choices m 0 0 10; b \<leftarrow> choices m 1 0 10;
     let n = score_same a b; let diff = take 2 (map fst (filter (\<lambda>(e, x, y). x \<noteq> y) (zip (eithers d) (zip a b))));
     Some \<lparr>headline = fmt (X L ''snack_h'') [(''n'', digits n)],
       body = (if n \<ge> 7 then X L ''snack_top'' else X L ''snack_low'') #
         map (\<lambda>i. fmt (X L ''snack_fight'') [(''o'', pairs L ''either'' ! i)]) diff\<rparr> }"

section \<open>teilen\<close>

definition teilen :: game where
  "teilen = plain_game [[ask (Alloc 10 1 (size_of ''tasks''))], [ask (Alloc 10 1 (size_of ''tasks''))]]"

definition gets_task :: "doc \<Rightarrow> nat list \<Rightarrow> nat list \<Rightarrow> nat \<Rightarrow> bool" where
  "gets_task d x y i \<longleftrightarrow> x ! i > y ! i \<or> x ! i = y ! i \<and> mixed d ''teil'' 4 ! i mod 2 = 0"

definition or_dash :: "jstring \<Rightarrow> jstring" where "or_dash s = (if s = [] then js ''-'' else s)"

definition teilen_result :: "lang \<Rightarrow> doc \<Rightarrow> moves \<Rightarrow> outcome option" where
  "teilen_result L d m = do { x \<leftarrow> picks m 0 0; y \<leftarrow> picks m 1 0;
     let a = filter (gets_task d x y) [0..<4]; let b = filter (\<lambda>i. \<not> gets_task d x y i) [0..<4];
     Some \<lparr>headline = X L ''teil_h'',
       body = [fmt (X L ''teil_a'') [(''w'', or_dash (join_with '', '' (pick_pairs L ''tasks'' a)))],
               fmt (X L ''teil_b'') [(''w'', or_dash (join_with '', '' (pick_pairs L ''tasks'' b)))]]\<rparr> }"

section \<open>wette, socke, auftrag\<close>

definition wette :: game where
  "wette = (plain_game [[ask (Pick 1 (size_of ''vows'')), slide 1 7], [ask (Pick 1 (const_of 2))]])
     \<lparr>gateFrom := True, gate := \<lambda>d m. if length m = 1 then (case o_day d of Some n \<Rightarrow> n | None \<Rightarrow> 0) else 0\<rparr>"

definition wette_result :: "lang \<Rightarrow> doc \<Rightarrow> moves \<Rightarrow> outcome option" where
  "wette_result L d m = do { y \<leftarrow> choice m 1 0; x \<leftarrow> choice m 0 0; s \<leftarrow> get (pairs L ''vows'') x; pay \<leftarrow> get (pairs L ''forfeit'') 0;
     Some \<lparr>headline = (if y = 0 then X L ''wet_done'' else X L ''wet_fail''), body = s # (if y = 0 then [] else [pay])\<rparr> }"

definition socke :: game where "socke = plain_game [[slide 10 200], [slide 10 200]]"

definition socke_result :: "lang \<Rightarrow> doc \<Rightarrow> moves \<Rightarrow> outcome option" where
  "socke_result L d m = do { a \<leftarrow> number m 0 0; b \<leftarrow> number m 1 0;
     Some \<lparr>headline = fmt (X L ''soc_h'') [(''n'', num_text (a + b))],
       body = [if a = b then X L ''soc_tie'' else fmt (X L ''soc_win'') [(''w'', if a > b then X L ''first'' else X L ''second'')]]\<rparr> }"

definition auftrag :: game where
  "auftrag = plain_game [[ask (Pick 1 (size_of ''jobs''))], [ask (Pick 1 (size_of ''jobs''))]]"

definition auftrag_result :: "lang \<Rightarrow> doc \<Rightarrow> moves \<Rightarrow> outcome option" where
  "auftrag_result L d m = do { y \<leftarrow> choice m 1 0; x \<leftarrow> choice m 0 0; a \<leftarrow> get (pairs L ''jobs'') y; b \<leftarrow> get (pairs L ''jobs'') x;
     Some \<lparr>headline = X L ''job_h'', body = [fmt (X L ''job_a'') [(''w'', a)], fmt (X L ''job_b'') [(''w'', b)]]\<rparr> }"

section \<open>bluff\<close>

definition cards :: "doc \<Rightarrow> nat list" where
  "cards d = map (\<lambda>i. i mod 6 + 1) (take 5 (mixed d ''karten'' 12))"

definition bluff :: game where
  "bluff = plain_game [map (\<lambda>i. ask (Pick 1 (\<lambda>d m now. 7 - cards d ! i))) [0..<5], replicate 5 (ask (Pick 1 (const_of 2)))]"

text \<open>The scores of the one who says the cards and of the one who opens some of them.\<close>

definition bluff_score :: "nat list \<Rightarrow> nat list \<Rightarrow> nat list \<Rightarrow> nat \<times> nat" where
  "bluff_score c say see = fold (\<lambda>(t, s, o') (a, b). let said = t + s in
     if o' \<noteq> 1 then (a + said, b) else if said = t then (a + (t + 2), b) else (a, b + said)) (zip c (zip say see)) (0, 0)"

definition bluff_result :: "lang \<Rightarrow> doc \<Rightarrow> moves \<Rightarrow> outcome option" where
  "bluff_result L d m = do { say \<leftarrow> choices m 0 0 5; see \<leftarrow> choices m 1 0 5;
     let (a, b) = bluff_score (cards d) say see;
     Some \<lparr>headline = fmt (X L ''blf_h'') [(''a'', digits a), (''b'', digits b)],
       body = map2 (\<lambda>t s. fmt (X L ''blf_line'') [(''c'', digits (t + s)), (''t'', digits t)]) (cards d) say\<rparr> }"

section \<open>A finished game shows its result\<close>

lemma praise_read [simp]:
  "\<forall>i \<in> set is. i < length (pairs L ''praise'') \<Longrightarrow> praise_names L is = Some (join_with '', '' (map ((!) (pairs L ''praise'')) is))"
  by (simp add: praise_names_def all_some_gets)

lemma fold_first_less: "b < n \<Longrightarrow> \<forall>i \<in> set xs. i < n \<Longrightarrow> fold (\<lambda>i b. if P i b then i else b) xs b < (n :: nat)"
  by (induction xs arbitrary: b) auto

lemma first_less [simp]: "0 < n \<Longrightarrow> first_max f n < n" "0 < n \<Longrightarrow> first_min f n < n"
  by (simp_all add: first_max_def first_min_def fold_first_less)

lemma shown_lob: "valid_moves u lob d m \<Longrightarrow> length m = 2 \<Longrightarrow> data_ok L \<Longrightarrow> shown (lob_result L d m)"
  using finished_2 [of u lob d m] by (clarsimp simp: lob_def lob_result_def reading hits_def ball_Un split del: if_split)

lemma places_length [simp]: "length (places ord) = length ord" by (simp add: places_def)

lemma shown_einig: "valid_moves u einig d m \<Longrightarrow> length m = 2 \<Longrightarrow> shown (einig_result L d m)"
  using finished_2 [of u einig d m] by (auto simp: einig_def einig_result_def einig_best_def reading len_of_texts)

lemma shown_deal: "valid_moves u deal d m \<Longrightarrow> length m = 3 \<Longrightarrow> shown (deal_result L d m)"
  using finished_3 [of u deal d m] by (auto simp: deal_def deal_result_def reading)

lemma shown_wort: "valid_moves u (wort u de) d m \<Longrightarrow> length m = 2 \<Longrightarrow> shown (wort_result L d m)"
  using finished_2 [of u "wort u de" d m]
  by (clarsimp simp: wort_def wort_result_def reading board_def pick_pairs_def)

lemma shown_schmuggel: "valid_moves u schmuggel d m \<Longrightarrow> length m = 3 \<Longrightarrow> shown (schmuggel_result L d m)"
  using finished_3 [of u schmuggel d m] by (auto simp: schmuggel_def schmuggel_result_def reading)

lemma shown_auktion: "valid_moves u auktion d m \<Longrightarrow> length m = 2 \<Longrightarrow> shown (auktion_result L d m)"
  using finished_2 [of u auktion d m] by (auto simp: auktion_def auktion_result_def reading)

lemma shown_kapsel: "valid_moves u kapsel d m \<Longrightarrow> length m = 2 \<Longrightarrow> data_ok L \<Longrightarrow> shown (kapsel_result L d m)"
  using finished_2 [of u kapsel d m] by (auto simp: kapsel_def kapsel_result_def reading)
lemma shown_kennst: 
  assumes "valid_moves u kennst d m" "length m = 3" shows "shown (kennst_result L d m)"
proof -
  have f: "\<And>k. k < 5 \<Longrightarrow> fives ! k = ask (Pick (Suc 0) (\<lambda>d m now. ask_sizes ! (mixed d ''frag'' 12 ! k)))" "length fives = 5"
    by (simp_all add: fives_def)
  have t: "turns kennst = [fives, fives @ fives, fives]" by (simp add: kennst_def)
  show ?thesis
    using choices_read [OF assms(1), of 0 5 0] choices_read [OF assms(1), of 1 5 0] choices_read [OF assms(1), of 1 10 5]
      choices_read [OF assms(1), of 2 5 0] assms(2) f
    by (fastforce simp: t kennst_result_def nth_append Let_def)
qed

lemma shown_snack: 
  assumes "valid_moves u snack d m" "length m = 2" shows "shown (snack_result L d m)"
  using choices_read [OF assms(1), of 0 10 0 "\<lambda>_. const_of 2"] choices_read [OF assms(1), of 1 10 0 "\<lambda>_. const_of 2"] assms(2)
  by (auto simp: snack_def snack_result_def Let_def)

lemma shown_teilen: "valid_moves u teilen d m \<Longrightarrow> length m = 2 \<Longrightarrow> shown (teilen_result L d m)"
  using finished_2 [of u teilen d m] by (auto simp: teilen_def teilen_result_def reading)
lemma shown_wette: "valid_moves u wette d m \<Longrightarrow> length m = 2 \<Longrightarrow> data_ok L \<Longrightarrow> shown (wette_result L d m)"
  using finished_2 [of u wette d m] by (auto simp: wette_def wette_result_def reading)
lemma shown_socke: "valid_moves u socke d m \<Longrightarrow> length m = 2 \<Longrightarrow> shown (socke_result L d m)"
  using finished_2 [of u socke d m] by (auto simp: socke_def socke_result_def reading)
lemma shown_auftrag: "valid_moves u auftrag d m \<Longrightarrow> length m = 2 \<Longrightarrow> data_ok L \<Longrightarrow> shown (auftrag_result L d m)"
  using finished_2 [of u auftrag d m] by (auto simp: auftrag_def auftrag_result_def reading)
lemma shown_bluff:
  assumes "valid_moves u bluff d m" "length m = 2" shows "shown (bluff_result L d m)"
  using choices_read [OF assms(1), of 0 5 0 "\<lambda>i d m now. 7 - cards d ! i"] choices_read [OF assms(1), of 1 5 0 "\<lambda>_. const_of 2"] assms(2)
  by (auto simp: bluff_def bluff_result_def Let_def split: prod.splits)

end
