(* ===== verification/Turn_Games2.thy ===== *)
theory Turn_Games2
  imports Turn_Games
begin

text \<open>
  Games of \<open>turns.js\<close>, second part: \<open>luecke\<close> and the cards from \<open>ausrede\<close> to \<open>damals\<close>.
\<close>

definition seed_mod :: "doc \<Rightarrow> nat \<Rightarrow> nat" where "seed_mod d n = unat (seed d) mod n"

definition pick_from :: "string \<Rightarrow> prompt" where "pick_from k = ask (Pick 1 (size_of k))"

definition waits :: "game \<Rightarrow> game" where
  "waits G = G\<lparr>gateFrom := True, gate := \<lambda>d m. if length m = 1 then (case o_day d of Some n \<Rightarrow> n | None \<Rightarrow> 0) else 0\<rparr>"

lemma waits_turns [simp]: "turns (waits G) = turns G" by (simp add: waits_def)

section \<open>luecke\<close>

text \<open>\<open>s.replace(/\{(\d)\}/g, \<dots>)\<close>.\<close>

fun fill :: "jstring \<Rightarrow> jstring list \<Rightarrow> jstring" where
  "fill (c # n # e # cs) w = (if c = 123 \<and> 48 \<le> n \<and> n \<le> 57 \<and> e = 125
     then (if n - 48 < length w then w ! (n - 48) else js ''undefined'') @ fill cs w
     else c # fill (n # e # cs) w)"
| "fill cs w = cs"

definition luecke :: game where
  "luecke = plain_game [[pick_from ''stories''], [ask (Listing 6 18 False)]]"

definition luecke_result :: "lang \<Rightarrow> doc \<Rightarrow> moves \<Rightarrow> outcome option" where
  "luecke_result L d m = do { x \<leftarrow> choice m 0 0; s \<leftarrow> get (pairs L ''stories'') x; w \<leftarrow> listed m 1 0;
     Some \<lparr>headline = X L ''luck_h'', body = [fill s w]\<rparr> }"

section \<open>ausrede, gutschein\<close>

definition wheel :: prompt where "wheel = ask (Pick 1 (const_of 4))"

definition wheel_word :: "lang \<Rightarrow> doc \<Rightarrow> string \<Rightarrow> nat \<Rightarrow> jstring option" where
  "wheel_word L d k x = do { i \<leftarrow> get (mixed d k (data_size k)) x; get (pairs L k) i }"

definition excuse :: "lang \<Rightarrow> doc \<Rightarrow> moves \<Rightarrow> jstring option" where
  "excuse L d m = do { a \<leftarrow> choice m 0 0; b \<leftarrow> choice m 0 1; c \<leftarrow> choice m 0 2;
     wa \<leftarrow> wheel_word L d ''who'' a; wb \<leftarrow> wheel_word L d ''what'' b; wc \<leftarrow> wheel_word L d ''why'' c;
     Some (join_with '' '' [wa, wb, wc]) }"

definition ausrede :: game where
  "ausrede = plain_game [[wheel, wheel, wheel], [ask (Pick 1 (const_of 3))]]"

definition ausrede_result :: "lang \<Rightarrow> doc \<Rightarrow> moves \<Rightarrow> outcome option" where
  "ausrede_result L d m = do { x \<leftarrow> choice m 1 0; h \<leftarrow> get [X L ''aus_s0'', X L ''aus_s1'', X L ''aus_s2''] x; s \<leftarrow> excuse L d m;
     Some \<lparr>headline = h, body = [s]\<rparr> }"

definition gutschein :: game where
  "gutschein = plain_game [[ask (Pick 3 (size_of ''vouchers''))], [ask (Pick 1 (\<lambda>d m now. len_of (answer m 0 0)))]]"

definition gutschein_result :: "lang \<Rightarrow> doc \<Rightarrow> moves \<Rightarrow> outcome option" where
  "gutschein_result L d m = do { xs \<leftarrow> picks m 0 0; x \<leftarrow> choice m 1 0; i \<leftarrow> get xs x; w \<leftarrow> get (pairs L ''vouchers'') i;
     Some \<lparr>headline = X L ''gut_h'', body = [fmt (X L ''gut_used'') [(''w'', w)]]\<rparr> }"

section \<open>rubbellos, urkunde\<close>

definition rubbellos :: game where
  "rubbellos = plain_game [[pick_from ''prizes'', ask (Pick 1 (const_of 6))], [ask (Pick 3 (const_of 6))]]"

definition rubbellos_result :: "lang \<Rightarrow> doc \<Rightarrow> moves \<Rightarrow> outcome option" where
  "rubbellos_result L d m = do { spot \<leftarrow> choice m 0 1; xs \<leftarrow> picks m 1 0; x \<leftarrow> choice m 0 0; prize \<leftarrow> get (pairs L ''prizes'') x;
     Some \<lparr>headline = (if spot \<in> set xs then fmt (X L ''rub_win'') [(''w'', prize)] else X L ''rub_lose''),
       body = [fmt (X L ''rub_was'') [(''n'', digits (spot + 1))]]\<rparr> }"

definition urkunde :: game where
  "urkunde = plain_game [[pick_from ''awards'', slide 0 10, slide 0 10, slide 0 10]]"

definition rank_key :: "int \<Rightarrow> string" where
  "rank_key n = (if n \<ge> 24 then ''urk_3'' else if n \<ge> 16 then ''urk_2'' else if n \<ge> 8 then ''urk_1'' else ''urk_0'')"

definition urkunde_result :: "lang \<Rightarrow> doc \<Rightarrow> moves \<Rightarrow> outcome option" where
  "urkunde_result L d m = do { a \<leftarrow> number m 0 1; b \<leftarrow> number m 0 2; c \<leftarrow> number m 0 3; x \<leftarrow> choice m 0 0;
     w \<leftarrow> get (pairs L ''awards'') x;
     Some \<lparr>headline = fmt (X L ''urk_h'') [(''r'', X L (rank_key (a + b + c)))], body = [w]\<rparr> }"

section \<open>luege, blitz\<close>

definition luege :: game where
  "luege = plain_game [[ask (Listing 3 44 False), ask (Pick 1 (\<lambda>d m now. len_of (get now 0)))],
     [ask (Pick 1 (\<lambda>d m now. len_of (answer m 0 0)))]]"

definition luege_result :: "lang \<Rightarrow> doc \<Rightarrow> moves \<Rightarrow> outcome option" where
  "luege_result L d m = do { lie \<leftarrow> choice m 0 1; tip \<leftarrow> choice m 1 0; ss \<leftarrow> listed m 0 0; s \<leftarrow> get ss lie;
     Some \<lparr>headline = (if tip = lie then X L ''lie_ok'' else X L ''lie_no''), body = [fmt (X L ''lie_was'') [(''s'', s)]]\<rparr> }"

definition letters :: jstring where "letters = js ''BDFGHKLMNPRST''"

definition letter :: "doc \<Rightarrow> nat" where "letter d = letters ! seed_mod d 13"

definition starts_with :: "doc \<Rightarrow> jstring \<Rightarrow> bool" where
  "starts_with d s \<longleftrightarrow> s \<noteq> [] \<and> hd s = letter d + 32"

definition blitz :: game where
  "blitz = plain_game [[ask (Loose 6 16 None)], [ask (Loose 6 16 None)]]"

text \<open>The folded words of one side that the other does not have and that start with the letter.\<close>

definition blitz_good :: "doc \<Rightarrow> jstring list \<Rightarrow> jstring list \<Rightarrow> nat" where
  "blitz_good d l o' = length (filter (\<lambda>x. x \<noteq> [] \<and> x \<notin> set o' \<and> starts_with d x) l)"

definition blitz_result :: "unicode \<Rightarrow> lang \<Rightarrow> doc \<Rightarrow> moves \<Rightarrow> outcome option" where
  "blitz_result u L d m = do { x \<leftarrow> listed m 0 0; y \<leftarrow> listed m 1 0;
     let a = map (fold_text u) x; let b = map (fold_text u) y; let same = filter (\<lambda>s. s \<noteq> [] \<and> fold_text u s \<in> set b) x;
     Some \<lparr>headline = fmt (X L ''blz_h'') [(''a'', digits (blitz_good d a b)), (''b'', digits (blitz_good d b a))],
       body = fmt (X L ''blz_go'') [(''l'', [letter d])] #
         (if same \<noteq> [] then [fmt (X L ''blz_same'') [(''w'', join_with '', '' same)]] else [])\<rparr> }"

section \<open>recht, morgen, umschlag, rad\<close>

definition plain_text :: "nat \<Rightarrow> prompt" where "plain_text n = ask (Text n False never_bad)"

definition recht :: game where
  "recht = plain_game [[plain_text 44], [plain_text 44], [ask (Pick 1 (const_of 2)), pick_from ''verdicts'']]"

definition fight :: "lang \<Rightarrow> doc \<Rightarrow> jstring option" where
  "fight L d = get (pairs L ''fights'') (seed_mod d 8)"

definition recht_result :: "lang \<Rightarrow> doc \<Rightarrow> moves \<Rightarrow> outcome option" where
  "recht_result L d m = do { who \<leftarrow> choice m 2 0; f \<leftarrow> fight L d; a \<leftarrow> line m 0 0; b \<leftarrow> line m 1 0; x \<leftarrow> choice m 2 1;
     v \<leftarrow> get (pairs L ''verdicts'') x;
     Some \<lparr>headline = fmt (X L ''rec_h'') [(''w'', if who \<noteq> 0 then X L ''second'' else X L ''first'')],
       body = [fmt (X L ''rec_case'') [(''f'', f)], a, b, v]\<rparr> }"

definition morgen :: game where
  "morgen = waits (plain_game [[pick_from ''lifts'', slide 1 7], [ask (Shown ''show'')]])"

definition morgen_result :: "lang \<Rightarrow> doc \<Rightarrow> moves \<Rightarrow> outcome option" where
  "morgen_result L d m = do { x \<leftarrow> choice m 0 0; s \<leftarrow> get (pairs L ''lifts'') x; Some \<lparr>headline = X L ''mor_h'', body = [s]\<rparr> }"

definition envs :: "lang \<Rightarrow> jstring list" where "envs L = sides L ''envs'' ! 0"

definition umschlag :: game where
  "umschlag = plain_game [[plain_text 44, plain_text 44, plain_text 44], [ask (Pick 1 (const_of 3))]]"

definition umschlag_result :: "lang \<Rightarrow> doc \<Rightarrow> moves \<Rightarrow> outcome option" where
  "umschlag_result L d m = do { i \<leftarrow> choice m 1 0; h \<leftarrow> get (envs L) i; s \<leftarrow> line m 0 i; Some \<lparr>headline = h, body = [s]\<rparr> }"

definition rad :: game where
  "rad = plain_game [[ask (Pick 3 (size_of ''fates2''))], [ask (Pick 1 (const_of 3))]]"

definition rad_result :: "lang \<Rightarrow> doc \<Rightarrow> moves \<Rightarrow> outcome option" where
  "rad_result L d m = do { x \<leftarrow> choice m 1 0; i \<leftarrow> get (mixed d ''rad'' 3) x; xs \<leftarrow> picks m 0 0; j \<leftarrow> get xs i;
     s \<leftarrow> get (pairs L ''fates2'') j; Some \<lparr>headline = X L ''rad_h'', body = [s]\<rparr> }"

section \<open>steine, unlesbar, damals\<close>

definition steine :: game where "steine = plain_game [[ask (Blocks 40)], [ask (Blocks 40)]]"

definition steine_result :: "lang \<Rightarrow> doc \<Rightarrow> moves \<Rightarrow> outcome option" where
  "steine_result L d m = do { x \<leftarrow> picks m 0 0; y \<leftarrow> picks m 1 0; a \<leftarrow> replay (seed d) x; b \<leftarrow> replay (seed d) y;
     Some \<lparr>headline = (if score a = score b then X L ''blk_tie'' else fmt (X L ''blk_h'') [(''a'', digits (score a)), (''b'', digits (score b))]),
       body = [X L ''blk_fair'']\<rparr> }"

text \<open>\<open>foreseen\<close>: how often each tap followed the two before it, and the guesses this makes.\<close>

fun foreseen_from :: "((nat \<times> nat) option \<Rightarrow> nat \<times> nat) \<Rightarrow> nat list \<Rightarrow> nat list \<Rightarrow> nat" where
  "foreseen_from seen before [] = 0"
| "foreseen_from seen before (x # xs) =
     (let key = (case before of b # a # _ \<Rightarrow> Some (a, b) | _ \<Rightarrow> None); (c0, c1) = seen key;
          hit = (if (if c1 > c0 then 1 else 0) = x then 1 else 0);
          c = (if x = 0 then (c0 + 1, c1) else (c0, c1 + 1))
      in hit + foreseen_from (seen(key := c)) (x # before) xs)"

definition foreseen :: "nat list \<Rightarrow> nat" where "foreseen tips = foreseen_from (\<lambda>_. (0, 0)) [] tips"

definition unlesbar :: game where "unlesbar = plain_game [replicate 20 (ask (Pick 1 (const_of 2)))]"

definition unlesbar_result :: "lang \<Rightarrow> doc \<Rightarrow> moves \<Rightarrow> outcome option" where
  "unlesbar_result L d m = do { xs \<leftarrow> choices m 0 0 20; n \<leftarrow> Some (foreseen xs);
     Some \<lparr>headline = fmt (X L ''unl_h'') [(''n'', digits n)], body = [if n \<le> 12 then X L ''unl_top'' else X L ''unl_low'']\<rparr> }"

definition damals :: game where "damals = plain_game [replicate 5 (plain_text 44)]"

definition damals_result :: "lang \<Rightarrow> doc \<Rightarrow> moves \<Rightarrow> outcome option" where
  "damals_result L d m = do { xs \<leftarrow> all_some (map (line m 0) [0..<5]);
     Some \<lparr>headline = X L ''dam_h'', body = map2 (\<lambda>q a. q @ js '' '' @ a) (pairs L ''past'') xs\<rparr> }"

section \<open>A finished game shows its result\<close>

lemmas games = reading pick_from_def plain_text_def wheel_def

lemma mixed_item [simp]: "i < n \<Longrightarrow> mixed d tag n ! i < n" by (rule mixed_less)

lemma seed_mod_less [simp]: "0 < n \<Longrightarrow> seed_mod d n < n" by (simp add: seed_mod_def)

lemma shown_luecke: "valid_moves u luecke d m \<Longrightarrow> length m = 2 \<Longrightarrow> data_ok L \<Longrightarrow> shown (luecke_result L d m)"
  using finished_2 [of u luecke d m] by (auto simp: luecke_def luecke_result_def games )

lemma shown_ausrede: "valid_moves u ausrede d m \<Longrightarrow> length m = 2 \<Longrightarrow> data_ok L \<Longrightarrow> shown (ausrede_result L d m)"
  using finished_2 [of u ausrede d m] by (auto simp: ausrede_def ausrede_result_def games excuse_def wheel_word_def)

lemma shown_gutschein: "valid_moves u gutschein d m \<Longrightarrow> length m = 2 \<Longrightarrow> data_ok L \<Longrightarrow> shown (gutschein_result L d m)"
  using finished_2 [of u gutschein d m] by (auto simp: gutschein_def gutschein_result_def games len_of_nats)

lemma shown_rubbellos: "valid_moves u rubbellos d m \<Longrightarrow> length m = 2 \<Longrightarrow> data_ok L \<Longrightarrow> shown (rubbellos_result L d m)"
  using finished_2 [of u rubbellos d m] by (auto simp: rubbellos_def rubbellos_result_def games )

lemma shown_urkunde: "valid_moves u urkunde d m \<Longrightarrow> length m = 1 \<Longrightarrow> data_ok L \<Longrightarrow> shown (urkunde_result L d m)"
  using finished_1 [of u urkunde d m] by (auto simp: urkunde_def urkunde_result_def games )

lemma shown_luege: "valid_moves u luege d m \<Longrightarrow> length m = 2 \<Longrightarrow> data_ok L \<Longrightarrow> shown (luege_result L d m)"
  using finished_2 [of u luege d m] by (auto simp: luege_def luege_result_def games len_of_texts)

lemma shown_recht: "valid_moves u recht d m \<Longrightarrow> length m = 3 \<Longrightarrow> data_ok L \<Longrightarrow> shown (recht_result L d m)"
  using finished_3 [of u recht d m] by (auto simp: recht_def recht_result_def games fight_def)

lemma shown_morgen: "valid_moves u morgen d m \<Longrightarrow> length m = 2 \<Longrightarrow> data_ok L \<Longrightarrow> shown (morgen_result L d m)"
  using finished_2 [of u morgen d m] by (auto simp: morgen_def morgen_result_def games )

lemma shown_rad: "valid_moves u rad d m \<Longrightarrow> length m = 2 \<Longrightarrow> data_ok L \<Longrightarrow> shown (rad_result L d m)"
  using finished_2 [of u rad d m] by (auto simp: rad_def rad_result_def games )

lemma shown_steine: "valid_moves u steine d m \<Longrightarrow> length m = 2 \<Longrightarrow> shown (steine_result L d m)"
  using finished_2 [of u steine d m] by (auto simp: steine_def steine_result_def games )

end
