(* ===== verification/Turn_Games3.thy ===== *)
theory Turn_Games3
  imports Turn_Games2
begin

text \<open>
  Games of \<open>turns.js\<close>, third part: from the circle (\<open>kreis\<close>) to the signed lines (\<open>reihum\<close>).
\<close>

section \<open>kreis\<close>

definition beats :: "nat list \<Rightarrow> nat \<Rightarrow> nat \<Rightarrow> bool" where
  "beats ord a b \<longleftrightarrow> (let p = places ord; e = (p ! b + 5 - p ! a) mod 5 in e = 1 \<or> e = 2)"

definition circleSame :: "nat list \<Rightarrow> nat list \<Rightarrow> bool" where
  "circleSame a b \<longleftrightarrow> (let s = index_of (b ! 0) a in list_all (\<lambda>i. a ! ((s + i) mod 5) = b ! i) [0..<length b])"

definition kreis :: game where
  "kreis = plain_game [[ask (Listing 5 14 False), ask (Rank (\<lambda>d m now. len_of (get now 0)))],
     [ask (Pick 2 (\<lambda>d m now. len_of (answer m 0 0))), ask (Pick 2 (\<lambda>d m now. len_of (answer m 0 0))),
      ask (Pick 2 (\<lambda>d m now. len_of (answer m 0 0))), ask (Rank (\<lambda>d m now. len_of (answer m 0 0)))]]"

definition arrow :: jstring where "arrow = [32, 0x2192, 32]"

definition join_arrows :: "jstring list \<Rightarrow> jstring" where
  "join_arrows xs = (case xs of [] \<Rightarrow> [] | y # ys \<Rightarrow> y @ concat (map (\<lambda>s. arrow @ s) ys))"

definition kreis_result :: "lang \<Rightarrow> doc \<Rightarrow> moves \<Rightarrow> outcome option" where
  "kreis_result L d m = do { w \<leftarrow> listed m 0 0; ord \<leftarrow> picks m 0 1; tip \<leftarrow> picks m 1 3; ws \<leftarrow> all_some (map (get w) ord);
     first \<leftarrow> get ws 0;
     Some \<lparr>headline = (if circleSame ord tip then X L ''krs_right'' else X L ''krs_wrong''),
       body = [fmt (X L ''krs_was'') [(''w'', join_arrows ws @ arrow @ first)]]\<rparr> }"

text \<open>What two words of a test show (\<open>circleSoFar\<close>).\<close>

definition circle_line :: "lang \<Rightarrow> jstring list \<Rightarrow> nat list \<Rightarrow> nat \<times> nat \<Rightarrow> jstring" where
  "circle_line L w ord p = (let (a, b) = (if beats ord (fst p) (snd p) then p else (snd p, fst p))
     in fmt (X L ''krs_beat'') [(''a'', w ! a), (''b'', w ! b)])"

section \<open>hoeflich\<close>

definition politeLimit :: "doc \<Rightarrow> nat" where "politeLimit d = 7 + mixed d ''grenze'' 10 ! 0"

definition politeRow :: "lang \<Rightarrow> doc \<Rightarrow> nat \<Rightarrow> jstring list" where
  "politeRow L d t = map (\<lambda>s. sides L ''polite'' ! s ! (mixed_at d ''hof'' s 6 ! (t mod 6))) [0..<3]"

definition polite_of :: "answers \<Rightarrow> nat" where
  "polite_of x = (case Option.bind (get x 0) nats of Some (n # _) \<Rightarrow> n + 1 | _ \<Rightarrow> 1)"

definition politeLevel :: "moves \<Rightarrow> nat" where "politeLevel m = sum_list (map polite_of m)"

definition hoeflich :: game where
  "hoeflich = (plain_game (replicate 6 [ask (Pick 1 (const_of 3))]))\<lparr>ends := \<lambda>d m. politeLevel m > politeLimit d\<rparr>"

definition polite_side :: "nat \<Rightarrow> moves \<Rightarrow> nat" where
  "polite_side r m = sum_list (map (\<lambda>i. polite_of (m ! i)) (filter (\<lambda>i. i mod 2 = r) [0..<length m]))"

definition hoeflich_result :: "lang \<Rightarrow> doc \<Rightarrow> moves \<Rightarrow> outcome option" where
  "hoeflich_result L d m = do { last' \<leftarrow> choice m (length m - 1) 0; s \<leftarrow> get (politeRow L d (length m - 1)) last';
     let a = polite_side 0 m; let b = polite_side 1 m; let lim = fmt (X L ''hof_limit'') [(''n'', digits (politeLimit d))];
     Some (if politeLevel m > politeLimit d
       then \<lparr>headline = fmt (X L ''hof_burst'') [(''w'', if (length m - 1) mod 2 \<noteq> 0 then X L ''first'' else X L ''second'')],
             body = [fmt (X L ''hof_line'') [(''l'', s)], lim]\<rparr>
       else \<lparr>headline = (if a = b then X L ''hof_tie'' else fmt (X L ''hof_win'')
               [(''w'', if a > b then X L ''first'' else X L ''second''), (''a'', digits a), (''b'', digits b)]), body = [lim]\<rparr>) }"

section \<open>woerter\<close>

definition coinSlot :: "doc \<Rightarrow> nat \<Rightarrow> nat list" where "coinSlot d r = take 5 (drop (r * 5) (mixed d ''wort5'' 24))"

definition momentSlot :: "doc \<Rightarrow> nat \<Rightarrow> nat list" where "momentSlot d r = take 6 (drop (r * 6) (mixed d ''moment'' 24))"

definition coinPrompts :: "prompt list" where "coinPrompts = [ask (Pick 1 (const_of 5)), ask (Pick 1 (const_of 6))]"

definition coinWord :: "doc \<Rightarrow> moves \<Rightarrow> nat \<Rightarrow> nat option" where
  "coinWord d m r = do { x \<leftarrow> choice m r (if r \<noteq> 0 then 1 else 0); get (coinSlot d r) x }"

definition coinMoment :: "doc \<Rightarrow> moves \<Rightarrow> nat \<Rightarrow> nat option" where
  "coinMoment d m r = do { x \<leftarrow> choice m r (if r \<noteq> 0 then 2 else 1); get (momentSlot d r) x }"

definition coin_three :: "doc \<Rightarrow> nat \<Rightarrow> nat \<Rightarrow> nat list" where
  "coin_three d r mom = (let s = momentSlot d r; p = index_of mom s; o' = [s ! p, s ! ((p + 1) mod 6), s ! ((p + 2) mod 6)]
     in map (\<lambda>i. o' ! i) (mixed_at d ''wahl'' r 3))"

definition coinOptions :: "doc \<Rightarrow> moves \<Rightarrow> nat \<Rightarrow> nat list option" where
  "coinOptions d m r = do { mom \<leftarrow> coinMoment d m r; Some (coin_three d r mom) }"

definition coinGuess :: prompt where "coinGuess = ask (Pick 1 (const_of 3))"

definition woerter :: game where
  "woerter = plain_game [coinPrompts, coinGuess # coinPrompts, coinGuess # coinPrompts, coinGuess # coinPrompts, [coinGuess]]"

definition coin_round :: "lang \<Rightarrow> doc \<Rightarrow> moves \<Rightarrow> nat \<Rightarrow> (bool \<times> jstring) option" where
  "coin_round L d m r = do { opts \<leftarrow> coinOptions d m r; mom \<leftarrow> coinMoment d m r; x \<leftarrow> choice m (r + 1) 0; tip \<leftarrow> get opts x;
     w \<leftarrow> coinWord d m r; s \<leftarrow> get (pairs L ''coined'') w; t \<leftarrow> get (pairs L ''moments'') mom;
     Some (tip = mom, fmt (X L ''wbu_line'') [(''w'', s), (''m'', t)]) }"

definition woerter_result :: "lang \<Rightarrow> doc \<Rightarrow> moves \<Rightarrow> outcome option" where
  "woerter_result L d m = do { rs \<leftarrow> all_some (map (coin_round L d m) [0..<4]);
     Some \<lparr>headline = fmt (X L ''wbu_h'') [(''n'', digits (length (filter fst rs)))], body = map snd rs\<rparr> }"

section \<open>abfragen\<close>

definition cardPrompts :: "prompt list" where
  "cardPrompts = [ask_bytes 130 (Listing 4 28 False), ask_bytes 110 (Listing 4 24 True)]"

definition cardBack :: "prompt list" where
  "cardBack = concat (replicate 4 [ask (Shown ''show''), ask (Pick 1 (const_of 2))])"

definition abfragen :: game where "abfragen = plain_game [cardPrompts, cardBack @ cardPrompts, cardBack]"

definition knew :: "moves \<Rightarrow> nat \<Rightarrow> nat list option" where
  "knew m t = all_some (map (\<lambda>i. choice m t (i * 2 + 1)) [0..<4])"

definition open_cards :: "lang \<Rightarrow> string \<Rightarrow> nat list \<Rightarrow> jstring list \<Rightarrow> jstring list" where
  "open_cards L who a qs = map (\<lambda>(x, s). fmt (X L ''abf_open'') [(''w'', X L who), (''q'', s)]) (filter (\<lambda>(x, s). x \<noteq> 0) (zip a qs))"

definition abfragen_result :: "lang \<Rightarrow> doc \<Rightarrow> moves \<Rightarrow> outcome option" where
  "abfragen_result L d m = do { a \<leftarrow> knew m 1; b \<leftarrow> knew m 2; qa \<leftarrow> listed m 0 0; qb \<leftarrow> listed m 1 8;
     let sa = length (filter (\<lambda>x. x = 0) a); let sb = length (filter (\<lambda>x. x = 0) b);
     Some \<lparr>headline = X L ''abf_h'',
       body = [fmt (X L ''abf_score'') [(''w'', X L ''second''), (''n'', digits sa)],
               fmt (X L ''abf_score'') [(''w'', X L ''first''), (''n'', digits sb)]] @
         open_cards L ''second'' a qa @ open_cards L ''first'' b qb\<rparr> }"

end
