(* ===== verification/Turn_Games4.thy ===== *)
theory Turn_Games4
  imports Turn_Games3
begin

text \<open>
  Games of \<open>turns.js\<close>, fourth part: the rule on a tablet, the games on one phone, the draw, the tiers and the signed
  lines.
\<close>

section \<open>regel\<close>

definition ruleStart :: "doc \<Rightarrow> nat list" where
  "ruleStart d = map (\<lambda>s. mixed_at d ''regel'' s 8 ! 0) [0..<4]"

definition ruleOthers :: "nat list \<Rightarrow> nat \<Rightarrow> nat list" where
  "ruleOthers c s = filter (\<lambda>i. i \<noteq> c ! s) [0..<8]"

definition rule_step :: "nat list \<Rightarrow> nat \<times> nat \<Rightarrow> nat list" where
  "rule_step c x = c[fst x := ruleOthers c (fst x) ! snd x]"

definition rule_moves :: "moves \<Rightarrow> (nat \<times> nat) list option" where
  "rule_moves m = all_some (map (\<lambda>t. do { s \<leftarrow> choice m t 0; w \<leftarrow> choice m t 1; Some (s, w) }) [0..<length m])"

definition ruleAt :: "doc \<Rightarrow> (nat \<times> nat) list \<Rightarrow> nat list" where
  "ruleAt d xs = foldl rule_step (ruleStart d) xs"

definition ruleText :: "lang \<Rightarrow> nat list \<Rightarrow> jstring" where
  "ruleText L c = join_with '' '' (map (\<lambda>s. sides L ''rule'' ! s ! (c ! s)) [0..<length c]) @ js ''.''"

definition ruleTurn :: "prompt list" where "ruleTurn = [ask (Pick 1 (const_of 4)), ask (Pick 1 (const_of 7))]"

definition regel :: game where "regel = plain_game (replicate 5 ruleTurn)"

definition regel_result :: "lang \<Rightarrow> doc \<Rightarrow> moves \<Rightarrow> outcome option" where
  "regel_result L d m = do { xs \<leftarrow> rule_moves m;
     Some \<lparr>headline = fmt (X L ''reg_h'') [(''r'', ruleText L (ruleAt d xs))],
       body = map (\<lambda>i. fmt (X L ''reg_old'') [(''r'', ruleText L (ruleAt d (take i xs)))]) [0..<length m]\<rparr> }"

section \<open>werbung\<close>

definition names_prompt :: prompt where "names_prompt = ask (Listing 3 12 False)"

definition sellTurn :: "prompt list" where "sellTurn = [ask (Shown ''clock'')]"

definition buyTurn :: "nat \<Rightarrow> prompt list" where
  "buyTurn i = [ask (Pick 1 (\<lambda>d m now. length (filter (\<lambda>p. p \<noteq> i) [0..<len_of (answer m 0 0)])))]"

definition werbung :: game where
  "werbung = plain_game [[names_prompt], sellTurn, sellTurn, sellTurn, buyTurn 0, buyTurn 1, buyTurn 2]"

text \<open>Whom buyer \<open>v\<close> meant: one of the two others.\<close>

definition bought_from :: "nat \<Rightarrow> nat \<Rightarrow> nat" where
  "bought_from v x = filter (\<lambda>p. p \<noteq> v) [0..<3] ! x"

definition sales :: "nat list \<Rightarrow> nat list" where
  "sales xs = fold (\<lambda>v c. c[bought_from v (xs ! v) := c ! bought_from v (xs ! v) + 1]) [0..<3] [0, 0, 0]"

definition top_of :: "nat list \<Rightarrow> nat" where "top_of c = foldr max c 0"

definition werbung_result :: "lang \<Rightarrow> doc \<Rightarrow> moves \<Rightarrow> outcome option" where
  "werbung_result L d m = do { names \<leftarrow> listed m 0 0; a \<leftarrow> choice m 4 0; b \<leftarrow> choice m 5 0; e \<leftarrow> choice m 6 0;
     let c = sales [a, b, e]; let best = map fst (filter (\<lambda>(n, k). k = top_of c) (zip names c));
     Some \<lparr>headline = (if length best = 1 then fmt (X L ''wer_h'') [(''n'', hd best), (''c'', digits (top_of c))] else X L ''wer_tie''),
       body = map (\<lambda>(n, k). n @ js '': '' @ digits k) (zip names c)\<rparr> }"

section \<open>maschine\<close>

definition machine_flip :: "doc \<Rightarrow> nat list" where "machine_flip d = take (1 + seed_mod d 2) (mixed d ''aus'' 6)"

definition machine_row :: "doc \<Rightarrow> nat list list \<Rightarrow> nat list" where
  "machine_row d rows = map (\<lambda>q. let one = rows ! 0 ! q + rows ! 1 ! q + rows ! 2 ! q; most = (if one \<ge> 2 then 1 else 0)
     in if q \<in> set (machine_flip d) then 1 - most else most) [0..<6]"

definition machineRows :: "doc \<Rightarrow> moves \<Rightarrow> nat list list option" where
  "machineRows d m = do { rows \<leftarrow> all_some (map (\<lambda>t. choices m t 0 6) [1..<4]); Some (rows @ [machine_row d rows]) }"

definition machineSeen :: "doc \<Rightarrow> nat list" where "machineSeen d = mixed d ''reihe'' 4"

definition askAt :: "lang \<Rightarrow> doc \<Rightarrow> nat \<Rightarrow> nat \<Rightarrow> jstring" where
  "askAt L d q a = sides L ''either'' ! (eithers d ! q) ! a"

definition rowText :: "lang \<Rightarrow> doc \<Rightarrow> nat list \<Rightarrow> jstring" where
  "rowText L d r = join_with '', '' (map (\<lambda>q. askAt L d q (r ! q)) [0..<length r])"

definition machineAsk :: "prompt list" where "machineAsk = replicate 6 (ask (Pick 1 (const_of 2)))"

definition machineVote :: "prompt list" where "machineVote = [ask (Pick 1 (const_of 4))]"

definition maschine :: game where
  "maschine = plain_game [[names_prompt], machineAsk, machineAsk, machineAsk, machineVote, machineVote, machineVote]"

definition maschine_result :: "lang \<Rightarrow> doc \<Rightarrow> moves \<Rightarrow> outcome option" where
  "maschine_result L d m = do { rows \<leftarrow> machineRows d m; names \<leftarrow> listed m 0 0; a \<leftarrow> choice m 4 0; b \<leftarrow> choice m 5 0; e \<leftarrow> choice m 6 0;
     let spot = index_of 3 (machineSeen d); let found = map fst (filter (\<lambda>(n, x). x = spot) (zip names [a, b, e]));
     Some \<lparr>headline = fmt (X L ''mas_h'') [(''n'', digits (3 - length found))],
       body = [fmt (X L ''mas_was'') [(''r'', rowText L d (rows ! 3))],
               if found \<noteq> [] then fmt (X L ''mas_found'') [(''n'', join_with '', '' found)] else X L ''mas_none'']\<rparr> }"

section \<open>suche, wichteln\<close>

definition suche :: game where
  "suche = plain_game [[ask (Shown ''show''), ask (Listing 4 40 False)], [ask (Hunt 3600)]]"

definition suche_result :: "lang \<Rightarrow> doc \<Rightarrow> moves \<Rightarrow> outcome option" where
  "suche_result L d m = do { n \<leftarrow> number m 1 0; Some \<lparr>headline = fmt (X L ''suc_h'') [(''n'', num_text n)], body = [X L ''suc_note'']\<rparr> }"

definition drawNames :: "moves \<Rightarrow> jstring list" where
  "drawNames m = (case listed m 0 0 of Some ss \<Rightarrow> filter (\<lambda>s. s \<noteq> []) ss | None \<Rightarrow> [])"

definition wichteln :: game where
  "wichteln = plain_game [[ask (Loose 12 12 (Some 3))], [ask (Pick 1 (\<lambda>d m now. length (drawNames m))), ask (Shown ''show'')]]"

text \<open>Whom the one who opens the link gives to (the second prompt shows this name).\<close>

definition gives_to :: "doc \<Rightarrow> moves \<Rightarrow> nat \<Rightarrow> jstring" where
  "gives_to d m me = drawNames m ! (drawn (seed d) (length (drawNames m)) ! me)"

definition wichteln_result :: "lang \<Rightarrow> doc \<Rightarrow> moves \<Rightarrow> outcome option" where
  "wichteln_result L d m = Some \<lparr>headline = X L ''wic_h'', body = [X L ''wic_note'']\<rparr>"

section \<open>rangliste, reihum\<close>

definition tiers :: "lang \<Rightarrow> doc \<Rightarrow> jstring list" where "tiers L d = sides L ''tiers'' ! seed_mod d 6"

definition rangliste :: game where "rangliste = plain_game [[ask (Rank (const_of 8))], [ask (Rank (const_of 8))]]"

definition apart :: "nat list \<Rightarrow> nat list \<Rightarrow> nat" where
  "apart x y = sum_list (map (\<lambda>i. gap (places x ! i) (places y ! i)) [0..<8])"

text \<open>\<open>Math.round((1 - sum / 32) * 100)\<close>; both numbers are exact in binary.\<close>

definition agreement :: "nat \<Rightarrow> int" where "agreement sm = (200 * (32 - int sm) + 32) div 64"

definition rangliste_result :: "lang \<Rightarrow> doc \<Rightarrow> moves \<Rightarrow> outcome option" where
  "rangliste_result L d m = do { x \<leftarrow> picks m 0 0; y \<leftarrow> picks m 1 0; tx \<leftarrow> get x 0; ty \<leftarrow> get y 0;
     a \<leftarrow> get (tiers L d) tx; b \<leftarrow> get (tiers L d) ty;
     far \<leftarrow> get (tiers L d) (first_max (\<lambda>i. gap (places x ! i) (places y ! i)) 8);
     let sm = apart x y;
     Some \<lparr>headline = fmt (X L ''ran_h'') [(''n'', num_text (agreement sm))],
       body = [fmt (X L ''ran_top'') [(''w'', X L ''first''), (''o'', a)], fmt (X L ''ran_top'') [(''w'', X L ''second''), (''o'', b)],
               if sm \<noteq> 0 then fmt (X L ''ran_far'') [(''o'', far)] else X L ''ran_same'']\<rparr> }"

definition guess_max :: "nat list" where
  "guess_max = [500, 200, 60, 1000, 200, 12000, 10, 1000, 100, 20, 10000, 100, 20, 500, 5000]"

definition guessAsk :: "nat \<Rightarrow> prompt" where
  "guessAsk i = ask (Slide 0 (\<lambda>d. int (guess_max ! (mixed d ''tag'' 15 ! i))))"

definition signTurn :: "prompt list" where
  "signTurn = [pick_from ''starts'', plain_text 34, plain_text 12]"

definition signedLine :: "lang \<Rightarrow> moves \<Rightarrow> nat \<Rightarrow> jstring option" where
  "signedLine L m t = do { x \<leftarrow> choice m t 0; s \<leftarrow> get (pairs L ''starts'') x; a \<leftarrow> line m t 1; b \<leftarrow> line m t 2;
     Some (s @ js '' '' @ a @ js '' ('' @ b @ js '')'') }"

definition reihum :: game where "reihum = plain_game [signTurn, signTurn, signTurn, signTurn]"

definition reihum_result :: "lang \<Rightarrow> doc \<Rightarrow> moves \<Rightarrow> outcome option" where
  "reihum_result L d m = do { ls \<leftarrow> all_some (map (signedLine L m) [0..<length m]); Some \<lparr>headline = X L ''rei_h'', body = ls\<rparr> }"

end
