(* ===== verification/Turn_Games5.thy ===== *)
theory Turn_Games5
  imports Turn_Games4
begin

text \<open>
  Games of \<open>turns.js\<close>, fifth part: thanks and candles, the letter to oneself, the falling price, the socks, the doors,
  the rap, the games with voices and those that measure times. What \<open>Intl\<close> makes of a number of milliseconds is the
  parameter \<open>secs\<close>.
\<close>

section \<open>danke, kerzen, post\<close>

definition danke :: game where
  "danke = plain_game [[plain_text 44, plain_text 12], [ask (Shown ''show'')]]"

definition danke_result :: "lang \<Rightarrow> doc \<Rightarrow> moves \<Rightarrow> outcome option" where
  "danke_result L d m = do { s \<leftarrow> line m 0 0; n \<leftarrow> line m 0 1;
     Some \<lparr>headline = fmt (X L ''dan_h'') [(''s'', s)], body = [fmt (X L ''dan_sig'') [(''n'', n)], X L ''dan_ok'']\<rparr> }"

definition kerzen :: game where "kerzen = plain_game [[plain_text 60], [ask (Shown ''blow'')]]"

definition kerzen_result :: "lang \<Rightarrow> doc \<Rightarrow> moves \<Rightarrow> outcome option" where
  "kerzen_result L d m = do { s \<leftarrow> line m 0 0; Some \<lparr>headline = s, body = [X L ''ker_h'']\<rparr> }"

definition post :: game where
  "post = waits (plain_game [[ask (Listing 3 40 False), slide 7 30], replicate 3 (ask (Pick 1 (const_of 2)))])"

definition post_result :: "lang \<Rightarrow> doc \<Rightarrow> moves \<Rightarrow> outcome option" where
  "post_result L d m = do { ss \<leftarrow> listed m 0 0; xs \<leftarrow> choices m 1 0 3;
     Some \<lparr>headline = fmt (X L ''pst_h'') [(''n'', digits (length (filter (\<lambda>x. x = 0) xs)))],
       body = map2 (\<lambda>s x. (if x = 0 then [0x2713, 32] else [0x2717, 32]) @ s) ss xs\<rparr> }"

section \<open>fallpreis\<close>

definition junk :: "lang \<Rightarrow> doc \<Rightarrow> jstring list" where
  "junk L d = pick_pairs L ''items'' (take 4 (mixed d ''quatsch'' 12))"

definition junkWorth :: "doc \<Rightarrow> nat \<Rightarrow> nat list" where
  "junkWorth d who = map (\<lambda>i. 20 + i * 10) (take 4 (mixed_at d ''qwert'' who 9))"

definition dropTurn :: "prompt list" where "dropTurn = replicate 4 (ask (Drop 100))"

definition fallpreis :: game where "fallpreis = plain_game [dropTurn, dropTurn]"

text \<open>What one side gains: the worth less the price of every thing for which it stopped earlier, at the higher price.\<close>

definition gain :: "int list \<Rightarrow> int list \<Rightarrow> nat list \<Rightarrow> int" where
  "gain mine theirs ws = sum_list (map2 (\<lambda>w (a, b). if a > b then int w - a else 0) ws (zip mine theirs))"

definition fall_line :: "lang \<Rightarrow> jstring \<Rightarrow> int \<Rightarrow> int \<Rightarrow> nat \<Rightarrow> nat \<Rightarrow> jstring" where
  "fall_line L thing a b wa wb =
     (if a = b then fmt (X L ''aq_none'') [(''o'', thing), (''p'', num_text a)]
      else if a > b then fmt (X L ''aq_buy'') [(''o'', thing), (''w'', X L ''first''), (''p'', num_text a), (''v'', digits wa)]
      else fmt (X L ''aq_buy'') [(''o'', thing), (''w'', X L ''second''), (''p'', num_text b), (''v'', digits wb)])"

definition fallpreis_result :: "lang \<Rightarrow> doc \<Rightarrow> moves \<Rightarrow> outcome option" where
  "fallpreis_result L d m = do { a \<leftarrow> all_some (map (number m 0) [0..<4]); b \<leftarrow> all_some (map (number m 1) [0..<4]);
     let wa = junkWorth d 0; let wb = junkWorth d 1; let sa = gain a b wa; let sb = gain b a wb;
     Some \<lparr>headline = (if sa = sb then fmt (X L ''aq_tie'') [(''a'', num_text sa)] else fmt (X L ''aq_win'')
         [(''w'', if sa > sb then X L ''first'' else X L ''second''), (''a'', num_text sa), (''b'', num_text sb)]),
       body = map (\<lambda>i. fall_line L (junk L d ! i) (a ! i) (b ! i) (wa ! i) (wb ! i)) [0..<4]\<rparr> }"

section \<open>socken\<close>

definition dist :: "nat \<Rightarrow> nat \<Rightarrow> nat" where "dist s c = max (gap (s mod 5) (c mod 5)) (gap (s div 5) (c div 5))"

definition sockAnswer :: "nat list \<Rightarrow> nat \<Rightarrow> nat" where
  "sockAnswer socks c = (if c \<in> set socks then 2 else if list_ex (\<lambda>s. dist s c \<le> 1) socks then 1 else 0)"

definition hidden :: "moves \<Rightarrow> nat \<Rightarrow> nat list" where
  "hidden m who = (case picks m who 0 of Some xs \<Rightarrow> xs | None \<Rightarrow> [])"

definition last_taps :: "answers \<Rightarrow> nat list" where
  "last_taps t = (if t = [] then [] else case nats (last t) of Some xs \<Rightarrow> xs | None \<Rightarrow> [])"

text \<open>All taps of the side that searches the socks of \<open>who\<close>.\<close>

definition sockTaps :: "moves \<Rightarrow> nat \<Rightarrow> nat list" where
  "sockTaps m who = concat (map (\<lambda>i. last_taps (m ! i)) (filter (\<lambda>i. i \<ge> 1 \<and> i mod 2 \<noteq> who) [0..<length m]))"

definition sockFound :: "moves \<Rightarrow> nat \<Rightarrow> nat" where
  "sockFound m who = card (set (filter (\<lambda>c. c \<in> set (hidden m who)) (sockTaps m who)))"

definition sockTurn :: "nat \<Rightarrow> prompt list" where
  "sockTurn t = (let p = ask (Probe 6 (\<lambda>d m. sockTaps m ((t + 1) mod 2))) in if t = 1 then [ask (Grid 2), p] else [p])"

definition socken :: game where
  "socken = (plain_game ([ask (Grid 2)] # map sockTurn [1..<7]))
     \<lparr>ends := \<lambda>d m. length m \<ge> 3 \<and> length m mod 2 = 1 \<and> (sockFound m 0 = 2 \<or> sockFound m 1 = 2)\<rparr>"

definition socken_result :: "lang \<Rightarrow> doc \<Rightarrow> moves \<Rightarrow> outcome option" where
  "socken_result L d m = (let a = sockFound m 1; b = sockFound m 0 in
     Some \<lparr>headline = (if a = b then X L ''sok_tie'' else fmt (X L ''sok_win'') [(''w'', if a > b then X L ''first'' else X L ''second'')]),
       body = [fmt (X L ''sok_score'') [(''w'', X L ''first''), (''n'', digits a)],
               fmt (X L ''sok_score'') [(''w'', X L ''second''), (''n'', digits b)],
               fmt (X L ''sok_turns'') [(''n'', digits (length m - 1))]]\<rparr>)"

section \<open>advent, rap\<close>

definition doorText :: "lang \<Rightarrow> moves \<Rightarrow> nat \<Rightarrow> jstring option" where
  "doorText L m i = do { ss \<leftarrow> listed m 0 0; s \<leftarrow> get ss i; t \<leftarrow> get (pairs L ''doorFill'') (i mod 5); Some (if s \<noteq> [] then s else t) }"

definition advent :: game where
  "advent = plain_game [[ask_bytes 520 (Loose 24 20 None)], [ask (Shown ''doors'')]]"

definition advent_result :: "lang \<Rightarrow> doc \<Rightarrow> moves \<Rightarrow> outcome option" where
  "advent_result L d m = do { s \<leftarrow> doorText L m 0; Some \<lparr>headline = X L ''adv_h'', body = [s]\<rparr> }"

definition RAPTYPE :: "nat list" where "RAPTYPE = [0, 0, 1, 1, 2, 2]"

definition rapFam :: "doc \<Rightarrow> nat \<Rightarrow> nat" where "rapFam d who = mixed d ''rap'' 4 ! who"

definition rapLine :: "lang \<Rightarrow> doc \<Rightarrow> nat \<Rightarrow> nat \<Rightarrow> jstring" where
  "rapLine L d who i = sides L ''rap'' ! rapFam d who ! i"

definition rapCards :: "doc \<Rightarrow> nat \<Rightarrow> nat \<Rightarrow> nat option \<Rightarrow> nat list" where
  "rapCards d who k avoid = take 3 (filter (\<lambda>i. Some i \<noteq> avoid) (mix (seed d) (js ''karte'' @ digits who @ digits k) 6))"

definition rapPick :: prompt where "rapPick = ask (Pick 1 (const_of 3))"

definition rapTurn :: "doc \<Rightarrow> moves \<Rightarrow> nat \<Rightarrow> (nat \<times> nat) option" where
  "rapTurn d m who = do { x \<leftarrow> choice m who 0; first \<leftarrow> get (rapCards d who 0 None) x; y \<leftarrow> choice m who 1;
     second \<leftarrow> get (rapCards d who 1 (Some first)) y; Some (first, second) }"

definition rap_hits :: "nat \<times> nat \<Rightarrow> nat" where
  "rap_hits p = (if RAPTYPE ! fst p = 2 then 1 else 0) + (if RAPTYPE ! snd p = 2 then 1 else 0)"

definition rap :: game where "rap = plain_game [[rapPick, rapPick], [rapPick, rapPick]]"

definition rap_result :: "lang \<Rightarrow> doc \<Rightarrow> moves \<Rightarrow> outcome option" where
  "rap_result L d m = do { x \<leftarrow> rapTurn d m 0; y \<leftarrow> rapTurn d m 1;
     let a = rap_hits x; let b = rap_hits y;
     Some \<lparr>headline = (if a = b then fmt (X L ''rap_tie'') [(''a'', digits a)] else fmt (X L ''rap_win'')
         [(''w'', if a > b then X L ''first'' else X L ''second''), (''a'', digits a), (''b'', digits b)]),
       body = [rapLine L d 0 (fst x), rapLine L d 0 (snd x), rapLine L d 1 (fst y), rapLine L d 1 (snd y)]\<rparr> }"

section \<open>disco, stimme, maus, papagei, tier\<close>

definition pauseAt :: "doc \<Rightarrow> nat \<Rightarrow> nat" where "pauseAt d r = 4 + mixed_at d ''pause'' r 9 ! 0"

definition statue :: "lang \<Rightarrow> doc \<Rightarrow> nat \<Rightarrow> jstring" where
  "statue L d r = pairs L ''statues'' ! (mixed d ''statue'' 12 ! (r mod 12))"

definition disco :: game where "disco = plain_game [[ask (Pick 1 (const_of 3)), ask (Freeze 99)]]"

definition disco_result :: "lang \<Rightarrow> doc \<Rightarrow> moves \<Rightarrow> outcome option" where
  "disco_result L d m = do { n \<leftarrow> number m 0 1; Some \<lparr>headline = fmt (X L ''dis_h'') [(''n'', num_text n)], body = [X L ''dis_note'']\<rparr> }"

definition figure :: "doc \<Rightarrow> nat \<Rightarrow> nat" where "figure d r = mixed d ''figur'' 18 ! r"

definition figureCards :: "doc \<Rightarrow> nat \<Rightarrow> nat list" where
  "figureCards d r = (let ok = figure d r; rest = take 5 (filter (\<lambda>i. i \<noteq> ok) (mixed_at d ''fk'' r 18)) @ [ok]
     in map (\<lambda>i. rest ! i) (mixed_at d ''fo'' r 6))"

definition stimme :: game where
  "stimme = plain_game [[ask (Shown ''show'')], [ask (Pick 1 (const_of 2)), ask (Voices 5)]]"

definition stimme_result :: "lang \<Rightarrow> doc \<Rightarrow> moves \<Rightarrow> outcome option" where
  "stimme_result L d m = do { n \<leftarrow> number m 1 1; Some \<lparr>headline = fmt (X L ''stm_h'') [(''n'', num_text n)], body = [X L ''stm_note'']\<rparr> }"

definition maus :: game where
  "maus = plain_game [[plain_text 12, ask (Pick 1 (const_of 4)), ask (Shown ''rec'')], [ask (Shown ''once'')]]"

definition maus_result :: "lang \<Rightarrow> doc \<Rightarrow> moves \<Rightarrow> outcome option" where
  "maus_result L d m = do { s \<leftarrow> line m 0 0; Some \<lparr>headline = fmt (X L ''mau_h'') [(''n'', s)], body = [X L ''mau_gone'']\<rparr> }"

definition papagei :: game where
  "papagei = plain_game [[ask (Shown ''show''), ask (Shown ''rec'')], [ask (Shown ''parrot''), ask (Pick 1 (const_of 3))]]"

definition parrotWords :: "lang \<Rightarrow> doc \<Rightarrow> jstring list" where
  "parrotWords L d = pick_pairs L ''words'' (take 3 (mixed d ''papagei'' 100))"

definition papagei_result :: "lang \<Rightarrow> doc \<Rightarrow> moves \<Rightarrow> outcome option" where
  "papagei_result L d m = do { x \<leftarrow> choice m 1 1; ok \<leftarrow> get (mixed d ''pw'' 3) 0; w \<leftarrow> get (parrotWords L d) ok;
     Some \<lparr>headline = (if x = ok then X L ''pap_right'' else X L ''pap_wrong''), body = [fmt (X L ''pap_was'') [(''w'', w)]]\<rparr> }"

definition animalTurn :: "prompt list" where "animalTurn = [ask (Shown ''rec'')]"

definition animalOrder :: "doc \<Rightarrow> nat list" where "animalOrder d = mixed d ''tierfolge'' 3"

definition tier :: game where
  "tier = plain_game [[names_prompt], animalTurn, animalTurn, animalTurn, [ask Whose, ask Whose, ask Whose]]"

definition tier_result :: "lang \<Rightarrow> doc \<Rightarrow> moves \<Rightarrow> outcome option" where
  "tier_result L d m = do { names \<leftarrow> listed m 0 0; tips \<leftarrow> all_some (map (number m 4) [0..<3]);
     let hit = map2 (\<lambda>who x. x = int who) (animalOrder d) tips;
     Some \<lparr>headline = fmt (X L ''tie_h'') [(''n'', digits (length (filter id hit)))],
       body = map (\<lambda>who. fmt (if hit ! index_of who (animalOrder d) then X L ''tie_known'' else X L ''tie_hidden'') [(''n'', names ! who)])
         [0..<length names]\<rparr> }"

end
