(* ===== verification/Turn_Games6.thy ===== *)
theory Turn_Games6
  imports Turn_Games5
begin

text \<open>
  Games of \<open>turns.js\<close>, sixth part: times and nerves, the bouncer, the games of one room, collecting money, the lists for
  a group, the gifts and the dates. The parameter \<open>num\<close> is what \<open>Intl\<close> makes of a number of thousandths with the given
  decimals (none: as many as it needs); \<open>slot_text\<close> is the text of a date.
\<close>

section \<open>uhr, pokal, reaktion\<close>

type_synonym format = "int \<Rightarrow> nat option \<Rightarrow> jstring"

definition uhrTargets :: "doc \<Rightarrow> nat list" where
  "uhrTargets d = map (\<lambda>r. 3000 + mixed_at d ''uhr'' r 6 ! 0 * 1000) [0..<5]"

definition uhr :: game where "uhr = plain_game [[ask Inner]]"

definition integers :: "json \<Rightarrow> int list option" where
  "integers v = Option.bind (as_array v) (\<lambda>xs. all_some (map as_integer xs))"

text \<open>The mean of the five in tenths of a second: \<open>Math.round(sum / 5 / 100)\<close>.\<close>

definition mean_tenths :: "int list \<Rightarrow> int" where "mean_tenths ds = (2 * sum_list ds + 500) div 1000"

definition uhr_result :: "format \<Rightarrow> lang \<Rightarrow> doc \<Rightarrow> moves \<Rightarrow> outcome option" where
  "uhr_result num L d m = do { v \<leftarrow> answer m 0 0; ds \<leftarrow> integers v;
     let mean = mean_tenths ds;
     Some \<lparr>headline = (if mean = 0 then X L ''uhr_spot''
         else fmt (if mean < 0 then X L ''uhr_early'' else X L ''uhr_late'') [(''n'', num (\<bar>mean\<bar> * 100) None)]),
       body = map (\<lambda>i. fmt (X L ''uhr_line'') [(''i'', digits (i + 1)), (''t'', num (int (uhrTargets d ! i)) None),
         (''n'', (if ds ! i > 0 then js ''+'' else []) @ num (ds ! i) (Some 1))]) [0..<length ds]\<rparr> }"

definition secs :: "format \<Rightarrow> int \<Rightarrow> jstring" where "secs num ms = num ms (Some 2)"

definition pokal :: game where "pokal = plain_game [[ask Blind], [ask Blind]]"

definition timed_lines :: "format \<Rightarrow> lang \<Rightarrow> int \<Rightarrow> int \<Rightarrow> jstring list" where
  "timed_lines num L a b = [X L ''first'' @ js '': '' @ secs num a @ js '' s'', X L ''second'' @ js '': '' @ secs num b @ js '' s'']"

definition pokal_result :: "format \<Rightarrow> lang \<Rightarrow> doc \<Rightarrow> moves \<Rightarrow> outcome option" where
  "pokal_result num L d m = do { x \<leftarrow> number m 0 0; y \<leftarrow> number m 1 0;
     let a = \<bar>x - 10000\<bar>; let b = \<bar>y - 10000\<bar>;
     Some \<lparr>headline = (if a = b then X L ''pok_tie'' else fmt (X L ''pok_win'') [(''w'', if a < b then X L ''first'' else X L ''second'')]),
       body = timed_lines num L x y\<rparr> }"

definition reactPlan :: "doc \<Rightarrow> (nat \<times> nat) list" where
  "reactPlan d = map (\<lambda>r. (mixed_at d ''lock'' r 3 ! 0, 700 + mixed_at d ''pause'' r 12 ! 0 * 150)) [0..<5]"

definition reaktion :: game where "reaktion = plain_game [[ask React], [ask React]]"

definition reaktion_result :: "format \<Rightarrow> lang \<Rightarrow> doc \<Rightarrow> moves \<Rightarrow> outcome option" where
  "reaktion_result num L d m = do { a \<leftarrow> number m 0 0; b \<leftarrow> number m 1 0;
     Some \<lparr>headline = (if a = b then X L ''rea_tie'' else fmt (X L ''rea_win'') [(''w'', if a < b then X L ''first'' else X L ''second'')]),
       body = timed_lines num L a b @ [if a < b then X L ''rea_tease'' else X L ''rea_tease2'']\<rparr> }"

section \<open>pommes: Nim where the last move loses\<close>

definition xor_all :: "nat list \<Rightarrow> nat" where "xor_all hs = foldl (XOR) 0 hs"

definition first_pos :: "(nat \<Rightarrow> bool) \<Rightarrow> nat list \<Rightarrow> nat" where "first_pos P hs = length (takeWhile (\<lambda>h. \<not> P h) hs)"

text \<open>The random move: a heap that is left and how much to take, from two draws.\<close>

definition nim_random :: "nat list \<Rightarrow> 32 word \<Rightarrow> nat \<times> nat" where
  "nim_random hs a0 = (let live = filter (\<lambda>n. hs ! n \<noteq> 0) [0..<length hs]; (x, a1) = draw (length live) a0; i = live ! x;
     (y, a2) = draw (hs ! i) a1 in (i, 1 + y))"

definition nim_smart :: "nat list \<Rightarrow> (nat \<times> nat) option" where
  "nim_smart hs = (let big = length (filter (\<lambda>h. h > 1) hs); x = xor_all hs in
     if big = 1 then (let i = first_pos (\<lambda>h. h > 1) hs; ones = length (filter (\<lambda>h. h = 1) hs)
       in Some (i, if ones mod 2 = 1 then hs ! i else hs ! i - 1))
     else if big > 1 \<and> x \<noteq> 0 then
       (let i = first_pos (\<lambda>h. h XOR x < h) hs in if i < length hs then Some (i, hs ! i - (hs ! i XOR x)) else None)
     else None)"

definition nimMove :: "nat list \<Rightarrow> bool \<Rightarrow> 32 word \<Rightarrow> nat \<times> nat" where
  "nimMove hs good a0 = (case (if good then nim_smart hs else None) of Some p \<Rightarrow> p | None \<Rightarrow> nim_random hs a0)"

definition nim_seed :: "doc \<Rightarrow> nat \<Rightarrow> 32 word" where
  "nim_seed d step = hash32 (js ''nim|'' @ digits (unat (seed d)) @ js ''|'' @ digits step)"

definition pommes :: game where "pommes = plain_game [[ask (Pick 1 (const_of 2)), ask Nim]]"

definition pommes_result :: "lang \<Rightarrow> doc \<Rightarrow> moves \<Rightarrow> outcome option" where
  "pommes_result L d m = do { w \<leftarrow> number m 0 1; x \<leftarrow> choice m 0 0;
     Some \<lparr>headline = (if w \<noteq> 0 then X L ''pom_won'' else X L ''pom_lost''), body = [if x \<noteq> 0 then X L ''pom_good'' else X L ''pom_easy'']\<rparr> }"

section \<open>tuer: the bouncer\<close>

type_synonym being = "nat \<times> nat \<times> nat \<times> nat"

text \<open>A being: animal, hat, colour, socks.\<close>

definition DOOR_RULES :: "(being \<Rightarrow> bool) list" where
  "DOOR_RULES = [\<lambda>(a, h, c, s). h = 1, \<lambda>(a, h, c, s). h = 0, \<lambda>(a, h, c, s). s = 1, \<lambda>(a, h, c, s). s = 0,
     \<lambda>(a, h, c, s). c = 0, \<lambda>(a, h, c, s). c = 1, \<lambda>(a, h, c, s). c = 2, \<lambda>(a, h, c, s). a \<noteq> 0, \<lambda>(a, h, c, s). a = 1, \<lambda>(a, h, c, s). a \<noteq> 2]"

definition doorIn :: "nat \<Rightarrow> being \<Rightarrow> bool" where "doorIn r b = (DOOR_RULES ! r) b"

definition doorOrder :: "doc \<Rightarrow> nat list" where "doorOrder d = mixed d ''tuer'' 10"

text \<open>\<open>rnd() < 0.5 ? 1 : 0\<close> is 1 for the lower half of the draws.\<close>

definition coin :: "32 word \<Rightarrow> nat \<times> 32 word" where
  "coin a = (let (x, a') = draw 2 a in (1 - x, a'))"

definition draw_being :: "32 word \<Rightarrow> being \<times> 32 word" where
  "draw_being a0 = (let (an, a1) = draw 4 a0; (h, a2) = coin a1; (c, a3) = draw 3 a2; (s, a4) = coin a3 in ((an, h, c, s), a4))"

fun until_side :: "nat \<Rightarrow> nat \<Rightarrow> bool \<Rightarrow> being \<Rightarrow> 32 word \<Rightarrow> being" where
  "until_side 0 r want b a = b"
| "until_side (Suc k) r want b a = (if doorIn r b = want then b else let (b', a') = draw_being a in until_side k r want b' a')"

definition doorBeing :: "doc \<Rightarrow> nat \<Rightarrow> nat \<Rightarrow> bool list \<Rightarrow> being" where
  "doorBeing d r i prev =
     (let (b, a) = draw_being (hash32 (js ''wesen|'' @ digits (unat (seed d)) @ js ''|'' @ digits r @ js ''|'' @ digits i)) in
      if length prev \<ge> 2 \<and> prev ! (length prev - 1) = prev ! (length prev - 2)
      then until_side 24 r (\<not> last prev) b a else b)"

definition tuer :: game where "tuer = plain_game [[ask Door]]"

definition tuer_result :: "lang \<Rightarrow> doc \<Rightarrow> moves \<Rightarrow> outcome option" where
  "tuer_result L d m = do { v \<leftarrow> answer m 0 0; a \<leftarrow> nats v; k \<leftarrow> get a 0; n \<leftarrow> get a 1; all \<leftarrow> get a 2;
     Some \<lparr>headline = fmt (X L ''tue_h'') [(''n'', digits k)],
       body = map (\<lambda>i. (if i < k then [0x2713, 32] else [0x2717, 32]) @ pairs L ''doorRules'' ! (doorOrder d ! i)) [0..<Suc (min k 9)] @
         [fmt (X L ''tue_right'') [(''n'', digits n), (''m'', digits all)]]\<rparr> }"

section \<open>streichen, finger, erklaeren and the apology\<close>

definition offers :: "lang \<Rightarrow> doc \<Rightarrow> jstring list" where "offers L d = sides L ''sets'' ! seed_mod d 2"

definition remove_at :: "nat \<Rightarrow> 'a list \<Rightarrow> 'a list" where "remove_at i xs = take i xs @ drop (Suc i) xs"

definition struck :: "nat list \<Rightarrow> nat list" where "struck xs = foldl (\<lambda>left i. remove_at i left) [0..<7] xs"

definition strikes :: "moves \<Rightarrow> nat list" where
  "strikes m = map (\<lambda>t. case choice m t 0 of Some x \<Rightarrow> x | None \<Rightarrow> 0) [0..<length m]"

definition strike :: "prompt list" where
  "strike = [ask (Pick 1 (\<lambda>d m now. length (struck (strikes m))))]"

definition streichen :: game where "streichen = plain_game (replicate 6 strike)"

definition streichen_result :: "lang \<Rightarrow> doc \<Rightarrow> moves \<Rightarrow> outcome option" where
  "streichen_result L d m = do { i \<leftarrow> get (struck (strikes m)) 0; s \<leftarrow> get (offers L d) i;
     Some \<lparr>headline = fmt (X L ''str_h'') [(''o'', s)], body = [X L ''str_note'']\<rparr> }"

definition finger :: game where "finger = plain_game [[ask (Shown ''touch'')]]"

definition finger_result :: "lang \<Rightarrow> doc \<Rightarrow> moves \<Rightarrow> outcome option" where
  "finger_result L d m = Some \<lparr>headline = X L ''fin_h'', body = [X L ''fin_note'']\<rparr>"

definition erklaeren :: game where "erklaeren = plain_game [[ask (Explain 99)]]"

definition erklaeren_result :: "lang \<Rightarrow> doc \<Rightarrow> moves \<Rightarrow> outcome option" where
  "erklaeren_result L d m = do { n \<leftarrow> number m 0 0; Some \<lparr>headline = fmt (X L ''exp_h'') [(''n'', num_text n)], body = [X L ''exp_note'']\<rparr> }"

definition apology_sizes :: "nat list" where "apology_sizes = [4, 4, 4]"

definition sorryAsk :: "nat \<Rightarrow> prompt" where "sorryAsk i = ask (Pick 1 (const_of (apology_sizes ! i)))"

definition sorryGame :: game where "sorryGame = plain_game [[sorryAsk 0, sorryAsk 1, sorryAsk 2]]"

definition sorryGame_result :: "lang \<Rightarrow> doc \<Rightarrow> moves \<Rightarrow> outcome option" where
  "sorryGame_result L d m = do { xs \<leftarrow> choices m 0 0 3;
     ws \<leftarrow> all_some (map (\<lambda>i. do { l \<leftarrow> get (sides L ''apologies'') i; get l (xs ! i) }) [0..<3]);
     Some \<lparr>headline = X L ''sor_h'', body = [join_with '' '' ws]\<rparr> }"

end
