(* ===== verification/Turn_Games7.thy ===== *)
theory Turn_Games7
  imports Turn_Games6 "HOL-Library.Product_Lexorder"
begin

text \<open>
  Games of \<open>turns.js\<close>, last part: collecting money, the lists for a group, the gifts, the dates, and the lines of a
  calendar file. The parameter \<open>slot_text\<close> is the text of a date.
\<close>

section \<open>sammeln: a share of an amount in cents\<close>

definition PAYERS :: int where "PAYERS = 20"

definition EUR :: "int \<times> int" where "EUR = (1, 50)"

definition payName :: "jstring \<Rightarrow> bool" where
  "payName s \<longleftrightarrow> s \<noteq> [] \<and> length s \<le> 20 \<and> list_all (\<lambda>c. 48 \<le> c \<and> c \<le> 57 \<or> 65 \<le> c \<and> c \<le> 90 \<or> 97 \<le> c \<and> c \<le> 122) s"

definition share :: "int \<Rightarrow> int \<Rightarrow> int" where "share c k = c div k"

definition rest :: "int \<Rightarrow> int \<Rightarrow> int" where "rest c k = c - share c k * k"

definition moneyOk :: "int \<Rightarrow> int \<Rightarrow> bool" where
  "moneyOk c k \<longleftrightarrow> 1 \<le> k \<and> k \<le> PAYERS \<and> fst EUR * 100 \<le> c \<and> c \<le> snd EUR * 100 * k \<and> share c k \<ge> 1"

definition digit :: "nat \<Rightarrow> bool" where "digit c \<longleftrightarrow> 48 \<le> c \<and> c \<le> 57"

definition decimal_value :: "jstring \<Rightarrow> int" where
  "decimal_value s = foldl (\<lambda>n c. 10 * n + (int c - 48)) 0 s"

definition lower_ascii :: "nat \<Rightarrow> nat" where "lower_ascii c = (if 65 \<le> c \<and> c \<le> 90 then c + 32 else c)"

definition currency_tail :: "jstring \<Rightarrow> bool" where
  "currency_tail s \<longleftrightarrow> (let r = dropWhile white s in r = [] \<or> r = [0x20AC] \<or> map lower_ascii r = js ''eur'')"

definition cents_after :: "int \<Rightarrow> jstring \<Rightarrow> int option" where
  "cents_after n s = (case s of
     c # r \<Rightarrow> (if c = 46 \<or> c = 44
       then (let ds = takeWhile digit r; r2 = dropWhile digit r in
             if 1 \<le> length ds \<and> length ds \<le> 2 \<and> currency_tail r2
             then Some (n * 100 + (if length ds = 1 then decimal_value ds * 10 else decimal_value ds)) else None)
       else if currency_tail s then Some (n * 100) else None)
   | [] \<Rightarrow> Some (n * 100))"

definition parseCents :: "jstring \<Rightarrow> int option" where
  "parseCents s = (let t = trim s; ds = takeWhile digit t; r = dropWhile digit t in
     if 1 \<le> length ds \<and> length ds \<le> 5 then cents_after (decimal_value ds) r else None)"

text \<open>\<open>euros(c, "url")\<close>.\<close>

definition euros_url :: "nat \<Rightarrow> jstring" where
  "euros_url c = (if c mod 100 \<noteq> 0 then digits (c div 100) @ js ''.'' @ [48 + c div 10 mod 10, 48 + c mod 10] else digits (c div 100))"

definition sammeln_store :: "nat \<Rightarrow> answers \<Rightarrow> json" where
  "sammeln_store t v = (case v of
     [a, b, k, c] \<Rightarrow> (case (as_integer k, as_integer c) of
        (Some k', Some c') \<Rightarrow> if t = 0 \<and> k' = 1 \<and> c' mod 100 = 0 \<and> fst EUR \<le> c' div 100 \<and> c' div 100 \<le> snd EUR
          then JArr [a, b, JInt (c' div 100)] else JArr v
      | _ \<Rightarrow> JArr v)
   | _ \<Rightarrow> JArr v)"

definition sammeln_legacy :: "nat \<Rightarrow> json \<Rightarrow> json" where
  "sammeln_legacy t got = (case as_array got of
     Some [a, b, e] \<Rightarrow> (case as_integer e of
        Some n \<Rightarrow> if t = 0 \<and> \<bar>n\<bar> < 1000000 then JArr [a, b, JInt 1, JInt (n * 100)] else got | None \<Rightarrow> got)
   | _ \<Rightarrow> got)"

definition money_check :: "json \<Rightarrow> answers \<Rightarrow> bool" where
  "money_check v now = (case (as_integer v, Option.bind (get now 2) as_integer) of (Some c, Some k) \<Rightarrow> moneyOk c k | _ \<Rightarrow> False)"

definition sammeln :: game where
  "sammeln = (plain_game [[ask (Text 20 True (\<lambda>s d m. \<not> payName s)), plain_text 30, slide 1 PAYERS, ask (Money money_check)],
     [ask (Shown ''pay'')]])\<lparr>store := sammeln_store, legacy := sammeln_legacy\<rparr>"

text \<open>\<open>payLink\<close>: the name, what it is for, how many pay, and the cents.\<close>

definition sam :: "moves \<Rightarrow> (jstring \<times> jstring \<times> int \<times> int) option" where
  "sam m = do { n \<leftarrow> line m 0 0; w \<leftarrow> line m 0 1; k \<leftarrow> number m 0 2; c \<leftarrow> number m 0 3; Some (n, w, k, c) }"

definition payLink :: "moves \<Rightarrow> jstring" where
  "payLink m = (case sam m of
     Some (n, w, k, c) \<Rightarrow> if payName n \<and> moneyOk c k
       then js ''https://paypal.me/'' @ n @ js ''/'' @ euros_url (nat (share c k)) @ js ''EUR'' else []
   | None \<Rightarrow> [])"

section \<open>einkauf, wunsch\<close>

text \<open>A typed line: a count of 1 to 99 in front, the rest is the text.\<close>

definition times_sign :: "nat \<Rightarrow> bool" where "times_sign c \<longleftrightarrow> c = 120 \<or> c = 88 \<or> c = 215 \<or> c = 42"

definition no_line_break :: "jstring \<Rightarrow> bool" where
  "no_line_break s \<longleftrightarrow> list_all (\<lambda>c. c \<notin> {10, 13, 0x2028, 0x2029}) s"

text \<open>The two expressions of \<open>shopParse\<close>: the digits, then a sign or white space, then the rest.\<close>

definition split_count :: "jstring \<Rightarrow> (nat \<times> jstring) option" where
  "split_count s = (let ds = takeWhile digit s; r = dropWhile digit s; n = nat (decimal_value ds);
       w1 = dropWhile white r; sign = (w1 \<noteq> [] \<and> times_sign (hd w1)); r1 = (if sign then tl w1 else r); w2 = dropWhile white r1;
       found = (\<lambda>t. if no_line_break t then Some (n, t) else None) in
     if ds = [] \<or> 2 < length ds then None
     else if w2 \<noteq> [] \<and> w2 \<noteq> r1 then found w2
     else if w1 \<noteq> [] \<and> w1 \<noteq> r then found w1
     else if sign \<and> tl w1 \<noteq> [] then found (tl w1) else None)"

definition shopParse :: "unicode \<Rightarrow> jstring \<Rightarrow> (jstring \<times> nat) option" where
  "shopParse u s = (let raw = trim s;
       (q, t) = (case split_count raw of Some (n, t) \<Rightarrow> if n \<ge> 1 then (n, t) else (1, raw) | None \<Rightarrow> (1, raw));
       c = clean u t (max_text SHOP) in
     if c \<noteq> [] \<and> fold_text u c \<noteq> [] then Some (c, q) else None)"

definition list_game :: "unicode \<Rightarrow> config \<Rightarrow> game" where
  "list_game u S = plain_game [[ask (Group_list S)], [ask (Group_list S)]]"

definition held :: "moves \<Rightarrow> shop option" where "held m = do { v \<leftarrow> answer m 0 0; shop_from v }"

definition einkauf :: "unicode \<Rightarrow> game" where
  "einkauf u = (list_game u SHOP)\<lparr>snap := Some 0,
     ends := \<lambda>d m. m \<noteq> [] \<and> (case held m of Some v \<Rightarrow> shopDone u v | None \<Rightarrow> False)\<rparr>"

definition shopNames :: "person list \<Rightarrow> jstring" where "shopNames ps = join_with '', '' (map fst ps)"

definition row_label :: "row \<Rightarrow> jstring" where
  "row_label r = (if rqty r \<le> 1 then rtext r else digits (rqty r) @ [0xD7, 32] @ rtext r)"

definition einkauf_result :: "unicode \<Rightarrow> lang \<Rightarrow> doc \<Rightarrow> moves \<Rightarrow> outcome option" where
  "einkauf_result u L d m = do { v \<leftarrow> held m;
     Some \<lparr>headline = X L ''ein_done_h'',
       body = map (\<lambda>r. fmt (X L ''ein_line'') [(''s'', row_label r), (''n'', shopNames (bought r))]) (shopRows u v)\<rparr> }"

definition shopCount :: "unicode \<Rightarrow> shop \<Rightarrow> nat \<times> nat \<times> nat" where
  "shopCount u v = (let r = shopRows u v in
     (length r, length (filter (\<lambda>x. bought x \<noteq> []) r), length (filter (\<lambda>x. bought x = [] \<and> bring x \<noteq> []) r)))"

definition wunsch :: "unicode \<Rightarrow> game" where
  "wunsch u = (list_game u WISH)\<lparr>snap := Some 0, wish := True, closing := Some 2, ends := \<lambda>d m. m \<noteq> [] \<and> o_day d = Some 2\<rparr>"

definition wunsch_result :: "unicode \<Rightarrow> lang \<Rightarrow> doc \<Rightarrow> moves \<Rightarrow> outcome option" where
  "wunsch_result u L d m = do { v \<leftarrow> held m; Some \<lparr>headline = X L ''wun_done_h'', body = map row_label (shopRows u v)\<rparr> }"

section \<open>geschenk\<close>

definition GIFT_who :: nat where "GIFT_who = 7"
definition GIFT_likes :: nat where "GIFT_likes = 12"

definition gift_turns :: "nat list \<Rightarrow> bool \<Rightarrow> prompt list list" where
  "gift_turns euro who =
     [(if who then [ask (Opts 1 GIFT_who)] else []) @ [ask (Pick 1 (const_of (length euro))), ask (Opts 2 GIFT_likes), ask Ideas],
      [ask (Pick 1 (\<lambda>d m now. len_of (do { a \<leftarrow> get m 0; v \<leftarrow> get a (length a - 1); p \<leftarrow> pair_of v; Some (fst p) })))]]"

definition giftGame :: "nat list \<Rightarrow> bool \<Rightarrow> game" where "giftGame euro who = plain_game (gift_turns euro who)"

definition giftLast :: "moves \<Rightarrow> (jstring list \<times> nat) option" where
  "giftLast m = do { a \<leftarrow> get m 0; v \<leftarrow> get a (length a - 1); p \<leftarrow> pair_of v; ss \<leftarrow> texts (fst p); i \<leftarrow> as_nat (snd p); Some (ss, i) }"

definition gift_result :: "(nat \<Rightarrow> jstring) \<Rightarrow> nat list \<Rightarrow> bool \<Rightarrow> lang \<Rightarrow> doc \<Rightarrow> moves \<Rightarrow> outcome option" where
  "gift_result upTo euro who L d m = do { x \<leftarrow> giftLast m; a \<leftarrow> get (fst x) (snd x); i \<leftarrow> choice m 1 0; b \<leftarrow> get (fst x) i;
     e \<leftarrow> choice m 0 (if who then 1 else 0); n \<leftarrow> get euro e;
     Some \<lparr>headline = (if a = b then fmt (X L ''gf_same'') [(''s'', a)] else X L ''gf_two''),
       body = (if a = b then [] else [fmt (X L ''gf_first'') [(''s'', a)], fmt (X L ''gf_second'') [(''s'', b)]]) @ [upTo n]\<rparr> }"

definition geschenk :: game where "geschenk = giftGame [10, 20, 30, 50] True"

section \<open>termin: finding a date\<close>

definition HOURS :: "nat list" where "HOURS = [10, 12, 14, 15, 16, 17, 18, 19, 20]"

definition VOTERS :: nat where "VOTERS = 10"

definition named_list :: "json \<Rightarrow> (jstring \<times> nat list) option" where
  "named_list v = do { p \<leftarrow> pair_of v; n \<leftarrow> as_string (fst p); xs \<leftarrow> nats (snd p); Some (n, xs) }"

definition slots_ok :: "unicode \<Rightarrow> json \<Rightarrow> moves \<Rightarrow> bool" where
  "slots_ok u v m = (case named_list v of None \<Rightarrow> False | Some (n, s) \<Rightarrow>
     nameOk u n \<and> 2 \<le> length s \<and> length s \<le> 5 \<and> list_all (\<lambda>x. x \<le> 9999999 \<and> x mod 10 < length HOURS) s \<and>
     list_all (\<lambda>i. s ! (i - 1) < s ! i) [1..<length s])"

definition vote_of :: "moves \<Rightarrow> nat \<Rightarrow> (jstring \<times> nat list) option" where
  "vote_of m t = do { v \<leftarrow> answer m t 0; named_list v }"

definition termDates :: "moves \<Rightarrow> nat list" where
  "termDates m = (case vote_of m 0 of Some (n, s) \<Rightarrow> s | None \<Rightarrow> [])"

definition votes :: "moves \<Rightarrow> (jstring \<times> nat list) list" where
  "votes m = List.map_filter (vote_of m) [0..<length m]"

definition voted :: "moves \<Rightarrow> jstring list" where "voted m = map fst (votes m)"

definition vote_ok :: "unicode \<Rightarrow> json \<Rightarrow> moves \<Rightarrow> bool" where
  "vote_ok u v m = (case named_list v of None \<Rightarrow> False | Some (n, s) \<Rightarrow>
     nameOk u n \<and> list_all (\<lambda>x. fold_text u x \<noteq> fold_text u n) (voted m) \<and> length s = length (termDates m) \<and> list_all (\<lambda>x. x \<le> 2) s)"

definition termin :: "unicode \<Rightarrow> game" where
  "termin u = plain_game ([ask (Own_check (slots_ok u))] # replicate (VOTERS - 1) [ask (Own_check (vote_ok u))])"

record candidate =
  c_slot :: nat
  c_yes :: nat
  c_maybe :: nat
  c_who :: "jstring list"

definition pts :: "candidate \<Rightarrow> nat" where "pts c = (c_yes c * 2 + c_maybe c) * 100 + c_yes c"

definition count_slot :: "jstring \<Rightarrow> (jstring \<times> nat list) list \<Rightarrow> nat \<Rightarrow> nat \<Rightarrow> candidate" where
  "count_slot first vs s i = fold (\<lambda>(n, xs) c. if xs ! i = 0 then c\<lparr>c_yes := c_yes c + 1, c_who := c_who c @ [n]\<rparr>
      else if xs ! i = 1 then c\<lparr>c_maybe := c_maybe c + 1\<rparr> else c) vs \<lparr>c_slot = s, c_yes = 1, c_maybe = 0, c_who = [first]\<rparr>"

definition tally :: "moves \<Rightarrow> candidate list" where
  "tally m = (case votes m of [] \<Rightarrow> [] | (n, s) # vs \<Rightarrow>
     sort_key (\<lambda>c. (- int (pts c), c_slot c)) (map (\<lambda>i. count_slot n vs (s ! i) i) [0..<length s]))"

definition few :: "jstring list \<Rightarrow> jstring" where
  "few names = join_with '', '' (take 3 names) @ (if length names > 3 then js '' +'' @ digits (length names - 3) else [])"

definition termHead :: "(nat \<Rightarrow> jstring) \<Rightarrow> lang \<Rightarrow> moves \<Rightarrow> jstring" where
  "termHead slot_text L m = (let l = tally m; top = filter (\<lambda>c. pts c = pts (hd l)) l; dot = [32, 0xB7, 32];
       joined = (\<lambda>ss. case map slot_text ss of [] \<Rightarrow> [] | y # ys \<Rightarrow> y @ concat (map (\<lambda>s. dot @ s) ys)) in
     if length m = 1 then fmt (X L ''ter_open'') [(''s'', joined (termDates m))]
     else if length top > 1 then fmt (X L ''ter_tie'') [(''s'', joined (map c_slot top))]
     else fmt (if c_yes (hd l) = length m then X L ''ter_all'' else X L ''ter_most'') [(''s'', slot_text (c_slot (hd l)))])"

definition termin_result :: "(nat \<Rightarrow> jstring) \<Rightarrow> lang \<Rightarrow> doc \<Rightarrow> moves \<Rightarrow> outcome option" where
  "termin_result slot_text L d m = do { best \<leftarrow> get (tally m) 0;
     Some \<lparr>headline = termHead slot_text L m,
       body = map (\<lambda>c. fmt (X L ''ter_line'') [(''s'', slot_text (c_slot c)), (''y'', digits (c_yes c)), (''v'', digits (c_maybe c))]) (take 2 (tally m)) @
         [fmt (X L ''ter_can'') [(''w'', few (c_who best))]]\<rparr> }"

section \<open>icsFold\<close>

definition char_bytes :: "nat \<Rightarrow> nat" where
  "char_bytes c = (if c < 0x80 then 1 else if c < 0x800 then 2 else if c < 0x10000 then 3 else 4)"

text \<open>Lines of at most 75 octets over the code points of a line; continuation lines start with a space.\<close>

fun ics_lines :: "nat list \<Rightarrow> nat \<Rightarrow> nat list \<Rightarrow> nat list list" where
  "ics_lines cur n [] = [cur]"
| "ics_lines cur n (c # cs) = (let b = char_bytes c in
     if n + b > 75 then cur # ics_lines [32, c] (1 + b) cs else ics_lines (cur @ [c]) (n + b) cs)"

definition icsFold :: "nat list \<Rightarrow> nat list list" where "icsFold l = ics_lines [] 0 l"

end
