(* ===== verification/Turn_Results.thy ===== *)
theory Turn_Results
  imports Turn_Games7 Shop_Ok
begin

text \<open>
  Every card of \<open>turns.js\<close> modelled in \<open>Turn_Games\<close> to \<open>Turn_Games7\<close> shows a result at its end: the result of a finished
  game reads only answers and texts that are there.
\<close>

lemma shown_danke: "valid_moves u danke d m \<Longrightarrow> length m = 2 \<Longrightarrow> shown (danke_result L d m)"
  using finished_2 [of u danke d m] by (auto simp: danke_def danke_result_def games)

lemma shown_kerzen: "valid_moves u kerzen d m \<Longrightarrow> length m = 2 \<Longrightarrow> shown (kerzen_result L d m)"
  using finished_2 [of u kerzen d m] by (auto simp: kerzen_def kerzen_result_def games)

lemma shown_disco: "valid_moves u disco d m \<Longrightarrow> length m = 1 \<Longrightarrow> shown (disco_result L d m)"
  using finished_1 [of u disco d m] by (auto simp: disco_def disco_result_def games)

lemma shown_stimme: "valid_moves u stimme d m \<Longrightarrow> length m = 2 \<Longrightarrow> shown (stimme_result L d m)"
  using finished_2 [of u stimme d m] by (auto simp: stimme_def stimme_result_def games)

lemma shown_maus: "valid_moves u maus d m \<Longrightarrow> length m = 2 \<Longrightarrow> shown (maus_result L d m)"
  using finished_2 [of u maus d m] by (auto simp: maus_def maus_result_def games)

lemma shown_papagei: "valid_moves u papagei d m \<Longrightarrow> length m = 2 \<Longrightarrow> data_ok L \<Longrightarrow> shown (papagei_result L d m)"
  using finished_2 [of u papagei d m] by (auto simp: papagei_def papagei_result_def games parrotWords_def pick_pairs_def)

lemma shown_suche: "valid_moves u suche d m \<Longrightarrow> length m = 2 \<Longrightarrow> shown (suche_result L d m)"
  using finished_2 [of u suche d m] by (auto simp: suche_def suche_result_def games)

lemma shown_erklaeren: "valid_moves u erklaeren d m \<Longrightarrow> length m = 1 \<Longrightarrow> shown (erklaeren_result L d m)"
  using finished_1 [of u erklaeren d m] by (auto simp: erklaeren_def erklaeren_result_def games)

lemma shown_finger: "valid_moves u finger d m \<Longrightarrow> length m = 1 \<Longrightarrow> shown (finger_result L d m)"
  using finished_1 [of u finger d m] by (auto simp: finger_def finger_result_def games)

lemma shown_pommes: "valid_moves u pommes d m \<Longrightarrow> length m = 1 \<Longrightarrow> shown (pommes_result L d m)"
  using finished_1 [of u pommes d m] by (auto simp: pommes_def pommes_result_def games)

lemma line_read:
  assumes "valid_moves u G d m" "t < length m" "i < length (turns G ! t)" "turns G ! t ! i = plain_text n"
  shows "\<exists>s. line m t i = Some s"
  using answered [OF assms(1,2,3)] by (auto simp: assms(4) plain_text_def shapes line_def)

lemma shown_umschlag: 
  assumes v: "valid_moves u umschlag d m" and l: "length m = 2" and L: "data_ok L"
  shows "shown (umschlag_result L d m)"
proof -
  have t: "turns umschlag = [[plain_text 44, plain_text 44, plain_text 44], [ask (Pick 1 (const_of 3))]]" by (simp add: umschlag_def)
  obtain i where i: "choice m 1 0 = Some i" "i < 3"
    using choice_read [OF v, of 1 0 "const_of 3"] l by (auto simp: t const_of_def)
  moreover obtain s where "line m 0 i = Some s"
    using line_read [OF v, of 0 i 44] l i(2) by (auto simp: t nth_Cons' numeral_3_eq_3 less_Suc_eq)
  moreover have "length (envs L) = 3" using L by (simp add: envs_def)
  ultimately show ?thesis by (simp add: umschlag_result_def)
qed

lemma tiers_length [simp]: "data_ok L \<Longrightarrow> length (tiers L d) = 8" by (simp add: tiers_def)

lemma nth_less: "\<forall>x \<in> set xs. x < n \<Longrightarrow> i < length xs \<Longrightarrow> xs ! i < (n :: nat)" by simp

lemma shown_kreis: "valid_moves u kreis d m \<Longrightarrow> length m = 2 \<Longrightarrow> shown (kreis_result L d m)"
  using finished_2 [of u kreis d m] by (auto simp: kreis_def kreis_result_def games all_some_gets len_of_texts)

lemma shown_rangliste: "valid_moves u rangliste d m \<Longrightarrow> length m = 2 \<Longrightarrow> data_ok L \<Longrightarrow> shown (rangliste_result L d m)"
  using finished_2 [of u rangliste d m] by (auto simp: rangliste_def rangliste_result_def games)

lemma ideas_read:
  "ok_ideas u v \<Longrightarrow> \<exists>a b ss i. pair_of v = Some (a, b) \<and> texts a = Some ss \<and> as_nat b = Some i \<and> i < length ss"
  by (auto simp: ok_ideas_def some_shape int_in_shape as_nat_def split: prod.splits)

lemma shown_geschenk: "valid_moves u geschenk d m \<Longrightarrow> length m = 2 \<Longrightarrow> data_ok L \<Longrightarrow> shown (gift_result up [10, 20, 30, 50] True L d m)"
  using finished_2 [of u geschenk d m] by (auto dest!: ideas_read simp: len_of_texts geschenk_def giftGame_def gift_turns_def gift_result_def giftLast_def games )

lemma shown_pokal: "valid_moves u pokal d m \<Longrightarrow> length m = 2 \<Longrightarrow> shown (pokal_result num L d m)"
  using finished_2 [of u pokal d m] by (auto simp: pokal_def pokal_result_def games )

lemma shown_reaktion: "valid_moves u reaktion d m \<Longrightarrow> length m = 2 \<Longrightarrow> shown (reaktion_result num L d m)"
  using finished_2 [of u reaktion d m] by (auto simp: reaktion_def reaktion_result_def games )

section \<open>The table of these cards\<close>

text \<open>
  Each card with its result; \<open>de\<close> are the German texts (which \<open>wort\<close> compares with), \<open>num\<close> and \<open>up\<close> the number formats.
\<close>

definition cards_with_results ::
    "unicode \<Rightarrow> lang \<Rightarrow> format \<Rightarrow> (nat \<Rightarrow> jstring) \<Rightarrow> lang \<Rightarrow> (game \<times> (doc \<Rightarrow> moves \<Rightarrow> outcome option)) list" where
  "cards_with_results u de num up L =
    [(deal, deal_result L), (einig, einig_result L), (wort u de, wort_result L), (schmuggel, schmuggel_result L), (lob, lob_result L),
     (auktion, auktion_result L), (kapsel, kapsel_result L), (kennst, kennst_result L), (snack, snack_result L), (teilen, teilen_result L),
     (wette, wette_result L), (luecke, luecke_result L), (socke, socke_result L), (bluff, bluff_result L), (auftrag, auftrag_result L),
     (ausrede, ausrede_result L), (gutschein, gutschein_result L), (rubbellos, rubbellos_result L), (urkunde, urkunde_result L),
     (luege, luege_result L), (recht, recht_result L), (morgen, morgen_result L), (umschlag, umschlag_result L), (rad, rad_result L),
     (steine, steine_result L), (kreis, kreis_result L), (suche, suche_result L), (rangliste, rangliste_result L), (danke, danke_result L),
     (kerzen, kerzen_result L), (disco, disco_result L), (stimme, stimme_result L), (maus, maus_result L), (papagei, papagei_result L),
     (pokal, pokal_result num L), (pommes, pommes_result L), (reaktion, reaktion_result num L), (finger, finger_result L),
     (erklaeren, erklaeren_result L), (geschenk, gift_result up [10, 20, 30, 50] True L)]"

definition good_card :: "unicode \<Rightarrow> game \<times> (doc \<Rightarrow> moves \<Rightarrow> outcome option) \<Rightarrow> bool" where
  "good_card u c \<longleftrightarrow> (\<forall>d m. \<not> ends (fst c) d m) \<and>
     (\<forall>d m. valid_moves u (fst c) d m \<and> length m = length (turns (fst c)) \<longrightarrow> shown (snd c d m))"

lemma plain_ends [simp]: "ends (plain_game ts) = (\<lambda>_ _. False)" by (simp add: plain_game_def)

lemma waits_ends [simp]: "ends (waits G) = ends G" by (simp add: waits_def)

lemma good_cardI:
  assumes "\<And>d m. \<not> ends G d m" "length (turns G) = n" "\<And>d m. valid_moves u G d m \<Longrightarrow> length m = n \<Longrightarrow> shown (res d m)"
  shows "good_card u (G, res)"
  using assms by (simp add: good_card_def)

lemma good_deal: "data_ok L \<Longrightarrow> good_card u (deal, deal_result L)"
  by (rule good_cardI [where n = 3]) (simp add: deal_def, simp add: deal_def, simp add: shown_deal)

lemma good_einig: "data_ok L \<Longrightarrow> good_card u (einig, einig_result L)"
  by (rule good_cardI [where n = 2]) (simp add: einig_def, simp add: einig_def, simp add: shown_einig)

lemma good_wort: "data_ok L \<Longrightarrow> good_card u (wort u de, wort_result L)"
  by (rule good_cardI [where n = 2]) (simp add: wort_def, simp add: wort_def, simp add: shown_wort)

lemma good_schmuggel: "data_ok L \<Longrightarrow> good_card u (schmuggel, schmuggel_result L)"
  by (rule good_cardI [where n = 3]) (simp add: schmuggel_def, simp add: schmuggel_def, simp add: shown_schmuggel)

lemma good_lob: "data_ok L \<Longrightarrow> good_card u (lob, lob_result L)"
  by (rule good_cardI [where n = 2]) (simp add: lob_def, simp add: lob_def, simp add: shown_lob)

lemma good_auktion: "data_ok L \<Longrightarrow> good_card u (auktion, auktion_result L)"
  by (rule good_cardI [where n = 2]) (simp add: auktion_def, simp add: auktion_def, simp add: shown_auktion)

lemma good_kapsel: "data_ok L \<Longrightarrow> good_card u (kapsel, kapsel_result L)"
  by (rule good_cardI [where n = 2]) (simp add: kapsel_def, simp add: kapsel_def, simp add: shown_kapsel)

lemma good_kennst: "data_ok L \<Longrightarrow> good_card u (kennst, kennst_result L)"
  by (rule good_cardI [where n = 3]) (simp add: kennst_def, simp add: kennst_def, simp add: shown_kennst)

lemma good_snack: "data_ok L \<Longrightarrow> good_card u (snack, snack_result L)"
  by (rule good_cardI [where n = 2]) (simp add: snack_def, simp add: snack_def, simp add: shown_snack)

lemma good_teilen: "data_ok L \<Longrightarrow> good_card u (teilen, teilen_result L)"
  by (rule good_cardI [where n = 2]) (simp add: teilen_def, simp add: teilen_def, simp add: shown_teilen)

lemma good_wette: "data_ok L \<Longrightarrow> good_card u (wette, wette_result L)"
  by (rule good_cardI [where n = 2]) (simp add: wette_def, simp add: wette_def, simp add: shown_wette)

lemma good_luecke: "data_ok L \<Longrightarrow> good_card u (luecke, luecke_result L)"
  by (rule good_cardI [where n = 2]) (simp add: luecke_def, simp add: luecke_def, simp add: shown_luecke)

lemma good_socke: "data_ok L \<Longrightarrow> good_card u (socke, socke_result L)"
  by (rule good_cardI [where n = 2]) (simp add: socke_def, simp add: socke_def, simp add: shown_socke)

lemma good_bluff: "data_ok L \<Longrightarrow> good_card u (bluff, bluff_result L)"
  by (rule good_cardI [where n = 2]) (simp add: bluff_def, simp add: bluff_def, simp add: shown_bluff)

lemma good_auftrag: "data_ok L \<Longrightarrow> good_card u (auftrag, auftrag_result L)"
  by (rule good_cardI [where n = 2]) (simp add: auftrag_def, simp add: auftrag_def, simp add: shown_auftrag)

lemma good_ausrede: "data_ok L \<Longrightarrow> good_card u (ausrede, ausrede_result L)"
  by (rule good_cardI [where n = 2]) (simp add: ausrede_def, simp add: ausrede_def, simp add: shown_ausrede)

lemma good_gutschein: "data_ok L \<Longrightarrow> good_card u (gutschein, gutschein_result L)"
  by (rule good_cardI [where n = 2]) (simp add: gutschein_def, simp add: gutschein_def, simp add: shown_gutschein)

lemma good_rubbellos: "data_ok L \<Longrightarrow> good_card u (rubbellos, rubbellos_result L)"
  by (rule good_cardI [where n = 2]) (simp add: rubbellos_def, simp add: rubbellos_def, simp add: shown_rubbellos)

lemma good_urkunde: "data_ok L \<Longrightarrow> good_card u (urkunde, urkunde_result L)"
  by (rule good_cardI [where n = 1]) (simp add: urkunde_def, simp add: urkunde_def, simp add: shown_urkunde)

lemma good_luege: "data_ok L \<Longrightarrow> good_card u (luege, luege_result L)"
  by (rule good_cardI [where n = 2]) (simp add: luege_def, simp add: luege_def, simp add: shown_luege)

lemma good_recht: "data_ok L \<Longrightarrow> good_card u (recht, recht_result L)"
  by (rule good_cardI [where n = 3]) (simp add: recht_def, simp add: recht_def, simp add: shown_recht)

lemma good_morgen: "data_ok L \<Longrightarrow> good_card u (morgen, morgen_result L)"
  by (rule good_cardI [where n = 2]) (simp add: morgen_def, simp add: morgen_def, simp add: shown_morgen)

lemma good_umschlag: "data_ok L \<Longrightarrow> good_card u (umschlag, umschlag_result L)"
  by (rule good_cardI [where n = 2]) (simp add: umschlag_def, simp add: umschlag_def, simp add: shown_umschlag)

lemma good_rad: "data_ok L \<Longrightarrow> good_card u (rad, rad_result L)"
  by (rule good_cardI [where n = 2]) (simp add: rad_def, simp add: rad_def, simp add: shown_rad)

lemma good_steine: "data_ok L \<Longrightarrow> good_card u (steine, steine_result L)"
  by (rule good_cardI [where n = 2]) (simp add: steine_def, simp add: steine_def, simp add: shown_steine)

lemma good_kreis: "data_ok L \<Longrightarrow> good_card u (kreis, kreis_result L)"
  by (rule good_cardI [where n = 2]) (simp add: kreis_def, simp add: kreis_def, simp add: shown_kreis)

lemma good_suche: "data_ok L \<Longrightarrow> good_card u (suche, suche_result L)"
  by (rule good_cardI [where n = 2]) (simp add: suche_def, simp add: suche_def, simp add: shown_suche)

lemma good_rangliste: "data_ok L \<Longrightarrow> good_card u (rangliste, rangliste_result L)"
  by (rule good_cardI [where n = 2]) (simp add: rangliste_def, simp add: rangliste_def, simp add: shown_rangliste)

lemma good_danke: "data_ok L \<Longrightarrow> good_card u (danke, danke_result L)"
  by (rule good_cardI [where n = 2]) (simp add: danke_def, simp add: danke_def, simp add: shown_danke)

lemma good_kerzen: "data_ok L \<Longrightarrow> good_card u (kerzen, kerzen_result L)"
  by (rule good_cardI [where n = 2]) (simp add: kerzen_def, simp add: kerzen_def, simp add: shown_kerzen)

lemma good_disco: "data_ok L \<Longrightarrow> good_card u (disco, disco_result L)"
  by (rule good_cardI [where n = 1]) (simp add: disco_def, simp add: disco_def, simp add: shown_disco)

lemma good_stimme: "data_ok L \<Longrightarrow> good_card u (stimme, stimme_result L)"
  by (rule good_cardI [where n = 2]) (simp add: stimme_def, simp add: stimme_def, simp add: shown_stimme)

lemma good_maus: "data_ok L \<Longrightarrow> good_card u (maus, maus_result L)"
  by (rule good_cardI [where n = 2]) (simp add: maus_def, simp add: maus_def, simp add: shown_maus)

lemma good_papagei: "data_ok L \<Longrightarrow> good_card u (papagei, papagei_result L)"
  by (rule good_cardI [where n = 2]) (simp add: papagei_def, simp add: papagei_def, simp add: shown_papagei)

lemma good_pokal: "data_ok L \<Longrightarrow> good_card u (pokal, pokal_result num L)"
  by (rule good_cardI [where n = 2]) (simp add: pokal_def, simp add: pokal_def, simp add: shown_pokal)

lemma good_pommes: "data_ok L \<Longrightarrow> good_card u (pommes, pommes_result L)"
  by (rule good_cardI [where n = 1]) (simp add: pommes_def, simp add: pommes_def, simp add: shown_pommes)

lemma good_reaktion: "data_ok L \<Longrightarrow> good_card u (reaktion, reaktion_result num L)"
  by (rule good_cardI [where n = 2]) (simp add: reaktion_def, simp add: reaktion_def, simp add: shown_reaktion)

lemma good_finger: "data_ok L \<Longrightarrow> good_card u (finger, finger_result L)"
  by (rule good_cardI [where n = 1]) (simp add: finger_def, simp add: finger_def, simp add: shown_finger)

lemma good_erklaeren: "data_ok L \<Longrightarrow> good_card u (erklaeren, erklaeren_result L)"
  by (rule good_cardI [where n = 1]) (simp add: erklaeren_def, simp add: erklaeren_def, simp add: shown_erklaeren)

lemma good_geschenk: "data_ok L \<Longrightarrow> good_card u (geschenk, gift_result up [10, 20, 30, 50] True L)"
  by (rule good_cardI [where n = 2]) (simp add: geschenk_def giftGame_def gift_turns_def, simp add: geschenk_def giftGame_def gift_turns_def, simp add: shown_geschenk)

lemmas good_cards =
  good_deal good_einig good_wort good_schmuggel good_lob good_auktion good_kapsel good_kennst good_snack good_teilen good_wette
  good_luecke good_socke good_bluff good_auftrag good_ausrede good_gutschein good_rubbellos good_urkunde good_luege good_recht
  good_morgen good_umschlag good_rad good_steine good_kreis good_suche good_rangliste good_danke good_kerzen good_disco good_stimme
  good_maus good_papagei good_pokal good_pommes good_reaktion good_finger good_erklaeren good_geschenk

lemma all_good: "data_ok L \<Longrightarrow> list_all (good_card u) (cards_with_results u de num up L)"
  by (simp add: cards_with_results_def good_cards)


section \<open>Samples\<close>

lemma sealed_moves:
  assumes "valid_moves u G (d\<lparr>dq := seal (map JArr ms) (seed d)\<rparr>) ms" "\<And>t a. legacy G t (JArr a) = JArr a" "codes parse ms" "link_bytes ms \<le> 675"
  shows "moves u parse G (d\<lparr>dq := seal (map JArr ms) (seed d)\<rparr>) = ms"
proof -
  have "unseal parse (seal (map JArr ms) (seed d)) (seed d) = map JArr ms"
    by (rule unseal_seal) (use assms(3,4) in \<open>auto simp: codes_def link_bytes_def\<close>)
  then show ?thesis using checked_from_keeps [of u G "d\<lparr>dq := seal (map JArr ms) (seed d)\<rparr>" "[]" ms] assms(1,2)
    by (simp add: moves_def checked_def)
qed

definition table :: doc where
  "table = \<lparr>dg = ''socke'', seed = 7, dq = [], df = ''star'', dw = None, o_day = None\<rparr>"

definition both :: moves where "both = [[JInt 50], [JInt 60]]"

definition tongue :: lang where
  "tongue = \<lparr>X = \<lambda>_. [], pairs = \<lambda>k. replicate (data_size k) [], sides = \<lambda>k. replicate (fst (side_size k)) (replicate (snd (side_size k)) [])\<rparr>"

lemma tongue_ok: "data_ok tongue" by (simp add: data_ok_def tongue_def list_all_length)

lemma both_codes: "codes (\<lambda>_. Some (JArr (map JArr both))) both" "link_bytes both \<le> 675"
  by (simp_all add: codes_def link_bytes_def both_def) code_simp+

lemma both_valid: "valid_moves plain socke d both"
  by (simp add: valid_moves_def socke_def both_def ok_turn_def slide_def shapes less_Suc_eq plain_game_def)

end
