(* ===== verification/Turn_Samples.thy ===== *)
theory Turn_Samples
  imports Turn_Results
begin

text \<open>The properties of links applied to games of the app: a pair of bids, and four signed lines in wide characters.\<close>

definition after :: "moves \<Rightarrow> doc" where
  "after ms = table\<lparr>dq := seal (map JArr ms) (seed table)\<rparr>"

definition reads :: "moves \<Rightarrow> nat list \<Rightarrow> json option" where
  "reads ms = (\<lambda>_. Some (JArr (map JArr ms)))"


lemma no_moves: "moves u parse G table = []"
  by (simp add: moves_def checked_def unseal_def table_def)

lemma keeps_socke: "keeps_moves plain socke"
  by (auto simp: keeps_moves_def socke_def plain_game_def ok_turn_def slide_def shapes)

definition one_bid :: moves where "one_bid = [[JInt 50]]"

lemma one_codes: "codes (reads one_bid) one_bid" "link_bytes one_bid \<le> 675"
  by (simp_all add: codes_def link_bytes_def reads_def) code_simp+


definition wide :: "nat \<Rightarrow> jstring" where "wide n = concat (replicate n [0xD83D, 0xDE00])"

definition signed :: answers where "signed = [JArr [JInt 0], JStr (wide 34), JStr (wide 12)]"

lemma wide_clean: "clean plain (wide 34) 34 = wide 34" "clean plain (wide 12) 12 = wide 12"
  by code_simp+

lemma wide_ok: "clean_as_is plain 34 (wide 34)" "clean_as_is plain 12 (wide 12)"
  by (simp_all only: clean_as_is_def wide_clean) (simp_all add: wide_def)

lemma reihum_turns: "turns reihum = [signTurn, signTurn, signTurn, signTurn]" by (simp add: reihum_def)

lemma nats_0: "nats (JArr [JNum (Rat 0)]) = Some [0]" by (simp add: nats_def as_nat_def)

lemmas signs = ok_turn_from ok_from_Cons signTurn_def pick_from_def plain_text_def never_bad_def shapes size_of_def

lemma signed_ok: "ok_turn plain signTurn signed d m"
  by (simp add: signs signed_def wide_ok chosen_def nats_0 del: chosen_shape)

lemma signs_same: "ok_turn u signTurn got (d\<lparr>dq := b, o_day := n\<rparr>) m = ok_turn u signTurn got d m"
  by (simp add: signs)

lemma keeps_reihum: "keeps_moves plain reihum"
  by (auto simp: keeps_moves_def reihum_def plain_game_def signs_same)

lemma three_valid: "valid_moves plain reihum d [signed, signed, signed]"
  by (simp add: valid_moves_def less_Suc_eq numeral_3_eq_3 reihum_def signed_ok)

definition three :: moves where "three = [signed, signed, signed]"

definition four :: moves where "four = [signed, signed, signed, signed]"

lemma three_codes: "\<forall>c \<in> set (stringify (JArr (map JArr three))). c < 0x10000" "link_bytes three \<le> 675"
  by code_simp+

lemma four_codes: "\<forall>c \<in> set (stringify (JArr (map JArr four))). c < 0x10000" "675 < link_bytes four"
  by code_simp+

definition codec :: "nat list \<Rightarrow> json option" where
  "codec b = Some (JArr (map JArr (if b = utf8 (stringify (JArr (map JArr three))) then three else four)))"

lemma codec_codes: "codes codec three" "codes codec four"
proof -
  have "utf8 (stringify (JArr (map JArr four))) \<noteq> utf8 (stringify (JArr (map JArr three)))"
    using three_codes(2) four_codes(2) by (auto simp: link_bytes_def)
  then show "codes codec three" "codes codec four"
    using three_codes(1) four_codes(1) by (simp_all add: codes_def codec_def)
qed

lemma long_game_is_lost_witness:
  "\<exists>d'. play plain codec reihum (after three) signed 0 = Some d' \<and> moves plain codec reihum (after three) = three \<and>
     moves plain codec reihum d' = []"
proof -
  have m: "moves plain codec reihum (after three) = three"
    unfolding after_def
    by (rule sealed_moves [OF three_valid [folded three_def] _ codec_codes(1) three_codes(2)]) (simp add: reihum_def plain_game_def)
  have "length three = 3" by (simp add: three_def)
  then obtain d' where p: "play plain codec reihum (after three) signed 0 = Some d'"
    unfolding play_def state_def m Let_def by (simp add: is_over_def reihum_def signed_ok split: if_splits)
  have f: "moves plain codec reihum (after three) @ [signed] = four" unfolding m by (simp add: three_def four_def)
  have "moves plain codec reihum d' = []"
    by (rule long_game_is_lost [OF keeps_reihum p]) (simp_all only: f codec_codes four_codes)
  with p m show ?thesis by blast
qed

end
