(* ===== verification/Poker_Field.thy ===== *)
theory Poker_Field
  imports Main "HOL-Library.Code_Target_Nat"
begin

unbundle bit_operations_syntax

text \<open>
  The field arithmetic of \<open>mpoker.js\<close>: numbers modulo \<open>2^255 - 19\<close> as sixteen limbs of sixteen bits. The limbs are
  doubles in the program; they are integers here, and \<open>exact\<close> (below \<open>2^53\<close>) is proved of every number the routines
  form, so the doubles hold them exactly.
\<close>

section \<open>Limbs\<close>

type_synonym limbs = "int list"

definition gf :: "int list \<Rightarrow> limbs" where "gf xs = take 16 (xs @ replicate 16 0)"

definition prime_p :: int where "prime_p = 2 ^ 255 - 19"

fun val :: "limbs \<Rightarrow> int" where
  "val [] = 0"
| "val (x # xs) = x + 65536 * val xs"

text \<open>The loop of \<open>car\<close>: the limbs after it and the last carry.\<close>

fun carry :: "int \<Rightarrow> limbs \<Rightarrow> limbs \<times> int" where
  "carry c [] = ([], c)"
| "carry c (x # xs) = (let v = x + c + 65535; c' = v div 65536; (ys, d) = carry c' xs in ((v - c' * 65536) # ys, d))"

definition car :: "limbs \<Rightarrow> limbs" where
  "car o' = (let (ys, c) = carry 1 o' in ys[0 := ys ! 0 + (c - 1 + 37 * (c - 1))])"

definition sel_limb :: "int \<Rightarrow> int \<Rightarrow> int \<Rightarrow> int \<times> int" where
  "sel_limb b p q = (let c = NOT (b - 1); t = c AND (p XOR q) in (p XOR t, q XOR t))"

definition sel :: "limbs \<Rightarrow> limbs \<Rightarrow> int \<Rightarrow> limbs \<times> limbs" where
  "sel p q b = (map (\<lambda>(x, y). fst (sel_limb b x y)) (zip p q), map (\<lambda>(x, y). snd (sel_limb b x y)) (zip p q))"

definition A :: "limbs \<Rightarrow> limbs \<Rightarrow> limbs" where "A a b = map2 (+) a b"

definition Z :: "limbs \<Rightarrow> limbs \<Rightarrow> limbs" where "Z a b = map2 (-) a b"

section \<open>Products\<close>

text \<open>One row of the product, added to \<open>T\<close>.\<close>

definition mul_row :: "limbs \<Rightarrow> limbs \<Rightarrow> nat \<Rightarrow> limbs \<Rightarrow> limbs" where
  "mul_row a b i T = fold (\<lambda>j T. T[i + j := T ! (i + j) + a ! i * b ! j]) [0..<16] T"

definition mul_sums :: "limbs \<Rightarrow> limbs \<Rightarrow> limbs" where
  "mul_sums a b = fold (mul_row a b) [0..<16] (replicate 31 0)"

definition mul_low :: "limbs \<Rightarrow> limbs" where
  "mul_low T = fold (\<lambda>i T. T[i := T ! i + 38 * T ! (i + 16)]) [0..<15] T"

definition M :: "limbs \<Rightarrow> limbs \<Rightarrow> limbs" where
  "M a b = car (car (take 16 (mul_low (mul_sums a b))))"

definition S :: "limbs \<Rightarrow> limbs" where "S a = M a a"

text \<open>The loop of \<open>inv\<close> from \<open>a = 253\<close> down to \<open>0\<close>.\<close>

definition inv_step :: "limbs \<Rightarrow> nat \<Rightarrow> limbs \<Rightarrow> limbs" where
  "inv_step i k c = (let c2 = S c in if k \<noteq> 2 \<and> k \<noteq> 4 then M c2 i else c2)"

definition inv_p :: "limbs \<Rightarrow> limbs" where "inv_p i = fold (inv_step i) (rev [0..<254]) i"

section \<open>Bytes\<close>

definition unpack :: "nat list \<Rightarrow> limbs" where
  "unpack n = map (\<lambda>i. let v = int (n ! (2 * i)) + int (n ! (2 * i + 1)) * 256 in if i = 15 then v mod 32768 else v) [0..<16]"

text \<open>
  The loop that takes off the prime: limbs \<open>1\<close> to \<open>14\<close> with \<open>0xffff\<close>, the last with \<open>0x7fff\<close>, each with the borrow of
  the one below. \<open>(x >> 16) & 1\<close> is \<open>x div 65536 mod 2\<close> and \<open>x & 0xffff\<close> is \<open>x mod 65536\<close>.
\<close>

fun sub_from :: "int \<Rightarrow> limbs \<Rightarrow> limbs" where
  "sub_from b [] = []"
| "sub_from b [x] = [x - 0x7fff - b]"
| "sub_from b (x # y # xs) = (let v = x - 0xffff - b in v mod 65536 # sub_from (v div 65536 mod 2) (y # xs))"

definition sub_p :: "limbs \<Rightarrow> limbs" where
  "sub_p t = (let v = t ! 0 - 0xffed in v mod 65536 # sub_from (v div 65536 mod 2) (tl t))"

definition reduce :: "limbs \<Rightarrow> limbs" where
  "reduce t = (let m = sub_p t; b = m ! 15 div 65536 mod 2 in fst (sel t m (1 - b)))"

definition limb_bytes :: "int \<Rightarrow> nat list" where
  "limb_bytes x = [nat (x mod 256), nat (x div 256)]"

definition pack :: "limbs \<Rightarrow> nat list" where
  "pack n = concat (map limb_bytes (reduce (reduce (car (car (car n))))))"

section \<open>The ladder\<close>

definition key_bit :: "nat list \<Rightarrow> nat \<Rightarrow> int" where
  "key_bit k i = int (k ! (i div 8) div 2 ^ (i mod 8) mod 2)"

definition c121665 :: limbs where "c121665 = gf [0xdb41, 1]"

definition rung :: "limbs \<Rightarrow> int \<Rightarrow> limbs \<times> limbs \<times> limbs \<times> limbs \<Rightarrow> limbs \<times> limbs \<times> limbs \<times> limbs" where
  "rung x r s = (case s of (a, b, c, d) \<Rightarrow>
     let (a, b) = sel a b r; (c, d) = sel c d r;
         e = A a c; a = Z a c; c = A b d; b = Z b d; d = S e; f = S a; a = M c a; c = M b e;
         e = A a c; a = Z a c; b = S a; c = Z d f; a = M c c121665; a = A a d; c = M c a; a = M d f; d = M b x; b = S e;
         (a, b) = sel a b r; (c, d) = sel c d r
     in (a, b, c, d))"

definition ladder :: "nat list \<Rightarrow> nat list \<Rightarrow> nat list" where
  "ladder k u = (let x = unpack u;
     (a, b, c, d) = fold (\<lambda>i. rung x (key_bit k i)) (rev [0..<255]) (gf [1], x, gf [], gf [1])
     in pack (M a (inv_p c)))"

section \<open>The loops keep the value\<close>

lemma val_append: "val (xs @ ys) = val xs + 65536 ^ length xs * val ys"
  by (induction xs) (auto simp: algebra_simps)

lemma val_update: "k < length xs \<Longrightarrow> val (xs[k := xs ! k + x]) = val xs + x * 65536 ^ k"
proof (induction xs arbitrary: k)
  case (Cons y xs)
  then show ?case by (cases k) (auto simp: algebra_simps)
qed simp

lemma carry_val: "carry c xs = (ys, d) \<Longrightarrow> val ys + 65536 ^ length xs * (d - 1) = val xs + (c - 1)"
proof (induction c xs arbitrary: ys d rule: carry.induct)
  case (2 c x xs)
  let ?v = "x + c + 65535"
  obtain zs where z: "carry (?v div 65536) xs = (zs, d)" and ys: "ys = (?v - ?v div 65536 * 65536) # zs"
    using "2.prems" by (auto simp: Let_def split: prod.splits)
  have ih: "val zs + 65536 ^ length xs * (d - 1) = val xs + (?v div 65536 - 1)"
    by (rule "2.IH" [OF refl refl z])
  have "val ys + 65536 ^ length (x # xs) * (d - 1) = ?v - ?v div 65536 * 65536 + 65536 * (val zs + 65536 ^ length xs * (d - 1))"
    unfolding ys by (simp add: algebra_simps)
  also have "\<dots> = val (x # xs) + (c - 1)" unfolding ih by (simp add: algebra_simps)
  finally show ?case .
qed simp

lemma carry_length: "length (fst (carry c xs)) = length xs"
  by (induction c xs rule: carry.induct) (auto simp: Let_def split: prod.splits)

lemma carry_range: "x \<in> set (fst (carry c xs)) \<Longrightarrow> 0 \<le> x \<and> x < 65536"
proof (induction c xs rule: carry.induct)
  case (2 c y ys)
  have m: "v - v div 65536 * 65536 = v mod 65536" for v :: int by (simp add: minus_div_mult_eq_mod)
  from 2 show ?case by (auto simp: Let_def m split: prod.splits)
qed simp

lemma power_256: "(65536 :: int) ^ 16 = 2 * prime_p + 38" by (simp add: prime_p_def)

lemma car_length [simp]: "length (car xs) = length xs"
  using carry_length [of 1 xs] by (auto simp: car_def split: prod.splits)

lemma car_val: 
  assumes "length xs = 16" shows "val (car xs) mod prime_p = val xs mod prime_p"
proof -
  obtain ys d where c: "carry 1 xs = (ys, d)" by (cases "carry 1 xs")
  have l: "length ys = 16" using carry_length [of 1 xs] c assms by simp
  have "val (car xs) = val ys + 38 * (d - 1)"
    using val_update [of 0 ys "38 * (d - 1)"] l by (simp add: car_def c algebra_simps)
  moreover have "(65536 :: int) ^ length xs = 2 * prime_p + 38" by (simp only: assms power_256)
  then have "val ys + (2 * prime_p + 38) * (d - 1) = val xs" using carry_val [OF c] by simp
  ultimately have "val (car xs) = val xs + prime_p * (2 * (1 - d))" by (simp add: algebra_simps)
  then show ?thesis by simp
qed

section \<open>A product is a product modulo the prime\<close>

lemma mul_row_length [simp]: "length (mul_row a b i T) = length T"
proof -
  have "length (fold (\<lambda>j T. T[i + j := T ! (i + j) + a ! i * b ! j]) js T) = length T" for js
    by (induction js arbitrary: T) auto
  then show ?thesis by (simp add: mul_row_def)
qed

lemma val_nth: "val xs = (\<Sum>i < length xs. xs ! i * 65536 ^ i)"
proof (induction xs)
  case (Cons x xs)
  then show ?case by (simp only: val.simps list.size sum.lessThan_Suc_shift add_Suc_right add_0_right)
      (simp add: sum_distrib_left algebra_simps)
qed simp

lemma mul_row_val:
  assumes "i < 16" "length T = 31" "length b = 16"
  shows "val (mul_row a b i T) = val T + a ! i * 65536 ^ i * val b"
proof -
  have "val (fold (\<lambda>j T. T[i + j := T ! (i + j) + a ! i * b ! j]) [0..<n] T) = val T + (\<Sum>j < n. a ! i * b ! j * 65536 ^ (i + j)) \<and>
      length (fold (\<lambda>j T. T[i + j := T ! (i + j) + a ! i * b ! j]) [0..<n] T) = 31" if "n \<le> 16" for n
    using that by (induction n) (use assms in \<open>auto simp: val_update\<close>)
  from this [of 16] show ?thesis
    unfolding mul_row_def val_nth [of b] assms(3) by (simp add: sum_distrib_left power_add mult.assoc mult.left_commute)
qed

lemma mul_sums_val:
  assumes "length a = 16" "length b = 16"
  shows "val (mul_sums a b) = val a * val b" and "length (mul_sums a b) = 31"
proof -
  have z: "val (replicate n 0) = 0" for n by (induction n) auto
  have "val (fold (mul_row a b) [0..<n] (replicate 31 0)) = (\<Sum>i < n. a ! i * 65536 ^ i) * val b \<and>
      length (fold (mul_row a b) [0..<n] (replicate 31 0)) = 31" if "n \<le> 16" for n
    using that by (induction n) (simp_all add: z mul_row_val assms algebra_simps)
  from this [of 16] show "val (mul_sums a b) = val a * val b" "length (mul_sums a b) = 31"
    unfolding mul_sums_def val_nth [of a] assms(1) by simp_all
qed

lemma mul_low_nth:
  assumes "length T = 31" "n \<le> 15"
  shows "fold (\<lambda>i T. T[i := T ! i + 38 * T ! (i + 16)]) [0..<n] T = map (\<lambda>i. if i < n then T ! i + 38 * T ! (i + 16) else T ! i) [0..<31]"
  using assms(2)
proof (induction n)
  case 0
  show ?case using assms(1) map_nth [of T] by simp
next
  case (Suc n)
  then show ?case by (auto intro!: nth_equalityI simp: nth_list_update less_Suc_eq)
qed

lemma mul_low_val:
  assumes "length T = 31"
  shows "val (take 16 (mul_low T)) mod prime_p = val T mod prime_p"
proof -
  have l: "length (mul_low T) = 31" by (simp add: mul_low_def mul_low_nth [OF assms])
  have n: "mul_low T ! i = (if i < 15 then T ! i + 38 * T ! (i + 16) else T ! i)" if "i < 31" for i
    using that by (simp add: mul_low_def mul_low_nth [OF assms])
  have hi: "val (drop 16 T) = (\<Sum>i < 15. T ! (i + 16) * 65536 ^ i)"
    by (simp add: val_nth assms add.commute [of 16])
  have "val (take 16 (mul_low T)) = (\<Sum>i < 16. mul_low T ! i * 65536 ^ i)" by (simp add: val_nth l)
  also have "\<dots> = (\<Sum>i < 16. T ! i * 65536 ^ i) + 38 * (\<Sum>i < 15. T ! (i + 16) * 65536 ^ i)"
  proof -
    have "(\<Sum>i < Suc 15. mul_low T ! i * 65536 ^ i) = (\<Sum>i < 15. T ! i * 65536 ^ i + 38 * (T ! (i + 16) * 65536 ^ i)) + T ! 15 * 65536 ^ 15"
      by (simp only: sum.lessThan_Suc) (auto intro!: sum.cong simp: n algebra_simps)
    also have "\<dots> = (\<Sum>i < Suc 15. T ! i * 65536 ^ i) + 38 * (\<Sum>i < 15. T ! (i + 16) * 65536 ^ i)"
      by (simp only: sum.lessThan_Suc [of _ 15] sum.distrib sum_distrib_left)
    finally show ?thesis by simp
  qed
  also have "\<dots> = val (take 16 T) + 38 * val (drop 16 T)" unfolding hi by (simp add: val_nth assms)
  finally have v: "val (take 16 (mul_low T)) = val (take 16 T) + 38 * val (drop 16 T)" .
  have "val T = val (take 16 T) + 65536 ^ 16 * val (drop 16 T)"
    using val_append [of "take 16 T" "drop 16 T"] assms by simp
  also have "\<dots> = val (take 16 (mul_low T)) + prime_p * (2 * val (drop 16 T))" unfolding v power_256 by (simp add: algebra_simps)
  finally show ?thesis by simp
qed

lemma mul_low_length [simp]: "length T = 31 \<Longrightarrow> length (mul_low T) = 31"
  by (simp add: mul_low_def mul_low_nth)

lemma M_val:
  assumes "length a = 16" "length b = 16"
  shows "val (M a b) mod prime_p = val a * val b mod prime_p" and "length (M a b) = 16"
  using assms by (simp_all add: M_def car_val mul_low_val mul_sums_val)

section \<open>Swaps and inverses\<close>

lemma sel_limb_simps [simp]: "sel_limb 1 p q = (q, p)" "sel_limb 0 p q = (p, q)"
proof -
  have "p XOR (p XOR q) = q" "q XOR (p XOR q) = p"
    by (metis xor.assoc xor_self_eq xor.left_neutral) (metis xor.assoc xor.commute xor_self_eq xor.left_neutral)
  then show "sel_limb 1 p q = (q, p)" "sel_limb 0 p q = (p, q)" by (simp_all add: sel_limb_def)
qed

lemma sel_simps [simp]:
  assumes "length p = length q" shows "sel p q 1 = (q, p)" "sel p q 0 = (p, q)"
proof -
  have "map snd (zip p q) = q" "map fst (zip p q) = p" using assms by simp_all
  then show "sel p q 1 = (q, p)" "sel p q 0 = (p, q)" by (simp_all add: sel_def split_def)
qed

lemma inv_p_val:
  assumes "length i = 16"
  shows "val (inv_p i) mod prime_p = val i ^ nat (prime_p - 2) mod prime_p"
proof -
  define step where "step = (\<lambda>(k :: nat) e. if k \<noteq> 2 \<and> k \<noteq> 4 then 2 * e + 1 else 2 * e :: nat)"
  have "val (fold (inv_step i) ks c) mod prime_p = val i ^ fold step ks e mod prime_p"
    if "length c = 16" "val c mod prime_p = val i ^ e mod prime_p" for ks :: "nat list" and c e
    using that
  proof (induction ks arbitrary: c e)
    case (Cons k ks)
    have s: "length (S c) = 16" "val (S c) mod prime_p = val i ^ (2 * e) mod prime_p"
      using Cons.prems M_val [of c c]
      by (simp_all add: S_def) (metis mod_mult_eq mult_2 power_add)
    have m: "length (M (S c) i) = 16" "val (M (S c) i) mod prime_p = val i ^ (2 * e + 1) mod prime_p"
      using s M_val [of "S c" i] assms by simp_all (metis mod_mult_left_eq mult.commute)
    have "length (inv_step i k c) = 16 \<and> val (inv_step i k c) mod prime_p = val i ^ step k e mod prime_p"
      using s m by (auto simp: inv_step_def step_def Let_def)
    then show ?case using Cons.IH [of "inv_step i k c" "step k e"] by simp
  qed simp
  from this [of i 1 "rev [0..<254]"] have "val (inv_p i) mod prime_p = val i ^ fold step (rev [0..<254]) 1 mod prime_p"
    using assms by (simp add: inv_p_def)
  moreover have "fold step (rev [0..<254]) 1 = nat (prime_p - 2)"
    unfolding step_def prime_p_def by code_simp
  ultimately show ?thesis by simp
qed

section \<open>Sizes\<close>

text \<open>\<open>tidy\<close> is what a product leaves, \<open>small\<close> what a product may be given.\<close>

definition tidy :: "limbs \<Rightarrow> bool" where
  "tidy xs \<longleftrightarrow> length xs = 16 \<and> - 38 \<le> hd xs \<and> hd xs \<le> 65573 \<and> (\<forall>x \<in> set (tl xs). 0 \<le> x \<and> x < 65536)"

definition small :: "limbs \<Rightarrow> bool" where
  "small xs \<longleftrightarrow> length xs = 16 \<and> (\<forall>x \<in> set xs. \<bar>x\<bar> \<le> 2 ^ 18)"

definition exact :: "limbs \<Rightarrow> bool" where "exact xs \<longleftrightarrow> (\<forall>x \<in> set xs. \<bar>x\<bar> < 2 ^ 53)"

lemma tidy_range: "tidy xs \<Longrightarrow> x \<in> set xs \<Longrightarrow> - 38 \<le> x \<and> x \<le> 65573"
  by (cases xs) (auto simp: tidy_def)

lemma tidy_small: "tidy xs \<Longrightarrow> small xs"
proof -
  assume t: "tidy xs"
  have "\<bar>x\<bar> \<le> 2 ^ 18" if "x \<in> set xs" for x using tidy_range [OF t that] by (simp add: abs_le_iff)
  then show "small xs" using t by (simp add: small_def tidy_def)
qed

lemma A_small: "tidy a \<Longrightarrow> tidy b \<Longrightarrow> small (A a b)" and Z_small: "tidy a \<Longrightarrow> tidy b \<Longrightarrow> small (Z a b)"
proof -
  assume t: "tidy a" "tidy b"
  have "\<bar>x + y\<bar> \<le> 2 ^ 18 \<and> \<bar>x - y\<bar> \<le> 2 ^ 18" if "(x, y) \<in> set (zip a b)" for x y
    using tidy_range [OF t(1) set_zip_leftD [OF that]] tidy_range [OF t(2) set_zip_rightD [OF that]] by (simp add: abs_le_iff)
  then show "small (A a b)" "small (Z a b)" using t by (auto simp: small_def A_def Z_def tidy_def)
qed

text \<open>The carry, less one.\<close>

lemma carry_step: "(x + c + 65535) div 65536 = (x + (c - 1)) div 65536 + (1 :: int)"
proof -
  have "x + c + 65535 = (x + (c - 1)) + 1 * 65536" by simp
  then show ?thesis by (simp only: div_mult_self1)
qed

lemma carry_bound:
  "\<forall>x \<in> set xs. \<bar>x\<bar> \<le> B \<Longrightarrow> \<bar>c - 1\<bar> \<le> E \<Longrightarrow> B + E \<le> 65536 * E \<Longrightarrow> \<bar>snd (carry c xs) - 1\<bar> \<le> E"
proof (induction c xs rule: carry.induct)
  case (2 c x xs)
  have "\<bar>(x + (c - 1)) div 65536\<bar> \<le> E" using "2.prems" by auto
  then have "\<bar>(x + c + 65535) div 65536 - 1\<bar> \<le> E" unfolding carry_step by simp
  with 2 show ?case by (simp add: Let_def split_def)
qed simp

lemma carry_tidy_bound:
  "\<forall>x \<in> set xs. 0 \<le> x \<and> x < 65536 \<Longrightarrow> \<bar>c - 1\<bar> \<le> 1 \<Longrightarrow> \<bar>snd (carry c xs) - 1\<bar> \<le> 1"
proof (induction c xs rule: carry.induct)
  case (2 c x xs)
  have "\<bar>(x + (c - 1)) div 65536\<bar> \<le> 1" using "2.prems" by auto
  then have "\<bar>(x + c + 65535) div 65536 - 1\<bar> \<le> 1" unfolding carry_step by simp
  with 2 show ?case by (simp add: Let_def split_def)
qed simp

lemma car_shape:
  assumes "length xs = 16"
  obtains y ys where "fst (carry 1 xs) = y # ys" "car xs = (y + 38 * (snd (carry 1 xs) - 1)) # ys"
    "0 \<le> y" "y < 65536" "\<forall>x \<in> set ys. 0 \<le> x \<and> x < 65536" "length ys = 15"
proof -
  obtain y ys where c: "fst (carry 1 xs) = y # ys" using carry_length [of 1 xs] assms by (cases "fst (carry 1 xs)") auto
  have "car xs = (y + 38 * (snd (carry 1 xs) - 1)) # ys" using c by (simp add: car_def split_def)
  moreover have "length ys = 15" using carry_length [of 1 xs] c assms by simp
  moreover have "\<forall>x \<in> set (y # ys). 0 \<le> x \<and> x < 65536" using carry_range [of _ 1 xs] unfolding c by blast
  ultimately show ?thesis using c by (intro that [of y ys]) auto
qed

lemma car_once:
  assumes "length xs = 16" "\<forall>x \<in> set xs. \<bar>x\<bar> \<le> 2 ^ 46"
  shows "\<bar>hd (car xs)\<bar> \<le> 2 ^ 37" "\<forall>x \<in> set (tl (car xs)). 0 \<le> x \<and> x < 65536"
proof -
  obtain y ys where s: "car xs = (y + 38 * (snd (carry 1 xs) - 1)) # ys" "0 \<le> y" "y < 65536"
    "\<forall>x \<in> set ys. 0 \<le> x \<and> x < 65536" by (rule car_shape [OF assms(1)])
  have "\<bar>snd (carry 1 xs) - 1\<bar> \<le> 2 ^ 31" by (rule carry_bound [OF assms(2)]) simp_all
  with s show "\<bar>hd (car xs)\<bar> \<le> 2 ^ 37" "\<forall>x \<in> set (tl (car xs)). 0 \<le> x \<and> x < 65536" by auto
qed

lemma car_twice:
  assumes l: "length xs = 16" and h: "\<bar>hd xs\<bar> \<le> 2 ^ 37" and t: "\<forall>x \<in> set (tl xs). 0 \<le> x \<and> x < 65536"
  shows "tidy (car xs)"
proof -
  obtain x0 x1 x2 r where xs: "xs = x0 # x1 # x2 # r" using l by (auto simp: numeral_eq_Suc length_Suc_conv)
  obtain y ys where s: "car xs = (y + 38 * (snd (carry 1 xs) - 1)) # ys" "0 \<le> y" "y < 65536"
    "\<forall>x \<in> set ys. 0 \<le> x \<and> x < 65536" "length ys = 15" by (rule car_shape [OF l])
  define e1 where "e1 = x0 div 65536"
  define e2 where "e2 = (x1 + e1) div 65536"
  define e3 where "e3 = (x2 + e2) div 65536"
  have b: "\<bar>e1\<bar> \<le> 2 ^ 21" using h by (auto simp: xs e1_def)
  have x: "0 \<le> x1" "x1 < 65536" "0 \<le> x2" "x2 < 65536" using t by (auto simp: xs)
  have "\<bar>e2\<bar> \<le> 33" using b x by (auto simp: e2_def)
  then have e3: "\<bar>e3\<bar> \<le> 1" using x by (auto simp: e3_def)
  have "snd (carry 1 xs) = snd (carry (e3 + 1) r)"
    unfolding xs e3_def e2_def e1_def carry.simps Let_def split_def carry_step by simp
  moreover have "\<bar>snd (carry (e3 + 1) r) - 1\<bar> \<le> 1" by (rule carry_tidy_bound) (use t e3 in \<open>auto simp: xs\<close>)
  ultimately show ?thesis using s by (auto simp: tidy_def)
qed

lemma nth_bound: "\<forall>x \<in> set xs. P x \<Longrightarrow> i < length xs \<Longrightarrow> P (xs ! i)" by simp

lemma mul_row_nth:
  assumes "i < 16" "length T = 31" "k < 31"
  shows "mul_row a b i T ! k = T ! k + (if i \<le> k \<and> k < i + 16 then a ! i * b ! (k - i) else 0)"
proof -
  have "fold (\<lambda>j T. T[i + j := T ! (i + j) + a ! i * b ! j]) [0..<n] T ! k =
      T ! k + (if i \<le> k \<and> k < i + n then a ! i * b ! (k - i) else 0) \<and>
      length (fold (\<lambda>j T. T[i + j := T ! (i + j) + a ! i * b ! j]) [0..<n] T) = 31" if "n \<le> 16" for n
    using that by (induction n) (use assms in \<open>auto simp: nth_list_update less_Suc_eq\<close>)
  then show ?thesis by (simp add: mul_row_def)
qed

lemma mul_rows_bound:
  assumes "small a" "small b" "n \<le> 16"
  shows "length (fold (mul_row a b) [0..<n] (replicate 31 0)) = 31"
    and "\<forall>x \<in> set (fold (mul_row a b) [0..<n] (replicate 31 0)). \<bar>x\<bar> \<le> int n * 2 ^ 36"
proof -
  have ab: "\<bar>a ! i * b ! j\<bar> \<le> 2 ^ 36" if "i < 16" "j < 16" for i j
  proof -
    have "\<bar>a ! i\<bar> \<le> 2 ^ 18" "\<bar>b ! j\<bar> \<le> 2 ^ 18" using assms(1,2) that by (simp_all add: small_def)
    then have "\<bar>a ! i\<bar> * \<bar>b ! j\<bar> \<le> 2 ^ 18 * 2 ^ 18" by (intro mult_mono) auto
    then show ?thesis by (simp add: abs_mult)
  qed
  have "length (fold (mul_row a b) [0..<n] (replicate 31 0)) = 31 \<and>
      (\<forall>k < 31. \<bar>fold (mul_row a b) [0..<n] (replicate 31 0) ! k\<bar> \<le> int n * 2 ^ 36)"
    using assms(3)
  proof (induction n)
    case (Suc n)
    let ?T = "fold (mul_row a b) [0..<n] (replicate 31 0)"
    have T: "length ?T = 31" "\<And>k. k < 31 \<Longrightarrow> \<bar>?T ! k\<bar> \<le> int n * 2 ^ 36" using Suc by auto
    have "\<bar>mul_row a b n ?T ! k\<bar> \<le> int (Suc n) * 2 ^ 36" if "k < 31" for k
    proof (cases "n \<le> k \<and> k < n + 16")
      case True
      then have "\<bar>a ! n * b ! (k - n)\<bar> \<le> 2 ^ 36" using ab [of n "k - n"] Suc.prems by linarith
      then show ?thesis using True T(2) [OF that] Suc.prems by (simp add: mul_row_nth [OF _ T(1) that] abs_le_iff algebra_simps)
    next
      case False
      then have "mul_row a b n ?T ! k = ?T ! k" using Suc.prems by (auto simp: mul_row_nth [OF _ T(1) that])
      then show ?thesis using T(2) [OF that] by simp
    qed
    then show ?case using T(1) by simp
  qed simp
  then show "length (fold (mul_row a b) [0..<n] (replicate 31 0)) = 31"
    "\<forall>x \<in> set (fold (mul_row a b) [0..<n] (replicate 31 0)). \<bar>x\<bar> \<le> int n * 2 ^ 36"
    by (auto simp: in_set_conv_nth)
qed

lemma mul_low_bound:
  assumes "small a" "small b"
  shows "\<forall>x \<in> set (mul_low (mul_sums a b)). \<bar>x\<bar> \<le> 2 ^ 46"
proof
  fix x assume "x \<in> set (mul_low (mul_sums a b))"
  have T: "length (mul_sums a b) = 31" "\<forall>x \<in> set (mul_sums a b). \<bar>x\<bar> \<le> 2 ^ 40"
    using mul_rows_bound [OF assms, of 16] by (simp_all add: mul_sums_def)
  then have b: "\<bar>mul_sums a b ! i\<bar> \<le> 2 ^ 40" if "i < 31" for i using that by simp
  from \<open>x \<in> _\<close> obtain k where "k < 31" "x = mul_low (mul_sums a b) ! k" using T(1) by (auto simp: in_set_conv_nth)
  then have x: "x = (if k < 15 then mul_sums a b ! k + 38 * mul_sums a b ! (k + 16) else mul_sums a b ! k)" "k < 31"
    by (simp_all add: mul_low_def mul_low_nth [OF T(1)])
  then show "\<bar>x\<bar> \<le> 2 ^ 46" using b [of k] b [of "k + 16"] by (auto split: if_splits)
qed

lemma M_tidy: "small a \<Longrightarrow> small b \<Longrightarrow> tidy (M a b)"
proof -
  assume s: "small a" "small b"
  let ?x = "take 16 (mul_low (mul_sums a b))"
  have l: "length ?x = 16" using mul_rows_bound(1) [OF s, of 16] by (simp add: mul_sums_def)
  have b: "\<forall>x \<in> set ?x. \<bar>x\<bar> \<le> 2 ^ 46" using mul_low_bound [OF s] by (auto dest: in_set_takeD)
  show ?thesis unfolding M_def by (rule car_twice) (use l car_once [OF l b] in simp_all)
qed

text \<open>
  C12: the limb product refines the product modulo the prime, and the doubles are exact: for limbs up to \<open>2^18\<close> every
  partial sum stays below \<open>2^53\<close>, the result stands for the product modulo \<open>2^255 - 19\<close>, and its limbs are again of the
  size a product leaves.
\<close>
theorem product_refines:
  assumes "small a" and "small b"
  shows "val (M a b) mod prime_p = val a * val b mod prime_p \<and> tidy (M a b) \<and>
    (\<forall>n \<le> 16. exact (fold (mul_row a b) [0..<n] (replicate 31 0))) \<and> exact (mul_low (mul_sums a b))"
proof (intro conjI allI impI)
  show "val (M a b) mod prime_p = val a * val b mod prime_p" using M_val assms by (simp add: small_def)
  show "tidy (M a b)" by (rule M_tidy [OF assms])
  show "exact (fold (mul_row a b) [0..<n] (replicate 31 0))" if "n \<le> 16" for n
    using mul_rows_bound(2) [OF assms that] that by (fastforce simp: exact_def)
  show "exact (mul_low (mul_sums a b))" using mul_low_bound [OF assms] by (fastforce simp: exact_def)
qed

lemma product_refines_witness:
  "val (M (gf [- 3, 65535]) (gf [5])) mod prime_p = (- 3 + 65536 * 65535) * 5 mod prime_p \<and> tidy (M (gf [- 3, 65535]) (gf [5]))"
  using product_refines [of "gf [- 3, 65535]" "gf [5]"] by (simp add: small_def gf_def numeral_eq_Suc)

end
