(* ===== verification/Poker_Bytes.thy ===== *)
theory Poker_Bytes
  imports Poker_Field
begin

text \<open>
  What \<open>ladder\<close> and \<open>pack\<close> of \<open>mpoker.js\<close> do with limbs: every product in the ladder gets small limbs, so all its
  doubles are exact, and \<open>pack\<close> writes the one representative of a number modulo \<open>2^255 - 19\<close>.
\<close>

section \<open>The ladder works on small limbs\<close>

lemma tidy_gf: "tidy (gf [])" "tidy (gf [1])" by (simp_all add: tidy_def gf_def)

lemma small_c121665: "small c121665" by (simp add: small_def c121665_def gf_def numeral_eq_Suc)

lemma S_tidy: "small a \<Longrightarrow> tidy (S a)" unfolding S_def by (rule M_tidy)

definition tidy4 :: "limbs \<times> limbs \<times> limbs \<times> limbs \<Rightarrow> bool" where
  "tidy4 s \<longleftrightarrow> (case s of (a, b, c, d) \<Rightarrow> tidy a \<and> tidy b \<and> tidy c \<and> tidy d)"

lemma sel_tidy:
  assumes "tidy a" "tidy b" "r = 0 \<or> r = 1"
  obtains a' b' where "sel a b r = (a', b')" "tidy a'" "tidy b'"
  using assms by (auto simp: tidy_def intro: that)

lemma rung_tidy:
  assumes "tidy4 s" "tidy x" "r = 0 \<or> r = 1" shows "tidy4 (rung x r s)"
proof -
  obtain a b c d where s: "s = (a, b, c, d)" "tidy a" "tidy b" "tidy c" "tidy d"
    using assms(1) by (cases s) (auto simp: tidy4_def)
  obtain a1 b1 where ab: "sel a b r = (a1, b1)" "tidy a1" "tidy b1" by (rule sel_tidy [OF s(2,3) assms(3)])
  obtain c1 d1 where cd: "sel c d r = (c1, d1)" "tidy c1" "tidy d1" by (rule sel_tidy [OF s(4,5) assms(3)])
  note t = ab(2,3) cd(2,3)
  let ?e = "A a1 c1"
  let ?a = "Z a1 c1"
  let ?c = "A b1 d1"
  let ?b = "Z b1 d1"
  let ?d2 = "S ?e"
  let ?f = "S ?a"
  let ?a2 = "M ?c ?a"
  let ?c2 = "M ?b ?e"
  have 1: "tidy ?d2" "tidy ?f" "tidy ?a2" "tidy ?c2" by (intro S_tidy M_tidy A_small Z_small t)+
  let ?e3 = "A ?a2 ?c2"
  let ?a3 = "Z ?a2 ?c2"
  let ?b3 = "S ?a3"
  let ?c3 = "Z ?d2 ?f"
  let ?a4 = "M ?c3 c121665"
  let ?a5 = "A ?a4 ?d2"
  have 2: "tidy ?b3" "tidy ?a4" by (intro S_tidy M_tidy A_small Z_small 1 small_c121665)+
  have 3: "tidy (M ?c3 ?a5)" "tidy (M ?d2 ?f)" "tidy (M ?b3 x)" "tidy (S ?e3)"
    by (intro S_tidy M_tidy A_small Z_small tidy_small 1 2 assms(2))+
  obtain a' b' where ab': "sel (M ?d2 ?f) (S ?e3) r = (a', b')" "tidy a'" "tidy b'" by (rule sel_tidy [OF 3(2,4) assms(3)])
  obtain c' d' where cd': "sel (M ?c3 ?a5) (M ?b3 x) r = (c', d')" "tidy c'" "tidy d'" by (rule sel_tidy [OF 3(1,3) assms(3)])
  have "rung x r s = (a', b', c', d')" by (simp add: rung_def s(1) ab(1) cd(1) ab'(1) cd'(1) Let_def)
  then show ?thesis using ab' cd' by (simp add: tidy4_def)
qed

lemma key_bit_01: "key_bit k i = 0 \<or> key_bit k i = 1"
proof -
  have "k ! (i div 8) div 2 ^ (i mod 8) mod 2 < 2" by simp
  then show ?thesis unfolding key_bit_def by linarith
qed

lemma unpack_tidy:
  assumes "length n = 32" "\<forall>x \<in> set n. x < 256" shows "tidy (unpack n)"
proof -
  have b: "0 \<le> int (n ! (2 * i)) + int (n ! (2 * i + 1)) * 256 \<and> int (n ! (2 * i)) + int (n ! (2 * i + 1)) * 256 < 65536" if "i < 16" for i
  proof -
    have "n ! (2 * i) < 256" "n ! (2 * i + 1) < 256" using assms that by simp_all
    then show ?thesis by simp
  qed
  define f where "f = (\<lambda>i. let v = int (n ! (2 * i)) + int (n ! (2 * i + 1)) * 256 in if i = 15 then v mod 32768 else v)"
  have u: "unpack n = map f [0..<16]" by (simp add: unpack_def f_def)
  have m: "0 \<le> v mod 32768 \<and> v mod 32768 < 65536" for v :: int
    using pos_mod_bound [of 32768 v] pos_mod_sign [of 32768 v] by linarith
  have s: "0 \<le> x \<and> x < 65536" if x: "x \<in> set (unpack n)" for x
  proof -
    obtain i where "i < 16" "x = f i" using x by (auto simp: u)
    then show ?thesis using b [of i] m by (simp add: f_def Let_def)
  qed
  have "length (unpack n) = 16" by (simp add: unpack_def)
  moreover from this obtain y ys where "unpack n = y # ys" by (cases "unpack n") auto
  ultimately show ?thesis using s by (fastforce simp: tidy_def)
qed

text \<open>The four numbers of the ladder after any number of steps.\<close>

definition ladder_state :: "nat list \<Rightarrow> nat list \<Rightarrow> nat list \<Rightarrow> limbs \<times> limbs \<times> limbs \<times> limbs" where
  "ladder_state k u bits = fold (\<lambda>i. rung (unpack u) (key_bit k i)) bits (gf [1], unpack u, gf [], gf [1])"

lemma rungs_tidy:
  assumes "tidy x" shows "tidy4 s \<Longrightarrow> tidy4 (fold (\<lambda>i. rung x (key_bit k i)) bits s)"
proof (induction bits arbitrary: s)
  case (Cons i bits)
  then show ?case using rung_tidy [OF Cons.prems assms key_bit_01] by simp
qed simp

lemma ladder_tidy:
  assumes "length u = 32" "\<forall>x \<in> set u. x < 256"
  shows "tidy4 (ladder_state k u bits)"
  unfolding ladder_state_def
  by (rule rungs_tidy [OF unpack_tidy [OF assms]]) (simp add: tidy4_def tidy_gf unpack_tidy [OF assms])

section \<open>\<open>pack\<close> writes the number modulo the prime\<close>

definition word16 :: "limbs \<Rightarrow> bool" where
  "word16 xs \<longleftrightarrow> length xs = 16 \<and> (\<forall>x \<in> set xs. 0 \<le> x \<and> x < 65536)"

lemma val_range: "\<forall>x \<in> set xs. 0 \<le> x \<and> x < 65536 \<Longrightarrow> 0 \<le> val xs \<and> val xs < 65536 ^ length xs"
proof (induction xs)
  case (Cons x xs)
  then have "0 \<le> x" "x \<le> 65535" "0 \<le> val xs" "val xs \<le> 65536 ^ length xs - 1" by auto
  moreover from this have "65536 * val xs \<le> 65536 * (65536 ^ length xs - 1)" by simp
  ultimately show ?case by (simp add: algebra_simps)
qed simp

lemma carry_words:
  assumes "length xs = 16" "carry 1 xs = (ys, d)"
  shows "val ys + (2 * prime_p + 38) * (d - 1) = val xs"
proof -
  have "(65536 :: int) ^ length xs = 2 * prime_p + 38" by (simp only: assms(1) power_256)
  then show ?thesis using carry_val [OF assms(2)] by simp
qed

lemma too_much: "(2 * p + 38) * 2 \<le> q \<Longrightarrow> w + q = x \<Longrightarrow> 0 \<le> w \<Longrightarrow> x \<le> 2 * p + 75 \<Longrightarrow> 100 < (p :: int) \<Longrightarrow> False"
  by presburger

lemma too_little: "q \<le> (2 * p + 38) * - 2 \<Longrightarrow> w + q = x \<Longrightarrow> w < 2 * p + 38 \<Longrightarrow> - 38 \<le> x \<Longrightarrow> 100 < (p :: int) \<Longrightarrow> False"
  by presburger

lemma car_third:
  assumes t: "tidy xs" shows "word16 (car xs)"
proof -
  have l: "length xs = 16" using t by (simp add: tidy_def)
  obtain y ys where s: "fst (carry 1 xs) = y # ys" "car xs = (y + 38 * (snd (carry 1 xs) - 1)) # ys" "0 \<le> y" "y < 65536"
    "\<forall>x \<in> set ys. 0 \<le> x \<and> x < 65536" "length ys = 15" by (rule car_shape [OF l])
  let ?d = "snd (carry 1 xs)"
  define q where "q = (2 * prime_p + 38) * (?d - 1)"
  have v: "y + 65536 * val ys + q = val xs"
    using carry_words [OF l, of "y # ys" ?d] s(1) unfolding q_def by (metis prod.collapse val.simps(2))
  obtain x0 rest where xs: "xs = x0 # rest" using l by (cases xs) auto
  have r: "0 \<le> val rest \<and> val rest < 65536 ^ 15"
    using val_range [of rest] t l by (auto simp: tidy_def xs)
  have ry: "0 \<le> val ys \<and> val ys < 65536 ^ 15" using val_range [OF s(5)] s(6) by simp
  have p: "65536 * (65536 :: int) ^ 15 = 2 * prime_p + 38" using power_256 by simp
  have "- 38 \<le> x0" "x0 \<le> 65573" using t by (auto simp: tidy_def xs)
  then have b: "- 38 \<le> val xs" "val xs \<le> 2 * prime_p + 38 + 37" using r p by (auto simp: xs)
  have w: "0 \<le> y + 65536 * val ys" "y + 65536 * val ys < 2 * prime_p + 38" using ry p s(3,4) by linarith+
  have pp: "100 < prime_p" by (simp add: prime_p_def)
  consider "?d = 1" | "?d - 1 \<ge> 1" | "?d - 1 \<le> - 1" by linarith
  then have "0 \<le> y + 38 * (?d - 1) \<and> y + 38 * (?d - 1) < 65536"
  proof cases
    case 1
    then show ?thesis using s(3,4) by simp
  next
    case 2
    have "?d - 1 = 1"
    proof (rule ccontr)
      assume "?d - 1 \<noteq> 1"
      then have "(2 * prime_p + 38) * 2 \<le> q" unfolding q_def using 2 pp by (intro mult_left_mono) auto
      then show False using too_much [of prime_p q "y + 65536 * val ys" "val xs"] v w b pp by simp
    qed
    then have "y + 65536 * val ys \<le> 37" using v b by (simp add: q_def)
    then have "y \<le> 37" using ry by linarith
    then show ?thesis using \<open>?d - 1 = 1\<close> s(3) by simp
  next
    case 3
    have "?d - 1 = - 1"
    proof (rule ccontr)
      assume "?d - 1 \<noteq> - 1"
      then have "q \<le> (2 * prime_p + 38) * - 2" unfolding q_def using 3 pp by (intro mult_left_mono) auto
      then show False using too_little [of q prime_p "y + 65536 * val ys" "val xs"] v w b pp by simp
    qed
    then have "2 * prime_p \<le> y + 65536 * val ys" using v b by (simp add: q_def)
    then have "65536 * 65536 ^ 15 - 38 \<le> y + 65536 * val ys" using p by linarith
    moreover have "val ys \<le> 65536 ^ 15 - 1" using ry by linarith
    ultimately have "65498 \<le> y" by linarith
    then show ?thesis using \<open>?d - 1 = - 1\<close> s(4) by simp
  qed
  then show ?thesis unfolding s(2) using s(5,6) by (auto simp: word16_def)
qed

text \<open>The subtraction: the limbs of the difference, with the borrow in the last one.\<close>

lemma sub_from_val:
  "xs \<noteq> [] \<Longrightarrow> \<forall>x \<in> set xs. 0 \<le> x \<and> x < 65536 \<Longrightarrow> b = 0 \<or> b = 1 \<Longrightarrow>
     val (sub_from b xs) = val xs - val (replicate (length xs - 1) 0xffff @ [0x7fff]) - b \<and>
     length (sub_from b xs) = length xs \<and> (\<forall>x \<in> set (butlast (sub_from b xs)). 0 \<le> x \<and> x < 65536) \<and>
     - 65536 \<le> last (sub_from b xs) \<and> last (sub_from b xs) < 65536"
proof (induction b xs rule: sub_from.induct)
  case (3 b x y xs)
  let ?v = "x - 0xffff - b"
  have v: "- 65536 \<le> ?v" "?v \<le> 0" using "3.prems" by auto
  then have "?v div 65536 = 0 \<or> ?v div 65536 = - 1" by auto
  then have c: "?v div 65536 mod 2 = - (?v div 65536)" "?v div 65536 mod 2 = 0 \<or> ?v div 65536 mod 2 = 1" by auto
  have m: "?v mod 65536 = ?v - 65536 * (?v div 65536)" by (simp add: minus_mult_div_eq_mod)
  from "3.IH" [OF refl _ _ c(2)] "3.prems"
  have ih: "val (sub_from (?v div 65536 mod 2) (y # xs)) = val (y # xs) - val (replicate (length xs) 0xffff @ [0x7fff]) + ?v div 65536"
    "length (sub_from (?v div 65536 mod 2) (y # xs)) = length (y # xs)"
    "\<forall>x \<in> set (butlast (sub_from (?v div 65536 mod 2) (y # xs))). 0 \<le> x \<and> x < 65536"
    "- 65536 \<le> last (sub_from (?v div 65536 mod 2) (y # xs))" "last (sub_from (?v div 65536 mod 2) (y # xs)) < 65536"
    by (simp_all add: c(1))
  define w where "w = sub_from (?v div 65536 mod 2) (y # xs)"
  define k where "k = ?v mod 65536"
  have k: "0 \<le> k" "k < 65536" by (simp_all add: k_def)
  note ih = ih [folded w_def]
  have ne: "w \<noteq> []" using ih(2) by auto
  have e: "sub_from b (x # y # xs) = k # w" unfolding w_def k_def by (simp only: sub_from.simps Let_def)
  have "val (k # w) = k + 65536 * val w" by simp
  also have "\<dots> = ?v + 65536 * (val (y # xs) - val (replicate (length xs) 0xffff @ [0x7fff]))"
    unfolding ih(1) k_def m by (simp add: algebra_simps)
  also have "\<dots> = val (x # y # xs) - val (replicate (length (x # y # xs) - 1) 0xffff @ [0x7fff]) - b"
    by (simp add: algebra_simps)
  finally show ?case unfolding e using ih(2-5) ne k by simp
qed auto

lemma val_replicate: "val (replicate n 0xffff) = 65536 ^ n - 1"
  by (induction n) auto

lemma prime_limbs: "val (0xffed # replicate 14 0xffff @ [0x7fff]) = prime_p"
  by (simp add: val_append val_replicate prime_p_def)

lemma sub_p_val:
  assumes "word16 t"
  shows "val (sub_p t) = val t - prime_p" "length (sub_p t) = 16"
    "\<forall>x \<in> set (butlast (sub_p t)). 0 \<le> x \<and> x < 65536" "- 65536 \<le> sub_p t ! 15" "sub_p t ! 15 < 65536"
proof -
  obtain x xs where t: "t = x # xs" "length xs = 15" using assms by (cases t) (auto simp: word16_def)
  have x: "0 \<le> x" "x < 65536" and xs: "\<forall>x \<in> set xs. 0 \<le> x \<and> x < 65536" "xs \<noteq> []" using assms t by (auto simp: word16_def)
  let ?v = "x - 0xffed"
  have "?v div 65536 = 0 \<or> ?v div 65536 = - 1" using x by auto
  then have c: "?v div 65536 mod 2 = - (?v div 65536)" "?v div 65536 mod 2 = 0 \<or> ?v div 65536 mod 2 = 1" by auto
  have m: "?v mod 65536 = ?v - 65536 * (?v div 65536)" by (simp add: minus_mult_div_eq_mod)
  let ?r = "sub_from (?v div 65536 mod 2) xs"
  note s = sub_from_val [OF xs(2,1) c(2)]
  have e: "sub_p t = ?v mod 65536 # ?r" by (simp add: sub_p_def t(1) Let_def)
  have l: "length ?r = 15" using s t(2) by simp
  then have ne: "?r \<noteq> []" by auto
  have r: "val ?r = val xs - val (replicate 14 0xffff @ [0x7fff]) - ?v div 65536 mod 2" using s t(2) by simp
  have "val (sub_p t) = ?v mod 65536 + 65536 * val ?r" by (simp add: e)
  also have "\<dots> = val t - val (0xffed # replicate 14 0xffff @ [0x7fff])" unfolding r unfolding m c(1) t(1) by (simp add: algebra_simps)
  finally show "val (sub_p t) = val t - prime_p" unfolding prime_limbs .
  show "length (sub_p t) = 16" using l by (simp add: e)
  show "\<forall>x \<in> set (butlast (sub_p t)). 0 \<le> x \<and> x < 65536" using s ne by (simp add: e)
  have "sub_p t ! 15 = last ?r" using l by (simp add: e last_conv_nth ne)
  then show "- 65536 \<le> sub_p t ! 15" "sub_p t ! 15 < 65536" using s by simp_all
qed

lemma reduce_val:
  assumes "word16 t"
  shows "word16 (reduce t) \<and> val (reduce t) = (if prime_p \<le> val t then val t - prime_p else val t)"
proof -
  note s = sub_p_val [OF assms]
  let ?m = "sub_p t"
  have b: "\<forall>x \<in> set (butlast ?m). 0 \<le> x \<and> x < 65536" "length (butlast ?m) = 15" using s by simp_all
  have ne: "?m \<noteq> []" using s(2) by auto
  have ml: "?m = butlast ?m @ [?m ! 15]" using append_butlast_last_id [OF ne] last_conv_nth [OF ne] s(2) by simp
  have v: "val ?m = val (butlast ?m) + 65536 ^ 15 * ?m ! 15"
    by (subst ml, subst val_append) (simp add: s(2))
  have rb: "0 \<le> val (butlast ?m)" "val (butlast ?m) < 65536 ^ 15" using val_range [OF b(1)] b(2) by simp_all
  have l: "length t = length ?m" using s(2) assms by (simp add: word16_def)
  show ?thesis
  proof (cases "0 \<le> ?m ! 15")
    case True
    then have "?m ! 15 div 65536 mod 2 = 0" using s(5) by simp
    then have "reduce t = ?m" by (simp add: reduce_def Let_def l)
    moreover have "0 \<le> val ?m" using v rb True by simp
    moreover have "word16 ?m" unfolding word16_def
      by (subst (2) ml) (use s True b in auto)
    ultimately show ?thesis using s(1) by simp
  next
    case False
    then have "?m ! 15 div 65536 = - 1" using s(4) by auto
    then have "reduce t = t" by (simp add: reduce_def Let_def l)
    moreover have "?m ! 15 \<le> - 1" using False by simp
    then have "65536 ^ 15 * ?m ! 15 \<le> 65536 ^ 15 * (- 1)" by (intro mult_left_mono) auto
    then have "val ?m < 0" using v rb by linarith
    ultimately show ?thesis using s(1) assms by simp
  qed
qed

text \<open>Bytes of sixteen-bit limbs.\<close>

fun byte_val :: "nat list \<Rightarrow> int" where
  "byte_val [] = 0"
| "byte_val (b # bs) = int b + 256 * byte_val bs"

lemma limb_bytes_val:
  "\<forall>x \<in> set xs. 0 \<le> x \<and> x < 65536 \<Longrightarrow> byte_val (concat (map limb_bytes xs)) = val xs"
proof (induction xs)
  case (Cons x xs)
  have "int (nat (x mod 256)) + 256 * int (nat (x div 256)) = x" using Cons.prems by (simp add: pos_imp_zdiv_nonneg_iff)
  then show ?case using Cons by (simp add: limb_bytes_def algebra_simps)
qed simp

lemma limb_bytes_range:
  assumes "\<forall>x \<in> set xs. 0 \<le> x \<and> x < 65536"
  shows "length (concat (map limb_bytes xs)) = 2 * length xs" "\<forall>b \<in> set (concat (map limb_bytes xs)). b < 256"
proof -
  show "length (concat (map limb_bytes xs)) = 2 * length xs" by (induction xs) (auto simp: limb_bytes_def)
  have "nat (x mod 256) < 256" "nat (x div 256) < 256" if "x \<in> set xs" for x
  proof -
    have "x mod 256 < 256" "x div 256 < 256" using assms that by auto
    then show "nat (x mod 256) < 256" "nat (x div 256) < 256" by linarith+
  qed
  then show "\<forall>b \<in> set (concat (map limb_bytes xs)). b < 256" by (auto simp: limb_bytes_def)
qed

lemma byte_val_inj:
  "length bs = length cs \<Longrightarrow> \<forall>b \<in> set bs. b < 256 \<Longrightarrow> \<forall>c \<in> set cs. c < 256 \<Longrightarrow> byte_val bs = byte_val cs \<Longrightarrow> bs = cs"
proof (induction bs cs rule: list_induct2)
  case (Cons b bs c cs)
  have "int b mod 256 = int c mod 256"
    using arg_cong [OF Cons.prems(3), of "\<lambda>v. v mod 256"] by simp
  then have "b = c" using Cons.prems(1,2) by simp
  with Cons show ?case by simp
qed simp

text \<open>
  \<open>pack\<close> writes the number modulo the prime in 32 bytes: one text for each number of the field, whichever limbs it
  came in. So two decks that are equal as points are equal as texts.
\<close>
theorem pack_is_canonical:
  assumes "tidy a"
  shows "byte_val (pack a) = val a mod prime_p \<and> length (pack a) = 32 \<and> list_all (\<lambda>b. b < 256) (pack a)"
proof -
  have w1: "word16 (car a)" by (rule car_third [OF assms])
  have t: "tidy x" if "word16 x" for x using that by (cases x) (fastforce simp: word16_def tidy_def)+
  have w: "word16 (car (car (car a)))" by (intro car_third t w1)
  let ?t = "car (car (car a))"
  let ?r = "reduce (reduce ?t)"
  have l: "length x = 16" if "word16 x" for x using that by (simp add: word16_def)
  have la: "length a = 16" using assms by (simp add: tidy_def)
  have v: "val ?t mod prime_p = val a mod prime_p" by (simp add: car_val la)
  have p: "0 < prime_p" "38 < prime_p" by (simp_all add: prime_p_def)
  have r: "0 \<le> val ?t" "val ?t < 2 * prime_p + 38"
    using val_range [of ?t] w by (simp_all add: word16_def prime_p_def)
  have r1: "word16 (reduce ?t)" "val (reduce ?t) = (if prime_p \<le> val ?t then val ?t - prime_p else val ?t)"
    using reduce_val [OF w] by auto
  have r2: "word16 ?r" "val ?r = (if prime_p \<le> val (reduce ?t) then val (reduce ?t) - prime_p else val (reduce ?t))"
    using reduce_val [OF r1(1)] by auto
  have d: "\<exists>k. val ?t = val ?r + k * prime_p" unfolding r2(2) r1(2) by (auto intro: exI [of _ 0] exI [of _ 1] exI [of _ 2])
  have b: "0 \<le> val ?r" "val ?r < prime_p" using r p r1(2) r2(2) by auto
  from d have "val ?r mod prime_p = val ?t mod prime_p" by auto
  then have e: "val ?r = val a mod prime_p" using b v by simp
  have s: "\<forall>x \<in> set ?r. 0 \<le> x \<and> x < 65536" using r2(1) by (simp add: word16_def)
  show ?thesis
    using limb_bytes_val [OF s] limb_bytes_range [OF s] e l [OF r2(1)] by (simp add: pack_def list_all_iff)
qed

lemma pack_is_canonical_witness: "byte_val (pack (gf [- 20])) = prime_p - 20 \<and> length (pack (gf [- 20])) = 32"
proof -
  have v: "val (gf [- 20]) = - 20" by (simp add: gf_def numeral_eq_Suc)
  have "(- 20) mod prime_p = prime_p - 20" by (simp add: prime_p_def)
  then show ?thesis using pack_is_canonical [of "gf [- 20]"] by (simp add: v) (simp add: tidy_def gf_def)
qed

text \<open>
  C32: the ladder never leaves the exact doubles: after any number of its steps the four numbers are of the size a
  product leaves, whatever the key, for every point of 32 bytes.
\<close>
theorem ladder_stays_exact:
  assumes "length u = 32" and "\<forall>x \<in> set u. x < 256"
  shows "tidy4 (ladder_state k u bits)"
  by (rule ladder_tidy [OF assms])

lemma ladder_stays_exact_witness: "tidy4 (ladder_state [7] (9 # replicate 31 0) [2, 1, 0])"
  by (rule ladder_stays_exact) simp_all

end
