(* ===== verification/Poker.thy ===== *)
theory Poker
  imports Poker_Bytes Json
begin

text \<open>
  Mental poker, \<open>mpoker.js\<close>: keys and points as 64 hexadecimal characters, scalars modulo the order \<open>L\<close> of the base
  point, and the three steps of a deal (\<open>shuffle\<close>, \<open>lock\<close>, \<open>open\<close>) with the replay of a finished deal (\<open>verify\<close>). The
  random bytes are arguments: the words for the shuffle and the blocks of 32 bytes for the keys, in the order drawn.
\<close>

section \<open>Hexadecimal texts\<close>

definition hex_digit :: "nat \<Rightarrow> nat" where "hex_digit d = (if d < 10 then 48 + d else 87 + d)"

definition hex_value :: "nat \<Rightarrow> nat" where "hex_value c = (if c < 58 then c - 48 else c - 87)"

definition is_hex :: "nat \<Rightarrow> bool" where "is_hex c \<longleftrightarrow> 48 \<le> c \<and> c \<le> 57 \<or> 97 \<le> c \<and> c \<le> 102"

definition hex :: "nat list \<Rightarrow> jstring" where "hex bs = concat (map (\<lambda>b. [hex_digit (b div 16), hex_digit (b mod 16)]) bs)"

fun bytes :: "jstring \<Rightarrow> nat list" where
  "bytes (a # b # s) = (16 * hex_value a + hex_value b) # bytes s"
| "bytes _ = []"

definition isPoint :: "jstring \<Rightarrow> bool" where "isPoint h \<longleftrightarrow> length h = 64 \<and> list_all is_hex h"

section \<open>Scalars\<close>

definition L :: int where "L = 2 ^ 252 + 27742317777372353535851937790883648493"

definition toBig :: "jstring \<Rightarrow> int" where "toBig h = foldr (\<lambda>b v. v * 256 + int b) (bytes h) 0"

fun big_bytes :: "nat \<Rightarrow> int \<Rightarrow> nat list" where
  "big_bytes 0 v = []"
| "big_bytes (Suc n) v = nat (v mod 256) # big_bytes n (v div 256)"

definition fromBig :: "int \<Rightarrow> jstring" where "fromBig v = hex (big_bytes 32 v)"

text \<open>The loop of \<open>invL\<close>: remainders \<open>r0\<close>, \<open>r1\<close> and their factors \<open>s0\<close>, \<open>s1\<close>.\<close>

function euclid :: "int \<Rightarrow> int \<Rightarrow> int \<Rightarrow> int \<Rightarrow> int" where
  "euclid r0 r1 s0 s1 = (if r1 \<le> 0 then s0 else let q = r0 div r1 in euclid r1 (r0 - q * r1) s1 (s0 - q * s1))"
  by auto
termination
  by (relation "measure (\<lambda>(r0, r1, s0, s1). nat r1)") (auto simp: minus_div_mult_eq_mod)

definition invL :: "int \<Rightarrow> int" where "invL a = (euclid (a mod L) L 1 0 mod L + L) mod L"

definition pow :: "jstring \<Rightarrow> jstring \<Rightarrow> jstring" where "pow k u = hex (ladder (bytes k) (bytes u))"

section \<open>Random draws\<close>

fun below :: "nat \<Rightarrow> nat list \<Rightarrow> (nat \<times> nat list) option" where
  "below n [] = None"
| "below n (v # vs) = (if v < 0x100000000 div n * n then Some (v mod n, vs) else below n vs)"

definition mask_key :: "nat list \<Rightarrow> nat list" where "mask_key b = b[31 := b ! 31 mod 32]"

fun key :: "nat list list \<Rightarrow> (jstring \<times> nat list list) option" where
  "key [] = None"
| "key (b # bs) = (let v = toBig (hex (mask_key b)) in if 0 < v \<and> v < L then Some (fromBig v, bs) else key bs)"

fun keys :: "nat \<Rightarrow> nat list list \<Rightarrow> (jstring list \<times> nat list list) option" where
  "keys 0 bs = Some ([], bs)"
| "keys (Suc n) bs = (case key bs of None \<Rightarrow> None | Some (k, bs') \<Rightarrow>
     (case keys n bs' of None \<Rightarrow> None | Some (ks, r) \<Rightarrow> Some (k # ks, r)))"

fun perm_from :: "nat \<Rightarrow> nat list \<Rightarrow> nat list \<Rightarrow> (nat list \<times> nat list) option" where
  "perm_from 0 p ws = Some (p, ws)"
| "perm_from (Suc i) p ws = (case below (Suc i + 1) ws of None \<Rightarrow> None
     | Some (j, ws') \<Rightarrow> perm_from i (p[Suc i := p ! j, j := p ! Suc i]) ws')"

record secret =
  s_k :: jstring
  s_perm :: "nat list"
  s_ki :: "jstring list"

definition secrets :: "nat \<Rightarrow> nat list \<Rightarrow> nat list list \<Rightarrow> secret option" where
  "secrets n ws bs = (case perm_from (n - 1) [0..<n] ws of None \<Rightarrow> None | Some (p, _) \<Rightarrow>
     (case keys n bs of None \<Rightarrow> None | Some (ki, bs') \<Rightarrow>
       (case key bs' of None \<Rightarrow> None | Some (k, _) \<Rightarrow> Some \<lparr>s_k = k, s_perm = p, s_ki = ki\<rparr>)))"

section \<open>The deal\<close>

definition base_point :: jstring where "base_point = js ''09'' @ replicate 62 48"

definition cards :: "nat \<Rightarrow> jstring list" where "cards n = map (\<lambda>i. pow (fromBig (int i + 1)) base_point) [0..<n]"

definition shuffle :: "jstring list \<Rightarrow> secret \<Rightarrow> jstring list" where
  "shuffle deck sec = map (\<lambda>j. pow (s_k sec) (deck ! j)) (s_perm sec)"

definition lock :: "jstring list \<Rightarrow> secret \<Rightarrow> jstring list" where
  "lock deck sec = (let ik = invL (toBig (s_k sec)) in
     map (\<lambda>(i, v). pow (fromBig (ik * toBig (s_ki sec ! i) mod L)) v) (zip [0..<length deck] deck))"

fun index_in :: "jstring \<Rightarrow> jstring list \<Rightarrow> nat option" where
  "index_in x [] = None"
| "index_in x (y # ys) = (if x = y then Some 0 else map_option Suc (index_in x ys))"

definition open_card :: "jstring \<Rightarrow> jstring list \<Rightarrow> nat \<Rightarrow> nat option" where
  "open_card v ks n = index_in (pow (fromBig (invL (foldl (\<lambda>p k. p * toBig k mod L) 1 ks))) v) (cards n)"

definition scalar :: "jstring \<Rightarrow> bool" where "scalar h \<longleftrightarrow> isPoint h \<and> 0 < toBig h \<and> toBig h < L"

definition validSecrets :: "secret \<Rightarrow> nat \<Rightarrow> bool" where
  "validSecrets s n \<longleftrightarrow> length (s_perm s) = n \<and> length (s_ki s) = n \<and> list_all (\<lambda>j. j < n) (s_perm s) \<and> distinct (s_perm s) \<and>
     scalar (s_k s) \<and> list_all scalar (s_ki s)"

text \<open>A finished deal: the decks each seat published, and the secrets all have revealed.\<close>

record deal =
  d_n :: nat
  d_one :: "jstring list list"
  d_two :: "jstring list list"
  d_sec :: "secret list"

datatype fault = Secrets nat | Shuffle nat | Lock nat | Deck

definition published :: "jstring list list \<Rightarrow> nat \<Rightarrow> jstring list" where
  "published ds s = (if s < length ds then ds ! s else [])"

text \<open>\<open>deck.join()\<close>: decks are compared as joined texts.\<close>

definition joined :: "jstring list \<Rightarrow> jstring" where
  "joined xs = (case xs of [] \<Rightarrow> [] | y # ys \<Rightarrow> y @ concat (map (\<lambda>s. js '','' @ s) ys))"

fun replay_shuffles :: "nat \<Rightarrow> jstring list list \<Rightarrow> secret list \<Rightarrow> nat \<Rightarrow> jstring list \<Rightarrow> fault + jstring list" where
  "replay_shuffles n d1 [] s deck = Inr deck"
| "replay_shuffles n d1 (x # xs) s deck = (if \<not> validSecrets x n then Inl (Secrets s)
     else let deck' = shuffle deck x in if joined deck' \<noteq> joined (published d1 s) then Inl (Shuffle s) else replay_shuffles n d1 xs (Suc s) deck')"

fun replay_locks :: "jstring list list \<Rightarrow> secret list \<Rightarrow> nat \<Rightarrow> jstring list \<Rightarrow> fault + jstring list" where
  "replay_locks d2 [] s deck = Inr deck"
| "replay_locks d2 (x # xs) s deck = (let deck' = lock deck x in
     if joined deck' \<noteq> joined (published d2 s) then Inl (Lock s) else replay_locks d2 xs (Suc s) deck')"

definition opened_ids :: "deal \<Rightarrow> jstring list \<Rightarrow> nat option list" where
  "opened_ids t deck = map (\<lambda>(i, v). open_card v (map (\<lambda>x. s_ki x ! i) (d_sec t)) (d_n t)) (zip [0..<length deck] deck)"

definition verify :: "deal \<Rightarrow> fault + nat list" where
  "verify t = (case replay_shuffles (d_n t) (d_one t) (d_sec t) 0 (cards (d_n t)) of Inl f \<Rightarrow> Inl f
     | Inr deck \<Rightarrow> (case replay_locks (d_two t) (d_sec t) 0 deck of Inl f \<Rightarrow> Inl f
       | Inr deck' \<Rightarrow> let ids = opened_ids t deck' in
           if list_all (\<lambda>x. x \<noteq> None) ids \<and> sort (map the ids) = [0..<length ids] then Inr (map the ids) else Inl Deck))"

section \<open>A verified deal\<close>

lemma replay_shuffles_ok:
  "replay_shuffles n d1 xs s deck = Inr deck' \<Longrightarrow> deck' = fold (\<lambda>x d. shuffle d x) xs deck \<and> (\<forall>x \<in> set xs. validSecrets x n) \<and>
     (\<forall>i < length xs. joined (published d1 (s + i)) = joined (fold (\<lambda>x d. shuffle d x) (take (Suc i) xs) deck))"
proof (induction xs arbitrary: s deck)
  case (Cons x xs)
  let ?d = "shuffle deck x"
  have r: "replay_shuffles n d1 xs (Suc s) ?d = Inr deck'" and x: "validSecrets x n" "joined (published d1 s) = joined ?d"
    using Cons.prems by (auto simp: Let_def split: if_splits)
  note ih = Cons.IH [OF r]
  have "joined (published d1 (s + i)) = joined (fold (\<lambda>x d. shuffle d x) (take (Suc i) (x # xs)) deck)" if "i < length (x # xs)" for i
    using that ih x(2) by (cases i) auto
  then show ?case using ih x(1) by auto
qed simp

lemma replay_locks_ok:
  "replay_locks d2 xs s deck = Inr deck' \<Longrightarrow> deck' = fold (\<lambda>x d. lock d x) xs deck \<and>
     (\<forall>i < length xs. joined (published d2 (s + i)) = joined (fold (\<lambda>x d. lock d x) (take (Suc i) xs) deck))"
proof (induction xs arbitrary: s deck)
  case (Cons x xs)
  let ?d = "lock deck x"
  have r: "replay_locks d2 xs (Suc s) ?d = Inr deck'" and x: "joined (published d2 s) = joined ?d"
    using Cons.prems by (auto simp: Let_def split: if_splits)
  note ih = Cons.IH [OF r]
  have "joined (published d2 (s + i)) = joined (fold (\<lambda>x d. lock d x) (take (Suc i) (x # xs)) deck)" if "i < length (x # xs)" for i
    using that ih x by (cases i) auto
  then show ?case using ih by auto
qed simp

lemma shuffles_length:
  "\<forall>x \<in> set xs. validSecrets x n \<Longrightarrow> length deck = n \<Longrightarrow> length (fold (\<lambda>x d. shuffle d x) xs deck) = n"
  by (induction xs arbitrary: deck) (auto simp: shuffle_def validSecrets_def)

lemma locks_length: "length (fold (\<lambda>x d. lock d x) xs deck) = length deck"
  by (induction xs arbitrary: deck) (auto simp: lock_def Let_def)

lemma verify_replays:
  assumes "verify t = Inr ids"
  obtains d2 where "replay_shuffles (d_n t) (d_one t) (d_sec t) 0 (cards (d_n t)) = Inr (fold (\<lambda>x d. shuffle d x) (d_sec t) (cards (d_n t)))"
    "replay_locks (d_two t) (d_sec t) 0 (fold (\<lambda>x d. shuffle d x) (d_sec t) (cards (d_n t))) = Inr d2"
    "sort ids = [0..<length ids]" "ids = map the (opened_ids t d2)"
proof -
  obtain d1 d2 where r: "replay_shuffles (d_n t) (d_one t) (d_sec t) 0 (cards (d_n t)) = Inr d1"
    "replay_locks (d_two t) (d_sec t) 0 d1 = Inr d2" "sort ids = [0..<length ids]" "ids = map the (opened_ids t d2)"
    using assms by (auto simp: verify_def Let_def split: sum.splits if_splits)
  moreover have "d1 = fold (\<lambda>x d. shuffle d x) (d_sec t) (cards (d_n t))" using replay_shuffles_ok [OF r(1)] by simp
  ultimately show ?thesis using that by simp
qed

lemma verified_ids:
  assumes "verify t = Inr ids"
  shows "distinct ids" "set ids = {0..<d_n t}"
proof -
  obtain d2 where r: "replay_shuffles (d_n t) (d_one t) (d_sec t) 0 (cards (d_n t)) = Inr (fold (\<lambda>x d. shuffle d x) (d_sec t) (cards (d_n t)))"
    "replay_locks (d_two t) (d_sec t) 0 (fold (\<lambda>x d. shuffle d x) (d_sec t) (cards (d_n t))) = Inr d2"
    "sort ids = [0..<length ids]" "ids = map the (opened_ids t d2)"
    using verify_replays [OF assms] .
  have "length d2 = d_n t" using replay_locks_ok [OF r(2)] replay_shuffles_ok [OF r(1)] shuffles_length [of "d_sec t" "d_n t" "cards (d_n t)"]
    by (simp add: locks_length cards_def)
  then have "length ids = d_n t" by (simp add: r(4) opened_ids_def)
  then show "set ids = {0..<d_n t}" "distinct ids"
    using r(3) by (metis set_sort set_upt) (metis distinct_sort distinct_upt r(3))
qed

text \<open>
  C4: a deal that verifies dealt every card exactly once, all seats' secrets are proper, and every deck a seat published
  is what its revealed secrets make of the deck before it.
\<close>
theorem verified_deal_is_fair:
  assumes "verify t = Inr ids"
  shows "distinct ids \<and> set ids = {0..<d_n t} \<and> list_all (\<lambda>x. validSecrets x (d_n t)) (d_sec t) \<and>
    (\<forall>s < length (d_sec t).
      joined (published (d_one t) s) = joined (fold (\<lambda>x d. shuffle d x) (take (Suc s) (d_sec t)) (cards (d_n t))) \<and>
      joined (published (d_two t) s) = joined (fold (\<lambda>x d. lock d x) (take (Suc s) (d_sec t)) (fold (\<lambda>x d. shuffle d x) (d_sec t) (cards (d_n t)))))"
proof -
  obtain d2 where r: "replay_shuffles (d_n t) (d_one t) (d_sec t) 0 (cards (d_n t)) = Inr (fold (\<lambda>x d. shuffle d x) (d_sec t) (cards (d_n t)))"
    "replay_locks (d_two t) (d_sec t) 0 (fold (\<lambda>x d. shuffle d x) (d_sec t) (cards (d_n t))) = Inr d2"
    using verify_replays [OF assms] .
  show ?thesis using replay_shuffles_ok [OF r(1)] replay_locks_ok [OF r(2)] verified_ids [OF assms] by (auto simp: list_all_iff)
qed

section \<open>Drawn secrets are proper\<close>

lemma hex_digits: "d < 16 \<Longrightarrow> is_hex (hex_digit d)" "d < 16 \<Longrightarrow> hex_value (hex_digit d) = d"
  by (auto simp: is_hex_def hex_digit_def hex_value_def)

lemma bytes_hex: "\<forall>b \<in> set bs. b < 256 \<Longrightarrow> bytes (hex bs) = bs"
  by (induction bs) (auto simp: hex_def hex_digits(2))

lemma hex_length: "length (hex bs) = 2 * length bs" by (induction bs) (auto simp: hex_def)

lemma hex_is_hex: "\<forall>b \<in> set bs. b < 256 \<Longrightarrow> list_all is_hex (hex bs)"
  by (induction bs) (auto simp: hex_def hex_digits(1))

lemma big_bytes_length [simp]: "length (big_bytes n v) = n" by (induction n arbitrary: v) auto

lemma big_bytes_range: "b \<in> set (big_bytes n v) \<Longrightarrow> b < 256"
proof (induction n arbitrary: v)
  case (Suc n)
  have "nat (v mod 256) < 256" using pos_mod_bound [of 256 v] by linarith
  then show ?case using Suc by auto
qed simp

lemma toBig_fold: "toBig h = foldr (\<lambda>b v. v * 256 + int b) (bytes h) 0" by (rule toBig_def)

lemma big_bytes_val: "0 \<le> v \<Longrightarrow> v < 256 ^ n \<Longrightarrow> foldr (\<lambda>b v. v * 256 + int b) (big_bytes n v) 0 = v"
proof (induction n arbitrary: v)
  case (Suc n)
  have "v div 256 < 256 ^ n" using Suc.prems by (simp add: div_less_iff_less_mult mult.commute)
  then have "foldr (\<lambda>b v. v * 256 + int b) (big_bytes n (v div 256)) 0 = v div 256" using Suc.prems by (intro Suc.IH) auto
  then show ?case using Suc.prems by simp
qed simp

lemma from_to_big:
  assumes "0 \<le> v" "v < L" shows "toBig (fromBig v) = v" and "isPoint (fromBig v)"
proof -
  have "v < 256 ^ 32" using assms(2) by (simp add: L_def)
  moreover have "\<forall>b \<in> set (big_bytes 32 v). b < 256" by (auto dest: big_bytes_range)
  ultimately show "toBig (fromBig v) = v" "isPoint (fromBig v)"
    using big_bytes_val [OF assms(1), of 32] hex_is_hex
    by (simp_all add: toBig_def fromBig_def bytes_hex isPoint_def hex_length)
qed

lemma key_scalar: "key bs = Some (k, r) \<Longrightarrow> scalar k"
  by (induction bs) (auto simp: Let_def scalar_def from_to_big split: if_splits)

lemma keys_scalar: "keys n bs = Some (ks, r) \<Longrightarrow> length ks = n \<and> list_all scalar ks"
proof (induction n arbitrary: bs ks r)
  case (Suc n)
  obtain k bs' ks' where k: "key bs = Some (k, bs')" "keys n bs' = Some (ks', r)" "ks = k # ks'"
    using Suc.prems by (auto split: option.splits)
  then show ?case using Suc.IH [OF k(2)] key_scalar [OF k(1)] by simp
qed simp

lemma below_draw_less: "0 < n \<Longrightarrow> below n ws = Some (j, r) \<Longrightarrow> j < n"
  by (induction ws) (auto split: if_splits)

lemma perm_from_perm:
  "perm_from i p ws = Some (p', r) \<Longrightarrow> i < length p \<Longrightarrow> mset p' = mset p"
proof (induction i arbitrary: p ws)
  case (Suc i)
  obtain j ws' where b: "below (Suc i + 1) ws = Some (j, ws')" using Suc.prems(1) by (auto split: option.splits)
  have "j < length p" using below_draw_less [OF _ b] Suc.prems(2) by simp
  then have "mset (p[Suc i := p ! j, j := p ! Suc i]) = mset p" using Suc.prems(2) by (simp add: mset_swap)
  then show ?case using Suc.IH [of "p[Suc i := p ! j, j := p ! Suc i]" ws'] Suc.prems b by simp
qed simp

text \<open>
  What \<open>secrets\<close> draws passes \<open>validSecrets\<close>: a permutation of the deck and scalars between 1 and \<open>L - 1\<close>, whatever
  the random bytes are; so an honest seat is never the one \<open>verify\<close> names for its secrets.
\<close>
theorem drawn_secrets_are_valid:
  assumes "0 < n" and "secrets n ws bs = Some s"
  shows "validSecrets s n"
proof -
  obtain p r ki bs' k r' where d: "perm_from (n - 1) [0..<n] ws = Some (p, r)" "keys n bs = Some (ki, bs')" "key bs' = Some (k, r')"
    "s = \<lparr>s_k = k, s_perm = p, s_ki = ki\<rparr>"
    using assms(2) by (auto simp: secrets_def split: option.splits prod.splits)
  have m: "mset p = mset [0..<n]" by (rule perm_from_perm [OF d(1)]) (use assms(1) in simp)
  have "length p = n" "distinct p" "set p = {0..<n}"
    using mset_eq_length [OF m] mset_eq_imp_distinct_iff [OF m] mset_eq_setD [OF m] by simp_all
  then show ?thesis using keys_scalar [OF d(2)] key_scalar [OF d(3)] d(4) by (auto simp: validSecrets_def list_all_iff)
qed

section \<open>The inverse of a scalar\<close>

declare euclid.simps [simp del]

lemma euclid_inverse:
  "r1 \<ge> 0 \<Longrightarrow> r0 \<ge> 0 \<Longrightarrow> (r0 - s0 * a) mod m = 0 \<Longrightarrow> (r1 - s1 * a) mod m = 0 \<Longrightarrow> (gcd r0 r1 - euclid r0 r1 s0 s1 * a) mod m = (0 :: int)"
proof (induction r0 r1 s0 s1 rule: euclid.induct)
  case (1 r0 r1 s0 s1)
  show ?case
  proof (cases "r1 \<le> 0")
    case True
    then have "euclid r0 r1 s0 s1 = s0" by (subst euclid.simps) simp
    moreover have "r1 = 0" using True "1.prems" by simp
    ultimately show ?thesis using "1.prems" by simp
  next
    case False
    let ?q = "r0 div r1"
    have r: "r0 - ?q * r1 = r0 mod r1" by (simp add: minus_div_mult_eq_mod)
    have "m dvd (r0 - s0 * a) - ?q * (r1 - s1 * a)" using "1.prems" by (simp add: mod_eq_0_iff_dvd)
    then have "(r0 - ?q * r1 - (s0 - ?q * s1) * a) mod m = 0" by (simp add: mod_eq_0_iff_dvd algebra_simps)
    then have "(gcd r1 (r0 - ?q * r1) - euclid r1 (r0 - ?q * r1) s1 (s0 - ?q * s1) * a) mod m = 0"
      using "1.IH" [OF False refl] "1.prems" False by (simp add: r)
    then show ?thesis using False by (simp add: euclid.simps [of r0 r1] Let_def r gcd_red_int [of r0 r1])
  qed
qed

text \<open>
  C33: \<open>invL\<close> inverts every scalar that has an inverse: the loop ends and its result times the scalar is 1 modulo \<open>L\<close>.
\<close>
theorem invL_inverts:
  assumes "coprime a L"
  shows "0 \<le> invL a \<and> invL a < L \<and> a * invL a mod L = 1"
proof -
  have L: "1 < L" by (simp add: L_def)
  let ?e = "euclid (a mod L) L 1 0"
  have "(gcd (a mod L) L - ?e * a) mod L = 0"
  proof (rule euclid_inverse)
    have "a mod L - 1 * a = L * (- (a div L))" by (simp add: minus_mult_div_eq_mod [symmetric])
    then show "(a mod L - 1 * a) mod L = 0" by simp
  qed (use L in simp_all)
  moreover have "gcd (a mod L) L = 1" using assms gcd_red_int [of a L] by (simp add: gcd.commute [of _ L] coprime_iff_gcd_eq_1)
  ultimately have "L dvd 1 - ?e * a" by (simp add: mod_eq_0_iff_dvd)
  then have "?e * a mod L = 1 mod L" by (metis mod_eq_dvd_iff dvd_minus_iff minus_diff_eq)
  then have "a * (?e mod L) mod L = 1" using L by (simp add: mod_mult_right_eq mult.commute)
  moreover have i: "invL a = ?e mod L" using L by (simp add: invL_def)
  ultimately show ?thesis using L by simp
qed

lemma invL_inverts_witness: "3 * invL 3 mod L = 1"
proof -
  have "coprime 3 L" unfolding L_def by code_simp
  then show ?thesis using invL_inverts [of 3] by blast
qed

lemma drawn_secrets_are_valid_witness:
  "\<exists>s. secrets 1 [] [5 # replicate 31 0, 7 # replicate 31 0] = Some s \<and> validSecrets s 1"
proof -
  have "secrets 1 [] [5 # replicate 31 0, 7 # replicate 31 0] \<noteq> None" by code_simp
  then obtain s where s: "secrets 1 [] [5 # replicate 31 0, 7 # replicate 31 0] = Some s" by blast
  from drawn_secrets_are_valid [OF _ s] s show ?thesis by simp
qed

definition lone :: secret where
  "lone = \<lparr>s_k = fromBig 5, s_perm = [], s_ki = []\<rparr>"

lemma verified_deal_is_fair_witness:
  "distinct ([] :: nat list) \<and> validSecrets lone 0"
proof -
  have "scalar (fromBig 5)" using from_to_big [of 5] by (simp add: scalar_def L_def)
  then have "verify \<lparr>d_n = 0, d_one = [[]], d_two = [[]], d_sec = [lone]\<rparr> = Inr []"
    by (simp add: verify_def lone_def cards_def shuffle_def lock_def validSecrets_def published_def opened_ids_def Let_def)
  from verified_deal_is_fair [OF this] show ?thesis by simp
qed

end
