(* ===== verification/Sanitize.thy ===== *)
theory Sanitize
  imports Text_Filter Json_Text
begin

text \<open>
  What comes out of a link or another device, cleaned: the sanitizers of \<open>core.js\<close> for numbers, names, emoji, the look
  and the route of a game and its whole state. The case tables, the class of code points a name keeps, the emoji pattern
  and the conversions between numbers and text are those of the platform, the record \<open>platform\<close>. Numbers are exact.
\<close>

record platform =
  uc :: unicode
  in_class :: "jstring \<Rightarrow> bool"                  \<comment> \<open>the code points \<open>stripText\<close> keeps\<close>
  emoji_at :: "jstring \<Rightarrow> jstring option"        \<comment> \<open>what \<open>EMOJI_RE\<close> matches\<close>
  number_of :: "jstring \<Rightarrow> jnum"                 \<comment> \<open>\<open>Number(s)\<close>\<close>
  number_text :: "jnum \<Rightarrow> jstring"               \<comment> \<open>\<open>String(n)\<close>\<close>

section \<open>Values\<close>

text \<open>\<open>String(s == null ? "" : s)\<close>; the members of a list are joined, absent ones are empty.\<close>

fun string_of :: "platform \<Rightarrow> json \<Rightarrow> jstring" where
  "string_of P JUndef = []"
| "string_of P JNull = []"
| "string_of P (JBool b) = (if b then js ''true'' else js ''false'')"
| "string_of P (JNum n) = number_text P n"
| "string_of P (JStr s) = s"
| "string_of P (JArr xs) = comma_list (map (string_of P) xs)"
| "string_of P (JObj kvs) = js ''[object Object]''"

fun elements :: "json \<Rightarrow> json list" where
  "elements (JArr xs) = xs" | "elements _ = []"

definition either_of :: "json \<Rightarrow> json \<Rightarrow> json" where   \<comment> \<open>\<open>v || w\<close>\<close>
  "either_of v w = (if truthy v then v else w)"

definition one_of :: "string list \<Rightarrow> json \<Rightarrow> bool" where   \<comment> \<open>\<open>list.indexOf(v) >= 0\<close>\<close>
  "one_of xs v \<longleftrightarrow> (case v of JStr s \<Rightarrow> s \<in> js ` set xs | _ \<Rightarrow> False)"

definition opt :: "bool \<Rightarrow> string \<Rightarrow> json \<Rightarrow> (string \<times> json) list" where
  "opt b k v = (if b then [(k, v)] else [])"

text \<open>\<open>clampNum\<close>: \<open>None\<close> where the default is the answer.\<close>

fun finite_number :: "platform \<Rightarrow> json \<Rightarrow> rat option" where
  "finite_number P (JNum (Rat r)) = Some r"
| "finite_number P (JStr s) = (if trim s = [] then None else case number_of P s of Rat r \<Rightarrow> Some r | _ \<Rightarrow> None)"
| "finite_number P _ = None"

definition clampNum :: "platform \<Rightarrow> json \<Rightarrow> rat \<Rightarrow> rat \<Rightarrow> rat option" where
  "clampNum P v lo hi = map_option (\<lambda>r. min hi (max lo r)) (finite_number P v)"

definition clampOr :: "platform \<Rightarrow> json \<Rightarrow> rat \<Rightarrow> rat \<Rightarrow> rat \<Rightarrow> rat" where
  "clampOr P v lo hi d = (case clampNum P v lo hi of Some r \<Rightarrow> r | None \<Rightarrow> d)"

definition round_half :: "rat \<Rightarrow> int" where   \<comment> \<open>\<open>Math.round\<close>\<close>
  "round_half r = \<lfloor>r + 1 / 2\<rfloor>"

section \<open>Parameters, theme and seed\<close>

type_synonym params = "(string \<times> int) list"

definition RANGES :: "(string \<times> int \<times> int \<times> int) list" where
  "RANGES = [(''gravity'', 900, 2600, 1800), (''jump'', 280, 620, 430), (''gap'', 90, 200, 140), (''speed'', 90, 260, 130)]"

definition ALIAS :: "(string \<times> string) list" where
  "ALIAS = [(''jump'', ''flapPower''), (''gap'', ''pipeGap''), (''speed'', ''pipeSpeed'')]"

definition THEME_NAMES :: "string list" where
  "THEME_NAMES = [''day'', ''night'', ''sunset'', ''retro'', ''candy'', ''neon'', ''ocean'', ''lava'']"

definition param_value :: "json \<Rightarrow> string \<Rightarrow> json" where
  "param_value p k = (if field p k = JUndef then case map_of ALIAS k of Some a \<Rightarrow> field p a | None \<Rightarrow> JUndef else field p k)"

definition sanitizeParams :: "platform \<Rightarrow> json \<Rightarrow> params" where
  "sanitizeParams P p =
     map (\<lambda>(k, lo, hi, d). (k, round_half (clampOr P (param_value p k) (of_int lo) (of_int hi) (of_int d)))) RANGES"

definition params_json :: "params \<Rightarrow> json" where
  "params_json ps = jobj (map (\<lambda>(k, n). (k, JInt n)) ps)"

definition sanitizeTheme :: "json \<Rightarrow> json" where
  "sanitizeTheme t = (if one_of THEME_NAMES t then t else JStr (js ''day''))"

definition sanitizeSeed :: "platform \<Rightarrow> json \<Rightarrow> int" where
  "sanitizeSeed P s = \<lfloor>clampOr P s 0 4294967295 1\<rfloor> mod 2 ^ 32"

section \<open>Names, titles and emoji\<close>

definition DEFAULT_EMOJI :: jstring where "DEFAULT_EMOJI = [0xD83E, 0xDE81]"

definition cpSlice :: "jstring \<Rightarrow> nat \<Rightarrow> jstring" where
  "cpSlice s n = concat (take n (code_points s))"

text \<open>Half of a surrogate pair is in none of the classes.\<close>

definition kept :: "platform \<Rightarrow> jstring \<Rightarrow> bool" where
  "kept P c \<longleftrightarrow> in_class P c \<and> (case c of [d] \<Rightarrow> \<not> surrogate d | _ \<Rightarrow> True)"

definition stripText :: "platform \<Rightarrow> json \<Rightarrow> jstring" where
  "stripText P s = trim (squeeze_white (concat (filter (kept P) (code_points (string_of P s)))))"

definition sliced :: "platform \<Rightarrow> nat \<Rightarrow> json \<Rightarrow> jstring" where
  "sliced P n s = (let t = trim (cpSlice (stripText P s) n) in if t \<noteq> [] \<and> isClean (uc P) t then t else [])"

definition MAX_NAME :: nat where "MAX_NAME = 16"
definition MAX_TITLE :: nat where "MAX_TITLE = 28"

definition sanitizeName :: "platform \<Rightarrow> json \<Rightarrow> jstring" where
  "sanitizeName P s = sliced P MAX_NAME s"

definition sanitizeTitle :: "platform \<Rightarrow> json \<Rightarrow> jstring" where
  "sanitizeTitle P s = (let t = sliced P MAX_TITLE s in if t \<noteq> [] then t else js ''Duell'')"

definition emo :: "platform \<Rightarrow> json \<Rightarrow> jstring" where
  "emo P v = (case v of JStr s \<Rightarrow> (case emoji_at P (trim s) of Some m \<Rightarrow> if length m \<le> 12 then m else [] | None \<Rightarrow> []) | _ \<Rightarrow> [])"

definition sanitizeEmoji :: "platform \<Rightarrow> json \<Rightarrow> jstring" where
  "sanitizeEmoji P v = (case v of
     JStr s \<Rightarrow> (case emoji_at P (trim s) of Some m \<Rightarrow> if length m \<le> 12 then m else DEFAULT_EMOJI | None \<Rightarrow> DEFAULT_EMOJI)
   | _ \<Rightarrow> DEFAULT_EMOJI)"

definition sanitizePrompt :: "platform \<Rightarrow> json \<Rightarrow> jstring" where
  "sanitizePrompt P s = cpSlice (trim (squeeze_white (map (\<lambda>c. if markup c then 32 else c) (string_of P s)))) 80"

section \<open>Colours, skin and look\<close>

definition hex_char :: "nat \<Rightarrow> bool" where
  "hex_char c \<longleftrightarrow> 48 \<le> c \<and> c \<le> 57 \<or> 97 \<le> c \<and> c \<le> 102"

definition low_case :: "nat \<Rightarrow> nat" where
  "low_case c = (if 65 \<le> c \<and> c \<le> 90 then c + 32 else c)"

text \<open>\<open>/^#[0-9a-f]{6}$/\<close>; with the flag \<open>i\<close> on the text in lower case.\<close>

definition is_hex6 :: "jstring \<Rightarrow> bool" where
  "is_hex6 s \<longleftrightarrow> length s = 7 \<and> hd s = 35 \<and> list_all hex_char (tl s)"

definition hex_colour :: "json \<Rightarrow> jstring" where
  "hex_colour v = (case v of JStr s \<Rightarrow> if is_hex6 (map low_case s) then map low_case s else [] | _ \<Rightarrow> [])"

definition hex_digit_value :: "nat \<Rightarrow> int" where
  "hex_digit_value c = (if c \<le> 57 then int c - 48 else int c - 87)"

definition light :: "jstring \<Rightarrow> rat" where
  "light c = (let n = foldl (\<lambda>n d. n * 16 + hex_digit_value d) 0 (tl c)
     in (3 / 10 * of_int (n div 65536) + 59 / 100 * of_int (n div 256 mod 256) + 11 / 100 * of_int (n mod 256)) / 255)"

definition sanitizeSkin :: "platform \<Rightarrow> json \<Rightarrow> json option" where
  "sanitizeSkin P v = (case field v ''c'' of
     JArr [JStr a, JStr b] \<Rightarrow>
       if is_hex6 (map low_case a) \<and> is_hex6 (map low_case b)
       then let l = sliced P 60 (field v ''l'')
            in Some (jobj ([(''c'', JArr [JStr a, JStr b])] @ opt (l \<noteq> []) ''l'' (JStr l)))
       else None
   | _ \<Rightarrow> None)"

definition DECOS :: "string list" where
  "DECOS = [''stars'', ''bubbles'', ''clouds'', ''snow'', ''rain'', ''none'']"

definition FORMS :: "string list" where
  "FORMS = [''tube'', ''block'', ''round'', ''emoji'']"

text \<open>An obstacle that melts into the sky gets another colour.\<close>

definition obstacle :: "jstring \<Rightarrow> jstring \<Rightarrow> jstring \<Rightarrow> jstring" where
  "obstacle a b p = (if a = [] \<or> p = [] then p
     else let sky = (light a + light (if b \<noteq> [] then b else a)) / 2
          in if \<bar>sky - light p\<bar> < 18 / 100 then (if sky > 1 / 2 then js ''#1f1f2e'' else js ''#f2f2f2'') else p)"

definition look_entries :: "platform \<Rightarrow> json \<Rightarrow> (string \<times> json) list" where
  "look_entries P v =
     (let h = (\<lambda>k. hex_colour (field v k));
          e = take 3 (filter (\<lambda>x. x \<noteq> []) (map (emo P) (elements (field v ''e''))));
          ob = emo P (field v ''o''); m = emo P (field v ''m'');
          p = obstacle (h ''a'') (h ''b'') (h ''p'');
          f = field v ''f''
      in opt (h ''a'' \<noteq> []) ''a'' (JStr (h ''a'')) @ opt (h ''b'' \<noteq> []) ''b'' (JStr (h ''b'')) @
         opt (p \<noteq> []) ''p'' (JStr p) @ opt (h ''q'' \<noteq> []) ''q'' (JStr (h ''q'')) @
         opt (h ''g'' \<noteq> []) ''g'' (JStr (h ''g'')) @ opt (h ''h'' \<noteq> []) ''h'' (JStr (h ''h'')) @
         opt (one_of DECOS (field v ''d'')) ''d'' (field v ''d'') @
         opt (one_of FORMS f \<and> \<not> (f = JStr (js ''emoji'') \<and> ob = [])) ''f'' f @
         opt (e \<noteq> []) ''e'' (JArr (map JStr e)) @ opt (ob \<noteq> []) ''o'' (JStr ob) @ opt (m \<noteq> []) ''m'' (JStr m))"

definition sanitizeLook :: "platform \<Rightarrow> json \<Rightarrow> json option" where
  "sanitizeLook P v = (case v of JObj kvs \<Rightarrow> (let l = look_entries P v in if l = [] then None else Some (jobj l)) | _ \<Rightarrow> None)"

section \<open>The route\<close>

record leg =
  l_p :: jstring
  l_d :: params
  l_t :: jstring
  l_e :: jstring

definition STEPS :: "string list" where
  "STEPS = [''normal'', ''ruhig'', ''schnell'', ''eng'', ''schwebend'', ''schwer'', ''sturm'']"

definition SECTIONS :: nat where "SECTIONS = 3"

definition DELTA_MAX :: "(string \<times> int) list" where
  "DELTA_MAX = [(''gravity'', 800), (''jump'', 120), (''gap'', 60), (''speed'', 80)]"

text \<open>The gravity has no other name, so its second look-up is the property \<open>undefined\<close>.\<close>

definition delta_value :: "json \<Rightarrow> string \<Rightarrow> json" where
  "delta_value src k = (if field src k \<noteq> JUndef then field src k
     else field src (case map_of ALIAS k of Some a \<Rightarrow> a | None \<Rightarrow> ''undefined''))"

definition deltas :: "platform \<Rightarrow> json \<Rightarrow> params" where
  "deltas P src = filter (\<lambda>(k, v). v \<noteq> 0)
     (map (\<lambda>(k, m). (k, round_half (clampOr P (delta_value src k) (of_int (- m)) (of_int m) 0))) DELTA_MAX)"

definition read_leg :: "platform \<Rightarrow> json \<Rightarrow> leg option" where
  "read_leg P a =
     (let t = either_of (field a ''t'') (field a ''thema'');
          e = emo P (either_of (field a ''e'') (field a ''emoji''));
          st = either_of (field a ''p'') (field a ''physik'')
      in case t of JStr s \<Rightarrow>
           if one_of THEME_NAMES t \<and> e \<noteq> []
           then Some \<lparr>l_p = (if one_of STEPS st then string_of P st else js ''normal''),
                      l_d = deltas P (either_of (field a ''d'') (field a ''delta'')), l_t = s, l_e = e\<rparr>
           else None
         | _ \<Rightarrow> None)"

definition sanitizeRoute :: "platform \<Rightarrow> json \<Rightarrow> leg list option" where
  "sanitizeRoute P r = (case r of
     JArr xs \<Rightarrow> if length xs = SECTIONS then those (map (read_leg P) xs) else None
   | _ \<Rightarrow> None)"

definition leg_json :: "leg \<Rightarrow> json" where
  "leg_json s = jobj [(''p'', JStr (l_p s)), (''d'', params_json (l_d s)), (''t'', JStr (l_t s)), (''e'', JStr (l_e s))]"

definition route_json :: "leg list \<Rightarrow> json" where
  "route_json r = JArr (map leg_json r)"

definition get_param :: "params \<Rightarrow> string \<Rightarrow> int" where   \<comment> \<open>\<open>d[k] || 0\<close>\<close>
  "get_param ps k = (case map_of ps k of Some n \<Rightarrow> n | None \<Rightarrow> 0)"

definition sectionParams :: "platform \<Rightarrow> params \<Rightarrow> leg list \<Rightarrow> nat \<Rightarrow> params" where
  "sectionParams P ps r i =
     (let d = (if i < length r then l_d (r ! i) else [])
      in sanitizeParams P (params_json (map (\<lambda>(k, _). (k, get_param ps k + get_param d k)) RANGES)))"

definition routeParams :: "platform \<Rightarrow> params \<Rightarrow> leg list \<Rightarrow> params list" where
  "routeParams P ps r = map (sectionParams P ps r) [0..<length r]"

section \<open>The mark of a model and the state\<close>

definition seal_char :: "nat \<Rightarrow> bool" where
  "seal_char c \<longleftrightarrow> 48 \<le> c \<and> c \<le> 57 \<or> 65 \<le> c \<and> c \<le> 90 \<or> 97 \<le> c \<and> c \<le> 122 \<or> c \<in> {46, 95, 126, 45}"

definition is_seal :: "json \<Rightarrow> bool" where   \<comment> \<open>\<open>/^[A-Za-z0-9._~-]{8,200}$/\<close>\<close>
  "is_seal v \<longleftrightarrow> (case v of JStr s \<Rightarrow> 8 \<le> length s \<and> length s \<le> 200 \<and> list_all seal_char s | _ \<Rightarrow> False)"

definition is_hash43 :: "json \<Rightarrow> bool" where   \<comment> \<open>\<open>/^[A-Za-z0-9_-]{43}$/\<close>\<close>
  "is_hash43 v \<longleftrightarrow> (case v of JStr s \<Rightarrow> length s = 43 \<and> list_all (\<lambda>c. seal_char c \<and> c \<noteq> 46 \<and> c \<noteq> 126) s | _ \<Rightarrow> False)"

definition sanitizeKiMark :: "json \<Rightarrow> json option" where
  "sanitizeKiMark v =
     (if field v ''k'' = JStr (js ''welt'') \<and> is_seal (field v ''s'')
      then Some (jobj ([(''k'', JStr (js ''welt'')), (''s'', field v ''s'')] @ opt (is_hash43 (field v ''h'')) ''h'' (field v ''h'')))
      else None)"

definition MAX_SCORE :: rat where "MAX_SCORE = 9999"

definition opt_json :: "string \<Rightarrow> json option \<Rightarrow> (string \<times> json) list" where
  "opt_json k w = (case w of Some v \<Rightarrow> [(k, v)] | None \<Rightarrow> [])"

definition sanitizeState :: "platform \<Rightarrow> json \<Rightarrow> json option" where
  "sanitizeState P v = (case v of JObj kvs \<Rightarrow>
     if field v ''v'' \<noteq> JInt 1 then None
     else Some (jobj (
       [(''v'', JInt 1), (''seed'', JInt (sanitizeSeed P (field v ''seed''))),
        (''params'', params_json (sanitizeParams P (field v ''params''))), (''theme'', sanitizeTheme (field v ''theme'')),
        (''title'', JStr (sanitizeTitle P (field v ''title''))), (''emoji'', JStr (sanitizeEmoji P (field v ''emoji'')))] @
       opt_json ''skin'' (sanitizeSkin P (field v ''skin'')) @
       opt_json ''look'' (sanitizeLook P (field v ''look'')) @
       opt_json ''route'' (map_option route_json (sanitizeRoute P (field v ''route''))) @
       opt_json ''ki'' (sanitizeKiMark (field v ''ki'')) @
       opt_json ''score'' (map_option (\<lambda>r. JInt \<lfloor>r\<rfloor>) (clampNum P (field v ''score'') 0 MAX_SCORE)) @
       (let nm = sanitizeName P (field v ''name'') in opt (nm \<noteq> []) ''name'' (JStr nm))))
   | _ \<Rightarrow> None)"

end
