(* ===== verification/Sanitize_Ok.thy ===== *)
theory Sanitize_Ok
  imports Sanitize
begin

text \<open>
  Cleaning twice is cleaning once: what a device accepted from a link it sends on unchanged, and the other side accepts the
  same. One lemma per sanitizer, then the whole state. What the platform's tables and patterns are known for is
  \<open>platform_ok\<close>: a name keeps the space but no markup, and the emoji pattern matches its own matches.
\<close>

definition platform_ok :: "platform \<Rightarrow> bool" where
  "platform_ok P \<longleftrightarrow> in_class P [32] \<and> (\<forall>x. in_class P x \<longrightarrow> (\<forall>c \<in> set x. \<not> markup c)) \<and>
     emoji_at P [] = None \<and> emoji_at P DEFAULT_EMOJI = Some DEFAULT_EMOJI \<and>
     (\<forall>s m. emoji_at P s = Some m \<longrightarrow> m \<noteq> [] \<and> trim m = m \<and> emoji_at P m = Some m)"

section \<open>Code points that stay\<close>

definition all_kept :: "platform \<Rightarrow> jstring \<Rightarrow> bool" where
  "all_kept P s \<longleftrightarrow> list_all (kept P) (code_points s)"

lemma code_points_Cons_plain: "\<not> surrogate c \<Longrightarrow> code_points (c # s) = [c] # code_points s"
  by (cases s) (auto simp: surrogate_def high_surrogate_def)

lemma code_points_snoc_plain: "\<not> surrogate c \<Longrightarrow> code_points (s @ [c]) = code_points s @ [[c]]"
proof (induction s rule: code_points.induct)
  case (2 d) then show ?case by (auto simp: surrogate_def low_surrogate_def)
qed auto

lemma white_plain: "white c \<Longrightarrow> \<not> surrogate c"
  by (auto simp: white_def surrogate_def)

lemma code_points_good:
  assumes "list_all (\<lambda>x. (\<exists>c. x = [c] \<and> \<not> surrogate c) \<or> (\<exists>h l. x = [h, l] \<and> high_surrogate h \<and> low_surrogate l)) xs"
  shows "code_points (concat xs) = xs"
  using assms by (induction xs) (auto simp: code_points_Cons_plain)

lemma code_points_shape:
  "x \<in> set (code_points s) \<Longrightarrow> (\<exists>c. x = [c]) \<or> (\<exists>h l. x = [h, l] \<and> high_surrogate h \<and> low_surrogate l)"
  by (induction s rule: code_points.induct) (auto split: if_splits)

lemma kept_filter: "all_kept P (concat (filter (kept P) (code_points s)))"
proof -
  have "code_points (concat (filter (kept P) (code_points s))) = filter (kept P) (code_points s)"
    by (rule code_points_good) (auto simp: list_all_iff kept_def dest!: code_points_shape)
  then show ?thesis by (simp add: all_kept_def list_all_iff)
qed

lemma filter_kept: "all_kept P s \<Longrightarrow> concat (filter (kept P) (code_points s)) = s"
  by (simp add: all_kept_def list_all_iff)

lemma kept_drop: "all_kept P s \<Longrightarrow> all_kept P (dropWhile white s)"
  by (induction s) (auto simp: all_kept_def code_points_Cons_plain dest: white_plain)

lemma kept_drop_rev: "all_kept P s \<Longrightarrow> all_kept P (rev (dropWhile white (rev s)))"
  by (induction s rule: rev_induct) (auto simp: all_kept_def code_points_snoc_plain dest: white_plain)

lemma kept_trim: "all_kept P s \<Longrightarrow> all_kept P (trim s)"
  unfolding trim_def by (intro kept_drop_rev kept_drop)

lemma kept_slice: "all_kept P s \<Longrightarrow> all_kept P (cpSlice s n)"
  unfolding all_kept_def cpSlice_def code_points_take by (auto simp: list_all_iff dest: in_set_takeD)

lemma kept_squeeze:
  assumes sp: "kept P [32]" shows "all_kept P s \<Longrightarrow> all_kept P (squeeze_white s)"
proof (induction "length s" arbitrary: s rule: less_induct)
  case less
  show ?case
  proof (cases s)
    case (Cons c cs)
    show ?thesis
    proof (cases "white c")
      case True
      then have "all_kept P cs" using less(2) Cons by (simp add: all_kept_def code_points_Cons_plain white_plain)
      then have "all_kept P (dropWhile white cs)" by (rule kept_drop)
      moreover have "length (dropWhile white cs) < length s"
        using Cons length_dropWhile_le [of white cs] by (simp add: less_Suc_eq_le)
      ultimately have "all_kept P (squeeze_white (dropWhile white cs))" using less(1) by blast
      with True Cons sp show ?thesis by (simp add: all_kept_def code_points_Cons_plain surrogate_def)
    next
      case nw: False
      show ?thesis
      proof (cases "surrogate c")
        case False
        then have "all_kept P cs" "kept P [c]" using less(2) Cons by (simp_all add: all_kept_def code_points_Cons_plain)
        with less(1) [of cs] nw False Cons show ?thesis by (simp add: all_kept_def code_points_Cons_plain)
      next
        case sg: True
        obtain d ds where cs: "cs = d # ds" "high_surrogate c \<and> low_surrogate d"
          using less(2) Cons sg by (cases cs) (auto simp: all_kept_def kept_def split: if_splits)
        have "\<not> white d" using cs(2) by (auto simp: low_surrogate_def white_def)
        moreover have "all_kept P ds" using less(2) Cons cs by (simp add: all_kept_def)
        then have "all_kept P (squeeze_white ds)" using less(1) [of ds] Cons cs by simp
        ultimately show ?thesis using less(2) Cons cs nw by (simp add: all_kept_def)
      qed
    qed
  qed (use less in simp)
qed

lemma kept_no_markup:
  assumes "platform_ok P" "all_kept P s" "c \<in> set s" shows "\<not> markup c"
proof -
  from assms(3) have "c \<in> set (concat (code_points s))" by (simp only: code_points_concat)
  then obtain x where "x \<in> set (code_points s)" "c \<in> set x" unfolding set_concat by blast
  with assms show ?thesis by (auto simp: all_kept_def list_all_iff kept_def platform_ok_def)
qed

section \<open>Names and emoji\<close>

lemma stripText_kept: "platform_ok P \<Longrightarrow> all_kept P (stripText P s)"
  unfolding stripText_def
  by (intro kept_trim kept_squeeze kept_filter) (simp add: kept_def platform_ok_def surrogate_def)

lemma stripText_tidy: "platform_ok P \<Longrightarrow> tidy (stripText P s)"
proof -
  assume ok: "platform_ok P"
  let ?f = "concat (filter (kept P) (code_points (string_of P s)))"
  have "tidy (squeeze_white ?f)"
    using kept_no_markup [OF ok kept_filter] by (intro squeeze_is_tidy) blast
  moreover obtain p q where "squeeze_white ?f = p @ trim (squeeze_white ?f) @ q" using trim_append by blast
  ultimately show ?thesis unfolding stripText_def using tidy_infix by metis
qed

lemma slice_infix: "\<exists>q. s = cpSlice s n @ q"
proof -
  have "concat (take n (code_points s)) @ concat (drop n (code_points s)) = s"
    by (metis append_take_drop_id code_points_concat concat_append)
  then show ?thesis unfolding cpSlice_def by metis
qed

lemma stripText_again:
  assumes ok: "platform_ok P" and t: "t = trim (cpSlice (stripText P s) n)"
  shows "trim (cpSlice (stripText P (JStr t)) n) = t"
proof -
  let ?c = "cpSlice (stripText P s) n"
  have k: "all_kept P t" unfolding t by (intro kept_trim kept_slice stripText_kept ok)
  obtain q where "stripText P s = [] @ ?c @ q" using slice_infix by fastforce
  then have "tidy ?c" using stripText_tidy [OF ok, of s] tidy_infix by metis
  then have "tidy t" unfolding t using trim_append [of ?c] tidy_infix by metis
  then have "squeeze_white t = t" by (rule squeeze_tidy)
  then have s: "stripText P (JStr t) = t" using filter_kept [OF k] t by (simp add: stripText_def)
  have "length (code_points ?c) \<le> n" unfolding cpSlice_def code_points_take by simp
  moreover obtain p r where "?c = p @ t @ r" using trim_append [of ?c] t by metis
  ultimately have "length (code_points t) \<le> n" using code_points_infix_le [of t p r] by simp
  then have "cpSlice t n = t" by (simp add: cpSlice_def)
  with s t show ?thesis by simp
qed

lemma sliced_idem: "platform_ok P \<Longrightarrow> sliced P n (JStr (sliced P n s)) = sliced P n s"
proof -
  assume ok: "platform_ok P"
  have "sliced P n (JStr []) = []" by (simp add: sliced_def stripText_def cpSlice_def trim_def)
  with stripText_again [OF ok] show ?thesis by (auto simp: sliced_def Let_def)
qed

lemma sanitizeName_idem [simp]: "platform_ok P \<Longrightarrow> sanitizeName P (JStr (sanitizeName P s)) = sanitizeName P s"
  by (simp add: sanitizeName_def sliced_idem)

lemma sliced_of_empty [simp]: "sliced P n (JStr []) = []" "sliced P n JUndef = []"
  by (simp_all add: sliced_def stripText_def cpSlice_def trim_def)

lemma emo_idem [simp]: "platform_ok P \<Longrightarrow> emo P (JStr (emo P v)) = emo P v"
proof -
  assume ok: "platform_ok P"
  have [simp]: "trim [] = []" by (simp add: trim_def)
  have "emoji_at P [] = None" using ok by (simp add: platform_ok_def)
  then have e: "emo P (JStr []) = []" by (simp add: emo_def)
  show ?thesis
  proof (cases "emo P v = []")
    case False
    then obtain s m where v: "v = JStr s" "emoji_at P (trim s) = Some m" "length m \<le> 12"
      by (auto simp: emo_def split: json.splits option.splits if_splits)
    then have "trim m = m" "emoji_at P m = Some m" using ok unfolding platform_ok_def by metis+
    with v show ?thesis by (simp add: emo_def)
  qed (use e in simp)
qed

lemma emo_empty: "platform_ok P \<Longrightarrow> emo P (JStr []) = []"
  by (simp add: emo_def trim_def platform_ok_def)

lemma sanitizeEmoji_emo: "sanitizeEmoji P v = (if emo P v = [] then (case v of JStr s \<Rightarrow> (case emoji_at P (trim s) of
    Some [] \<Rightarrow> [] | _ \<Rightarrow> DEFAULT_EMOJI) | _ \<Rightarrow> DEFAULT_EMOJI) else emo P v)"
  by (auto simp: sanitizeEmoji_def emo_def split: json.splits option.splits list.splits)

lemma sanitizeEmoji_cases:
  "platform_ok P \<Longrightarrow> sanitizeEmoji P v = (if emo P v = [] then DEFAULT_EMOJI else emo P v)"
  by (auto simp: sanitizeEmoji_emo platform_ok_def split: json.splits option.splits list.splits)

lemma DEFAULT_EMOJI_trim: "trim DEFAULT_EMOJI = DEFAULT_EMOJI"
  by (simp add: trim_def DEFAULT_EMOJI_def white_def)

lemma emo_DEFAULT: "platform_ok P \<Longrightarrow> emo P (JStr DEFAULT_EMOJI) = DEFAULT_EMOJI"
  by (simp add: emo_def platform_ok_def DEFAULT_EMOJI_trim) (simp add: DEFAULT_EMOJI_def)

lemma DEFAULT_EMOJI_ne: "DEFAULT_EMOJI \<noteq> []" by (simp add: DEFAULT_EMOJI_def)

lemma sanitizeEmoji_idem [simp]: "platform_ok P \<Longrightarrow> sanitizeEmoji P (JStr (sanitizeEmoji P v)) = sanitizeEmoji P v"
  by (simp add: sanitizeEmoji_cases emo_DEFAULT DEFAULT_EMOJI_ne)

lemma js_Duell_title: "js ''Duell'' \<noteq> []" by simp

lemma sanitizeTitle_idem:
  assumes "platform_ok P" "sliced P MAX_TITLE (JStr (js ''Duell'')) \<in> {[], js ''Duell''}"
  shows "sanitizeTitle P (JStr (sanitizeTitle P s)) = sanitizeTitle P s"
  using assms sliced_idem [OF assms(1), of MAX_TITLE s] unfolding sanitizeTitle_def Let_def by auto

section \<open>Numbers\<close>

lemma round_half_int [simp]: "round_half (of_int n) = n"
  unfolding round_half_def by (simp add: floor_eq_iff)

lemma round_half_mono: "r \<le> q \<Longrightarrow> round_half r \<le> round_half q"
  unfolding round_half_def by (intro floor_mono) simp

lemma clampOr_between: "lo \<le> hi \<Longrightarrow> lo \<le> d \<Longrightarrow> d \<le> hi \<Longrightarrow> lo \<le> clampOr P v lo hi d \<and> clampOr P v lo hi d \<le> hi"
  by (auto simp: clampOr_def clampNum_def split: option.splits)

lemma clampOr_inside: "lo \<le> of_int n \<Longrightarrow> of_int n \<le> hi \<Longrightarrow> clampOr P (JInt n) lo hi d = of_int n"
  by (simp add: clampOr_def clampNum_def)

lemma round_clamp_between:
  assumes "lo \<le> d" "d \<le> hi"
  shows "lo \<le> round_half (clampOr P v (of_int lo) (of_int hi) (of_int d)) \<and>
    round_half (clampOr P v (of_int lo) (of_int hi) (of_int d)) \<le> hi"
proof -
  have "of_int lo \<le> clampOr P v (of_int lo) (of_int hi) (of_int d) \<and> clampOr P v (of_int lo) (of_int hi) (of_int d) \<le> of_int hi"
    using assms by (intro clampOr_between) simp_all
  then show ?thesis using round_half_mono round_half_int by metis
qed

lemma round_clamp_again:
  assumes "lo \<le> n" "n \<le> hi" shows "round_half (clampOr P (JInt n) (of_int lo) (of_int hi) d) = n"
  using assms by (simp add: clampOr_inside)

definition ranges_kept :: "params \<Rightarrow> bool" where
  "ranges_kept ps \<longleftrightarrow> (\<exists>a b c d. ps = [(''gravity'', a), (''jump'', b), (''gap'', c), (''speed'', d)] \<and>
     900 \<le> a \<and> a \<le> 2600 \<and> 280 \<le> b \<and> b \<le> 620 \<and> 90 \<le> c \<and> c \<le> 200 \<and> 90 \<le> d \<and> d \<le> 260)"

lemma sanitizeParams_in_ranges: "ranges_kept (sanitizeParams P p)"
proof -
  let ?c = "\<lambda>k lo hi d. round_half (clampOr P (param_value p k) (of_int lo) (of_int hi) (of_int d))"
  have "900 \<le> ?c ''gravity'' 900 2600 1800 \<and> ?c ''gravity'' 900 2600 1800 \<le> 2600"
    "280 \<le> ?c ''jump'' 280 620 430 \<and> ?c ''jump'' 280 620 430 \<le> 620"
    "90 \<le> ?c ''gap'' 90 200 140 \<and> ?c ''gap'' 90 200 140 \<le> 200"
    "90 \<le> ?c ''speed'' 90 260 130 \<and> ?c ''speed'' 90 260 130 \<le> 260"
    by (rule round_clamp_between; simp)+
  then show ?thesis unfolding ranges_kept_def sanitizeParams_def RANGES_def list.map prod.case by blast
qed

lemma field_params: "field (params_json ps) k = (case map_of ps k of Some n \<Rightarrow> JInt n | None \<Rightarrow> JUndef)"
proof -
  have "map_of (map (\<lambda>(k, n). (k, JInt n)) ps) k = map_option JInt (map_of ps k)" by (induction ps) auto
  then show ?thesis by (simp add: params_json_def split: option.splits)
qed

lemma sanitizeParams_keeps: "ranges_kept ps \<Longrightarrow> sanitizeParams P (params_json ps) = ps"
proof -
  assume "ranges_kept ps"
  then obtain a b c d where ps: "ps = [(''gravity'', a), (''jump'', b), (''gap'', c), (''speed'', d)]"
    and r: "900 \<le> a" "a \<le> 2600" "280 \<le> b" "b \<le> 620" "90 \<le> c" "c \<le> 200" "90 \<le> d" "d \<le> 260"
    unfolding ranges_kept_def by blast
  have "param_value (params_json ps) ''gravity'' = JInt a" "param_value (params_json ps) ''jump'' = JInt b"
    "param_value (params_json ps) ''gap'' = JInt c" "param_value (params_json ps) ''speed'' = JInt d"
    by (simp_all add: param_value_def field_params ps)
  moreover have "round_half (clampOr P (JInt a) (of_int 900) (of_int 2600) (of_int 1800)) = a"
    "round_half (clampOr P (JInt b) (of_int 280) (of_int 620) (of_int 430)) = b"
    "round_half (clampOr P (JInt c) (of_int 90) (of_int 200) (of_int 140)) = c"
    "round_half (clampOr P (JInt d) (of_int 90) (of_int 260) (of_int 130)) = d"
    using r by (simp_all only: round_clamp_again)
  ultimately show ?thesis unfolding sanitizeParams_def RANGES_def list.map prod.case ps by metis
qed

lemma sanitizeParams_idem [simp]: "sanitizeParams P (params_json (sanitizeParams P p)) = sanitizeParams P p"
  by (rule sanitizeParams_keeps [OF sanitizeParams_in_ranges])

lemma sanitizeTheme_idem [simp]: "sanitizeTheme (sanitizeTheme t) = sanitizeTheme t"
  by (simp add: sanitizeTheme_def one_of_def THEME_NAMES_def)

lemma sanitizeSeed_idem [simp]: "sanitizeSeed P (JInt (sanitizeSeed P v)) = sanitizeSeed P v"
proof -
  have "0 \<le> sanitizeSeed P v" "sanitizeSeed P v \<le> 4294967295"
    using pos_mod_bound [of "2 ^ 32" "\<lfloor>clampOr P v 0 4294967295 1\<rfloor>"] by (simp_all add: sanitizeSeed_def)
  then have "clampOr P (JInt (sanitizeSeed P v)) 0 4294967295 1 = of_int (sanitizeSeed P v)"
    by (intro clampOr_inside) (simp, metis of_int_le_iff of_int_numeral)
  then show ?thesis by (simp add: sanitizeSeed_def [of P "JInt _"]) (simp add: sanitizeSeed_def)
qed

section \<open>Colours and look\<close>

lemma hex_char_low: "hex_char c \<Longrightarrow> low_case c = c"
  by (auto simp: hex_char_def low_case_def)

lemma low_case_idem [simp]: "low_case (low_case c) = low_case c"
  by (auto simp: low_case_def)

lemma low_case_comp: "low_case \<circ> low_case = low_case" by (simp add: fun_eq_iff)

lemma hex_colour_hex: "hex_colour v \<noteq> [] \<Longrightarrow> is_hex6 (hex_colour v) \<and> map low_case (hex_colour v) = hex_colour v"
  by (cases v) (auto simp: hex_colour_def low_case_comp split: if_splits)

lemma hex_colour_keeps: "is_hex6 c \<Longrightarrow> hex_colour (JStr c) = c"
proof -
  assume h: "is_hex6 c"
  then obtain d ds where c: "c = d # ds" by (cases c) (auto simp: is_hex6_def)
  have "map low_case ds = ds" using h c by (auto simp: is_hex6_def list_all_iff hex_char_low intro: map_idI)
  moreover have "low_case 35 = 35" by (simp add: low_case_def)
  ultimately have "map low_case c = c" using h c by (simp add: is_hex6_def)
  with h show ?thesis by (simp add: hex_colour_def)
qed

lemma hex_colour_again: "hex_colour v \<noteq> [] \<Longrightarrow> hex_colour (JStr (hex_colour v)) = hex_colour v"
  using hex_colour_hex hex_colour_keeps by blast

lemma hex_colour_absent [simp]: "hex_colour JUndef = []" by (simp add: hex_colour_def)

definition dark :: jstring where "dark = js ''#1f1f2e''"
definition bright :: jstring where "bright = js ''#f2f2f2''"

lemma dark_bright:
  "is_hex6 dark" "is_hex6 bright" "light dark = 3265 / 25500" "light bright = 242 / 255" "dark \<noteq> []" "bright \<noteq> []"
  by (simp_all add: dark_def bright_def is_hex6_def hex_char_def light_def hex_digit_value_def)

lemma obstacle_fold: "obstacle a b p = (if a = [] \<or> p = [] then p
     else let sky = (light a + light (if b \<noteq> [] then b else a)) / 2
          in if \<bar>sky - light p\<bar> < 18 / 100 then (if sky > 1 / 2 then dark else bright) else p)"
  by (simp only: obstacle_def dark_def bright_def)

lemma obstacle_idem: "obstacle a b (obstacle a b p) = obstacle a b p"
  using dark_bright(3,4) unfolding obstacle_fold Let_def by (auto simp: abs_if field_simps split: if_splits)

lemma obstacle_nil: "obstacle a b p = [] \<longleftrightarrow> p = []"
  using dark_bright unfolding obstacle_fold by (auto simp: Let_def)

lemma obstacle_hex: "is_hex6 p \<Longrightarrow> is_hex6 (obstacle a b p)"
  using dark_bright unfolding obstacle_fold by (auto simp: Let_def)

lemma map_of_opt: "map_of (opt b k v @ r) j = (if b \<and> j = k then Some v else map_of r j)"
  by (simp add: opt_def)

lemma map_of_opt1: "map_of (opt b k v) j = (if b \<and> j = k then Some v else None)"
  by (simp add: opt_def)

lemma one_of_absent [simp]: "\<not> one_of xs JUndef" by (simp add: one_of_def)

text \<open>The look as a function of its cleaned members.\<close>

definition look_of :: "jstring \<Rightarrow> jstring \<Rightarrow> jstring \<Rightarrow> jstring \<Rightarrow> jstring \<Rightarrow> jstring \<Rightarrow> json \<Rightarrow> json \<Rightarrow> jstring list \<Rightarrow>
    jstring \<Rightarrow> jstring \<Rightarrow> (string \<times> json) list" where
  "look_of a b p q g h d f e ob m =
     opt (a \<noteq> []) ''a'' (JStr a) @ opt (b \<noteq> []) ''b'' (JStr b) @ opt (p \<noteq> []) ''p'' (JStr p) @ opt (q \<noteq> []) ''q'' (JStr q) @
     opt (g \<noteq> []) ''g'' (JStr g) @ opt (h \<noteq> []) ''h'' (JStr h) @ opt (one_of DECOS d) ''d'' d @
     opt (one_of FORMS f \<and> \<not> (f = JStr (js ''emoji'') \<and> ob = [])) ''f'' f @
     opt (e \<noteq> []) ''e'' (JArr (map JStr e)) @ opt (ob \<noteq> []) ''o'' (JStr ob) @ opt (m \<noteq> []) ''m'' (JStr m)"

lemma look_entries_of:
  "look_entries P v = look_of (hex_colour (field v ''a'')) (hex_colour (field v ''b''))
     (obstacle (hex_colour (field v ''a'')) (hex_colour (field v ''b'')) (hex_colour (field v ''p'')))
     (hex_colour (field v ''q'')) (hex_colour (field v ''g'')) (hex_colour (field v ''h'')) (field v ''d'') (field v ''f'')
     (take 3 (filter (\<lambda>x. x \<noteq> []) (map (emo P) (elements (field v ''e''))))) (emo P (field v ''o'')) (emo P (field v ''m''))"
  unfolding look_entries_def look_of_def Let_def by (rule refl)

lemma look_of_fields:
  fixes a b p q g h d f e ob m
  defines "v \<equiv> jobj (look_of a b p q g h d f e ob m)"
  shows "field v ''a'' = (if a \<noteq> [] then JStr a else JUndef)" "field v ''b'' = (if b \<noteq> [] then JStr b else JUndef)"
    "field v ''p'' = (if p \<noteq> [] then JStr p else JUndef)" "field v ''q'' = (if q \<noteq> [] then JStr q else JUndef)"
    "field v ''g'' = (if g \<noteq> [] then JStr g else JUndef)" "field v ''h'' = (if h \<noteq> [] then JStr h else JUndef)"
    "field v ''d'' = (if one_of DECOS d then d else JUndef)"
    "field v ''f'' = (if one_of FORMS f \<and> \<not> (f = JStr (js ''emoji'') \<and> ob = []) then f else JUndef)"
    "field v ''e'' = (if e \<noteq> [] then JArr (map JStr e) else JUndef)"
    "field v ''o'' = (if ob \<noteq> [] then JStr ob else JUndef)" "field v ''m'' = (if m \<noteq> [] then JStr m else JUndef)"
  unfolding v_def look_of_def field_jobj by (simp_all add: map_of_opt map_of_opt1 del: js_Cons map_of_append)

lemma emo_absent [simp]: "emo P JUndef = []" by (simp add: emo_def)

lemma emo_list_again:
  assumes "platform_ok P"
  shows "take 3 (filter (\<lambda>x. x \<noteq> []) (map (emo P) (map JStr (take 3 (filter (\<lambda>x. x \<noteq> []) (map (emo P) xs))))))
    = take 3 (filter (\<lambda>x. x \<noteq> []) (map (emo P) xs))" (is "_ = ?ys")
proof -
  have "emo P (JStr y) = y \<and> y \<noteq> []" if "y \<in> set ?ys" for y
  proof -
    have "y \<in> set (map (emo P) xs)" "y \<noteq> []" using in_set_takeD [OF that] by simp_all
    then obtain x where "y = emo P x" by (simp only: set_map) blast
    with assms \<open>y \<noteq> []\<close> show ?thesis by simp
  qed
  then have "\<forall>y \<in> set ?ys. emo P (JStr y) = y" and ne: "\<forall>y \<in> set ?ys. y \<noteq> []" by blast+
  then have "map (emo P \<circ> JStr) ?ys = ?ys" by (intro map_idI) (simp only: comp_apply)
  moreover have "filter (\<lambda>x. x \<noteq> []) ?ys = ?ys" using ne by (simp only: filter_id_conv)
  ultimately have "map (emo P) (map JStr ?ys) = ?ys" "filter (\<lambda>x. x \<noteq> []) ?ys = ?ys" by (simp_all only: map_map)
  then show ?thesis by (simp only: take_take min.idem)
qed

lemma hex_colour_if: "hex_colour (if hex_colour w \<noteq> [] then JStr (hex_colour w) else JUndef) = hex_colour w"
  using hex_colour_again by simp

lemma emo_if: "platform_ok P \<Longrightarrow> emo P (if emo P w \<noteq> [] then JStr (emo P w) else JUndef) = emo P w"
  by simp

lemma hex_obstacle_if:
  fixes w a b defines "o' \<equiv> obstacle a b (hex_colour w)"
  shows "hex_colour (if o' \<noteq> [] then JStr o' else JUndef) = o'"
proof (cases "hex_colour w = []")
  case True
  then show ?thesis by (simp add: o'_def obstacle_def)
next
  case False
  then have "is_hex6 o'" "o' \<noteq> []" using obstacle_hex hex_colour_hex by (auto simp: o'_def obstacle_nil)
  then show ?thesis by (simp add: hex_colour_keeps)
qed

lemma elements_if: "elements (if e \<noteq> [] then JArr (map JStr e) else JUndef) = map JStr e" by simp

lemma look_of_cond: "look_of a b p q g h (if one_of DECOS d then d else JUndef)
    (if one_of FORMS f \<and> \<not> (f = JStr (js ''emoji'') \<and> ob = []) then f else JUndef) e ob m = look_of a b p q g h d f e ob m"
  unfolding look_of_def
  by (cases "one_of DECOS d"; cases "one_of FORMS f"; cases "f = JStr (js ''emoji'') \<and> ob = []") (simp_all add: opt_def del: js_Cons)

lemma look_entries_idem: "platform_ok P \<Longrightarrow> look_entries P (jobj (look_entries P v)) = look_entries P v"
  unfolding look_entries_of [of P v]
  by (subst look_entries_of)
    (simp only: look_of_fields hex_colour_if hex_obstacle_if obstacle_idem emo_if elements_if emo_list_again look_of_cond)

lemma sanitizeLook_idem: "platform_ok P \<Longrightarrow> sanitizeLook P v = Some w \<Longrightarrow> sanitizeLook P w = Some w"
  using look_entries_idem [of P v]
  by (auto simp: sanitizeLook_def Let_def jobj_def split: json.splits if_splits)

section \<open>Route and marks\<close>

definition deltas_ok :: "params \<Rightarrow> bool" where
  "deltas_ok ds \<longleftrightarrow> (\<exists>a b c d. ds = filter (\<lambda>(k, v). v \<noteq> 0) [(''gravity'', a), (''jump'', b), (''gap'', c), (''speed'', d)] \<and>
     \<bar>a\<bar> \<le> 800 \<and> \<bar>b\<bar> \<le> 120 \<and> \<bar>c\<bar> \<le> 60 \<and> \<bar>d\<bar> \<le> 80)"

lemma round_clamp_abs: "0 \<le> m \<Longrightarrow> \<bar>round_half (clampOr P v (of_int (- m)) (of_int m) (of_int 0))\<bar> \<le> m"
proof -
  assume "0 \<le> m"
  then have "- m \<le> round_half (clampOr P v (of_int (- m)) (of_int m) (of_int 0)) \<and>
      round_half (clampOr P v (of_int (- m)) (of_int m) (of_int 0)) \<le> m"
    by (intro round_clamp_between) simp_all
  then show ?thesis by (intro abs_leI) linarith+
qed

lemma deltas_are_ok: "deltas_ok (deltas P src)"
proof -
  let ?c = "\<lambda>k m. round_half (clampOr P (delta_value src k) (of_int (- m)) (of_int m) (of_int 0))"
  have "\<bar>?c ''gravity'' 800\<bar> \<le> 800" "\<bar>?c ''jump'' 120\<bar> \<le> 120" "\<bar>?c ''gap'' 60\<bar> \<le> 60" "\<bar>?c ''speed'' 80\<bar> \<le> 80"
    by (rule round_clamp_abs; simp)+
  moreover have "deltas P src = filter (\<lambda>(k, v). v \<noteq> 0)
      [(''gravity'', ?c ''gravity'' 800), (''jump'', ?c ''jump'' 120), (''gap'', ?c ''gap'' 60), (''speed'', ?c ''speed'' 80)]"
    by (simp only: deltas_def DELTA_MAX_def list.map prod.case of_int_0)
  ultimately show ?thesis unfolding deltas_ok_def by blast
qed

lemma delta_value_params:
  "delta_value (params_json ds) k = (case map_of ds k of Some n \<Rightarrow> JInt n | None \<Rightarrow>
     (case map_of ds (case map_of ALIAS k of Some a \<Rightarrow> a | None \<Rightarrow> ''undefined'') of Some n \<Rightarrow> JInt n | None \<Rightarrow> JUndef))"
  by (simp add: delta_value_def field_params split: option.splits)

lemma round_clamp_delta:
  assumes "\<bar>n\<bar> \<le> m" shows "round_half (clampOr P (if n = 0 then JUndef else JInt n) (of_int (- m)) (of_int m) 0) = n"
proof (cases "n = 0")
  case True
  then show ?thesis using round_half_int [of 0] by (simp add: clampOr_def clampNum_def)
next
  case False
  moreover have "- m \<le> n" "n \<le> m" using assms by linarith+
  ultimately show ?thesis using round_clamp_again [of "- m" n m P 0] by simp
qed

lemma deltas_keep: "deltas_ok ds \<Longrightarrow> deltas P (params_json ds) = ds"
proof -
  assume "deltas_ok ds"
  then obtain a b c d where ds: "ds = filter (\<lambda>(k, v). v \<noteq> 0) [(''gravity'', a), (''jump'', b), (''gap'', c), (''speed'', d)]"
    and r: "\<bar>a\<bar> \<le> 800" "\<bar>b\<bar> \<le> 120" "\<bar>c\<bar> \<le> 60" "\<bar>d\<bar> \<le> 80" unfolding deltas_ok_def by blast
  let ?j = "params_json ds"
  have v: "delta_value ?j ''gravity'' = (if a = 0 then JUndef else JInt a)" "delta_value ?j ''jump'' = (if b = 0 then JUndef else JInt b)"
    "delta_value ?j ''gap'' = (if c = 0 then JUndef else JInt c)" "delta_value ?j ''speed'' = (if d = 0 then JUndef else JInt d)"
    by (simp_all add: delta_value_params ds ALIAS_def)
  show ?thesis unfolding deltas_def DELTA_MAX_def list.map prod.case v
    by (simp only: round_clamp_delta [OF r(1)] round_clamp_delta [OF r(2)] round_clamp_delta [OF r(3)] round_clamp_delta [OF r(4)] ds)
qed

definition leg_ok :: "platform \<Rightarrow> leg \<Rightarrow> bool" where
  "leg_ok P s \<longleftrightarrow> l_p s \<in> js ` set STEPS \<and> deltas_ok (l_d s) \<and> l_t s \<in> js ` set THEME_NAMES \<and> l_e s \<noteq> [] \<and> emo P (JStr (l_e s)) = l_e s"

lemma read_leg_ok: "platform_ok P \<Longrightarrow> read_leg P v = Some s \<Longrightarrow> leg_ok P s"
proof -
  assume ok: "platform_ok P" and s: "read_leg P v = Some s"
  have n: "js ''normal'' \<in> js ` set STEPS" unfolding STEPS_def by (simp del: js_Cons)
  have st: "string_of P w \<in> js ` set STEPS" if "one_of STEPS w" for w
    using that by (auto simp: one_of_def split: json.splits)
  from s show ?thesis using n st deltas_are_ok ok
    by (auto simp: read_leg_def Let_def leg_ok_def one_of_def [of THEME_NAMES] split: json.splits if_splits)
qed

lemma leg_fields:
  "field (leg_json s) ''p'' = JStr (l_p s)" "field (leg_json s) ''d'' = params_json (l_d s)"
  "field (leg_json s) ''t'' = JStr (l_t s)" "field (leg_json s) ''e'' = JStr (l_e s)"
  by (simp_all add: leg_json_def)

lemma read_leg_again: "leg_ok P s \<Longrightarrow> read_leg P (leg_json s) = Some s"
proof -
  assume ok: "leg_ok P s"
  have ne: "x \<noteq> []" if "x \<in> js ` set xs" "[] \<notin> set xs" for x xs
    using that by (auto simp: js_def)
  have no_empty: "[] \<notin> set STEPS" "[] \<notin> set THEME_NAMES" by (simp_all add: STEPS_def THEME_NAMES_def)
  have "l_p s \<noteq> []" "l_t s \<noteq> []"
    using ok unfolding leg_ok_def by (metis ne no_empty)+
  moreover have "truthy (params_json (l_d s))" by (simp add: params_json_def)
  moreover have "deltas P (params_json (l_d s)) = l_d s" using ok deltas_keep by (simp add: leg_ok_def)
  moreover have "one_of THEME_NAMES (JStr (l_t s))" "one_of STEPS (JStr (l_p s))" "emo P (JStr (l_e s)) = l_e s" "l_e s \<noteq> []"
    using ok unfolding leg_ok_def one_of_def json.case by blast+
  ultimately show ?thesis unfolding read_leg_def Let_def leg_fields either_of_def
    by (simp only: truthy.simps simp_thms if_True json.case string_of.simps) simp
qed

lemma sanitizeRoute_again: "platform_ok P \<Longrightarrow> sanitizeRoute P v = Some r \<Longrightarrow> sanitizeRoute P (route_json r) = Some r"
proof -
  assume ok: "platform_ok P" and "sanitizeRoute P v = Some r"
  then obtain xs where xs: "length xs = SECTIONS" "those (map (read_leg P) xs) = Some r"
    by (auto simp: sanitizeRoute_def split: json.splits if_splits)
  have "length r = length xs \<and> those (map (read_leg P) (map leg_json r)) = Some r" using xs(2)
  proof (induction xs arbitrary: r)
    case (Cons x xs)
    then obtain s r' where r: "r = s # r'" "read_leg P x = Some s" "those (map (read_leg P) xs) = Some r'"
      by (auto split: option.splits)
    with Cons.IH [OF r(3)] read_leg_again [OF read_leg_ok [OF ok r(2)]] show ?case by simp
  qed simp
  with xs(1) show ?thesis by (simp add: sanitizeRoute_def route_json_def)
qed

lemma sanitizeSkin_again: "platform_ok P \<Longrightarrow> sanitizeSkin P v = Some w \<Longrightarrow> sanitizeSkin P w = Some w"
proof -
  assume ok: "platform_ok P" and w: "sanitizeSkin P v = Some w"
  let ?l = "sliced P 60 (field v ''l'')"
  obtain a b where ab: "is_hex6 (map low_case a)" "is_hex6 (map low_case b)"
    "w = jobj ([(''c'', JArr [JStr a, JStr b])] @ opt (?l \<noteq> []) ''l'' (JStr ?l))"
    using w by (auto simp: sanitizeSkin_def Let_def split: json.splits list.splits if_splits)
  have "field w ''c'' = JArr [JStr a, JStr b]" "field w ''l'' = (if ?l \<noteq> [] then JStr ?l else JUndef)"
    unfolding ab(3) field_jobj by (simp_all add: map_of_opt1 del: js_Cons)
  moreover have "sliced P 60 (if ?l \<noteq> [] then JStr ?l else JUndef) = ?l" using sliced_idem [OF ok] by simp
  ultimately show ?thesis unfolding sanitizeSkin_def Let_def using ab by (simp only: json.case list.case simp_thms if_True)
qed

lemma sanitizeKiMark_again: "sanitizeKiMark v = Some w \<Longrightarrow> sanitizeKiMark w = Some w"
proof -
  assume w: "sanitizeKiMark v = Some w"
  let ?h = "field v ''h''"
  have e: "is_seal (field v ''s'')"
    "w = jobj ([(''k'', JStr (js ''welt'')), (''s'', field v ''s'')] @ opt (is_hash43 ?h) ''h'' ?h)"
    using w by (auto simp: sanitizeKiMark_def split: if_splits simp del: js_Cons)
  have n: "\<not> is_hash43 JUndef" by (simp add: is_hash43_def)
  have "field w ''k'' = JStr (js ''welt'')" "field w ''s'' = field v ''s''" "field w ''h'' = (if is_hash43 ?h then ?h else JUndef)"
    unfolding e(2) field_jobj by (simp_all add: map_of_opt1 del: js_Cons)
  then show ?thesis unfolding sanitizeKiMark_def using e n by (cases "is_hash43 ?h") (simp_all add: opt_def del: js_Cons)
qed

section \<open>The whole state\<close>

lemma map_of_opt_json: "map_of (opt_json k w @ r) j = (if j = k \<and> w \<noteq> None then w else map_of r j)"
  by (cases w) (auto simp: opt_json_def)

lemma sanitizeState_fields:
  assumes "sanitizeState P v = Some w"
  shows "field w ''v'' = JInt 1" "field w ''seed'' = JInt (sanitizeSeed P (field v ''seed''))"
    "field w ''params'' = params_json (sanitizeParams P (field v ''params''))" "field w ''theme'' = sanitizeTheme (field v ''theme'')"
    "field w ''title'' = JStr (sanitizeTitle P (field v ''title''))" "field w ''emoji'' = JStr (sanitizeEmoji P (field v ''emoji''))"
    "field w ''skin'' = (case sanitizeSkin P (field v ''skin'') of Some x \<Rightarrow> x | None \<Rightarrow> JUndef)"
    "field w ''look'' = (case sanitizeLook P (field v ''look'') of Some x \<Rightarrow> x | None \<Rightarrow> JUndef)"
    "field w ''route'' = (case sanitizeRoute P (field v ''route'') of Some x \<Rightarrow> route_json x | None \<Rightarrow> JUndef)"
    "field w ''ki'' = (case sanitizeKiMark (field v ''ki'') of Some x \<Rightarrow> x | None \<Rightarrow> JUndef)"
    "field w ''score'' = (case clampNum P (field v ''score'') 0 MAX_SCORE of Some r \<Rightarrow> JInt \<lfloor>r\<rfloor> | None \<Rightarrow> JUndef)"
    "field w ''name'' = (let nm = sanitizeName P (field v ''name'') in if nm \<noteq> [] then JStr nm else JUndef)"
proof -
  have w: "w = jobj (
       [(''v'', JInt 1), (''seed'', JInt (sanitizeSeed P (field v ''seed''))),
        (''params'', params_json (sanitizeParams P (field v ''params''))), (''theme'', sanitizeTheme (field v ''theme'')),
        (''title'', JStr (sanitizeTitle P (field v ''title''))), (''emoji'', JStr (sanitizeEmoji P (field v ''emoji'')))] @
       opt_json ''skin'' (sanitizeSkin P (field v ''skin'')) @
       opt_json ''look'' (sanitizeLook P (field v ''look'')) @
       opt_json ''route'' (map_option route_json (sanitizeRoute P (field v ''route''))) @
       opt_json ''ki'' (sanitizeKiMark (field v ''ki'')) @
       opt_json ''score'' (map_option (\<lambda>r. JInt \<lfloor>r\<rfloor>) (clampNum P (field v ''score'') 0 MAX_SCORE)) @
       (let nm = sanitizeName P (field v ''name'') in opt (nm \<noteq> []) ''name'' (JStr nm)))"
    using assms unfolding sanitizeState_def
    by (cases v) (simp_all only: json.case option.inject option.distinct split: if_splits)
  show "field w ''v'' = JInt 1" "field w ''seed'' = JInt (sanitizeSeed P (field v ''seed''))"
    "field w ''params'' = params_json (sanitizeParams P (field v ''params''))" "field w ''theme'' = sanitizeTheme (field v ''theme'')"
    "field w ''title'' = JStr (sanitizeTitle P (field v ''title''))" "field w ''emoji'' = JStr (sanitizeEmoji P (field v ''emoji''))"
    "field w ''skin'' = (case sanitizeSkin P (field v ''skin'') of Some x \<Rightarrow> x | None \<Rightarrow> JUndef)"
    "field w ''look'' = (case sanitizeLook P (field v ''look'') of Some x \<Rightarrow> x | None \<Rightarrow> JUndef)"
    "field w ''route'' = (case sanitizeRoute P (field v ''route'') of Some x \<Rightarrow> route_json x | None \<Rightarrow> JUndef)"
    "field w ''ki'' = (case sanitizeKiMark (field v ''ki'') of Some x \<Rightarrow> x | None \<Rightarrow> JUndef)"
    "field w ''score'' = (case clampNum P (field v ''score'') 0 MAX_SCORE of Some r \<Rightarrow> JInt \<lfloor>r\<rfloor> | None \<Rightarrow> JUndef)"
    "field w ''name'' = (let nm = sanitizeName P (field v ''name'') in if nm \<noteq> [] then JStr nm else JUndef)"
    unfolding w field_jobj Let_def
    by (simp_all add: map_of_opt_json map_of_opt1 opt_def split: option.splits del: map_of_append)
qed

lemma score_again: "clampNum P v 0 MAX_SCORE = Some r \<Longrightarrow> clampNum P (JInt \<lfloor>r\<rfloor>) 0 MAX_SCORE = Some (of_int \<lfloor>r\<rfloor>)"
proof -
  assume "clampNum P v 0 MAX_SCORE = Some r"
  then have r: "0 \<le> r" "r \<le> MAX_SCORE" by (auto simp: clampNum_def MAX_SCORE_def)
  have "(0 :: rat) \<le> of_int \<lfloor>r\<rfloor>" using r(1) zero_le_floor [of r] by (simp only: of_int_0_le_iff)
  moreover have "of_int \<lfloor>r\<rfloor> \<le> MAX_SCORE" using of_int_floor_le [of r] r(2) by (rule order_trans)
  ultimately show ?thesis by (simp add: clampNum_def)
qed

lemma absent_cleaned [simp]:
  "sanitizeSkin P JUndef = None" "sanitizeLook P JUndef = None" "sanitizeRoute P JUndef = None" "sanitizeKiMark JUndef = None"
  "clampNum P JUndef a b = None" "sanitizeName P JUndef = []"
  by (simp_all add: sanitizeSkin_def sanitizeLook_def sanitizeRoute_def sanitizeKiMark_def clampNum_def sanitizeName_def)

text \<open>
  A cleaned game state passes the cleaning unchanged, so the state a device shows is the state the next link carries; the
  fallback title itself has to pass the word filter.
\<close>

theorem state_cleaned_once:
  assumes "platform_ok P" "sliced P MAX_TITLE (JStr (js ''Duell'')) = js ''Duell''" "sanitizeState P v = Some w"
  shows "sanitizeState P w = Some w"
proof -
  note f = sanitizeState_fields [OF assms(3)]
  note again = sanitizeSkin_again [OF assms(1)] sanitizeLook_idem [OF assms(1)] sanitizeRoute_again [OF assms(1)]
    sanitizeKiMark_again score_again sanitizeTitle_idem [OF assms(1)]
  have title: "sanitizeTitle P (JStr (sanitizeTitle P s)) = sanitizeTitle P s" for s
    using assms by (intro sanitizeTitle_idem) simp_all
  obtain kvs where w: "w = JObj kvs"
    using assms(3) by (auto simp: sanitizeState_def Let_def jobj_def split: json.splits if_splits)
  have skin: "sanitizeSkin P (field w ''skin'') = sanitizeSkin P (field v ''skin'')"
    unfolding f by (auto split: option.splits dest: again)
  have look: "sanitizeLook P (field w ''look'') = sanitizeLook P (field v ''look'')"
    unfolding f by (auto split: option.splits dest: again)
  have route: "sanitizeRoute P (field w ''route'') = sanitizeRoute P (field v ''route'')"
    unfolding f by (auto split: option.splits dest: again)
  have ki: "sanitizeKiMark (field w ''ki'') = sanitizeKiMark (field v ''ki'')"
    unfolding f by (auto split: option.splits dest: again)
  have score: "map_option (\<lambda>r. JInt \<lfloor>r\<rfloor>) (clampNum P (field w ''score'') 0 MAX_SCORE)
      = map_option (\<lambda>r. JInt \<lfloor>r\<rfloor>) (clampNum P (field v ''score'') 0 MAX_SCORE)"
    unfolding f by (auto split: option.splits dest: again simp del: finite_number.simps)
  have name: "sanitizeName P (field w ''name'') = sanitizeName P (field v ''name'')"
    unfolding f Let_def using assms(1) by simp
  have "sanitizeState P w = sanitizeState P v"
    using assms(3) unfolding sanitizeState_def w json.case unfolding w [symmetric] skin look route ki score name
    by (simp only: f sanitizeSeed_idem sanitizeParams_idem sanitizeTheme_idem title sanitizeEmoji_idem [OF assms(1)])
      (simp split: json.splits if_splits)
  with assms(3) show ?thesis by simp
qed

text \<open>
  Whatever the base and the step of a route say, the physics every section is played with lies in the ranges of the game:
  gravity 900 to 2600, jump 280 to 620, gap 90 to 200 and speed 90 to 260.
\<close>

theorem sections_stay_playable: "list_all ranges_kept (routeParams P ps r)"
  unfolding routeParams_def list_all_iff sectionParams_def Let_def using sanitizeParams_in_ranges by auto

end
