(* ===== verification/Quiz_Pack.thy ===== *)
theory Quiz_Pack
  imports Rand Sanitize_Ok
begin

text \<open>
  The question packs of \<open>quizpack.js\<close>: what a pack from a link is cut down to, the order of the choices on both phones,
  the end of the estimate slider and the scores. The prompts and lines the games show are not part of this theory.
\<close>

section \<open>Texts and numbers\<close>

definition link_in :: "jstring \<Rightarrow> bool" where   \<comment> \<open>\<open>/https?:|www\.|:\/\//i\<close>\<close>
  "link_in s \<longleftrightarrow> (let t = map low_case s in
     occurs (js ''http:'') t \<or> occurs (js ''https:'') t \<or> occurs (js ''www.'') t \<or> occurs (js ''://'') t)"

text \<open>The text, before it is judged.\<close>

definition marked_out :: "platform \<Rightarrow> json \<Rightarrow> nat \<Rightarrow> jstring" where
  "marked_out P v mx = trim (concat (take mx (code_points (trim (squeeze_white (map (\<lambda>c. if markup c then 32 else c) (string_of P v)))))))"

definition pack_text :: "platform \<Rightarrow> json \<Rightarrow> nat \<Rightarrow> jstring" where
  "pack_text P v mx = (let s = marked_out P v mx in if s \<noteq> [] \<and> isClean (uc P) s \<and> \<not> link_in s then s else [])"

definition fold_answer :: "platform \<Rightarrow> jstring \<Rightarrow> jstring" where
  "fold_answer P s = compatible (uc P) (sharp_s (lowercase (uc P) s))"

definition ZMAX :: int where "ZMAX = 999999"

definition digit :: "nat \<Rightarrow> bool" where "digit c \<longleftrightarrow> 48 \<le> c \<and> c \<le> 57"

fun thousands :: "jstring \<Rightarrow> bool" where   \<comment> \<open>\<open>([. ]\d{3})*$\<close>\<close>
  "thousands [] \<longleftrightarrow> True"
| "thousands (c # x # y # z # r) \<longleftrightarrow> (c = 46 \<or> c = 32) \<and> digit x \<and> digit y \<and> digit z \<and> thousands r"
| "thousands _ \<longleftrightarrow> False"

definition whole :: "jstring \<Rightarrow> int" where
  "whole a = (let s = trim a; d = takeWhile digit s; r = dropWhile digit s
     in if d \<noteq> [] \<and> hd d \<noteq> 48 \<and> (length d \<le> 3 \<and> thousands r \<or> length d \<le> 6 \<and> r = [])
        then let n = foldl (\<lambda>n c. n * 10 + (int c - 48)) 0 (filter digit s) in if 2 \<le> n \<and> n \<le> ZMAX then n else 0
        else 0)"

section \<open>Packs\<close>

datatype row = Ask jstring "jstring list" | Weigh jstring "(jstring \<times> nat) list"

record pack =
  k_t :: jstring
  k_m :: jstring
  k_q :: "row list"
  k_y :: "(jstring \<times> jstring) list"   \<comment> \<open>empty where there is none\<close>
  k_z :: "int list"

definition MAX_Q :: nat where "MAX_Q = 8"
definition MIN_Q :: nat where "MIN_Q = 3"

definition item :: "json list \<Rightarrow> nat \<Rightarrow> json" where
  "item xs i = (if i < length xs then xs ! i else JUndef)"

definition kind_row :: "platform \<Rightarrow> json \<Rightarrow> (jstring \<times> jstring) option" where
  "kind_row P v = (case v of
     JArr y \<Rightarrow> (let a = pack_text P (item y 0) 26; b = pack_text P (item y 1) 90 in if a \<noteq> [] \<and> b \<noteq> [] then Some (a, b) else None)
   | _ \<Rightarrow> None)"

definition weigh_answer :: "platform \<Rightarrow> nat \<Rightarrow> json \<Rightarrow> (jstring \<times> nat) option" where
  "weigh_answer P kinds v = (case v of
     JArr a \<Rightarrow> (case as_integer (item a 1) of
        Some k \<Rightarrow> if 0 \<le> k \<and> k < int kinds \<and> pack_text P (item a 0) 56 \<noteq> [] then Some (pack_text P (item a 0) 56, nat k) else None
      | None \<Rightarrow> None)
   | _ \<Rightarrow> None)"

definition weigh_row :: "platform \<Rightarrow> nat \<Rightarrow> json \<Rightarrow> row option" where
  "weigh_row P kinds v = (case v of
     JArr q \<Rightarrow> (let f = pack_text P (item q 0) 120; as = List.map_filter (weigh_answer P kinds) (take 4 (drop 1 q))
       in if f \<noteq> [] \<and> 2 \<le> length as \<and> distinct (map (fold_answer P \<circ> fst) as) then Some (Weigh f as) else None)
   | _ \<Rightarrow> None)"

definition ask_row :: "platform \<Rightarrow> json \<Rightarrow> row option" where
  "ask_row P v = (case v of
     JArr q \<Rightarrow> (let f = pack_text P (item q 0) 120; as = filter (\<lambda>s. s \<noteq> []) (map (\<lambda>a. pack_text P a 60) (take 4 (drop 1 q)))
       in if f = [] \<or> length as = 2 \<or> length as < 1 \<or> \<not> distinct (map (fold_answer P) as) then None else Some (Ask f as))
   | _ \<Rightarrow> None)"

definition guess_of :: "row \<Rightarrow> json \<Rightarrow> int" where
  "guess_of r n = (case (r, as_integer n) of
     (Ask f (a # as), Some k) \<Rightarrow> if 2 \<le> k \<and> k \<le> ZMAX \<and> whole a = k then k else 0
   | _ \<Rightarrow> 0)"

text \<open>The rows that stay, each with its number.\<close>

definition ask_rows :: "platform \<Rightarrow> json list \<Rightarrow> json list \<Rightarrow> (row \<times> int) list" where
  "ask_rows P qs zs = List.map_filter (\<lambda>(i, v). map_option (\<lambda>r. (r, guess_of r (item zs i))) (ask_row P v))
     (enumerate 0 (take MAX_Q qs))"

definition sanitize_pack :: "platform \<Rightarrow> json \<Rightarrow> pack option" where
  "sanitize_pack P v =
     (let t = pack_text P (field v ''t'') 40; m = field v ''m'' in
      case (m, field v ''q'') of
        (JStr m, JArr qs) \<Rightarrow>
          if m \<notin> {js ''l'', js ''f'', js ''g''} \<or> t = [] then None
          else if m = js ''g'' then
            let y = List.map_filter (kind_row P) (take 4 (elements (field v ''y'')));
                q = List.map_filter (weigh_row P (length y)) (take MAX_Q qs)
            in if length y < 2 \<or> length q < MIN_Q then None else Some \<lparr>k_t = t, k_m = m, k_q = q, k_y = y, k_z = []\<rparr>
          else
            let rows = ask_rows P qs (elements (field v ''z'')); z = map snd rows
            in if length rows < MIN_Q then None
               else Some \<lparr>k_t = t, k_m = m, k_q = map fst rows, k_y = [], k_z = (if \<exists>n \<in> set z. n \<noteq> 0 then z else [])\<rparr>
      | _ \<Rightarrow> None)"

fun row_json :: "row \<Rightarrow> json" where
  "row_json (Ask f as) = JArr (JStr f # map JStr as)"
| "row_json (Weigh f as) = JArr (JStr f # map (\<lambda>(a, k). JArr [JStr a, JInt (int k)]) as)"

definition pack_json :: "pack \<Rightarrow> json" where
  "pack_json p = jobj ([(''t'', JStr (k_t p)), (''m'', JStr (k_m p)), (''q'', JArr (map row_json (k_q p)))] @
     opt (k_y p \<noteq> []) ''y'' (JArr (map (\<lambda>(a, b). JArr [JStr a, JStr b]) (k_y p))) @
     opt (k_z p \<noteq> []) ''z'' (JArr (map JInt (k_z p))))"

section \<open>The order of the choices\<close>

definition mix_pack :: "32 word \<Rightarrow> jstring \<Rightarrow> nat \<Rightarrow> nat list" where
  "mix_pack seed tag n = shuffle_from 1 (n - 1) [0..<n] (hash32 (seed_text ''pk|'' seed tag))"

fun answers_of :: "row \<Rightarrow> jstring list" where
  "answers_of (Ask f as) = as" | "answers_of (Weigh f as) = map fst as"

fun question_of :: "row \<Rightarrow> jstring" where
  "question_of (Ask f as) = f" | "question_of (Weigh f as) = f"

definition choices_at :: "pack \<Rightarrow> 32 word \<Rightarrow> nat \<Rightarrow> jstring list" where
  "choices_at p seed i = (let as = answers_of (k_q p ! i)
     in map (\<lambda>k. as ! k) (mix_pack seed (js ''c'' @ digits i) (length as)))"

definition rightAt :: "pack \<Rightarrow> 32 word \<Rightarrow> nat \<Rightarrow> nat" where
  "rightAt p seed i = index_of (answers_of (k_q p ! i) ! 0) (choices_at p seed i)"

definition others :: "pack \<Rightarrow> 32 word \<Rightarrow> nat \<Rightarrow> nat list" where
  "others p seed i = (let n = length (k_q p); xs = take 2 (filter (\<lambda>k. k \<noteq> i) (mix_pack seed (js ''w'' @ digits i) n))
     in map (\<lambda>k. (i # xs) ! k) (mix_pack seed (js ''wo'' @ digits i) 3))"

definition nums :: "pack \<Rightarrow> nat list" where
  "nums p = filter (\<lambda>i. i < length (k_z p) \<and> k_z p ! i > 0) [0..<length (k_q p)]"

text \<open>The end of the slider; \<open>\<lfloor>log10 v\<rfloor>\<close> is the number of digits less one.\<close>

definition log10_floor :: "int \<Rightarrow> nat" where
  "log10_floor n = length (digits (nat n)) - 1"

definition top_of :: "int \<Rightarrow> 32 word \<Rightarrow> int" where
  "top_of z bits =
     (let v = of_int z / (1 / 5 + 3 / 5 * (of_nat (unat bits) / 2 ^ 32)) :: rat;
          p = (10 :: int) ^ (log10_floor \<lfloor>v\<rfloor> - 1)
      in min (ZMAX * 3) (max (z + 1) (\<lceil>v / of_int p\<rceil> * p)))"

definition top :: "pack \<Rightarrow> 32 word \<Rightarrow> nat \<Rightarrow> int" where
  "top p seed i = top_of (k_z p ! i) (snd (mulberry32 (hash32 (seed_text ''pk|'' seed (js ''z'' @ digits i)))))"

section \<open>Scores\<close>

definition arrow :: jstring where "arrow = [32, 0x2192, 32]"

definition open_line :: "row \<Rightarrow> jstring" where
  "open_line r = question_of r @ arrow @ answers_of r ! 0"

definition hit :: "pack \<Rightarrow> 32 word \<Rightarrow> string \<Rightarrow> nat list \<Rightarrow> nat \<Rightarrow> bool" where
  "hit p seed g a i =
     (if g = ''abfragen'' then a ! (i * 2 + 1) = 0
      else if g = ''woerter'' then others p seed i ! (a ! i) = i
      else a ! i = rightAt p seed i)"

text \<open>\<open>score\<close> of a game with choices (how many, of how many, what is open) and of the estimates (the mean distance).\<close>

definition score :: "pack \<Rightarrow> 32 word \<Rightarrow> string \<Rightarrow> nat list \<Rightarrow> nat \<times> nat \<times> jstring list" where
  "score p seed g a =
     (let n = length (k_q p) in
      (length (filter (hit p seed g a) [0..<n]), n, map (\<lambda>i. open_line (k_q p ! i)) (filter (\<lambda>i. \<not> hit p seed g a i) [0..<n])))"

definition score_off :: "pack \<Rightarrow> int list \<Rightarrow> int \<times> nat" where
  "score_off p a =
     (let is = nums p;
          off = map (\<lambda>(k, i). min 100 (round_half (of_int \<bar>a ! k - k_z p ! i\<bar> / of_int (k_z p ! i) * 100))) (enumerate 0 is)
      in (round_half (of_int (sum_list off) / of_nat (length off)), length off))"

definition typeOf :: "pack \<Rightarrow> 32 word \<Rightarrow> nat list \<Rightarrow> nat" where
  "typeOf p seed a =
     (let picked = map (\<lambda>i. case k_q p ! i of
            Weigh f as \<Rightarrow> snd (as ! (mix_pack seed (js ''t'' @ digits i) (length as) ! (a ! i))) | Ask f as \<Rightarrow> 0) [0..<length (k_q p)];
          c = (\<lambda>k. count_list picked k);
          order = mix_pack seed (js ''ty'') (length (k_y p))
      in foldl (\<lambda>b i. if c i > c b then i else b) (hd order) order)"

definition GAMES_pack :: "string list" where
  "GAMES_pack = [''abfragen'', ''luecke'', ''woerter'', ''schaetzen'', ''quiz'', ''typen'']"

definition fits_pack :: "string \<Rightarrow> pack \<Rightarrow> bool" where
  "fits_pack g p \<longleftrightarrow> g \<in> set GAMES_pack \<and> (if g = ''typen'' then k_m p = js ''g'' else k_m p \<noteq> js ''g'') \<and>
     (g \<noteq> ''schaetzen'' \<or> 3 \<le> length (filter (\<lambda>n. n \<noteq> 0) (k_z p))) \<and>
     (g \<notin> {''luecke'', ''quiz''} \<or> list_all (\<lambda>r. 3 \<le> length (answers_of r)) (k_q p))"

end
