(* ===== verification/Quiz_Pack_Ok.thy ===== *)
theory Quiz_Pack_Ok
  imports Quiz_Pack
begin

text \<open>
  What \<open>quizpack.js\<close> promises: a cleaned pack is cleaned, one choice is the right one on both phones, the estimated number
  lies inside the slider.
\<close>

section \<open>A cleaned pack stays as it is\<close>

lemma pack_text_clean:
  "pack_text P v mx = clean ((uc P)\<lparr>contact := link_in\<rparr>) (string_of P v) mx"
proof -
  have "isClean ((uc P)\<lparr>contact := link_in\<rparr>) t = isClean (uc P) t" for t
    by (simp add: isClean_def foldText_def variant_clean_def)
  then show ?thesis by (simp add: pack_text_def marked_out_def clean_def)
qed

lemma pack_text_idem [simp]: "pack_text P (JStr (pack_text P v mx)) mx = pack_text P v mx"
  by (simp add: pack_text_clean clean_idem)

lemma item_Cons [simp]: "item (x # xs) 0 = x" "item (x # xs) (Suc i) = item xs i"
  by (simp_all add: item_def)

lemma kind_row_again: "kind_row P v = Some (a, b) \<Longrightarrow> kind_row P (JArr [JStr a, JStr b]) = Some (a, b)"
  by (auto simp: kind_row_def Let_def split: json.splits if_splits)

lemma weigh_answer_again:
  "weigh_answer P n v = Some (a, k) \<Longrightarrow> weigh_answer P n (JArr [JStr a, JInt (int k)]) = Some (a, k)"
  by (auto simp: weigh_answer_def split: json.splits option.splits if_splits)

lemma map_filter_again:
  assumes "\<And>v x. f v = Some x \<Longrightarrow> f (g x) = Some x"
  shows "List.map_filter f (map g (List.map_filter f vs)) = List.map_filter f vs"
  by (induction vs) (auto simp: map_filter_simps assms split: option.splits)

lemma map_filter_length: "length (List.map_filter f vs) \<le> length vs"
  by (induction vs) (auto simp: map_filter_simps split: option.splits)

lemma map_filter_member: "x \<in> set (List.map_filter f vs) \<Longrightarrow> \<exists>v \<in> set vs. f v = Some x"
  by (auto simp: map_filter_def)

lemma weigh_row_again: "weigh_row P n v = Some r \<Longrightarrow> weigh_row P n (row_json r) = Some r"
proof -
  assume "weigh_row P n v = Some r"
  then obtain q where v: "v = JArr q"
    and f: "pack_text P (item q 0) 120 \<noteq> []"
    and as: "2 \<le> length (List.map_filter (weigh_answer P n) (take 4 (drop 1 q)))"
      "distinct (map (fold_answer P \<circ> fst) (List.map_filter (weigh_answer P n) (take 4 (drop 1 q))))"
    and r: "r = Weigh (pack_text P (item q 0) 120) (List.map_filter (weigh_answer P n) (take 4 (drop 1 q)))"
    by (auto simp: weigh_row_def Let_def split: json.splits if_splits)
  let ?as = "List.map_filter (weigh_answer P n) (take 4 (drop 1 q))"
  have "length ?as \<le> 4" using map_filter_length [of "weigh_answer P n" "take 4 (drop 1 q)"] by simp
  moreover have "List.map_filter (weigh_answer P n) (map (\<lambda>(a, k). JArr [JStr a, JInt (int k)]) ?as) = ?as"
    by (rule map_filter_again) (auto dest: weigh_answer_again)
  ultimately show ?thesis using f as unfolding r by (simp add: weigh_row_def Let_def)
qed

lemma ask_row_again: "ask_row P v = Some r \<Longrightarrow> ask_row P (row_json r) = Some r"
proof -
  assume a: "ask_row P v = Some r"
  then obtain q where v: "v = JArr q" by (auto simp: ask_row_def split: json.splits)
  define as where "as = filter (\<lambda>s. s \<noteq> []) (map (\<lambda>a. pack_text P a 60) (take 4 (drop 1 q)))"
  have f: "pack_text P (item q 0) 120 \<noteq> []" "length as \<noteq> 2" "as \<noteq> []" "distinct (map (fold_answer P) as)"
      "r = Ask (pack_text P (item q 0) 120) as"
    using a unfolding v ask_row_def Let_def json.case as_def [symmetric] by (simp_all split: if_splits)
  have len: "length as \<le> 4" unfolding as_def using length_filter_le [of "\<lambda>s. s \<noteq> []" "map (\<lambda>a. pack_text P a 60) (take 4 (drop 1 q))"] by simp
  have each: "pack_text P (JStr s) 60 = s \<and> s \<noteq> []" if "s \<in> set as" for s using that unfolding as_def by auto
  then have "map (\<lambda>a. pack_text P a 60) (map JStr as) = as" by (auto intro: map_idI)
  moreover have "filter (\<lambda>s. s \<noteq> []) as = as" using each by (auto simp: filter_id_conv)
  ultimately show ?thesis using f len unfolding f(5) by (simp add: ask_row_def Let_def)
qed

lemma guess_again: "guess_of r (JInt (guess_of r n)) = guess_of r n"
  by (auto simp: guess_of_def split: row.splits list.splits option.splits)

lemma guess_absent [simp]: "guess_of r JUndef = 0"
  by (cases r) (auto simp: guess_of_def split: list.splits)

lemma ask_rows_member: "(r, n) \<in> set (ask_rows P qs zs) \<Longrightarrow> ask_row P (row_json r) = Some r \<and> (\<exists>w. n = guess_of r w)"
  unfolding ask_rows_def by (drule map_filter_member) (auto dest: ask_row_again)

lemma ask_rows_length: "length (ask_rows P qs zs) \<le> MAX_Q"
  unfolding ask_rows_def by (rule order_trans [OF map_filter_length]) simp

lemma map_filter_all: "(\<And>x. x \<in> set xs \<Longrightarrow> f x = Some (h x)) \<Longrightarrow> List.map_filter f xs = map h xs"
  by (induction xs) (auto simp: map_filter_simps)

lemma ask_rows_again:
  fixes P qs zs
  defines "rows \<equiv> ask_rows P qs zs"
  assumes "ws = map JInt (map snd rows) \<or> (ws = [] \<and> (\<forall>n \<in> set (map snd rows). n = 0))"
  shows "ask_rows P (map row_json (map fst rows)) ws = rows"
proof -
  have take: "take MAX_Q (map row_json (map fst rows)) = map row_json (map fst rows)"
    using ask_rows_length [of P qs zs] by (simp add: rows_def)
  have at: "(\<lambda>(i, v). map_option (\<lambda>r. (r, guess_of r (item ws i))) (ask_row P v)) x = Some (rows ! fst x)"
    if x: "x \<in> set (enumerate 0 (map row_json (map fst rows)))" for x
  proof -
    from x obtain i where i: "x = (i, row_json (fst (rows ! i)))" "i < length rows"
      by (intro that [of "fst x"]) (auto simp: in_set_enumerate_eq prod_eq_iff)
    obtain r n where rn: "rows ! i = (r, n)" by (cases "rows ! i")
    then have m: "(r, n) \<in> set (ask_rows P qs zs)" using i(2) nth_mem rows_def by metis
    from ask_rows_member [OF this] obtain w where w: "ask_row P (row_json r) = Some r" "n = guess_of r w" by blast
    have "guess_of r (item ws i) = n" using assms(2)
    proof
      assume "ws = map JInt (map snd rows)"
      then have "item ws i = JInt n" using i(2) rn by (simp add: item_def)
      then show ?thesis using w(2) guess_again by simp
    next
      assume "ws = [] \<and> (\<forall>n \<in> set (map snd rows). n = 0)"
      moreover have "n \<in> set (map snd rows)" using imageI [OF m, of snd] by (simp add: rows_def)
      ultimately have "n = 0" "ws = []" by blast+
      then show ?thesis by (simp add: item_def)
    qed
    with i rn w show ?thesis by simp
  qed
  have "ask_rows P (map row_json (map fst rows)) ws = map (\<lambda>x. rows ! fst x) (enumerate 0 (map row_json (map fst rows)))"
    unfolding ask_rows_def take by (rule map_filter_all) (rule at)
  also have "\<dots> = rows" by (rule nth_equalityI) (simp_all add: nth_enumerate_eq)
  finally show ?thesis .
qed

lemma pack_fields:
  "field (pack_json p) ''t'' = JStr (k_t p)" "field (pack_json p) ''m'' = JStr (k_m p)"
  "field (pack_json p) ''q'' = JArr (map row_json (k_q p))"
  "elements (field (pack_json p) ''y'') = map (\<lambda>(a, b). JArr [JStr a, JStr b]) (k_y p)"
  "elements (field (pack_json p) ''z'') = map JInt (k_z p)"
  unfolding pack_json_def field_jobj by (simp_all add: map_of_opt map_of_opt1 del: map_of_append)

lemma pack_cleaned_again:
  assumes "sanitize_pack P v = Some p"
  shows "sanitize_pack P (pack_json p) = Some p"
proof -
  obtain m qs where q: "field v ''m'' = JStr m" "field v ''q'' = JArr qs"
    using assms by (auto simp: sanitize_pack_def Let_def split: json.splits)
  have common: "m \<in> {js ''l'', js ''f'', js ''g''}" "pack_text P (field v ''t'') 40 \<noteq> []"
    using assms unfolding sanitize_pack_def Let_def q by (simp_all split: if_splits)
  show ?thesis
  proof (cases "m = js ''g''")
    case True
    let ?y = "List.map_filter (kind_row P) (take 4 (elements (field v ''y'')))"
    let ?q = "List.map_filter (weigh_row P (length ?y)) (take MAX_Q qs)"
    have p: "p = \<lparr>k_t = pack_text P (field v ''t'') 40, k_m = m, k_q = ?q, k_y = ?y, k_z = []\<rparr>" "2 \<le> length ?y" "MIN_Q \<le> length ?q"
      using assms True common unfolding sanitize_pack_def Let_def q by (simp_all split: if_splits)
    have "length ?y \<le> 4" "length ?q \<le> MAX_Q"
      using map_filter_length [of "kind_row P" "take 4 (elements (field v ''y''))"]
        map_filter_length [of "weigh_row P (length ?y)" "take MAX_Q qs"] by simp_all
    moreover have "List.map_filter (kind_row P) (map (\<lambda>(a, b). JArr [JStr a, JStr b]) ?y) = ?y"
      by (rule map_filter_again) (auto dest: kind_row_again)
    moreover have "List.map_filter (weigh_row P (length ?y)) (map row_json ?q) = ?q"
      by (rule map_filter_again) (rule weigh_row_again)
    ultimately show ?thesis using p(2,3) common True unfolding sanitize_pack_def Let_def pack_fields
      unfolding p(1) by simp
  next
    case False
    define rows where "rows = ask_rows P qs (elements (field v ''z''))"
    have p: "p = \<lparr>k_t = pack_text P (field v ''t'') 40, k_m = m, k_q = map fst rows, k_y = [],
        k_z = (if \<exists>n \<in> set (map snd rows). n \<noteq> 0 then map snd rows else [])\<rparr>" "MIN_Q \<le> length rows"
      using assms False common unfolding sanitize_pack_def Let_def q rows_def by (auto split: if_splits)
    have again: "ask_rows P (map row_json (k_q p)) (map JInt (k_z p)) = rows"
      unfolding p(1) rows_def pack.simps by (rule ask_rows_again) auto
    have m: "k_m p = m" "k_t p = pack_text P (field v ''t'') 40" by (simp_all add: p(1))
    show ?thesis using p(2) common False unfolding sanitize_pack_def Let_def pack_fields json.case prod.case elements.simps again m
      by (simp only: pack_text_idem simp_thms if_False not_le [symmetric] not_not p(1))
  qed
qed

text \<open>
  What a pack from a link is cut down to passes the cutting unchanged: titles, questions, answers, types and the numbers of the
  estimates, each number still next to its question.
\<close>

theorem pack_cleaned_once:
  assumes "sanitize_pack P v = Some p" shows "sanitize_pack P (pack_json p) = Some p"
  using assms by (rule pack_cleaned_again)

section \<open>One choice is the right one\<close>

lemma mix_pack_mset: "mset (mix_pack seed tag n) = mset [0..<n]"
  by (cases n) (simp_all add: mix_pack_def shuffle_mset)

lemma choices_mset: "mset (choices_at p seed i) = mset (answers_of (k_q p ! i))"
proof -
  let ?as = "answers_of (k_q p ! i)"
  have "mset (choices_at p seed i) = image_mset (\<lambda>k. ?as ! k) (mset [0..<length ?as])"
    by (simp only: choices_at_def Let_def mset_map mix_pack_mset)
  also have "\<dots> = mset (map (\<lambda>k. ?as ! k) [0..<length ?as])" by (simp only: mset_map)
  finally show ?thesis by (simp only: map_nth)
qed

text \<open>
  In a cleaned pack the choices of a question are its answers in another order, and exactly one of them is the right one:
  the place both phones compute for it.
\<close>

theorem one_right_choice:
  assumes "sanitize_pack P v = Some p" "k_m p \<noteq> js ''g''" "i < length (k_q p)" "j < length (choices_at p seed i)"
  shows "mset (choices_at p seed i) = mset (answers_of (k_q p ! i)) \<and>
    (choices_at p seed i ! j = answers_of (k_q p ! i) ! 0 \<longleftrightarrow> j = rightAt p seed i)"
proof -
  let ?r = "k_q p ! i" let ?c = "choices_at p seed i"
  obtain m qs where q: "field v ''m'' = JStr m" "field v ''q'' = JArr qs"
    using assms by (auto simp: sanitize_pack_def Let_def split: json.splits)
  have "k_q p = map fst (ask_rows P qs (elements (field v ''z'')))"
    using assms(1,2) unfolding sanitize_pack_def Let_def q by (auto split: if_splits)
  then have "i < length (ask_rows P qs (elements (field v ''z'')))" "?r = fst (ask_rows P qs (elements (field v ''z'')) ! i)"
    using assms(3) by simp_all
  then have "(?r, snd (ask_rows P qs (elements (field v ''z'')) ! i)) \<in> set (ask_rows P qs (elements (field v ''z'')))"
    using nth_mem by fastforce
  then have "ask_row P (row_json ?r) = Some ?r" by (blast dest: ask_rows_member)
  then have d: "answers_of ?r \<noteq> [] \<and> distinct (map (fold_answer P) (answers_of ?r))"
    by (cases ?r) (auto simp: ask_row_def Let_def split: json.splits if_splits)
  then have "distinct (answers_of ?r)" by (simp add: distinct_map)
  then have dc: "distinct ?c" using choices_mset [of p seed i] by (metis mset_eq_imp_distinct_iff)
  have "answers_of ?r ! 0 \<in> set ?c" using d choices_mset [of p seed i] by (metis length_greater_0_conv nth_mem set_mset_mset)
  then have "?c ! rightAt p seed i = answers_of ?r ! 0" "rightAt p seed i < length ?c"
    by (simp_all add: rightAt_def index_of_nth index_of_less)
  then show ?thesis using dc assms(4) choices_mset [of p seed i] by (simp add: nth_eq_iff_index_eq flip: choices_mset)
      (metis nth_eq_iff_index_eq)
qed

section \<open>The slider\<close>

text \<open>
  The number of an estimate lies inside its slider: above 0, at most four fifths of the way, and the slider ends within what
  an answer may hold.
\<close>

theorem estimate_inside_slider:
  assumes "2 \<le> z" "z \<le> ZMAX"
  shows "z < top_of z bits \<and> 5 * z < 4 * top_of z bits \<and> top_of z bits \<le> ZMAX * 3"
proof -
  define x :: rat where "x = of_nat (unat bits) / 2 ^ 32"
  define v :: rat where "v = of_int z / (1 / 5 + 3 / 5 * x)"
  define p :: int where "p = 10 ^ (log10_floor \<lfloor>v\<rfloor> - 1)"
  have "unat bits < 2 ^ 32" using unsigned_less [of bits] by simp
  then have "of_nat (unat bits) < (2 ^ 32 :: rat)" using of_nat_less_iff [of "unat bits" "2 ^ 32", where 'a = rat] by simp
  then have "x < 1" by (simp add: x_def)
  moreover have "0 \<le> x" unfolding x_def by (intro divide_nonneg_nonneg of_nat_0_le_iff) simp
  ultimately have x: "0 \<le> x" "x < 1" by simp_all
  then have "0 < 1 / 5 + 3 / 5 * x" "1 / 5 + 3 / 5 * x < 4 / 5" by simp_all
  then have "of_int z < 4 / 5 * v" using assms(1) by (simp add: v_def field_simps)
  moreover have "v \<le> of_int (\<lceil>v / of_int p\<rceil> * p)"
  proof -
    have "0 < (of_int p :: rat)" by (simp add: p_def)
    then show ?thesis using le_of_int_ceiling [of "v / of_int p"] by (simp only: pos_divide_le_eq of_int_mult)
  qed
  ultimately have "(of_int (5 * z) :: rat) < of_int (4 * (\<lceil>v / of_int p\<rceil> * p))" by simp
  then have "5 * z < 4 * (\<lceil>v / of_int p\<rceil> * p)" by (simp only: of_int_less_iff)
  moreover have "top_of z bits = min (ZMAX * 3) (max (z + 1) (\<lceil>v / of_int p\<rceil> * p))"
    by (simp only: top_of_def Let_def v_def p_def x_def)
  ultimately show ?thesis using assms by (auto simp: ZMAX_def)
qed

end
