(* ===== verification/Daily_Doc.thy ===== *)
theory Daily_Doc
  imports Quiz_Pack_Ok Turns
begin

text \<open>
  The sheet a link carries, \<open>sanitizeDoc\<close> of \<open>daily.js\<close> with the parts of \<open>duel.js\<close>, \<open>quest.js\<close> and \<open>turns.js\<close>, and what the editor
  does with it: the trail of who changed what, the wall, the person's defaults. A sheet is a JSON object, as in the code. The ids of
  the catalog, the number of sign sets of a duel and the build for adults are the record \<open>catalog\<close>.
\<close>

record catalog =
  idea_ids :: "jstring list"
  sign_sets :: nat
  adult_build :: bool

definition MAX_TEXT :: nat where "MAX_TEXT = 90"
definition MAX_STICKERS :: nat where "MAX_STICKERS = 8"
definition MAX_TRAIL :: nat where "MAX_TRAIL = 5"
definition MAX_WALL :: nat where "MAX_WALL = 30"
definition MAX_THUMB :: nat where "MAX_THUMB = 60000"

definition KINDS :: "string list" where
  "KINDS = [''game'', ''photo'', ''sound'', ''card'', ''duel'', ''quest'', ''turn'', ''table'']"

definition CARD_STYLES :: "string list" where
  "CARD_STYLES = [''druck'', ''zettel'', ''stempel'', ''neon'', ''herz'', ''advent'']"

definition PHOTO_STYLES :: "string list" where
  "PHOTO_STYLES = [''poster'', ''sticker'', ''meme'', ''glitch'']"

definition FX :: "string list" where "FX = [''chip'', ''monster'', ''robot'', ''echo'']"

definition AREAS :: "string list" where
  "AREAS = [''text'', ''farbe'', ''stil'', ''sticker'', ''foto'', ''beat'', ''stimme'', ''regeln'', ''figur'', ''welt'', ''idee'']"

section \<open>Parts\<close>

definition and_field :: "json \<Rightarrow> string \<Rightarrow> json" where   \<comment> \<open>\<open>o && o.k\<close>\<close>
  "and_field v k = (if truthy v then field v k else v)"

definition member_or :: "string list \<Rightarrow> string \<Rightarrow> json \<Rightarrow> json" where
  "member_or xs d v = (if one_of xs v then v else JStr (js d))"

definition cleanInput :: "platform \<Rightarrow> json \<Rightarrow> nat \<Rightarrow> jstring" where
  "cleanInput P v mx = (let t = marked_out P v mx in if t \<noteq> [] \<and> isClean (uc P) t then t else [])"

text \<open>A pattern is tested on \<open>String(v)\<close>, so a list of one string passes as that string; no text of a number has a \<open>#\<close> or two \<open>-\<close>.\<close>

definition as_text :: "platform \<Rightarrow> json \<Rightarrow> jstring" where
  "as_text P v = (case v of JNum n \<Rightarrow> [] | _ \<Rightarrow> string_of P v)"

definition sanitizeColors :: "platform \<Rightarrow> json \<Rightarrow> json" where
  "sanitizeColors P c = (case c of
     JArr [a, b] \<Rightarrow> if is_hex6 (as_text P a) \<and> is_hex6 (as_text P b) then c else JArr [JStr (js ''#ffd400''), JStr (js ''#ff3b1d'')]
   | _ \<Rightarrow> JArr [JStr (js ''#ffd400''), JStr (js ''#ff3b1d'')])"

definition whole_num :: "platform \<Rightarrow> json \<Rightarrow> int \<Rightarrow> int \<Rightarrow> int \<Rightarrow> json" where   \<comment> \<open>\<open>num(v, [lo, hi], d)\<close>\<close>
  "whole_num P v lo hi d = JInt (round_half (clampOr P v (of_int lo) (of_int hi) (of_int d)))"

definition step_char :: "nat \<Rightarrow> bool" where "step_char c \<longleftrightarrow> c = 120 \<or> c = 45"

definition steps :: "json \<Rightarrow> json" where
  "steps v = (case v of JStr s \<Rightarrow> if length s = 16 \<and> list_all step_char s then v else JStr (replicate 16 45)
    | _ \<Rightarrow> JStr (replicate 16 45))"

fun is_object :: "json \<Rightarrow> bool" where   \<comment> \<open>\<open>o && typeof o === "object"\<close>\<close>
  "is_object (JArr xs) \<longleftrightarrow> True" | "is_object (JObj kvs) \<longleftrightarrow> True" | "is_object _ \<longleftrightarrow> False"

definition thousandth :: "platform \<Rightarrow> json \<Rightarrow> rat \<Rightarrow> rat \<Rightarrow> rat \<Rightarrow> json" where
  "thousandth P v lo hi d = JNum (Rat (of_int (round_half (clampOr P v lo hi d * 1000)) / 1000))"

definition sanitizeSticker :: "platform \<Rightarrow> json \<Rightarrow> json option" where
  "sanitizeSticker P s = (if is_object s then Some (jobj
     [(''e'', JStr (sanitizeEmoji P (field s ''e''))), (''x'', thousandth P (field s ''x'') 0 1 (1 / 2)),
      (''y'', thousandth P (field s ''y'') 0 1 (1 / 2)), (''r'', thousandth P (field s ''r'') (- 314 / 100) (314 / 100) 0),
      (''z'', thousandth P (field s ''z'') (1 / 2) (5 / 2) 1)]) else None)"

definition sanitizeStickers :: "platform \<Rightarrow> json \<Rightarrow> json list" where
  "sanitizeStickers P a = List.map_filter (sanitizeSticker P) (take MAX_STICKERS (elements a))"

definition is_date :: "jstring \<Rightarrow> bool" where   \<comment> \<open>\<open>/^\d{4}-\d{2}-\d{2}$/\<close>\<close>
  "is_date s \<longleftrightarrow> length s = 10 \<and> s ! 4 = 45 \<and> s ! 7 = 45 \<and> list_all (\<lambda>i. digit (s ! i)) [0, 1, 2, 3, 5, 6, 8, 9]"

definition sanitizeWeather :: "platform \<Rightarrow> json \<Rightarrow> json option" where
  "sanitizeWeather P v =
     (if \<not> is_date (as_text P (field v ''d'')) then None
      else case (clampNum P (field v ''hi'') (- 60) 60, clampNum P (field v ''lo'') (- 60) 60) of
        (Some hi, Some lo) \<Rightarrow>
          (let p = cleanInput P (field v ''p'') 32
           in if p = [] then None
              else Some (jobj [(''p'', JStr p), (''d'', field v ''d''), (''hi'', JInt (round_half hi)), (''lo'', JInt (round_half lo)),
                (''rn'', whole_num P (field v ''rn'') 0 100 0), (''c'', whole_num P (field v ''c'') 0 99 0)]))
      | _ \<Rightarrow> None)"

definition trail_entry :: "platform \<Rightarrow> json \<Rightarrow> json option" where
  "trail_entry P e =
     (let w = take (length AREAS) (filter (one_of AREAS) (elements (field e ''w'')))
      in if w \<noteq> [] then Some (jobj [(''n'', JStr (sanitizeName P (field e ''n''))), (''w'', JArr w)]) else None)"

definition lastn :: "nat \<Rightarrow> 'a list \<Rightarrow> 'a list" where   \<comment> \<open>\<open>slice(-n)\<close>\<close>
  "lastn n xs = drop (length xs - n) xs"

definition sanitizeTrail :: "platform \<Rightarrow> json \<Rightarrow> json list" where
  "sanitizeTrail P a = lastn MAX_TRAIL (List.map_filter (trail_entry P) (elements a))"

definition small_word :: "json \<Rightarrow> bool" where   \<comment> \<open>\<open>/^[a-z]{2,12}$/\<close>\<close>
  "small_word v \<longleftrightarrow> (case v of JStr s \<Rightarrow> 2 \<le> length s \<and> length s \<le> 12 \<and> list_all letter s | _ \<Rightarrow> False)"

definition sanitizeKi :: "json \<Rightarrow> json option" where
  "sanitizeKi v =
     (if small_word (field v ''k'')
      then Some (jobj ([(''k'', field v ''k'')] @ opt (is_seal (field v ''s'')) ''s'' (field v ''s'') @
        opt (is_seal (field v ''s'') \<and> is_hash43 (field v ''h'')) ''h'' (field v ''h'')))
      else None)"

definition id_char :: "nat \<Rightarrow> bool" where "id_char c \<longleftrightarrow> letter c \<or> digit c \<or> c = 45"

definition sanitizeId :: "catalog \<Rightarrow> json \<Rightarrow> jstring option" where
  "sanitizeId c v = (case v of
     JStr s \<Rightarrow> if 1 \<le> length s \<and> length s \<le> 32 \<and> list_all id_char s \<and> s \<in> set (idea_ids c) then Some s else None
   | _ \<Rightarrow> None)"

section \<open>Duels, channels and turns\<close>

definition MODES :: "string list" where
  "MODES = [''rps'', ''mind'', ''rap'', ''auction'', ''flappy'', ''deck'']"

definition robot :: jstring where "robot = [0xD83E, 0xDD16]"
definition key_sign :: jstring where "key_sign = [0xD83D, 0xDDDD, 0xFE0F]"

definition sanitizeAgent :: "platform \<Rightarrow> json \<Rightarrow> json" where
  "sanitizeAgent P a = jobj
     [(''n'', JStr (sanitizeName P (field a ''n''))),
      (''e'', JStr (case field a ''e'' of JStr s \<Rightarrow> sanitizeEmoji P (JStr s) | _ \<Rightarrow> robot)),
      (''r'', whole_num P (field a ''r'') 0 100 50), (''c'', whole_num P (field a ''c'') 0 100 50), (''p'', whole_num P (field a ''p'') 0 100 50)]"

definition floor_num :: "platform \<Rightarrow> json \<Rightarrow> int \<Rightarrow> int \<Rightarrow> int \<Rightarrow> json" where
  "floor_num P v lo hi d = JInt \<lfloor>clampOr P v (of_int lo) (of_int hi) (of_int d)\<rfloor>"

definition duel_part :: "catalog \<Rightarrow> platform \<Rightarrow> json \<Rightarrow> (string \<times> json) list" where
  "duel_part c P v =
     (let m = member_or MODES ''rps'' (field v ''m'')
      in [(''m'', m), (''a'', sanitizeAgent P (field v ''a'')), (''b'', sanitizeAgent P (field v ''b'')),
          (''seed'', floor_num P (field v ''seed'') 0 4294967295 1),
          (''set'', floor_num P (field v ''set'') 0 (int (sign_sets c) - 1) 0),
          (''w'', JStr (cleanInput P (field v ''w'') 14)),
          (''ch'', JInt (if field v ''ch'' = JInt 1 then 1 else 0))] @
         opt (m = JStr (js ''flappy'')) ''g''
           (jobj [(''params'', params_json (sanitizeParams P (and_field (field v ''g'') ''params''))),
                  (''theme'', sanitizeTheme (and_field (field v ''g'') ''theme''))]))"

definition is_blob :: "nat \<Rightarrow> nat \<Rightarrow> json \<Rightarrow> bool" where   \<comment> \<open>\<open>/^[A-Za-z0-9_-]{lo,hi}$/\<close>\<close>
  "is_blob lo hi v \<longleftrightarrow> (case v of JStr s \<Rightarrow> lo \<le> length s \<and> length s \<le> hi \<and> list_all (\<lambda>c. b64_val c \<noteq> None) s | _ \<Rightarrow> False)"

definition quest_clean :: "platform \<Rightarrow> json \<Rightarrow> nat \<Rightarrow> jstring" where
  "quest_clean P v mx = clean (uc P) (string_of P v) mx"

definition quest_part :: "platform \<Rightarrow> json \<Rightarrow> (string \<times> json) list" where
  "quest_part P v =
     [(''q0'', JStr (quest_clean P (field v ''q0'') 44)), (''h0'', JStr (quest_clean P (field v ''h0'') 6)),
      (''c'', JArr (take 3 (filter (is_blob 20 420) (elements (field v ''c''))))),
      (''e'', JStr (case field v ''e'' of JStr s \<Rightarrow> sanitizeEmoji P (JStr s) | _ \<Rightarrow> key_sign))]"

definition TURN_IDS :: "string list" where
  "TURN_IDS = [''deal'', ''einig'', ''wort'', ''schmuggel'', ''lob'', ''auktion'', ''kapsel'', ''kennst'', ''snack'', ''teilen'', ''wette'',
     ''luecke'', ''socke'', ''bluff'', ''auftrag'', ''ausrede'', ''gutschein'', ''rubbellos'', ''urkunde'', ''luege'', ''blitz'', ''recht'',
     ''morgen'', ''umschlag'', ''rad'', ''steine'', ''unlesbar'', ''damals'', ''kreis'', ''hoeflich'', ''woerter'', ''abfragen'', ''regel'',
     ''werbung'', ''maschine'', ''suche'', ''wichteln'', ''rangliste'', ''schaetzen'', ''reihum'', ''termin'', ''danke'', ''kerzen'',
     ''tunnel'', ''post'', ''fallpreis'', ''socken'', ''advent'', ''rap'', ''disco'', ''stimme'', ''maus'', ''papagei'', ''tier'', ''uhr'',
     ''pokal'', ''pommes'', ''reaktion'', ''tuer'', ''streichen'', ''finger'', ''erklaeren'', ''sor'' @ ''ry'', ''sammeln'', ''einkauf'',
     ''wunsch'', ''geschenk'', ''quiz'', ''typen'']"

definition SHAPES :: "string list" where
  "SHAPES = [''cookie'', ''star'', ''heart'', ''bolt'', ''ring'', ''drop'', ''coin'']"

definition fits_json :: "json \<Rightarrow> pack \<Rightarrow> bool" where
  "fits_json g p \<longleftrightarrow> (\<exists>s \<in> set GAMES_pack. g = JStr (js s) \<and> fits_pack s p)"

definition turn_part :: "platform \<Rightarrow> json \<Rightarrow> (string \<times> json) list" where
  "turn_part P v =
     (let g = member_or TURN_IDS ''deal'' (field v ''g''); w = quest_clean P (field v ''w'') 14
      in [(''g'', g), (''seed'', floor_num P (field v ''seed'') 0 4294967295 1),
          (''q'', (if is_blob 0 900 (field v ''q'') then field v ''q'' else JStr [])),
          (''f'', member_or SHAPES ''cookie'' (field v ''f''))] @
         opt (w \<noteq> []) ''w'' (JStr w) @
         (case as_integer (field v ''o'') of Some n \<Rightarrow> opt (0 \<le> n \<and> n \<le> 99999) ''o'' (JInt n) | None \<Rightarrow> []) @
         (case sanitize_pack P (field v ''pk'') of Some p \<Rightarrow> opt (fits_json g p) ''pk'' (pack_json p) | None \<Rightarrow> []))"

section \<open>The sheet\<close>

definition head_part :: "catalog \<Rightarrow> platform \<Rightarrow> json \<Rightarrow> (string \<times> json) list" where
  "head_part c P v =
     (let t = cleanInput P (field v ''t'') 40; s = cleanInput P (field v ''s'') 70; n = sanitizeName P (field v ''n'')
      in [(''k'', field v ''k''), (''col'', sanitizeColors P (field v ''col'')), (''by'', JArr (sanitizeTrail P (field v ''by'')))] @
         opt_json ''i'' (map_option JStr (sanitizeId c (field v ''i''))) @
         opt (t \<noteq> []) ''t'' (JStr t) @ opt (s \<noteq> []) ''s'' (JStr s) @ opt (n \<noteq> []) ''n'' (JStr n) @
         opt_json ''ki'' (sanitizeKi (field v ''ki'')))"

definition card_part :: "platform \<Rightarrow> json \<Rightarrow> (string \<times> json) list" where
  "card_part P v =
     [(''x'', JStr (cleanInput P (field v ''x'') MAX_TEXT)), (''st'', member_or CARD_STYLES ''druck'' (field v ''st'')),
      (''sk'', JArr (sanitizeStickers P (field v ''sk'')))] @
     opt_json ''w'' (sanitizeWeather P (field v ''w'')) @
     opt (field v ''nr'' \<noteq> JUndef) ''nr'' (whole_num P (field v ''nr'') 1 24 1)"

definition photo_part :: "platform \<Rightarrow> json \<Rightarrow> (string \<times> json) list" where
  "photo_part P v =
     [(''x'', JStr (cleanInput P (field v ''x'') 28)), (''y'', JStr (cleanInput P (field v ''y'') 28)),
      (''st'', member_or PHOTO_STYLES ''poster'' (field v ''st'')), (''sk'', JArr (sanitizeStickers P (field v ''sk'')))]"

definition sound_lines :: "platform \<Rightarrow> json \<Rightarrow> jstring list" where
  "sound_lines P v = filter (\<lambda>s. s \<noteq> []) (map (\<lambda>l. case l of JStr s \<Rightarrow> cleanInput P l 60 | _ \<Rightarrow> []) (take 4 (elements v)))"

definition sound_part :: "platform \<Rightarrow> json \<Rightarrow> (string \<times> json) list" where
  "sound_part P v =
     [(''m'', (if field v ''m'' = JStr (js ''voice'') then JStr (js ''voice'') else JStr (js ''beat''))),
      (''x'', JStr (cleanInput P (field v ''x'') 28)), (''fx'', member_or FX ''chip'' (field v ''fx'')),
      (''bpm'', whole_num P (field v ''bpm'') 70 170 110),
      (''p'', jobj (map (\<lambda>k. (k, steps (and_field (field v ''p'') k))) [''k'', ''s'', ''h'', ''b'']))] @
     (let ly = sound_lines P (field v ''ly'') in opt (ly \<noteq> []) ''ly'' (JArr (map JStr ly)))"

definition game_part :: "platform \<Rightarrow> json \<Rightarrow> (string \<times> json) list" where
  "game_part P v =
     (let g = field v ''g''
      in [(''g'', jobj (
        [(''seed'', JInt (sanitizeSeed P (and_field g ''seed''))), (''params'', params_json (sanitizeParams P (and_field g ''params''))),
         (''theme'', sanitizeTheme (and_field g ''theme'')), (''title'', JStr (sanitizeTitle P (and_field g ''title''))),
         (''emoji'', JStr (sanitizeEmoji P (and_field g ''emoji'')))] @
        opt_json ''look'' (sanitizeLook P (and_field g ''look'')) @
        opt_json ''route'' (map_option route_json (sanitizeRoute P (and_field g ''route'')))))])"

definition kind_part :: "catalog \<Rightarrow> platform \<Rightarrow> json \<Rightarrow> (string \<times> json) list" where
  "kind_part c P v =
     (let k = field v ''k'' in
      if k = JStr (js ''card'') then card_part P v
      else if k = JStr (js ''photo'') then photo_part P v
      else if k = JStr (js ''sound'') then sound_part P v
      else if k = JStr (js ''duel'') then duel_part c P v
      else if k = JStr (js ''quest'') then quest_part P v
      else if k = JStr (js ''turn'') then turn_part P v
      else if k = JStr (js ''table'') then [(''g'', member_or [''skat'', ''bauernskat''] ''doko'' (field v ''g''))]
      else game_part P v)"

definition sanitizeDoc :: "catalog \<Rightarrow> platform \<Rightarrow> json \<Rightarrow> json option" where
  "sanitizeDoc c P v = (if one_of KINDS (field v ''k'') then Some (jobj (head_part c P v @ kind_part c P v)) else None)"

section \<open>The trail and the link\<close>

text \<open>
  \<open>v !== w\<close> for members of two sheets that share no object, and \<open>JSON.stringify(v) !== JSON.stringify(w)\<close>.
\<close>

definition strict_ne :: "json \<Rightarrow> json \<Rightarrow> bool" where
  "strict_ne v w \<longleftrightarrow> v \<noteq> w \<or> is_object v"

definition changedAreas :: "json \<Rightarrow> json \<Rightarrow> string list" where
  "changedAreas a b =
     (let ne = (\<lambda>k. field a k \<noteq> field b k); sn = (\<lambda>k. strict_ne (field a k) (field b k));
          ga = field a ''g''; gb = field b ''g''; gne = (\<lambda>k. field ga k \<noteq> field gb k); gsn = (\<lambda>k. strict_ne (field ga k) (field gb k))
      in (if sn ''x'' \<or> sn ''y'' \<or> sn ''nr'' \<or> ne ''w'' \<or> ne ''ly'' then [''text''] else []) @
         (if ne ''col'' then [''farbe''] else []) @
         (if sn ''st'' then [''stil''] else []) @
         (if ne ''sk'' then [''sticker''] else []) @
         (if ne ''p'' \<or> sn ''bpm'' then [''beat''] else []) @
         (if sn ''fx'' then [''stimme''] else []) @
         (if sn ''t'' \<or> sn ''s'' then [''idee''] else []) @
         (if sn ''e'' \<or> sn ''f'' then [''figur''] else []) @
         (if ne ''a'' \<or> ne ''b'' \<or> sn ''w'' \<or> sn ''q'' then [''regeln''] else []) @
         (if truthy ga \<and> truthy gb then
            (if gne ''params'' then [''regeln''] else []) @ (if gsn ''emoji'' then [''figur''] else []) @
            (if gsn ''theme'' \<or> gne ''look'' \<or> gne ''route'' then [''welt''] else []) @ (if gsn ''title'' then [''text''] else [])
          else []))"

definition set_field :: "json \<Rightarrow> string \<Rightarrow> json \<Rightarrow> json" where
  "set_field v k w = (case v of JObj kvs \<Rightarrow>
       JObj (if js k \<in> fst ` set kvs then map (\<lambda>(j, x). if j = js k then (j, w) else (j, x)) kvs else kvs @ [(js k, w)])
     | _ \<Rightarrow> v)"

definition del_field :: "json \<Rightarrow> string \<Rightarrow> json" where
  "del_field v k = (case v of JObj kvs \<Rightarrow> JObj (filter (\<lambda>(j, x). j \<noteq> js k) kvs) | _ \<Rightarrow> v)"

definition withTrail :: "catalog \<Rightarrow> platform \<Rightarrow> json \<Rightarrow> json \<Rightarrow> string list \<Rightarrow> json option" where
  "withTrail c P doc nick areas = (case sanitizeDoc c P doc of
     None \<Rightarrow> None
   | Some d \<Rightarrow> Some (if areas = [] then d
       else set_field d ''by'' (JArr (sanitizeTrail P (JArr (elements (field d ''by'') @
         [jobj [(''n'', nick), (''w'', JArr (map (\<lambda>a. JStr (js a)) areas))]]))))))"

definition MAX_FRAGMENT :: nat where "MAX_FRAGMENT = 1200"

text \<open>
  The sheet as \<open>docUrl\<close> sends it; \<open>sz\<close> is the length of its coded form. Stickers go from the end, then the hash of the mark, then the
  trail from the front, then the subtitle and the title.
\<close>

function drop_stickers :: "(json \<Rightarrow> nat) \<Rightarrow> json \<Rightarrow> json" where
  "drop_stickers sz d =
     (if sz d > MAX_FRAGMENT \<and> elements (field d ''sk'') \<noteq> [] \<and> is_object d
      then drop_stickers sz (set_field d ''sk'' (JArr (butlast (elements (field d ''sk''))))) else d)"
  by auto

function drop_trail :: "(json \<Rightarrow> nat) \<Rightarrow> json \<Rightarrow> json" where
  "drop_trail sz d =
     (if sz d > MAX_FRAGMENT \<and> elements (field d ''by'') \<noteq> [] \<and> is_object d
      then drop_trail sz (set_field d ''by'' (JArr (tl (elements (field d ''by''))))) else d)"
  by auto

lemma field_set: "is_object d \<Longrightarrow> (\<forall>xs. d \<noteq> JArr xs) \<Longrightarrow> field (set_field d k w) j = (if j = k then w else field d j)"
proof -
  have in_map: "map_of (map (\<lambda>(i, x). if i = a then (i, w) else (i, x)) kvs) b
      = (if b = a \<and> a \<in> fst ` set kvs then Some w else map_of kvs b)" for kvs a b
  proof (induction kvs)
    case (Cons p kvs)
    obtain i x where p: "p = (i, x)" by (cases p)
    show ?case by (cases "i = a"; cases "b = i") (simp_all add: p Cons)
  qed simp
  have new: "map_of (kvs @ [(a, w)]) b = (if b = a then Some w else map_of kvs b)" if "a \<notin> fst ` set kvs" for kvs a b
    using that by (induction kvs) auto
  assume "is_object d" "\<forall>xs. d \<noteq> JArr xs"
  then obtain kvs where "d = JObj kvs" by (cases d) auto
  then show ?thesis by (cases "js k \<in> fst ` set kvs") (simp_all add: set_field_def in_map new del: map_of_append)
qed

lemma elements_object: "elements (field d k) \<noteq> [] \<Longrightarrow> is_object d \<and> (\<forall>xs. d \<noteq> JArr xs)"
  by (cases d) auto

lemma shorter_list:
  assumes "elements (field d k) \<noteq> []"
  shows "length (elements (field (set_field d k (JArr (butlast (elements (field d k))))) k)) < length (elements (field d k)) \<and>
    length (elements (field (set_field d k (JArr (tl (elements (field d k))))) k)) < length (elements (field d k))"
proof -
  have "is_object d" "\<forall>xs. d \<noteq> JArr xs" using elements_object [OF assms] by blast+
  then show ?thesis using assms by (simp add: field_set)
qed

termination drop_stickers
proof (relation "measure (\<lambda>(sz, d). length (elements (field d ''sk'')))")
  fix sz :: "json \<Rightarrow> nat" and d
  assume "MAX_FRAGMENT < sz d \<and> elements (field d ''sk'') \<noteq> [] \<and> is_object d"
  then show "((sz, set_field d ''sk'' (JArr (butlast (elements (field d ''sk''))))), sz, d)
      \<in> measure (\<lambda>(sz, d). length (elements (field d ''sk'')))"
    using shorter_list [of d "''sk''"] by (simp only: in_measure prod.case) blast
qed simp

termination drop_trail
proof (relation "measure (\<lambda>(sz, d). length (elements (field d ''by'')))")
  fix sz :: "json \<Rightarrow> nat" and d
  assume "MAX_FRAGMENT < sz d \<and> elements (field d ''by'') \<noteq> [] \<and> is_object d"
  then show "((sz, set_field d ''by'' (JArr (tl (elements (field d ''by''))))), sz, d)
      \<in> measure (\<lambda>(sz, d). length (elements (field d ''by'')))"
    using shorter_list [of d "''by''"] by (simp only: in_measure prod.case) blast
qed simp

definition sent_doc :: "catalog \<Rightarrow> platform \<Rightarrow> (json \<Rightarrow> nat) \<Rightarrow> json \<Rightarrow> json option" where
  "sent_doc c P sz doc = (case sanitizeDoc c P doc of
     None \<Rightarrow> None
   | Some d \<Rightarrow>
       (let big = (\<lambda>x. sz x > MAX_FRAGMENT);
            d1 = drop_stickers sz d;
            d2 = (if big d1 \<and> field d1 ''ki'' \<noteq> JUndef then set_field d1 ''ki'' (del_field (field d1 ''ki'') ''h'') else d1);
            d3 = drop_trail sz d2;
            d4 = (if big d3 then del_field d3 ''s'' else d3);
            d5 = (if big d4 then del_field d4 ''t'' else d4)
        in Some d5))"

section \<open>The wall and the person's defaults\<close>

definition is_thumb :: "jstring \<Rightarrow> bool" where   \<comment> \<open>\<open>/^data:image\/(jpeg|png);base64,[A-Za-z0-9+/=]+$/\<close>\<close>
  "is_thumb s \<longleftrightarrow> (\<exists>h \<in> {js ''data:image/jpeg;base64,'', js ''data:image/png;base64,''}.
     take (length h) s = h \<and> length s > length h \<and>
     list_all (\<lambda>c. letter (low_case c) \<or> digit c \<or> c = 43 \<or> c = 47 \<or> c = 61) (drop (length h) s))"

definition is_fragment :: "json \<Rightarrow> bool" where   \<comment> \<open>\<open>/^c=[A-Za-z0-9_-]+={0,2}$/\<close>\<close>
  "is_fragment v \<longleftrightarrow> (case v of JStr s \<Rightarrow> length s \<le> MAX_FRAGMENT \<and> take 2 s = js ''c='' \<and>
       (let b = takeWhile (\<lambda>c. b64_val c \<noteq> None) (drop 2 s); e = dropWhile (\<lambda>c. b64_val c \<noteq> None) (drop 2 s)
        in b \<noteq> [] \<and> length e \<le> 2 \<and> list_all (\<lambda>c. c = 61) e) | _ \<Rightarrow> False)"

definition wall_kind :: "json \<Rightarrow> bool" where
  "wall_kind v \<longleftrightarrow> (case v of JStr s \<Rightarrow> 1 \<le> length s \<and> length s \<le> 12 \<and> list_all letter s | _ \<Rightarrow> False)"

definition wall_entry :: "catalog \<Rightarrow> json \<Rightarrow> json option" where
  "wall_entry c e =
     (if (sanitizeId c (field e ''id'') \<noteq> None \<or> field e ''id'' = JStr (js ''own'')) \<and>
         (case field e ''ts'' of JNum n \<Rightarrow> True | _ \<Rightarrow> False) \<and>
         (case field e ''th'' of JStr s \<Rightarrow> length s \<le> MAX_THUMB \<and> is_thumb s | _ \<Rightarrow> False)
      then Some (jobj ([(''id'', field e ''id''), (''ts'', field e ''ts''), (''th'', field e ''th'')] @
        opt (is_fragment (field e ''f'')) ''f'' (field e ''f'') @ opt (wall_kind (field e ''k'')) ''k'' (field e ''k'')))
      else None)"

definition sanitizeWall :: "catalog \<Rightarrow> json \<Rightarrow> json list" where
  "sanitizeWall c v = take MAX_WALL (List.map_filter (wall_entry c) (elements v))"

definition addToWall :: "catalog \<Rightarrow> json list \<Rightarrow> json \<Rightarrow> json list" where
  "addToWall c xs e = sanitizeWall c (JArr (e # xs))"

record pref =
  p_age :: "jstring option"
  p_hh :: "int option"
  p_diet :: "jstring option"
  p_no :: "jstring list"
  p_pp :: "jstring option"

definition AGES :: "string list" where "AGES = [''u16'', ''u18'', ''a18'']"
definition DIETS :: "string list" where "DIETS = [''veg'', ''vegan'']"
definition NOTIMES :: "string list" where "NOTIMES = [''frueh'', ''tag'', ''abend'', ''sa'', ''so'']"

definition adult :: "catalog \<Rightarrow> jstring option \<Rightarrow> bool" where
  "adult c age \<longleftrightarrow> adult_build c \<or> age = Some (js ''a18'')"

definition dietOk :: "catalog \<Rightarrow> jstring option \<Rightarrow> bool" where
  "dietOk c age \<longleftrightarrow> adult_build c \<or> age = Some (js ''u18'') \<or> age = Some (js ''a18'')"

definition is_ppme :: "jstring \<Rightarrow> bool" where
  "is_ppme s \<longleftrightarrow> 1 \<le> length s \<and> length s \<le> 20 \<and> list_all (\<lambda>c. letter (low_case c) \<or> digit c) s"

definition sanitizePref :: "catalog \<Rightarrow> json \<Rightarrow> pref" where
  "sanitizePref c f =
     (let age = (if one_of AGES (field f ''age'') \<and> \<not> adult_build c then as_string (field f ''age'') else None)
      in \<lparr>p_age = age,
          p_hh = (case as_integer (field f ''hh'') of Some n \<Rightarrow> if 1 \<le> n \<and> n \<le> 6 then Some n else None | None \<Rightarrow> None),
          p_diet = (if one_of DIETS (field f ''diet'') \<and> dietOk c age then as_string (field f ''diet'') else None),
          p_no = filter (\<lambda>k. JStr k \<in> set (elements (field f ''no''))) (map js NOTIMES),
          p_pp = (case field f ''pp'' of JStr s \<Rightarrow> if is_ppme s \<and> adult c age then Some s else None | _ \<Rightarrow> None)\<rparr>)"

definition opt_str :: "string \<Rightarrow> jstring option \<Rightarrow> (string \<times> json) list" where
  "opt_str k v = opt_json k (map_option JStr v)"

definition pref_json :: "pref \<Rightarrow> json" where
  "pref_json f = jobj (opt_str ''age'' (p_age f) @ opt_json ''hh'' (map_option JInt (p_hh f)) @ opt_str ''diet'' (p_diet f) @
     opt (p_no f \<noteq> []) ''no'' (JArr (map JStr (p_no f))) @ opt_str ''pp'' (p_pp f))"

definition dropPref :: "catalog \<Rightarrow> pref \<Rightarrow> string \<Rightarrow> jstring \<Rightarrow> pref" where
  "dropPref c f k v = sanitizePref c
     (if k = ''no'' then pref_json (f\<lparr>p_no := filter (\<lambda>x. x \<noteq> v) (p_no f)\<rparr>) else del_field (pref_json f) k)"

end
