(* ===== verification/Collab.thy ===== *)
theory Collab
  imports Daily_Doc "HOL-Library.AList" "HOL-Library.List_Lexorder"
begin

text \<open>
  Building together, \<open>collab.js\<close>: one replica of a work, what local edits and frames of the other side do to it, and the
  sending. The objects the code uses as tables are association lists in the order of their keys. The sheet's list of stickers holds
  objects, so each comes with its reference. Times are milliseconds; what the code starts at minus infinity is \<open>None\<close>.
\<close>

section \<open>Constants and values\<close>

definition MAX_FRAME :: nat where "MAX_FRAME = 16 * 1024"
definition MAX_OPS :: nat where "MAX_OPS = 512"
definition MAX_IDS :: nat where "MAX_IDS = 400"
definition LOCAL_IDS :: nat where "LOCAL_IDS = 340"
definition MAX_IN_PER_MIN :: nat where "MAX_IN_PER_MIN = 120"
definition BUCKET :: rat where "BUCKET = 10"
definition REFILL_PER_S :: rat where "REFILL_PER_S = 16 / 10"
definition FLUSH_MS :: int where "FLUSH_MS = 250"
definition DIGEST_MS :: int where "DIGEST_MS = 3000"
definition FULL_MIN_MS :: int where "FULL_MIN_MS = 2000"
definition GONE_MS :: int where "GONE_MS = 11000"
definition MAX_JUMP :: int where "MAX_JUMP = 1000000"
definition MAX_CLOCK :: int where "MAX_CLOCK = 1099511627776"

text \<open>\<open>JSON.stringify\<close>.\<close>

fun json_text :: "platform \<Rightarrow> json \<Rightarrow> jstring" where
  "json_text P (JStr s) = quote s"
| "json_text P (JNum (Rat r)) = number_text P (Rat r)"
| "json_text P (JBool b) = (if b then js ''true'' else js ''false'')"
| "json_text P (JArr xs) = array_text (map (json_text P) xs)"
| "json_text P (JObj kvs) = 123 # comma_list (map (\<lambda>(k, v). quote k @ 58 # json_text P v) (filter (\<lambda>(k, v). v \<noteq> JUndef) kvs)) @ [125]"
| "json_text P _ = js ''null''"

definition get_key :: "json \<Rightarrow> jstring \<Rightarrow> json" where
  "get_key v k = (case v of JObj kvs \<Rightarrow> (case map_of kvs k of None \<Rightarrow> JUndef | Some w \<Rightarrow> w) | _ \<Rightarrow> JUndef)"

definition put_key :: "json \<Rightarrow> jstring \<Rightarrow> json \<Rightarrow> json" where
  "put_key v k w = (case v of JObj kvs \<Rightarrow> JObj (AList.update k w kvs) | _ \<Rightarrow> v)"

section \<open>The fields of a work\<close>

definition TRACKS :: "string list" where "TRACKS = [''k'', ''s'', ''h'', ''b'']"
definition COLLAB_KINDS :: "string list" where "COLLAB_KINDS = [''game'', ''photo'', ''sound'', ''card'']"

definition text_rule :: "platform \<Rightarrow> nat \<Rightarrow> json \<Rightarrow> bool" where
  "text_rule P mx v \<longleftrightarrow> (case v of JStr s \<Rightarrow> s = [] \<or> cleanInput P v mx = s | _ \<Rightarrow> False)"

definition range_rule :: "int \<Rightarrow> int \<Rightarrow> json \<Rightarrow> bool" where
  "range_rule a b v \<longleftrightarrow> (case v of JNum (Rat r) \<Rightarrow> of_int a \<le> r \<and> r \<le> of_int b | _ \<Rightarrow> False)"

definition pair_rule :: "platform \<Rightarrow> json \<Rightarrow> bool" where
  "pair_rule P v \<longleftrightarrow> (case v of JArr [a, b] \<Rightarrow> is_hex6 (map low_case (as_text P a)) \<and> is_hex6 (map low_case (as_text P b)) | _ \<Rightarrow> False)"

definition step_rule :: "json \<Rightarrow> bool" where "step_rule v \<longleftrightarrow> v = JStr (js ''x'') \<or> v = JStr (js ''-'')"

definition trail_rule :: "platform \<Rightarrow> json \<Rightarrow> bool" where "trail_rule P v \<longleftrightarrow> v = JArr (sanitizeTrail P v)"

definition name_rule :: "platform \<Rightarrow> json \<Rightarrow> bool" where
  "name_rule P v \<longleftrightarrow> (case v of JStr s \<Rightarrow> s = [] \<or> sanitizeName P v = s | _ \<Rightarrow> False)"

definition track_keys :: "jstring list" where
  "track_keys = concat (map (\<lambda>t. map (\<lambda>i. js ''p.'' @ js t @ 46 # digits i) [0..<16]) TRACKS)"

definition common_rules :: "platform \<Rightarrow> (jstring \<times> (json \<Rightarrow> bool)) list" where
  "common_rules P = [(js ''t'', text_rule P 40), (js ''s'', text_rule P 70), (js ''n'', name_rule P), (js ''col'', pair_rule P),
     (js ''by'', trail_rule P)]"

definition game_rules :: "platform \<Rightarrow> (jstring \<times> (json \<Rightarrow> bool)) list" where
  "game_rules P =
     [(js ''g.seed'', \<lambda>v. v = JInt (sanitizeSeed P v)), (js ''g.theme'', one_of THEME_NAMES),
      (js ''g.look'', \<lambda>v. v = JNull \<or> sanitizeLook P v = Some v),
      (js ''g.title'', \<lambda>v. v = JStr (sanitizeTitle P v)), (js ''g.emoji'', \<lambda>v. v = JStr (sanitizeEmoji P v))] @
     map (\<lambda>(k, lo, hi, d). (js ''g.params.'' @ js k, range_rule lo hi)) RANGES"

definition rules :: "platform \<Rightarrow> jstring \<Rightarrow> (jstring \<times> (json \<Rightarrow> bool)) list" where
  "rules P kind = common_rules P @
     (if kind = js ''card'' then [(js ''x'', text_rule P 90), (js ''st'', one_of CARD_STYLES)]
      else if kind = js ''photo'' then [(js ''x'', text_rule P 28), (js ''y'', text_rule P 28), (js ''st'', one_of PHOTO_STYLES)]
      else if kind = js ''sound'' then
        [(js ''x'', text_rule P 28), (js ''fx'', one_of FX), (js ''bpm'', range_rule 70 170)] @ map (\<lambda>k. (k, step_rule)) track_keys
      else game_rules P)"

definition or_empty :: "json \<Rightarrow> json" where "or_empty v = either_of v (JStr [])"

definition char_at :: "json \<Rightarrow> nat \<Rightarrow> json" where
  "char_at v i = (case v of JStr s \<Rightarrow> if i < length s then JStr [s ! i] else JUndef | _ \<Rightarrow> JUndef)"

text \<open>\<open>flatten\<close> of a sheet that came through \<open>sanitizeDoc\<close>.\<close>

definition flatten_doc :: "json \<Rightarrow> (jstring \<times> json) list" where
  "flatten_doc d =
     (let k = field d ''k''; g = field d ''g'' in
      [(js ''t'', or_empty (field d ''t'')), (js ''s'', or_empty (field d ''s'')), (js ''n'', or_empty (field d ''n'')),
       (js ''col'', field d ''col''), (js ''by'', field d ''by'')] @
      (if k = JStr (js ''card'') then [(js ''x'', field d ''x''), (js ''st'', field d ''st'')]
       else if k = JStr (js ''photo'') then [(js ''x'', field d ''x''), (js ''st'', field d ''st''), (js ''y'', field d ''y'')]
       else if k = JStr (js ''sound'') then
         [(js ''x'', field d ''x''), (js ''fx'', field d ''fx''), (js ''bpm'', field d ''bpm'')] @
         concat (map (\<lambda>t. map (\<lambda>i. (js ''p.'' @ js t @ 46 # digits i, char_at (field (field d ''p'') t) i)) [0..<16]) TRACKS)
       else
         [(js ''g.seed'', field g ''seed''), (js ''g.theme'', field g ''theme''), (js ''g.title'', field g ''title''),
          (js ''g.emoji'', field g ''emoji''), (js ''g.look'', (if truthy (field g ''look'') then field g ''look'' else JNull))] @
         (case field g ''params'' of JObj kvs \<Rightarrow> map (\<lambda>(k, v). (js ''g.params.'' @ k, v)) kvs | _ \<Rightarrow> [])))"

definition flatten :: "catalog \<Rightarrow> platform \<Rightarrow> json \<Rightarrow> (jstring \<times> json) list" where
  "flatten c P raw = (case sanitizeDoc c P raw of Some d \<Rightarrow> flatten_doc d | None \<Rightarrow> [])"

fun split_dots :: "jstring \<Rightarrow> jstring list" where   \<comment> \<open>\<open>key.split(".")\<close>\<close>
  "split_dots [] = [[]]"
| "split_dots (c # cs) = (if c = 46 then [] # split_dots cs else case split_dots cs of [] \<Rightarrow> [[c]] | w # ws \<Rightarrow> (c # w) # ws)"

definition number_in :: "jstring \<Rightarrow> nat" where "number_in s = foldl (\<lambda>n c. n * 10 + (c - 48)) 0 s"

definition assign :: "json \<Rightarrow> jstring \<Rightarrow> json \<Rightarrow> json" where
  "assign d key v = (case split_dots key of
     [a, t, i] \<Rightarrow>
       if a = js ''p'' then
         put_key d a (put_key (get_key d a) t
           (case (get_key (get_key d a) t, v) of
              (JStr s, JStr x) \<Rightarrow> JStr (take (number_in i) s @ x @ drop (number_in i + 1) s) | (s, _) \<Rightarrow> s))
       else if a = js ''g'' \<and> t = js ''params'' then put_key d a (put_key (get_key d a) t (put_key (get_key (get_key d a) t) i v))
       else if a = js ''g'' then put_key d a (put_key (get_key d a) t v)
       else put_key d key v
   | [a, t] \<Rightarrow> if a = js ''g'' then put_key d a (put_key (get_key d a) t v) else put_key d key v
   | _ \<Rightarrow> put_key d key v)"

section \<open>The state of a replica\<close>

record entry =
  e_v :: json
  e_l :: int
  e_a :: jstring

record info =
  m_k :: jstring
  m_m :: "jstring option"
  m_i :: "jstring option"

record replica =
  actor :: jstring
  nick :: json
  face :: json
  meta :: "info option"
  cells :: "(jstring \<times> entry) list"
  stickers :: "(jstring \<times> entry) list"
  dead :: "(jstring \<times> int) list"
  clock :: int
  view :: "(jstring \<times> json) list"
  showing :: "jstring list"
  outbox :: "(jstring \<times> json list) list"
  order :: "jstring list"
  ids :: "nat \<Rightarrow> jstring option"
  peer :: "(jstring \<times> jstring \<times> jstring) option"
  peerSeen :: int
  up :: bool
  tokens :: rat
  refilled :: int
  lastFlush :: "int option"
  lastDigest :: "int option"
  lastFull :: "int option"
  arrivals :: "int list"
  dirty :: bool
  rejected :: nat
  helloDue :: bool

definition create :: "jstring \<Rightarrow> json \<Rightarrow> json \<Rightarrow> replica" where
  "create a n e = \<lparr>actor = a, nick = n, face = e, meta = None, cells = [], stickers = [], dead = [], clock = 0, view = [], showing = [],
     outbox = [], order = [], ids = (\<lambda>_. None), peer = None, peerSeen = - 1, up = False, tokens = BUCKET, refilled = 0, lastFlush = None,
     lastDigest = None, lastFull = None, arrivals = [], dirty = False, rejected = 0, helloDue = False\<rparr>"

text \<open>A sheet in the editor: its members, and the stickers with their references; \<open>w_new\<close> is the next reference.\<close>

record work =
  w_doc :: json
  w_sk :: "(nat \<times> json) list option"
  w_new :: nat

section \<open>Local operations\<close>

definition field_op :: "jstring \<Rightarrow> json \<Rightarrow> int \<Rightarrow> jstring \<Rightarrow> json list" where
  "field_op k v l a = [JStr (js ''f''), JStr k, v, JInt l, JStr a]"

definition sticker_op :: "jstring \<Rightarrow> json \<Rightarrow> int \<Rightarrow> jstring \<Rightarrow> json list" where
  "sticker_op i g l a = [JStr (js ''s''), JStr i, g, JInt l, JStr a]"

definition dead_op :: "jstring \<Rightarrow> int \<Rightarrow> json list" where
  "dead_op i l = [JStr (js ''d''), JStr i, JInt l]"

definition queue :: "jstring \<Rightarrow> json list \<Rightarrow> replica \<Rightarrow> replica" where
  "queue k p s = s\<lparr>order := (if map_of (outbox s) k = None then order s @ [k] else order s), outbox := AList.update k p (outbox s)\<rparr>"

definition idCount :: "replica \<Rightarrow> nat" where "idCount s = length (stickers s) + length (dead s)"

definition tick_clock :: "replica \<Rightarrow> int \<times> replica" where
  "tick_clock s = (let l = (if clock s < MAX_CLOCK then clock s + 1 else clock s) in (l, s\<lparr>clock := l\<rparr>))"

definition birth :: "jstring \<Rightarrow> nat" where "birth i = number_in (takeWhile (\<lambda>c. c \<noteq> 46) i)"

definition visible :: "replica \<Rightarrow> jstring list" where
  "visible s = take MAX_STICKERS (sort_key birth (sort (map fst (stickers s))))"

definition setLocal :: "jstring \<Rightarrow> json \<Rightarrow> replica \<Rightarrow> replica" where
  "setLocal k v s = (let (l, s1) = tick_clock s; e = \<lparr>e_v = v, e_l = l, e_a = actor s\<rparr>
     in queue (js ''f'' @ k) (field_op k v l (actor s)) (s1\<lparr>cells := AList.update k e (cells s1)\<rparr>))"

definition putSticker :: "jstring \<Rightarrow> json \<Rightarrow> replica \<Rightarrow> replica" where
  "putSticker i g s = (let (l, s1) = tick_clock s; e = \<lparr>e_v = g, e_l = l, e_a = actor s\<rparr>
     in queue (js ''s'' @ i) (sticker_op i g l (actor s)) (s1\<lparr>stickers := AList.update i e (stickers s1)\<rparr>))"

definition kill :: "jstring \<Rightarrow> replica \<Rightarrow> replica" where
  "kill i s = (let (l, s1) = tick_clock s
     in queue (js ''d'' @ i) (dead_op i l)
          (s1\<lparr>stickers := AList.delete i (stickers s1), dead := AList.update i l (dead s1), outbox := AList.delete (js ''s'' @ i) (outbox s1)\<rparr>))"

definition fullOps :: "replica \<Rightarrow> (jstring \<times> json list) list" where
  "fullOps s = map (\<lambda>(k, e). (js ''f'' @ k, field_op k (e_v e) (e_l e) (e_a e))) (cells s) @
     map (\<lambda>(k, e). (js ''s'' @ k, sticker_op k (e_v e) (e_l e) (e_a e))) (stickers s) @
     map (\<lambda>(k, l). (js ''d'' @ k, dead_op k l)) (dead s)"

fun join :: "jstring \<Rightarrow> jstring list \<Rightarrow> jstring" where
  "join g [] = []"
| "join g [x] = x"
| "join g (x # y # xs) = x @ g @ join g (y # xs)"

definition entry_words :: "platform \<Rightarrow> string \<Rightarrow> (jstring \<times> entry) list \<Rightarrow> jstring list" where
  "entry_words P t es = concat (map (\<lambda>k. case map_of es k of
       Some e \<Rightarrow> [js t, k, json_text P (e_v e), decimal (e_l e), e_a e] | None \<Rightarrow> []) (sort (map fst es)))"

definition hash_of :: "platform \<Rightarrow> replica \<Rightarrow> int" where
  "hash_of P s = uint (hash32 (join [1]
     (entry_words P ''f'' (cells s) @ entry_words P ''s'' (stickers s) @ concat (map (\<lambda>k. [js ''d'', k]) (sort (map fst (dead s)))))))"

section \<open>Operations of the other side\<close>

text \<open>\<open>/^[a-z0-9]{4,12}$/\<close> and \<open>/^[0-9]{1,13}\.[a-z0-9]{4,12}$/\<close>.\<close>

definition is_actor :: "jstring \<Rightarrow> bool" where
  "is_actor a \<longleftrightarrow> 4 \<le> length a \<and> length a \<le> 12 \<and> list_all (\<lambda>c. letter c \<or> digit c) a"

definition is_sticker :: "jstring \<Rightarrow> bool" where
  "is_sticker i \<longleftrightarrow> (let n = takeWhile digit i; r = dropWhile digit i in
     1 \<le> length n \<and> length n \<le> 13 \<and> (case r of c # a \<Rightarrow> c = 46 \<and> is_actor a | [] \<Rightarrow> False))"

definition okClock :: "json \<Rightarrow> replica \<Rightarrow> int option" where
  "okClock v s = (case as_integer v of
     Some l \<Rightarrow> if 1 \<le> l \<and> l \<le> MAX_CLOCK \<and> l \<le> clock s + MAX_JUMP then Some l else None | None \<Rightarrow> None)"

definition okStamp :: "json \<Rightarrow> json \<Rightarrow> replica \<Rightarrow> (int \<times> jstring) option" where
  "okStamp l a s = (case (okClock l s, a) of (Some n, JStr x) \<Rightarrow> if is_actor x then Some (n, x) else None | _ \<Rightarrow> None)"

definition wins :: "int \<Rightarrow> jstring \<Rightarrow> entry option \<Rightarrow> bool" where
  "wins l a cur = (case cur of None \<Rightarrow> True | Some e \<Rightarrow> l > e_l e \<or> l = e_l e \<and> a > e_a e)"

text \<open>A key is turned into text, so a list of one string is that string; every other value is the name of no field.\<close>

fun key_of :: "json \<Rightarrow> jstring option" where
  "key_of (JStr s) = Some s" | "key_of (JArr [v]) = key_of v" | "key_of _ = None"

definition apply_field :: "(jstring \<times> (json \<Rightarrow> bool)) list \<Rightarrow> json list \<Rightarrow> replica \<Rightarrow> replica \<times> bool" where
  "apply_field rs p s = (case p of
     [_, i, v, lj, aj] \<Rightarrow>
       (case key_of i of None \<Rightarrow> (s, False)
        | Some k \<Rightarrow> (case (map_of rs k, okStamp lj aj s) of
            (Some ok, Some (l, a)) \<Rightarrow>
              if \<not> ok v then (s, False)
              else let s1 = s\<lparr>clock := max (clock s) l\<rparr> in
                if wins l a (map_of (cells s) k)
                then (s1\<lparr>cells := AList.update k \<lparr>e_v = v, e_l = l, e_a = a\<rparr> (cells s), dirty := True\<rparr>, True) else (s1, True)
          | _ \<Rightarrow> (s, False)))
   | _ \<Rightarrow> (s, False))"

definition same_shape :: "json \<Rightarrow> json \<Rightarrow> bool" where
  "same_shape g w \<longleftrightarrow> w = jobj (map (\<lambda>k. (k, field g k)) [''e'', ''x'', ''y'', ''r'', ''z''])"

definition apply_put :: "platform \<Rightarrow> jstring \<Rightarrow> json list \<Rightarrow> replica \<Rightarrow> replica \<times> bool" where
  "apply_put P i p s = (case p of
     [_, _, g, lj, aj] \<Rightarrow>
       (case (okStamp lj aj s, sanitizeSticker P g) of
          (Some (l, a), Some w) \<Rightarrow>
            if \<not> same_shape g w then (s, False)
            else if map_of (dead s) i \<noteq> None then (s, True)
            else if map_of (stickers s) i = None \<and> idCount s \<ge> MAX_IDS then (s, False)
            else let s1 = s\<lparr>clock := max (clock s) l\<rparr> in
              if wins l a (map_of (stickers s) i)
              then (s1\<lparr>stickers := AList.update i \<lparr>e_v = w, e_l = l, e_a = a\<rparr> (stickers s), dirty := True\<rparr>, True) else (s1, True)
        | _ \<Rightarrow> (s, False))
   | _ \<Rightarrow> (s, False))"

definition apply_dead :: "jstring \<Rightarrow> json list \<Rightarrow> replica \<Rightarrow> replica \<times> bool" where
  "apply_dead i p s = (case p of
     [_, _, lj] \<Rightarrow>
       (case okClock lj s of None \<Rightarrow> (s, False)
        | Some l \<Rightarrow>
            if map_of (stickers s) i = None \<and> map_of (dead s) i = None \<and> idCount s \<ge> MAX_IDS then (s, False)
            else let was = (case map_of (dead s) i of Some n \<Rightarrow> n | None \<Rightarrow> 0) in
              (s\<lparr>clock := max (clock s) l, dirty := (dirty s \<or> map_of (stickers s) i \<noteq> None),
                 stickers := AList.delete i (stickers s), dead := AList.update i (max was l) (dead s)\<rparr>, True))
   | _ \<Rightarrow> (s, False))"

text \<open>\<open>apply\<close>: the new state, and whether the operation was in order.\<close>

definition apply_op :: "platform \<Rightarrow> (jstring \<times> (json \<Rightarrow> bool)) list \<Rightarrow> json list \<Rightarrow> replica \<Rightarrow> replica \<times> bool" where
  "apply_op P rs p s =
     (let kind = item p 0 in
      if kind = JStr (js ''f'') then apply_field rs p s
      else case item p 1 of
        JStr i \<Rightarrow> if \<not> is_sticker i then (s, False)
          else if kind = JStr (js ''s'') then apply_put P i p s
          else if kind = JStr (js ''d'') then apply_dead i p s
          else (s, False)
      | _ \<Rightarrow> (s, False))"

end
