(* ===== verification/Collab_Run.thy ===== *)
theory Collab_Run
  imports Collab
begin

text \<open>
  The operations of a replica that the page calls: \<open>seed\<close>, \<open>local\<close>, \<open>applyTo\<close>, \<open>doc\<close>, \<open>connected\<close>, \<open>tick\<close> and \<open>receive\<close> of
  \<open>collab.js\<close>. \<open>JSON.parse\<close> is the parameter \<open>parse\<close>.
\<close>

section \<open>Meta data and digests\<close>

definition opt_field :: "json \<Rightarrow> string \<Rightarrow> jstring option" where
  "opt_field v k = (if truthy (field v k) then as_string (field v k) else None)"

definition pick_meta :: "json \<Rightarrow> info" where   \<comment> \<open>\<open>pick\<close>, and the first lines of \<open>seed\<close>\<close>
  "pick_meta m = \<lparr>m_k = (case field m ''k'' of JStr s \<Rightarrow> s | _ \<Rightarrow> []), m_m = opt_field m ''m'', m_i = opt_field m ''i''\<rparr>"

definition same_info :: "info \<Rightarrow> json \<Rightarrow> bool" where
  "same_info i m \<longleftrightarrow> field m ''k'' = JStr (m_k i) \<and>
     field m ''m'' = (case m_m i of Some x \<Rightarrow> JStr x | None \<Rightarrow> JUndef) \<and> field m ''i'' = (case m_i i of Some x \<Rightarrow> JStr x | None \<Rightarrow> JUndef)"

definition okMeta :: "catalog \<Rightarrow> json \<Rightarrow> replica \<Rightarrow> bool" where
  "okMeta c m s \<longleftrightarrow> one_of COLLAB_KINDS (field m ''k'') \<and>
     (if field m ''k'' = JStr (js ''sound'') then one_of [''beat'', ''voice''] (field m ''m'') else field m ''m'' = JUndef) \<and>
     (field m ''i'' = JUndef \<or> (case sanitizeId c (field m ''i'') of Some i \<Rightarrow> field m ''i'' = JStr i | None \<Rightarrow> False)) \<and>
     (case meta s of None \<Rightarrow> True | Some i \<Rightarrow> same_info i m)"

definition info_json :: "info option \<Rightarrow> json" where
  "info_json i = (case i of None \<Rightarrow> JNull
     | Some i \<Rightarrow> jobj ([(''k'', JStr (m_k i))] @ opt_json ''m'' (map_option JStr (m_m i)) @ opt_json ''i'' (map_option JStr (m_i i))))"

definition frame_json :: "string \<Rightarrow> (string \<times> json) list \<Rightarrow> replica \<Rightarrow> json" where   \<comment> \<open>\<open>frame\<close>\<close>
  "frame_json t extra s = jobj ([(''v'', JInt 1), (''t'', JStr (js t)), (''d'', info_json (meta s))] @ extra)"

definition who :: "platform \<Rightarrow> replica \<Rightarrow> (string \<times> json) list" where
  "who P s = [(''h'', JInt (hash_of P s)), (''n'', JStr (sanitizeName P (nick s))), (''e'', JStr (sanitizeEmoji P (face s))),
     (''id'', JStr (actor s))]"

definition since :: "int \<Rightarrow> int option \<Rightarrow> int \<Rightarrow> bool" where   \<comment> \<open>\<open>now - t >= d\<close>\<close>
  "since now t d \<longleftrightarrow> (case t of None \<Rightarrow> True | Some t \<Rightarrow> d \<le> now - t)"

definition asksFull :: "platform \<Rightarrow> int \<Rightarrow> jnum \<Rightarrow> replica \<Rightarrow> replica" where
  "asksFull P now theirs s =
     (if theirs = Rat (of_int (hash_of P s)) \<or> \<not> since now (lastFull s) FULL_MIN_MS then s
      else fold (\<lambda>(k, p). queue k p) (fullOps s) (s\<lparr>lastFull := Some now\<rparr>))"

section \<open>Local edits\<close>

definition set_view :: "jstring \<Rightarrow> json \<Rightarrow> replica \<Rightarrow> replica" where
  "set_view k v s = s\<lparr>view := AList.update k v (view s)\<rparr>"

definition new_id :: "replica \<Rightarrow> jstring \<times> replica" where
  "new_id s = (let (l, s1) = tick_clock s in (decimal l @ 46 # actor s, s1))"

definition shape :: "platform \<Rightarrow> json \<Rightarrow> json" where
  "shape P g = (case sanitizeSticker P g of Some w \<Rightarrow> w | None \<Rightarrow> JNull)"

definition set_id :: "nat \<Rightarrow> jstring \<Rightarrow> replica \<Rightarrow> replica" where
  "set_id r i s = s\<lparr>ids := (ids s)(r \<mapsto> i)\<rparr>"

definition show_id :: "jstring \<Rightarrow> replica \<Rightarrow> replica" where
  "show_id i s = s\<lparr>showing := showing s @ [i]\<rparr>"

definition seed_sticker :: "platform \<Rightarrow> nat \<times> json \<Rightarrow> replica \<Rightarrow> replica" where
  "seed_sticker P = (\<lambda>(r, g) s. let (i, s1) = new_id s in show_id i (putSticker i (shape P g) (set_id r i s1)))"

definition seed :: "catalog \<Rightarrow> platform \<Rightarrow> work \<Rightarrow> replica \<Rightarrow> replica" where
  "seed c P w s =
     (let s1 = s\<lparr>meta := Some (pick_meta (w_doc w))\<rparr>;
          s2 = fold (\<lambda>(k, v) s. set_view k v (setLocal k v s)) (flatten c P (w_doc w)) s1;
          s3 = s2\<lparr>showing := []\<rparr>
      in fold (seed_sticker P) (case w_sk w of Some xs \<Rightarrow> xs | None \<Rightarrow> []) s3)"

definition local_field :: "jstring \<times> json \<Rightarrow> replica \<times> bool \<Rightarrow> replica \<times> bool" where
  "local_field = (\<lambda>(k, v) (s, changed).
     if map_of (view s) k = Some v then (s, changed) else (set_view k v (setLocal k v s), True))"

text \<open>
  One sticker of the sheet: its id, or the id of one that was shown, is not yet seen and looks the same (after undo), or a new id. The
  state, what was seen and whether something changed.
\<close>

definition found_id :: "platform \<Rightarrow> nat \<Rightarrow> json \<Rightarrow> jstring list \<Rightarrow> replica \<Rightarrow> jstring option" where
  "found_id P r now seen s = (case ids s r of Some i \<Rightarrow> Some i
     | None \<Rightarrow> List.find (\<lambda>k. k \<notin> set seen \<and> (case map_of (stickers s) k of Some e \<Rightarrow> e_v e = now | None \<Rightarrow> False)) (showing s))"

definition local_sticker :: "platform \<Rightarrow> nat \<times> json \<Rightarrow> replica \<times> jstring list \<times> bool \<Rightarrow> replica \<times> jstring list \<times> bool" where
  "local_sticker P = (\<lambda>(r, g) (s, seen, changed).
     let now = shape P g in
     case found_id P r now seen s of
       None \<Rightarrow>
         if idCount s \<ge> LOCAL_IDS then (s\<lparr>dirty := True\<rparr>, seen, changed)
         else let (i, s1) = new_id s in (show_id i (putSticker i now (set_id r i s1)), i # seen, True)
     | Some i \<Rightarrow>
         let s1 = set_id r i s in
         if (case map_of (stickers s1) i of Some e \<Rightarrow> e_v e \<noteq> now | None \<Rightarrow> False) then (putSticker i now s1, i # seen, True)
         else (s1, i # seen, changed))"

definition local_gone :: "jstring list \<Rightarrow> jstring \<Rightarrow> replica \<times> bool \<Rightarrow> replica \<times> bool" where
  "local_gone seen i = (\<lambda>(s, changed).
     if i \<notin> set seen \<and> map_of (stickers s) i \<noteq> None then (kill i s, True) else (s, changed))"

definition local :: "catalog \<Rightarrow> platform \<Rightarrow> work \<Rightarrow> replica \<Rightarrow> replica \<times> bool" where
  "local c P w s =
     (let (s1, ch1) = fold local_field (flatten c P (w_doc w)) (s, False)
      in case w_sk w of None \<Rightarrow> (s1, ch1)
       | Some xs \<Rightarrow>
           let (s2, seen, ch2) = fold (local_sticker P) xs (s1, [], ch1);
               (s3, ch3) = fold (local_gone seen) (showing s2) (s2, ch2);
               s4 = s3\<lparr>showing := filter (\<lambda>i. i \<in> set seen) (showing s3)\<rparr>;
               s5 = (if map (\<lambda>(r, g). ids s4 r) xs = map Some (visible s4) then s4 else s4\<lparr>dirty := True\<rparr>)
           in (s5, ch3))"

section \<open>The merged state in the sheet\<close>

definition apply_cell :: "(jstring \<times> (json \<Rightarrow> bool)) list \<Rightarrow> jstring \<times> entry \<Rightarrow> json \<times> replica \<times> jstring list \<Rightarrow> json \<times> replica \<times> jstring list" where
  "apply_cell rs = (\<lambda>(k, e) (d, s, keys).
     if map_of rs k = None \<or> map_of (view s) k = Some (e_v e) then (d, s, keys)
     else (assign d k (e_v e), set_view k (e_v e) s, keys @ [k]))"

text \<open>
  A sticker keeps its object where the sheet has one with its id, the last if there are several; the object is changed in place, so the
  sheet's list as it was has the new values too when the code compares it with the new list.
\<close>

definition place_sticker :: "replica \<Rightarrow> (nat \<times> json) list \<Rightarrow> jstring \<Rightarrow> (nat \<times> json) list \<times> nat \<times> (nat \<times> jstring) list \<Rightarrow>
    (nat \<times> json) list \<times> nat \<times> (nat \<times> jstring) list" where
  "place_sticker s old i = (\<lambda>(out, new, named).
     let v = (case map_of (stickers s) i of Some e \<Rightarrow> e_v e | None \<Rightarrow> JUndef) in
     case List.find (\<lambda>(r, g). ids s r = Some i) (rev old) of
       Some (r, g) \<Rightarrow> (out @ [(r, fold (\<lambda>k g. put_key g (js k) (field v k)) [''e'', ''x'', ''y'', ''r'', ''z''] g)], new, named @ [(r, i)])
     | None \<Rightarrow> (out @ [(new, jobj (map (\<lambda>k. (k, field v k)) [''e'', ''x'', ''y'', ''r'', ''z'']))], new + 1, named @ [(new, i)]))"

definition applyTo :: "platform \<Rightarrow> work \<Rightarrow> replica \<Rightarrow> (work \<times> jstring list option) \<times> replica" where
  "applyTo P w s =
     (if \<not> dirty s then ((w, None), s)
      else let rs = rules P (case meta s of Some i \<Rightarrow> m_k i | None \<Rightarrow> []);
               (d, s1, keys) = fold (apply_cell rs) (cells s) (w_doc w, s\<lparr>dirty := False\<rparr>, [])
      in case w_sk w of None \<Rightarrow> ((w\<lparr>w_doc := d\<rparr>, Some keys), s1)
       | Some xs \<Rightarrow>
           let (ys, new, named) = fold (place_sticker s1 xs) (visible s1) ([], w_new w, []);
               s2 = s1\<lparr>ids := fold (\<lambda>(r, i) f. f(r \<mapsto> i)) named (ids s1), showing := visible s1\<rparr>;
               xs' = map (\<lambda>(r, g). (r, case map_of ys r of Some g' \<Rightarrow> g' | None \<Rightarrow> g)) xs;
               keys' = (if map (shape P \<circ> snd) xs' \<noteq> map (shape P \<circ> snd) ys then keys @ [js ''sk''] else keys)
           in ((\<lparr>w_doc = d, w_sk = Some ys, w_new = new\<rparr>, Some keys'), s2))"

text \<open>\<open>doc\<close>: the sheet of the side that joined with nothing.\<close>

definition joined_doc :: "catalog \<Rightarrow> platform \<Rightarrow> replica \<Rightarrow> (work \<times> replica) option" where
  "joined_doc c P s = (case meta s of None \<Rightarrow> None
     | Some i \<Rightarrow>
         (case sanitizeDoc c P (jobj ([(''k'', JStr (m_k i)), (''by'', JArr [])] @ opt_json ''i'' (map_option JStr (m_i i)) @
              opt_json ''m'' (map_option JStr (m_m i)))) of
            None \<Rightarrow> None
          | Some d \<Rightarrow> Some (\<lparr>w_doc = d, w_sk = (if field d ''sk'' = JUndef then None else Some []), w_new = 0\<rparr>,
              s\<lparr>view := flatten c P d, showing := [], dirty := True\<rparr>)))"

section \<open>Sending\<close>

definition op_bytes :: "platform \<Rightarrow> json list \<Rightarrow> nat" where
  "op_bytes P p = utf8_length (json_text P (JArr p)) + 1"

fun take_from :: "platform \<Rightarrow> jstring list \<Rightarrow> (jstring \<times> json list) list \<Rightarrow> json list list \<Rightarrow> nat \<Rightarrow>
    json list list \<times> jstring list \<times> (jstring \<times> json list) list" where
  "take_from P [] ob ops sz = (ops, [], ob)"
| "take_from P (k # ks) ob ops sz =
     (if length ops \<ge> MAX_OPS then (ops, k # ks, ob)
      else case map_of ob k of
        None \<Rightarrow> take_from P ks (AList.delete k ob) ops sz
      | Some p \<Rightarrow>
          if sz + op_bytes P p > MAX_FRAME - 120 then (ops, k # ks, ob)
          else take_from P ks (AList.delete k ob) (ops @ [p]) (sz + op_bytes P p))"

definition takeOps :: "platform \<Rightarrow> replica \<Rightarrow> json list list \<times> replica" where
  "takeOps P s = (let (ops, ks, ob) = take_from P (order s) (outbox s) [] 80 in (ops, s\<lparr>order := ks, outbox := ob\<rparr>))"

definition refill :: "int \<Rightarrow> replica \<Rightarrow> replica" where
  "refill now s = s\<lparr>tokens := min BUCKET (tokens s + of_int (max 0 (now - refilled s)) / 1000 * REFILL_PER_S), refilled := now\<rparr>"

definition next_frame :: "platform \<Rightarrow> int \<Rightarrow> replica \<Rightarrow> json option \<times> replica" where
  "next_frame P now s =
     (if helloDue s then (Some (frame_json ''hello'' (who P s) s), s\<lparr>helloDue := False, lastDigest := Some now\<rparr>)
      else if order s \<noteq> [] \<and> meta s \<noteq> None then
        (let (ops, s1) = takeOps P s in (Some (frame_json ''ops'' [(''o'', JArr (map JArr ops))] s), s1))
      else if since now (lastDigest s) DIGEST_MS then (Some (frame_json ''dig'' (who P s) s), s\<lparr>lastDigest := Some now\<rparr>)
      else (None, s))"

definition tick :: "platform \<Rightarrow> int \<Rightarrow> replica \<Rightarrow> json option \<times> replica" where
  "tick P now s =
     (let s1 = refill now s in
      if \<not> up s1 \<or> tokens s1 < 1 \<or> \<not> since now (lastFlush s1) FLUSH_MS then (None, s1)
      else case next_frame P now s1 of
        (None, s2) \<Rightarrow> (None, s2)
      | (Some f, s2) \<Rightarrow> (Some f, s2\<lparr>tokens := tokens s2 - 1, lastFlush := Some now\<rparr>))"

definition connected :: "platform \<Rightarrow> int \<Rightarrow> replica \<Rightarrow> json option \<times> replica" where
  "connected P now s = tick P now (s\<lparr>up := True, lastDigest := None, helloDue := True, tokens := max (tokens s) 2\<rparr>)"

definition disconnected :: "replica \<Rightarrow> replica" where "disconnected s = s\<lparr>up := False\<rparr>"

section \<open>Receiving\<close>

datatype outcome = Dropped | Partly | Okay

definition receive_digest :: "catalog \<Rightarrow> platform \<Rightarrow> int \<Rightarrow> json \<Rightarrow> replica \<Rightarrow> outcome \<times> replica \<times> bool" where
  "receive_digest c P now f s = (case (field f ''h'', field f ''id'') of
     (JNum h, JStr a) \<Rightarrow>
       if field f ''d'' \<noteq> JNull \<and> \<not> okMeta c (field f ''d'') s \<or> \<not> is_actor a then (Dropped, s, False)
       else let n = sanitizeName P (field f ''n''); e = sanitizeEmoji P (field f ''e'');
                fresh = (case peer s of None \<Rightarrow> True | Some (_, n', e') \<Rightarrow> n' \<noteq> n \<or> e' \<noteq> e);
                s1 = s\<lparr>peer := Some (a, n, e), peerSeen := now\<rparr>;
                s2 = (if field f ''d'' \<noteq> JNull \<and> meta s1 = None then s1\<lparr>meta := Some (pick_meta (field f ''d''))\<rparr> else s1);
                s3 = (if meta s2 \<noteq> None \<and> order s2 = [] then asksFull P now h s2 else s2)
            in (Okay, s3, fresh)
   | _ \<Rightarrow> (Dropped, s, False))"

definition apply_all :: "platform \<Rightarrow> (jstring \<times> (json \<Rightarrow> bool)) list \<Rightarrow> json list \<Rightarrow> replica \<Rightarrow> replica \<times> nat" where
  "apply_all P rs ops s = fold (\<lambda>p (s, bad). case p of
       JArr xs \<Rightarrow> (case apply_op P rs xs s of (s', ok) \<Rightarrow> (s', if ok then bad else bad + 1))
     | _ \<Rightarrow> (s, bad + 1)) ops (s, 0)"

definition receive_ops :: "catalog \<Rightarrow> platform \<Rightarrow> int \<Rightarrow> json \<Rightarrow> replica \<Rightarrow> outcome \<times> replica" where
  "receive_ops c P now f s = (case field f ''o'' of
     JArr ops \<Rightarrow>
       if \<not> okMeta c (field f ''d'') s \<or> length ops > MAX_OPS then (Dropped, s)
       else let s1 = (if meta s = None then s\<lparr>meta := Some (pick_meta (field f ''d''))\<rparr> else s);
                (s2, bad) = apply_all P (rules P (case meta s1 of Some i \<Rightarrow> m_k i | None \<Rightarrow> [])) ops s1
            in ((if bad = 0 then Okay else Partly), s2\<lparr>rejected := rejected s2 + bad, peerSeen := now\<rparr>)
   | _ \<Rightarrow> (Dropped, s))"

text \<open>The third value is whether \<open>onPeer\<close> is called.\<close>

definition receive :: "catalog \<Rightarrow> platform \<Rightarrow> (jstring \<Rightarrow> json option) \<Rightarrow> json \<Rightarrow> int \<Rightarrow> replica \<Rightarrow> outcome \<times> replica \<times> bool" where
  "receive c P parse str0 now s =
     (let s0 = s\<lparr>arrivals := filter (\<lambda>t. now - t < 60000) (arrivals s)\<rparr> in
      case str0 of
        JStr str \<Rightarrow>
          if length str > MAX_FRAME \<or> length (arrivals s0) \<ge> MAX_IN_PER_MIN then (Dropped, s0, False)
          else let s1 = s0\<lparr>arrivals := arrivals s0 @ [now]\<rparr> in
            (case parse str of None \<Rightarrow> (Dropped, s1, False)
             | Some f \<Rightarrow>
                 if field f ''v'' \<noteq> JInt 1 then (Dropped, s1, False)
                 else if one_of [''hello'', ''dig''] (field f ''t'') then receive_digest c P now f s1
                 else if field f ''t'' = JStr (js ''ops'') then (case receive_ops c P now f s1 of (r, s2) \<Rightarrow> (r, s2, False))
                 else (Dropped, s1, False))
      | _ \<Rightarrow> (Dropped, s0, False))"

definition hasWork :: "replica \<Rightarrow> bool" where "hasWork s \<longleftrightarrow> meta s \<noteq> None \<and> cells s \<noteq> []"

definition peerHere :: "int \<Rightarrow> replica \<Rightarrow> bool" where
  "peerHere now s \<longleftrightarrow> peer s \<noteq> None \<and> up s \<and> now - peerSeen s < GONE_MS"

definition snapshot :: "replica \<Rightarrow> (jstring \<times> json option) list \<times> (jstring \<times> json option) list \<times> jstring list" where
  "snapshot s = (map (\<lambda>k. (k, map_option e_v (map_of (cells s) k))) (sort (map fst (cells s))),
     map (\<lambda>i. (i, map_option e_v (map_of (stickers s) i))) (visible s), sort (map fst (dead s)))"

text \<open>\<open>newActor\<close>: eight digits to the base 36 from numbers in \<open>[0, 1)\<close>.\<close>

definition base36 :: "rat \<Rightarrow> nat" where
  "base36 r = (let n = nat \<lfloor>r * 36\<rfloor> in if n < 10 then 48 + n else 87 + n)"

definition newActor :: "rat list \<Rightarrow> jstring" where "newActor rs = map base36 (take 8 rs)"

end
