(* ===== verification/Daily_Doc_Ok.thy ===== *)
theory Daily_Doc_Ok
  imports Daily_Doc
begin

text \<open>
  A cleaned sheet passes the cleaning unchanged, for every kind: what one phone shows is what it sends, and what the next one shows.
\<close>

declare drop_stickers.simps [simp del] drop_trail.simps [simp del]

section \<open>Parts\<close>

lemma cleanInput_clean: "cleanInput P v mx = clean ((uc P)\<lparr>contact := \<lambda>s. False\<rparr>) (string_of P v) mx"
proof -
  have "isClean ((uc P)\<lparr>contact := \<lambda>s. False\<rparr>) t = isClean (uc P) t" for t
    by (simp add: isClean_def foldText_def variant_clean_def)
  then show ?thesis by (simp add: cleanInput_def marked_out_def clean_def)
qed

lemma cleanInput_idem [simp]: "cleanInput P (JStr (cleanInput P v mx)) mx = cleanInput P v mx"
  by (simp add: cleanInput_clean clean_idem)

lemma quest_clean_idem [simp]: "quest_clean P (JStr (quest_clean P v mx)) mx = quest_clean P v mx"
  by (simp add: quest_clean_def clean_idem)

lemma clean_empty [simp]: "clean u [] mx = []"
  by (simp add: clean_def trim_def)

lemma clean_absent [simp]: "cleanInput P JUndef mx = []" "quest_clean P JUndef mx = []"
  by (simp_all add: cleanInput_clean quest_clean_def)

lemma member_or_idem [simp]: "member_or xs d (member_or xs d v) = member_or xs d v" if "d \<in> set xs"
  using that by (auto simp: member_or_def one_of_def)

lemma whole_num_idem: "lo \<le> d \<Longrightarrow> d \<le> hi \<Longrightarrow> whole_num P (whole_num P v lo hi d) lo hi d = whole_num P v lo hi d"
  unfolding whole_num_def by (subst round_clamp_again) (use round_clamp_between in \<open>blast+\<close>)

lemma floor_num_idem:
  assumes "lo \<le> d" "d \<le> hi" shows "floor_num P (floor_num P v lo hi d) lo hi d = floor_num P v lo hi d"
proof -
  let ?r = "clampOr P v (of_int lo) (of_int hi) (of_int d)"
  have "of_int lo \<le> ?r \<and> ?r \<le> of_int hi" using assms by (intro clampOr_between) simp_all
  then have "lo \<le> \<lfloor>?r\<rfloor>" "\<lfloor>?r\<rfloor> \<le> hi" by (simp_all add: le_floor_iff floor_le_iff)
  then have "clampOr P (JInt \<lfloor>?r\<rfloor>) (of_int lo) (of_int hi) (of_int d) = of_int \<lfloor>?r\<rfloor>" by (intro clampOr_inside) simp_all
  then show ?thesis unfolding floor_num_def by simp
qed

lemma default_colours: "is_hex6 (js ''#ffd400'')" "is_hex6 (js ''#ff3b1d'')"
  by (simp_all add: is_hex6_def hex_char_def)

lemma sanitizeColors_idem [simp]: "sanitizeColors P (sanitizeColors P v) = sanitizeColors P v"
proof (cases "\<exists>a b. v = JArr [a, b] \<and> is_hex6 (as_text P a) \<and> is_hex6 (as_text P b)")
  case True
  then have "sanitizeColors P v = v" by (auto simp: sanitizeColors_def)
  then show ?thesis by simp
next
  case False
  then have "sanitizeColors P v = JArr [JStr (js ''#ffd400''), JStr (js ''#ff3b1d'')]"
    by (simp add: sanitizeColors_def del: js_Cons split: json.split list.split) blast
  then show ?thesis using default_colours by (simp add: sanitizeColors_def as_text_def del: js_Cons)
qed

lemma steps_idem [simp]: "steps (steps v) = steps v"
  by (auto simp: steps_def step_char_def list_all_iff split: json.splits)

lemma thousandth_again:
  assumes "of_int l = lo * 1000" "of_int h = hi * 1000" "lo \<le> d" "d \<le> hi"
  shows "thousandth P (thousandth P v lo hi d) lo hi d = thousandth P v lo hi d"
proof -
  let ?r = "clampOr P v lo hi d"
  let ?n = "round_half (?r * 1000)"
  have "lo \<le> ?r \<and> ?r \<le> hi" using assms by (intro clampOr_between) simp_all
  then have "of_int l \<le> ?r * 1000" "?r * 1000 \<le> of_int h" using assms(1,2) by simp_all
  then have "l \<le> ?n" "?n \<le> h" using round_half_mono round_half_int by metis+
  then have "(of_int l :: rat) \<le> of_int ?n" "(of_int ?n :: rat) \<le> of_int h" by (simp_all only: of_int_le_iff)
  then have "lo \<le> of_int ?n / 1000" "of_int ?n / 1000 \<le> hi" using assms(1,2) by simp_all
  then have "clampOr P (JNum (Rat (of_int ?n / 1000))) lo hi d = of_int ?n / 1000" by (simp add: clampOr_def clampNum_def)
  then show ?thesis unfolding thousandth_def by simp
qed

lemma sanitizeSticker_again: "platform_ok P \<Longrightarrow> sanitizeSticker P v = Some w \<Longrightarrow> sanitizeSticker P w = Some w"
proof -
  assume ok: "platform_ok P" and "sanitizeSticker P v = Some w"
  then have w: "w = jobj
     [(''e'', JStr (sanitizeEmoji P (field v ''e''))), (''x'', thousandth P (field v ''x'') 0 1 (1 / 2)),
      (''y'', thousandth P (field v ''y'') 0 1 (1 / 2)), (''r'', thousandth P (field v ''r'') (- 314 / 100) (314 / 100) 0),
      (''z'', thousandth P (field v ''z'') (1 / 2) (5 / 2) 1)]" by (simp add: sanitizeSticker_def split: if_splits)
  have f: "field w ''e'' = JStr (sanitizeEmoji P (field v ''e''))" "field w ''x'' = thousandth P (field v ''x'') 0 1 (1 / 2)"
    "field w ''y'' = thousandth P (field v ''y'') 0 1 (1 / 2)" "field w ''r'' = thousandth P (field v ''r'') (- 314 / 100) (314 / 100) 0"
    "field w ''z'' = thousandth P (field v ''z'') (1 / 2) (5 / 2) 1" by (simp_all add: w)
  have t: "thousandth P (thousandth P u 0 1 (1 / 2)) 0 1 (1 / 2) = thousandth P u 0 1 (1 / 2)"
    "thousandth P (thousandth P u (- 314 / 100) (314 / 100) 0) (- 314 / 100) (314 / 100) 0 = thousandth P u (- 314 / 100) (314 / 100) 0"
    "thousandth P (thousandth P u (1 / 2) (5 / 2) 1) (1 / 2) (5 / 2) 1 = thousandth P u (1 / 2) (5 / 2) 1" for u
    by (rule thousandth_again [of 0 _ 1000] thousandth_again [of "- 3140" _ 3140] thousandth_again [of 500 _ 2500]; simp)+
  have "is_object w" by (simp add: w jobj_def)
  then show ?thesis unfolding sanitizeSticker_def f t sanitizeEmoji_idem [OF ok] by (simp only: w if_True)
qed

lemma map_filter_fixed:
  assumes "\<And>x v. f v = Some x \<Longrightarrow> f x = Some x" "set ys \<subseteq> set (List.map_filter f vs)"
  shows "List.map_filter f ys = ys"
proof -
  have "List.map_filter f ys = map (\<lambda>x. x) ys" using assms by (intro map_filter_all) (blast dest: map_filter_member)
  then show ?thesis by simp
qed

lemma sanitizeStickers_idem [simp]: "platform_ok P \<Longrightarrow> sanitizeStickers P (JArr (sanitizeStickers P v)) = sanitizeStickers P v"
proof -
  assume ok: "platform_ok P"
  let ?s = "List.map_filter (sanitizeSticker P) (take MAX_STICKERS (elements v))"
  have "length ?s \<le> MAX_STICKERS" using map_filter_length [of "sanitizeSticker P" "take MAX_STICKERS (elements v)"] by simp
  moreover have "List.map_filter (sanitizeSticker P) ?s = ?s"
    by (rule map_filter_fixed) (auto intro: sanitizeSticker_again [OF ok])
  ultimately show ?thesis by (simp add: sanitizeStickers_def)
qed

lemma trail_entry_again: "platform_ok P \<Longrightarrow> trail_entry P v = Some w \<Longrightarrow> trail_entry P w = Some w"
proof -
  assume ok: "platform_ok P" and e: "trail_entry P v = Some w"
  let ?a = "take (length AREAS) (filter (one_of AREAS) (elements (field v ''w'')))"
  have w: "w = jobj [(''n'', JStr (sanitizeName P (field v ''n''))), (''w'', JArr ?a)]" "?a \<noteq> []"
    using e by (simp_all add: trail_entry_def Let_def split: if_splits)
  have "list_all (one_of AREAS) ?a" by (auto simp: list_all_iff dest: in_set_takeD)
  then have "filter (one_of AREAS) ?a = ?a" by (simp only: filter_id_conv list_all_iff)
  moreover have "field w ''w'' = JArr ?a" "field w ''n'' = JStr (sanitizeName P (field v ''n''))" by (simp_all add: w(1))
  ultimately show ?thesis using w ok by (simp add: trail_entry_def Let_def)
qed

lemma lastn_set: "set (lastn n xs) \<subseteq> set xs" by (simp add: lastn_def set_drop_subset)
lemma lastn_idem [simp]: "lastn n (lastn n xs) = lastn n xs" by (simp add: lastn_def)

lemma sanitizeTrail_idem [simp]: "platform_ok P \<Longrightarrow> sanitizeTrail P (JArr (sanitizeTrail P v)) = sanitizeTrail P v"
proof -
  assume ok: "platform_ok P"
  have "List.map_filter (trail_entry P) (sanitizeTrail P v) = sanitizeTrail P v"
    unfolding sanitizeTrail_def by (rule map_filter_fixed [OF _ lastn_set]) (rule trail_entry_again [OF ok])
  then show ?thesis by (simp add: sanitizeTrail_def)
qed

lemma sanitizeId_again: "sanitizeId c v = Some i \<Longrightarrow> sanitizeId c (JStr i) = Some i"
  by (auto simp: sanitizeId_def split: json.splits if_splits)

lemma sanitizeKi_again: "sanitizeKi v = Some w \<Longrightarrow> sanitizeKi w = Some w"
proof -
  assume k: "sanitizeKi v = Some w"
  let ?s = "field v ''s''" let ?h = "field v ''h''"
  have w: "w = jobj ([(''k'', field v ''k'')] @ opt (is_seal ?s) ''s'' ?s @ opt (is_seal ?s \<and> is_hash43 ?h) ''h'' ?h)"
    "small_word (field v ''k'')" using k by (simp_all add: sanitizeKi_def split: if_splits)
  have f: "field w ''k'' = field v ''k''" "field w ''s'' = (if is_seal ?s then ?s else JUndef)"
    "field w ''h'' = (if is_seal ?s \<and> is_hash43 ?h then ?h else JUndef)"
    unfolding w field_jobj by (simp_all add: map_of_opt map_of_opt1 del: map_of_append)
  have "\<not> is_seal JUndef" "\<not> is_hash43 JUndef" by (simp_all add: is_seal_def is_hash43_def)
  then show ?thesis unfolding sanitizeKi_def f using w by (cases "is_seal ?s"; cases "is_hash43 ?h") (simp_all add: opt_def)
qed

lemma sanitizeWeather_again: "sanitizeWeather P v = Some w \<Longrightarrow> sanitizeWeather P w = Some w"
proof -
  assume s: "sanitizeWeather P v = Some w"
  let ?p = "cleanInput P (field v ''p'') 32"
  obtain hi lo where n: "clampNum P (field v ''hi'') (- 60) 60 = Some hi" "clampNum P (field v ''lo'') (- 60) 60 = Some lo"
    and d: "is_date (as_text P (field v ''d''))" and p: "?p \<noteq> []"
    and w: "w = jobj [(''p'', JStr ?p), (''d'', field v ''d''), (''hi'', JInt (round_half hi)), (''lo'', JInt (round_half lo)),
      (''rn'', whole_num P (field v ''rn'') 0 100 0), (''c'', whole_num P (field v ''c'') 0 99 0)]"
    using s by (auto simp: sanitizeWeather_def Let_def split: if_splits option.splits)
  have again: "clampNum P (JInt (round_half r)) (- 60) 60 = Some (of_int (round_half r))" if "clampNum P u (- 60) 60 = Some r" for r u
  proof -
    have "of_int (- 60) \<le> r" "r \<le> of_int 60" using that by (auto simp: clampNum_def)
    then have "- 60 \<le> round_half r" "round_half r \<le> 60" using round_half_mono round_half_int by metis+
    then show ?thesis by (simp add: clampNum_def)
  qed
  have f: "field w ''p'' = JStr ?p" "field w ''d'' = field v ''d''" "field w ''hi'' = JInt (round_half hi)" "field w ''lo'' = JInt (round_half lo)"
    "field w ''rn'' = whole_num P (field v ''rn'') 0 100 0" "field w ''c'' = whole_num P (field v ''c'') 0 99 0" by (simp_all add: w)
  have "whole_num P (whole_num P u 0 100 0) 0 100 0 = whole_num P u 0 100 0" "whole_num P (whole_num P u 0 99 0) 0 99 0 = whole_num P u 0 99 0" for u
    by (rule whole_num_idem; simp)+
  then show ?thesis unfolding sanitizeWeather_def f again [OF n(1)] again [OF n(2)] using d p
    by (simp only: if_False not_True_eq_False option.case prod.case cleanInput_idem round_half_int Let_def simp_thms if_True w)
qed

section \<open>The parts of each kind\<close>

text \<open>What the texts of the program itself have to pass.\<close>

definition signs_ok :: "platform \<Rightarrow> bool" where
  "signs_ok P \<longleftrightarrow> platform_ok P \<and> sanitizeEmoji P (JStr robot) = robot \<and> sanitizeEmoji P (JStr key_sign) = key_sign \<and>
     sliced P MAX_TITLE (JStr (js ''Duell'')) = js ''Duell''"

lemma map_of_part [simp]:
  "map_of (opt b k v @ r) j = (if b \<and> j = k then Some v else map_of r j)"
  "map_of (opt b k v) j = (if b \<and> j = k then Some v else None)"
  "map_of (opt_json k w @ r) j = (if j = k \<and> w \<noteq> None then w else map_of r j)"
  "map_of (opt_json k w) j = (if j = k then w else None)"
  by (cases w; auto simp: opt_def opt_json_def)+

lemma opt_again: "x = [] \<or> f (JStr x) = x \<Longrightarrow> f JUndef = [] \<Longrightarrow> f (if x \<noteq> [] then JStr x else JUndef) = x"
  by auto

lemma card_again: "platform_ok P \<Longrightarrow> card_part P (jobj (card_part P v)) = card_part P v"
proof -
  assume ok: "platform_ok P"
  let ?w = "jobj (card_part P v)"
  have f: "field ?w ''x'' = JStr (cleanInput P (field v ''x'') MAX_TEXT)" "field ?w ''st'' = member_or CARD_STYLES ''druck'' (field v ''st'')"
    "field ?w ''sk'' = JArr (sanitizeStickers P (field v ''sk''))"
    "field ?w ''w'' = (case sanitizeWeather P (field v ''w'') of Some x \<Rightarrow> x | None \<Rightarrow> JUndef)"
    "field ?w ''nr'' = (if field v ''nr'' \<noteq> JUndef then whole_num P (field v ''nr'') 1 24 1 else JUndef)"
    by (simp_all add: card_part_def del: map_of_append split: option.splits)
  have "sanitizeWeather P JUndef = None" by (simp add: sanitizeWeather_def as_text_def is_date_def)
  then have w: "sanitizeWeather P (field ?w ''w'') = sanitizeWeather P (field v ''w'')"
    unfolding f by (auto split: option.splits dest: sanitizeWeather_again)
  have "whole_num P (whole_num P u 1 24 1) 1 24 1 = whole_num P u 1 24 1" for u by (rule whole_num_idem; simp)
  moreover have "whole_num P u 1 24 1 \<noteq> JUndef" for u by (simp add: whole_num_def)
  ultimately have nr: "opt (field ?w ''nr'' \<noteq> JUndef) ''nr'' (whole_num P (field ?w ''nr'') 1 24 1)
      = opt (field v ''nr'' \<noteq> JUndef) ''nr'' (whole_num P (field v ''nr'') 1 24 1)" unfolding f by (simp add: opt_def)
  have st: "member_or CARD_STYLES ''druck'' (field ?w ''st'') = member_or CARD_STYLES ''druck'' (field v ''st'')"
    unfolding f by (rule member_or_idem) (simp add: CARD_STYLES_def)
  show ?thesis unfolding card_part_def [of P "?w"] w nr st unfolding f cleanInput_idem sanitizeStickers_idem [OF ok]
    by (simp only: card_part_def)
qed

lemma photo_again: "platform_ok P \<Longrightarrow> photo_part P (jobj (photo_part P v)) = photo_part P v"
proof -
  assume ok: "platform_ok P"
  let ?w = "jobj (photo_part P v)"
  have f: "field ?w ''x'' = JStr (cleanInput P (field v ''x'') 28)" "field ?w ''y'' = JStr (cleanInput P (field v ''y'') 28)"
    "field ?w ''st'' = member_or PHOTO_STYLES ''poster'' (field v ''st'')" "field ?w ''sk'' = JArr (sanitizeStickers P (field v ''sk''))"
    by (simp_all add: photo_part_def)
  have st: "member_or PHOTO_STYLES ''poster'' (field ?w ''st'') = member_or PHOTO_STYLES ''poster'' (field v ''st'')"
    unfolding f by (rule member_or_idem) (simp add: PHOTO_STYLES_def)
  show ?thesis unfolding photo_part_def [of P "?w"] st unfolding f cleanInput_idem sanitizeStickers_idem [OF ok]
    by (simp only: photo_part_def)
qed

lemma sound_lines_idem: "sound_lines P (JArr (map JStr (sound_lines P v))) = sound_lines P v"
proof -
  let ?l = "sound_lines P v"
  have len: "length ?l \<le> 4"
    unfolding sound_lines_def by (rule order_trans [OF length_filter_le]) simp
  have fix1: "cleanInput P (JStr s) 60 = s \<and> s \<noteq> []" if "s \<in> set ?l" for s
    using that unfolding sound_lines_def by (auto split: json.splits)
  then have "map (\<lambda>l. case l of JStr s \<Rightarrow> cleanInput P l 60 | _ \<Rightarrow> []) (map JStr ?l) = ?l" by (auto intro: map_idI)
  moreover have "filter (\<lambda>s. s \<noteq> []) ?l = ?l" using fix1 by (auto simp: filter_id_conv)
  moreover have "take 4 (map JStr ?l) = map JStr ?l" using len by simp
  ultimately show ?thesis by (simp only: sound_lines_def [of P "JArr _"] elements.simps)
qed

lemma sound_again: "sound_part P (jobj (sound_part P v)) = sound_part P v"
proof -
  let ?w = "jobj (sound_part P v)"
  let ?p = "\<lambda>u. jobj (map (\<lambda>k. (k, steps (and_field u k))) [''k'', ''s'', ''h'', ''b''])"
  let ?m = "\<lambda>u. if u = JStr (js ''voice'') then JStr (js ''voice'') else JStr (js ''beat'')"
  have f: "field ?w ''m'' = ?m (field v ''m'')"
    "field ?w ''x'' = JStr (cleanInput P (field v ''x'') 28)" "field ?w ''fx'' = member_or FX ''chip'' (field v ''fx'')"
    "field ?w ''bpm'' = whole_num P (field v ''bpm'') 70 170 110" "field ?w ''p'' = ?p (field v ''p'')"
    "field ?w ''ly'' = (if sound_lines P (field v ''ly'') \<noteq> [] then JArr (map JStr (sound_lines P (field v ''ly''))) else JUndef)"
    by (simp_all add: sound_part_def Let_def del: map_of_append js_Cons list.map)
  have fx: "member_or FX ''chip'' (field ?w ''fx'') = member_or FX ''chip'' (field v ''fx'')"
    unfolding f by (rule member_or_idem) (simp add: FX_def)
  have bpm: "whole_num P (field ?w ''bpm'') 70 170 110 = whole_num P (field v ''bpm'') 70 170 110"
    unfolding f by (rule whole_num_idem) simp_all
  have m: "?m (field ?w ''m'') = ?m (field v ''m'')" unfolding f by simp
  have "sound_lines P JUndef = []" by (simp add: sound_lines_def)
  then have ly: "sound_lines P (field ?w ''ly'') = sound_lines P (field v ''ly'')" unfolding f by (simp add: sound_lines_idem)
  have p: "?p (?p u) = ?p u" for u by (simp add: and_field_def)
  show ?thesis unfolding sound_part_def [of P "?w"] fx bpm m ly unfolding f cleanInput_idem p by (simp only: sound_part_def)
qed

lemma sign_again: "signs_ok P \<Longrightarrow> x \<in> {robot, key_sign} \<Longrightarrow>
  sanitizeEmoji P (JStr (case u of JStr s \<Rightarrow> sanitizeEmoji P (JStr s) | _ \<Rightarrow> x)) = (case u of JStr s \<Rightarrow> sanitizeEmoji P (JStr s) | _ \<Rightarrow> x)"
  by (auto simp: signs_ok_def split: json.splits)

lemma agent_again: "signs_ok P \<Longrightarrow> sanitizeAgent P (sanitizeAgent P v) = sanitizeAgent P v"
proof -
  assume ok: "signs_ok P"
  then have p: "platform_ok P" by (simp add: signs_ok_def)
  have n: "whole_num P (whole_num P u 0 100 50) 0 100 50 = whole_num P u 0 100 50" for u by (rule whole_num_idem) simp_all
  have f: "field (sanitizeAgent P v) ''n'' = JStr (sanitizeName P (field v ''n''))"
    "field (sanitizeAgent P v) ''e'' = JStr (case field v ''e'' of JStr s \<Rightarrow> sanitizeEmoji P (JStr s) | _ \<Rightarrow> robot)"
    "field (sanitizeAgent P v) ''r'' = whole_num P (field v ''r'') 0 100 50" "field (sanitizeAgent P v) ''c'' = whole_num P (field v ''c'') 0 100 50"
    "field (sanitizeAgent P v) ''p'' = whole_num P (field v ''p'') 0 100 50" by (simp_all add: sanitizeAgent_def)
  show ?thesis unfolding sanitizeAgent_def [of P "sanitizeAgent P v"] f n json.case
    using sign_again [OF ok, of robot "field v ''e''"] by (simp only: insertI1 sanitizeName_idem [OF p] sanitizeAgent_def)
qed

lemma duel_again: "signs_ok P \<Longrightarrow> 1 \<le> sign_sets c \<Longrightarrow> duel_part c P (jobj (duel_part c P v)) = duel_part c P v"
proof -
  assume ok: "signs_ok P" and sets: "1 \<le> sign_sets c"
  let ?w = "jobj (duel_part c P v)"
  let ?m = "member_or MODES ''rps'' (field v ''m'')"
  let ?g = "\<lambda>u. jobj [(''params'', params_json (sanitizeParams P (and_field u ''params''))), (''theme'', sanitizeTheme (and_field u ''theme''))]"
  have f: "field ?w ''m'' = ?m" "field ?w ''a'' = sanitizeAgent P (field v ''a'')" "field ?w ''b'' = sanitizeAgent P (field v ''b'')"
    "field ?w ''seed'' = floor_num P (field v ''seed'') 0 4294967295 1"
    "field ?w ''set'' = floor_num P (field v ''set'') 0 (int (sign_sets c) - 1) 0"
    "field ?w ''w'' = JStr (cleanInput P (field v ''w'') 14)" "field ?w ''ch'' = JInt (if field v ''ch'' = JInt 1 then 1 else 0)"
    "field ?w ''g'' = (if ?m = JStr (js ''flappy'') then ?g (field v ''g'') else JUndef)"
    by (simp_all add: duel_part_def Let_def del: map_of_append js_Cons)
  have m: "member_or MODES ''rps'' ?m = ?m" by (rule member_or_idem) (simp add: MODES_def)
  have seed: "floor_num P (floor_num P u 0 4294967295 1) 0 4294967295 1 = floor_num P u 0 4294967295 1" for u
    by (rule floor_num_idem) simp_all
  have set: "floor_num P (floor_num P u 0 (int (sign_sets c) - 1) 0) 0 (int (sign_sets c) - 1) 0 = floor_num P u 0 (int (sign_sets c) - 1) 0" for u
    by (rule floor_num_idem) (use sets in simp_all)
  have g: "?g (?g u) = ?g u" for u by (simp add: and_field_def)
  have g': "opt (?m = JStr (js ''flappy'')) ''g'' (?g (field ?w ''g'')) = opt (?m = JStr (js ''flappy'')) ''g'' (?g (field v ''g''))"
    unfolding f using g by (cases "?m = JStr (js ''flappy'')") (simp_all add: opt_def del: js_Cons)
  have ch: "JInt (if JInt (if b then 1 else 0) = JInt 1 then 1 else 0) = JInt (if b then 1 else 0)" for b :: bool by simp
  show ?thesis unfolding duel_part_def [of c P "?w"] Let_def f(1) m g' unfolding f seed set ch agent_again [OF ok] cleanInput_idem
    by (simp only: duel_part_def Let_def)
qed

lemma quest_again: "signs_ok P \<Longrightarrow> quest_part P (jobj (quest_part P v)) = quest_part P v"
proof -
  assume ok: "signs_ok P"
  let ?w = "jobj (quest_part P v)"
  let ?c = "take 3 (filter (is_blob 20 420) (elements (field v ''c'')))"
  have f: "field ?w ''q0'' = JStr (quest_clean P (field v ''q0'') 44)" "field ?w ''h0'' = JStr (quest_clean P (field v ''h0'') 6)"
    "field ?w ''c'' = JArr ?c" "field ?w ''e'' = JStr (case field v ''e'' of JStr s \<Rightarrow> sanitizeEmoji P (JStr s) | _ \<Rightarrow> key_sign)"
    by (simp_all add: quest_part_def)
  have "list_all (is_blob 20 420) ?c" by (auto simp: list_all_iff dest: in_set_takeD)
  then have "filter (is_blob 20 420) ?c = ?c" by (simp only: filter_id_conv list_all_iff)
  then have c: "take 3 (filter (is_blob 20 420) (elements (JArr ?c))) = ?c" by simp
  show ?thesis unfolding quest_part_def [of P "?w"] f c quest_clean_idem json.case
    using sign_again [OF ok, of key_sign "field v ''e''"] by (simp only: insertI1 insert_iff simp_thms quest_part_def)
qed

lemma turn_again: "turn_part P (jobj (turn_part P v)) = turn_part P v"
proof -
  let ?w = "jobj (turn_part P v)"
  let ?g = "member_or TURN_IDS ''deal'' (field v ''g'')"
  let ?t = "quest_clean P (field v ''w'') 14"
  let ?o = "\<lambda>u. case as_integer u of Some n \<Rightarrow> opt (0 \<le> n \<and> n \<le> 99999) ''o'' (JInt n) | None \<Rightarrow> []"
  let ?pk = "\<lambda>u. case sanitize_pack P u of Some p \<Rightarrow> opt (fits_json ?g p) ''pk'' (pack_json p) | None \<Rightarrow> []"
  let ?q = "\<lambda>u. if is_blob 0 900 u then u else JStr []"
  have o1: "map_of (?o u @ r) j = (if j = ''o'' \<and> ?o u \<noteq> [] then Some (JInt (the (as_integer u))) else map_of r j)" for u r j
    by (auto simp: opt_def split: option.splits)
  have pk1: "map_of (?pk u) j = (if j = ''pk'' \<and> ?pk u \<noteq> [] then Some (pack_json (the (sanitize_pack P u))) else None)" for u j
    by (auto simp: opt_def split: option.splits)
  have w: "?w = jobj ([(''g'', ?g), (''seed'', floor_num P (field v ''seed'') 0 4294967295 1), (''q'', ?q (field v ''q'')),
      (''f'', member_or SHAPES ''cookie'' (field v ''f''))] @ opt (?t \<noteq> []) ''w'' (JStr ?t) @ ?o (field v ''o'') @ ?pk (field v ''pk''))"
    by (simp only: turn_part_def Let_def)
  have f: "field ?w ''g'' = ?g" "field ?w ''seed'' = floor_num P (field v ''seed'') 0 4294967295 1"
    "field ?w ''q'' = ?q (field v ''q'')" "field ?w ''f'' = member_or SHAPES ''cookie'' (field v ''f'')"
    unfolding w field_jobj by simp_all
  have fw: "field ?w ''w'' = (if ?t \<noteq> [] then JStr ?t else JUndef)"
    "field ?w ''o'' = (if ?o (field v ''o'') \<noteq> [] then JInt (the (as_integer (field v ''o''))) else JUndef)"
    "field ?w ''pk'' = (if ?pk (field v ''pk'') \<noteq> [] then pack_json (the (sanitize_pack P (field v ''pk''))) else JUndef)"
    unfolding w field_jobj by (simp_all only: map_of_part o1 pk1 append.simps map_of.simps fst_conv snd_conv fun_upd_apply, simp_all)
  have g: "member_or TURN_IDS ''deal'' ?g = ?g" by (rule member_or_idem) (simp add: TURN_IDS_def)
  have sh: "member_or SHAPES ''cookie'' (member_or SHAPES ''cookie'' u) = member_or SHAPES ''cookie'' u" for u
    by (rule member_or_idem) (simp add: SHAPES_def)
  have seed: "floor_num P (floor_num P u 0 4294967295 1) 0 4294967295 1 = floor_num P u 0 4294967295 1" for u
    by (rule floor_num_idem) simp_all
  have q: "?q (?q u) = ?q u" for u by (simp add: is_blob_def)
  have t: "quest_clean P (field ?w ''w'') 14 = ?t" unfolding fw by simp
  have o: "?o (field ?w ''o'') = ?o (field v ''o'')" unfolding fw by (auto simp: opt_def split: option.splits)
  have "sanitize_pack P JUndef = None" by (simp add: sanitize_pack_def)
  then have pk: "?pk (field ?w ''pk'') = ?pk (field v ''pk'')"
    unfolding fw by (auto simp: opt_def split: option.splits dest: pack_cleaned_again)
  show ?thesis unfolding turn_part_def [of P "?w"] Let_def f(1) g t o pk unfolding f seed q sh by (simp only: turn_part_def Let_def)
qed

lemma game_again: "signs_ok P \<Longrightarrow> game_part P (jobj (game_part P v)) = game_part P v"
proof -
  assume ok: "signs_ok P"
  then have p: "platform_ok P" by (simp add: signs_ok_def)
  let ?g = "field v ''g''"
  let ?h = "jobj ([(''seed'', JInt (sanitizeSeed P (and_field ?g ''seed''))), (''params'', params_json (sanitizeParams P (and_field ?g ''params''))),
         (''theme'', sanitizeTheme (and_field ?g ''theme'')), (''title'', JStr (sanitizeTitle P (and_field ?g ''title''))),
         (''emoji'', JStr (sanitizeEmoji P (and_field ?g ''emoji'')))] @
        opt_json ''look'' (sanitizeLook P (and_field ?g ''look'')) @
        opt_json ''route'' (map_option route_json (sanitizeRoute P (and_field ?g ''route''))))"
  have w: "field (jobj (game_part P v)) ''g'' = ?h" unfolding game_part_def Let_def field_jobj by (simp del: map_of_append)
  have f: "and_field ?h ''seed'' = JInt (sanitizeSeed P (and_field ?g ''seed''))"
    "and_field ?h ''params'' = params_json (sanitizeParams P (and_field ?g ''params''))"
    "and_field ?h ''theme'' = sanitizeTheme (and_field ?g ''theme'')" "and_field ?h ''title'' = JStr (sanitizeTitle P (and_field ?g ''title''))"
    "and_field ?h ''emoji'' = JStr (sanitizeEmoji P (and_field ?g ''emoji''))"
    "and_field ?h ''look'' = (case sanitizeLook P (and_field ?g ''look'') of Some x \<Rightarrow> x | None \<Rightarrow> JUndef)"
    "and_field ?h ''route'' = (case sanitizeRoute P (and_field ?g ''route'') of Some x \<Rightarrow> route_json x | None \<Rightarrow> JUndef)"
    unfolding and_field_def [of ?h] truthy_jobj if_True field_jobj by (simp_all del: map_of_append split: option.split)
  have title: "sanitizeTitle P (JStr (sanitizeTitle P s)) = sanitizeTitle P s" for s
    using ok by (intro sanitizeTitle_idem) (simp_all add: signs_ok_def)
  have look: "sanitizeLook P (and_field ?h ''look'') = sanitizeLook P (and_field ?g ''look'')"
    unfolding f by (auto split: option.splits dest: sanitizeLook_idem [OF p])
  have route: "sanitizeRoute P (and_field ?h ''route'') = sanitizeRoute P (and_field ?g ''route'')"
    unfolding f by (auto split: option.splits dest: sanitizeRoute_again [OF p])
  show ?thesis unfolding game_part_def [of P "jobj _"] Let_def w look route
    unfolding f sanitizeSeed_idem sanitizeParams_idem sanitizeTheme_idem title sanitizeEmoji_idem [OF p]
    by (simp only: game_part_def Let_def)
qed

section \<open>The whole sheet\<close>

abbreviation head_keys :: "string set" where
  "head_keys \<equiv> {''k'', ''col'', ''by'', ''i'', ''t'', ''s'', ''n'', ''ki''}"

lemma head_other: "j \<notin> head_keys \<Longrightarrow> map_of (head_part c P v @ r) j = map_of r j"
  by (simp add: head_part_def Let_def del: map_of_append)

lemma map_of_absent: "j \<notin> fst ` set kvs \<Longrightarrow> map_of kvs j = None"
  by (simp add: map_of_eq_None_iff)

lemma part_keys [simp]:
  "fst ` set (opt b k v) = (if b then {k} else {})" "fst ` set (opt_json k w) = (if w = None then {} else {k})"
  by (cases w; simp add: opt_def opt_json_def)+

lemma kind_keys:
  "fst ` set (card_part P v) \<subseteq> {''x'', ''st'', ''sk'', ''w'', ''nr''}" "fst ` set (photo_part P v) \<subseteq> {''x'', ''y'', ''st'', ''sk''}"
  "fst ` set (sound_part P v) \<subseteq> {''m'', ''x'', ''fx'', ''bpm'', ''p'', ''ly''}"
  "fst ` set (duel_part c P v) \<subseteq> {''m'', ''a'', ''b'', ''seed'', ''set'', ''w'', ''ch'', ''g''}"
  "fst ` set (quest_part P v) \<subseteq> {''q0'', ''h0'', ''c'', ''e''}" "fst ` set (game_part P v) \<subseteq> {''g''}"
  by (simp_all add: card_part_def photo_part_def sound_part_def duel_part_def quest_part_def game_part_def Let_def image_Un del: js_Cons)

lemma turn_keys: "fst ` set (turn_part P v) \<subseteq> {''g'', ''seed'', ''q'', ''f'', ''w'', ''o'', ''pk''}"
  unfolding turn_part_def Let_def
  by (cases "as_integer (field v ''o'')"; cases "sanitize_pack P (field v ''pk'')") (simp_all add: image_Un del: js_Cons)

lemma kind_other: "j \<in> head_keys \<Longrightarrow> map_of (kind_part c P v) j = None"
proof (rule map_of_absent)
  have "fst ` set (kind_part c P v) \<subseteq> {''x'', ''y'', ''st'', ''sk'', ''w'', ''nr'', ''m'', ''fx'', ''bpm'', ''p'', ''ly'', ''a'', ''b'', ''seed'',
      ''set'', ''ch'', ''g'', ''q0'', ''h0'', ''c'', ''e'', ''q'', ''f'', ''o'', ''pk''}"
    unfolding kind_part_def Let_def
    using kind_keys(1,2,3,5,6) [of P v] kind_keys(4) [of c P v] turn_keys [of P v]
    by (auto simp del: js_Cons split: if_split)
  then show "j \<in> head_keys \<Longrightarrow> j \<notin> fst ` set (kind_part c P v)" by auto
qed

lemma head_again:
  assumes p: "platform_ok P" and w: "w = jobj (head_part c P v @ r)" "\<And>j. j \<in> head_keys \<Longrightarrow> map_of r j = None"
  shows "head_part c P w = head_part c P v"
proof -
  let ?t = "cleanInput P (field v ''t'') 40" let ?s = "cleanInput P (field v ''s'') 70" let ?n = "sanitizeName P (field v ''n'')"
  have f: "field w ''k'' = field v ''k''" "field w ''col'' = sanitizeColors P (field v ''col'')"
    "field w ''by'' = JArr (sanitizeTrail P (field v ''by''))"
    "field w ''i'' = (case sanitizeId c (field v ''i'') of Some x \<Rightarrow> JStr x | None \<Rightarrow> JUndef)"
    "field w ''t'' = (if ?t \<noteq> [] then JStr ?t else JUndef)" "field w ''s'' = (if ?s \<noteq> [] then JStr ?s else JUndef)"
    "field w ''n'' = (if ?n \<noteq> [] then JStr ?n else JUndef)"
    "field w ''ki'' = (case sanitizeKi (field v ''ki'') of Some x \<Rightarrow> x | None \<Rightarrow> JUndef)"
    unfolding w(1) field_jobj using w(2) by (simp_all add: head_part_def Let_def del: map_of_append split: option.split)
  have i: "sanitizeId c (field w ''i'') = sanitizeId c (field v ''i'')"
    unfolding f by (auto split: option.splits dest: sanitizeId_again) (simp add: sanitizeId_def)
  have "sanitizeKi JUndef = None" by (simp add: sanitizeKi_def small_word_def)
  then have ki: "sanitizeKi (field w ''ki'') = sanitizeKi (field v ''ki'')"
    unfolding f by (auto split: option.splits dest: sanitizeKi_again)
  have t: "cleanInput P (field w ''t'') 40 = ?t" "cleanInput P (field w ''s'') 70 = ?s" unfolding f by simp_all
  have n: "sanitizeName P (field w ''n'') = ?n" unfolding f using p by simp
  show ?thesis unfolding head_part_def [of c P w] Let_def i ki t n unfolding f sanitizeColors_idem sanitizeTrail_idem [OF p]
    by (simp only: head_part_def Let_def)
qed

text \<open>The parts read only what is in the sheet under their own names.\<close>

lemma field_behind_head: "j \<notin> head_keys \<Longrightarrow> field (jobj (head_part c P v @ r)) j = field (jobj r) j"
  unfolding field_jobj by (subst head_other) (assumption, rule refl)

lemma parts_read:
  assumes "\<forall>j. j \<notin> head_keys \<longrightarrow> field w j = field u j"
  shows "card_part P w = card_part P u" "photo_part P w = photo_part P u" "sound_part P w = sound_part P u"
    "duel_part c P w = duel_part c P u" "quest_part P w = quest_part P u" "turn_part P w = turn_part P u" "game_part P w = game_part P u"
proof -
  have f: "field w j = field u j" if "j \<in> {''x'', ''y'', ''st'', ''sk'', ''w'', ''nr'', ''m'', ''fx'', ''bpm'', ''p'', ''ly'', ''a'', ''b'', ''seed'',
      ''set'', ''ch'', ''g'', ''q0'', ''h0'', ''c'', ''e'', ''q'', ''f'', ''o'', ''pk''}" for j
    by (rule assms [rule_format]) (use that in \<open>elim insertE; simp\<close>)
  show "card_part P w = card_part P u" "photo_part P w = photo_part P u" "sound_part P w = sound_part P u"
    "duel_part c P w = duel_part c P u" "quest_part P w = quest_part P u" "turn_part P w = turn_part P u" "game_part P w = game_part P u"
    unfolding card_part_def photo_part_def sound_part_def duel_part_def quest_part_def turn_part_def game_part_def
    by (simp_all only: f insert_iff simp_thms)
qed

lemma kind_again:
  assumes "signs_ok P" "1 \<le> sign_sets c" "w = jobj (head_part c P v @ kind_part c P v)" "field w ''k'' = field v ''k''"
  shows "kind_part c P w = kind_part c P v"
proof -
  have p: "platform_ok P" using assms(1) by (simp add: signs_ok_def)
  have read: "\<forall>j. j \<notin> head_keys \<longrightarrow> field w j = field (jobj (kind_part c P v)) j"
    unfolding assms(3) by (intro allI impI) (rule field_behind_head)
  note parts = parts_read [OF read]
  have table: "member_or [''skat'', ''bauernskat''] ''doko'' (field (jobj [(''g'', member_or [''skat'', ''bauernskat''] ''doko'' u)]) ''g'')
      = member_or [''skat'', ''bauernskat''] ''doko'' u" for u
    by (simp add: member_or_def one_of_def)
  have g: "field w ''g'' = field (jobj (kind_part c P v)) ''g''" using read by simp
  define c1 c2 c3 c4 c5 c6 c7 where cs: "c1 = (field v ''k'' = JStr (js ''card''))" "c2 = (field v ''k'' = JStr (js ''photo''))"
    "c3 = (field v ''k'' = JStr (js ''sound''))" "c4 = (field v ''k'' = JStr (js ''duel''))" "c5 = (field v ''k'' = JStr (js ''quest''))"
    "c6 = (field v ''k'' = JStr (js ''turn''))" "c7 = (field v ''k'' = JStr (js ''table''))"
  have kv: "kind_part c P v = (if c1 then card_part P v else if c2 then photo_part P v else if c3 then sound_part P v
      else if c4 then duel_part c P v else if c5 then quest_part P v else if c6 then turn_part P v
      else if c7 then [(''g'', member_or [''skat'', ''bauernskat''] ''doko'' (field v ''g''))] else game_part P v)"
    by (simp only: kind_part_def Let_def cs)
  have kw: "kind_part c P w = (let u = jobj (kind_part c P v) in if c1 then card_part P u else if c2 then photo_part P u
      else if c3 then sound_part P u else if c4 then duel_part c P u else if c5 then quest_part P u else if c6 then turn_part P u
      else if c7 then [(''g'', member_or [''skat'', ''bauernskat''] ''doko'' (field u ''g''))] else game_part P u)"
    by (simp only: kind_part_def [of c P w] Let_def assms(4) parts g cs)
  show ?thesis unfolding kw kv Let_def
    by (cases c1; cases c2; cases c3; cases c4; cases c5; cases c6; cases c7;
      simp only: if_True if_False card_again [OF p] photo_again [OF p] sound_again duel_again [OF assms(1,2)] quest_again [OF assms(1)]
        turn_again game_again [OF assms(1)] table)
qed

text \<open>
  C29: A sheet that came through the cleaning passes it unchanged, whatever its kind: cards with stickers and weather, photos, sounds,
  duels, channels, turns with packs, tables and games. So the phone that opens a link, keeps the sheet and sends it on changes nothing.
\<close>

theorem sheet_cleaned_once:
  assumes "signs_ok P" "1 \<le> sign_sets c" "sanitizeDoc c P v = Some w"
  shows "sanitizeDoc c P w = Some w"
proof -
  have k: "one_of KINDS (field v ''k'')" and w: "w = jobj (head_part c P v @ kind_part c P v)"
    using assms(3) by (simp_all add: sanitizeDoc_def split: if_splits)
  have p: "platform_ok P" using assms(1) by (simp add: signs_ok_def)
  have head: "head_part c P w = head_part c P v" by (rule head_again [OF p w]) (rule kind_other)
  have "field w ''k'' = field v ''k''" unfolding w field_jobj by (simp add: head_part_def Let_def del: map_of_append split: option.split)
  then show ?thesis using k head kind_again [OF assms(1,2) w] by (simp add: sanitizeDoc_def flip: w)
qed

end
