(* ===== verification/Collab_Correct.thy ===== *)
theory Collab_Correct
  imports Collab_Run Daily_Doc_Ok
begin

text \<open>
  Two replicas of a work agree: what one accepted operation does to the fields, the stickers and the dead stickers, that only the set of
  accepted operations counts, that an exchange of full states makes both the same, and that their digests are the same then.
\<close>

section \<open>What one operation offers\<close>

definition field_offer :: "json list \<Rightarrow> jstring \<Rightarrow> entry option" where
  "field_offer p k = (case p of
     [t, i, v, lj, aj] \<Rightarrow> if t = JStr (js ''f'') \<and> key_of i = Some k
       then (case (as_integer lj, aj) of (Some l, JStr a) \<Rightarrow> Some \<lparr>e_v = v, e_l = l, e_a = a\<rparr> | _ \<Rightarrow> None) else None
   | _ \<Rightarrow> None)"

definition put_offer :: "platform \<Rightarrow> json list \<Rightarrow> jstring \<Rightarrow> entry option" where
  "put_offer P p i = (case p of
     [t, j, g, lj, aj] \<Rightarrow> if t = JStr (js ''s'') \<and> j = JStr i
       then (case (as_integer lj, aj, sanitizeSticker P g) of (Some l, JStr a, Some w) \<Rightarrow> Some \<lparr>e_v = w, e_l = l, e_a = a\<rparr> | _ \<Rightarrow> None) else None
   | _ \<Rightarrow> None)"

definition kills :: "json list \<Rightarrow> jstring \<Rightarrow> bool" where
  "kills p i \<longleftrightarrow> (case p of [t, j, l] \<Rightarrow> t = JStr (js ''d'') \<and> j = JStr i | _ \<Rightarrow> False)"

definition better :: "entry option \<Rightarrow> entry option \<Rightarrow> entry option" where
  "better cur off = (case off of None \<Rightarrow> cur | Some e \<Rightarrow> if wins (e_l e) (e_a e) cur then Some e else cur)"

definition stamp_le :: "entry \<Rightarrow> entry \<Rightarrow> bool" where
  "stamp_le x e \<longleftrightarrow> e_l x < e_l e \<or> e_l x = e_l e \<and> e_a x \<le> e_a e"

definition is_best :: "entry set \<Rightarrow> entry option \<Rightarrow> bool" where
  "is_best E r \<longleftrightarrow> (case r of None \<Rightarrow> E = {} | Some e \<Rightarrow> e \<in> E \<and> (\<forall>x \<in> E. stamp_le x e))"

lemma is_best_better: "is_best E cur \<Longrightarrow> is_best (E \<union> {e. off = Some e}) (better cur off)"
  by (auto simp: is_best_def better_def wins_def stamp_le_def split: option.splits if_splits)

lemma is_best_unique:
  assumes "is_best E r" "is_best E q" "\<forall>x \<in> E. \<forall>y \<in> E. e_l x = e_l y \<and> e_a x = e_a y \<longrightarrow> x = y"
  shows "r = q"
proof (cases r)
  case None
  then show ?thesis using assms(1,2) by (auto simp: is_best_def split: option.splits)
next
  case (Some e)
  then obtain x where q: "q = Some x" using assms(1,2) by (auto simp: is_best_def split: option.splits)
  with Some assms(1,2) have m: "e \<in> E" "x \<in> E" and "stamp_le x e" "stamp_le e x" by (auto simp: is_best_def)
  then have "e_l e = e_l x \<and> e_a e = e_a x" by (auto simp: stamp_le_def)
  with m assms(3) Some q show ?thesis by blast
qed

text \<open>The letters of the three kinds differ.\<close>

lemma kind_letters: "JStr (js ''f'') \<noteq> JStr (js ''s'')" "JStr (js ''f'') \<noteq> JStr (js ''d'')" "JStr (js ''s'') \<noteq> JStr (js ''d'')"
  by simp_all

section \<open>What one accepted operation does\<close>

definition tidy_replica :: "platform \<Rightarrow> replica \<Rightarrow> bool" where
  "tidy_replica P s \<longleftrightarrow> distinct (map fst (cells s)) \<and> distinct (map fst (stickers s)) \<and> distinct (map fst (dead s)) \<and>
     (\<forall>i. map_of (dead s) i \<noteq> None \<longrightarrow> map_of (stickers s) i = None) \<and>
     (\<forall>i e. map_of (stickers s) i = Some e \<longrightarrow> sanitizeSticker P (e_v e) = Some (e_v e))"

lemma apply_field_accepts:
  assumes "apply_field rs p s = (s', True)"
  obtains t i v l a k where "p = [t, i, v, JInt l, JStr a]" "key_of i = Some k"
    "cells s' = (if wins l a (map_of (cells s) k) then AList.update k \<lparr>e_v = v, e_l = l, e_a = a\<rparr> (cells s) else cells s)"
    "stickers s' = stickers s" "dead s' = dead s" "clock s' = max (clock s) l"
proof -
  have int: "v = JInt l" if "as_integer v = Some l" for v l
    using that by (cases v rule: as_integer.cases) (auto split: if_splits)
  obtain t i v lj aj where p: "p = [t, i, v, lj, aj]"
    using assms by (auto simp: apply_field_def split: list.splits)
  obtain k where k: "key_of i = Some k" using assms by (auto simp: p apply_field_def split: option.splits)
  obtain ok l a where s: "map_of rs k = Some ok" "okStamp lj aj s = Some (l, a)"
    using assms by (auto simp: p k apply_field_def split: option.splits)
  have ja: "lj = JInt l" "aj = JStr a"
    using s(2) int by (auto simp: okStamp_def okClock_def split: option.splits json.splits if_splits)
  have "ok v" and r: "s' = (let s1 = s\<lparr>clock := max (clock s) l\<rparr> in
      if wins l a (map_of (cells s) k) then s1\<lparr>cells := AList.update k \<lparr>e_v = v, e_l = l, e_a = a\<rparr> (cells s), dirty := True\<rparr> else s1)"
    using assms unfolding apply_field_def p list.case k option.case s prod.case by (auto simp: Let_def split: if_splits)
  show thesis using that [of t i v l a k] unfolding p ja k r Let_def by (simp split: if_split)
qed

lemma as_integer_JInt: "as_integer v = Some l \<Longrightarrow> v = JInt l"
  by (cases v rule: as_integer.cases) (auto split: if_splits)

lemma okStamp_parts: "okStamp lj aj s = Some (l, a) \<Longrightarrow> lj = JInt l \<and> aj = JStr a"
  by (auto simp: okStamp_def okClock_def dest!: as_integer_JInt split: option.splits json.splits if_splits)

lemma map_of_update: "map_of (AList.update k v al) = (map_of al)(k \<mapsto> v)" by (rule update_conv')
lemma map_of_delete: "map_of (AList.delete k al) = (map_of al)(k := None)" by (rule delete_conv')

lemma field_effect:
  assumes "apply_field rs p s = (s', True)" "item p 0 = JStr (js ''f'')" "tidy_replica P s"
  shows "tidy_replica P s' \<and> (\<forall>k. map_of (cells s') k = better (map_of (cells s) k) (field_offer p k)) \<and> dead s' = dead s \<and>
    stickers s' = stickers s \<and> put_offer P p = (\<lambda>i. None) \<and> kills p = (\<lambda>i. False)"
proof -
  obtain t i v l a k where p: "p = [t, i, v, JInt l, JStr a]" "key_of i = Some k"
    and c: "cells s' = (if wins l a (map_of (cells s) k) then AList.update k \<lparr>e_v = v, e_l = l, e_a = a\<rparr> (cells s) else cells s)"
      "stickers s' = stickers s" "dead s' = dead s"
    using apply_field_accepts [OF assms(1)] by metis
  have t: "t = JStr (js ''f'')" using assms(2) p by simp
  have offer: "field_offer p j = (if j = k then Some \<lparr>e_v = v, e_l = l, e_a = a\<rparr> else None)" for j
    by (simp add: field_offer_def p t)
  have none: "put_offer P p i = None" "\<not> kills p i" for i by (simp_all add: put_offer_def kills_def p t)
  have "tidy_replica P s'" using assms(3) c by (auto simp: tidy_replica_def distinct_update)
  moreover have "map_of (cells s') j = better (map_of (cells s) j) (field_offer p j)" for j
    by (simp add: c(1) offer better_def map_of_update)
  ultimately show ?thesis using c none by (simp add: fun_eq_iff)
qed

lemma accepted_put_effect:
  assumes ok: "platform_ok P" and "apply_put P i p s = (s', True)" "item p 0 = JStr (js ''s'')" "item p 1 = JStr i" "tidy_replica P s"
  shows "tidy_replica P s' \<and> cells s' = cells s \<and> dead s' = dead s \<and> kills p = (\<lambda>i. False) \<and> field_offer p = (\<lambda>k. None) \<and>
    (\<forall>j. map_of (dead s) j = None \<longrightarrow> map_of (stickers s') j = better (map_of (stickers s) j) (put_offer P p j))"
proof -
  obtain t j g lj aj where p: "p = [t, j, g, lj, aj]" using assms(2) by (auto simp: apply_put_def split: list.splits)
  then have t: "t = JStr (js ''s'')" "j = JStr i" using assms(3,4) by simp_all
  obtain l a w where st: "okStamp lj aj s = Some (l, a)" "sanitizeSticker P g = Some w"
    using assms(2) by (auto simp: p apply_put_def split: option.splits)
  note ja = okStamp_parts [OF st(1)]
  have w: "sanitizeSticker P w = Some w" by (rule sanitizeSticker_again [OF ok st(2)])
  have offer: "put_offer P p k = (if k = i then Some \<lparr>e_v = w, e_l = l, e_a = a\<rparr> else None)" for k
    using st ja by (simp add: put_offer_def p t)
  have none: "field_offer p k = None" "\<not> kills p k" for k by (simp_all add: field_offer_def kills_def p t)
  show ?thesis
  proof (cases "map_of (dead s) i = None")
    case False
    then have "s' = s" using assms(2) unfolding apply_put_def p list.case st option.case prod.case by (auto split: if_splits)
    with False offer none assms(5) show ?thesis by (auto simp: better_def fun_eq_iff)
  next
    case True
    then have s': "s' = (let s1 = s\<lparr>clock := max (clock s) l\<rparr> in if wins l a (map_of (stickers s) i)
        then s1\<lparr>stickers := AList.update i \<lparr>e_v = w, e_l = l, e_a = a\<rparr> (stickers s), dirty := True\<rparr> else s1)"
      using assms(2) unfolding apply_put_def p list.case st option.case prod.case by (auto simp: Let_def split: if_splits)
    have m: "map_of (stickers s') k = better (map_of (stickers s) k) (put_offer P p k)" for k
      by (simp add: s' Let_def offer better_def map_of_update)
    have old: "map_of (stickers s) k = Some e \<Longrightarrow> sanitizeSticker P (e_v e) = Some (e_v e)"
      "map_of (dead s) k \<noteq> None \<Longrightarrow> map_of (stickers s) k = None" for k e
      using assms(5) unfolding tidy_replica_def by blast+
    have new: "map_of (stickers s') k = Some e \<Longrightarrow> sanitizeSticker P (e_v e) = Some (e_v e)"
      "map_of (dead s) k \<noteq> None \<Longrightarrow> map_of (stickers s') k = None" for k e
      using old [of k] w True by (auto simp: m offer better_def split: if_splits)
    have "distinct (map fst (cells s'))" "distinct (map fst (stickers s'))" "distinct (map fst (dead s'))" "dead s' = dead s"
      using assms(5) by (auto simp: tidy_replica_def s' Let_def distinct_update)
    then have "tidy_replica P s'" using new unfolding tidy_replica_def by auto
    with m none s' show ?thesis by (simp add: fun_eq_iff Let_def)
  qed
qed

lemma dead_effect:
  assumes "apply_dead i p s = (s', True)" "item p 0 = JStr (js ''d'')" "item p 1 = JStr i" "tidy_replica P s"
  shows "tidy_replica P s' \<and> cells s' = cells s \<and> field_offer p = (\<lambda>k. None) \<and> put_offer P p = (\<lambda>k. None) \<and>
    (\<forall>j. map_of (dead s') j \<noteq> None \<longleftrightarrow> map_of (dead s) j \<noteq> None \<or> kills p j) \<and>
    (\<forall>j. map_of (dead s') j = None \<longrightarrow> map_of (stickers s') j = map_of (stickers s) j)"
proof -
  obtain t j lj where p: "p = [t, j, lj]" using assms(1) by (auto simp: apply_dead_def split: list.splits)
  then have t: "t = JStr (js ''d'')" "j = JStr i" using assms(2,3) by simp_all
  obtain l where l: "okClock lj s = Some l" using assms(1) by (auto simp: p apply_dead_def split: option.splits)
  have s': "s' = s\<lparr>clock := max (clock s) l, dirty := (dirty s \<or> map_of (stickers s) i \<noteq> None),
      stickers := AList.delete i (stickers s), dead := AList.update i (max (case map_of (dead s) i of Some n \<Rightarrow> n | None \<Rightarrow> 0) l) (dead s)\<rparr>"
    using assms(1) unfolding apply_dead_def p list.case l option.case by (auto simp: Let_def split: if_splits)
  have k: "kills p k \<longleftrightarrow> k = i" "field_offer p k = None" "put_offer P p k = None" for k
    by (auto simp: kills_def field_offer_def put_offer_def p t)
  have "tidy_replica P s'" using assms(4)
    by (auto simp: tidy_replica_def s' distinct_update distinct_delete map_of_update map_of_delete)
  with k show ?thesis by (auto simp: s' map_of_update map_of_delete fun_eq_iff)
qed

lemma op_effect:
  assumes "platform_ok P" "apply_op P rs p s = (s', True)" "tidy_replica P s"
  shows "tidy_replica P s' \<and> (\<forall>k. map_of (cells s') k = better (map_of (cells s) k) (field_offer p k)) \<and>
    (\<forall>i. map_of (dead s') i \<noteq> None \<longleftrightarrow> map_of (dead s) i \<noteq> None \<or> kills p i) \<and>
    (\<forall>i. map_of (dead s') i = None \<longrightarrow> map_of (stickers s') i = better (map_of (stickers s) i) (put_offer P p i))"
proof (cases "item p 0 = JStr (js ''f'')")
  case True
  then have "apply_field rs p s = (s', True)" using assms(2) by (simp add: apply_op_def Let_def del: js_Cons)
  from field_effect [OF this True assms(3)] show ?thesis by (simp add: better_def)
next
  case False
  then obtain i where i: "item p 1 = JStr i" using assms(2) by (auto simp: apply_op_def Let_def simp del: js_Cons split: json.splits)
  consider (put) "item p 0 = JStr (js ''s'')" "apply_put P i p s = (s', True)"
    | (dead) "item p 0 = JStr (js ''d'')" "apply_dead i p s = (s', True)"
    using assms(2) False i by (auto simp: apply_op_def Let_def simp del: js_Cons split: if_splits)
  then show ?thesis
  proof cases
    case put
    from accepted_put_effect [OF assms(1) put(2,1) i assms(3)] show ?thesis by (simp add: better_def)
  next
    case dead
    from dead_effect [OF dead(2,1) i assms(3)] show ?thesis by (simp add: better_def)
  qed
qed

section \<open>What a frame of accepted operations does\<close>

definition field_entries :: "replica \<Rightarrow> json list set \<Rightarrow> jstring \<Rightarrow> entry set" where
  "field_entries s ps k = {e. map_of (cells s) k = Some e} \<union> {e. \<exists>p \<in> ps. field_offer p k = Some e}"

definition put_entries :: "platform \<Rightarrow> replica \<Rightarrow> json list set \<Rightarrow> jstring \<Rightarrow> entry set" where
  "put_entries P s ps i = {e. map_of (stickers s) i = Some e} \<union> {e. \<exists>p \<in> ps. put_offer P p i = Some e}"

text \<open>A stamp is given once: what carries the same clock and actor for the same name is the same.\<close>

definition stamps_once :: "entry set \<Rightarrow> bool" where
  "stamps_once E \<longleftrightarrow> (\<forall>x \<in> E. \<forall>y \<in> E. e_l x = e_l y \<and> e_a x = e_a y \<longrightarrow> x = y)"

lemma apply_all_snoc:
  assumes "apply_all P rs (map JArr (ps @ [p])) s = (t, 0)"
  obtains u where "apply_all P rs (map JArr ps) s = (u, 0)" "apply_op P rs p u = (t, True)"
proof -
  obtain u bad where u: "apply_all P rs (map JArr ps) s = (u, bad)" by fastforce
  obtain t' ok where t: "apply_op P rs p u = (t', ok)" by fastforce
  have "apply_all P rs (map JArr (ps @ [p])) s = (t', if ok then bad else bad + 1)"
    using u t by (simp add: apply_all_def)
  with assms have "t' = t" "bad = 0 \<and> ok" by (auto split: if_splits)
  with u t that show thesis by simp
qed

lemma is_best_start: "is_best {e. r = Some e} r" by (auto simp: is_best_def stamp_le_def split: option.split)

lemma accepted_frame:
  assumes "platform_ok P" "tidy_replica P s" "apply_all P rs (map JArr ps) s = (t, 0)"
  shows "tidy_replica P t \<and> (\<forall>k. is_best (field_entries s (set ps) k) (map_of (cells t) k)) \<and>
    (\<forall>i. map_of (dead t) i \<noteq> None \<longleftrightarrow> map_of (dead s) i \<noteq> None \<or> (\<exists>p \<in> set ps. kills p i)) \<and>
    (\<forall>i. map_of (dead t) i = None \<longrightarrow> is_best (put_entries P s (set ps) i) (map_of (stickers t) i))"
  using assms(3)
proof (induction ps arbitrary: t rule: rev_induct)
  case Nil
  then show ?case using assms(2) is_best_start by (simp add: apply_all_def field_entries_def put_entries_def)
next
  case (snoc p ps)
  obtain u where u: "apply_all P rs (map JArr ps) s = (u, 0)" "apply_op P rs p u = (t, True)"
    using apply_all_snoc [OF snoc.prems] .
  note IH = snoc.IH [OF u(1)]
  note E = op_effect [OF assms(1) u(2)]
  have f: "field_entries s (set (ps @ [p])) k = field_entries s (set ps) k \<union> {e. field_offer p k = Some e}"
    "put_entries P s (set (ps @ [p])) k = put_entries P s (set ps) k \<union> {e. put_offer P p k = Some e}" for k
    by (auto simp: field_entries_def put_entries_def)
  have d: "map_of (dead u) i = None" if "map_of (dead t) i = None" for i using IH E that by blast
  show ?case unfolding f using IH E d is_best_better by (auto simp: Bex_def)
qed

lemma entry_words_cong:
  assumes "distinct (map fst es)" "distinct (map fst fs)" "map_of es = map_of fs"
  shows "entry_words P t es = entry_words P t fs"
proof -
  have "fst ` set es = fst ` set fs" using assms(3) by (metis dom_map_of_conv_image_fst)
  then have "sort (map fst es) = sort (map fst fs)" using assms(1,2) by (intro sorted_distinct_set_unique) simp_all
  with assms(3) show ?thesis by (simp add: entry_words_def)
qed

lemma dead_keys: "(\<And>i. map_of ds i \<noteq> None \<longleftrightarrow> map_of es i \<noteq> None) \<Longrightarrow> distinct (map fst ds) \<Longrightarrow> distinct (map fst es) \<Longrightarrow>
  sort (map fst ds) = sort (map fst es)"
proof -
  assume d: "\<And>i. map_of ds i \<noteq> None \<longleftrightarrow> map_of es i \<noteq> None" "distinct (map fst ds)" "distinct (map fst es)"
  have "i \<in> fst ` set ds \<longleftrightarrow> i \<in> fst ` set es" for i using d(1) [of i] by (simp only: map_of_eq_None_iff) blast
  then have "set (map fst ds) = set (map fst es)" by (simp only: set_map) blast
  with d(2,3) show ?thesis by (intro sorted_distinct_set_unique) simp_all
qed

lemma same_digest:
  assumes "tidy_replica P a" "tidy_replica P b" "map_of (cells a) = map_of (cells b)" "map_of (stickers a) = map_of (stickers b)"
    and "\<And>i. map_of (dead a) i \<noteq> None \<longleftrightarrow> map_of (dead b) i \<noteq> None"
  shows "hash_of P a = hash_of P b"
proof -
  have "sort (map fst (dead a)) = sort (map fst (dead b))"
    using assms(1,2) by (intro dead_keys assms(5)) (simp_all add: tidy_replica_def)
  moreover have "entry_words P ''f'' (cells a) = entry_words P ''f'' (cells b)" "entry_words P ''s'' (stickers a) = entry_words P ''s'' (stickers b)"
    using assms(1-4) by (auto simp: tidy_replica_def intro: entry_words_cong)
  ultimately show ?thesis by (simp only: hash_of_def)
qed

lemma agree:
  assumes ta: "tidy_replica P a" "tidy_replica P b"
    and F: "\<And>k. is_best (F k) (map_of (cells a) k)" "\<And>k. is_best (F k) (map_of (cells b) k)" "\<And>k. stamps_once (F k)"
    and D: "\<And>i. map_of (dead a) i \<noteq> None \<longleftrightarrow> map_of (dead b) i \<noteq> None"
    and S: "\<And>i. map_of (dead a) i = None \<Longrightarrow> is_best (G i) (map_of (stickers a) i)"
      "\<And>i. map_of (dead b) i = None \<Longrightarrow> is_best (G i) (map_of (stickers b) i)" "\<And>i. stamps_once (G i)"
  shows "map_of (cells a) = map_of (cells b) \<and> map_of (stickers a) = map_of (stickers b) \<and>
    (\<forall>i. map_of (dead a) i \<noteq> None \<longleftrightarrow> map_of (dead b) i \<noteq> None) \<and> hash_of P a = hash_of P b"
proof -
  have "map_of (cells a) k = map_of (cells b) k" for k
    using is_best_unique [OF F(1) F(2)] F(3) by (simp add: stamps_once_def)
  moreover have "map_of (stickers a) i = map_of (stickers b) i" for i
  proof (cases "map_of (dead a) i = None")
    case True
    then show ?thesis using is_best_unique [OF S(1) S(2)] S(3) D [of i] by (simp add: stamps_once_def)
  next
    case False
    then have "map_of (stickers a) i = None" "map_of (stickers b) i = None"
      using ta D [of i] unfolding tidy_replica_def by blast+
    then show ?thesis by simp
  qed
  ultimately have m: "map_of (cells a) = map_of (cells b)" "map_of (stickers a) = map_of (stickers b)" by (simp_all add: fun_eq_iff)
  with D same_digest [OF ta m D] show ?thesis by blast
qed

text \<open>
  C7: Only the set of operations counts: two replicas that start alike and accept the same operations, in any order and any number of times,
  end with the same fields, the same stickers, the same dead stickers and the same digest.
\<close>

theorem any_order_converges:
  assumes "platform_ok P" "tidy_replica P s" "apply_all P rs (map JArr xs) s = (a, 0)" "apply_all P rs (map JArr ys) s = (b, 0)"
    and "set xs = set ys" "\<forall>k. stamps_once (field_entries s (set xs) k)" "\<forall>i. stamps_once (put_entries P s (set xs) i)"
  shows "map_of (cells a) = map_of (cells b) \<and> map_of (stickers a) = map_of (stickers b) \<and>
    (\<forall>i. map_of (dead a) i \<noteq> None \<longleftrightarrow> map_of (dead b) i \<noteq> None) \<and> hash_of P a = hash_of P b"
  using accepted_frame [OF assms(1,2,3)] accepted_frame [OF assms(1,2,4)] assms(5-7)
  by (intro agree [where F = "field_entries s (set xs)" and G = "put_entries P s (set xs)"]) auto

section \<open>The exchange of full states\<close>

definition full_frame :: "replica \<Rightarrow> json list list" where "full_frame s = map snd (fullOps s)"

lemma field_offer_field: "field_offer (field_op k v l a) j = (if j = k then Some \<lparr>e_v = v, e_l = l, e_a = a\<rparr> else None)"
  by (simp add: field_offer_def field_op_def)

lemma offers_apart:
  "field_offer (sticker_op k v l a) j = None" "field_offer (dead_op k l) j = None" "put_offer P (field_op k v l a) j = None"
  "put_offer P (dead_op k l) j = None" "\<not> kills (field_op k v l a) j" "\<not> kills (sticker_op k v l a) j" "kills (dead_op k l) j \<longleftrightarrow> j = k"
  by (auto simp: field_offer_def put_offer_def kills_def field_op_def sticker_op_def dead_op_def)

lemma put_offer_sticker:
  "sanitizeSticker P v = Some v \<Longrightarrow> put_offer P (sticker_op k v l a) j = (if j = k then Some \<lparr>e_v = v, e_l = l, e_a = a\<rparr> else None)"
  by (simp add: put_offer_def sticker_op_def)

lemma full_frame_set: "set (full_frame s) = (\<lambda>(k, e). field_op k (e_v e) (e_l e) (e_a e)) ` set (cells s) \<union>
    (\<lambda>(k, e). sticker_op k (e_v e) (e_l e) (e_a e)) ` set (stickers s) \<union> (\<lambda>(k, l). dead_op k l) ` set (dead s)"
  by (simp add: full_frame_def fullOps_def image_Un image_image case_prod_unfold Un_assoc)

lemma entry_eta [simp]: "\<lparr>e_v = e_v x, e_l = e_l x, e_a = e_a x\<rparr> = x" by simp

lemma full_fields:
  assumes "tidy_replica P b"
  shows "field_entries a (set (full_frame b)) k = {e. map_of (cells a) k = Some e \<or> map_of (cells b) k = Some e}"
proof -
  have d: "distinct (map fst (cells b))" using assms by (simp add: tidy_replica_def)
  have "(\<exists>p \<in> set (full_frame b). field_offer p k = Some e) \<longleftrightarrow> map_of (cells b) k = Some e" for e
  proof
    assume "\<exists>p \<in> set (full_frame b). field_offer p k = Some e"
    then obtain j x where "(j, x) \<in> set (cells b)" "field_offer (field_op j (e_v x) (e_l x) (e_a x)) k = Some e"
      by (auto simp: full_frame_set offers_apart)
    then show "map_of (cells b) k = Some e" using d by (auto simp: field_offer_field split: if_splits)
  next
    assume "map_of (cells b) k = Some e"
    then have m: "(k, e) \<in> set (cells b)" using d by simp
    have "field_offer (field_op k (e_v e) (e_l e) (e_a e)) k = Some e" by (simp add: field_offer_field)
    moreover have "field_op k (e_v e) (e_l e) (e_a e) \<in> set (full_frame b)" using m by (force simp: full_frame_set)
    ultimately show "\<exists>p \<in> set (full_frame b). field_offer p k = Some e" by blast
  qed
  then show ?thesis by (auto simp: field_entries_def)
qed

lemma full_puts:
  assumes "tidy_replica P b"
  shows "put_entries P a (set (full_frame b)) i = {e. map_of (stickers a) i = Some e \<or> map_of (stickers b) i = Some e}"
proof -
  have d: "distinct (map fst (stickers b))" and v: "\<And>k e. (k, e) \<in> set (stickers b) \<Longrightarrow> sanitizeSticker P (e_v e) = Some (e_v e)"
    using assms by (auto simp: tidy_replica_def)
  have "(\<exists>p \<in> set (full_frame b). put_offer P p i = Some e) \<longleftrightarrow> map_of (stickers b) i = Some e" for e
  proof
    assume "\<exists>p \<in> set (full_frame b). put_offer P p i = Some e"
    then obtain k x where "(k, x) \<in> set (stickers b)" "put_offer P (sticker_op k (e_v x) (e_l x) (e_a x)) i = Some e"
      by (auto simp: full_frame_set offers_apart)
    then show "map_of (stickers b) i = Some e" using d put_offer_sticker [OF v] by (auto split: if_splits)
  next
    assume "map_of (stickers b) i = Some e"
    then have m: "(i, e) \<in> set (stickers b)" using d by simp
    then have "put_offer P (sticker_op i (e_v e) (e_l e) (e_a e)) i = Some e" by (simp add: put_offer_sticker [OF v [OF m]])
    moreover have "sticker_op i (e_v e) (e_l e) (e_a e) \<in> set (full_frame b)" using m by (force simp: full_frame_set)
    ultimately show "\<exists>p \<in> set (full_frame b). put_offer P p i = Some e" by blast
  qed
  then show ?thesis by (auto simp: put_entries_def)
qed

lemma full_kills: "tidy_replica P b \<Longrightarrow> (\<exists>p \<in> set (full_frame b). kills p i) \<longleftrightarrow> map_of (dead b) i \<noteq> None"
  unfolding full_frame_set tidy_replica_def by (force simp: offers_apart)

text \<open>
  C2: Two replicas that drifted apart agree again after each accepted the other's full state: the same fields, stickers and dead
  stickers, and the same digest, so the repair stops there.
\<close>

theorem exchange_repairs:
  assumes "platform_ok P" "tidy_replica P a" "tidy_replica P b"
    and "apply_all P rs (map JArr (full_frame b)) a = (a', 0)" "apply_all P rs (map JArr (full_frame a)) b = (b', 0)"
    and "\<forall>k. stamps_once {e. map_of (cells a) k = Some e \<or> map_of (cells b) k = Some e}"
    and "\<forall>i. stamps_once {e. map_of (stickers a) i = Some e \<or> map_of (stickers b) i = Some e}"
  shows "map_of (cells a') = map_of (cells b') \<and> map_of (stickers a') = map_of (stickers b') \<and>
    (\<forall>i. map_of (dead a') i \<noteq> None \<longleftrightarrow> map_of (dead b') i \<noteq> None) \<and> hash_of P a' = hash_of P b'"
proof -
  note A = accepted_frame [OF assms(1,2,4)] and B = accepted_frame [OF assms(1,3,5)]
  note full = full_fields [OF assms(3)] full_fields [OF assms(2)] full_puts [OF assms(3)] full_puts [OF assms(2)]
    full_kills [OF assms(3)] full_kills [OF assms(2)]
  have comm: "{e. map_of (cells b) k = Some e \<or> map_of (cells a) k = Some e} = {e. map_of (cells a) k = Some e \<or> map_of (cells b) k = Some e}"
    "{e. map_of (stickers b) k = Some e \<or> map_of (stickers a) k = Some e} = {e. map_of (stickers a) k = Some e \<or> map_of (stickers b) k = Some e}" for k
    by auto
  show ?thesis
    using A B assms(6,7) unfolding full comm
    by (intro agree [where F = "\<lambda>k. {e. map_of (cells a) k = Some e \<or> map_of (cells b) k = Some e}"
        and G = "\<lambda>i. {e. map_of (stickers a) i = Some e \<or> map_of (stickers b) i = Some e}"]) blast+
qed

end
