(* ===== verification/Collab_Limits.thy ===== *)
theory Collab_Limits
  imports Collab_Correct
begin

text \<open>
  How much a replica sends (the token bucket, whatever happens between the ticks), how many stickers it holds, and what \<open>applyTo\<close> reports
  when the other side moved a sticker.
\<close>

section \<open>The rate\<close>

text \<open>What happens at the page between two connections.\<close>

datatype event = Tick int | Frame json int | Edit work | Place work

definition happen :: "catalog \<Rightarrow> platform \<Rightarrow> (jstring \<Rightarrow> json option) \<Rightarrow> event \<Rightarrow> replica \<Rightarrow> json list \<times> replica" where
  "happen c P parse e s = (case e of
     Tick now \<Rightarrow> (case tick P now s of (f, s') \<Rightarrow> (case f of Some x \<Rightarrow> [x] | None \<Rightarrow> [], s'))
   | Frame v now \<Rightarrow> (case receive c P parse v now s of (_, s', _) \<Rightarrow> ([], s'))
   | Edit w \<Rightarrow> ([], fst (local c P w s))
   | Place w \<Rightarrow> ([], snd (applyTo P w s)))"

primrec sent :: "catalog \<Rightarrow> platform \<Rightarrow> (jstring \<Rightarrow> json option) \<Rightarrow> event list \<Rightarrow> replica \<Rightarrow> json list" where
  "sent c P parse [] s = []"
| "sent c P parse (e # es) s = (case happen c P parse e s of (fs, s') \<Rightarrow> fs @ sent c P parse es s')"

definition purse :: "replica \<Rightarrow> rat \<times> int" where "purse s = (tokens s, refilled s)"

lemma fold_keeps: "(\<And>x s. q (f x s) = q s) \<Longrightarrow> q (fold f xs s) = q s"
  by (induction xs arbitrary: s) auto

lemma purse_update [simp]:
  "purse (s\<lparr>dirty := d\<rparr>) = purse s" "purse (s\<lparr>showing := sh\<rparr>) = purse s" "purse (s\<lparr>ids := i\<rparr>) = purse s" "purse (s\<lparr>meta := m\<rparr>) = purse s"
  "purse (s\<lparr>peer := p, peerSeen := n\<rparr>) = purse s" "purse (s\<lparr>arrivals := ar\<rparr>) = purse s" "purse (s\<lparr>lastFull := lf\<rparr>) = purse s"
  "purse (s\<lparr>rejected := rj, peerSeen := n\<rparr>) = purse s" "purse (s\<lparr>ids := i, showing := sh\<rparr>) = purse s"
  by (simp_all add: purse_def)

lemma purse_steps [simp]:
  "purse (queue k p s) = purse s" "purse (snd (tick_clock s)) = purse s" "purse (setLocal k v s) = purse s" "purse (putSticker i g s) = purse s"
  "purse (kill i s) = purse s" "purse (set_view k v s) = purse s" "purse (set_id r i s) = purse s" "purse (show_id i s) = purse s"
  "purse (snd (new_id s)) = purse s"
  by (simp_all add: purse_def queue_def tick_clock_def setLocal_def putSticker_def kill_def set_view_def set_id_def show_id_def new_id_def
      Let_def split: prod.split)

lemma purse_op [simp]: "purse (fst (apply_op P rs p s)) = purse s"
proof -
  have "purse (fst (apply_field rs p s)) = purse s"
    unfolding apply_field_def by (auto simp: purse_def Let_def split: list.split option.split prod.split)
  moreover have "purse (fst (apply_put P i p s)) = purse s" for i
    unfolding apply_put_def by (auto simp: purse_def Let_def split: list.split option.split prod.split)
  moreover have "purse (fst (apply_dead i p s)) = purse s" for i
    unfolding apply_dead_def by (auto simp: purse_def Let_def split: list.split option.split)
  ultimately show ?thesis unfolding apply_op_def Let_def by (simp split: json.split)
qed

lemma purse_all [simp]: "purse (fst (apply_all P rs ops s)) = purse s"
proof -
  let ?f = "\<lambda>p (s, bad :: nat). case p of JArr xs \<Rightarrow> (case apply_op P rs xs s of (s', ok) \<Rightarrow> (s', if ok then bad else bad + 1)) | _ \<Rightarrow> (s, bad + 1)"
  have f: "purse (fst (?f p x)) = purse (fst x)" for p and x :: "replica \<times> nat"
    using purse_op [of P rs _ "fst x"] by (cases x) (auto split: json.split prod.split simp: prod_eq_iff)
  have "purse (fst (fold ?f ops (s, 0))) = purse (fst (s, 0 :: nat))"
    by (rule fold_keeps [where q = "\<lambda>x. purse (fst x)"]) (rule f)
  then show ?thesis unfolding apply_all_def by simp
qed

lemma purse_full [simp]: "purse (asksFull P now h s) = purse s"
  unfolding asksFull_def by (auto simp: fold_keeps split: prod.split)

lemma purse_receive: "purse (fst (snd (receive c P parse v now s))) = purse s"
proof -
  have d: "purse (fst (snd (receive_digest c P now f s))) = purse s" for f s
    unfolding receive_digest_def by (auto simp: Let_def split: json.split jnum.split option.split)
  have o: "purse (snd (receive_ops c P now f s)) = purse s" for f s
  proof -
    have "purse (s2\<lparr>rejected := rejected s2 + bad, peerSeen := now\<rparr>) = purse t" if "apply_all P rs ops t = (s2, bad)" for rs ops t s2 bad
      using purse_all [of P rs ops t] that by simp
    then show ?thesis unfolding receive_ops_def by (auto simp: Let_def split: json.split prod.split)
  qed
  show ?thesis unfolding receive_def
    using d o by (auto simp: Let_def split: json.split option.split prod.split) (metis snd_conv purse_update(6))
qed

lemma purse_local: "purse (fst (local c P w s)) = purse s"
proof -
  have f: "purse (fst (local_field kv x)) = purse (fst x)" for kv x
    by (cases kv; cases x) (simp add: local_field_def)
  have new: "purse s' = purse s" if "new_id s = (i, s')" for i s s'
    using purse_steps(9) [of s] that by simp
  have st: "purse (fst (local_sticker P rg x)) = purse (fst x)" for rg x
    by (cases rg; cases x) (auto simp: local_sticker_def Let_def new split: option.split prod.split)
  have g: "purse (fst (local_gone seen i x)) = purse (fst x)" for seen i x
    by (cases x) (simp add: local_gone_def)
  have 1: "purse (fst (fold local_field kvs x)) = purse (fst x)" for kvs x
    by (rule fold_keeps [where q = "\<lambda>x. purse (fst x)"]) (rule f)
  have 2: "purse (fst (fold (local_sticker P) xs x)) = purse (fst x)" for xs x
    by (rule fold_keeps [where q = "\<lambda>x. purse (fst x)"]) (rule st)
  have 3: "purse (fst (fold (local_gone seen) is x)) = purse (fst x)" for seen "is" x
    by (rule fold_keeps [where q = "\<lambda>x. purse (fst x)"]) (rule g)
  obtain s1 ch1 where s1: "fold local_field (flatten c P (w_doc w)) (s, False) = (s1, ch1)" by fastforce
  show ?thesis
  proof (cases "w_sk w")
    case None
    then show ?thesis using 1 [of "flatten c P (w_doc w)" "(s, False)"] by (simp add: local_def s1)
  next
    case (Some xs)
    obtain s2 seen ch2 where s2: "fold (local_sticker P) xs (s1, [], ch1) = (s2, seen, ch2)" by (cases "fold (local_sticker P) xs (s1, [], ch1)")
    obtain s3 ch3 where s3: "fold (local_gone seen) (showing s2) (s2, ch2) = (s3, ch3)" by fastforce
    have "purse s3 = purse s" using 1 [of "flatten c P (w_doc w)" "(s, False)"] 2 [of xs "(s1, [], ch1)"] 3 [of seen "showing s2" "(s2, ch2)"]
      by (simp add: s1 s2 s3)
    then show ?thesis by (simp add: local_def s1 s2 s3 Some Let_def)
  qed
qed

lemma purse_place: "purse (snd (applyTo P w s)) = purse s"
proof -
  have a: "purse (fst (snd (apply_cell rs ke x))) = purse (fst (snd x))" for rs ke x
    by (cases ke; cases x) (simp add: apply_cell_def)
  have 1: "purse (fst (snd (fold (apply_cell rs) kes x))) = purse (fst (snd x))" for rs kes x
    by (rule fold_keeps [where q = "\<lambda>x. purse (fst (snd x))"]) (rule a)
  let ?rs = "rules P (case meta s of Some i \<Rightarrow> m_k i | None \<Rightarrow> [])"
  obtain d s1 keys where s1: "fold (apply_cell ?rs) (cells s) (w_doc w, s\<lparr>dirty := False\<rparr>, []) = (d, s1, keys)"
    by (cases "fold (apply_cell ?rs) (cells s) (w_doc w, s\<lparr>dirty := False\<rparr>, [])")
  have "purse s1 = purse s" using 1 [of ?rs "cells s" "(w_doc w, s\<lparr>dirty := False\<rparr>, [])"] by (simp add: s1)
  then show ?thesis by (simp add: applyTo_def Let_def s1 split: option.split prod.split)
qed

text \<open>One tick: at most one frame, and the frames are paid from the purse.\<close>

definition refilled_to :: "int \<Rightarrow> rat \<times> int \<Rightarrow> rat" where
  "refilled_to now p = min BUCKET (fst p + of_int (max 0 (now - snd p)) / 1000 * REFILL_PER_S)"

lemma next_frame_purse: "purse (snd (next_frame P now s)) = purse s"
  by (auto simp: next_frame_def takeOps_def purse_def Let_def split: prod.split)

lemma tick_pays:
  assumes "happen c P parse (Tick now) s = (fs, t)"
  shows "refilled t = now \<and> (fs = [] \<and> tokens t = refilled_to now (purse s) \<or>
    length fs = 1 \<and> 1 \<le> refilled_to now (purse s) \<and> tokens t = refilled_to now (purse s) - 1)"
proof -
  let ?s = "refill now s"
  have r: "tokens ?s = refilled_to now (purse s)" "refilled ?s = now" by (simp_all add: refill_def refilled_to_def purse_def)
  obtain f u where f: "next_frame P now ?s = (f, u)" by fastforce
  have u: "tokens u = tokens ?s" "refilled u = refilled ?s" using next_frame_purse [of P now ?s] f by (simp_all add: purse_def)
  show ?thesis using assms r u unfolding happen_def tick_def Let_def event.case f
    by (cases f) (auto split: if_splits)
qed

fun tick_times :: "event list \<Rightarrow> int list" where
  "tick_times [] = []" | "tick_times (Tick t # es) = t # tick_times es" | "tick_times (_ # es) = tick_times es"

lemma other_free:
  assumes "happen c P parse e s = (fs, t)" "\<forall>now. e \<noteq> Tick now" shows "fs = [] \<and> purse t = purse s"
proof (cases e)
  case (Frame v now)
  with purse_receive [of c P parse v now s] assms(1) show ?thesis by (auto simp: happen_def split: prod.splits)
next
  case (Edit w)
  with purse_local [of c P w s] assms(1) show ?thesis by (simp add: happen_def)
next
  case (Place w)
  with purse_place [of P w s] assms(1) show ?thesis by (simp add: happen_def)
qed (use assms(2) in blast)

lemma sent_after:
  assumes "sorted (refilled s # tick_times es)" "\<forall>t \<in> set (tick_times es). t \<le> T" "refilled s \<le> T" "0 \<le> tokens s"
  shows "of_nat (length (sent c P parse es s)) \<le> tokens s + of_int (T - refilled s) / 1000 * REFILL_PER_S"
  using assms
proof (induction es arbitrary: s)
  case Nil
  then show ?case by (simp add: REFILL_PER_S_def)
next
  case (Cons e es)
  obtain fs t where h: "happen c P parse e s = (fs, t)" by fastforce
  show ?case
  proof (cases e)
    case (Tick now)
    have now: "refilled s \<le> now" "now \<le> T" using Cons.prems Tick by simp_all
    have le: "refilled_to now (purse s) \<le> tokens s + of_int (now - refilled s) / 1000 * REFILL_PER_S"
      using now by (simp add: refilled_to_def purse_def)
    have ge: "0 \<le> refilled_to now (purse s)"
      using now Cons.prems(4) by (simp add: refilled_to_def purse_def REFILL_PER_S_def BUCKET_def)
    have pay: "refilled t = now" "0 \<le> tokens t" "of_nat (length fs) + tokens t = refilled_to now (purse s)"
      using tick_pays [OF h [unfolded Tick]] ge by auto
    have "of_nat (length (sent c P parse es t)) \<le> tokens t + of_int (T - refilled t) / 1000 * REFILL_PER_S"
      using Cons.prems Tick pay now by (intro Cons.IH) simp_all
    moreover have "of_int (now - refilled s) / 1000 * REFILL_PER_S + of_int (T - now) / 1000 * REFILL_PER_S
        = of_int (T - refilled s) / 1000 * REFILL_PER_S" by (simp add: REFILL_PER_S_def field_simps)
    ultimately have "of_nat (length fs) + of_nat (length (sent c P parse es t)) \<le> tokens s + of_int (T - refilled s) / 1000 * REFILL_PER_S"
      using pay le unfolding pay(1) by linarith
    then show ?thesis by (simp add: h)
  next
    case (Frame v now)
    with other_free [OF h] have o: "fs = []" "tokens t = tokens s" "refilled t = refilled s" by (simp_all add: purse_def)
    with Cons.IH [of t] Cons.prems Frame show ?thesis by (simp add: h [unfolded Frame])
  next
    case (Edit w)
    with other_free [OF h] have o: "fs = []" "tokens t = tokens s" "refilled t = refilled s" by (simp_all add: purse_def)
    with Cons.IH [of t] Cons.prems Edit show ?thesis by (simp add: h [unfolded Edit])
  next
    case (Place w)
    with other_free [OF h] have o: "fs = []" "tokens t = tokens s" "refilled t = refilled s" by (simp_all add: purse_def)
    with Cons.IH [of t] Cons.prems Place show ?thesis by (simp add: h [unfolded Place])
  qed
qed

text \<open>
  C28: Between two connections a replica never sends more than 106 frames in a minute, whatever it receives and whatever is edited in
  between; the channel takes 120.
\<close>

theorem at_most_106_a_minute:
  assumes "0 \<le> tokens s" "sorted (tick_times (Tick t1 # es))" "\<forall>t \<in> set (tick_times es). t \<le> t1 + 60000"
  shows "length (sent c P parse (Tick t1 # es) s) \<le> 106"
proof -
  obtain fs t where h: "happen c P parse (Tick t1) s = (fs, t)" by fastforce
  have le: "refilled_to t1 (purse s) \<le> 10" by (simp add: refilled_to_def BUCKET_def)
  have "0 \<le> refilled_to t1 (purse s)" using assms(1) by (simp add: refilled_to_def purse_def REFILL_PER_S_def BUCKET_def)
  then have pay: "refilled t = t1" "0 \<le> tokens t" "of_nat (length fs) + tokens t = refilled_to t1 (purse s)"
    using tick_pays [OF h] by auto
  have "of_nat (length (sent c P parse es t)) \<le> tokens t + of_int (t1 + 60000 - refilled t) / 1000 * REFILL_PER_S"
    using assms pay by (intro sent_after) simp_all
  then have "of_nat (length (fs @ sent c P parse es t)) \<le> (106 :: rat)" using pay le by (simp add: REFILL_PER_S_def)
  then have "length (fs @ sent c P parse es t) \<le> 106" by linarith
  then show ?thesis by (simp add: h)
qed

section \<open>A moved sticker\<close>

definition upd :: "replica \<Rightarrow> jstring \<Rightarrow> json \<Rightarrow> json" where
  "upd s i g = (let v = (case map_of (stickers s) i of Some e \<Rightarrow> e_v e | None \<Rightarrow> JUndef)
     in fold (\<lambda>k g. put_key g (js k) (field v k)) [''e'', ''x'', ''y'', ''r'', ''z''] g)"

lemma place_known:
  assumes "\<And>i. i \<in> set is \<Longrightarrow> List.find (\<lambda>(r, g). ids s r = Some i) (rev old) = Some (h i)"
  shows "fold (place_sticker s old) is (out, new, named) =
    (out @ map (\<lambda>i. (fst (h i), upd s i (snd (h i)))) is, new, named @ map (\<lambda>i. (fst (h i), i)) is)"
  using assms
proof (induction "is" arbitrary: out named)
  case (Cons i "is")
  have "place_sticker s old i (out, new, named) = (out @ [(fst (h i), upd s i (snd (h i)))], new, named @ [(fst (h i), i)])"
    using Cons.prems [of i] by (cases "h i") (simp add: place_sticker_def upd_def Let_def del: js_Cons fold.simps)
  then show ?case using Cons by (simp del: js_Cons)
qed simp

lemma cells_keep: "fold (apply_cell rs) kes (d, s, keys) = (d', s', keys') \<Longrightarrow>
  stickers s' = stickers s \<and> ids s' = ids s \<and> (\<forall>k \<in> set keys'. k \<in> set keys \<or> map_of rs k \<noteq> None)"
proof (induction kes arbitrary: d s keys)
  case (Cons ke kes)
  obtain k e where ke: "ke = (k, e)" by (cases ke)
  show ?case
  proof (cases "map_of rs k = None \<or> map_of (view s) k = Some (e_v e)")
    case True
    then have "apply_cell rs ke (d, s, keys) = (d, s, keys)" by (auto simp: ke apply_cell_def)
    with Cons show ?thesis by simp
  next
    case False
    then have "apply_cell rs ke (d, s, keys) = (assign d k (e_v e), set_view k (e_v e) s, keys @ [k])" by (simp add: ke apply_cell_def)
    with Cons.IH [of "assign d k (e_v e)" "set_view k (e_v e) s" "keys @ [k]"] Cons.prems False
    show ?thesis by (auto simp: set_view_def)
  qed
qed simp

lemma no_rule_sk: "map_of (rules P kind) (js ''sk'') = None"
proof -
  have "js ''sk'' \<notin> fst ` set (rules P kind)"
    by (auto simp: rules_def common_rules_def game_rules_def track_keys_def TRACKS_def RANGES_def)
  then show ?thesis by (simp add: map_of_eq_None_iff)
qed

text \<open>
  C36: When the other side only moved or turned stickers the sheet already shows, \<open>applyTo\<close> puts every merged sticker into the sheet but
  never reports the stickers as changed: the list it compares with was already written to. The page redraws only for reported keys.
\<close>

theorem moved_stickers_not_reported:
  assumes "dirty s" "w_sk w = Some xs" "map (\<lambda>(r, g). ids s r) xs = map Some (visible s)" "distinct (visible s)"
  shows "\<exists>keys t. applyTo P w s = ((t, Some keys), snd (applyTo P w s)) \<and> js ''sk'' \<notin> set keys \<and>
    w_sk t = Some (map (\<lambda>((r, g), i). (r, upd s i g)) (zip xs (visible s)))"
proof -
  let ?rs = "rules P (case meta s of Some i \<Rightarrow> m_k i | None \<Rightarrow> [])"
  obtain d s1 keys where s1: "fold (apply_cell ?rs) (cells s) (w_doc w, s\<lparr>dirty := False\<rparr>, []) = (d, s1, keys)"
    by (cases "fold (apply_cell ?rs) (cells s) (w_doc w, s\<lparr>dirty := False\<rparr>, [])")
  from cells_keep [OF s1] have k: "stickers s1 = stickers s" "ids s1 = ids s" "js ''sk'' \<notin> set keys"
    using no_rule_sk [of P] by (auto simp del: js_Cons)
  then have vis: "visible s1 = visible s" by (simp add: visible_def)
  have len: "length xs = length (visible s)" using arg_cong [OF assms(3), of length] by simp
  have at: "ids s (fst (xs ! j)) = Some (visible s ! j)" if "j < length xs" for j
    using arg_cong [OF assms(3), of "\<lambda>l. l ! j"] that len by (simp add: case_prod_unfold)
  have refs: "distinct (map fst xs)"
    unfolding distinct_conv_nth using at assms(4) len by (metis length_map nth_map nth_eq_iff_index_eq option.inject)
  define pos where "pos i = (LEAST j. j < length xs \<and> visible s ! j = i)" for i
  define h where "h i = xs ! pos i" for i
  have pos: "pos (visible s ! j) = j" if "j < length xs" for j
    unfolding pos_def using that len assms(4) by (intro Least_equality) (auto simp: nth_eq_iff_index_eq)
  have found: "List.find (\<lambda>(r, g). ids s1 r = Some i) (rev xs) = Some (h i)" if vi: "i \<in> set (visible s)" for i
  proof -
    obtain j where j: "j < length xs" "i = visible s ! j" using vi unfolding in_set_conv_nth len [symmetric] by blast
    then have h: "h i = xs ! j" by (simp add: h_def pos)
    have uniq: "y = xs ! j" if "y \<in> set xs" "ids s (fst y) = Some i" for y
    proof -
      obtain m where m: "m < length xs" "y = xs ! m" using \<open>y \<in> set xs\<close> unfolding in_set_conv_nth by blast
      then have "visible s ! m = visible s ! j" using at [OF m(1)] that(2) j by simp
      with m j len assms(4) show ?thesis by (simp add: nth_eq_iff_index_eq)
    qed
    have "List.find (\<lambda>(r, g). ids s1 r = Some i) (rev xs) \<noteq> None"
      using j(2) at [OF j(1)] nth_mem [OF j(1)] unfolding find_None_iff k(2) case_prod_unfold set_rev by blast
    then obtain y where y: "List.find (\<lambda>(r, g). ids s1 r = Some i) (rev xs) = Some y" by blast
    then have "y \<in> set xs" "ids s (fst y) = Some i" using k(2) by (auto simp: find_Some_iff case_prod_unfold) (metis length_rev nth_mem set_rev)
    with uniq y h show ?thesis by simp
  qed
  define ys where "ys = map (\<lambda>i. (fst (h i), upd s1 i (snd (h i)))) (visible s)"
  have fold: "fold (place_sticker s1 xs) (visible s1) ([], w_new w, []) = (ys, w_new w, map (\<lambda>i. (fst (h i), i)) (visible s))"
    using place_known [of "visible s" s1 xs h "[]" "w_new w" "[]"] found by (simp add: vis ys_def)
  have ys_at: "ys ! j = (fst (xs ! j), upd s (visible s ! j) (snd (xs ! j)))" if "j < length xs" for j
    using that len by (simp add: ys_def h_def pos upd_def k(1))
  have lys: "length ys = length xs" by (simp add: ys_def len)
  have fys: "map fst ys = map fst xs" by (rule nth_equalityI) (simp_all add: lys ys_at)
  have same: "map (\<lambda>(r, g). (r, case map_of ys r of Some g' \<Rightarrow> g' | None \<Rightarrow> g)) xs = ys"
  proof (rule nth_equalityI)
    fix j assume j: "j < length (map (\<lambda>(r, g). (r, case map_of ys r of Some g' \<Rightarrow> g' | None \<Rightarrow> g)) xs)"
    then have "map_of ys (fst (ys ! j)) = Some (snd (ys ! j))" using refs fys lys by (intro map_of_is_SomeI) simp_all
    then show "map (\<lambda>(r, g). (r, case map_of ys r of Some g' \<Rightarrow> g' | None \<Rightarrow> g)) xs ! j = ys ! j"
      using j ys_at [of j] by (simp add: case_prod_unfold)
  qed (simp add: lys)
  have res: "ys = map (\<lambda>((r, g), i). (r, upd s i g)) (zip xs (visible s))"
    by (rule nth_equalityI) (simp_all add: lys len ys_at case_prod_unfold)
  note same2 = arg_cong [OF same, of "map (shape P \<circ> snd)", unfolded map_map]
  have "fst (applyTo P w s) = (\<lparr>w_doc = d, w_sk = Some ys, w_new = w_new w\<rparr>, Some keys)"
    using assms(1,2) by (simp add: applyTo_def s1 fold same2 Let_def)
  then have "applyTo P w s = ((\<lparr>w_doc = d, w_sk = Some ys, w_new = w_new w\<rparr>, Some keys), snd (applyTo P w s))"
    by (metis prod.collapse)
  then show ?thesis using k(3) res by (intro exI [of _ keys] exI [of _ "\<lparr>w_doc = d, w_sk = Some ys, w_new = w_new w\<rparr>"]) simp
qed

end
