(* ===== verification/Daily_Trail.thy ===== *)
theory Daily_Trail
  imports Daily_Doc_Ok
begin

text \<open>
  What \<open>changedAreas\<close> says of a sheet nobody touched, what \<open>docUrl\<close> gives up of a sheet that is too long, and what goes with the age band when the person drops it.
\<close>

section \<open>A sheet nobody touched\<close>

definition prim :: "json \<Rightarrow> bool" where "prim v \<longleftrightarrow> \<not> is_object v"

lemma prim_values [simp]:
  "prim (JStr s)" "prim JUndef" "prim (JNum n)" "prim (whole_num P v a b d)" "prim (floor_num P v a b d)" "prim (sanitizeTheme v)"
  "\<not> prim (JArr xs)" "prim (member_or ys e v)"
  by (auto simp: prim_def whole_num_def floor_num_def sanitizeTheme_def member_or_def one_of_def split: json.splits)

abbreviation plain_keys :: "string set" where
  "plain_keys \<equiv> {''x'', ''y'', ''nr'', ''st'', ''bpm'', ''fx'', ''t'', ''s'', ''e'', ''f'', ''q''}"

definition plain_part :: "(string \<times> json) list \<Rightarrow> bool" where
  "plain_part kvs \<longleftrightarrow> list_all (\<lambda>(k, v). k \<in> plain_keys \<longrightarrow> prim v) kvs"

lemma plain_part_append [simp]: "plain_part (xs @ ys) \<longleftrightarrow> plain_part xs \<and> plain_part ys"
  by (simp add: plain_part_def)

lemma plain_part_simps [simp]:
  "plain_part []" "plain_part ((k, v) # xs) \<longleftrightarrow> (k \<in> plain_keys \<longrightarrow> prim v) \<and> plain_part xs"
  "plain_part (opt b k v) \<longleftrightarrow> (b \<longrightarrow> k \<in> plain_keys \<longrightarrow> prim v)"
  "plain_part (opt_json k w) \<longleftrightarrow> (case w of Some v \<Rightarrow> k \<in> plain_keys \<longrightarrow> prim v | None \<Rightarrow> True)"
  by (auto simp: plain_part_def opt_def opt_json_def split: option.split)

lemma plain_field: "plain_part kvs \<Longrightarrow> j \<in> plain_keys \<Longrightarrow> prim (field (jobj kvs) j)"
  by (induction kvs) auto

lemma blob_prim: "is_blob a b v \<Longrightarrow> prim v"
  by (cases v) (auto simp: is_blob_def)

lemma kinds_plain:
  "plain_part (card_part P v)" "plain_part (photo_part P v)" "plain_part (sound_part P v)" "plain_part (duel_part c P v)"
  "plain_part (quest_part P v)" "plain_part (turn_part P v)" "plain_part (game_part P v)"
  by (auto simp: card_part_def photo_part_def sound_part_def duel_part_def quest_part_def turn_part_def game_part_def Let_def
      simp del: js_Cons dest: blob_prim split: option.split)

lemma sheet_plain: "sanitizeDoc c P v = Some w \<Longrightarrow> j \<in> plain_keys \<Longrightarrow> prim (field w j)"
proof -
  assume s: "sanitizeDoc c P v = Some w" and j: "j \<in> plain_keys"
  have "plain_part (head_part c P v)" by (auto simp: head_part_def Let_def split: option.split)
  moreover have "plain_part (kind_part c P v)" using kinds_plain by (simp add: kind_part_def Let_def del: js_Cons)
  moreover have "w = jobj (head_part c P v @ kind_part c P v)" using s by (simp add: sanitizeDoc_def split: if_splits)
  ultimately show ?thesis using plain_field [OF _ j] plain_part_append by blast
qed

abbreviation world_keys :: "string set" where "world_keys \<equiv> {''emoji'', ''theme'', ''title''}"

lemma member_or_field [simp]: "field (member_or xs d v) k = JUndef"
  by (auto simp: member_or_def one_of_def split: json.splits)

lemma absent_field: "j \<notin> fst ` set kvs \<Longrightarrow> field (jobj kvs) j = JUndef"
  by (simp add: map_of_absent)

lemma turn_g: "field (jobj (turn_part P v)) ''g'' = member_or TURN_IDS ''deal'' (field v ''g'')"
  by (simp add: turn_part_def Let_def)

lemma duel_g: "j \<in> world_keys \<Longrightarrow> prim (field (field (jobj (duel_part c P v)) ''g'') j)"
  by (auto simp: duel_part_def Let_def simp del: map_of_append js_Cons)

lemma game_g: "j \<in> world_keys \<Longrightarrow> prim (field (field (jobj (game_part P v)) ''g'') j)"
  by (auto simp: game_part_def Let_def simp del: map_of_append js_Cons)

lemma no_g: "field (jobj (card_part P v)) ''g'' = JUndef" "field (jobj (photo_part P v)) ''g'' = JUndef"
    "field (jobj (sound_part P v)) ''g'' = JUndef" "field (jobj (quest_part P v)) ''g'' = JUndef"
  by (rule absent_field; use kind_keys(1,2,3,5) [of P v] in auto)+

lemma sheet_world:
  assumes "sanitizeDoc c P v = Some w" "j \<in> world_keys" shows "prim (field (field w ''g'') j)"
proof -
  have w: "w = jobj (head_part c P v @ kind_part c P v)" using assms(1) by (simp add: sanitizeDoc_def split: if_splits)
  have "field w ''g'' = field (jobj (kind_part c P v)) ''g''" unfolding w by (rule field_behind_head) simp
  then show ?thesis using no_g [of P v] turn_g [of P v] duel_g [OF assms(2), of c P v] game_g [OF assms(2), of P v]
    by (simp add: kind_part_def Let_def del: js_Cons field_jobj split: if_split) simp
qed

lemma strict_ne_self: "strict_ne v v \<longleftrightarrow> \<not> prim v" by (simp add: strict_ne_def prim_def)

text \<open>
  C35: A sheet compared with an untouched copy of itself has no changed area, except that a card with the weather strip always says
  its rules changed: the two strips are compared as objects, not by what they say.
\<close>

theorem untouched_sheet_areas:
  assumes "sanitizeDoc c P v = Some w"
  shows "changedAreas w w = (if is_object (field w ''w'') then [''regeln''] else [])"
proof -
  have "prim (field w j)" if "j \<in> plain_keys" for j by (rule sheet_plain [OF assms that])
  then have "prim (field w ''x'')" "prim (field w ''y'')" "prim (field w ''nr'')" "prim (field w ''st'')" "prim (field w ''bpm'')"
    "prim (field w ''fx'')" "prim (field w ''t'')" "prim (field w ''s'')" "prim (field w ''e'')" "prim (field w ''f'')" "prim (field w ''q'')"
    by blast+
  moreover have "prim (field (field w ''g'') ''emoji'')" "prim (field (field w ''g'') ''theme'')" "prim (field (field w ''g'') ''title'')"
    by (rule sheet_world [OF assms]; simp)+
  ultimately show ?thesis by (simp add: changedAreas_def Let_def strict_ne_self) (simp add: prim_def)
qed

section \<open>The defaults\<close>

text \<open>
  The diet is kept only where the age band allows it and the payment name only for adults, so dropping the age band drops both,
  whatever they were; only a build for adults keeps them.
\<close>

theorem age_takes_the_rest:
  "(adult_build c \<or> (p_age (dropPref c f ''age'' x) = None \<and> p_diet (dropPref c f ''age'' x) = None \<and> p_pp (dropPref c f ''age'' x) = None)) \<and>
   (p_diet (sanitizePref c v) = None \<or> dietOk c (p_age (sanitizePref c v))) \<and>
   (p_pp (sanitizePref c v) = None \<or> adult c (p_age (sanitizePref c v)))"
proof -
  have "field (del_field u k) k = JUndef" for u k
  proof (cases u)
    case (JObj kvs)
    have "map_of (filter (\<lambda>(j, x). j \<noteq> js k) kvs) (js k) = None" by (induction kvs) auto
    then show ?thesis by (simp add: JObj del_field_def)
  qed (simp_all add: del_field_def)
  then show ?thesis
    by (auto simp: dropPref_def sanitizePref_def Let_def dietOk_def adult_def split: json.splits)
qed

end
