(* ===== verification/Link_Samples.thy ===== *)
theory Link_Samples
  imports Collab_Limits Daily_Trail
begin

text \<open>
  The properties of sheets, packs and shared works applied: a platform that knows ASCII and one pattern of emoji, a card with a weather
  strip, a pack of three questions, two replicas of a card.
\<close>

definition bare :: unicode where
  "bare = \<lparr>lowercase = map low_case, unmarked = (\<lambda>s. s), compatible = (\<lambda>s. s), hurtful = (\<lambda>s. False), contact = (\<lambda>s. False),
     stems = [], words = []\<rparr>"

text \<open>An emoji is a pair of surrogates, with the variation selector if it follows.\<close>

fun emoji_pair :: "jstring \<Rightarrow> jstring option" where
  "emoji_pair (h # l # s) =
     (if high_surrogate h \<and> low_surrogate l then Some (case s of d # _ \<Rightarrow> if d = 0xFE0F then [h, l, d] else [h, l] | [] \<Rightarrow> [h, l]) else None)"
| "emoji_pair _ = None"

definition ascii :: platform where
  "ascii = \<lparr>uc = bare, in_class = (\<lambda>x. list_all (\<lambda>c. \<not> markup c) x), emoji_at = emoji_pair, number_of = (\<lambda>s. NaN),
     number_text = (\<lambda>n. case n of Rat r \<Rightarrow> decimal \<lfloor>r\<rfloor> | _ \<Rightarrow> js ''NaN'')\<rparr>"

lemma trim_solid: "s \<noteq> [] \<Longrightarrow> \<not> white (hd s) \<Longrightarrow> \<not> white (last s) \<Longrightarrow> trim s = s"
proof -
  assume s: "s \<noteq> []" "\<not> white (hd s)" "\<not> white (last s)"
  then have "dropWhile white s = s" by (cases s) auto
  moreover have "dropWhile white (rev s) = rev s" using s by (cases s rule: rev_cases) auto
  ultimately show ?thesis by (simp add: trim_def)
qed

lemma ascii_ok: "platform_ok ascii"
proof -
  have "m \<noteq> [] \<and> trim m = m \<and> emoji_pair m = Some m" if "emoji_pair s = Some m" for s m
  proof (cases s rule: emoji_pair.cases)
    case (1 h l r)
    have p: "\<not> white h" "\<not> white l" "\<not> white 0xFE0F" if "high_surrogate h" "low_surrogate l"
      using that by (auto simp: white_def high_surrogate_def low_surrogate_def)
    show ?thesis using that p unfolding 1 by (cases r) (auto simp: trim_solid split: if_splits)
  qed (use that in simp_all)
  moreover have "emoji_pair DEFAULT_EMOJI = Some DEFAULT_EMOJI"
    by (simp add: DEFAULT_EMOJI_def high_surrogate_def low_surrogate_def)
  ultimately show ?thesis by (simp add: platform_ok_def ascii_def markup_def list_all_iff)
qed

lemma ascii_title: "sliced ascii MAX_TITLE (JStr (js ''Duell'')) = js ''Duell''"
  by code_simp

lemma ascii_signs: "signs_ok ascii"
proof -
  have "sanitizeEmoji ascii (JStr robot) = robot" "sanitizeEmoji ascii (JStr key_sign) = key_sign" by code_simp+
  then show ?thesis using ascii_ok ascii_title by (simp only: signs_ok_def simp_thms)
qed

definition first_game :: json where "first_game = jobj [(''v'', JInt 1), (''theme'', JStr (js ''lava''))]"

lemma state_cleaned_once_witness:
  "sanitizeState ascii (the (sanitizeState ascii first_game)) = sanitizeState ascii first_game \<and> sanitizeState ascii first_game \<noteq> None"
proof -
  obtain w where w: "sanitizeState ascii first_game = Some w"
    by (simp add: sanitizeState_def first_game_def jobj_def)
  then show ?thesis using state_cleaned_once [OF ascii_ok ascii_title w] by simp
qed

definition ideas :: catalog where "ideas = \<lparr>idea_ids = [js ''door''], sign_sets = 4, adult_build = False\<rparr>"

definition rainy :: json where
  "rainy = jobj [(''k'', JStr (js ''card'')), (''x'', JStr (js ''Rain'')),
     (''w'', jobj [(''p'', JStr (js ''Here'')), (''d'', JStr (js ''2026-11-01'')), (''hi'', JInt 9), (''lo'', JInt 4)])]"

lemma rainy_doc: obtains w where "sanitizeDoc ideas ascii rainy = Some w" "is_object (field w ''w'')"
proof -
  have k: "one_of KINDS (field rainy ''k'')" by code_simp
  have w: "sanitizeWeather ascii (field rainy ''w'') \<noteq> None" by code_simp
  then obtain x where x: "sanitizeWeather ascii (field rainy ''w'') = Some x" by blast
  have obj: "is_object x" using x by (auto simp: sanitizeWeather_def Let_def jobj_def split: if_splits option.splits)
  let ?w = "jobj (head_part ideas ascii rainy @ kind_part ideas ascii rainy)"
  have f: "field ?w ''w'' = field (jobj (kind_part ideas ascii rainy)) ''w''" by (rule field_behind_head) simp
  have kp: "kind_part ideas ascii rainy = card_part ascii rainy" by (simp add: kind_part_def rainy_def)
  have "field (jobj (card_part ascii rainy)) ''w'' = x" using x by (simp add: card_part_def del: map_of_append)
  then have o: "is_object (field ?w ''w'')" using obj unfolding f unfolding kp by (simp only:)
  have "sanitizeDoc ideas ascii rainy = Some ?w" using k by (simp only: sanitizeDoc_def if_True)
  then show thesis using o by (rule that)
qed

lemma sheet_cleaned_once_witness: "sanitizeDoc ideas ascii (the (sanitizeDoc ideas ascii rainy)) = sanitizeDoc ideas ascii rainy \<and>
    sanitizeDoc ideas ascii rainy \<noteq> None"
proof -
  obtain w where w: "sanitizeDoc ideas ascii rainy = Some w" by (rule rainy_doc)
  have "1 \<le> sign_sets ideas" by (simp add: ideas_def)
  with w show ?thesis using sheet_cleaned_once [OF ascii_signs _ w] by simp
qed

lemma untouched_sheet_areas_witness: "\<exists>w. sanitizeDoc ideas ascii rainy = Some w \<and> changedAreas w w = [''regeln'']"
proof -
  obtain w where w: "sanitizeDoc ideas ascii rainy = Some w" "is_object (field w ''w'')" by (rule rainy_doc)
  then show ?thesis using untouched_sheet_areas [OF w(1)] by auto
qed

section \<open>A pack\<close>

definition ask :: "string \<Rightarrow> string list \<Rightarrow> json" where "ask q as = JArr (map (\<lambda>a. JStr (js a)) (q # as))"

definition capitals :: json where
  "capitals = jobj [(''t'', JStr (js ''Capitals'')), (''m'', JStr (js ''l'')),
     (''q'', JArr [ask ''France'' [''Paris'', ''Lyon'', ''Nice''], ask ''Spain'' [''Madrid''], ask ''How many'' [''23'']]),
     (''z'', JArr [JInt 0, JInt 0, JInt 23])]"

lemma capitals_pack: obtains p where "sanitize_pack ascii capitals = Some p" "k_m p = js ''l''" "length (k_q p) = 3"
  "length (answers_of (k_q p ! 0)) = 3"
proof -
  have c: "map_option (\<lambda>p. (k_m p, length (k_q p), length (answers_of (k_q p ! 0)))) (sanitize_pack ascii capitals) = Some (js ''l'', 3, 3)"
    by code_simp
  then show thesis using that by (cases "sanitize_pack ascii capitals") auto
qed

lemma pack_cleaned_once_witness: "\<exists>p. sanitize_pack ascii capitals = Some p \<and> sanitize_pack ascii (pack_json p) = Some p"
proof -
  obtain p where p: "sanitize_pack ascii capitals = Some p" by (rule capitals_pack)
  with pack_cleaned_once [OF p] show ?thesis by blast
qed

lemma one_right_choice_witness:
  "\<exists>p. sanitize_pack ascii capitals = Some p \<and> mset (choices_at p 7 0) = mset (answers_of (k_q p ! 0)) \<and>
    (choices_at p 7 0 ! 2 = answers_of (k_q p ! 0) ! 0 \<longleftrightarrow> 2 = rightAt p 7 0)"
proof -
  obtain p where p: "sanitize_pack ascii capitals = Some p" "k_m p = js ''l''" "length (k_q p) = 3" "length (answers_of (k_q p ! 0)) = 3"
    by (rule capitals_pack)
  have "length (choices_at p 7 0) = 3" using arg_cong [OF choices_mset [of p 7 0], of size] p(4) by simp
  with p one_right_choice [OF p(1), of 0 2 7] show ?thesis by auto
qed

lemma estimate_inside_slider_witness: "23 < top_of 23 5 \<and> 5 * 23 < 4 * top_of 23 5 \<and> top_of 23 5 \<le> ZMAX * 3"
  by (rule estimate_inside_slider) (simp_all add: ZMAX_def)

section \<open>A shared card\<close>

definition anna :: replica where "anna = setLocal (js ''x'') (JStr (js ''Hi'')) (create (js ''anna'') (JStr (js ''Anna'')) JUndef)"
definition bert :: replica where "bert = setLocal (js ''t'') (JStr (js ''Us'')) (create (js ''bert'') (JStr (js ''Bert'')) JUndef)"

definition card_rules :: "(jstring \<times> (json \<Rightarrow> bool)) list" where "card_rules = rules ascii (js ''card'')"

definition first_op :: "json list" where "first_op = field_op (js ''x'') (JStr (js ''Ha'')) 2 (js ''bert'')"
definition second_op :: "json list" where "second_op = field_op (js ''x'') (JStr (js ''Ho'')) 3 (js ''carl'')"

lemma accepted:
  "snd (apply_all ascii card_rules (map JArr [first_op, second_op]) anna) = 0"
  "snd (apply_all ascii card_rules (map JArr [second_op, first_op, second_op]) anna) = 0"
  "snd (apply_all ascii card_rules (map JArr (full_frame bert)) anna) = 0"
  "snd (apply_all ascii card_rules (map JArr (full_frame anna)) bert) = 0"
  by code_simp+

lemma both_tidy: "tidy_replica ascii anna" "tidy_replica ascii bert"
  by (simp_all add: tidy_replica_def anna_def bert_def create_def setLocal_def tick_clock_def queue_def)

lemma anna_cells: "cells anna = [(js ''x'', \<lparr>e_v = JStr (js ''Hi''), e_l = 1, e_a = js ''anna''\<rparr>)]" "stickers anna = []"
  and bert_cells: "cells bert = [(js ''t'', \<lparr>e_v = JStr (js ''Us''), e_l = 1, e_a = js ''bert''\<rparr>)]" "stickers bert = []"
  by (simp_all add: anna_def bert_def create_def setLocal_def tick_clock_def queue_def MAX_CLOCK_def)

lemma any_order_converges_witness:
  "map_of (cells (fst (apply_all ascii card_rules (map JArr [first_op, second_op]) anna))) =
   map_of (cells (fst (apply_all ascii card_rules (map JArr [second_op, first_op, second_op]) anna)))"
proof -
  let ?a = "fst (apply_all ascii card_rules (map JArr [first_op, second_op]) anna)"
  let ?b = "fst (apply_all ascii card_rules (map JArr [second_op, first_op, second_op]) anna)"
  have a: "apply_all ascii card_rules (map JArr [first_op, second_op]) anna = (?a, 0)"
    "apply_all ascii card_rules (map JArr [second_op, first_op, second_op]) anna = (?b, 0)"
    using accepted(1,2) by (metis prod.collapse)+
  have f: "stamps_once (field_entries anna (set [first_op, second_op]) k)" for k
    by (auto simp: stamps_once_def field_entries_def first_op_def second_op_def field_offer_field anna_cells split: if_splits)
  have p: "stamps_once (put_entries ascii anna (set [first_op, second_op]) i)" for i
    by (auto simp: stamps_once_def put_entries_def first_op_def second_op_def offers_apart anna_cells)
  have "map_of (cells ?a) = map_of (cells ?b) \<and> map_of (stickers ?a) = map_of (stickers ?b) \<and>
      (\<forall>i. map_of (dead ?a) i \<noteq> None \<longleftrightarrow> map_of (dead ?b) i \<noteq> None) \<and> hash_of ascii ?a = hash_of ascii ?b"
    by (rule any_order_converges [OF ascii_ok both_tidy(1) a]) (use f p in auto)
  then show ?thesis by blast
qed

lemma exchange_repairs_witness:
  "hash_of ascii (fst (apply_all ascii card_rules (map JArr (full_frame bert)) anna)) =
   hash_of ascii (fst (apply_all ascii card_rules (map JArr (full_frame anna)) bert))"
proof -
  let ?a = "fst (apply_all ascii card_rules (map JArr (full_frame bert)) anna)"
  let ?b = "fst (apply_all ascii card_rules (map JArr (full_frame anna)) bert)"
  have a: "apply_all ascii card_rules (map JArr (full_frame bert)) anna = (?a, 0)"
    "apply_all ascii card_rules (map JArr (full_frame anna)) bert = (?b, 0)"
    using accepted(3,4) by (metis prod.collapse)+
  have "map_of (cells ?a) = map_of (cells ?b) \<and> map_of (stickers ?a) = map_of (stickers ?b) \<and>
      (\<forall>i. map_of (dead ?a) i \<noteq> None \<longleftrightarrow> map_of (dead ?b) i \<noteq> None) \<and> hash_of ascii ?a = hash_of ascii ?b"
    by (rule exchange_repairs [OF ascii_ok both_tidy a])
      (auto simp: stamps_once_def anna_cells bert_cells split: if_splits)
  then show ?thesis by blast
qed

lemma at_most_106_a_minute_witness:
  "length (sent ideas ascii (\<lambda>_. None) [Tick 0, Tick 250, Edit \<lparr>w_doc = rainy, w_sk = None, w_new = 0\<rparr>, Tick 500] anna) \<le> 106"
  by (rule at_most_106_a_minute) (simp_all add: anna_def create_def setLocal_def tick_clock_def queue_def BUCKET_def)

definition star :: json where
  "star = jobj [(''e'', JStr DEFAULT_EMOJI), (''x'', JNum (Rat (1 / 4))), (''y'', JNum (Rat (1 / 2))), (''r'', JInt 0), (''z'', JInt 1)]"

definition moved :: replica where
  "moved = anna\<lparr>dirty := True, stickers := [(js ''5.bert'', \<lparr>e_v = star, e_l = 9, e_a = js ''bert''\<rparr>)], ids := [7 \<mapsto> js ''5.bert'']\<rparr>"

definition shown_card :: work where
  "shown_card = \<lparr>w_doc = rainy, w_sk = Some [(7, set_field star ''x'' (JNum (Rat (3 / 4))))], w_new = 8\<rparr>"

lemma moved_stickers_not_reported_witness:
  "\<exists>keys t. applyTo ascii shown_card moved = ((t, Some keys), snd (applyTo ascii shown_card moved)) \<and> js ''sk'' \<notin> set keys \<and>
    w_sk t = Some [(7, upd moved (js ''5.bert'') (set_field star ''x'' (JNum (Rat (3 / 4)))))]"
proof -
  have v: "visible moved = [js ''5.bert'']" by (simp add: visible_def moved_def MAX_STICKERS_def)
  have "\<exists>keys t. applyTo ascii shown_card moved = ((t, Some keys), snd (applyTo ascii shown_card moved)) \<and> js ''sk'' \<notin> set keys \<and>
      w_sk t = Some (map (\<lambda>((r, g), i). (r, upd moved i g)) (zip [(7, set_field star ''x'' (JNum (Rat (3 / 4))))] (visible moved)))"
    by (rule moved_stickers_not_reported) (simp_all add: v, simp_all add: moved_def shown_card_def)
  then show ?thesis by (simp add: v del: js_Cons)
qed

end
