(* ===== verification/Table_Hand.thy ===== *)
theory Table_Hand
  imports Poker Cards Rules_Interface
begin

text \<open>
  A hand at a card table, \<open>table.js\<close>: what one device does from the shuffle to the last reveal. The cards are the ones
  of \<open>mpoker.js\<close> (theory \<open>Poker\<close>), the rules one of three engines behind the interface \<open>game_rules\<close>. The state of a
  hand is the record \<open>hand\<close>; what the device has sent during the hand is its field \<open>mail\<close>, in order. Messages of the
  other seats are JSON values and are not trusted. Timers, drawing and the notes for the player are left out.
\<close>

section \<open>The rules a table plays by\<close>

datatype face = FaceUp | FaceDown

text \<open>The cards as they were really dealt, known once all secrets are out (\<open>full\<close> in \<open>finish\<close>).\<close>

record dealt =
  dl_hands :: "card list list"
  dl_stacks :: "(card \<times> card) list list"
  dl_skat :: "card list"
  dl_pushed :: "card option list option"

text \<open>
  What \<open>table.js\<close> uses of \<open>skat.js\<close>, \<open>doko.js\<close> and \<open>bauernskat.js\<close>. A game without stacks has none and nothing is
  ever due; \<open>picked\<close> is \<open>st.declarer === seat && st.pickedUp\<close>; \<open>top_card\<close> is the card showing on a stack and whether the
  face-down card still lies under it; \<open>said\<close> is the action made of the fields a message carries, \<open>said_fields\<close> the
  fields of an own action; \<open>budget\<close> bounds the accepted actions of a hand.
\<close>

record ('s, 'a) game_rules =
  seats :: nat
  deck :: "card list"
  lay_hands :: "nat list list"
  lay_skat :: "nat list"
  lay_stacks :: "(nat \<times> nat) list list"
  start_of :: "int \<Rightarrow> string list \<Rightarrow> 's"
  house_of :: "json \<Rightarrow> string list"
  turn_of :: "'s \<Rightarrow> int"
  over_of :: "'s \<Rightarrow> bool"
  apply_of :: "'s \<Rightarrow> 'a \<Rightarrow> 's answer"
  actions_of :: "'s \<Rightarrow> nat \<Rightarrow> card list \<Rightarrow> 'a list"
  auto_of :: "'s \<Rightarrow> nat \<Rightarrow> card list \<Rightarrow> 'a option"
  late_of :: "'s \<Rightarrow> 'a \<Rightarrow> bool"
  due_of :: "'s \<Rightarrow> (nat \<times> nat \<times> face) list"
  top_card :: "'s \<Rightarrow> nat \<Rightarrow> nat \<Rightarrow> (card \<times> bool) option"
  picked :: "'s \<Rightarrow> nat \<Rightarrow> bool"
  kind_of :: "'a \<Rightarrow> string"
  card_in :: "'a \<Rightarrow> card option"
  cards_in :: "'a \<Rightarrow> card list"
  play_of :: "nat \<Rightarrow> card \<Rightarrow> 'a"
  show_of :: "nat \<Rightarrow> card list \<Rightarrow> 'a"
  said :: "nat \<Rightarrow> json \<Rightarrow> 'a"
  said_fields :: "'a \<Rightarrow> (string \<times> json) list"
  turned :: "nat \<Rightarrow> nat \<Rightarrow> card \<Rightarrow> 'a"
  audit_of :: "'s \<Rightarrow> dealt \<Rightarrow> (int \<times> string) list option"
  list_of :: "'s \<Rightarrow> dealt \<Rightarrow> int list option"
  budget :: nat

section \<open>The state of a hand\<close>

datatype target = All | To nat

datatype out = Deck1 "jstring list" | Deck2 "jstring list" | Keys "nat list" "jstring list" | Reveal secret "nat list"
  | Act json | Handover json

text \<open>A seat that was handed over: its secrets, its opened cards and what it pushed.\<close>

record ghost =
  gh_sec :: secret
  gh_open :: "nat \<rightharpoonup> nat"
  gh_pushed :: "json list"

text \<open>
  \<open>opened\<close> holds \<open>Some None\<close> for a position whose keys opened no card (\<open>-1\<close> in the source); \<open>played\<close> is also written at
  the position \<open>-1\<close> when a card is nowhere to be found.
\<close>

record 's hand =
  hand_no :: int
  hand_roster :: "jstring list"
  d1 :: "jstring list list"
  d2 :: "jstring list list"
  sec :: secret
  got_keys :: "nat \<times> nat \<rightharpoonup> jstring"
  own :: "nat list"
  opened :: "nat \<rightharpoonup> nat option"
  played :: "int \<rightharpoonup> nat"
  pushed :: "nat list"
  revs :: "nat \<rightharpoonup> secret \<times> json list"
  state :: 's
  flags :: "(int \<times> string) list"
  ghosts :: "nat \<rightharpoonup> ghost"
  moves :: nat
  pub :: "nat \<rightharpoonup> nat"
  sent :: "nat list"
  bad :: "nat list"
  was_dealt :: bool
  revealed :: bool
  mail :: "(target \<times> out) list"

datatype reply = Wait | Gone

definition post :: "target \<Rightarrow> out \<Rightarrow> 's hand \<Rightarrow> 's hand" where "post w x h = h\<lparr>mail := mail h @ [(w, x)]\<rparr>"

definition flag :: "int \<Rightarrow> string \<Rightarrow> 's hand \<Rightarrow> 's hand" where "flag s why h = h\<lparr>flags := flags h @ [(s, why)]\<rparr>"

definition size_of :: "('s, 'a) game_rules \<Rightarrow> nat" where "size_of G = length (deck G)"

definition my_key :: "'s hand \<Rightarrow> nat \<Rightarrow> jstring" where "my_key h p = s_ki (sec h) ! p"

definition new_hand :: "('s, 'a) game_rules \<Rightarrow> nat \<Rightarrow> int \<Rightarrow> jstring list \<Rightarrow> string list \<Rightarrow> secret \<Rightarrow> 's hand" where
  "new_hand G me n r house x = \<lparr>hand_no = n, hand_roster = r, d1 = [], d2 = [], sec = x, got_keys = Map.empty, own = lay_hands G ! me,
     opened = Map.empty, played = Map.empty, pushed = [], revs = Map.empty, state = start_of G (js_rem n (int (seats G))) house,
     flags = [], ghosts = Map.empty, moves = 0, pub = Map.empty, sent = [], bad = [], was_dealt = False, revealed = False, mail = []\<rparr>"

section \<open>Keys and cards\<close>

definition final :: "('s, 'a) game_rules \<Rightarrow> 's hand \<Rightarrow> jstring list option" where
  "final G h = (if length (d2 h) = seats G then Some (d2 h ! (seats G - 1)) else None)"

definition key_from :: "nat \<Rightarrow> 's hand \<Rightarrow> nat \<Rightarrow> nat \<Rightarrow> jstring option" where
  "key_from me h p s = (if s = me then Some (my_key h p)
     else case ghosts h s of Some g \<Rightarrow> Some (s_ki (gh_sec g) ! p) | None \<Rightarrow> got_keys h (p, s))"

definition keysFor :: "('s, 'a) game_rules \<Rightarrow> nat \<Rightarrow> 's hand \<Rightarrow> nat \<Rightarrow> jstring list option" where
  "keysFor G me h p = those (map (key_from me h p) [0..<seats G])"

definition open_one :: "('s, 'a) game_rules \<Rightarrow> nat \<Rightarrow> jstring list \<Rightarrow> nat \<Rightarrow> 's hand \<Rightarrow> 's hand" where
  "open_one G me f p h = (if opened h p \<noteq> None then h
     else case keysFor G me h p of None \<Rightarrow> h | Some k \<Rightarrow> h\<lparr>opened := (opened h)(p \<mapsto> open_card (f ! p) k (size_of G))\<rparr>)"

definition openOwn :: "('s, 'a) game_rules \<Rightarrow> nat \<Rightarrow> 's hand \<Rightarrow> 's hand" where
  "openOwn G me h = (case final G h of None \<Rightarrow> h | Some f \<Rightarrow> fold (open_one G me f) (own h) h)"

section \<open>Stack cards that are due\<close>

definition stack_pos :: "('s, 'a) game_rules \<Rightarrow> nat \<Rightarrow> nat \<Rightarrow> face \<Rightarrow> nat" where
  "stack_pos G z i f = (let (u, d) = lay_stacks G ! z ! i in if f = FaceUp then u else d)"

definition due_list :: "('s, 'a) game_rules \<Rightarrow> 's \<Rightarrow> (nat \<times> nat \<times> nat) list" where
  "due_list G st = map (\<lambda>(z, i, f). (z, i, stack_pos G z i f)) (due_of G st)"

definition bare_send :: "nat \<times> nat \<times> nat \<Rightarrow> 's hand \<Rightarrow> 's hand" where
  "bare_send r h = (let p = snd (snd r) in
     if p \<in> set (sent h) then h else post All (Keys [p] [my_key h p]) (h\<lparr>sent := p # sent h\<rparr>))"

definition bare_turn :: "('s, 'a) game_rules \<Rightarrow> nat \<Rightarrow> jstring list \<Rightarrow> nat \<times> nat \<times> nat \<Rightarrow> 's hand \<times> bool \<Rightarrow> 's hand \<times> bool" where
  "bare_turn G me f r hm = (case r of (z, i, p) \<Rightarrow> let h = fst hm in
     case keysFor G me h p of None \<Rightarrow> hm
     | Some k \<Rightarrow> if p \<in> set (bad h) then hm
         else let refused = (flag (if seats G = 2 then 1 - int me else int z) ''key'' (h\<lparr>bad := p # bad h\<rparr>), snd hm) in
           case open_card (f ! p) k (size_of G) of None \<Rightarrow> refused
           | Some c \<Rightarrow> (case apply_of G (state h) (turned G z i (deck G ! c)) of Inl e \<Rightarrow> refused
               | Inr st \<Rightarrow> (h\<lparr>state := st, pub := (pub h)(p \<mapsto> c)\<rparr>, True)))"

definition bare_round :: "('s, 'a) game_rules \<Rightarrow> nat \<Rightarrow> jstring list \<Rightarrow> 's hand \<Rightarrow> 's hand \<times> bool" where
  "bare_round G me f h = (let l = due_list G (state h) in fold (bare_turn G me f) l (fold bare_send l h, False))"

text \<open>The loop of \<open>bare\<close>, with at most \<open>n\<close> rounds; \<open>budget\<close> rounds are enough (theory \<open>Table_Correct\<close>).\<close>

fun bare :: "('s, 'a) game_rules \<Rightarrow> nat \<Rightarrow> nat \<Rightarrow> 's hand \<Rightarrow> 's hand" where
  "bare G me 0 h = h"
| "bare G me (Suc n) h = (case final G h of None \<Rightarrow> h
     | Some f \<Rightarrow> let (h', moved) = bare_round G me f h in if moved then bare G me n h' else h')"

definition fuel :: "('s, 'a) game_rules \<Rightarrow> nat" where "fuel G = Suc (budget G)"

section \<open>Shuffle, lock, hand out the keys\<close>

definition shuffle_step :: "('s, 'a) game_rules \<Rightarrow> nat \<Rightarrow> 's hand \<Rightarrow> 's hand" where
  "shuffle_step G me h = (if length (d1 h) = me then
     let d = shuffle (if me = 0 then Poker.cards (size_of G) else d1 h ! (me - 1)) (sec h)
     in post All (Deck1 d) (h\<lparr>d1 := d1 h @ [d]\<rparr>) else h)"

definition lock_step :: "('s, 'a) game_rules \<Rightarrow> nat \<Rightarrow> 's hand \<Rightarrow> 's hand" where
  "lock_step G me h = (if length (d1 h) = seats G \<and> length (d2 h) = me then
     let d = lock (if me = 0 then d1 h ! (seats G - 1) else d2 h ! (me - 1)) (sec h)
     in post All (Deck2 d) (h\<lparr>d2 := d2 h @ [d]\<rparr>) else h)"

definition hand_out :: "('s, 'a) game_rules \<Rightarrow> nat \<Rightarrow> 's hand \<Rightarrow> 's hand" where
  "hand_out G me h = fold (\<lambda>s. post (To s) (Keys (lay_hands G ! s) (map (my_key h) (lay_hands G ! s))))
     (filter (\<lambda>s. s \<noteq> me) [0..<seats G]) h"

definition step :: "('s, 'a) game_rules \<Rightarrow> nat \<Rightarrow> 's hand \<Rightarrow> 's hand" where
  "step G me h = (let h = lock_step G me (shuffle_step G me h) in
     if length (d2 h) = seats G \<and> \<not> was_dealt h
     then bare G me (fuel G) (openOwn G me (hand_out G me (h\<lparr>was_dealt := True\<rparr>))) else h)"

section \<open>Where a card lies\<close>

definition topPos :: "('s, 'a) game_rules \<Rightarrow> 's \<Rightarrow> nat \<Rightarrow> nat \<Rightarrow> int" where
  "topPos G st z i = (case top_card G st z i of None \<Rightarrow> -1 | Some (c, u) \<Rightarrow> int (stack_pos G z i (if u then FaceUp else FaceDown)))"

definition stackPos :: "('s, 'a) game_rules \<Rightarrow> 's \<Rightarrow> nat \<Rightarrow> card \<Rightarrow> int" where
  "stackPos G st z c = (if lay_stacks G = [] then -1
     else case find (\<lambda>i. topPos G st z i \<ge> 0 \<and> map_option fst (top_card G st z i) = Some c) [0..<length (lay_stacks G ! z)] of
       None \<Rightarrow> -1 | Some i \<Rightarrow> topPos G st z i)"

definition live :: "'s hand \<Rightarrow> nat \<Rightarrow> bool" where
  "live h p \<longleftrightarrow> (case opened h p of Some (Some _) \<Rightarrow> True | _ \<Rightarrow> False) \<and> played h (int p) = None \<and> p \<notin> set (pushed h)"

definition card_at :: "('s, 'a) game_rules \<Rightarrow> 's hand \<Rightarrow> nat \<Rightarrow> card" where
  "card_at G h p = deck G ! the (the (opened h p))"

definition myCards :: "('s, 'a) game_rules \<Rightarrow> 's hand \<Rightarrow> card list" where
  "myCards G h = map (card_at G h) (filter (live h) (own h))"

definition cardPos :: "('s, 'a) game_rules \<Rightarrow> nat \<Rightarrow> 's hand \<Rightarrow> card \<Rightarrow> int" where
  "cardPos G me h c = (case find (\<lambda>p. live h p \<and> card_at G h p = c) (own h) of Some p \<Rightarrow> int p | None \<Rightarrow> stackPos G (state h) me c)"

definition allowed :: "('s, 'a) game_rules \<Rightarrow> 's hand \<Rightarrow> nat \<Rightarrow> int \<Rightarrow> bool" where
  "allowed G h s p \<longleftrightarrow> played h p = None \<and>
     (p \<in> int ` set (lay_hands G ! s) \<or>
      (if lay_stacks G \<noteq> [] then list_ex (\<lambda>i. topPos G (state h) s i = p) [0..<length (lay_stacks G ! s)]
       else p \<in> int ` set (lay_skat G) \<and> picked G (state h) s))"

section \<open>Reading what arrives\<close>

definition point_in :: "json \<Rightarrow> jstring option" where
  "point_in v = (case v of JStr s \<Rightarrow> if isPoint s then Some s else None | _ \<Rightarrow> None)"

fun points_in :: "json \<Rightarrow> jstring list option" where
  "points_in (JArr xs) = those (map point_in xs)"
| "points_in _ = None"

definition deck_in :: "nat \<Rightarrow> json \<Rightarrow> jstring list option" where
  "deck_in n v = (case points_in v of Some d \<Rightarrow> if length d = n then Some d else None | None \<Rightarrow> None)"

fun list_in :: "json \<Rightarrow> json list" where
  "list_in (JArr xs) = xs" | "list_in _ = []"

text \<open>\<open>MP.validSecrets(m.sec, N)\<close>, with the secrets it accepts.\<close>

definition secret_in :: "nat \<Rightarrow> json \<Rightarrow> secret option" where
  "secret_in n v = (case (field v ''k'', field v ''perm'', field v ''ki'') of
     (JStr k, JArr ps, JArr ks) \<Rightarrow>
       (case (those (map as_integer ps), those (map point_in ks)) of
         (Some is, Some ki) \<Rightarrow>
           (let x = \<lparr>s_k = k, s_perm = map nat is, s_ki = ki\<rparr> in
            if list_all (\<lambda>i. 0 \<le> i) is \<and> validSecrets x n then Some x else None)
       | _ \<Rightarrow> None)
   | _ \<Rightarrow> None)"

text \<open>
  The name of the property \<open>o[v]\<close>, for the values that can be a position below \<open>n\<close>: a whole number, its text, or an
  array of one of these. Under every other name the source writes a property that nobody reads.
\<close>

fun key_text :: "json \<Rightarrow> jstring option" where
  "key_text (JNum (Rat r)) = (if of_int \<lfloor>r\<rfloor> = r then Some (decimal \<lfloor>r\<rfloor>) else None)"
| "key_text (JStr s) = Some s"
| "key_text (JArr [v]) = key_text v"
| "key_text _ = None"

definition position_in :: "nat \<Rightarrow> json \<Rightarrow> nat option" where
  "position_in n v = (case key_text v of None \<Rightarrow> None | Some t \<Rightarrow> find (\<lambda>i. decimal (int i) = t) [0..<n])"

end
