(* ===== verification/Table_Play.thy ===== *)
theory Table_Play
  imports Table_Hand
begin

text \<open>
  The messages of a hand, \<open>game\<close>, \<open>takeOver\<close>, \<open>settle\<close> and \<open>finish\<close> of \<open>table.js\<close>, and what the player at this device
  does, \<open>act\<close> and \<open>handover\<close>. \<open>Wait\<close> is the answer of a message that builds on one that has not come yet. An exception
  of the source inside a handler ends it where it is; the handlers below do the same.
\<close>

section \<open>Seats that were handed over\<close>

definition ghostCards :: "('s, 'a) game_rules \<Rightarrow> 's hand \<Rightarrow> ghost \<Rightarrow> (nat \<times> card) list" where
  "ghostCards G h g = List.map_filter (\<lambda>p. case gh_open g p of
       Some c \<Rightarrow> if played h (int p) = None \<and> JInt (int p) \<notin> set (gh_pushed g) then Some (p, deck G ! c) else None
     | None \<Rightarrow> None) [0..<size_of G]"

definition ghost_at :: "('s, 'a) game_rules \<Rightarrow> 's hand \<Rightarrow> nat \<Rightarrow> (nat \<times> card) list \<Rightarrow> card \<Rightarrow> int" where
  "ghost_at G h s cs c = (case find (\<lambda>y. snd y = c) cs of Some y \<Rightarrow> int (fst y) | None \<Rightarrow> stackPos G (state h) s c)"

definition ghost_mark :: "('s, 'a) game_rules \<Rightarrow> nat \<Rightarrow> ghost \<Rightarrow> 'a \<Rightarrow> 's hand \<Rightarrow> 's hand" where
  "ghost_mark G s g a h = (let at_pos = ghost_at G h s (ghostCards G h g) in
     if kind_of G a = ''play'' then h\<lparr>played := (played h)((case card_in G a of Some c \<Rightarrow> at_pos c | None \<Rightarrow> -1) \<mapsto> s)\<rparr>
     else if kind_of G a = ''push'' then
       h\<lparr>ghosts := (ghosts h)(s \<mapsto> g\<lparr>gh_pushed := map (\<lambda>c. JInt (at_pos c)) (cards_in G a)\<rparr>)\<rparr>
     else h)"

text \<open>The loop of \<open>settle\<close>: a seat that was handed over moves at once; at most \<open>n\<close> moves.\<close>

fun ghost_moves :: "('s, 'a) game_rules \<Rightarrow> nat \<Rightarrow> nat \<Rightarrow> 's hand \<Rightarrow> 's hand" where
  "ghost_moves G me 0 h = h"
| "ghost_moves G me (Suc n) h =
     (let s = turn_of G (state h) in
      if over_of G (state h) \<or> s < 0 \<or> s = int me then h
      else case ghosts h (nat s) of None \<Rightarrow> h
      | Some g \<Rightarrow> (case auto_of G (state h) (nat s) (map snd (ghostCards G h g)) of None \<Rightarrow> h
        | Some a \<Rightarrow> let h' = ghost_mark G (nat s) g a h in
            (case apply_of G (state h') a of Inl e \<Rightarrow> flag s ''auto'' h'
             | Inr st \<Rightarrow> ghost_moves G me n (bare G me (fuel G) (h'\<lparr>state := st, moves := Suc (moves h')\<rparr>)))))"

definition give_away :: "nat \<Rightarrow> 's hand \<Rightarrow> 's hand" where
  "give_away me h = (let h = h\<lparr>revs := (\<lambda>s. case ghosts h s of Some g \<Rightarrow> Some (gh_sec g, gh_pushed g) | None \<Rightarrow> revs h s)\<rparr> in
     if revealed h then h
     else (post All (Reveal (sec h) (pushed h)) (h\<lparr>revealed := True\<rparr>))
       \<lparr>revs := (revs h)(me \<mapsto> (sec h, map (\<lambda>p. JInt (int p)) (pushed h)))\<rparr>)"

definition settle :: "('s, 'a) game_rules \<Rightarrow> nat \<Rightarrow> 's hand \<Rightarrow> 's hand" where
  "settle G me h = (let h = ghost_moves G me (fuel G) (bare G me (fuel G) h) in
     if over_of G (state h) then give_away me h else h)"

definition elem :: "json \<Rightarrow> nat \<Rightarrow> json" where
  "elem v i = (case v of JArr xs \<Rightarrow> if i < length xs then xs ! i else JUndef | _ \<Rightarrow> JUndef)"

definition open_shown :: "('s, 'a) game_rules \<Rightarrow> nat \<Rightarrow> nat \<Rightarrow> 's hand \<Rightarrow> jstring list \<Rightarrow> secret \<Rightarrow> nat list \<Rightarrow> json \<Rightarrow> (nat \<rightharpoonup> nat) \<Rightarrow> (nat \<rightharpoonup> nat)" where
  "open_shown G me s h f x may v opn = (case (as_integer (elem v 0), points_in (elem v 1)) of
     (Some i, Some k) \<Rightarrow>
       if i \<in> int ` set may \<and> length k = seats G \<and> k ! s = s_ki x ! nat i \<and> k ! me = my_key h (nat i)
       then (case open_card (f ! nat i) k (size_of G) of Some c \<Rightarrow> opn(nat i \<mapsto> c) | None \<Rightarrow> opn)
       else opn
   | _ \<Rightarrow> opn)"

definition takeOver :: "('s, 'a) game_rules \<Rightarrow> nat \<Rightarrow> nat \<Rightarrow> json \<Rightarrow> jstring list \<Rightarrow> 's hand \<Rightarrow> 's hand" where
  "takeOver G me s m f h = (case secret_in (size_of G) (field m ''sec'') of None \<Rightarrow> flag (int s) ''deal'' h
     | Some x \<Rightarrow>
       if list_ex (\<lambda>p. case got_keys h (p, s) of Some k \<Rightarrow> k \<noteq> s_ki x ! p | None \<Rightarrow> False) (lay_hands G ! me) then flag (int s) ''deal'' h
       else let may = lay_hands G ! s @ (if picked G (state h) s then lay_skat G else []);
                opn = fold (open_shown G me s h f x may) (take (length may) (list_in (field m ''open''))) Map.empty in
         if list_ex (\<lambda>p. opn p = None) may then flag (int s) ''deal'' h
         else let ps = take 2 (filter (\<lambda>v. case position_in (size_of G) v of Some p \<Rightarrow> opn p \<noteq> None | None \<Rightarrow> False) (list_in (field m ''pushed''))) in
           settle G me (openOwn G me (h\<lparr>ghosts := (ghosts h)(s \<mapsto> \<lparr>gh_sec = x, gh_open = opn, gh_pushed = ps\<rparr>)\<rparr>)))"

section \<open>The messages of the deal\<close>

definition on_s1 :: "('s, 'a) game_rules \<Rightarrow> nat \<Rightarrow> nat \<Rightarrow> json \<Rightarrow> 's hand \<Rightarrow> reply \<times> 's hand" where
  "on_s1 G me s m h = (if length (d1 h) \<noteq> s then (if length (d1 h) < s then Wait else Gone, h)
     else case deck_in (size_of G) (field m ''d'') of None \<Rightarrow> (Gone, flag (int s) ''deal'' h)
     | Some d \<Rightarrow> (Gone, step G me (h\<lparr>d1 := d1 h @ [d]\<rparr>)))"

definition on_s2 :: "('s, 'a) game_rules \<Rightarrow> nat \<Rightarrow> nat \<Rightarrow> json \<Rightarrow> 's hand \<Rightarrow> reply \<times> 's hand" where
  "on_s2 G me s m h = (if length (d1 h) < seats G \<or> length (d2 h) < s then (Wait, h)
     else if length (d2 h) \<noteq> s then (Gone, h)
     else case deck_in (size_of G) (field m ''d'') of None \<Rightarrow> (Gone, flag (int s) ''deal'' h)
     | Some d \<Rightarrow> (Gone, step G me (h\<lparr>d2 := d2 h @ [d]\<rparr>)))"

definition take_key :: "nat \<Rightarrow> nat \<Rightarrow> json \<times> json \<Rightarrow> 's hand \<Rightarrow> 's hand" where
  "take_key n s pk h = (case (position_in n (fst pk), point_in (snd pk)) of
     (Some p, Some k) \<Rightarrow> h\<lparr>got_keys := (got_keys h)((p, s) \<mapsto> k)\<rparr> | _ \<Rightarrow> h)"

definition on_keys :: "('s, 'a) game_rules \<Rightarrow> nat \<Rightarrow> nat \<Rightarrow> json \<Rightarrow> 's hand \<Rightarrow> reply \<times> 's hand" where
  "on_keys G me s m h = (case (field m ''pos'', field m ''k'') of
     (JArr ps, JArr ks) \<Rightarrow> (Gone, if length ps \<noteq> length ks then h
        else settle G me (openOwn G me (fold (take_key (size_of G) s) (zip ps ks) h)))
   | _ \<Rightarrow> (Gone, h))"

definition on_rev :: "('s, 'a) game_rules \<Rightarrow> nat \<Rightarrow> json \<Rightarrow> 's hand \<Rightarrow> reply \<times> 's hand" where
  "on_rev G s m h = (if \<not> over_of G (state h) then (Wait, h)
     else case secret_in (size_of G) (field m ''sec'') of None \<Rightarrow> (Gone, flag (int s) ''deal'' h)
     | Some x \<Rightarrow> (Gone, h\<lparr>revs := (revs h)(s \<mapsto> (x, take 2 (list_in (field m ''pushed''))))\<rparr>))"

definition on_handover :: "('s, 'a) game_rules \<Rightarrow> nat \<Rightarrow> nat \<Rightarrow> json \<Rightarrow> 's hand \<Rightarrow> reply \<times> 's hand" where
  "on_handover G me s m h = (case final G h of None \<Rightarrow> (Wait, h)
     | Some f \<Rightarrow> (Gone, if s \<noteq> me \<and> ghosts h s = None \<and> revs h s = None then takeOver G me s m f h else h))"

section \<open>The messages of play\<close>

definition reveal :: "('s, 'a) game_rules \<Rightarrow> nat \<Rightarrow> nat \<Rightarrow> 's hand \<Rightarrow> jstring list \<Rightarrow> nat \<Rightarrow> json \<Rightarrow> nat option" where
  "reveal G me s h f p v = (case points_in v of None \<Rightarrow> None
     | Some k \<Rightarrow> if length k \<noteq> seats G \<or> s \<noteq> me \<and> k ! me \<noteq> my_key h p then None else open_card (f ! p) k (size_of G))"

definition made :: "('s, 'a) game_rules \<Rightarrow> nat \<Rightarrow> 's hand \<Rightarrow> reply \<times> 's hand" where
  "made G me h = (Gone, settle G me (h\<lparr>moves := Suc (moves h)\<rparr>))"

definition on_play :: "('s, 'a) game_rules \<Rightarrow> nat \<Rightarrow> nat \<Rightarrow> json \<Rightarrow> jstring list \<Rightarrow> 's hand \<Rightarrow> reply \<times> 's hand" where
  "on_play G me s m f h = (let wrong = (Gone, flag (int s) ''card'' h) in
     case as_integer (field m ''pos'') of
       None \<Rightarrow> if turn_of G (state h) \<noteq> int s then (Wait, h) else wrong
     | Some i \<Rightarrow>
         if \<not> (0 \<le> i \<and> i < int (size_of G) \<and> allowed G h s i) then (if turn_of G (state h) \<noteq> int s then (Wait, h) else wrong)
         else case reveal G me s h f (nat i) (field m ''keys'') of None \<Rightarrow> wrong
         | Some c \<Rightarrow>
             if pub h (nat i) \<noteq> None \<and> pub h (nat i) \<noteq> Some c then wrong
             else case apply_of G (state h) (play_of G s (deck G ! c)) of Inl e \<Rightarrow> (Wait, h)
             | Inr st \<Rightarrow> made G me (h\<lparr>played := (played h)(i \<mapsto> s), state := st\<rparr>))"

text \<open>The cards of \<open>show\<close>: \<open>Inl True\<close> is a card that is refused, \<open>Inl False\<close> an exception.\<close>

fun shown :: "('s, 'a) game_rules \<Rightarrow> nat \<Rightarrow> nat \<Rightarrow> 's hand \<Rightarrow> jstring list \<Rightarrow> (json \<times> json) list \<Rightarrow> bool + card list" where
  "shown G me s h f [] = Inr []"
| "shown G me s h f (x # xs) = (case as_integer (fst x) of None \<Rightarrow> Inl True
     | Some i \<Rightarrow> if \<not> allowed G h s i then Inl True
         else if \<not> (0 \<le> i \<and> i < int (size_of G)) then Inl False
         else case reveal G me s h f (nat i) (snd x) of None \<Rightarrow> Inl True
         | Some c \<Rightarrow> (case shown G me s h f xs of Inl e \<Rightarrow> Inl e | Inr cs \<Rightarrow> Inr (deck G ! c # cs)))"

definition on_show :: "('s, 'a) game_rules \<Rightarrow> nat \<Rightarrow> nat \<Rightarrow> json \<Rightarrow> jstring list \<Rightarrow> 's hand \<Rightarrow> reply \<times> 's hand" where
  "on_show G me s m f h = (case (field m ''pos'', field m ''keys'') of
     (JArr ps, JArr ks) \<Rightarrow> if length ps \<noteq> length ks then (Gone, h)
       else (case shown G me s h f (zip ps ks) of
          Inl b \<Rightarrow> (Gone, if b then flag (int s) ''card'' h else h)
        | Inr cs \<Rightarrow> (case apply_of G (state h) (show_of G s cs) of Inl e \<Rightarrow> (Wait, h) | Inr st \<Rightarrow> made G me (h\<lparr>state := st\<rparr>)))
   | _ \<Rightarrow> (Gone, h))"

definition on_said :: "('s, 'a) game_rules \<Rightarrow> nat \<Rightarrow> nat \<Rightarrow> json \<Rightarrow> 's hand \<Rightarrow> reply \<times> 's hand" where
  "on_said G me s m h = (let a = said G s (field m ''a'') in
     if late_of G (state h) a then (Gone, h)
     else case apply_of G (state h) a of Inl e \<Rightarrow> (Wait, h)
     | Inr st \<Rightarrow> let h = h\<lparr>state := st\<rparr> in
         made G me (if kind_of G a \<noteq> ''pickup'' then h
           else if s \<noteq> me then post (To s) (Keys (lay_skat G) (map (my_key h) (lay_skat G))) h
           else openOwn G me (h\<lparr>own := own h @ lay_skat G\<rparr>)))"

definition on_act :: "('s, 'a) game_rules \<Rightarrow> nat \<Rightarrow> nat \<Rightarrow> json \<Rightarrow> 's hand \<Rightarrow> reply \<times> 's hand" where
  "on_act G me s m h = (case as_string (field (field m ''a'') ''t'') of None \<Rightarrow> (Gone, h)
     | Some t \<Rightarrow> (case final G h of None \<Rightarrow> (Wait, h)
       | Some f \<Rightarrow> if t = js ''play'' then on_play G me s m f h else if t = js ''show'' then on_show G me s m f h else on_said G me s m h))"

text \<open>\<open>game\<close> for a message of this hand and a seat of its roster.\<close>

definition game_msg :: "('s, 'a) game_rules \<Rightarrow> nat \<Rightarrow> nat \<Rightarrow> json \<Rightarrow> 's hand \<Rightarrow> reply \<times> 's hand" where
  "game_msg G me s m h = (let t = field m ''t'' in
     if t = JStr (js ''s1'') then on_s1 G me s m h
     else if t = JStr (js ''s2'') then on_s2 G me s m h
     else if t = JStr (js ''keys'') then on_keys G me s m h
     else if t = JStr (js ''rev'') then on_rev G s m h
     else if t = JStr (js ''handover'') then on_handover G me s m h
     else if t = JStr (js ''act'') then on_act G me s m h
     else (Gone, h))"

section \<open>The end of a hand\<close>

record 's ended =
  end_no :: int
  end_roster :: "jstring list"
  end_state :: 's
  end_flags :: "(int \<times> string) list"
  end_fault :: "fault option"
  end_full :: "dealt option"
  end_audit :: "(int \<times> string) list"
  end_points :: "int list option"

text \<open>\<open>num\<close> is the number a value stands for in a comparison, \<open>Number(v)\<close>.\<close>

definition pushed_cards :: "(json \<Rightarrow> jnum) \<Rightarrow> ('s, 'a) game_rules \<Rightarrow> nat list \<Rightarrow> json list \<Rightarrow> card option list" where
  "pushed_cards num G ids vs = map (\<lambda>v. map_option (\<lambda>p. deck G ! (ids ! p)) (position_in (size_of G) v))
     (filter (\<lambda>v. case num v of Rat r \<Rightarrow> 0 \<le> r \<and> r < of_nat (size_of G) | _ \<Rightarrow> False) vs)"

definition deal_of :: "(json \<Rightarrow> jnum) \<Rightarrow> ('s, 'a) game_rules \<Rightarrow> 's hand \<Rightarrow> nat list \<Rightarrow> dealt" where
  "deal_of num G h ids = (let c = (\<lambda>p. deck G ! (ids ! p)) in
     \<lparr>dl_hands = map (map c) (lay_hands G), dl_stacks = map (map (\<lambda>(u, d). (c u, c d))) (lay_stacks G), dl_skat = map c (lay_skat G),
      dl_pushed = map_option (\<lambda>d. pushed_cards num G ids (snd (the (revs h d)))) (find (picked G (state h)) [0..<seats G])\<rparr>)"

definition transcript :: "('s, 'a) game_rules \<Rightarrow> 's hand \<Rightarrow> deal" where
  "transcript G h = \<lparr>d_n = size_of G, d_one = d1 h, d_two = d2 h, d_sec = map (\<lambda>s. fst (the (revs h s))) [0..<seats G]\<rparr>"

definition finish :: "(json \<Rightarrow> jnum) \<Rightarrow> ('s, 'a) game_rules \<Rightarrow> 's hand \<Rightarrow> 's ended option" where
  "finish num G h = (if list_ex (\<lambda>s. revs h s = None) [0..<seats G] then None
     else let out = \<lparr>end_no = hand_no h, end_roster = hand_roster h, end_state = state h, end_flags = flags h, end_fault = None,
              end_full = None, end_audit = [], end_points = None\<rparr> in
       case verify (transcript G h) of Inl e \<Rightarrow> Some (out\<lparr>end_fault := Some e\<rparr>)
       | Inr ids \<Rightarrow> let full = deal_of num G h ids in
           (case audit_of G (state h) full of None \<Rightarrow> None
            | Some l \<Rightarrow> let bad = l @ flags h in
                if bad \<noteq> [] then Some (out\<lparr>end_full := Some full, end_audit := bad\<rparr>)
                else (case list_of G (state h) full of None \<Rightarrow> None
                  | Some ps \<Rightarrow> Some (out\<lparr>end_full := Some full, end_points := Some ps\<rparr>))))"

section \<open>What the player does\<close>

definition points_json :: "jstring list \<Rightarrow> json" where "points_json k = JArr (map JStr k)"

definition act_json :: "('s, 'a) game_rules \<Rightarrow> 's hand \<Rightarrow> 'a \<Rightarrow> (string \<times> json) list \<Rightarrow> json" where
  "act_json G h a rest = jobj ([(''t'', JStr (js ''act'')), (''no'', JInt (hand_no h)),
     (''a'', jobj ((''t'', JStr (js (kind_of G a))) # said_fields G a))] @ rest)"

definition offered :: "('s, 'a) game_rules \<Rightarrow> nat \<Rightarrow> 's hand \<Rightarrow> 'a \<Rightarrow> bool" where
  "offered G me h a \<longleftrightarrow> list_ex (\<lambda>x. kind_of G x = kind_of G a) (actions_of G (state h) me (myCards G h))"

text \<open>
  \<open>act\<close>: the message, if the action is made, and the hand. Two cards that are pushed are noted before the rules are asked
  whether pushing is due.
\<close>

definition act :: "('s, 'a) game_rules \<Rightarrow> nat \<Rightarrow> 'a \<Rightarrow> 's hand \<Rightarrow> json option \<times> 's hand" where
  "act G me a h = (case final G h of None \<Rightarrow> (None, h) | Some f \<Rightarrow>
     if kind_of G a = ''play'' then
       (let i = (case card_in G a of Some c \<Rightarrow> cardPos G me h c | None \<Rightarrow> -1) in
        if i < 0 then (None, h)
        else case keysFor G me h (nat i) of None \<Rightarrow> (None, h)
        | Some k \<Rightarrow> (if offered G me h a then Some (act_json G h a [(''pos'', JInt i), (''keys'', points_json k)]) else None, h))
     else if kind_of G a = ''push'' then
       (let ps = map (cardPos G me h) (cards_in G a) in
        if length ps \<noteq> 2 \<or> ps ! 0 < 0 \<or> ps ! 1 < 0 \<or> ps ! 0 = ps ! 1 then (None, h)
        else let h = h\<lparr>pushed := map nat ps\<rparr> in (if offered G me h a then Some (act_json G h a []) else None, h))
     else if \<not> offered G me h a then (None, h)
     else if kind_of G a = ''show'' then
       (let mine = filter (live h) (own h) in
        case those (map (keysFor G me h) mine) of None \<Rightarrow> (None, h)
        | Some ks \<Rightarrow> (Some (act_json G h a [(''pos'', JArr (map (\<lambda>p. JInt (int p)) mine)), (''keys'', JArr (map points_json ks))]), h))
     else (Some (act_json G h a []), h))"

definition do_act :: "('s, 'a) game_rules \<Rightarrow> nat \<Rightarrow> 'a \<Rightarrow> 's hand \<Rightarrow> bool \<times> 's hand" where
  "do_act G me a h = (case act G me a h of (None, h) \<Rightarrow> (False, h) | (Some m, h) \<Rightarrow> (True, snd (game_msg G me me m (post All (Act m) h))))"

definition secret_json :: "secret \<Rightarrow> json" where
  "secret_json x = jobj [(''k'', JStr (s_k x)), (''perm'', JArr (map (\<lambda>i. JInt (int i)) (s_perm x))), (''ki'', points_json (s_ki x))]"

definition all_open :: "'s hand \<Rightarrow> bool" where "all_open h \<longleftrightarrow> list_all (\<lambda>p. opened h p \<noteq> None) (own h)"

definition handover :: "('s, 'a) game_rules \<Rightarrow> nat \<Rightarrow> 's hand \<Rightarrow> json option" where
  "handover G me h = (if final G h = None \<or> over_of G (state h) \<or> \<not> all_open h then None
     else Some (jobj [(''t'', JStr (js ''handover'')), (''no'', JInt (hand_no h)), (''sec'', secret_json (sec h)),
       (''pushed'', JArr (map (\<lambda>p. JInt (int p)) (pushed h))),
       (''open'', JArr (map (\<lambda>p. JArr [JInt (int p), case keysFor G me h p of Some k \<Rightarrow> points_json k | None \<Rightarrow> JNull]) (own h)))]))"

definition own_actions :: "('s, 'a) game_rules \<Rightarrow> nat \<Rightarrow> 's hand \<Rightarrow> 'a list" where
  "own_actions G me h = (if final G h = None \<or> \<not> all_open h then [] else actions_of G (state h) me (myCards G h))"

text \<open>The move of the clock, \<open>fire\<close>.\<close>

definition clock_move :: "('s, 'a) game_rules \<Rightarrow> nat \<Rightarrow> 's hand \<Rightarrow> bool \<times> 's hand" where
  "clock_move G me h = (if turn_of G (state h) \<noteq> int me then (False, h)
     else case auto_of G (state h) me (myCards G h) of None \<Rightarrow> (False, h) | Some a \<Rightarrow> do_act G me a h)"

end
