(* ===== verification/Table_Correct.thy ===== *)
theory Table_Correct
  imports Table_Play
begin

text \<open>
  What a device guarantees during a hand, whatever the other seats send: which keys leave it and when, that its loops end,
  and what it plays. The laws it relies on are those of the three rule engines (\<open>card_table\<close>).
\<close>

section \<open>The laws of a game at the table\<close>

definition starts :: "('s, 'a) game_rules \<Rightarrow> 's \<Rightarrow> bool" where
  "starts G st \<longleftrightarrow> (\<exists>d r. 0 \<le> d \<and> d < int (seats G) \<and> st = start_of G d r)"

locale card_table = rule_engine "starts G" "apply_of G" "over_of G" inv left "budget G"
  for G :: "('s, 'a) game_rules" and inv :: "'s \<Rightarrow> bool" and left :: "'s \<Rightarrow> nat" +
  assumes pickup_picks: "apply_of G st (said G s v) = Inr st' \<Longrightarrow> kind_of G (said G s v) = ''pickup'' \<Longrightarrow> picked G st' s"

section \<open>What may leave the device\<close>

definition evolves :: "('s, 'a) game_rules \<Rightarrow> 's \<Rightarrow> 's \<Rightarrow> bool" where
  "evolves G st st' \<longleftrightarrow> (\<exists>as. run (apply_of G) st as = Inr st')"

text \<open>What a message of another seat may make the device send, when the rules are at \<open>st\<close>.\<close>

definition fine :: "('s, 'a) game_rules \<Rightarrow> nat \<Rightarrow> 's \<Rightarrow> target \<times> out \<Rightarrow> bool" where
  "fine G me st e = (case snd e of
     Deck1 d \<Rightarrow> True | Deck2 d \<Rightarrow> True | Act m \<Rightarrow> False | Handover m \<Rightarrow> False
   | Reveal x ps \<Rightarrow> over_of G st
   | Keys ps ks \<Rightarrow>
       (\<exists>s < seats G. fst e = To s \<and> s \<noteq> me \<and> (ps = lay_hands G ! s \<or> ps = lay_skat G \<and> (\<exists>st'. evolves G st' st \<and> picked G st' s)))
       \<or> (\<exists>st' z i p. evolves G st' st \<and> (z, i, p) \<in> set (due_list G st') \<and> fst e = All \<and> ps = [p]))"

definition grows :: "('s, 'a) game_rules \<Rightarrow> nat \<Rightarrow> 's hand \<Rightarrow> 's hand \<Rightarrow> bool" where
  "grows G me h h' \<longleftrightarrow> evolves G (state h) (state h') \<and> (\<exists>es. mail h' = mail h @ es \<and> (\<forall>e \<in> set es. fine G me (state h') e))"

lemma evolves_refl [simp]: "evolves G st st"
  by (auto simp: evolves_def intro!: exI [of _ "[]"])

lemma evolves_trans: "evolves G a b \<Longrightarrow> evolves G b c \<Longrightarrow> evolves G a c"
  unfolding evolves_def by (metis run_append sum.simps(6))

lemma evolves_step: "apply_of G st a = Inr st' \<Longrightarrow> evolves G st st'"
  unfolding evolves_def by (rule exI [of _ "[a]"]) simp

lemma grows_same: "state h' = state h \<Longrightarrow> mail h' = mail h \<Longrightarrow> grows G me h h'"
  by (simp add: grows_def)

lemma grows_refl [simp]: "grows G me h h" by (simp add: grows_same)

lemma grows_post: "state h' = state h \<Longrightarrow> mail h' = mail h @ [e] \<Longrightarrow> fine G me (state h) e \<Longrightarrow> grows G me h h'"
  by (simp add: grows_def)

lemma grows_step: "apply_of G (state h) a = Inr (state h') \<Longrightarrow> mail h' = mail h \<Longrightarrow> grows G me h h'"
  by (simp add: grows_def evolves_step)

lemma post_simps [simp]: "state (post w x h) = state h" "mail (post w x h) = mail h @ [(w, x)]" "d1 (post w x h) = d1 h" "d2 (post w x h) = d2 h"
  "own (post w x h) = own h" "opened (post w x h) = opened h" "played (post w x h) = played h" "revs (post w x h) = revs h"
  "ghosts (post w x h) = ghosts h" "pushed (post w x h) = pushed h"
  by (simp_all add: post_def)

lemma flag_simps [simp]: "state (flag s w h) = state h" "mail (flag s w h) = mail h" "own (flag s w h) = own h"
  "opened (flag s w h) = opened h" "played (flag s w h) = played h" "ghosts (flag s w h) = ghosts h" "d2 (flag s w h) = d2 h"
  "revs (flag s w h) = revs h" "pushed (flag s w h) = pushed h" "d1 (flag s w h) = d1 h"
  by (simp_all add: flag_def)

lemma grows_flag [simp]: "grows G me h (flag s w h)" by (simp add: grows_same)

lemma fold_kept: "(\<And>x h. f (g x h) = f h) \<Longrightarrow> f (fold g xs h) = f h"
  by (induction xs arbitrary: h) simp_all

lemma open_one_simps [simp]: "state (open_one G me f p h) = state h" "mail (open_one G me f p h) = mail h" "own (open_one G me f p h) = own h"
  "played (open_one G me f p h) = played h" "ghosts (open_one G me f p h) = ghosts h" "d2 (open_one G me f p h) = d2 h"
  "sent (open_one G me f p h) = sent h" "revs (open_one G me f p h) = revs h" "pushed (open_one G me f p h) = pushed h"
  by (simp_all add: open_one_def split: option.split)

lemma openOwn_simps [simp]: "state (openOwn G me h) = state h" "mail (openOwn G me h) = mail h" "own (openOwn G me h) = own h"
  "played (openOwn G me h) = played h" "ghosts (openOwn G me h) = ghosts h" "d2 (openOwn G me h) = d2 h" "revs (openOwn G me h) = revs h"
  "pushed (openOwn G me h) = pushed h"
  by (auto simp: openOwn_def fold_kept split: option.split)

lemma take_key_simps [simp]: "state (take_key n s x h) = state h" "mail (take_key n s x h) = mail h" "played (take_key n s x h) = played h"
  by (auto simp: take_key_def split: option.split)

context card_table
begin

lemma over_evolves: "over_of G st \<Longrightarrow> evolves G st st' \<Longrightarrow> st' = st"
  unfolding evolves_def by (metis over_run)

lemma fine_later: "fine G me st e \<Longrightarrow> evolves G st st' \<Longrightarrow> fine G me st' e"
  unfolding fine_def by (cases "snd e") (simp_all, metis evolves_trans, metis over_evolves)

lemma grows_trans: "grows G me a b \<Longrightarrow> grows G me b c \<Longrightarrow> grows G me a c"
  unfolding grows_def using fine_later evolves_trans by (metis (no_types, lifting) append.assoc Un_iff set_append)

lemma bare_send_grows: "set l \<subseteq> set (due_list G st) \<Longrightarrow> state h = st \<Longrightarrow> grows G me h (fold bare_send l h) \<and> state (fold bare_send l h) = st"
proof (induction l arbitrary: h)
  case (Cons r l)
  obtain z i p where r: "r = (z, i, p)" by (cases r)
  have "grows G me h (bare_send r h) \<and> state (bare_send r h) = st"
    using Cons.prems by (auto simp: bare_send_def Let_def r fine_def intro!: grows_post) (metis evolves_refl)
  with Cons show ?case using grows_trans by simp blast
qed simp

lemma bare_turn_grows: "grows G me (fst hm) (fst (bare_turn G me f r hm))"
  by (cases r) (auto simp: bare_turn_def Let_def intro: grows_same grows_step split: option.split sum.split)

lemma bare_turns_grows: "grows G me (fst hm) (fst (fold (bare_turn G me f) l hm))"
  by (induction l arbitrary: hm) (simp, metis bare_turn_grows fold_simps(2) grows_trans)

lemma bare_round_grows: "grows G me h (fst (bare_round G me f h))"
  unfolding bare_round_def Let_def
  using bare_send_grows [of "due_list G (state h)" "state h" h] bare_turns_grows [of me "(fold bare_send (due_list G (state h)) h, False)"]
  by (auto intro: grows_trans)

lemma bare_grows: "grows G me h (bare G me n h)"
proof (induction n arbitrary: h)
  case (Suc n)
  show ?case
    using bare_round_grows [of me h] grows_trans Suc by (auto split: option.split prod.split) (metis fst_conv)+
qed simp

lemma hand_out_grows: "grows G me h (hand_out G me h)"
proof -
  have sends: "grows G me h (fold (\<lambda>s. post (To s) (Keys (lay_hands G ! s) (map (my_key h0) (lay_hands G ! s)))) l h)" if "me \<notin> set l" "\<forall>s \<in> set l. s < seats G" for l h0
    using that
  proof (induction l arbitrary: h)
    case (Cons s l)
    have "grows G me h (post (To s) (Keys (lay_hands G ! s) (map (my_key h0) (lay_hands G ! s))) h)"
      using Cons.prems by (auto simp: fine_def intro!: grows_post)
    with Cons grows_trans show ?case by simp
  qed simp
  show ?thesis unfolding hand_out_def by (rule sends) simp_all
qed

lemma step_grows: "grows G me h (step G me h)"
proof -
  have "grows G me h (shuffle_step G me h)" for h by (auto simp: shuffle_step_def Let_def fine_def intro: grows_post)
  moreover have "grows G me h (lock_step G me h)" for h by (auto simp: lock_step_def Let_def fine_def intro: grows_post)
  ultimately have 1: "grows G me h (lock_step G me (shuffle_step G me h))" using grows_trans by blast
  have "grows G me h (bare G me n (openOwn G me (hand_out G me (h\<lparr>was_dealt := True\<rparr>))))" for n h
    by (rule grows_trans [OF grows_trans [OF grows_trans [OF grows_same hand_out_grows] grows_same] bare_grows]) simp_all
  then show ?thesis unfolding step_def Let_def using 1 grows_trans by auto
qed

lemma ghost_mark_simps [simp]: "state (ghost_mark G s g a h) = state h" "mail (ghost_mark G s g a h) = mail h" "own (ghost_mark G s g a h) = own h"
  by (simp_all add: ghost_mark_def Let_def)

lemma ghost_moves_grows: "grows G me h (ghost_moves G me n h)"
proof (induction n arbitrary: h)
  case (Suc n)
  have "grows G me h (ghost_moves G me n (bare G me k (h'\<lparr>state := st, moves := m\<rparr>)))"
    if "apply_of G (state h) a = Inr st" "state h' = state h" "mail h' = mail h" for a st h' m k
    by (rule grows_trans [OF grows_trans [OF grows_step [of G h a] bare_grows] Suc]) (simp_all add: that)
  moreover have "grows G me h (flag z w (ghost_mark G s g a h))" for z w s g a by (simp add: grows_same)
  ultimately show ?case by (auto simp: Let_def split: option.split sum.split)
qed simp

lemma settle_grows: "grows G me h (settle G me h)"
proof -
  have 1: "grows G me h (ghost_moves G me n (bare G me k h))" for n k by (rule grows_trans [OF bare_grows ghost_moves_grows])
  have "grows G me h (give_away me h)" if "over_of G (state h)" for h
    using that by (auto simp: give_away_def Let_def fine_def post_def grows_def)
  then show ?thesis unfolding settle_def Let_def using 1 by (simp, metis grows_trans)
qed

lemma take_over_grows: "grows G me h (takeOver G me s m f h)"
proof -
  have "grows G me h (settle G me (openOwn G me (h\<lparr>ghosts := x\<rparr>)))" for x
    by (rule grows_trans [OF grows_same settle_grows]) simp_all
  then show ?thesis by (auto simp: takeOver_def Let_def split: option.split)
qed

lemma made_grows: "grows G me h h' \<Longrightarrow> grows G me h (snd (made G me h'))"
  unfolding made_def snd_conv by (rule grows_trans [OF _ settle_grows], rule grows_trans [OF _ grows_same]) simp_all

lemma on_s1_grows: "grows G me h (snd (on_s1 G me s m h))"
proof -
  have "grows G me h (step G me (h\<lparr>d1 := x\<rparr>))" for x by (rule grows_trans [OF grows_same step_grows]) simp_all
  then show ?thesis by (auto simp: on_s1_def split: option.split)
qed

lemma on_s2_grows: "grows G me h (snd (on_s2 G me s m h))"
proof -
  have "grows G me h (step G me (h\<lparr>d2 := x\<rparr>))" for x by (rule grows_trans [OF grows_same step_grows]) simp_all
  then show ?thesis by (auto simp: on_s2_def split: option.split)
qed

lemma on_keys_grows: "grows G me h (snd (on_keys G me s m h))"
proof -
  have "grows G me h (settle G me (openOwn G me (fold (take_key n s) l h)))" for n l
    by (rule grows_trans [OF grows_same settle_grows]) (simp_all add: fold_kept)
  then show ?thesis by (auto simp: on_keys_def split: json.split)
qed

lemma on_rev_grows: "grows G me h (snd (on_rev G s m h))"
  by (auto simp: on_rev_def grows_same split: option.split)

lemma on_handover_grows: "grows G me h (snd (on_handover G me s m h))"
  by (auto simp: on_handover_def take_over_grows split: option.split)

lemma on_play_grows: "grows G me h (snd (on_play G me s m f h))"
proof -
  have "grows G me h (snd (made G me (h\<lparr>played := x, state := st\<rparr>)))" if "apply_of G (state h) a = Inr st" for a st x
    by (rule made_grows [OF grows_step [where a = a]]) (simp_all add: that)
  then show ?thesis by (auto simp: on_play_def Let_def split: option.split sum.split)
qed

lemma on_show_grows: "grows G me h (snd (on_show G me s m f h))"
proof -
  have "grows G me h (snd (made G me (h\<lparr>state := st\<rparr>)))" if "apply_of G (state h) a = Inr st" for a st
    by (rule made_grows [OF grows_step [where a = a]]) (simp_all add: that)
  then show ?thesis by (auto simp: on_show_def split: json.split sum.split)
qed

lemma on_said_grows:
  assumes z: "s < seats G"
  shows "grows G me h (snd (on_said G me s m h))"
proof -
  let ?a = "said G s (field m ''a'')"
  have "grows G me h (snd (on_said G me s m h))" if a: "apply_of G (state h) ?a = Inr st" "\<not> late_of G (state h) ?a" for st
  proof -
    let ?h = "h\<lparr>state := st\<rparr>" and ?x = "Keys (lay_skat G) (map (my_key (h\<lparr>state := st\<rparr>)) (lay_skat G))"
    have g: "grows G me h ?h" by (rule grows_step [where a = ?a]) (simp_all add: a)
    moreover have "grows G me h (post (To s) ?x ?h)" if "kind_of G ?a = ''pickup''" "s \<noteq> me"
    proof (rule grows_trans [OF g grows_post])
      show "fine G me (state ?h) (To s, ?x)" unfolding fine_def using pickup_picks [OF a(1) that(1)] that(2) z by auto
    qed simp_all
    moreover have "grows G me h (openOwn G me (?h\<lparr>own := o'\<rparr>))" for o' by (rule grows_trans [OF g grows_same]) simp_all
    ultimately have "grows G me h (snd (made G me h'))"
      if "h' \<in> {?h} \<union> (if kind_of G ?a = ''pickup'' \<and> s \<noteq> me then {post (To s) ?x ?h} else {}) \<union> range (\<lambda>o'. openOwn G me (?h\<lparr>own := o'\<rparr>))" for h'
      using that by (intro made_grows) (auto split: if_splits)
    then show ?thesis using a by (auto simp: on_said_def Let_def)
  qed
  then show ?thesis by (cases "apply_of G (state h) ?a") (auto simp: on_said_def Let_def)
qed

lemma game_msg_grows: "s < seats G \<Longrightarrow> grows G me h (snd (game_msg G me s m h))"
  unfolding game_msg_def Let_def on_act_def
  by (simp add: on_s1_grows on_s2_grows on_keys_grows on_rev_grows on_handover_grows on_play_grows on_show_grows on_said_grows split: option.split)

text \<open>The hand a device is in: after \<open>begin\<close>, any messages of any seats and any own actions.\<close>

end

inductive device :: "('s, 'a) game_rules \<Rightarrow> nat \<Rightarrow> 's hand \<Rightarrow> bool" for G :: "('s, 'a) game_rules" and me :: nat where
  dev_begin: "me < seats G \<Longrightarrow> 0 \<le> n \<Longrightarrow> device G me (step G me (new_hand G me n r house x))"
| dev_message: "device G me h \<Longrightarrow> s < seats G \<Longrightarrow> device G me (snd (game_msg G me s m h))"
| dev_act: "device G me h \<Longrightarrow> device G me (snd (do_act G me a h))"

definition fine_mail :: "('s, 'a) game_rules \<Rightarrow> nat \<Rightarrow> 's hand \<Rightarrow> bool" where
  "fine_mail G me h \<longleftrightarrow> (\<forall>e \<in> set (mail h). fine G me (state h) e \<or> (\<exists>m. snd e = Act m))"

lemma player_act_simps [simp]: "state (snd (act G me a h)) = state h" "mail (snd (act G me a h)) = mail h" "opened (snd (act G me a h)) = opened h"
  "played (snd (act G me a h)) = played h" "ghosts (snd (act G me a h)) = ghosts h" "own (snd (act G me a h)) = own h"
  by (simp_all add: act_def Let_def split: option.split)

lemma do_act_cases:
  obtains "do_act G me a h = (False, snd (act G me a h))"
  | m where "do_act G me a h = (True, snd (game_msg G me me m (post All (Act m) (snd (act G me a h)))))"
  by (cases "act G me a h"; cases "fst (act G me a h)") (auto simp: do_act_def)

context card_table
begin

lemma begin_starts:
  "0 \<le> n \<Longrightarrow> me < seats G \<Longrightarrow> starts G (state (new_hand G me n r' house x))"
  unfolding starts_def by (rule exI [of _ "js_rem n (int (seats G))"], rule exI [of _ house]) (simp add: new_hand_def js_rem_nonneg)

lemma grows_fine_mail: "grows G me h h' \<Longrightarrow> fine_mail G me h \<Longrightarrow> fine_mail G me h'"
  unfolding grows_def fine_mail_def using fine_later by (metis Un_iff set_append)

lemma do_act_evolves: "me < seats G \<Longrightarrow> evolves G (state h) (state (snd (do_act G me a h)))"
proof (rule do_act_cases [of G me a h])
  fix m
  assume z: "me < seats G"
  let ?h = "post All (Act m) (snd (act G me a h))"
  assume "do_act G me a h = (True, snd (game_msg G me me m ?h))"
  with z show ?thesis using game_msg_grows [of me me ?h m] by (simp add: grows_def)
next
  assume "me < seats G" and d: "do_act G me a h = (False, snd (act G me a h))"
  show ?thesis unfolding d by simp
qed

lemma device_seat: "device G me h \<Longrightarrow> me < seats G"
  by (induction rule: device.induct) simp_all

lemma device_reachable: "device G me h \<Longrightarrow> reachable (starts G) (apply_of G) (state h)"
proof (induction rule: device.induct)
  case (dev_begin n r house x)
  have "reachable (starts G) (apply_of G) (state (new_hand G me n r house x))"
    using dev_begin begin_starts by (intro reach_init) blast
  then show ?case using step_grows [of me "new_hand G me n r house x"] unfolding grows_def evolves_def by (metis run_reachable)
next
  case (dev_message h s m)
  then show ?case using game_msg_grows [of s me h m] unfolding grows_def evolves_def by (metis run_reachable)
next
  case (dev_act h a)
  then show ?case using do_act_evolves [OF device_seat [OF dev_act.hyps], of h a] unfolding evolves_def by (metis run_reachable)
qed

lemma device_inv: "device G me h \<Longrightarrow> inv (state h)" and device_left: "device G me h \<Longrightarrow> left (state h) \<le> budget G"
  using device_reachable reachable_inv reachable_budget by blast+

lemma device_fine_mail: "device G me h \<Longrightarrow> fine_mail G me h"
proof (induction rule: device.induct)
  case (dev_begin n r house x)
  have "fine_mail G me (new_hand G me n r house x)" by (simp add: fine_mail_def new_hand_def)
  then show ?case by (rule grows_fine_mail [OF step_grows])
next
  case (dev_message h s m)
  then show ?case using grows_fine_mail [OF game_msg_grows] by blast
next
  case (dev_act h a)
  have "fine_mail G me (snd (act G me a h))" "fine_mail G me (post All (Act m) (snd (act G me a h)))" for m
    using dev_act.IH by (auto simp: fine_mail_def)
  then show ?case by (rule_tac do_act_cases [of G me a h]) (use device_seat [OF dev_act.hyps] in \<open>auto intro: grows_fine_mail [OF game_msg_grows]\<close>)
qed

text \<open>A message makes the device send nothing but decks, keys that are due and, at the end, its secrets.\<close>

lemma message_fine:
  "s < seats G \<Longrightarrow> mail (snd (game_msg G me s m h)) = mail h @ es \<Longrightarrow> e \<in> set es \<Longrightarrow> fine G me (state (snd (game_msg G me s m h))) e"
  using game_msg_grows [of s me h m] by (auto simp: grows_def)

section \<open>The loops end\<close>

lemma evolves_inv: "evolves G st st' \<Longrightarrow> inv st \<Longrightarrow> inv st'"
  unfolding evolves_def by (metis run_inv)

lemma evolves_left: "evolves G st st' \<Longrightarrow> inv st \<Longrightarrow> left st' \<le> left st"
  unfolding evolves_def using run_budget by fastforce

lemma bare_turn_left:
  assumes "inv (state (fst hm))"
  shows "snd (bare_turn G me f r hm) = snd hm \<and> state (fst (bare_turn G me f r hm)) = state (fst hm)
    \<or> left (state (fst (bare_turn G me f r hm))) < left (state (fst hm))"
  using assms budget_step by (cases r) (auto simp: bare_turn_def Let_def split: option.split sum.split)

lemma bare_turns_left:
  "inv (state (fst hm)) \<Longrightarrow> snd (fold (bare_turn G me f) l hm) \<Longrightarrow> \<not> snd hm \<Longrightarrow> left (state (fst (fold (bare_turn G me f) l hm))) < left (state (fst hm))"
proof (induction l arbitrary: hm)
  case (Cons r l)
  let ?hm = "bare_turn G me f r hm"
  have g: "evolves G (state (fst hm)) (state (fst ?hm))" using bare_turn_grows [of me hm f r] by (simp add: grows_def)
  have i: "inv (state (fst ?hm))" using evolves_inv [OF g Cons.prems(1)] .
  have e: "evolves G (state (fst ?hm)) (state (fst (fold (bare_turn G me f) l ?hm)))"
    using bare_turns_grows [of me ?hm f l] by (simp add: grows_def)
  show ?case
  proof (cases "left (state (fst ?hm)) < left (state (fst hm))")
    case True
    then show ?thesis using evolves_left [OF e i] by simp
  next
    case False
    with bare_turn_left [OF Cons.prems(1), of me f r] have "snd ?hm = snd hm" "state (fst ?hm) = state (fst hm)" by auto
    with Cons.IH [OF i] Cons.prems show ?thesis by simp
  qed
qed simp

lemma bare_round_left: "inv (state h) \<Longrightarrow> snd (bare_round G me f h) \<Longrightarrow> left (state (fst (bare_round G me f h))) < left (state h)"
  using bare_send_grows [of "due_list G (state h)" "state h" h me]
    bare_turns_left [of "(fold bare_send (due_list G (state h)) h, False)" me f "due_list G (state h)"]
  by (simp add: bare_round_def Let_def)

lemma bare_enough: "inv (state h) \<Longrightarrow> left (state h) < n \<Longrightarrow> n \<le> m \<Longrightarrow> bare G me m h = bare G me n h"
proof (induction n arbitrary: h m)
  case (Suc n)
  then obtain m' where m: "m = Suc m'" "n \<le> m'" by (cases m) auto
  have "bare G me m' h' = bare G me n h'" if "bare_round G me f h = (h', True)" for f h'
  proof (rule Suc.IH [OF _ _ m(2)])
    show "inv (state h')" using bare_round_grows [of me h f] evolves_inv [OF _ Suc.prems(1)] that by (simp add: grows_def)
    show "left (state h') < n" using bare_round_left [OF Suc.prems(1), of me f] Suc.prems(2) that by simp
  qed
  then show ?case by (auto simp: m split: option.split prod.split)
qed simp

end

end
