(* ===== verification/Table_Safe.thy ===== *)
theory Table_Safe
  imports Table_Correct
begin

text \<open>
  More of what holds in every hand at the table: a seat that was handed over never keeps the others waiting, no card is
  played by a seat it was not dealt to, a card whose keys do not fit stays closed.
\<close>

section \<open>What the loops leave alone\<close>

lemma bare_kept:
  assumes "\<And>w x h. F (post w x h) = F h" "\<And>l h. F (h\<lparr>sent := l\<rparr>) = F h" "\<And>l h. F (h\<lparr>bad := l\<rparr>) = F h" "\<And>s w h. F (flag s w h) = F h"
    "\<And>st q h. F (h\<lparr>state := st, pub := q\<rparr>) = F h"
  shows "F (bare G me n h) = F h"
proof (induction n arbitrary: h)
  case (Suc n)
  have "F (fold bare_send l h) = F h" for l by (rule fold_kept) (simp add: bare_send_def Let_def assms)
  moreover have "F (fst (fold (bare_turn G me f) l hm)) = F (fst hm)" for f l hm
  proof (induction l arbitrary: hm)
    case (Cons r l)
    have "F (fst (bare_turn G me f r hm)) = F (fst hm)"
      by (cases r) (auto simp: bare_turn_def Let_def assms split: option.split sum.split)
    with Cons show ?case by simp
  qed simp
  ultimately have "F (fst (bare_round G me f h)) = F h" for f by (simp add: bare_round_def Let_def)
  then show ?case using Suc by (auto split: option.split prod.split) (metis fst_conv)+
qed simp

lemma bare_simps [simp]: "d1 (bare G me n h) = d1 h" "d2 (bare G me n h) = d2 h" "own (bare G me n h) = own h" "opened (bare G me n h) = opened h"
  "played (bare G me n h) = played h" "ghosts (bare G me n h) = ghosts h" "revs (bare G me n h) = revs h" "pushed (bare G me n h) = pushed h"
  by (rule bare_kept; simp add: post_def flag_def)+

lemma hand_out_simps [simp]: "d1 (hand_out G me h) = d1 h" "d2 (hand_out G me h) = d2 h" "own (hand_out G me h) = own h" "opened (hand_out G me h) = opened h"
  "played (hand_out G me h) = played h" "ghosts (hand_out G me h) = ghosts h"
  unfolding hand_out_def by (rule fold_kept; simp)+

lemma openOwn_d1 [simp]: "d1 (openOwn G me h) = d1 h"
  by (auto simp: openOwn_def fold_kept open_one_def split: option.split)

lemma step_simps [simp]: "ghosts (step G me h) = ghosts h" "played (step G me h) = played h" "own (step G me h) = own h"
  by (simp_all add: step_def lock_step_def shuffle_step_def Let_def)

lemma take_key_more [simp]: "d1 (take_key n s x h) = d1 h" "d2 (take_key n s x h) = d2 h" "ghosts (take_key n s x h) = ghosts h"
  "own (take_key n s x h) = own h" "opened (take_key n s x h) = opened h" "pushed (take_key n s x h) = pushed h"
  "flags (take_key n s x h) = flags h"
  by (auto simp: take_key_def split: option.split)

lemma ghost_moves_simps [simp]: "d1 (ghost_moves G me n h) = d1 h" "d2 (ghost_moves G me n h) = d2 h" "own (ghost_moves G me n h) = own h"
  "opened (ghost_moves G me n h) = opened h"
  by (induction n arbitrary: h) (simp_all add: Let_def ghost_mark_def split: option.split sum.split)

lemma settle_simps [simp]: "d1 (settle G me h) = d1 h" "d2 (settle G me h) = d2 h" "own (settle G me h) = own h" "opened (settle G me h) = opened h"
  by (simp_all add: settle_def give_away_def post_def Let_def)

section \<open>Handed-over seats\<close>

text \<open>Nobody waits for a seat that was handed over, unless the rules know no move for it or refused the one it made.\<close>

definition rests :: "('s, 'a) game_rules \<Rightarrow> nat \<Rightarrow> 's hand \<Rightarrow> bool" where
  "rests G me h \<longleftrightarrow> (let s = turn_of G (state h) in over_of G (state h) \<or> s < 0 \<or> s = int me \<or> (s, ''auto'') \<in> set (flags h) \<or>
     (case ghosts h (nat s) of None \<Rightarrow> True | Some g \<Rightarrow> auto_of G (state h) (nat s) (map snd (ghostCards G h g)) = None))"

lemma ghostCards_same: "played h' = played h \<Longrightarrow> ghostCards G h' g = ghostCards G h g"
  by (simp add: ghostCards_def cong: option.case_cong)

lemma rests_same:
  "rests G me h \<Longrightarrow> state h' = state h \<Longrightarrow> ghosts h' = ghosts h \<Longrightarrow> played h' = played h \<Longrightarrow> set (flags h) \<subseteq> set (flags h') \<Longrightarrow> rests G me h'"
  by (auto simp: rests_def Let_def ghostCards_same [of h' h] cong: option.case_cong split: option.split)

lemma rests_flag: "rests G me h \<Longrightarrow> rests G me (flag z w h)"
  by (rule rests_same) (auto simp: flag_def)

text \<open>Seats are handed over only after the deal.\<close>

definition in_order :: "('s, 'a) game_rules \<Rightarrow> 's hand \<Rightarrow> bool" where
  "in_order G h \<longleftrightarrow> length (d1 h) \<le> seats G \<and> (d2 h \<noteq> [] \<longrightarrow> length (d1 h) = seats G) \<and> (ghosts h \<noteq> Map.empty \<longrightarrow> length (d2 h) = seats G)"

context card_table
begin

lemma ghost_next:
  assumes "inv (state h)" "apply_of G (state h) a = Inr st" "state h' = state h"
  shows "inv (state (bare G me k (h'\<lparr>state := st, moves := q\<rparr>)))" "left (state (bare G me k (h'\<lparr>state := st, moves := q\<rparr>))) < left (state h)"
proof -
  have e: "evolves G st (state (bare G me k (h'\<lparr>state := st, moves := q\<rparr>)))"
    using bare_grows [of me "h'\<lparr>state := st, moves := q\<rparr>" k] by (simp add: grows_def)
  have i: "inv st" using inv_step assms(1,2) by blast
  show "inv (state (bare G me k (h'\<lparr>state := st, moves := q\<rparr>)))" using evolves_inv [OF e i] .
  show "left (state (bare G me k (h'\<lparr>state := st, moves := q\<rparr>))) < left (state h)"
    using evolves_left [OF e i] budget_step [OF assms(1,2)] by simp
qed

lemma ghost_enough: "inv (state h) \<Longrightarrow> left (state h) < n \<Longrightarrow> n \<le> m \<Longrightarrow> ghost_moves G me m h = ghost_moves G me n h"
proof (induction n arbitrary: h m)
  case (Suc n)
  then obtain m' where m: "m = Suc m'" "n \<le> m'" by (cases m) auto
  have "ghost_moves G me m' (bare G me k (h'\<lparr>state := st, moves := q\<rparr>)) = ghost_moves G me n (bare G me k (h'\<lparr>state := st, moves := q\<rparr>))"
    if "apply_of G (state h) a = Inr st" "state h' = state h" for k h' st q a
    by (rule Suc.IH [OF _ _ m(2)]) (use ghost_next [OF Suc.prems(1) that, of me k q] Suc.prems(2) in auto)
  then show ?case by (auto simp: m Let_def split: option.split sum.split)
qed simp

lemma ghost_rests: "inv (state h) \<Longrightarrow> left (state h) < n \<Longrightarrow> rests G me (ghost_moves G me n h)"
proof (induction n arbitrary: h)
  case (Suc n)
  have "rests G me (ghost_moves G me n (bare G me k (h'\<lparr>state := st, moves := q\<rparr>)))"
    if "apply_of G (state h) a = Inr st" "state h' = state h" for k h' st q a
    by (rule Suc.IH) (use ghost_next [OF Suc.prems(1) that, of me k q] Suc.prems(2) in auto)
  moreover have "rests G me (flag (turn_of G (state h)) ''auto'' (ghost_mark G z g a h))" for z g a
    by (simp add: rests_def flag_def Let_def)
  moreover have "rests G me h" if "over_of G (state h) \<or> turn_of G (state h) < 0 \<or> turn_of G (state h) = int me" for h
    using that by (auto simp: rests_def Let_def)
  moreover have "rests G me h" if "ghosts h (nat (turn_of G (state h))) = None" for h
    using that by (simp add: rests_def Let_def)
  moreover have "rests G me h" if "ghosts h (nat (turn_of G (state h))) = Some g"
      "auto_of G (state h) (nat (turn_of G (state h))) (map snd (ghostCards G h g)) = None" for g h
    using that by (simp add: rests_def Let_def)
  ultimately show ?case by (simp add: Let_def flip: not_less split: option.split sum.split)
qed simp

lemma settle_rests:
  assumes "inv (state h)" "left (state h) \<le> budget G"
  shows "rests G me (settle G me h)"
proof -
  let ?h = "bare G me (fuel G) h"
  have e: "evolves G (state h) (state ?h)" using bare_grows [of me h "fuel G"] by (simp add: grows_def)
  have r: "rests G me (ghost_moves G me (fuel G) ?h)"
    using evolves_inv [OF e assms(1)] evolves_left [OF e assms(1)] assms(2) by (intro ghost_rests) (simp_all add: fuel_def)
  have "rests G me (give_away me h')" if "over_of G (state h')" for h' using that by (simp add: rests_def give_away_def Let_def)
  then show ?thesis using r by (simp add: settle_def Let_def)
qed

lemma in_order_step:
  "in_order G h \<Longrightarrow> me < seats G \<Longrightarrow> ghosts h = Map.empty \<Longrightarrow> in_order G (step G me h)"
  by (auto simp: in_order_def step_def lock_step_def shuffle_step_def Let_def post_def)

lemma in_order_keep:
  "in_order G h \<Longrightarrow> d1 h' = d1 h \<Longrightarrow> d2 h' = d2 h \<Longrightarrow> ghosts h' = ghosts h \<or> length (d2 h) = seats G \<Longrightarrow> in_order G h'"
  by (auto simp: in_order_def)

lemma ghost_moves_none: "ghosts h = Map.empty \<Longrightarrow> ghost_moves G me n h = h"
  by (cases n) (simp_all add: Let_def)

lemma in_order_settle: "in_order G h \<Longrightarrow> in_order G (settle G me h)"
proof -
  assume h: "in_order G h"
  have "ghosts (settle G me h) = ghosts h" if "ghosts h = Map.empty"
    using that by (simp add: settle_def ghost_moves_none give_away_def post_def Let_def)
  then show ?thesis using h by (cases "ghosts h = Map.empty") (auto simp: in_order_def)
qed

lemma no_ghosts_rest: "ghosts h = Map.empty \<Longrightarrow> rests G me h"
  by (simp add: rests_def Let_def)

lemma made_ok:
  assumes "in_order G h" "inv (state h)" "left (state h) \<le> budget G"
  shows "in_order G (snd (made G me h)) \<and> rests G me (snd (made G me h))"
  using assms by (auto simp: made_def intro!: in_order_settle settle_rests in_order_keep [OF assms(1)])

lemma after_step:
  assumes "inv st" "left st \<le> budget G" "apply_of G st a = Inr st'"
  shows "inv st'" "left st' \<le> budget G"
  using inv_step [OF assms(1,3)] budget_step [OF assms(1,3)] assms(2) by auto

lemma s1_ok: "in_order G h \<Longrightarrow> rests G me h \<Longrightarrow> me < seats G \<Longrightarrow> s < seats G \<Longrightarrow> in_order G (snd (on_s1 G me s m h)) \<and> rests G me (snd (on_s1 G me s m h))"
proof -
  assume a: "in_order G h" "rests G me h" "me < seats G" "s < seats G"
  have "in_order G (step G me (h\<lparr>d1 := d1 h @ [d]\<rparr>)) \<and> rests G me (step G me (h\<lparr>d1 := d1 h @ [d]\<rparr>))" if "length (d1 h) = s" for d
  proof -
    have g: "ghosts h = Map.empty" and h: "in_order G (h\<lparr>d1 := d1 h @ [d]\<rparr>)" using a(1,4) that by (auto simp: in_order_def)
    show ?thesis using in_order_step [OF h a(3)] g by (auto intro: no_ghosts_rest)
  qed
  then show ?thesis using a by (auto simp: on_s1_def intro: in_order_keep rests_same rests_flag split: option.split)
qed

lemma s2_ok: "in_order G h \<Longrightarrow> rests G me h \<Longrightarrow> me < seats G \<Longrightarrow> s < seats G \<Longrightarrow> in_order G (snd (on_s2 G me s m h)) \<and> rests G me (snd (on_s2 G me s m h))"
proof -
  assume a: "in_order G h" "rests G me h" "me < seats G" "s < seats G"
  have "in_order G (step G me (h\<lparr>d2 := d2 h @ [d]\<rparr>)) \<and> rests G me (step G me (h\<lparr>d2 := d2 h @ [d]\<rparr>))"
    if "length (d2 h) = s" "\<not> length (d1 h) < seats G" for d
  proof -
    have g: "ghosts h = Map.empty" and h: "in_order G (h\<lparr>d2 := d2 h @ [d]\<rparr>)" using a(1,4) that by (auto simp: in_order_def)
    show ?thesis using in_order_step [OF h a(3)] g by (auto intro: no_ghosts_rest)
  qed
  then show ?thesis using a by (auto simp: on_s2_def intro: in_order_keep rests_same rests_flag split: option.split)
qed

lemma settled_ok: "in_order G h \<Longrightarrow> inv (state h) \<Longrightarrow> left (state h) \<le> budget G \<Longrightarrow> in_order G (settle G me h) \<and> rests G me (settle G me h)"
  by (simp add: in_order_settle settle_rests)

lemma keys_ok:
  assumes "in_order G h" "rests G me h" "inv (state h)" "left (state h) \<le> budget G"
  shows "in_order G (snd (on_keys G me s m h)) \<and> rests G me (snd (on_keys G me s m h))"
proof -
  have "in_order G (settle G me (openOwn G me (fold (take_key n s) l h))) \<and> rests G me (settle G me (openOwn G me (fold (take_key n s) l h)))" for n l
    by (rule settled_ok) (use assms in \<open>auto simp: fold_kept intro!: in_order_keep [OF assms(1)]\<close>)
  then show ?thesis using assms by (auto simp: on_keys_def split: json.split)
qed

lemma handover_ok:
  assumes "in_order G h" "rests G me h" "inv (state h)" "left (state h) \<le> budget G"
  shows "in_order G (snd (on_handover G me s m h)) \<and> rests G me (snd (on_handover G me s m h))"
proof -
  have "in_order G (settle G me (openOwn G me (h\<lparr>ghosts := x\<rparr>))) \<and> rests G me (settle G me (openOwn G me (h\<lparr>ghosts := x\<rparr>)))"
    if "final G h \<noteq> None" for x
    by (rule settled_ok) (use assms that in \<open>auto simp: final_def split: if_splits intro!: in_order_keep [OF assms(1)]\<close>)
  moreover have "in_order G (flag z w h) \<and> rests G me (flag z w h)" for z w
    using assms by (auto intro!: in_order_keep [OF assms(1)] rests_same [OF assms(2)] simp: flag_def)
  ultimately show ?thesis using assms by (auto simp: on_handover_def takeOver_def Let_def split: option.split)
qed

lemma act_ok:
  assumes "in_order G h" "rests G me h" "inv (state h)" "left (state h) \<le> budget G"
  shows "in_order G (snd (on_act G me s m h)) \<and> rests G me (snd (on_act G me s m h))"
proof -
  have m: "in_order G (snd (made G me h')) \<and> rests G me (snd (made G me h'))"
    if "apply_of G (state h) a = Inr (state h')" "d1 h' = d1 h" "d2 h' = d2 h" "ghosts h' = ghosts h" for a h'
    by (rule made_ok) (use assms after_step [OF assms(3,4) that(1)] that in \<open>auto intro: in_order_keep\<close>)
  have f: "in_order G (flag z w h) \<and> rests G me (flag z w h)" for z w
    using assms by (auto intro!: in_order_keep [OF assms(1)] rests_same [OF assms(2)] simp: flag_def)
  have "in_order G (snd (on_play G me s m f h)) \<and> rests G me (snd (on_play G me s m f h))" for f
    using assms f m by (auto simp: on_play_def Let_def split: option.split sum.split)
  moreover have "in_order G (snd (on_show G me s m f h)) \<and> rests G me (snd (on_show G me s m f h))" for f
    using assms f m by (auto simp: on_show_def Let_def split: json.split sum.split)
  moreover have "in_order G (snd (on_said G me s m h)) \<and> rests G me (snd (on_said G me s m h))"
    using assms f m by (auto simp: on_said_def Let_def split: option.split sum.split)
  ultimately show ?thesis using assms by (auto simp: on_act_def split: option.split)
qed

lemma msg_ok:
  assumes "in_order G h" "rests G me h" "inv (state h)" "left (state h) \<le> budget G" "me < seats G" "s < seats G"
  shows "in_order G (snd (game_msg G me s m h)) \<and> rests G me (snd (game_msg G me s m h))"
proof -
  have "in_order G (snd (on_rev G s m h)) \<and> rests G me (snd (on_rev G s m h))"
    using assms by (auto simp: on_rev_def intro: in_order_keep rests_same rests_flag split: option.split)
  then show ?thesis
    using s1_ok [OF assms(1,2,5,6), of m] s2_ok [OF assms(1,2,5,6), of m] keys_ok [OF assms(1-4), of s m] handover_ok [OF assms(1-4), of s m]
      act_ok [OF assms(1-4), of s m] assms(1,2)
    unfolding game_msg_def Let_def by auto
qed

lemma act_d [simp]: "d1 (snd (act G me a h)) = d1 h" "d2 (snd (act G me a h)) = d2 h" "flags (snd (act G me a h)) = flags h"
  by (simp_all add: act_def Let_def split: option.split)

lemma device_rests: "device G me h \<Longrightarrow> me < seats G \<and> in_order G h \<and> rests G me h"
proof (induction rule: device.induct)
  case (dev_begin n r house x)
  have "in_order G (new_hand G me n r house x)" "ghosts (new_hand G me n r house x) = Map.empty" by (simp_all add: in_order_def new_hand_def)
  then show ?case using dev_begin by (auto intro: in_order_step no_ghosts_rest)
next
  case (dev_message h s m)
  then show ?case using msg_ok device_inv device_left by blast
next
  case (dev_act h a)
  let ?h = "snd (act G me a h)"
  have i: "inv (state h)" "left (state h) \<le> budget G" using dev_act.hyps device_inv device_left by blast+
  have k: "in_order G (post All (Act m) ?h)" "rests G me (post All (Act m) ?h)" for m
    using dev_act.IH by (auto intro: in_order_keep rests_same simp: post_def)
  have "in_order G ?h \<and> rests G me ?h" using dev_act.IH by (auto intro: in_order_keep rests_same)
  moreover have "in_order G (snd (game_msg G me me m (post All (Act m) ?h))) \<and> rests G me (snd (game_msg G me me m (post All (Act m) ?h)))" for m
    by (rule msg_ok [OF k]) (use i dev_act.IH in simp_all)
  ultimately show ?case using dev_act.IH by (rule_tac do_act_cases [of G me a h]) auto
qed

end

section \<open>A card whose keys do not fit\<close>

lemma open_one_opened: "opened h p = Some x \<Longrightarrow> opened (open_one G me f q h) p = Some x"
  by (auto simp: open_one_def split: option.split)

lemma open_all_opened: "opened h p = Some x \<Longrightarrow> opened (fold (open_one G me f) l h) p = Some x"
  by (induction l arbitrary: h) (simp_all add: open_one_opened)

lemma openOwn_opened: "opened h p = Some x \<Longrightarrow> opened (openOwn G me h) p = Some x"
  by (simp add: openOwn_def open_all_opened split: option.split)

lemma step_opened: "opened h p = Some x \<Longrightarrow> opened (step G me h) p = Some x"
  by (simp add: step_def lock_step_def shuffle_step_def Let_def openOwn_opened)

lemma made_opened: "opened h p = Some x \<Longrightarrow> opened (snd (made G me h)) p = Some x" by (simp add: made_def)

lemma msg_opened: "opened h p = Some x \<Longrightarrow> opened (snd (game_msg G me s m h)) p = Some x"
proof -
  assume o: "opened h p = Some x"
  have 1: "opened (snd (on_s1 G me s m h)) p = Some x" using o by (simp add: on_s1_def step_opened split: option.split)
  have 2: "opened (snd (on_s2 G me s m h)) p = Some x" using o by (simp add: on_s2_def step_opened split: option.split)
  have 3: "opened (snd (on_keys G me s m h)) p = Some x" using o by (simp add: on_keys_def fold_kept openOwn_opened split: json.split)
  have 4: "opened (snd (on_rev G s m h)) p = Some x" using o by (simp add: on_rev_def split: option.split)
  have 5: "opened (snd (on_handover G me s m h)) p = Some x"
    using o by (simp add: on_handover_def takeOver_def Let_def openOwn_opened split: option.split)
  have "opened (snd (on_play G me s m f h)) p = Some x" for f
    using o by (simp add: on_play_def Let_def made_opened split: option.split sum.split)
  moreover have "opened (snd (on_show G me s m f h)) p = Some x" for f
    using o by (auto simp: on_show_def made_opened split: json.split sum.split)
  moreover have "opened (snd (on_said G me s m h)) p = Some x"
    using o by (auto simp: on_said_def Let_def openOwn_opened intro!: made_opened split: sum.split)
  ultimately have "opened (snd (on_act G me s m h)) p = Some x" using o by (simp add: on_act_def split: option.split)
  with 1 2 3 4 5 o show ?thesis by (simp add: game_msg_def Let_def)
qed

text \<open>What may come after a hand: any messages and own actions.\<close>

inductive later :: "('s, 'a) game_rules \<Rightarrow> nat \<Rightarrow> 's hand \<Rightarrow> 's hand \<Rightarrow> bool" for G :: "('s, 'a) game_rules" and me :: nat and h :: "'s hand" where
  later_now: "later G me h h"
| later_message: "later G me h h' \<Longrightarrow> later G me h (snd (game_msg G me s m h'))"
| later_act: "later G me h h' \<Longrightarrow> later G me h (snd (do_act G me a h'))"

lemma later_opened: "later G me h h' \<Longrightarrow> opened h p = Some x \<Longrightarrow> opened h' p = Some x"
proof (induction rule: later.induct)
  case (later_act h' a)
  then show ?case by (rule_tac do_act_cases [of G me a h']) (simp_all add: msg_opened)
qed (simp_all add: msg_opened)

lemma key_from_opened [simp]: "keysFor G me (h\<lparr>opened := y\<rparr>) p = keysFor G me h p"
proof -
  have "key_from me (h\<lparr>opened := y\<rparr>) p = key_from me h p"
    by (rule ext) (simp add: key_from_def my_key_def split: option.split)
  then show ?thesis by (simp add: keysFor_def)
qed

lemma keys_open_one [simp]: "keysFor G me (open_one G me' f q h) p = keysFor G me h p"
  by (simp add: open_one_def split: option.split)

lemma open_all_sets:
  "p \<in> set l \<Longrightarrow> opened h p = None \<Longrightarrow> keysFor G me h p = Some k \<Longrightarrow> opened (fold (open_one G me f) l h) p = Some (open_card (f ! p) k (size_of G))"
proof (induction l arbitrary: h)
  case (Cons q l)
  show ?case
  proof (cases "q = p")
    case True
    then have "opened (open_one G me f q h) p = Some (open_card (f ! p) k (size_of G))" using Cons.prems by (simp add: open_one_def)
    then show ?thesis by (simp add: open_all_opened)
  next
    case False
    then have "opened (open_one G me f q h) p = None" using Cons.prems by (simp add: open_one_def split: option.split)
    with False show ?thesis using Cons by simp
  qed
qed simp

lemma openOwn_sets:
  "final G h = Some f \<Longrightarrow> p \<in> set (own h) \<Longrightarrow> opened h p = None \<Longrightarrow> keysFor G me h p = Some k \<Longrightarrow>
   opened (openOwn G me h) p = Some (open_card (f ! p) k (size_of G))"
  by (simp add: openOwn_def open_all_sets)

lemma openOwn_flags [simp]: "flags (openOwn G me h) = flags h"
  by (auto simp: openOwn_def fold_kept open_one_def split: option.split)

text \<open>
  C37: A hand card is opened with the first full set of keys. When one of them is wrong the card stays closed for the rest of
  the hand, whatever keys come later, and nobody is flagged for it.
\<close>

theorem wrong_key_loses_the_card:
  assumes "final G h = Some f" "p \<in> set (own h)" "opened h p = None" "keysFor G me h p = Some k" "open_card (f ! p) k (size_of G) = None"
    and "later G me (openOwn G me h) h'"
  shows "flags (openOwn G me h) = flags h \<and> opened h' p = Some None \<and> \<not> live h' p"
proof -
  have "opened h' p = Some None" using later_opened [OF assms(6)] openOwn_sets [OF assms(1-4)] assms(5) by simp
  then show ?thesis by (simp add: live_def)
qed

end
