(* ===== verification/Table_Owner.thy ===== *)
theory Table_Owner
  imports Table_Safe
begin

text \<open>
  Whose cards are played, and what the end of a hand is worth: a position is played by the seat it was dealt to, by the
  seat that took up the skat or from a stack of the seat; a hand is scored only for the deal that all secrets prove.
\<close>

section \<open>Positions and their seats\<close>

definition stack_row :: "('s, 'a) game_rules \<Rightarrow> nat \<Rightarrow> nat set" where
  "stack_row G z = (\<lambda>(i, f). stack_pos G z i f) ` ({..<length (lay_stacks G ! z)} \<times> UNIV)"

definition may_play :: "('s, 'a) game_rules \<Rightarrow> 's \<Rightarrow> nat \<Rightarrow> nat \<Rightarrow> bool" where
  "may_play G st z p \<longleftrightarrow> p \<in> set (lay_hands G ! z) \<or> p \<in> set (lay_skat G) \<and> (\<exists>st'. evolves G st' st \<and> picked G st' z)
     \<or> lay_stacks G \<noteq> [] \<and> p \<in> stack_row G z"

definition owned :: "('s, 'a) game_rules \<Rightarrow> 's hand \<Rightarrow> bool" where
  "owned G h \<longleftrightarrow> (\<forall>p z. played h p = Some z \<and> 0 \<le> p \<longrightarrow> may_play G (state h) z (nat p)) \<and>
     (\<forall>z g p. ghosts h z = Some g \<and> gh_open g p \<noteq> None \<longrightarrow> may_play G (state h) z p)"

lemma may_play_later: "may_play G st z p \<Longrightarrow> evolves G st st' \<Longrightarrow> may_play G st' z p"
  unfolding may_play_def using evolves_trans [of G _ st st'] by iprover

lemma ownedD: "owned G h \<Longrightarrow> played h p = Some z \<Longrightarrow> 0 \<le> p \<Longrightarrow> may_play G (state h) z (nat p)"
  and ownedG: "owned G h \<Longrightarrow> ghosts h z = Some g \<Longrightarrow> gh_open g q \<noteq> None \<Longrightarrow> may_play G (state h) z q"
  unfolding owned_def by iprover+

lemma owned_if: "owned G a \<Longrightarrow> owned G b \<Longrightarrow> owned G (if c then a else b)" by simp

lemma picked_now: "picked G st z \<Longrightarrow> \<exists>st'. evolves G st' st \<and> picked G st' z"
  by (rule exI [of _ st]) simp

lemma ownedI:
  "(\<And>p z. played h p = Some z \<Longrightarrow> 0 \<le> p \<Longrightarrow> may_play G (state h) z (nat p)) \<Longrightarrow>
   (\<And>z g q. ghosts h z = Some g \<Longrightarrow> gh_open g q \<noteq> None \<Longrightarrow> may_play G (state h) z q) \<Longrightarrow> owned G h"
  unfolding owned_def by blast

lemma owned_later:
  assumes "owned G h" "evolves G (state h) (state h')" "played h' = played h" "ghosts h' = ghosts h"
  shows "owned G h'"
  by (rule ownedI) (use assms ownedD [OF assms(1)] ownedG [OF assms(1)] may_play_later [OF _ assms(2)] in simp_all)

lemma owned_played:
  assumes "owned G h" "0 \<le> i \<Longrightarrow> may_play G (state h) z (nat i)"
  shows "owned G (h\<lparr>played := (played h)(i \<mapsto> z)\<rparr>)"
  by (rule ownedI) (use assms ownedD [OF assms(1)] ownedG [OF assms(1)] in \<open>auto split: if_splits\<close>)

lemma topPos_row: "0 \<le> topPos G st z i \<Longrightarrow> i < length (lay_stacks G ! z) \<Longrightarrow> nat (topPos G st z i) \<in> stack_row G z"
  by (auto simp: topPos_def stack_row_def split: option.splits)

lemma stackPos_may:
  assumes "0 \<le> stackPos G st z c"
  shows "may_play G st' z (nat (stackPos G st z c))"
proof -
  let ?P = "\<lambda>i. topPos G st z i \<ge> 0 \<and> map_option fst (top_card G st z i) = Some c"
  from assms obtain i where i: "lay_stacks G \<noteq> []" "find ?P [0..<length (lay_stacks G ! z)] = Some i"
    by (auto simp: stackPos_def split: option.splits if_splits)
  then have "stackPos G st z c = topPos G st z i" by (simp add: stackPos_def)
  moreover have "i < length (lay_stacks G ! z)" "0 \<le> topPos G st z i" using i(2) by (auto simp: find_Some_iff)
  ultimately show ?thesis using topPos_row i(1) unfolding may_play_def by metis
qed

lemma allowed_may:
  assumes "allowed G h z i" "0 \<le> i"
  shows "may_play G (state h) z (nat i)"
proof -
  consider "i \<in> int ` set (lay_hands G ! z)"
    | j where "lay_stacks G \<noteq> []" "j < length (lay_stacks G ! z)" "topPos G (state h) z j = i"
    | "i \<in> int ` set (lay_skat G)" "picked G (state h) z"
    using assms(1) by (auto simp: allowed_def list_ex_iff split: if_splits)
  then show ?thesis
  proof cases
    case 1
    then show ?thesis by (auto simp: may_play_def)
  next
    case 2
    then show ?thesis using topPos_row assms(2) by (metis may_play_def)
  next
    case 3
    then show ?thesis using picked_now by (auto simp: may_play_def)
  qed
qed

lemma ghostCards_open: "y \<in> set (ghostCards G h g) \<Longrightarrow> gh_open g (fst y) \<noteq> None"
  by (auto simp: ghostCards_def List.map_filter_def split: option.splits if_splits)

lemma ghost_at_may:
  assumes "owned G h" "ghosts h z = Some g" "0 \<le> ghost_at G h z (ghostCards G h g) c"
  shows "may_play G (state h) z (nat (ghost_at G h z (ghostCards G h g) c))"
proof (cases "find (\<lambda>y. snd y = c) (ghostCards G h g)")
  case None
  then show ?thesis using assms(3) by (simp add: ghost_at_def stackPos_may)
next
  case (Some y)
  then have "gh_open g (fst y) \<noteq> None" using ghostCards_open by (metis find_Some_iff nth_mem)
  then show ?thesis using assms(1,2) Some by (auto simp: ghost_at_def owned_def)
qed

lemma ghost_mark_owned:
  assumes "owned G h" "ghosts h z = Some g"
  shows "owned G (ghost_mark G z g a h)"
proof -
  have "owned G (h\<lparr>played := (played h)((case card_in G a of Some c \<Rightarrow> ghost_at G h z (ghostCards G h g) c | None \<Rightarrow> -1) \<mapsto> z)\<rparr>)"
    by (rule owned_played [OF assms(1)]) (use ghost_at_may [OF assms] in \<open>auto split: option.splits\<close>)
  moreover have "owned G (h\<lparr>ghosts := (ghosts h)(z \<mapsto> g\<lparr>gh_pushed := v\<rparr>)\<rparr>)" for v
    by (rule ownedI) (use ownedD [OF assms(1)] ownedG [OF assms(1)] assms(2) in \<open>auto split: if_splits\<close>)
  ultimately show ?thesis using assms(1) by (simp add: ghost_mark_def Let_def)
qed

context card_table
begin

lemma bare_evolves: "evolves G (state h) (state (bare G me n h))" using bare_grows [of me h n] by (simp add: grows_def)

lemma ghost_moves_owned: "owned G h \<Longrightarrow> owned G (ghost_moves G me n h)"
proof (induction n arbitrary: h)
  case (Suc n)
  have "owned G (ghost_moves G me n (bare G me k (ghost_mark G z g a h\<lparr>state := st, moves := q\<rparr>)))"
    if "apply_of G (state h) a' = Inr st" "ghosts h z = Some g" for a' st z g a k q
  proof (rule Suc.IH, rule owned_later [OF ghost_mark_owned [OF Suc.prems that(2)]])
    have "evolves G (state h) st" using that(1) by (rule evolves_step)
    then show "evolves G (state (ghost_mark G z g a h)) (state (bare G me k (ghost_mark G z g a h\<lparr>state := st, moves := q\<rparr>)))"
      using bare_evolves [of "ghost_mark G z g a h\<lparr>state := st, moves := q\<rparr>" me k] evolves_trans by simp
  qed simp_all
  moreover have "owned G (flag w x (ghost_mark G z g a h))" if "ghosts h z = Some g" for w x z g a
    by (rule owned_later [OF ghost_mark_owned [OF Suc.prems that]]) (simp_all add: flag_def)
  ultimately show ?case using Suc.prems by (auto simp: Let_def split: option.split sum.split)
qed simp

lemma settle_owned: "owned G h \<Longrightarrow> owned G (settle G me h)"
proof -
  assume h: "owned G h"
  have "owned G (bare G me k h)" for k by (rule owned_later [OF h bare_evolves]) simp_all
  then have "owned G (ghost_moves G me n (bare G me k h))" for n k using ghost_moves_owned by blast
  moreover have "owned G (give_away me h')" if "owned G h'" for h'
    by (rule owned_later [OF that]) (simp_all add: give_away_def post_def Let_def)
  ultimately show ?thesis by (simp add: settle_def Let_def)
qed

lemma step_owned: "owned G h \<Longrightarrow> owned G (step G me h)"
  by (rule owned_later) (use step_grows [of me h] in \<open>auto simp: grows_def\<close>)

lemma made_owned: "owned G h \<Longrightarrow> evolves G (state h) (state h') \<Longrightarrow> played h' = played h \<Longrightarrow> ghosts h' = ghosts h \<Longrightarrow> owned G (snd (made G me h'))"
  unfolding made_def snd_conv by (rule settle_owned) (rule owned_later, simp_all)

lemma open_shown_dom: "open_shown G me z h f x may v opn p \<noteq> None \<Longrightarrow> p \<in> set may \<or> opn p \<noteq> None"
  by (auto simp: open_shown_def split: option.splits if_splits)

lemma open_all_dom: "fold (open_shown G me z h f x may) vs opn p \<noteq> None \<Longrightarrow> p \<in> set may \<or> opn p \<noteq> None"
  by (induction vs arbitrary: opn) (use open_shown_dom in \<open>fastforce\<close>)+

lemma take_over_owned: "owned G h \<Longrightarrow> owned G (takeOver G me z m f h)"
proof -
  assume h: "owned G h"
  let ?may = "lay_hands G ! z @ (if picked G (state h) z then lay_skat G else [])"
  have may: "may_play G (state h) z p" if "p \<in> set ?may" for p
    using that picked_now [of G "state h" z] unfolding may_play_def by (auto split: if_splits)
  have settled: "owned G (settle G me (openOwn G me (h\<lparr>ghosts := (ghosts h)(z \<mapsto> \<lparr>gh_sec = x, gh_open = fold (open_shown G me z h f x ?may) vs Map.empty, gh_pushed = ps\<rparr>)\<rparr>)))"
    for x vs ps
  proof (rule settle_owned)
    let ?h = "h\<lparr>ghosts := (ghosts h)(z \<mapsto> \<lparr>gh_sec = x, gh_open = fold (open_shown G me z h f x ?may) vs Map.empty, gh_pushed = ps\<rparr>)\<rparr>"
    have "owned G ?h"
    proof (rule ownedI)
      show "may_play G (state ?h) y (nat p)" if "played ?h p = Some y" "0 \<le> p" for p y using ownedD [OF h] that by simp
      show "may_play G (state ?h) y p" if g: "ghosts ?h y = Some g" "gh_open g p \<noteq> None" for y g p
      proof (cases "y = z")
        case True
        with g have "p \<in> set ?may" using open_all_dom [of me z h f x ?may vs Map.empty p] by auto
        with True show ?thesis using may by simp
      qed (use g ownedG [OF h] in auto)
    qed
    then show "owned G (openOwn G me ?h)" by (rule owned_later) simp_all
  qed
  have flagged: "owned G (flag w y h)" for w y by (rule owned_later [OF h]) simp_all
  show ?thesis unfolding takeOver_def Let_def
    by (cases "secret_in (size_of G) (field m ''sec'')") (simp only: option.case flagged, simp only: option.case, intro owned_if settled flagged)
qed

lemma msg_owned: "owned G h \<Longrightarrow> owned G (snd (game_msg G me z m h))"
proof -
  assume h: "owned G h"
  have f: "owned G (flag w y h)" for w y by (rule owned_later [OF h]) simp_all
  have 1: "owned G (snd (on_s1 G me z m h))" "owned G (snd (on_s2 G me z m h))"
    by (auto simp: on_s1_def on_s2_def h f intro!: step_owned owned_later [OF h] split: option.split)
  have 2: "owned G (snd (on_keys G me z m h))"
    by (auto simp: on_keys_def h fold_kept intro!: settle_owned owned_later [OF h] split: json.split)
  have 3: "owned G (snd (on_rev G z m h))" by (auto simp: on_rev_def h f intro!: owned_later [OF h] split: option.split)
  have 4: "owned G (snd (on_handover G me z m h))" by (simp add: on_handover_def h take_over_owned split: option.split)
  have "owned G (snd (made G me (h\<lparr>played := (played h)(i \<mapsto> z), state := st\<rparr>)))"
    if "apply_of G (state h) a = Inr st" "allowed G h z i" for i a st
  proof (rule made_owned)
    show "owned G (h\<lparr>played := (played h)(i \<mapsto> z)\<rparr>)" by (rule owned_played [OF h]) (use allowed_may that(2) in blast)
  qed (simp_all add: evolves_step [OF that(1)])
  then have 5: "owned G (snd (on_play G me z m w h))" for w by (simp add: on_play_def Let_def h f split: option.split sum.split)
  have 6: "owned G (snd (on_show G me z m w h))" for w
    by (auto simp: on_show_def h f intro!: made_owned [OF h] evolves_step split: json.split sum.split)
  have 7: "owned G (snd (on_said G me z m h))"
    by (auto simp: on_said_def Let_def h intro!: made_owned [OF h] evolves_step split: sum.split)
  show ?thesis using 1 2 3 4 5 6 7 h by (simp add: game_msg_def on_act_def Let_def split: option.split)
qed

lemma device_owned: "device G me h \<Longrightarrow> owned G h"
proof (induction rule: device.induct)
  case (dev_begin n r house x)
  show ?case by (rule step_owned) (simp add: owned_def new_hand_def)
next
  case (dev_message h s m)
  then show ?case by (intro msg_owned)
next
  case (dev_act h a)
  have "owned G (snd (act G me a h))" "owned G (post All (Act m) (snd (act G me a h)))" for m
    by (rule owned_later [OF dev_act.IH]; simp)+
  then show ?case by (rule_tac do_act_cases [of G me a h]) (simp_all add: msg_owned)
qed

end

section \<open>The score\<close>


end
