(* ===== verification/Table_Games.thy ===== *)
theory Table_Games
  imports Table_Owner Skat_Correct Bauernskat_Correct Doko_Correct
begin

text \<open>
  The three games a table knows (\<open>rules(game)\<close> in \<open>table.js\<close>): the engines of the theories \<open>Skat\<close>, \<open>Doko\<close> and
  \<open>Bauernskat\<close> behind the interface of the table, the laws of that interface for each, and what follows for hands played
  at a table.
\<close>

section \<open>Names in messages\<close>

definition named :: "(string \<times> 'b) list \<Rightarrow> json \<Rightarrow> 'b option" where
  "named tab v = (case v of JStr t \<Rightarrow> map_of (map (\<lambda>(k, x). (js k, x)) tab) t | _ \<Rightarrow> None)"

definition name_in :: "(string \<times> 'b) list \<Rightarrow> 'b \<Rightarrow> string" where
  "name_in tab x = (case find (\<lambda>e. snd e = x) tab of Some e \<Rightarrow> fst e | None \<Rightarrow> '''')"

definition rules_in :: "string list \<Rightarrow> json \<Rightarrow> string list" where
  "rules_in known v = filter (\<lambda>k. JStr (js k) \<in> set (list_in v)) known"

section \<open>Skat\<close>

definition skat_types :: "(string \<times> act_type) list" where
  "skat_types = [(''bid'', TBid), (''hold'', THold), (''pass'', TPass), (''pickup'', TPickup), (''push'', TPush), (''declare'', TDeclare),
     (''show'', TShow), (''play'', TPlay), (''kontra'', TKontra), (''re'', TRe)]"

definition game_names :: "(string \<times> game) list" where
  "game_names = [(''C'', GSuit SuitC), (''S'', GSuit SuitS), (''H'', GSuit SuitH), (''D'', GSuit SuitD), (''G'', Grand), (''N'', GNull)]"

definition said_skat :: "nat \<Rightarrow> json \<Rightarrow> action" where
  "said_skat s v = \<lparr>a_t = (case named skat_types (field v ''t'') of Some t \<Rightarrow> t | None \<Rightarrow> TOther), a_seat = Some (int s),
     a_v = as_integer (field v ''v''), a_game = named game_names (field v ''game''), a_hand = truthy (field v ''hand''),
     a_schneider = truthy (field v ''schneider''), a_schwarz = truthy (field v ''schwarz''), a_ouvert = truthy (field v ''ouvert''),
     a_card = None, a_cards = None\<rparr>"

definition fields_skat :: "action \<Rightarrow> (string \<times> json) list" where
  "fields_skat a = (case a_v a of Some v \<Rightarrow> [(''v'', JInt v)] | None \<Rightarrow> []) @
     (case a_game a of Some g \<Rightarrow> [(''game'', JStr (js (name_in game_names g))), (''hand'', JBool (a_hand a)), (''schneider'', JBool (a_schneider a)),
        (''schwarz'', JBool (a_schwarz a)), (''ouvert'', JBool (a_ouvert a))] | None \<Rightarrow> [])"

definition full_skat :: "dealt \<Rightarrow> full" where
  "full_skat d = \<lparr>f_hands = dl_hands d, f_skat = dl_skat d, f_pushed = map the (filter (\<lambda>c. c \<noteq> None) (case dl_pushed d of None \<Rightarrow> [] | Some l \<Rightarrow> l))\<rparr>"

definition list_skat :: "Skat.state \<Rightarrow> dealt \<Rightarrow> int list option" where
  "list_skat s d = map_option (\<lambda>r. case r of PassedOut p l \<Rightarrow> l | Played g \<Rightarrow> r_list g | Ramsch m \<Rightarrow> m_list m) (Skat.result s (full_skat d))"

definition skat_rules :: "(Skat.state, action) game_rules" where
  "skat_rules = \<lparr>seats = nat SEATS, deck = DECK, lay_hands = fst layout, lay_skat = snd layout, lay_stacks = [],
     start_of = (\<lambda>d r. start (Some d) (Some r)), house_of = rules_in RULES, turn_of = Skat.turn, over_of = is_done, apply_of = apply_action,
     actions_of = (\<lambda>s z h. actions s (int z) h), auto_of = (\<lambda>s z h. auto_move s (int z) h), late_of = (\<lambda>s a. kontraLate s (Some a)),
     due_of = (\<lambda>s. []), top_card = (\<lambda>s z i. None), picked = (\<lambda>s z. declarer s = int z \<and> pickedUp s),
     kind_of = (\<lambda>a. name_in skat_types (a_t a)), card_in = a_card,
     cards_in = (\<lambda>a. case a_cards a of Some l \<Rightarrow> map the (filter (\<lambda>c. c \<noteq> None) l) | None \<Rightarrow> []),
     play_of = (\<lambda>z c. (mk_act TPlay (int z))\<lparr>a_card := Some c\<rparr>), show_of = (\<lambda>z cs. (mk_act TShow (int z))\<lparr>a_cards := Some (map Some cs)\<rparr>),
     said = said_skat, said_fields = fields_skat, turned = (\<lambda>z i c. mk_act TOther (int z)),
     audit_of = (\<lambda>s d. Skat.audit s (full_skat d)), list_of = list_skat, budget = 165\<rparr>"

section \<open>Doppelkopf\<close>

definition doko_types :: "(string \<times> act_dk) list" where
  "doko_types = [(''vorbehalt'', DkVorbehalt), (''play'', DkPlay), (''call'', DkCall)]"

definition doko_values :: "(string \<times> val_dk) list" where
  "doko_values = [(''gesund'', VGesund), (''vorbehalt'', VVorbehalt), (''hochzeit'', VKind Hochzeit), (''damen'', VKind Damen), (''buben'', VKind Buben),
     (''fleischlos'', VKind Fleischlos), (''kreuz'', VKind Kreuz), (''pik'', VKind Pik), (''herz'', VKind Herz), (''karo'', VKind Karo)]"

definition doko_parties :: "(string \<times> party) list" where "doko_parties = [(''re'', Re), (''kontra'', Kontra)]"

definition doko_calls :: "(string \<times> call) list" where
  "doko_calls = [(''re'', CRe), (''kontra'', CKontra), (''k90'', C90), (''k60'', C60), (''k30'', C30), (''schwarz'', CSchwarz)]"

definition said_doko :: "nat \<Rightarrow> json \<Rightarrow> action_dk" where
  "said_doko s v = \<lparr>t_dk = (case named doko_types (field v ''t'') of Some t \<Rightarrow> t | None \<Rightarrow> DkOther), seat_dk = Some (int s),
     v_dk = (case named doko_values (field v ''v'') of Some x \<Rightarrow> x | None \<Rightarrow> VOther), card_dk = None,
     p_dk = named doko_parties (field v ''p''), a_dk = (case named doko_calls (field v ''a'') of Some c \<Rightarrow> c | None \<Rightarrow> COther)\<rparr>"

definition fields_doko :: "action_dk \<Rightarrow> (string \<times> json) list" where
  "fields_doko a = (if t_dk a = DkVorbehalt then [(''v'', JStr (js (name_in doko_values (v_dk a))))] else []) @
     (case p_dk a of Some p \<Rightarrow> [(''p'', JStr (js (name_in doko_parties p))), (''a'', JStr (js (name_in doko_calls (a_dk a))))] | None \<Rightarrow> [])"

definition doko_rules :: "(state_dk, action_dk) game_rules" where
  "doko_rules = \<lparr>seats = nat SEATS_dk, deck = DECK_dk, lay_hands = layout_dk, lay_skat = [], lay_stacks = [],
     start_of = (\<lambda>d r. start_dk (Some d) (Some r)), house_of = rules_in RULES_dk, turn_of = turn_dk, over_of = done_dk, apply_of = apply_dk,
     actions_of = actions_dk, auto_of = auto_dk, late_of = (\<lambda>s a. False), due_of = (\<lambda>s. []), top_card = (\<lambda>s z i. None), picked = (\<lambda>s z. False),
     kind_of = (\<lambda>a. name_in doko_types (t_dk a)), card_in = card_dk, cards_in = (\<lambda>a. []), play_of = play_dk_act,
     show_of = (\<lambda>z cs. mk_dk DkOther z), said = said_doko, said_fields = fields_doko, turned = (\<lambda>z i c. mk_dk DkOther z),
     audit_of = (\<lambda>s d. audit_dk s (dl_hands d)), list_of = (\<lambda>s d. Some (Doko.points_of (result_of_dk s (dl_hands d)))), budget = 66\<rparr>"

section \<open>Bauernskat\<close>

definition bauern_types :: "(string \<times> act_bs) list" where
  "bauern_types = [(''turn'', ATurn), (''kontra'', AKontra), (''re'', ARe), (''declare'', ADeclare), (''play'', APlay)]"

definition said_bauern :: "nat \<Rightarrow> json \<Rightarrow> action_bs" where
  "said_bauern s v = \<lparr>t_bs = (case named bauern_types (field v ''t'') of Some t \<Rightarrow> t | None \<Rightarrow> AOther), seat_bs = Some (int s),
     game_bs = named game_names (field v ''game''), card_bs = None, i_bs = None\<rparr>"

definition fields_bauern :: "action_bs \<Rightarrow> (string \<times> json) list" where
  "fields_bauern a = (case game_bs a of Some g \<Rightarrow> [(''game'', JStr (js (name_in game_names g)))] | None \<Rightarrow> [])"

definition full_bauern :: "dealt \<Rightarrow> full_bs" where
  "full_bauern d = \<lparr>fhands = Some (dl_hands d), fstacks = dl_stacks d\<rparr>"

definition bauern_rules :: "(state_bs, action_bs) game_rules" where
  "bauern_rules = \<lparr>seats = SEATS_bs, deck = DECK, lay_hands = fst layout_bs, lay_skat = [], lay_stacks = snd layout_bs,
     start_of = (\<lambda>d r. start_bs (Some d) (Some r)), house_of = rules_in RULES_bs, turn_of = turn_bs, over_of = done_bs, apply_of = apply_bs,
     actions_of = (\<lambda>s z h. actions_bs s (int z)), auto_of = (\<lambda>s z h. auto_bs s (int z)), late_of = (\<lambda>s a. False),
     due_of = (\<lambda>s. map (\<lambda>(z, i, k). (nat z, nat i, if k = Up then FaceUp else FaceDown)) (reveals s)),
     top_card = (\<lambda>s z i. map_option (\<lambda>c. (c, under (stacks s ! z ! i))) (top (stacks s ! z ! i))), picked = (\<lambda>s z. False),
     kind_of = (\<lambda>a. name_in bauern_types (t_bs a)), card_in = card_bs, cards_in = (\<lambda>a. []), play_of = (\<lambda>z c. place_bs (int z) c),
     show_of = (\<lambda>z cs. mk_bs AOther (int z)), said = said_bauern, said_fields = fields_bauern,
     turned = (\<lambda>z i c. (mk_bs ATurn (int z))\<lparr>card_bs := Some c, i_bs := Some (int i)\<rparr>),
     audit_of = (\<lambda>s d. audit_bs s (full_bauern d)),
     list_of = (\<lambda>s d. map_option points_bs (result_of_bs s (full_bauern d))), budget = 68\<rparr>"

section \<open>The laws hold\<close>

lemma said_skat_pickup: "name_in skat_types (a_t a) = ''pickup'' \<Longrightarrow> a_t a = TPickup"
  by (cases "a_t a") (simp_all add: name_in_def skat_types_def)

lemma pickup_skat: "apply_action s a = Inr s' \<Longrightarrow> a_t a = TPickup \<Longrightarrow> a_seat a = Some z \<Longrightarrow> declarer s' = z \<and> pickedUp s'"
  by (auto simp: apply_action_def applyBid_def Let_def turn_def split: if_splits phase.splits)

interpretation skat_table: card_table skat_rules inv left_over
proof unfold_locales
  show "starts skat_rules s \<Longrightarrow> inv s" for s by (auto simp: starts_def skat_rules_def inv_start)
  show "starts skat_rules s \<Longrightarrow> left_over s \<le> budget skat_rules" for s using budget_start by (auto simp: starts_def skat_rules_def)
  show "picked skat_rules st' z"
    if "apply_of skat_rules st (said skat_rules z v) = Inr st'" "kind_of skat_rules (said skat_rules z v) = ''pickup''" for st st' z v
    using pickup_skat [of st "said_skat z v" st' "int z"] said_skat_pickup [of "said_skat z v"] that
    by (simp add: skat_rules_def) (simp add: said_skat_def)
qed (auto simp: skat_rules_def intro: inv_step budget_step dest: done_refuses)

lemma doko_no_pickup: "name_in doko_types t \<noteq> ''pickup''"
  by (cases t) (simp_all add: name_in_def doko_types_def)

lemma int32_small: "0 \<le> d \<Longrightarrow> d < 4 \<Longrightarrow> int32 d = d" by (simp add: int32_def)

interpretation doko_table: card_table doko_rules inv_dk left_dk
proof unfold_locales
  have i: "init_dk (start_dk (Some d) (Some r))" if "0 \<le> d" "d < int (seats doko_rules)" for d r
    using that int32_small [of d] by (auto simp: init_dk_def doko_rules_def SEATS_dk_def)
  show "starts doko_rules s \<Longrightarrow> inv_dk s" for s using i inv_init_dk by (auto simp: starts_def doko_rules_def)
  show "starts doko_rules s \<Longrightarrow> left_dk s \<le> budget doko_rules" for s using i budget_init_dk by (auto simp: starts_def doko_rules_def)
qed (use doko_no_pickup in \<open>auto simp: doko_rules_def intro: inv_step_dk budget_step_dk dest: done_stuck_dk\<close>)

lemma bauern_no_pickup: "name_in bauern_types t \<noteq> ''pickup''"
  by (cases t) (simp_all add: name_in_def bauern_types_def)

interpretation bauern_table: card_table bauern_rules inv_bs left_bs
proof unfold_locales
  show "starts bauern_rules s \<Longrightarrow> inv_bs s" for s using inv_start_bs by (auto simp: starts_def bauern_rules_def)
  show "starts bauern_rules s \<Longrightarrow> left_bs s \<le> budget bauern_rules" for s using budget_start_bs by (auto simp: starts_def bauern_rules_def)
qed (use bauern_no_pickup in \<open>auto simp: bauern_rules_def intro: inv_step_bs budget_step_bs dest: done_refuses_bs\<close>)

section \<open>Hands at a table\<close>

lemma skat_due: "due_list skat_rules s = []" by (simp add: due_list_def skat_rules_def)




text \<open>
  C23: A card position counts as played only by the seat it was dealt to, or by the seat that has taken up the skat when it is
  one of the two skat positions, whatever the other devices send.
\<close>

theorem skat_cards_of_the_seat:
  assumes "device skat_rules me h" "Table_Hand.played h (int p) = Some z"
  shows "p \<in> set (lay_hands skat_rules ! z) \<or> p \<in> {30, 31} \<and> (\<exists>s. evolves skat_rules s (state h) \<and> declarer s = int z \<and> pickedUp s)"
proof -
  have "may_play skat_rules (state h) z p" using ownedD [OF skat_table.device_owned [OF assms(1)] assms(2)] by simp
  moreover have "lay_skat skat_rules = [30, 31]" "lay_stacks skat_rules = []" "picked skat_rules = (\<lambda>s z. declarer s = int z \<and> pickedUp s)"
    by (simp_all add: skat_rules_def layout_def)
  ultimately show ?thesis by (auto simp: may_play_def)
qed

end
