(* ===== verification/Table_Seats.thy ===== *)
theory Table_Seats
  imports Table_Play "HOL-Library.List_Lexorder"
begin

text \<open>
  The table around a hand, \<open>table.js\<close>: who sits where, the house rules every device has to agree on, when a hand starts,
  and what is kept of a hand that is over. The state of a device at the table is the record \<open>table\<close>; its links, invites
  and the pictures are left out. \<open>num\<close> is the language's \<open>Number\<close>, \<open>str\<close> its \<open>String\<close> for the values that are no text.
\<close>

section \<open>The state\<close>

record player =
  p_seat :: int
  p_peers :: "jstring list option"

text \<open>\<open>members\<close> in the order they came; \<open>draws\<close> are the secrets the next hands will draw.\<close>

record 's table =
  my_id :: jstring
  my_seat :: int
  members :: "(jstring \<times> player) list"
  links :: "jstring list"
  holds :: "int list"
  readies :: "jstring \<rightharpoonup> int \<times> jstring"
  scores :: "jstring \<rightharpoonup> int"
  house :: "string list"
  rulesV :: int
  rulesBy :: jstring
  number :: int
  playing :: "'s hand option"
  last_end :: "'s ended option"
  want :: bool
  closed :: bool
  meReady :: "(int \<times> jstring) option"
  draws :: "secret list"
  notices :: "json list"

section \<open>Seats\<close>

definition sit :: "(jstring \<times> player) \<Rightarrow> jstring option list \<Rightarrow> jstring option list" where
  "sit m r = (let s = p_seat (snd m) in if 0 \<le> s \<and> s < int (length r) \<and> r ! nat s = None then r[nat s := Some (fst m)] else r)"

definition roster :: "('s, 'a) game_rules \<Rightarrow> 's table \<Rightarrow> jstring option list" where
  "roster G t = (let r = replicate (seats G) None in
     fold sit (members t) (if 0 \<le> my_seat t \<and> my_seat t < int (seats G) then r[nat (my_seat t) := Some (my_id t)] else r))"

definition free :: "('s, 'a) game_rules \<Rightarrow> 's table \<Rightarrow> int" where
  "free G t = (case find (\<lambda>s. roster G t ! s = None \<and> int s \<notin> set (holds t)) [0..<seats G] of Some s \<Rightarrow> int s | None \<Rightarrow> -1)"

definition complete :: "('s, 'a) game_rules \<Rightarrow> 's table \<Rightarrow> bool" where
  "complete G t \<longleftrightarrow> (let r = roster G t in None \<notin> set r \<and>
     list_all (\<lambda>(i, x). i \<in> set (links t) \<and> (case p_peers x of None \<Rightarrow> False
       | Some ps \<Rightarrow> list_all (\<lambda>y. y = Some i \<or> the y \<in> set ps) r)) (members t))"

section \<open>House rules\<close>

definition is_id :: "jstring \<Rightarrow> bool" where
  "is_id t \<longleftrightarrow> length t = 16 \<and> list_all is_hex t"

text \<open>\<open>takeRules\<close>: a higher version wins, among equal versions the smaller id; \<open>force\<close> is the list a newcomer gets.\<close>

definition takeRules :: "('s, 'a) game_rules \<Rightarrow> json \<Rightarrow> json \<Rightarrow> jstring \<Rightarrow> bool \<Rightarrow> 's table \<Rightarrow> 's table \<times> bool" where
  "takeRules G r v from_id force t = (case (r, as_integer v) of
     (JArr xs, Some n) \<Rightarrow>
       (let b = (if is_id from_id then from_id else []) in
        if n < 0 then (t, False)
        else if \<not> force \<and> (n < rulesV t \<or> n = rulesV t \<and> \<not> (b \<noteq> [] \<and> (rulesBy t = [] \<or> b < rulesBy t))) then (t, False)
        else (t\<lparr>house := house_of G r, rulesV := n, rulesBy := b\<rparr>, True))
   | _ \<Rightarrow> (t, False))"

section \<open>Starting a hand\<close>

text \<open>\<open>roster().join() + "|" + house.join(".")\<close>\<close>

fun glue :: "jstring \<Rightarrow> jstring list \<Rightarrow> jstring" where
  "glue d [] = []" | "glue d [x] = x" | "glue d (x # y # ys) = x @ d @ glue d (y # ys)"

definition agreed :: "jstring list \<Rightarrow> string list \<Rightarrow> jstring" where
  "agreed r h = glue (js '','') r @ js ''|'' @ glue (js ''.'') (map js h)"

definition seat_name :: "jstring option \<Rightarrow> jstring" where "seat_name x = (case x of None \<Rightarrow> [] | Some i \<Rightarrow> i)"

definition my_word :: "('s, 'a) game_rules \<Rightarrow> 's table \<Rightarrow> jstring" where
  "my_word G t = agreed (map seat_name (roster G t)) (house t)"

definition notice :: "json \<Rightarrow> 's table \<Rightarrow> 's table" where "notice m t = t\<lparr>notices := notices t @ [m]\<rparr>"

definition ready_json :: "('s, 'a) game_rules \<Rightarrow> 's table \<Rightarrow> json" where
  "ready_json G t = jobj [(''t'', JStr (js ''ready'')), (''no'', JInt (number t)),
     (''roster'', JArr (map (\<lambda>x. case x of None \<Rightarrow> JNull | Some i \<Rightarrow> JStr i) (roster G t))),
     (''rules'', JArr (map (\<lambda>k. JStr (js k)) (house t)))]"

definition begin_hand :: "('s, 'a) game_rules \<Rightarrow> 's table \<Rightarrow> 's table" where
  "begin_hand G t = t\<lparr>playing := Some (step G (nat (my_seat t))
       (new_hand G (nat (my_seat t)) (number t) (map seat_name (roster G t)) (house t) (hd (draws t)))),
     draws := tl (draws t), want := False, meReady := None, readies := Map.empty, last_end := None\<rparr>"

definition maybeReady :: "('s, 'a) game_rules \<Rightarrow> 's table \<Rightarrow> 's table" where
  "maybeReady G t = (if closed t \<or> playing t \<noteq> None \<or> my_seat t < 0 then t
     else let w = (number t, my_word G t); ok = complete G t;
              t = (if want t \<and> ok \<and> meReady t \<noteq> Some w then notice (ready_json G t) (t\<lparr>meReady := Some w\<rparr>) else t) in
       if \<not> ok \<or> meReady t \<noteq> Some w then t
       else if list_all (\<lambda>(i, x). readies t i = Some w) (members t) then begin_hand G t else t)"

definition rulesOpen :: "('s, 'a) game_rules \<Rightarrow> 's table \<Rightarrow> bool" where
  "rulesOpen G t \<longleftrightarrow> playing t = None \<and> \<not> closed t \<and> 0 \<le> my_seat t \<and> \<not> (meReady t \<noteq> None \<and> complete G t)"

definition setRules :: "('s, 'a) game_rules \<Rightarrow> json \<Rightarrow> 's table \<Rightarrow> 's table \<times> bool" where
  "setRules G l t = (if \<not> rulesOpen G t then (t, False)
     else let t = t\<lparr>house := house_of G l, rulesV := rulesV t + 1, rulesBy := my_id t\<rparr>;
              t = notice (jobj [(''t'', JStr (js ''rules'')), (''r'', JArr (map (\<lambda>k. JStr (js k)) (house t))), (''v'', JInt (rulesV t))]) t in
       (maybeReady G (t\<lparr>meReady := None\<rparr>), True))"

definition play_next :: "('s, 'a) game_rules \<Rightarrow> 's table \<Rightarrow> 's table" where
  "play_next G t = (if playing t \<noteq> None \<or> closed t then t else maybeReady G (t\<lparr>want := True\<rparr>))"

section \<open>Messages about the table\<close>

text \<open>\<open>v | 0\<close>\<close>

definition wrap32 :: "int \<Rightarrow> int" where "wrap32 n = (n + 2 ^ 31) mod 2 ^ 32 - 2 ^ 31"

definition bits0 :: "(json \<Rightarrow> jnum) \<Rightarrow> json \<Rightarrow> int" where
  "bits0 num v = (case num v of Rat r \<Rightarrow> wrap32 (if 0 \<le> r then \<lfloor>r\<rfloor> else \<lceil>r\<rceil>) | _ \<Rightarrow> 0)"

definition joined_text :: "(json \<Rightarrow> jstring) \<Rightarrow> json \<Rightarrow> jstring" where
  "joined_text str v = (case v of JUndef \<Rightarrow> [] | JNull \<Rightarrow> [] | JStr s \<Rightarrow> s | _ \<Rightarrow> str v)"

definition on_rules :: "('s, 'a) game_rules \<Rightarrow> jstring \<Rightarrow> json \<Rightarrow> 's table \<Rightarrow> 's table" where
  "on_rules G i m t = (if map_of (members t) i = None then t
     else let (t, took) = takeRules G (field m ''r'') (field m ''v'') i False t in
       if took then maybeReady G (t\<lparr>meReady := None\<rparr>) else t)"

definition on_peers :: "('s, 'a) game_rules \<Rightarrow> jstring \<Rightarrow> json \<Rightarrow> 's table \<Rightarrow> 's table" where
  "on_peers G i m t = (case map_of (members t) i of None \<Rightarrow> t
     | Some x \<Rightarrow> let ps = List.map_filter (\<lambda>y. case y of JStr s \<Rightarrow> Some s | _ \<Rightarrow> None)
           (take (seats G) (filter (\<lambda>y. case key_text y of Some s \<Rightarrow> is_id s | None \<Rightarrow> False) (list_in (field m ''ids'')))) in
         maybeReady G (t\<lparr>members := map (\<lambda>(j, y). (j, if j = i then x\<lparr>p_peers := Some ps\<rparr> else y)) (members t)\<rparr>))"

definition on_ready :: "(json \<Rightarrow> jnum) \<Rightarrow> (json \<Rightarrow> jstring) \<Rightarrow> ('s, 'a) game_rules \<Rightarrow> jstring \<Rightarrow> json \<Rightarrow> 's table \<Rightarrow> 's table" where
  "on_ready num str G i m t = (case (map_of (members t) i, field m ''roster'') of
     (Some x, JArr r) \<Rightarrow>
       (let n = bits0 num (field m ''no'');
            t = t\<lparr>readies := (readies t)(i \<mapsto> (n, agreed (map (joined_text str) r) (house_of G (field m ''rules''))))\<rparr> in
        maybeReady G (if n > number t \<and> playing t = None then t\<lparr>number := n\<rparr> else t))
   | _ \<Rightarrow> t)"

section \<open>Messages of the hand, and its end\<close>

definition end_hand :: "(json \<Rightarrow> jnum) \<Rightarrow> ('s, 'a) game_rules \<Rightarrow> 's table \<Rightarrow> 's table" where
  "end_hand num G t = (case playing t of None \<Rightarrow> t
     | Some h \<Rightarrow> (case finish num G h of None \<Rightarrow> t
       | Some out \<Rightarrow> t\<lparr>scores := (case end_points out of None \<Rightarrow> scores t
             | Some ps \<Rightarrow> fold (\<lambda>(s, x) sc. let i = hand_roster h ! s in sc(i \<mapsto> (case sc i of None \<Rightarrow> 0 | Some y \<Rightarrow> y) + x)) (enumerate 0 ps) (scores t)),
           last_end := Some out, playing := None, number := number t + 1\<rparr>))"

text \<open>\<open>game\<close>: a message of a later hand waits, one of an earlier hand is dropped.\<close>

definition on_game :: "(json \<Rightarrow> jnum) \<Rightarrow> ('s, 'a) game_rules \<Rightarrow> jstring \<Rightarrow> json \<Rightarrow> 's table \<Rightarrow> reply \<times> 's table" where
  "on_game num G i m t = (let n = bits0 num (field m ''no'') in
     case playing t of None \<Rightarrow> (if n \<ge> number t then Wait else Gone, t)
     | Some h \<Rightarrow> if n > hand_no h then (if n \<ge> number t then Wait else Gone, t)
         else if n < hand_no h \<or> i \<notin> set (hand_roster h) then (Gone, t)
         else let (r, h') = game_msg G (nat (my_seat t)) (nat (indexOf (hand_roster h) i)) m h in
           (r, end_hand num G (t\<lparr>playing := Some h'\<rparr>)))"

end
