(* ===== verification/Table_Agree.thy ===== *)
theory Table_Agree
  imports Table_Seats Table_Safe
begin

text \<open>
  What the devices of a table agree on: the house rules, whatever order the changes arrive in; the number, the seats and
  the rules of a hand that starts; and that nothing starts any more once the numbers of the hands have run out.
\<close>

section \<open>House rules\<close>

text \<open>A change of the rules as \<open>takeRules\<close> reads it: the list, its version and its author.\<close>

type_synonym change = "json \<times> json \<times> jstring"

definition offer :: "('s, 'a) game_rules \<Rightarrow> change \<Rightarrow> (string list \<times> int \<times> jstring) option" where
  "offer G c = (case c of (JArr xs, v, i) \<Rightarrow>
     (case as_integer v of Some n \<Rightarrow> if 0 \<le> n then Some (house_of G (JArr xs), n, i) else None | None \<Rightarrow> None) | _ \<Rightarrow> None)"

definition beats :: "int \<times> jstring \<Rightarrow> int \<times> jstring \<Rightarrow> bool" where
  "beats k k' \<longleftrightarrow> fst k > fst k' \<or> fst k = fst k' \<and> snd k \<noteq> [] \<and> (snd k' = [] \<or> snd k < snd k')"

definition rules_key :: "'s table \<Rightarrow> int \<times> jstring" where "rules_key t = (rulesV t, rulesBy t)"

definition install :: "string list \<times> int \<times> jstring \<Rightarrow> 's table \<Rightarrow> 's table" where
  "install o' t = t\<lparr>house := fst o', rulesV := fst (snd o'), rulesBy := snd (snd o')\<rparr>"

definition take_change :: "('s, 'a) game_rules \<Rightarrow> change \<Rightarrow> 's table \<Rightarrow> 's table" where
  "take_change G c t = (case c of (r, v, i) \<Rightarrow> fst (takeRules G r v i False t))"

lemma beats_trans: "beats a b \<Longrightarrow> beats b c \<Longrightarrow> beats a c" by (auto simp: beats_def)
lemma beats_irrefl [simp]: "\<not> beats a a" by (auto simp: beats_def)
lemma beats_total: "a = b \<or> beats a b \<or> beats b a" by (cases a; cases b) (auto simp: beats_def)

lemma install_key [simp]: "rules_key (install x t) = snd x" by (cases x) (simp add: rules_key_def install_def)
lemma install_twice [simp]: "install x (install y t) = install x t" by (simp add: install_def)

lemma take_change_eq:
  "is_id (snd (snd c)) \<Longrightarrow> take_change G c t = (case offer G c of None \<Rightarrow> t | Some x \<Rightarrow> if beats (snd x) (rules_key t) then install x t else t)"
proof -
  assume i: "is_id (snd (snd c))"
  obtain r v j where c: "c = (r, v, j)" by (cases c)
  have j: "is_id j" "j \<noteq> []" using i by (auto simp: c is_id_def)
  show ?thesis
  proof (cases "\<exists>xs n. r = JArr xs \<and> as_integer v = Some n \<and> 0 \<le> n")
    case True
    then obtain xs n where "r = JArr xs" "as_integer v = Some n" "0 \<le> n" by blast
    then show ?thesis using j
      by (auto simp: c take_change_def takeRules_def offer_def beats_def rules_key_def install_def)
  next
    case False
    then have "takeRules G r v j False t = (t, False)" by (auto simp: takeRules_def Let_def split: json.split option.split)
    moreover have "offer G c = None" using False by (auto simp: c offer_def split: json.split option.split)
    ultimately show ?thesis by (simp add: c take_change_def)
  qed
qed

text \<open>After any changes the table has the best of them, or the rules it had.\<close>

definition best_of :: "('s, 'a) game_rules \<Rightarrow> change set \<Rightarrow> 's table \<Rightarrow> 's table \<Rightarrow> bool" where
  "best_of G C t t' \<longleftrightarrow> (\<forall>c \<in> C. \<forall>x. offer G c = Some x \<longrightarrow> \<not> beats (snd x) (rules_key t')) \<and>
     (t' = t \<or> (\<exists>c \<in> C. \<exists>x. offer G c = Some x \<and> t' = install x t \<and> beats (snd x) (rules_key t)))"

lemma fold_best: "\<forall>c \<in> set cs. is_id (snd (snd c)) \<Longrightarrow> best_of G (set cs) t (fold (take_change G) cs t)"
proof (induction cs arbitrary: t)
  case (Cons c cs)
  let ?t = "take_change G c t" and ?r = "fold (take_change G) cs (take_change G c t)"
  have b: "best_of G (set cs) ?t ?r" using Cons by simp
  have t: "?t = t \<and> (\<forall>x. offer G c = Some x \<longrightarrow> \<not> beats (snd x) (rules_key t)) \<or> (\<exists>x. offer G c = Some x \<and> ?t = install x t \<and> beats (snd x) (rules_key t))"
    using Cons.prems take_change_eq [of c G t] by (auto split: option.splits if_splits)
  have up: "\<not> beats (rules_key ?t) (rules_key ?r)"
  proof (cases "?r = ?t")
    case False
    then obtain y where "beats (snd y) (rules_key ?t)" "?r = install y ?t" using b unfolding best_of_def by blast
    then show ?thesis using beats_trans [of "rules_key ?t" "snd y" "rules_key ?t"] by auto
  qed simp
  have c: "\<not> beats (snd x) (rules_key ?r)" if x: "offer G c = Some x" for x
  proof
    assume r: "beats (snd x) (rules_key ?r)"
    have "\<not> beats (snd x) (rules_key ?t)" using t x by (elim disjE) auto
    then consider "rules_key ?t = snd x" | "beats (rules_key ?t) (snd x)" using beats_total by blast
    then show False using up r beats_trans by cases auto
  qed
  have "?r = t \<or> (\<exists>d \<in> set (c # cs). \<exists>x. offer G d = Some x \<and> ?r = install x t \<and> beats (snd x) (rules_key t))"
  proof (cases "?r = ?t")
    case True
    then show ?thesis using t by (metis list.set_intros(1))
  next
    case False
    then obtain d y where y: "d \<in> set cs" "offer G d = Some y" "?r = install y ?t" "beats (snd y) (rules_key ?t)"
      using b unfolding best_of_def by blast
    from t have "install y ?t = install y t \<and> beats (snd y) (rules_key t)"
      using y(4) beats_trans by (metis install_key install_twice)
    with y show ?thesis by (metis list.set_intros(2))
  qed
  moreover have "\<not> beats (snd x) (rules_key ?r)" if "d \<in> set (c # cs)" "offer G d = Some x" for d x
  proof (cases "d = c")
    case True
    with that(2) c show ?thesis by blast
  next
    case False
    with that b show ?thesis unfolding best_of_def by (metis set_ConsD)
  qed
  ultimately show ?case unfolding best_of_def fold_simps by blast
qed (simp add: best_of_def)

text \<open>Two different changes of one version by one author do not exist: an author counts the versions up.\<close>

definition one_author :: "('s, 'a) game_rules \<Rightarrow> change set \<Rightarrow> bool" where
  "one_author G C \<longleftrightarrow> (\<forall>c \<in> C. \<forall>d \<in> C. \<forall>x y. offer G c = Some x \<and> offer G d = Some y \<and> snd x = snd y \<longrightarrow> fst x = fst y)"

lemma best_unique:
  assumes "best_of G C t a" "best_of G C t b" "one_author G C"
  shows "a = b"
proof -
  have k: "rules_key a = rules_key b"
    using assms(1,2) beats_total [of "rules_key a" "rules_key b"] unfolding best_of_def by (metis install_key)
  show ?thesis
  proof (cases "a = t \<or> b = t")
    case True
    then show ?thesis using assms(1,2) k unfolding best_of_def by (metis beats_irrefl install_key)
  next
    case False
    then obtain c x d y where "c \<in> C" "offer G c = Some x" "a = install x t" "d \<in> C" "offer G d = Some y" "b = install y t"
      using assms(1,2) unfolding best_of_def by metis
    moreover from this have "snd x = snd y" using k by simp
    moreover from calculation have "fst x = fst y" using assms(3) unfolding one_author_def by blast
    ultimately show ?thesis by (simp add: install_def)
  qed
qed

text \<open>
  C11: Devices that hear of the same changes of the rules, in any order and any number of times, play by the same rules.
\<close>

theorem rules_in_any_order:
  assumes "set cs = set ds" "\<forall>c \<in> set cs. is_id (snd (snd c))" "one_author G (set cs)"
  shows "fold (take_change G) cs t = fold (take_change G) ds t"
proof (rule best_unique)
  show "best_of G (set cs) t (fold (take_change G) cs t)" by (rule fold_best) (rule assms(2))
  show "best_of G (set cs) t (fold (take_change G) ds t)" using fold_best [of ds G t] assms(1,2) by simp
qed (rule assms(3))

section \<open>The start of a hand\<close>

lemma step_kept:
  assumes "\<And>w x h. F (post w x h) = F h" "\<And>l h. F (h\<lparr>sent := l\<rparr>) = F h" "\<And>l h. F (h\<lparr>bad := l\<rparr>) = F h" "\<And>s w h. F (flag s w h) = F h"
    "\<And>st q h. F (h\<lparr>state := st, pub := q\<rparr>) = F h" "\<And>y h. F (h\<lparr>opened := y\<rparr>) = F h" "\<And>y h. F (h\<lparr>d1 := y\<rparr>) = F h"
    "\<And>y h. F (h\<lparr>d2 := y\<rparr>) = F h" "\<And>y h. F (h\<lparr>was_dealt := y\<rparr>) = F h"
  shows "F (step G me h) = F h"
proof -
  have "F (openOwn G me h) = F h" for h
    by (auto simp: openOwn_def open_one_def assms intro!: fold_kept split: option.split)
  moreover have "F (hand_out G me h) = F h" for h unfolding hand_out_def by (rule fold_kept) (rule assms(1))
  moreover have "F (bare G me n h) = F h" for n h by (rule bare_kept) (rule assms)+
  ultimately show ?thesis by (simp add: step_def lock_step_def shuffle_step_def Let_def assms)
qed

lemma step_head [simp]: "hand_no (step G me h) = hand_no h" "hand_roster (step G me h) = hand_roster h"
  by (rule step_kept; simp add: post_def flag_def)+

text \<open>
  C8: A hand starts only at a full table whose players all have links to each other, and only when the last word of every one
  of them names the same number, the same seats and the same rules; the hand then has this number and these seats.
\<close>

theorem hand_starts_agreed:
  assumes "playing t = None" "playing (maybeReady G t) = Some h"
  shows "complete G t \<and> hand_no h = number t \<and> hand_roster h = map seat_name (roster G t) \<and>
    (\<forall>(i, x) \<in> set (members t). readies t i = Some (number t, my_word G t))"
proof -
  let ?w = "(number t, my_word G t)"
  have r: "roster G (t\<lparr>meReady := y, notices := z\<rparr>) = roster G t" for y z
    by (simp add: roster_def cong: if_cong)
  have "complete G t \<and> h = the (playing (begin_hand G (if want t \<and> complete G t \<and> meReady t \<noteq> Some ?w
      then notice (ready_json G t) (t\<lparr>meReady := Some ?w\<rparr>) else t))) \<and> list_all (\<lambda>(i, x). readies t i = Some ?w) (members t)"
    using assms by (auto simp: maybeReady_def Let_def notice_def split: if_splits)
  then show ?thesis by (auto simp: begin_hand_def r notice_def new_hand_def list_all_iff split: if_splits)
qed

section \<open>The numbers of the hands\<close>

inductive between :: "(json \<Rightarrow> jnum) \<Rightarrow> (json \<Rightarrow> jstring) \<Rightarrow> ('s, 'a) game_rules \<Rightarrow> 's table \<Rightarrow> 's table \<Rightarrow> bool"
  for num str G t where
  bt_now: "between num str G t t"
| bt_rules: "between num str G t t' \<Longrightarrow> between num str G t (on_rules G i m t')"
| bt_peers: "between num str G t t' \<Longrightarrow> between num str G t (on_peers G i m t')"
| bt_ready: "between num str G t t' \<Longrightarrow> between num str G t (on_ready num str G i m t')"
| bt_set: "between num str G t t' \<Longrightarrow> between num str G t (fst (setRules G l t'))"
| bt_next: "between num str G t t' \<Longrightarrow> between num str G t (play_next G t')"

definition run_out :: "'s table \<Rightarrow> bool" where
  "run_out t \<longleftrightarrow> playing t = None \<and> 2 ^ 31 \<le> number t \<and> members t \<noteq> [] \<and> (\<forall>i n w. readies t i = Some (n, w) \<longrightarrow> n < 2 ^ 31)"

lemma bits0_less: "bits0 num v < 2 ^ 31"
  by (auto simp: bits0_def wrap32_def split: jnum.split)

lemma run_out_ready:
  assumes "run_out t"
  shows "run_out (maybeReady G t)"
proof -
  obtain i x ms where m: "members t = (i, x) # ms" using assms by (cases "members t") (auto simp: run_out_def)
  have "readies t i \<noteq> Some (number t, w)" for w using assms by (fastforce simp: run_out_def)
  with assms m show ?thesis by (simp add: run_out_def maybeReady_def Let_def notice_def)
qed

lemma takeRules_refused: "takeRules G r v i f t = (t', False) \<Longrightarrow> t' = t"
  by (auto simp: takeRules_def Let_def split: json.splits option.splits if_splits)

lemma run_out_stays:
  assumes "between num str G t t'" "run_out t"
  shows "run_out t'"
  using assms
proof (induction rule: between.induct)
  case (bt_rules t' i m)
  have "run_out (maybeReady G (fst (takeRules G r v i f t')\<lparr>meReady := None\<rparr>))" for r v f
    using bt_rules by (intro run_out_ready) (auto simp: run_out_def takeRules_def Let_def split: json.split option.split)
  then show ?case using bt_rules by (auto simp: on_rules_def Let_def dest: takeRules_refused split: prod.split) (metis fst_conv)
next
  case (bt_peers t' i m)
  have "run_out (maybeReady G (t'\<lparr>members := map f (members t')\<rparr>))" for f
    using bt_peers by (intro run_out_ready) (simp add: run_out_def)
  then show ?case using bt_peers by (auto simp: on_peers_def Let_def split: option.split)
next
  case (bt_ready t' i m)
  have "\<not> bits0 num (field m ''no'') > number t'" using bt_ready bits0_less [of num "field m ''no''"] by (auto simp: run_out_def)
  moreover have "run_out (maybeReady G (t'\<lparr>readies := (readies t')(i \<mapsto> (bits0 num (field m ''no''), w))\<rparr>))" for w
    using bt_ready bits0_less by (intro run_out_ready) (auto simp: run_out_def)
  ultimately show ?case using bt_ready by (auto simp: on_ready_def Let_def split: option.split json.split)
next
  case (bt_set t' l)
  have "run_out (maybeReady G (notice m (t'\<lparr>house := x, rulesV := y, rulesBy := z\<rparr>)\<lparr>meReady := None\<rparr>))" for m x y z
    using bt_set by (intro run_out_ready) (auto simp: run_out_def notice_def)
  then show ?case using bt_set by (auto simp: setRules_def Let_def)
next
  case (bt_next t')
  have "run_out (maybeReady G (t'\<lparr>want := True\<rparr>))" using bt_next by (intro run_out_ready) (auto simp: run_out_def)
  then show ?case using bt_next by (auto simp: play_next_def)
qed

text \<open>
  C38: A table whose hands have reached the number 2147483648 never starts another one: the numbers in the messages of the
  others wrap around. One \<open>ready\<close> with the number 2147483647 takes the table there.
\<close>

theorem numbers_run_out:
  assumes "run_out t" "between num str G t t'"
  shows "playing t' = None"
  using run_out_stays [OF assms(2,1)] by (simp add: run_out_def)

end
