(* ===== verification/Table_Samples.thy ===== *)
theory Table_Samples
  imports Table_Games Table_Agree
begin

text \<open>
  The properties of hands at a table at concrete runs: the start of a Skat hand with two seats that send decks of no
  cards, a Bauernskat hand, a table of two that agrees and starts.
\<close>

section \<open>A deal in which every card lies at the base point\<close>

text \<open>Keys that are one, and decks of the base point: every position opens as the first card.\<close>

definition one_key :: jstring where "one_key = fromBig 1"

definition ones :: secret where "ones = \<lparr>s_k = one_key, s_perm = [0..<32], s_ki = replicate 32 one_key\<rparr>"

definition base_deck :: json where "base_deck = JArr (replicate 32 (JStr base_point))"

lemma big_one [simp]: "toBig one_key = 1" unfolding one_key_def using from_to_big [of 1] by (simp add: L_def)

lemma scalar_one: "scalar one_key"
  unfolding one_key_def using from_to_big [of 1] by (simp add: scalar_def L_def)

lemma opens_first: "Poker.open_card base_point [one_key, one_key, one_key] 32 = Some 0"
proof -
  have "euclid 1 L 1 0 = 1" by (subst euclid.simps, simp add: L_def, subst euclid.simps, simp, subst euclid.simps, simp)
  then have "invL 1 = 1" by (simp add: invL_def L_def)
  moreover have "Poker.cards 32 = pow (fromBig 1) base_point # map (\<lambda>i. pow (fromBig (int i + 1)) base_point) [1..<32]"
    unfolding Poker.cards_def by (subst upt_conv_Cons) simp_all
  ultimately show ?thesis by (simp add: Poker.open_card_def L_def)
qed

lemma point_base: "point_in (JStr base_point) = Some base_point"
  by (simp add: point_in_def isPoint_def base_point_def is_hex_def list_all_iff)

lemma point_one: "point_in (JStr one_key) = Some one_key"
  using scalar_one by (simp add: point_in_def scalar_def)

lemma those_same: "those (replicate n (Some x)) = Some (replicate n x)" by (induction n) simp_all

lemma base_deck_in: "deck_in 32 base_deck = Some (replicate 32 base_point)"
proof -
  have "points_in base_deck = Some (replicate 32 base_point)"
    unfolding base_deck_def points_in.simps map_replicate point_base by (rule those_same)
  then show ?thesis by (simp add: deck_in_def)
qed

section \<open>The start of a Skat hand\<close>

definition deck_msg :: "string \<Rightarrow> json" where "deck_msg t = jobj [(''t'', JStr (js t)), (''no'', JInt 0), (''d'', base_deck)]"

definition hand_0 :: "Skat.state hand" where "hand_0 = step skat_rules 0 (new_hand skat_rules 0 0 [] [''ramsch''] ones)"
definition hand_1 :: "Skat.state hand" where "hand_1 = snd (game_msg skat_rules 0 1 (deck_msg ''s1'') hand_0)"
definition hand_2 :: "Skat.state hand" where "hand_2 = snd (game_msg skat_rules 0 2 (deck_msg ''s1'') hand_1)"
definition hand_3 :: "Skat.state hand" where "hand_3 = snd (game_msg skat_rules 0 1 (deck_msg ''s2'') hand_2)"
definition hand_4 :: "Skat.state hand" where "hand_4 = snd (game_msg skat_rules 0 2 (deck_msg ''s2'') hand_3)"

lemma skat_deck: "size_of skat_rules = 32" by (simp add: size_of_def skat_rules_def DECK_def SUITS_def RANKS_def)

lemma skat_seats: "seats skat_rules = 3" by (simp add: skat_rules_def SEATS_def)

lemma hand_4_device: "device skat_rules 0 hand_4"
  unfolding hand_4_def hand_3_def hand_2_def hand_1_def hand_0_def by (intro device.intros) (simp_all add: skat_seats)

lemma deck_msgs: "field (deck_msg t) ''t'' = JStr (js t)" "field (deck_msg t) ''d'' = base_deck"
  by (simp_all add: deck_msg_def del: js_Cons)

lemma msg_s1: "game_msg G me s (deck_msg ''s1'') h = on_s1 G me s (deck_msg ''s1'') h"
  and msg_s2: "game_msg G me s (deck_msg ''s2'') h = on_s2 G me s (deck_msg ''s2'') h"
  by (simp_all add: game_msg_def deck_msgs Let_def del: js_Cons)

lemmas dealing = on_s1_def on_s2_def deck_msgs skat_deck base_deck_in step_def shuffle_step_def lock_step_def Let_def skat_seats post_def

lemma hand_0_lengths: "length (d1 hand_0) = 1" "d2 hand_0 = []" "was_dealt hand_0 = False"
  by (simp_all add: hand_0_def new_hand_def dealing)

lemma hand_1_lengths: "length (d1 hand_1) = 2" "d2 hand_1 = []" "was_dealt hand_1 = False"
  by (simp_all add: hand_1_def msg_s1 hand_0_lengths dealing)

lemma hand_2_lengths: "length (d1 hand_2) = 3" "length (d2 hand_2) = 1" "was_dealt hand_2 = False"
  by (simp_all add: hand_2_def msg_s1 hand_1_lengths dealing)

lemma hand_3_lengths: "length (d1 hand_3) = 3" "length (d2 hand_3) = 2" "was_dealt hand_3 = False"
  by (simp_all add: hand_3_def msg_s2 hand_2_lengths dealing)

lemma skat_bare: "bare skat_rules me n h = h"
proof (cases n)
  case (Suc k)
  have "bare_round skat_rules me f h = (h, False)" for f by (simp add: bare_round_def skat_due)
  then show ?thesis by (simp add: Suc split: option.split)
qed simp

lemma hand_4_eq: "hand_4 = openOwn skat_rules 0 (hand_out skat_rules 0 (hand_3\<lparr>d2 := d2 hand_3 @ [replicate 32 base_point], was_dealt := True\<rparr>))"
  using hand_3_lengths by (simp add: hand_4_def msg_s2 on_s2_def deck_msgs skat_deck base_deck_in skat_seats step_def lock_step_def
      shuffle_step_def Let_def skat_bare)

text \<open>The hand after the deal: three seats, decks of base points, the own keys sent, no other key known.\<close>

lemma fold_post_mail: "z \<in> set l \<Longrightarrow> (To z, f z) \<in> set (mail (fold (\<lambda>s. post (To s) (f s)) l h))"
proof (induction l arbitrary: h)
  case (Cons s l)
  have "set (mail h) \<subseteq> set (mail (fold (\<lambda>s. post (To s) (f s)) l h))" for h
    by (induction l arbitrary: h) (simp_all, fastforce)
  with Cons show ?case by (cases "s = z") fastforce+
qed simp

lemma hand_out_mail: "z < seats G \<Longrightarrow> z \<noteq> me \<Longrightarrow> (To z, Keys (lay_hands G ! z) (map (my_key h) (lay_hands G ! z))) \<in> set (mail (hand_out G me h))"
  unfolding hand_out_def by (rule fold_post_mail [of z _ "\<lambda>z. Keys (lay_hands G ! z) (map (my_key h) (lay_hands G ! z))"]) simp

lemma hand_4_mail: "z \<in> {1, 2} \<Longrightarrow> (To z, Keys (lay_hands skat_rules ! z) (map (my_key hand_3) (lay_hands skat_rules ! z))) \<in> set (mail hand_4)"
proof -
  let ?h = "hand_3\<lparr>d2 := d2 hand_3 @ [replicate 32 base_point], was_dealt := True\<rparr>"
  have "my_key ?h = my_key hand_3" by (simp add: my_key_def fun_eq_iff)
  moreover assume "z \<in> {1, 2}"
  ultimately have "(To z, Keys (lay_hands skat_rules ! z) (map (my_key hand_3) (lay_hands skat_rules ! z))) \<in> set (mail (hand_out skat_rules 0 ?h))"
    using hand_out_mail [of z skat_rules 0 ?h] by (auto simp: skat_seats)
  then show ?thesis unfolding hand_4_eq openOwn_simps(2) by simp
qed


section \<open>Three passes and a card\<close>

definition pass_msg :: json where "pass_msg = jobj [(''t'', JStr (js ''act'')), (''a'', jobj [(''t'', JStr (js ''pass''))])]"

definition lead_msg :: json where
  "lead_msg = jobj [(''t'', JStr (js ''act'')), (''a'', jobj [(''t'', JStr (js ''play''))]), (''pos'', JInt 10), (''keys'', JArr (replicate 3 (JStr one_key)))]"

definition after :: "Skat.state answer \<Rightarrow> Skat.state" where "after r = (case r of Inr s \<Rightarrow> s | Inl e \<Rightarrow> start None None)"

definition state_1 :: Skat.state where "state_1 = after (apply_action (start (Some 0) (Some [''ramsch''])) (mk_act TPass 2))"
definition state_2 :: Skat.state where "state_2 = after (apply_action state_1 (mk_act TPass 0))"
definition state_3 :: Skat.state where "state_3 = after (apply_action state_2 (mk_act TPass 1))"
definition state_4 :: Skat.state where "state_4 = after (apply_action state_3 ((mk_act TPlay 1)\<lparr>a_card := Some (DECK ! 0)\<rparr>))"

lemma passes:
  "apply_action (start (Some 0) (Some [''ramsch''])) (mk_act TPass 2) = Inr state_1" "apply_action state_1 (mk_act TPass 0) = Inr state_2"
  "apply_action state_2 (mk_act TPass 1) = Inr state_3" "apply_action state_3 ((mk_act TPlay 1)\<lparr>a_card := Some (DECK ! 0)\<rparr>) = Inr state_4"
  by code_simp+

lemma not_over: "\<not> is_done state_1" "\<not> is_done state_2" "\<not> is_done state_3" "\<not> is_done state_4"
  by code_simp+

lemma said_pass: "said_skat z (field pass_msg ''a'') = mk_act TPass (int z)"
  by (simp add: said_skat_def pass_msg_def mk_act_def named_def skat_types_def game_names_def)

lemma skat_sel: "over_of skat_rules = is_done" "apply_of skat_rules = apply_action" "said skat_rules = said_skat" "turn_of skat_rules = Skat.turn"
  "late_of skat_rules = (\<lambda>s a. kontraLate s (Some a))" "kind_of skat_rules = (\<lambda>a. name_in skat_types (a_t a))" "deck skat_rules = DECK"
  "play_of skat_rules = (\<lambda>z c. (mk_act TPlay (int z))\<lparr>a_card := Some c\<rparr>)" "lay_stacks skat_rules = []"
  "start_of skat_rules = (\<lambda>d r. start (Some d) (Some r))"
  by (simp_all add: skat_rules_def)

lemma skat_hand_1: "lay_hands skat_rules ! 1 = [10..<20]" by (simp add: skat_rules_def layout_def SEATS_def HAND_def upt_rec)

lemma quiet_settle: "ghosts h = Map.empty \<Longrightarrow> \<not> is_done (state h) \<Longrightarrow> settle skat_rules me h = h"
proof -
  assume g: "ghosts h = Map.empty" "\<not> is_done (state h)"
  have "ghost_moves skat_rules me n h = h" for n using g by (cases n) (simp_all add: Let_def)
  then show ?thesis using g(2) by (simp add: settle_def skat_bare Let_def skat_sel)
qed

lemma pass_step:
  assumes "final skat_rules h = Some f" "ghosts h = Map.empty" "apply_action (state h) (mk_act TPass (int z)) = Inr st" "\<not> is_done st"
  shows "snd (game_msg skat_rules me z pass_msg h) = h\<lparr>state := st, moves := Suc (moves h)\<rparr>"
proof -
  have "field pass_msg ''t'' = JStr (js ''act'')" "as_string (field (field pass_msg ''a'') ''t'') = Some (js ''pass'')"
    by (simp_all add: pass_msg_def del: js_Cons)
  moreover have "\<not> kontraLate (state h) (Some (mk_act TPass (int z)))" by (simp add: kontraLate_def mk_act_def)
  moreover have "kind_of skat_rules (mk_act TPass (int z)) = ''pass''" by (simp add: skat_sel name_in_def skat_types_def mk_act_def)
  ultimately show ?thesis using assms
    by (simp add: game_msg_def on_act_def on_said_def made_def skat_sel said_pass quiet_settle Let_def del: js_Cons)
qed

definition hand_5 :: "Skat.state hand" where "hand_5 = snd (game_msg skat_rules 0 2 pass_msg hand_4)"
definition hand_6 :: "Skat.state hand" where "hand_6 = snd (game_msg skat_rules 0 0 pass_msg hand_5)"
definition hand_7 :: "Skat.state hand" where "hand_7 = snd (game_msg skat_rules 0 1 pass_msg hand_6)"
definition hand_8 :: "Skat.state hand" where "hand_8 = snd (game_msg skat_rules 0 1 lead_msg hand_7)"

lemma hand_8_device: "device skat_rules 0 hand_8"
  unfolding hand_8_def hand_7_def hand_6_def hand_5_def by (intro dev_message hand_4_device) (simp_all add: skat_seats)

definition untouched :: "Skat.state hand \<Rightarrow> bool" where
  "untouched h \<longleftrightarrow> state h = start (Some 0) (Some [''ramsch'']) \<and> ghosts h = Map.empty \<and> sec h = ones \<and> Table_Hand.played h = Map.empty \<and> pub h = Map.empty"

lemma hands_untouched: "untouched hand_0" "untouched hand_1" "untouched hand_2" "untouched hand_3"
proof -
  show 0: "untouched hand_0" by (simp add: untouched_def hand_0_def new_hand_def dealing skat_sel js_rem_def)
  show 1: "untouched hand_1" using 0 by (simp add: untouched_def hand_1_def msg_s1 hand_0_lengths dealing)
  show 2: "untouched hand_2" using 1 by (simp add: untouched_def hand_2_def msg_s1 hand_1_lengths dealing)
  show "untouched hand_3" using 2 by (simp add: untouched_def hand_3_def msg_s2 hand_2_lengths dealing)
qed

lemma openOwn_more: "sec (openOwn G me h) = sec h" "pub (openOwn G me h) = pub h"
  by (auto simp: openOwn_def open_one_def intro!: fold_kept split: option.split)

lemma out_sent: "sent (openOwn G me h) = sent h" "sent (hand_out G me h) = sent h"
  by (auto simp: openOwn_def open_one_def hand_out_def post_def intro!: fold_kept split: option.split)

lemma hand_out_more: "sec (hand_out G me h) = sec h" "pub (hand_out G me h) = pub h" "state (hand_out G me h) = state h"
  unfolding hand_out_def by (rule fold_kept; simp add: post_def)+

lemma hand_4_untouched: "untouched hand_4"
  using hands_untouched(4) unfolding hand_4_eq untouched_def by (simp add: openOwn_more hand_out_more)

lemma hand_4_final: "final skat_rules hand_4 = Some (replicate 32 base_point)"
  unfolding hand_4_eq using hand_3_lengths by (simp add: final_def skat_seats nth_append)

lemma final_same: "d2 h' = d2 h \<Longrightarrow> final G h' = final G h" by (simp add: final_def)

lemma hand_7_eq: "hand_7 = hand_4\<lparr>state := state_3, moves := moves hand_4 + 3\<rparr>"
proof -
  have u: "state hand_4 = start (Some 0) (Some [''ramsch''])" "ghosts hand_4 = Map.empty" using hand_4_untouched by (simp_all add: untouched_def)
  have 5: "hand_5 = hand_4\<lparr>state := state_1, moves := Suc (moves hand_4)\<rparr>"
    unfolding hand_5_def by (rule pass_step [OF hand_4_final]) (simp_all add: u passes not_over)
  have 6: "hand_6 = hand_5\<lparr>state := state_2, moves := Suc (moves hand_5)\<rparr>"
    unfolding hand_6_def by (rule pass_step [OF trans [OF final_same hand_4_final]]) (simp_all add: 5 u passes not_over)
  have 7: "hand_7 = hand_6\<lparr>state := state_3, moves := Suc (moves hand_6)\<rparr>"
    unfolding hand_7_def by (rule pass_step [OF trans [OF final_same hand_4_final]]) (simp_all add: 5 6 u passes not_over)
  show ?thesis by (simp add: 7 6 5)
qed

lemma lead_msgs: "field lead_msg ''t'' = JStr (js ''act'')" "as_string (field (field lead_msg ''a'') ''t'') = Some (js ''play'')"
  "as_integer (field lead_msg ''pos'') = Some 10" "points_in (field lead_msg ''keys'') = Some [one_key, one_key, one_key]"
proof -
  show "points_in (field lead_msg ''keys'') = Some [one_key, one_key, one_key]"
    by (simp add: lead_msg_def numeral_3_eq_3 point_one del: js_Cons)
qed (simp_all add: lead_msg_def del: js_Cons)

lemma hand_8_eq: "hand_8 = hand_7\<lparr>Table_Hand.played := (Table_Hand.played hand_7)(10 \<mapsto> 1), state := state_4, moves := moves hand_7 + 1\<rparr>"
proof -
  have u: "ghosts hand_7 = Map.empty" "sec hand_7 = ones" "Table_Hand.played hand_7 = Map.empty" "pub hand_7 = Map.empty" "state hand_7 = state_3"
    using hand_4_untouched by (simp_all add: untouched_def hand_7_eq)
  have f: "final skat_rules hand_7 = Some (replicate 32 base_point)" by (rule trans [OF final_same hand_4_final]) (simp add: hand_7_eq)
  have "(10::int) \<in> int ` set (lay_hands skat_rules ! 1)" unfolding skat_hand_1 by (simp add: image_int_atLeastLessThan)
  then have "allowed skat_rules hand_7 1 10" unfolding allowed_def u by simp
  moreover have "reveal skat_rules 0 1 hand_7 (replicate 32 base_point) 10 (field lead_msg ''keys'') = Some 0"
    by (simp add: reveal_def lead_msgs skat_seats my_key_def u ones_def opens_first skat_deck)
  ultimately show ?thesis using u f passes(4) not_over(4)
    by (simp add: hand_8_def game_msg_def on_act_def lead_msgs on_play_def made_def skat_sel skat_deck quiet_settle Let_def del: js_Cons)
qed

lemma skat_cards_of_the_seat_witness:
  "Table_Hand.played hand_8 (int 10) = Some 1 \<and>
   (10 \<in> set (lay_hands skat_rules ! 1) \<or> (10::nat) \<in> {30, 31} \<and> (\<exists>s. evolves skat_rules s (state hand_8) \<and> declarer s = int 1 \<and> pickedUp s))"
proof -
  have "Table_Hand.played hand_8 (int 10) = Some 1" by (simp add: hand_8_eq)
  with skat_cards_of_the_seat [OF hand_8_device this] show ?thesis by blast
qed



section \<open>The start of a Bauernskat hand\<close>

definition duo_0 :: "state_bs hand" where "duo_0 = step bauern_rules 0 (new_hand bauern_rules 0 0 [] [] ones)"
definition duo_1 :: "state_bs hand" where "duo_1 = snd (game_msg bauern_rules 0 1 (deck_msg ''s1'') duo_0)"
definition duo_2 :: "state_bs hand" where "duo_2 = snd (game_msg bauern_rules 0 1 (deck_msg ''s2'') duo_1)"

lemma bauern_deck: "size_of bauern_rules = 32" by (simp add: size_of_def bauern_rules_def DECK_def SUITS_def RANKS_def)

lemma bauern_seats: "seats bauern_rules = 2" by (simp add: bauern_rules_def SEATS_bs_def)

lemma duo_2_device: "device bauern_rules 0 duo_2"
  unfolding duo_2_def duo_1_def duo_0_def by (intro device.intros) (simp_all add: bauern_seats)

lemmas dealing_two = on_s1_def on_s2_def deck_msgs bauern_deck base_deck_in step_def shuffle_step_def lock_step_def Let_def bauern_seats post_def

definition fresh_duo :: "state_bs hand \<Rightarrow> bool" where
  "fresh_duo h \<longleftrightarrow> state h = start_bs (Some 0) (Some []) \<and> sent h = [] \<and> was_dealt h = False"

lemma duo_1_fresh: "length (d1 duo_1) = 2" "length (d2 duo_1) = 1" "fresh_duo duo_1"
proof -
  have 0: "length (d1 duo_0) = 1" "d2 duo_0 = []" "fresh_duo duo_0"
    by (simp_all add: duo_0_def new_hand_def dealing_two fresh_duo_def) (simp add: bauern_rules_def js_rem_def)
  show "length (d1 duo_1) = 2" "length (d2 duo_1) = 1" "fresh_duo duo_1"
    using 0 by (simp_all add: duo_1_def msg_s1 dealing_two fresh_duo_def)
qed

lemma grows_mail: "grows G me h h' \<Longrightarrow> e \<in> set (mail h) \<Longrightarrow> e \<in> set (mail h')" by (auto simp: grows_def)

lemma bare_send_keeps: "e \<in> set (mail h) \<Longrightarrow> e \<in> set (mail (fold bare_send l h))"
  by (induction l arbitrary: h) (auto simp: bare_send_def Let_def)

lemma bare_sends: "(z, i, p) \<in> set l \<Longrightarrow> p \<notin> set (sent h) \<Longrightarrow> (All, Keys [p] [my_key h p]) \<in> set (mail (fold bare_send l h))"
proof (induction l arbitrary: h)
  case (Cons r l)
  have k: "my_key (bare_send r h) = my_key h" by (simp add: bare_send_def my_key_def Let_def fun_eq_iff post_def)
  show ?case
  proof (cases "snd (snd r) = p")
    case True
    then have "(All, Keys [p] [my_key h p]) \<in> set (mail (bare_send r h))" using Cons.prems by (simp add: bare_send_def Let_def my_key_def)
    then show ?thesis by (simp add: bare_send_keeps)
  next
    case False
    then have "(z, i, p) \<in> set l" "p \<notin> set (sent (bare_send r h))" using Cons.prems by (auto simp: bare_send_def Let_def post_def)
    from Cons.IH [OF this] show ?thesis by (simp add: k)
  qed
qed simp

lemma round_mail:
  "final bauern_rules h = Some f \<Longrightarrow> e \<in> set (mail (fst (bare_round bauern_rules me f h))) \<Longrightarrow> e \<in> set (mail (bare bauern_rules me (Suc n) h))"
  using grows_mail [OF bauern_table.bare_grows [where n = n and me = me], of e] by (cases "bare_round bauern_rules me f h") (simp add: Let_def)

lemma first_due: "(0, 0, 0) \<in> set (due_list bauern_rules (start_bs (Some 0) (Some [])))" by code_simp

lemma duo_2_mail: "\<exists>k. (All, Keys [0] [k]) \<in> set (mail duo_2)"
proof -
  let ?h = "openOwn bauern_rules 0 (hand_out bauern_rules 0 (duo_1\<lparr>d2 := d2 duo_1 @ [replicate 32 base_point], was_dealt := True\<rparr>))"
  have e: "duo_2 = bare bauern_rules 0 (Suc 68) ?h"
    using duo_1_fresh by (simp add: duo_2_def msg_s2 on_s2_def deck_msgs bauern_deck base_deck_in bauern_seats step_def lock_step_def
        shuffle_step_def Let_def fresh_duo_def fuel_def del: bare.simps) (simp add: bauern_rules_def)
  have f: "final bauern_rules ?h = Some (replicate 32 base_point)"
    using duo_1_fresh by (simp add: final_def bauern_seats nth_append)
  have s: "state ?h = start_bs (Some 0) (Some [])" "sent ?h = []"
    using duo_1_fresh by (simp_all add: fresh_duo_def hand_out_more out_sent)
  have "(All, Keys [0] [my_key ?h 0]) \<in> set (mail (fold bare_send (due_list bauern_rules (state ?h)) ?h))"
    unfolding s(1) by (rule bare_sends [OF first_due]) (unfold s(2), simp)
  then have "(All, Keys [0] [my_key ?h 0]) \<in> set (mail (fst (bare_round bauern_rules 0 (replicate 32 base_point) ?h)))"
    using grows_mail [OF bauern_table.bare_turns_grows] by (simp add: bare_round_def Let_def)
  then have "(All, Keys [0] [my_key ?h 0]) \<in> set (mail duo_2)"
    unfolding e by (rule round_mail [OF f])
  then show ?thesis by blast
qed



section \<open>A table of two\<close>

definition ida :: jstring where "ida = replicate 16 97"
definition idb :: jstring where "idb = replicate 16 98"

lemma ids: "is_id ida" "is_id idb" "ida \<noteq> idb" "idb \<noteq> ida" by (simp_all add: is_id_def ida_def idb_def is_hex_def list_all_iff)

definition tab :: "int \<Rightarrow> jstring \<Rightarrow> state_bs table" where
  "tab n w = \<lparr>my_id = ida, my_seat = 0, members = [(idb, \<lparr>p_seat = 1, p_peers = Some [ida]\<rparr>)], links = [idb], holds = [], readies = [idb \<mapsto> (0, w)],
     scores = Map.empty, house = [], rulesV = 0, rulesBy = [], number = n, playing = None, last_end = None, want = True, closed = False,
     meReady = None, draws = [ones], notices = []\<rparr>"

lemma tab_roster: "roster bauern_rules (tab n w) = [Some ida, Some idb]"
  by (simp add: roster_def tab_def bauern_seats sit_def numeral_2_eq_2)

lemma tab_word: "my_word bauern_rules (tab n w) = agreed [ida, idb] []"
  by (simp add: my_word_def tab_roster seat_name_def) (simp add: tab_def)

lemma tab_complete: "complete bauern_rules (tab n w)"
  by (simp add: complete_def tab_roster Let_def) (simp add: tab_def)

lemma tab_starts: "playing (maybeReady bauern_rules (tab 0 (agreed [ida, idb] []))) \<noteq> None"
  using tab_word [of 0 "agreed [ida, idb] []"] tab_complete [of 0 "agreed [ida, idb] []"]
  by (simp add: maybeReady_def Let_def notice_def begin_hand_def) (simp add: tab_def begin_hand_def)

lemma hand_starts_agreed_witness:
  "\<exists>h. playing (maybeReady bauern_rules (tab 0 (agreed [ida, idb] []))) = Some h \<and> hand_no h = 0 \<and> hand_roster h = [ida, idb]"
proof -
  obtain h where h: "playing (maybeReady bauern_rules (tab 0 (agreed [ida, idb] []))) = Some h" using tab_starts by blast
  moreover have "playing (tab 0 (agreed [ida, idb] [])) = None" "number (tab 0 (agreed [ida, idb] [])) = 0" by (simp_all add: tab_def)
  ultimately show ?thesis using hand_starts_agreed [OF _ h] by (simp add: tab_roster seat_name_def)
qed

definition swap_1 :: change where "swap_1 = (JArr [], JInt 1, ida)"
definition swap_2 :: change where "swap_2 = (JArr [], JInt 1, idb)"

lemma offers: "offer bauern_rules swap_1 = Some ([], 1, ida)" "offer bauern_rules swap_2 = Some ([], 1, idb)"
  by (simp_all add: offer_def swap_1_def swap_2_def bauern_rules_def rules_in_def)

lemma rules_in_any_order_witness:
  "fold (take_change bauern_rules) [swap_1, swap_2] (tab 0 []) = fold (take_change bauern_rules) [swap_2, swap_1, swap_2] (tab 0 [])"
  by (rule rules_in_any_order) (auto simp: one_author_def offers ids, simp_all add: swap_1_def swap_2_def ids)

definition late_ready :: json where
  "late_ready = jobj [(''t'', JStr (js ''ready'')), (''no'', JInt 2147483647), (''roster'', JArr []), (''rules'', JArr [])]"

definition read_num :: "json \<Rightarrow> jnum" where "read_num v = (case v of JNum x \<Rightarrow> x | _ \<Rightarrow> NaN)"

lemma numbers_run_out_witness:
  "playing (on_ready read_num (\<lambda>v. []) bauern_rules idb late_ready (tab (2 ^ 31) [])) = None"
proof (rule numbers_run_out [where num = read_num and str = "\<lambda>v. []" and G = bauern_rules])
  show "run_out (tab (2 ^ 31) [])" by (simp add: run_out_def tab_def)
  show "between read_num (\<lambda>v. []) bauern_rules (tab (2 ^ 31) []) (on_ready read_num (\<lambda>v. []) bauern_rules idb late_ready (tab (2 ^ 31) []))"
    by (intro bt_ready bt_now)
qed

section \<open>A key that opens nothing, and a hand of one seat\<close>

text \<open>Cards of a deck of no cards: every set of keys is wrong.\<close>

definition no_cards :: "(Skat.state, action) game_rules" where "no_cards = skat_rules\<lparr>deck := []\<rparr>"

definition shut :: "Skat.state hand" where
  "shut = (new_hand no_cards 0 0 [] [] ones)\<lparr>d2 := replicate 3 (replicate 32 base_point), got_keys := (\<lambda>x. Some one_key)\<rparr>"

lemma shut_keys: "keysFor no_cards 0 shut 0 = Some [one_key, one_key, one_key]"
  by (simp add: keysFor_def key_from_def shut_def new_hand_def my_key_def ones_def no_cards_def skat_rules_def SEATS_def numeral_3_eq_3)

lemma wrong_key_loses_the_card_witness:
  "flags (openOwn no_cards 0 shut) = [] \<and> Table_Hand.opened (openOwn no_cards 0 shut) 0 = Some None \<and> \<not> live (openOwn no_cards 0 shut) 0"
proof -
  have s: "seats no_cards = 3" "lay_hands no_cards ! 0 = [0..<10]"
    by (simp_all add: no_cards_def skat_rules_def SEATS_def layout_def HAND_def upt_rec)
  have "final no_cards shut = Some (replicate 32 base_point)" by (simp add: final_def shut_def s)
  moreover have "0 \<in> set (own shut)" "Table_Hand.opened shut 0 = None" "flags shut = []" by (simp_all add: shut_def new_hand_def s)
  moreover have "Poker.open_card (replicate 32 base_point ! 0) [one_key, one_key, one_key] (size_of no_cards) = None"
    by (simp add: Poker.open_card_def size_of_def no_cards_def Poker.cards_def)
  ultimately show ?thesis using wrong_key_loses_the_card [OF _ _ _ shut_keys _ later_now] by simp
qed

definition one_seat :: "(Skat.state, action) game_rules" where
  "one_seat = skat_rules\<lparr>seats := 1, deck := [], audit_of := (\<lambda>s d. Some []), list_of := (\<lambda>s d. Some [3])\<rparr>"

definition alone :: "Skat.state hand" where
  "alone = (new_hand one_seat 0 0 [ida] [] lone)\<lparr>d1 := [[]], d2 := [[]], revs := [0 \<mapsto> (lone, [])]\<rparr>"


end
