(* ===== verification/Edit_History.thy ===== *)
theory Edit_History
  imports Json
begin

text \<open>
  The editor of a sheet, \<open>editmodel.js\<close>: the history of snapshots behind undo and redo, and the steps of a sticker. A
  snapshot is the text of a sheet; times are the milliseconds of the clock; coordinates are rational numbers, of which
  the source has the nearest doubles. Names of colours and the description of a sheet are not modelled.
\<close>

section \<open>The history\<close>

record history =
  h_list :: "jstring list"
  h_pos :: nat
  h_key :: "jstring option"
  h_at :: int

definition LIMIT :: nat where "LIMIT = 50"

definition MERGE :: int where "MERGE = 600"

definition new_history :: "jstring \<Rightarrow> history" where "new_history s = \<lparr>h_list = [s], h_pos = 0, h_key = None, h_at = 0\<rparr>"

text \<open>An empty key is no key.\<close>

definition key_or_null :: "jstring option \<Rightarrow> jstring option" where "key_or_null k = (if k = Some [] then None else k)"

definition joins :: "history \<Rightarrow> int \<Rightarrow> jstring option \<Rightarrow> bool" where
  "joins h now key \<longleftrightarrow> key_or_null key \<noteq> None \<and> key = h_key h \<and> (hd (the key) = 112 \<or> now - h_at h < MERGE) \<and> 0 < h_pos h"

definition put_step :: "history \<Rightarrow> jstring \<Rightarrow> history" where
  "put_step h s = (let l = take (Suc (h_pos h)) (h_list h) @ [s]; l = drop (length l - LIMIT) l in h\<lparr>h_list := l, h_pos := length l - 1\<rparr>)"

definition join_step :: "history \<Rightarrow> jstring \<Rightarrow> history" where
  "join_step h s = (let h = h\<lparr>h_list := (h_list h)[h_pos h := s]\<rparr> in
     if s = h_list h ! (h_pos h - 1) then h\<lparr>h_list := take (h_pos h) (h_list h), h_pos := h_pos h - 1\<rparr> else h)"

definition record_step :: "history \<Rightarrow> jstring \<Rightarrow> int \<Rightarrow> jstring option \<Rightarrow> history \<times> bool" where
  "record_step h s now key = (if s = h_list h ! h_pos h then (h, False)
     else ((if joins h now key then join_step h s else put_step h s)\<lparr>h_key := key_or_null key, h_at := now\<rparr>, True))"

definition canUndo :: "history \<Rightarrow> bool" where "canUndo h \<longleftrightarrow> 0 < h_pos h"

definition canRedo :: "history \<Rightarrow> bool" where "canRedo h \<longleftrightarrow> h_pos h + 1 < length (h_list h)"

definition undo :: "history \<Rightarrow> history \<times> jstring option" where
  "undo h = (if \<not> canUndo h then (h, None) else let h = h\<lparr>h_pos := h_pos h - 1, h_key := None\<rparr> in (h, Some (h_list h ! h_pos h)))"

definition redo :: "history \<Rightarrow> history \<times> jstring option" where
  "redo h = (if \<not> canRedo h then (h, None) else let h = h\<lparr>h_pos := h_pos h + 1, h_key := None\<rparr> in (h, Some (h_list h ! h_pos h)))"

section \<open>The steps of a sticker\<close>

record placed =
  pl_x :: rat
  pl_y :: rat
  pl_r :: rat
  pl_z :: rat

text \<open>A step moves, turns or scales; what it leaves out is nothing, \<open>o.dx || 0\<close>.\<close>

record nudge_by =
  n_dx :: rat
  n_dy :: rat
  n_dr :: rat
  n_dz :: rat

definition MIN_Z :: rat where "MIN_Z = 1/2"
definition MAX_Z :: rat where "MAX_Z = 5/2"
definition MAX_R :: rat where "MAX_R = 314/100"

definition clamp :: "rat \<Rightarrow> rat \<Rightarrow> rat \<Rightarrow> rat" where "clamp v a b = min b (max a v)"

definition r3 :: "rat \<Rightarrow> rat" where "r3 v = of_int \<lfloor>v * 1000 + 1/2\<rfloor> / 1000"

text \<open>\<open>turn\<close> is the number \<open>Math.PI * 2\<close>.\<close>

definition nudge :: "rat \<Rightarrow> placed \<Rightarrow> nudge_by \<Rightarrow> placed" where
  "nudge turn s d = (let r = pl_r s + n_dr d; r = (if r > MAX_R then r - turn else r); r = (if r < - MAX_R then r + turn else r) in
     \<lparr>pl_x = r3 (clamp (pl_x s + n_dx d) 0 1), pl_y = r3 (clamp (pl_y s + n_dy d) 0 1), pl_r = r3 (clamp r (- MAX_R) MAX_R),
      pl_z = r3 (clamp (pl_z s + n_dz d) MIN_Z MAX_Z)\<rparr>)"

definition stay :: nudge_by where "stay = \<lparr>n_dx = 0, n_dy = 0, n_dr = 0, n_dz = 0\<rparr>"

definition keyStep :: "jstring \<Rightarrow> bool \<Rightarrow> nudge_by option" where
  "keyStep k shift = (let m = (if shift then 1/10 else 2/100) in
     map_of [(js ''ArrowLeft'', stay\<lparr>n_dx := - m\<rparr>), (js ''ArrowRight'', stay\<lparr>n_dx := m\<rparr>), (js ''ArrowUp'', stay\<lparr>n_dy := - m\<rparr>),
       (js ''ArrowDown'', stay\<lparr>n_dy := m\<rparr>), (js ''+'', stay\<lparr>n_dz := 1/5\<rparr>), (js ''='', stay\<lparr>n_dz := 1/5\<rparr>), (js ''-'', stay\<lparr>n_dz := - 1/5\<rparr>),
       (js ''r'', stay\<lparr>n_dr := 1/4\<rparr>), (js ''R'', stay\<lparr>n_dr := if shift then - 1/4 else 1/4\<rparr>)] k)"

definition third :: "rat \<Rightarrow> char" where "third v = (if v < 1/3 then CHR ''0'' else if v < 2/3 then CHR ''1'' else CHR ''2'')"

definition where_on :: "rat \<Rightarrow> rat \<Rightarrow> string" where "where_on x y = [third y, third x]"

text \<open>Whatever steps are made, a sticker stays on the sheet, keeps its size and its turn inside the limits.\<close>

definition in_limits :: "placed \<Rightarrow> bool" where
  "in_limits s \<longleftrightarrow> 0 \<le> pl_x s \<and> pl_x s \<le> 1 \<and> 0 \<le> pl_y s \<and> pl_y s \<le> 1 \<and> - MAX_R \<le> pl_r s \<and> pl_r s \<le> MAX_R \<and> MIN_Z \<le> pl_z s \<and> pl_z s \<le> MAX_Z"

lemma r3_between:
  assumes "of_int i / 1000 \<le> v" "v \<le> of_int j / 1000"
  shows "of_int i / 1000 \<le> r3 v \<and> r3 v \<le> of_int j / 1000"
proof -
  have "i \<le> \<lfloor>v * 1000 + 1/2\<rfloor>" using assms(1) by (simp add: le_floor_iff field_simps)
  moreover have "\<lfloor>v * 1000 + 1/2\<rfloor> \<le> j" using assms(2) by (simp add: floor_le_iff field_simps)
  ultimately show ?thesis by (simp add: r3_def field_simps)
qed

lemma clamped: "a \<le> b \<Longrightarrow> a \<le> clamp v a b \<and> clamp v a b \<le> b" by (simp add: clamp_def)

lemma r3_clamp: "a = of_int i / 1000 \<Longrightarrow> b = of_int j / 1000 \<Longrightarrow> a \<le> b \<Longrightarrow> a \<le> r3 (clamp v a b) \<and> r3 (clamp v a b) \<le> b"
  using r3_between [of i "clamp v a b" j] clamped [of a b v] by simp

lemma nudge_in_limits: "in_limits (nudge turn s d)"
  using r3_clamp [of 0 0 1 1000] r3_clamp [of "- MAX_R" "-3140" MAX_R 3140] r3_clamp [of MIN_Z 500 MAX_Z 2500]
  by (simp add: in_limits_def nudge_def Let_def MAX_R_def MIN_Z_def MAX_Z_def)

section \<open>Histories that come about\<close>

inductive edited :: "history \<Rightarrow> bool" where
  ed_new: "edited (new_history s)"
| ed_record: "edited h \<Longrightarrow> edited (fst (record_step h s now key))"
| ed_undo: "edited h \<Longrightarrow> edited (fst (undo h))"
| ed_redo: "edited h \<Longrightarrow> edited (fst (redo h))"

definition sound :: "history \<Rightarrow> bool" where
  "sound h \<longleftrightarrow> h_pos h < length (h_list h) \<and> length (h_list h) \<le> LIMIT \<and> (h_key h \<noteq> None \<longrightarrow> Suc (h_pos h) = length (h_list h)) \<and>
     (\<forall>i. Suc i < length (h_list h) \<longrightarrow> h_list h ! i \<noteq> h_list h ! Suc i)"

text \<open>A step of its own: what was undone is gone, and of the steps before it the last 49 stay.\<close>

lemma put_step_eq:
  "put_step h s = (let l = take (Suc (h_pos h)) (h_list h); l = drop (length l - 49) l in h\<lparr>h_list := l @ [s], h_pos := length l\<rparr>)"
  by (simp add: put_step_def LIMIT_def Let_def)

lemma put_sound:
  assumes "sound h" "s \<noteq> h_list h ! h_pos h"
  shows "sound ((put_step h s)\<lparr>h_key := k, h_at := t\<rparr>)"
proof -
  define l where "l = take (Suc (h_pos h)) (h_list h)"
  define d where "d = length l - 49"
  have l: "length l = Suc (h_pos h)" "l ! h_pos h = h_list h ! h_pos h" using assms by (simp_all add: sound_def l_def)
  have n: "(l @ [s]) ! i \<noteq> (l @ [s]) ! Suc i" if "Suc i < Suc (length l)" for i
  proof (cases "i = h_pos h")
    case True
    then show ?thesis using assms l by (simp add: nth_append)
  next
    case False
    then have "i < h_pos h" using that l by simp
    then show ?thesis using assms l(1) by (simp add: sound_def nth_append l_def)
  qed
  have "drop d l @ [s] = drop d (l @ [s])" by (simp add: d_def)
  then have "(drop d l @ [s]) ! i \<noteq> (drop d l @ [s]) ! Suc i" if "Suc i < Suc (length l - d)" for i
    using n [of "d + i"] that by (simp del: drop_append append_eq_conv_conj)
  then show ?thesis by (simp add: put_step_eq sound_def LIMIT_def Let_def l_def [symmetric] d_def)
qed

lemma joined_sound:
  assumes "sound h" "s \<noteq> h_list h ! h_pos h" "joins h now key"
  shows "sound ((join_step h s)\<lparr>h_key := k, h_at := t\<rparr>)"
proof -
  have l: "Suc (h_pos h) = length (h_list h)" "0 < h_pos h" using assms by (auto simp: joins_def key_or_null_def sound_def split: if_splits)
  then have "2 \<le> length (h_list h)" by simp
  then obtain x y ys where "rev (h_list h) = x # y # ys" by (cases "rev (h_list h)"; cases "tl (rev (h_list h))") auto
  then obtain xs where xs: "h_list h = xs @ [y, x]" using that by (metis append.assoc append_Cons append_Nil rev.simps(2) rev_rev_ident)
  then have "h_pos h = Suc (length xs)" using l by simp
  with assms xs show ?thesis by (auto simp: sound_def join_step_def Let_def nth_append less_Suc_eq LIMIT_def list_update_append split: if_splits)
qed

lemma edited_sound: "edited h \<Longrightarrow> sound h"
proof (induction rule: edited.induct)
  case (ed_record h s now key)
  then show ?case using put_sound joined_sound by (simp add: record_step_def)
qed (auto simp: sound_def new_history_def undo_def redo_def canUndo_def canRedo_def LIMIT_def)

section \<open>What undo and redo promise\<close>

text \<open>The steps before the sheet that is shown, the last one first, the sheet, and the steps that were undone.\<close>

type_synonym strip = "jstring list \<times> jstring \<times> jstring list"

definition strip :: "history \<Rightarrow> strip" where
  "strip h = (rev (take (h_pos h) (h_list h)), h_list h ! h_pos h, drop (Suc (h_pos h)) (h_list h))"

fun strip_undo :: "strip \<Rightarrow> strip" where
  "strip_undo (p # ps, s, fs) = (ps, p, s # fs)" | "strip_undo ([], s, fs) = ([], s, fs)"

fun strip_redo :: "strip \<Rightarrow> strip" where
  "strip_redo (ps, s, f # fs) = (s # ps, f, fs)" | "strip_redo (ps, s, []) = (ps, s, [])"

fun strip_put :: "jstring \<Rightarrow> strip \<Rightarrow> strip" where
  "strip_put x (ps, s, fs) = (take (LIMIT - 1) (s # ps), x, [])"

lemma strip_undo_eq: "sound h \<Longrightarrow> strip (fst (undo h)) = strip_undo (strip h)"
proof (cases "h_pos h")
  case (Suc n)
  moreover assume "sound h"
  ultimately show ?thesis
    by (simp add: strip_def undo_def canUndo_def Let_def sound_def take_Suc_conv_app_nth Cons_nth_drop_Suc)
qed (simp add: strip_def undo_def canUndo_def)

lemma strip_redo_eq: "sound h \<Longrightarrow> strip (fst (redo h)) = strip_redo (strip h)"
proof (cases "canRedo h")
  case True
  then have "drop (Suc (h_pos h)) (h_list h) = h_list h ! Suc (h_pos h) # drop (Suc (Suc (h_pos h))) (h_list h)"
    by (simp add: canRedo_def Cons_nth_drop_Suc)
  moreover have "take (Suc (h_pos h)) (h_list h) = take (h_pos h) (h_list h) @ [h_list h ! h_pos h]"
    using True by (simp add: canRedo_def take_Suc_conv_app_nth)
  ultimately show ?thesis using True by (simp add: strip_def redo_def Let_def)
qed (simp add: strip_def redo_def canRedo_def)

lemma strip_put_eq: "sound h \<Longrightarrow> strip (put_step h s) = strip_put s (strip h)"
proof -
  assume h: "sound h"
  define l where "l = take (Suc (h_pos h)) (h_list h)"
  have l: "rev l = h_list h ! h_pos h # rev (take (h_pos h) (h_list h))" using h by (simp add: sound_def take_Suc_conv_app_nth l_def)
  have "strip (h\<lparr>h_list := xs @ [s], h_pos := length xs\<rparr>) = (rev xs, s, [])" for xs by (simp add: strip_def)
  then have "strip (put_step h s) = (rev (drop (length l - 49) l), s, [])" unfolding put_step_eq Let_def l_def [symmetric] by blast
  moreover have "rev (drop (length l - 49) l) = take 49 (rev l)" by (simp add: take_rev)
  ultimately show ?thesis by (simp add: strip_def l LIMIT_def)
qed

text \<open>
  C13: The history is a strip of steps: undo and redo move along it, and a change that does not join the step before it is put
  after the sheet that is shown, drops what was undone and keeps the last 49 steps.
\<close>

theorem history_is_a_strip:
  assumes "edited h"
  shows "strip (fst (undo h)) = strip_undo (strip h) \<and> strip (fst (redo h)) = strip_redo (strip h) \<and>
    (\<not> joins h now key \<and> s \<noteq> h_list h ! h_pos h \<longrightarrow> strip (fst (record_step h s now key)) = strip_put s (strip h))"
proof -
  have "strip (h\<lparr>h_key := k, h_at := t\<rparr>) = strip h" for h k t by (simp add: strip_def)
  then show ?thesis using edited_sound [OF assms] by (simp add: strip_undo_eq strip_redo_eq strip_put_eq record_step_def)
qed

text \<open>
  A history never holds more than fifty sheets, and no two neighbours in it are the same, so every undo and every redo
  that is possible changes the sheet.
\<close>

theorem undo_changes_the_sheet:
  assumes "edited h"
  shows "length (h_list h) \<le> 50 \<and> (canUndo h \<longrightarrow> snd (undo h) \<notin> {None, Some (h_list h ! h_pos h)}) \<and>
    (canRedo h \<longrightarrow> snd (redo h) \<notin> {None, Some (h_list h ! h_pos h)})"
proof -
  have h: "sound h" by (rule edited_sound [OF assms])
  have "canUndo h \<longrightarrow> h_list h ! (h_pos h - 1) \<noteq> h_list h ! h_pos h"
    using h by (cases "h_pos h") (auto simp: sound_def canUndo_def)
  moreover have "canRedo h \<longrightarrow> h_list h ! Suc (h_pos h) \<noteq> h_list h ! h_pos h"
    using h by (auto simp: sound_def canRedo_def)
  ultimately show ?thesis using h by (auto simp: sound_def LIMIT_def undo_def redo_def Let_def)
qed

text \<open>
  C39: A letter typed and taken back leaves the key of its step behind. The next letter of the same field, typed in time, joins
  the step before: the sheet \<open>a\<close> is overwritten, undo goes past it to \<open>z\<close> and no redo comes back to it.
\<close>

theorem typing_back_loses_a_step:
  assumes "distinct [z, a, b, c]" "k \<noteq> []" "t1 - t0 < MERGE" "t2 - t1 < MERGE" "k1 \<noteq> Some k"
  shows "let h = fst (record_step (new_history z) a s0 k1);
             h = fst (record_step h b t0 (Some k)); h = fst (record_step h a t1 (Some k)); h = fst (record_step h c t2 (Some k))
         in h_list h = [z, c] \<and> snd (undo h) = Some z \<and> a \<notin> set (h_list h)"
proof -
  have n: "a \<noteq> z" "b \<noteq> a" "b \<noteq> z" "c \<noteq> a" "c \<noteq> z" "a \<noteq> b" using assms(1) by auto
  define h1 where "h1 = \<lparr>h_list = [z, a], h_pos = 1, h_key = key_or_null k1, h_at = s0\<rparr>"
  have 1: "fst (record_step (new_history z) a s0 k1) = h1"
    using n by (simp add: record_step_def joins_def new_history_def put_step_def LIMIT_def h1_def)
  have "\<not> joins h1 t0 (Some k)" using assms(2,5) by (auto simp: joins_def key_or_null_def h1_def)
  then have 2: "fst (record_step h1 b t0 (Some k)) = \<lparr>h_list = [z, a, b], h_pos = 2, h_key = Some k, h_at = t0\<rparr>"
    using n assms(2) by (simp add: record_step_def put_step_def LIMIT_def h1_def key_or_null_def)
  have 3: "fst (record_step \<lparr>h_list = [z, a, b], h_pos = 2, h_key = Some k, h_at = t0\<rparr> a t1 (Some k)) = \<lparr>h_list = [z, a], h_pos = 1, h_key = Some k, h_at = t1\<rparr>"
    using n assms(2,3) by (simp add: record_step_def joins_def key_or_null_def join_step_def)
  have 4: "fst (record_step \<lparr>h_list = [z, a], h_pos = 1, h_key = Some k, h_at = t1\<rparr> c t2 (Some k)) = \<lparr>h_list = [z, c], h_pos = 1, h_key = Some k, h_at = t2\<rparr>"
    using n assms(2,4) by (simp add: record_step_def joins_def key_or_null_def join_step_def Let_def)
  show ?thesis unfolding 1 Let_def 2 3 4 using n by (simp add: undo_def canUndo_def)
qed

text \<open>Two sheets and a third: undo and redo move along them.\<close>

definition two_steps :: history where "two_steps = fst (record_step (new_history [65]) [66] 0 None)"

lemma two_steps_edited: "edited two_steps" unfolding two_steps_def by (intro edited.intros)

lemma two_steps_strip: "strip two_steps = ([[65]], [66], [])" by code_simp

lemma history_is_a_strip_witness:
  "strip (fst (undo two_steps)) = ([], [65], [[66]]) \<and> strip (fst (redo two_steps)) = ([[65]], [66], []) \<and>
   strip (fst (record_step two_steps [67] 5 None)) = ([[66], [65]], [67], [])"
proof -
  have "\<not> joins two_steps 5 None \<and> [67] \<noteq> h_list two_steps ! h_pos two_steps" by code_simp
  then show ?thesis using history_is_a_strip [OF two_steps_edited, of 5 None "[67]"] by (simp add: two_steps_strip LIMIT_def)
qed

lemma typing_back_loses_a_step_witness:
  "let h = fst (record_step (new_history [1]) [2] 0 None);
       h = fst (record_step h [3] 100 (Some [7])); h = fst (record_step h [2] 200 (Some [7])); h = fst (record_step h [4] 300 (Some [7]))
   in h_list h = [[1], [4]] \<and> snd (undo h) = Some [1] \<and> [2] \<notin> set (h_list h)"
  by (rule typing_back_loses_a_step) (simp_all add: MERGE_def)

end
