(* ===== verification/Plan_Days.thy ===== *)
theory Plan_Days
  imports Duell_Prelude
begin

text \<open>
  Days of the calendar, as \<open>satz.js\<close> counts them: a day is the number of days since 1 January 1970. \<open>Date\<close> and
  \<open>Date.UTC\<close> of the language are the ones of its specification (\<open>DayFromYear\<close>, \<open>YearFromTime\<close>), for days within its
  range of a hundred million. Then Easter, the public holidays, and the days a relative period means.
\<close>

section \<open>Days, months, years\<close>

definition day_from_year :: "int \<Rightarrow> int" where
  "day_from_year y = 365 * (y - 1970) + (y - 1969) div 4 - (y - 1901) div 100 + (y - 1601) div 400"

definition leap :: "int \<Rightarrow> bool" where "leap y \<longleftrightarrow> y mod 4 = 0 \<and> (y mod 100 \<noteq> 0 \<or> y mod 400 = 0)"

definition year_of :: "int \<Rightarrow> int" where
  "year_of d = (let y = 1970 + 400 * d div 146097 in if d < day_from_year y then y - 1 else if day_from_year (y + 1) \<le> d then y + 1 else y)"

text \<open>The days of a year before its months.\<close>

definition before_month :: "bool \<Rightarrow> int \<Rightarrow> int" where
  "before_month l m = [0, 31, 59, 90, 120, 151, 181, 212, 243, 273, 304, 334, 365] ! nat (m - 1) + (if l \<and> 3 \<le> m then 1 else 0)"

definition month_of :: "bool \<Rightarrow> int \<Rightarrow> int" where
  "month_of l n = 1 + int (length (filter (\<lambda>m. before_month l m \<le> n) [2..12]))"

definition ymd :: "int \<Rightarrow> int \<times> int \<times> int" where
  "ymd day = (let y = year_of day; n = day - day_from_year y; m = month_of (leap y) n in (y, m, n - before_month (leap y) m + 1))"

text \<open>\<open>Date.UTC\<close> takes the years 0 to 99 for 1900 to 1999; a day past the end of its month runs on.\<close>

definition dayOf :: "int \<Rightarrow> int \<Rightarrow> int \<Rightarrow> int" where
  "dayOf y m d = (let y = (if 0 \<le> y \<and> y \<le> 99 then 1900 + y else y) in day_from_year y + before_month (leap y) m + d - 1)"

definition wd :: "int \<Rightarrow> int" where "wd day = (day + 4) mod 7"

definition mon :: "int \<Rightarrow> int" where "mon day = js_rem (wd day + 6) 7"

lemma mon_eq: "mon d = (d + 3) mod 7"
proof -
  have "0 \<le> wd d + 6" by (simp add: wd_def)
  then have "mon d = ((d + 4) mod 7 + 6) mod 7" by (simp add: mon_def js_rem_nonneg wd_def)
  then show ?thesis by presburger
qed

lemma mon_range: "0 \<le> mon d" "mon d \<le> 6" by (simp_all add: mon_eq)

lemma div_between:
  fixes x k :: int
  assumes "0 < k"
  shows "k * (x div k) \<le> x \<and> x < k * (x div k) + k"
  using assms pos_mod_bound [of k x] pos_mod_sign [of k x] by (simp add: minus_mod_eq_mult_div [symmetric])

lemma div_step:
  fixes x k :: int
  assumes "0 < k"
  shows "(x + 1) div k = x div k + (if (x + 1) mod k = 0 then 1 else 0)"
proof (cases "(x + 1) mod k = 0")
  case True
  then obtain q where "x + 1 = k * q" by blast
  then have q: "x = k * (q - 1) + (k - 1)" "x + 1 = k * q" by (simp_all add: algebra_simps)
  have "x div k = q - 1" unfolding q(1) using assms by simp
  moreover have "(x + 1) div k = q" unfolding q(2) using assms by simp
  ultimately show ?thesis using True by simp
next
  case False
  let ?q = "(x + 1) div k" and ?r = "(x + 1) mod k"
  have "x = k * ?q + (?r - 1)" using mult_div_mod_eq [of k "x + 1"] by linarith
  moreover have "0 \<le> ?r - 1" "?r - 1 < k"
    using False assms pos_mod_sign [of k "x + 1"] pos_mod_bound [of k "x + 1"] by linarith+
  ultimately have "x div k = ?q" by (rule int_div_pos_eq)
  with False show ?thesis by simp
qed

lemma mod_shift: "(y - k * c) mod k = y mod (k::int)"
  using mod_mult_self2 [of y k "- c"] by simp

lemma year_length: "day_from_year (y + 1) = day_from_year y + (if leap y then 366 else 365)"
proof -
  define p q r where "p \<longleftrightarrow> y mod 4 = 0" and "q \<longleftrightarrow> y mod 100 = 0" and "r \<longleftrightarrow> y mod 400 = 0"
  define a b c where "a = (y - 1969) div 4" and "b = (y - 1901) div 100" and "c = (y - 1601) div 400"
  have "(y - 1969 + 1) div 4 = a + (if p then 1 else 0)"
    using div_step [of 4 "y - 1969"] mod_shift [of y 4 492] by (simp add: algebra_simps a_def p_def)
  moreover have "(y - 1901 + 1) div 100 = b + (if q then 1 else 0)"
    using div_step [of 100 "y - 1901"] mod_shift [of y 100 19] by (simp add: algebra_simps b_def q_def)
  moreover have "(y - 1601 + 1) div 400 = c + (if r then 1 else 0)"
    using div_step [of 400 "y - 1601"] mod_shift [of y 400 4] by (simp add: algebra_simps c_def r_def)
  moreover have "r \<Longrightarrow> q" unfolding r_def q_def by (rule dvd_imp_mod_0, rule dvd_trans [of 100 400]) auto
  moreover have "q \<Longrightarrow> p" unfolding q_def p_def by (rule dvd_imp_mod_0, rule dvd_trans [of 4 100]) auto
  moreover have "day_from_year (y + 1) = 365 * (y - 1970) + 365 + (y - 1969 + 1) div 4 - (y - 1901 + 1) div 100 + (y - 1601 + 1) div 400"
    by (simp add: day_from_year_def)
  moreover have "day_from_year y = 365 * (y - 1970) + a - b + c" by (simp add: day_from_year_def a_def b_def c_def)
  moreover have "leap y \<longleftrightarrow> p \<and> (\<not> q \<or> r)" by (simp add: leap_def p_def q_def r_def)
  ultimately show ?thesis by (cases p; cases q; cases r) simp_all
qed

lemma year_mono: "y < z \<Longrightarrow> day_from_year y + 365 \<le> day_from_year z"
proof -
  assume "y < z"
  then obtain n where n: "z = y + 1 + int n" by (metis zle_iff_zadd add1_zle_eq)
  have "day_from_year y + 365 \<le> day_from_year (y + 1 + int n)" for n
  proof (induction n)
    case 0
    then show ?case using year_length [of y] by simp
  next
    case (Suc n)
    have "y + 1 + int (Suc n) = y + 1 + int n + 1" by simp
    then show ?case using Suc year_length [of "y + 1 + int n"] by (simp only:) (simp split: if_splits)
  qed
  then show ?thesis by (simp add: n)
qed

lemma year_mono_le: "y \<le> z \<Longrightarrow> day_from_year y \<le> day_from_year z"
  using year_mono [of y z] by (cases "y = z") auto

lemma year_guess:
  fixes y d :: int
  assumes "146097 * (y - 1970) \<le> 400 * d" "400 * d < 146097 * (y - 1970) + 146097"
  shows "day_from_year y \<le> d + 2" "d < day_from_year y + 367"
proof -
  have f: "e \<le> d + 2 \<and> d < e + 367"
    if "4 * q \<le> y - 1969" "y - 1969 < 4 * q + 4" "100 * r \<le> y - 1901" "y - 1901 < 100 * r + 100" "400 * t \<le> y - 1601" "y - 1601 < 400 * t + 400"
      "e = 365 * (y - 1970) + q - r + t" for q r t e
  proof -
    have "400 * e = 146000 * (y - 1970) + 100 * (4 * q) - 4 * (100 * r) + 400 * t" using that(7) by simp
    moreover have "100 * (4 * q) \<le> 100 * (y - 1969)" "100 * (y - 1972) \<le> 100 * (4 * q)" using that(1,2) by simp_all
    moreover have "4 * (100 * r) \<le> 4 * (y - 1901)" "4 * (y - 2000) \<le> 4 * (100 * r)" using that(3,4) by simp_all
    moreover have "400 * t \<le> y - 1601" "y - 2000 \<le> 400 * t" using that(5,6) by simp_all
    ultimately have "400 * e \<le> 400 * d + 589" "400 * d \<le> 400 * e + 146602" using assms by (simp_all add: algebra_simps)
    then show ?thesis by simp
  qed
  have "day_from_year y \<le> d + 2 \<and> d < day_from_year y + 367"
    by (rule f [OF _ _ _ _ _ _ day_from_year_def]) (rule div_between [THEN conjunct1] div_between [THEN conjunct2], simp)+
  then show "day_from_year y \<le> d + 2" "d < day_from_year y + 367" by simp_all
qed

lemma year_bounds: "day_from_year (year_of d) \<le> d" "d < day_from_year (year_of d + 1)"
proof -
  define y where "y = 1970 + 400 * d div 146097"
  have "146097 * (y - 1970) \<le> 400 * d" "400 * d < 146097 * (y - 1970) + 146097"
    using div_between [of 146097 "400 * d"] by (simp_all add: y_def)
  then have "day_from_year y \<le> d + 2" "d < day_from_year y + 367" by (rule year_guess)+
  moreover have "day_from_year y + 365 \<le> day_from_year (y + 1)" "day_from_year (y + 1) + 365 \<le> day_from_year (y + 2)"
    "day_from_year (y - 1) + 365 \<le> day_from_year y" by (rule year_mono, simp)+
  moreover have "year_of d = (if d < day_from_year y then y - 1 else if day_from_year (y + 1) \<le> d then y + 1 else y)"
    by (simp add: year_of_def y_def Let_def)
  ultimately show "day_from_year (year_of d) \<le> d" "d < day_from_year (year_of d + 1)" by (auto simp: add.assoc)
qed

lemma year_unique: "day_from_year y \<le> d \<Longrightarrow> d < day_from_year (y + 1) \<Longrightarrow> year_of d = y"
proof (cases "year_of d" y rule: linorder_cases)
  case less
  then have "day_from_year (year_of d + 1) \<le> day_from_year y" by (intro year_mono_le) simp
  moreover assume "day_from_year y \<le> d"
  ultimately show ?thesis using year_bounds [of d] by simp
next
  case greater
  then have "day_from_year (y + 1) \<le> day_from_year (year_of d)" by (intro year_mono_le) simp
  moreover assume "d < day_from_year (y + 1)"
  ultimately show ?thesis using year_bounds [of d] by simp
qed

section \<open>Dates and days\<close>

definition month_length :: "bool \<Rightarrow> int \<Rightarrow> int" where
  "month_length l m = before_month l (m + 1) - before_month l m"

definition real_date :: "int \<Rightarrow> int \<Rightarrow> int \<Rightarrow> bool" where
  "real_date y m d \<longleftrightarrow> \<not> (0 \<le> y \<and> y \<le> 99) \<and> 1 \<le> m \<and> m \<le> 12 \<and> 1 \<le> d \<and> d \<le> month_length (leap y) m"

lemma months: "1 \<le> m \<Longrightarrow> m \<le> 12 \<Longrightarrow> m \<in> {1, 2, 3, 4, 5, 6, 7, 8, 9, 10, 11, 12 :: int}"
  by simp presburger

lemma month_found:
  assumes "1 \<le> m" "m \<le> 12" "before_month l m \<le> n" "n < before_month l (m + 1)"
  shows "month_of l n = m"
proof -
  have u: "[2..12] = [2, 3, 4, 5, 6, 7, 8, 9, 10, 11, 12 :: int]" by code_simp
  show ?thesis using months [OF assms(1,2)] assms(3,4)
    by (elim insertE emptyE; cases l) (simp_all add: month_of_def u before_month_def)
qed

lemma before_13: "before_month l 13 = (if l then 366 else 365)" by (simp add: before_month_def)

lemma month_exists:
  assumes "0 \<le> n" "n < before_month l 13"
  shows "\<exists>m. 1 \<le> m \<and> m \<le> 12 \<and> before_month l m \<le> n \<and> n < before_month l (m + 1)"
proof (rule ccontr)
  assume c: "\<not> ?thesis"
  have "before_month l 1 \<le> n" using assms(1) by (simp add: before_month_def)
  moreover have s: "before_month l m \<le> n \<Longrightarrow> before_month l (m + 1) \<le> n" if "1 \<le> m" "m \<le> 12" for m using c that by force
  ultimately have "before_month l 13 \<le> n"
    using s [of 1] s [of 2] s [of 3] s [of 4] s [of 5] s [of 6] s [of 7] s [of 8] s [of 9] s [of 10] s [of 11] s [of 12] by simp
  with assms(2) show False by simp
qed

text \<open>What \<open>Date\<close> makes of a day is a date of the calendar, and \<open>Date.UTC\<close> gives the day back.\<close>

lemma ymd_cases:
  obtains y m d where "ymd day = (y, m, d)" "year_of day = y" "1 \<le> m" "m \<le> 12" "1 \<le> d" "d \<le> month_length (leap y) m"
    "day = day_from_year y + before_month (leap y) m + d - 1"
proof -
  let ?y = "year_of day" let ?n = "day - day_from_year ?y"
  have "0 \<le> ?n" "?n < before_month (leap ?y) 13"
    using year_bounds [of day] year_length [of ?y] by (auto simp: before_13)
  then obtain m where m: "1 \<le> m" "m \<le> 12" "before_month (leap ?y) m \<le> ?n" "?n < before_month (leap ?y) (m + 1)"
    using month_exists by blast
  then have "month_of (leap ?y) ?n = m" by (rule month_found)
  then show ?thesis using m that [of ?y m "?n - before_month (leap ?y) m + 1"]
    by (simp add: ymd_def Let_def month_length_def)
qed

lemma dayOf_inside:
  assumes "1 \<le> m" "m \<le> 12" "1 \<le> d" "d \<le> month_length l m"
  shows "0 \<le> before_month l m + d - 1" "before_month l m + d - 1 < before_month l 13"
proof -
  have "before_month l (m + 1) \<le> before_month l 13 \<and> 0 \<le> before_month l m"
    using months [OF assms(1,2)] by (elim insertE emptyE) (simp_all add: before_month_def)
  then show "0 \<le> before_month l m + d - 1" "before_month l m + d - 1 < before_month l 13"
    using assms(3,4) by (simp_all add: month_length_def)
qed

lemma dayOf_eq: "\<not> (0 \<le> y \<and> y \<le> 99) \<Longrightarrow> dayOf y m d = day_from_year y + (before_month (leap y) m + d - 1)"
  by (auto simp: dayOf_def)

text \<open>
  Every date of the calendar is found again from its day.
\<close>

theorem date_is_found_again:
  assumes "real_date y m d"
  shows "ymd (dayOf y m d) = (y, m, d)"
proof -
  let ?l = "leap y"
  have y: "dayOf y m d = day_from_year y + (before_month ?l m + d - 1)" using assms by (intro dayOf_eq) (simp add: real_date_def)
  have i: "0 \<le> before_month ?l m + d - 1" "before_month ?l m + d - 1 < before_month ?l 13"
    using dayOf_inside assms by (simp_all add: real_date_def)
  then have "year_of (dayOf y m d) = y" using year_length [of y] by (intro year_unique) (auto simp: y before_13)
  moreover have "month_of ?l (before_month ?l m + d - 1) = m"
    using assms by (intro month_found) (auto simp: real_date_def month_length_def)
  ultimately show ?thesis by (simp add: ymd_def y Let_def)
qed

theorem day_is_found_again:
  assumes "ymd day = (y, m, d)" "\<not> (0 \<le> y \<and> y \<le> 99)"
  shows "real_date y m d \<and> dayOf y m d = day"
  using assms dayOf_eq [of y m d] by (cases day rule: ymd_cases) (simp add: real_date_def)

section \<open>Easter and the public holidays\<close>

definition easter :: "int \<Rightarrow> int" where
  "easter y = (let a = js_rem y 19; b = y div 100; c = js_rem y 100; d = b div 4; e = js_rem b 4; f = (b + 8) div 25; g = (b - f + 1) div 3;
     h = js_rem (19 * a + b - d - g + 15) 30; i = c div 4; k = js_rem c 4; l = js_rem (32 + 2 * e + 2 * i - h - k) 7;
     m = (a + 11 * h + 22 * l) div 451; mo = (h + l - 7 * m + 114) div 31; da = js_rem (h + l - 7 * m + 114) 31 + 1
   in dayOf y mo da)"

definition holidays :: "int \<Rightarrow> (int \<times> string \<times> string) list" where
  "holidays y = (let e = easter y in
     [(dayOf y 1 1, ''Neujahr'', ''New Year's Day''), (e - 2, ''Karfreitag'', ''Good Friday''), (e + 1, ''Ostermontag'', ''Easter Monday''),
      (dayOf y 5 1, ''Tag der Arbeit'', ''Labour Day''), (e + 39, ''Christi Himmelfahrt'', ''Ascension Day''), (e + 50, ''Pfingstmontag'', ''Whit Monday''),
      (dayOf y 10 3, ''Tag der Deutschen Einheit'', ''German Unity Day''), (dayOf y 12 25, ''1. Weihnachtstag'', ''Christmas Day''),
      (dayOf y 12 26, ''2. Weihnachtstag'', ''Boxing Day'')])"

text \<open>The later entry of one day is the one the object keeps; no holiday is the empty text.\<close>

definition holiday :: "int \<Rightarrow> bool \<Rightarrow> string" where
  "holiday day en = (case map_of (rev (holidays (fst (ymd day)))) day of None \<Rightarrow> [] | Some (g, e) \<Rightarrow> if en then e else g)"

text \<open>The algorithm with the century split off: \<open>y = 400 d + 100 e + 4 i + k\<close>.\<close>

lemma easter_parts:
  fixes d e i k h l :: int
  assumes "0 \<le> e" "e < 4" "0 \<le> i" "i < 25" "0 \<le> k" "k < 4" "y = 400 * d + 100 * e + 4 * i + k" "l = (32 + 2 * e + 2 * i - h - k) mod 7"
  shows "(day_from_year (y + 1) - 306 + h + l + 21 + 4) mod 7 = (0::int)"
proof -
  have "(y + 1 - 1969) div 4 = 100 * d + 25 * e + i - 492"
    unfolding assms(7) by (rule int_div_pos_eq [where r = k]) (use assms in simp_all)
  moreover have "(y + 1 - 1901) div 100 = 4 * d + e - 19"
    unfolding assms(7) by (rule int_div_pos_eq [where r = "4 * i + k"]) (use assms in simp_all)
  moreover have "(y + 1 - 1601) div 400 = d - 4"
    unfolding assms(7) by (rule int_div_pos_eq [where r = "100 * e + 4 * i + k"]) (use assms in simp_all)
  ultimately have "day_from_year (y + 1) - 306 + h + l + 21 + 4 = 365 * (y + 1 - 1970) + (100 * d + 25 * e + i - 492) - (4 * d + e - 19) + (d - 4) - 281 + h + l"
    by (simp add: day_from_year_def)
  also have "\<dots> = (l - (32 + 2 * e + 2 * i - h - k)) + 7 * (20871 * d + 5218 * e + 209 * i + 52 * k - 102773)"
    unfolding assms(7) by (simp add: algebra_simps)
  also have "\<dots> mod 7 = (l - (32 + 2 * e + 2 * i - h - k)) mod 7" by (rule mod_mult_self2)
  also have "\<dots> = 0" unfolding assms(8) by (simp add: mod_diff_left_eq)
  finally show ?thesis .
qed

text \<open>March and April from the days since the first of March.\<close>

lemma spring_day:
  assumes "100 \<le> y" "114 \<le> n" "n \<le> 148"
  shows "dayOf y (n div 31) (n mod 31 + 1) = day_from_year (y + 1) - 306 + (n - 93)"
proof -
  have l: "day_from_year (y + 1) = day_from_year y + (if leap y then 366 else 365)" by (rule year_length)
  have e: "dayOf y m d = day_from_year y + (before_month (leap y) m + d - 1)" for m d using assms(1) by (intro dayOf_eq) simp
  show ?thesis
  proof (cases "n < 124")
    case True
    then have "n div 31 = 3" "n mod 31 = n - 93" using assms(2) int_div_pos_eq [of n 31 3 "n - 93"] int_mod_pos_eq [of n 31 3 "n - 93"] by simp_all
    then show ?thesis using l by (simp add: e before_month_def)
  next
    case False
    then have "n div 31 = 4" "n mod 31 = n - 124" using assms(3) int_div_pos_eq [of n 31 4 "n - 124"] int_mod_pos_eq [of n 31 4 "n - 124"] by simp_all
    then show ?thesis using l by (simp add: e before_month_def)
  qed
qed

lemma easter_eq:
  assumes "100 \<le> y"
  obtains h l m n where "0 \<le> h" "h \<le> 29" "0 \<le> l" "l \<le> 6" "n = h + l - 7 * m + 21" "0 \<le> n - 21" "n - 21 \<le> 34"
    "easter y = day_from_year (y + 1) - 306 + n" "(day_from_year (y + 1) - 306 + h + l + 21 + 4) mod 7 = 0"
proof -
  define a b c where "a = y mod 19" and "b = y div 100" and "c = y mod 100"
  define d e f where "d = b div 4" and "e = b mod 4" and "f = (b + 8) div 25"
  define g where "g = (b - f + 1) div 3"
  define h where "h = (19 * a + b - d - g + 15) mod 30"
  define i k where "i = c div 4" and "k = c mod 4"
  define l where "l = (32 + 2 * e + 2 * i - h - k) mod 7"
  define m where "m = (a + 11 * h + 22 * l) div 451"
  have y: "y = 100 * b + c" "b = 4 * d + e" "c = 4 * i + k" by (simp_all add: b_def c_def d_def e_def i_def k_def)
  have r: "0 \<le> a" "a \<le> 18" "1 \<le> b" "0 \<le> c" "c \<le> 99" "0 \<le> e" "e \<le> 3" "0 \<le> k" "k \<le> 3" "0 \<le> i" "i \<le> 24" "0 \<le> h" "h \<le> 29" "0 \<le> l" "l \<le> 6"
  proof -
    have "l < 7" unfolding l_def by (rule pos_mod_bound) simp
    then show "l \<le> 6" by simp
  qed (use assms in \<open>simp_all add: a_def b_def c_def e_def k_def i_def h_def l_def\<close>)
  have f: "0 \<le> f" "3 * g \<le> b - f + 1" "4 * d \<le> b"
    using r(3) div_between [of 3 "b - f + 1"] div_between [of 4 b] by (simp_all add: f_def g_def d_def)
  then have p: "0 \<le> 19 * a + b - d - g + 15" using r by linarith
  have q: "0 \<le> 32 + 2 * e + 2 * i - h - k" using r by linarith
  have m: "m = (if 451 \<le> a + 11 * h + 22 * l then 1 else 0)"
    using r by (auto simp: m_def intro!: int_div_pos_eq [where r = "a + 11 * h + 22 * l - 451"] div_pos_pos_trivial)
  have "easter y = dayOf y ((h + l - 7 * m + 114) div 31) ((h + l - 7 * m + 114) mod 31 + 1)"
  proof -
    have "0 \<le> h + l - 7 * m + 114" using r m by simp
    then show ?thesis using p q r assms
      by (simp add: easter_def Let_def js_rem_nonneg flip: a_def b_def c_def d_def e_def f_def g_def h_def i_def k_def l_def m_def)
  qed
  moreover have n: "0 \<le> h + l - 7 * m" "h + l - 7 * m \<le> 34" using r m by (auto split: if_splits)
  ultimately have "easter y = day_from_year (y + 1) - 306 + (h + l - 7 * m + 21)" using spring_day [OF assms] by simp
  moreover have "(day_from_year (y + 1) - 306 + h + l + 21 + 4) mod 7 = 0"
    by (rule easter_parts [where d = d and e = e and i = i and k = k]) (use r y in \<open>simp_all add: l_def\<close>)
  ultimately show ?thesis using that [of h l "h + l - 7 * m + 21" m] r n by simp
qed

text \<open>
  C40: Easter as the algorithm finds it is a Sunday from 22 March to 25 April, in every year from 100 on.
\<close>

theorem easter_is_a_sunday_in_spring:
  assumes "100 \<le> y"
  shows "wd (easter y) = 0 \<and> dayOf y 3 22 \<le> easter y \<and> easter y \<le> dayOf y 4 25"
proof -
  obtain h l m n where n: "n = h + l - 7 * m + 21" "0 \<le> n - 21" "n - 21 \<le> 34" "easter y = day_from_year (y + 1) - 306 + n"
    "(day_from_year (y + 1) - 306 + h + l + 21 + 4) mod 7 = 0" using easter_eq [OF assms] by metis
  have "easter y + 4 = (day_from_year (y + 1) - 306 + h + l + 21 + 4) + 7 * (- m)" using n(1,4) by simp
  then have "wd (easter y) = 0" unfolding wd_def by (simp only: mod_mult_self2 n(5))
  moreover have "dayOf y 3 22 = day_from_year (y + 1) - 306 + 21" "dayOf y 4 25 = day_from_year (y + 1) - 306 + 55"
    using spring_day [OF assms, of 114] spring_day [OF assms, of 148] by simp_all
  ultimately show ?thesis using n by simp
qed

lemma date_is_found_again_witness: "ymd (dayOf 2024 2 29) = (2024, 2, 29)"
  by (rule date_is_found_again) (simp add: real_date_def month_length_def before_month_def leap_def)

lemma easter_is_a_sunday_in_spring_witness: "wd (easter 2026) = 0 \<and> dayOf 2026 3 22 \<le> easter 2026 \<and> easter 2026 \<le> dayOf 2026 4 25"
  by (rule easter_is_a_sunday_in_spring) simp

end
