(* ===== verification/Plan_Slots.thy ===== *)
theory Plan_Slots
  imports Plan_Days
begin

text \<open>
  From the rule read off a sentence to the slots of a poll, \<open>slots\<close> of \<open>satz.js\<close>: the days a period means, the hours of the
  grid, what the profile rules out, and the choice of at most five slots. A slot is \<open>day * 10 + hour\<close>. Texts of a rule are
  HOL strings and none of them is the name of a property every object has; sentences are not read here.
\<close>

section \<open>Periods\<close>

definition monthEnd :: "int \<Rightarrow> int" where
  "monthEnd day = (let (y, m, d) = ymd day in dayOf (if m = 12 then y + 1 else y) (if m = 12 then 1 else m + 1) 1 - 1)"

definition period :: "string \<Rightarrow> int \<Rightarrow> int list" where
  "period z today = (let m = mon today; y = fst (ymd today) in
     if z = ''heute'' then [today]
     else if z = ''morgen'' then [today + 1]
     else if z = ''diese_woche'' then [today..today + 6 - m]
     else if z = ''dieses_wochenende'' then (if m = 6 then [today] else [today + 5 - m..today + 6 - m])
     else if z = ''naechste_woche'' then [today + 7 - m..today + 13 - m]
     else if z = ''naechstes_wochenende'' then
       (if m \<le> 4 then [today + 5 - m, today + 6 - m, today + 12 - m, today + 13 - m] else [today + 12 - m, today + 13 - m])
     else if z = ''in_zwei_wochen'' then (let t = today + 14 in [t - mon t..t - mon t + 6])
     else if z = ''diesen_monat'' then [today..monthEnd today]
     else if z = ''naechsten_monat'' then (let s = monthEnd today + 1 in [s..monthEnd s])
     else if z = ''vor_weihnachten'' then
       (let x = dayOf y 12 23; x = (if today > x then dayOf (y + 1) 12 23 else x) in [max today (x - 22)..x])
     else if z = ''zwischen_den_jahren'' then
       (let a = dayOf y 12 27; a = (if today > a + 3 then dayOf (y + 1) 12 27 else a) in [max today a..a + 3])
     else [today + 1..today + 14])"

section \<open>Hours\<close>

definition HOURS_plan :: "int list" where "HOURS_plan = [10, 12, 14, 15, 16, 17, 18, 19, 20]"

definition MAX_plan :: nat where "MAX_plan = 5"

text \<open>The distances to the said time, in sixtieths of an hour.\<close>

definition nearest :: "int \<Rightarrow> int \<Rightarrow> nat" where
  "nearest h mi = fold (\<lambda>i best. if \<bar>60 * HOURS_plan ! i - (60 * h + mi)\<bar> \<le> \<bar>60 * HOURS_plan ! best - (60 * h + mi)\<bar> then i else best) [0..<9] 0"

definition TZ :: "string \<Rightarrow> nat option" where
  "TZ = map_of [(''morgens'', 0), (''vormittags'', 0), (''mittags'', 1), (''nachmittags'', 3), (''abends'', 6)]"

definition digit_of :: "char \<Rightarrow> int option" where
  "digit_of c = (let n = of_char c :: int in if 48 \<le> n \<and> n \<le> 57 then Some (n - 48) else None)"

text \<open>\<open>/^(\d{1,2}):(\d{2})$/\<close> with the two numbers.\<close>

definition clock_in :: "string \<Rightarrow> (int \<times> int) option" where
  "clock_in s = (let two = (\<lambda>a b. case (digit_of a, digit_of b) of (Some x, Some y) \<Rightarrow> Some (10 * x + y) | _ \<Rightarrow> None) in
     case s of
       [a, d, b, c] \<Rightarrow> (case (digit_of a, two b c) of (Some h, Some m) \<Rightarrow> if d = CHR '':'' then Some (h, m) else None | _ \<Rightarrow> None)
     | [x, a, d, b, c] \<Rightarrow> (case (two x a, two b c) of (Some h, Some m) \<Rightarrow> if d = CHR '':'' then Some (h, m) else None | _ \<Rightarrow> None)
     | _ \<Rightarrow> None)"

record plan_rule =
  r_uhrzeit :: "string option"
  r_tageszeiten :: "string list"
  r_wochentage :: "string list"
  r_zeitraum :: string

text \<open>\<open>o_now\<close> is the hour of the clock, \<open>o_day\<close> the date the sentence names.\<close>

record plan_opt =
  o_today :: int
  o_now :: "int option"
  o_no :: "string list"
  o_def :: "nat option"
  o_day :: "int option"

definition said_hour :: "plan_rule \<Rightarrow> (int \<times> int) option" where
  "said_hour r = (case r_uhrzeit r of None \<Rightarrow> None | Some t \<Rightarrow> clock_in t)"

definition hours_of :: "plan_rule \<Rightarrow> plan_opt \<Rightarrow> nat list" where
  "hours_of r p = (let hs = (case said_hour r of Some (h, mi) \<Rightarrow> [nearest h mi]
       | None \<Rightarrow> fold (\<lambda>z hs. case TZ z of Some h \<Rightarrow> if h \<in> set hs then hs else hs @ [h] | None \<Rightarrow> hs) (r_tageszeiten r) []);
     hs = (if hs = [] then [case o_def p of None \<Rightarrow> 6 | Some d \<Rightarrow> d] else hs) in sort hs)"

definition rounded_of :: "plan_rule \<Rightarrow> string" where
  "rounded_of r = (case (said_hour r, r_uhrzeit r) of
     (Some (h, mi), Some t) \<Rightarrow> if HOURS_plan ! nearest h mi \<noteq> h \<or> mi \<noteq> 0 then t else [] | _ \<Rightarrow> [])"

section \<open>Slots\<close>

text \<open>\<open>opt.day || 0\<close>, where the day 0 is none.\<close>

definition fixed_day :: "plan_opt \<Rightarrow> int option" where "fixed_day p = (case o_day p of Some d \<Rightarrow> if d = 0 then None else Some d | None \<Rightarrow> None)"

definition WD :: "string list" where "WD = [''so'', ''mo'', ''di'', ''mi'', ''do'', ''fr'', ''sa'']"

definition day_asked :: "plan_rule \<Rightarrow> plan_opt \<Rightarrow> int \<Rightarrow> bool" where
  "day_asked r p d \<longleftrightarrow> o_today p \<le> d \<and> (fixed_day p \<noteq> None \<or> r_wochentage r = [] \<or> WD ! nat (wd d) \<in> set (r_wochentage r))"

definition left_out :: "plan_opt \<Rightarrow> int \<Rightarrow> bool" where "left_out p d \<longleftrightarrow> fixed_day p = None \<and> holiday d False \<noteq> []"

definition over_for_today :: "plan_opt \<Rightarrow> int \<Rightarrow> nat \<Rightarrow> bool" where
  "over_for_today p d h \<longleftrightarrow> d = o_today p \<and> HOURS_plan ! h \<le> (case o_now p of None \<Rightarrow> 24 | Some n \<Rightarrow> n)"

definition ruled_out :: "plan_opt \<Rightarrow> int \<Rightarrow> nat \<Rightarrow> bool" where
  "ruled_out p d h \<longleftrightarrow> ''sa'' \<in> set (o_no p) \<and> wd d = 6 \<or> ''so'' \<in> set (o_no p) \<and> wd d = 0 \<or>
     ''tag'' \<in> set (o_no p) \<and> mon d < 5 \<and> HOURS_plan ! h < 17 \<or> ''abend'' \<in> set (o_no p) \<and> HOURS_plan ! h \<ge> 20"

definition day_slots :: "plan_opt \<Rightarrow> nat list \<Rightarrow> int \<Rightarrow> int list" where
  "day_slots p hs d = map (\<lambda>h. d * 10 + int h) (filter (\<lambda>h. \<not> over_for_today p d h \<and> \<not> ruled_out p d h) hs)"

text \<open>The index of day \<open>i\<close> of \<open>nd\<close> days spread over \<open>l\<close>, \<open>Math.round(i * (l - 1) / (nd - 1))\<close>.\<close>

definition spread_at :: "nat \<Rightarrow> nat \<Rightarrow> nat \<Rightarrow> nat" where
  "spread_at l nd i = (if nd = 1 then 0 else (2 * i * (l - 1) + (nd - 1)) div (2 * (nd - 1)))"

definition pick_slots :: "nat \<Rightarrow> int list list \<Rightarrow> int list" where
  "pick_slots hours byDay = (if length (concat byDay) \<le> MAX_plan then concat byDay
     else let nd = max 1 (MAX_plan div max 1 hours) in
       take MAX_plan (if length byDay \<le> nd then concat byDay else concat (map (\<lambda>i. byDay ! spread_at (length byDay) nd i) [0..<nd])))"

record plan_slots =
  s_slots :: "int list"
  s_skipped :: "int list"
  s_rounded :: string
  s_none :: bool
  s_day :: int

definition plan_days :: "plan_rule \<Rightarrow> plan_opt \<Rightarrow> int list" where
  "plan_days r p = filter (day_asked r p) (case fixed_day p of Some d \<Rightarrow> [d] | None \<Rightarrow> period (r_zeitraum r) (o_today p))"

definition slots :: "plan_rule \<Rightarrow> plan_opt \<Rightarrow> plan_slots" where
  "slots r p = (let hs = hours_of r p; days = plan_days r p; kept = filter (\<lambda>d. \<not> left_out p d) days;
       byDay = filter (\<lambda>l. l \<noteq> []) (map (day_slots p hs) kept);
       ruled = sum_list (map (\<lambda>d. length (filter (\<lambda>h. \<not> over_for_today p d h \<and> ruled_out p d h) hs)) kept)
     in \<lparr>s_slots = pick_slots (length hs) byDay, s_skipped = filter (left_out p) days, s_rounded = rounded_of r,
         s_none = (byDay = [] \<and> 0 < ruled), s_day = (case fixed_day p of Some d \<Rightarrow> d | None \<Rightarrow> 0)\<rparr>)"

section \<open>Deadlines\<close>

text \<open>The day a task is due, 0 for none; a deadline nobody knows is none.\<close>

definition FRIST :: "string \<Rightarrow> int option option" where
  "FRIST = map_of [(''sofort'', None), (''2_wochen_vorher'', Some (-14)), (''1_woche_vorher'', Some (-7)), (''3_tage_vorher'', Some (-3)),
     (''1_tag_vorher'', Some (-1)), (''am_tag'', Some 0), (''danach'', Some 1)]"

definition due :: "string \<Rightarrow> int \<Rightarrow> int \<Rightarrow> int" where
  "due f event today = (if f = ''offen'' then 0 else case FRIST f of None \<Rightarrow> 0
     | Some x \<Rightarrow> max today (case x of None \<Rightarrow> today | Some n \<Rightarrow> event + n))"

lemma due_not_past: "due f event today = 0 \<or> today \<le> due f event today"
  by (auto simp: due_def split: option.split)

section \<open>Periods lie ahead\<close>

lemma year_from_1970: "0 \<le> day \<Longrightarrow> 1970 \<le> year_of day"
proof (rule ccontr)
  assume "0 \<le> day" "\<not> 1970 \<le> year_of day"
  moreover from this have "day_from_year (year_of day + 1) \<le> day_from_year 1970" by (intro year_mono_le) simp
  moreover have "day_from_year 1970 = 0" by (simp add: day_from_year_def)
  ultimately show False using year_bounds [of day] by simp
qed

lemma monthEnd_ahead: "0 \<le> day \<Longrightarrow> day \<le> monthEnd day"
proof -
  assume day: "0 \<le> day"
  obtain y m d where c: "ymd day = (y, m, d)" "year_of day = y" "1 \<le> m" "m \<le> 12" "1 \<le> d" "d \<le> month_length (leap y) m"
    "day = day_from_year y + before_month (leap y) m + d - 1" by (rule ymd_cases)
  have y: "1970 \<le> y" using year_from_1970 [OF day] c(2) by simp
  show ?thesis
  proof (cases "m = 12")
    case True
    have "dayOf (y + 1) 1 1 = day_from_year (y + 1)" using y dayOf_eq [of "y + 1" 1 1] by (simp add: before_month_def)
    then show ?thesis using True c(1,2) year_bounds [of day] by (simp add: monthEnd_def)
  next
    case False
    have "dayOf y (m + 1) 1 = day_from_year y + before_month (leap y) (m + 1)" using y dayOf_eq [of y "m + 1" 1] by simp
    then show ?thesis using False c by (simp add: monthEnd_def month_length_def)
  qed
qed

lemma range_ahead: "a \<le> b \<Longrightarrow> t \<le> a \<Longrightarrow> sorted_wrt (<) [a..b] \<and> [a..b] \<noteq> [] \<and> (\<forall>d \<in> set [a..b]. t \<le> d)"
  by simp

text \<open>A period has a day, its days come in order and none of them is past.\<close>

lemma period_ahead:
  assumes "0 \<le> today"
  shows "sorted_wrt (<) (period z today) \<and> period z today \<noteq> [] \<and> (\<forall>d \<in> set (period z today). today \<le> d)"
proof -
  define y where "y = fst (ymd today)"
  have y: "1970 \<le> y" "today < day_from_year (y + 1)"
    using year_from_1970 [OF assms] year_bounds [of today] by (simp_all add: y_def ymd_def Let_def)
  have n: "today \<le> dayOf (y + 1) 12 d" if "1 \<le> d" for d
    using y that dayOf_eq [of "y + 1" 12 d] by (simp add: before_month_def)
  have e: "today \<le> monthEnd today" "monthEnd today + 1 \<le> monthEnd (monthEnd today + 1)"
    using monthEnd_ahead [OF assms] monthEnd_ahead [of "monthEnd today + 1"] assms by simp_all
  have m: "0 \<le> mon d" "mon d \<le> 6" for d by (rule mon_range)+
  show ?thesis unfolding period_def Let_def y_def [symmetric]
    using e m [of today] m [of "today + 14"] n [of 23] n [of 27] by auto
qed

section \<open>What a slot promises\<close>

lemma nearest_small: "nearest h mi < 9"
proof -
  have "fold (\<lambda>i best. if c i best then i else best) ks b < 9" if "\<forall>i \<in> set ks. i < 9" "b < 9" for c ks and b :: nat
    using that by (induction ks arbitrary: b) auto
  then show ?thesis by (simp add: nearest_def)
qed

lemma TZ_small: "TZ z = Some h \<Longrightarrow> h < 9"
  by (auto simp: TZ_def split: if_splits)

lemma hours_sorted:
  assumes "\<forall>d. o_def p = Some d \<longrightarrow> d < 9"
  shows "sorted_wrt (<) (hours_of r p) \<and> (\<forall>h \<in> set (hours_of r p). h < 9) \<and> hours_of r p \<noteq> []"
proof -
  let ?f = "\<lambda>z hs. case TZ z of Some h \<Rightarrow> if h \<in> set hs then hs else hs @ [h] | None \<Rightarrow> hs"
  have f: "distinct (fold ?f zs l) \<and> (\<forall>h \<in> set (fold ?f zs l). h < 9)" if "distinct l" "\<forall>h \<in> set l. h < 9" for zs l
    using that
  proof (induction zs arbitrary: l)
    case (Cons z zs)
    have "distinct (?f z l) \<and> (\<forall>h \<in> set (?f z l). h < 9)" using Cons.prems TZ_small [of z] by (simp split: option.split)
    then show ?case using Cons.IH [of "?f z l"] by simp
  qed simp
  obtain hs where hs: "hours_of r p = sort hs" "distinct hs" "\<forall>h \<in> set hs. h < 9" "hs \<noteq> []"
  proof (cases "said_hour r")
    case (Some t)
    then show ?thesis using that [of "[nearest (fst t) (snd t)]"] nearest_small by (cases t) (simp add: hours_of_def Let_def)
  next
    case None
    show ?thesis
    proof (cases "fold ?f (r_tageszeiten r) [] = []")
      case True
      then show ?thesis using None assms that [of "[case o_def p of None \<Rightarrow> 6 | Some d \<Rightarrow> d]"]
        by (simp add: hours_of_def Let_def split: option.splits)
    next
      case False
      then show ?thesis using None f [of "[]"] that [of "fold ?f (r_tageszeiten r) []"] by (simp add: hours_of_def Let_def)
    qed
  qed
  have "hours_of r p \<noteq> []" using hs(1,4) by (metis set_empty set_sort)
  then show ?thesis using hs by (simp add: strict_sorted_iff)
qed

text \<open>Lists of slots that follow each other: each in order, and each before the next.\<close>

definition in_blocks :: "int list list \<Rightarrow> bool" where
  "in_blocks B \<longleftrightarrow> (\<forall>l \<in> set B. sorted_wrt (<) l) \<and> sorted_wrt (\<lambda>k l. \<forall>x \<in> set k. \<forall>y \<in> set l. x < y) B"

lemma blocks_concat: "in_blocks B \<Longrightarrow> sorted_wrt (<) (concat B)"
  by (induction B) (auto simp: in_blocks_def sorted_wrt_append)

lemma blocks_chosen:
  assumes "in_blocks B" "sorted_wrt (<) is" "\<forall>i \<in> set is. i < length B"
  shows "in_blocks (map ((!) B) is)"
proof -
  have "sorted_wrt (\<lambda>k l. \<forall>x \<in> set k. \<forall>y \<in> set l. x < y) (map ((!) B) is)"
    unfolding sorted_wrt_map
    by (rule sorted_wrt_mono_rel [OF _ assms(2)]) (use assms(1,3) in \<open>auto simp: in_blocks_def sorted_wrt_iff_nth_less\<close>)
  then show ?thesis using assms(1,3) by (auto simp: in_blocks_def)
qed

lemma blocks_filter: "in_blocks B \<Longrightarrow> in_blocks (filter Q B)"
  by (auto simp: in_blocks_def sorted_wrt_filter)

lemma day_slots_in: "s \<in> set (day_slots p hs d) \<Longrightarrow> \<exists>h \<in> set hs. s = d * 10 + int h \<and> \<not> over_for_today p d h \<and> \<not> ruled_out p d h"
  by (auto simp: day_slots_def)

lemma days_blocks:
  assumes "sorted_wrt (<) ds" "sorted_wrt (<) hs" "\<forall>h \<in> set hs. h < 9"
  shows "in_blocks (map (day_slots p hs) ds)"
proof -
  have "sorted_wrt (<) (day_slots p hs d)" for d
    unfolding day_slots_def sorted_wrt_map by (rule sorted_wrt_mono_rel [OF _ sorted_wrt_filter [OF assms(2)]]) simp
  moreover have "x < y" if "d < e" "x \<in> set (day_slots p hs d)" "y \<in> set (day_slots p hs e)" for d e x y
    using day_slots_in [OF that(2)] day_slots_in [OF that(3)] that(1) assms(3) by fastforce
  then have "sorted_wrt (\<lambda>k l. \<forall>x \<in> set k. \<forall>y \<in> set l. x < y) (map (day_slots p hs) ds)"
    unfolding sorted_wrt_map by (intro sorted_wrt_mono_rel [OF _ assms(1)]) blast
  ultimately show ?thesis by (auto simp: in_blocks_def)
qed

lemma spread_increases:
  assumes "2 \<le> nd" "nd < l"
  shows "sorted_wrt (<) (map (spread_at l nd) [0..<nd])" "\<forall>i < nd. spread_at l nd i < l"
proof -
  define k where "k = nd - 1"
  have k: "0 < k" "k < l - 1" "nd = Suc k" using assms by (simp_all add: k_def)
  have s: "spread_at l nd i = (2 * i * (l - 1) + k) div (2 * k)" for i using k by (simp add: spread_at_def)
  have "spread_at l nd i < spread_at l nd j" if "i < j" for i j
  proof -
    have "2 * (i + 1) * (l - 1) \<le> 2 * j * (l - 1)" using that by (intro mult_le_mono1) simp
    moreover have "2 * k \<le> 2 * (l - 1)" using k by simp
    ultimately have "2 * i * (l - 1) + k + 2 * k \<le> 2 * j * (l - 1) + k" by (simp add: algebra_simps)
    then have "(2 * i * (l - 1) + k + 2 * k) div (2 * k) \<le> spread_at l nd j" unfolding s by (rule div_le_mono)
    moreover have "(2 * i * (l - 1) + k + 2 * k) div (2 * k) = spread_at l nd i + 1"
      unfolding s using k(1) by (intro div_add_self2) simp
    ultimately show ?thesis by simp
  qed
  then show "sorted_wrt (<) (map (spread_at l nd) [0..<nd])"
    unfolding sorted_wrt_map by (intro sorted_wrt_mono_rel [OF _ sorted_wrt_upt]) auto
  have "spread_at l nd i < l" if "i < nd" for i
  proof -
    have "2 * i * (l - 1) \<le> 2 * k * (l - 1)" using that k by (intro mult_le_mono1) simp
    then have "spread_at l nd i \<le> (2 * k * (l - 1) + k) div (2 * k)" unfolding s by (intro div_le_mono) simp
    also have "\<dots> = l - 1" by (rule div_nat_eqI) (use k(1) in \<open>simp_all add: distrib_left\<close>)
    finally show ?thesis using k by simp
  qed
  then show "\<forall>i < nd. spread_at l nd i < l" by blast
qed

lemma picked_slots:
  assumes "in_blocks B"
  shows "length (pick_slots n B) \<le> 5" "sorted_wrt (<) (pick_slots n B)" "set (pick_slots n B) \<subseteq> set (concat B)"
proof -
  define nd where "nd = max 1 (MAX_plan div max 1 n)"
  define C where "C = (if length B \<le> nd then concat B else concat (map (\<lambda>i. B ! spread_at (length B) nd i) [0..<nd]))"
  have c: "sorted_wrt (<) C \<and> set C \<subseteq> set (concat B)"
  proof (cases "length B \<le> nd")
    case True
    then show ?thesis using blocks_concat [OF assms] by (simp add: C_def)
  next
    case False
    let ?i = "map (spread_at (length B) nd) [0..<nd]"
    have "sorted_wrt (<) ?i \<and> (\<forall>i \<in> set ?i. i < length B)"
    proof (cases "nd = 1")
      case True
      then show ?thesis using False by (cases B) (simp_all add: spread_at_def)
    next
      case nd: False
      then have "2 \<le> nd" by (simp add: nd_def)
      then show ?thesis using spread_increases [of nd "length B"] False by simp
    qed
    then have "in_blocks (map ((!) B) ?i)" "set (map ((!) B) ?i) \<subseteq> set B"
      using blocks_chosen [OF assms, of ?i] by simp_all (simp add: image_subset_iff)
    then have "in_blocks (map ((!) B) ?i)" "set (concat (map ((!) B) ?i)) \<subseteq> set (concat B)" unfolding set_concat by blast+
    moreover have "C = concat (map ((!) B) ?i)" using False by (simp add: C_def comp_def)
    ultimately show ?thesis using blocks_concat by simp
  qed
  have "pick_slots n B = (if length (concat B) \<le> MAX_plan then concat B else take MAX_plan C)"
    by (simp add: pick_slots_def C_def nd_def Let_def)
  then show "length (pick_slots n B) \<le> 5" "sorted_wrt (<) (pick_slots n B)" "set (pick_slots n B) \<subseteq> set (concat B)"
    using c blocks_concat [OF assms] by (auto simp: MAX_plan_def sorted_wrt_take dest: in_set_takeD)
qed

lemma plan_days_sorted:
  assumes "0 \<le> o_today p"
  shows "sorted_wrt (<) (plan_days r p)"
proof -
  have "sorted_wrt (<) (case fixed_day p of Some d \<Rightarrow> [d] | None \<Rightarrow> period (r_zeitraum r) (o_today p))"
    using period_ahead [OF assms] by (simp split: option.split)
  then show ?thesis unfolding plan_days_def by (rule sorted_wrt_filter)
qed

lemma asked_slots:
  assumes "0 \<le> o_today p" "\<forall>d. o_def p = Some d \<longrightarrow> d < 9" "s \<in> set (s_slots (slots r p))"
  shows "length (s_slots (slots r p)) \<le> 5 \<and> sorted_wrt (<) (s_slots (slots r p)) \<and>
    (\<exists>d h. s = d * 10 + int h \<and> h < 9 \<and> h \<in> set (hours_of r p) \<and> o_today p \<le> d \<and> \<not> over_for_today p d h \<and> \<not> ruled_out p d h \<and>
       (case fixed_day p of Some e \<Rightarrow> d = e
        | None \<Rightarrow> d \<in> set (period (r_zeitraum r) (o_today p)) \<and> holiday d False = [] \<and> (r_wochentage r = [] \<or> WD ! nat (wd d) \<in> set (r_wochentage r))))"
proof -
  let ?hs = "hours_of r p" let ?kept = "filter (\<lambda>d. \<not> left_out p d) (plan_days r p)"
  let ?B = "filter (\<lambda>l. l \<noteq> []) (map (day_slots p ?hs) ?kept)"
  note h = hours_sorted [OF assms(2), of r]
  have b: "in_blocks ?B"
    using h by (intro blocks_filter days_blocks sorted_wrt_filter plan_days_sorted assms(1)) simp_all
  have e: "s_slots (slots r p) = pick_slots (length ?hs) ?B" by (simp add: slots_def Let_def)
  from assms(3) have "s \<in> set (concat ?B)" unfolding e using picked_slots(3) [OF b] by blast
  then obtain d where d: "d \<in> set ?kept" "s \<in> set (day_slots p ?hs d)" by auto
  then obtain k where k: "k \<in> set ?hs" "s = d * 10 + int k" "\<not> over_for_today p d k" "\<not> ruled_out p d k" using day_slots_in by blast
  have "o_today p \<le> d \<and> (case fixed_day p of Some e \<Rightarrow> d = e
        | None \<Rightarrow> d \<in> set (period (r_zeitraum r) (o_today p)) \<and> holiday d False = [] \<and> (r_wochentage r = [] \<or> WD ! nat (wd d) \<in> set (r_wochentage r)))"
    using d(1) by (auto simp: plan_days_def day_asked_def left_out_def split: option.splits)
  moreover have "k < 9" using h k(1) by blast
  ultimately show ?thesis unfolding e using picked_slots(1,2) [OF b] k by blast
qed

text \<open>
  C24: The slots of a poll are at most five, all different and in order. None of them is past, each is at an hour the rule
  asks for or the usual one, on a day of the period and of the week it asks for, and outside the times the profile rules
  out; none is on a public holiday, unless the sentence named that very date.
\<close>

theorem slots_are_asked_for:
  assumes "0 \<le> o_today p" "\<forall>d. o_def p = Some d \<longrightarrow> d < 9" "s \<in> set (s_slots (slots r p))"
  shows "length (s_slots (slots r p)) \<le> 5 \<and> sorted_wrt (<) (s_slots (slots r p)) \<and>
    (\<exists>d h. s = d * 10 + int h \<and> h < 9 \<and> h \<in> set (hours_of r p) \<and> o_today p \<le> d \<and> \<not> over_for_today p d h \<and> \<not> ruled_out p d h \<and>
       (case fixed_day p of Some e \<Rightarrow> d = e
        | None \<Rightarrow> d \<in> set (period (r_zeitraum r) (o_today p)) \<and> holiday d False = [] \<and> (r_wochentage r = [] \<or> WD ! nat (wd d) \<in> set (r_wochentage r))))"
  by (rule asked_slots [OF assms])

section \<open>A sentence asked for in October\<close>

text \<open>Friday, 4 October 2024: an evening next week.\<close>

definition evening :: plan_rule where
  "evening = \<lparr>r_uhrzeit = None, r_tageszeiten = [''abends''], r_wochentage = [], r_zeitraum = ''naechste_woche''\<rparr>"

definition friday :: plan_opt where
  "friday = \<lparr>o_today = 20000, o_now = None, o_no = [''so''], o_def = None, o_day = None\<rparr>"

lemma holidays_2024: "map fst (holidays 2024) = [19723, 19811, 19814, 19844, 19852, 19863, 19999, 20082, 20083]"
proof -
  have "easter 2024 = 19813" by code_simp
  then show ?thesis by (simp add: holidays_def Let_def dayOf_def day_from_year_def leap_def before_month_def)
qed

lemma no_holiday: "fst (ymd d) = 2024 \<Longrightarrow> d \<notin> set (map fst (holidays 2024)) \<Longrightarrow> holiday d False = []"
proof -
  assume "fst (ymd d) = 2024" "d \<notin> set (map fst (holidays 2024))"
  moreover from this have "map_of (rev (holidays 2024)) d = None" by (simp add: map_of_eq_None_iff)
  ultimately show ?thesis by (simp add: holiday_def)
qed

lemma evening_free: "d \<in> {20003..20009} \<Longrightarrow> \<not> left_out friday d"
proof -
  assume d: "d \<in> {20003..20009}"
  have "day_from_year 2024 = 19723" "day_from_year 2025 = 20089" by (simp_all add: day_from_year_def)
  then have "year_of d = 2024" using d by (intro year_unique) simp_all
  then have "holiday d False = []" using d by (intro no_holiday) (simp add: ymd_def Let_def, simp add: holidays_2024)
  then show ?thesis by (simp add: left_out_def)
qed

lemma evening_parts:
  "hours_of evening friday = [6]" "plan_days evening friday = [20003..20009]"
  "filter (\<lambda>l. l \<noteq> []) (map (day_slots friday [6]) [20003..20009]) = [[200036], [200046], [200056], [200066], [200076], [200086]]"
  "pick_slots 1 [[200036], [200046], [200056], [200066], [200076], [200086]] = [200036, 200046, 200066, 200076, 200086]"
  by code_simp+

lemma evening_slots: "s_slots (slots evening friday) = [200036, 200046, 200066, 200076, 200086]"
proof -
  have "filter (\<lambda>d. \<not> left_out friday d) [20003..20009] = [20003..20009]" using evening_free by (simp add: filter_id_conv)
  then show ?thesis using evening_parts by (simp only: slots_def Let_def plan_slots.simps) simp
qed

lemma slots_are_asked_for_witness:
  "\<exists>d h. 200066 = d * 10 + int h \<and> h \<in> set (hours_of evening friday) \<and> d \<in> set (period ''naechste_woche'' 20000) \<and> holiday d False = []"
proof -
  have "0 \<le> o_today friday" "fixed_day friday = None" "o_def friday = None" "o_today friday = 20000" "r_zeitraum evening = ''naechste_woche''"
    by (simp_all add: friday_def evening_def fixed_day_def)
  moreover have "200066 \<in> set (s_slots (slots evening friday))" by (simp add: evening_slots)
  ultimately show ?thesis using slots_are_asked_for [of friday 200066 evening] by auto
qed

end
