(* ===== verification/Plan_Poll.thy ===== *)
theory Plan_Poll
  imports Plan_Slots Turn_Games7 Shop_Ok
begin

text \<open>
  From a sentence to a poll: the slots that \<open>satz.js\<close> computes are an opening the date card of \<open>turns.js\<close> accepts, and
  every device that opens the link accepts it again.
\<close>

lemma nats_ints: "\<forall>n \<in> set ns. 0 \<le> n \<Longrightarrow> nats (JArr (map JInt ns)) = Some (map nat ns)"
  using all_some_map [of ns "as_nat \<circ> JInt" nat] by (simp add: nats_def as_nat_def comp_def cong: map_cong)

lemma slot_shape:
  assumes "0 \<le> o_today p" "\<forall>d. o_def p = Some d \<longrightarrow> d < 9" "s \<in> set (s_slots (slots r p))"
  shows "0 \<le> s \<and> nat s mod 10 < 9"
proof -
  obtain d h where d: "s = d * 10 + int h" "h < 9" "o_today p \<le> d" using asked_slots [OF assms] by blast
  then have "nat s = nat d * 10 + h" using assms(1) by (simp add: nat_add_distrib nat_mult_distrib)
  then have "nat s mod 10 = h" using d(2) by simp
  then show ?thesis using d assms(1) by simp
qed

text \<open>
  C25: Two or more slots found for a sentence, with a name, are an opening of the date card: a poll made from a sentence is
  accepted by every device that opens its link, until the days have seven digits.
\<close>

theorem plan_opens_a_poll:
  assumes "0 \<le> o_today p" "\<forall>d. o_def p = Some d \<longrightarrow> d < 9" "2 \<le> length (s_slots (slots r p))"
    and "\<forall>s \<in> set (s_slots (slots r p)). s \<le> 9999999" "nameOk u n"
  shows "slots_ok u (JArr [JStr n, JArr (map JInt (s_slots (slots r p)))]) m"
proof -
  let ?s = "s_slots (slots r p)"
  have i: "0 \<le> s \<and> nat s mod 10 < 9" if "s \<in> set ?s" for s using slot_shape assms(1,2) that by blast
  have "?s \<noteq> []" using assms(3) by auto
  then obtain s where "s \<in> set ?s" by (cases ?s) auto
  from asked_slots [OF assms(1,2) this] have l: "length ?s \<le> 5" "sorted_wrt (<) ?s" by blast+
  have "nats (JArr (map JInt ?s)) = Some (map nat ?s)" using i by (intro nats_ints) blast
  moreover have hours: "length HOURS = 9" by (simp add: HOURS_def)
  have "list_all (\<lambda>x. x \<le> 9999999 \<and> x mod 10 < length HOURS) (map nat ?s)"
    using i assms(4) hours by (auto simp: list_all_iff)
  moreover have "list_all (\<lambda>k. map nat ?s ! (k - 1) < map nat ?s ! k) [1..<length ?s]"
  proof -
    have k: "map nat ?s ! (k - 1) < map nat ?s ! k" if "1 \<le> k" "k < length ?s" for k
    proof -
      have "?s ! (k - 1) < ?s ! k" using l(2) that by (simp add: sorted_wrt_iff_nth_less)
      moreover have "0 \<le> ?s ! (k - 1)" using i that by simp
      moreover have "k - 1 < length ?s" using that by simp
      ultimately show ?thesis using that by (simp only: nth_map)
    qed
    show ?thesis unfolding list_all_iff by (intro ballI k, simp_all)
  qed
  ultimately show ?thesis using assms(3,5) l(1) by (simp add: slots_ok_def named_list_def)
qed

lemma plan_opens_a_poll_witness:
  "slots_ok plain (JArr [JStr [0xD83D, 0xDE00], JArr (map JInt (s_slots (slots evening friday)))]) []"
proof (rule plan_opens_a_poll)
  have "clean plain [0xD83D, 0xDE00] 12 = [0xD83D, 0xDE00]" by code_simp
  moreover have "fold_text plain [0xD83D, 0xDE00] \<noteq> []" by (simp add: fold_text_def plain_def fold_char_def)
  ultimately show "nameOk plain [0xD83D, 0xDE00]" by (simp add: nameOk_def high_surrogate_def low_surrogate_def)
qed (simp_all only: evening_slots, simp_all add: friday_def)

end
