(* ===== verification/Spec2Isabelle.thy ===== *)
theory Spec2Isabelle
  imports Skat_Samples Bauernskat_Audit Doko_Samples Call_Samples RpsLive_Correct Shop_Ok Turn_Samples Poker Link_Samples Table_Samples Edit_History Plan_Poll
begin

text \<open>
  The core logic of the web apps of this repository, and its correctness: the card rules, the tables they are played at, the
  games and sheets that travel in links, the question packs, building together, and voice calls. Everything is JavaScript
  under \<open>src/apps/duell-web/src\<close> and \<open>src/apps/call-core\<close>; file names below are relative to these directories.

  The parts and how they interact.
  There is no game server. A device takes links and messages from other devices, which it does not trust, cleans or checks
  them, and computes the same state as the others. Three rule engines (\<open>skat.js\<close>, \<open>bauernskat.js\<close>, \<open>doko.js\<close>) are pure
  functions on a public state; \<open>table.js\<close> plays them between devices with the cards of \<open>mpoker.js\<close>, and replays and audits every
  hand at its end. \<open>turns.js\<close> plays games in which a link is the whole game: it seals the moves, cuts what a link holds to moves
  the screens could have given, and joins the lists of a group. \<open>daily.js\<close> cleans the sheets a link carries, with the sanitizers
  of \<open>core.js\<close>, \<open>duel.js\<close>, \<open>quest.js\<close>, \<open>turns.js\<close> and \<open>quizpack.js\<close>; \<open>editmodel.js\<close> keeps the history of a sheet in the editor;
  \<open>collab.js\<close> lets two devices edit one sheet; \<open>rpslive.js\<close> plays a hand game with commitments. In \<open>call-core\<close> a call is a session
  (\<open>CallSession\<close>) of an endpoint (\<open>CallEndpoint\<close>) that exchange the messages of \<open>protocol.js\<close>.

  Conventions.
  Records and datatypes have the fields and the cases of the source; a function has the name of the function it models, with a
  suffix (\<open>_bs\<close> Bauernskat, \<open>_dk\<close> Doppelkopf) where two modules use one name. Integers are unbounded where the source keeps to
  whole numbers, and wrapped where it uses 32-bit operators or typed arrays; other numbers are rational. A throw or an error
  answer is the left side of a sum or \<open>None\<close>. Strings are lists of UTF-16 code units (\<open>jstring\<close>) where their content matters,
  HOL strings where they are names. Values from outside are of the type \<open>json\<close>. Loops are recursive functions.

  Shared theories. \<open>Duell_Prelude\<close>: answers, runs of a step function, idioms of the language, lemmas on lists. \<open>Json\<close>, \<open>Json_Text\<close>:
  JSON values, UTF-8 lengths, \<open>JSON.stringify\<close> of what links carry. \<open>Text_Filter\<close>: the word filter. \<open>Rand\<close>: \<open>hash32\<close>, the
  generator \<open>mulberry32\<close>, shuffles. \<open>Cards\<close>: cards and decks. \<open>Rules_Interface\<close>: the interface of a rule engine as locales, with
  what follows for every engine (invariants along runs, the length of a hand), interpreted for the three engines.

  Card rules. \<open>Skat\<close>, \<open>Bauernskat\<close>, \<open>Doko\<close> hold the states and operations (start, apply, actions, the automatic move, result,
  audit). \<open>Skat_Correct\<close>, \<open>Bauernskat_Correct\<close>, \<open>Doko_Correct\<close>: the invariant of every reachable state and that each action keeps
  it; a measure that falls with every accepted action, so a hand has at most 165, 68 or 66 actions. \<open>Skat_Play\<close>, \<open>Skat_Audit\<close>,
  \<open>Bauernskat_Audit\<close>, \<open>Doko_Audit\<close>: tricks are won by the best card, offered moves are accepted, honest hands pass the audit, the
  automatic player finishes a hand. \<open>Skat_Score\<close>, \<open>Doko_Score\<close>: the value of a game and the points. \<open>Skat_Samples\<close>, \<open>Doko_Samples\<close>:
  whole hands evaluated in the kernel.

  Mental poker. \<open>Poker_Field\<close>: sixteen limbs as in the source, and that products refine products modulo \<open>2 ^ 255 - 19\<close>.
  \<open>Poker_Bytes\<close>: the limbs of the ladder stay where sums of products are exact doubles. \<open>Poker\<close>: scalars, shuffling, locking,
  \<open>verify\<close>, and the loop of \<open>invL\<close>, which ends because the second remainder falls. The random bytes are arguments.

  The card table. \<open>Table_Hand\<close>, \<open>Table_Play\<close>: one device's state of a hand (the record \<open>hand\<close>; everything it sends is its field
  \<open>mail\<close>), every message of \<open>game\<close>, \<open>settle\<close>, \<open>takeOver\<close>, \<open>finish\<close>, and the player's moves. \<open>Table_Seats\<close>: the seats, the house rules,
  the agreement that starts a hand, the end of a hand. \<open>Table_Correct\<close>: the locale \<open>card_table\<close> with the laws the table relies on;
  which keys leave a device when; the loops of \<open>bare\<close> and \<open>settle\<close> run with fuel one more than the actions of a hand, and
  \<open>bare_enough\<close> and \<open>ghost_enough\<close> show that more fuel changes nothing. \<open>Table_Safe\<close>, \<open>Table_Owner\<close>: seats that were handed over,
  cards that stay closed, whose cards are played, which hands are scored. \<open>Table_Agree\<close>: rules and starts the devices agree on.
  \<open>Table_Games\<close>: the three engines as \<open>card_table\<close>, and the properties for them. \<open>Table_Samples\<close>: hands at work.

  Links. \<open>Turns\<close>, \<open>Turn_Texts\<close>, \<open>Turn_Games\<close> to \<open>Turn_Games7\<close>, \<open>Steine\<close>: the engine and the cards of \<open>turns.js\<close>; \<open>Turn_Correct\<close>: what
  comes out of a link; \<open>Turn_Results\<close>: a finished card shows its result. \<open>Shop\<close>, \<open>Shop_Merge\<close>, \<open>Shop_Ok\<close>: lists of a group, with
  merging as a join. \<open>Sanitize\<close>, \<open>Sanitize_Ok\<close>, \<open>Daily_Doc\<close>, \<open>Daily_Doc_Ok\<close>, \<open>Daily_Trail\<close>, \<open>Quiz_Pack\<close>, \<open>Quiz_Pack_Ok\<close>: cleaning,
  and that cleaning again changes nothing. \<open>Edit_History\<close>: undo and redo as moves along a strip of steps. \<open>Plan_Days\<close>, \<open>Plan_Slots\<close>, \<open>Plan_Poll\<close>: the calendar of
  \<open>satz.js\<close>, the slots it finds for a sentence, and that the date card of \<open>turns.js\<close> takes them. \<open>Collab\<close>, \<open>Collab_Run\<close>,
  \<open>Collab_Correct\<close>, \<open>Collab_Limits\<close>: the replica of a sheet, convergence, what it sends. \<open>RpsLive\<close>, \<open>RpsLive_Correct\<close>: commit and reveal.

  Calls. \<open>Call_Protocol\<close>: messages and their parser, TURN credentials. \<open>CallCore\<close>: a session; each event of the source, timers and
  promises included, is a step. \<open>Call_Correct\<close>, \<open>Call_Safety\<close>, \<open>Call_Exchange\<close>: its invariant, its end, the microphone, the offers.
  \<open>Call_Endpoint\<close>: the endpoint. \<open>Call_Samples\<close>: runs, with four that do not go as the comments say.

  Parameters. What is not code of the repository is an argument: \<open>Number\<close>, \<open>String\<close> and \<open>JSON.parse\<close> of the platform, the tables
  and patterns of Unicode, SHA-256 and HMAC, random bytes, clocks, the connection and the media of a call. What is assumed of
  them is a named hypothesis (\<open>platform_ok\<close> and the like), each with an instance in the witnesses.

  Not modelled. Screens, drawing, sound, storage and network calls; the duels in real time, whose doubles and square roots a
  model in exact numbers would not be; Web Crypto of the sealed cards; the links, invites, queues and timers of a table, its
  pictures and names, and seats that are no whole numbers; the cards registered from other files; sentences read with regular
  expressions; the names of colours; build scripts; the Rust, Kotlin and Swift programs of the repository.
\<close>

end
